(* ===== verification/Prelude.thy ===== *)
theory Prelude
  imports Main
begin

text \<open>
  Shared vocabulary of the development: the outcome of a piece of C++ code, the
  state-and-exception monad in which the effectful functions are written, a small
  program logic for it, and the list lemmas that several components use.

  A computation over a world \<open>'w\<close> either returns a value or stops.  It stops because an
  exception is thrown, because it executes an operation whose behaviour the C++ standard leaves
  undefined (an unchecked index out of range, for instance), or because it waits for a key that
  the user has not pressed yet.  The world at the moment of stopping is kept, as C++ keeps the
  effects made before a \<open>throw\<close>.
\<close>

subsection \<open>Outcomes\<close>

text \<open>
  The exception types of \<open>libpqxx/include/pqxx/except.hxx\<close> that the modelled code can
  throw, and the ones of the C++ standard library.
\<close>

datatype exn =
    Invalid_argument
  | Out_of_range
  | Bad_optional_access
  | Failure string
  | Broken_connection
  | Usage_error string
  | In_doubt_error
  | Internal_error string
  | Conversion_error string
  | Conversion_overrun
  | Argument_error string
  | Range_error string
  | Unexpected_rows
  | Feature_not_supported string
  | Too_many_connections
  | Sql_error_class string string
  | Logic_error string
  | Runtime_error string
  | Overflow_error string
  | Bad_alloc

datatype undefined_op =
    Index_out_of_range
  | Row_out_of_range
  | Integer_overflow
  | Null_pointer
  | Failed_assertion
  | No_return_value

datatype stop = Throw exn | Undefined undefined_op | Waiting

type_synonym ('w, 'a) prog = "'w \<Rightarrow> (stop + 'a) \<times> 'w"

definition ret :: "'a \<Rightarrow> ('w, 'a) prog" where
  "ret a = (\<lambda>w. (Inr a, w))"

definition stop_with :: "stop \<Rightarrow> ('w, 'a) prog" where
  "stop_with s = (\<lambda>w. (Inl s, w))"

definition throw :: "exn \<Rightarrow> ('w, 'a) prog" where
  "throw e = stop_with (Throw e)"

definition bnd :: "('w, 'a) prog \<Rightarrow> ('a \<Rightarrow> ('w, 'b) prog) \<Rightarrow> ('w, 'b) prog" where
  "bnd m f = (\<lambda>w. case m w of (Inl s, w') \<Rightarrow> (Inl s, w') | (Inr a, w') \<Rightarrow> f a w')"

definition sq :: "('w, 'a) prog \<Rightarrow> ('w, 'b) prog \<Rightarrow> ('w, 'b) prog" where
  "sq m n = bnd m (\<lambda>_. n)"

definition gets :: "('w \<Rightarrow> 'a) \<Rightarrow> ('w, 'a) prog" where
  "gets f = (\<lambda>w. (Inr (f w), w))"

definition modify :: "('w \<Rightarrow> 'w) \<Rightarrow> ('w, unit) prog" where
  "modify f = (\<lambda>w. (Inr (), f w))"

definition whn :: "bool \<Rightarrow> ('w, unit) prog \<Rightarrow> ('w, unit) prog" where
  "whn b m = (if b then m else ret ())"

text \<open>A value that may be an exception, lifted into the monad.\<close>

definition lift_exn :: "exn + 'a \<Rightarrow> ('w, 'a) prog" where
  "lift_exn r = (case r of Inl e \<Rightarrow> throw e | Inr a \<Rightarrow> ret a)"

text \<open>
  \<open>guard_with m k\<close> runs \<open>m\<close> and then the destructor \<open>k\<close>, whether \<open>m\<close> returned or
  stopped with an exception (stack unwinding).  A computation that is still waiting for a key, or
  that has undefined behaviour, runs no destructor.
\<close>

definition guard_with :: "('w, 'a) prog \<Rightarrow> ('w \<Rightarrow> 'w) \<Rightarrow> ('w, 'a) prog" where
  "guard_with m k = (\<lambda>w. case m w of
       (Inl (Throw e), w') \<Rightarrow> (Inl (Throw e), k w')
     | (Inl s, w') \<Rightarrow> (Inl s, w')
     | (Inr a, w') \<Rightarrow> (Inr a, k w'))"

text \<open>\<open>try_catch m h\<close>: a \<open>catch\<close> clause for every exception.\<close>

definition try_catch :: "('w, 'a) prog \<Rightarrow> (exn \<Rightarrow> ('w, 'a) prog) \<Rightarrow> ('w, 'a) prog" where
  "try_catch m h = (\<lambda>w. case m w of (Inl (Throw e), w') \<Rightarrow> h e w' | r \<Rightarrow> r)"

text \<open>A \<open>for\<close> loop over the elements of a list.\<close>

fun for_each :: "'a list \<Rightarrow> ('a \<Rightarrow> ('w, unit) prog) \<Rightarrow> ('w, unit) prog" where
  "for_each [] f = ret ()"
| "for_each (x # xs) f = sq (f x) (for_each xs f)"

text \<open>An unchecked \<open>operator[]\<close> of a vector: undefined out of range.\<close>

definition vec_at :: "'a list \<Rightarrow> int \<Rightarrow> ('w, 'a) prog" where
  "vec_at xs i = (if 0 \<le> i \<and> i < int (length xs) then ret (xs ! nat i)
     else stop_with (Undefined Index_out_of_range))"

text \<open>A vector of the results of a loop that pushes back one element per iteration.\<close>

fun collect :: "'a list \<Rightarrow> ('a \<Rightarrow> ('w, 'b) prog) \<Rightarrow> ('w, 'b list) prog" where
  "collect [] f = ret []"
| "collect (x # xs) f = bnd (f x) (\<lambda>y. bnd (collect xs f) (\<lambda>ys. ret (y # ys)))"

text \<open>A string as a C function sees it: up to its first NUL.\<close>

definition c_str :: "string \<Rightarrow> string" where
  "c_str s = takeWhile (\<lambda>c. c \<noteq> CHR 0x00) s"

lemma c_str_simps [simp]:
  "c_str [] = []" "c_str (c # s) = (if c = CHR 0x00 then [] else c # c_str s)"
  by (simp_all add: c_str_def)

subsection \<open>Evaluation lemmas\<close>

named_theorems prog_simps \<open>equations that evaluate a computation at a world\<close>

lemma bnd_ret [simp]: "bnd (ret a) f = f a"
  by (simp add: bnd_def ret_def fun_eq_iff)

lemma bnd_assoc: "bnd (bnd m f) g = bnd m (\<lambda>a. bnd (f a) g)"
  by (auto simp: bnd_def fun_eq_iff split: prod.splits sum.splits)

lemma bnd_stop [simp]: "bnd (stop_with s) f = stop_with s"
  by (simp add: bnd_def stop_with_def fun_eq_iff)

lemma bnd_throw [simp]: "bnd (throw e) f = throw e"
  by (simp add: throw_def)

lemma sq_ret [simp]: "sq (ret a) m = m"
  by (simp add: sq_def)

lemma ret_app [prog_simps]: "ret a w = (Inr a, w)"
  by (simp add: ret_def)

lemma stop_app [prog_simps]: "stop_with s w = (Inl s, w)"
  by (simp add: stop_with_def)

lemma throw_app [prog_simps]: "throw e w = (Inl (Throw e), w)"
  by (simp add: throw_def stop_with_def)

lemma gets_app [prog_simps]: "gets f w = (Inr (f w), w)"
  by (simp add: gets_def)

lemma modify_app [prog_simps]: "modify f w = (Inr (), f w)"
  by (simp add: modify_def)

lemma bnd_app [prog_simps]:
  "bnd m f w = (case m w of (Inl s, w') \<Rightarrow> (Inl s, w') | (Inr a, w') \<Rightarrow> f a w')"
  by (simp add: bnd_def)

lemma sq_app [prog_simps]:
  "sq m n w = (case m w of (Inl s, w') \<Rightarrow> (Inl s, w') | (Inr a, w') \<Rightarrow> n w')"
  by (simp add: sq_def bnd_def)

lemma whn_app [prog_simps]: "whn b m w = (if b then m w else (Inr (), w))"
  by (simp add: whn_def ret_def)

subsection \<open>Invariants of computations\<close>

text \<open>
  \<open>keeps I m\<close>: the computation \<open>m\<close> keeps the invariant \<open>I\<close>, whether it returns or stops.
  \<open>triple P m Q E\<close> is the total form: from a world satisfying \<open>P\<close>, a returned value and its
  world satisfy \<open>Q\<close>, and a stop and its world satisfy \<open>E\<close>.
\<close>

definition keeps :: "('w \<Rightarrow> bool) \<Rightarrow> ('w, 'a) prog \<Rightarrow> bool" where
  "keeps I m \<longleftrightarrow> (\<forall>w. I w \<longrightarrow> I (snd (m w)))"

definition triple ::
  "('w \<Rightarrow> bool) \<Rightarrow> ('w, 'a) prog \<Rightarrow> ('a \<Rightarrow> 'w \<Rightarrow> bool) \<Rightarrow> (stop \<Rightarrow> 'w \<Rightarrow> bool) \<Rightarrow> bool" where
  "triple P m Q E \<longleftrightarrow>
     (\<forall>w. P w \<longrightarrow> (case m w of (Inr a, w') \<Rightarrow> Q a w' | (Inl s, w') \<Rightarrow> E s w'))"

named_theorems keeps_intros \<open>rules that establish an invariant of a computation\<close>

lemma keepsI: "(\<And>w. I w \<Longrightarrow> I (snd (m w))) \<Longrightarrow> keeps I m"
  by (simp add: keeps_def)

lemma keepsD: "keeps I m \<Longrightarrow> I w \<Longrightarrow> I (snd (m w))"
  by (simp add: keeps_def)

lemma keeps_ret [keeps_intros]: "keeps I (ret a)"
  by (simp add: keeps_def ret_def)

lemma keeps_stop [keeps_intros]: "keeps I (stop_with s)"
  by (simp add: keeps_def stop_with_def)

lemma keeps_throw [keeps_intros]: "keeps I (throw e)"
  by (simp add: keeps_def throw_def stop_with_def)

lemma keeps_gets [keeps_intros]: "keeps I (gets f)"
  by (simp add: keeps_def gets_def)

lemma keeps_modify: "(\<And>w. I w \<Longrightarrow> I (f w)) \<Longrightarrow> keeps I (modify f)"
  by (simp add: keeps_def modify_def)

lemma keeps_bnd [keeps_intros]: "keeps I m \<Longrightarrow> (\<And>a. keeps I (f a)) \<Longrightarrow> keeps I (bnd m f)"
  by (fastforce simp: keeps_def bnd_def split: prod.splits sum.splits dest: spec)

lemma keeps_sq [keeps_intros]: "keeps I m \<Longrightarrow> keeps I n \<Longrightarrow> keeps I (sq m n)"
  by (simp add: sq_def keeps_bnd)

lemma keeps_whn [keeps_intros]: "(b \<Longrightarrow> keeps I m) \<Longrightarrow> keeps I (whn b m)"
  by (simp add: whn_def keeps_ret)

lemma keeps_lift_exn [keeps_intros]: "keeps I (lift_exn r)"
  by (simp add: lift_exn_def keeps_throw keeps_ret split: sum.split)

lemma keeps_vec_at [keeps_intros]: "keeps I (vec_at xs i)"
  by (simp add: vec_at_def keeps_ret keeps_stop)

lemma keeps_if [keeps_intros]:
  "(b \<Longrightarrow> keeps I m) \<Longrightarrow> (\<not> b \<Longrightarrow> keeps I n) \<Longrightarrow> keeps I (if b then m else n)"
  by simp

lemma keeps_option [keeps_intros]:
  "keeps I m \<Longrightarrow> (\<And>a. keeps I (f a)) \<Longrightarrow> keeps I (case x of None \<Rightarrow> m | Some a \<Rightarrow> f a)"
  by (simp split: option.split)

lemma keeps_for_each [keeps_intros]: "(\<And>x. keeps I (f x)) \<Longrightarrow> keeps I (for_each xs f)"
  by (induction xs) (simp_all add: keeps_ret keeps_sq)

lemma keeps_collect [keeps_intros]: "(\<And>x. keeps I (f x)) \<Longrightarrow> keeps I (collect xs f)"
  by (induction xs) (simp_all add: keeps_ret keeps_bnd)

lemma keeps_guard_with:
  assumes "keeps I m" and "\<And>w. I w \<Longrightarrow> I (k w)"
  shows "keeps I (guard_with m k)"
proof (rule keepsI)
  fix w assume "I w"
  obtain r w' where r: "m w = (r, w')" by fastforce
  from \<open>I w\<close> assms(1) r have "I w'" by (metis keepsD snd_conv)
  with assms(2) r show "I (snd (guard_with m k w))"
    by (auto simp: guard_with_def split: sum.splits stop.splits)
qed

lemma keeps_try_catch [keeps_intros]:
  assumes "keeps I m" and "\<And>e. keeps I (h e)"
  shows "keeps I (try_catch m h)"
proof (rule keepsI)
  fix w assume "I w"
  obtain r w' where r: "m w = (r, w')" by fastforce
  from \<open>I w\<close> assms(1) r have "I w'" by (metis keepsD snd_conv)
  with assms(2) r show "I (snd (try_catch m h w))"
    by (auto simp: try_catch_def keepsD split: sum.splits stop.splits)
qed

lemma tripleI:
  assumes "\<And>w a w'. P w \<Longrightarrow> m w = (Inr a, w') \<Longrightarrow> Q a w'"
    and "\<And>w s w'. P w \<Longrightarrow> m w = (Inl s, w') \<Longrightarrow> E s w'"
  shows "triple P m Q E"
  unfolding triple_def using assms by (auto split: prod.splits sum.splits)

lemma tripleD: "triple P m Q E \<Longrightarrow> P w \<Longrightarrow> case m w of (Inr a, w') \<Rightarrow> Q a w' | (Inl s, w') \<Rightarrow> E s w'"
  by (simp add: triple_def)

lemma triple_ret: "(\<And>w. P w \<Longrightarrow> Q a w) \<Longrightarrow> triple P (ret a) Q E"
  by (simp add: triple_def ret_def)

lemma triple_bnd:
  assumes "triple P m R E" and "\<And>a. triple (R a) (f a) Q E"
  shows "triple P (bnd m f) Q E"
  using assms by (fastforce simp: triple_def bnd_def split: prod.splits sum.splits dest: spec)

lemma triple_weaken:
  "triple P m Q E \<Longrightarrow> (\<And>w. P' w \<Longrightarrow> P w) \<Longrightarrow> (\<And>a w. Q a w \<Longrightarrow> Q' a w) \<Longrightarrow>
     (\<And>s w. E s w \<Longrightarrow> E' s w) \<Longrightarrow> triple P' m Q' E'"
  by (fastforce simp: triple_def split: prod.splits sum.splits)

lemma triple_snd: "triple I m (\<lambda>_. I) (\<lambda>_. I) \<Longrightarrow> I w \<Longrightarrow> I (snd (m w))"
  by (cases "m w"; cases "fst (m w)") (force simp: triple_def)+

text \<open>
  The exception \<open>usage_error\<close> reports a misuse of libpqxx; a value is civil unless it is that
  exception.
\<close>

fun usage :: "exn \<Rightarrow> bool" where
  "usage (Usage_error m) = True"
| "usage e = False"

fun civil :: "exn + 'a \<Rightarrow> bool" where
  "civil (Inl e) = (\<not> usage e)"
| "civil (Inr a) = True"

named_theorems civil_rules \<open>conversions do not throw usage errors\<close>

lemma civilD: "civil r \<Longrightarrow> r = Inl e \<Longrightarrow> \<not> usage e"
  by simp

lemma civil_Inr [civil_rules]: "civil (Inr x)"
  by simp

end
