(* ===== verification/Console.thy ===== *)
theory Console
  imports Prelude
begin

text \<open>
  The terminal as the program sees it.  ncurses is not part of the repository: its output calls are
  recorded in the order in which they are made, the keys that \<open>getch\<close> will return are a list, and
  the cursor position that \<open>getyx\<close> reports is a function of the calls made so far (the parameter
  \<open>yx\<close>).  When the list of keys is used up, \<open>getch\<close> waits.

  The theory also has the loop combinator for the program's \<open>while (true)\<close> loops around
  \<open>getch\<close>.
\<close>

datatype attr = Color_pair int | A_reverse

datatype term_op =
    Initscr | Start_color | Cbreak | Keypad | Noecho | Endwin
  | Clear | Refresh
  | Printw string
  | Addch int
  | Acs string
  | Move int int
  | Mvaddch int int char
  | Attron attr
  | Attroff attr
  | Init_pair int int int
  | Init_color int int int int

record console =
  keys :: "int list"
  screen :: "term_op list"
  yx :: "term_op list \<Rightarrow> int \<times> int"

definition emit :: "term_op \<Rightarrow> ('z console_scheme, unit) prog" where
  "emit t = modify (\<lambda>w. w\<lparr>screen := screen w @ [t]\<rparr>)"

definition emits :: "term_op list \<Rightarrow> ('z console_scheme, unit) prog" where
  "emits ts = modify (\<lambda>w. w\<lparr>screen := screen w @ ts\<rparr>)"

definition getch :: "('z console_scheme, int) prog" where
  "getch = (\<lambda>w. case keys w of [] \<Rightarrow> (Inl Waiting, w) | k # ks \<Rightarrow> (Inr k, w\<lparr>keys := ks\<rparr>))"

definition getyx :: "('z console_scheme, int \<times> int) prog" where
  "getyx = gets (\<lambda>w. yx w (screen w))"

abbreviation KEY_DOWN :: int where "KEY_DOWN \<equiv> 258"
abbreviation KEY_UP :: int where "KEY_UP \<equiv> 259"
abbreviation KEY_BACKSPACE :: int where "KEY_BACKSPACE \<equiv> 263"
abbreviation KEY_DELETE :: int where "KEY_DELETE \<equiv> 8"
abbreviation KEY_ESC :: int where "KEY_ESC \<equiv> 27"
abbreviation KEY_NL :: int where "KEY_NL \<equiv> 10"
abbreviation KEY_TAB :: int where "KEY_TAB \<equiv> 9"

subsection \<open>Loops that read a key in every round\<close>

text \<open>
  A loop body takes the loop's variables and either continues with new ones (\<open>Inl\<close>) or returns
  (\<open>Inr\<close>).  Every round reads at least one key, so one more round than there are keys is enough;
  the equation \<open>while_keys_unfold\<close> says that the fuel is never the reason to stop.
\<close>

fun loop_fuel ::
  "nat \<Rightarrow> ('s \<Rightarrow> ('z console_scheme, 's + 'r) prog) \<Rightarrow> 's \<Rightarrow> ('z console_scheme, 'r) prog" where
  "loop_fuel 0 body s = stop_with Waiting"
| "loop_fuel (Suc n) body s =
     bnd (body s) (\<lambda>x. case x of Inl s' \<Rightarrow> loop_fuel n body s' | Inr r \<Rightarrow> ret r)"

definition while_keys ::
  "('s \<Rightarrow> ('z console_scheme, 's + 'r) prog) \<Rightarrow> 's \<Rightarrow> ('z console_scheme, 'r) prog" where
  "while_keys body s = (\<lambda>w. loop_fuel (Suc (length (keys w))) body s w)"

text \<open>\<open>no_new_keys m\<close>: \<open>m\<close> only removes keys.  \<open>reads_key m\<close>: when \<open>m\<close> returns, it removed one.\<close>

definition no_new_keys :: "('z console_scheme, 'a) prog \<Rightarrow> bool" where
  "no_new_keys m \<longleftrightarrow> (\<forall>w. length (keys (snd (m w))) \<le> length (keys w))"

definition reads_key :: "('z console_scheme, 'a) prog \<Rightarrow> bool" where
  "reads_key m \<longleftrightarrow> (\<forall>w a w'. m w = (Inr a, w') \<longrightarrow> length (keys w') < length (keys w))"

named_theorems key_rules \<open>how many keys a computation reads\<close>

lemma no_new_keys_ret [key_rules]: "no_new_keys (ret a)"
  by (simp add: no_new_keys_def ret_def)

lemma no_new_keys_stop [key_rules]: "no_new_keys (stop_with s)"
  by (simp add: no_new_keys_def stop_with_def)

lemma no_new_keys_throw [key_rules]: "no_new_keys (throw e)"
  by (simp add: throw_def no_new_keys_stop)

lemma no_new_keys_gets [key_rules]: "no_new_keys (gets f)"
  by (simp add: no_new_keys_def gets_def)

lemma no_new_keys_emit [key_rules]: "no_new_keys (emit t)" "no_new_keys (emits ts)"
  by (simp_all add: no_new_keys_def emit_def emits_def modify_def)

lemma no_new_keys_modify [key_rules]:
  "(\<And>w. keys (f w) = keys w) \<Longrightarrow> no_new_keys (modify f)"
  by (simp add: no_new_keys_def modify_def)

lemma no_new_keys_getyx [key_rules]: "no_new_keys getyx"
  by (simp add: getyx_def no_new_keys_gets)

lemma no_new_keys_getch [key_rules]: "no_new_keys getch"
  by (auto simp: no_new_keys_def getch_def split: list.splits)

lemma no_new_keys_vec_at [key_rules]: "no_new_keys (vec_at xs i)"
  by (simp add: vec_at_def no_new_keys_ret no_new_keys_stop)

lemma no_new_keys_lift_exn [key_rules]: "no_new_keys (lift_exn r)"
  by (simp add: lift_exn_def no_new_keys_ret no_new_keys_throw split: sum.split)

lemma no_new_keys_bnd [key_rules]:
  assumes "no_new_keys m" "\<And>a. no_new_keys (f a)"
  shows "no_new_keys (bnd m f)"
  unfolding no_new_keys_def
proof
  fix w
  obtain r w' where r: "m w = (r, w')" by fastforce
  then have "length (keys w') \<le> length (keys w)"
    using assms(1) by (metis no_new_keys_def snd_conv)
  moreover have "length (keys (snd (f a w'))) \<le> length (keys w')" for a
    using assms(2) by (simp add: no_new_keys_def)
  ultimately show "length (keys (snd (bnd m f w))) \<le> length (keys w)"
    using r by (cases r) (auto simp: bnd_def intro: order_trans)
qed

lemma no_new_keys_sq [key_rules]: "no_new_keys m \<Longrightarrow> no_new_keys n \<Longrightarrow> no_new_keys (sq m n)"
  by (simp add: sq_def no_new_keys_bnd)

lemma no_new_keys_whn [key_rules]: "no_new_keys m \<Longrightarrow> no_new_keys (whn b m)"
  by (simp add: whn_def no_new_keys_ret)

lemma no_new_keys_if [key_rules]:
  "no_new_keys m \<Longrightarrow> no_new_keys n \<Longrightarrow> no_new_keys (if b then m else n)"
  by simp

lemma no_new_keys_option [key_rules]:
  "no_new_keys m \<Longrightarrow> (\<And>a. no_new_keys (f a)) \<Longrightarrow> no_new_keys (case x of None \<Rightarrow> m | Some a \<Rightarrow> f a)"
  by (simp split: option.split)

lemma no_new_keys_for_each [key_rules]: "(\<And>x. no_new_keys (f x)) \<Longrightarrow> no_new_keys (for_each xs f)"
  by (induction xs) (simp_all add: no_new_keys_ret no_new_keys_sq)

lemma no_new_keys_collect [key_rules]: "(\<And>x. no_new_keys (f x)) \<Longrightarrow> no_new_keys (collect xs f)"
  by (induction xs) (simp_all add: no_new_keys_ret no_new_keys_bnd)

lemma reads_key_getch: "reads_key getch"
  by (auto simp: reads_key_def getch_def split: list.splits)

lemma reads_key_bnd1:
  assumes "reads_key m" "\<And>a. no_new_keys (f a)"
  shows "reads_key (bnd m f)"
  unfolding reads_key_def
proof (intro allI impI)
  fix w b w'' assume b: "bnd m f w = (Inr b, w'')"
  then obtain a w' where a: "m w = (Inr a, w')" and f: "f a w' = (Inr b, w'')"
    by (auto simp: bnd_def split: prod.splits sum.splits)
  from a assms(1) have "length (keys w') < length (keys w)" by (simp add: reads_key_def)
  moreover from f assms(2) have "length (keys w'') \<le> length (keys w')"
    by (metis no_new_keys_def snd_conv)
  ultimately show "length (keys w'') < length (keys w)" by simp
qed

lemma reads_key_bnd2:
  assumes "no_new_keys m" "\<And>a. reads_key (f a)"
  shows "reads_key (bnd m f)"
  unfolding reads_key_def
proof (intro allI impI)
  fix w b w'' assume b: "bnd m f w = (Inr b, w'')"
  then obtain a w' where a: "m w = (Inr a, w')" and f: "f a w' = (Inr b, w'')"
    by (auto simp: bnd_def split: prod.splits sum.splits)
  from a assms(1) have "length (keys w') \<le> length (keys w)" by (metis no_new_keys_def snd_conv)
  moreover from f assms(2) have "length (keys w'') < length (keys w')" by (simp add: reads_key_def)
  ultimately show "length (keys w'') < length (keys w)" by simp
qed

lemma reads_key_sq2: "no_new_keys m \<Longrightarrow> reads_key n \<Longrightarrow> reads_key (sq m n)"
  by (simp add: sq_def reads_key_bnd2)

lemma reads_key_sq1: "reads_key m \<Longrightarrow> no_new_keys n \<Longrightarrow> reads_key (sq m n)"
  by (simp add: sq_def reads_key_bnd1)

lemma no_new_keys_loop_fuel: "(\<And>s. no_new_keys (body s)) \<Longrightarrow> no_new_keys (loop_fuel n body s)"
proof (induction n arbitrary: s)
  case (Suc n)
  then show ?case
    by (auto intro!: no_new_keys_bnd no_new_keys_ret split: sum.split)
qed (simp add: no_new_keys_stop)

lemma no_new_keys_while_keys [key_rules]:
  assumes "\<And>s. no_new_keys (body s)"
  shows "no_new_keys (while_keys body s)"
  using no_new_keys_loop_fuel [of body, OF assms]
  by (simp add: while_keys_def no_new_keys_def del: loop_fuel.simps)

text \<open>Any two amounts of fuel above the number of keys give the same result.\<close>

lemma loop_fuel_enough:
  assumes "\<And>s. reads_key (body s)"
  shows "length (keys w) < n \<Longrightarrow> length (keys w) < m \<Longrightarrow> loop_fuel n body s w = loop_fuel m body s w"
proof (induction n arbitrary: m s w)
  case (Suc n)
  then obtain m' where m: "m = Suc m'" by (cases m) auto
  obtain r w' where r: "body s w = (r, w')" by fastforce
  have less: "length (keys w') < length (keys w)" if "r = Inr x" for x
    using that r assms by (simp add: reads_key_def)
  have "loop_fuel n body s' w' = loop_fuel m' body s' w'" if "r = Inr (Inl s')" for s'
    using less [OF that] Suc.prems m by (intro Suc.IH) auto
  then show ?case using r m by (auto simp: bnd_def split: sum.splits)
qed simp

text \<open>The loop equation: \<open>while_keys\<close> is the loop of its body, with no fuel left in sight.\<close>

lemma while_keys_unfold:
  assumes "\<And>s. reads_key (body s)"
  shows "while_keys body s =
    bnd (body s) (\<lambda>x. case x of Inl s' \<Rightarrow> while_keys body s' | Inr r \<Rightarrow> ret r)"
proof
  fix w
  obtain r w' where r: "body s w = (r, w')" by fastforce
  have less: "length (keys w') < length (keys w)" if "r = Inr x" for x
    using that r assms by (simp add: reads_key_def)
  have "loop_fuel (length (keys w)) body s' w' = loop_fuel (Suc (length (keys w'))) body s' w'"
    if "r = Inr (Inl s')" for s'
    using less [OF that] by (intro loop_fuel_enough assms) auto
  then show "while_keys body s w =
      bnd (body s) (\<lambda>x. case x of Inl s' \<Rightarrow> while_keys body s' | Inr r \<Rightarrow> ret r) w"
    using r by (auto simp: while_keys_def bnd_def split: sum.splits)
qed

text \<open>An invariant of the body, on the loop's variables and the world, holds throughout the loop.\<close>

lemma loop_fuel_triple:
  assumes body: "\<And>s. triple (I s) (body s) (\<lambda>x. case x of Inl s' \<Rightarrow> I s' | Inr r \<Rightarrow> Q r) E"
    and waiting: "\<And>s w. I s w \<Longrightarrow> E Waiting w"
  shows "triple (I s) (loop_fuel n body s) Q E"
proof (induction n arbitrary: s)
  case 0
  then show ?case using waiting by (auto simp: triple_def stop_with_def)
next
  case (Suc n)
  have "triple (case x of Inl s' \<Rightarrow> I s' | Inr r \<Rightarrow> Q r)
      (case x of Inl s' \<Rightarrow> loop_fuel n body s' | Inr r \<Rightarrow> ret r) Q E" for x
    using Suc by (auto split: sum.split intro: triple_ret)
  then show ?case using triple_bnd [OF body] by fastforce
qed

lemma while_keys_triple:
  assumes "\<And>s. triple (I s) (body s) (\<lambda>x. case x of Inl s' \<Rightarrow> I s' | Inr r \<Rightarrow> Q r) E"
    and "\<And>s w. I s w \<Longrightarrow> E Waiting w"
  shows "triple (I s) (while_keys body s) Q E"
  using loop_fuel_triple [of I body Q E, OF assms]
  by (simp add: triple_def while_keys_def del: loop_fuel.simps)

text \<open>When every round reads a key, the fuel does not run out before the keys do.\<close>

lemma loop_fuel_triple_keys:
  assumes body: "\<And>s. triple P (body s) (\<lambda>_. P) E" and reads: "\<And>s. reads_key (body s)"
  shows "P w \<Longrightarrow> length (keys w) < n \<Longrightarrow>
    (case loop_fuel n body s w of (Inr a, w') \<Rightarrow> P w' | (Inl x, w') \<Rightarrow> E x w')"
proof (induction n arbitrary: s w)
  case (Suc n)
  obtain r w' where r: "body s w = (r, w')" by fastforce
  have ok: "case r of Inr a \<Rightarrow> P w' | Inl x \<Rightarrow> E x w'"
    using body[of s] Suc.prems(1) r by (auto simp: triple_def split: sum.splits dest: spec[of _ w])
  have "length (keys w') < n" if "r = Inr x" for x
    using reads[of s] r that Suc.prems(2) by (fastforce simp: reads_key_def)
  then have "case loop_fuel n body s' w' of (Inr a, w') \<Rightarrow> P w' | (Inl x, w') \<Rightarrow> E x w'" if "r = Inr (Inl s')" for s'
    using ok that by (intro Suc.IH) auto
  with ok r show ?case
    by (cases r; cases "projr r") (simp_all add: bnd_def ret_def)
qed simp

lemma while_keys_triple_keys:
  assumes "\<And>s. triple P (body s) (\<lambda>_. P) E" and "\<And>s. reads_key (body s)"
  shows "triple P (while_keys body s) (\<lambda>_. P) E"
  using loop_fuel_triple_keys[OF assms] by (simp add: triple_def while_keys_def del: loop_fuel.simps)

lemma while_keys_triple_any:
  assumes "\<And>s. triple P (body s) (\<lambda>_. P) E" and "\<And>w. P w \<Longrightarrow> E Waiting w"
  shows "triple P (while_keys body s) (\<lambda>_. P) E"
proof -
  have "triple P (body s) (\<lambda>x. case x of Inl s' \<Rightarrow> P | Inr r \<Rightarrow> P) E" for s
    using triple_weaken[OF assms(1)[of s], of P "\<lambda>x. case x of Inl s' \<Rightarrow> P | Inr r \<Rightarrow> P" E]
    by (auto split: sum.split)
  then show ?thesis
    by (rule while_keys_triple[where I = "\<lambda>_. P" and Q = "\<lambda>_. P"]) (simp add: assms(2))
qed

lemma reads_key_while_keys:
  assumes "\<And>s. reads_key (body s)" and "\<And>s. no_new_keys (body s)"
  shows "reads_key (while_keys body s)"
  by (subst while_keys_unfold[OF assms(1)], rule reads_key_bnd1[OF assms(1)])
    (auto intro: no_new_keys_while_keys assms(2) no_new_keys_ret split: sum.split)

subsection \<open>A logic for programs\<close>

text \<open>
  A property \<open>P\<close> of the world that every step of a program keeps, and a property \<open>E\<close> of the worlds
  in which it stops: by an exception that is no misuse, by undefined behaviour, or waiting for a key
  when there is none.  Output and the reading of a key keep \<open>P\<close>.  With \<open>L\<close> the property \<open>E\<close> must
  hold wherever a program waits; without it, it is shown for every loop that the fuel suffices.
\<close>

locale console_logic =
  fixes P :: "'z console_scheme \<Rightarrow> bool" and E :: "stop \<Rightarrow> 'z console_scheme \<Rightarrow> bool" and L :: bool
  assumes stops: "P w \<Longrightarrow> \<not> usage e \<Longrightarrow> E (Throw e) w" "P w \<Longrightarrow> E (Undefined u) w"
      "P w \<Longrightarrow> L \<or> keys w = [] \<Longrightarrow> E Waiting w"
    and frame_keys: "P w \<Longrightarrow> keys w = k # ks \<Longrightarrow> P (w\<lparr>keys := ks\<rparr>)"
    and frame_screen: "P w \<Longrightarrow> P (w\<lparr>screen := ts\<rparr>)"
begin

abbreviation ok :: "('z console_scheme, 'a) prog \<Rightarrow> bool" where
  "ok m \<equiv> triple P m (\<lambda>_. P) E"

lemma bind: "ok m \<Longrightarrow> (\<And>a. triple P (f a) Q E) \<Longrightarrow> triple P (bnd m f) Q E"
  by (rule triple_bnd)

lemma seq: "ok m \<Longrightarrow> triple P n Q E \<Longrightarrow> triple P (sq m n) Q E"
  unfolding sq_def by (rule bind)

lemma ret: "ok (ret a)"
  by (simp add: triple_ret)

lemma throw: "\<not> usage e \<Longrightarrow> triple P (throw e) Q E"
  by (simp add: triple_def throw_def stop_with_def stops)

lemma undef: "triple P (stop_with (Undefined u)) Q E"
  by (simp add: triple_def stop_with_def stops)

lemma get: "ok (gets f)"
  by (simp add: triple_def gets_def)

lemma set_by: "(\<And>w. P w \<Longrightarrow> P (f w)) \<Longrightarrow> ok (modify f)"
  by (simp add: triple_def modify_def)

lemma lift: "civil r \<Longrightarrow> ok (lift_exn r)"
  by (cases r) (simp_all add: lift_exn_def ret throw)

lemma vec: "ok (vec_at xs i)"
  by (simp add: vec_at_def ret undef)

lemma emit: "ok (emit t)" "ok (emits ts)"
  unfolding emit_def emits_def by (rule set_by, rule frame_screen, assumption)+

lemma getyx: "ok getyx"
  unfolding getyx_def by (rule get)

lemma getch: "ok getch"
  by (auto simp: triple_def getch_def intro: stops frame_keys split: list.split)

lemma each: "(\<And>x. ok (f x)) \<Longrightarrow> ok (for_each xs f)"
  by (induction xs) (simp_all add: ret seq)

lemma coll: "(\<And>x. ok (f x)) \<Longrightarrow> ok (collect xs f)"
  by (induction xs) (simp_all add: ret bind)

lemma cond: "triple P m Q E \<Longrightarrow> triple P n Q E \<Longrightarrow> triple P (if b then m else n) Q E"
  by simp

lemma opt: "triple P m Q E \<Longrightarrow> (\<And>a. triple P (f a) Q E) \<Longrightarrow> triple P (case x of None \<Rightarrow> m | Some a \<Rightarrow> f a) Q E"
  by (simp split: option.split)

lemma either: "(\<And>a. triple P (f a) Q E) \<Longrightarrow> (\<And>b. triple P (g b) Q E) \<Longrightarrow>
    triple P (case x of Inl a \<Rightarrow> f a | Inr b \<Rightarrow> g b) Q E"
  by (simp split: sum.split)

lemma pair: "(\<And>a b. triple P (f a b) Q E) \<Longrightarrow> triple P (case x of (a, b) \<Rightarrow> f a b) Q E"
  by (simp split: prod.split)

lemma once: "ok m \<Longrightarrow> ok (whn b m)"
  by (simp add: whn_def ret)

lemma whil: "(\<And>s. ok (body s)) \<Longrightarrow> L \<or> (\<forall>s. reads_key (body s)) \<Longrightarrow> ok (while_keys body s)"
  using while_keys_triple_any[of P body E] while_keys_triple_keys[of P body E] stops(3) by blast

lemmas steps = ret get vec emit getyx getch each coll bind seq cond opt either pair once undef

end

end
