(* ===== verification/Ieee_Double.thy ===== *)
theory Ieee_Double
  imports Complex_Main
begin

text \<open>
  The C++ type \<open>double\<close> on the platforms the program runs on: IEEE 754 binary64 with rounding to
  nearest, ties to even.  A finite value is a sign, a significand and an exponent; every operation
  computes the exact result as a fraction of integers and rounds it once.  All definitions compute,
  so prices and quantities can be evaluated by the simplifier.
\<close>

datatype double = Fin bool int int | Inf bool | NaN

subsection \<open>Rounding\<close>

function bitlen :: "int \<Rightarrow> int" where
  "bitlen n = (if n \<le> 0 then 0 else 1 + bitlen (n div 2))"
  by pat_completeness auto
termination
  by (relation "measure nat") auto

declare bitlen.simps [simp del]

text \<open>\<open>flog2 a d\<close> is the floor of the binary logarithm of \<open>a / d\<close>, for positive arguments.\<close>

definition flog2 :: "int \<Rightarrow> int \<Rightarrow> int" where
  "flog2 a d = (let l = bitlen a - bitlen d in
     if d * 2 ^ nat l \<le> a * 2 ^ nat (- l) then l else l - 1)"

text \<open>\<open>rne x y\<close> is \<open>x / y\<close> rounded to the nearest integer, ties to even.\<close>

definition rne :: "int \<Rightarrow> int \<Rightarrow> int" where
  "rne x y = (let q = x div y; r = x mod y in
     if 2 * r < y then q else if 2 * r > y then q + 1 else if even q then q else q + 1)"

definition round_pos :: "bool \<Rightarrow> int \<Rightarrow> int \<Rightarrow> double" where
  "round_pos s a d =
     (let e = max (flog2 a d - 52) (-1074);
          m = rne (a * 2 ^ nat (- e)) (d * 2 ^ nat e)
      in if m = 2 ^ 53 then (if e + 1 > 971 then Inf s else Fin s (2 ^ 52) (e + 1))
         else if e > 971 then Inf s else Fin s m e)"

text \<open>The double nearest to \<open>n / d\<close>; an exact zero takes the sign \<open>z\<close>.\<close>

definition round_frac :: "bool \<Rightarrow> int \<Rightarrow> int \<Rightarrow> double" where
  "round_frac z n d = (if n = 0 then Fin z 0 (-1074) else round_pos (n < 0) \<bar>n\<bar> d)"

subsection \<open>Operations\<close>

definition fnum :: "bool \<Rightarrow> int \<Rightarrow> int \<Rightarrow> int" where
  "fnum s m e = (if s then - m else m) * 2 ^ nat e"

definition fden :: "int \<Rightarrow> int" where
  "fden e = 2 ^ nat (- e)"

fun dbl_neg :: "double \<Rightarrow> double" where
  "dbl_neg (Fin s m e) = Fin (\<not> s) m e"
| "dbl_neg (Inf s) = Inf (\<not> s)"
| "dbl_neg NaN = NaN"

fun dbl_add :: "double \<Rightarrow> double \<Rightarrow> double" where
  "dbl_add (Fin s1 m1 e1) (Fin s2 m2 e2) =
     round_frac (s1 \<and> s2) (fnum s1 m1 e1 * fden e2 + fnum s2 m2 e2 * fden e1) (fden e1 * fden e2)"
| "dbl_add (Inf s) (Inf t) = (if s = t then Inf s else NaN)"
| "dbl_add (Inf s) (Fin _ _ _) = Inf s"
| "dbl_add (Fin _ _ _) (Inf s) = Inf s"
| "dbl_add NaN _ = NaN"
| "dbl_add _ NaN = NaN"

definition dbl_sub :: "double \<Rightarrow> double \<Rightarrow> double" where
  "dbl_sub x y = dbl_add x (dbl_neg y)"

fun dbl_mul :: "double \<Rightarrow> double \<Rightarrow> double" where
  "dbl_mul (Fin s1 m1 e1) (Fin s2 m2 e2) =
     round_frac (s1 \<noteq> s2) (fnum s1 m1 e1 * fnum s2 m2 e2) (fden e1 * fden e2)"
| "dbl_mul (Inf s) (Inf t) = Inf (s \<noteq> t)"
| "dbl_mul (Inf s) (Fin t m e) = (if m = 0 then NaN else Inf (s \<noteq> t))"
| "dbl_mul (Fin t m e) (Inf s) = (if m = 0 then NaN else Inf (s \<noteq> t))"
| "dbl_mul NaN _ = NaN"
| "dbl_mul _ NaN = NaN"

fun dbl_div :: "double \<Rightarrow> double \<Rightarrow> double" where
  "dbl_div (Fin s1 m1 e1) (Fin s2 m2 e2) =
     (if m2 = 0 then (if m1 = 0 then NaN else Inf (s1 \<noteq> s2))
      else round_frac (s1 \<noteq> s2)
             (fnum s1 m1 e1 * fden e2 * (if s2 then -1 else 1)) (fden e1 * \<bar>fnum s2 m2 e2\<bar>))"
| "dbl_div (Inf s) (Inf t) = NaN"
| "dbl_div (Inf s) (Fin t m e) = Inf (s \<noteq> t)"
| "dbl_div (Fin t m e) (Inf s) = Fin (s \<noteq> t) 0 (-1074)"
| "dbl_div NaN _ = NaN"
| "dbl_div _ NaN = NaN"

text \<open>The \<open>==\<close> operator: both zeros are equal, NaN equals nothing.\<close>

fun dbl_eq :: "double \<Rightarrow> double \<Rightarrow> bool" where
  "dbl_eq (Fin s1 m1 e1) (Fin s2 m2 e2) =
     (fnum s1 m1 e1 * fden e2 = fnum s2 m2 e2 * fden e1)"
| "dbl_eq (Inf s) (Inf t) = (s = t)"
| "dbl_eq _ _ = False"

definition dbl_of_int :: "int \<Rightarrow> double" where
  "dbl_of_int i = round_frac False i 1"

abbreviation dbl_zero :: double where "dbl_zero \<equiv> Fin False 0 (-1074)"

text \<open>
  Conversion of a double to an integer type truncates; a value out of the type's range is undefined
  behaviour, here \<open>None\<close>.
\<close>

fun dbl_trunc :: "nat \<Rightarrow> double \<Rightarrow> int option" where
  "dbl_trunc w (Fin s m e) =
     (let t = (m * 2 ^ nat e) div fden e; i = (if s then - t else t) in
      if - (2 ^ (w - 1)) \<le> i \<and> i < 2 ^ (w - 1) then Some i else None)"
| "dbl_trunc w _ = None"

subsection \<open>The value of a double\<close>

fun dval :: "double \<Rightarrow> real" where
  "dval (Fin s m e) = (if s then - 1 else 1) * of_int m * 2 powi e"
| "dval _ = 0"

fun finite_double :: "double \<Rightarrow> bool" where
  "finite_double (Fin s m e) = (0 \<le> m \<and> m < 2 ^ 53 \<and> -1074 \<le> e \<and> e \<le> 971)"
| "finite_double _ = False"

lemma powi_split: "(2::real) powi e = 2 ^ nat e / 2 ^ nat (- e)"
  by (cases "0 \<le> e") (auto simp: power_int_def inverse_eq_divide power_one_over)

lemma fden_pos [simp]: "0 < fden e"
  by (simp add: fden_def)

lemma fden_nonzero [simp]: "fden e \<noteq> 0"
  by (simp add: fden_def)

lemma dval_frac: "dval (Fin s m e) = of_int (fnum s m e) / of_int (fden e)"
  by (simp add: powi_split fnum_def fden_def)

lemma bitlen_pos: "0 < n \<Longrightarrow> 0 < bitlen n \<and> 2 ^ nat (bitlen n - 1) \<le> n \<and> n < 2 ^ nat (bitlen n)"
proof (induction n rule: bitlen.induct)
  case (1 n)
  show ?case
  proof (cases "n = 1")
    case True
    then show ?thesis by (simp add: bitlen.simps)
  next
    case False
    with 1 have h: "0 < n div 2" by simp
    let ?k = "bitlen (n div 2)"
    have ih: "0 < ?k" "2 ^ nat (?k - 1) \<le> n div 2" "n div 2 < 2 ^ nat ?k"
      using 1 h by auto
    have b: "bitlen n = 1 + ?k" using 1 by (subst bitlen.simps) simp
    define p where "p = (2::int) ^ nat (?k - 1)"
    have "nat (1 + ?k) = Suc (Suc (nat (?k - 1)))" "nat ?k = Suc (nat (?k - 1))" using ih(1) by auto
    then have "(2::int) ^ nat (1 + ?k) = 4 * p" "(2::int) ^ nat ?k = 2 * p"
      by (simp_all add: p_def)
    moreover from this ih have "p \<le> n div 2" "n div 2 < 2 * p" by (simp_all add: p_def)
    ultimately show ?thesis using b ih(1) by auto
  qed
qed

lemma bitlen_real:
  assumes "0 < n"
  shows "2 powi (bitlen n - 1) \<le> real_of_int n \<and> real_of_int n < 2 powi bitlen n"
proof -
  note b = bitlen_pos [OF assms]
  have "real_of_int (2 ^ nat (bitlen n - 1)) \<le> real_of_int n" "real_of_int n < real_of_int (2 ^ nat (bitlen n))"
    using b by (simp_all only: of_int_le_iff of_int_less_iff)
  with b show ?thesis by (simp add: power_int_def)
qed

lemma flog2_bounds:
  assumes a: "0 < a" and d: "0 < d"
  shows "2 powi flog2 a d \<le> real_of_int a / of_int d \<and> real_of_int a / of_int d < 2 powi (flog2 a d + 1)"
proof -
  let ?ka = "bitlen a" and ?kd = "bitlen d"
  let ?l = "?ka - ?kd"
  have A: "2 powi (?ka - 1) \<le> real_of_int a" "real_of_int a < 2 powi ?ka"
    using bitlen_real [OF a] by auto
  have D: "2 powi (?kd - 1) \<le> real_of_int d" "real_of_int d < 2 powi ?kd"
    using bitlen_real [OF d] by auto
  have dp: "0 < real_of_int d" using d by simp
  have up: "real_of_int a / of_int d < 2 powi (?l + 1)"
  proof -
    have "real_of_int a < 2 powi ?ka" by (rule A)
    also have "\<dots> = 2 powi (?l + 1) * 2 powi (?kd - 1)"
      by (simp flip: power_int_add)
    also have "\<dots> \<le> 2 powi (?l + 1) * of_int d" using D(1) by simp
    finally show ?thesis using dp by (simp add: field_simps)
  qed
  have lo: "2 powi (?l - 1) \<le> real_of_int a / of_int d"
  proof -
    have "2 powi (?l - 1) * real_of_int d \<le> 2 powi (?l - 1) * 2 powi ?kd" using D(2) by simp
    also have "\<dots> = 2 powi (?ka - 1)" by (simp flip: power_int_add)
    also have "\<dots> \<le> of_int a" by (rule A)
    finally show ?thesis using dp by (simp add: field_simps)
  qed
  have cmp: "d * 2 ^ nat ?l \<le> a * 2 ^ nat (- ?l) \<longleftrightarrow> 2 powi ?l \<le> real_of_int a / of_int d"
  proof -
    have "d * 2 ^ nat ?l \<le> a * 2 ^ nat (- ?l) \<longleftrightarrow>
        real_of_int (d * 2 ^ nat ?l) \<le> real_of_int (a * 2 ^ nat (- ?l))"
      by (simp only: of_int_le_iff)
    also have "\<dots> \<longleftrightarrow> 2 powi ?l \<le> real_of_int a / of_int d"
      unfolding powi_split of_int_mult of_int_power of_int_numeral
      using dp by (simp add: field_simps del: nat_diff_distrib)
    finally show ?thesis .
  qed
  show ?thesis
  proof (cases "2 powi ?l \<le> real_of_int a / of_int d")
    case True
    then have "flog2 a d = ?l" using cmp by (simp add: flog2_def Let_def)
    with True up show ?thesis by simp
  next
    case False
    then have "flog2 a d = ?l - 1" using cmp by (simp add: flog2_def Let_def)
    with False lo show ?thesis by simp
  qed
qed

lemma flog2_unique:
  assumes "0 < a" "0 < d" "2 powi l \<le> real_of_int a / of_int d" "real_of_int a / of_int d < 2 powi (l + 1)"
  shows "flog2 a d = l"
proof -
  note b = flog2_bounds [OF assms(1,2)]
  from b assms have "(2::real) powi flog2 a d < 2 powi (l + 1)" "(2::real) powi l < 2 powi (flog2 a d + 1)"
    by linarith+
  then have "flog2 a d < l + 1" "l < flog2 a d + 1"
    by (metis linorder_not_less one_le_numeral order_less_le_trans power_int_increasing zless_add1_eq)+
  then show ?thesis by simp
qed

lemma flog2_cong:
  assumes "0 < a" "0 < d" "0 < a'" "0 < d'" "a * d' = a' * d"
  shows "flog2 a d = flog2 a' d'"
proof -
  have "real_of_int (a * d') = real_of_int (a' * d)" using assms(5) by (simp only:)
  then have "real_of_int a / of_int d = real_of_int a' / of_int d'"
    using assms(2,4) by (simp add: field_simps)
  then show ?thesis
    using flog2_unique [OF assms(1,2)] flog2_bounds [OF assms(3,4)] by auto
qed

lemma rne_scale: "0 < k \<Longrightarrow> 0 < y \<Longrightarrow> rne (k * x) (k * y) = rne x y"
  by (simp add: rne_def Let_def mult_mod_right [symmetric] mult.left_commute [of 2 k])

lemma rne_cong:
  assumes "0 < y" "0 < y'" "x * y' = x' * y"
  shows "rne x y = rne x' y'"
proof -
  have "rne x y = rne (y' * x) (y' * y)" using assms by (simp add: rne_scale)
  also have "\<dots> = rne (y * x') (y * y')" using assms(3) by (simp add: mult.commute)
  also have "\<dots> = rne x' y'" using assms by (simp add: rne_scale)
  finally show ?thesis .
qed

lemma rne_exact: "0 < y \<Longrightarrow> rne (q * y) y = q"
  by (simp add: rne_def)

text \<open>Rounding depends on the value of the fraction only.\<close>

lemma round_frac_cong:
  assumes "0 < d" "0 < d'" "n * d' = n' * d"
  shows "round_frac z n d = round_frac z n' d'"
proof (cases "n = 0")
  case True
  then show ?thesis using assms by (auto simp: round_frac_def)
next
  case False
  then have n': "n' \<noteq> 0" using assms by auto
  have sgn: "n < 0 \<longleftrightarrow> n' < 0"
    using assms by (metis mult_less_0_iff not_less_iff_gr_or_eq)
  have abs: "\<bar>n\<bar> * d' = \<bar>n'\<bar> * d"
    using assms by (metis abs_mult abs_of_pos)
  have fl: "flog2 \<bar>n\<bar> d = flog2 \<bar>n'\<bar> d'"
    using False n' assms abs by (intro flog2_cong) auto
  have "rne (\<bar>n\<bar> * 2 ^ nat (- e)) (d * 2 ^ nat e) = rne (\<bar>n'\<bar> * 2 ^ nat (- e)) (d' * 2 ^ nat e)" for e
    using assms abs by (intro rne_cong) (auto simp: algebra_simps)
  then show ?thesis
    using False n' sgn fl by (simp add: round_frac_def round_pos_def)
qed

text \<open>A fraction whose value is representable is not changed by rounding.\<close>

lemma round_pos_exact:
  assumes a: "0 < a" and d: "0 < d" and M: "M < 2 ^ 53" and E: "-1074 \<le> E" "E \<le> 971"
    and v: "real_of_int a / of_int d = of_int M * 2 powi E"
  shows "\<exists>m e. round_pos s a d = Fin s m e \<and> 0 \<le> m \<and> m < 2 ^ 53 \<and> -1074 \<le> e \<and> e \<le> 971
    \<and> of_int m * 2 powi e = real_of_int a / of_int d"
proof -
  let ?l = "flog2 a d"
  define e where "e = max (?l - 52) (-1074)"
  note b = flog2_bounds [OF a d]
  have "of_int M < (2::real) ^ 53" using M by (metis of_int_less_iff of_int_numeral of_int_power)
  then have "of_int M * 2 powi E < (2::real) ^ 53 * 2 powi E" by simp
  also have "\<dots> = 2 powi (53 + E)" by (simp add: power_int_add)
  finally have "(2::real) powi ?l < 2 powi (53 + E)" using b v by linarith
  then have "?l < 53 + E" by (metis linorder_not_less one_le_numeral power_int_increasing)
  then have eE: "e \<le> E" using E by (simp add: e_def)
  define q where "q = M * 2 ^ nat (E - e)"
  have "(2::real) powi E = 2 powi (E - e) * 2 powi e" by (simp flip: power_int_add)
  then have pe: "(2::real) powi E = 2 ^ nat (E - e) * 2 powi e"
    using eE by (simp add: power_int_def)
  have qe: "of_int q * 2 powi e = real_of_int a / of_int d"
    using v pe by (simp add: q_def)
  then have "of_int q * 2 ^ nat e * of_int d = real_of_int a * 2 ^ nat (- e)"
    using d by (simp add: powi_split field_simps)
  then have "real_of_int (q * (d * 2 ^ nat e)) = real_of_int (a * 2 ^ nat (- e))"
    by (simp add: mult_ac)
  then have "q * (d * 2 ^ nat e) = a * 2 ^ nat (- e)" by (simp only: of_int_eq_iff)
  then have m: "rne (a * 2 ^ nat (- e)) (d * 2 ^ nat e) = q"
    using d rne_exact [of "d * 2 ^ nat e" q] by simp
  have "0 < real_of_int a / of_int d" using a d by simp
  then have q0: "0 < q" by (auto simp: zero_less_mult_iff power_int_def simp flip: qe split: if_splits)
  have "of_int q * 2 powi e < (2::real) powi (?l + 1)" using b qe by simp
  also have "\<dots> \<le> 2 powi (53 + e)" by (rule power_int_increasing) (auto simp: e_def)
  also have "\<dots> = 2 ^ 53 * 2 powi e" by (simp add: power_int_add)
  finally have "real_of_int q < 2 ^ 53" by simp
  then have q53: "q < 2 ^ 53" by (metis of_int_less_iff of_int_numeral of_int_power)
  have "round_pos s a d = Fin s q e"
    using m q53 eE E by (simp add: round_pos_def Let_def flip: e_def)
  then show ?thesis using q0 q53 eE E qe by (auto simp: e_def)
qed

lemma round_frac_exact:
  assumes d: "0 < d" and M: "\<bar>M\<bar> < 2 ^ 53" and E: "-1074 \<le> E" "E \<le> 971"
    and v: "real_of_int n / of_int d = of_int M * 2 powi E"
  shows "dval (round_frac z n d) = real_of_int n / of_int d \<and> finite_double (round_frac z n d)"
proof (cases "n = 0")
  case True
  then show ?thesis by (simp add: round_frac_def)
next
  case False
  have "\<bar>real_of_int n / of_int d\<bar> = \<bar>of_int M * 2 powi E\<bar>" by (simp only: v)
  then have "real_of_int \<bar>n\<bar> / of_int d = of_int \<bar>M\<bar> * 2 powi E"
    using d by (simp add: abs_mult)
  from round_pos_exact [OF _ d M E this] False
  obtain m e where r: "round_pos (n < 0) \<bar>n\<bar> d = Fin (n < 0) m e" "0 \<le> m" "m < 2 ^ 53"
    "-1074 \<le> e" "e \<le> 971" "of_int m * 2 powi e = real_of_int \<bar>n\<bar> / of_int d"
    by (metis zero_less_abs_iff)
  then show ?thesis using False by (auto simp: round_frac_def mult.assoc)
qed

subsection \<open>Integer-valued doubles\<close>

lemma dval_of_int:
  assumes "\<bar>i\<bar> < 2 ^ 53"
  shows "dval (dbl_of_int i) = of_int i \<and> finite_double (dbl_of_int i)"
  using round_frac_exact [of 1 i 0 i False] assms by (simp add: dbl_of_int_def)

lemma dbl_of_int_shape:
  assumes "\<bar>i\<bar> < 2 ^ 53"
  shows "\<exists>m e. dbl_of_int i = Fin (i < 0) m e \<and> fnum (i < 0) m e = i * fden e"
proof -
  from dval_of_int [OF assms] obtain s m e where x: "dbl_of_int i = Fin s m e"
    by (metis finite_double.elims(2))
  have s: "s = (i < 0)"
    using x by (auto simp: dbl_of_int_def round_frac_def round_pos_def Let_def split: if_splits)
  have "real_of_int (fnum s m e) / of_int (fden e) = of_int i"
    using dval_of_int [OF assms] x dval_frac [of s m e] by simp
  then have "real_of_int (fnum s m e) = of_int (i * fden e)"
    by (simp add: field_simps)
  then have "fnum s m e = i * fden e" by (simp only: of_int_eq_iff)
  with x s show ?thesis by blast
qed

text \<open>Sums of integer-valued doubles are exact below \<open>2 ^ 53\<close>.\<close>

lemma dbl_add_of_int:
  assumes "\<bar>i\<bar> < 2 ^ 53" "\<bar>j\<bar> < 2 ^ 53"
  shows "dbl_add (dbl_of_int i) (dbl_of_int j) = dbl_of_int (i + j)"
proof -
  obtain m1 e1 m2 e2 where x: "dbl_of_int i = Fin (i < 0) m1 e1" "fnum (i < 0) m1 e1 = i * fden e1"
    and y: "dbl_of_int j = Fin (j < 0) m2 e2" "fnum (j < 0) m2 e2 = j * fden e2"
    using dbl_of_int_shape assms by metis
  have "dbl_add (dbl_of_int i) (dbl_of_int j)
      = round_frac (i < 0 \<and> j < 0) ((i + j) * (fden e1 * fden e2)) (fden e1 * fden e2)"
    using x y by (simp add: algebra_simps)
  also have "\<dots> = round_frac (i < 0 \<and> j < 0) (i + j) 1"
    by (rule round_frac_cong) (auto simp: algebra_simps)
  also have "\<dots> = dbl_of_int (i + j)"
    by (auto simp: dbl_of_int_def round_frac_def)
  finally show ?thesis .
qed

lemma dbl_neg_round_pos: "dbl_neg (round_pos s a d) = round_pos (\<not> s) a d"
  by (simp only: round_pos_def Let_def if_distrib [of dbl_neg] dbl_neg.simps)

lemma dbl_neg_of_int:
  assumes "\<bar>i\<bar> < 2 ^ 53" "i \<noteq> 0"
  shows "dbl_neg (dbl_of_int i) = dbl_of_int (- i)"
  using assms by (auto simp: dbl_of_int_def round_frac_def dbl_neg_round_pos not_less le_less)

lemma dbl_sub_of_int:
  assumes "\<bar>i\<bar> < 2 ^ 53" "\<bar>j\<bar> < 2 ^ 53" "j \<noteq> 0"
  shows "dbl_sub (dbl_of_int i) (dbl_of_int j) = dbl_of_int (i - j)"
  using assms dbl_add_of_int [of i "- j"] by (simp add: dbl_sub_def dbl_neg_of_int)

lemma dbl_eq_of_int:
  assumes "\<bar>i\<bar> < 2 ^ 53" "\<bar>j\<bar> < 2 ^ 53"
  shows "dbl_eq (dbl_of_int i) (dbl_of_int j) \<longleftrightarrow> i = j"
proof -
  obtain m1 e1 m2 e2 where "dbl_of_int i = Fin (i < 0) m1 e1" "fnum (i < 0) m1 e1 = i * fden e1"
    "dbl_of_int j = Fin (j < 0) m2 e2" "fnum (j < 0) m2 e2 = j * fden e2"
    using dbl_of_int_shape assms by metis
  then show ?thesis
    by (auto simp: mult_ac)
qed

end
