(* ===== verification/Cpp_Std.thy ===== *)
theory Cpp_Std
  imports Prelude Ieee_Double
begin

text \<open>
  The functions of the C++ standard library that the program calls on numbers and characters:
  \<open>std::to_string\<close>, \<open>std::stol\<close>, \<open>std::stoi\<close>, \<open>std::stod\<close>, the fixed-point conversions
  of \<open>printf\<close> and \<open>std::format\<close>, and \<open>isprint\<close> in the "C" locale.
\<close>

subsection \<open>Integers as decimal text\<close>

definition digit_char :: "int \<Rightarrow> char" where
  "digit_char n = char_of (48 + n)"

function dec :: "int \<Rightarrow> string" where
  "dec n = (if n < 10 then [digit_char n] else dec (n div 10) @ [digit_char (n mod 10)])"
  by pat_completeness auto
termination
  by (relation "measure nat") auto

declare dec.simps [simp del]

definition int_to_string :: "int \<Rightarrow> string" where
  "int_to_string n = (if n < 0 then CHR ''-'' # dec (- n) else dec n)"

definition is_digit :: "char \<Rightarrow> bool" where
  "is_digit c \<longleftrightarrow> 48 \<le> (of_char c :: int) \<and> (of_char c :: int) \<le> 57"

definition digit_val :: "char \<Rightarrow> int" where
  "digit_val c = of_char c - 48"

definition digits_val :: "string \<Rightarrow> int" where
  "digits_val s = foldl (\<lambda>n c. 10 * n + digit_val c) 0 s"

definition is_space :: "char \<Rightarrow> bool" where
  "is_space c \<longleftrightarrow> (of_char c :: int) = 32 \<or> (9 \<le> (of_char c :: int) \<and> (of_char c :: int) \<le> 13)"

text \<open>
  \<open>strtol\<close> in base 10 followed by the range check of \<open>std::stol\<close> (64 bits) and
  \<open>std::stoi\<close> (32 bits).
\<close>

definition sto_int :: "nat \<Rightarrow> string \<Rightarrow> exn + int" where
  "sto_int w s =
     (let t = dropWhile is_space s;
          neg = (t \<noteq> [] \<and> hd t = CHR ''-'');
          u = (if t \<noteq> [] \<and> (hd t = CHR ''-'' \<or> hd t = CHR ''+'') then tl t else t);
          ds = takeWhile is_digit u;
          n = (if neg then - digits_val ds else digits_val ds)
      in if ds = [] then Inl Invalid_argument
         else if - (2 ^ (w - 1)) \<le> n \<and> n < 2 ^ (w - 1) then Inr n else Inl Out_of_range)"

definition stol :: "string \<Rightarrow> exn + int" where "stol = sto_int 64"

definition stoi :: "string \<Rightarrow> exn + int" where "stoi = sto_int 32"

subsection \<open>Doubles as decimal text\<close>

definition pad0 :: "nat \<Rightarrow> string \<Rightarrow> string" where
  "pad0 k s = replicate (k - length s) (CHR ''0'') @ s"

definition scaled :: "nat \<Rightarrow> int \<Rightarrow> int \<Rightarrow> int" where
  "scaled k m e = rne (m * 2 ^ nat e * 10 ^ k) (fden e)"

text \<open>The conversion \<open>%.kf\<close> (also \<open>{:.kf}\<close>), for a positive number of digits.\<close>

fun fmt_fixed :: "nat \<Rightarrow> double \<Rightarrow> string" where
  "fmt_fixed k (Fin s m e) =
     (let v = scaled k m e in
      (if s then ''-'' else []) @ dec (v div 10 ^ k) @ ''.'' @ pad0 k (dec (v mod 10 ^ k)))"
| "fmt_fixed k (Inf s) = (if s then ''-inf'' else ''inf'')"
| "fmt_fixed k NaN = ''nan''"

definition double_to_string :: "double \<Rightarrow> string" where
  "double_to_string x = fmt_fixed 6 x"

text \<open>
  The decimal part of \<open>strtod\<close>: digits, an optional fraction and an optional exponent.  The
  result is the double nearest to the number read, and the rest of the text.
\<close>

definition scan_exponent :: "string \<Rightarrow> int \<times> string" where
  "scan_exponent r =
     (if r \<noteq> [] \<and> (hd r = CHR ''e'' \<or> hd r = CHR ''E'')
      then (let t = tl r;
                neg = (t \<noteq> [] \<and> hd t = CHR ''-'');
                u = (if t \<noteq> [] \<and> (hd t = CHR ''-'' \<or> hd t = CHR ''+'') then tl t else t);
                ds = takeWhile is_digit u
            in if ds = [] then (0, r)
               else (if neg then - digits_val ds else digits_val ds, dropWhile is_digit u))
      else (0, r))"

definition scan_decimal_by ::
  "(bool \<Rightarrow> int \<Rightarrow> int \<Rightarrow> double) \<Rightarrow> bool \<Rightarrow> string \<Rightarrow> (double \<times> string) option" where
  "scan_decimal_by rnd neg s =
     (let ip = takeWhile is_digit s;
          r = dropWhile is_digit s;
          dot = (r \<noteq> [] \<and> hd r = CHR ''.'');
          fp = (if dot then takeWhile is_digit (tl r) else []);
          r2 = (if dot then dropWhile is_digit (tl r) else r);
          x = fst (scan_exponent r2);
          n = digits_val (ip @ fp);
          k = x - int (length fp)
      in if ip @ fp = [] then None
         else Some (rnd neg ((if neg then - n else n) * 10 ^ nat k) (10 ^ nat (- k)),
                    snd (scan_exponent r2)))"

definition scan_decimal :: "bool \<Rightarrow> string \<Rightarrow> (double \<times> string) option" where
  "scan_decimal = scan_decimal_by round_frac"

text \<open>
  \<open>stod\<close> on decimal text (the program only passes strings of digits and dots): an overflow and a
  subnormal result are reported as \<open>ERANGE\<close>.
\<close>

fun erange :: "double \<Rightarrow> bool" where
  "erange (Fin s m e) = (0 < m \<and> m < 2 ^ 52)"
| "erange _ = True"

definition stod :: "string \<Rightarrow> exn + double" where
  "stod s =
     (let t = dropWhile is_space s;
          neg = (t \<noteq> [] \<and> hd t = CHR ''-'');
          u = (if t \<noteq> [] \<and> (hd t = CHR ''-'' \<or> hd t = CHR ''+'') then tl t else t)
      in case scan_decimal neg u of
           None \<Rightarrow> Inl Invalid_argument
         | Some (x, _) \<Rightarrow> if erange x then Inl Out_of_range else Inr x)"

subsection \<open>Integer conversions and division\<close>

text \<open>Conversion to the signed type of \<open>w\<close> bits, and division with truncation towards zero.\<close>

definition to_signed :: "nat \<Rightarrow> int \<Rightarrow> int" where
  "to_signed w n = (n + 2 ^ (w - 1)) mod 2 ^ w - 2 ^ (w - 1)"

definition c_quot :: "int \<Rightarrow> int \<Rightarrow> int" where
  "c_quot a b = (if a < 0 then - ((- a) div b) else a div b)"

definition c_rem :: "int \<Rightarrow> int \<Rightarrow> int" where
  "c_rem a b = (if a < 0 then - ((- a) mod b) else a mod b)"

subsection \<open>Single precision\<close>

text \<open>
  A \<open>float\<close> is kept as the sign, significand and exponent of its exact value: 24 bits and a lowest
  exponent of -149.  Only the reading and the printing of floats are needed.
\<close>

definition flt_round_frac :: "bool \<Rightarrow> int \<Rightarrow> int \<Rightarrow> double" where
  "flt_round_frac z n d =
     (if n = 0 then Fin z 0 (-149)
      else let s = (n < 0); a = \<bar>n\<bar>;
               e = max (flog2 a d - 23) (-149);
               m = rne (a * 2 ^ nat (- e)) (d * 2 ^ nat e)
           in if m = 2 ^ 24 then (if e + 1 > 104 then Inf s else Fin s (2 ^ 23) (e + 1))
              else if e > 104 then Inf s else Fin s m e)"

definition stof :: "string \<Rightarrow> exn + double" where
  "stof s =
     (let t = dropWhile is_space s;
          neg = (t \<noteq> [] \<and> hd t = CHR ''-'');
          u = (if t \<noteq> [] \<and> (hd t = CHR ''-'' \<or> hd t = CHR ''+'') then tl t else t)
      in case scan_decimal_by flt_round_frac neg u of
           None \<Rightarrow> Inl Invalid_argument
         | Some (Fin sg m e, _) \<Rightarrow> if 0 < m \<and> m < 2 ^ 23 then Inl Out_of_range else Inr (Fin sg m e)
         | Some _ \<Rightarrow> Inl Out_of_range)"

subsection \<open>Characters\<close>

text \<open>
  \<open>key_char\<close> is \<open>static_cast<char>(key)\<close>: the low byte of the key code.
  \<open>isprint\<close> in the "C" locale accepts the bytes 32 to 126.
\<close>

definition key_char :: "int \<Rightarrow> char" where
  "key_char k = char_of k"

definition isprint :: "char \<Rightarrow> bool" where
  "isprint c \<longleftrightarrow> 32 \<le> (of_char c :: int) \<and> (of_char c :: int) \<le> 126"

subsection \<open>Lemmas\<close>

lemma of_digit_char: "0 \<le> n \<Longrightarrow> n < 10 \<Longrightarrow> (of_char (digit_char n) :: int) = 48 + n"
  by (simp add: digit_char_def of_char_of take_bit_eq_mod)

lemma is_digit_digit_char [simp]: "0 \<le> n \<Longrightarrow> n < 10 \<Longrightarrow> is_digit (digit_char n)"
  by (simp add: is_digit_def of_digit_char)

lemma digit_val_digit_char [simp]: "0 \<le> n \<Longrightarrow> n < 10 \<Longrightarrow> digit_val (digit_char n) = n"
  by (simp add: digit_val_def of_digit_char)

lemma digits_val_snoc: "digits_val (s @ [c]) = 10 * digits_val s + digit_val c"
  by (simp add: digits_val_def)

lemma dec_digits: "0 \<le> n \<Longrightarrow> list_all is_digit (dec n)"
proof (induction n rule: dec.induct)
  case (1 n)
  then show ?case by (subst dec.simps) auto
qed

lemma dec_nonempty [simp]: "dec n \<noteq> []"
  by (subst dec.simps) simp

lemma digits_val_dec [simp]: "0 \<le> n \<Longrightarrow> digits_val (dec n) = n"
proof (induction n rule: dec.induct)
  case (1 n)
  show ?case
  proof (cases "n < 10")
    case True
    then have "dec n = [] @ [digit_char n]" by (subst dec.simps) simp
    then show ?thesis using 1 True by (simp only: digits_val_snoc) (simp add: digits_val_def)
  next
    case False
    then have "dec n = dec (n div 10) @ [digit_char (n mod 10)]" by (subst dec.simps) simp
    then show ?thesis using 1 False by (simp add: digits_val_snoc)
  qed
qed

lemma takeWhile_digits [simp]: "list_all is_digit s \<Longrightarrow> takeWhile is_digit s = s"
  by (simp add: takeWhile_eq_all_conv list_all_iff)

lemma dropWhile_digits [simp]: "list_all is_digit s \<Longrightarrow> dropWhile is_digit s = []"
  by (simp add: list_all_iff)

lemma not_space_digit: "is_digit c \<Longrightarrow> \<not> is_space c"
  by (auto simp: is_digit_def is_space_def)

lemma digit_not_sign: "is_digit c \<Longrightarrow> c \<noteq> CHR ''-'' \<and> c \<noteq> CHR ''+''"
  by (auto simp: is_digit_def)

lemma digits_hd: "list_all is_digit s \<Longrightarrow> s \<noteq> [] \<Longrightarrow> is_digit (hd s)"
  by (cases s) auto

lemma dropWhile_space_digits [simp]: "list_all is_digit s \<Longrightarrow> dropWhile is_space s = s"
  by (cases s) (auto simp: not_space_digit)

text \<open>A string of digits is read as its value, when it fits the type.\<close>

lemma sto_int_digits:
  assumes "list_all is_digit s" "s \<noteq> []"
  shows "sto_int w s = (if digits_val s < 2 ^ (w - 1) \<and> - (2 ^ (w - 1)) \<le> digits_val s
    then Inr (digits_val s) else Inl Out_of_range)"
  using assms digits_hd [OF assms] digit_not_sign [of "hd s"]
  by (auto simp: sto_int_def Let_def)

lemma sto_int_to_string:
  assumes "- (2 ^ (w - 1)) \<le> n" "n < 2 ^ (w - 1)"
  shows "sto_int w (int_to_string n) = Inr n"
proof (cases "n < 0")
  case True
  then have "list_all is_digit (dec (- n))" by (simp add: dec_digits)
  with True assms show ?thesis
    by (simp add: sto_int_def int_to_string_def Let_def is_space_def)
next
  case False
  then have "list_all is_digit (dec n)" by (simp add: dec_digits)
  with False assms show ?thesis
    by (simp add: int_to_string_def sto_int_digits)
qed

lemma length_pad0 [simp]: "length s \<le> k \<Longrightarrow> length (pad0 k s) = k"
  by (simp add: pad0_def)

lemma length_dec_le: "0 \<le> n \<Longrightarrow> 0 < k \<Longrightarrow> n < 10 ^ k \<Longrightarrow> length (dec n) \<le> k"
proof (induction n arbitrary: k rule: dec.induct)
  case (1 n)
  show ?case
  proof (cases "n < 10")
    case True
    then show ?thesis using 1 by (subst dec.simps) simp
  next
    case False
    from "1.prems"(2) obtain j where k: "k = Suc j" by (auto simp: gr0_conv_Suc)
    have j: "0 < j" using "1.prems"(3) False k by (cases j) auto
    have "length (dec (n div 10)) \<le> j"
      using 1 False k j by (intro "1.IH") auto
    then show ?thesis using False k by (subst dec.simps) simp
  qed
qed

lemma length_fmt_fixed:
  assumes "0 < k" "0 \<le> m"
  shows "length (fmt_fixed k (Fin s m e)) =
    (if s then 1 else 0) + length (dec (scaled k m e div 10 ^ k)) + 1 + k"
proof -
  have "scaled k m e mod 10 ^ k < 10 ^ k" "0 \<le> scaled k m e mod 10 ^ k" by simp_all
  then have "length (dec (scaled k m e mod 10 ^ k)) \<le> k" using assms length_dec_le by blast
  then show ?thesis by (simp add: Let_def)
qed

end
