(* ===== verification/Input.thy ===== *)
theory Input
  imports Console Cpp_Std
begin

text \<open>
  \<open>src/src/input_string.cpp\<close>: the line editor \<open>get_string\<close> and the filter
  \<open>remove_non_nr\<close>, with a pure line editor as the specification that \<open>get_string\<close> refines.
\<close>

subsection \<open>The line editor\<close>

text \<open>
  The bound of \<open>s.length() < max_length\<close>: the \<open>short\<close> is converted to the unsigned type of
  \<open>length()\<close>, so the value \<open>-1\<close> stands for no bound.
\<close>

definition size_t_of :: "int \<Rightarrow> int" where
  "size_t_of n = n mod 2 ^ 64"

definition is_erase :: "int \<Rightarrow> bool" where
  "is_erase key \<longleftrightarrow> key = KEY_BACKSPACE \<or> key = KEY_DELETE"

text \<open>
  What a round of the \<open>while (true)\<close> loop of \<open>get_string\<close> does with the key it read
  (lines 59 to 87), the cursor being at \<open>(y, x)\<close>.
\<close>

definition edit_react ::
  "bool \<Rightarrow> int \<Rightarrow> string \<Rightarrow> int \<Rightarrow> int \<Rightarrow> int \<times> int
     \<Rightarrow> ('z console_scheme, (string \<times> int) + string option) prog" where
  "edit_react show_text color_pair s max_length key = (\<lambda>(y, x).
     let s1 = (if is_erase key \<and> s \<noteq> [] then butlast s else s) in
     sq (whn (is_erase key \<and> s \<noteq> []) (emits [Mvaddch y (x - 1) (CHR '' ''), Move y (x - 1), Refresh]))
     (if key = KEY_NL
      then sq (emit (Attroff (Color_pair color_pair))) (ret (Inr (Some s1)))
      else if key = KEY_ESC
      then sq (emit (Attroff (Color_pair color_pair))) (ret (Inr None))
      else if isprint (key_char key) \<and> int (length s1) < size_t_of max_length
      then sq (whn show_text (emits [Addch key, Move y (x + 1)]))
             (ret (Inl (s1 @ [key_char key], max_length)))
      else ret (Inl (s1, max_length))))"

text \<open>
  A whole round; the loop's variables are the text so far and \<open>max_length\<close>, which the first round
  replaces by \<open>-1\<close> when it is zero.
\<close>

definition edit_round ::
  "bool \<Rightarrow> int \<Rightarrow> int \<Rightarrow> int \<Rightarrow> string \<times> int
     \<Rightarrow> ('z console_scheme, (string \<times> int) + string option) prog" where
  "edit_round show_text color_pair initial_y initial_x = (\<lambda>(s, max_length).
     bnd (if max_length \<noteq> 0
          then sq (emits [Attron A_reverse, Move initial_y (initial_x + max_length), Printw '' '',
                          Move initial_y (initial_x + int (length s)), Attroff A_reverse])
                 (ret max_length)
          else ret (-1)) (\<lambda>max_length.
     bnd getch (\<lambda>key. bnd getyx (edit_react show_text color_pair s max_length key))))"

definition get_string ::
  "bool \<Rightarrow> string \<Rightarrow> int \<Rightarrow> int \<Rightarrow> ('z console_scheme, string option) prog" where
  "get_string show_text s color_pair max_length =
     bnd getyx (\<lambda>(initial_y, initial_x).
     sq (emits [Attron (Color_pair color_pair), Attron A_reverse, Printw (c_str s), Attroff A_reverse])
     (if s \<noteq> []
      then bnd getch (\<lambda>key.
        if key \<noteq> KEY_NL
        then sq (emits ([Move initial_y initial_x] @ replicate (length s) (Printw '' '')
                        @ [Move initial_y initial_x]))
            (if isprint (key_char key)
             then sq (whn show_text (emit (Addch key))) (sq (emit Refresh)
                    (while_keys (edit_round show_text color_pair initial_y initial_x)
                       ([key_char key], max_length)))
             else while_keys (edit_round show_text color_pair initial_y initial_x) ([], max_length))
        else sq (emit (Attroff (Color_pair color_pair))) (ret (Some s)))
      else while_keys (edit_round show_text color_pair initial_y initial_x) (s, max_length)))"

subsection \<open>The number filter\<close>

definition nr_char :: "char \<Rightarrow> bool" where
  "nr_char c \<longleftrightarrow> 48 \<le> (of_char c :: int) \<and> (of_char c :: int) \<le> 57 \<or> (of_char c :: int) = 46"

text \<open>Increment of a \<open>short int\<close>: reduced to 16 bits.\<close>

definition short_inc :: "int \<Rightarrow> int" where
  "short_inc i = (i + 1 + 2 ^ 15) mod 2 ^ 16 - 2 ^ 15"

text \<open>
  The loop index is a \<open>short\<close>.  Compared with \<open>length()\<close> a negative index converts to a value
  of at least \<open>2 ^ 64 - 2 ^ 15\<close>, beyond the length of any string.
\<close>

function remove_loop :: "int \<Rightarrow> string \<Rightarrow> string \<Rightarrow> string" where
  "remove_loop i input outp =
     (if 0 \<le> i \<and> i < int (length input) \<and> i < 2 ^ 15
      then remove_loop (short_inc i) input
             (if nr_char (input ! nat i) then outp @ [input ! nat i] else outp)
      else outp)"
  by pat_completeness auto
termination
proof (relation "measure (\<lambda>(i, input, outp). if i < 0 then 0 else nat (2 ^ 15 - i))")
  fix i :: int and input outp :: string
  assume "0 \<le> i \<and> i < int (length input) \<and> i < 2 ^ 15"
  moreover have "short_inc i < 0 \<or> short_inc i = i + 1" if "0 \<le> i" "i < 2 ^ 15"
    using that by (cases "i + 1 = 2 ^ 15") (auto simp: short_inc_def)
  ultimately show "((short_inc i, input, if nr_char (input ! nat i) then outp @ [input ! nat i] else outp),
      i, input, outp) \<in> measure (\<lambda>(i, input, outp). if i < 0 then 0 else nat (2 ^ 15 - i))"
    by auto
qed simp

declare remove_loop.simps [simp del]

definition remove_non_nr :: "string \<Rightarrow> string" where
  "remove_non_nr input =
     (let outp = remove_loop 0 input [] in if outp = [] then ''0'' else outp)"

subsection \<open>The specification of the line editor\<close>

text \<open>
  A line editor without a screen: it consumes keys and gives the line (or \<open>None\<close> when escape ends
  the edit) with the keys left over; \<open>None\<close> at the top while the keys do not end the line.
\<close>

definition room :: "int \<Rightarrow> string \<Rightarrow> bool" where
  "room max_length s \<longleftrightarrow>
     int (length s) < (if max_length = 0 then 2 ^ 64 - 1 else size_t_of max_length)"

fun type_line :: "int \<Rightarrow> string \<Rightarrow> int list \<Rightarrow> (string option \<times> int list) option" where
  "type_line ml s [] = None"
| "type_line ml s (k # ks) =
     (if k = KEY_NL then Some (Some s, ks)
      else if k = KEY_ESC then Some (None, ks)
      else if is_erase k then type_line ml (butlast s) ks
      else if isprint (key_char k) \<and> room ml s then type_line ml (s @ [key_char k]) ks
      else type_line ml s ks)"

definition read_line :: "int \<Rightarrow> string \<Rightarrow> int list \<Rightarrow> (string option \<times> int list) option" where
  "read_line ml s ks =
     (if s = [] then type_line ml s ks
      else case ks of [] \<Rightarrow> None
           | k # ks' \<Rightarrow> if k = KEY_NL then Some (Some s, ks')
                       else type_line ml (if isprint (key_char k) then [key_char k] else []) ks')"

text \<open>
  \<open>agrees r x\<close>: the outcome \<open>r\<close> returned the value and left the keys that the reader found
  (\<open>x\<close>), or it waits and the reader found nothing.
\<close>

definition agrees :: "(stop + 'a) \<times> 'z console_scheme \<Rightarrow> ('a \<times> int list) option \<Rightarrow> bool" where
  "agrees r x \<longleftrightarrow> (case r of
       (Inr a, w') \<Rightarrow> x = Some (a, keys w')
     | (Inl s, w') \<Rightarrow> s = Waiting \<and> x = None)"

lemma agrees_simps [simp]:
  "agrees (Inr a, w) x \<longleftrightarrow> x = Some (a, keys w)"
  "agrees (Inl s, w) x \<longleftrightarrow> s = Waiting \<and> x = None"
  by (simp_all add: agrees_def)

lemma no_new_keys_edit_react [key_rules]: "no_new_keys (edit_react st c s ml k p)"
  unfolding edit_react_def by (cases p) (auto intro!: key_rules simp: Let_def)

lemma reads_key_edit_round: "reads_key (edit_round st c iy ix v)"
proof (cases v)
  case (Pair s ml)
  show ?thesis
    unfolding Pair edit_round_def prod.case
    by (rule reads_key_bnd2, (auto intro!: key_rules)[1], rule reads_key_bnd1, rule reads_key_getch)
      (auto intro!: key_rules)
qed

lemma no_new_keys_edit_round [key_rules]: "no_new_keys (edit_round st c iy ix v)"
  unfolding edit_round_def by (cases v) (auto intro!: key_rules)

lemma no_new_keys_get_string [key_rules]: "no_new_keys (get_string st s c ml)"
  unfolding get_string_def by (auto intro!: key_rules split: prod.splits)

lemma erase_not_print: "is_erase k \<Longrightarrow> \<not> isprint (key_char k)"
  by (auto simp: is_erase_def key_char_def isprint_def of_char_of take_bit_eq_mod)

lemma room_max: "(if ml \<noteq> 0 then ml else - 1) = ml' \<Longrightarrow> int (length s) < size_t_of ml' \<longleftrightarrow> room ml s"
  by (auto simp: room_def size_t_of_def)

lemma edit_round_no_key:
  "keys w = [] \<Longrightarrow> \<exists>w'. edit_round st c iy ix (s, ml) w = (Inl Waiting, w')"
  by (auto simp: edit_round_def prog_simps getch_def emits_def)

lemma edit_react_eval:
  "\<exists>w'. keys w' = keys w \<and> edit_react st c s ml k p w =
     (Inr (if k = KEY_NL then Inr (Some s)
           else if k = KEY_ESC then Inr None
           else if is_erase k then Inl (butlast s, ml)
           else if isprint (key_char k) \<and> int (length s) < size_t_of ml then Inl (s @ [key_char k], ml)
           else Inl (s, ml)), w')"
proof -
  obtain y x where p: "p = (y, x)" by fastforce
  have nl: "\<not> is_erase 10" "\<not> is_erase 27" by (simp_all add: is_erase_def)
  show ?thesis
  proof (cases "is_erase k")
    case True
    then have "\<not> isprint (key_char k)" "k \<noteq> 10" "k \<noteq> 27" using erase_not_print nl by auto
    with True p show ?thesis
      by (cases "s = []") (simp_all add: edit_react_def Let_def prog_simps emits_def)
  next
    case False
    with p show ?thesis by (auto simp: edit_react_def Let_def prog_simps emits_def emit_def)
  qed
qed

lemma edit_round_key:
  assumes "keys w = k # ks"
  shows "\<exists>w'. keys w' = ks \<and> edit_round st c iy ix (s, ml) w =
     (Inr (if k = KEY_NL then Inr (Some s)
           else if k = KEY_ESC then Inr None
           else if is_erase k then Inl (butlast s, if ml \<noteq> 0 then ml else - 1)
           else if isprint (key_char k) \<and> room ml s then Inl (s @ [key_char k], if ml \<noteq> 0 then ml else - 1)
           else Inl (s, if ml \<noteq> 0 then ml else - 1)), w')"
proof -
  let ?ml = "if ml \<noteq> 0 then ml else - 1"
  define w1 where "w1 = (if ml = 0 then w else w\<lparr>screen := screen w @
      [Attron A_reverse, Move iy (ix + ml), Printw '' '', Move iy (ix + int (length s)), Attroff A_reverse]\<rparr>)"
  have r: "edit_round st c iy ix (s, ml) w =
      edit_react st c s ?ml k (yx w1 (screen w1)) (w1\<lparr>keys := ks\<rparr>)"
    using assms by (simp add: w1_def edit_round_def prog_simps getch_def getyx_def emits_def)
  have ks: "keys (w1\<lparr>keys := ks\<rparr>) = ks" by simp
  show ?thesis
    using edit_react_eval [of "w1\<lparr>keys := ks\<rparr>" st c s ?ml k "yx w1 (screen w1)"]
    unfolding r ks room_max [of ml ?ml s, OF refl] .
qed

lemma type_line_unbounded: "type_line (- 1) s ks = type_line 0 s ks"
  by (induction ks arbitrary: s) (auto simp: room_def size_t_of_def)

lemma edit_loop_type_line:
  "agrees (while_keys (edit_round st c iy ix) (s, ml) w) (type_line ml s (keys w))"
proof (induction "keys w" arbitrary: s ml w)
  case Nil
  then show ?case
    using edit_round_no_key [of w st c iy ix s ml]
    by (subst while_keys_unfold [OF reads_key_edit_round]) (auto simp: bnd_def)
next
  case (Cons k ks)
  define m where "m = (if ml \<noteq> 0 then ml else - 1)"
  obtain w' where w': "keys w' = ks" and r: "edit_round st c iy ix (s, ml) w =
     (Inr (if k = KEY_NL then Inr (Some s)
           else if k = KEY_ESC then Inr None
           else if is_erase k then Inl (butlast s, m)
           else if isprint (key_char k) \<and> room ml s then Inl (s @ [key_char k], m)
           else Inl (s, m)), w')"
    using edit_round_key [of w k ks st c iy ix s ml] Cons.hyps(2) by (auto simp: m_def)
  have "type_line m t u = type_line ml t u" for t u by (simp add: type_line_unbounded m_def)
  then have IH: "agrees (while_keys (edit_round st c iy ix) (t, m) w') (type_line ml t ks)" for t
    using Cons.hyps(1) [OF w' [symmetric], where ml = m and s = t] w' by simp
  show ?case
    using IH r Cons.hyps(2) [symmetric] w'
    by (subst while_keys_unfold [OF reads_key_edit_round]) (simp add: bnd_def ret_def)
qed

lemma edit_loop_type_line':
  "keys w = ks \<Longrightarrow> agrees (while_keys (edit_round st c iy ix) (s, ml) w) (type_line ml s ks)"
  using edit_loop_type_line by blast

text \<open>
  C27.  \<open>get_string\<close> refines the line editor: whatever is on the screen, it returns the line that
  \<open>read_line\<close> finds in the keys and leaves the keys \<open>read_line\<close> leaves, and it waits exactly
  when the keys do not end the line.  It never throws.
\<close>

theorem get_string_refines: "agrees (get_string st s c ml w) (read_line ml s (keys w))"
proof -
  obtain y x where yx: "yx w (screen w) = (y, x)" by fastforce
  show ?thesis
  proof (cases "s = []")
    case True
    with yx show ?thesis
      by (simp add: edit_loop_type_line' get_string_def read_line_def prog_simps getyx_def emits_def)
  next
    case False
    show ?thesis
    proof (cases "keys w")
      case Nil
      with False yx show ?thesis
        by (simp add: get_string_def read_line_def prog_simps getyx_def emits_def getch_def)
    next
      case (Cons k ks)
      with False yx show ?thesis
        by (simp add: edit_loop_type_line' get_string_def read_line_def prog_simps getyx_def emits_def emit_def getch_def)
    qed
  qed
qed

subsection \<open>What an edited line looks like\<close>

lemma type_line_result:
  assumes "type_line ml s ks = Some (Some t, ks')" and "list_all isprint s"
  shows "list_all isprint t \<and> (0 < ml \<and> ml < 2 ^ 64 \<and> int (length s) \<le> ml \<longrightarrow> int (length t) \<le> ml)"
  using assms
proof (induction ml s ks rule: type_line.induct)
  case (2 ml s k ks)
  have "list_all isprint (butlast s)" using 2(5) by (auto simp: list_all_iff dest: in_set_butlastD)
  then show ?case
    using 2 by (auto simp: room_def size_t_of_def split: if_splits)
qed simp

lemma type_line_suffix:
  "type_line ml s ks = Some (r, ks') \<Longrightarrow> \<exists>us. ks = us @ ks' \<and> us \<noteq> []"
proof (induction ml s ks rule: type_line.induct)
  case (2 ml s k ks)
  have "\<exists>us. k # ks = us @ ks' \<and> us \<noteq> []" if "\<exists>us. ks = us @ ks' \<and> us \<noteq> []"
    using that by (metis append_Cons list.distinct(1))
  then show ?case using 2 by (auto split: if_splits)
qed simp

text \<open>
  A line that is not the unchanged placeholder consists of printable characters only and, when a
  maximal length is given, is not longer than it.  An empty placeholder is the case of a fresh
  field.
\<close>

theorem get_string_line:
  assumes "get_string st s c ml w = (Inr (Some t), w')"
  shows "t = s \<or> (list_all isprint t \<and> (0 < ml \<and> ml < 2 ^ 64 \<longrightarrow> int (length t) \<le> ml))"
proof -
  have "read_line ml s (keys w) = Some (Some t, keys w')"
    using get_string_refines [of st s c ml w] assms by simp
  then consider "t = s" | u ks where "type_line ml u ks = Some (Some t, keys w')" "list_all isprint u"
    "length u \<le> 1"
    by (cases "keys w") (auto simp: read_line_def split: if_splits)
  then show ?thesis
  proof cases
    case (2 u ks)
    then show ?thesis using type_line_result [OF 2(1,2)] by auto
  qed simp
qed

theorem get_string_line_witness:
  "let w = \<lparr>keys = [97, 98, 263, 99, 10, 113], screen = [], yx = (\<lambda>_. (0, 0))\<rparr> in
   \<exists>w'. get_string True ''old'' 127 2 w = (Inr (Some ''ac''), w') \<and>
     (''ac'' = ''old'' \<or> (list_all isprint ''ac'' \<and> (0 < (2::int) \<and> (2::int) < 2 ^ 64 \<longrightarrow> int (length ''ac'') \<le> 2)))"
proof -
  define w where "w = \<lparr>keys = [97, 98, 263, 99, 10, 113], screen = [], yx = (\<lambda>_. (0, 0))\<rparr>"
  have "read_line 2 ''old'' (keys w) = Some (Some ''ac'', [113])"
    unfolding w_def by code_simp
  then obtain w' where r: "get_string True ''old'' 127 2 w = (Inr (Some ''ac''), w')"
    using get_string_refines [of True "''old''" 127 2 w] by (auto simp: agrees_def split: prod.splits sum.splits)
  from get_string_line [OF r] r show ?thesis unfolding w_def Let_def by blast
qed

subsection \<open>The number filter\<close>

lemma short_inc_small: "0 \<le> i \<Longrightarrow> i + 1 < 2 ^ 15 \<Longrightarrow> short_inc i = i + 1"
  by (simp add: short_inc_def)

lemma short_inc_wrap: "short_inc (2 ^ 15 - 1) = - (2 ^ 15)"
  by (simp add: short_inc_def)

lemma filter_drop_step:
  "n < length xs \<Longrightarrow> filter P (drop n xs) = (if P (xs ! n) then [xs ! n] else []) @ filter P (drop (Suc n) xs)"
  by (simp add: Cons_nth_drop_Suc [symmetric])

lemma remove_loop_filter:
  "0 \<le> i \<Longrightarrow> i \<le> 2 ^ 15 \<Longrightarrow> remove_loop (if i = 2 ^ 15 then - (2 ^ 15) else i) input outp =
     outp @ filter nr_char (drop (nat i) (take (2 ^ 15) input))"
proof (induction "nat (2 ^ 15 - i)" arbitrary: i outp rule: less_induct)
  case less
  show ?case
  proof (cases "i < int (length input) \<and> i < 2 ^ 15")
    case True
    let ?o = "if nr_char (input ! nat i) then outp @ [input ! nat i] else outp"
    have inc: "short_inc i = (if i + 1 = 2 ^ 15 then - (2 ^ 15) else i + 1)"
      using True less.prems short_inc_small short_inc_wrap
      by (cases "i + 1 = 2 ^ 15") (auto simp: short_inc_def)
    have "remove_loop i input outp = remove_loop (short_inc i) input ?o"
      using True less.prems by (subst remove_loop.simps) simp
    also have "\<dots> = ?o @ filter nr_char (drop (nat (i + 1)) (take (2 ^ 15) input))"
      unfolding inc using True less.prems by (intro less.hyps) auto
    also have "\<dots> = outp @ filter nr_char (drop (nat i) (take (2 ^ 15) input))"
      using True less.prems filter_drop_step [of "nat i" "take (2 ^ 15) input" nr_char]
      by (simp add: nat_add_distrib nat_less_iff)
    finally show ?thesis using True by simp
  next
    case False
    then have "length (take (2 ^ 15) input) \<le> nat i" using less.prems by auto
    then show ?thesis using False less.prems by (subst remove_loop.simps) auto
  qed
qed

text \<open>
  \<open>remove_non_nr\<close> keeps the digits and dots of the first 32768 characters, in order, and gives
  "0" when there are none.  (The bound is the range of its \<open>short\<close> index: the rest of a longer
  string is dropped.)
\<close>

theorem remove_non_nr_filter:
  "remove_non_nr s =
     (let t = filter nr_char (take (2 ^ 15) s) in if t = [] then ''0'' else t)"
  using remove_loop_filter [of 0 s "[]"] by (simp add: remove_non_nr_def)

lemma nr_char_cases: "nr_char c \<longleftrightarrow> is_digit c \<or> c = CHR ''.''"
proof -
  have dot: "(of_char (CHR ''.'') :: int) = 46" by simp
  have "(of_char c :: int) = 46 \<longleftrightarrow> c = CHR ''.''"
    unfolding dot [symmetric] by (rule of_char_eq_iff)
  then show ?thesis by (auto simp: nr_char_def is_digit_def)
qed

lemma dot_props [simp]: "\<not> is_digit (CHR ''.'')" "\<not> is_space (CHR ''.'')"
  by (simp_all add: is_digit_def is_space_def)

lemma sto_int_nr:
  assumes "list_all nr_char t" "t \<noteq> []"
  shows "sto_int w t =
    (let ds = takeWhile is_digit t in
     if hd t = CHR ''.'' then Inl Invalid_argument
     else if - (2 ^ (w - 1)) \<le> digits_val ds \<and> digits_val ds < 2 ^ (w - 1) then Inr (digits_val ds)
     else Inl Out_of_range)"
proof -
  obtain c t' where t: "t = c # t'" using assms(2) by (cases t) auto
  then have c: "is_digit c \<or> c = CHR ''.''" using assms(1) by (auto simp: nr_char_cases)
  then have "dropWhile is_space t = t" using t not_space_digit by auto
  moreover have "c \<noteq> CHR ''-''" "c \<noteq> CHR ''+''" using c digit_not_sign by auto
  ultimately show ?thesis using t c by (auto simp: sto_int_def Let_def)
qed

lemma digits_val_nonneg: "list_all is_digit s \<Longrightarrow> 0 \<le> digits_val s"
proof (induction s rule: rev_induct)
  case (snoc c s)
  then show ?case by (auto simp: digits_val_snoc digit_val_def is_digit_def)
qed (simp add: digits_val_def)

lemma takeWhile_digits_all: "list_all is_digit (takeWhile is_digit t)"
  by (auto simp: list_all_iff dest: set_takeWhileD)

text \<open>
  Reading a number the way the scanner and the product form do, \<open>stol(remove_non_nr(text))\<close>,
  on every branch: the digits before the first dot are the number; a text without digits and dots
  reads as 0; one whose first digit or dot is a dot throws \<open>invalid_argument\<close>; a number beyond 63
  bits throws \<open>out_of_range\<close>.
\<close>

theorem stol_remove_non_nr:
  assumes "length s \<le> 2 ^ 15"
  shows "stol (remove_non_nr s) =
    (let t = filter nr_char s; ds = takeWhile is_digit t in
     if t = [] then Inr 0
     else if hd t = CHR ''.'' then Inl Invalid_argument
     else if digits_val ds < 2 ^ 63 then Inr (digits_val ds)
     else Inl Out_of_range)"
proof -
  let ?t = "filter nr_char s"
  have r: "remove_non_nr s = (if ?t = [] then ''0'' else ?t)"
    using assms by (simp add: remove_non_nr_filter)
  have z: "sto_int 64 ''0'' = Inr 0" by code_simp
  have nr: "list_all nr_char ?t" by (simp add: list_all_iff)
  have "0 \<le> digits_val (takeWhile is_digit ?t)"
    by (rule digits_val_nonneg) (rule takeWhile_digits_all)
  then show ?thesis
    using r z sto_int_nr [OF nr, of 64] by (auto simp: stol_def Let_def)
qed

theorem stol_remove_non_nr_witness:
  "stol (remove_non_nr ''#5901234123457'') = Inr 5901234123457 \<and>
   stol (remove_non_nr ''.5'') = Inl Invalid_argument"
proof -
  have a: "filter nr_char ''#5901234123457'' = ''5901234123457''"
    "takeWhile is_digit ''5901234123457'' = ''5901234123457''"
    "digits_val ''5901234123457'' = 5901234123457"
    by code_simp+
  have b: "filter nr_char ''.5'' = ''.5''" by code_simp
  have l: "length ''#5901234123457'' \<le> 2 ^ 15" "length ''.5'' \<le> 2 ^ 15" by simp_all
  show ?thesis
    unfolding stol_remove_non_nr [OF l(1)] stol_remove_non_nr [OF l(2)] Let_def a b by simp
qed

text \<open>Line editing is a program in the sense of the logic of the console.\<close>

lemma reads_key_get_string: "reads_key (get_string st s c ml)"
proof -
  have loop: "reads_key (while_keys (edit_round st c iy ix) v)" for iy ix v
    by (intro reads_key_while_keys reads_key_edit_round key_rules)
  show ?thesis
    unfolding get_string_def
    by (rule reads_key_bnd2[OF no_new_keys_getyx], clarify, rule reads_key_sq2[OF no_new_keys_emit(2)], cases "s = []")
      (auto intro!: loop reads_key_bnd1[OF reads_key_getch] key_rules)
qed

context console_logic
begin

lemma get_string: "ok (get_string st s c ml)"
proof -
  have "ok (edit_round st c iy ix v)" for iy ix v
    unfolding edit_round_def edit_react_def Let_def by (intro steps)
  then show ?thesis
    unfolding get_string_def by (intro steps whil) (simp_all add: reads_key_edit_round)
qed

end

end
