(* ===== verification/Search.thy ===== *)
theory Search
  imports Prelude "HOL-Library.Multiset" "HOL-Library.Sublist"
begin

text \<open>
  \<open>src/src/binary_search.cpp\<close>: the string comparison, the bubble sort and the binary search
  over product names.  A \<open>char\<close> is signed (x86-64), so bytes from 128 on compare below the
  ASCII ones.  The vector index \<open>mid\<close> of the binary search is not initialised by the code; its
  first value is the parameter \<open>mid0\<close>.
\<close>

definition schar :: "char \<Rightarrow> int" where
  "schar c = (if of_char c < (128::int) then of_char c else of_char c - 256)"

fun compare_string :: "string \<Rightarrow> string \<Rightarrow> bool" where
  "compare_string (a # s1) (b # s2) =
     (if schar a > schar b then True
      else if schar a < schar b then False
      else compare_string s1 s2)"
| "compare_string s1 s2 = False"

text \<open>
  One pass of the bubble sort's inner \<open>for\<close> loop, from index \<open>i\<close>.  The bound
  \<open>v.size() - 1\<close> is unsigned: on an empty vector it wraps and the loop reads out of range.
\<close>

function bubble_for :: "nat \<Rightarrow> string list \<Rightarrow> string list" where
  "bubble_for i v = (if Suc i < length v
     then bubble_for (Suc i)
            (if compare_string (v ! i) (v ! Suc i) then v[i := v ! Suc i, Suc i := v ! i] else v)
     else v)"
  by pat_completeness auto
termination
  by (relation "measure (\<lambda>(i, v). length v - i)") auto

declare bubble_for.simps [simp del]

text \<open>
  The outer loop.  \<open>sorted\<close> is \<open>false\<close> at the start and the body only ever assigns
  \<open>false\<close> to it.  \<open>None\<close> is "does not return".
\<close>

partial_function (option) bubble_while ::
  "bool \<Rightarrow> string list \<Rightarrow> (undefined_op + string list) option" where
  "bubble_while is_sorted v =
     (if \<not> is_sorted
      then (if v = [] then Some (Inl Index_out_of_range)
            else bubble_while False (bubble_for 0 v))
      else Some (Inr v))"

definition bubble_sort :: "string list \<Rightarrow> (undefined_op + string list) option" where
  "bubble_sort v = bubble_while False v"

text \<open>The loop of \<open>binary_search\<close>, over the comparison \<open>gt\<close> that the code calls.\<close>

function bs_loop ::
  "('a \<Rightarrow> 'a \<Rightarrow> bool) \<Rightarrow> 'a list \<Rightarrow> 'a \<Rightarrow> int \<Rightarrow> int \<Rightarrow> int \<Rightarrow> undefined_op + int" where
  "bs_loop gt v w start end' mid =
     (if start \<le> end'
      then (let mid' = start + (end' - start) div 2 in
            if \<not> (0 \<le> mid' \<and> mid' < int (length v)) then Inl Index_out_of_range
            else if v ! nat mid' = w then Inr mid'
            else if gt w (v ! nat mid') then bs_loop gt v w (mid' + 1) end' mid'
            else bs_loop gt v w start (mid' - 1) mid')
      else Inr mid)"
  by pat_completeness auto
termination
  by (relation "measure (\<lambda>(gt, v, w, start, end', mid). nat (end' - start + 1))") (auto simp: Let_def)

declare bs_loop.simps [simp del]

definition binary_search :: "int \<Rightarrow> string list \<Rightarrow> string \<Rightarrow> undefined_op + int" where
  "binary_search mid0 v search_word =
     bs_loop compare_string v search_word 0 (int (length v) - 1) mid0"

text \<open>The names that a search looks at, in the order in which it does.\<close>

function probes :: "('a \<Rightarrow> 'a \<Rightarrow> bool) \<Rightarrow> 'a list \<Rightarrow> 'a \<Rightarrow> int \<Rightarrow> int \<Rightarrow> 'a list" where
  "probes gt v w start end' =
     (if start \<le> end'
      then (let mid' = start + (end' - start) div 2; y = v ! nat mid' in
            if \<not> (0 \<le> mid' \<and> mid' < int (length v)) then []
            else if y = w then [y]
            else if gt w y then y # probes gt v w (mid' + 1) end'
            else y # probes gt v w start (mid' - 1))
      else [])"
  by pat_completeness auto
termination
  by (relation "measure (\<lambda>(gt, v, w, start, end'). nat (end' - start + 1))") (auto simp: Let_def)

declare probes.simps [simp del]

definition probed :: "string list \<Rightarrow> string \<Rightarrow> string list" where
  "probed v search_word = probes compare_string v search_word 0 (int (length v) - 1)"

subsection \<open>The order behind the comparison\<close>

text \<open>
  The order in which a byte-wise collation sorts names: lexicographic on signed bytes, a proper
  prefix first.
\<close>

fun name_le :: "string \<Rightarrow> string \<Rightarrow> bool" where
  "name_le [] t = True"
| "name_le (a # s) [] = False"
| "name_le (a # s) (b # t) = (schar a < schar b \<or> (schar a = schar b \<and> name_le s t))"

lemma schar_inj [simp]: "schar a = schar b \<longleftrightarrow> a = b"
proof
  have byte: "0 \<le> (of_char c :: int) \<and> (of_char c :: int) < 256" for c :: char
  proof -
    have "(of_char c :: int) = int (of_char c)" by (simp add: of_nat_of_char)
    moreover have "(of_char c :: nat) < 256" by simp
    ultimately show ?thesis by (metis of_nat_0_le_iff of_nat_less_iff of_nat_numeral)
  qed
  assume "schar a = schar b"
  then have "(of_char a :: int) = of_char b"
    using byte [of a] byte [of b] by (auto simp: schar_def split: if_splits)
  then show "a = b" by simp
qed simp

lemma name_le_refl [simp]: "name_le s s"
  by (induction s) simp_all

lemma name_le_antisym: "name_le s t \<Longrightarrow> name_le t s \<Longrightarrow> s = t"
  by (induction s t rule: name_le.induct) (auto elim: name_le.elims)

lemma name_le_trans: "name_le s t \<Longrightarrow> name_le t u \<Longrightarrow> name_le s u"
proof (induction s t arbitrary: u rule: name_le.induct)
  case (3 a s b t)
  then show ?case by (cases u) auto
qed auto

lemma compare_string_gt: "compare_string s t \<Longrightarrow> \<not> name_le s t"
  by (induction s t rule: compare_string.induct) (auto split: if_splits)

lemma not_compare_string_le:
  "\<not> compare_string s t \<Longrightarrow> \<not> strict_prefix t s \<Longrightarrow> s \<noteq> t \<Longrightarrow> \<not> name_le t s"
proof (induction s t rule: compare_string.induct)
  case (1 a s b t)
  then show ?case by (auto split: if_splits)
qed (auto simp: strict_prefix_def elim: name_le.elims)

subsection \<open>Bisection over any ordered probe\<close>

text \<open>
  What the search needs of the comparison: it says "greater" only when the order says so, and for
  the pairs in \<open>decides\<close> it says "not greater" only when the order says "less".
\<close>

locale ordered_probe =
  fixes le :: "'a \<Rightarrow> 'a \<Rightarrow> bool" and gt :: "'a \<Rightarrow> 'a \<Rightarrow> bool" and decides :: "'a \<Rightarrow> 'a \<Rightarrow> bool"
  assumes le_trans: "le x y \<Longrightarrow> le y z \<Longrightarrow> le x z"
    and gt_sound: "gt x y \<Longrightarrow> \<not> le x y"
    and gt_complete: "decides x y \<Longrightarrow> \<not> gt x y \<Longrightarrow> x \<noteq> y \<Longrightarrow> \<not> le y x"
begin

lemma right_half:
  assumes s: "sorted_wrt le v" and gt: "gt w (v ! m)" and j: "j < length v" and eq: "v ! j = w"
    and m: "m < length v" and ne: "v ! m \<noteq> w"
  shows "m < j"
proof (rule ccontr)
  assume "\<not> m < j"
  with ne eq have "j < m" by (metis linorder_neqE_nat)
  with s m eq have "le w (v ! m)" by (metis sorted_wrt_nth_less)
  with gt show False using gt_sound by blast
qed

lemma left_half:
  assumes s: "sorted_wrt le v" and ngt: "\<not> gt w (v ! m)" and d: "decides w (v ! m)"
    and j: "j < length v" and eq: "v ! j = w" and ne: "v ! m \<noteq> w"
  shows "j < m"
proof (rule ccontr)
  assume "\<not> j < m"
  with ne eq have "m < j" by (metis linorder_neqE_nat)
  with s j eq have "le (v ! m) w" by (metis sorted_wrt_nth_less)
  with gt_complete [OF d ngt] ne show False by metis
qed

lemma bs_loop_finds:
  assumes srt: "sorted_wrt le v" and j: "j < length v" "v ! j = w"
  shows "0 \<le> s \<Longrightarrow> e < int (length v) \<Longrightarrow> s \<le> int j \<Longrightarrow> int j \<le> e \<Longrightarrow> \<forall>y \<in> set (probes gt v w s e). decides w y \<Longrightarrow>
    \<exists>k. bs_loop gt v w s e m = Inr (int k) \<and> k < length v \<and> v ! k = w"
proof (induction "nat (e - s + 1)" arbitrary: s e m rule: less_induct)
  case less
  define q where "q = s + (e - s) div 2"
  have q: "s \<le> q" "q \<le> e" "0 \<le> q" "q < int (length v)"
    using less.prems unfolding q_def by auto
  then have nq: "nat q < length v" by linarith
  have unf: "bs_loop gt v w s e m =
      (if v ! nat q = w then Inr q
       else if gt w (v ! nat q) then bs_loop gt v w (q + 1) e q else bs_loop gt v w s (q - 1) q)"
    using q by (subst bs_loop.simps) (simp add: Let_def q_def [symmetric])
  have pr: "probes gt v w s e =
      (if v ! nat q = w then [w]
       else if gt w (v ! nat q) then v ! nat q # probes gt v w (q + 1) e else v ! nat q # probes gt v w s (q - 1))"
    using q by (subst probes.simps) (simp add: Let_def q_def [symmetric])
  show ?case
  proof (cases "v ! nat q = w")
    case True
    with q nq unf show ?thesis by (intro exI [of _ "nat q"]) simp
  next
    case ne: False
    show ?thesis
    proof (cases "gt w (v ! nat q)")
      case True
      then have "nat q < j" using right_half [OF srt True j nq ne] by simp
      then show ?thesis
        using less.hyps [of e "q + 1" q] less.prems q ne True unf pr by auto
    next
      case False
      then have "decides w (v ! nat q)" using less.prems(5) ne pr by simp
      then have "j < nat q" using left_half [OF srt False _ j ne] by simp
      then show ?thesis
        using less.hyps [of "q - 1" s q] less.prems q ne False unf pr by auto
    qed
  qed
qed

end

interpretation name_probe: ordered_probe name_le compare_string "\<lambda>x y. \<not> strict_prefix y x"
  by unfold_locales (blast intro: name_le_trans, blast dest: compare_string_gt,
    blast dest: not_compare_string_le)

subsection \<open>Binary search\<close>

lemma bs_loop_in_range:
  "0 \<le> s \<Longrightarrow> e < int (length v) \<Longrightarrow> s \<le> e \<or> (0 \<le> m \<and> m < int (length v)) \<Longrightarrow>
    \<exists>k. bs_loop gt v w s e m = Inr k \<and> 0 \<le> k \<and> k < int (length v)"
proof (induction gt v w s e m rule: bs_loop.induct)
  case (1 gt v w s e m)
  define q where "q = s + (e - s) div 2"
  have q: "s \<le> e \<Longrightarrow> s \<le> q \<and> q \<le> e" unfolding q_def by auto
  show ?case
    using 1 q by (subst bs_loop.simps) (auto simp: Let_def q_def [symmetric])
qed

text \<open>Where the name is not in the range that is left, the search ends at another name.\<close>

lemma bs_loop_absent:
  "0 \<le> s \<Longrightarrow> e < int (length v) \<Longrightarrow> \<forall>i. s \<le> int i \<and> int i \<le> e \<longrightarrow> v ! i \<noteq> w \<Longrightarrow> 0 \<le> m \<Longrightarrow> v ! nat m \<noteq> w \<Longrightarrow>
    \<exists>k. bs_loop gt v w s e m = Inr (int k) \<and> v ! k \<noteq> w"
proof (induction gt v w s e m rule: bs_loop.induct)
  case (1 gt v w s e m)
  show ?case
  proof (cases "s \<le> e")
    case False
    with 1 show ?thesis by (intro exI[of _ "nat m"]) (simp add: bs_loop.simps)
  next
    case True
    define q where "q = s + (e - s) div 2"
    have q: "s \<le> q" "q \<le> e" "0 \<le> q" "q < int (length v)" using True 1 unfolding q_def by auto
    then have "s \<le> int (nat q)" "int (nat q) \<le> e" by simp_all
    with 1 have ne: "v ! nat q \<noteq> w" by blast
    have unf: "bs_loop gt v w s e m = (if gt w (v ! nat q) then bs_loop gt v w (q + 1) e q else bs_loop gt v w s (q - 1) q)"
      using True q ne by (subst bs_loop.simps) (simp add: Let_def q_def [symmetric])
    show ?thesis
    proof (cases "gt w (v ! nat q)")
      case gt: True
      have "\<exists>k. bs_loop gt v w (q + 1) e q = Inr (int k) \<and> v ! k \<noteq> w"
        by (rule 1(1)[OF True q_def _ _ gt]) (use 1 q ne in auto)
      with unf gt show ?thesis by simp
    next
      case gt: False
      have "\<exists>k. bs_loop gt v w s (q - 1) q = Inr (int k) \<and> v ! k \<noteq> w"
        by (rule 1(2)[OF True q_def _ _ gt]) (use 1 q ne in auto)
      with unf gt show ?thesis by simp
    qed
  qed
qed

lemma prefix_not_greater: "prefix y w \<Longrightarrow> \<not> compare_string w y \<and> name_le y w"
  by (induction y w rule: name_le.induct) auto

lemma bs_loop_blind:
  assumes srt: "sorted_wrt name_le v"
  shows "0 \<le> s \<Longrightarrow> e < int (length v) \<Longrightarrow> y \<in> set (probes compare_string v w s e) \<Longrightarrow> strict_prefix y w \<Longrightarrow>
    \<exists>k. bs_loop compare_string v w s e m = Inr (int k) \<and> v ! k \<noteq> w"
proof (induction "nat (e - s + 1)" arbitrary: s e m rule: less_induct)
  case less
  have se: "s \<le> e" using less.prems(3) by (subst (asm) probes.simps) (auto split: if_splits)
  define q where "q = s + (e - s) div 2"
  have q: "s \<le> q" "q \<le> e" "0 \<le> q" "q < int (length v)" using se less.prems unfolding q_def by auto
  have unf: "bs_loop compare_string v w s e m =
      (if v ! nat q = w then Inr q
       else if compare_string w (v ! nat q) then bs_loop compare_string v w (q + 1) e q else bs_loop compare_string v w s (q - 1) q)"
    using se q by (subst bs_loop.simps) (simp add: Let_def q_def [symmetric])
  have pr: "probes compare_string v w s e =
      (if v ! nat q = w then [w]
       else if compare_string w (v ! nat q) then v ! nat q # probes compare_string v w (q + 1) e else v ! nat q # probes compare_string v w s (q - 1))"
    using se q by (subst probes.simps) (simp add: Let_def q_def [symmetric])
  have ne: "v ! nat q \<noteq> w" using less.prems(3,4) pr by (auto split: if_splits)
  show ?case
  proof (cases "y = v ! nat q")
    case True
    then have p: "\<not> compare_string w (v ! nat q)" "name_le (v ! nat q) w" using prefix_not_greater[of y w] less.prems(4) by auto
    have "v ! i \<noteq> w" if i: "int i \<le> q - 1" for i
    proof
      assume w: "v ! i = w"
      have "i < nat q" "nat q < length v" using i q by linarith+
      then have "name_le w (v ! nat q)" using sorted_wrt_nth_less[OF srt] w by blast
      with p(2) ne show False using name_le_antisym by blast
    qed
    then show ?thesis using bs_loop_absent[of s "q - 1" v w q compare_string] less.prems q ne p unf by auto
  next
    case False
    show ?thesis
    proof (cases "compare_string w (v ! nat q)")
      case True
      with less.hyps[of e "q + 1" q] less.prems q ne unf pr False show ?thesis by auto
    next
      case gt: False
      with less.hyps[of "q - 1" s q] less.prems q ne unf pr False show ?thesis by auto
    qed
  qed
qed

text \<open>
  C25.  On a list of names sorted byte-wise, the search for a word of the list returns an index of that word if and only if
  none of the names that the search looks at is a proper prefix of it.
\<close>

theorem binary_search_finds:
  assumes "sorted_wrt name_le v" and "w \<in> set v"
  shows "(\<exists>k. binary_search mid0 v w = Inr (int k) \<and> k < length v \<and> v ! k = w) \<longleftrightarrow> (\<forall>y \<in> set (probed v w). \<not> strict_prefix y w)"
proof
  from assms(2) obtain j where j: "j < length v" "v ! j = w" by (auto simp: in_set_conv_nth)
  assume "\<forall>y \<in> set (probed v w). \<not> strict_prefix y w"
  then show "\<exists>k. binary_search mid0 v w = Inr (int k) \<and> k < length v \<and> v ! k = w"
    unfolding binary_search_def probed_def using assms(1) j by (intro name_probe.bs_loop_finds) auto
next
  assume "\<exists>k. binary_search mid0 v w = Inr (int k) \<and> k < length v \<and> v ! k = w"
  then show "\<forall>y \<in> set (probed v w). \<not> strict_prefix y w"
    using bs_loop_blind[OF assms(1), of 0 "int (length v) - 1" _ w mid0] unfolding binary_search_def probed_def by fastforce
qed

theorem binary_search_finds_witness:
  "(\<exists>k. binary_search 7 [''a'', ''apple'', ''apples'', ''bread'', ''milk''] ''bread'' = Inr (int k) \<and> k < 5
     \<and> [''a'', ''apple'', ''apples'', ''bread'', ''milk''] ! k = ''bread'')
   \<and> \<not> (\<exists>k. binary_search 7 [''ab'', ''abc''] ''abc'' = Inr (int k) \<and> k < 2 \<and> [''ab'', ''abc''] ! k = ''abc'')"
proof -
  have "probed [''a'', ''apple'', ''apples'', ''bread'', ''milk''] ''bread'' = [''apples'', ''bread'']"
    "probed [''ab'', ''abc''] ''abc'' = [''ab'']"
    by (simp_all add: probed_def probes.simps schar_def numeral_3_eq_3)
  then show ?thesis
    using binary_search_finds [of "[''a'', ''apple'', ''apples'', ''bread'', ''milk'']" "''bread''" 7]
      binary_search_finds [of "[''ab'', ''abc'']" "''abc''" 7]
    by (simp add: schar_def strict_prefix_def prefix_def eval_nat_numeral)
qed

text \<open>
  On a non-empty list the search always returns an index inside the list, whatever the word,
  the order of the names and the uninitialised \<open>mid\<close>: the caller's \<open>product_codes[index]\<close>
  is then in range.
\<close>

theorem binary_search_in_range:
  assumes "v \<noteq> []"
  shows "\<exists>k. binary_search mid0 v w = Inr k \<and> 0 \<le> k \<and> k < int (length v)"
  unfolding binary_search_def using assms by (intro bs_loop_in_range) (auto simp: Suc_le_eq)

theorem binary_search_in_range_witness:
  "\<exists>k. binary_search (-5) [''b'', ''a''] ''zz'' = Inr k \<and> 0 \<le> k \<and> k < 2"
  using binary_search_in_range [of "[''b'', ''a'']" "-5" "''zz''"] by simp

text \<open>
  The premise on prefixes is needed: \<open>compare_string\<close> treats a name and any extension of
  it as equal, so a word that is in the sorted list is missed when one of its prefixes is probed
  first.
\<close>

theorem binary_search_misses_after_prefix:
  "\<exists>v w. sorted_wrt name_le v \<and> w \<in> set v \<and> (\<exists>k. binary_search mid0 v w = Inr k \<and> v ! nat k \<noteq> w)"
proof (intro exI conjI)
  show "sorted_wrt name_le [''ab'', ''abc'']" by simp
  show "''abc'' \<in> set [''ab'', ''abc'']" by simp
  show "binary_search mid0 [''ab'', ''abc''] ''abc'' = Inr 0"
    by (simp add: binary_search_def bs_loop.simps schar_def)
  show "[''ab'', ''abc''] ! nat 0 \<noteq> ''abc''" by simp
qed

subsection \<open>Bubble sort\<close>

lemma mset_bubble_for: "mset (bubble_for i v) = mset v"
proof (induction i v rule: bubble_for.induct)
  case (1 i v)
  then show ?case
    by (subst bubble_for.simps) (auto simp: mset_swap)
qed

lemma length_bubble_for [simp]: "length (bubble_for i v) = length v"
  by (metis mset_bubble_for size_mset)

lemma bubble_for_below: "k < i \<Longrightarrow> bubble_for i v ! k = v ! k"
proof (induction i v rule: bubble_for.induct)
  case (1 i v)
  then show ?case by (subst bubble_for.simps) auto
qed

lemma bubble_while_returns:
  assumes ret: "bubble_while b v = Some r"
  shows "b \<or> r = Inl Index_out_of_range"
proof (rule bubble_while.raw_induct [where P = "\<lambda>b v r. b \<or> r = Inl Index_out_of_range", OF _ ret])
  fix f b v r
  assume IH: "\<And>b v r. f b v = Some r \<Longrightarrow> b \<or> r = Inl Index_out_of_range"
    and eq: "(if \<not> b then if v = [] then Some (Inl Index_out_of_range) else f False (bubble_for 0 v)
              else Some (Inr v)) = Some r"
  show "b \<or> r = Inl Index_out_of_range"
    using IH [of False "bubble_for 0 v"] eq by (auto split: if_splits)
qed

lemma bubble_while_nonempty:
  assumes ret: "bubble_while b v = Some r"
  shows "v \<noteq> [] \<longrightarrow> b \<or> (\<exists>u. r = Inr u)"
proof (rule bubble_while.raw_induct [where P = "\<lambda>b v r. v \<noteq> [] \<longrightarrow> b \<or> (\<exists>u. r = Inr u)", OF _ ret])
  fix f b v r
  assume IH: "\<And>b v r. f b v = Some r \<Longrightarrow> v \<noteq> [] \<longrightarrow> b \<or> (\<exists>u. r = Inr u)"
    and eq: "(if \<not> b then if v = [] then Some (Inl Index_out_of_range) else f False (bubble_for 0 v)
              else Some (Inr v)) = Some r"
  have "bubble_for 0 v \<noteq> []" if "v \<noteq> []"
    using that length_bubble_for [of 0 v] by (metis length_0_conv)
  then show "v \<noteq> [] \<longrightarrow> b \<or> (\<exists>u. r = Inr u)"
    using IH [of False "bubble_for 0 v" r] eq by (auto split: if_splits)
qed

text \<open>
  C26.  \<open>bubble_sort\<close> returns for no input: on a non-empty vector the outer loop never ends, since
  nothing sets \<open>sorted\<close>, and on an empty one the wrapped bound makes it read out of range.
\<close>

theorem bubble_sort_never_returns:
  "bubble_sort v = (if v = [] then Some (Inl Index_out_of_range) else None)"
proof (cases "bubble_sort v")
  case None
  then show ?thesis by (auto simp: bubble_sort_def bubble_while.simps)
next
  case (Some r)
  then show ?thesis
    using bubble_while_returns [of False v r] bubble_while_nonempty [of False v r]
    by (auto simp: bubble_sort_def)
qed

end
