(* ===== verification/Pqxx_Encodings.thy ===== *)
theory Pqxx_Encodings
  imports Cpp_Std
begin

text \<open>
  \<open>libpqxx/src/encodings.cxx\<close> and \<open>libpqxx/include/pqxx/internal/encodings.hxx\<close>: the
  encoding groups, the glyph scanners and the search for ASCII characters.  The scanners' contract
  (progress inside the buffer, one step over an ASCII byte) is the locale \<open>glyph_scan\<close>, which each
  of the four scanners interprets.
\<close>

datatype encoding_group = Enc_unknown | Ascii_safe | Two_tier | Gb18030 | Sjis

definition starts_with :: "string \<Rightarrow> string \<Rightarrow> bool" where
  "starts_with s p \<longleftrightarrow> take (length p) s = p"

definition windows_subtypes :: "string list" where
  "windows_subtypes = [''866'', ''874'', ''1250'', ''1251'', ''1252'', ''1253'',
     ''1254'', ''1255'', ''1256'', ''1257'', ''1258'']"

definition enc_group :: "string \<Rightarrow> exn + encoding_group" where
  "enc_group n =
     (let bad = Inl (Argument_error (''Unrecognized encoding: '' @ [CHR 0x27] @ n @ [CHR 0x27] @ ''.'')) in
      if n = [] then bad
      else let c = hd n in
      if c = CHR ''B'' then (if n = ''BIG5'' then Inr Two_tier else bad)
      else if c = CHR ''E'' then (if starts_with n ''EUC_'' then Inr Ascii_safe else bad)
      else if c = CHR ''G'' then
        (if n = ''GB18030'' then Inr Gb18030 else if n = ''GBK'' then Inr Gb18030 else bad)
      else if c = CHR ''I'' then
        (if length n = 10 \<and> starts_with n ''ISO_8859_''
            \<and> of_char (CHR ''5'') \<le> (of_char (n ! 9) :: int) \<and> (of_char (n ! 9) :: int) < of_char (CHR ''9'')
         then Inr Ascii_safe else bad)
      else if c = CHR ''K'' then (if n = ''KOI8R'' \<or> n = ''KOI8U'' then Inr Ascii_safe else bad)
      else if c = CHR ''L'' then
        (if starts_with n ''LATIN'' then
           (let sub = drop 5 n in
            if length sub = 1 then
              (if of_char (CHR ''1'') \<le> (of_char (hd sub) :: int) \<and> (of_char (hd sub) :: int) \<le> of_char (CHR ''9'')
               then Inr Ascii_safe else bad)
            else if sub = ''10'' then Inr Ascii_safe else bad)
         else bad)
      else if c = CHR ''M'' then (if n = ''MULE_INTERNAL'' then Inr Ascii_safe else bad)
      else if c = CHR ''S'' then
        (if n = ''SHIFT_JIS_2004'' then Inr Sjis
         else if n = ''SJIS'' then Inr Sjis
         else if n = ''SQL_ASCII'' then Inr Ascii_safe else bad)
      else if c = CHR ''U'' then
        (if n = ''UHC'' then Inr Ascii_safe else if n = ''UTF8'' then Inr Ascii_safe else bad)
      else if c = CHR ''W'' then
        (if take 3 n = ''WIN'' \<and> drop 3 n \<in> set windows_subtypes then Inr Ascii_safe else bad)
      else bad)"

subsection \<open>Glyph scanners\<close>

type_synonym scanner = "string \<Rightarrow> nat \<Rightarrow> exn + nat"

definition get_byte :: "string \<Rightarrow> nat \<Rightarrow> int" where
  "get_byte buffer offset = of_char (buffer ! offset)"

definition between_inc :: "int \<Rightarrow> int \<Rightarrow> int \<Rightarrow> bool" where
  "between_inc v lo hi \<longleftrightarrow> lo \<le> v \<and> v \<le> hi"

text \<open>
  \<open>list_bytes\<close> means to print the bytes in hexadecimal, but streams each of them as an
  \<open>unsigned char\<close>, which inserts the character itself.
\<close>

definition list_bytes :: "string \<Rightarrow> string" where
  "list_bytes data = butlast (concat (map (\<lambda>c. ''0x'' @ [c] @ '' '') data))"

definition throw_for_encoding_error :: "string \<Rightarrow> string \<Rightarrow> nat \<Rightarrow> nat \<Rightarrow> exn + 'a" where
  "throw_for_encoding_error enc buffer start count = Inl (Argument_error
     (''Text is not correctly encoded in '' @ enc @ '' at byte '' @ int_to_string (int start) @ '': ''
      @ list_bytes (take count (drop start buffer)) @ ''.''))"

definition throw_for_truncated_character :: "string \<Rightarrow> string \<Rightarrow> nat \<Rightarrow> exn + 'a" where
  "throw_for_truncated_character enc buffer start = Inl (Argument_error
     (''Text encoded in '' @ enc @ '' is truncated in mid-character at byte '' @ int_to_string (int start)
      @ '': '' @ list_bytes (drop start buffer) @ ''.''))"

definition scan_ascii_safe :: scanner where
  "scan_ascii_safe buffer start = Inr (start + 1)"

definition scan_two_tier :: scanner where
  "scan_two_tier buffer start =
     (if get_byte buffer start < 128 then Inr (start + 1)
      else if start + 2 \<le> length buffer then Inr (start + 2)
      else throw_for_truncated_character ''variable-width two-byte encoding'' buffer start)"

definition scan_gb18030 :: scanner where
  "scan_gb18030 buffer start =
     (let byte1 = get_byte buffer start; sz = length buffer in
      if byte1 < 128 then Inr (start + 1)
      else if byte1 = 128 then throw_for_encoding_error ''GB18030'' buffer start (sz - start)
      else if start + 2 > sz then throw_for_truncated_character ''GB18030'' buffer start
      else let byte2 = get_byte buffer (start + 1) in
      if between_inc byte2 64 254
      then (if byte2 = 127 then throw_for_encoding_error ''GB18030'' buffer start 2 else Inr (start + 2))
      else if start + 4 > sz then throw_for_truncated_character ''GB18030'' buffer start
      else if between_inc byte2 48 57 \<and> between_inc (get_byte buffer (start + 2)) 129 254
              \<and> between_inc (get_byte buffer (start + 3)) 48 57
      then Inr (start + 4)
      else throw_for_encoding_error ''GB18030'' buffer start 4)"

definition scan_sjis :: scanner where
  "scan_sjis buffer start =
     (let byte1 = get_byte buffer start in
      if byte1 < 128 then Inr (start + 1)
      else if between_inc byte1 161 223 then Inr (start + 1)
      else if \<not> between_inc byte1 129 159 \<and> \<not> between_inc byte1 224 252
      then throw_for_encoding_error ''SJIS'' buffer start 1
      else if start + 2 > length buffer then throw_for_truncated_character ''SJIS'' buffer start
      else Inr (start + 2))"

text \<open>
  The search loop of \<open>find_ascii_char\<close>.  The code assumes \<open>next > here\<close> (\<open>PQXX_ASSUME\<close>);
  the branch in which the assumption fails is shown below never to be taken.
\<close>

function find_ascii_char :: "scanner \<Rightarrow> char list \<Rightarrow> string \<Rightarrow> nat \<Rightarrow> exn + nat" where
  "find_ascii_char scan needle haystack here =
     (if here < length haystack
      then (case scan haystack here of
              Inl e \<Rightarrow> Inl e
            | Inr nxt \<Rightarrow>
                if nxt \<le> here then Inl (Internal_error ''PQXX_ASSUME(next > here)'')
                else if haystack ! here \<in> set needle then Inr here
                else find_ascii_char scan needle haystack nxt)
      else Inr (length haystack))"
  by pat_completeness auto
termination
  by (relation "measure (\<lambda>(scan, needle, haystack, here). length haystack - here)") auto

declare find_ascii_char.simps [simp del]

definition get_char_finder :: "char list \<Rightarrow> encoding_group \<Rightarrow> exn + (string \<Rightarrow> nat \<Rightarrow> exn + nat)" where
  "get_char_finder needle enc = (case enc of
       Enc_unknown \<Rightarrow> Inl (Argument_error ''Tried to read text without knowing its encoding.'')
     | Ascii_safe \<Rightarrow> Inr (find_ascii_char scan_ascii_safe needle)
     | Two_tier \<Rightarrow> Inr (find_ascii_char scan_two_tier needle)
     | Gb18030 \<Rightarrow> Inr (find_ascii_char scan_gb18030 needle)
     | Sjis \<Rightarrow> Inr (find_ascii_char scan_sjis needle))"

subsection \<open>The scanner contract\<close>

text \<open>Character boundaries: the positions a scanner steps through from \<open>here\<close>.\<close>

inductive boundary :: "scanner \<Rightarrow> string \<Rightarrow> nat \<Rightarrow> nat \<Rightarrow> bool" for scan s where
  boundary_here: "boundary scan s here here"
| boundary_step: "here < length s \<Longrightarrow> scan s here = Inr n \<Longrightarrow> boundary scan s n p \<Longrightarrow> boundary scan s here p"

inductive_simps boundary_iff: "boundary scan s here p"

locale glyph_scan =
  fixes scan :: scanner
  assumes progress: "start < length s \<Longrightarrow> scan s start = Inr n \<Longrightarrow> start < n \<and> n \<le> length s"
    and ascii_step: "start < length s \<Longrightarrow> get_byte s start < 128 \<Longrightarrow> scan s start = Inr (start + 1)"
begin

lemma boundary_ge: "boundary scan s here p \<Longrightarrow> here \<le> p"
  by (induction rule: boundary.induct) (auto dest: progress)

text \<open>An error of the search is an error of the scanner: the assumption \<open>next > here\<close> holds.\<close>

lemma finder_error:
  "find_ascii_char scan needle s here = Inl e \<Longrightarrow> \<exists>q < length s. boundary scan s here q \<and> scan s q = Inl e"
proof (induction "length s - here" arbitrary: here rule: less_induct)
  case less
  then have here: "here < length s" by (subst (asm) find_ascii_char.simps) (auto split: if_splits)
  show ?case
  proof (cases "scan s here")
    case (Inl e')
    with less.prems here show ?thesis
      by (subst (asm) find_ascii_char.simps) (auto intro: boundary_here)
  next
    case (Inr n)
    with progress [OF here Inr] less.prems here have "find_ascii_char scan needle s n = Inl e"
      by (subst (asm) find_ascii_char.simps) (auto split: if_splits)
    with less.hyps [of n] progress [OF here Inr] here Inr show ?thesis
      by (meson boundary_step diff_less_mono2 less_imp_le_nat)
  qed
qed

lemma find_ascii_char_finds:
  "here \<le> length s \<Longrightarrow> find_ascii_char scan needle s here = Inr p \<Longrightarrow>
     here \<le> p \<and> p \<le> length s \<and> boundary scan s here p \<and> (p < length s \<longrightarrow> s ! p \<in> set needle)
     \<and> (\<forall>q. boundary scan s here q \<and> q < p \<longrightarrow> s ! q \<notin> set needle)"
proof (induction "length s - here" arbitrary: here rule: less_induct)
  case less
  show ?case
  proof (cases "here < length s")
    case False
    with less.prems have "p = length s" "here = p" by (auto simp: find_ascii_char.simps)
    then show ?thesis by (auto intro: boundary_here dest: boundary_ge)
  next
    case True
    then obtain n where n: "scan s here = Inr n" "here < n" "n \<le> length s"
      using less.prems progress [OF True] by (subst (asm) find_ascii_char.simps) (auto split: sum.splits if_splits)
    show ?thesis
    proof (cases "s ! here \<in> set needle")
      case hit: True
      then have "p = here" using less.prems True n by (subst (asm) find_ascii_char.simps) auto
      with hit True show ?thesis by (auto intro: boundary_here dest: boundary_ge)
    next
      case miss: False
      then have "find_ascii_char scan needle s n = Inr p"
        using less.prems True n by (subst (asm) find_ascii_char.simps) auto
      then have ih: "n \<le> p \<and> p \<le> length s \<and> boundary scan s n p \<and> (p < length s \<longrightarrow> s ! p \<in> set needle)
          \<and> (\<forall>q. boundary scan s n q \<and> q < p \<longrightarrow> s ! q \<notin> set needle)"
        using less.hyps [of n] n True by auto
      have "s ! q \<notin> set needle" if "boundary scan s here q" "q < p" for q
        using that(1)
      proof (cases rule: boundary.cases)
        case boundary_here
        with miss show ?thesis by simp
      next
        case (boundary_step n')
        with n ih that(2) show ?thesis by auto
      qed
      with ih n True show ?thesis by (auto intro: boundary_step)
    qed
  qed
qed

end

lemmas scan_defs = scan_ascii_safe_def scan_two_tier_def scan_gb18030_def scan_sjis_def
  throw_for_encoding_error_def throw_for_truncated_character_def

interpretation ascii_safe: glyph_scan scan_ascii_safe
  by unfold_locales (auto simp: scan_defs)

interpretation two_tier: glyph_scan scan_two_tier
  by unfold_locales (auto simp: scan_defs split: if_splits)

interpretation gb18030: glyph_scan scan_gb18030
  by unfold_locales (auto simp: scan_defs Let_def split: if_splits)

interpretation sjis: glyph_scan scan_sjis
  by unfold_locales (auto simp: scan_defs Let_def split: if_splits)

text \<open>The scanner of a group.\<close>

fun scanner_of :: "encoding_group \<Rightarrow> scanner" where
  "scanner_of Two_tier = scan_two_tier"
| "scanner_of Gb18030 = scan_gb18030"
| "scanner_of Sjis = scan_sjis"
| "scanner_of _ = scan_ascii_safe"

lemma scanner_of_glyph_scan: "glyph_scan (scanner_of enc)"
  by (cases enc) (simp_all add: ascii_safe.glyph_scan_axioms two_tier.glyph_scan_axioms
      gb18030.glyph_scan_axioms sjis.glyph_scan_axioms)

text \<open>
  Whatever the encoding group, the finder that \<open>get_char_finder\<close> selects returns a character
  boundary inside the text that holds one of the wanted characters, or the end of the text, and no
  boundary before it holds one: a byte inside a multibyte character is never taken for a special
  ASCII character.
\<close>

theorem char_finder_finds_first:
  assumes "get_char_finder needle enc = Inr f" and "here \<le> length s" and "f s here = Inr p"
  shows "here \<le> p \<and> p \<le> length s \<and> boundary (scanner_of enc) s here p
    \<and> (p < length s \<longrightarrow> s ! p \<in> set needle)
    \<and> (\<forall>q. boundary (scanner_of enc) s here q \<and> q < p \<longrightarrow> s ! q \<notin> set needle)"
proof -
  have "f = find_ascii_char (scanner_of enc) needle"
    using assms(1) by (cases enc) (auto simp: get_char_finder_def)
  with assms show ?thesis
    using glyph_scan.find_ascii_char_finds [OF scanner_of_glyph_scan] by blast
qed

theorem char_finder_finds_first_witness:
  "\<exists>f. get_char_finder [CHR 0x5C] Sjis = Inr f \<and> f [CHR 0x83, CHR 0x5C, CHR 0x5C] 0 = Inr 2
     \<and> boundary (scanner_of Sjis) [CHR 0x83, CHR 0x5C, CHR 0x5C] 0 2"
proof -
  define f where "f = find_ascii_char scan_sjis [CHR 0x5C]"
  have g: "get_char_finder [CHR 0x5C] Sjis = Inr f" by (simp add: get_char_finder_def f_def)
  have r: "f [CHR 0x83, CHR 0x5C, CHR 0x5C] 0 = Inr 2"
    unfolding f_def by code_simp
  from char_finder_finds_first [OF g _ r] g r show ?thesis by simp
qed

subsection \<open>UHC as an ASCII-safe encoding\<close>

text \<open>
  \<open>enc_group\<close> lumps UHC with the ASCII-safe encodings although it is a two-byte encoding.
  That is sound for the characters libpqxx looks for: when no wanted character occurs as the second
  byte of a two-byte character, and all wanted characters are ASCII, the byte-wise search agrees
  with the search over character boundaries on every text that has no truncated character.
\<close>

theorem uhc_ascii_safe_agrees:
  assumes "find_ascii_char scan_two_tier needle s here = Inr p"
    and "\<forall>c \<in> set needle. of_char c < (128::int)"
    and "\<forall>q. boundary scan_two_tier s here q \<and> q + 1 < length s \<and> 128 \<le> get_byte s q \<longrightarrow> s ! (q + 1) \<notin> set needle"
  shows "find_ascii_char scan_ascii_safe needle s here = Inr p"
  using assms
proof (induction "length s - here" arbitrary: here rule: less_induct)
  case less
  show ?case
  proof (cases "here < length s")
    case False
    with less.prems show ?thesis by (simp add: find_ascii_char.simps)
  next
    case True
    note unf = find_ascii_char.simps [of scan_two_tier needle s here]
      find_ascii_char.simps [of scan_ascii_safe needle s here]
    show ?thesis
    proof (cases "get_byte s here < 128")
      case ascii: True
      have st: "scan_two_tier s here = Inr (here + 1)" using ascii by (simp add: scan_two_tier_def)
      have "boundary scan_two_tier s here q" if "boundary scan_two_tier s (here + 1) q" for q
        using that st True by (auto intro: boundary_step)
      then have "find_ascii_char scan_ascii_safe needle s (here + 1) = Inr p"
        if "s ! here \<notin> set needle"
        using that less.prems st True unf by (intro less.hyps) auto
      then show ?thesis using less.prems(1) st True unf by (auto simp: scan_ascii_safe_def)
    next
      case high: False
      then have st: "scan_two_tier s here = Inr (here + 2)" "here + 2 \<le> length s"
        using less.prems(1) True unf(1)
        by (auto simp: scan_two_tier_def throw_for_truncated_character_def split: if_splits)
      have n0: "s ! here \<notin> set needle" using high less.prems(2) by (auto simp: get_byte_def)
      have n1: "s ! (here + 1) \<notin> set needle"
        using high less.prems(3) st by (auto intro: boundary_here)
      have "boundary scan_two_tier s here q" if "boundary scan_two_tier s (here + 2) q" for q
        using that st True by (auto intro: boundary_step)
      then have "find_ascii_char scan_ascii_safe needle s (here + 2) = Inr p"
        using less.prems st True unf n0 by (intro less.hyps) auto
      then show ?thesis
        using n0 n1 st True unf(2) find_ascii_char.simps [of scan_ascii_safe needle s "here + 1"]
        by (auto simp: scan_ascii_safe_def)
    qed
  qed
qed

theorem uhc_ascii_safe_agrees_witness:
  "find_ascii_char scan_two_tier [CHR 0x2C] [CHR 0xB0, CHR 0x41, CHR 0x2C] 0 = Inr 2 \<and>
   find_ascii_char scan_ascii_safe [CHR 0x2C] [CHR 0xB0, CHR 0x41, CHR 0x2C] 0 = Inr 2"
proof -
  let ?s = "[CHR 0xB0, CHR 0x41, CHR 0x2C]"
  have a: "find_ascii_char scan_two_tier [CHR 0x2C] ?s 0 = Inr 2" by code_simp
  have st: "scan_two_tier ?s 0 = Inr 2" "scan_two_tier ?s 2 = Inr 3" by code_simp+
  have "q = 0 \<or> q = 2 \<or> q = 3" if "boundary scan_two_tier ?s 0 q" for q
    using that st boundary_iff [of scan_two_tier ?s 0 q] boundary_iff [of scan_two_tier ?s 2 q]
      boundary_iff [of scan_two_tier ?s 3 q] by auto
  then have "\<forall>q. boundary scan_two_tier ?s 0 q \<and> q + 1 < length ?s \<and> 128 \<le> get_byte ?s q
      \<longrightarrow> ?s ! (q + 1) \<notin> set [CHR 0x2C]"
    by fastforce
  then show ?thesis using a uhc_ascii_safe_agrees [OF a] by simp
qed

end
