(* ===== verification/Pqxx_Session.thy ===== *)
theory Pqxx_Session
  imports Console Pqxx_Encodings "HOL-Library.Sublist"
begin

text \<open>
  The part of libpqxx that the program uses to talk to the database: query execution and error
  classification (\<open>libpqxx/src/connection.cxx\<close>, \<open>libpqxx/src/result.cxx\<close>), the registration
  of guests (\<open>libpqxx/src/util.cxx\<close>) and the life of a transaction object
  (\<open>libpqxx/src/transaction_base.cxx\<close>, \<open>libpqxx/src/transaction.cxx\<close>).

  libpq and the server are not part of the repository: they are the parameter \<open>pq\<close>, a record of
  the libpq functions that are called, over an abstract back-end state \<open>'db\<close>.  Every definition
  below takes it as its first argument, so the theorems hold for any behaviour of the server.
  Source locations are left out of the messages, and the texts that the exception classes without
  an argument in the model carry.
\<close>

subsection \<open>libpq\<close>

datatype exec_status =
    PGRES_EMPTY_QUERY | PGRES_COMMAND_OK | PGRES_TUPLES_OK | PGRES_COPY_OUT | PGRES_COPY_IN
  | PGRES_COPY_BOTH | PGRES_PIPELINE_SYNC | PGRES_PIPELINE_ABORTED | PGRES_BAD_RESPONSE
  | PGRES_NONFATAL_ERROR | PGRES_FATAL_ERROR | PGRES_SINGLE_TUPLE | PGRES_OTHER int

type_synonym cell = "string option"

record pgresult =
  pg_status :: exec_status
  pg_message :: string
  pg_sqlstate :: "string option"
  pg_rows :: "cell list list"

text \<open>
  \<open>pq_exec\<close> is \<open>PQexec\<close> (the result, or \<open>None\<close> for a null pointer), \<open>pq_consume\<close> is
  \<open>PQconsumeInput\<close>, \<open>pq_encoding\<close> the name of \<open>PQclientEncoding\<close> (\<open>None\<close> for \<open>-1\<close>) and
  \<open>pq_open\<close> tells whether \<open>PQstatus\<close> is \<open>CONNECTION_OK\<close>; \<open>pq_error\<close> is \<open>PQerrorMessage\<close>.
\<close>

record 'db libpq =
  pq_exec :: "string \<Rightarrow> 'db \<Rightarrow> pgresult option \<times> 'db"
  pq_consume :: "'db \<Rightarrow> bool \<times> 'db"
  pq_encoding :: "'db \<Rightarrow> string option"
  pq_open :: "'db \<Rightarrow> bool"
  pq_error :: "'db \<Rightarrow> string"

subsection \<open>Connection and transaction objects\<close>

datatype tx_status = Tx_active | Tx_aborted | Tx_committed | Tx_in_doubt

text \<open>A focus is described by its class name and its object name.\<close>

record tx =
  m_name :: string
  m_status :: tx_status
  m_registered :: bool
  m_focus :: "(string \<times> string) option"
  m_pending_error :: string

text \<open>
  A session is a connection with the transaction objects made on it; an object's address is its
  position in \<open>txs\<close>, and \<open>m_trans\<close> is the connection's pointer to the registered one.
\<close>

record 'db session = console +
  db :: 'db
  m_trans :: "nat option"
  txs :: "tx list"
  notices :: "string list"

definition new_tx :: tx where
  "new_tx = \<lparr>m_name = [], m_status = Tx_active, m_registered = False, m_focus = None, m_pending_error = []\<rparr>"

definition process_notice :: "string \<Rightarrow> (('db, 'z) session_scheme, unit) prog" where
  "process_notice msg = (if msg \<noteq> [] then modify (\<lambda>w. w\<lparr>notices := notices w @ [msg]\<rparr>) else ret ())"

definition get_tx :: "nat \<Rightarrow> (('db, 'z) session_scheme, tx) prog" where
  "get_tx i = gets (\<lambda>w. txs w ! i)"

definition upd_tx :: "nat \<Rightarrow> (tx \<Rightarrow> tx) \<Rightarrow> (('db, 'z) session_scheme, unit) prog" where
  "upd_tx i f = modify (\<lambda>w. w\<lparr>txs := (txs w)[i := f (txs w ! i)]\<rparr>)"

subsection \<open>Results and errors\<close>

definition at_c :: "string \<Rightarrow> nat \<Rightarrow> char option" where
  "at_c s n = (if n < length s then Some (s ! n) else None)"

text \<open>\<open>result::throw_sql_error\<close>: the exception for an SQLSTATE.\<close>

definition throw_sql_error :: "string option \<Rightarrow> exn" where
  "throw_sql_error sqlstate = (case sqlstate of
     None \<Rightarrow> Broken_connection
   | Some code \<Rightarrow>
       let sql = (\<lambda>cls. Sql_error_class cls code); c0 = at_c code 0; c1 = at_c code 1 in
       if c0 = None then Broken_connection
       else if c0 = Some (CHR ''0'') \<and> c1 = Some (CHR ''A'') then sql ''feature_not_supported''
       else if c0 = Some (CHR ''0'') \<and> c1 = Some (CHR ''8'') then
         (if code = ''08P01'' then sql ''protocol_violation'' else Broken_connection)
       else if c0 = Some (CHR ''0'') \<and> (c1 = Some (CHR ''L'') \<or> c1 = Some (CHR ''P''))
         then sql ''insufficient_privilege''
       else if c0 = Some (CHR ''2'') \<and> c1 = Some (CHR ''2'') then sql ''data_exception''
       else if c0 = Some (CHR ''2'') \<and> c1 = Some (CHR ''3'') then
         (if code = ''23001'' then sql ''restrict_violation''
          else if code = ''23502'' then sql ''not_null_violation''
          else if code = ''23503'' then sql ''foreign_key_violation''
          else if code = ''23505'' then sql ''unique_violation''
          else if code = ''23514'' then sql ''check_violation''
          else sql ''integrity_constraint_violation'')
       else if c0 = Some (CHR ''2'') \<and> c1 = Some (CHR ''4'') then sql ''invalid_cursor_state''
       else if c0 = Some (CHR ''2'') \<and> c1 = Some (CHR ''6'') then sql ''invalid_sql_statement_name''
       else if c0 = Some (CHR ''3'') \<and> c1 = Some (CHR ''4'') then sql ''invalid_cursor_name''
       else if c0 = Some (CHR ''4'') \<and> c1 = Some (CHR ''0'') then
         (if code = ''40000'' then sql ''transaction_rollback''
          else if code = ''40001'' then sql ''serialization_failure''
          else if code = ''40003'' then sql ''statement_completion_unknown''
          else if code = ''40P01'' then sql ''deadlock_detected''
          else sql ''sql_error'')
       else if c0 = Some (CHR ''4'') \<and> c1 = Some (CHR ''2'') then
         (if code = ''42501'' then sql ''insufficient_privilege''
          else if code = ''42601'' then sql ''syntax_error''
          else if code = ''42703'' then sql ''undefined_column''
          else if code = ''42883'' then sql ''undefined_function''
          else if code = ''42P01'' then sql ''undefined_table''
          else sql ''sql_error'')
       else if c0 = Some (CHR ''5'') \<and> c1 = Some (CHR ''3'') then
         (if code = ''53100'' then sql ''disk_full''
          else if code = ''53200'' then sql ''server_out_of_memory''
          else if code = ''53300'' then Too_many_connections
          else sql ''insufficient_resources'')
       else if c0 = Some (CHR ''P'') then
         (if code = ''P0001'' then sql ''plpgsql_raise''
          else if code = ''P0002'' then sql ''plpgsql_no_data_found''
          else if code = ''P0003'' then sql ''plpgsql_too_many_rows''
          else sql ''plpgsql_error'')
       else sql ''sql_error'')"

definition status_error :: "pgresult \<Rightarrow> exn + string" where
  "status_error r = (case pg_status r of
       PGRES_EMPTY_QUERY \<Rightarrow> Inr []
     | PGRES_COMMAND_OK \<Rightarrow> Inr []
     | PGRES_TUPLES_OK \<Rightarrow> Inr []
     | PGRES_COPY_OUT \<Rightarrow> Inr []
     | PGRES_COPY_IN \<Rightarrow> Inr []
     | PGRES_COPY_BOTH \<Rightarrow> Inr []
     | PGRES_PIPELINE_SYNC \<Rightarrow> Inl (Feature_not_supported ''Not supported yet: libpq pipelines.'')
     | PGRES_PIPELINE_ABORTED \<Rightarrow> Inl (Feature_not_supported ''Not supported yet: libpq pipelines.'')
     | PGRES_BAD_RESPONSE \<Rightarrow> Inr (pg_message r)
     | PGRES_NONFATAL_ERROR \<Rightarrow> Inr (pg_message r)
     | PGRES_FATAL_ERROR \<Rightarrow> Inr (pg_message r)
     | PGRES_SINGLE_TUPLE \<Rightarrow> Inl (Feature_not_supported ''Not supported: single-row mode.'')
     | PGRES_OTHER n \<Rightarrow> Inl (Internal_error (''pqxx::result: Unrecognized result status code '' @ int_to_string n)))"

definition check_status :: "pgresult \<Rightarrow> exn + unit" where
  "check_status r = (case status_error r of
       Inl e \<Rightarrow> Inl e
     | Inr err \<Rightarrow> if err \<noteq> [] then Inl (throw_sql_error (pg_sqlstate r)) else Inr ())"

definition is_open :: "'db libpq \<Rightarrow> (('db, 'z) session_scheme, bool) prog" where
  "is_open pq = gets (\<lambda>w. pq_open pq (db w))"

definition get_encoding_group :: "'db libpq \<Rightarrow> (('db, 'z) session_scheme, encoding_group) prog" where
  "get_encoding_group pq =
     bnd (gets (\<lambda>w. pq_encoding pq (db w))) (\<lambda>enc. case enc of
         None \<Rightarrow> bnd (is_open pq) (\<lambda>op.
           throw (if op then Failure ''Could not obtain client encoding.'' else Broken_connection))
       | Some n \<Rightarrow> lift_exn (enc_group n))"

definition make_result ::
  "'db libpq \<Rightarrow> pgresult option \<Rightarrow> (('db, 'z) session_scheme, pgresult) prog" where
  "make_result pq pgr = (case pgr of
       None \<Rightarrow> bnd (is_open pq) (\<lambda>op. bnd (gets (\<lambda>w. pq_error pq (db w))) (\<lambda>msg.
         throw (if op then Failure msg else Broken_connection)))
     | Some r \<Rightarrow> bnd (get_encoding_group pq) (\<lambda>enc. sq (lift_exn (check_status r)) (ret r)))"

text \<open>
  \<open>connection::get_notifs\<close>.  The program registers no notification receivers, so outside a
  transaction the waiting notifications are only dropped.
\<close>

definition get_notifs :: "'db libpq \<Rightarrow> (('db, 'z) session_scheme, unit) prog" where
  "get_notifs pq = (\<lambda>w. let (ok, d) = pq_consume pq (db w) in
     ((if ok then Inr () else Inl (Throw Broken_connection)), w\<lparr>db := d\<rparr>))"

definition conn_exec :: "'db libpq \<Rightarrow> string \<Rightarrow> (('db, 'z) session_scheme, pgresult) prog" where
  "conn_exec pq query = (\<lambda>w. let (r, d) = pq_exec pq (c_str query) (db w) in
     bnd (make_result pq r) (\<lambda>res. sq (get_notifs pq) (ret res)) (w\<lparr>db := d\<rparr>))"

text \<open>A session whose client encoding is known; results that are not errors are then passed on.\<close>

definition encoded_in :: "'db libpq \<Rightarrow> encoding_group \<Rightarrow> bool" where
  "encoded_in pq enc \<longleftrightarrow> enc \<noteq> Enc_unknown \<and> (\<forall>d. \<exists>n. pq_encoding pq d = Some n \<and> enc_group n = Inr enc)"

lemma make_result_ok: "encoded_in pq enc \<Longrightarrow> check_status r = Inr () \<Longrightarrow> make_result pq (Some r) w = (Inr r, w)"
  by (auto simp: encoded_in_def make_result_def get_encoding_group_def lift_exn_def prog_simps dest!: spec[of _ "db w"])

subsection \<open>Registration of guests\<close>

definition describe_object :: "string \<Rightarrow> string \<Rightarrow> string" where
  "describe_object class_name obj_name =
     (if obj_name = [] then class_name else class_name @ '' '' @ [CHR 0x27] @ obj_name @ [CHR 0x27])"

text \<open>A guest is an address with its class and object name; \<open>None\<close> is the null pointer.\<close>

type_synonym 'a guest = "('a \<times> string \<times> string) option"

fun describe_guest :: "'a \<times> string \<times> string \<Rightarrow> string" where
  "describe_guest (p, c, n) = describe_object c n"

definition check_unique_register :: "'a guest \<Rightarrow> 'a guest \<Rightarrow> exn + unit" where
  "check_unique_register old_guest new_guest = (case new_guest of
       None \<Rightarrow> Inl (Internal_error ''Null pointer registered.'')
     | Some n \<Rightarrow> (case old_guest of
           None \<Rightarrow> Inr ()
         | Some g \<Rightarrow> Inl (Usage_error
             (if fst g = fst n then ''Started twice: '' @ describe_guest g @ ''.''
              else ''Started new '' @ describe_guest n @ '' while '' @ describe_guest g
                   @ '' was still active.''))))"

definition check_unique_unregister :: "'a guest \<Rightarrow> 'a guest \<Rightarrow> exn + unit" where
  "check_unique_unregister old_guest new_guest =
     (if map_option fst new_guest \<noteq> map_option fst old_guest
      then (case new_guest of
              None \<Rightarrow> Inl (Usage_error ''Expected to close, but got null pointer instead.'')
            | Some n \<Rightarrow> (case old_guest of
                  None \<Rightarrow> Inl (Usage_error (''Closed while not open: '' @ describe_guest n))
                | Some g \<Rightarrow> Inl (Usage_error (''Closed '' @ describe_guest n @ ''; expected to close ''))))
      else Inr ())"

definition tx_guest :: "tx list \<Rightarrow> nat option \<Rightarrow> nat guest" where
  "tx_guest ts p = map_option (\<lambda>i. (i, ''transaction'', m_name (ts ! i))) p"

definition conn_register_transaction :: "nat \<Rightarrow> (('db, 'z) session_scheme, unit) prog" where
  "conn_register_transaction t =
     bnd (gets (\<lambda>w. check_unique_register (tx_guest (txs w) (m_trans w)) (tx_guest (txs w) (Some t))))
     (\<lambda>r. sq (lift_exn r) (modify (\<lambda>w. w\<lparr>m_trans := Some t\<rparr>)))"

definition exn_what :: "exn \<Rightarrow> string" where
  "exn_what e = (case e of
       Failure m \<Rightarrow> m | Usage_error m \<Rightarrow> m | Internal_error m \<Rightarrow> ''LIBPQXX INTERNAL ERROR: '' @ m | Conversion_error m \<Rightarrow> m
     | Argument_error m \<Rightarrow> m | Range_error m \<Rightarrow> m | Feature_not_supported m \<Rightarrow> m
     | Sql_error_class c s \<Rightarrow> c | _ \<Rightarrow> ''error'')"

definition conn_unregister_transaction :: "nat \<Rightarrow> (('db, 'z) session_scheme, unit) prog" where
  "conn_unregister_transaction t =
     bnd (gets (\<lambda>w. check_unique_unregister (tx_guest (txs w) (m_trans w)) (tx_guest (txs w) (Some t))))
     (\<lambda>r. sq (case r of Inl e \<Rightarrow> process_notice (exn_what e) | Inr _ \<Rightarrow> ret ())
             (modify (\<lambda>w. w\<lparr>m_trans := None\<rparr>)))"

subsection \<open>Transactions\<close>

definition tx_description :: "nat \<Rightarrow> (('db, 'z) session_scheme, string) prog" where
  "tx_description t = bnd (get_tx t) (\<lambda>x. ret (describe_object ''transaction'' (m_name x)))"

definition register_transaction :: "nat \<Rightarrow> (('db, 'z) session_scheme, unit) prog" where
  "register_transaction t =
     sq (conn_register_transaction t) (upd_tx t (\<lambda>x. x\<lparr>m_registered := True\<rparr>))"

definition check_pending_error :: "nat \<Rightarrow> (('db, 'z) session_scheme, unit) prog" where
  "check_pending_error t = bnd (get_tx t) (\<lambda>x.
     if m_pending_error x \<noteq> []
     then sq (upd_tx t (\<lambda>x. x\<lparr>m_pending_error := []\<rparr>)) (throw (Failure (m_pending_error x)))
     else ret ())"

definition direct_exec :: "'db libpq \<Rightarrow> nat \<Rightarrow> string \<Rightarrow> (('db, 'z) session_scheme, pgresult) prog" where
  "direct_exec pq t cmd = sq (check_pending_error t) (conn_exec pq cmd)"

definition register_focus :: "nat \<Rightarrow> string \<times> string \<Rightarrow> (('db, 'z) session_scheme, unit) prog" where
  "register_focus t f = bnd (get_tx t) (\<lambda>x.
     sq (lift_exn (check_unique_register (map_option (\<lambda>g. ((), g)) (m_focus x)) (Some ((), f))))
        (upd_tx t (\<lambda>x. x\<lparr>m_focus := Some f\<rparr>)))"

definition unregister_focus :: "nat \<Rightarrow> string \<times> string \<Rightarrow> (('db, 'z) session_scheme, unit) prog" where
  "unregister_focus t f = bnd (get_tx t) (\<lambda>x.
     try_catch
       (sq (lift_exn (check_unique_unregister (map_option (\<lambda>g. ((), g)) (m_focus x)) (Some ((), f))))
           (upd_tx t (\<lambda>x. x\<lparr>m_focus := None\<rparr>)))
       (\<lambda>e. process_notice (exn_what e)))"

text \<open>
  \<open>transaction_base::exec\<close>: the \<open>command\<close> object registers itself as the focus and its
  destructor unregisters it.
\<close>

definition tx_exec :: "'db libpq \<Rightarrow> nat \<Rightarrow> string \<Rightarrow> (('db, 'z) session_scheme, pgresult) prog" where
  "tx_exec pq t query =
     sq (check_pending_error t)
     (sq (register_focus t (''command'', []))
     (guard_with
       (bnd (get_tx t) (\<lambda>x. case m_status x of
           Tx_active \<Rightarrow> direct_exec pq t query
         | _ \<Rightarrow> throw (Usage_error ''Could not execute command: transaction is already closed.'')))
       (\<lambda>w. snd (unregister_focus t (''command'', []) w))))"

fun completion_unknown :: "exn \<Rightarrow> bool" where
  "completion_unknown (Sql_error_class c code) = (c = ''statement_completion_unknown'')"
| "completion_unknown e = False"

definition do_commit :: "'db libpq \<Rightarrow> nat \<Rightarrow> (('db, 'z) session_scheme, unit) prog" where
  "do_commit pq t = try_catch (sq (direct_exec pq t ''COMMIT'') (ret ())) (\<lambda>e.
     if completion_unknown e
     then sq (process_notice (exn_what e @ [CHR 0x0A]))
       (bnd (get_tx t) (\<lambda>x. sq (process_notice (''WARNING: Commit status of transaction '' @ [CHR 0x27] @ m_name x
            @ [CHR 0x27] @ '' is unknown. There is no way to tell whether the transaction succeeded ''
            @ ''or was aborted except to check manually.'' @ [CHR 0x0A]))
          (throw In_doubt_error)))
     else bnd (is_open pq) (\<lambda>op.
       if \<not> op
       then sq (process_notice (exn_what e @ [CHR 0x0A]))
         (bnd (get_tx t) (\<lambda>x. sq (process_notice (''WARNING: Connection lost while committing transaction ''
              @ [CHR 0x27] @ m_name x @ [CHR 0x27] @ ''.  There is no way to tell whether the transaction ''
              @ ''succeeded or was aborted except to check manually.'' @ [CHR 0x0A]))
            (throw In_doubt_error)))
       else throw e))"

text \<open>
  \<open>transaction_base::close\<close> up to its test for an active transaction (lines 376 to 394), which is
  all of it once the status is no longer active.
\<close>

definition close_registration :: "nat \<Rightarrow> (('db, 'z) session_scheme, unit) prog" where
  "close_registration t =
     sq (try_catch (check_pending_error t) (\<lambda>e. process_notice (exn_what e)))
     (bnd (get_tx t) (\<lambda>x. whn (m_registered x)
        (sq (upd_tx t (\<lambda>x. x\<lparr>m_registered := False\<rparr>)) (conn_unregister_transaction t))))"

definition do_abort :: "'db libpq \<Rightarrow> nat \<Rightarrow> (('db, 'z) session_scheme, unit) prog" where
  "do_abort pq t = sq (direct_exec pq t ''ROLLBACK'') (ret ())"

definition tx_abort :: "'db libpq \<Rightarrow> nat \<Rightarrow> (('db, 'z) session_scheme, unit) prog" where
  "tx_abort pq t = bnd (get_tx t) (\<lambda>x. bnd (tx_description t) (\<lambda>desc. case m_status x of
       Tx_active \<Rightarrow>
         sq (try_catch (do_abort pq t) (\<lambda>e. process_notice (exn_what e @ [CHR 0x0A])))
         (sq (upd_tx t (\<lambda>x. x\<lparr>m_status := Tx_aborted\<rparr>)) (close_registration t))
     | Tx_aborted \<Rightarrow> ret ()
     | Tx_committed \<Rightarrow> throw (Usage_error (''Attempt to abort previously committed '' @ desc @ ''.''))
     | Tx_in_doubt \<Rightarrow> process_notice (''Warning: '' @ desc @ '' aborted after going into indeterminate state; ''
                                     @ ''it may have been executed anyway.'' @ [CHR 0x0A])))"

definition tx_close :: "'db libpq \<Rightarrow> nat \<Rightarrow> (('db, 'z) session_scheme, unit) prog" where
  "tx_close pq t =
     sq (close_registration t)
     (bnd (get_tx t) (\<lambda>x.
        if m_status x \<noteq> Tx_active then ret ()
        else sq (case m_focus x of None \<Rightarrow> ret ()
                 | Some f \<Rightarrow> bnd (tx_description t) (\<lambda>desc.
                     process_notice (''Closing '' @ desc @ '' with '' @ describe_object (fst f) (snd f) @ '' still open.'' @ [CHR 0x0A])))
             (try_catch (tx_abort pq t) (\<lambda>e. process_notice (exn_what e)))))"

definition tx_commit :: "'db libpq \<Rightarrow> nat \<Rightarrow> (('db, 'z) session_scheme, unit) prog" where
  "tx_commit pq t =
     sq (check_pending_error t)
     (bnd (get_tx t) (\<lambda>x. bnd (tx_description t) (\<lambda>desc. case m_status x of
         Tx_aborted \<Rightarrow> throw (Usage_error (''Attempt to commit previously aborted '' @ desc))
       | Tx_committed \<Rightarrow> process_notice (desc @ '' committed more than once.'' @ [CHR 0x0A])
       | Tx_in_doubt \<Rightarrow> throw In_doubt_error
       | Tx_active \<Rightarrow>
           case m_focus x of
             Some f \<Rightarrow> throw (Failure (''Attempt to commit '' @ desc @ '' with '' @ describe_object (fst f) (snd f)
                              @ '' still open.''))
           | None \<Rightarrow> bnd (is_open pq) (\<lambda>op.
             if \<not> op then throw Broken_connection
             else sq (try_catch
                       (sq (do_commit pq t) (upd_tx t (\<lambda>x. x\<lparr>m_status := Tx_committed\<rparr>)))
                       (\<lambda>e. if e = In_doubt_error
                            then sq (upd_tx t (\<lambda>x. x\<lparr>m_status := Tx_in_doubt\<rparr>)) (throw e)
                            else sq (upd_tx t (\<lambda>x. x\<lparr>m_status := Tx_aborted\<rparr>)) (throw e)))
                  (tx_close pq t)))))"

text \<open>The destructor of \<open>transaction_base\<close>.\<close>

definition base_destructor :: "nat \<Rightarrow> (('db, 'z) session_scheme, unit) prog" where
  "base_destructor t = bnd (get_tx t) (\<lambda>x. bnd (tx_description t) (\<lambda>desc.
     sq (whn (m_pending_error x \<noteq> []) (process_notice (''UNPROCESSED ERROR: '' @ m_pending_error x @ [CHR 0x0A])))
     (whn (m_registered x)
        (sq (process_notice (desc @ '' was never closed properly!'' @ [CHR 0x0A])) (conn_unregister_transaction t)))))"

text \<open>
  The constructor of \<open>pqxx::work\<close> (\<open>basic_transaction\<close> with the command \<open>BEGIN\<close>): when
  \<open>BEGIN\<close> fails, the base class destructor runs on the way out.
\<close>

definition alloc_tx :: "(('db, 'z) session_scheme, nat) prog" where
  "alloc_tx = (\<lambda>w. (Inr (length (txs w)), w\<lparr>txs := txs w @ [new_tx]\<rparr>))"

definition basic_transaction :: "'db libpq \<Rightarrow> string \<Rightarrow> (('db, 'z) session_scheme, nat) prog" where
  "basic_transaction pq begin_command = bnd alloc_tx (\<lambda>t.
     try_catch (sq (register_transaction t) (sq (direct_exec pq t begin_command) (ret t)))
       (\<lambda>e. sq (base_destructor t) (throw e)))"

definition work_destructor :: "'db libpq \<Rightarrow> nat \<Rightarrow> (('db, 'z) session_scheme, unit) prog" where
  "work_destructor pq t = sq (tx_close pq t) (base_destructor t)"

text \<open>A scope \<open>{ work tx(C); ... }\<close>.\<close>

definition with_work ::
  "'db libpq \<Rightarrow> (nat \<Rightarrow> (('db, 'z) session_scheme, 'a) prog) \<Rightarrow> (('db, 'z) session_scheme, 'a) prog" where
  "with_work pq body = bnd (basic_transaction pq ''BEGIN'') (\<lambda>t.
     guard_with (body t) (\<lambda>w. snd (work_destructor pq t w)))"

subsection \<open>What a call does to the session\<close>

lemmas tx_prims = get_tx_def upd_tx_def tx_description_def process_notice_def

lemmas guest_defs = check_unique_register_def check_unique_unregister_def tx_guest_def

text \<open>Outcomes of code that never waits for the user: a value or an exception.\<close>

fun settled :: "stop + 'a \<Rightarrow> bool" where
  "settled (Inl (Throw e)) = True"
| "settled (Inl s) = False"
| "settled (Inr a) = True"

lemma settledE:
  assumes "settled r"
  obtains (threw) e where "r = Inl (Throw e)" | (returned) a where "r = Inr a"
  using assms by (cases r rule: settled.cases) auto

text \<open>
  The outcome of a statement as a function of the back end alone: \<open>exec_db\<close> lists the ways in
  which \<open>connection::exec\<close> can end.
\<close>

definition exec_db :: "'db libpq \<Rightarrow> string \<Rightarrow> 'db \<Rightarrow> (stop + pgresult) \<times> 'db" where
  "exec_db pq q d0 = (let (pgr, d) = pq_exec pq (c_str q) d0; (ok, d') = pq_consume pq d in
     case pgr of
       None \<Rightarrow> (Inl (Throw (if pq_open pq d then Failure (pq_error pq d) else Broken_connection)), d)
     | Some r \<Rightarrow> (case pq_encoding pq d of
         None \<Rightarrow> (Inl (Throw (if pq_open pq d then Failure ''Could not obtain client encoding.''
                              else Broken_connection)), d)
       | Some n \<Rightarrow> (case enc_group n of
           Inl e \<Rightarrow> (Inl (Throw e), d)
         | Inr g \<Rightarrow> (case check_status r of
             Inl e \<Rightarrow> (Inl (Throw e), d)
           | Inr u \<Rightarrow> if ok then (Inr r, d') else (Inl (Throw Broken_connection), d')))))"

lemma conn_exec_eq: "conn_exec pq q w = (fst (exec_db pq q (db w)), w\<lparr>db := snd (exec_db pq q (db w))\<rparr>)"
  by (simp add: conn_exec_def exec_db_def make_result_def get_encoding_group_def is_open_def
      get_notifs_def lift_exn_def prog_simps split: prod.split option.split sum.split)

lemma settled_exec_db: "settled (fst (exec_db pq q d))"
  by (simp add: exec_db_def split: prod.split option.split sum.split)

text \<open>
  A transaction object that the program holds: it is the one registered with the connection, or
  none is; an active one is registered; no focus and no pending error is left between calls.
\<close>

definition owned :: "nat \<Rightarrow> ('db, 'z) session_scheme \<Rightarrow> bool" where
  "owned t w \<longleftrightarrow> t < length (txs w)
     \<and> m_trans w = (if m_registered (txs w ! t) then Some t else None)
     \<and> (m_status (txs w ! t) = Tx_active \<longrightarrow> m_registered (txs w ! t))
     \<and> m_focus (txs w ! t) = None \<and> m_pending_error (txs w ! t) = []"

lemma check_pending_ok: "m_pending_error (txs w ! t) = [] \<Longrightarrow> check_pending_error t w = (Inr (), w)"
  by (simp add: check_pending_error_def tx_prims prog_simps)

lemma direct_exec_ok:
  "m_pending_error (txs w ! t) = [] \<Longrightarrow> direct_exec pq t q w = conn_exec pq q w"
  by (simp add: direct_exec_def prog_simps check_pending_ok)

text \<open>The focus is taken and given back around the execution of the statement.\<close>

lemma tx_exec_owned:
  assumes "owned t w"
  shows "tx_exec pq t q w =
    (if m_status (txs w ! t) = Tx_active
     then (fst (exec_db pq q (db w)), w\<lparr>db := snd (exec_db pq q (db w))\<rparr>)
     else (Inl (Throw (Usage_error ''Could not execute command: transaction is already closed.'')), w))"
proof -
  have t: "t < length (txs w)" "m_pending_error (txs w ! t) = []" "m_focus (txs w ! t) = None"
    using assms by (simp_all add: owned_def)
  then have bk: "(txs w ! t)\<lparr>m_focus := None\<rparr> = txs w ! t"
    by (cases "txs w ! t") simp
  show ?thesis
    by (rule settledE[OF settled_exec_db[of pq q "db w"]]; cases "m_status (txs w ! t)")
      (simp_all add: t bk tx_exec_def register_focus_def unregister_focus_def guard_with_def
        check_pending_ok tx_prims guest_defs lift_exn_def direct_exec_ok conn_exec_eq try_catch_def prog_simps)
qed

abbreviation put_tx :: "nat \<Rightarrow> tx \<Rightarrow> ('db, 'z) session_scheme \<Rightarrow> ('db, 'z) session_scheme" where
  "put_tx t x w \<equiv> w\<lparr>txs := (txs w)[t := x]\<rparr>"

lemma update_not_registered: "\<not> m_registered x \<Longrightarrow> x\<lparr>m_registered := False\<rparr> = x"
  by (cases x) simp

lemma close_registration_eq:
  assumes "t < length (txs w)" and "m_pending_error (txs w ! t) = []"
    and "m_trans w = (if m_registered (txs w ! t) then Some t else None)"
  shows "close_registration t w =
    (Inr (), (put_tx t ((txs w ! t)\<lparr>m_registered := False\<rparr>) w)\<lparr>m_trans := None\<rparr>)"
  using assms
  by (auto simp: close_registration_def try_catch_def check_pending_ok tx_prims whn_def prog_simps
      conn_unregister_transaction_def guest_defs update_not_registered)

text \<open>The two ways in which a failing \<open>COMMIT\<close> is reported.\<close>

definition commit_exn :: "bool \<Rightarrow> exn \<Rightarrow> exn" where
  "commit_exn op e = (if completion_unknown e \<or> \<not> op
     then In_doubt_error else e)"

lemma do_commit_eq:
  assumes "m_pending_error (txs w ! t) = []" and x: "exec_db pq ''COMMIT'' (db w) = (r, d)"
  shows "\<exists>ns. do_commit pq t w =
    ((case r of Inr a \<Rightarrow> Inr () | Inl (Throw e) \<Rightarrow> Inl (Throw (commit_exn (pq_open pq d) e)) | Inl s \<Rightarrow> Inl s),
     w\<lparr>db := d, notices := notices w @ ns\<rparr>)"
proof (rule settledE[OF settled_exec_db[of pq "''COMMIT''" "db w"]])
  fix e assume "fst (exec_db pq ''COMMIT'' (db w)) = Inl (Throw e)"
  with x have "r = Inl (Throw e)" by simp
  with assms show ?thesis
    by (auto simp: do_commit_def try_catch_def direct_exec_ok conn_exec_eq commit_exn_def is_open_def
        tx_prims prog_simps intro: exI[of _ "[]"])
next
  fix a assume "fst (exec_db pq ''COMMIT'' (db w)) = Inr a"
  with x have "r = Inr a" by simp
  with assms show ?thesis
    by (auto simp: do_commit_def try_catch_def direct_exec_ok conn_exec_eq prog_simps intro!: exI[of _ "[]"])
qed

text \<open>The status that a commit leaves, and the state after it.\<close>

definition commit_status :: "bool \<Rightarrow> stop + pgresult \<Rightarrow> tx_status" where
  "commit_status op r = (case r of Inr a \<Rightarrow> Tx_committed
     | Inl (Throw e) \<Rightarrow> if commit_exn op e = In_doubt_error then Tx_in_doubt else Tx_aborted
     | Inl s \<Rightarrow> Tx_active)"

lemma tx_commit_active:
  assumes o: "owned t w" and a: "m_status (txs w ! t) = Tx_active" and op: "pq_open pq (db w)"
    and x: "exec_db pq ''COMMIT'' (db w) = (r, d)"
  shows "\<exists>ns. tx_commit pq t w = (case r of
      Inr v \<Rightarrow> (Inr (), (put_tx t ((txs w ! t)\<lparr>m_status := Tx_committed, m_registered := False\<rparr>) w)
                      \<lparr>db := d, m_trans := None, notices := notices w @ ns\<rparr>)
    | Inl (Throw e) \<Rightarrow> (Inl (Throw (commit_exn (pq_open pq d) e)),
                      (put_tx t ((txs w ! t)\<lparr>m_status := commit_status (pq_open pq d) r\<rparr>) w)
                      \<lparr>db := d, notices := notices w @ ns\<rparr>)
    | Inl s \<Rightarrow> (Inl s, w))"
proof -
  have t: "t < length (txs w)" "m_pending_error (txs w ! t) = []" "m_focus (txs w ! t) = None"
    "m_registered (txs w ! t)" "m_trans w = Some t"
    using o a by (simp_all add: owned_def)
  obtain ns where c: "do_commit pq t w = ((case r of Inr a \<Rightarrow> Inr ()
      | Inl (Throw e) \<Rightarrow> Inl (Throw (commit_exn (pq_open pq d) e)) | Inl s \<Rightarrow> Inl s),
     w\<lparr>db := d, notices := notices w @ ns\<rparr>)"
    using do_commit_eq[OF t(2) x] by blast
  have "settled r" using settled_exec_db[of pq "''COMMIT''" "db w"] x by simp
  then show ?thesis
    by (rule settledE)
      (use c t a op in \<open>auto simp: tx_commit_def check_pending_ok tx_prims is_open_def try_catch_def
        tx_close_def close_registration_eq commit_status_def prog_simps intro!: exI[of _ ns]\<close>)
qed

lemma tx_abort_active:
  assumes "t < length (txs w)" and "m_pending_error (txs w ! t) = []"
    and "m_trans w = (if m_registered (txs w ! t) then Some t else None)"
    and "m_status (txs w ! t) = Tx_active" and x: "exec_db pq ''ROLLBACK'' (db w) = (r, d)"
  shows "\<exists>ns. tx_abort pq t w = (Inr (),
    (put_tx t ((txs w ! t)\<lparr>m_status := Tx_aborted, m_registered := False\<rparr>) w)
      \<lparr>db := d, m_trans := None, notices := notices w @ ns\<rparr>)"
proof -
  have "settled r" using settled_exec_db[of pq "''ROLLBACK''" "db w"] x by simp
  then show ?thesis
  proof (rule settledE)
    fix e assume "r = Inl (Throw e)"
    with assms show ?thesis
      by (auto simp: tx_abort_def tx_prims try_catch_def do_abort_def direct_exec_ok conn_exec_eq
          close_registration_eq prog_simps intro!: exI[of _ "[exn_what e @ [CHR 0x0A]]"])
  next
    fix a assume "r = Inr a"
    with assms show ?thesis
      by (auto simp: tx_abort_def tx_prims try_catch_def do_abort_def direct_exec_ok conn_exec_eq
          close_registration_eq prog_simps intro!: exI[of _ "[]"])
  qed
qed

lemma base_destructor_idle:
  "m_pending_error (txs w ! t) = [] \<Longrightarrow> \<not> m_registered (txs w ! t) \<Longrightarrow> base_destructor t w = (Inr (), w)"
  by (simp add: base_destructor_def tx_prims prog_simps)

lemma work_destructor_eq:
  assumes "owned t w"
  shows "\<exists>ns. work_destructor pq t w = (Inr (),
    (if m_status (txs w ! t) = Tx_active
     then (put_tx t ((txs w ! t)\<lparr>m_status := Tx_aborted, m_registered := False\<rparr>) w)
            \<lparr>db := snd (exec_db pq ''ROLLBACK'' (db w)), m_trans := None, notices := notices w @ ns\<rparr>
     else (put_tx t ((txs w ! t)\<lparr>m_registered := False\<rparr>) w)\<lparr>m_trans := None\<rparr>))"
proof -
  let ?v = "(put_tx t ((txs w ! t)\<lparr>m_registered := False\<rparr>) w)\<lparr>m_trans := None\<rparr>"
  have t: "t < length (txs w)" "m_pending_error (txs w ! t) = []" "m_focus (txs w ! t) = None"
    "m_trans w = (if m_registered (txs w ! t) then Some t else None)"
    using assms by (simp_all add: owned_def)
  show ?thesis
  proof (cases "m_status (txs w ! t) = Tx_active")
    case False
    with t show ?thesis
      by (simp add: work_destructor_def tx_close_def close_registration_eq base_destructor_idle tx_prims
          prog_simps)
  next
    case True
    obtain r d where x: "exec_db pq ''ROLLBACK'' (db w) = (r, d)" by fastforce
    obtain ns where "tx_abort pq t ?v = (Inr (),
      (put_tx t ((txs w ! t)\<lparr>m_status := Tx_aborted, m_registered := False\<rparr>) w)
        \<lparr>db := d, m_trans := None, notices := notices w @ ns\<rparr>)"
      using tx_abort_active[of t ?v pq r d] t True x by (auto simp: tx.defs)
    with t True x show ?thesis
      by (auto simp: work_destructor_def tx_close_def close_registration_eq base_destructor_idle tx_prims
          try_catch_def prog_simps intro!: exI[of _ ns])
  qed
qed

text \<open>Starting a transaction.\<close>

lemma register_idle:
  assumes "m_trans w = None" and "t < length (txs w)"
  shows "register_transaction t w =
    (Inr (), (put_tx t ((txs w ! t)\<lparr>m_registered := True\<rparr>) w)\<lparr>m_trans := Some t\<rparr>)"
  using assms
  by (simp add: register_transaction_def conn_register_transaction_def guest_defs lift_exn_def tx_prims
      prog_simps)

lemma basic_transaction_idle:
  assumes "m_trans w = None" and x: "exec_db pq cmd (db w) = (r, d)"
  shows "\<exists>ns. basic_transaction pq cmd w = (case r of
      Inr a \<Rightarrow> (Inr (length (txs w)), w\<lparr>txs := txs w @ [new_tx\<lparr>m_registered := True\<rparr>],
                  m_trans := Some (length (txs w)), db := d\<rparr>)
    | Inl (Throw e) \<Rightarrow> (Inl (Throw e), w\<lparr>txs := txs w @ [new_tx\<lparr>m_registered := True\<rparr>],
                  m_trans := None, db := d, notices := notices w @ ns\<rparr>)
    | Inl s \<Rightarrow> (Inl s, w))"
proof -
  have "settled r" using settled_exec_db[of pq cmd "db w"] x by simp
  then show ?thesis
    by (rule settledE)
      (use assms in \<open>auto simp: basic_transaction_def alloc_tx_def try_catch_def direct_exec_ok conn_exec_eq
        register_idle new_tx_def base_destructor_def whn_def conn_unregister_transaction_def guest_defs
        tx_prims prog_simps describe_object_def
        intro!: exI[of _ "[''transaction was never closed properly!'' @ [CHR 0x0A]]"]\<close>)
qed

lemma basic_transaction_busy:
  assumes "m_trans w = Some i" and "i < length (txs w)"
  shows "\<exists>m. basic_transaction pq cmd w = (Inl (Throw (Usage_error m)), w\<lparr>txs := txs w @ [new_tx]\<rparr>)"
  using assms
  by (auto simp: basic_transaction_def alloc_tx_def try_catch_def register_transaction_def
      conn_register_transaction_def guest_defs lift_exn_def base_destructor_def new_tx_def tx_prims
      prog_simps whn_def nth_append)

subsection \<open>The invariant of a held transaction\<close>

lemma owned_tx_exec: "owned t w \<Longrightarrow> owned t (snd (tx_exec pq t q w))"
  by (simp add: tx_exec_owned) (simp add: owned_def)

text \<open>How a call of \<open>commit\<close> ends when it does not send anything.\<close>

lemma tx_commit_quiet:
  assumes "owned t w" and "m_status (txs w ! t) \<noteq> Tx_active \<or> \<not> pq_open pq (db w)"
  shows "\<exists>r ns. tx_commit pq t w = (r, w\<lparr>notices := notices w @ ns\<rparr>)
     \<and> settled r \<and> (m_status (txs w ! t) = Tx_committed \<longrightarrow> r = Inr () \<and> length ns = 1)
     \<and> (m_status (txs w ! t) \<noteq> Tx_committed \<longrightarrow> (\<exists>e. r = Inl (Throw e)) \<and> ns = [])"
  using assms
  by (cases "m_status (txs w ! t)")
    (auto simp: owned_def tx_commit_def check_pending_ok tx_prims is_open_def prog_simps)

lemma owned_update:
  "owned t w \<Longrightarrow> owned t (w\<lparr>db := d, notices := ns\<rparr>)" "owned t w \<Longrightarrow> owned t (w\<lparr>notices := ns\<rparr>)"
  by (simp_all add: owned_def)

lemma tx_commit_cases:
  assumes "owned t w"
  obtains (quiet) r ns where "tx_commit pq t w = (r, w\<lparr>notices := notices w @ ns\<rparr>)" "settled r"
      "m_status (txs w ! t) \<noteq> Tx_active \<or> \<not> pq_open pq (db w)"
  | (committed) v d ns where "m_status (txs w ! t) = Tx_active" "pq_open pq (db w)"
      "exec_db pq ''COMMIT'' (db w) = (Inr v, d)"
      "tx_commit pq t w = (Inr (), (put_tx t ((txs w ! t)\<lparr>m_status := Tx_committed, m_registered := False\<rparr>) w)
         \<lparr>db := d, m_trans := None, notices := notices w @ ns\<rparr>)"
  | (failed) e d ns where "m_status (txs w ! t) = Tx_active" "pq_open pq (db w)"
      "exec_db pq ''COMMIT'' (db w) = (Inl (Throw e), d)"
      "tx_commit pq t w = (Inl (Throw (commit_exn (pq_open pq d) e)),
         (put_tx t ((txs w ! t)\<lparr>m_status := commit_status (pq_open pq d) (Inl (Throw e))\<rparr>) w)
         \<lparr>db := d, notices := notices w @ ns\<rparr>)"
proof (cases "m_status (txs w ! t) = Tx_active \<and> pq_open pq (db w)")
  case True
  obtain r d where x: "exec_db pq ''COMMIT'' (db w) = (r, d)" by fastforce
  have "settled r" using settled_exec_db[of pq "''COMMIT''" "db w"] x by simp
  then show ?thesis
  proof (rule settledE)
    fix e assume "r = Inl (Throw e)"
    with tx_commit_active[of t w pq r d] True assms x show ?thesis by (auto intro: failed)
  next
    fix a assume "r = Inr a"
    with tx_commit_active[of t w pq r d] True assms x show ?thesis by (auto intro: committed)
  qed
next
  case False
  with tx_commit_quiet[OF assms, of pq] show ?thesis by (metis quiet)
qed

lemma commit_status_closed: "commit_status op (Inl (Throw e)) \<noteq> Tx_active"
  by (simp add: commit_status_def)

lemma owned_tx_commit: "owned t w \<Longrightarrow> owned t (snd (tx_commit pq t w))"
  by (rule tx_commit_cases[of t w pq])
    (auto simp: owned_def commit_status_closed)

text \<open>How \<open>abort\<close> ends: only an active transaction is rolled back.\<close>

lemma tx_abort_cases:
  assumes "owned t w"
  obtains (quiet) r ns where "tx_abort pq t w = (r, w\<lparr>notices := notices w @ ns\<rparr>)" "settled r"
      "m_status (txs w ! t) \<noteq> Tx_active"
  | (aborted) ns where "m_status (txs w ! t) = Tx_active"
      "tx_abort pq t w = (Inr (), (put_tx t ((txs w ! t)\<lparr>m_status := Tx_aborted, m_registered := False\<rparr>) w)
         \<lparr>db := snd (exec_db pq ''ROLLBACK'' (db w)), m_trans := None, notices := notices w @ ns\<rparr>)"
proof (cases "m_status (txs w ! t) = Tx_active")
  case True
  obtain r d where x: "exec_db pq ''ROLLBACK'' (db w) = (r, d)" by fastforce
  from True assms x tx_abort_active[of t w pq r d] show ?thesis
    by (auto simp: owned_def intro: aborted)
next
  case False
  let ?n = "''Warning: '' @ describe_object ''transaction'' (m_name (txs w ! t))
    @ '' aborted after going into indeterminate state; '' @ ''it may have been executed anyway.'' @ [CHR 0x0A]"
  have "tx_abort pq t w = (fst (tx_abort pq t w),
      w\<lparr>notices := notices w @ (if m_status (txs w ! t) = Tx_in_doubt then [?n] else [])\<rparr>)"
    using False by (cases "m_status (txs w ! t)") (simp_all add: tx_abort_def tx_prims prog_simps)
  moreover have "settled (fst (tx_abort pq t w))"
    using False by (cases "m_status (txs w ! t)") (simp_all add: tx_abort_def tx_prims prog_simps)
  ultimately show ?thesis using False by (rule quiet)
qed

lemma owned_tx_abort: "owned t w \<Longrightarrow> owned t (snd (tx_abort pq t w))"
  by (rule tx_abort_cases[of t w pq]) (auto simp: owned_def)

lemmas keeps_owned [keeps_intros] =
  keepsI[of "owned t" "tx_exec pq t q" for t pq q, OF owned_tx_exec]
  keepsI[of "owned t" "tx_commit pq t" for t pq, OF owned_tx_commit]
  keepsI[of "owned t" "tx_abort pq t" for t pq, OF owned_tx_abort]

subsection \<open>Statements on the wire\<close>

text \<open>
  A back end instrumented with the list of the statements it has been sent.  \<open>wiretap\<close> is what
  the protocol lemmas need of it, and \<open>logged\<close> provides it for any libpq.
\<close>

definition logged :: "'db libpq \<Rightarrow> ('db \<times> string list) libpq" where
  "logged pq = \<lparr>pq_exec = (\<lambda>q s. let (r, d) = pq_exec pq q (fst s) in (r, (d, snd s @ [q]))),
     pq_consume = (\<lambda>s. let (ok, d) = pq_consume pq (fst s) in (ok, (d, snd s))),
     pq_encoding = (\<lambda>s. pq_encoding pq (fst s)), pq_open = (\<lambda>s. pq_open pq (fst s)), pq_error = (\<lambda>s. pq_error pq (fst s))\<rparr>"

text \<open>
  What the server has seen of a transaction for which the statements \<open>qs\<close> were asked: all of
  them while it is active; a prefix and one closing statement afterwards.
\<close>

definition shape ::
  "('db \<Rightarrow> string list) \<Rightarrow> string list \<Rightarrow> string list \<Rightarrow> nat \<Rightarrow> ('db, 'z) session_scheme \<Rightarrow> bool" where
  "shape wire pre qs t w \<longleftrightarrow> owned t w \<and>
     (if m_status (txs w ! t) = Tx_active then wire (db w) = pre @ qs
      else \<exists>ps x. prefix ps qs \<and> x \<in> {''COMMIT'', ''ROLLBACK''} \<and> wire (db w) = pre @ ps @ [x])"

locale wiretap =
  fixes pq :: "'db libpq" and wire :: "'db \<Rightarrow> string list"
  assumes wire_exec: "wire (snd (pq_exec pq q d)) = wire d @ [q]"
    and wire_consume: "wire (snd (pq_consume pq d)) = wire d"
begin

lemma wire_exec_db: "wire (snd (exec_db pq q d)) = wire d @ [c_str q]"
proof -
  obtain r d1 where e: "pq_exec pq (c_str q) d = (r, d1)" by fastforce
  obtain ok d2 where c: "pq_consume pq d1 = (ok, d2)" by fastforce
  from wire_exec[of "c_str q" d] wire_consume[of d1] e c show ?thesis
    by (simp add: exec_db_def split: option.split sum.split)
qed

lemma shape_exec: "shape wire pre qs t w \<Longrightarrow> shape wire pre (qs @ [c_str q]) t (snd (tx_exec pq t q w))"
  by (auto simp: shape_def tx_exec_owned wire_exec_db) (auto simp: owned_def intro: prefix_prefix)

lemma shape_commit: assumes "shape wire pre qs t w" shows "shape wire pre qs t (snd (tx_commit pq t w))"
proof -
  have o: "owned t w" using assms by (simp add: shape_def)
  show ?thesis
    by (rule tx_commit_cases[OF o, of pq])
      (use assms owned_tx_commit[OF o, of pq] wire_exec_db[of "''COMMIT''" "db w"]
        in \<open>auto simp: shape_def owned_def commit_status_closed\<close>)
qed

lemma shape_abort: assumes "shape wire pre qs t w" shows "shape wire pre qs t (snd (tx_abort pq t w))"
proof -
  have o: "owned t w" using assms by (simp add: shape_def)
  show ?thesis
    by (rule tx_abort_cases[OF o, of pq])
      (use assms owned_tx_abort[OF o, of pq] wire_exec_db[of "''ROLLBACK''" "db w"]
        in \<open>auto simp: shape_def owned_def\<close>)
qed

end

interpretation log: wiretap "logged pq" snd for pq
  by unfold_locales (simp_all add: logged_def split: prod.split)

text \<open>
  The calls a client can make on a transaction it holds, exceptions handled or not: the sessions
  that can be reached from \<open>w\<close>, with the statements asked for.
\<close>

inductive tx_calls ::
  "'db libpq \<Rightarrow> nat \<Rightarrow> ('db, 'z) session_scheme \<Rightarrow> string list \<Rightarrow> ('db, 'z) session_scheme \<Rightarrow> bool"
  for pq t w where
  no_call: "tx_calls pq t w [] w"
| call_exec: "tx_calls pq t w qs w' \<Longrightarrow> tx_calls pq t w (qs @ [c_str q]) (snd (tx_exec pq t q w'))"
| call_commit: "tx_calls pq t w qs w' \<Longrightarrow> tx_calls pq t w qs (snd (tx_commit pq t w'))"
| call_abort: "tx_calls pq t w qs w' \<Longrightarrow> tx_calls pq t w qs (snd (tx_abort pq t w'))"

lemma tx_calls_shape:
  assumes "tx_calls (logged pq) t w qs w'" and "owned t w" and "m_status (txs w ! t) = Tx_active"
  shows "shape snd (snd (db w)) qs t w'"
  using assms(1)
proof induction
  case no_call
  with assms(2,3) show ?case by (simp add: shape_def)
qed (auto intro: log.shape_exec log.shape_commit log.shape_abort)

text \<open>
  However a client uses a transaction, the statements that reach the server are a prefix of
  the ones it asked for, followed, once the transaction is over, by exactly one \<open>COMMIT\<close> or
  \<open>ROLLBACK\<close>; while it is active, all of them were sent.  This holds for every behaviour of the
  server, lost connections included.
\<close>

theorem transaction_wire_protocol:
  assumes "owned t w" and "m_status (txs w ! t) = Tx_active" and "tx_calls (logged pq) t w qs w'"
  shows "owned t w' \<and>
    (if m_status (txs w' ! t) = Tx_active then snd (db w') = snd (db w) @ qs
     else \<exists>ps x. prefix ps qs \<and> x \<in> {''COMMIT'', ''ROLLBACK''} \<and> snd (db w') = snd (db w) @ ps @ [x])"
  using tx_calls_shape[OF assms(3,1,2)] unfolding shape_def .

subsection \<open>Transaction scopes\<close>

text \<open>
  \<open>idle\<close>: no transaction is registered.  \<open>frees m\<close>: started on an idle connection, \<open>m\<close> leaves it
  idle when it returns or throws.  (While it waits for a key inside a scope it need not be.)
\<close>

definition idle :: "('db, 'z) session_scheme \<Rightarrow> bool" where
  "idle w \<longleftrightarrow> m_trans w = None"

definition frees :: "(('db, 'z) session_scheme, 'a) prog \<Rightarrow> bool" where
  "frees m \<longleftrightarrow> (\<forall>w. idle w \<longrightarrow> settled (fst (m w)) \<longrightarrow> idle (snd (m w)))"

lemma freesD: "frees m \<Longrightarrow> idle w \<Longrightarrow> m w = (r, w') \<Longrightarrow> settled r \<Longrightarrow> idle w'"
  by (metis frees_def fst_conv snd_conv)

lemma owned_started:
  "m_trans w = None \<Longrightarrow> owned (length (txs w)) (w\<lparr>txs := txs w @ [new_tx\<lparr>m_registered := True\<rparr>],
     m_trans := Some (length (txs w)), db := d\<rparr>)"
  by (simp add: owned_def new_tx_def)

text \<open>What a scope does, from the outcome of \<open>BEGIN\<close> and of its body.\<close>

lemma with_work_cases:
  assumes "m_trans w = None" and "\<And>t. keeps (owned t) (body t)"
  obtains (not_begun) e d ns where "exec_db pq ''BEGIN'' (db w) = (Inl (Throw e), d)"
      "with_work pq body w = (Inl (Throw e), w\<lparr>txs := txs w @ [new_tx\<lparr>m_registered := True\<rparr>],
         m_trans := None, db := d, notices := notices w @ ns\<rparr>)"
  | (body_done) v d r w1 where "exec_db pq ''BEGIN'' (db w) = (Inr v, d)"
      "body (length (txs w)) (w\<lparr>txs := txs w @ [new_tx\<lparr>m_registered := True\<rparr>],
         m_trans := Some (length (txs w)), db := d\<rparr>) = (r, w1)"
      "settled r" "owned (length (txs w)) w1"
      "with_work pq body w = (r, snd (work_destructor pq (length (txs w)) w1))"
  | (body_stuck) v d r w1 where "exec_db pq ''BEGIN'' (db w) = (Inr v, d)"
      "\<not> settled r" "with_work pq body w = (r, w1)"
proof -
  let ?t = "length (txs w)"
  let ?w0 = "\<lambda>d. w\<lparr>txs := txs w @ [new_tx\<lparr>m_registered := True\<rparr>], m_trans := Some ?t, db := d\<rparr>"
  obtain x d where x: "exec_db pq ''BEGIN'' (db w) = (x, d)" by fastforce
  have "settled x" using settled_exec_db[of pq "''BEGIN''" "db w"] x by simp
  then show ?thesis
  proof (rule settledE)
    fix e assume "x = Inl (Throw e)"
    with basic_transaction_idle[OF assms(1) x] x show ?thesis
      by (auto simp: with_work_def bnd_def intro: not_begun)
  next
    fix v assume v: "x = Inr v"
    obtain r w1 where r: "body ?t (?w0 d) = (r, w1)" by fastforce
    have ow: "owned ?t w1"
      using keepsD[OF assms(2)[of ?t] owned_started[OF assms(1), of d]] r by simp
    have begun: "basic_transaction pq ''BEGIN'' w = (Inr ?t, ?w0 d)"
      using basic_transaction_idle[OF assms(1) x] v by auto
    show ?thesis
    proof (cases "settled r")
      case True
      then have "with_work pq body w = (r, snd (work_destructor pq ?t w1))"
        using begun r by (cases r rule: settled.cases) (auto simp: with_work_def bnd_def guard_with_def)
      with True x v r ow show ?thesis by (auto intro: body_done)
    next
      case False
      then have "with_work pq body w = (r, w1)"
        using begun r by (cases r rule: settled.cases) (auto simp: with_work_def bnd_def guard_with_def)
      with False x v show ?thesis by (auto intro: body_stuck)
    qed
  qed
qed

lemma destructor_idle: "owned t w \<Longrightarrow> idle (snd (work_destructor pq t w))"
  using work_destructor_eq[of t w pq] by (auto simp: idle_def)

lemma frees_with_work:
  assumes "\<And>t. keeps (owned t) (body t)"
  shows "frees (with_work pq body)"
  unfolding frees_def
proof (intro allI impI)
  fix w :: "('a, 'b) session_scheme"
  assume "idle w" and s: "settled (fst (with_work pq body w))"
  then have idle: "m_trans w = None" by (simp add: idle_def)
  show "idle (snd (with_work pq body w))"
  proof (rule with_work_cases[OF idle assms, where pq = pq])
    fix v d r w1
    assume "owned (length (txs w)) w1"
      and "with_work pq body w = (r, snd (work_destructor pq (length (txs w)) w1))"
    then show ?thesis by (simp add: destructor_idle)
  qed (use s in \<open>simp_all add: idle_def\<close>)
qed

lemma settled_tx_exec: "owned t w \<Longrightarrow> settled (fst (tx_exec pq t q w))"
  by (simp add: tx_exec_owned settled_exec_db)

lemma settled_tx_commit: "owned t w \<Longrightarrow> settled (fst (tx_commit pq t w))"
  by (rule tx_commit_cases[of t w pq]) auto

lemma settled_tx_abort: "owned t w \<Longrightarrow> settled (fst (tx_abort pq t w))"
  by (rule tx_abort_cases[of t w pq]) auto

text \<open>A scope whose body is a given sequence of calls; an exception ends it.\<close>

datatype tx_call = Call_exec string | Call_commit | Call_abort

fun run_call :: "'db libpq \<Rightarrow> nat \<Rightarrow> tx_call \<Rightarrow> (('db, 'z) session_scheme, unit) prog" where
  "run_call pq t (Call_exec q) = sq (tx_exec pq t q) (ret ())"
| "run_call pq t Call_commit = tx_commit pq t"
| "run_call pq t Call_abort = tx_abort pq t"

definition asked :: "tx_call list \<Rightarrow> string list" where
  "asked cs = concat (map (\<lambda>c. case c of Call_exec q \<Rightarrow> [c_str q] | _ \<Rightarrow> []) cs)"

lemma run_call_state:
  "snd (run_call pq t (Call_exec q) w) = snd (tx_exec pq t q w)"
  "settled (fst (tx_exec pq t q w)) \<Longrightarrow> settled (fst (run_call pq t (Call_exec q) w))"
  by (auto simp: prog_simps split: prod.splits sum.splits elim: settledE)

lemma keeps_run_call [keeps_intros]: "keeps (owned t) (run_call pq t c)"
  by (cases c) (auto intro: keeps_intros)

lemma settled_run_call: "owned t w \<Longrightarrow> settled (fst (run_call pq t c w))"
  by (cases c) (auto simp: settled_tx_commit settled_tx_abort intro: run_call_state settled_tx_exec
      simp del: run_call.simps(1))

lemma shape_run_call:
  "shape snd pre qs t w \<Longrightarrow> shape snd pre (qs @ asked [c]) t (snd (run_call (logged pq) t c w))"
  by (cases c) (auto simp: asked_def run_call_state log.shape_exec log.shape_commit log.shape_abort
      simp del: run_call.simps(1))

lemma asked_Cons: "asked (c # cs) = asked [c] @ asked cs"
  by (simp add: asked_def)

lemma script_shape:
  assumes "shape snd pre qs t w"
  shows "settled (fst (for_each cs (run_call (logged pq) t) w))
    \<and> (\<exists>ps. prefix ps (asked cs) \<and> shape snd pre (qs @ ps) t (snd (for_each cs (run_call (logged pq) t) w)))"
  using assms
proof (induction cs arbitrary: qs w)
  case Nil
  then show ?case by (simp add: prog_simps asked_def)
next
  case (Cons c cs)
  obtain r w1 where c: "run_call (logged pq) t c w = (r, w1)" by fastforce
  have "owned t w" using Cons.prems by (simp add: shape_def)
  then have r: "settled r" using settled_run_call[of t w "logged pq" c] c by simp
  have s: "shape snd pre (qs @ asked [c]) t w1" using shape_run_call[OF Cons.prems, of c pq] c by simp
  from r show ?case
  proof (rule settledE)
    fix e assume "r = Inl (Throw e)"
    with c s show ?thesis by (auto simp: prog_simps asked_Cons[of c cs] intro!: exI[of _ "asked [c]"])
  next
    fix a assume "r = Inr a"
    moreover obtain ps where "prefix ps (asked cs)"
      and "shape snd pre (qs @ asked [c] @ ps) t (snd (for_each cs (run_call (logged pq) t) w1))"
      using Cons.IH[OF s] by auto
    ultimately show ?thesis using c Cons.IH[OF s]
      by (auto simp: prog_simps asked_Cons[of c cs] intro!: exI[of _ "asked [c] @ ps"])
  qed
qed

lemma shape_destructor:
  assumes "shape snd pre qs t w"
  shows "\<exists>ps x. prefix ps qs \<and> x \<in> {''COMMIT'', ''ROLLBACK''}
    \<and> snd (db (snd (work_destructor (logged pq) t w))) = pre @ ps @ [x]"
  using assms work_destructor_eq[of t w "logged pq"] log.wire_exec_db[of pq "''ROLLBACK''" "db w"]
  by (auto simp: shape_def split: if_splits)

text \<open>
  C7.  A scope \<open>{ work tx(C); calls }\<close> entered on an idle connection always comes to an end, in a
  returned value or an exception, and leaves the connection idle.  The server has then seen
  \<open>BEGIN\<close>, and, unless that failed, a prefix of the statements of the body and exactly one
  \<open>COMMIT\<close> or \<open>ROLLBACK\<close>.
\<close>

theorem work_scope_protocol:
  assumes "idle w"
    and "with_work (logged pq) (\<lambda>t. for_each calls (run_call (logged pq) t)) w = (r, w')"
  shows "settled r \<and> idle w' \<and> (\<exists>tl. snd (db w') = snd (db w) @ ''BEGIN'' # tl \<and>
    (tl = [] \<and> (\<exists>e. fst (exec_db (logged pq) ''BEGIN'' (db w)) = Inl (Throw e)) \<or>
     (\<exists>ps x. tl = ps @ [x] \<and> prefix ps (asked calls) \<and> x \<in> {''COMMIT'', ''ROLLBACK''})))"
proof -
  let ?body = "\<lambda>t. for_each calls (run_call (logged pq) t)"
  let ?t = "length (txs w)"
  have m: "m_trans w = None" using assms(1) by (simp add: idle_def)
  have k: "\<And>t. keeps (owned t) (?body t)" by (intro keeps_intros)
  have b: "snd (snd (exec_db (logged pq) ''BEGIN'' (db w))) = snd (db w) @ [''BEGIN'']"
    by (simp add: log.wire_exec_db)
  show ?thesis
  proof (rule with_work_cases[OF m k, of "logged pq"])
    fix e d ns
    assume "exec_db (logged pq) ''BEGIN'' (db w) = (Inl (Throw e), d)"
      and "with_work (logged pq) ?body w = (Inl (Throw e),
        w\<lparr>txs := txs w @ [new_tx\<lparr>m_registered := True\<rparr>], m_trans := None, db := d, notices := notices w @ ns\<rparr>)"
    with assms(2) b show ?thesis by (auto simp: idle_def)
  next
    fix v d r1 w1
    let ?w0 = "w\<lparr>txs := txs w @ [new_tx\<lparr>m_registered := True\<rparr>], m_trans := Some ?t, db := d\<rparr>"
    assume x: "exec_db (logged pq) ''BEGIN'' (db w) = (Inr v, d)" and r1: "?body ?t ?w0 = (r1, w1)"
      and ww: "settled r1" "owned ?t w1" "with_work (logged pq) ?body w = (r1, snd (work_destructor (logged pq) ?t w1))"
    have "shape snd (snd (db w) @ [''BEGIN'']) [] ?t ?w0"
      using b x owned_started[OF m, of d] by (simp add: shape_def new_tx_def)
    from script_shape[OF this, of calls pq] r1
    obtain ps where "prefix ps (asked calls)" "shape snd (snd (db w) @ [''BEGIN'']) ps ?t w1" by auto
    with shape_destructor[OF this(2), of pq] ww assms(2) show ?thesis
      by (auto simp: destructor_idle dest: prefix_order.trans)
  next
    fix v d r1 w1
    let ?w0 = "w\<lparr>txs := txs w @ [new_tx\<lparr>m_registered := True\<rparr>], m_trans := Some ?t, db := d\<rparr>"
    assume x: "exec_db (logged pq) ''BEGIN'' (db w) = (Inr v, d)"
      and ww: "\<not> settled r1" "with_work (logged pq) ?body w = (r1, w1)"
    have "shape snd (snd (db w) @ [''BEGIN'']) [] ?t ?w0"
      using b x owned_started[OF m, of d] by (simp add: shape_def new_tx_def)
    from script_shape[OF this, of calls pq] have "settled (fst (?body ?t ?w0))" by simp
    with ww x m basic_transaction_idle[OF m x] show ?thesis
      by (cases "?body ?t ?w0"; cases "fst (?body ?t ?w0)" rule: settled.cases)
        (auto simp: with_work_def bnd_def guard_with_def)
  qed
qed

text \<open>A server that accepts every command, and a fresh session with it.\<close>

definition calm_server :: "unit libpq" where
  "calm_server = \<lparr>pq_exec = (\<lambda>q d. (Some \<lparr>pg_status = PGRES_COMMAND_OK, pg_message = [], pg_sqlstate = None,
     pg_rows = []\<rparr>, d)), pq_consume = (\<lambda>d. (True, d)), pq_encoding = (\<lambda>d. Some ''UTF8''), pq_open = (\<lambda>d. True), pq_error = (\<lambda>d. [])\<rparr>"

definition fresh_session :: "'db \<Rightarrow> 'db session" where
  "fresh_session d = \<lparr>keys = [], screen = [], yx = (\<lambda>_. (0, 0)), db = d, m_trans = None, txs = [], notices = []\<rparr>"

definition begun_session :: "'db \<Rightarrow> 'db session" where
  "begun_session d = (fresh_session d)\<lparr>m_trans := Some 0, txs := [new_tx\<lparr>m_registered := True\<rparr>]\<rparr>"

lemma begun_owned: "owned 0 (begun_session d) \<and> m_status (txs (begun_session d) ! 0) = Tx_active"
  by (simp add: begun_session_def fresh_session_def owned_def new_tx_def)

theorem work_scope_protocol_witness:
  "\<exists>r w'. with_work (logged calm_server) (\<lambda>t. for_each [Call_exec ''SELECT 1'', Call_commit, Call_commit]
       (run_call (logged calm_server) t)) (fresh_session ((), [])) = (r, w') \<and> settled r \<and> idle w' \<and>
     (\<exists>tl. snd (db w') = ''BEGIN'' # tl)"
proof -
  let ?m = "with_work (logged calm_server) (\<lambda>t. for_each [Call_exec ''SELECT 1'', Call_commit, Call_commit]
    (run_call (logged calm_server) t)) (fresh_session ((), []))"
  have i: "idle (fresh_session ((), []))" by (simp add: idle_def fresh_session_def)
  obtain r w' where "?m = (r, w')" by fastforce
  with work_scope_protocol[OF i this] show ?thesis by (auto simp: fresh_session_def)
qed

theorem transaction_wire_protocol_witness:
  "\<exists>w'. tx_calls (logged calm_server) 0 (begun_session ((), [''BEGIN''])) [''SELECT 1''] w' \<and> owned 0 w'"
proof -
  let ?w = "begun_session ((), [''BEGIN''])"
  have c: "tx_calls (logged calm_server) 0 ?w ([] @ [c_str ''SELECT 1''])
    (snd (tx_commit (logged calm_server) 0 (snd (tx_exec (logged calm_server) 0 ''SELECT 1'' ?w))))"
    by (intro tx_calls.intros)
  with transaction_wire_protocol[OF conjunct1[OF begun_owned] conjunct2[OF begun_owned] c] show ?thesis
    by auto
qed

text \<open>
  A second \<open>commit\<close> is harmless: on a transaction that was committed, \<open>commit\<close> returns,
  sends nothing to the server and leaves the transaction as it is; only one notice is added.
\<close>

theorem commit_twice:
  assumes "owned t w" and "tx_commit pq t w = (Inr (), w')"
  shows "\<exists>n. tx_commit pq t w' = (Inr (), w'\<lparr>notices := notices w' @ [n]\<rparr>)"
proof -
  have c: "owned t w' \<and> m_status (txs w' ! t) = Tx_committed"
  proof (rule tx_commit_cases[OF assms(1), of pq])
    fix r ns assume q: "tx_commit pq t w = (r, w\<lparr>notices := notices w @ ns\<rparr>)"
      and "m_status (txs w ! t) \<noteq> Tx_active \<or> \<not> pq_open pq (db w)"
    with tx_commit_quiet[OF assms(1), of pq] assms(2)
    have "m_status (txs w ! t) = Tx_committed" by auto
    with q assms show ?thesis by (auto simp: owned_def)
  qed (use assms owned_tx_commit[OF assms(1), of pq] in \<open>auto simp: owned_def\<close>)
  with tx_commit_quiet[of t w' pq] show ?thesis by (auto simp: length_Suc_conv)
qed

theorem commit_twice_witness:
  "\<exists>w' n. tx_commit calm_server 0 (begun_session ()) = (Inr (), w')
     \<and> tx_commit calm_server 0 w' = (Inr (), w'\<lparr>notices := notices w' @ [n]\<rparr>)"
proof -
  have e: "enc_group ''UTF8'' = Inr Ascii_safe" by code_simp
  have x: "exec_db calm_server ''COMMIT'' (db (begun_session ())) = (Inr \<lparr>pg_status = PGRES_COMMAND_OK,
    pg_message = [], pg_sqlstate = None, pg_rows = []\<rparr>, ())"
    by (simp add: exec_db_def calm_server_def e check_status_def status_error_def)
  have o: "pq_open calm_server (db (begun_session ()))" by (simp add: calm_server_def)
  from tx_commit_active[OF conjunct1[OF begun_owned] conjunct2[OF begun_owned] o x]
  obtain w' where w': "tx_commit calm_server 0 (begun_session ()) = (Inr (), w')" by auto
  from commit_twice[OF conjunct1[OF begun_owned] w'] w' show ?thesis by blast
qed

text \<open>
  How \<open>commit\<close> reports: on an active transaction over an open connection the status becomes
  committed exactly when the server accepted \<open>COMMIT\<close>; it becomes in-doubt, with
  \<open>in_doubt_error\<close>, exactly when the server's answer says so or the connection was lost while
  committing; otherwise it becomes aborted and the server's error is passed on.
\<close>

theorem commit_outcome:
  assumes "owned t w" and "m_status (txs w ! t) = Tx_active" and "pq_open pq (db w)"
    and "exec_db pq ''COMMIT'' (db w) = (r, d)" and "tx_commit pq t w = (r', w')"
  shows "(m_status (txs w' ! t) = Tx_committed \<longleftrightarrow> (\<exists>v. r = Inr v))
    \<and> (m_status (txs w' ! t) = Tx_in_doubt \<longleftrightarrow> r' = Inl (Throw In_doubt_error))
    \<and> (\<forall>e. r = Inl (Throw e) \<longrightarrow>
          r' = Inl (Throw (if \<not> pq_open pq d \<or> completion_unknown e
                           then In_doubt_error else e)))"
proof (rule tx_commit_cases[OF assms(1), of pq])
  fix v d' ns assume "exec_db pq ''COMMIT'' (db w) = (Inr v, d')"
    and "tx_commit pq t w = (Inr (), (put_tx t ((txs w ! t)\<lparr>m_status := Tx_committed, m_registered := False\<rparr>) w)
         \<lparr>db := d', m_trans := None, notices := notices w @ ns\<rparr>)"
  with assms show ?thesis by (auto simp: owned_def)
next
  fix e d' ns assume "exec_db pq ''COMMIT'' (db w) = (Inl (Throw e), d')"
    and "tx_commit pq t w = (Inl (Throw (commit_exn (pq_open pq d') e)),
         (put_tx t ((txs w ! t)\<lparr>m_status := commit_status (pq_open pq d') (Inl (Throw e))\<rparr>) w)
         \<lparr>db := d', notices := notices w @ ns\<rparr>)"
  with assms show ?thesis by (auto simp: owned_def commit_status_def commit_exn_def split: if_splits)
qed (use assms in auto)

definition refusing_server :: "bool libpq" where
  "refusing_server = \<lparr>pq_exec = (\<lambda>q d. (None, False)), pq_consume = (\<lambda>d. (d, d)),
     pq_encoding = (\<lambda>d. Some ''UTF8''), pq_open = (\<lambda>d. d), pq_error = (\<lambda>d. ''lost'')\<rparr>"

theorem commit_outcome_witness:
  "\<exists>w'. tx_commit refusing_server 0 (begun_session True) = (Inl (Throw In_doubt_error), w')
     \<and> m_status (txs w' ! 0) = Tx_in_doubt"
proof -
  let ?w = "begun_session True"
  have x: "exec_db refusing_server ''COMMIT'' (db ?w) = (Inl (Throw Broken_connection), False)"
    by (simp add: exec_db_def refusing_server_def)
  have o: "pq_open refusing_server (db ?w)" "\<not> pq_open refusing_server False"
    by (simp_all add: refusing_server_def begun_session_def fresh_session_def)
  obtain r' w' where c: "tx_commit refusing_server 0 ?w = (r', w')" by fastforce
  from commit_outcome[OF conjunct1[OF begun_owned] conjunct2[OF begun_owned] o(1) x c] o(2) c
  show ?thesis by simp
qed

text \<open>
  The classification of SQLSTATE codes: the exception reports a broken connection exactly for
  a missing or empty code and for the codes of class 08 other than \<open>08P01\<close>; for every other code
  but \<open>53300\<close> it is an \<open>sql_error\<close> that carries the code unchanged.
\<close>

theorem sqlstate_classified:
  "throw_sql_error None = Broken_connection \<and>
    (if code = [] \<or> (take 2 code = ''08'' \<and> code \<noteq> ''08P01'') then throw_sql_error (Some code) = Broken_connection
     else if code = ''53300'' then throw_sql_error (Some code) = Too_many_connections
     else \<exists>cls. throw_sql_error (Some code) = Sql_error_class cls code)"
proof -
  have z: "take 2 code = ''08'' \<longleftrightarrow> at_c code 0 = Some (CHR ''0'') \<and> at_c code 1 = Some (CHR ''8'')"
    "code = [] \<longleftrightarrow> at_c code 0 = None"
    by (cases code rule: remdups_adj.cases; simp add: at_c_def)+
  show ?thesis
    unfolding throw_sql_error_def Let_def option.case z by (auto simp: at_c_def)
qed

text \<open>
  A connection carries one transaction at a time: starting a second one while another is
  registered throws a \<open>usage_error\<close>, sends nothing to the server and leaves the registered
  transaction and all others as they were.
\<close>

theorem second_transaction_refused:
  assumes "m_trans w = Some i" and "i < length (txs w)"
  shows "\<exists>m. with_work pq body w = (Inl (Throw (Usage_error m)), w\<lparr>txs := txs w @ [new_tx]\<rparr>)"
  using basic_transaction_busy[OF assms, of pq "''BEGIN''"] by (auto simp: with_work_def bnd_def)

theorem second_transaction_refused_witness:
  "\<exists>m. with_work calm_server (\<lambda>t. ret ()) (begun_session ())
     = (Inl (Throw (Usage_error m)), (begun_session ())\<lparr>txs := [new_tx\<lparr>m_registered := True\<rparr>, new_tx]\<rparr>)"
  using second_transaction_refused[of "begun_session ()" 0 calm_server "\<lambda>t. ret ()"]
  by (simp add: begun_session_def fresh_session_def)

end
