(* ===== verification/Pqxx_Convert.thy ===== *)
theory Pqxx_Convert
  imports Cpp_Std
begin

text \<open>
  The string conversions of libpqxx: numbers and booleans (\<open>libpqxx/src/strconv.cxx\<close>, with
  the compiler's floating-point \<open>charconv\<close>) and the hexadecimal form of binary data
  (\<open>libpqxx/src/util.cxx\<close>).  Error texts leave out source locations.
\<close>

subsection \<open>Reading numbers\<close>

datatype errc = Errc_ok | Errc_invalid_argument | Errc_result_out_of_range

text \<open>
  \<open>std::from_chars\<close> in base 10: an optional minus sign (no plus sign, no space) and the longest
  run of digits.  The result is the value, the error code and the unread text.
\<close>

definition from_chars_int :: "int \<Rightarrow> int \<Rightarrow> string \<Rightarrow> int \<times> errc \<times> string" where
  "from_chars_int lo hi s =
     (let neg = (s \<noteq> [] \<and> hd s = CHR ''-'' \<and> lo < 0);
          u = (if neg then tl s else s);
          ds = takeWhile is_digit u;
          n = (if neg then - digits_val ds else digits_val ds)
      in if ds = [] then (0, Errc_invalid_argument, s)
         else if lo \<le> n \<and> n \<le> hi then (n, Errc_ok, dropWhile is_digit u)
         else (0, Errc_result_out_of_range, dropWhile is_digit u))"

definition lower_c :: "char \<Rightarrow> char" where
  "lower_c c = (if 65 \<le> (of_char c :: int) \<and> (of_char c :: int) \<le> 90 then char_of ((of_char c :: int) + 32) else c)"

text \<open>The names of the special values, in any case, with the longest match first.\<close>

definition scan_special :: "bool \<Rightarrow> string \<Rightarrow> (double \<times> string) option" where
  "scan_special neg s =
     (let t = map lower_c s in
      if take 8 t = ''infinity'' then Some (Inf neg, drop 8 s)
      else if take 3 t = ''inf'' then Some (Inf neg, drop 3 s)
      else if take 3 t = ''nan'' then Some (NaN, drop 3 s)
      else None)"

definition from_chars_double :: "string \<Rightarrow> double \<times> errc \<times> string" where
  "from_chars_double s =
     (let neg = (s \<noteq> [] \<and> hd s = CHR ''-'');
          u = (if neg then tl s else s)
      in case scan_special neg u of
           Some (x, r) \<Rightarrow> (x, Errc_ok, r)
         | None \<Rightarrow> (case scan_decimal neg u of
             None \<Rightarrow> (dbl_zero, Errc_invalid_argument, s)
           | Some (x, r) \<Rightarrow>
               (case x of Fin sg m e \<Rightarrow>
                  if m = 0 \<and> list_ex (\<lambda>c. is_digit c \<and> c \<noteq> CHR ''0'')
                        (takeWhile (\<lambda>c. is_digit c \<or> c = CHR ''.'') u)
                  then (dbl_zero, Errc_result_out_of_range, r) else (x, Errc_ok, r)
                | _ \<Rightarrow> (dbl_zero, Errc_result_out_of_range, r))))"

text \<open>\<open>from_string_arithmetic\<close>, over the \<open>from_chars\<close> of its type.\<close>

definition from_string_arithmetic ::
  "(string \<Rightarrow> 'a \<times> errc \<times> string) \<Rightarrow> string \<Rightarrow> string \<Rightarrow> exn + 'a" where
  "from_string_arithmetic from_chars type_name inp =
     (let here = dropWhile (\<lambda>c. c = CHR '' '' \<or> c = CHR 0x09) inp;
          (out, ec, ptr) = from_chars here
      in if ec = Errc_ok \<and> ptr = [] then Inr out
         else let msg = (case ec of Errc_ok \<Rightarrow> ''Could not parse full string.''
                          | Errc_result_out_of_range \<Rightarrow> ''Value out of range.''
                          | Errc_invalid_argument \<Rightarrow> ''Invalid argument.'');
                  base = ''Could not convert '' @ [CHR 0x27] @ inp @ [CHR 0x27] @ '' to '' @ type_name
              in Inl (Conversion_error (base @ '': '' @ msg)))"

definition from_string_long :: "string \<Rightarrow> exn + int" where
  "from_string_long = from_string_arithmetic (from_chars_int (- (2 ^ 63)) (2 ^ 63 - 1)) ''long''"

definition from_string_short :: "string \<Rightarrow> exn + int" where
  "from_string_short = from_string_arithmetic (from_chars_int (- (2 ^ 15)) (2 ^ 15 - 1)) ''short''"

definition from_string_double :: "string \<Rightarrow> exn + double" where
  "from_string_double = from_string_arithmetic from_chars_double ''double''"

definition from_string_bool :: "string \<Rightarrow> exn + bool" where
  "from_string_bool text =
     (let result = (if length text = 0 then Some False
        else if length text = 1 then
          (if text ! 0 = CHR ''f'' \<or> text ! 0 = CHR ''F'' \<or> text ! 0 = CHR ''0'' then Some False
           else if text ! 0 = CHR ''t'' \<or> text ! 0 = CHR ''T'' \<or> text ! 0 = CHR ''1'' then Some True
           else None)
        else if length text = 4 then (if text = ''true'' \<or> text = ''TRUE'' then Some True else None)
        else if length text = 5 then (if text = ''false'' \<or> text = ''FALSE'' then Some False else None)
        else None)
      in case result of
           Some b \<Rightarrow> Inr b
         | None \<Rightarrow> Inl (Conversion_error (''Failed conversion to bool: '' @ [CHR 0x27] @ text @ [CHR 0x27] @ ''.'')))"

subsection \<open>Writing integers\<close>

text \<open>
  A text written from the end of a buffer towards its start: the accumulator is what is already
  there, and its length the number of bytes used.
\<close>

function nonneg_to_buf :: "int \<Rightarrow> string \<Rightarrow> string" where
  "nonneg_to_buf value acc =
     (let acc' = digit_char (value mod 10) # acc; value' = value div 10 in
      if value' > 0 then nonneg_to_buf value' acc' else acc')"
  by pat_completeness auto
termination
  by (relation "measure (\<lambda>(v, acc). nat v)") auto

declare nonneg_to_buf.simps [simp del]

definition neg_to_buf :: "int \<Rightarrow> string" where
  "neg_to_buf value = CHR ''-'' # nonneg_to_buf value []"

text \<open>The lowest value of a signed type of \<open>w\<close> bits, promoted to the unsigned type.\<close>

definition bottom_to_buf :: "nat \<Rightarrow> string" where
  "bottom_to_buf w = neg_to_buf ((- (2 ^ (w - 1))) mod 2 ^ w)"

text \<open>\<open>size_buffer\<close> of a signed type, and \<open>to_buf\<close> into a buffer of \<open>space\<close> bytes.\<close>

definition digits10 :: "nat \<Rightarrow> nat" where
  "digits10 w = (if w = 16 then 4 else if w = 32 then 9 else 18)"

definition size_buffer :: "nat \<Rightarrow> nat" where
  "size_buffer w = 1 + digits10 w + 1"

definition integer_to_buf :: "nat \<Rightarrow> nat \<Rightarrow> int \<Rightarrow> exn + string" where
  "integer_to_buf w space value =
     (if space < size_buffer w then Inl Conversion_overrun
      else Inr (if value \<ge> 0 then nonneg_to_buf value []
                else if value > - (2 ^ (w - 1)) then neg_to_buf (- value)
                else bottom_to_buf w))"

subsection \<open>Binary data\<close>

definition hex_digits :: string where
  "hex_digits = ''0123456789abcdef''"

definition hex_digit :: "int \<Rightarrow> char" where
  "hex_digit c = hex_digits ! nat c"

definition nibble :: "int \<Rightarrow> int" where
  "nibble c =
     (if of_char (CHR ''0'') \<le> c \<and> c \<le> of_char (CHR ''9'') then c - of_char (CHR ''0'')
      else if of_char (CHR ''a'') \<le> c \<and> c \<le> of_char (CHR ''f'') then 10 + (c - of_char (CHR ''a''))
      else if of_char (CHR ''A'') \<le> c \<and> c \<le> of_char (CHR ''F'') then 10 + (c - of_char (CHR ''A''))
      else -1)"

text \<open>Bytes are integers from 0 to 255.\<close>

definition size_esc_bin :: "nat \<Rightarrow> nat" where
  "size_esc_bin binary_bytes = 2 + 2 * binary_bytes + 1"

definition size_unesc_bin :: "nat \<Rightarrow> nat" where
  "size_unesc_bin escaped_bytes = (if escaped_bytes < 2 then 0 else (escaped_bytes - 2) div 2)"

definition esc_bin :: "int list \<Rightarrow> string" where
  "esc_bin data = [CHR 0x5C, CHR ''x''] @ concat (map (\<lambda>b. [hex_digit (b div 16), hex_digit (b mod 16)]) data)"

fun unesc_loop :: "string \<Rightarrow> exn + int list" where
  "unesc_loop (h # l # rest) =
     (if nibble (of_char h) < 0 then Inl (Failure ''Invalid hex-escaped data.'')
      else if nibble (of_char l) < 0 then Inl (Failure ''Invalid hex-escaped data.'')
      else case unesc_loop rest of
             Inl e \<Rightarrow> Inl e
           | Inr bs \<Rightarrow> Inr ((16 * nibble (of_char h) + nibble (of_char l)) # bs))"
| "unesc_loop s = Inr []"

definition unesc_bin :: "string \<Rightarrow> exn + int list" where
  "unesc_bin escaped_data =
     (if length escaped_data < 2 then Inl (Failure ''Binary data appears truncated.'')
      else if length escaped_data mod 2 \<noteq> 0 then Inl (Failure ''Invalid escaped binary length.'')
      else if escaped_data ! 0 \<noteq> CHR 0x5C \<or> escaped_data ! 1 \<noteq> CHR ''x''
      then Inl (Failure (''Escaped binary data did not start with '' @ [CHR 0x27, CHR 0x5C] @ ''x'' @ [CHR 0x27, CHR 0x60]
             @ ''.  Is the server or libpq too old?''))
      else unesc_loop (drop 2 escaped_data))"

subsection \<open>Numbers: what is written is read back\<close>

lemma nonneg_to_buf_dec: "0 \<le> v \<Longrightarrow> nonneg_to_buf v acc = dec v @ acc"
proof (induction v arbitrary: acc rule: dec.induct)
  case (1 v)
  show ?case
  proof (cases "v < 10")
    case True
    with 1 show ?thesis by (subst nonneg_to_buf.simps) (simp add: dec.simps[of v] div_pos_pos_trivial)
  next
    case False
    then have "0 < v div 10" by (simp add: pos_imp_zdiv_pos_iff)
    then have "nonneg_to_buf v acc = nonneg_to_buf (v div 10) (digit_char (v mod 10) # acc)"
      by (subst nonneg_to_buf.simps) (simp add: Let_def)
    also have "\<dots> = dec (v div 10) @ digit_char (v mod 10) # acc"
      using 1 False by (intro "1.IH") auto
    also have "\<dots> = dec v @ acc" using False by (subst (2) dec.simps) simp
    finally show ?thesis .
  qed
qed

abbreviation fits :: "nat \<Rightarrow> int \<Rightarrow> bool" where
  "fits w v \<equiv> - (2 ^ (w - 1)) \<le> v \<and> v < 2 ^ (w - 1)"

lemma bottom_promoted: "0 < w \<Longrightarrow> (- (2 ^ (w - Suc 0))) mod (2 ^ w :: int) = 2 ^ (w - Suc 0)"
proof -
  assume "0 < w"
  then obtain k where w: "w = Suc k" by (auto simp: gr0_conv_Suc)
  have "(- (2 ^ k)) mod (2 ^ Suc k :: int) = (- (2 ^ k) + 2 ^ Suc k) mod 2 ^ Suc k" by (rule mod_add_self2[symmetric])
  also have "- (2 ^ k) + 2 ^ Suc k = (2 ^ k :: int)" by simp
  also have "(2 ^ k) mod 2 ^ Suc k = (2 ^ k :: int)" by (rule mod_pos_pos_trivial) simp_all
  finally show ?thesis unfolding w diff_Suc_Suc diff_zero .
qed

lemma integer_to_buf_string:
  assumes "0 < w" "fits w v" "size_buffer w \<le> space"
  shows "integer_to_buf w space v = Inr (int_to_string v)"
  using assms
  by (auto simp: integer_to_buf_def int_to_string_def neg_to_buf_def bottom_to_buf_def nonneg_to_buf_dec
      bottom_promoted)

lemma from_chars_int_to_string:
  assumes "lo \<le> n" "n \<le> hi" "lo < 0"
  shows "from_chars_int lo hi (int_to_string n) = (n, Errc_ok, [])"
proof (cases "n < 0")
  case True
  with assms dec_digits[of "- n"] show ?thesis
    by (simp add: from_chars_int_def int_to_string_def Let_def)
next
  case False
  with assms dec_digits[of n] digits_hd[of "dec n"] digit_not_sign[of "hd (dec n)"] show ?thesis
    by (simp add: from_chars_int_def int_to_string_def Let_def)
qed

lemma int_to_string_no_blank:
  "dropWhile (\<lambda>c. c = CHR '' '' \<or> c = CHR 0x09) (int_to_string n) = int_to_string n"
proof (cases "n < 0")
  case False
  then have "is_digit (hd (dec n))" by (simp add: dec_digits digits_hd)
  with False show ?thesis
    by (cases "dec n") (auto simp: int_to_string_def is_digit_def)
qed (simp add: int_to_string_def)

lemma from_string_int_to_string:
  assumes "lo \<le> n" "n \<le> hi" "lo < 0"
  shows "from_string_arithmetic (from_chars_int lo hi) ty (int_to_string n) = Inr n"
  using from_chars_int_to_string[OF assms]
  by (simp add: from_string_arithmetic_def int_to_string_no_blank)

lemma length_int_to_string:
  assumes "w \<in> {16, 32, 64}" "fits w v"
  shows "length (int_to_string v) \<le> size_buffer w"
proof -
  have "(2 ^ 15 :: int) < 10 ^ 5" "(2 ^ 31 :: int) < 10 ^ 10" "(2 ^ 63 :: int) < 10 ^ 19" by simp_all
  with assms have "\<bar>v\<bar> < 10 ^ (digits10 w + 1)"
    by (auto simp: digits10_def abs_if)
  then have "length (dec \<bar>v\<bar>) \<le> digits10 w + 1" by (intro length_dec_le) simp_all
  then show ?thesis by (auto simp: int_to_string_def size_buffer_def abs_if split: if_splits)
qed

text \<open>
  Integer conversion round trip: every value of a signed 16, 32 or 64 bit type, the lowest one
  included, is written by \<open>to_buf\<close> into any buffer of the size that \<open>size_buffer\<close> asks for, without
  using more bytes than that, and \<open>from_string\<close> reads the same value back.
\<close>

theorem integer_conversion_roundtrip:
  assumes "w \<in> {16, 32, 64}" and "- (2 ^ (w - 1)) \<le> v" and "v < 2 ^ (w - 1)"
    and "size_buffer w \<le> space"
  shows "\<exists>s. integer_to_buf w space v = Inr s \<and> length s \<le> size_buffer w
    \<and> from_string_arithmetic (from_chars_int (- (2 ^ (w - 1))) (2 ^ (w - 1) - 1)) ty s = Inr v"
  using assms integer_to_buf_string[of w v space] length_int_to_string[of w v]
    from_string_int_to_string[of "- (2 ^ (w - 1))" v "2 ^ (w - 1) - 1" ty]
  by auto

theorem integer_conversion_roundtrip_witness:
  "\<exists>s. integer_to_buf 64 20 (- (2 ^ 63)) = Inr s \<and> length s \<le> 20 \<and> from_string_long s = Inr (- (2 ^ 63))"
  using integer_conversion_roundtrip[of 64 "- (2 ^ 63)" 20 "''long''"]
  by (simp add: from_string_long_def size_buffer_def digits10_def)

text \<open>
  A number read from a text is the number that the text spells: leading blanks, a sign and digits,
  and nothing else.
\<close>

lemma from_string_int_iff:
  assumes "lo < 0"
  shows "from_string_arithmetic (from_chars_int lo hi) ty s = Inr n \<longleftrightarrow>
    (\<exists>ds. ds \<noteq> [] \<and> list_all is_digit ds \<and> lo \<le> n \<and> n \<le> hi \<and>
      (dropWhile (\<lambda>c. c = CHR '' '' \<or> c = CHR 0x09) s = ds \<and> n = digits_val ds \<or>
       dropWhile (\<lambda>c. c = CHR '' '' \<or> c = CHR 0x09) s = CHR ''-'' # ds \<and> n = - digits_val ds))"
    (is "?l = ?r")
proof
  let ?t = "dropWhile (\<lambda>c. c = CHR '' '' \<or> c = CHR 0x09) s"
  let ?u = "if ?t \<noteq> [] \<and> hd ?t = CHR ''-'' then tl ?t else ?t"
  assume ?l
  then have p: "from_chars_int lo hi ?t = (n, Errc_ok, [])"
    by (auto simp: from_string_arithmetic_def Let_def split: prod.splits if_splits)
  then have ds: "takeWhile is_digit ?u \<noteq> []" "dropWhile is_digit ?u = []" "lo \<le> n" "n \<le> hi"
    "n = (if ?t \<noteq> [] \<and> hd ?t = CHR ''-'' then - digits_val (takeWhile is_digit ?u) else digits_val (takeWhile is_digit ?u))"
    using assms by (auto simp: from_chars_int_def Let_def split: if_splits)
  then have all: "list_all is_digit ?u" by (auto simp: list_all_iff dropWhile_eq_Nil_conv)
  show ?r
  proof (cases "?t \<noteq> [] \<and> hd ?t = CHR ''-''")
    case True
    then have "?t = CHR ''-'' # ?u" by (cases ?t) auto
    with True ds all show ?thesis by (intro exI[of _ ?u]) auto
  next
    case False
    with ds all show ?thesis by (intro exI[of _ ?u]) auto
  qed
next
  assume ?r
  then obtain ds where ds: "ds \<noteq> []" "list_all is_digit ds" "lo \<le> n" "n \<le> hi"
    and "dropWhile (\<lambda>c. c = CHR '' '' \<or> c = CHR 0x09) s = ds \<and> n = digits_val ds \<or>
       dropWhile (\<lambda>c. c = CHR '' '' \<or> c = CHR 0x09) s = CHR ''-'' # ds \<and> n = - digits_val ds"
    by blast
  moreover have "hd ds \<noteq> CHR ''-''" using ds digits_hd digit_not_sign by blast
  ultimately have "from_chars_int lo hi (dropWhile (\<lambda>c. c = CHR '' '' \<or> c = CHR 0x09) s) = (n, Errc_ok, [])"
    using assms ds by (elim disjE) (simp_all add: from_chars_int_def Let_def)
  then show ?l by (simp add: from_string_arithmetic_def Let_def)
qed

subsection \<open>Binary data: what is escaped is unescaped\<close>

lemma hex_digit_cases:
  "0 \<le> n \<Longrightarrow> n < 16 \<Longrightarrow> n \<in> {0,1,2,3,4,5,6,7,8,9,10,11,12,13,14,15}" for n :: int
  by simp presburger

lemma nibble_hex_digit: "0 \<le> n \<Longrightarrow> n < 16 \<Longrightarrow> nibble (of_char (hex_digit n)) = n"
  by (drule (1) hex_digit_cases) (auto simp: hex_digit_def hex_digits_def nibble_def)

lemma nibble_range: "nibble c = -1 \<or> 0 \<le> nibble c \<and> nibble c < 16"
  by (auto simp: nibble_def)

abbreviation esc_byte :: "int \<Rightarrow> string" where
  "esc_byte b \<equiv> [hex_digit (b div 16), hex_digit (b mod 16)]"

lemma unesc_loop_esc:
  "list_all (\<lambda>b. 0 \<le> b \<and> b < 256) data \<Longrightarrow> unesc_loop (concat (map esc_byte data)) = Inr data"
proof (induction data)
  case (Cons b data)
  then have "0 \<le> b div 16" "b div 16 < 16" "0 \<le> b mod 16" "b mod 16 < 16" by auto
  with Cons show ?case by (simp add: nibble_hex_digit)
qed simp

lemma length_esc_bin: "length (esc_bin data) = 2 + 2 * length data"
proof -
  have "length (concat (map esc_byte data)) = 2 * length data" by (induction data) simp_all
  then show ?thesis by (simp add: esc_bin_def)
qed

lemma hex_digit_nibble: "0 \<le> nibble (of_char c) \<Longrightarrow> hex_digit (nibble (of_char c)) = lower_c c"
proof -
  let ?codes = "[48,49,50,51,52,53,54,55,56,57,65,66,67,68,69,70,97,98,99,100,101,102] :: int list"
  define k where "k = (of_char c :: int)"
  assume "0 \<le> nibble (of_char c)"
  then have "48 \<le> k \<and> k \<le> 57 \<or> 65 \<le> k \<and> k \<le> 70 \<or> 97 \<le> k \<and> k \<le> 102"
    unfolding nibble_def k_def[symmetric] by (auto split: if_splits)
  then have "k \<in> set ?codes" by simp presburger
  moreover have "list_all (\<lambda>k. hex_digit (nibble k) = lower_c (char_of k)) ?codes" by code_simp
  ultimately have "hex_digit (nibble k) = lower_c (char_of k)" unfolding list_all_iff by blast
  then show ?thesis by (simp add: k_def)
qed

lemma unesc_loop_inv:
  "unesc_loop s = Inr bs \<Longrightarrow> length s mod 2 = 0 \<Longrightarrow>
     list_all (\<lambda>b. 0 \<le> b \<and> b < 256) bs \<and> concat (map esc_byte bs) = map lower_c s"
proof (induction s arbitrary: bs rule: unesc_loop.induct)
  case (1 h l rest)
  then obtain bs' where "unesc_loop rest = Inr bs'" "0 \<le> nibble (of_char h)" "0 \<le> nibble (of_char l)"
    "bs = (16 * nibble (of_char h) + nibble (of_char l)) # bs'"
    by (auto split: if_splits sum.splits)
  with 1 nibble_range[of "of_char h"] nibble_range[of "of_char l"] show ?case
    by (auto simp: hex_digit_nibble)
qed auto

text \<open>
  Binary data survives escaping: \<open>unesc_bin\<close> inverts \<open>esc_bin\<close> on every sequence of bytes, the
  escaped form has exactly the size that \<open>size_esc_bin\<close> announces (its terminating zero left out),
  and a text that \<open>unesc_bin\<close> accepts is, up to the case of its digits, the escaped form of its
  result.
\<close>

theorem esc_bin_roundtrip:
  "(list_all (\<lambda>b. 0 \<le> b \<and> b < 256) data \<longrightarrow> unesc_bin (esc_bin data) = Inr data)
   \<and> length (esc_bin data) = size_esc_bin (length data) - 1
   \<and> (\<forall>bs. unesc_bin s = Inr bs \<longrightarrow>
        list_all (\<lambda>b. 0 \<le> b \<and> b < 256) bs \<and> length bs = size_unesc_bin (length s)
        \<and> esc_bin bs = [CHR 0x5C, CHR ''x''] @ map lower_c (drop 2 s))"
proof (intro conjI allI impI)
  assume "list_all (\<lambda>b. 0 \<le> b \<and> b < 256) data"
  with unesc_loop_esc[of data] length_esc_bin[of data] show "unesc_bin (esc_bin data) = Inr data"
    by (simp add: unesc_bin_def esc_bin_def)
next
  show "length (esc_bin data) = size_esc_bin (length data) - 1" by (simp add: length_esc_bin size_esc_bin_def)
next
  fix bs assume u: "unesc_bin s = Inr bs"
  then have "unesc_loop (drop 2 s) = Inr bs" "2 \<le> length s" "length s mod 2 = 0"
    by (auto simp: unesc_bin_def split: if_splits)
  moreover from this have "length (drop 2 s) mod 2 = 0" by (auto simp: mod_eq_0_iff_dvd)
  ultimately have i: "list_all (\<lambda>b. 0 \<le> b \<and> b < 256) bs \<and> concat (map esc_byte bs) = map lower_c (drop 2 s)"
    using unesc_loop_inv[of "drop 2 s" bs] by simp
  then show "list_all (\<lambda>b. 0 \<le> b \<and> b < 256) bs" by simp
  show e: "esc_bin bs = [CHR 0x5C, CHR ''x''] @ map lower_c (drop 2 s)" using i by (simp add: esc_bin_def)
  have "2 + 2 * length bs = length s"
    using arg_cong[OF e, of length] \<open>2 \<le> length s\<close> by (simp add: length_esc_bin)
  then show "length bs = size_unesc_bin (length s)" by (simp add: size_unesc_bin_def)
qed

theorem esc_bin_roundtrip_witness:
  "unesc_bin (esc_bin [0, 10, 255]) = Inr [0, 10, 255] \<and> unesc_bin (CHR 0x5C # ''xFf'') = Inr [255]
   \<and> esc_bin [255] = CHR 0x5C # ''xff''"
proof -
  have u: "unesc_bin (CHR 0x5C # ''xFf'') = Inr [255]" by code_simp
  have "[CHR 0x5C, CHR ''x''] @ map lower_c (drop 2 (CHR 0x5C # ''xFf'')) = CHR 0x5C # ''xff''" by code_simp
  with esc_bin_roundtrip[of "[0, 10, 255]" "CHR 0x5C # ''xFf''"] u show ?thesis by simp
qed

end
