(* ===== verification/Shop_Data.thy ===== *)
theory Shop_Data
  imports Pqxx_Session Pqxx_Convert
begin

text \<open>
  The data of the program: \<open>src/src/h_files/definitions_and_variables.h\<close> and \<open>.cpp\<close>,
  \<open>shop_data.h\<close>, \<open>colors.h\<close>, \<open>text.h\<close> and the globals of \<open>src/src/main.cpp\<close>.  The record
  \<open>app\<close> holds every global variable, on top of the session with the database and the console.
\<close>

subsection \<open>Products\<close>

datatype mesurments = PIECE | LENGTH | WEIGHT

fun mesurments_int :: "mesurments \<Rightarrow> int" where
  "mesurments_int PIECE = 0"
| "mesurments_int LENGTH = 1"
| "mesurments_int WEIGHT = 2"

record basket_product =
  b_code :: int
  b_quantity :: double

text \<open>
  \<open>tax\<close> is declared \<open>short\<close> but only ever holds a character: it is assigned from one and
  converted back to one.
\<close>

record product =
  p_name :: string
  p_code :: int
  p_price :: double
  p_discount :: int
  p_price_after_discount :: double
  p_tax :: char
  p_stock :: double
  p_profit :: double
  p_price_to_stock :: double
  p_sold_by :: mesurments

subsection \<open>Tabs\<close>

text \<open>\<open>current_tab\<close> is an \<open>int\<close>; the three defines are its values.\<close>

abbreviation PRODUCTS :: int where "PRODUCTS \<equiv> 0"
abbreviation BASKET :: int where "BASKET \<equiv> 1"
abbreviation STOCK :: int where "STOCK \<equiv> 2"

subsection \<open>Colour pairs\<close>

abbreviation white_pair :: int where "white_pair \<equiv> 127"
abbreviation money_pair :: int where "money_pair \<equiv> 128"
abbreviation tax_pair :: int where "tax_pair \<equiv> 129"
abbreviation discount_pair :: int where "discount_pair \<equiv> 130"
abbreviation UPC_pair :: int where "UPC_pair \<equiv> 131"
abbreviation QTY_pair :: int where "QTY_pair \<equiv> 132"
abbreviation profit_pair :: int where "profit_pair \<equiv> 133"
abbreviation pts_pair :: int where "pts_pair \<equiv> 134"
abbreviation stock_pair :: int where "stock_pair \<equiv> 135"
abbreviation selection_pair :: int where "selection_pair \<equiv> 136"
abbreviation black_pair :: int where "black_pair \<equiv> 137"

abbreviation COLOR_ORANGE :: int where "COLOR_ORANGE \<equiv> 9"
abbreviation COLOR_PRICE :: int where "COLOR_PRICE \<equiv> 10"
abbreviation COLOR_STOCK :: int where "COLOR_STOCK \<equiv> 11"
abbreviation COLOR_REAL_BLACK :: int where "COLOR_REAL_BLACK \<equiv> 12"

subsection \<open>Global variables\<close>

text \<open>
  Besides the program's variables: \<open>term_lines\<close>, \<open>term_cols\<close> and \<open>term_colors\<close> are what curses
  reports of the terminal; \<open>opens\<close> tells, for each coming \<open>open\<close> of the printer device, whether it
  succeeds, and \<open>printed\<close> is what was written to it.
\<close>

record 'db app = "'db session" +
  key :: int
  monochrome_mode :: bool
  message_x :: int
  message_dist_from_bottom :: int
  nr_of_newlines :: int
  LINES :: int
  ROWS :: int
  max_name_length :: int
  max_code_length :: int
  max_product_quanity_length :: int
  max_price_length :: int
  nr_decimal_points :: int
  nr_of_selling_options :: int
  max_sold_by_name_length :: int
  basket :: "basket_product list"
  current_tab :: int
  message_section_lines :: int
  barcode_prefix :: int
  tax_rates :: "char \<rightharpoonup> int"
  printer_device_file :: string
  total :: double
  visible_start :: int
  visible_end :: int
  shop_name :: string
  shop_code :: string
  shop_addres :: string
  test_s :: string
  test_i :: int
  test_f :: double
  test_b :: bool
  term_lines :: int
  term_cols :: int
  term_colors :: bool
  opens :: "bool list"
  printed :: "string list"

text \<open>The initial values, for a terminal, a key sequence and a back end.\<close>

definition initial_app :: "'db \<Rightarrow> int list \<Rightarrow> (term_op list \<Rightarrow> int \<times> int) \<Rightarrow> int \<Rightarrow> int \<Rightarrow> bool \<Rightarrow> bool list \<Rightarrow> 'db app" where
  "initial_app d ks cursor lines cols colors ops = \<lparr>
     keys = ks, screen = [], yx = cursor, db = d, m_trans = None, txs = [], notices = [],
     key = 0, monochrome_mode = False, message_x = 0, message_dist_from_bottom = 2, nr_of_newlines = 15,
     LINES = 0, ROWS = 0, max_name_length = 31, max_code_length = 13, max_product_quanity_length = 8,
     max_price_length = 6, nr_decimal_points = 2, nr_of_selling_options = 3, max_sold_by_name_length = 7,
     basket = [], current_tab = PRODUCTS, message_section_lines = 2, barcode_prefix = of_char (CHR ''#''),
     tax_rates = Map.empty, printer_device_file = ''/dev/usb/lp3'', total = dbl_zero,
     visible_start = 0, visible_end = 0,
     shop_name = ''Product inc'', shop_code = ''123456789012'',
     shop_addres = ''random stret nr 56 random city, country'',
     test_s = ''Hello world'', test_i = 10, test_f = flt_round_frac False 598 100, test_b = True,
     term_lines = lines, term_cols = cols, term_colors = colors, opens = ops, printed = []\<rparr>"

subsection \<open>The database description\<close>

definition db_name :: string where "db_name = ''shop''"
definition db_user :: string where "db_user = ''test''"
definition db_password :: string where "db_password = ''test123''"
definition db_hostaddr :: string where "db_hostaddr = ''192.168.0.163''"
definition db_port :: string where "db_port = ''5432''"
definition products_table :: string where "products_table = ''products''"
definition tax_rates_table :: string where "tax_rates_table = ''tax_rates''"

definition conn_param :: string where
  "conn_param = ''dbname = '' @ db_name @ '' user = '' @ db_user @ '' password = '' @ db_password
     @ '' hostaddr = '' @ db_hostaddr @ '' port = '' @ db_port"

subsection \<open>Texts\<close>

definition text_tabs :: "string list" where "text_tabs = [''PRODUCTS'', ''BASKET'', ''STOCK'']"
definition text_sold_by :: "string list" where "text_sold_by = [''BUC'', ''KG'', ''M'']"
definition text_false_true :: "string list" where "text_false_true = [''FALSE'', ''TRUE'']"

definition text_terminal_no_color :: string where
  "text_terminal_no_color = ''Terminal does not support colors. Program will run in monochrome mode!''"
definition text_no_product_to_modify :: string where
  "text_no_product_to_modify = ''No products to modify!''"
definition text_basket_not_empty :: string where
  "text_basket_not_empty = ''Products still in basket! Exit anyway? (y, N)''"
definition text_no_commas :: string where
  "text_no_commas = ''can'' @ [CHR 0x27] @ ''t contain commas! Try again!''"
definition text_product_not_found :: string where
  "text_product_not_found = ''No product with this code found.''"
definition text_receipt_printing :: string where
  "text_receipt_printing = ''Could not print reciept''"
definition text_no_items_in_basket :: string where
  "text_no_items_in_basket = ''No items in basket!''"
definition text_reprint_receipt :: string where
  "text_reprint_receipt = ''Reprint receipt?(y, N)''"
definition text_please_scan :: string where
  "text_please_scan = ''Please scan a code to get the prefix!''"
definition text_current_prefix :: string where
  "text_current_prefix = ''You'' @ [CHR 0x27] @ ''re current prefix is: ''"
definition text_newlines_description :: string where
  "text_newlines_description = ''How many lines is the printer going to put at the end of the receipt''"

end
