(* ===== verification/Database.thy ===== *)
theory Database
  imports Shop_Data
begin

text \<open>
  \<open>src/src/database_functions.cpp\<close>: the statements the program sends about products and taxes, and
  the reading of their results.  A \<open>work&\<close> is the address \<open>t\<close> of a transaction.
\<close>

subsection \<open>Reading fields\<close>

text \<open>
  \<open>res[i][j]\<close>: libpqxx checks neither index, and libpq documents no value for a row or a column
  that does not exist, so such an access is undefined.
\<close>

definition field :: "pgresult \<Rightarrow> nat \<Rightarrow> nat \<Rightarrow> ('w, cell) prog" where
  "field res i j = (if i < length (pg_rows res) \<and> j < length (pg_rows res ! i)
     then ret (pg_rows res ! i ! j) else stop_with (Undefined Row_out_of_range))"

text \<open>\<open>field::as\<close>.\<close>

definition field_as :: "(string \<Rightarrow> exn + 'a) \<Rightarrow> string \<Rightarrow> cell \<Rightarrow> exn + 'a" where
  "field_as from_string type_name c = (case c of
       None \<Rightarrow> Inl (Conversion_error (''Attempted to convert SQL null to '' @ type_name @ ''.''))
     | Some text \<Rightarrow> from_string text)"

definition as_long :: "pgresult \<Rightarrow> nat \<Rightarrow> nat \<Rightarrow> ('w, int) prog" where
  "as_long res i j = bnd (field res i j) (\<lambda>c. lift_exn (field_as from_string_long ''long'' c))"

definition as_short :: "pgresult \<Rightarrow> nat \<Rightarrow> nat \<Rightarrow> ('w, int) prog" where
  "as_short res i j = bnd (field res i j) (\<lambda>c. lift_exn (field_as from_string_short ''short'' c))"

definition as_double :: "pgresult \<Rightarrow> nat \<Rightarrow> nat \<Rightarrow> ('w, double) prog" where
  "as_double res i j = bnd (field res i j) (\<lambda>c. lift_exn (field_as from_string_double ''double'' c))"

definition as_bool :: "pgresult \<Rightarrow> nat \<Rightarrow> nat \<Rightarrow> ('w, bool) prog" where
  "as_bool res i j = bnd (field res i j) (\<lambda>c. lift_exn (field_as from_string_bool ''bool'' c))"

definition as_string :: "pgresult \<Rightarrow> nat \<Rightarrow> nat \<Rightarrow> ('w, string) prog" where
  "as_string res i j = bnd (field res i j) (\<lambda>c. lift_exn (field_as Inr ''std::string'' c))"

text \<open>\<open>s[0]\<close> of a \<open>std::string\<close>: the terminating NUL when it is empty.\<close>

definition first_char :: "string \<Rightarrow> char" where
  "first_char s = (case s of [] \<Rightarrow> CHR 0x00 | c # _ \<Rightarrow> c)"

text \<open>A \<open>long\<close> converted to \<open>int\<close>.\<close>

definition to_i32 :: "int \<Rightarrow> int" where
  "to_i32 n = to_signed 32 n"

subsection \<open>Statements\<close>

definition quoted :: "string \<Rightarrow> string" where
  "quoted s = [CHR 0x27] @ s @ [CHR 0x27]"

definition stock_size_sql :: string where
  "stock_size_sql = ''SELECT COUNT('' @ quoted ''code'' @ '') FROM '' @ products_table @ '';''"

definition product_sql :: "int \<Rightarrow> string" where
  "product_sql code = ''SELECT * FROM '' @ products_table @ '' WHERE code = '' @ int_to_string code @ '';''"

definition exists_sql :: "int \<Rightarrow> string" where
  "exists_sql code = ''SELECT COUNT(code) FROM '' @ products_table @ '' WHERE code = '' @ int_to_string code"

definition update_sql :: "product \<Rightarrow> string" where
  "update_sql p = ''UPDATE '' @ products_table @ '' SET ''
     @ ''name = '' @ quoted (p_name p) @ '', ''
     @ ''code = '' @ int_to_string (p_code p) @ '', ''
     @ ''price = '' @ double_to_string (p_price p) @ '', ''
     @ ''discount = '' @ int_to_string (p_discount p) @ '', ''
     @ ''tax = '' @ quoted [p_tax p] @ '', ''
     @ ''stock = '' @ double_to_string (p_stock p) @ '', ''
     @ ''price_to_stock = '' @ double_to_string (p_price_to_stock p) @ '', ''
     @ ''sold_by = '' @ int_to_string (mesurments_int (p_sold_by p))
     @ '' WHERE code = '' @ int_to_string (p_code p) @ '';''"

definition insert_sql :: "product \<Rightarrow> string" where
  "insert_sql p = ''INSERT INTO '' @ products_table
     @ ''(name, code, price, discount, tax, stock, price_to_stock, sold_by) VALUES ('' @ [CHR 0x27]
     @ p_name p @ [CHR 0x27] @ '', ''
     @ int_to_string (p_code p) @ '', ''
     @ double_to_string (p_price p) @ '', ''
     @ int_to_string (p_discount p) @ '', '' @ quoted [p_tax p] @ '', ''
     @ double_to_string (p_stock p) @ '', ''
     @ double_to_string (p_price_to_stock p) @ '', ''
     @ int_to_string (mesurments_int (p_sold_by p)) @ '');''"

definition code_list_sql :: string where
  "code_list_sql = ''SELECT code FROM '' @ products_table @ '' ORDER BY name ASC''"

definition name_list_sql :: string where
  "name_list_sql = ''SELECT name FROM '' @ products_table @ '' ORDER BY name ASC''"

definition erase_sql :: "int \<Rightarrow> string" where
  "erase_sql code = ''DELETE FROM '' @ products_table @ '' WHERE code = '' @ int_to_string code @ '';''"

definition tax_rates_sql :: string where
  "tax_rates_sql = ''SELECT * FROM '' @ tax_rates_table @ '' ORDER BY tax_char ASC''"

subsection \<open>Functions\<close>

definition to_mesurments :: "int \<Rightarrow> mesurments" where
  "to_mesurments n = (if n = 0 then PIECE else if n = 1 then LENGTH else if n = 2 then WEIGHT else PIECE)"

definition stock_size :: "'db libpq \<Rightarrow> nat \<Rightarrow> (('db, 'z) session_scheme, int) prog" where
  "stock_size pq t = bnd (tx_exec pq t stock_size_sql) (\<lambda>res.
     bnd (as_long res 0 0) (\<lambda>n. ret (to_i32 n)))"

text \<open>\<open>price - (price / 100.0) * discount\<close>.\<close>

definition discounted :: "double \<Rightarrow> int \<Rightarrow> double" where
  "discounted price discount = dbl_sub price (dbl_mul (dbl_div price (dbl_of_int 100)) (dbl_of_int discount))"

definition read_product :: "pgresult \<Rightarrow> ('w, product) prog" where
  "read_product res =
     bnd (as_string res 0 0) (\<lambda>name.
     bnd (as_long res 0 1) (\<lambda>code.
     bnd (as_double res 0 2) (\<lambda>price.
     bnd (as_short res 0 3) (\<lambda>discount.
     bnd (as_string res 0 4) (\<lambda>tax.
     bnd (as_double res 0 5) (\<lambda>stock.
     bnd (as_double res 0 6) (\<lambda>price_to_stock.
     bnd (as_short res 0 7) (\<lambda>sold_by.
     ret \<lparr>p_name = name, p_code = code, p_price = price, p_discount = discount,
          p_price_after_discount = discounted price discount, p_tax = first_char tax, p_stock = stock,
          p_profit = dbl_sub price price_to_stock, p_price_to_stock = price_to_stock,
          p_sold_by = to_mesurments sold_by\<rparr>))))))))"

definition get_product_data :: "'db libpq \<Rightarrow> nat \<Rightarrow> int \<Rightarrow> (('db, 'z) session_scheme, product) prog" where
  "get_product_data pq t code = bnd (tx_exec pq t (product_sql code)) read_product"

definition product_exists :: "'db libpq \<Rightarrow> nat \<Rightarrow> int \<Rightarrow> (('db, 'z) session_scheme, bool) prog" where
  "product_exists pq t code = bnd (tx_exec pq t (exists_sql code)) (\<lambda>res. as_bool res 0 0)"

definition update_stock :: "'db libpq \<Rightarrow> nat \<Rightarrow> product \<Rightarrow> (('db, 'z) session_scheme, unit) prog" where
  "update_stock pq t p = bnd (product_exists pq t (p_code p)) (\<lambda>found.
     sq (tx_exec pq t (if found then update_sql p else insert_sql p)) (ret ()))"

text \<open>
  The loop of \<open>code_list\<close> and \<open>name_list\<close>: the size is asked again in every round, and a round reads
  the next row of the result.
\<close>

fun list_loop ::
  "'db libpq \<Rightarrow> nat \<Rightarrow> (pgresult \<Rightarrow> (('db, 'z) session_scheme, 'a) prog) \<Rightarrow> int \<Rightarrow> cell list list
     \<Rightarrow> (('db, 'z) session_scheme, 'a list) prog" where
  "list_loop pq t get i [] = bnd (stock_size pq t) (\<lambda>n.
     if i < n then stop_with (Undefined Row_out_of_range) else ret [])"
| "list_loop pq t get i (r # rows) = bnd (stock_size pq t) (\<lambda>n.
     if i < n
     then bnd (get \<lparr>pg_status = PGRES_TUPLES_OK, pg_message = [], pg_sqlstate = None, pg_rows = [r]\<rparr>) (\<lambda>x.
          bnd (list_loop pq t get (i + 1) rows) (\<lambda>xs. ret (x # xs)))
     else ret [])"

definition code_list :: "'db libpq \<Rightarrow> nat \<Rightarrow> (('db, 'z) session_scheme, int list) prog" where
  "code_list pq t = bnd (tx_exec pq t code_list_sql) (\<lambda>res.
     list_loop pq t (\<lambda>r. as_long r 0 0) 0 (pg_rows res))"

definition name_list :: "'db libpq \<Rightarrow> nat \<Rightarrow> (('db, 'z) session_scheme, string list) prog" where
  "name_list pq t = bnd (tx_exec pq t name_list_sql) (\<lambda>res.
     list_loop pq t (\<lambda>r. as_string r 0 0) 0 (pg_rows res))"

definition erase :: "'db libpq \<Rightarrow> nat \<Rightarrow> int \<Rightarrow> (('db, 'z) session_scheme, unit) prog" where
  "erase pq t code = sq (tx_exec pq t (erase_sql code)) (ret ())"

text \<open>
  The number of rates read does not depend on the result: it is \<open>sizeof(res) / 8 - 1\<close>, in unsigned
  arithmetic, for the size \<open>sz\<close> of a \<open>pqxx::result\<close> object.  \<open>insert\<close> keeps an existing entry.
\<close>

fun tax_loop :: "pgresult \<Rightarrow> nat list \<Rightarrow> (char \<rightharpoonup> int) \<Rightarrow> ('w, char \<rightharpoonup> int) prog" where
  "tax_loop res [] m = ret m"
| "tax_loop res (i # is) m =
     bnd (as_string res i 0) (\<lambda>c. bnd (as_short res i 1) (\<lambda>rate.
       tax_loop res is (if m (first_char c) = None then m(first_char c \<mapsto> rate) else m)))"

definition get_tax_rates ::
  "nat \<Rightarrow> 'db libpq \<Rightarrow> nat \<Rightarrow> (('db, 'z) session_scheme, char \<rightharpoonup> int) prog" where
  "get_tax_rates sz pq t = bnd (tx_exec pq t tax_rates_sql) (\<lambda>res.
     tax_loop res [0..<nat ((int (sz div 8) - 1) mod 2 ^ 64)] Map.empty)"

end
