(* ===== verification/Menus.thy ===== *)
theory Menus
  imports Input Search Shop_Data Database
begin

text \<open>
  \<open>src/src/menus.cpp\<close>: menus, the selection list, the drop-down and the settings menus of the
  program.  A \<open>submenu\<close> item holds its menu (the code holds a pointer to a global menu; the menus
  form a tree), and the value items hold the name of the variable that the code points to.
\<close>

subsection \<open>Menus as data\<close>

datatype string_var = Var_shop_name | Var_shop_code | Var_shop_addres | Var_printer_device_file | Var_test_s
datatype int_var = Var_max_name_length | Var_nr_of_newlines | Var_test_i
datatype float_var = Var_test_f
datatype bool_var = Var_test_b
datatype action = Act_get_barcode_prefix | Act_test_function

datatype menu_item_data =
    Submenu menu
  | String_item string_var
  | Funct action
  | Int_item int_var
  | Float_item float_var
  | Bool_item bool_var
  | Exit_item "int_var option"
and menu_item = Menu_item (item_label: string) (item_data: menu_item_data) (item_color: int) (item_description: string)
and menu = Menu (menu_options: "menu_item list") (menu_name: string) (menu_centered: bool)

fun get_string_var :: "string_var \<Rightarrow> ('db, 'z) app_scheme \<Rightarrow> string" where
  "get_string_var Var_shop_name w = shop_name w"
| "get_string_var Var_shop_code w = shop_code w"
| "get_string_var Var_shop_addres w = shop_addres w"
| "get_string_var Var_printer_device_file w = printer_device_file w"
| "get_string_var Var_test_s w = test_s w"

fun set_string_var :: "string_var \<Rightarrow> string \<Rightarrow> ('db, 'z) app_scheme \<Rightarrow> ('db, 'z) app_scheme" where
  "set_string_var Var_shop_name s w = w\<lparr>shop_name := s\<rparr>"
| "set_string_var Var_shop_code s w = w\<lparr>shop_code := s\<rparr>"
| "set_string_var Var_shop_addres s w = w\<lparr>shop_addres := s\<rparr>"
| "set_string_var Var_printer_device_file s w = w\<lparr>printer_device_file := s\<rparr>"
| "set_string_var Var_test_s s w = w\<lparr>test_s := s\<rparr>"

fun get_int_var :: "int_var \<Rightarrow> ('db, 'z) app_scheme \<Rightarrow> int" where
  "get_int_var Var_max_name_length w = max_name_length w"
| "get_int_var Var_nr_of_newlines w = nr_of_newlines w"
| "get_int_var Var_test_i w = test_i w"

fun set_int_var :: "int_var \<Rightarrow> int \<Rightarrow> ('db, 'z) app_scheme \<Rightarrow> ('db, 'z) app_scheme" where
  "set_int_var Var_max_name_length n w = w\<lparr>max_name_length := n\<rparr>"
| "set_int_var Var_nr_of_newlines n w = w\<lparr>nr_of_newlines := n\<rparr>"
| "set_int_var Var_test_i n w = w\<lparr>test_i := n\<rparr>"

subsection \<open>The menus of the program\<close>

definition submenu_menu :: menu where
  "submenu_menu = Menu [Menu_item ''exit'' (Exit_item (Some Var_test_i)) white_pair []] [] False"

definition basic_menu :: menu where
  "basic_menu = Menu
     [Menu_item ''function'' (Funct Act_test_function) white_pair [],
      Menu_item ''submenu'' (Submenu submenu_menu) white_pair []]
     ''Basic menu functions'' False"

definition shop_settings :: menu where
  "shop_settings = Menu
     [Menu_item ''Name'' (String_item Var_shop_name) white_pair [],
      Menu_item ''Code'' (String_item Var_shop_code) white_pair [],
      Menu_item ''Addres'' (String_item Var_shop_addres) white_pair []]
     [] False"

definition printer_settings :: menu where
  "printer_settings = Menu
     [Menu_item ''Printer file location'' (String_item Var_printer_device_file) white_pair [],
      Menu_item ''Characters per line'' (Int_item Var_max_name_length) white_pair [],
      Menu_item ''Nr of newlines'' (Int_item Var_nr_of_newlines) white_pair text_newlines_description]
     [] False"

definition barcode_scanner :: menu where
  "barcode_scanner = Menu [Menu_item ''Barcode prefix'' (Funct Act_get_barcode_prefix) white_pair []] [] False"

definition peripherals :: menu where
  "peripherals = Menu
     [Menu_item ''Receipt printer'' (Submenu printer_settings) white_pair [],
      Menu_item ''Barcode scanner'' (Submenu barcode_scanner) white_pair []]
     [] False"

definition settings :: menu where
  "settings = Menu
     [Menu_item ''Shop'' (Submenu shop_settings) white_pair [],
      Menu_item ''Peripherals'' (Submenu peripherals) white_pair [],
      Menu_item ''Colorschem'' (Submenu submenu_menu) white_pair [],
      Menu_item ''Users'' (Submenu submenu_menu) white_pair []]
     [] False"

definition main_menu :: menu where
  "main_menu = Menu
     [Menu_item ''Products'' (Exit_item None) white_pair [],
      Menu_item ''Settings'' (Submenu settings) white_pair []]
     ''cli_pos'' True"

definition variables_menu :: menu where
  "variables_menu = Menu
     [Menu_item ''string'' (String_item Var_test_s) discount_pair [],
      Menu_item ''bool'' (Bool_item Var_test_b) money_pair [],
      Menu_item ''int'' (Int_item Var_test_i) UPC_pair [],
      Menu_item ''float'' (Float_item Var_test_f) QTY_pair []]
     ''Variables'' False"

definition menu_test :: menu where
  "menu_test = Menu
     [Menu_item ''Basic'' (Submenu basic_menu) white_pair [],
      Menu_item ''Variables'' (Submenu variables_menu) white_pair []]
     ''Testing menu'' True"

subsection \<open>Actions\<close>

definition get_barcode_prefix :: "(('db, 'z) app_scheme, unit) prog" where
  "get_barcode_prefix =
     sq (emits [Clear, Printw (text_please_scan @ [CHR 0x0A])])
     (bnd (gets barcode_prefix) (\<lambda>bp.
     sq (emit (Printw (text_current_prefix @ [key_char bp])))
     (bnd (get_string False [] white_pair 0) (\<lambda>s. case s of
         None \<Rightarrow> ret ()
       | Some v \<Rightarrow> modify (\<lambda>w. w\<lparr>barcode_prefix := schar (first_char v)\<rparr>)))))"

definition test_function :: "(('db, 'z) app_scheme, unit) prog" where
  "test_function = sq (emits [Clear, Printw (''Test function'' @ [CHR 0x0A])]) (sq getch (ret ()))"

fun run_action :: "action \<Rightarrow> (('db, 'z) app_scheme, unit) prog" where
  "run_action Act_get_barcode_prefix = get_barcode_prefix"
| "run_action Act_test_function = test_function"

subsection \<open>Drawing\<close>

text \<open>The longest of some strings, as the two maximum loops compute it.\<close>

definition max_length_of :: "string list \<Rightarrow> int" where
  "max_length_of ss = foldl (\<lambda>m s. if int (length s) > m then int (length s) else m) 0 ss"

definition max_menu_options_length :: "menu \<Rightarrow> int" where
  "max_menu_options_length m = max_length_of (map item_label (menu_options m))"

text \<open>
  \<open>int((n - s.length()) / 2)\<close>: the subtraction is unsigned, the quotient is converted to \<open>int\<close>.
\<close>

definition half_gap :: "int \<Rightarrow> string \<Rightarrow> int" where
  "half_gap n s = to_i32 (((n - int (length s)) mod 2 ^ 64) div 2)"

definition item_mark :: "menu_item_data \<Rightarrow> term_op" where
  "item_mark d = (case d of Submenu _ \<Rightarrow> Printw ''>'' | Funct _ \<Rightarrow> Acs ''LLCORNER'' | _ \<Rightarrow> Acs ''BULLET'')"

text \<open>The value that is shown next to an item.\<close>

definition item_value :: "menu_item_data \<Rightarrow> ('db, 'z) app_scheme \<Rightarrow> string option" where
  "item_value d w = (case d of
       String_item v \<Rightarrow> Some (c_str (get_string_var v w))
     | Bool_item v \<Rightarrow> Some (text_false_true ! (if test_b w then 1 else 0))
     | Int_item v \<Rightarrow> Some (int_to_string (get_int_var v w))
     | Float_item v \<Rightarrow> Some (fmt_fixed 3 (test_f w))
     | _ \<Rightarrow> None)"

definition draw_item ::
  "bool \<Rightarrow> int \<Rightarrow> int \<Rightarrow> int \<Rightarrow> int \<Rightarrow> int \<times> menu_item \<Rightarrow> (('db, 'z) app_scheme, unit) prog" where
  "draw_item centered initial_y initial_x space selection = (\<lambda>(i, it).
     bnd (gets term_cols) (\<lambda>cols.
     let padding = (if centered then half_gap cols (item_label it) else 0);
         current_y = initial_y + i + space * i;
         terminal_middle = cols div 2
     in
     sq (emit (Move current_y (initial_x + padding)))
     (sq (whn (\<not> centered) (emit (item_mark (item_data it))))
     (sq (emit (Attron (Color_pair (item_color it))))
     (sq (whn (i = selection) (emit (Attron A_reverse)))
     (sq (emit (Printw ('' '' @ item_label it)))
     (sq (whn (i = selection) (emit (Attroff A_reverse)))
     (sq (emit (Attroff (Color_pair (item_color it))))
     (bnd (gets (item_value (item_data it))) (\<lambda>v.
     sq (case v of None \<Rightarrow> ret () | Some s \<Rightarrow> emits [Move current_y terminal_middle, Printw s])
     (whn (length (item_description it) = 0)
        (emits [Move (current_y + 1) terminal_middle, Printw (item_description it)]))))))))))))"

subsection \<open>Selection list and drop-down\<close>

text \<open>What the selection list does with a key: a new selection, or the value that is returned.\<close>

definition select_key :: "int \<Rightarrow> bool \<Rightarrow> int \<Rightarrow> int \<Rightarrow> int + int option" where
  "select_key options_size can_return_nullopt selection k =
     (if k = KEY_UP \<or> k = of_char (CHR ''k'') then Inl (if selection \<noteq> 0 then selection - 1 else selection)
      else if k = KEY_DOWN \<or> k = of_char (CHR ''j'') then Inl (if selection \<noteq> options_size - 1 then selection + 1 else selection)
      else if k = KEY_NL then Inr (Some selection)
      else if k = KEY_ESC \<and> can_return_nullopt then Inr None
      else Inl selection)"

definition selection_list ::
  "menu \<Rightarrow> int \<Rightarrow> bool \<Rightarrow> int \<Rightarrow> (('db, 'z) app_scheme, int option) prog" where
  "selection_list m selection can_return_nullopt space_in_betwen =
     bnd getyx (\<lambda>(initial_y, initial_x).
     while_keys (\<lambda>selection.
       sq (for_each (zip (map int [0..<length (menu_options m)]) (menu_options m))
             (draw_item (menu_centered m) initial_y initial_x space_in_betwen selection))
       (bnd getch (\<lambda>k. ret (select_key (int (length (menu_options m))) can_return_nullopt selection k))))
     selection)"

definition drop_key :: "int \<Rightarrow> bool \<Rightarrow> int \<Rightarrow> int \<Rightarrow> int + int option" where
  "drop_key options_size can_return_nullopt selection k =
     (if k = KEY_UP \<or> k = of_char (CHR ''k'') then Inl (if selection \<noteq> 0 then selection - 1 else options_size - 1)
      else if k = KEY_DOWN \<or> k = of_char (CHR ''j'') then Inl (if selection \<noteq> options_size - 1 then selection + 1 else 0)
      else if k = KEY_NL then Inr (Some selection)
      else if k = KEY_ESC \<and> can_return_nullopt then Inr None
      else Inl selection)"

text \<open>
  The padding of \<open>dropdown\<close> is bounded by the difference of an \<open>int\<close> and an unsigned length; no
  option is longer than the maximum.
\<close>

definition dropdown ::
  "string list \<Rightarrow> int list \<Rightarrow> bool \<Rightarrow> int \<Rightarrow> (('db, 'z) app_scheme, int option) prog" where
  "dropdown options colors can_return_nullopt selection =
     (let max_length = max_length_of options; use_color = (colors \<noteq> []) in
      bnd getyx (\<lambda>(initial_y, initial_x).
      while_keys (\<lambda>selection.
        sq (emit (Move initial_y initial_x))
        (sq (whn use_color (bnd (vec_at colors selection) (\<lambda>c. emit (Attron (Color_pair c)))))
        (bnd (vec_at options selection) (\<lambda>opt.
        sq (emits (Printw (c_str opt) # replicate (nat ((max_length - int (length opt)) mod 2 ^ 64)) (Printw '' '')))
        (sq (whn use_color (bnd (vec_at colors selection) (\<lambda>c. emit (Attroff (Color_pair c)))))
        (bnd getch (\<lambda>k. ret (drop_key (int (length options)) can_return_nullopt selection k)))))))
      ) selection))"

subsection \<open>Running a menu\<close>

definition print_centered :: "string \<Rightarrow> (('db, 'z) app_scheme, unit) prog" where
  "print_centered s = bnd (gets term_cols) (\<lambda>max_x. bnd getyx (\<lambda>(initial_y, initial_x).
     emits [Move initial_y (half_gap max_x s), Printw (c_str s)]))"

text \<open>\<open>for (i ...) { if (i) printw("> "); printw("%s ", menu_labels[i]); }\<close>\<close>

definition print_labels :: "string list \<Rightarrow> term_op list" where
  "print_labels ls = concat (map (\<lambda>(i, l). (if i \<noteq> 0 then [Printw ''> ''] else []) @ [Printw (c_str l @ '' '')])
     (zip [0..<length ls] ls))"

text \<open>
  A round of \<open>run_menu\<close>.  \<open>handlers\<close> are the branches of the visitor, one per option: given the
  labels and the selected index they return the new value of \<open>exit\<close> and the labels.  The test of
  \<open>exit\<close> stands at the start of the loop in the code, after an initial \<open>false\<close>; here it ends the
  round that set it.
\<close>

type_synonym ('db, 'z) handler =
  "string list \<Rightarrow> int \<Rightarrow> (('db, 'z) app_scheme, bool \<times> string list) prog"

definition menu_round ::
  "menu \<Rightarrow> ('db, 'z) handler list \<Rightarrow> int \<times> string list \<Rightarrow> (('db, 'z) app_scheme, (int \<times> string list) + bool) prog" where
  "menu_round m handlers = (\<lambda>(selection, menu_labels).
     sq (emit Clear)
     (sq (if menu_centered m then print_centered (menu_name m)
          else sq (emits (print_labels menu_labels)) (emit (Move 2 0)))
     (bnd (selection_list m selection True 0) (\<lambda>outp. case outp of
         None \<Rightarrow> ret (Inr False)
       | Some sel \<Rightarrow> bnd (vec_at handlers sel) (\<lambda>h. bnd (h menu_labels sel) (\<lambda>(ex, menu_labels).
           ret (if ex then Inr True else Inl (sel, menu_labels))))))))"

text \<open>The branches of the visitor for the items that are not submenus.\<close>

definition edit_item :: "menu_item_data \<Rightarrow> int \<Rightarrow> (('db, 'z) app_scheme, bool) prog" where
  "edit_item d outp = bnd (gets (\<lambda>w. term_cols w div 2)) (\<lambda>terminal_middle. case d of
       Submenu m \<Rightarrow> ret False
     | Funct a \<Rightarrow> sq (run_action a) (ret False)
     | Bool_item v \<Rightarrow> sq (modify (\<lambda>w. w\<lparr>test_b := \<not> test_b w\<rparr>)) (ret False)
     | String_item v \<Rightarrow>
         sq (emit (Move (2 + outp) terminal_middle))
         (bnd (gets (get_string_var v)) (\<lambda>cur. bnd (get_string True cur white_pair 0) (\<lambda>str. case str of
             None \<Rightarrow> ret False
           | Some s \<Rightarrow> sq (modify (set_string_var v s)) (ret False))))
     | Int_item v \<Rightarrow>
         sq (emit (Move (2 + outp) terminal_middle))
         (bnd (gets (get_int_var v)) (\<lambda>cur. bnd (get_string True (int_to_string cur) white_pair 0) (\<lambda>str. case str of
             None \<Rightarrow> ret False
           | Some s \<Rightarrow> bnd (lift_exn (stoi (remove_non_nr s))) (\<lambda>n.
               sq (whn (n \<noteq> 0) (modify (set_int_var v n))) (ret False)))))
     | Float_item v \<Rightarrow>
         sq (emit (Move (2 + outp) terminal_middle))
         (bnd (gets test_f) (\<lambda>cur. bnd (get_string True (double_to_string cur) white_pair 0) (\<lambda>str. case str of
             None \<Rightarrow> ret False
           | Some s \<Rightarrow> bnd (lift_exn (stof (remove_non_nr s))) (\<lambda>x.
               sq (whn (\<not> dbl_eq x dbl_zero) (modify (\<lambda>w. w\<lparr>test_f := x\<rparr>))) (ret False)))))
     | Exit_item v \<Rightarrow> ret True)"

text \<open>
  \<open>menu_labels.erase(menu_labels.end())\<close> has undefined behaviour (the past-the-end iterator cannot
  be erased); \<open>erase_end\<close> is the vector that the library's implementation leaves.
\<close>

primrec run_menu ::
    "(string list \<Rightarrow> string list) \<Rightarrow> menu \<Rightarrow> string list \<Rightarrow> (('db, 'z) app_scheme, bool) prog"
  and run_item :: "(string list \<Rightarrow> string list) \<Rightarrow> menu_item \<Rightarrow> ('db, 'z) handler"
  and run_data :: "(string list \<Rightarrow> string list) \<Rightarrow> menu_item_data \<Rightarrow> string \<Rightarrow> ('db, 'z) handler" where
  "run_menu erase_end (Menu options name centered) = (\<lambda>menu_labels.
     while_keys (menu_round (Menu options name centered) (map (run_item erase_end) options)) (0, menu_labels))"
| "run_item erase_end (Menu_item label data color descr) = run_data erase_end data label"
| "run_data erase_end (Submenu m) = (\<lambda>label menu_labels outp.
     bnd (run_menu erase_end m (menu_labels @ [label])) (\<lambda>ex.
       ret (ex, erase_end (menu_labels @ [label]))))"
| "run_data erase_end (String_item v) = (\<lambda>label ls outp. bnd (edit_item (String_item v) outp) (\<lambda>ex. ret (ex, ls)))"
| "run_data erase_end (Funct a) = (\<lambda>label ls outp. bnd (edit_item (Funct a) outp) (\<lambda>ex. ret (ex, ls)))"
| "run_data erase_end (Int_item v) = (\<lambda>label ls outp. bnd (edit_item (Int_item v) outp) (\<lambda>ex. ret (ex, ls)))"
| "run_data erase_end (Float_item v) = (\<lambda>label ls outp. bnd (edit_item (Float_item v) outp) (\<lambda>ex. ret (ex, ls)))"
| "run_data erase_end (Bool_item v) = (\<lambda>label ls outp. bnd (edit_item (Bool_item v) outp) (\<lambda>ex. ret (ex, ls)))"
| "run_data erase_end (Exit_item v) = (\<lambda>label ls outp. bnd (edit_item (Exit_item v) outp) (\<lambda>ex. ret (ex, ls)))"

definition test_menu :: "(string list \<Rightarrow> string list) \<Rightarrow> (('db, 'z) app_scheme, unit) prog" where
  "test_menu erase_end = sq (emit Clear) (sq (run_menu erase_end main_menu [[]]) (ret ()))"

definition start_main_menu :: "(string list \<Rightarrow> string list) \<Rightarrow> (('db, 'z) app_scheme, unit) prog" where
  "start_main_menu erase_end = sq (run_menu erase_end main_menu [[]]) (ret ())"

end
