(* ===== verification/Drawing.thy ===== *)
theory Drawing
  imports Menus
begin

text \<open>
  The drawing functions of \<open>src/src/main.cpp\<close> (the file \<open>drawing_functions.cpp\<close> holds an older
  copy of them): messages, the product table and the colours.
\<close>

subsection \<open>Loops that print the same text\<close>

text \<open>A \<open>for\<close> loop that prints a text while an \<open>int\<close> counter is below an \<open>int\<close> bound.\<close>

definition print_times :: "int \<Rightarrow> string \<Rightarrow> ('z console_scheme, unit) prog" where
  "print_times n s = emits (replicate (nat n) (Printw s))"

text \<open>
  The same with a bound of type \<open>size_t\<close>.  A difference that is negative wraps around to a value
  above the largest \<open>int\<close>, and the counter overflows, which is undefined.
\<close>

definition print_times_u :: "int \<Rightarrow> string \<Rightarrow> ('z console_scheme, unit) prog" where
  "print_times_u n s = (let b = n mod 2 ^ 64 in
     if b < 2 ^ 31 then emits (replicate (nat b) (Printw s))
     else stop_with (Undefined Integer_overflow))"

text \<open>Conversion of a double argument to \<open>long int\<close>.\<close>

definition to_long :: "double \<Rightarrow> ('w, int) prog" where
  "to_long x = (case dbl_trunc 64 x of Some n \<Rightarrow> ret n | None \<Rightarrow> stop_with (Undefined Integer_overflow))"

subsection \<open>Messages\<close>

definition print_product :: "product \<Rightarrow> (('db, 'z) app_scheme, unit) prog" where
  "print_product p = emits
     [Printw (''NAME = '' @ c_str (p_name p) @ [CHR 0x0A]),
      Printw (''CODE = '' @ int_to_string (p_code p) @ [CHR 0x0A]),
      Printw (''PRICE = '' @ fmt_fixed 6 (p_price p) @ [CHR 0x0A]),
      Printw (''DISCOUNT = '' @ int_to_string (p_discount p) @ [CHR 0x0A]),
      Printw (''TAX = '' @ [p_tax p] @ [CHR 0x0A]),
      Printw (''STOCK = '' @ fmt_fixed 6 (p_stock p) @ [CHR 0x0A]),
      Printw (''PRICE TO STOCK = '' @ fmt_fixed 6 (p_price_to_stock p) @ [CHR 0x0A]),
      Printw (''SOLD BY = '' @ int_to_string (mesurments_int (p_sold_by p)) @ [CHR 0x0A])]"

definition to_message_line :: "(('db, 'z) app_scheme, unit) prog" where
  "to_message_line = bnd (gets (\<lambda>w. Move (LINES w - message_dist_from_bottom w) (message_x w))) emit"

definition clear_messages :: "(('db, 'z) app_scheme, unit) prog" where
  "clear_messages =
     sq to_message_line
     (bnd (gets ROWS) (\<lambda>rows.
     sq (for_each [0..<2::nat] (\<lambda>i. sq (print_times rows '' '') (emit (Printw [CHR 0x0A]))))
     to_message_line))"

subsection \<open>The product table\<close>

definition print_table_head_section :: "string \<Rightarrow> int \<Rightarrow> int \<Rightarrow> (('db, 'z) app_scheme, unit) prog" where
  "print_table_head_section name0 content_size color =
     (let name = (if length name0 mod 2 = 1 \<and> c_rem content_size 2 \<noteq> 1 then name0 @ '' '' else name0) in
      sq (emit (Printw ''|''))
      (sq (print_times (half_gap content_size name) '' '')
      (bnd (gets monochrome_mode) (\<lambda>mono.
      sq (if \<not> mono then emits [Attron (Color_pair color), Printw name, Attroff (Color_pair color)]
          else emit (Printw name))
      (print_times (half_gap content_size name) '' '')))))"

definition nr_length :: "int \<Rightarrow> bool \<Rightarrow> (('db, 'z) app_scheme, int) prog" where
  "nr_length number is_float = (if is_float
     then gets (\<lambda>w. int (length (int_to_string number)) + nr_decimal_points w + 1)
     else ret (int (length (int_to_string number))))"

text \<open>The thirteen flags of \<open>draw_product_list\<close>.\<close>

record columns =
  print_name :: bool
  print_code :: bool
  print_price :: bool
  print_discount :: bool
  print_price_after_discount :: bool
  print_tax :: bool
  print_qty :: bool
  print_stock :: bool
  print_profit :: bool
  print_price_to_stock :: bool
  print_sold_by :: bool
  print_total :: bool

definition table_width :: "columns \<Rightarrow> ('db, 'z) app_scheme \<Rightarrow> int" where
  "table_width c w =
     (if print_name c then max_name_length w + 1 else 0)
     + (if print_code c then max_code_length w + 1 else 0)
     + (if print_price c then max_price_length w + 1 else 0)
     + (if print_discount c then 3 + 1 else 0)
     + (if print_price_after_discount c then max_price_length w + 1 else 0)
     + (if print_tax c then 3 + 1 else 0)
     + (if print_qty c then max_product_quanity_length w + 1 else 0)
     + (if print_stock c then max_product_quanity_length w + 1 else 0)
     + (if print_profit c then max_price_length w + 1 else 0)
     + (if print_price_to_stock c then max_price_length w + 1 else 0)
     + (if print_sold_by c then max_sold_by_name_length w + 1 else 0)
     + 1"

text \<open>\<open>int((table_width / 2.0) - (title.length() / 2.0))\<close>\<close>

definition head_padding :: "int \<Rightarrow> string \<Rightarrow> int option" where
  "head_padding width title = dbl_trunc 32
     (dbl_sub (dbl_div (dbl_of_int width) (dbl_of_int 2)) (dbl_div (dbl_of_int (int (length title))) (dbl_of_int 2)))"

definition draw_title :: "int \<Rightarrow> (('db, 'z) app_scheme, unit) prog" where
  "draw_title width = bnd (gets current_tab) (\<lambda>tab. bnd (vec_at text_tabs tab) (\<lambda>title.
     case head_padding width title of
       None \<Rightarrow> stop_with (Undefined Integer_overflow)
     | Some pad \<Rightarrow>
         sq (print_times pad ''-'')
         (sq (emit (Printw title))
         (sq (print_times pad ''-'')
         (sq (whn (c_rem width 2 \<noteq> 0) (emit (Printw ''-''))) (emit (Printw [CHR 0x0A])))))))"

definition draw_head :: "columns \<Rightarrow> (('db, 'z) app_scheme, unit) prog" where
  "draw_head c = bnd (gets (\<lambda>w. w)) (\<lambda>w.
     sq (whn (print_name c) (print_table_head_section ''NAME'' (max_name_length w) white_pair))
     (sq (whn (print_code c) (print_table_head_section ''UPC'' (max_code_length w) UPC_pair))
     (sq (whn (print_price c) (print_table_head_section ''PRICE'' (max_price_length w) money_pair))
     (sq (whn (print_discount c) (print_table_head_section ''DIS'' 3 discount_pair))
     (sq (whn (print_price_after_discount c) (print_table_head_section ''PAD'' (max_price_length w) discount_pair))
     (sq (whn (print_tax c) (print_table_head_section ''TAX'' 3 tax_pair))
     (sq (whn (print_qty c) (print_table_head_section ''QTY'' (max_product_quanity_length w) QTY_pair))
     (sq (whn (print_stock c) (print_table_head_section ''STOCK'' (max_product_quanity_length w) stock_pair))
     (sq (whn (print_profit c) (print_table_head_section ''PROFIT'' (max_price_length w) profit_pair))
     (sq (whn (print_price_to_stock c) (print_table_head_section ''PTS'' (max_price_length w) pts_pair))
     (sq (whn (print_sold_by c) (print_table_head_section ''SOLD BY'' (max_sold_by_name_length w) white_pair))
     (emit (Printw (''|'' @ [CHR 0x0A]))))))))))))))"

text \<open>A cell with an amount: \<open>%.2f\<close>, padded by the length of its integral part.\<close>

definition amount_cell :: "double \<Rightarrow> int \<Rightarrow> (('db, 'z) app_scheme, unit) prog" where
  "amount_cell x width =
     sq (emit (Printw (fmt_fixed 2 x)))
     (bnd (to_long x) (\<lambda>n. bnd (nr_length n True) (\<lambda>l.
     sq (print_times (width - l) '' '') (emit (Printw ''|'')))))"

definition int_cell :: "int \<Rightarrow> int \<Rightarrow> (('db, 'z) app_scheme, unit) prog" where
  "int_cell n width =
     sq (emit (Printw (int_to_string n)))
     (bnd (nr_length n False) (\<lambda>l. sq (print_times (width - l) '' '') (emit (Printw ''|''))))"

definition text_cell :: "string \<Rightarrow> int \<Rightarrow> (('db, 'z) app_scheme, unit) prog" where
  "text_cell s width =
     sq (emit (Printw (c_str s)))
     (sq (print_times_u (width - int (length s)) '' '') (emit (Printw ''|'')))"

text \<open>
  The quantity cell: the loop looks the product up in the basket; after it the code reads
  \<open>basket[z]\<close>, which is out of range when no entry was found.
\<close>

definition find_in_basket :: "int \<Rightarrow> basket_product list \<Rightarrow> nat" where
  "find_in_basket code bs = length (takeWhile (\<lambda>b. b_code b \<noteq> code) bs)"

definition qty_cell :: "int \<Rightarrow> int \<Rightarrow> (('db, 'z) app_scheme, unit) prog" where
  "qty_cell code width = bnd (gets basket) (\<lambda>bs.
     let z = find_in_basket code bs in
     sq (whn (z < length bs) (emit (Printw (fmt_fixed 2 (b_quantity (bs ! z))))))
     (bnd (vec_at bs (int z)) (\<lambda>b. bnd (to_long (b_quantity b)) (\<lambda>n. bnd (nr_length n True) (\<lambda>l.
     sq (print_times (width - l) '' '') (emit (Printw ''|'')))))))"

definition sold_by_text :: "mesurments \<Rightarrow> string" where
  "sold_by_text m = text_sold_by ! nat (mesurments_int m)"

definition draw_row :: "columns \<Rightarrow> product \<Rightarrow> (('db, 'z) app_scheme, unit) prog" where
  "draw_row c p = bnd (gets (\<lambda>w. w)) (\<lambda>w.
     sq (emit (Printw ''|''))
     (sq (whn (print_name c) (text_cell (p_name p) (max_name_length w)))
     (sq (whn (print_code c) (int_cell (p_code p) (max_code_length w)))
     (sq (whn (print_price c) (amount_cell (p_price p) (max_price_length w)))
     (sq (whn (print_discount c) (int_cell (p_discount p) 3))
     (sq (whn (print_price_after_discount c) (amount_cell (p_price_after_discount p) (max_price_length w)))
     (sq (whn (print_tax c) (emit (Printw ('' '' @ [p_tax p] @ '' |''))))
     (sq (whn (print_qty c) (qty_cell (p_code p) (max_product_quanity_length w)))
     (sq (whn (print_stock c) (amount_cell (p_stock p) (max_product_quanity_length w)))
     (sq (whn (print_profit c) (amount_cell (p_profit p) (max_price_length w)))
     (sq (whn (print_price_to_stock c) (amount_cell (p_price_to_stock p) (max_price_length w)))
     (sq (whn (print_sold_by c) (text_cell (sold_by_text (p_sold_by p)) (max_sold_by_name_length w)))
     (emit (Printw [CHR 0x0A]))))))))))))))"

definition draw_total :: "int \<Rightarrow> double \<Rightarrow> (('db, 'z) app_scheme, unit) prog" where
  "draw_total width amount =
     sq (emit (Printw ''|TOTAL''))
     (bnd (to_long amount) (\<lambda>n. bnd (nr_length n True) (\<lambda>l.
     sq (print_times_u (width - 3 - (int (length ''TOTAL'') + l)) '' '')
     (sq (emits [Printw (fmt_fixed 2 amount), Printw ('' |'' @ [CHR 0x0A])])
     (print_times width ''-'')))))"

definition draw_product_list ::
  "'db libpq \<Rightarrow> nat \<Rightarrow> int list \<Rightarrow> int \<Rightarrow> columns \<Rightarrow> double \<Rightarrow> (('db, 'z) app_scheme, unit) prog" where
  "draw_product_list pq t codes selection c amount =
     bnd (gets (table_width c)) (\<lambda>width.
     sq (draw_title width)
     (sq (draw_head c)
     (sq (print_times width ''-'')
     (sq (emit (Printw [CHR 0x0A]))
     (sq (for_each (zip (map int [0..<length codes]) codes) (\<lambda>(i, code).
            bnd (get_product_data pq t code) (\<lambda>p.
            sq (whn (i = selection) (emit (Attron (Color_pair selection_pair))))
            (sq (draw_row c p)
            (sq (whn (i = selection) (emit (Attroff (Color_pair selection_pair))))
            (sq (print_times width ''-'') (emit (Printw [CHR 0x0A]))))))))
     (whn (print_total c) (draw_total width amount)))))))"

subsection \<open>Colours\<close>

text \<open>
  \<open>int((x / 255.0) * 1000.0)\<close>; the green part is rounded to a \<open>float\<close> before it is converted to
  the \<open>short\<close> parameter of \<open>init_color\<close>.
\<close>

definition color_scale :: "int \<Rightarrow> double" where
  "color_scale x = dbl_mul (dbl_div (dbl_of_int x) (dbl_of_int 255)) (dbl_of_int 1000)"

fun to_flt :: "double \<Rightarrow> double" where
  "to_flt (Fin s m e) = flt_round_frac s (fnum s m e) (fden e)"
| "to_flt x = x"

definition make_color :: "int \<Rightarrow> int \<Rightarrow> int \<Rightarrow> int \<Rightarrow> ('z console_scheme, unit) prog" where
  "make_color color red green blue =
     (case (dbl_trunc 16 (color_scale red), dbl_trunc 16 (to_flt (color_scale green)), dbl_trunc 16 (color_scale blue)) of
        (Some r, Some g, Some b) \<Rightarrow> emit (Init_color color r g b)
      | _ \<Rightarrow> stop_with (Undefined Integer_overflow))"

definition init_colors :: "('z console_scheme, unit) prog" where
  "init_colors =
     sq (emits [Init_pair white_pair 7 0, Init_pair money_pair 2 0, Init_pair UPC_pair 3 0,
                Init_pair QTY_pair 6 0, Init_pair discount_pair 1 0])
     (sq (make_color COLOR_ORANGE 240 107 12)
     (sq (emit (Init_pair tax_pair COLOR_ORANGE 0))
     (sq (make_color COLOR_PRICE 109 245 91)
     (sq (emits [Init_pair profit_pair COLOR_PRICE 0, Init_pair pts_pair 5 0])
     (sq (make_color COLOR_STOCK 133 26 7)
     (sq (emit (Init_pair stock_pair COLOR_STOCK 0))
     (sq (make_color COLOR_REAL_BLACK 0 0 0)
     (emits [Init_pair black_pair COLOR_REAL_BLACK 0, Init_pair selection_pair 0 7]))))))))"

end
