(* ===== verification/Basket.thy ===== *)
theory Basket
  imports Drawing
begin

text \<open>
  The basket and the receipt of \<open>src/src/main.cpp\<close>.
\<close>

subsection \<open>Adding a product\<close>

text \<open>
  The flag \<open>product_already_in_basket\<close> is not initialised; the parameter \<open>junk\<close> is the value it
  happens to have when the loop has no round.  The loop stops at the first entry with the code.
\<close>

fun add_loop :: "int \<Rightarrow> double \<Rightarrow> bool \<Rightarrow> basket_product list \<Rightarrow> bool \<times> basket_product list" where
  "add_loop code quantity flag [] = (flag, [])"
| "add_loop code quantity flag (b # bs) =
     (if b_code b = code then (True, b\<lparr>b_quantity := dbl_add (b_quantity b) quantity\<rparr> # bs)
      else let (flag', bs') = add_loop code quantity False bs in (flag', b # bs'))"

definition add_to_basket :: "bool \<Rightarrow> int \<Rightarrow> double \<Rightarrow> basket_product list \<Rightarrow> basket_product list" where
  "add_to_basket junk code quantity bs =
     (let (product_already_in_basket, bs') = add_loop code quantity junk bs in
      if \<not> product_already_in_basket then bs' @ [\<lparr>b_code = code, b_quantity = quantity\<rparr>] else bs')"

definition add_product_to_basket :: "bool \<Rightarrow> product \<Rightarrow> double \<Rightarrow> (('db, 'z) app_scheme, unit) prog" where
  "add_product_to_basket junk p quantity =
     modify (\<lambda>w. w\<lparr>basket := add_to_basket junk (p_code p) quantity (basket w)\<rparr>)"

subsection \<open>The receipt\<close>

definition append_nr :: "int \<Rightarrow> string \<Rightarrow> string" where
  "append_nr i str = concat (replicate (nat i) str)"

text \<open>
  The literals keep the code's bytes.  The last one, \<open>"\x1b\x40\x1b\x61\x00"\<close>, is appended as a C
  string, so its final NUL is not part of the data.
\<close>

definition receipt_head :: "('db, 'z) app_scheme \<Rightarrow> string" where
  "receipt_head w = [CHR 0x1B, CHR 0x40]
     @ [CHR 0x1B, CHR 0x61, CHR 0x01] @ shop_name w @ [CHR 0x0A]
     @ shop_addres w @ [CHR 0x0A]
     @ ''CUI: '' @ shop_code w @ [CHR 0x0A, CHR 0x0A, CHR 0x0A]
     @ c_str [CHR 0x1B, CHR 0x40, CHR 0x1B, CHR 0x61, CHR 0x00]
     @ append_nr (max_name_length w + 1) ''-'' @ [CHR 0x0A]"

definition receipt_sum :: "product \<Rightarrow> double \<Rightarrow> string" where
  "receipt_sum p quantity = fmt_fixed 2 (p_price p) @ '' x '' @ fmt_fixed 3 quantity @ '' ''
     @ sold_by_text (p_sold_by p) @ '' = '' @ fmt_fixed 2 (dbl_mul (p_price p) quantity)"

text \<open>
  The two paddings subtract an \<open>int\<close> and a length in unsigned arithmetic and convert the result to
  the \<open>int\<close> parameter of \<open>append_nr\<close>.
\<close>

definition receipt_line :: "('db, 'z) app_scheme \<Rightarrow> product \<Rightarrow> double \<Rightarrow> string" where
  "receipt_line w p quantity =
     p_name p
     @ append_nr (to_i32 ((int (length (p_name p)) - max_name_length w) mod 2 ^ 64)) '' '' @ [CHR 0x0A]
     @ ''  '' @ receipt_sum p quantity
     @ append_nr (to_i32 ((max_name_length w - (4 + int (length (receipt_sum p quantity)))) mod 2 ^ 64)) '' ''
     @ [p_tax p] @ [CHR 0x0A]
     @ (if p_discount p \<noteq> 0
        then ''DISCOUNT'' @ '' '' @ int_to_string (p_discount p) @ ''%: -''
             @ fmt_fixed 2 (dbl_mul (dbl_mul (dbl_div (p_price p) (dbl_of_int 100)) (dbl_of_int (p_discount p))) quantity)
             @ [CHR 0x0A]
        else [])
     @ append_nr (max_name_length w + 1) ''-'' @ [CHR 0x0A]"

definition receipt_foot :: "('db, 'z) app_scheme \<Rightarrow> string" where
  "receipt_foot w = [CHR 0x1B, CHR 0x21, CHR 0x20] @ ''TOTAL: '' @ fmt_fixed 2 (total w) @ [CHR 0x0A]
     @ [CHR 0x1B, CHR 0x40] @ append_nr (nr_of_newlines w) [CHR 0x0A]"

text \<open>The file name is a literal: the setting \<open>printer_device_file\<close> is not used.\<close>

definition open_printer :: "(('db, 'z) app_scheme, bool) prog" where
  "open_printer = (\<lambda>w. case opens w of [] \<Rightarrow> (Inr False, w) | b # bs \<Rightarrow> (Inr b, w\<lparr>opens := bs\<rparr>))"

definition message_and_wait :: "string \<Rightarrow> (('db, 'z) app_scheme, unit) prog" where
  "message_and_wait s = sq clear_messages (sq (emit (Printw s)) (sq getch (ret ())))"

text \<open>One printing; the code calls itself again when the user asks for another copy.\<close>

definition receipt_round :: "'db libpq \<Rightarrow> nat \<Rightarrow> unit \<Rightarrow> (('db, 'z) app_scheme, unit + bool) prog" where
  "receipt_round pq t = (\<lambda>_. bnd (gets basket) (\<lambda>bs.
     if length bs = 0 then sq (message_and_wait text_no_items_in_basket) (ret (Inr False))
     else bnd open_printer (\<lambda>opened.
       if \<not> opened then sq (message_and_wait text_receipt_printing) (ret (Inr False))
       else bnd (gets receipt_head) (\<lambda>head.
         bnd (collect bs (\<lambda>b. bnd (get_product_data pq t (b_code b)) (\<lambda>p.
                gets (\<lambda>w. receipt_line w p (b_quantity b))))) (\<lambda>lines.
         bnd (gets receipt_foot) (\<lambda>foot.
         sq (modify (\<lambda>w. w\<lparr>printed := printed w @ [head @ concat lines @ foot]\<rparr>))
         (sq clear_messages
         (sq (emit (Printw text_reprint_receipt))
         (bnd getch (\<lambda>k. ret (if k = of_char (CHR ''y'') then Inl () else Inr True)))))))))))"

definition print_receipt :: "'db libpq \<Rightarrow> nat \<Rightarrow> (('db, 'z) app_scheme, bool) prog" where
  "print_receipt pq t = while_keys (receipt_round pq t) ()"

end
