(* ===== verification/Product_Form.thy ===== *)
theory Product_Form
  imports Drawing
begin

text \<open>
  The form of \<open>src/src/main.cpp\<close> that adds or modifies a product.
\<close>

definition product_label :: string where "product_label = ''Product''"

text \<open>
  \<open>add_modify_criteria\<close> calls itself when the text has a comma and takes \<open>.value()\<close> of the
  inner result, which throws when the inner edit was cancelled; the inner result is never empty.  So
  the recursion is a loop, whose variable \<open>nested\<close> says whether it runs in an inner call.
\<close>

definition criteria_round ::
  "string \<Rightarrow> string \<Rightarrow> int \<Rightarrow> int \<Rightarrow> bool \<Rightarrow> (('db, 'z) app_scheme, bool + string option) prog" where
  "criteria_round criteria placeholder color max_size = (\<lambda>nested.
     sq clear_messages
     (sq (emits [Printw (product_label @ '' ''), Attron (Color_pair color), Printw criteria,
                 Attroff (Color_pair color), Printw '': ''])
     (bnd (get_string True placeholder color (to_signed 16 max_size)) (\<lambda>auto_output. case auto_output of
         None \<Rightarrow> if nested then throw Bad_optional_access else ret (Inr None)
       | Some out0 \<Rightarrow>
           bnd (if int (length out0) > size_t_of max_size
                then let out1 = take (nat (size_t_of max_size)) out0 in
                     sq (emit (Printw (c_str out1))) (sq getch (ret out1))
                else ret out0) (\<lambda>outp.
           if CHR '','' \<in> set outp
           then sq clear_messages
             (sq (bnd (gets (\<lambda>w. Move (LINES w - message_section_lines w) (message_x w))) emit)
             (sq (emit (Printw (criteria @ '' '' @ text_no_commas)))
             (sq getch (ret (Inl True)))))
           else ret (Inr (Some (if outp = [] then ''1'' else outp))))))))"

definition add_modify_criteria ::
  "string \<Rightarrow> string \<Rightarrow> int \<Rightarrow> bool \<Rightarrow> int \<Rightarrow> (('db, 'z) app_scheme, string option) prog" where
  "add_modify_criteria criteria placeholder color modifying max_size =
     while_keys (criteria_round criteria (if \<not> modifying then [] else placeholder) color max_size) False"

text \<open>The choice of the unit: cyclic, ended by return or escape.\<close>

definition sold_by_key :: "int \<Rightarrow> int \<Rightarrow> int \<Rightarrow> int + int option" where
  "sold_by_key n selection k =
     (if k = KEY_UP \<or> k = of_char (CHR ''k'') then Inl (if selection \<noteq> 0 then selection - 1 else n - 1)
      else if k = KEY_DOWN \<or> k = of_char (CHR ''j'') then Inl (if selection < n - 1 then selection + 1 else 0)
      else if k = KEY_NL then Inr (Some selection)
      else if k = KEY_ESC then Inr None
      else Inl selection)"

definition choose_sold_by :: "mesurments \<Rightarrow> (('db, 'z) app_scheme, int option) prog" where
  "choose_sold_by m = while_keys (\<lambda>selection.
     sq clear_messages
     (sq (emit (Printw ''SOLD BY: ''))
     (bnd (vec_at text_sold_by selection) (\<lambda>s.
     sq (emit (Printw s))
     (bnd getch (\<lambda>k. bnd (gets nr_of_selling_options) (\<lambda>n. ret (sold_by_key n selection k)))))))) (mesurments_int m)"

text \<open>An \<open>optional\<close> that ends the function when it is empty.\<close>

definition or_return :: "('w, 'a option) prog \<Rightarrow> ('a \<Rightarrow> ('w, unit) prog) \<Rightarrow> ('w, unit) prog" where
  "or_return m f = bnd m (\<lambda>x. case x of None \<Rightarrow> ret () | Some a \<Rightarrow> f a)"

text \<open>The conversions after the form was filled in (lines 223 to 238).\<close>

definition form_product ::
  "product \<Rightarrow> string \<Rightarrow> string \<Rightarrow> string \<Rightarrow> string \<Rightarrow> string \<Rightarrow> string \<Rightarrow> string \<Rightarrow> int \<Rightarrow> ('w, product) prog" where
  "form_product cur name code price discount tax stock price_to_stock selection =
     bnd (lift_exn (stol (remove_non_nr code))) (\<lambda>code.
     bnd (lift_exn (stod (remove_non_nr price))) (\<lambda>price.
     bnd (lift_exn (stod (remove_non_nr discount))) (\<lambda>dis.
     bnd (case dbl_trunc 32 dis of Some n \<Rightarrow> ret n | None \<Rightarrow> stop_with (Undefined Integer_overflow)) (\<lambda>discount.
     bnd (lift_exn (stod (remove_non_nr stock))) (\<lambda>stock.
     bnd (lift_exn (stod (remove_non_nr price_to_stock))) (\<lambda>pts.
     ret (cur\<lparr>p_name := name, p_code := code, p_price := price, p_discount := discount,
              p_tax := first_char tax, p_stock := stock, p_price_to_stock := pts,
              p_profit := dbl_sub price pts, p_sold_by := to_mesurments selection\<rparr>)))))))"

definition add_modify_product ::
  "'db libpq \<Rightarrow> nat \<Rightarrow> int \<Rightarrow> bool \<Rightarrow> (('db, 'z) app_scheme, unit) prog" where
  "add_modify_product pq t product_code modifying =
     bnd (get_product_data pq t product_code) (\<lambda>cur.
     bnd (gets (\<lambda>w. w)) (\<lambda>w.
     or_return (add_modify_criteria ''NAME'' (p_name cur) 0 modifying (max_name_length w)) (\<lambda>name.
     or_return (add_modify_criteria ''UPC'' (int_to_string (p_code cur)) UPC_pair modifying (max_code_length w + 1)) (\<lambda>code.
     or_return (add_modify_criteria ''PRICE'' (double_to_string (p_price cur)) money_pair modifying (max_price_length w)) (\<lambda>price.
     or_return (add_modify_criteria ''DISCOUNT'' (int_to_string (p_discount cur)) discount_pair modifying 2) (\<lambda>discount.
     or_return (add_modify_criteria ''TAX'' [p_tax cur] tax_pair modifying 3) (\<lambda>tax.
     or_return (add_modify_criteria ''STOCK'' (double_to_string (p_stock cur)) stock_pair modifying (max_product_quanity_length w)) (\<lambda>stock.
     or_return (add_modify_criteria ''PTS'' (double_to_string (p_price_to_stock cur)) pts_pair modifying (max_price_length w)) (\<lambda>price_to_stock.
     or_return (choose_sold_by (p_sold_by cur)) (\<lambda>selection.
     bnd (form_product cur name code price discount tax stock price_to_stock selection) (\<lambda>p.
     sq (update_stock pq t p) (tx_commit pq t))))))))))))"

end
