(* ===== verification/Main_Loop.thy ===== *)
theory Main_Loop
  imports Basket Product_Form
begin

text \<open>
  The function \<open>main\<close> of \<open>src/src/main.cpp\<close>: the visible part of the product list, the handlers
  of the keys, each of them a definition of its own, and the main loop.
\<close>

text \<open>
  What the code does not determine: libpq and the server, the vector left by the erasure of a
  past-the-end iterator, and the values of the two variables that are read uninitialised.
\<close>

record ('db, 'z) env =
  e_pq :: "'db libpq"
  e_erase_end :: "string list \<Rightarrow> string list"
  e_junk :: "('db, 'z) app_scheme \<Rightarrow> bool"
  e_mid :: int

subsection \<open>The visible list\<close>

definition current_list_size :: "'db libpq \<Rightarrow> nat \<Rightarrow> (('db, 'z) app_scheme, int) prog" where
  "current_list_size pq t = bnd (gets current_tab) (\<lambda>tab.
     if tab = PRODUCTS then stock_size pq t
     else if tab = BASKET then gets (\<lambda>w. int (length (basket w)))
     else stock_size pq t)"

definition max_products_nr :: "('db, 'z) app_scheme \<Rightarrow> int" where
  "max_products_nr w = c_quot (LINES w - 3 - message_section_lines w) 2"

definition calculate_visible_product_list :: "'db libpq \<Rightarrow> nat \<Rightarrow> (('db, 'z) app_scheme, int list) prog" where
  "calculate_visible_product_list pq t =
     bnd (gets (\<lambda>w. max_products_nr w - (if current_tab w = BASKET then 1 else 0))) (\<lambda>max_nr.
     bnd (current_list_size pq t) (\<lambda>n.
     sq (if max_nr \<ge> n
         then bnd (current_list_size pq t) (\<lambda>n'. modify (\<lambda>w. w\<lparr>visible_end := n'\<rparr>))
         else modify (\<lambda>w. w\<lparr>visible_end := max_nr + visible_start w\<rparr>))
     (bnd (code_list pq t) (\<lambda>codes.
     bnd (gets (\<lambda>w. (current_tab w, [visible_start w..visible_end w - 1], basket w))) (\<lambda>(tab, indices, bs).
     if tab = PRODUCTS \<or> tab = STOCK then collect indices (vec_at codes)
     else if tab = BASKET then collect indices (\<lambda>i. bnd (vec_at bs i) (\<lambda>b. ret (b_code b)))
     else ret [])))))"

subsection \<open>What is computed and drawn before a key is read\<close>

fun stock_loop :: "'db libpq \<Rightarrow> nat \<Rightarrow> int \<Rightarrow> int list \<Rightarrow> (('db, 'z) app_scheme, unit) prog" where
  "stock_loop pq t i [] = bnd (stock_size pq t) (\<lambda>n.
     if i < n then stop_with (Undefined Index_out_of_range) else ret ())"
| "stock_loop pq t i (c # cs) = bnd (stock_size pq t) (\<lambda>n.
     if i < n then sq (get_product_data pq t c) (stock_loop pq t (i + 1) cs) else ret ())"

definition compute_total :: "'db libpq \<Rightarrow> nat \<Rightarrow> (('db, 'z) app_scheme, unit) prog" where
  "compute_total pq t =
     sq (modify (\<lambda>w. w\<lparr>total := dbl_zero\<rparr>))
     (bnd (gets basket) (\<lambda>bs. for_each bs (\<lambda>b.
        bnd (get_product_data pq t (b_code b)) (\<lambda>p.
        modify (\<lambda>w. w\<lparr>total := dbl_add (total w) (dbl_mul (p_price_after_discount p) (b_quantity b))\<rparr>)))))"

definition products_columns :: columns where
  "products_columns = \<lparr>print_name = True, print_code = True, print_price = True, print_discount = True,
     print_price_after_discount = False, print_tax = True, print_qty = False, print_stock = False,
     print_profit = False, print_price_to_stock = False, print_sold_by = False, print_total = False\<rparr>"

definition basket_columns :: columns where
  "basket_columns = \<lparr>print_name = True, print_code = True, print_price = True, print_discount = True,
     print_price_after_discount = True, print_tax = True, print_qty = True, print_stock = False,
     print_profit = False, print_price_to_stock = False, print_sold_by = True, print_total = True\<rparr>"

definition stock_columns :: columns where
  "stock_columns = \<lparr>print_name = True, print_code = True, print_price = True, print_discount = True,
     print_price_after_discount = False, print_tax = True, print_qty = False, print_stock = True,
     print_profit = True, print_price_to_stock = True, print_sold_by = True, print_total = False\<rparr>"

definition draw_tab :: "'db libpq \<Rightarrow> nat \<Rightarrow> int list \<Rightarrow> int \<Rightarrow> (('db, 'z) app_scheme, unit) prog" where
  "draw_tab pq t codes selection = bnd (gets current_tab) (\<lambda>tab.
     if tab = PRODUCTS then draw_product_list pq t codes selection products_columns (dbl_of_int 0)
     else if tab = BASKET then bnd (gets total) (\<lambda>x. draw_product_list pq t codes selection basket_columns x)
     else if tab = STOCK then draw_product_list pq t codes selection stock_columns (dbl_of_int 0)
     else ret ())"

text \<open>Lines 675 to 707: the transaction that reads everything for the screen.\<close>

definition refresh_screen ::
  "'db libpq \<Rightarrow> nat \<Rightarrow> int \<Rightarrow> (('db, 'z) app_scheme, int list \<times> int list \<times> int) prog" where
  "refresh_screen pq tx selection =
     bnd (code_list pq tx) (\<lambda>product_codes.
     bnd (calculate_visible_product_list pq tx) (\<lambda>lst.
     bnd (gets (\<lambda>w. visible_start w + selection)) (\<lambda>indexed_selection.
     sq (stock_loop pq tx 0 product_codes)
     (sq (compute_total pq tx)
     (sq (draw_tab pq tx lst selection)
     (sq (tx_commit pq tx) (ret (product_codes, lst, indexed_selection))))))))"

subsection \<open>Key handlers\<close>

text \<open>A handler runs when the global \<open>key\<close> has one of its values; otherwise the variables stay.\<close>

definition on_key :: "(int \<Rightarrow> bool) \<Rightarrow> 'v \<Rightarrow> (('db, 'z) app_scheme, 'v) prog \<Rightarrow> (('db, 'z) app_scheme, 'v) prog" where
  "on_key p v m = bnd (gets key) (\<lambda>k. if p k then m else ret v)"

definition read_key :: "(('db, 'z) app_scheme, unit) prog" where
  "read_key = bnd getch (\<lambda>k. modify (\<lambda>w. w\<lparr>key := k\<rparr>))"

abbreviation key_is :: "char \<Rightarrow> int \<Rightarrow> bool" where
  "key_is c k \<equiv> k = of_char c"

definition handle_quit :: "(('db, 'z) app_scheme, bool) prog" where
  "handle_quit = on_key (key_is (CHR ''q'')) False
     (bnd (gets basket) (\<lambda>bs. if bs \<noteq> []
        then sq to_message_line (sq (emit (Printw text_basket_not_empty)) (sq read_key
             (bnd (gets key) (\<lambda>k. if k = of_char (CHR ''y'') \<or> k = of_char (CHR ''Y'')
                then sq (emit Endwin) (ret True) else ret False))))
        else sq (emit Endwin) (ret True)))"

definition handle_escape :: "(string list \<Rightarrow> string list) \<Rightarrow> (('db, 'z) app_scheme, unit) prog" where
  "handle_escape erase_end = on_key (\<lambda>k. k = KEY_ESC) () (start_main_menu erase_end)"

text \<open>Removing from the basket: one less of the product, and the entry goes when it reaches zero.\<close>

definition remove_at :: "nat \<Rightarrow> 'a list \<Rightarrow> 'a list" where
  "remove_at i xs = take i xs @ drop (Suc i) xs"

definition remove_one :: "int \<Rightarrow> basket_product list \<Rightarrow> undefined_op + basket_product list" where
  "remove_one code bs =
     (let i = find_in_basket code bs;
          bs' = (if i < length bs
                 then bs[i := (bs ! i)\<lparr>b_quantity := dbl_sub (b_quantity (bs ! i)) (dbl_of_int 1)\<rparr>] else bs)
      in if i < length bs'
         then Inr (if dbl_eq (b_quantity (bs' ! i)) (dbl_of_int 0) then remove_at i bs' else bs')
         else Inl Index_out_of_range)"

definition remove_from_basket :: "int list \<Rightarrow> int \<Rightarrow> (('db, 'z) app_scheme, unit) prog" where
  "remove_from_basket lst selection =
     bnd (vec_at lst selection) (\<lambda>code. bnd (gets (\<lambda>w. remove_one code (basket w))) (\<lambda>r.
       case r of Inl u \<Rightarrow> stop_with (Undefined u) | Inr bs \<Rightarrow> modify (\<lambda>w. w\<lparr>basket := bs\<rparr>)))"

text \<open>
  The condition \<open>a < current_list_size(tx2) <= current_list_size(tx2)\<close> compares a truth value with
  the second size.
\<close>

definition shift_window :: "'db libpq \<Rightarrow> (('db, 'z) app_scheme, unit) prog" where
  "shift_window pq = with_work pq (\<lambda>tx2.
     bnd (gets max_products_nr) (\<lambda>a. bnd (current_list_size pq tx2) (\<lambda>n. bnd (current_list_size pq tx2) (\<lambda>n'.
     whn ((if a < n then 1 else 0) \<le> n')
       (modify (\<lambda>w. w\<lparr>visible_start := visible_start w - 1, visible_end := visible_end w - 1\<rparr>))))))"

definition handle_remove :: "'db libpq \<Rightarrow> int list \<Rightarrow> int \<Rightarrow> (('db, 'z) app_scheme, int) prog" where
  "handle_remove pq lst selection = on_key (key_is (CHR ''R'')) selection
     (with_work pq (\<lambda>tx_remove. bnd (current_list_size pq tx_remove) (\<lambda>n.
        if n \<noteq> 0
        then sq (tx_commit pq tx_remove)
          (bnd (gets visible_end) (\<lambda>e.
          bnd (if selection = e then sq (shift_window pq) (ret (selection - 1)) else ret selection) (\<lambda>selection.
          bnd (gets current_tab) (\<lambda>tab.
          sq (if tab = PRODUCTS \<or> tab = STOCK
              then with_work pq (\<lambda>tx3. bnd (vec_at lst selection) (\<lambda>c. sq (erase pq tx3 c) (tx_commit pq tx3)))
              else if tab = BASKET then remove_from_basket lst selection
              else ret ())
             (ret selection)))))
        else ret selection)))"

definition handle_add :: "'db libpq \<Rightarrow> int list \<Rightarrow> int \<Rightarrow> (('db, 'z) app_scheme, unit) prog" where
  "handle_add pq lst selection = on_key (key_is (CHR ''a'')) ()
     (bnd (gets current_tab) (\<lambda>tab. whn (tab = PRODUCTS \<or> tab = STOCK)
        (with_work pq (\<lambda>tx4. bnd (stock_size pq tx4) (\<lambda>n.
           sq (if n > 0
               then bnd (vec_at lst selection) (\<lambda>c. add_modify_product pq tx4 c False)
               else bnd (vec_at lst selection) (\<lambda>c. add_modify_product pq tx4 c False))
              (tx_commit pq tx4))))))"

text \<open>The reset of the selection to the start of the list.\<close>

definition reset_selection :: "(('db, 'z) app_scheme, int \<times> int) prog" where
  "reset_selection = sq (modify (\<lambda>w. w\<lparr>visible_start := 0\<rparr>)) (ret (0, 0))"

definition handle_tab :: "'db libpq \<Rightarrow> int \<times> int \<Rightarrow> (('db, 'z) app_scheme, int \<times> int) prog" where
  "handle_tab pq v = on_key (\<lambda>k. k = KEY_TAB) v
     (sq (modify (\<lambda>w. if current_tab w = BASKET then w\<lparr>current_tab := PRODUCTS\<rparr>
                      else if current_tab w = PRODUCTS then w\<lparr>current_tab := current_tab w + 1\<rparr>
                      else if current_tab w = STOCK then w\<lparr>current_tab := PRODUCTS\<rparr> else w))
     (with_work pq (\<lambda>txn. bnd (current_list_size pq txn) (\<lambda>n.
        bnd (if fst v \<ge> n then reset_selection else ret v) (\<lambda>v. sq (tx_commit pq txn) (ret v))))))"

definition handle_stock :: "(('db, 'z) app_scheme, unit) prog" where
  "handle_stock = on_key (key_is (CHR ''r'')) () (modify (\<lambda>w. w\<lparr>current_tab := STOCK\<rparr>))"

definition handle_modify :: "'db libpq \<Rightarrow> int list \<Rightarrow> int \<Rightarrow> (('db, 'z) app_scheme, unit) prog" where
  "handle_modify pq lst selection = on_key (key_is (CHR ''m'')) ()
     (with_work pq (\<lambda>tx6. bnd (current_list_size pq tx6) (\<lambda>n.
        sq (if n \<noteq> 0 then bnd (vec_at lst selection) (\<lambda>c. add_modify_product pq tx6 c True)
            else sq clear_messages (sq to_message_line (sq (emit (Printw text_no_product_to_modify))
                   (sq getch (ret ())))))
           (tx_commit pq tx6))))"

definition handle_scroll_up :: "(('db, 'z) app_scheme, unit) prog" where
  "handle_scroll_up = on_key (key_is (CHR ''w'')) ()
     (modify (\<lambda>w. if visible_start w \<noteq> 0
        then w\<lparr>visible_start := visible_start w - 1, visible_end := visible_end w - 1\<rparr> else w))"

definition handle_scroll_down :: "'db libpq \<Rightarrow> (('db, 'z) app_scheme, unit) prog" where
  "handle_scroll_down pq = on_key (key_is (CHR ''s'')) ()
     (with_work pq (\<lambda>tx8. bnd (gets visible_end) (\<lambda>e. bnd (current_list_size pq tx8) (\<lambda>n.
        sq (whn (e \<noteq> n)
              (modify (\<lambda>w. w\<lparr>visible_start := visible_start w + 1, visible_end := visible_end w + 1\<rparr>)))
           (tx_commit pq tx8)))))"

definition handle_enter ::
  "('db, 'z) env \<Rightarrow> int list \<Rightarrow> int \<times> int \<Rightarrow> (('db, 'z) app_scheme, int \<times> int) prog" where
  "handle_enter env lst v = on_key (\<lambda>k. k = KEY_NL) v
     (bnd (gets current_tab) (\<lambda>tab. if tab = PRODUCTS
        then with_work (e_pq env) (\<lambda>tx5.
          bnd (vec_at lst (fst v)) (\<lambda>c. bnd (get_product_data (e_pq env) tx5 c) (\<lambda>p.
          sq (bnd (gets (e_junk env)) (\<lambda>junk. add_product_to_basket junk p (dbl_of_int 1)))
          (sq (tx_commit (e_pq env) tx5)
          (sq (modify (\<lambda>w. w\<lparr>current_tab := BASKET\<rparr>))
          (bnd (gets basket) (\<lambda>bs. if size_t_of (snd v) \<ge> int (length bs) then reset_selection else ret v)))))))
        else ret v))"

definition handle_search ::
  "('db, 'z) env \<Rightarrow> int list \<Rightarrow> int \<times> int \<Rightarrow> (('db, 'z) app_scheme, int \<times> int) prog" where
  "handle_search env product_codes v = on_key (key_is (CHR ''/'')) v
     (with_work (e_pq env) (\<lambda>tx_search.
        sq clear_messages (sq (emit (Printw ''Search: ''))
        (bnd (get_string True [] white_pair 0) (\<lambda>search_word. case search_word of
            None \<Rightarrow> ret v
          | Some word \<Rightarrow>
              bnd (name_list (e_pq env) tx_search) (\<lambda>names.
              bnd (case binary_search (e_mid env) names word of
                     Inl u \<Rightarrow> stop_with (Undefined u) | Inr i \<Rightarrow> ret i) (\<lambda>index.
              sq (emit Clear)
              (bnd (vec_at product_codes index) (\<lambda>c.
              sq (draw_product_list (e_pq env) tx_search [c] 0 products_columns (dbl_of_int 0))
              (sq read_key
              (bnd (gets key) (\<lambda>k.
                 if k = of_char (CHR ''m'') then sq (add_modify_product (e_pq env) tx_search c True) (ret v)
                 else if k = KEY_NL then
                   bnd (get_product_data (e_pq env) tx_search c) (\<lambda>p.
                   sq (bnd (gets (e_junk env)) (\<lambda>junk. add_product_to_basket junk p (dbl_of_int 1)))
                   (sq (modify (\<lambda>w. w\<lparr>current_tab := BASKET\<rparr>))
                   (bnd (gets basket) (\<lambda>bs. if size_t_of (snd v) \<ge> int (length bs) then reset_selection else ret v))))
                 else ret v))))))))))))"

definition printing_receipt :: "(('db, 'z) app_scheme, unit) prog" where
  "printing_receipt = sq clear_messages (sq (emit (Printw ''Printing receipt'')) (sq getch (ret ())))"

definition handle_test_print :: "'db libpq \<Rightarrow> (('db, 'z) app_scheme, unit) prog" where
  "handle_test_print pq = on_key (key_is (CHR ''t'')) ()
     (with_work pq (\<lambda>tx_test. sq printing_receipt (sq (print_receipt pq tx_test) (ret ()))))"

definition handle_checkout :: "'db libpq \<Rightarrow> (('db, 'z) app_scheme, unit) prog" where
  "handle_checkout pq = on_key (key_is (CHR ''T'')) ()
     (with_work pq (\<lambda>tx_checkout. sq printing_receipt (bnd (print_receipt pq tx_checkout) (\<lambda>ok.
        whn ok (modify (\<lambda>w. w\<lparr>basket := [], total := dbl_of_int 0\<rparr>))))))"

definition handle_up :: "int \<Rightarrow> (('db, 'z) app_scheme, int) prog" where
  "handle_up selection = on_key (\<lambda>k. k = KEY_UP \<or> key_is (CHR ''k'') k) selection
     (let selection = (if selection \<noteq> 0 then selection - 1 else selection) in
      bnd (gets visible_start) (\<lambda>s. if s \<noteq> 0 \<and> selection = 0
        then sq (modify (\<lambda>w. w\<lparr>visible_start := visible_start w - 1, visible_end := visible_end w - 1\<rparr>))
               (ret (selection + 1))
        else ret selection))"

text \<open>The comparisons with \<open>list.size() - 1\<close> are unsigned.\<close>

definition handle_down :: "'db libpq \<Rightarrow> int list \<Rightarrow> int \<times> int \<Rightarrow> (('db, 'z) app_scheme, int) prog" where
  "handle_down pq lst v = on_key (\<lambda>k. k = KEY_DOWN \<or> key_is (CHR ''j'') k) (fst v)
     (with_work pq (\<lambda>tx7.
        let last = (int (length lst) - 1) mod 2 ^ 64 in
        bnd (if size_t_of (fst v) < last
             then bnd (current_list_size pq tx7) (\<lambda>n. ret (if snd v < n then fst v + 1 else fst v))
             else ret (fst v)) (\<lambda>selection.
        bnd (gets visible_end) (\<lambda>e. bnd (current_list_size pq tx7) (\<lambda>n.
        bnd (if e \<noteq> n \<and> size_t_of selection = last
             then sq (modify (\<lambda>w. w\<lparr>visible_start := visible_start w + 1, visible_end := visible_end w + 1\<rparr>))
                    (ret (selection - 1))
             else ret selection) (\<lambda>selection.
        sq (tx_commit pq tx7) (ret selection)))))))"

definition handle_scan :: "('db, 'z) env \<Rightarrow> int \<times> int \<Rightarrow> (('db, 'z) app_scheme, int \<times> int) prog" where
  "handle_scan env v = bnd (gets (\<lambda>w. key w = barcode_prefix w)) (\<lambda>b. if \<not> b then ret v
     else bnd (get_string False [] white_pair 0) (\<lambda>s. case s of
         None \<Rightarrow> throw Bad_optional_access
       | Some text \<Rightarrow> bnd (lift_exn (stol (remove_non_nr text))) (\<lambda>code.
           with_work (e_pq env) (\<lambda>tx_scanner.
           bnd (gets current_tab) (\<lambda>tab.
           sq (whn (tab = BASKET \<or> tab = PRODUCTS)
                 (bnd (product_exists (e_pq env) tx_scanner code) (\<lambda>found.
                    if found
                    then bnd (get_product_data (e_pq env) tx_scanner code) (\<lambda>p.
                         sq (bnd (gets (e_junk env)) (\<lambda>junk. add_product_to_basket junk p (dbl_of_int 1)))
                            (modify (\<lambda>w. w\<lparr>current_tab := BASKET\<rparr>)))
                    else message_and_wait text_product_not_found)))
           (bnd (current_list_size (e_pq env) tx_scanner) (\<lambda>n.
           bnd (if fst v \<ge> n then reset_selection else ret v) (\<lambda>v.
           sq (tx_commit (e_pq env) tx_scanner) (ret v)))))))))"

subsection \<open>The main loop\<close>

text \<open>Everything after the key was read, in the order of the code; the selection is returned.\<close>

definition handle_keys ::
  "('db, 'z) env \<Rightarrow> int list \<Rightarrow> int list \<Rightarrow> int \<times> int \<Rightarrow> (('db, 'z) app_scheme, int) prog" where
  "handle_keys env product_codes lst v =
     sq (handle_escape (e_erase_end env))
     (bnd (handle_remove (e_pq env) lst (fst v)) (\<lambda>selection.
     sq (handle_add (e_pq env) lst selection)
     (bnd (handle_tab (e_pq env) (selection, snd v)) (\<lambda>v.
     sq handle_stock
     (sq (handle_modify (e_pq env) lst (fst v))
     (sq handle_scroll_up
     (sq (handle_scroll_down (e_pq env))
     (bnd (handle_enter env lst v) (\<lambda>v.
     bnd (handle_search env product_codes v) (\<lambda>v.
     sq (handle_test_print (e_pq env))
     (sq (handle_checkout (e_pq env))
     (bnd (handle_up (fst v)) (\<lambda>selection.
     bnd (handle_down (e_pq env) lst (selection, snd v)) (\<lambda>selection.
     bnd (handle_scan env (selection, snd v)) (\<lambda>v. ret (fst v))))))))))))))))"

definition main_round :: "('db, 'z) env \<Rightarrow> int \<Rightarrow> (('db, 'z) app_scheme, int + int) prog" where
  "main_round env selection =
     sq (emit Clear)
     (with_work (e_pq env) (\<lambda>tx.
        bnd (refresh_screen (e_pq env) tx selection) (\<lambda>(product_codes, lst, indexed_selection).
        sq read_key
        (bnd handle_quit (\<lambda>quit. if quit then ret (Inr 0)
          else bnd (handle_keys env product_codes lst (selection, indexed_selection)) (\<lambda>selection.
            ret (Inl selection)))))))"

definition main_start :: "(('db, 'z) app_scheme, unit) prog" where
  "main_start =
     sq (emit Initscr)
     (bnd (gets term_colors) (\<lambda>has_colors.
     sq (if has_colors then emit Start_color
         else sq (emit (Printw text_terminal_no_color))
             (sq (modify (\<lambda>w. w\<lparr>monochrome_mode := True\<rparr>)) (sq getch (emit Clear))))
     (sq (emits [Cbreak, Keypad, Noecho])
     (sq (modify (\<lambda>w. w\<lparr>LINES := term_lines w, ROWS := term_cols w\<rparr>))
     (sq init_colors
     (modify (\<lambda>w. w\<lparr>current_tab := PRODUCTS\<rparr>)))))))"

definition main :: "('db, 'z) env \<Rightarrow> (('db, 'z) app_scheme, int) prog" where
  "main env = sq main_start (while_keys (main_round env) 0)"

end
