(* ===== verification/Sample.thy ===== *)
theory Sample
  imports Main_Loop
begin

text \<open>
  A concrete server with a fixed table and a concrete terminal.  They show that the hypotheses of
  the theorems about the program can hold, and let runs of the program be evaluated.
\<close>

definition tuples :: "cell list list \<Rightarrow> pgresult" where
  "tuples rows = \<lparr>pg_status = PGRES_TUPLES_OK, pg_message = [], pg_sqlstate = None, pg_rows = rows\<rparr>"

definition answering :: "(string \<Rightarrow> cell list list) \<Rightarrow> unit libpq" where
  "answering rows = \<lparr>pq_exec = (\<lambda>q d. (Some (tuples (rows q)), d)), pq_consume = (\<lambda>d. (True, d)),
     pq_encoding = (\<lambda>d. Some ''UTF8''), pq_open = (\<lambda>d. True), pq_error = (\<lambda>d. [])\<rparr>"

text \<open>A shop with one product.\<close>

definition tea_row :: "cell list" where
  "tea_row = map Some [''Tea'', ''7'', ''12.5'', ''10'', ''A'', ''40'', ''8.25'', ''0'']"

definition tea_rows :: "string \<Rightarrow> cell list list" where
  "tea_rows q = (if q = stock_size_sql then [[Some ''1'']]
     else if q = code_list_sql then [[Some ''7'']]
     else if q = name_list_sql then [[Some ''Tea'']]
     else if q = exists_sql 7 then [[Some ''1'']]
     else if q = product_sql 7 then [tea_row]
     else if q = exists_sql 8 then [[Some ''0'']]
     else [])"

text \<open>A shop without products.\<close>

definition no_rows :: "string \<Rightarrow> cell list list" where
  "no_rows q = (if q = stock_size_sql then [[Some ''0'']] else [])"

definition sample_env :: "(string \<Rightarrow> cell list list) \<Rightarrow> (unit, unit) env" where
  "sample_env rows = \<lparr>e_pq = answering rows, e_erase_end = (\<lambda>ls. ls), e_junk = (\<lambda>w. False), e_mid = 0\<rparr>"

definition sample_app :: "int list \<Rightarrow> unit app" where
  "sample_app ks = initial_app () ks (\<lambda>_. (0, 0)) 24 80 True [True]"
text \<open>The product of the sample shop, as the program reads it.\<close>

definition tea :: product where
  "tea = \<lparr>p_name = ''Tea'', p_code = 7, p_price = Fin False 7036874417766400 (-49), p_discount = 10,
     p_price_after_discount = discounted (Fin False 7036874417766400 (-49)) 10, p_tax = CHR ''A'',
     p_stock = Fin False 5629499534213120 (-47),
     p_profit = dbl_sub (Fin False 7036874417766400 (-49)) (Fin False 4644337115725824 (-49)),
     p_price_to_stock = Fin False 4644337115725824 (-49), p_sold_by = PIECE\<rparr>"

lemma read_tea: "read_product (tuples [tea_row]) v = (Inr tea, v)"
proof -
  have "from_string_long ''7'' = Inr 7" "from_string_double ''12.5'' = Inr (Fin False 7036874417766400 (-49))"
    "from_string_short ''10'' = Inr 10" "from_string_double ''40'' = Inr (Fin False 5629499534213120 (-47))"
    "from_string_double ''8.25'' = Inr (Fin False 4644337115725824 (-49))" "from_string_short ''0'' = Inr 0"
    by code_simp+
  then show ?thesis
    by (simp add: read_product_def as_string_def as_long_def as_double_def as_short_def field_def field_as_def
        tuples_def tea_row_def lift_exn_def tea_def first_char_def to_mesurments_def prog_simps)
qed

lemma exec_answering: "exec_db (answering rows) q d = (Inr (tuples (rows (c_str q))), d)"
proof -
  have "enc_group ''UTF8'' = Inr Ascii_safe" by code_simp
  then show ?thesis
    by (simp add: exec_db_def answering_def tuples_def check_status_def status_error_def)
qed

lemma get_product_tea:
  assumes "owned t v" "m_status (txs v ! t) = Tx_active"
  shows "get_product_data (answering tea_rows) t 7 v = (Inr tea, v)"
proof -
  have "tea_rows (c_str (product_sql 7)) = [tea_row]" by code_simp
  then show ?thesis
    using assms by (simp add: get_product_data_def bnd_app tx_exec_owned exec_answering read_tea)
qed

text \<open>The shop with an open transaction.\<close>

definition serving :: "unit app \<Rightarrow> unit app" where
  "serving w = w\<lparr>m_trans := Some 0, txs := [new_tx\<lparr>m_registered := True\<rparr>]\<rparr>"

lemma serving_owned:
  "txs v = txs (serving w) \<Longrightarrow> m_trans v = m_trans (serving w) \<Longrightarrow> owned 0 v \<and> m_status (txs v ! 0) = Tx_active"
  by (simp add: serving_def owned_def new_tx_def)

end
