(* ===== verification/App_Logic.thy ===== *)
theory App_Logic
  imports Sample
begin

text \<open>
  The logic of the console extended to the session and to the program: one proof per function that
  it keeps every property \<open>P\<close> that survives the elementary updates of the state.  The invariants,
  the absence of misuse and the progress of the program are instances.
\<close>

subsection \<open>Code that neither waits nor has undefined behaviour\<close>

definition still :: "('w \<Rightarrow> bool) \<Rightarrow> ('w, 'a) prog \<Rightarrow> bool" where
  "still I m \<longleftrightarrow> (\<forall>w. I w \<longrightarrow> settled (fst (m w)) \<and> I (snd (m w)))"

named_theorems still_rules \<open>rules for \<open>still\<close>\<close>

lemma stillD: "still I m \<Longrightarrow> I w \<Longrightarrow> I (snd (m w))"
  by (simp add: still_def)

lemma still_settled: "still I m \<Longrightarrow> I w \<Longrightarrow> settled (fst (m w))"
  by (simp add: still_def)

lemma stillE:
  assumes "still I m" "I w" "m w = (r, w')"
  shows "settled r" "I w'"
  using still_settled[OF assms(1,2)] stillD[OF assms(1,2)] assms(3) by simp_all

lemma still_prims [still_rules]: "still I (ret a)" "still I (throw e)" "still I (gets f)" "still I (lift_exn r)"
  by (auto simp: still_def lift_exn_def prog_simps split: sum.split)

lemma still_modify: "(\<And>w. I w \<Longrightarrow> I (f w)) \<Longrightarrow> still I (modify f)"
  by (simp add: still_def modify_def)

lemma still_bnd [still_rules]:
  assumes "still I m" "\<And>a. still I (f a)"
  shows "still I (bnd m f)"
  unfolding still_def
proof (intro allI impI)
  fix w assume "I w"
  obtain r w' where r: "m w = (r, w')" by fastforce
  from stillE[OF assms(1) \<open>I w\<close> r] have "settled r" "I w'" .
  then show "settled (fst (bnd m f w)) \<and> I (snd (bnd m f w))"
    by (cases rule: settledE) (use r assms(2) \<open>I w'\<close> in \<open>auto simp: bnd_def still_def\<close>)
qed

lemma still_sq [still_rules]: "still I m \<Longrightarrow> still I n \<Longrightarrow> still I (sq m n)"
  by (simp add: sq_def still_bnd)

lemma still_cases [still_rules]:
  "still I m \<Longrightarrow> still I n \<Longrightarrow> still I (if b then m else n)"
  "still I m \<Longrightarrow> (\<And>a. still I (f a)) \<Longrightarrow> still I (case x of None \<Rightarrow> m | Some a \<Rightarrow> f a)"
  "(\<And>a. still I (f a)) \<Longrightarrow> (\<And>b. still I (g b)) \<Longrightarrow> still I (case y of Inl a \<Rightarrow> f a | Inr b \<Rightarrow> g b)"
  by (auto split: option.split sum.split)

lemma still_whn [still_rules]: "still I m \<Longrightarrow> still I (whn b m)"
  by (simp add: whn_def still_prims)

lemma still_catch [still_rules]:
  assumes "still I m" "\<And>e. still I (h e)"
  shows "still I (try_catch m h)"
  unfolding still_def
proof (intro allI impI)
  fix w assume "I w"
  obtain r w' where r: "m w = (r, w')" by fastforce
  from stillE[OF assms(1) \<open>I w\<close> r] have "settled r" "I w'" .
  then show "settled (fst (try_catch m h w)) \<and> I (snd (try_catch m h w))"
    by (cases rule: settledE) (use r assms(2) \<open>I w'\<close> in \<open>auto simp: try_catch_def still_def\<close>)
qed

lemma still_guard:
  assumes "still I m" "\<And>w. I w \<Longrightarrow> I (k w)"
  shows "still I (guard_with m k)"
  unfolding still_def
proof (intro allI impI)
  fix w assume "I w"
  obtain r w' where r: "m w = (r, w')" by fastforce
  from stillE[OF assms(1) \<open>I w\<close> r] have "settled r" "I w'" .
  then show "settled (fst (guard_with m k w)) \<and> I (snd (guard_with m k w))"
    by (cases rule: settledE) (use r assms(2) \<open>I w'\<close> in \<open>auto simp: guard_with_def\<close>)
qed

subsection \<open>The session\<close>

locale session_frame =
  fixes I :: "('db, 'z) session_scheme \<Rightarrow> bool"
  assumes frame_session: "I w \<Longrightarrow> I (w\<lparr>db := d\<rparr>)" "I w \<Longrightarrow> I (w\<lparr>m_trans := mt\<rparr>)"
      "I w \<Longrightarrow> I (w\<lparr>txs := ts\<rparr>)" "I w \<Longrightarrow> I (w\<lparr>notices := ns\<rparr>)"
begin

lemma still_objects:
  "still I (process_notice m)" "still I (get_tx t)" "still I (upd_tx t f)" "still I (tx_description t)" "still I alloc_tx"
  unfolding process_notice_def get_tx_def upd_tx_def tx_description_def
  by (intro still_rules still_modify; simp add: frame_session)+
    (simp add: alloc_tx_def still_def frame_session)

lemma still_conn_exec: "still I (conn_exec pq q)"
  by (simp add: still_def conn_exec_eq frame_session settled_exec_db)

lemma still_direct_exec: "still I (check_pending_error t)" "still I (direct_exec pq t q)"
  unfolding check_pending_error_def direct_exec_def
  by (intro still_rules still_objects still_conn_exec)+

lemma still_focus: "still I (register_focus t f)" "still I (unregister_focus t f)"
  unfolding register_focus_def unregister_focus_def by (intro still_rules still_objects)+

lemma still_tx_exec: "still I (tx_exec pq t q)"
proof -
  have b: "still I (bnd (get_tx t) (\<lambda>x. case m_status x of Tx_active \<Rightarrow> direct_exec pq t q
      | _ \<Rightarrow> throw (Usage_error ''Could not execute command: transaction is already closed.'')))"
    by (auto intro!: still_rules still_objects still_direct_exec split: tx_status.split)
  show ?thesis
    unfolding tx_exec_def
    by (rule still_sq[OF still_direct_exec(1)], rule still_sq[OF still_focus(1)],
        rule still_guard[OF b stillD[OF still_focus(2)]])
qed

lemma still_registration: "still I (conn_unregister_transaction t)" "still I (register_transaction t)"
  "still I (close_registration t)" "still I (base_destructor t)"
proof -
  show u: "still I (conn_unregister_transaction t)"
    unfolding conn_unregister_transaction_def
    by (intro still_rules still_modify still_objects) (simp add: frame_session)
  show "still I (register_transaction t)"
    unfolding register_transaction_def conn_register_transaction_def
    by (intro still_rules still_objects still_modify) (simp add: frame_session)
  show "still I (close_registration t)"
    unfolding close_registration_def by (intro still_rules still_objects still_direct_exec u)
  show "still I (base_destructor t)"
    unfolding base_destructor_def by (intro still_rules still_objects u)
qed

lemma still_tx_abort: "still I (tx_abort pq t)"
  unfolding tx_abort_def do_abort_def
  by (intro still_rules still_objects)
    (auto intro!: still_rules still_objects still_direct_exec still_registration split: tx_status.split)

lemma still_tx_close: "still I (tx_close pq t)"
  unfolding tx_close_def by (intro still_rules still_objects still_registration still_tx_abort)

lemma still_tx_commit: "still I (tx_commit pq t)"
  unfolding tx_commit_def do_commit_def is_open_def
  by (intro still_rules still_direct_exec still_objects)
    (auto intro!: still_rules still_objects still_direct_exec still_tx_close split: tx_status.split option.split)

lemma still_constructor: "still I (basic_transaction pq c)"
  unfolding basic_transaction_def by (intro still_rules still_objects still_registration still_direct_exec)

lemma still_destructor: "still I (work_destructor pq t)"
  unfolding work_destructor_def by (intro still_rules still_tx_close still_registration)

end

context session_frame
begin

text \<open>A scope whose body establishes \<open>I\<close>, whether it returns or stops.\<close>

lemma with_work_ends:
  assumes P: "still P (basic_transaction pq ''BEGIN'')" "\<And>w. P w \<Longrightarrow> I w"
    and body: "\<And>t. triple P (body t) (\<lambda>_. I) (\<lambda>_. I)"
  shows "triple P (with_work pq body) (\<lambda>_. I) (\<lambda>_. I)"
  unfolding triple_def
proof (intro allI impI)
  fix w assume "P w"
  obtain r w1 where b: "basic_transaction pq ''BEGIN'' w = (r, w1)" by fastforce
  from stillE[OF P(1) \<open>P w\<close> b] have w1: "settled r" "P w1" .
  have "I (snd (guard_with (body t) (\<lambda>w. snd (work_destructor pq t w)) w1))" for t
  proof -
    obtain q w2 where q: "body t w1 = (q, w2)" by fastforce
    have "I w2" using tripleD[OF body[of t] w1(2)] q by (simp split: sum.splits)
    then show ?thesis
      using q stillD[OF still_destructor, of w2] by (cases q rule: settled.cases) (auto simp: guard_with_def)
  qed
  then have "I (snd (with_work pq body w))"
    using b w1 P(2) by (cases r) (auto simp: with_work_def bnd_def)
  then show "case with_work pq body w of (Inl s, w') \<Rightarrow> I w' | (Inr a, w') \<Rightarrow> I w'"
    by (cases "with_work pq body w"; cases "fst (with_work pq body w)") simp_all
qed

end

locale session_logic = console_logic P E L + session_frame P
  for P :: "('db, 'z) session_scheme \<Rightarrow> bool" and E L +
  assumes exceptions: "E (Throw e) w \<longleftrightarrow> P w"
begin

lemma calls:
  assumes "still P m"
  shows "ok m"
  unfolding triple_def
proof (intro allI impI)
  fix w assume "P w"
  with assms have "settled (fst (m w))" "P (snd (m w))" by (auto simp: still_def)
  then show "case m w of (Inl s, w') \<Rightarrow> E s w' | (Inr a, w') \<Rightarrow> P w'"
    by (cases "m w"; cases "fst (m w)" rule: settled.cases) (auto simp: exceptions)
qed

lemma with_work:
  assumes "\<And>t. ok (body t)"
  shows "ok (with_work pq body)"
proof -
  have "ok (guard_with (body t) (\<lambda>w. snd (work_destructor pq t w)))" for t
    unfolding triple_def
  proof (intro allI impI)
    fix w assume "P w"
    obtain r w' where r: "body t w = (r, w')" by fastforce
    with assms[of t] \<open>P w\<close> have "case r of Inl s \<Rightarrow> E s w' | Inr a \<Rightarrow> P w'"
      by (auto simp: triple_def split: sum.splits dest: spec[of _ w])
    with r show "case guard_with (body t) (\<lambda>w. snd (work_destructor pq t w)) w of (Inl s, w') \<Rightarrow> E s w' | (Inr a, w') \<Rightarrow> P w'"
      by (cases r rule: settled.cases) (auto simp: guard_with_def exceptions intro: stillD[OF still_destructor])
  qed
  then show ?thesis
    unfolding with_work_def by (rule bind[OF calls[OF still_constructor]])
qed

end

subsection \<open>Conversions\<close>

lemma civil_conversions [civil_rules]:
  "civil (stol s)" "civil (stoi s)" "civil (stod s)" "civil (stof s)"
  "civil (from_string_long s)" "civil (from_string_short s)" "civil (from_string_double s)" "civil (from_string_bool s)"
  by (auto simp: stol_def stoi_def sto_int_def stod_def stof_def from_string_long_def from_string_short_def
      from_string_double_def from_string_arithmetic_def from_string_bool_def Let_def
      split: option.split prod.split double.split)

lemma civil_field_as [civil_rules]: "(\<And>s. civil (f s)) \<Longrightarrow> civil (field_as f ty c)"
  by (simp add: field_as_def split: option.split)

subsection \<open>Functions that do not use the session\<close>

lemma reads_key_simple:
  "reads_key (bnd getch f)" if "\<And>k. no_new_keys (f k)" for f :: "int \<Rightarrow> ('z console_scheme, 'a) prog"
  using that by (rule reads_key_bnd1[OF reads_key_getch])

locale screen_logic = console_logic P E L
  for P :: "('db, 'z) app_scheme \<Rightarrow> bool" and E L
begin

lemmas more = steps get_string lift throw

lemma drawing: "ok (print_times n s)" "ok (print_times_u n s)" "ok (to_long x)" "ok (nr_length n b)" "ok to_message_line"
  unfolding print_times_def print_times_u_def to_long_def nr_length_def to_message_line_def Let_def
  by (intro steps)+

lemma messages: "ok clear_messages" "ok (message_and_wait s)" "ok printing_receipt"
  unfolding message_and_wait_def printing_receipt_def clear_messages_def by (intro steps drawing)+

lemma cells: "ok (print_table_head_section nm k c)" "ok (amount_cell x k)" "ok (int_cell n k)" "ok (text_cell s k)"
    "ok (qty_cell n k)"
  unfolding print_table_head_section_def amount_cell_def int_cell_def text_cell_def qty_cell_def Let_def
  by (intro steps drawing)+

lemma table: "ok (draw_title k)" "ok (draw_head c)" "ok (draw_row c p)" "ok (draw_total k x)"
  unfolding draw_title_def draw_head_def draw_row_def draw_total_def
  by (intro steps drawing cells)+

lemma colours: "ok init_colors"
  unfolding init_colors_def make_color_def by (intro steps)

end

text \<open>The elementary updates of the global variables.\<close>

locale app_logic = screen_logic P E L
  for P :: "('db, 'z) app_scheme \<Rightarrow> bool" and E L +
  assumes frame_globals:
      "P w \<Longrightarrow> P (w\<lparr>key := k\<rparr>)" "P w \<Longrightarrow> P (w\<lparr>monochrome_mode := b\<rparr>)"
      "P w \<Longrightarrow> P (w\<lparr>LINES := y, ROWS := x\<rparr>)"
      "P w \<Longrightarrow> P (w\<lparr>visible_start := s\<rparr>)" "P w \<Longrightarrow> P (w\<lparr>visible_end := e\<rparr>)"
      "P w \<Longrightarrow> P (w\<lparr>total := q\<rparr>)" "P w \<Longrightarrow> P (w\<lparr>barcode_prefix := k\<rparr>)"
      "P w \<Longrightarrow> P (set_string_var sv str w)" "P w \<Longrightarrow> P (set_int_var iv n w)"
      "P w \<Longrightarrow> P (w\<lparr>test_b := b\<rparr>)" "P w \<Longrightarrow> P (w\<lparr>test_f := q\<rparr>)"
      "P w \<Longrightarrow> P (w\<lparr>opens := os\<rparr>)" "P w \<Longrightarrow> P (w\<lparr>printed := ps\<rparr>)"
    and frame_tab: "P w \<Longrightarrow> tab \<in> {PRODUCTS, BASKET, STOCK} \<Longrightarrow> P (w\<lparr>current_tab := tab\<rparr>)"
    and frame_basket:
      "P w \<Longrightarrow> P (w\<lparr>basket := add_to_basket junk c (dbl_of_int 1) (basket w)\<rparr>)"
      "P w \<Longrightarrow> remove_one c (basket w) = Inr bs \<Longrightarrow> P (w\<lparr>basket := bs\<rparr>)"
      "P w \<Longrightarrow> P (w\<lparr>basket := []\<rparr>)"
    and menu_loops: "L \<or> (\<forall>f m s. reads_key (menu_round m (map (run_item f) (menu_options m)) s
        :: (('db, 'z) app_scheme, (int \<times> string list) + bool) prog))"
begin

lemmas frames = frame_globals frame_tab frame_basket

lemma both_ends: "P w \<Longrightarrow> P (w\<lparr>visible_start := s, visible_end := e\<rparr>)"
  by (metis frame_globals(4,5))

lemma cleared: "P w \<Longrightarrow> P (w\<lparr>basket := [], total := q\<rparr>)"
  by (metis frame_globals(6) frame_basket(3))

end

text \<open>The rounds of the small loops read a key.\<close>

lemma reads_key_selection:
  "reads_key (sq (for_each xs (draw_item c y x n s)) (bnd getch (\<lambda>k. ret (f k))))"
proof -
  have "no_new_keys (draw_item c y x n s it)" for it
    unfolding draw_item_def Let_def by (cases it) (auto intro!: key_rules)
  then show ?thesis by (intro reads_key_sq2 reads_key_simple key_rules)
qed

lemma no_new_keys_messages [key_rules]: "no_new_keys clear_messages"
  unfolding clear_messages_def to_message_line_def print_times_def by (intro key_rules)

lemma reads_key_selection_list: "reads_key (selection_list m s b n)"
proof -
  have "no_new_keys (sq (for_each xs (draw_item c y x n s)) (bnd getch (\<lambda>k. ret (f k))))" for xs c y x n s f
    unfolding draw_item_def Let_def by (auto intro!: key_rules)
  then show ?thesis
    unfolding selection_list_def
    by (intro reads_key_bnd2 key_rules) (auto intro!: reads_key_while_keys reads_key_selection)
qed

lemma reads_key_menu_round:
  assumes "\<And>h ls k. h \<in> set hs \<Longrightarrow> no_new_keys (h ls k)"
  shows "reads_key (menu_round m hs s)"
proof -
  have handler: "no_new_keys (bnd (vec_at hs k) (\<lambda>h. bnd (h ls k) (\<lambda>(ex, ls). ret (if ex then Inr True else Inl (k, ls)))))" for k ls
    using assms by (auto simp: vec_at_def intro!: key_rules)
  have top: "no_new_keys (print_centered l)" for l
    unfolding print_centered_def by (auto intro!: key_rules)
  show ?thesis
    unfolding menu_round_def
    by (cases s) (auto intro!: reads_key_sq2 key_rules top reads_key_bnd1[OF reads_key_selection_list] handler)
qed

lemma reads_key_criteria: "reads_key (criteria_round c p col k s)"
  unfolding criteria_round_def
  by (intro reads_key_sq2 key_rules reads_key_bnd1[OF reads_key_get_string])
    (auto simp: Let_def intro!: key_rules split: option.split)

lemma reads_key_sold_by:
  "reads_key (sq clear_messages (sq (emit x) (bnd (vec_at ts s) (\<lambda>u. sq (emit (f u))
     (bnd getch (\<lambda>k. bnd (gets g) (\<lambda>n. ret (h n k))))))))"
  by (intro reads_key_sq2 reads_key_bnd2 reads_key_simple key_rules)

text \<open>Menus and forms.\<close>

context app_logic
begin

lemma actions: "ok (run_action a)"
  by (cases a) (simp_all add: get_barcode_prefix_def test_function_def, (intro more set_by; simp add: frames)+)

lemma edit_item: "ok (edit_item d k)"
  unfolding edit_item_def
  by (cases d) (simp_all, (intro more set_by actions; simp add: frames civil_conversions)+)

lemma selection_list: "ok (selection_list m k b n)"
proof -
  have "ok (draw_item c y x n s it)" for c y x n s it
    unfolding draw_item_def Let_def by (intro steps)
  then show ?thesis
    unfolding selection_list_def by (intro steps whil disjI2 allI reads_key_selection)
qed

lemma menu_round:
  assumes "\<And>h ls k. h \<in> set hs \<Longrightarrow> ok (h ls k)"
  shows "ok (menu_round m hs s)"
proof -
  have step: "ok (bnd (vec_at hs k) (\<lambda>h. bnd (h ls k) (\<lambda>(ex, ls). ret (if ex then Inr True else Inl (k, ls)))))" for k ls
    using assms by (auto simp: vec_at_def intro!: steps)
  have "ok (print_centered l)" for l
    unfolding print_centered_def by (intro steps)
  then show ?thesis
    unfolding menu_round_def by (intro steps selection_list step)
qed

lemma run_menu_all: "ok (run_menu f m ls)" "ok (run_item f it ls k)" "ok (run_data f d l ls k)"
proof (induction m and it and d arbitrary: ls and ls k and l ls k)
  case (Menu options name centered)
  have "L \<or> (\<forall>s. reads_key (menu_round (Menu options name centered) (map (run_item f) options) s
      :: (('db, 'z) app_scheme, (int \<times> string list) + bool) prog))"
    using menu_loops by (metis menu.sel(1))
  then show ?case
    unfolding run_menu.simps by (intro whil menu_round) (auto intro: Menu)
qed (auto intro!: steps edit_item)

lemma forms: "ok (add_modify_criteria c p col b k)" "ok (choose_sold_by m)" "ok (form_product cur n c' p' d t s pts k')"
proof -
  have "ok (criteria_round c p col k s)" for c p col k s
    unfolding criteria_round_def Let_def by (intro more messages) simp
  then show "ok (add_modify_criteria c p col b k)"
    unfolding add_modify_criteria_def by (intro whil) (simp_all add: reads_key_criteria)
  show "ok (choose_sold_by m)"
    unfolding choose_sold_by_def by (intro whil steps messages) (simp add: reads_key_sold_by)
  show "ok (form_product cur n c' p' d t s pts k')"
    unfolding form_product_def by (intro more civil_conversions)
qed

text \<open>Basket, printer and keys.\<close>

lemma add_product_to_basket: "ok (add_product_to_basket junk p (dbl_of_int 1))"
  unfolding add_product_to_basket_def by (intro set_by) (simp add: frames)

lemma remove_from_basket: "ok (remove_from_basket lst k)"
proof -
  have "ok (bnd (gets (\<lambda>w. remove_one c (basket w))) (\<lambda>r. case r of Inl u \<Rightarrow> stop_with (Undefined u)
      | Inr bs \<Rightarrow> modify (\<lambda>w. w\<lparr>basket := bs\<rparr>)))" for c
    by (auto simp: triple_def prog_simps intro: frame_basket stops split: sum.split)
  then show ?thesis unfolding remove_from_basket_def by (rule bind[OF vec])
qed

lemma open_printer: "ok open_printer"
  by (auto simp: triple_def open_printer_def frames split: list.split)

lemma read_key: "ok read_key"
  unfolding read_key_def by (intro steps set_by) (simp add: frames)

lemma reset_selection: "ok reset_selection"
  unfolding reset_selection_def by (intro steps set_by) (simp add: frames)

end

subsection \<open>Database functions\<close>

locale shop_logic = screen_logic P E L + session_logic P E L
  for P :: "('db, 'z) app_scheme \<Rightarrow> bool" and E L
begin

lemma fields: "ok (as_long r i j)" "ok (as_short r i j)" "ok (as_double r i j)" "ok (as_bool r i j)" "ok (as_string r i j)"
  unfolding as_long_def as_short_def as_double_def as_bool_def as_string_def field_def
  by (intro more civil_field_as civil_conversions civil_Inr)+

lemmas tx_calls = calls[OF still_tx_exec] calls[OF still_tx_commit]

lemma database: "ok (stock_size pq t)" "ok (get_product_data pq t c)" "ok (product_exists pq t c)"
    "ok (update_stock pq t p)" "ok (erase pq t c)"
  unfolding stock_size_def get_product_data_def read_product_def product_exists_def update_stock_def erase_def
  by (intro steps tx_calls fields)+

lemma list_loop: "(\<And>r. ok (g r)) \<Longrightarrow> ok (list_loop pq t g i rows)"
  by (induction rows arbitrary: i) (simp_all only: list_loop.simps, (intro steps database; simp)+)

lemma lists: "ok (code_list pq t)" "ok (name_list pq t)"
  unfolding code_list_def name_list_def by (intro steps tx_calls list_loop fields)+

lemma stock_loop: "ok (stock_loop pq t i cs)"
  by (induction cs arbitrary: i) (simp_all only: stock_loop.simps, (intro steps database; simp)+)

lemma draw_product_list: "ok (draw_product_list pq t cs k c x)"
  unfolding draw_product_list_def by (intro steps drawing table database)

lemma current_list_size: "ok (current_list_size pq t)"
  unfolding current_list_size_def by (intro steps database)

end

subsection \<open>The whole program\<close>

locale full_logic = app_logic P E L + shop_logic P E L
  for P :: "('db, 'z) app_scheme \<Rightarrow> bool" and E L +
  assumes big_loops:
      "L \<or> (\<forall>pq t. reads_key (receipt_round pq t () :: (('db, 'z) app_scheme, unit + bool) prog))"
      "L \<or> (\<forall>env k. reads_key (main_round env k :: (('db, 'z) app_scheme, int + int) prog))"
begin

lemma add_modify_product: "ok (add_modify_product pq t c b)"
  unfolding add_modify_product_def or_return_def by (intro steps database forms tx_calls)

lemma refresh: "ok (refresh_screen pq t k)"
  unfolding refresh_screen_def calculate_visible_product_list_def compute_total_def draw_tab_def
  by (intro steps lists current_list_size database draw_product_list stock_loop tx_calls set_by; simp add: frames)

lemma receipt_round: "ok (receipt_round pq t u)"
  unfolding receipt_round_def
  by (intro steps messages database open_printer set_by; simp add: frames)

lemma print_receipt: "ok (print_receipt pq t)"
  unfolding print_receipt_def using big_loops(1) by (intro whil receipt_round) auto

text \<open>Key handlers.\<close>

lemma on_key: "ok m \<Longrightarrow> ok (on_key p v m)"
  unfolding on_key_def by (intro steps)

lemmas parts = current_list_size database lists add_modify_product draw_product_list print_receipt messages
  remove_from_basket add_product_to_basket tx_calls reset_selection drawing read_key get_string

lemma simple_handlers:
  "ok handle_quit" "ok (handle_escape f)" "ok handle_stock" "ok handle_scroll_up" "ok (handle_up k)"
  unfolding handle_quit_def handle_escape_def start_main_menu_def handle_stock_def handle_scroll_up_def handle_up_def Let_def
  by (intro on_key steps set_by parts run_menu_all; simp add: frames both_ends)+

lemma handle_remove: "ok (handle_remove pq lst k)"
  unfolding handle_remove_def shift_window_def
  by (intro on_key with_work steps set_by parts; simp add: both_ends)

lemma handle_add_modify: "ok (handle_add pq lst k)" "ok (handle_modify pq lst k)"
  unfolding handle_add_def handle_modify_def by (intro on_key with_work steps parts)+

lemma handle_tab: "ok (handle_tab pq v)"
  unfolding handle_tab_def by (intro on_key with_work steps set_by parts; simp add: frames)

lemma handle_scroll_down: "ok (handle_scroll_down pq)"
  unfolding handle_scroll_down_def by (intro on_key with_work steps set_by parts; simp add: both_ends)

lemma handle_enter: "ok (handle_enter env lst v)"
  unfolding handle_enter_def by (intro on_key with_work steps set_by parts; simp add: frames)

lemma handle_search: "ok (handle_search env cs v)"
  unfolding handle_search_def by (intro on_key with_work steps set_by parts; simp add: frames)

lemma handle_receipts: "ok (handle_test_print pq)" "ok (handle_checkout pq)"
  unfolding handle_test_print_def handle_checkout_def
  by (intro on_key with_work steps set_by parts; simp add: cleared)+

lemma handle_down: "ok (handle_down pq lst v)"
  unfolding handle_down_def Let_def by (intro on_key with_work steps set_by parts; simp add: both_ends)

lemma handle_scan: "ok (handle_scan env v)"
  unfolding handle_scan_def by (intro with_work more set_by parts civil_conversions; simp add: frames)

lemma handle_keys: "ok (handle_keys env cs lst v)"
  unfolding handle_keys_def
  by (intro steps simple_handlers handle_remove handle_add_modify handle_tab handle_scroll_down handle_enter
      handle_search handle_receipts handle_down handle_scan)

lemma main_round: "ok (main_round env k)"
  unfolding main_round_def by (intro steps with_work refresh parts simple_handlers handle_keys)

lemma main: "ok (main env)"
proof -
  have "ok (while_keys (main_round env) k)" for k
    using big_loops(2) by (intro whil main_round) auto
  then show ?thesis
    unfolding main_def main_start_def by (intro steps set_by colours; simp add: frames)
qed

end

end
