(* ===== verification/Pqxx_Typestate.thy ===== *)
theory Pqxx_Typestate
  imports Pqxx_Session Input
begin

text \<open>
  A program logic for clients of libpqxx.  A piece of code that \<open>works\<close> on a transaction is started
  while the transaction is active and leaves it active; one that \<open>ends\<close> may also leave it committed;
  one that is \<open>calm\<close> runs between transactions and leaves none open.  None of them ever makes
  libpqxx throw a \<open>usage_error\<close>, the exception for misuse of the library.  The rules let these
  properties be read off the program text.
\<close>

subsection \<open>States\<close>

text \<open>A transaction object that is over and takes part in nothing any more.\<close>

definition dead :: "nat \<Rightarrow> ('db, 'z) session_scheme \<Rightarrow> bool" where
  "dead t w \<longleftrightarrow> t < length (txs w) \<and> m_status (txs w ! t) = Tx_committed \<and> \<not> m_registered (txs w ! t)
     \<and> m_focus (txs w ! t) = None \<and> m_pending_error (txs w ! t) = []"

definition held :: "nat set \<Rightarrow> nat \<Rightarrow> ('db, 'z) session_scheme \<Rightarrow> bool" where
  "held T t w \<longleftrightarrow> owned t w \<and> (\<forall>u\<in>T. u \<noteq> t \<and> dead u w)"

definition active :: "nat set \<Rightarrow> nat \<Rightarrow> ('db, 'z) session_scheme \<Rightarrow> bool" where
  "active T t w \<longleftrightarrow> held T t w \<and> m_status (txs w ! t) = Tx_active"

definition fine :: "nat set \<Rightarrow> nat \<Rightarrow> ('db, 'z) session_scheme \<Rightarrow> bool" where
  "fine T t w \<longleftrightarrow> held T t w \<and> m_status (txs w ! t) \<in> {Tx_active, Tx_committed}"

definition rest :: "nat set \<Rightarrow> ('db, 'z) session_scheme \<Rightarrow> bool" where
  "rest T w \<longleftrightarrow> m_trans w = None \<and> (\<forall>u\<in>T. dead u w)"

definition polite :: "(('db, 'z) session_scheme \<Rightarrow> bool) \<Rightarrow> stop \<Rightarrow> ('db, 'z) session_scheme \<Rightarrow> bool" where
  "polite P s w \<longleftrightarrow> (case s of Throw e \<Rightarrow> \<not> usage e \<and> P w | _ \<Rightarrow> True)"

definition works :: "nat set \<Rightarrow> nat \<Rightarrow> (('db, 'z) session_scheme, 'a) prog \<Rightarrow> bool" where
  "works T t m \<longleftrightarrow> triple (active T t) m (\<lambda>_. active T t) (polite (held T t))"

definition ends :: "nat set \<Rightarrow> nat \<Rightarrow> (('db, 'z) session_scheme, 'a) prog \<Rightarrow> bool" where
  "ends T t m \<longleftrightarrow> triple (active T t) m (\<lambda>_. fine T t) (polite (held T t))"

definition calm :: "nat set \<Rightarrow> (('db, 'z) session_scheme, 'a) prog \<Rightarrow> bool" where
  "calm T m \<longleftrightarrow> triple (rest T) m (\<lambda>_. rest T) (polite (rest T))"

named_theorems work_rules \<open>rules for \<open>works\<close>, \<open>ends\<close> and \<open>calm\<close>\<close>

subsection \<open>Rules that all three share\<close>

text \<open>
  An invariant \<open>P\<close> with a weaker one \<open>H\<close> for exceptions; the three properties are instances of
  it, as far as the program constructs are concerned.
\<close>

locale typestate =
  fixes P H :: "('db, 'z) session_scheme \<Rightarrow> bool"
  assumes weaker: "P w \<Longrightarrow> H w"
    and frame: "P w \<Longrightarrow> txs w' = txs w \<Longrightarrow> m_trans w' = m_trans w \<Longrightarrow> P w'"

sublocale typestate \<subseteq> console_logic P "polite H" True
  by unfold_locales (auto simp: polite_def intro: weaker elim: frame)

context typestate
begin

lemma mod: "(\<And>w. txs (f w) = txs w) \<Longrightarrow> (\<And>w. m_trans (f w) = m_trans w) \<Longrightarrow> ok (modify f)"
  by (rule set_by) (erule frame, simp_all)

end

interpretation wk: typestate "active T t" "held T t" for T t
  by unfold_locales (simp_all add: active_def held_def owned_def dead_def)

interpretation cm: typestate "rest T" "rest T" for T
  by unfold_locales (simp_all add: rest_def dead_def)

subsection \<open>Rules for programs\<close>

text \<open>For \<open>works\<close>:\<close>

lemmas works_prims [work_rules] =
  wk.ret[folded works_def] wk.get[folded works_def] wk.mod[folded works_def]
  wk.lift[folded works_def] wk.vec[folded works_def] wk.emit[folded works_def]
  wk.getyx[folded works_def] wk.getch[folded works_def] wk.each[folded works_def] wk.coll[folded works_def]
  wk.whil[OF _ disjI1[OF TrueI], folded works_def]

lemma works_steps [work_rules]:
  "works T t m \<Longrightarrow> (\<And>a. works T t (f a)) \<Longrightarrow> works T t (bnd m f)"
  "works T t m \<Longrightarrow> works T t n \<Longrightarrow> works T t (sq m n)"
  "\<not> usage e \<Longrightarrow> works T t (throw e)"
  "works T t (stop_with (Undefined u))"
  unfolding works_def by (rule wk.bind wk.seq wk.throw wk.undef; assumption)+

lemma works_cases [work_rules]:
  "works T t m \<Longrightarrow> works T t n \<Longrightarrow> works T t (if b then m else n)"
  "works T t m \<Longrightarrow> (\<And>a. works T t (f a)) \<Longrightarrow> works T t (case x of None \<Rightarrow> m | Some a \<Rightarrow> f a)"
  by (auto split: option.split)

lemma works_whn [work_rules]: "works T t m \<Longrightarrow> works T t (whn b m)"
  by (simp add: whn_def work_rules)

text \<open>For \<open>calm\<close>:\<close>

lemmas calm_prims [work_rules] =
  cm.ret[folded calm_def] cm.get[folded calm_def] cm.mod[folded calm_def]
  cm.lift[folded calm_def] cm.vec[folded calm_def] cm.emit[folded calm_def]
  cm.getyx[folded calm_def] cm.getch[folded calm_def] cm.each[folded calm_def] cm.coll[folded calm_def]
  cm.whil[OF _ disjI1[OF TrueI], folded calm_def]

lemma calm_steps [work_rules]:
  "calm T m \<Longrightarrow> (\<And>a. calm T (f a)) \<Longrightarrow> calm T (bnd m f)"
  "calm T m \<Longrightarrow> calm T n \<Longrightarrow> calm T (sq m n)"
  "\<not> usage e \<Longrightarrow> calm T (throw e)"
  "calm T (stop_with (Undefined u))"
  unfolding calm_def by (rule cm.bind cm.seq cm.throw cm.undef; assumption)+

lemma calm_cases [work_rules]:
  "calm T m \<Longrightarrow> calm T n \<Longrightarrow> calm T (if b then m else n)"
  "calm T m \<Longrightarrow> (\<And>a. calm T (f a)) \<Longrightarrow> calm T (case x of None \<Rightarrow> m | Some a \<Rightarrow> f a)"
  by (auto split: option.split)

lemma calm_whn [work_rules]: "calm T m \<Longrightarrow> calm T (whn b m)"
  by (simp add: whn_def work_rules)

text \<open>Statements of an active transaction, and its end.\<close>

lemma civil_throw_sql_error [civil_rules]: "\<not> usage (throw_sql_error st)"
  unfolding throw_sql_error_def Let_def
  by (cases st) (simp_all only: option.case if_distrib[where f = usage] usage.simps if_cancel not_False_eq_True)

lemma civil_enc_group [civil_rules]: "civil (enc_group n)"
  by (simp add: enc_group_def Let_def)

lemma civil_check_status [civil_rules]: "civil (check_status r)"
  by (simp add: check_status_def status_error_def civil_throw_sql_error split: exec_status.split)

lemma exec_db_polite: "fst (exec_db pq q d) = Inl (Throw e) \<Longrightarrow> \<not> usage e"
  by (auto simp: exec_db_def dest: civilD[OF civil_enc_group] civilD[OF civil_check_status]
      split: prod.splits option.splits sum.splits if_splits)

lemma held_db [simp]: "held T t (w\<lparr>db := d\<rparr>) = held T t w" "active T t (w\<lparr>db := d\<rparr>) = active T t w"
  by (simp_all add: active_def held_def owned_def dead_def)

lemma works_tx_exec [work_rules]: "works T t (tx_exec pq t q)"
  unfolding works_def
proof (rule tripleI)
  fix w a w' assume "active T t w" "tx_exec pq t q w = (Inr a, w')"
  then show "active T t w'" by (auto simp: active_def held_def tx_exec_owned) (auto simp: owned_def dead_def)
next
  fix w s w' assume "active T t w" and x: "tx_exec pq t q w = (Inl s, w')"
  then have "owned t w" "m_status (txs w ! t) = Tx_active" "held T t w" by (auto simp: active_def held_def)
  with x exec_db_polite[of pq q "db w"] settled_exec_db[of pq q "db w"] show "polite (held T t) s w'"
    by (auto simp: tx_exec_owned polite_def split: stop.split)
qed

text \<open>A commit of an active transaction either succeeds and buries it, or throws.\<close>

lemma commit_exn_polite: "\<not> usage e \<Longrightarrow> \<not> usage (commit_exn op e)"
  by (simp add: commit_exn_def)

lemma dead_put_other: "u \<noteq> t \<Longrightarrow> dead u (put_tx t x w) = dead u w"
  by (simp add: dead_def)

lemma dead_more [simp]:
  "dead u (w\<lparr>db := d\<rparr>) = dead u w" "dead u (w\<lparr>m_trans := mt\<rparr>) = dead u w" "dead u (w\<lparr>notices := ns\<rparr>) = dead u w"
  by (simp_all add: dead_def)

lemma commit_active:
  "triple (active T t) (tx_commit pq t) (\<lambda>_. rest (insert t T)) (polite (held T t))"
proof (rule tripleI)
  fix w a w' assume a: "active T t w" and c: "tx_commit pq t w = (Inr a, w')"
  then have o: "owned t w" and s: "m_status (txs w ! t) = Tx_active" and T: "\<forall>u\<in>T. u \<noteq> t \<and> dead u w"
    by (auto simp: active_def held_def)
  show "rest (insert t T) w'"
  proof (rule tx_commit_cases[OF o, of pq])
    fix r ns assume "tx_commit pq t w = (r, w\<lparr>notices := notices w @ ns\<rparr>)"
      "m_status (txs w ! t) \<noteq> Tx_active \<or> \<not> pq_open pq (db w)"
    with tx_commit_quiet[OF o, of pq] s c show ?thesis by auto
  qed (use c T o s in \<open>auto simp: rest_def dead_put_other owned_def dead_def\<close>)
next
  fix w s w' assume a: "active T t w" and c: "tx_commit pq t w = (Inl s, w')"
  then have o: "owned t w" and st: "m_status (txs w ! t) = Tx_active" and T: "\<forall>u\<in>T. u \<noteq> t \<and> dead u w"
    by (auto simp: active_def held_def)
  have h: "held T t w'" using owned_tx_commit[OF o, of pq] c T
    by (rule_tac tx_commit_cases[OF o, of pq]) (auto simp: held_def dead_put_other)
  have q: "\<not> usage e" if "tx_commit pq t w = (Inl (Throw e), w')" for e
  proof (cases "pq_open pq (db w)")
    case False
    then have "tx_commit pq t w = (Inl (Throw Broken_connection), w)"
      using o st by (simp add: tx_commit_def owned_def check_pending_ok tx_prims is_open_def prog_simps)
    with that show ?thesis by auto
  next
    case True
    show ?thesis
      by (rule tx_commit_cases[OF o, of pq])
        (use that True st exec_db_polite[of pq "''COMMIT''" "db w"] in \<open>auto simp: commit_exn_polite\<close>)
  qed
  show "polite (held T t) s w'" using h q c by (auto simp: polite_def split: stop.split)
qed

lemma rest_fine: "rest (insert t T) w \<Longrightarrow> t \<notin> T \<Longrightarrow> fine T t w"
  by (auto simp: rest_def fine_def held_def owned_def dead_def)

lemma fine_held: "fine T t w \<Longrightarrow> held T t w"
  by (simp add: fine_def)

lemma active_notin: "active T t w \<Longrightarrow> t \<notin> T"
  by (auto simp: active_def held_def)

lemma triple_pre: "(\<And>w. P w \<Longrightarrow> triple P m Q E) \<Longrightarrow> triple P m Q E"
  by (auto simp: triple_def)

lemma ends_commit [work_rules]: "ends T t (tx_commit pq t)"
  unfolding ends_def
proof (rule triple_pre)
  fix w assume "active T t w"
  then have "t \<notin> T" by (rule active_notin)
  then show "triple (active T t) (tx_commit pq t) (\<lambda>_. fine T t) (polite (held T t))"
    by (blast intro: triple_weaken[OF commit_active] rest_fine)
qed

text \<open>A commit of a transaction that may be committed already.\<close>

lemma fine_commit: "triple (fine T t) (tx_commit pq t) (\<lambda>_. fine T t) (polite (held T t))"
proof -
  have "triple (\<lambda>w. fine T t w \<and> m_status (txs w ! t) = Tx_committed) (tx_commit pq t) (\<lambda>_. fine T t) (polite (held T t))"
  proof (rule tripleI)
    fix w a w' assume f: "fine T t w \<and> m_status (txs w ! t) = Tx_committed" and c: "tx_commit pq t w = (Inr a, w')"
    then have "owned t w" by (simp add: fine_def held_def)
    from tx_commit_quiet[OF this, of pq] f c show "fine T t w'"
      by (auto simp: fine_def held_def owned_def)
  next
    fix w s w' assume f: "fine T t w \<and> m_status (txs w ! t) = Tx_committed" and c: "tx_commit pq t w = (Inl s, w')"
    then have "owned t w" by (simp add: fine_def held_def)
    from tx_commit_quiet[OF this, of pq] f c show "polite (held T t) s w'" by auto
  qed
  moreover have "triple (active T t) (tx_commit pq t) (\<lambda>_. fine T t) (polite (held T t))"
    using ends_commit unfolding ends_def .
  ultimately show ?thesis by (auto simp: triple_def fine_def active_def)
qed

lemma ends_then_commit [work_rules]: "ends T t m \<Longrightarrow> ends T t (sq m (tx_commit pq t))"
  unfolding ends_def sq_def by (rule triple_bnd) (auto intro: fine_commit)

lemma works_ends [work_rules]: "works T t m \<Longrightarrow> (\<And>a. ends T t (f a)) \<Longrightarrow> ends T t (bnd m f)"
  unfolding works_def ends_def by (rule wk.bind)

lemma works_ends_sq [work_rules]: "works T t m \<Longrightarrow> ends T t n \<Longrightarrow> ends T t (sq m n)"
  unfolding works_def ends_def by (rule wk.seq)

lemma works_imp_ends: "works T t m \<Longrightarrow> ends T t m"
  unfolding works_def ends_def by (erule triple_weaken) (auto simp: active_def fine_def)

lemma ends_value [work_rules]: "ends T t m \<Longrightarrow> ends T t (sq m (ret a))"
  unfolding ends_def sq_def by (rule triple_bnd) (auto intro: triple_ret)

lemma ends_cases [work_rules]:
  "ends T t m \<Longrightarrow> ends T t n \<Longrightarrow> ends T t (if b then m else n)"
  "ends T t m \<Longrightarrow> (\<And>a. ends T t (f a)) \<Longrightarrow> ends T t (case x of None \<Rightarrow> m | Some a \<Rightarrow> f a)"
  by (auto split: option.split)

lemmas ends_prims [work_rules] =
  works_imp_ends[OF wk.ret[folded works_def]]

text \<open>After a commit, code that is calm beside the buried transaction.\<close>

lemma commit_then_calm:
  assumes "calm (insert t T) m"
  shows "ends T t (sq (tx_commit pq t) m)"
  unfolding ends_def
proof (rule triple_pre)
  fix w assume "active T t w"
  then have t: "t \<notin> T" by (rule active_notin)
  have "triple (rest (insert t T)) m (\<lambda>_. fine T t) (polite (held T t))"
    using assms t unfolding calm_def
    by (elim triple_weaken) (auto simp: polite_def intro: rest_fine fine_held split: stop.splits)
  then show "triple (active T t) (sq (tx_commit pq t) m) (\<lambda>_. fine T t) (polite (held T t))"
    unfolding sq_def by (intro triple_bnd[OF commit_active])
qed

lemma rest_destructor: "held T t w \<Longrightarrow> rest T (snd (work_destructor pq t w))"
  using work_destructor_eq[of t w pq] by (auto simp: held_def rest_def dead_put_other)

lemma started_active:
  assumes "rest T w"
  shows "active T (length (txs w)) (w\<lparr>txs := txs w @ [new_tx\<lparr>m_registered := True\<rparr>],
    m_trans := Some (length (txs w)), db := d\<rparr>)"
  using assms owned_started[of w d]
  by (auto simp: rest_def active_def held_def dead_def nth_append new_tx_def)

lemma calm_with_work [work_rules]:
  assumes "\<And>t. ends T t (body t)"
  shows "calm T (with_work pq body)"
  unfolding calm_def triple_def
proof (intro allI impI)
  fix w :: "('a, 'b) session_scheme"
  assume w: "rest T w"
  let ?t = "length (txs w)"
  let ?w0 = "\<lambda>d. w\<lparr>txs := txs w @ [new_tx\<lparr>m_registered := True\<rparr>], m_trans := Some ?t, db := d\<rparr>"
  obtain x d where x: "exec_db pq ''BEGIN'' (db w) = (x, d)" by fastforce
  have m: "m_trans w = None" using w by (simp add: rest_def)
  from x settled_exec_db[of pq "''BEGIN''" "db w"] have "settled x" by simp
  then show "case with_work pq body w of (Inl s, w') \<Rightarrow> polite (rest T) s w' | (Inr a, w') \<Rightarrow> rest T w'"
  proof (rule settledE)
    fix e assume e: "x = Inl (Throw e)"
    then obtain ns where "with_work pq body w = (Inl (Throw e), w\<lparr>txs := txs w @ [new_tx\<lparr>m_registered := True\<rparr>],
        m_trans := None, db := d, notices := notices w @ ns\<rparr>)"
      using basic_transaction_idle[OF m x] by (auto simp: with_work_def bnd_def)
    moreover have "\<not> usage e" using exec_db_polite[of pq "''BEGIN''" "db w"] x e by simp
    moreover have "dead u (w\<lparr>txs := txs w @ [new_tx\<lparr>m_registered := True\<rparr>]\<rparr>)" if "u \<in> T" for u
      using w that by (auto simp: rest_def dead_def nth_append)
    ultimately show ?thesis using w by (simp add: polite_def rest_def)
  next
    fix v assume "x = Inr v"
    then have b: "basic_transaction pq ''BEGIN'' w = (Inr ?t, ?w0 d)"
      using basic_transaction_idle[OF m x] by auto
    obtain r w1 where r: "body ?t (?w0 d) = (r, w1)" by fastforce
    have "case body ?t (?w0 d) of (Inl s, w') \<Rightarrow> polite (held T ?t) s w' | (Inr a, w') \<Rightarrow> fine T ?t w'"
      using assms[of ?t, unfolded ends_def triple_def, THEN spec, THEN mp, OF started_active[OF w, of d]] .
    with b r show ?thesis
      by (cases r rule: settled.cases)
        (auto simp: with_work_def bnd_def guard_with_def polite_def intro: rest_destructor fine_held)
  qed
qed

end
