(* ===== verification/Discipline.thy ===== *)
theory Discipline
  imports App_Logic Pqxx_Typestate
begin

text \<open>
  The use that the program makes of libpqxx: every function that talks to the database works on an
  active transaction, every handler leaves no transaction open, and no run of \<open>main\<close> makes the
  library throw a \<open>usage_error\<close>, whatever the server answers and whatever keys are pressed.
\<close>

subsection \<open>Functions that do not touch transactions\<close>

text \<open>A typestate speaks of the transactions only, so it survives all other updates.\<close>

lemma set_vars_frame:
  "txs (set_string_var v s w) = txs w" "m_trans (set_string_var v s w) = m_trans w"
  "txs (set_int_var i n w) = txs w" "m_trans (set_int_var i n w) = m_trans w"
  by (cases v; cases i; simp)+

interpretation aw: app_logic "active T t" "polite (held T t)" True for T t
  by unfold_locales (simp_all add: active_def held_def owned_def dead_def set_vars_frame)

interpretation ac: app_logic "rest T" "polite (rest T)" True for T
  by unfold_locales (simp_all add: rest_def dead_def set_vars_frame)

lemmas works_app [work_rules] =
  wk.get_string[folded works_def] aw.drawing[folded works_def] aw.messages[folded works_def]
  aw.cells[folded works_def] aw.table[folded works_def] aw.forms[folded works_def]
  aw.add_product_to_basket[folded works_def] aw.remove_from_basket[folded works_def]
  aw.reset_selection[folded works_def] aw.read_key[folded works_def] aw.open_printer[folded works_def]

lemma calm_start_main_menu: "calm T (start_main_menu f)"
  unfolding start_main_menu_def calm_def by (intro cm.steps ac.run_menu_all)

lemmas calm_app [work_rules] =
  cm.get_string[folded calm_def] ac.drawing[folded calm_def] ac.messages[folded calm_def]
  ac.colours[folded calm_def] ac.add_product_to_basket[folded calm_def] ac.remove_from_basket[folded calm_def]
  ac.reset_selection[folded calm_def] ac.read_key[folded calm_def] calm_start_main_menu

lemma works_sums [work_rules]:
  "(\<And>a. works T t (f a)) \<Longrightarrow> (\<And>b. works T t (g b)) \<Longrightarrow> works T t (case x of Inl a \<Rightarrow> f a | Inr b \<Rightarrow> g b)"
  "(\<And>a b. works T t (h a b)) \<Longrightarrow> works T t (case p of (a, b) \<Rightarrow> h a b)"
  by (simp_all split: sum.split prod.split)

subsection \<open>Database functions\<close>

lemma works_fields [work_rules]:
  "works T t (as_long r i j)" "works T t (as_short r i j)" "works T t (as_double r i j)"
  "works T t (as_bool r i j)" "works T t (as_string r i j)"
  unfolding as_long_def as_short_def as_double_def as_bool_def as_string_def field_def
  by (intro work_rules civil_rules)+

lemma works_read_product [work_rules]: "works T t (read_product r)"
  unfolding read_product_def by (intro work_rules)

lemma works_database [work_rules]:
  "works T t (stock_size pq t)" "works T t (get_product_data pq t c)" "works T t (product_exists pq t c)"
  "works T t (update_stock pq t p)" "works T t (erase pq t c)"
  unfolding stock_size_def get_product_data_def product_exists_def update_stock_def erase_def
  by (intro work_rules)+

lemma works_list_loop: "(\<And>r. works T t (g r)) \<Longrightarrow> works T t (list_loop pq t g i rows)"
  by (induction rows arbitrary: i) (simp_all only: list_loop.simps, (intro work_rules; simp)+)

lemma works_lists [work_rules]: "works T t (code_list pq t)" "works T t (name_list pq t)"
  unfolding code_list_def name_list_def by (intro work_rules works_list_loop)+

lemma works_current_list_size [work_rules]: "works T t (current_list_size pq t)"
  unfolding current_list_size_def by (intro work_rules)

lemma works_stock_loop [work_rules]: "works T t (stock_loop pq t i cs)"
  by (induction cs arbitrary: i) (simp_all only: stock_loop.simps, (intro work_rules; simp)+)

lemma works_draw_product_list [work_rules]: "works T t (draw_product_list pq t cs k c x)"
  unfolding draw_product_list_def by (intro work_rules)

lemma works_refresh [work_rules]:
  "works T t (calculate_visible_product_list pq t)" "works T t (compute_total pq t)" "works T t (draw_tab pq t cs k)"
  unfolding calculate_visible_product_list_def compute_total_def draw_tab_def
  by (intro work_rules; simp)+

lemma works_print_receipt [work_rules]: "works T t (print_receipt pq t)"
  unfolding print_receipt_def receipt_round_def by (intro work_rules; simp)

lemma ends_or_return [work_rules]:
  "works T t m \<Longrightarrow> (\<And>a. ends T t (f a)) \<Longrightarrow> ends T t (or_return m f)"
  unfolding or_return_def by (intro works_ends ends_cases ends_prims)

lemma ends_add_modify_product: "ends T t (add_modify_product pq t c b)"
  unfolding add_modify_product_def
  by (intro works_ends works_ends_sq ends_or_return ends_commit works_database works_app works_prims)

subsection \<open>Handlers\<close>

lemma calm_on_key: "calm T m \<Longrightarrow> calm T (on_key p v m)"
  unfolding on_key_def by (intro work_rules)

lemma calm_handle_quit [work_rules]: "calm T handle_quit"
  unfolding handle_quit_def by (intro calm_on_key work_rules)

lemma calm_simple_handlers [work_rules]:
  "calm T (handle_escape f)" "calm T handle_stock" "calm T handle_scroll_up" "calm T (handle_up k)"
  unfolding handle_escape_def handle_stock_def handle_scroll_up_def handle_up_def Let_def
  by (intro calm_on_key work_rules; simp)+

lemma calm_shift_window [work_rules]: "calm T (shift_window pq)"
  unfolding shift_window_def by (intro calm_with_work works_imp_ends work_rules; simp)

lemma calm_handle_remove [work_rules]: "calm T (handle_remove pq lst k)"
proof -
  have erasing: "calm S (with_work pq (\<lambda>tx3. bnd (vec_at lst k) (\<lambda>c. sq (erase pq tx3 c) (tx_commit pq tx3))))" for S k
    by (intro calm_with_work works_ends works_ends_sq ends_commit work_rules)
  have after: "calm S (bnd (gets visible_end) (\<lambda>e.
          bnd (if k = e then sq (shift_window pq) (ret (k - 1)) else ret k) (\<lambda>k.
          bnd (gets current_tab) (\<lambda>tab.
          sq (if tab = PRODUCTS \<or> tab = STOCK
              then with_work pq (\<lambda>tx3. bnd (vec_at lst k) (\<lambda>c. sq (erase pq tx3 c) (tx_commit pq tx3)))
              else if tab = BASKET then remove_from_basket lst k
              else ret ())
             (ret k)))))" for S
    by (intro erasing calm_steps calm_cases calm_prims calm_app calm_shift_window)
  show ?thesis
    unfolding handle_remove_def
    by (intro calm_on_key calm_with_work works_ends ends_cases ends_prims commit_then_calm after
        works_current_list_size)
qed

lemma calm_handle_add [work_rules]: "calm T (handle_add pq lst k)"
  unfolding handle_add_def
  by (intro calm_on_key calm_steps calm_whn calm_prims calm_with_work works_ends works_database ends_then_commit
      ends_cases ends_add_modify_product works_prims)

lemma ends_reset_commit:
  "ends T t (bnd (if b then reset_selection else ret v) (\<lambda>v. sq (tx_commit pq t) (ret v)))"
  by (intro works_ends ends_value ends_commit works_cases works_app works_prims)

lemma calm_handle_tab [work_rules]: "calm T (handle_tab pq v)"
  unfolding handle_tab_def
  by (intro calm_on_key calm_steps calm_prims calm_with_work works_ends works_current_list_size
      ends_reset_commit; simp)

lemma calm_handle_modify [work_rules]: "calm T (handle_modify pq lst k)"
  unfolding handle_modify_def
  by (intro calm_on_key calm_with_work works_ends works_current_list_size ends_then_commit ends_cases
      ends_add_modify_product works_imp_ends works_steps works_app works_prims)

lemma calm_handle_scroll_down [work_rules]: "calm T (handle_scroll_down pq)"
  unfolding handle_scroll_down_def
  by (intro calm_on_key calm_with_work works_ends works_ends_sq ends_commit works_current_list_size works_whn
      works_prims; simp)

lemma calm_to_basket:
  "calm T (sq (modify (\<lambda>w. w\<lparr>current_tab := BASKET\<rparr>))
     (bnd (gets basket) (\<lambda>bs. if size_t_of k \<ge> int (length bs) then reset_selection else ret v)))"
  by (intro work_rules; simp)

lemma calm_handle_enter [work_rules]: "calm T (handle_enter env lst v)"
  unfolding handle_enter_def
  by (intro calm_on_key calm_steps calm_prims calm_cases calm_with_work works_ends works_ends_sq works_database
      commit_then_calm calm_to_basket works_steps works_app works_prims)

lemma calm_handle_search [work_rules]: "calm T (handle_search env cs v)"
  unfolding handle_search_def
  by (intro calm_on_key calm_with_work works_ends_sq works_ends ends_cases ends_value ends_add_modify_product
      works_imp_ends[OF works_steps(1)] ends_prims works_sums works_steps works_lists works_cases works_database works_app
      works_draw_product_list works_prims; simp)

lemma calm_print_handlers [work_rules]: "calm T (handle_test_print pq)" "calm T (handle_checkout pq)"
  unfolding handle_test_print_def handle_checkout_def
  by (intro calm_on_key calm_with_work works_imp_ends work_rules; simp)+

lemma calm_handle_down [work_rules]: "calm T (handle_down pq lst v)"
  unfolding handle_down_def Let_def
  by (intro calm_on_key calm_with_work works_ends ends_value ends_commit works_cases works_steps
      works_current_list_size works_prims; simp)

lemma calm_handle_scan [work_rules]: "calm T (handle_scan env v)"
proof -
  have scanning: "calm T (with_work (e_pq env) (\<lambda>tx. bnd (gets current_tab) (\<lambda>tab.
      sq (whn (tab = BASKET \<or> tab = PRODUCTS)
            (bnd (product_exists (e_pq env) tx code) (\<lambda>found. if found
               then bnd (get_product_data (e_pq env) tx code) (\<lambda>p.
                    sq (bnd (gets (e_junk env)) (\<lambda>junk. add_product_to_basket junk p (dbl_of_int 1)))
                       (modify (\<lambda>w. w\<lparr>current_tab := BASKET\<rparr>)))
               else message_and_wait text_product_not_found)))
      (bnd (current_list_size (e_pq env) tx) (\<lambda>n.
         bnd (if fst v \<ge> n then reset_selection else ret v) (\<lambda>v. sq (tx_commit (e_pq env) tx) (ret v)))))))" for code
    by (intro calm_with_work works_ends works_ends_sq ends_reset_commit works_whn works_cases works_steps works_database
        works_current_list_size works_app works_prims; simp)
  show ?thesis
    unfolding handle_scan_def
    by (intro calm_steps calm_cases calm_prims calm_app scanning civil_rules; simp)
qed

lemma calm_handle_keys [work_rules]: "calm T (handle_keys env cs lst v)"
  unfolding handle_keys_def
  by (intro calm_steps calm_simple_handlers calm_handle_remove calm_handle_add calm_handle_tab calm_handle_modify
      calm_handle_scroll_down calm_handle_enter calm_handle_search calm_print_handlers calm_handle_down
      calm_handle_scan calm_prims)

subsection \<open>The main loop\<close>

lemma refresh_then_calm:
  assumes "\<And>x. calm (insert t T) (f x)"
  shows "ends T t (bnd (refresh_screen pq t k) f)"
proof -
  have "ends T t (sq (tx_commit pq t) (bnd (ret x) f))" for x
    by (intro commit_then_calm calm_steps calm_prims assms)
  then have last: "ends T t (bnd (tx_commit pq t) (\<lambda>_. bnd (ret x) f))" for x
    by (simp add: sq_def)
  show ?thesis
    unfolding refresh_screen_def bnd_assoc sq_def
    by (rule last | rule works_ends | rule works_lists works_refresh works_stock_loop works_prims)+
qed

lemma calm_main_round: "calm T (main_round env k)"
proof -
  have "calm S (case x of (product_codes, lst, indexed) \<Rightarrow>
      sq read_key (bnd handle_quit (\<lambda>quit. if quit then ret (Inr 0)
        else bnd (handle_keys env product_codes lst (k, indexed)) (\<lambda>k. ret (Inl k)))))" for S x
    by (cases x) (simp, intro calm_steps calm_app calm_handle_quit calm_cases calm_prims calm_handle_keys)
  then show ?thesis
    unfolding main_round_def by (intro calm_steps calm_with_work refresh_then_calm calm_prims)
qed

lemma calm_main: "calm T (main env)"
  unfolding main_def main_start_def
  by (intro calm_steps calm_cases calm_prims calm_app calm_main_round; simp)

text \<open>
  C1.  Whatever the server answers, whatever keys are pressed and wherever the run stops, \<open>main\<close> never
  makes libpqxx throw a \<open>usage_error\<close>; and when \<open>main\<close> returns or an exception leaves it, no
  transaction is open on the connection any more.  (Mistakes that libpqxx only mentions in a notice are another matter: the
  handlers of the keys for adding and modifying commit a transaction that \<open>add_modify_product\<close> has committed already, and libpqxx
  gives the notice that it was committed more than once.)
\<close>

theorem main_throws_no_usage_error:
  assumes "m_trans w = None"
  shows "fst (main env w) \<noteq> Inl (Throw (Usage_error m))
    \<and> (settled (fst (main env w)) \<longrightarrow> m_trans (snd (main env w)) = None)"
proof -
  obtain r w' where r: "main env w = (r, w')" by fastforce
  have "rest {} w" using assms by (simp add: rest_def)
  then have "case main env w of (Inl s, w') \<Rightarrow> polite (rest {}) s w' | (Inr a, w') \<Rightarrow> rest {} w'"
    using calm_main[of "{}" env] by (simp only: calm_def triple_def)
  with r show ?thesis
    by (cases r rule: settled.cases) (auto simp: polite_def rest_def)
qed

lemma sample_quits: "fst (main (sample_env no_rows) (sample_app [of_char (CHR ''q'')])) = Inr 0"
  by code_simp

theorem main_throws_no_usage_error_witness:
  "fst (main (sample_env no_rows) (sample_app [of_char (CHR ''q'')])) = Inr 0
    \<and> m_trans (snd (main (sample_env no_rows) (sample_app [of_char (CHR ''q'')]))) = None"
  using main_throws_no_usage_error[of "sample_app [of_char (CHR ''q'')]" "sample_env no_rows"] sample_quits
  by (simp add: sample_app_def initial_app_def)

end
