(* ===== verification/Menu_Safety.thy ===== *)
theory Menu_Safety
  imports App_Logic
begin

text \<open>
  The menus never index a vector out of range, and the only exceptions that leave them are those of
  \<open>stoi\<close> and \<open>stof\<close> on what the user typed.  The selection lists and drop-downs return an index of
  the list they were given.
\<close>

subsection \<open>Code that only waits or fails to read a number\<close>

definition number_stop :: "stop \<Rightarrow> bool" where
  "number_stop s \<longleftrightarrow> s = Waiting \<or> s = Throw Invalid_argument \<or> s = Throw Out_of_range"

definition tame :: "('w, 'a) prog \<Rightarrow> ('a \<Rightarrow> bool) \<Rightarrow> bool" where
  "tame m Q \<longleftrightarrow> triple (\<lambda>_. True) m (\<lambda>a _. Q a) (\<lambda>s _. number_stop s)"

named_theorems tame_rules \<open>rules for \<open>tame\<close>\<close>

lemma triple_if: "(b \<Longrightarrow> triple (\<lambda>_. True) m Q E) \<Longrightarrow> triple (\<lambda>_. b) m Q E"
  by (simp add: triple_def)

lemma tame_iff: "tame m Q \<longleftrightarrow> (\<forall>w. case fst (m w) of Inl s \<Rightarrow> number_stop s | Inr a \<Rightarrow> Q a)"
  by (simp add: tame_def triple_def prod.case_eq_if split: sum.split)

lemma tame_prims [tame_rules]:
  "tame (ret a) (\<lambda>_. True)" "tame (gets f) (\<lambda>_. True)" "tame (modify g) (\<lambda>_. True)" "tame (emit t) (\<lambda>_. True)"
  "tame (emits ts) (\<lambda>_. True)" "tame getyx (\<lambda>_. True)" "tame getch (\<lambda>_. True)"
  by (auto simp: tame_iff number_stop_def emit_def emits_def getyx_def getch_def prog_simps split: list.split)

lemma tame_ret: "Q a \<Longrightarrow> tame (ret a) Q"
  by (simp add: tame_iff prog_simps)

lemma tame_bnd: "tame m R \<Longrightarrow> (\<And>a. R a \<Longrightarrow> tame (f a) Q) \<Longrightarrow> tame (bnd m f) Q"
  unfolding tame_def by (rule triple_bnd) (auto intro: triple_if)

lemma tame_bnd_any [tame_rules]: "tame m (\<lambda>_. True) \<Longrightarrow> (\<And>a. tame (f a) Q) \<Longrightarrow> tame (bnd m f) Q"
  by (rule tame_bnd)

lemma tame_sq [tame_rules]: "tame m (\<lambda>_. True) \<Longrightarrow> tame n Q \<Longrightarrow> tame (sq m n) Q"
  unfolding sq_def by (rule tame_bnd)

lemma tame_cases [tame_rules]:
  "tame m Q \<Longrightarrow> tame n Q \<Longrightarrow> tame (if b then m else n) Q"
  "tame m Q \<Longrightarrow> (\<And>a. tame (f a) Q) \<Longrightarrow> tame (case x of None \<Rightarrow> m | Some a \<Rightarrow> f a) Q"
  "(\<And>a b. tame (g a b) Q) \<Longrightarrow> tame (case p of (a, b) \<Rightarrow> g a b) Q"
  by (auto split: option.split prod.split)

lemma tame_whn [tame_rules]: "tame m (\<lambda>_. True) \<Longrightarrow> tame (whn b m) (\<lambda>_. True)"
  by (simp add: whn_def tame_prims)

lemma tame_each [tame_rules]: "(\<And>x. tame (f x) (\<lambda>_. True)) \<Longrightarrow> tame (for_each xs f) (\<lambda>_. True)"
  by (induction xs) (simp_all add: tame_prims tame_sq)

lemma tame_vec_at: "0 \<le> i \<Longrightarrow> i < int (length xs) \<Longrightarrow> tame (vec_at xs i) (\<lambda>x. x \<in> set xs)"
  by (auto simp: vec_at_def intro!: tame_ret nth_mem)

lemma tame_while:
  assumes "\<And>s. J s \<Longrightarrow> tame (body s) (\<lambda>x. case x of Inl s' \<Rightarrow> J s' | Inr r \<Rightarrow> Q r)" and "J s"
  shows "tame (while_keys body s) Q"
proof -
  have eq: "(\<lambda>x _. case x of Inl s' \<Rightarrow> J s' | Inr r \<Rightarrow> Q r) = (\<lambda>x. case x of Inl s' \<Rightarrow> (\<lambda>_. J s') | Inr r \<Rightarrow> (\<lambda>_. Q r))"
    by (simp add: fun_eq_iff split: sum.split)
  have "triple (\<lambda>_. J s) (body s) (\<lambda>x. case x of Inl s' \<Rightarrow> (\<lambda>_. J s') | Inr r \<Rightarrow> (\<lambda>_. Q r)) (\<lambda>s _. number_stop s)" for s
    by (rule triple_if) (rule assms(1)[of s, unfolded tame_def eq])
  from while_keys_triple[where I = "\<lambda>s _. J s" and Q = "\<lambda>r _. Q r", OF this, of s] show ?thesis
    using assms(2) by (simp add: tame_def number_stop_def triple_def)
qed

lemma tame_weaken: "tame m Q \<Longrightarrow> (\<And>a. Q a \<Longrightarrow> R a) \<Longrightarrow> tame m R"
  unfolding tame_def by (erule triple_weaken) auto

lemma tame_numbers [tame_rules]:
  "tame (lift_exn (stoi s)) (\<lambda>_. True)" "tame (lift_exn (stof s)) (\<lambda>_. True)"
  by (auto simp: tame_iff number_stop_def lift_exn_def stoi_def sto_int_def stof_def Let_def prog_simps
      split: option.split prod.split double.split)

lemma tame_get_string [tame_rules]: "tame (get_string st s c ml) (\<lambda>_. True)"
proof -
  have "tame (edit_round st c iy ix v) (\<lambda>x. case x of Inl s' \<Rightarrow> True | Inr r \<Rightarrow> True)" for iy ix v
    unfolding edit_round_def edit_react_def Let_def
    by (rule tame_weaken[where Q = "\<lambda>_. True"]) (intro tame_rules, simp split: sum.split)
  then have "tame (while_keys (edit_round st c iy ix) v) (\<lambda>_. True)" for iy ix v
    by (intro tame_while[where J = "\<lambda>_. True"]) auto
  then show ?thesis unfolding get_string_def by (intro tame_rules)
qed

subsection \<open>Selections stay in range\<close>

definition in_range :: "int \<Rightarrow> int \<Rightarrow> bool" where
  "in_range n k \<longleftrightarrow> 0 \<le> k \<and> k < n"

lemma select_key_range:
  "in_range n s \<Longrightarrow> case select_key n b s k of Inl s' \<Rightarrow> in_range n s' | Inr r \<Rightarrow> pred_option (in_range n) r"
  by (auto simp: select_key_def in_range_def)

lemma drop_key_range:
  "in_range n s \<Longrightarrow> case drop_key n b s k of Inl s' \<Rightarrow> in_range n s' | Inr r \<Rightarrow> pred_option (in_range n) r"
  by (auto simp: drop_key_def in_range_def)

lemma sold_by_key_range:
  "in_range n s \<Longrightarrow> case sold_by_key n s k of Inl s' \<Rightarrow> in_range n s' | Inr r \<Rightarrow> pred_option (in_range n) r"
  by (auto simp: sold_by_key_def in_range_def)

lemma tame_draw_item [tame_rules]: "tame (draw_item c y x n s it) (\<lambda>_. True)"
  unfolding draw_item_def Let_def by (intro tame_rules)

lemma tame_selection_list:
  assumes "in_range (int (length (menu_options m))) s"
  shows "tame (selection_list m s b n) (pred_option (in_range (int (length (menu_options m)))))"
  unfolding selection_list_def
  by (rule tame_bnd_any[OF tame_prims(6)], rule tame_cases(3),
      rule tame_while[where J = "in_range (int (length (menu_options m)))"])
    (auto intro!: tame_sq tame_rules tame_bnd_any tame_ret select_key_range assms)

lemma tame_dropdown:
  assumes "in_range (int (length options)) s" "colors = [] \<or> length colors = length options"
  shows "tame (dropdown options colors b s) (pred_option (in_range (int (length options))))"
proof -
  let ?n = "int (length options)"
  have vec: "in_range ?n s \<Longrightarrow> tame (vec_at options s) (\<lambda>_. True)"
    "in_range ?n s \<Longrightarrow> colors \<noteq> [] \<Longrightarrow> tame (vec_at colors s) (\<lambda>_. True)" for s
    using assms(2) by (auto simp: in_range_def intro: tame_weaken[OF tame_vec_at])
  have col: "in_range ?n s \<Longrightarrow> tame (whn (colors \<noteq> []) (bnd (vec_at colors s) (\<lambda>c. emit (g c)))) (\<lambda>_. True)" for s g
    by (cases "colors = []") (auto simp: whn_def intro!: tame_rules vec)
  show ?thesis
    unfolding dropdown_def Let_def
    by (rule tame_bnd_any[OF tame_prims(6)], rule tame_cases(3), rule tame_while[where J = "in_range ?n"])
      (auto intro!: tame_sq tame_bnd_any tame_ret tame_prims drop_key_range assms(1) vec col)
qed

lemma tame_clear_messages [tame_rules]: "tame clear_messages (\<lambda>_. True)"
  unfolding clear_messages_def to_message_line_def print_times_def by (intro tame_rules)

subsection \<open>Running a menu\<close>

text \<open>Every menu that can be reached has an option.\<close>

primrec menu_ok :: "menu \<Rightarrow> bool" and item_ok :: "menu_item \<Rightarrow> bool" and data_ok :: "menu_item_data \<Rightarrow> bool" where
  "menu_ok (Menu options name centered) = (options \<noteq> [] \<and> list_all id (map item_ok options))"
| "item_ok (Menu_item label data color descr) = data_ok data"
| "data_ok (Submenu m) = menu_ok m"
| "data_ok (String_item v) = True"
| "data_ok (Funct a) = True"
| "data_ok (Int_item v) = True"
| "data_ok (Float_item v) = True"
| "data_ok (Bool_item v) = True"
| "data_ok (Exit_item v) = True"

lemma tame_edit_item [tame_rules]: "tame (edit_item d k) (\<lambda>_. True)"
proof -
  have act: "tame (run_action a) (\<lambda>_. True)" for a
    by (cases a) (simp_all add: get_barcode_prefix_def test_function_def, (intro tame_rules)+)
  show ?thesis
    unfolding edit_item_def by (cases d) (simp_all, (intro tame_rules act)+)
qed

lemma tame_menu_round:
  assumes "\<And>h ls k. h \<in> set hs \<Longrightarrow> tame (h ls k) (\<lambda>_. True)" and "length hs = length (menu_options m)"
    and "in_range (int (length hs)) (fst s)"
  shows "tame (menu_round m hs s) (\<lambda>x. case x of Inl s' \<Rightarrow> in_range (int (length hs)) (fst s') | Inr r \<Rightarrow> True)"
proof -
  let ?Q = "\<lambda>x. case x of Inl s' \<Rightarrow> in_range (int (length hs)) (fst s') | Inr r \<Rightarrow> True"
  have top: "tame (if menu_centered m then print_centered (menu_name m)
      else sq (emits (print_labels ls)) (emit (Move 2 0))) (\<lambda>_. True)" for ls
    unfolding print_centered_def by (intro tame_rules)
  have run: "tame (bnd (vec_at hs k) (\<lambda>h. bnd (h ls k) (\<lambda>(ex, ls). ret (if ex then Inr True else Inl (k, ls))))) ?Q"
    if "in_range (int (length hs)) k" for k ls
  proof (rule tame_bnd[OF tame_vec_at])
    show "tame (bnd (h ls k) (\<lambda>(ex, ls). ret (if ex then Inr True else Inl (k, ls)))) ?Q" if "h \<in> set hs" for h
      using that \<open>in_range _ k\<close> by (intro tame_bnd_any assms(1)) (auto intro!: tame_ret)
  qed (use that in \<open>simp_all add: in_range_def\<close>)
  have last: "tame (case outp of None \<Rightarrow> ret (Inr False) | Some k \<Rightarrow> bnd (vec_at hs k)
      (\<lambda>h. bnd (h ls k) (\<lambda>(ex, ls). ret (if ex then Inr True else Inl (k, ls))))) ?Q"
    if "pred_option (in_range (int (length hs))) outp" for outp ls
    using that run by (auto intro!: tame_ret split: option.split)
  have sel: "tame (selection_list m (fst s) True 0) (pred_option (in_range (int (length hs))))"
    using tame_selection_list[of m "fst s"] assms(2,3) by simp
  show ?thesis
    unfolding menu_round_def case_prod_beta
    by (rule tame_sq[OF tame_prims(4)], rule tame_sq[OF top], rule tame_bnd[OF sel], rule last[unfolded case_prod_beta])
qed

lemma tame_run_menu:
  "menu_ok m \<Longrightarrow> tame (run_menu f m ls :: (('db, 'z) app_scheme, bool) prog) (\<lambda>_. True)"
  "item_ok it \<Longrightarrow> tame (run_item f it ls k :: (('db, 'z) app_scheme, bool \<times> string list) prog) (\<lambda>_. True)"
  "data_ok d \<Longrightarrow> tame (run_data f d l ls k :: (('db, 'z) app_scheme, bool \<times> string list) prog) (\<lambda>_. True)"
proof (induction m and it and d arbitrary: ls and ls k and l ls k)
  case (Menu options name centered)
  have round: "tame (menu_round (Menu options name centered) (map (run_item f) options) s
        :: (('db, 'z) app_scheme, (int \<times> string list) + bool) prog)
      (\<lambda>x. case x of Inl s' \<Rightarrow> in_range (int (length options)) (fst s') | Inr r \<Rightarrow> True)"
    if "in_range (int (length options)) (fst s)" for s
    using tame_menu_round[of "map (run_item f) options" "Menu options name centered" s] that Menu
    by (auto simp: list_all_iff)
  show ?case
    using Menu.prems unfolding run_menu.simps
    by (intro tame_while[where J = "\<lambda>s. in_range (int (length options)) (fst s)"] round) (auto simp: in_range_def)
qed (auto intro!: tame_bnd_any tame_edit_item tame_ret)


text \<open>
  A drop-down that starts on one of its options returns the index of one of its options or, where that is
  allowed, nothing; it never reads an option or a colour out of range.
\<close>

theorem dropdown_in_range:
  assumes "0 \<le> selection" "selection < int (length options)" "colors = [] \<or> length colors = length options"
  shows "case fst (dropdown options colors can_return_nullopt selection w) of
      Inr (Some k) \<Rightarrow> 0 \<le> k \<and> k < int (length options)
    | Inr None \<Rightarrow> True
    | Inl s \<Rightarrow> s = Waiting \<or> s = Throw Invalid_argument \<or> s = Throw Out_of_range"
  using tame_dropdown[of options selection colors can_return_nullopt] assms
  by (fastforce simp: tame_iff in_range_def number_stop_def split: sum.splits option.splits)

theorem dropdown_in_range_witness:
  "fst (dropdown [''BUC'', ''KG'', ''M''] [] True 0 (sample_app [258, 258, 258, 258, 10])) = Inr (Some 1)
    \<and> (0::int) \<le> 1 \<and> (1::int) < int (length [''BUC'', ''KG'', ''M''])"
proof -
  have e: "fst (dropdown [''BUC'', ''KG'', ''M''] [] True 0 (sample_app [258, 258, 258, 258, 10])) = Inr (Some 1)"
    by code_simp
  have p: "(0::int) \<le> 0" "(0::int) < int (length [''BUC'', ''KG'', ''M''])" "[] = ([]::int list) \<or> length ([]::int list) = 3"
    by simp_all
  from dropdown_in_range[of 0 "[''BUC'', ''KG'', ''M'']" "[]" True "sample_app [258, 258, 258, 258, 10]"]
  show ?thesis by (simp add: e)
qed

text \<open>The choice of the unit in the product form.\<close>

lemma choose_sold_by_round:
  fixes w :: "('db, 'z) app_scheme"
  assumes "nr_of_selling_options w = 3" "in_range 3 s"
  shows "case sq clear_messages (sq (emit (Printw ''SOLD BY: '')) (bnd (vec_at text_sold_by s) (\<lambda>x.
      sq (emit (Printw x)) (bnd getch (\<lambda>k. bnd (gets nr_of_selling_options) (\<lambda>n. ret (sold_by_key n s k))))))) w of
    (Inr a, w') \<Rightarrow> (case a of Inl s' \<Rightarrow> (\<lambda>w. nr_of_selling_options w = 3 \<and> in_range 3 s')
      | Inr r \<Rightarrow> (\<lambda>_. pred_option (in_range 3) r)) w'
  | (Inl x, w') \<Rightarrow> x = Waiting"
proof -
  obtain w1 where w1: "clear_messages w = (Inr (), w1)" "nr_of_selling_options w1 = 3"
    using assms(1) by (simp add: clear_messages_def to_message_line_def print_times_def emit_def emits_def prog_simps numeral_2_eq_2)
  have v: "vec_at text_sold_by s = (ret (text_sold_by ! nat s) :: (('db, 'z) app_scheme, string) prog)"
    using assms(2) by (simp add: vec_at_def in_range_def text_sold_by_def)
  have r: "sold_by_key 3 s k = Inl s' \<Longrightarrow> in_range 3 s'" "sold_by_key 3 s k = Inr x \<Longrightarrow> pred_option (in_range 3) x" for k s' x
    using sold_by_key_range[OF assms(2), of k] by simp_all
  show ?thesis
    using w1 r
    by (auto simp: v sq_app bnd_app emit_def getch_def modify_app gets_app ret_app split: list.split sum.split)
qed

lemma choose_sold_by_triple:
  "triple (\<lambda>w. nr_of_selling_options w = 3) (choose_sold_by m) (\<lambda>r _. pred_option (in_range 3) r) (\<lambda>s _. s = Waiting)"
proof -
  let ?I = "\<lambda>s w. nr_of_selling_options w = 3 \<and> in_range 3 s"
  have "triple (?I s) (sq clear_messages (sq (emit (Printw ''SOLD BY: '')) (bnd (vec_at text_sold_by s) (\<lambda>x.
      sq (emit (Printw x)) (bnd getch (\<lambda>k. bnd (gets nr_of_selling_options) (\<lambda>n. ret (sold_by_key n s k))))))))
      (\<lambda>a. case a of Inl s' \<Rightarrow> ?I s' | Inr r \<Rightarrow> (\<lambda>_. pred_option (in_range 3) r)) (\<lambda>s _. s = Waiting)" for s
    unfolding triple_def by (intro allI impI choose_sold_by_round) simp_all
  then have loop: "triple (?I s) (while_keys (\<lambda>s. sq clear_messages (sq (emit (Printw ''SOLD BY: '')) (bnd (vec_at text_sold_by s) (\<lambda>x.
      sq (emit (Printw x)) (bnd getch (\<lambda>k. bnd (gets nr_of_selling_options) (\<lambda>n. ret (sold_by_key n s k)))))))) s)
      (\<lambda>r _. pred_option (in_range 3) r) (\<lambda>s _. s = Waiting)" for s
    by (rule while_keys_triple[where I = ?I]) simp
  have "in_range 3 (mesurments_int m)" by (cases m) (simp_all add: in_range_def)
  then show ?thesis unfolding choose_sold_by_def by (intro triple_weaken[OF loop]) simp_all
qed

text \<open>
  While there are three selling units, the choice of the unit ends with one of the three or is cancelled, and it
  never reads past the list of units; the unit chosen is the one whose number is stored with the product.
\<close>

theorem choose_sold_by_in_range:
  fixes w :: "('db, 'z) app_scheme"
  assumes "nr_of_selling_options w = 3"
  shows "case fst (choose_sold_by m w) of
      Inr (Some k) \<Rightarrow> 0 \<le> k \<and> k < 3 \<and> mesurments_int (to_mesurments k) = k
    | Inr None \<Rightarrow> True
    | Inl s \<Rightarrow> s = Waiting"
proof -
  obtain r w' where r: "choose_sold_by m w = (r, w')" by fastforce
  note tripleD[OF choose_sold_by_triple[of m], of w, OF assms]
  moreover have "mesurments_int (to_mesurments k) = k" if "in_range 3 k" for k
    using that by (auto simp: in_range_def to_mesurments_def)
  ultimately show ?thesis
    using r by (auto simp: in_range_def split: sum.splits option.splits)
qed

theorem choose_sold_by_in_range_witness:
  "fst (choose_sold_by PIECE (sample_app [259, 10])) = Inr (Some 2) \<and> mesurments_int (to_mesurments 2) = 2"
proof -
  have e: "fst (choose_sold_by PIECE (sample_app [259, 10])) = Inr (Some 2)" by code_simp
  have "nr_of_selling_options (sample_app [259, 10]) = 3" by (simp add: sample_app_def initial_app_def)
  from choose_sold_by_in_range[OF this, of PIECE] show ?thesis by (simp add: e)
qed

end
