(* ===== verification/Invariants.thy ===== *)
theory Invariants
  imports App_Logic
begin

text \<open>
  Invariants of whole runs of the program: the basket is well formed, the tab is one of the three,
  and the loops around \<open>getch\<close> are never cut short by their fuel.
\<close>

subsection \<open>The basket\<close>

text \<open>
  The basket as a finite map: the first entry of a code counts.  The quantities of a well-formed
  basket are whole numbers from 1 to \<open>2 ^ 53\<close>, as doubles.
\<close>

definition contents :: "basket_product list \<Rightarrow> int \<rightharpoonup> double" where
  "contents bs = map_of (map (\<lambda>b. (b_code b, b_quantity b)) bs)"

definition basket_ok :: "basket_product list \<Rightarrow> bool" where
  "basket_ok bs \<longleftrightarrow> distinct (map b_code bs)
     \<and> (\<forall>b \<in> set bs. \<exists>n. 1 \<le> n \<and> n \<le> 2 ^ 53 \<and> b_quantity b = dbl_of_int n)"

lemma basket_ok_Nil: "basket_ok []"
  by (simp add: basket_ok_def)

lemma contents_simps [simp]:
  "contents [] = Map.empty" "contents (b # bs) = (contents bs)(b_code b \<mapsto> b_quantity b)"
  by (simp_all add: contents_def)

lemma contents_append: "contents (bs @ cs) c = (case contents bs c of None \<Rightarrow> contents cs c | Some q \<Rightarrow> Some q)"
  by (simp add: contents_def map_add_def split: option.split)

lemma contents_None: "contents bs c = None \<longleftrightarrow> c \<notin> b_code ` set bs"
  by (simp add: contents_def map_of_eq_None_iff image_image)

text \<open>Adding one.\<close>

lemma add_loop_spec:
  "add_loop c q f bs = (found, bs') \<Longrightarrow>
     map b_code bs' = map b_code bs \<and> (found \<longleftrightarrow> (if bs = [] then f else c \<in> b_code ` set bs))
     \<and> contents bs' = (contents bs)(c := map_option (\<lambda>x. dbl_add x q) (contents bs c))"
proof (induction bs arbitrary: f found bs')
  case (Cons b bs)
  show ?case
  proof (cases "b_code b = c")
    case True
    with Cons.prems show ?thesis by auto
  next
    case False
    obtain g cs where g: "add_loop c q False bs = (g, cs)" by fastforce
    with Cons.prems False have "found = g" "bs' = b # cs" by auto
    with Cons.IH[OF g] False show ?thesis by (auto simp: fun_eq_iff)
  qed
qed auto

lemma add_loop_quantities:
  "add_loop c q f bs = (found, bs') \<Longrightarrow> b \<in> set bs' \<Longrightarrow>
     b \<in> set bs \<or> (\<exists>a \<in> set bs. b_quantity b = dbl_add (b_quantity a) q)"
  by (induction bs arbitrary: f found bs') (fastforce split: if_splits prod.splits simp: Let_def)+

lemma add_to_basket_contents:
  assumes "bs \<noteq> [] \<or> \<not> junk"
  shows "contents (add_to_basket junk c q bs) =
    (contents bs)(c \<mapsto> (case contents bs c of None \<Rightarrow> q | Some x \<Rightarrow> dbl_add x q))"
proof -
  obtain f cs where f: "add_loop c q junk bs = (f, cs)" by fastforce
  note spec = add_loop_spec[OF f]
  have found: "f \<longleftrightarrow> contents bs c \<noteq> None"
    using spec assms by (cases "bs = []") (auto simp: contents_None)
  then show ?thesis
    using spec f by (auto simp: add_to_basket_def fun_eq_iff contents_append split: option.split)
qed

lemma dbl_inc: "1 \<le> n \<Longrightarrow> n \<le> 2 ^ 53 \<Longrightarrow> \<exists>m. 1 \<le> m \<and> m \<le> 2 ^ 53 \<and> dbl_add (dbl_of_int n) (dbl_of_int 1) = dbl_of_int m"
proof (cases "n = 2 ^ 53")
  case True
  have "dbl_add (dbl_of_int (2 ^ 53)) (dbl_of_int 1) = dbl_of_int (2 ^ 53)" by code_simp
  with True show ?thesis by (intro exI[of _ "2 ^ 53"]) simp
next
  case False
  assume "1 \<le> n" "n \<le> 2 ^ 53"
  with False dbl_add_of_int[of n 1] show ?thesis by (intro exI[of _ "n + 1"]) simp
qed

lemma dbl_dec:
  assumes "1 \<le> n" "n \<le> 2 ^ 53"
  shows "dbl_sub (dbl_of_int n) (dbl_of_int 1) = dbl_of_int (n - 1)"
proof (cases "n = 2 ^ 53")
  case True
  have "dbl_sub (dbl_of_int (2 ^ 53)) (dbl_of_int 1) = dbl_of_int (2 ^ 53 - 1)" by code_simp
  with True show ?thesis by simp
next
  case False
  with assms dbl_sub_of_int[of n 1] show ?thesis by simp
qed

lemma basket_ok_add: "basket_ok bs \<Longrightarrow> basket_ok (add_to_basket junk c (dbl_of_int 1) bs)"
proof -
  assume ok: "basket_ok bs"
  obtain f cs where f: "add_loop c (dbl_of_int 1) junk bs = (f, cs)" by fastforce
  have "1 \<le> (1::int) \<and> 1 \<le> (2::int) ^ 53" by simp
  moreover have "\<exists>n. 1 \<le> n \<and> n \<le> 2 ^ 53 \<and> b_quantity b = dbl_of_int n" if "b \<in> set cs" for b
    using add_loop_quantities[OF f that] ok dbl_inc by (fastforce simp: basket_ok_def)
  moreover have "distinct (map b_code cs)" "\<not> f \<longrightarrow> c \<notin> b_code ` set cs"
    using add_loop_spec[OF f] ok by (auto simp: basket_ok_def simp flip: set_map split: if_splits)
  ultimately show ?thesis
    using f by (auto simp: add_to_basket_def basket_ok_def)
qed

text \<open>Removing one.\<close>

lemma find_in_basket_split:
  assumes "c \<in> b_code ` set bs"
  obtains xs b ys where "bs = xs @ b # ys" "b_code b = c" "c \<notin> b_code ` set xs" "find_in_basket c bs = length xs"
proof -
  let ?P = "\<lambda>b. b_code b \<noteq> c"
  have "dropWhile ?P bs \<noteq> []" using assms by (auto simp: dropWhile_eq_Nil_conv)
  then obtain b ys where d: "dropWhile ?P bs = b # ys" by (cases "dropWhile ?P bs") auto
  then have "b_code b = c" using hd_dropWhile[of ?P bs] by auto
  moreover have "bs = takeWhile ?P bs @ b # ys" using takeWhile_dropWhile_id[of ?P bs] d by simp
  moreover have "c \<notin> b_code ` set (takeWhile ?P bs)" by (auto dest: set_takeWhileD)
  ultimately show ?thesis by (intro that) (simp_all add: find_in_basket_def)
qed

lemma remove_one_split:
  assumes "bs = xs @ b # ys" "b_code b = c" "find_in_basket c bs = length xs"
  shows "remove_one c bs = Inr (if dbl_eq (dbl_sub (b_quantity b) (dbl_of_int 1)) (dbl_of_int 0) then xs @ ys
    else xs @ b\<lparr>b_quantity := dbl_sub (b_quantity b) (dbl_of_int 1)\<rparr> # ys)"
  using assms by (simp add: remove_one_def Let_def remove_at_def nth_append)

lemma find_in_basket_miss: "c \<notin> b_code ` set bs \<Longrightarrow> find_in_basket c bs = length bs"
  by (simp add: find_in_basket_def) (metis (mono_tags, lifting) image_eqI takeWhile_eq_all_conv)

lemma remove_one_missing: "c \<notin> b_code ` set bs \<Longrightarrow> remove_one c bs = Inl Index_out_of_range"
  by (simp add: remove_one_def find_in_basket_miss)

lemma remove_one_contents:
  assumes d: "distinct (map b_code bs)" and q: "contents bs c = Some q"
  shows "\<exists>bs'. remove_one c bs = Inr bs' \<and> contents bs' =
    (contents bs)(c := (let r = dbl_sub q (dbl_of_int 1) in if dbl_eq r (dbl_of_int 0) then None else Some r))"
proof -
  have "c \<in> b_code ` set bs" using q contents_None[of bs c] by auto
  then obtain xs b ys where s: "bs = xs @ b # ys" "b_code b = c" "c \<notin> b_code ` set xs"
      "find_in_basket c bs = length xs" by (rule find_in_basket_split)
  then have "contents xs c = None" "contents ys c = None" using d by (auto simp: contents_None)
  moreover from this q s have bq: "b_quantity b = q" by (simp add: contents_append)
  ultimately have "contents (if dbl_eq (dbl_sub q (dbl_of_int 1)) (dbl_of_int 0) then xs @ ys
      else xs @ b\<lparr>b_quantity := dbl_sub q (dbl_of_int 1)\<rparr> # ys) =
    (contents bs)(c := (let r = dbl_sub q (dbl_of_int 1) in if dbl_eq r (dbl_of_int 0) then None else Some r))"
    using s by (auto simp: Let_def fun_eq_iff contents_append split: option.split)
  then show ?thesis
    using remove_one_split[OF s(1,2,4)] bq by (intro exI conjI) auto
qed

lemma basket_ok_remove:
  assumes ok: "basket_ok bs" and r: "remove_one c bs = Inr bs'"
  shows "basket_ok bs'"
proof -
  have "c \<in> b_code ` set bs" using r remove_one_missing[of c bs] by auto
  then obtain xs b ys where s: "bs = xs @ b # ys" "b_code b = c" "c \<notin> b_code ` set xs"
      "find_in_basket c bs = length xs" by (rule find_in_basket_split)
  from ok s obtain n where n: "1 \<le> n" "n \<le> 2 ^ 53" "b_quantity b = dbl_of_int n"
    by (auto simp: basket_ok_def)
  have "dbl_eq (dbl_of_int (n - 1)) (dbl_of_int 0) \<longleftrightarrow> n = 1"
    using n dbl_eq_of_int[of "n - 1" 0] by simp
  then have bs': "bs' = (if n = 1 then xs @ ys else xs @ b\<lparr>b_quantity := dbl_of_int (n - 1)\<rparr> # ys)"
    using r remove_one_split[OF s(1,2,4), unfolded n(3) dbl_dec[OF n(1,2)]] by simp
  have "basket_ok (xs @ ys)" using ok s by (simp add: basket_ok_def)
  moreover have "basket_ok (xs @ b\<lparr>b_quantity := dbl_of_int (n - 1)\<rparr> # ys)" if "n \<noteq> 1"
    using ok s(1) n that by (auto simp: basket_ok_def intro: exI[of _ "n - 1"])
  ultimately show ?thesis by (simp add: bs')
qed

subsection \<open>Invariants of every run\<close>

interpretation bk: full_logic "\<lambda>w. basket_ok (basket w)" "\<lambda>_ w. basket_ok (basket w)" True
proof unfold_locales
  fix w :: "('a, 'b) app_scheme" and sv iv str n
  assume "basket_ok (basket w)"
  then show "basket_ok (basket (set_string_var sv str w))" "basket_ok (basket (set_int_var iv n w))"
    by (cases sv; cases iv; simp)+
qed (auto intro: basket_ok_add basket_ok_remove basket_ok_Nil)

text \<open>
  C2.  In every run of \<open>main\<close>, whatever the server and the user do and wherever the run stops, the basket
  stays well formed: no two entries have the same code, and every quantity is a whole number from 1 to
  \<open>2 ^ 53\<close>, stored exactly.
\<close>

theorem main_keeps_basket:
  assumes "basket_ok (basket w)"
  shows "basket_ok (basket (snd (main env w)))"
  using triple_snd[OF bk.main assms] .

definition two_teas :: "basket_product list" where
  "two_teas = [\<lparr>b_code = 7, b_quantity = dbl_of_int 2\<rparr>]"

lemma two_teas_ok: "basket_ok two_teas"
  by (auto simp: two_teas_def basket_ok_def intro: exI[of _ 2])

theorem main_keeps_basket_witness:
  "basket_ok (basket (snd (main (sample_env tea_rows) ((sample_app [of_char (CHR ''T''), 10])\<lparr>basket := two_teas\<rparr>))))"
  by (rule main_keeps_basket) (simp add: two_teas_ok)

text \<open>
  C28.  Adding a product: the entry of the product's code grows by the quantity, or appears with it, and no
  other entry changes, in every basket that is not empty.  In an empty basket it depends on the uninitialised flag: when it
  happens to be true, nothing is added.
\<close>

theorem add_to_basket_refines:
  "contents (add_to_basket junk c q bs) =
    (if bs = [] \<and> junk then contents bs else (contents bs)(c \<mapsto> (case contents bs c of None \<Rightarrow> q | Some x \<Rightarrow> dbl_add x q)))"
proof (cases "bs = [] \<and> junk")
  case False
  then show ?thesis using add_to_basket_contents[of bs junk c q] by auto
qed (simp add: add_to_basket_def)

text \<open>
  C29.  Removing one of a product from a well-formed basket with \<open>n\<close> of it: \<open>n - 1\<close> are left, no entry when
  that is zero, and no other entry changes.  For a code that is not in the basket the code reads past
  its end.
\<close>

theorem remove_one_refines:
  assumes "basket_ok bs"
  shows "case contents bs c of
      None \<Rightarrow> remove_one c bs = Inl Index_out_of_range
    | Some q \<Rightarrow> \<exists>n bs'. q = dbl_of_int n \<and> 1 \<le> n \<and> n \<le> 2 ^ 53 \<and> remove_one c bs = Inr bs' \<and> basket_ok bs'
        \<and> contents bs' = (contents bs)(c := if n = 1 then None else Some (dbl_of_int (n - 1)))"
proof (cases "contents bs c")
  case None
  then show ?thesis using remove_one_missing[of c bs] contents_None[of bs c] by simp
next
  case (Some q)
  then have "\<exists>b \<in> set bs. q = b_quantity b" using map_of_SomeD[of "map (\<lambda>b. (b_code b, b_quantity b)) bs" c q] by (auto simp: contents_def)
  then obtain n where n: "q = dbl_of_int n" "1 \<le> n" "n \<le> 2 ^ 53" using assms by (auto simp: basket_ok_def)
  have "distinct (map b_code bs)" using assms by (simp add: basket_ok_def)
  from remove_one_contents[OF this Some] obtain bs' where bs': "remove_one c bs = Inr bs'"
    "contents bs' = (contents bs)(c := (let r = dbl_sub q (dbl_of_int 1) in if dbl_eq r (dbl_of_int 0) then None else Some r))"
    by auto
  have "dbl_eq (dbl_of_int (n - 1)) (dbl_of_int 0) \<longleftrightarrow> n = 1" using n dbl_eq_of_int[of "n - 1" 0] by simp
  with bs' n basket_ok_remove[OF assms bs'(1)] Some show ?thesis by (auto simp: dbl_dec Let_def)
qed

theorem remove_one_refines_witness:
  "\<exists>bs'. remove_one 7 two_teas = Inr bs' \<and> contents bs' 7 = Some (dbl_of_int 1)"
proof -
  have c: "contents two_teas 7 = Some (dbl_of_int 2)" by (simp add: two_teas_def)
  have inj: "dbl_of_int 2 = dbl_of_int n \<Longrightarrow> 1 \<le> n \<Longrightarrow> n \<le> 2 ^ 53 \<Longrightarrow> n = 2" for n
  proof (cases "n = 2 ^ 53")
    case True
    have "dbl_of_int 2 \<noteq> dbl_of_int (2 ^ 53)" by code_simp
    then show "dbl_of_int 2 = dbl_of_int n \<Longrightarrow> 1 \<le> n \<Longrightarrow> n \<le> 2 ^ 53 \<Longrightarrow> n = 2" using True by simp
  next
    case False
    assume "dbl_of_int 2 = dbl_of_int n" "1 \<le> n" "n \<le> 2 ^ 53"
    then show "n = 2" using False dval_of_int[of n] dval_of_int[of 2] by simp
  qed
  from remove_one_refines[OF two_teas_ok, of 7] show ?thesis
    by (auto simp: c dest!: inj)
qed

interpretation kb: full_logic "\<lambda>w. length (keys w) \<le> n" "\<lambda>_ w. length (keys w) \<le> n" True for n
proof unfold_locales
  fix w :: "('a, 'b) app_scheme" and sv iv str k
  assume "length (keys w) \<le> n"
  then show "length (keys (set_string_var sv str w)) \<le> n" "length (keys (set_int_var iv k w)) \<le> n"
    by (cases sv; cases iv; simp)+
qed auto

subsection \<open>Loops are not cut short\<close>

text \<open>
  Every round of a loop around \<open>getch\<close> reads a key, so that the fuel of \<open>while_keys\<close> suffices and
  the loop satisfies the equation of the loop it models.
\<close>

lemma no_new_keysI: "(\<And>n. triple (\<lambda>w. length (keys w) \<le> n) m (\<lambda>_ w. length (keys w) \<le> n)
    (\<lambda>_ w. length (keys w) \<le> n)) \<Longrightarrow> no_new_keys m"
  unfolding no_new_keys_def by (metis order_refl triple_snd)

lemma reads_key_with_work:
  fixes body :: "nat \<Rightarrow> (('db, 'z) app_scheme, 'a) prog"
  assumes "\<And>t. reads_key (body t)"
  shows "reads_key (with_work pq body)"
  unfolding reads_key_def
proof (intro allI impI)
  fix w a w' assume "with_work pq body w = (Inr a, w')"
  then obtain t w1 w2 where b: "basic_transaction pq ''BEGIN'' w = (Inr t, w1)" "body t w1 = (Inr a, w2)"
      "w' = snd (work_destructor pq t w2)"
    by (auto simp: with_work_def bnd_def guard_with_def split: prod.splits sum.splits stop.splits)
  have "no_new_keys (basic_transaction pq c :: (('db, 'z) app_scheme, nat) prog)" for c
    by (intro no_new_keysI kb.calls kb.still_constructor)
  with b(1) have "length (keys w1) \<le> length (keys w)" by (metis no_new_keys_def snd_conv)
  moreover have "no_new_keys (work_destructor pq t :: (('db, 'z) app_scheme, unit) prog)" for t
    by (intro no_new_keysI kb.calls kb.still_destructor)
  with b(3) have "length (keys w') \<le> length (keys w2)" by (simp add: no_new_keys_def)
  moreover have "length (keys w2) < length (keys w1)" using assms b(2) by (simp add: reads_key_def)
  ultimately show "length (keys w') < length (keys w)" by simp
qed

lemma reads_key_read_key: "reads_key read_key"
  unfolding read_key_def by (rule reads_key_bnd1[OF reads_key_getch]) (simp add: no_new_keys_modify)

lemma reads_key_main_round: "reads_key (main_round env k)"
proof -
  have after: "no_new_keys (bnd handle_quit (\<lambda>quit. if quit then ret (Inr 0)
      else bnd (handle_keys env cs lst (k, i)) (\<lambda>k. ret (Inl k))) :: (('a, 'b) app_scheme, int + int) prog)" for cs lst i
    by (intro no_new_keysI kb.steps kb.simple_handlers kb.handle_keys)
  have body: "reads_key (bnd (refresh_screen (e_pq env) t k) (\<lambda>(cs, lst, i).
      sq read_key (bnd handle_quit (\<lambda>quit. if quit then ret (Inr 0)
        else bnd (handle_keys env cs lst (k, i)) (\<lambda>k. ret (Inl k)))))
      :: (('a, 'b) app_scheme, int + int) prog)" for t
    by (rule reads_key_bnd2) (auto intro!: no_new_keysI kb.refresh reads_key_sq1 reads_key_read_key after)
  show ?thesis
    unfolding main_round_def by (intro reads_key_sq2 reads_key_with_work body no_new_keys_emit)
qed

text \<open>
  The main loop is the loop of the code: it runs a round, stops when the round returns the exit code,
  and otherwise goes on with the new selection.  The number of rounds is bounded by the number of keys,
  so the model never stops because its fuel ran out.
\<close>

theorem main_loop_unfold:
  "while_keys (main_round env) selection =
     bnd (main_round env selection) (\<lambda>x. case x of Inl selection' \<Rightarrow> while_keys (main_round env) selection' | Inr code \<Rightarrow> ret code)"
  by (rule while_keys_unfold[OF reads_key_main_round])

text \<open>The same for the menus and for the receipt; then the program waits only when no key is left.\<close>

lemma reads_key_menus: "reads_key (menu_round m (map (run_item f) (menu_options m)) s)"
  by (rule reads_key_menu_round) (auto intro!: no_new_keysI kb.run_menu_all(2))

lemma reads_key_receipt_round: "reads_key (receipt_round pq t u)"
proof -
  have wait: "reads_key (message_and_wait x)" for x
    unfolding message_and_wait_def by (intro reads_key_sq2 key_rules reads_key_sq1[OF reads_key_getch])
  have asking: "reads_key (sq clear_messages (sq (emit x) (bnd getch (\<lambda>k. ret (g k)))))" for x g
    by (intro reads_key_sq2 reads_key_simple key_rules)
  have printer: "no_new_keys open_printer"
    by (intro no_new_keysI kb.open_printer)
  have rows: "no_new_keys (collect bs (\<lambda>b. bnd (get_product_data pq t (b_code b)) (\<lambda>p.
      gets (\<lambda>w. receipt_line w p (b_quantity b)))))" for bs
    by (intro no_new_keysI kb.steps kb.database)
  show ?thesis
    unfolding receipt_round_def
    by (rule reads_key_bnd2[OF no_new_keys_gets])
      (auto intro!: reads_key_sq1[OF wait] reads_key_bnd2 reads_key_sq2 asking printer rows key_rules)
qed

interpretation pr: full_logic "\<lambda>_. True" "\<lambda>s w. s = Waiting \<longrightarrow> keys w = []" False
  by unfold_locales (simp_all add: reads_key_menus reads_key_receipt_round reads_key_main_round)

text \<open>
  C33.  The program never waits while a key is available: when a run of \<open>main\<close> has not ended and nothing went
  wrong, it has handled every key that was pressed.  In particular every loop of the program that is
  entered is left or comes to a point where it reads the next key.
\<close>

theorem main_waits_only_without_keys:
  assumes "fst (main env w) = Inl Waiting"
  shows "keys (snd (main env w)) = []"
proof -
  obtain w' where w': "main env w = (Inl Waiting, w')" using assms by (cases "main env w") simp
  from pr.main[of env] have "case main env w of (Inl s, w') \<Rightarrow> s = Waiting \<longrightarrow> keys w' = [] | (Inr a, w') \<Rightarrow> True"
    by (simp only: triple_def)
  with w' show ?thesis by simp
qed

theorem main_waits_only_without_keys_witness:
  "keys (snd (main (sample_env no_rows) ((sample_app [of_char (CHR ''x'')])\<lparr>term_colors := False\<rparr>))) = []"
  by (rule main_waits_only_without_keys) code_simp

subsection \<open>The tab and the layout\<close>

text \<open>The variables that lay out the screen and that no function assigns.\<close>

definition layout :: "('db, 'z) app_scheme \<Rightarrow> int list" where
  "layout w = [message_x w, message_dist_from_bottom w, message_section_lines w, max_code_length w,
     max_product_quanity_length w, max_price_length w, nr_decimal_points w, nr_of_selling_options w, max_sold_by_name_length w]"

lemma layout_set_vars: "layout (set_string_var sv str w) = layout w" "layout (set_int_var iv n w) = layout w"
    "current_tab (set_string_var sv str w) = current_tab w" "current_tab (set_int_var iv n w) = current_tab w"
  by (cases sv; cases iv; simp add: layout_def)+

interpretation ly: full_logic "\<lambda>w. layout w = l \<and> current_tab w \<in> {PRODUCTS, BASKET, STOCK}"
    "\<lambda>_ w. layout w = l \<and> current_tab w \<in> {PRODUCTS, BASKET, STOCK}" True for l
  by unfold_locales (simp_all add: layout_set_vars, simp_all add: layout_def)

text \<open>
  In every run of \<open>main\<close> the tab is one of the three that the screen knows, and the widths of the
  columns, the place of the messages and the number of selling units keep their values.
\<close>

theorem main_keeps_layout:
  assumes "current_tab w \<in> {PRODUCTS, BASKET, STOCK}"
  shows "current_tab (snd (main env w)) \<in> {PRODUCTS, BASKET, STOCK} \<and> layout (snd (main env w)) = layout w"
  using triple_snd[OF ly.main[of "layout w" env], of w] assms by simp

theorem main_keeps_layout_witness:
  "current_tab (snd (main (sample_env tea_rows) (sample_app [9, 9, 10]))) \<in> {PRODUCTS, BASKET, STOCK}"
  using main_keeps_layout[of "sample_app [9, 9, 10]" "sample_env tea_rows"] by (simp add: sample_app_def initial_app_def)

end
