(* ===== verification/Receipts.thy ===== *)
theory Receipts
  imports Invariants
begin

text \<open>
  The receipt: what is printed, how often, and when the checkout clears the basket.
\<close>

subsection \<open>Checkout clears the basket only after printing\<close>

text \<open>Printing a receipt changes neither the basket nor the total.\<close>

interpretation rc: shop_logic "\<lambda>w. basket w = bs \<and> total w = x \<and> n \<le> length (printed w)"
    "\<lambda>_ w. basket w = bs \<and> total w = x \<and> n \<le> length (printed w)" True for bs x n
  by unfold_locales auto

abbreviation till :: "basket_product list \<Rightarrow> double \<Rightarrow> nat \<Rightarrow> ('db, 'z) app_scheme \<Rightarrow> bool" where
  "till bs x n w \<equiv> basket w = bs \<and> total w = x \<and> n \<le> length (printed w)"

lemma till_receipt_round:
  "triple (till bs x n) (receipt_round pq t u)
     (\<lambda>r. till bs x (if r = Inr False then n else Suc n)) (\<lambda>_. till bs x n)"
proof -
  have opened: "triple (till bs x n) open_printer (\<lambda>_. till bs x n) (\<lambda>_. till bs x n)"
    by (auto simp: triple_def open_printer_def split: list.split)
  have failed: "triple (till bs x n) (sq (message_and_wait s) (ret (Inr False)))
      (\<lambda>r. till bs x (if r = Inr False then n else Suc n)) (\<lambda>_. till bs x n)" for s
    by (rule rc.seq[OF rc.messages(2)]) (simp add: triple_ret)
  have log: "triple (till bs x n) (modify (\<lambda>w. w\<lparr>printed := printed w @ [r]\<rparr>)) (\<lambda>_. till bs x (Suc n)) (\<lambda>_. till bs x n)" for r
    by (simp add: triple_def modify_def)
  have ask: "triple (till bs x (Suc n)) (sq clear_messages (sq (emit (Printw text_reprint_receipt))
      (bnd getch (\<lambda>k. ret (if k = of_char (CHR ''y'') then Inl () else Inr True)))))
      (\<lambda>r. till bs x (if r = Inr False then n else Suc n)) (\<lambda>_. till bs x n)"
    by (rule triple_weaken[where Q = "\<lambda>r. (\<lambda>w. r \<noteq> Inr False \<and> till bs x (Suc n) w)" and E = "\<lambda>_. till bs x (Suc n)"])
      (rule rc.seq[OF rc.messages(1)], rule rc.seq[OF rc.emit(1)], rule rc.bind[OF rc.getch], auto intro!: triple_ret)
  show ?thesis
    unfolding receipt_round_def
    by (rule rc.bind[OF rc.get], rule rc.cond[OF failed], rule triple_bnd[OF opened], rule rc.cond[OF failed],
        rule rc.bind[OF rc.get], rule rc.bind[OF rc.coll[OF rc.bind[OF rc.database(2) rc.get]]],
        rule rc.bind[OF rc.get], unfold sq_def, rule triple_bnd[OF log ask[unfolded sq_def]])
qed

lemma till_print_receipt:
  "triple (till bs x n) (print_receipt pq t) (\<lambda>ok. till bs x (if ok then Suc n else n)) (\<lambda>_. till bs x n)"
proof -
  have "triple (till bs x n) (receipt_round pq t u)
      (\<lambda>r. case r of Inl u' \<Rightarrow> till bs x n | Inr ok \<Rightarrow> till bs x (if ok then Suc n else n)) (\<lambda>_. till bs x n)" for u
    by (rule triple_weaken[OF till_receipt_round]) (auto split: sum.split if_splits)
  then show ?thesis
    unfolding print_receipt_def
    by (rule while_keys_triple[where I = "\<lambda>_. till bs x n" and Q = "\<lambda>ok. till bs x (if ok then Suc n else n)"]) simp
qed

text \<open>Either nothing is cleared, or a receipt was printed before.\<close>

definition cleared_after :: "basket_product list \<Rightarrow> double \<Rightarrow> nat \<Rightarrow> ('db, 'z) app_scheme \<Rightarrow> bool" where
  "cleared_after bs x n w \<longleftrightarrow>
     basket w = bs \<and> total w = x \<or> basket w = [] \<and> total w = dbl_of_int 0 \<and> n < length (printed w)"

interpretation ca: session_frame "cleared_after bs x n" for bs x n
  by unfold_locales (simp_all add: cleared_after_def)

lemma cleared_after_checkout:
  "triple (till bs x n) (handle_checkout pq) (\<lambda>_. cleared_after bs x n) (\<lambda>_. cleared_after bs x n)"
proof -
  let ?C = "cleared_after bs x n"
  have weak: "till bs x n w \<Longrightarrow> ?C w" for w by (simp add: cleared_after_def)
  have clearing: "triple (till bs x (if ok then Suc n else n)) (whn ok (modify (\<lambda>w. w\<lparr>basket := [], total := dbl_of_int 0\<rparr>)))
      (\<lambda>_. ?C) (\<lambda>_. till bs x n)" for ok
    by (auto simp: triple_def whn_def prog_simps cleared_after_def)
  have body: "triple (till bs x n) (sq printing_receipt (bnd (print_receipt pq t) (\<lambda>ok.
      whn ok (modify (\<lambda>w. w\<lparr>basket := [], total := dbl_of_int 0\<rparr>))))) (\<lambda>_. ?C) (\<lambda>_. ?C)" for t
    by (rule triple_weaken[OF rc.seq[OF rc.messages(3) triple_bnd[OF till_print_receipt clearing]]]) (auto simp: cleared_after_def)
  have scope: "triple (till bs x n) (with_work pq (\<lambda>t. sq printing_receipt (bnd (print_receipt pq t) (\<lambda>ok.
      whn ok (modify (\<lambda>w. w\<lparr>basket := [], total := dbl_of_int 0\<rparr>)))))) (\<lambda>_. ?C) (\<lambda>_. ?C)"
    by (rule ca.with_work_ends[OF rc.still_constructor weak body])
  have g: "triple (till bs x n) (gets key) (\<lambda>_. till bs x n) (\<lambda>_. ?C)"
    by (simp add: triple_def gets_def)
  show ?thesis
    unfolding handle_checkout_def on_key_def
    by (rule triple_bnd[OF g]) (auto intro!: scope triple_ret simp: cleared_after_def)
qed

text \<open>
  C32.  The checkout clears the basket and the total only after at least one receipt was printed.  In every other
  outcome, an exception or a wait for a key included, basket and total are what they were.
\<close>

theorem checkout_clears_after_printing:
  fixes w :: "('db, 'z) app_scheme"
  shows "let w' = snd (handle_checkout pq w) in
      (basket w' = basket w \<and> total w' = total w)
    \<or> (basket w' = [] \<and> total w' = dbl_of_int 0 \<and> length (printed w) < length (printed w'))"
proof -
  have "till (basket w) (total w) (length (printed w)) w" by simp
  from tripleD[OF cleared_after_checkout[of _ _ _ pq] this]
  have "cleared_after (basket w) (total w) (length (printed w)) (snd (handle_checkout pq w))"
    by (cases "handle_checkout pq w"; cases "fst (handle_checkout pq w)") simp_all
  then show ?thesis by (simp add: cleared_after_def Let_def)
qed

subsection \<open>What is printed\<close>

text \<open>
  Within a transaction the table of products does not change: \<open>reads_products pq t prd w\<close> says that
  the products of the basket can be read, whatever the state \<open>d\<close> of the back end that the
  statements before have left.
\<close>

definition reads_products ::
  "'db libpq \<Rightarrow> nat \<Rightarrow> (int \<Rightarrow> product) \<Rightarrow> ('db, 'z) app_scheme \<Rightarrow> bool" where
  "reads_products pq t prd w \<longleftrightarrow> (\<forall>c \<in> b_code ` set (basket w). \<forall>v :: ('db, 'z) app_scheme. txs v = txs w \<longrightarrow> m_trans v = m_trans w \<longrightarrow>
     (\<exists>d. get_product_data pq t c v = (Inr (prd c), v\<lparr>db := d\<rparr>)))"

definition receipt :: "(int \<Rightarrow> product) \<Rightarrow> ('db, 'z) app_scheme \<Rightarrow> string" where
  "receipt prd w = receipt_head w
     @ concat (map (\<lambda>b. receipt_line w (prd (b_code b)) (b_quantity b)) (basket w)) @ receipt_foot w"

lemma reads_productsD:
  fixes v w :: "('db, 'z) app_scheme"
  assumes "reads_products pq t prd w" "c \<in> b_code ` set (basket w)" "txs v = txs w" "m_trans v = m_trans w"
  shows "\<exists>d. get_product_data pq t c v = (Inr (prd c), v\<lparr>db := d\<rparr>)"
  using assms(1)[unfolded reads_products_def, rule_format, OF assms(2-4)] .

lemma receipt_rows:
  assumes "reads_products pq t prd w" "set bs \<subseteq> set (basket w)"
  shows "\<exists>d. collect bs (\<lambda>b. bnd (get_product_data pq t (b_code b)) (\<lambda>p. gets (\<lambda>w. receipt_line w p (b_quantity b)))) (w\<lparr>db := d0\<rparr>)
    = (Inr (map (\<lambda>b. receipt_line w (prd (b_code b)) (b_quantity b)) bs), w\<lparr>db := d\<rparr>)"
  using assms(2)
proof (induction bs arbitrary: d0)
  case (Cons b bs)
  have "b_code b \<in> b_code ` set (basket w)" using Cons.prems by auto
  from reads_productsD[OF assms(1) this, of "w\<lparr>db := d0\<rparr>"]
  obtain d where "get_product_data pq t (b_code b) (w\<lparr>db := d0\<rparr>) = (Inr (prd (b_code b)), w\<lparr>db := d\<rparr>)" by auto
  with Cons.IH[of d] Cons.prems show ?case
    by (auto simp: prog_simps receipt_line_def)
qed (auto simp: prog_simps)

lemma receipt_parts_frame [simp]:
  "receipt_line (w\<lparr>opens := os\<rparr>) = receipt_line w" "receipt_line (w\<lparr>db := d\<rparr>) = receipt_line w"
  "receipt_line (w\<lparr>printed := ps\<rparr>) = receipt_line w" "receipt_line (w\<lparr>screen := sc\<rparr>) = receipt_line w"
  "receipt_line (w\<lparr>keys := ks\<rparr>) = receipt_line w"
  by (simp_all add: receipt_line_def fun_eq_iff)

lemma receipt_round_prints:
  assumes "reads_products pq t prd w" "basket w \<noteq> []" "keys w = k # ks" "opens w = True # os"
  shows "\<exists>w'. receipt_round pq t () w = (Inr (if k = of_char (CHR ''y'') then Inl () else Inr True), w')
    \<and> keys w' = ks \<and> opens w' = os \<and> printed w' = printed w @ [receipt prd w] \<and> basket w' = basket w
    \<and> receipt prd w' = receipt prd w \<and> reads_products pq t prd w'"
proof -
  let ?v = "w\<lparr>opens := os\<rparr>"
  have "reads_products pq t prd ?v" using assms(1) by (simp add: reads_products_def)
  from receipt_rows[OF this, of "basket w" "db w"] obtain d where
    "collect (basket w) (\<lambda>b. bnd (get_product_data pq t (b_code b)) (\<lambda>p. gets (\<lambda>w. receipt_line w p (b_quantity b)))) ?v
      = (Inr (map (\<lambda>b. receipt_line ?v (prd (b_code b)) (b_quantity b)) (basket w)), ?v\<lparr>db := d\<rparr>)"
    by auto
  then show ?thesis
    using assms
    by (simp add: reads_products_def receipt_round_def prog_simps open_printer_def clear_messages_def to_message_line_def print_times_def
        emit_def emits_def getch_def numeral_2_eq_2 receipt_def receipt_head_def receipt_foot_def)
qed

text \<open>
  C31.  Printing a receipt for a non-empty basket writes the head, one entry per basket entry in the order of the
  basket, and the total; it writes it once and once more for every \<open>y\<close> that answers the question for another
  copy, and returns that it succeeded.
\<close>

theorem print_receipt_copies:
  assumes "reads_products pq t prd w" "basket w \<noteq> []"
    and "keys w = replicate n (of_char (CHR ''y'')) @ k # ks" "k \<noteq> of_char (CHR ''y'')"
    and "opens w = replicate (Suc n) True @ os"
  shows "\<exists>w'. print_receipt pq t w = (Inr True, w') \<and> printed w' = printed w @ replicate (Suc n) (receipt prd w)
    \<and> keys w' = ks \<and> basket w' = basket w"
  using assms
proof (induction n arbitrary: w)
  case 0
  then obtain w' where "receipt_round pq t () w = (Inr (Inr True), w')" "keys w' = ks" "basket w' = basket w"
      "printed w' = printed w @ [receipt prd w]"
    using receipt_round_prints[of pq t prd w k ks os] by auto
  then show ?case
    unfolding print_receipt_def
    by (subst while_keys_unfold[OF reads_key_receipt_round]) (simp add: bnd_def ret_def)
next
  case (Suc n)
  then obtain v where r: "receipt_round pq t () w = (Inr (Inl ()), v)" and v: "reads_products pq t prd v"
      "keys v = replicate n (of_char (CHR ''y'')) @ k # ks" "opens v = replicate (Suc n) True @ os"
      "printed v = printed w @ [receipt prd w]" "basket v = basket w" "receipt prd v = receipt prd w"
    using receipt_round_prints[of pq t prd w "of_char (CHR ''y'')" "replicate n (of_char (CHR ''y'')) @ k # ks"
        "replicate (Suc n) True @ os"] by auto
  have "print_receipt pq t w = print_receipt pq t v"
    unfolding print_receipt_def
    by (subst while_keys_unfold[OF reads_key_receipt_round]) (simp add: bnd_def r)
  with Suc.IH[of v] Suc.prems v show ?case by auto
qed
theorem print_receipt_copies_witness:
  "\<exists>w'. print_receipt (answering tea_rows) 0 (serving ((sample_app [of_char (CHR ''y''), of_char (CHR ''n'')])
      \<lparr>basket := two_teas, opens := [True, True]\<rparr>)) = (Inr True, w') \<and> length (printed w') = 2"
proof -
  let ?w = "serving ((sample_app [of_char (CHR ''y''), of_char (CHR ''n'')])\<lparr>basket := two_teas, opens := [True, True]\<rparr>)"
  have "reads_products (answering tea_rows) 0 (\<lambda>_. tea) ?w"
    unfolding reads_products_def
  proof (intro ballI allI impI)
    fix c and v :: "unit app"
    assume "c \<in> b_code ` set (basket ?w)" "txs v = txs ?w" "m_trans v = m_trans ?w"
    then show "\<exists>d. get_product_data (answering tea_rows) 0 c v = (Inr tea, v\<lparr>db := d\<rparr>)"
      using serving_owned[of v] by (auto simp: serving_def two_teas_def get_product_tea intro!: exI[of _ "db v"])
  qed
  moreover have "basket ?w \<noteq> []" "opens ?w = replicate (Suc 1) True @ []" "printed ?w = []"
      "keys ?w = replicate 1 (of_char (CHR ''y'')) @ of_char (CHR ''n'') # []" "of_char (CHR ''n'') \<noteq> (of_char (CHR ''y'') :: int)"
    by (simp_all add: serving_def two_teas_def sample_app_def initial_app_def)
  ultimately show ?thesis
    using print_receipt_copies[of "answering tea_rows" 0 "\<lambda>_. tea" ?w 1 "of_char (CHR ''n'')" "[]" "[]"] by auto
qed

end
