(* ===== verification/Money.thy ===== *)
theory Money
  imports Pqxx_Convert
begin

text \<open>
  Amounts of money.  A price with up to six decimals is the double nearest to a fraction
  \<open>n / 10 ^ 6\<close>; \<open>std::to_string\<close> prints it and libpqxx reads it back.  Up to more than eight
  thousand million the double read is the double printed.
\<close>

subsection \<open>Rounding to the nearest integer\<close>

lemma rne_dist:
  assumes "0 < y"
  shows "2 * \<bar>rne x y * y - x\<bar> \<le> y"
proof -
  define q r where "q = x div y" and "r = x mod y"
  have x: "x = q * y + r" by (simp add: q_def r_def)
  have r: "0 \<le> r" "r < y" using assms by (simp_all add: r_def)
  have "rne x y = q \<and> 2 * r \<le> y \<or> rne x y = q + 1 \<and> y \<le> 2 * r"
    unfolding rne_def Let_def q_def[symmetric] r_def[symmetric] by auto
  then have "rne x y * y - x = - r \<and> 2 * r \<le> y \<or> rne x y * y - x = y - r \<and> y \<le> 2 * r"
    by (subst (1 2) x) (auto simp: distrib_right)
  then show ?thesis using r by auto
qed

lemma rne_near:
  assumes y: "0 < y" and q: "2 * \<bar>q * y - x\<bar> < y"
  shows "rne x y = q"
proof -
  have d: "2 * \<bar>rne x y * y - x\<bar> \<le> y" using y by (rule rne_dist)
  have tri: "2 * \<bar>a - b\<bar> < 2 * y" if "2 * \<bar>a - x\<bar> \<le> y" "2 * \<bar>b - x\<bar> < y" for a b :: int
    using that abs_triangle_ineq4[of "a - x" "b - x"] by simp
  have "\<bar>(rne x y - q) * y\<bar> < 1 * y" using tri[OF d q] by (simp only: left_diff_distrib) simp
  then have "\<bar>rne x y - q\<bar> * y < 1 * y" using y by (simp only: abs_mult abs_of_pos)
  then have "\<bar>rne x y - q\<bar> < 1" using y by (simp only: mult_less_cancel_right_pos)
  then show ?thesis by simp
qed

lemma rne_nonneg: "0 \<le> x \<Longrightarrow> 0 < y \<Longrightarrow> 0 \<le> rne x y"
proof -
  assume "0 \<le> x" "0 < y"
  then have "0 \<le> x div y" by (simp add: pos_imp_zdiv_nonneg_iff)
  then show "0 \<le> rne x y" by (simp add: rne_def Let_def)
qed

subsection \<open>Amounts\<close>

text \<open>The double for \<open>n\<close> millionths.\<close>

definition amount :: "int \<Rightarrow> double" where
  "amount n = round_frac False n (10 ^ 6)"

definition small_amount :: "int \<Rightarrow> bool" where
  "small_amount n \<longleftrightarrow> 0 \<le> n \<and> n < 2 ^ 33 * 10 ^ 6"

lemma amount_exponent:
  assumes "0 < n" "small_amount n"
  shows "- 72 \<le> flog2 n (10 ^ 6) - 52 \<and> flog2 n (10 ^ 6) - 52 \<le> - 20"
proof -
  let ?l = "flog2 n (10 ^ 6)"
  have b: "2 powi ?l \<le> real_of_int n / 10 ^ 6" "real_of_int n / 10 ^ 6 < 2 powi (?l + 1)"
    using flog2_bounds[of n "10 ^ 6"] assms by simp_all
  have "real_of_int n < real_of_int (2 ^ 33 * 10 ^ 6)" using assms(2) unfolding small_amount_def of_int_less_iff by simp
  then have "real_of_int n / 10 ^ 6 < 2 powi 33" by (simp add: power_int_def)
  with b(1) have "(2::real) powi ?l < 2 powi 33" by linarith
  then have u: "?l < 33" by (metis linorder_not_less one_le_numeral power_int_increasing)
  have "(1::real) \<le> real_of_int n" using assms(1) by simp
  then have "1 / 10 ^ 6 \<le> real_of_int n / 10 ^ 6" by simp
  moreover have "(2::real) powi (- 20) < 1 / 10 ^ 6" by (simp add: power_int_def power_one_over)
  ultimately have "(2::real) powi (- 20) < 2 powi (?l + 1)" using b(2) by linarith
  then have "- 20 < ?l + 1" by (metis linorder_not_less one_le_numeral power_int_increasing)
  with u show ?thesis by simp
qed

lemma amount_scaled:
  assumes "0 < n" "small_amount n"
  shows "\<exists>m e. amount n = Fin False m e \<and> 0 < m \<and> scaled 6 m e = n"
proof -
  define e where "e = flog2 n (10 ^ 6) - 52"
  have e: "- 72 \<le> e" "e \<le> - 20" using amount_exponent[OF assms] by (simp_all add: e_def)
  define D :: int where "D = 2 ^ nat (- e)"
  have "(2::int) ^ 20 \<le> D" unfolding D_def using e(2) by (intro power_increasing) auto
  then have D: "10 ^ 6 < D" "0 < D" by simp_all
  define m where "m = rne (n * D) (10 ^ 6)"
  have "2 * \<bar>m * 10 ^ 6 - n * D\<bar> \<le> 10 ^ 6" unfolding m_def by (rule rne_dist) simp
  then have near: "rne (m * 10 ^ 6) D = n" using D by (intro rne_near) (simp_all add: abs_minus_commute)
  have a: "amount n = (if m = 2 ^ 53 then Fin False (2 ^ 52) (e + 1) else Fin False m e)"
  proof -
    have "max (flog2 n (10 ^ 6) - 52) (- 1074) = e" using e by (simp add: e_def)
    then have "round_pos False n (10 ^ 6) = (if m = 2 ^ 53 then (if e + 1 > 971 then Inf False else Fin False (2 ^ 52) (e + 1))
        else if e > 971 then Inf False else Fin False m e)"
      unfolding round_pos_def Let_def using e by (simp add: m_def D_def)
    then show ?thesis using assms(1) e by (simp add: amount_def round_frac_def)
  qed
  show ?thesis
  proof (cases "m = 2 ^ 53")
    case True
    have "D = 2 * 2 ^ nat (- (e + 1))"
      unfolding D_def using e(2) by (simp flip: power_Suc add: Suc_nat_eq_nat_zadd1)
    then have "rne (2 ^ 52 * 10 ^ 6) (2 ^ nat (- (e + 1))) = n"
      using near rne_scale[of 2 "2 ^ nat (- (e + 1))" "2 ^ 52 * 10 ^ 6"] True by simp
    then show ?thesis using a True e(2) by (auto simp: scaled_def fden_def)
  next
    case False
    have "m \<noteq> 0" using near assms(1) D(2) by (auto simp: rne_def Let_def)
    moreover have "0 \<le> m" unfolding m_def using assms(1) D(2) by (intro rne_nonneg) simp_all
    ultimately show ?thesis using a False near e(2) by (auto simp: scaled_def fden_def D_def)
  qed
qed

subsection \<open>Printing and reading\<close>

lemma digits_val_append: "digits_val (s @ t) = digits_val s * 10 ^ length t + digits_val t"
proof (induction t rule: rev_induct)
  case (snoc c t)
  then show ?case by (simp add: digits_val_snoc flip: append_assoc)
qed (simp add: digits_val_def)

lemma digits_val_pad0: "digits_val (pad0 k s) = digits_val s"
proof -
  have "digits_val (replicate j (CHR ''0'')) = 0" for j
    by (induction j) (simp_all add: digits_val_def digit_val_def replicate_append_same[symmetric])
  then show ?thesis by (simp add: pad0_def digits_val_append)
qed

lemma pad0_digits: "list_all is_digit s \<Longrightarrow> list_all is_digit (pad0 k s)"
proof -
  have "is_digit (CHR ''0'')" by (simp add: is_digit_def)
  then show "list_all is_digit s \<Longrightarrow> list_all is_digit (pad0 k s)"
    by (auto simp: pad0_def list_all_iff)
qed

text \<open>Digits, a point and six digits, as \<open>fmt_fixed\<close> prints a value that is not negative.\<close>

definition six_decimals :: "int \<Rightarrow> string" where
  "six_decimals n = dec (n div 10 ^ 6) @ ''.'' @ pad0 6 (dec (n mod 10 ^ 6))"

lemma scan_six_decimals:
  assumes "0 \<le> n"
  shows "scan_decimal False (six_decimals n) = Some (round_frac False n (10 ^ 6), [])"
proof -
  let ?i = "dec (n div 10 ^ 6)" and ?f = "pad0 6 (dec (n mod 10 ^ 6))"
  have i: "list_all is_digit ?i" using assms by (intro dec_digits) simp
  have f: "list_all is_digit ?f" by (intro pad0_digits dec_digits) simp
  have dot: "\<not> is_digit (CHR ''.'')" by (simp add: is_digit_def)
  have len: "length ?f = 6" by (intro length_pad0 length_dec_le) simp_all
  have val: "digits_val (?i @ ?f) = n"
    unfolding digits_val_append len using assms by (simp add: digits_val_pad0)
  have "takeWhile is_digit (six_decimals n) = ?i" "dropWhile is_digit (six_decimals n) = ''.'' @ ?f"
    using i dot unfolding six_decimals_def by (simp_all add: takeWhile_append dropWhile_append list_all_iff)
  then show ?thesis
    using i f val len by (simp add: scan_decimal_def scan_decimal_by_def Let_def scan_exponent_def)
qed

lemma special_needs_letter: "s \<noteq> [] \<Longrightarrow> is_digit (hd s) \<Longrightarrow> scan_special neg s = None"
proof -
  assume "s \<noteq> []" "is_digit (hd s)"
  then obtain c r where s: "s = c # r" "is_digit c" by (cases s) auto
  then have "lower_c c = c" "c \<noteq> CHR ''i''" "c \<noteq> CHR ''n''" by (auto simp: lower_c_def is_digit_def)
  then show ?thesis using s by (simp add: scan_special_def Let_def)
qed

lemma read_six_decimals:
  assumes "0 \<le> n" "round_frac False n (10 ^ 6) = Fin False m e" "m = 0 \<longrightarrow> n = 0"
  shows "from_string_double (six_decimals n) = Inr (Fin False m e)"
proof -
  have hd: "six_decimals n \<noteq> []" "is_digit (hd (six_decimals n))"
    using assms(1) digits_hd[of "dec (n div 10 ^ 6)"] dec_digits[of "n div 10 ^ 6"] by (simp_all add: six_decimals_def)
  then have c: "hd (six_decimals n) \<noteq> CHR ''-''" "hd (six_decimals n) \<noteq> CHR '' ''" "hd (six_decimals n) \<noteq> CHR 0x09"
    by (auto simp: is_digit_def)
  have blanks: "dropWhile (\<lambda>c. c = CHR '' '' \<or> c = CHR 0x09) (six_decimals n) = six_decimals n"
    using hd c by (cases "six_decimals n") auto
  have zero: "\<not> list_ex (\<lambda>c. is_digit c \<and> c \<noteq> CHR ''0'') (takeWhile (\<lambda>c. is_digit c \<or> c = CHR ''.'') (six_decimals n))" if "m = 0"
  proof -
    have "six_decimals 0 = ''0.000000''" by code_simp
    then show ?thesis using that assms(3) by (simp add: is_digit_def)
  qed
  have "from_chars_double (six_decimals n) = (Fin False m e, Errc_ok, [])"
    using hd c zero scan_six_decimals[OF assms(1)] assms(2)
    by (auto simp: from_chars_double_def Let_def special_needs_letter)
  then show ?thesis
    by (simp add: from_string_double_def from_string_arithmetic_def blanks)
qed

lemma amount_read:
  assumes "small_amount n"
  shows "from_string_double (double_to_string (amount n)) = Inr (amount n)"
proof (cases "n = 0")
  case True
  have "double_to_string (amount 0) = six_decimals 0"
    by (simp add: amount_def round_frac_def double_to_string_def six_decimals_def scaled_def rne_def)
  with True read_six_decimals[of 0 0 "- 1074"] show ?thesis by (simp add: amount_def round_frac_def)
next
  case False
  with assms obtain m e where m: "amount n = Fin False m e" "0 < m" "scaled 6 m e = n"
    using amount_scaled[of n] by (auto simp: small_amount_def)
  then have "double_to_string (amount n) = six_decimals n"
    by (simp add: double_to_string_def six_decimals_def Let_def)
  with read_six_decimals[of n m e] m assms show ?thesis by (simp add: amount_def small_amount_def)
qed

text \<open>
  A price of \<open>n\<close> millionths, below \<open>2 ^ 33\<close>, that is written into an SQL statement with \<open>std::to_string\<close> and
  read back by libpqxx is the same double again: storing a price and reading it loses nothing.
\<close>

theorem price_roundtrip:
  assumes "0 \<le> n" "n < 2 ^ 33 * 10 ^ 6"
  shows "from_string_double (double_to_string (amount n)) = Inr (amount n)"
  using assms by (intro amount_read) (simp add: small_amount_def)

theorem price_roundtrip_witness:
  "double_to_string (amount 19990000) = ''19.990000''
    \<and> from_string_double (double_to_string (amount 19990000)) = Inr (amount 19990000)"
proof -
  have "double_to_string (amount 19990000) = ''19.990000''" by code_simp
  moreover have "(0::int) \<le> 19990000" "(19990000::int) < 2 ^ 33 * 10 ^ 6" by simp_all
  ultimately show ?thesis using price_roundtrip by blast
qed

end
