(* ===== verification/Sql_Reference.thy ===== *)
theory Sql_Reference
  imports Database
begin

text \<open>
  A reference reading of the SQL that the program sends about products: the tokens of a statement, its syntax, and what it does to a
  table.  The server is not part of the repository; \<open>executes\<close> says of a server that it reads and executes statements of this form the
  way PostgreSQL documents them.
\<close>

subsection \<open>Tokens\<close>

text \<open>
  Names, keywords and numbers are words; a text stands between single quotes, and two of them inside stand for one.  The lexer is a
  machine: it is in a word (the empty one between tokens), in a text, or behind a quote that may end the text.
\<close>

datatype token = Word string | Text string | Sym char

datatype lexer = In_word string | In_text string | Behind_quote string

abbreviation quote_char :: char where "quote_char \<equiv> CHR 0x27"

definition word_char :: "char \<Rightarrow> bool" where
  "word_char c \<longleftrightarrow> is_digit c \<or> 65 \<le> (of_char c :: int) \<and> (of_char c :: int) \<le> 90 \<or> 97 \<le> (of_char c :: int) \<and> (of_char c :: int) \<le> 122
     \<or> c = CHR ''_'' \<or> c = CHR ''.'' \<or> c = CHR ''-''"

definition word_token :: "string \<Rightarrow> token list" where
  "word_token w = (if w = [] then [] else [Word w])"

fun lex_step :: "lexer \<Rightarrow> char \<Rightarrow> token list \<times> lexer" where
  "lex_step (In_word w) c = (if word_char c then ([], In_word (w @ [c]))
     else if c = quote_char then (word_token w, In_text [])
     else (word_token w @ (if c = CHR '' '' then [] else [Sym c]), In_word []))"
| "lex_step (In_text s) c = (if c = quote_char then ([], Behind_quote s) else ([], In_text (s @ [c])))"
| "lex_step (Behind_quote s) c = (if c = quote_char then ([], In_text (s @ [c]))
     else if word_char c then ([Text s], In_word [c])
     else ([Text s] @ (if c = CHR '' '' then [] else [Sym c]), In_word []))"

fun lex_run :: "lexer \<Rightarrow> string \<Rightarrow> token list \<times> lexer" where
  "lex_run l [] = ([], l)"
| "lex_run l (c # s) = (let (ts, l1) = lex_step l c; (us, l2) = lex_run l1 s in (ts @ us, l2))"

definition tokens :: "string \<Rightarrow> token list option" where
  "tokens q = (case lex_run (In_word []) q of
     (ts, In_word w) \<Rightarrow> Some (ts @ word_token w)
   | (ts, Behind_quote s) \<Rightarrow> Some (ts @ [Text s])
   | (ts, In_text s) \<Rightarrow> None)"

subsection \<open>Syntax\<close>

datatype sql =
    Count_rows string string string string
  | Select_rows string string string
  | Update_rows string "(string \<times> string) list" string string
  | Insert_row string "string list" "string list"

text \<open>A literal stands for the text of its value.\<close>

definition literal :: "token \<Rightarrow> string option" where
  "literal t = (case t of Word w \<Rightarrow> Some w | Text s \<Rightarrow> Some s | Sym c \<Rightarrow> None)"

definition at_end :: "token list \<Rightarrow> bool" where
  "at_end ts \<longleftrightarrow> ts = [] \<or> ts = [Sym (CHR '';'')]"

text \<open>\<open>WHERE key = literal\<close>.\<close>

definition where_clause :: "token list \<Rightarrow> (string \<times> string) option" where
  "where_clause ts = (case ts of
     Word w # Word k # Sym e # v # rest \<Rightarrow> (if w = ''WHERE'' \<and> e = CHR ''='' \<and> at_end rest
       then map_option (\<lambda>x. (k, x)) (literal v) else None)
   | _ \<Rightarrow> None)"

text \<open>Assignments, separated by commas, and what follows them.\<close>

fun assignments :: "token list \<Rightarrow> ((string \<times> string) list \<times> token list) option" where
  "assignments (Word c # Sym e # v # ts) = (if e \<noteq> CHR ''='' then None else case literal v of None \<Rightarrow> None
     | Some x \<Rightarrow> (if ts \<noteq> [] \<and> hd ts = Sym (CHR '','')
         then map_option (\<lambda>(cs, rest). ((c, x) # cs, rest)) (assignments (tl ts)) else Some ([(c, x)], ts)))"
| "assignments _ = None"

text \<open>Literals or names in parentheses, without the opening one, and what follows them.\<close>

fun in_parentheses :: "token list \<Rightarrow> (string list \<times> token list) option" where
  "in_parentheses (v # Sym e # ts) = (case literal v of None \<Rightarrow> None
     | Some x \<Rightarrow> (if e = CHR '','' then map_option (\<lambda>(xs, rest). (x # xs, rest)) (in_parentheses ts)
         else if e = CHR '')'' then Some ([x], ts) else None))"
| "in_parentheses _ = None"

definition select_statement :: "token list \<Rightarrow> sql option" where
  "select_statement ts = (case ts of
     Sym s # Word f # Word t # rest \<Rightarrow> (if s = CHR ''*'' \<and> f = ''FROM''
       then map_option (\<lambda>(k, v). Select_rows t k v) (where_clause rest) else None)
   | Word n # Sym a # Word c # Sym b # Word f # Word t # rest \<Rightarrow> (if n = ''COUNT'' \<and> a = CHR ''('' \<and> b = CHR '')'' \<and> f = ''FROM''
       then map_option (\<lambda>(k, v). Count_rows c t k v) (where_clause rest) else None)
   | _ \<Rightarrow> None)"

definition update_statement :: "token list \<Rightarrow> sql option" where
  "update_statement ts = (case ts of
     Word t # Word s # rest \<Rightarrow> (if s \<noteq> ''SET'' then None else case assignments rest of None \<Rightarrow> None
       | Some (cs, rest) \<Rightarrow> map_option (\<lambda>(k, v). Update_rows t cs k v) (where_clause rest))
   | _ \<Rightarrow> None)"

definition insert_statement :: "token list \<Rightarrow> sql option" where
  "insert_statement ts = (case ts of
     Word i # Word t # Sym a # rest \<Rightarrow> (if i \<noteq> ''INTO'' \<or> a \<noteq> CHR ''('' then None else case in_parentheses rest of
       Some (cs, Word v # Sym b # rest) \<Rightarrow> (if v \<noteq> ''VALUES'' \<or> b \<noteq> CHR ''('' then None else case in_parentheses rest of
         Some (vs, rest) \<Rightarrow> (if at_end rest \<and> length vs = length cs then Some (Insert_row t cs vs) else None)
       | None \<Rightarrow> None)
     | _ \<Rightarrow> None)
   | _ \<Rightarrow> None)"

definition statement_of :: "token list \<Rightarrow> sql option" where
  "statement_of ts = (case ts of
     Word w # rest \<Rightarrow> (if w = ''SELECT'' then select_statement rest else if w = ''UPDATE'' then update_statement rest
       else if w = ''INSERT'' then insert_statement rest else None)
   | _ \<Rightarrow> None)"

definition sql_of :: "string \<Rightarrow> sql option" where
  "sql_of q = Option.bind (tokens q) statement_of"

subsection \<open>Tables\<close>

text \<open>
  A row gives the value of a column as a text, or nothing for null.  \<open>cols\<close> are the columns of \<open>*\<close>, in the order of the table;
  \<open>shown\<close> is how the server writes a value of a column.
\<close>

type_synonym sql_row = "string \<Rightarrow> string option"

type_synonym tables = "string \<Rightarrow> sql_row list"

definition matches :: "string \<Rightarrow> string \<Rightarrow> sql_row \<Rightarrow> bool" where
  "matches k v r \<longleftrightarrow> r k = Some v"

fun run_sql :: "string list \<Rightarrow> (string \<Rightarrow> string \<Rightarrow> string) \<Rightarrow> sql \<Rightarrow> tables \<Rightarrow> cell list list \<times> tables" where
  "run_sql cols shown (Count_rows c t k v) D =
     ([[Some (int_to_string (int (length (filter (\<lambda>r. matches k v r \<and> r c \<noteq> None) (D t)))))]], D)"
| "run_sql cols shown (Select_rows t k v) D = (map (\<lambda>r. map (\<lambda>c. map_option (shown c) (r c)) cols) (filter (matches k v) (D t)), D)"
| "run_sql cols shown (Update_rows t cs k v) D = ([], D(t := map (\<lambda>r. if matches k v r then r ++ map_of cs else r) (D t)))"
| "run_sql cols shown (Insert_row t cs vs) D = ([], D(t := D t @ [map_of (zip cs vs)]))"

text \<open>The columns of the products table, in the order in which the program reads them.\<close>

definition product_columns :: "string list" where
  "product_columns = [''name'', ''code'', ''price'', ''discount'', ''tax'', ''stock'', ''price_to_stock'', ''sold_by'']"

text \<open>
  A server executes the statements of this form.  It may refuse one that leaves a row which the table's constraints do not allow
  (\<open>storable\<close>), or two products with one code.
\<close>

definition sound_table :: "(sql_row \<Rightarrow> bool) \<Rightarrow> sql_row list \<Rightarrow> bool" where
  "sound_table storable T \<longleftrightarrow> (\<forall>r\<in>set T. storable r) \<and> distinct (map (\<lambda>r. r ''code'') T)"

definition executes :: "'db libpq \<Rightarrow> ('db \<Rightarrow> tables) \<Rightarrow> (string \<Rightarrow> string \<Rightarrow> string) \<Rightarrow> (sql_row \<Rightarrow> bool) \<Rightarrow> bool" where
  "executes pq tabs shown storable \<longleftrightarrow> (\<forall>q st d rows D.
     CHR 0x00 \<notin> set q \<longrightarrow> sql_of q = Some st \<longrightarrow> run_sql product_columns shown st (tabs d) = (rows, D) \<longrightarrow>
     sound_table storable (D products_table) \<longrightarrow>
     (\<exists>r d'. exec_db pq q d = (Inr r, d') \<and> pg_rows r = rows \<and> tabs d' = D))"

text \<open>
  How the server shows values: texts and whole numbers as they were written, and decimal numbers so that they are the same number.
\<close>

definition faithful :: "(string \<Rightarrow> string \<Rightarrow> string) \<Rightarrow> bool" where
  "faithful shown \<longleftrightarrow> (\<forall>t. shown ''name'' t = t \<and> shown ''code'' t = t \<and> shown ''discount'' t = t \<and> shown ''tax'' t = t \<and> shown ''sold_by'' t = t
     \<and> from_string_double (shown ''price'' t) = from_string_double t \<and> from_string_double (shown ''stock'' t) = from_string_double t
     \<and> from_string_double (shown ''price_to_stock'' t) = from_string_double t)"

subsection \<open>Reading the program's statements\<close>

lemma lex_append: "lex_run l (s @ t) = (let (ts, l1) = lex_run l s; (us, l2) = lex_run l1 t in (ts @ us, l2))"
  by (induction s arbitrary: l) (auto simp: Let_def split: prod.splits)

lemma lex_then: "lex_run l s = (ts, l1) \<Longrightarrow> lex_run l1 t = (us, l2) \<Longrightarrow> lex_run l (s @ t) = (ts @ us, l2)"
  by (simp add: lex_append)

lemma lex_word: "list_all word_char s \<Longrightarrow> lex_run (In_word w) s = ([], In_word (w @ s))"
  by (induction s arbitrary: w) simp_all

lemma lex_first_word: "list_all word_char s \<Longrightarrow> lex_run (In_word []) s = ([], In_word s)"
  by (simp add: lex_word)

lemma lex_text: "quote_char \<notin> set s \<Longrightarrow> lex_run (In_text w) s = ([], In_text (w @ s))"
  by (induction s arbitrary: w) auto

lemma plain_chars [simp]: "\<not> word_char (CHR '' '')" "\<not> word_char (CHR '','')" "\<not> word_char (CHR ''='')" "\<not> word_char (CHR ''('')"
    "\<not> word_char (CHR '')'')" "\<not> word_char (CHR '';'')" "\<not> word_char (CHR ''*'')" "\<not> word_char quote_char"
  by (simp_all add: word_char_def is_digit_def)

text \<open>\<open>, column = \<close> behind a value.\<close>

lemma lex_assign:
  assumes "list_all word_char col" "col \<noteq> []"
  shows "lex_run (In_word w) ('', '' @ col @ '' = '') = (word_token w @ [Sym (CHR '',''), Word col, Sym (CHR ''='')], In_word [])"
    "lex_run (Behind_quote t) ('', '' @ col @ '' = '') = ([Text t, Sym (CHR '',''), Word col, Sym (CHR ''='')], In_word [])"
  using assms by (simp_all add: lex_append lex_word word_token_def)

lemma lex_semicolon: "lex_run (In_word w) '';'' = (word_token w @ [Sym (CHR '';'')], In_word [])"
  by simp

lemma lex_space: "lex_run (In_word w) '' '' = (word_token w, In_word [])"
  by simp

lemma lex_quoted: "quote_char \<notin> set s \<Longrightarrow> lex_run (In_word []) (quoted s) = ([], Behind_quote s)"
  by (simp add: quoted_def lex_append lex_text word_token_def)

text \<open>The numbers of the program are words.\<close>

lemma digit_word: "is_digit c \<Longrightarrow> word_char c"
  by (simp add: word_char_def)

lemma dec_word: "0 \<le> n \<Longrightarrow> list_all word_char (dec n)"
  using dec_digits[of n] digit_word by (auto simp: list_all_iff)

lemma int_word: "list_all word_char (int_to_string n)" "int_to_string n \<noteq> []"
proof -
  have "word_char (CHR ''-'')" by (simp add: word_char_def)
  then show "list_all word_char (int_to_string n)" using dec_word[of n] dec_word[of "- n"] by (simp add: int_to_string_def)
qed (simp add: int_to_string_def)

lemma word_tokens: "w \<noteq> [] \<Longrightarrow> word_token w = [Word w]"
  by (simp add: word_token_def)

lemma tokens_word: "lex_run (In_word []) q = (ts, In_word w) \<Longrightarrow> tokens q = Some (ts @ word_token w)"
  by (simp add: tokens_def)

lemma exists_sql_read: "sql_of (exists_sql c) = Some (Count_rows ''code'' products_table ''code'' (int_to_string c))"
proof -
  have head: "lex_run (In_word []) (''SELECT COUNT(code) FROM '' @ products_table @ '' WHERE code = '') =
      ([Word ''SELECT'', Word ''COUNT'', Sym (CHR ''(''), Word ''code'', Sym (CHR '')''), Word ''FROM'', Word products_table, Word ''WHERE'',
        Word ''code'', Sym (CHR ''='')], In_word [])" by code_simp
  have split: "exists_sql c = (''SELECT COUNT(code) FROM '' @ products_table @ '' WHERE code = '') @ int_to_string c"
    by (simp add: exists_sql_def)
  have "tokens (exists_sql c) = Some [Word ''SELECT'', Word ''COUNT'', Sym (CHR ''(''), Word ''code'', Sym (CHR '')''), Word ''FROM'',
      Word products_table, Word ''WHERE'', Word ''code'', Sym (CHR ''=''), Word (int_to_string c)]"
    unfolding split by (subst tokens_word[OF lex_then[OF head lex_first_word[OF int_word(1)[of c]]]]) (simp add: word_token_def int_word(2))
  then show ?thesis
    by (simp add: sql_of_def statement_of_def select_statement_def where_clause_def literal_def at_end_def)
qed

lemma product_sql_read: "sql_of (product_sql c) = Some (Select_rows products_table ''code'' (int_to_string c))"
proof -
  have head: "lex_run (In_word []) (''SELECT * FROM '' @ products_table @ '' WHERE code = '') =
      ([Word ''SELECT'', Sym (CHR ''*''), Word ''FROM'', Word products_table, Word ''WHERE'', Word ''code'', Sym (CHR ''='')], In_word [])"
    by code_simp
  have split: "product_sql c = (''SELECT * FROM '' @ products_table @ '' WHERE code = '') @ int_to_string c @ '';''"
    by (simp add: product_sql_def)
  have "tokens (product_sql c) = Some [Word ''SELECT'', Sym (CHR ''*''), Word ''FROM'', Word products_table, Word ''WHERE'',
      Word ''code'', Sym (CHR ''=''), Word (int_to_string c), Sym (CHR '';'')]"
    unfolding split by (subst tokens_word[OF lex_then[OF head lex_then[OF lex_first_word[OF int_word(1)[of c]] lex_semicolon]]])
      (simp add: word_token_def int_word(2))
  then show ?thesis
    by (simp add: sql_of_def statement_of_def select_statement_def where_clause_def literal_def at_end_def)
qed

text \<open>A product as the row that stores it.\<close>

definition product_values :: "product \<Rightarrow> string list" where
  "product_values p = [p_name p, int_to_string (p_code p), double_to_string (p_price p), int_to_string (p_discount p), [p_tax p],
     double_to_string (p_stock p), double_to_string (p_price_to_stock p), int_to_string (mesurments_int (p_sold_by p))]"

definition product_row :: "product \<Rightarrow> sql_row" where
  "product_row p = map_of (zip product_columns (product_values p))"

text \<open>What the texts of a product must not hold, as they are not escaped, and how its amounts are written.\<close>

definition plain_product :: "product \<Rightarrow> bool" where
  "plain_product p \<longleftrightarrow> set (p_tax p # p_name p) \<inter> {quote_char, CHR 0x00} = {}
     \<and> (\<forall>x\<in>{p_price p, p_stock p, p_price_to_stock p}. list_all word_char (double_to_string x) \<and> double_to_string x \<noteq> [])"

lemma update_sql_read:
  assumes "plain_product p"
  shows "sql_of (update_sql p) = Some (Update_rows products_table (zip product_columns (product_values p)) ''code'' (int_to_string (p_code p)))"
proof -
  have head: "lex_run (In_word []) (''UPDATE '' @ products_table @ '' SET name = '') =
      ([Word ''UPDATE'', Word products_table, Word ''SET'', Word ''name'', Sym (CHR ''='')], In_word [])" by code_simp
  have tail: "lex_run (In_word []) ''WHERE code = '' = ([Word ''WHERE'', Word ''code'', Sym (CHR ''='')], In_word [])" by code_simp
  have col: "list_all word_char ''code''" "list_all word_char ''price''" "list_all word_char ''discount''" "list_all word_char ''tax''"
    "list_all word_char ''stock''" "list_all word_char ''price_to_stock''" "list_all word_char ''sold_by''" by code_simp+
  have split: "update_sql p = (''UPDATE '' @ products_table @ '' SET name = '') @ quoted (p_name p) @ ('', '' @ ''code'' @ '' = '') @ int_to_string (p_code p)
     @ ('', '' @ ''price'' @ '' = '') @ double_to_string (p_price p) @ ('', '' @ ''discount'' @ '' = '') @ int_to_string (p_discount p)
     @ ('', '' @ ''tax'' @ '' = '') @ quoted [p_tax p] @ ('', '' @ ''stock'' @ '' = '') @ double_to_string (p_stock p)
     @ ('', '' @ ''price_to_stock'' @ '' = '') @ double_to_string (p_price_to_stock p)
     @ ('', '' @ ''sold_by'' @ '' = '') @ int_to_string (mesurments_int (p_sold_by p)) @ '' '' @ ''WHERE code = '' @ int_to_string (p_code p) @ '';''"
    by (simp add: update_sql_def)
  have q: "quote_char \<notin> set (p_name p)" "quote_char \<notin> set [p_tax p]" using assms by (auto simp: plain_product_def)
  have d: "list_all word_char (double_to_string (p_price p))" "list_all word_char (double_to_string (p_stock p))"
    "list_all word_char (double_to_string (p_price_to_stock p))" "double_to_string (p_price p) \<noteq> []" "double_to_string (p_stock p) \<noteq> []"
    "double_to_string (p_price_to_stock p) \<noteq> []" using assms by (auto simp: plain_product_def)
  note int = lex_first_word[OF int_word(1)] and dbl = d(1-3)[THEN lex_first_word]
  note run = lex_then[OF head lex_then[OF lex_quoted[OF q(1)] lex_then[OF lex_assign(2)[OF col(1)] lex_then[OF int
    lex_then[OF lex_assign(1)[OF col(2)] lex_then[OF dbl(1) lex_then[OF lex_assign(1)[OF col(3)] lex_then[OF int
    lex_then[OF lex_assign(1)[OF col(4)] lex_then[OF lex_quoted[OF q(2)] lex_then[OF lex_assign(2)[OF col(5)] lex_then[OF dbl(2)
    lex_then[OF lex_assign(1)[OF col(6)] lex_then[OF dbl(3) lex_then[OF lex_assign(1)[OF col(7)] lex_then[OF int
    lex_then[OF lex_space lex_then[OF tail lex_then[OF int lex_semicolon]]]]]]]]]]]]]]]]]]]
  have "tokens (update_sql p) = Some [Word ''UPDATE'', Word products_table, Word ''SET'',
      Word ''name'', Sym (CHR ''=''), Text (p_name p), Sym (CHR '',''),
      Word ''code'', Sym (CHR ''=''), Word (int_to_string (p_code p)), Sym (CHR '',''),
      Word ''price'', Sym (CHR ''=''), Word (double_to_string (p_price p)), Sym (CHR '',''),
      Word ''discount'', Sym (CHR ''=''), Word (int_to_string (p_discount p)), Sym (CHR '',''),
      Word ''tax'', Sym (CHR ''=''), Text [p_tax p], Sym (CHR '',''),
      Word ''stock'', Sym (CHR ''=''), Word (double_to_string (p_stock p)), Sym (CHR '',''),
      Word ''price_to_stock'', Sym (CHR ''=''), Word (double_to_string (p_price_to_stock p)), Sym (CHR '',''),
      Word ''sold_by'', Sym (CHR ''=''), Word (int_to_string (mesurments_int (p_sold_by p))),
      Word ''WHERE'', Word ''code'', Sym (CHR ''=''), Word (int_to_string (p_code p)), Sym (CHR '';'')]"
    unfolding split by (subst tokens_word[OF run]) (simp_all add: word_token_def int_word(2) d(4-6))
  then show ?thesis
    by (simp add: sql_of_def statement_of_def update_statement_def where_clause_def literal_def at_end_def product_columns_def product_values_def)
qed

text \<open>\<open>, \<close> between values.\<close>

lemma lex_comma: "lex_run (In_word w) '', '' = (word_token w @ [Sym (CHR '','')], In_word [])"
    "lex_run (Behind_quote t) '', '' = ([Text t, Sym (CHR '','')], In_word [])"
  by (simp_all add: word_token_def)

lemma insert_sql_read:
  assumes "plain_product p"
  shows "sql_of (insert_sql p) = Some (Insert_row products_table product_columns (product_values p))"
proof -
  have head: "lex_run (In_word []) (''INSERT INTO '' @ products_table @ ''(name, code, price, discount, tax, stock, price_to_stock, sold_by) VALUES ('') =
      ([Word ''INSERT'', Word ''INTO'', Word products_table, Sym (CHR ''(''), Word ''name'', Sym (CHR '',''), Word ''code'', Sym (CHR '',''),
        Word ''price'', Sym (CHR '',''), Word ''discount'', Sym (CHR '',''), Word ''tax'', Sym (CHR '',''), Word ''stock'', Sym (CHR '',''),
        Word ''price_to_stock'', Sym (CHR '',''), Word ''sold_by'', Sym (CHR '')''), Word ''VALUES'', Sym (CHR ''('')], In_word [])" by code_simp
  have close: "lex_run (In_word w) '');'' = (word_token w @ [Sym (CHR '')''), Sym (CHR '';'')], In_word [])" for w by (simp add: word_token_def)
  have split: "insert_sql p = (''INSERT INTO '' @ products_table @ ''(name, code, price, discount, tax, stock, price_to_stock, sold_by) VALUES ('')
     @ quoted (p_name p) @ '', '' @ int_to_string (p_code p) @ '', '' @ double_to_string (p_price p) @ '', '' @ int_to_string (p_discount p) @ '', ''
     @ quoted [p_tax p] @ '', '' @ double_to_string (p_stock p) @ '', '' @ double_to_string (p_price_to_stock p) @ '', ''
     @ int_to_string (mesurments_int (p_sold_by p)) @ '');''"
    by (simp add: insert_sql_def quoted_def)
  have q: "quote_char \<notin> set (p_name p)" "quote_char \<notin> set [p_tax p]" using assms by (auto simp: plain_product_def)
  have d: "list_all word_char (double_to_string (p_price p))" "list_all word_char (double_to_string (p_stock p))"
    "list_all word_char (double_to_string (p_price_to_stock p))" "double_to_string (p_price p) \<noteq> []" "double_to_string (p_stock p) \<noteq> []"
    "double_to_string (p_price_to_stock p) \<noteq> []" using assms by (auto simp: plain_product_def)
  note int = lex_first_word[OF int_word(1)] and dbl = d(1-3)[THEN lex_first_word]
  note run = lex_then[OF head lex_then[OF lex_quoted[OF q(1)] lex_then[OF lex_comma(2) lex_then[OF int lex_then[OF lex_comma(1)
    lex_then[OF dbl(1) lex_then[OF lex_comma(1) lex_then[OF int lex_then[OF lex_comma(1) lex_then[OF lex_quoted[OF q(2)]
    lex_then[OF lex_comma(2) lex_then[OF dbl(2) lex_then[OF lex_comma(1) lex_then[OF dbl(3) lex_then[OF lex_comma(1)
    lex_then[OF int close]]]]]]]]]]]]]]]]
  have "tokens (insert_sql p) = Some [Word ''INSERT'', Word ''INTO'', Word products_table, Sym (CHR ''(''), Word ''name'', Sym (CHR '',''),
      Word ''code'', Sym (CHR '',''), Word ''price'', Sym (CHR '',''), Word ''discount'', Sym (CHR '',''), Word ''tax'', Sym (CHR '',''),
      Word ''stock'', Sym (CHR '',''), Word ''price_to_stock'', Sym (CHR '',''), Word ''sold_by'', Sym (CHR '')''), Word ''VALUES'', Sym (CHR ''(''),
      Text (p_name p), Sym (CHR '',''), Word (int_to_string (p_code p)), Sym (CHR '',''), Word (double_to_string (p_price p)), Sym (CHR '',''),
      Word (int_to_string (p_discount p)), Sym (CHR '',''), Text [p_tax p], Sym (CHR '',''), Word (double_to_string (p_stock p)), Sym (CHR '',''),
      Word (double_to_string (p_price_to_stock p)), Sym (CHR '',''), Word (int_to_string (mesurments_int (p_sold_by p))), Sym (CHR '')''), Sym (CHR '';'')]"
    unfolding split by (subst tokens_word[OF run]) (simp_all add: word_token_def int_word(2) d(4-6))
  then show ?thesis
    by (simp add: sql_of_def statement_of_def insert_statement_def literal_def at_end_def product_columns_def product_values_def)
qed

end
