(* ===== verification/Store.thy ===== *)
theory Store
  imports Money Sample Sql_Reference
begin

text \<open>
  What a product becomes in the table and back: the statements that store it, executed by a server that reads SQL, and the product that the
  program reads after storing one.
\<close>

subsection \<open>Products and their texts\<close>

text \<open>
  A product as the program makes them: a code and a discount of their types, and the computed fields computed.
\<close>

definition consistent :: "product \<Rightarrow> bool" where
  "consistent p \<longleftrightarrow> fits 64 (p_code p) \<and> fits 16 (p_discount p)
     \<and> p_price_after_discount p = discounted (p_price p) (p_discount p)
     \<and> p_profit p = dbl_sub (p_price p) (p_price_to_stock p)"

lemma tx_exec_ok:
  assumes "owned t v" "m_status (txs v ! t) = Tx_active" "exec_db pq q (db v) = (Inr r, d)"
  shows "tx_exec pq t q v = (Inr r, v\<lparr>db := d\<rparr>)"
  using assms by (simp add: tx_exec_owned)

lemma read_bool_count: "pg_rows res = [[Some (if b then ''1'' else ''0'')]] \<Longrightarrow> as_bool res 0 0 v = (Inr b, v)"
proof -
  have "from_string_bool ''1'' = Inr True" "from_string_bool ''0'' = Inr False" by code_simp+
  then show "pg_rows res = [[Some (if b then ''1'' else ''0'')]] \<Longrightarrow> as_bool res 0 0 v = (Inr b, v)"
    by (simp add: as_bool_def field_def field_as_def lift_exn_def prog_simps)
qed

lemma sold_by_read: "from_string_short (int_to_string (mesurments_int m)) = Inr (mesurments_int m)
  \<and> to_mesurments (mesurments_int m) = m"
proof -
  have "- (2 ^ 15) \<le> mesurments_int m \<and> mesurments_int m \<le> 2 ^ 15 - 1" by (cases m) simp_all
  then have "from_string_short (int_to_string (mesurments_int m)) = Inr (mesurments_int m)"
    unfolding from_string_short_def by (intro from_string_int_to_string) auto
  then show ?thesis by (cases m) (simp_all add: to_mesurments_def)
qed

text \<open>The row of a product, in which the amounts may be written in other ways.\<close>

lemma read_shown_row:
  assumes p: "consistent p" and rows: "pg_rows res = [map Some [p_name p, int_to_string (p_code p), price, int_to_string (p_discount p), [p_tax p],
      stock, cost, int_to_string (mesurments_int (p_sold_by p))]]"
    and amounts: "from_string_double price = Inr (p_price p)" "from_string_double stock = Inr (p_stock p)" "from_string_double cost = Inr (p_price_to_stock p)"
  shows "read_product res v = (Inr p, v)"
proof -
  have "from_string_long (int_to_string (p_code p)) = Inr (p_code p)"
    "from_string_short (int_to_string (p_discount p)) = Inr (p_discount p)"
    using p unfolding from_string_long_def from_string_short_def consistent_def
    by (auto intro!: from_string_int_to_string)
  with rows p amounts show ?thesis
    by (cases p) (simp add: read_product_def as_string_def as_long_def as_double_def as_short_def field_def field_as_def
        lift_exn_def first_char_def sold_by_read consistent_def prog_simps)
qed

text \<open>Amounts are written with digits and a point.\<close>

lemma amount_text: "small_amount n \<Longrightarrow> double_to_string (amount n) = six_decimals n"
proof (cases "n = 0")
  case True
  then show ?thesis by (simp add: amount_def round_frac_def double_to_string_def six_decimals_def scaled_def rne_def)
next
  case False
  assume "small_amount n"
  with False obtain m e where "amount n = Fin False m e" "0 < m" "scaled 6 m e = n"
    using amount_scaled[of n] by (auto simp: small_amount_def)
  then show ?thesis by (simp add: double_to_string_def six_decimals_def Let_def)
qed

lemma amount_word: "small_amount n \<Longrightarrow> list_all word_char (double_to_string (amount n)) \<and> double_to_string (amount n) \<noteq> []"
proof -
  have "word_char (CHR ''.'')" "word_char (CHR ''0'')" by (simp_all add: word_char_def is_digit_def)
  moreover assume "small_amount n"
  moreover from this have "list_all word_char (dec (n div 10 ^ 6))" "list_all word_char (dec (n mod 10 ^ 6))"
    by (simp_all add: small_amount_def dec_word pos_imp_zdiv_nonneg_iff)
  ultimately show ?thesis by (auto simp: amount_text six_decimals_def pad0_def list_all_iff)
qed

text \<open>No NUL is in a statement about a plain product, so libpq sends all of it.\<close>

lemma word_no_nul: "list_all word_char s \<Longrightarrow> CHR 0x00 \<notin> set s"
  by (auto simp: list_all_iff word_char_def is_digit_def)

lemma statements_no_nul:
  "CHR 0x00 \<notin> set (exists_sql c)" "CHR 0x00 \<notin> set (product_sql c)"
  "plain_product p \<Longrightarrow> CHR 0x00 \<notin> set (update_sql p)" "plain_product p \<Longrightarrow> CHR 0x00 \<notin> set (insert_sql p)"
proof -
  have t: "CHR 0x00 \<notin> set products_table" by code_simp
  have n: "CHR 0x00 \<notin> set (int_to_string i)" for i by (rule word_no_nul[OF int_word(1)])
  show "CHR 0x00 \<notin> set (exists_sql c)" "CHR 0x00 \<notin> set (product_sql c)" using t n by (simp_all add: exists_sql_def product_sql_def)
  assume "plain_product p"
  then have "CHR 0x00 \<notin> set (p_name p)" "p_tax p \<noteq> CHR 0x00" "CHR 0x00 \<notin> set (double_to_string (p_price p))"
    "CHR 0x00 \<notin> set (double_to_string (p_stock p))" "CHR 0x00 \<notin> set (double_to_string (p_price_to_stock p))"
    using word_no_nul by (auto simp: plain_product_def)
  with t n show "CHR 0x00 \<notin> set (update_sql p)" "CHR 0x00 \<notin> set (insert_sql p)"
    by (simp_all add: update_sql_def insert_sql_def quoted_def)
qed

subsection \<open>The table\<close>

definition has_code :: "product \<Rightarrow> sql_row \<Rightarrow> bool" where
  "has_code p r \<longleftrightarrow> r ''code'' = Some (int_to_string (p_code p))"

lemma matches_code: "matches ''code'' (int_to_string (p_code p)) = has_code p"
  by (rule ext) (simp add: matches_def has_code_def)

text \<open>What storing a product makes of the table: its row takes the place of the one with its code, or is added.\<close>

definition stored :: "product \<Rightarrow> sql_row list \<Rightarrow> sql_row list" where
  "stored p T = (if \<exists>r\<in>set T. has_code p r then map (\<lambda>r. if has_code p r then r ++ product_row p else r) T else T @ [product_row p])"

lemma product_row_columns: "map (product_row p) product_columns = map Some (product_values p)" "product_row p ''code'' = Some (int_to_string (p_code p))"
  by (simp_all add: product_row_def product_columns_def product_values_def)

lemma code_once:
  assumes "distinct (map f T)"
  shows "filter (\<lambda>r. f r = a) T = [] \<or> (\<exists>r. filter (\<lambda>r. f r = a) T = [r])"
  using assms
proof (induction T)
  case (Cons r T)
  show ?case
  proof (cases "f r = a")
    case True
    then have "a \<notin> f ` set T" using Cons.prems by auto
    then have "filter (\<lambda>r. f r = a) T = []" by (auto simp: filter_empty_conv)
    then show ?thesis using True by simp
  qed (use Cons in simp)
qed simp

lemma has_code_once:
  assumes "sound_table storable T"
  shows "filter (has_code p) T = [] \<or> (\<exists>r. filter (has_code p) T = [r])"
  using code_once[of "\<lambda>r. r ''code''" T "Some (int_to_string (p_code p))"] assms by (simp add: sound_table_def has_code_def[abs_def])

lemma stored_sound:
  assumes "sound_table storable T" "\<forall>r\<in>insert Map.empty (set T). storable (r ++ product_row p)"
  shows "sound_table storable (stored p T)"
proof (cases "\<exists>r\<in>set T. has_code p r")
  case True
  have "(if has_code p r then r ++ product_row p else r) ''code'' = r ''code''" for r
    by (simp add: has_code_def map_add_def product_row_columns(2))
  then have "map (\<lambda>r. r ''code'') (stored p T) = map (\<lambda>r. r ''code'') T" using True by (simp add: stored_def)
  moreover have "\<forall>r\<in>set (stored p T). storable r" using assms True by (auto simp: stored_def sound_table_def)
  ultimately show ?thesis using assms(1) by (simp add: sound_table_def)
next
  case False
  with assms show ?thesis by (auto simp: stored_def sound_table_def has_code_def product_row_columns(2))
qed

text \<open>The stored row is the only one with the code of the product.\<close>

lemma stored_found:
  assumes "sound_table storable T"
  shows "\<exists>r. filter (has_code p) (stored p T) = [r] \<and> map r product_columns = map Some (product_values p)"
proof (cases "\<exists>r\<in>set T. has_code p r")
  case True
  have keeps: "has_code p (r ++ product_row p)" for r by (simp add: has_code_def map_add_def product_row_columns(2))
  have cols: "map (r ++ product_row p) product_columns = map Some (product_values p)" for r
    by (simp add: product_row_def product_columns_def product_values_def map_add_def)
  have "filter (has_code p) (map (\<lambda>r. if has_code p r then r ++ product_row p else r) T) = map (\<lambda>r. r ++ product_row p) (filter (has_code p) T)" for T
    by (induction T) (simp_all add: keeps)
  moreover have "filter (has_code p) T \<noteq> []" using True by (auto simp: filter_empty_conv)
  then obtain r where "filter (has_code p) T = [r]"
    using has_code_once[OF assms, of p] by blast
  ultimately show ?thesis using True cols by (simp add: stored_def)
next
  case False
  then have "filter (has_code p) T = []" by (auto simp: filter_empty_conv)
  moreover have "has_code p (product_row p)" by (simp add: has_code_def product_row_columns(2))
  ultimately show ?thesis using False product_row_columns(1) by (simp add: stored_def)
qed

lemma count_found:
  assumes "sound_table storable T"
  shows "int_to_string (int (length (filter (\<lambda>r. matches ''code'' (int_to_string (p_code p)) r \<and> r ''code'' \<noteq> None) T)))
    = (if \<exists>r\<in>set T. has_code p r then ''1'' else ''0'')"
proof -
  have f: "filter (\<lambda>r. matches ''code'' (int_to_string (p_code p)) r \<and> r ''code'' \<noteq> None) T = filter (has_code p) T"
    by (rule filter_cong) (auto simp: matches_code has_code_def)
  have "int_to_string 0 = ''0''" "int_to_string 1 = ''1''" by code_simp+
  moreover note has_code_once[OF assms, of p]
  ultimately show ?thesis unfolding f by (auto simp: filter_empty_conv)
qed

subsection \<open>Storing and reading back\<close>


text \<open>A server that holds tables, and executes what it can read; its decimal numbers are written as they came.\<close>

definition sql_server :: "tables libpq" where
  "sql_server = \<lparr>pq_exec = (\<lambda>q D. case sql_of q of None \<Rightarrow> (Some (tuples []), D)
       | Some st \<Rightarrow> (let (rows, D') = run_sql product_columns (\<lambda>c t. t) st D in (Some (tuples rows), D'))),
     pq_consume = (\<lambda>d. (True, d)), pq_encoding = (\<lambda>d. Some ''UTF8''), pq_open = (\<lambda>d. True), pq_error = (\<lambda>d. [])\<rparr>"

lemma sql_server_executes: "executes sql_server id (\<lambda>c t. t) (\<lambda>r. True)"
proof -
  have "enc_group ''UTF8'' = Inr Ascii_safe" by code_simp
  moreover have "c_str q = q" if "CHR 0x00 \<notin> set q" for q using that by (auto simp: c_str_def takeWhile_eq_all_conv)
  ultimately have "exec_db sql_server q D = (Inr (tuples rows), D')"
    if "CHR 0x00 \<notin> set q" "sql_of q = Some st" "run_sql product_columns (\<lambda>c t. t) st D = (rows, D')" for q st D rows D'
    using that by (simp add: exec_db_def sql_server_def tuples_def check_status_def status_error_def)
  then show ?thesis by (auto simp: executes_def tuples_def)
qed

definition coffee_row :: sql_row where
  "coffee_row = map_of (zip product_columns [''Coffee'', ''8'', ''3.500000'', ''0'', ''B'', ''12.000000'', ''2.000000'', ''0''])"


end
