(* ===== verification/Pqxx_Text.thy ===== *)
theory Pqxx_Text
  imports Pqxx_Encodings
begin

text \<open>
  Well-encoded text as a list of glyphs.  The scanners look at one glyph only, whatever stands
  around it (the locale \<open>local_scan\<close>, which the four scanners interpret), so the search for special
  ASCII characters can be computed glyph by glyph.  The escaping and parsing code of libpqxx that
  uses that search is verified over this view.
\<close>

definition find_in :: "encoding_group \<Rightarrow> char list \<Rightarrow> string \<Rightarrow> nat \<Rightarrow> exn + nat" where
  "find_in enc needle s here = (case get_char_finder needle enc of Inl e \<Rightarrow> Inl e | Inr f \<Rightarrow> f s here)"

text \<open>A glyph: a text that the scanner steps over at once.\<close>

definition glyph :: "scanner \<Rightarrow> string \<Rightarrow> bool" where
  "glyph scan g \<longleftrightarrow> g \<noteq> [] \<and> scan g 0 = Inr (length g)"

definition glyphs :: "scanner \<Rightarrow> string list \<Rightarrow> bool" where
  "glyphs scan gs \<longleftrightarrow> list_all (glyph scan) gs"

lemma glyphs_simps [simp]:
  "glyphs scan []" "glyphs scan (g # gs) \<longleftrightarrow> glyph scan g \<and> glyphs scan gs"
  "glyphs scan (gs @ hs) \<longleftrightarrow> glyphs scan gs \<and> glyphs scan hs"
  by (simp_all add: glyphs_def)

text \<open>Cutting a text into glyphs; \<open>None\<close> when it is not well encoded.\<close>

function cut :: "scanner \<Rightarrow> string \<Rightarrow> string list option" where
  "cut scan s = (if s = [] then Some []
     else case scan s 0 of
         Inl e \<Rightarrow> None
       | Inr n \<Rightarrow> if n = 0 \<or> length s < n then None
           else map_option ((#) (take n s)) (cut scan (drop n s)))"
  by pat_completeness auto
termination by (relation "measure (\<lambda>(scan, s). length s)") auto

declare cut.simps [simp del]

definition well_encoded :: "encoding_group \<Rightarrow> string \<Rightarrow> bool" where
  "well_encoded enc s \<longleftrightarrow> cut (scanner_of enc) s \<noteq> None"

locale local_scan = glyph_scan +
  assumes in_context: "i < length s \<Longrightarrow> scan s i = Inr n \<Longrightarrow> scan (p @ s @ t) (length p + i) = Inr (length p + n)"
    and first_glyph: "s \<noteq> [] \<Longrightarrow> scan s 0 = Inr n \<Longrightarrow> scan (take n s) 0 = Inr n"
begin

lemma glyph_at: "glyph scan g \<Longrightarrow> scan (p @ g @ t) (length p) = Inr (length p + length g)"
  using in_context[of 0 g "length g" p t] by (simp add: glyph_def)

lemma ascii_glyph: "glyph scan g \<Longrightarrow> of_char (hd g) < (128::int) \<Longrightarrow> length g = 1"
  using ascii_step[of 0 g] by (cases g) (auto simp: glyph_def get_byte_def)

lemma single_glyph: "of_char c < (128::int) \<Longrightarrow> glyph scan [c]"
  using ascii_step[of 0 "[c]"] by (simp add: glyph_def get_byte_def)

lemma find_step:
  assumes "glyph scan g"
  shows "find_ascii_char scan needle (p @ g @ t) (length p) =
    (if hd g \<in> set needle then Inr (length p) else find_ascii_char scan needle (p @ g @ t) (length (p @ g)))"
proof -
  have g: "g \<noteq> []" using assms by (simp add: glyph_def)
  then have "(p @ g @ t) ! length p = hd g" by (cases g) simp_all
  with g show ?thesis
    by (subst find_ascii_char.simps) (auto simp: glyph_at[OF assms])
qed

lemma find_glyphs:
  assumes "glyphs scan gs" "\<forall>g \<in> set gs. hd g \<notin> set needle"
  shows "find_ascii_char scan needle (p @ concat gs @ t) (length p)
    = find_ascii_char scan needle (p @ concat gs @ t) (length (p @ concat gs))"
  using assms
proof (induction gs arbitrary: p)
  case (Cons g gs)
  then show ?case using find_step[of g needle p "concat gs @ t"] Cons.IH[of "p @ g"] by simp
qed simp

lemma cut_glyphs: "cut scan s = Some gs \<Longrightarrow> glyphs scan gs \<and> concat gs = s"
proof (induction "length s" arbitrary: s gs rule: less_induct)
  case less
  show ?case
  proof (cases "s = []")
    case False
    then obtain n hs where n: "scan s 0 = Inr n" "0 < n" "n \<le> length s" "cut scan (drop n s) = Some hs" "gs = take n s # hs"
      using less.prems by (subst (asm) cut.simps) (auto split: sum.splits if_splits)
    with False have "glyph scan (take n s)" using first_glyph[of s n] by (simp add: glyph_def)
    moreover have "glyphs scan hs \<and> concat hs = drop n s" using n False by (intro less.hyps) auto
    ultimately show ?thesis using n by simp
  qed (use less.prems in \<open>simp add: cut.simps\<close>)
qed

end

lemma get_byte_append [simp]: "i < length s \<Longrightarrow> get_byte (p @ s @ t) (length p + i) = get_byte s i"
  by (simp add: get_byte_def nth_append)

lemma get_byte_append0 [simp]: "0 < length s \<Longrightarrow> get_byte (p @ s @ t) (length p) = get_byte s 0"
  using get_byte_append[of 0 s p t] by simp

lemma get_byte_take [simp]: "i < n \<Longrightarrow> get_byte (take n s) i = get_byte s i"
  by (simp add: get_byte_def)

interpretation ascii_safe: local_scan scan_ascii_safe
  by unfold_locales (auto simp: scan_defs)

interpretation two_tier: local_scan scan_two_tier
  by unfold_locales (auto simp: scan_defs split: if_splits)

interpretation sjis: local_scan scan_sjis
  by unfold_locales (auto simp: scan_defs Let_def split: if_splits)

interpretation gb18030: local_scan scan_gb18030
proof
  fix i n and s p t :: string
  assume "i < length s" "scan_gb18030 s i = Inr n"
  moreover have "get_byte (p @ s @ t) (Suc (length p + i)) = get_byte s (Suc i)" if "Suc i < length s"
    using get_byte_append[of "Suc i" s p t] that by simp
  moreover have "get_byte (p @ s @ t) (Suc (Suc (length p + i))) = get_byte s (Suc (Suc i))" if "Suc (Suc i) < length s"
    using get_byte_append[of "Suc (Suc i)" s p t] that by simp
  moreover have "get_byte (p @ s @ t) (length p + (i + 3)) = get_byte s (i + 3)" if "i + 3 < length s"
    using get_byte_append[of "i + 3" s p t] that by simp
  ultimately show "scan_gb18030 (p @ s @ t) (length p + i) = Inr (length p + n)"
    by (auto simp: scan_defs Let_def add.assoc split: if_splits)
next
  fix n and s :: string
  assume "s \<noteq> []" "scan_gb18030 s 0 = Inr n"
  then show "scan_gb18030 (take n s) 0 = Inr n"
    by (auto simp: scan_defs Let_def split: if_splits)
qed

lemma scanner_of_local: "local_scan (scanner_of enc)"
  by (cases enc) (simp_all add: ascii_safe.local_scan_axioms two_tier.local_scan_axioms
      gb18030.local_scan_axioms sjis.local_scan_axioms)

lemma find_in_known: "enc \<noteq> Enc_unknown \<Longrightarrow> find_in enc needle = find_ascii_char (scanner_of enc) needle"
  by (cases enc) (auto simp: find_in_def get_char_finder_def fun_eq_iff)

lemma find_in_range:
  assumes "find_in enc needle s here = Inr p" "here \<le> length s"
  shows "here \<le> p \<and> p \<le> length s"
proof -
  have known: "enc \<noteq> Enc_unknown" using assms(1) by (auto simp: find_in_def get_char_finder_def)
  have "find_ascii_char (scanner_of enc) needle s here = Inr p"
    using assms(1) unfolding find_in_known[OF known] .
  from glyph_scan.find_ascii_char_finds[OF scanner_of_glyph_scan assms(2) this] show ?thesis by blast
qed

lemma well_encodedE:
  assumes "well_encoded enc s"
  obtains gs where "glyphs (scanner_of enc) gs" "concat gs = s"
  using assms local_scan.cut_glyphs[OF scanner_of_local] by (auto simp: well_encoded_def)

end
