(* ===== verification/Pqxx_Streams.thy ===== *)
theory Pqxx_Streams
  imports Pqxx_Text
begin

text \<open>
  The text format of \<open>COPY\<close> streams: \<open>libpqxx/src/stream_to.cxx\<close> and \<open>stream_to.hxx\<close> write a row as a
  line, \<open>libpqxx/src/stream_from.cxx\<close> reads one back.  A field is a text or null.
\<close>

type_synonym copy_field = "string option"

subsection \<open>Writing\<close>

definition escape_needles :: "char list" where
  "escape_needles = [CHR 0x08, CHR 0x0C, CHR 0x0A, CHR 0x0D, CHR 0x09, CHR 0x0B, CHR 0x5C]"

definition escape_char :: "char \<Rightarrow> exn + char" where
  "escape_char special =
     (if special = CHR 0x08 then Inr (CHR ''b'')
      else if special = CHR 0x0C then Inr (CHR ''f'')
      else if special = CHR 0x0A then Inr (CHR ''n'')
      else if special = CHR 0x0D then Inr (CHR ''r'')
      else if special = CHR 0x09 then Inr (CHR ''t'')
      else if special = CHR 0x0B then Inr (CHR ''v'')
      else if special = CHR 0x5C then Inr (CHR 0x5C)
      else Inl (Internal_error (''Stream escaping unexpectedly stopped at '' @ [CHR 0x27]
        @ int_to_string (of_char special) @ [CHR 0x27] @ ''.'')))"

function escape_loop :: "encoding_group \<Rightarrow> string \<Rightarrow> nat \<Rightarrow> string \<Rightarrow> exn + string" where
  "escape_loop enc data here buffer =
     (if here < length data
      then (case find_in enc escape_needles data here of
              Inl e \<Rightarrow> Inl e
            | Inr stop_char \<Rightarrow>
                let buffer' = buffer @ take (stop_char - here) (drop here data) in
                if stop_char < length data
                then (case escape_char (data ! stop_char) of
                        Inl e \<Rightarrow> Inl e
                      | Inr c \<Rightarrow> escape_loop enc data (stop_char + 1) (buffer' @ [CHR 0x5C, c]))
                else escape_loop enc data (stop_char + 1) buffer')
      else Inr buffer)"
  by pat_completeness auto
termination
  by (relation "measure (\<lambda>(enc, data, here, buffer). length data - here)")
    (auto dest!: find_in_range)

declare escape_loop.simps [simp del]

definition escape_field_to_buffer :: "encoding_group \<Rightarrow> string \<Rightarrow> string \<Rightarrow> exn + string" where
  "escape_field_to_buffer enc data buffer = (case escape_loop enc data 0 buffer of
       Inl e \<Rightarrow> Inl e | Inr b \<Rightarrow> Inr (b @ [CHR 0x09]))"

definition null_field :: string where
  "null_field = [CHR 0x5C, CHR ''N'', CHR 0x09]"

text \<open>\<open>append_to_buffer\<close> for an optional string.\<close>

definition append_to_buffer :: "encoding_group \<Rightarrow> copy_field \<Rightarrow> string \<Rightarrow> exn + string" where
  "append_to_buffer enc f buffer = (case f of
       None \<Rightarrow> Inr (buffer @ null_field)
     | Some text \<Rightarrow> escape_field_to_buffer enc text buffer)"

fun fill_buffer :: "encoding_group \<Rightarrow> copy_field list \<Rightarrow> string \<Rightarrow> exn + string" where
  "fill_buffer enc [] buffer = Inr buffer"
| "fill_buffer enc (f # fs) buffer = (case append_to_buffer enc f buffer of
       Inl e \<Rightarrow> Inl e | Inr b \<Rightarrow> fill_buffer enc fs b)"

text \<open>The line that \<open>write_buffer\<close> passes on: the tab after the last field is removed.\<close>

definition buffer_line :: "string \<Rightarrow> string" where
  "buffer_line buffer = (if buffer \<noteq> [] then butlast buffer else buffer)"

definition row_line :: "encoding_group \<Rightarrow> copy_field list \<Rightarrow> exn + string" where
  "row_line enc row = map_sum id buffer_line (fill_buffer enc row [])"

subsection \<open>Reading\<close>

definition unescape_char :: "char \<Rightarrow> char" where
  "unescape_char escaped =
     (if escaped = CHR ''b'' then CHR 0x08
      else if escaped = CHR ''f'' then CHR 0x0C
      else if escaped = CHR ''n'' then CHR 0x0A
      else if escaped = CHR ''r'' then CHR 0x0D
      else if escaped = CHR ''t'' then CHR 0x09
      else if escaped = CHR ''v'' then CHR 0x0B
      else escaped)"

text \<open>
  The unescaped text is written to the buffer \<open>row\<close>; a field is a view into it that begins at
  \<open>field_begin\<close>, where \<open>None\<close> is the null pointer of a null field.
\<close>

definition end_field :: "string \<Rightarrow> nat option \<Rightarrow> copy_field" where
  "end_field row field_begin = map_option (\<lambda>b. drop b row) field_begin"

function parse_loop ::
  "encoding_group \<Rightarrow> string \<Rightarrow> nat \<Rightarrow> string \<Rightarrow> nat option \<Rightarrow> copy_field list \<Rightarrow> exn + string \<times> copy_field list" where
  "parse_loop enc line offset row field_begin fields =
     (if offset < length line
      then (case find_in enc [CHR 0x09, CHR 0x5C] line offset of
              Inl e \<Rightarrow> Inl e
            | Inr stop_char \<Rightarrow>
                let row' = row @ take (stop_char - offset) (drop offset line) in
                if stop_char \<ge> length line then Inr (row', fields @ [end_field row' field_begin])
                else if line ! stop_char = CHR 0x09
                then parse_loop enc line (stop_char + 1) row' (Some (length row')) (fields @ [end_field row' field_begin])
                else if stop_char + 1 \<ge> length line then Inl (Failure ''Row ends in backslash'')
                else let escaped = line ! (stop_char + 1) in
                  if escaped = CHR ''N'' \<and> field_begin \<noteq> Some (length row')
                  then Inl (Failure ''Null sequence found in nonempty field'')
                  else parse_loop enc line (stop_char + 2) (row' @ [unescape_char escaped])
                         (if escaped = CHR ''N'' then None else field_begin) fields)
      else Inr (row, fields @ [end_field row field_begin]))"
  by pat_completeness auto
termination
  by (relation "measure (\<lambda>(enc, line, offset, row, field_begin, fields). length line - offset)")
    (auto dest!: find_in_range)

declare parse_loop.simps [simp del]

definition parse_fields :: "encoding_group \<Rightarrow> string \<Rightarrow> exn + copy_field list" where
  "parse_fields enc line = map_sum id snd (parse_loop enc line 0 [] (Some 0) [])"

subsection \<open>What is written\<close>

text \<open>Escaping glyph by glyph.\<close>

definition esc_glyph :: "string \<Rightarrow> string" where
  "esc_glyph g = (case escape_char (hd g) of Inl e \<Rightarrow> g | Inr c \<Rightarrow> [CHR 0x5C, c])"

lemma escape_char_needle: "(\<exists>c. escape_char x = Inr c) \<longleftrightarrow> x \<in> set escape_needles"
  by (simp add: escape_char_def escape_needles_def)

lemma esc_glyph_plain: "hd g \<notin> set escape_needles \<Longrightarrow> esc_glyph g = g"
  using escape_char_needle[of "hd g"] by (auto simp: esc_glyph_def split: sum.splits)

lemma needles_ascii: "c \<in> set escape_needles \<Longrightarrow> of_char c < (128::int)"
  by (auto simp: escape_needles_def)

context local_scan
begin

lemma find_split:
  assumes "glyphs scan gs"
  shows "find_ascii_char scan needle (p @ concat gs) (length p)
    = Inr (length p + length (concat (takeWhile (\<lambda>g. hd g \<notin> set needle) gs)))"
proof -
  let ?P = "\<lambda>g. hd g \<notin> set needle"
  define us vs where "us = takeWhile ?P gs" and "vs = dropWhile ?P gs"
  have gs: "gs = us @ vs" "glyphs scan us" "glyphs scan vs" "\<forall>g \<in> set us. ?P g"
    using assms takeWhile_dropWhile_id[of ?P gs] unfolding us_def vs_def glyphs_def
    by (auto dest: set_takeWhileD set_dropWhileD simp: list_all_iff)
  have "find_ascii_char scan needle (p @ concat gs) (length p)
    = find_ascii_char scan needle (p @ concat us @ concat vs) (length (p @ concat us))"
    using find_glyphs[of us needle p "concat vs"] gs by simp
  also have "\<dots> = Inr (length (p @ concat us))"
  proof (cases vs)
    case Nil
    then show ?thesis by (subst find_ascii_char.simps) simp
  next
    case (Cons v ws)
    then have "\<not> ?P v" using vs_def dropWhile_eq_Cons_conv[of ?P gs v ws] by simp
    then show ?thesis using find_step[of v needle "p @ concat us" "concat ws"] gs(3) Cons by simp
  qed
  finally show ?thesis by (simp add: us_def)
qed

end

lemma find_in_split:
  assumes "enc \<noteq> Enc_unknown" "glyphs (scanner_of enc) gs"
  shows "find_in enc needle (p @ concat gs) (length p)
    = Inr (length p + length (concat (takeWhile (\<lambda>g. hd g \<notin> set needle) gs)))"
  using local_scan.find_split[OF scanner_of_local assms(2)] by (simp only: find_in_known[OF assms(1)])

lemma escape_loop_glyphs:
  assumes "enc \<noteq> Enc_unknown" "glyphs (scanner_of enc) gs"
  shows "escape_loop enc (p @ concat gs) (length p) buf = Inr (buf @ concat (map esc_glyph gs))"
  using assms(2)
proof (induction "length gs" arbitrary: gs p buf rule: less_induct)
  case less
  let ?P = "\<lambda>g. hd g \<notin> set escape_needles"
  define us vs where "us = takeWhile ?P gs" and "vs = dropWhile ?P gs"
  have gs: "gs = us @ vs" by (simp add: us_def vs_def)
  have "\<forall>g \<in> set us. ?P g" unfolding us_def by (auto dest: set_takeWhileD)
  then have us: "map esc_glyph us = us" by (simp add: map_idI esc_glyph_plain)
  show ?case
  proof (cases "concat gs = []")
    case True
    then have "gs = []" using less.prems by (cases gs) (auto simp: glyph_def)
    then show ?thesis by (subst escape_loop.simps) simp
  next
    case False
    then have lt: "length p < length (p @ concat gs)" by simp
    have find: "find_in enc escape_needles (p @ concat gs) (length p) = Inr (length p + length (concat us))"
      unfolding us_def by (rule find_in_split[OF assms(1) less.prems])
    have tk: "take (length p + length (concat us) - length p) (drop (length p) (p @ concat gs)) = concat us"
      by (simp add: gs)
    have unf: "escape_loop enc (p @ concat gs) (length p) buf =
      (let stop_char = length p + length (concat us); buf' = buf @ concat us in
       if stop_char < length (p @ concat gs)
       then (case escape_char ((p @ concat gs) ! stop_char) of
               Inl e \<Rightarrow> Inl e
             | Inr c \<Rightarrow> escape_loop enc (p @ concat gs) (stop_char + 1) (buf' @ [CHR 0x5C, c]))
       else escape_loop enc (p @ concat gs) (stop_char + 1) buf')"
      by (subst escape_loop.simps) (simp only: find tk lt if_True sum.case Let_def)
    show ?thesis
    proof (cases vs)
      case Nil
      then have "escape_loop enc (p @ concat gs) (length p) buf = escape_loop enc (p @ concat gs) (length p + length (concat us) + 1) (buf @ concat us)"
        using unf gs by simp
      also have "\<dots> = Inr (buf @ concat us)" using gs Nil by (subst escape_loop.simps) simp
      finally show ?thesis using us gs Nil by simp
    next
      case (Cons v ws)
      then have hit: "hd v \<in> set escape_needles" using vs_def dropWhile_eq_Cons_conv[of ?P gs v ws] by simp
      have v: "glyph (scanner_of enc) v" "glyphs (scanner_of enc) ws" using less.prems gs Cons by simp_all
      then obtain x where x: "v = [x]" using local_scan.ascii_glyph[OF scanner_of_local, of enc v] needles_ascii[OF hit]
        by (metis One_nat_def length_0_conv length_Suc_conv)
      then obtain c where c: "escape_char x = Inr c" using hit escape_char_needle[of x] by auto
      have "escape_loop enc (p @ concat gs) (length p) buf
        = escape_loop enc ((p @ concat us @ v) @ concat ws) (length (p @ concat us @ v)) (buf @ concat us @ [CHR 0x5C, c])"
        using unf gs Cons x c by (simp add: nth_append)
      also have "\<dots> = Inr (buf @ concat us @ [CHR 0x5C, c] @ concat (map esc_glyph ws))"
        using less.hyps[of ws "p @ concat us @ v" "buf @ concat us @ [CHR 0x5C, c]"] v(2) gs Cons by simp
      finally show ?thesis using us gs Cons x c by (simp add: esc_glyph_def)
    qed
  qed
qed
subsection \<open>What is read\<close>

lemma parse_skip:
  assumes enc: "enc \<noteq> Enc_unknown" and g: "glyph (scanner_of enc) g" and plain: "hd g \<notin> {CHR 0x09, CHR 0x5C}"
  shows "parse_loop enc (p @ g @ t) (length p) row fb fields
    = parse_loop enc (p @ g @ t) (length (p @ g)) (row @ g) fb fields"
proof -
  let ?line = "p @ g @ t" and ?needle = "[CHR 0x09, CHR 0x5C]"
  have lt: "length p < length ?line" using g by (simp add: glyph_def)
  have find: "find_in enc ?needle ?line (length p) = find_in enc ?needle ?line (length (p @ g))"
    using local_scan.find_step[OF scanner_of_local g, of ?needle p t] plain by (simp add: find_in_known[OF enc])
  show ?thesis
  proof (cases "t = []")
    case True
    then have "find_in enc ?needle ?line (length (p @ g)) = Inr (length ?line)"
      by (simp add: find_in_known[OF enc] find_ascii_char.simps)
    with True lt find show ?thesis
      by (subst (1 2) parse_loop.simps) (simp add: Let_def)
  next
    case False
    show ?thesis
    proof (cases "find_in enc ?needle ?line (length (p @ g))")
      case (Inl e)
      with False lt find show ?thesis by (subst (1 2) parse_loop.simps) simp
    next
      case (Inr q)
      then have q: "length (p @ g) \<le> q" using find_in_range by fastforce
      then have r: "row @ take (q - length p) (drop (length p) ?line) = (row @ g) @ take (q - length (p @ g)) (drop (length (p @ g)) ?line)"
        by simp
      have lt': "length (p @ g) < length ?line" using False by simp
      show ?thesis
        by (subst (1 2) parse_loop.simps) (simp only: lt lt' find Inr r sum.case Let_def if_True)
    qed
  qed
qed

lemma find_special:
  assumes "enc \<noteq> Enc_unknown" "c \<in> {CHR 0x09, CHR 0x5C}"
  shows "find_in enc [CHR 0x09, CHR 0x5C] (p @ c # t) (length p) = Inr (length p)"
proof -
  have "glyph (scanner_of enc) [c]" using assms(2) by (intro local_scan.single_glyph[OF scanner_of_local]) auto
  from local_scan.find_step[OF scanner_of_local this, of "[CHR 0x09, CHR 0x5C]" p t] assms show ?thesis
    by (simp add: find_in_known)
qed

lemma parse_tab:
  assumes "enc \<noteq> Enc_unknown"
  shows "parse_loop enc (p @ CHR 0x09 # t) (length p) row fb fields
    = parse_loop enc (p @ CHR 0x09 # t) (length p + 1) row (Some (length row)) (fields @ [end_field row fb])"
  using find_special[OF assms, of "CHR 0x09" p t] by (subst parse_loop.simps) simp

lemma parse_escape:
  assumes "enc \<noteq> Enc_unknown" "c = CHR ''N'' \<longrightarrow> fb = Some (length row)"
  shows "parse_loop enc (p @ CHR 0x5C # c # t) (length p) row fb fields
    = parse_loop enc (p @ CHR 0x5C # c # t) (length p + 2) (row @ [unescape_char c]) (if c = CHR ''N'' then None else fb) fields"
  using find_special[OF assms(1), of "CHR 0x5C" p "c # t"] assms(2)
  by (subst parse_loop.simps) (auto simp: nth_append)

lemma unescape_escape: "escape_char x = Inr c \<Longrightarrow> unescape_char c = x \<and> c \<noteq> CHR ''N''"
  by (auto simp: escape_char_def unescape_char_def split: if_splits)

lemma parse_glyphs:
  assumes enc: "enc \<noteq> Enc_unknown" and gs: "glyphs (scanner_of enc) gs"
  shows "parse_loop enc (p @ concat (map esc_glyph gs) @ t) (length p) row fb fields
    = parse_loop enc (p @ concat (map esc_glyph gs) @ t) (length (p @ concat (map esc_glyph gs))) (row @ concat gs) fb fields"
  using gs
proof (induction gs arbitrary: p row)
  case (Cons g gs)
  let ?t = "concat (map esc_glyph gs) @ t"
  have g: "glyph (scanner_of enc) g" "glyphs (scanner_of enc) gs" using Cons.prems by simp_all
  have "parse_loop enc (p @ esc_glyph g @ ?t) (length p) row fb fields
    = parse_loop enc (p @ esc_glyph g @ ?t) (length (p @ esc_glyph g)) (row @ g) fb fields"
  proof (cases "escape_char (hd g)")
    case (Inl e)
    then have "hd g \<notin> set escape_needles" using escape_char_needle[of "hd g"] by simp
    then show ?thesis using parse_skip[OF enc g(1), of p ?t row fb fields] Inl
      by (simp add: esc_glyph_def escape_needles_def)
  next
    case (Inr c)
    then have "hd g \<in> set escape_needles" using escape_char_needle[of "hd g"] by blast
    then have "length g = 1" using local_scan.ascii_glyph[OF scanner_of_local g(1)] needles_ascii by blast
    then have "g = [hd g]" by (cases g) auto
    then show ?thesis using parse_escape[OF enc, of c fb row p ?t fields] unescape_escape[OF Inr] Inr
      by (simp add: esc_glyph_def)
  qed
  with Cons.IH[OF g(2), of "p @ esc_glyph g" "row @ g"] show ?case by simp
qed simp

text \<open>A field as it stands on the line.\<close>

definition field_text :: "encoding_group \<Rightarrow> copy_field \<Rightarrow> string" where
  "field_text enc f = (case f of None \<Rightarrow> [CHR 0x5C, CHR ''N'']
     | Some s \<Rightarrow> concat (map esc_glyph (the (cut (scanner_of enc) s))))"

definition writable :: "encoding_group \<Rightarrow> copy_field list \<Rightarrow> bool" where
  "writable enc fs \<longleftrightarrow> list_all (\<lambda>f. case f of None \<Rightarrow> True | Some s \<Rightarrow> well_encoded enc s) fs"

lemma cut_some: "well_encoded enc s \<Longrightarrow> glyphs (scanner_of enc) (the (cut (scanner_of enc) s)) \<and> concat (the (cut (scanner_of enc) s)) = s"
  using local_scan.cut_glyphs[OF scanner_of_local, of enc s] by (auto simp: well_encoded_def)

lemma append_field:
  assumes "enc \<noteq> Enc_unknown" "writable enc [f]"
  shows "append_to_buffer enc f buf = Inr (buf @ field_text enc f @ [CHR 0x09])"
proof (cases f)
  case (Some s)
  with assms have "glyphs (scanner_of enc) (the (cut (scanner_of enc) s))" "concat (the (cut (scanner_of enc) s)) = s"
    using cut_some[of enc s] by (simp_all add: writable_def)
  with escape_loop_glyphs[OF assms(1), of "the (cut (scanner_of enc) s)" "[]" buf] Some show ?thesis
    by (simp add: append_to_buffer_def escape_field_to_buffer_def field_text_def)
qed (simp add: append_to_buffer_def field_text_def null_field_def)

lemma fill_fields:
  assumes "enc \<noteq> Enc_unknown" "writable enc fs"
  shows "fill_buffer enc fs buf = Inr (buf @ concat (map (\<lambda>f. field_text enc f @ [CHR 0x09]) fs))"
  using assms(2)
proof (induction fs arbitrary: buf)
  case (Cons f fs)
  then show ?case using append_field[OF assms(1), of f buf] by (simp add: writable_def)
qed simp

lemma parse_field:
  assumes "enc \<noteq> Enc_unknown" "writable enc [f]"
  shows "\<exists>row' fb. parse_loop enc (p @ field_text enc f @ t) (length p) row (Some (length row)) fields
      = parse_loop enc (p @ field_text enc f @ t) (length (p @ field_text enc f)) row' fb fields
    \<and> end_field row' fb = f"
proof (cases f)
  case None
  then show ?thesis using parse_escape[OF assms(1), of "CHR ''N''" "Some (length row)" row p t fields]
    by (auto simp: field_text_def end_field_def)
next
  case (Some s)
  with assms have "glyphs (scanner_of enc) (the (cut (scanner_of enc) s))" "concat (the (cut (scanner_of enc) s)) = s"
    using cut_some[of enc s] by (simp_all add: writable_def)
  with parse_glyphs[OF assms(1), of "the (cut (scanner_of enc) s)" p t row "Some (length row)" fields] Some
  have "parse_loop enc (p @ field_text enc f @ t) (length p) row (Some (length row)) fields
      = parse_loop enc (p @ field_text enc f @ t) (length (p @ field_text enc f)) (row @ s) (Some (length row)) fields"
    by (simp add: field_text_def)
  moreover have "end_field (row @ s) (Some (length row)) = f" using Some by (simp add: end_field_def)
  ultimately show ?thesis by blast
qed

lemma parse_rows:
  assumes "enc \<noteq> Enc_unknown" "writable enc (f # fs)"
  shows "map_sum id snd (parse_loop enc (p @ field_text enc f @ concat (map (\<lambda>f. CHR 0x09 # field_text enc f) fs)) (length p)
      row (Some (length row)) fields) = Inr (fields @ f # fs)"
  using assms(2)
proof (induction fs arbitrary: f p row fields)
  case Nil
  then obtain row' fb where "parse_loop enc (p @ field_text enc f @ []) (length p) row (Some (length row)) fields
      = parse_loop enc (p @ field_text enc f @ []) (length (p @ field_text enc f)) row' fb fields" "end_field row' fb = f"
    using parse_field[OF assms(1), of f p "[]" row fields] by auto
  then show ?case by (simp add: parse_loop.simps[of _ _ "length p + length (field_text enc f)"])
next
  case (Cons g fs)
  define t where "t = field_text enc g @ concat (map (\<lambda>f. CHR 0x09 # field_text enc f) fs)"
  have w: "writable enc [f]" "writable enc (g # fs)" using Cons.prems by (simp_all add: writable_def)
  obtain row' fb where f: "parse_loop enc (p @ field_text enc f @ CHR 0x09 # t) (length p) row (Some (length row)) fields
      = parse_loop enc (p @ field_text enc f @ CHR 0x09 # t) (length (p @ field_text enc f)) row' fb fields" "end_field row' fb = f"
    using parse_field[OF assms(1) w(1), of p "CHR 0x09 # t" row fields] by auto
  have "parse_loop enc ((p @ field_text enc f) @ CHR 0x09 # t) (length (p @ field_text enc f)) row' fb fields
      = parse_loop enc ((p @ field_text enc f @ [CHR 0x09]) @ t) (length (p @ field_text enc f @ [CHR 0x09])) row' (Some (length row')) (fields @ [f])"
    using parse_tab[OF assms(1), of "p @ field_text enc f" t row' fb fields] f(2) by simp
  with f(1) Cons.IH[OF w(2), of "p @ field_text enc f @ [CHR 0x09]" row' "fields @ [f]"] show ?case
    by (simp add: t_def)
qed

lemma butlast_tabs:
  "butlast (concat (map (\<lambda>f. F f @ [c]) (x # xs))) = F x @ concat (map (\<lambda>f. c # F f) xs)"
proof (induction xs arbitrary: x)
  case (Cons y ys)
  then show ?case by (simp add: butlast_append)
qed simp

text \<open>
  A row of at least one field that \<open>stream_to\<close> writes is what \<open>stream_from\<close> reads: same number of
  fields, same texts, same nulls, in every encoding that libpqxx supports and for every text that is
  well encoded in it, whatever special characters it contains and even where a byte of a multibyte
  character looks like one of them.
\<close>

theorem copy_line_roundtrip:
  assumes "enc \<noteq> Enc_unknown" "row \<noteq> []" "\<forall>s. Some s \<in> set row \<longrightarrow> well_encoded enc s"
  shows "\<exists>line. row_line enc row = Inr line \<and> parse_fields enc line = Inr row"
proof -
  obtain f fs where row: "row = f # fs" using assms(2) by (cases row) auto
  have w: "writable enc row" using assms(3) by (auto simp: writable_def list_all_iff split: option.split)
  let ?line = "field_text enc f @ concat (map (\<lambda>f. CHR 0x09 # field_text enc f) fs)"
  have "row_line enc row = Inr ?line"
    using fill_fields[OF assms(1) w, of "[]"] butlast_tabs[of "field_text enc" "CHR 0x09" f fs] row
    by (simp add: row_line_def buffer_line_def)
  moreover have "parse_fields enc ?line = Inr row"
    using parse_rows[OF assms(1), of f fs "[]" "[]" "[]"] w row by (simp add: parse_fields_def)
  ultimately show ?thesis by blast
qed

theorem copy_line_roundtrip_witness:
  "row_line Sjis [Some [CHR 0x83, CHR 0x5C, CHR 0x09], None, Some []]
     = Inr [CHR 0x83, CHR 0x5C, CHR 0x5C, CHR ''t'', CHR 0x09, CHR 0x5C, CHR ''N'', CHR 0x09]
   \<and> (\<exists>line. row_line Sjis [Some [CHR 0x83, CHR 0x5C, CHR 0x09], None, Some []] = Inr line
        \<and> parse_fields Sjis line = Inr [Some [CHR 0x83, CHR 0x5C, CHR 0x09], None, Some []])"
proof
  show "row_line Sjis [Some [CHR 0x83, CHR 0x5C, CHR 0x09], None, Some []]
     = Inr [CHR 0x83, CHR 0x5C, CHR 0x5C, CHR ''t'', CHR 0x09, CHR 0x5C, CHR ''N'', CHR 0x09]" by code_simp
  have "well_encoded Sjis [CHR 0x83, CHR 0x5C, CHR 0x09]" "well_encoded Sjis []" by code_simp+
  then show "\<exists>line. row_line Sjis [Some [CHR 0x83, CHR 0x5C, CHR 0x09], None, Some []] = Inr line
        \<and> parse_fields Sjis line = Inr [Some [CHR 0x83, CHR 0x5C, CHR 0x09], None, Some []]"
    by (intro copy_line_roundtrip) auto
qed

end
