(* ===== verification/Pqxx_Arrays.thy ===== *)
theory Pqxx_Arrays
  imports Pqxx_Text
begin

text \<open>
  SQL arrays and composite values as text: \<open>libpqxx/include/pqxx/internal/array-composite.hxx\<close>,
  \<open>array.hxx\<close>, \<open>composite.hxx\<close> and \<open>libpqxx/src/array.cxx\<close>.  Conditions that the code asserts are branches
  with an error of their own.
\<close>

abbreviation quote_needles :: "char list" where
  "quote_needles \<equiv> [CHR 0x22, CHR 0x5C]"

definition assertion :: "exn + 'a" where
  "assertion = Inl (Internal_error ''assertion failed'')"

subsection \<open>Quoted strings\<close>

lemma find_in_advances:
  assumes "find_in enc needle s here = Inr p" "here < length s" "s ! here \<notin> set needle"
  shows "here < p"
proof -
  have known: "enc \<noteq> Enc_unknown" using assms(1) by (auto simp: find_in_def get_char_finder_def)
  have "find_ascii_char (scanner_of enc) needle s here = Inr p"
    using assms(1) unfolding find_in_known[OF known] .
  from glyph_scan.find_ascii_char_finds[OF scanner_of_glyph_scan _ this] assms(2)
  have "here \<le> p" "p < length s \<longrightarrow> s ! p \<in> set needle" by simp_all
  with assms(2,3) show ?thesis by (cases "p = here") auto
qed

text \<open>The loop of \<open>scan_double_quoted_string\<close>, at a position that a search returned.\<close>

function scan_quoted_loop :: "encoding_group \<Rightarrow> string \<Rightarrow> nat \<Rightarrow> exn + nat" where
  "scan_quoted_loop enc input pos =
     (if pos < length input then
        (if input ! pos = CHR 0x22 then
           (if pos + 1 \<ge> length input then Inr (pos + 1)
            else if input ! (pos + 1) = CHR 0x22 then
              (if pos + 2 \<ge> length input then Inl (Argument_error ''Unexpected end of string: double double-quote.'')
               else case find_in enc quote_needles input (pos + 2) of
                      Inl e \<Rightarrow> Inl e | Inr p \<Rightarrow> scan_quoted_loop enc input p)
            else Inr (pos + 1))
         else if input ! pos = CHR 0x5C then
           (if pos + 1 \<ge> length input then Inl (Argument_error ''Unexpected end of string: backslash.'')
            else if input ! (pos + 1) = CHR 0x5C \<or> input ! (pos + 1) = CHR 0x22 then
              (if pos + 2 \<ge> length input then Inl (Argument_error ''Unexpected end of string: escape sequence.'')
               else case find_in enc quote_needles input (pos + 2) of
                      Inl e \<Rightarrow> Inl e | Inr p \<Rightarrow> scan_quoted_loop enc input p)
            else (case find_in enc quote_needles input (pos + 1) of
                    Inl e \<Rightarrow> Inl e | Inr p \<Rightarrow> scan_quoted_loop enc input p))
         else (case find_in enc quote_needles input pos of
                 Inl e \<Rightarrow> Inl e | Inr p \<Rightarrow> scan_quoted_loop enc input p))
      else Inl (Argument_error (''Missing closing double-quote: '' @ input)))"
  by pat_completeness auto
termination
  by (relation "measure (\<lambda>(enc, input, pos). length input - pos)")
    (auto dest: find_in_range find_in_advances)

declare scan_quoted_loop.simps [simp del]

definition scan_double_quoted_string :: "encoding_group \<Rightarrow> string \<Rightarrow> nat \<Rightarrow> exn + nat" where
  "scan_double_quoted_string enc input pos =
     (if \<not> pos < length input \<or> input ! pos \<noteq> CHR 0x22 then assertion
      else case find_in enc quote_needles input (pos + 1) of
             Inl e \<Rightarrow> Inl e | Inr p \<Rightarrow> scan_quoted_loop enc input p)"

function parse_quoted_loop :: "encoding_group \<Rightarrow> string \<Rightarrow> nat \<Rightarrow> string \<Rightarrow> exn + string" where
  "parse_quoted_loop enc input pos out =
     (if pos < length input - 1 then
        (case find_in enc quote_needles input pos of
           Inl e \<Rightarrow> Inl e
         | Inr nxt \<Rightarrow>
             let out' = out @ take (nxt - pos) (drop pos input) in
             if nxt > length input - 1 \<or> input ! nxt \<notin> set quote_needles then assertion
             else if nxt \<ge> length input - 1 then Inr out'
             else if nxt + 1 \<ge> length input - 1 then assertion
             else if input ! (nxt + 1) = CHR 0x22 \<or> input ! (nxt + 1) = CHR 0x5C
             then parse_quoted_loop enc input (nxt + 2) (out' @ [input ! (nxt + 1)])
             else parse_quoted_loop enc input (nxt + 1) out')
      else if pos \<noteq> length input - 1 then assertion else Inr out)"
  by pat_completeness auto
termination
  by (relation "measure (\<lambda>(enc, input, pos, out). length input - pos)")
    (auto dest!: find_in_range)

declare parse_quoted_loop.simps [simp del]

definition parse_double_quoted_string :: "encoding_group \<Rightarrow> string \<Rightarrow> nat \<Rightarrow> exn + string" where
  "parse_double_quoted_string enc input pos =
     (if \<not> pos + 1 < length input \<or> input ! (length input - 1) \<noteq> CHR 0x22 \<or> input ! pos \<noteq> CHR 0x22 then assertion
      else parse_quoted_loop enc input (pos + 1) [])"

definition scan_unquoted_string :: "encoding_group \<Rightarrow> char list \<Rightarrow> string \<Rightarrow> nat \<Rightarrow> exn + nat" where
  "scan_unquoted_string enc stops input pos = find_in enc stops input pos"

definition parse_unquoted_string :: "string \<Rightarrow> nat \<Rightarrow> string" where
  "parse_unquoted_string input pos = drop pos input"
subsection \<open>Reading a quoted text\<close>

text \<open>The characters of a text with the quotes and backslashes escaped, glyph by glyph.\<close>

definition quote_glyph :: "string \<Rightarrow> string" where
  "quote_glyph g = (if hd g \<in> set quote_needles then CHR 0x5C # g else g)"

definition quoted_text :: "string list \<Rightarrow> string" where
  "quoted_text gs = CHR 0x22 # concat (map quote_glyph gs) @ [CHR 0x22]"

definition scan_from :: "encoding_group \<Rightarrow> string \<Rightarrow> nat \<Rightarrow> exn + nat" where
  "scan_from enc input pos = (case find_in enc quote_needles input pos of
     Inl e \<Rightarrow> Inl e | Inr p \<Rightarrow> scan_quoted_loop enc input p)"

lemma find_plain:
  assumes "enc \<noteq> Enc_unknown" "glyph (scanner_of enc) g" "hd g \<notin> set needle"
  shows "find_in enc needle (p @ g @ t) (length p) = find_in enc needle (p @ g @ t) (length (p @ g))"
  using local_scan.find_step[OF scanner_of_local assms(2), of needle p t] assms(3)
  by (simp add: find_in_known[OF assms(1)])

lemma find_hit:
  assumes "enc \<noteq> Enc_unknown" "c \<in> set needle" "of_char c < (128::int)"
  shows "find_in enc needle (p @ c # t) (length p) = Inr (length p)"
  using local_scan.find_step[OF scanner_of_local local_scan.single_glyph[OF scanner_of_local assms(3)], of enc needle p t] assms
  by (simp add: find_in_known)

lemma quote_needles_ascii: "c \<in> set quote_needles \<Longrightarrow> of_char c < (128::int)"
  by auto

lemma quote_glyph_cases:
  assumes "glyph (scanner_of enc) g"
  obtains (plain) "hd g \<notin> set quote_needles" "quote_glyph g = g"
    | (special) c where "c \<in> set quote_needles" "g = [c]" "quote_glyph g = [CHR 0x5C, c]"
proof (cases "hd g \<in> set quote_needles")
  case True
  then have "length g = 1" using local_scan.ascii_glyph[OF scanner_of_local assms] quote_needles_ascii by blast
  then have "g = [hd g]" by (cases g) auto
  with True special[of "hd g"] show ?thesis unfolding quote_glyph_def by (metis (full_types))
qed (use plain in \<open>simp add: quote_glyph_def\<close>)

lemma scan_from_glyphs:
  assumes enc: "enc \<noteq> Enc_unknown" and gs: "glyphs (scanner_of enc) gs" and t: "t = [] \<or> hd t \<noteq> CHR 0x22"
  shows "scan_from enc (p @ concat (map quote_glyph gs) @ CHR 0x22 # t) (length p)
    = Inr (length p + length (concat (map quote_glyph gs)) + 1)"
  using gs
proof (induction gs arbitrary: p)
  case Nil
  then show ?case using t find_hit[OF enc, of "CHR 0x22" quote_needles p t]
    by (auto simp: scan_from_def scan_quoted_loop.simps[of _ _ "length p"] nth_append hd_conv_nth neq_Nil_conv)
next
  case (Cons g gs)
  let ?u = "concat (map quote_glyph gs) @ CHR 0x22 # t"
  have g: "glyph (scanner_of enc) g" "glyphs (scanner_of enc) gs" using Cons.prems by simp_all
  have "scan_from enc (p @ quote_glyph g @ ?u) (length p) = scan_from enc (p @ quote_glyph g @ ?u) (length (p @ quote_glyph g))"
    using g(1)
  proof (cases rule: quote_glyph_cases)
    case plain
    then show ?thesis using find_plain[OF enc g(1), of quote_needles p ?u] by (simp add: scan_from_def)
  next
    case (special c)
    then show ?thesis using find_hit[OF enc, of "CHR 0x5C" quote_needles p "c # ?u"]
      by (auto simp: scan_from_def scan_quoted_loop.simps[of _ _ "length p"] nth_append)
  qed
  with Cons.IH[OF g(2), of "p @ quote_glyph g"] show ?case by simp
qed

lemma scan_quoted_text:
  assumes "enc \<noteq> Enc_unknown" "glyphs (scanner_of enc) gs" "t = [] \<or> hd t \<noteq> CHR 0x22"
  shows "scan_double_quoted_string enc (p @ quoted_text gs @ t) (length p) = Inr (length (p @ quoted_text gs))"
  using scan_from_glyphs[OF assms, of "p @ [CHR 0x22]"]
  by (simp add: scan_double_quoted_string_def quoted_text_def scan_from_def)

lemma parse_quoted_glyphs:
  assumes enc: "enc \<noteq> Enc_unknown" and gs: "glyphs (scanner_of enc) gs"
  shows "parse_quoted_loop enc (p @ concat (map quote_glyph gs) @ [CHR 0x22]) (length p) out = Inr (out @ concat gs)"
  using gs
proof (induction gs arbitrary: p out)
  case Nil
  then show ?case by (subst parse_quoted_loop.simps) simp
next
  case (Cons g gs)
  let ?u = "concat (map quote_glyph gs) @ [CHR 0x22]"
  have g: "glyph (scanner_of enc) g" "glyphs (scanner_of enc) gs" using Cons.prems by simp_all
  have "parse_quoted_loop enc (p @ quote_glyph g @ ?u) (length p) out
    = parse_quoted_loop enc (p @ quote_glyph g @ ?u) (length (p @ quote_glyph g)) (out @ g)"
    using g(1)
  proof (cases rule: quote_glyph_cases)
    case plain
    have "g \<noteq> []" using g(1) by (simp add: glyph_def)
    then have lt: "length p < length (p @ g @ ?u) - 1" by simp
    have find: "find_in enc quote_needles (p @ g @ ?u) (length p) = find_in enc quote_needles (p @ g @ ?u) (length (p @ g))"
      using find_plain[OF enc g(1) plain(1)] .
    show ?thesis
    proof (cases "gs = []")
      case True
      then have f: "find_in enc quote_needles (p @ g @ ?u) (length (p @ g)) = Inr (length (p @ g))"
        using find_hit[OF enc, of "CHR 0x22" quote_needles "p @ g" "[]"] by simp
      have "length (p @ g) = length (p @ g @ ?u) - 1" using True by simp
      moreover have "(p @ g @ ?u) ! length (p @ g) = CHR 0x22" using True by (simp add: nth_append)
      ultimately show ?thesis using plain lt find f True
        by (subst (1 2) parse_quoted_loop.simps) (simp add: Let_def)
    next
      case False
      have lt': "length (p @ g) < length (p @ g @ ?u) - 1" using False g(2) by (cases gs) (auto simp: quote_glyph_def glyph_def)
      show ?thesis
      proof (cases "find_in enc quote_needles (p @ g @ ?u) (length (p @ g))")
        case (Inl e)
        with plain lt lt' find show ?thesis by (subst (1 2) parse_quoted_loop.simps) simp
      next
        case (Inr q)
        then have q: "length (p @ g) \<le> q" using find_in_range by fastforce
        then have r: "out @ take (q - length p) (drop (length p) (p @ g @ ?u)) = (out @ g) @ take (q - length (p @ g)) (drop (length (p @ g)) (p @ g @ ?u))"
          by simp
        show ?thesis unfolding plain(2)
          by (subst (1 2) parse_quoted_loop.simps) (simp only: lt lt' find Inr r sum.case Let_def if_True)
      qed
    qed
  next
    case (special c)
    then show ?thesis using find_hit[OF enc, of "CHR 0x5C" quote_needles p "c # ?u"]
      by (subst parse_quoted_loop.simps) (auto simp: nth_append)
  qed
  with Cons.IH[OF g(2), of "p @ quote_glyph g" "out @ g"] show ?case by simp
qed

lemma parse_quoted_text:
  assumes "enc \<noteq> Enc_unknown" "glyphs (scanner_of enc) gs"
  shows "parse_double_quoted_string enc (p @ quoted_text gs) (length p) = Inr (concat gs)"
  using parse_quoted_glyphs[OF assms, of "p @ [CHR 0x22]" "[]"]
  by (simp add: parse_double_quoted_string_def quoted_text_def nth_append)
subsection \<open>Writing arrays\<close>

text \<open>
  The elements of a range: null, a value whose text needs no quoting, a text, or a nested range.
\<close>

datatype sql_elt = Null_elt | Raw_elt string | Text_elt string | Sub_array "sql_elt list"

function quote_loop :: "encoding_group \<Rightarrow> string \<Rightarrow> nat \<Rightarrow> string \<Rightarrow> exn + string" where
  "quote_loop enc from i buf =
     (if i < length from
      then (case find_in enc [CHR 0x5C, CHR 0x22] from i of
              Inl e \<Rightarrow> Inl e
            | Inr nxt \<Rightarrow>
                let buf' = buf @ take (nxt - i) (drop i from) in
                if nxt < length from then quote_loop enc from (nxt + 1) (buf' @ [CHR 0x5C, from ! nxt])
                else Inr buf')
      else Inr buf)"
  by pat_completeness auto
termination
  by (relation "measure (\<lambda>(enc, from, i, buf). length from - i)") (auto dest!: find_in_range)

declare quote_loop.simps [simp del]

text \<open>
  The text that \<open>array_into_buf\<close> writes into a buffer that is large enough; each element is followed
  by the separator of its type, and the last separator is taken back.  \<open>seps\<close> holds \<open>array_separator\<close> of the types of the elements,
  from the outermost range inwards; where it says nothing, the separator is the comma, as for every type without a specialisation.
\<close>

definition array_separator :: "char list \<Rightarrow> char" where
  "array_separator seps = (case seps of [] \<Rightarrow> CHR '','' | s # _ \<Rightarrow> s)"

lemma array_separator_simps [simp]: "array_separator [] = CHR '',''" "array_separator (s # seps) = s"
  by (simp_all add: array_separator_def)

fun elts_into_buf :: "encoding_group \<Rightarrow> char list \<Rightarrow> sql_elt list \<Rightarrow> string \<Rightarrow> exn + string"
  and elt_into_buf :: "encoding_group \<Rightarrow> char list \<Rightarrow> sql_elt \<Rightarrow> string \<Rightarrow> exn + string" where
  "elts_into_buf enc seps [] buf = Inr buf"
| "elts_into_buf enc seps (x # xs) buf = (case elt_into_buf enc (tl seps) x buf of
       Inl e \<Rightarrow> Inl e | Inr b \<Rightarrow> elts_into_buf enc seps xs (b @ [array_separator seps]))"
| "elt_into_buf enc seps Null_elt buf = Inr (buf @ ''NULL'')"
| "elt_into_buf enc seps (Raw_elt s) buf = Inr (buf @ s)"
| "elt_into_buf enc seps (Text_elt s) buf = (case get_char_finder [CHR 0x5C, CHR 0x22] enc of
       Inl e \<Rightarrow> Inl e
     | Inr f \<Rightarrow> (case quote_loop enc s 0 (buf @ [CHR 0x22]) of
         Inl e \<Rightarrow> Inl e | Inr b \<Rightarrow> Inr (b @ [CHR 0x22])))"
| "elt_into_buf enc seps (Sub_array xs) buf = (case elts_into_buf enc seps xs (buf @ ''{'') of
       Inl e \<Rightarrow> Inl e | Inr b \<Rightarrow> Inr ((if xs \<noteq> [] then butlast b else b) @ ''}''))"

definition array_into_buf :: "encoding_group \<Rightarrow> char list \<Rightarrow> sql_elt list \<Rightarrow> exn + string" where
  "array_into_buf enc seps xs = elt_into_buf enc seps (Sub_array xs) []"

subsection \<open>Parsing arrays\<close>

definition check_dims :: "nat \<Rightarrow> string \<Rightarrow> exn + unit" where
  "check_dims n data =
     (if length data < n * 2 then Inl (Conversion_error (''Trying to parse a '' @ int_to_string (int n)
          @ ''-dimensional array out of '' @ [CHR 0x27] @ data @ [CHR 0x27] @ ''.''))
      else if data ! 0 \<noteq> CHR ''{'' then Inl (Conversion_error (''Malformed array: does not start with '' @ [CHR 0x27] @ ''{'' @ [CHR 0x27] @ ''.''))
      else if \<not> list_all (\<lambda>i. data ! i = CHR ''{'') [0..<n]
      then Inl (Conversion_error (''Expecting '' @ int_to_string (int n) @ ''-dimensional array, but found ''
          @ int_to_string (int (length (takeWhile (\<lambda>i. data ! i = CHR ''{'') [0..<n]))) @ ''.''))
      else if data ! n = CHR ''{''
      then Inl (Conversion_error (''Tried to parse '' @ int_to_string (int n)
          @ ''-dimensional array from array data that has more dimensions.''))
      else if \<not> list_all (\<lambda>i. data ! (length data - 1 - i) = CHR ''}'') [0..<n]
      then Inl (Conversion_error (''Malformed array: does not end in the right number of '' @ [CHR 0x27] @ ''}'' @ [CHR 0x27] @ ''.''))
      else Inr ())"

definition parse_field_end :: "char \<Rightarrow> string \<Rightarrow> nat \<Rightarrow> exn + nat" where
  "parse_field_end sep data here =
     (if here < length data then
        (if data ! here = sep then
           (if here + 1 \<ge> length data then Inl (Conversion_error ''Array looks truncated.'')
            else if data ! (here + 1) = sep then Inl (Conversion_error ''Array contains double separator.'')
            else if data ! (here + 1) = CHR ''}'' then Inl (Conversion_error ''Array contains trailing separator.'')
            else Inr (here + 1))
         else if data ! here = CHR ''}'' then Inr here
         else Inl (Conversion_error (''Unexpected character in array: '' @ int_to_string (of_char (data ! here))
                @ '' where separator or closing brace expected.'')))
      else Inr here)"

text \<open>
  One element, of the type \<open>std::optional<std::string>\<close>: its value and the position after it.
\<close>

definition parse_element :: "encoding_group \<Rightarrow> char \<Rightarrow> string \<Rightarrow> nat \<Rightarrow> exn + string option \<times> nat" where
  "parse_element enc sep data here =
     (if data ! here = CHR 0x00 then Inl (Conversion_error ''Unexpected zero byte in array.'')
      else if data ! here = CHR '','' then Inl (Conversion_error ''Array contains empty field.'')
      else if data ! here = CHR 0x22 then
        (case scan_double_quoted_string enc data here of
           Inl e \<Rightarrow> Inl e
         | Inr end_pos \<Rightarrow> (case parse_double_quoted_string enc (take end_pos data) here of
             Inl e \<Rightarrow> Inl e | Inr buf \<Rightarrow> Inr (Some buf, end_pos)))
      else (case scan_unquoted_string enc [sep, CHR ''}''] data here of
             Inl e \<Rightarrow> Inl e
           | Inr end_pos \<Rightarrow>
               let field = take (end_pos - here) (drop here data) in
               Inr (if field = ''NULL'' then None else Some field, end_pos)))"

lemma scan_quoted_loop_range: "scan_quoted_loop enc input pos = Inr q \<Longrightarrow> pos < q \<and> q \<le> length input"
proof (induction "length input - pos" arbitrary: pos rule: less_induct)
  case less
  have step: "pos < q \<and> q \<le> length input"
    if f: "find_in enc quote_needles input p = Inr x" and l: "scan_quoted_loop enc input x = Inr q" and pos: "pos < length input"
      and p: "pos < p \<and> p \<le> length input \<or> p = pos \<and> input ! pos \<notin> set quote_needles" for p x
  proof -
    have "pos < x" using find_in_range[OF f] find_in_advances[OF f] p pos by auto
    moreover from this pos have "x < q \<and> q \<le> length input" by (intro less.hyps[OF _ l]) simp
    ultimately show ?thesis by simp
  qed
  from less.prems show ?case
    by (subst (asm) scan_quoted_loop.simps) (auto split: if_splits sum.splits dest!: step)
qed

lemma scan_double_quoted_range: "scan_double_quoted_string enc input pos = Inr q \<Longrightarrow> pos < q \<and> q \<le> length input"
  by (auto simp: scan_double_quoted_string_def assertion_def split: if_splits sum.splits
      dest!: scan_quoted_loop_range find_in_range)

lemma parse_field_end_range: "parse_field_end sep data here = Inr q \<Longrightarrow> here \<le> q \<and> (here < length data \<longrightarrow> data ! here = sep \<longrightarrow> here < q)"
  by (auto simp: parse_field_end_def split: if_splits)

lemma parse_element_advances:
  assumes "parse_element enc sep data here = Inr (v, e)" "parse_field_end sep data e = Inr q"
    and "here < length data" "data ! here \<noteq> CHR ''}''"
  shows "here < q"
proof -
  have "here < e \<or> here = e \<and> data ! here = sep"
    using assms(1,3,4)
    by (auto simp: parse_element_def scan_unquoted_string_def Let_def split: if_splits sum.splits
        dest: scan_double_quoted_range find_in_advances find_in_range)
  then show ?thesis using parse_field_end_range[OF assms(2)] assms(3) by auto
qed
text \<open>
  The loop of \<open>array::parse\<close>.  The dimension being parsed is an integer, \<open>-1\<close> for the fictional outer
  one; \<open>extents\<close> are the counters, \<open>m_extents\<close> the extents known from \<open>known\<close> on.
\<close>

function array_loop ::
  "encoding_group \<Rightarrow> char \<Rightarrow> nat \<Rightarrow> string \<Rightarrow> nat \<Rightarrow> int \<Rightarrow> nat list \<Rightarrow> nat list \<Rightarrow> nat \<Rightarrow> string option list
     \<Rightarrow> exn + nat list \<times> string option list" where
  "array_loop enc sep n data here level extents m_extents known elts =
     (if here < length data then
        (if data ! here = CHR ''{'' then
           (if level = -1 \<and> known \<noteq> n
            then Inl (Conversion_error ''Array text representation closed and reopened its outside brace pair.'')
            else if level = -1 \<and> here \<noteq> 0 then assertion
            else if level \<noteq> -1 \<and> level \<ge> int n - 1
            then Inl (Conversion_error ''Array seems to have inconsistent number of dimensions.'')
            else let extents' = (if level = -1 then extents else extents[nat level := extents ! nat level + 1]) in
              array_loop enc sep n data (here + 1) (level + 1) (extents'[nat (level + 1) := 0]) m_extents known elts)
         else if data ! here = CHR ''}'' then
           (if level = -1 then Inl (Conversion_error (''Array has spurious '' @ [CHR 0x27] @ ''}'' @ [CHR 0x27] @ ''.''))
            else if level \<ge> int known \<and> extents ! nat level \<noteq> m_extents ! nat level
            then Inl (Conversion_error ''Rows in array have inconsistent sizes.'')
            else (case parse_field_end sep data (here + 1) of
                    Inl e \<Rightarrow> Inl e
                  | Inr here' \<Rightarrow>
                      if level < int known
                      then array_loop enc sep n data here' (level - 1) extents (m_extents[nat level := extents ! nat level]) (nat level) elts
                      else array_loop enc sep n data here' (level - 1) extents m_extents known elts))
         else if level \<noteq> int n - 1
         then Inl (Conversion_error ''Malformed array: found element where sub-array was expected.'')
         else (case parse_element enc sep data here of
                 Inl e \<Rightarrow> Inl e
               | Inr (v, end_pos) \<Rightarrow> (case parse_field_end sep data end_pos of
                   Inl e \<Rightarrow> Inl e
                 | Inr here' \<Rightarrow>
                     array_loop enc sep n data here' level (extents[nat level := extents ! nat level + 1]) m_extents known (elts @ [v]))))
      else if level \<noteq> -1 then Inl (Conversion_error ''Malformed array; may be truncated.'')
      else if known \<noteq> 0 then assertion
      else Inr (m_extents, elts))"
  by pat_completeness auto
termination
  by (relation "measure (\<lambda>(enc, sep, n, data, here, level, extents, m_extents, known, elts). length data - here)")
    (auto dest: parse_element_advances parse_field_end_range)

declare array_loop.simps [simp del]

definition array_parse :: "encoding_group \<Rightarrow> char \<Rightarrow> nat \<Rightarrow> string \<Rightarrow> exn + nat list \<times> string option list" where
  "array_parse enc sep n data =
     (if enc = Enc_unknown then Inl (Usage_error ''Tried to parse array without knowing its encoding.'')
      else case check_dims n data of
             Inl e \<Rightarrow> Inl e
           | Inr _ \<Rightarrow> array_loop enc sep n data 0 (-1) (replicate n 0) (replicate n 0) n [])"

subsection \<open>Indexing\<close>

fun init_factors_loop :: "nat list \<Rightarrow> nat \<Rightarrow> nat \<Rightarrow> nat list \<Rightarrow> nat list" where
  "init_factors_loop m_extents 0 factor m_factors = m_factors"
| "init_factors_loop m_extents (Suc d) factor m_factors =
     (let factor' = factor * m_extents ! Suc d in init_factors_loop m_extents d factor' (m_factors[d := factor']))"

definition init_factors :: "nat list \<Rightarrow> nat list" where
  "init_factors m_extents =
     init_factors_loop m_extents (length m_extents - 1) 1 (replicate (length m_extents - 1) 0)"

fun add_index :: "nat list \<Rightarrow> nat \<Rightarrow> nat list \<Rightarrow> nat" where
  "add_index m_factors dimension [] = 0"
| "add_index m_factors dimension [first] = first"
| "add_index m_factors dimension (first # indexes) =
     first * m_factors ! dimension + add_index m_factors (dimension + 1) indexes"

fun check_bounds :: "nat list \<Rightarrow> nat \<Rightarrow> nat list \<Rightarrow> exn + unit" where
  "check_bounds m_extents dimension [] = Inr ()"
| "check_bounds m_extents dimension (first # indexes) =
     (if first \<ge> m_extents ! dimension
      then Inl (Range_error (''Array index for dimension '' @ int_to_string (int dimension) @ '' is out of bounds: ''
             @ int_to_string (int first) @ '' >= '' @ int_to_string (int (m_extents ! dimension)) @ ''.''))
      else check_bounds m_extents (dimension + 1) indexes)"

text \<open>\<open>at\<close>: \<open>vector::at\<close> throws when the located position is past the end.\<close>

definition array_at :: "nat list \<Rightarrow> 'a list \<Rightarrow> nat list \<Rightarrow> exn + 'a" where
  "array_at m_extents m_elts index = (case check_bounds m_extents 0 index of
       Inl e \<Rightarrow> Inl e
     | Inr _ \<Rightarrow> let i = add_index (init_factors m_extents) 0 index in
         if i < length m_elts then Inr (m_elts ! i) else Inl Out_of_range)"
subsection \<open>The text of an array\<close>

lemma quote_skip:
  assumes enc: "enc \<noteq> Enc_unknown" and g: "glyph (scanner_of enc) g" and plain: "hd g \<notin> set quote_needles"
  shows "quote_loop enc (p @ g @ t) (length p) buf = quote_loop enc (p @ g @ t) (length (p @ g)) (buf @ g)"
proof -
  let ?s = "p @ g @ t" and ?needle = "[CHR 0x5C, CHR 0x22]"
  have lt: "length p < length ?s" using g by (simp add: glyph_def)
  have find: "find_in enc ?needle ?s (length p) = find_in enc ?needle ?s (length (p @ g))"
    using plain by (intro find_plain[OF enc g]) auto
  show ?thesis
  proof (cases "find_in enc ?needle ?s (length (p @ g))")
    case (Inl e)
    then have "t \<noteq> []" by (auto simp: find_in_known[OF enc] find_ascii_char.simps)
    with Inl lt find show ?thesis by (subst (1 2) quote_loop.simps) simp
  next
    case (Inr q)
    then have "length (p @ g) \<le> q" using find_in_range by fastforce
    then have r: "buf @ take (q - length p) (drop (length p) ?s) = (buf @ g) @ take (q - length (p @ g)) (drop (length (p @ g)) ?s)"
      by simp
    show ?thesis
    proof (cases "t = []")
      case True
      then have "q = length ?s" using Inr by (simp add: find_in_known[OF enc] find_ascii_char.simps)
      with True lt find Inr show ?thesis by (subst (1 2) quote_loop.simps) (simp add: Let_def)
    next
      case False
      then have lt': "length (p @ g) < length ?s" by simp
      show ?thesis by (subst (1 2) quote_loop.simps) (simp only: lt lt' find Inr r sum.case Let_def if_True)
    qed
  qed
qed

lemma quote_loop_glyphs:
  assumes enc: "enc \<noteq> Enc_unknown" and gs: "glyphs (scanner_of enc) gs"
  shows "quote_loop enc (p @ concat gs) (length p) buf = Inr (buf @ concat (map quote_glyph gs))"
  using gs
proof (induction gs arbitrary: p buf)
  case Nil
  then show ?case by (subst quote_loop.simps) simp
next
  case (Cons g gs)
  have g: "glyph (scanner_of enc) g" "glyphs (scanner_of enc) gs" using Cons.prems by simp_all
  have "quote_loop enc (p @ g @ concat gs) (length p) buf
    = quote_loop enc (p @ g @ concat gs) (length (p @ g)) (buf @ quote_glyph g)"
    using g(1)
  proof (cases rule: quote_glyph_cases)
    case plain
    then show ?thesis using quote_skip[OF enc g(1)] by simp
  next
    case (special c)
    then show ?thesis using find_hit[OF enc, of c "[CHR 0x5C, CHR 0x22]" p "concat gs"] quote_needles_ascii[of c]
      by (subst quote_loop.simps) auto
  qed
  with Cons.IH[OF g(2), of "p @ g" "buf @ quote_glyph g"] show ?case by simp
qed

text \<open>Elements that can be written so that they are read back, and what is written for them.\<close>

definition plain_char :: "char \<Rightarrow> char \<Rightarrow> bool" where
  "plain_char sep c \<longleftrightarrow> of_char c < (128::int) \<and> c \<noteq> sep \<and> c \<notin> set [CHR 0x00, CHR ''{'', CHR ''}'', CHR 0x22, CHR '','']"

definition separator :: "char \<Rightarrow> bool" where
  "separator sep \<longleftrightarrow> sep = CHR '','' \<or> sep = CHR '';''"

fun leaf_ok :: "encoding_group \<Rightarrow> char \<Rightarrow> sql_elt \<Rightarrow> bool" where
  "leaf_ok enc sep Null_elt \<longleftrightarrow> True"
| "leaf_ok enc sep (Raw_elt s) \<longleftrightarrow> s \<noteq> [] \<and> s \<noteq> ''NULL'' \<and> list_all (plain_char sep) s"
| "leaf_ok enc sep (Text_elt s) \<longleftrightarrow> well_encoded enc s"
| "leaf_ok enc sep (Sub_array xs) \<longleftrightarrow> False"

text \<open>A regular array with given extents.\<close>

fun shaped :: "encoding_group \<Rightarrow> char \<Rightarrow> nat list \<Rightarrow> sql_elt \<Rightarrow> bool" where
  "shaped enc sep [] v \<longleftrightarrow> leaf_ok enc sep v"
| "shaped enc sep (k # ks) (Sub_array xs) \<longleftrightarrow> length xs = k \<and> list_all (shaped enc sep ks) xs"
| "shaped enc sep (k # ks) v \<longleftrightarrow> False"

fun flat :: "sql_elt \<Rightarrow> string option list" where
  "flat Null_elt = [None]"
| "flat (Raw_elt s) = [Some s]"
| "flat (Text_elt s) = [Some s]"
| "flat (Sub_array xs) = concat (map flat xs)"

definition join :: "char \<Rightarrow> string list \<Rightarrow> string" where
  "join sep ts = (case ts of [] \<Rightarrow> [] | t # us \<Rightarrow> t @ concat (map ((#) sep) us))"

fun text_of :: "encoding_group \<Rightarrow> char \<Rightarrow> sql_elt \<Rightarrow> string" where
  "text_of enc sep Null_elt = ''NULL''"
| "text_of enc sep (Raw_elt s) = s"
| "text_of enc sep (Text_elt s) = quoted_text (the (cut (scanner_of enc) s))"
| "text_of enc sep (Sub_array xs) = CHR ''{'' # join sep (map (text_of enc sep) xs) @ ''}''"

lemma cut_encoded: "well_encoded enc s \<Longrightarrow> glyphs (scanner_of enc) (the (cut (scanner_of enc) s)) \<and> concat (the (cut (scanner_of enc) s)) = s"
  using local_scan.cut_glyphs[OF scanner_of_local, of enc s] by (auto simp: well_encoded_def)

lemma butlast_join: "ts \<noteq> [] \<Longrightarrow> butlast (b @ concat (map (\<lambda>t. t @ [sep]) ts)) = b @ join sep ts"
proof (induction ts arbitrary: b)
  case (Cons t ts)
  then show ?case using Cons.IH[of "b @ t @ [sep]"]
    by (cases "ts = []") (simp_all add: join_def butlast_append split: list.splits)
qed simp

text \<open>The separators of \<open>n\<close> levels when those of the nested ranges are commas and that of the elements is \<open>sep\<close>.\<close>

definition level_separators :: "char \<Rightarrow> nat \<Rightarrow> char list" where
  "level_separators sep n = replicate (n - 1) (CHR '','') @ [sep]"

lemma level_separators_same:
  "sep = CHR '','' \<or> n = 1 \<Longrightarrow> j < n \<Longrightarrow> array_separator (drop j (level_separators sep n)) = sep"
  by (cases "n - 1 - j") (auto simp: level_separators_def array_separator_def)

lemma elts_into_buf_text:
  "(\<And>v b. v \<in> set xs \<Longrightarrow> elt_into_buf enc (tl seps) v b = Inr (b @ text_of enc sep v)) \<Longrightarrow> array_separator seps = sep \<Longrightarrow>
     elts_into_buf enc seps xs buf = Inr (buf @ concat (map (\<lambda>t. t @ [sep]) (map (text_of enc sep) xs)))"
  by (induction xs arbitrary: buf) simp_all

lemma elt_into_buf_text:
  assumes "enc \<noteq> Enc_unknown"
  shows "shaped enc sep ks v \<Longrightarrow> (\<And>j. j < length ks \<Longrightarrow> array_separator (drop j seps) = sep)
    \<Longrightarrow> elt_into_buf enc seps v buf = Inr (buf @ text_of enc sep v)"
proof (induction ks arbitrary: v buf seps)
  case Nil
  show ?case
  proof (cases v)
    case (Text_elt s)
    with Nil have "well_encoded enc s" by simp
    moreover obtain f where "get_char_finder [CHR 0x5C, CHR 0x22] enc = Inr f"
      using assms by (cases enc) (simp_all add: get_char_finder_def)
    ultimately show ?thesis using Text_elt
      using cut_encoded[of enc s] quote_loop_glyphs[OF assms, of "the (cut (scanner_of enc) s)" "[]" "buf @ [CHR 0x22]"]
      by (simp add: quoted_text_def)
  qed (use Nil in simp_all)
next
  case (Cons k ks)
  then obtain xs where v: "v = Sub_array xs" and xs: "\<And>x. x \<in> set xs \<Longrightarrow> shaped enc sep ks x"
    by (cases v) (auto simp: list_all_iff)
  have tl: "array_separator (drop j (tl seps)) = sep" if "j < length ks" for j
    using Cons.prems(2)[of "Suc j"] that by (simp add: drop_Suc)
  have "elts_into_buf enc seps xs (buf @ ''{'') = Inr ((buf @ ''{'') @ concat (map (\<lambda>t. t @ [sep]) (map (text_of enc sep) xs)))"
    using Cons.prems(2)[of 0] by (intro elts_into_buf_text Cons.IH xs tl) simp_all
  then show ?case using v butlast_join[of "map (text_of enc sep) xs" "buf @ ''{''" sep]
    by (cases "xs = []") (simp_all add: join_def comp_def)
qed

subsection \<open>Reading an array back\<close>

text \<open>What may follow an element, and how far a separator is skipped.\<close>

definition follows :: "char \<Rightarrow> string \<Rightarrow> bool" where
  "follows sep u \<longleftrightarrow> u = [] \<or> hd u = CHR ''}'' \<or> (\<exists>c r. u = sep # c # r \<and> c \<noteq> sep \<and> c \<noteq> CHR ''}'')"

definition skipped :: "char \<Rightarrow> string \<Rightarrow> nat" where
  "skipped sep u = (if u \<noteq> [] \<and> hd u = sep then 1 else 0)"

lemma separator_neq: "separator sep \<Longrightarrow> sep \<noteq> CHR ''}'' \<and> sep \<noteq> CHR ''{'' \<and> sep \<noteq> CHR 0x22 \<and> sep \<noteq> CHR ''N'' \<and> of_char sep < (128::int)"
  by (auto simp: separator_def)

lemma field_end:
  assumes "separator sep" "follows sep u"
  shows "parse_field_end sep (p @ u) (length p) = Inr (length p + skipped sep u)"
proof (cases u)
  case (Cons c r)
  then show ?thesis using assms separator_neq[OF assms(1)]
    by (auto simp: follows_def skipped_def parse_field_end_def nth_append)
qed (simp add: parse_field_end_def skipped_def)

lemma raw_scan:
  assumes enc: "enc \<noteq> Enc_unknown" and sep: "separator sep" and u: "follows sep u"
    and s: "list_all (\<lambda>c. of_char c < (128::int) \<and> c \<noteq> sep \<and> c \<noteq> CHR ''}'') s"
  shows "find_in enc [sep, CHR ''}''] (p @ s @ u) (length p) = Inr (length (p @ s))"
proof -
  let ?gs = "map (\<lambda>c. [c]) s"
  have "glyphs (scanner_of enc) ?gs"
    using s local_scan.single_glyph[OF scanner_of_local] by (auto simp: glyphs_def list_all_iff)
  moreover have "\<forall>g \<in> set ?gs. hd g \<notin> set [sep, CHR ''}'']" using s by (auto simp: list_all_iff)
  ultimately have "find_in enc [sep, CHR ''}''] (p @ concat ?gs @ u) (length p)
      = find_in enc [sep, CHR ''}''] (p @ concat ?gs @ u) (length (p @ concat ?gs))"
    unfolding find_in_known[OF enc] by (rule local_scan.find_glyphs[OF scanner_of_local])
  moreover have "find_in enc [sep, CHR ''}''] ((p @ s) @ u) (length (p @ s)) = Inr (length (p @ s))"
  proof (cases u)
    case Nil
    then show ?thesis by (simp add: find_in_known[OF enc] find_ascii_char.simps)
  next
    case (Cons c r)
    then have "c = sep \<or> c = CHR ''}''" using u by (auto simp: follows_def)
    then have "c \<in> set [sep, CHR ''}'']" "of_char c < (128::int)" using separator_neq[OF sep] by auto
    from find_hit[OF enc this, of "p @ s" r] Cons show ?thesis by simp
  qed
  ultimately show ?thesis by simp
qed

lemma quoted_follow: "separator sep \<Longrightarrow> follows sep u \<Longrightarrow> u = [] \<or> hd u \<noteq> CHR 0x22"
  using separator_neq by (auto simp: follows_def)

lemma element_read:
  assumes enc: "enc \<noteq> Enc_unknown" and sep: "separator sep" and u: "follows sep u" and v: "leaf_ok enc sep v"
  shows "parse_element enc sep (p @ text_of enc sep v @ u) (length p) = Inr (hd (flat v), length (p @ text_of enc sep v))"
proof (cases v)
  case Null_elt
  have "list_all (\<lambda>c. of_char c < (128::int) \<and> c \<noteq> sep \<and> c \<noteq> CHR ''}'') ''NULL''"
    using sep by (auto simp: separator_def)
  from raw_scan[OF enc sep u this, of p] Null_elt show ?thesis
    by (simp add: parse_element_def scan_unquoted_string_def nth_append)
next
  case (Raw_elt s)
  then have "list_all (\<lambda>c. of_char c < (128::int) \<and> c \<noteq> sep \<and> c \<noteq> CHR ''}'') s"
    using v by (auto simp: list_all_iff plain_char_def)
  from raw_scan[OF enc sep u this, of p] Raw_elt v show ?thesis
    by (cases s) (auto simp: parse_element_def scan_unquoted_string_def nth_append plain_char_def)
next
  case (Text_elt s)
  with v have gs: "glyphs (scanner_of enc) (the (cut (scanner_of enc) s))" "concat (the (cut (scanner_of enc) s)) = s"
    using cut_encoded[of enc s] by simp_all
  from scan_quoted_text[OF enc gs(1) quoted_follow[OF sep u], of p] parse_quoted_text[OF enc gs(1), of p] Text_elt gs(2)
  show ?thesis by (simp add: parse_element_def) (simp add: quoted_text_def)
qed (use v in simp)

lemma text_head:
  assumes "separator sep" "shaped enc sep ks v"
  shows "text_of enc sep v \<noteq> [] \<and> hd (text_of enc sep v) \<noteq> sep \<and> hd (text_of enc sep v) \<noteq> CHR ''}''
    \<and> (hd (text_of enc sep v) = CHR ''{'' \<longleftrightarrow> ks \<noteq> [])"
proof (cases v)
  case (Raw_elt s)
  with assms show ?thesis by (cases ks; cases s) (auto simp: plain_char_def)
qed (use assms separator_neq[OF assms(1)] in \<open>cases ks; auto simp: quoted_text_def\<close>)+
definition knows :: "nat list \<Rightarrow> nat \<Rightarrow> nat list \<Rightarrow> bool" where
  "knows S known m \<longleftrightarrow> length m = length S \<and> known \<le> length S \<and> (\<forall>j < length S. known \<le> j \<longrightarrow> m ! j = S ! j)"

lemma loop_open:
  assumes "k < n" "k = 0 \<longrightarrow> p = [] \<and> known = n"
  shows "array_loop enc sep n (p @ CHR ''{'' # r) (length p) (int k - 1) ex m known el =
    array_loop enc sep n (p @ CHR ''{'' # r) (length p + 1) (int k)
      ((if k = 0 then ex else ex[k - 1 := ex ! (k - 1) + 1])[k := 0]) m known el"
  using assms by (subst array_loop.simps) (cases k; auto simp: nth_append Let_def nat_add_distrib add.commute)

lemma loop_close:
  assumes "k < n" "separator sep" "follows sep u" "k < known \<or> ex ! k = m ! k"
  shows "array_loop enc sep n (p @ CHR ''}'' # u) (length p) (int k) ex m known el =
    array_loop enc sep n (p @ CHR ''}'' # u) (length p + 1 + skipped sep u) (int k - 1) ex
      (if k < known then m[k := ex ! k] else m) (min known k) el"
proof -
  have "parse_field_end sep (p @ CHR ''}'' # u) (length p + 1) = Inr (length p + 1 + skipped sep u)"
    using field_end[OF assms(2,3), of "p @ ''}''"] by simp
  then show ?thesis using assms(1,4) by (subst array_loop.simps) (auto simp: min_def)
qed

lemma loop_element:
  assumes "enc \<noteq> Enc_unknown" "separator sep" "follows sep u" "leaf_ok enc sep v" "0 < n"
  shows "array_loop enc sep n (p @ text_of enc sep v @ u) (length p) (int n - 1) ex m known el =
    array_loop enc sep n (p @ text_of enc sep v @ u) (length (p @ text_of enc sep v) + skipped sep u) (int n - 1)
      (ex[n - 1 := ex ! (n - 1) + 1]) m known (el @ flat v)"
proof -
  have h: "text_of enc sep v \<noteq> []" "hd (text_of enc sep v) \<noteq> CHR ''{''" "hd (text_of enc sep v) \<noteq> CHR ''}''"
    using text_head[OF assms(2), of enc "[]" v] assms(4) by simp_all
  then have c: "(p @ text_of enc sep v @ u) ! length p = hd (text_of enc sep v)"
    by (simp add: nth_append hd_conv_nth)
  have e: "parse_element enc sep (p @ text_of enc sep v @ u) (length p) = Inr (hd (flat v), length (p @ text_of enc sep v))"
    by (rule element_read[OF assms(1-4)])
  have f: "parse_field_end sep (p @ text_of enc sep v @ u) (length (p @ text_of enc sep v)) = Inr (length (p @ text_of enc sep v) + skipped sep u)"
    using field_end[OF assms(2,3), of "p @ text_of enc sep v"] by simp
  have g: "flat v = [hd (flat v)]" using assms(4) by (cases v) auto
  have l: "length p < length (p @ text_of enc sep v @ u)" using h(1) by simp
  have z: "nat (int n - 1) = n - 1" by simp
  show ?thesis
    by (subst array_loop.simps) (use h c e f l z g in \<open>simp only: if_True if_False sum.case prod.case\<close>, simp)
qed
lemma join_simps: "join sep [] = []" "join sep (t # ts) = t @ (if ts = [] then [] else sep # join sep ts)"
  by (simp_all add: join_def split: list.split)

text \<open>
  The effect of parsing a value at level \<open>k\<close> of an array with the extents \<open>S\<close>: its elements are
  appended, it is counted one level up, and the extents from \<open>k\<close> on are known.
\<close>

definition reads_value :: "encoding_group \<Rightarrow> char \<Rightarrow> nat list \<Rightarrow> nat \<Rightarrow> sql_elt \<Rightarrow> bool" where
  "reads_value enc sep S k v \<longleftrightarrow> (\<forall>p u ex m known el.
     follows sep u \<longrightarrow> length ex = length S \<longrightarrow> knows S known m \<longrightarrow> (k = 0 \<longrightarrow> p = [] \<and> known = length S) \<longrightarrow>
     (\<exists>ex' m'. array_loop enc sep (length S) (p @ text_of enc sep v @ u) (length p) (int k - 1) ex m known el =
          array_loop enc sep (length S) (p @ text_of enc sep v @ u) (length (p @ text_of enc sep v) + skipped sep u) (int k - 1)
            ex' m' (min known k) (el @ flat v)
        \<and> length ex' = length S \<and> knows S (min known k) m' \<and> (\<forall>j. j + 1 < k \<longrightarrow> ex' ! j = ex ! j)
        \<and> (0 < k \<longrightarrow> ex' ! (k - 1) = Suc (ex ! (k - 1)))))"

lemma reads_valueD:
  assumes "reads_value enc sep S k v" "follows sep u" "length ex = length S" "knows S known m"
    and "k = 0 \<longrightarrow> p = [] \<and> known = length S"
  obtains ex' m' where "array_loop enc sep (length S) (p @ text_of enc sep v @ u) (length p) (int k - 1) ex m known el =
      array_loop enc sep (length S) (p @ text_of enc sep v @ u) (length (p @ text_of enc sep v) + skipped sep u) (int k - 1)
        ex' m' (min known k) (el @ flat v)"
    "length ex' = length S" "knows S (min known k) m'" "\<forall>j. j + 1 < k \<longrightarrow> ex' ! j = ex ! j"
    "0 < k \<longrightarrow> ex' ! (k - 1) = Suc (ex ! (k - 1))"
  using assms unfolding reads_value_def by metis

lemma reads_children:
  assumes sep: "separator sep" and k: "k < length S"
    and ys: "\<forall>y \<in> set ys. shaped enc sep ks y \<and> reads_value enc sep S (k + 1) y"
    and ex: "length ex = length S" and m: "knows S known m"
  shows "\<exists>ex' m'. array_loop enc sep (length S) (p @ join sep (map (text_of enc sep) ys) @ CHR ''}'' # w) (length p) (int k) ex m known el =
      array_loop enc sep (length S) (p @ join sep (map (text_of enc sep) ys) @ CHR ''}'' # w)
        (length (p @ join sep (map (text_of enc sep) ys))) (int k) ex' m' (if ys = [] then known else min known (k + 1)) (el @ concat (map flat ys))
    \<and> length ex' = length S \<and> knows S (if ys = [] then known else min known (k + 1)) m'
    \<and> (\<forall>j < k. ex' ! j = ex ! j) \<and> ex' ! k = ex ! k + length ys"
  using ys ex m
proof (induction ys arbitrary: p ex m known el)
  case Nil
  then show ?case by (auto simp: join_simps)
next
  case (Cons y ys)
  let ?rest = "if ys = [] then [] else sep # join sep (map (text_of enc sep) ys)"
  let ?u = "?rest @ CHR ''}'' # w" and ?t = "text_of enc sep y"
  have D: "join sep (map (text_of enc sep) (y # ys)) = ?t @ ?rest" by (simp add: join_simps)
  have f: "follows sep ?u"
  proof (cases ys)
    case (Cons z zs)
    then have "text_of enc sep z \<noteq> []" "hd (text_of enc sep z) \<noteq> sep" "hd (text_of enc sep z) \<noteq> CHR ''}''"
      using text_head[OF sep, of enc ks z] Cons.prems(1) \<open>ys = z # zs\<close> by auto
    then show ?thesis using Cons by (cases "text_of enc sep z") (auto simp: follows_def join_simps)
  qed (simp add: follows_def)
  have y: "reads_value enc sep S (k + 1) y" using Cons.prems by simp
  obtain ex1 m1 where y1: "array_loop enc sep (length S) (p @ ?t @ ?u) (length p) (int (k + 1) - 1) ex m known el =
      array_loop enc sep (length S) (p @ ?t @ ?u) (length (p @ ?t) + skipped sep ?u) (int (k + 1) - 1) ex1 m1 (min known (k + 1)) (el @ flat y)"
    "length ex1 = length S" "knows S (min known (k + 1)) m1" "\<forall>j. j + 1 < k + 1 \<longrightarrow> ex1 ! j = ex ! j"
    "0 < k + 1 \<longrightarrow> ex1 ! (k + 1 - 1) = Suc (ex ! (k + 1 - 1))"
    by (rule reads_valueD[OF y f Cons.prems(2,3)]) auto
  show ?case
  proof (cases "ys = []")
    case True
    moreover have "skipped sep (CHR ''}'' # w) = 0" using separator_neq[OF sep] by (auto simp: skipped_def)
    ultimately show ?thesis using y1 D by - (rule exI[of _ ex1], rule exI[of _ m1], auto)
  next
    case False
    let ?p = "p @ ?t @ [sep]"
    have "\<forall>y \<in> set ys. shaped enc sep ks y \<and> reads_value enc sep S (k + 1) y" using Cons.prems(1) by simp
    from Cons.IH[OF this y1(2,3), of ?p "el @ flat y"] obtain ex2 m2 where
      z: "array_loop enc sep (length S) (?p @ join sep (map (text_of enc sep) ys) @ CHR ''}'' # w) (length ?p) (int k) ex1 m1 (min known (k + 1)) (el @ flat y) =
      array_loop enc sep (length S) (?p @ join sep (map (text_of enc sep) ys) @ CHR ''}'' # w)
        (length (?p @ join sep (map (text_of enc sep) ys))) (int k) ex2 m2 (min known (k + 1)) ((el @ flat y) @ concat (map flat ys))"
      "length ex2 = length S" "knows S (min known (k + 1)) m2" "\<forall>j < k. ex2 ! j = ex1 ! j" "ex2 ! k = ex1 ! k + length ys"
      using False by auto
    have "skipped sep ?u = 1" using False by (simp add: skipped_def)
    then have "array_loop enc sep (length S) (p @ ?t @ ?u) (length p) (int k) ex m known el =
      array_loop enc sep (length S) (p @ ?t @ ?u) (length (p @ ?t @ ?rest)) (int k) ex2 m2 (min known (k + 1)) (el @ concat (map flat (y # ys)))"
      using y1(1) z(1) False by simp
    then show ?thesis using z y1 D False by - (rule exI[of _ ex2], rule exI[of _ m2], auto)
  qed
qed

lemma reads_shaped:
  assumes enc: "enc \<noteq> Enc_unknown" and sep: "separator sep" and S: "S \<noteq> []" "\<forall>j < length S - 1. 0 < S ! j"
  shows "k \<le> length S \<Longrightarrow> shaped enc sep (drop k S) v \<Longrightarrow> reads_value enc sep S k v"
proof (induction "length S - k" arbitrary: k v rule: less_induct)
  case less
  show ?case
  proof (cases "k = length S")
    case True
    then have "leaf_ok enc sep v" using less.prems by simp
    then have "\<exists>ex' m'. array_loop enc sep (length S) (p @ text_of enc sep v @ u) (length p) (int k - 1) ex m known el =
          array_loop enc sep (length S) (p @ text_of enc sep v @ u) (length (p @ text_of enc sep v) + skipped sep u) (int k - 1)
            ex' m' (min known k) (el @ flat v)
        \<and> length ex' = length S \<and> knows S (min known k) m' \<and> (\<forall>j. j + 1 < k \<longrightarrow> ex' ! j = ex ! j)
        \<and> (0 < k \<longrightarrow> ex' ! (k - 1) = Suc (ex ! (k - 1)))"
      if "follows sep u" "length ex = length S" "knows S known m" for p u ex m known el
      using True S(1) that loop_element[OF enc sep that(1), of v k p ex m known el]
      by - (rule exI[of _ "ex[k - 1 := ex ! (k - 1) + 1]"], rule exI[of _ m], auto simp: knows_def min_def nth_list_update)
    then show ?thesis unfolding reads_value_def by blast
  next
    case False
    then have k: "k < length S" using less.prems by simp
    then have dr: "drop k S = S ! k # drop (k + 1) S" by (simp add: Cons_nth_drop_Suc)
    then obtain xs where v: "v = Sub_array xs" "length xs = S ! k" "\<forall>x \<in> set xs. shaped enc sep (drop (k + 1) S) x"
      using less.prems by (cases v) (auto simp: list_all_iff)
    have xs: "\<forall>x \<in> set xs. shaped enc sep (drop (k + 1) S) x \<and> reads_value enc sep S (k + 1) x"
      using v(3) k less.hyps[of "k + 1"] by simp
    show ?thesis unfolding reads_value_def
    proof (intro allI impI)
      fix p u :: string and ex m :: "nat list" and known :: nat and el :: "string option list"
      assume u: "follows sep u" and ex: "length ex = length S" and m: "knows S known m" and k0: "k = 0 \<longrightarrow> p = [] \<and> known = length S"
      let ?J = "join sep (map (text_of enc sep) xs)"
      let ?D = "p @ CHR ''{'' # ?J @ CHR ''}'' # u"
      define exo where "exo = (if k = 0 then ex else ex[k - 1 := ex ! (k - 1) + 1])[k := 0]"
      have exo: "length exo = length S" "exo ! k = 0" "\<forall>j. j + 1 < k \<longrightarrow> exo ! j = ex ! j"
        "0 < k \<longrightarrow> exo ! (k - 1) = Suc (ex ! (k - 1))"
        using k ex by (auto simp: exo_def)
      let ?kn = "if xs = [] then known else min known (k + 1)"
      have D: "p @ text_of enc sep v @ u = ?D" using v(1) by simp
      have "array_loop enc sep (length S) ?D (length p) (int k - 1) ex m known el
          = array_loop enc sep (length S) ?D (length p + 1) (int k) exo m known el"
        using loop_open[OF k k0, of enc sep "?J @ CHR ''}'' # u" ex m el] by (simp add: exo_def)
      moreover obtain ex1 m1 where c: "array_loop enc sep (length S) ?D (length p + 1) (int k) exo m known el
          = array_loop enc sep (length S) ?D (length (p @ CHR ''{'' # ?J)) (int k) ex1 m1 ?kn (el @ concat (map flat xs))"
        "length ex1 = length S" "knows S ?kn m1" "\<forall>j < k. ex1 ! j = exo ! j" "ex1 ! k = exo ! k + length xs"
        using reads_children[OF sep k xs, of exo known m "p @ ''{''" u el] exo(1) m by auto
      moreover have e: "ex1 ! k = S ! k" using c(5) v(2) exo(2) by simp
      have "?kn = k + 1" if "k < known"
      proof (cases "xs = []")
        case True
        then have "\<not> k < length S - 1" using v(2) S(2) by auto
        moreover have "known \<le> length S" using m by (simp add: knows_def)
        ultimately show ?thesis using True that k by simp
      qed (use that in simp)
      then have kn: "k < ?kn \<longleftrightarrow> k < known" "k < known \<Longrightarrow> ?kn = k + 1" "\<not> k < known \<Longrightarrow> ?kn = known" by auto
      moreover have "array_loop enc sep (length S) ?D (length (p @ CHR ''{'' # ?J)) (int k) ex1 m1 ?kn (el @ concat (map flat xs))
          = array_loop enc sep (length S) ?D (length (p @ CHR ''{'' # ?J) + 1 + skipped sep u) (int k - 1) ex1
              (if k < ?kn then m1[k := ex1 ! k] else m1) (min ?kn k) (el @ concat (map flat xs))"
        using loop_close[OF k sep u, of ?kn ex1 m1 enc "p @ CHR ''{'' # ?J" "el @ concat (map flat xs)"] c(3) e k
        by (auto simp: knows_def)
      moreover have mk: "min ?kn k = min known k" using kn by (cases "k < known") (auto simp: min_def)
      moreover have "knows S (min known k) (if k < ?kn then m1[k := ex1 ! k] else m1)"
        using c(3) e k kn m by (cases "k < known") (auto simp: knows_def min_def nth_list_update)
      moreover have "\<forall>j. j + 1 < k \<longrightarrow> ex1 ! j = ex ! j" using c(4) exo(3) by auto
      moreover have "0 < k \<longrightarrow> ex1 ! (k - 1) = Suc (ex ! (k - 1))" using c(4) exo(4) by auto
      ultimately show "\<exists>ex' m'. array_loop enc sep (length S) (p @ text_of enc sep v @ u) (length p) (int k - 1) ex m known el =
          array_loop enc sep (length S) (p @ text_of enc sep v @ u) (length (p @ text_of enc sep v) + skipped sep u) (int k - 1)
            ex' m' (min known k) (el @ flat v)
        \<and> length ex' = length S \<and> knows S (min known k) m' \<and> (\<forall>j. j + 1 < k \<longrightarrow> ex' ! j = ex ! j)
        \<and> (0 < k \<longrightarrow> ex' ! (k - 1) = Suc (ex ! (k - 1)))"
        unfolding D using v(1) by - (rule exI[of _ ex1], rule exI[of _ "if k < ?kn then m1[k := ex1 ! k] else m1"], simp)
    qed
  qed
qed
lemma join_first: "ts \<noteq> [] \<Longrightarrow> \<exists>w. join sep ts = hd ts @ w"
  by (cases ts) (auto simp: join_simps)

lemma join_last: "ts \<noteq> [] \<Longrightarrow> \<exists>w. join sep ts = w @ last ts"
proof (induction ts)
  case (Cons t ts)
  then show ?case by (cases "ts = []") (auto simp: join_simps intro: exI[of _ "t @ sep # _"])
qed simp

lemma shaped_braces:
  assumes sep: "separator sep"
  shows "S \<noteq> [] \<Longrightarrow> \<forall>j < length S - 1. 0 < S ! j \<Longrightarrow> shaped enc sep S v \<Longrightarrow>
    \<exists>a b. text_of enc sep v = replicate (length S) (CHR ''{'') @ b \<and> b \<noteq> [] \<and> hd b \<noteq> CHR ''{''
      \<and> text_of enc sep v = a @ replicate (length S) (CHR ''}'') \<and> 2 * length S \<le> length (text_of enc sep v)"
proof (induction S arbitrary: v)
  case (Cons k ks)
  then obtain xs where v: "v = Sub_array xs" "length xs = k" "\<forall>x \<in> set xs. shaped enc sep ks x"
    by (cases v) (auto simp: list_all_iff)
  let ?ts = "map (text_of enc sep) xs"
  show ?case
  proof (cases "ks = []")
    case True
    have "hd (join sep ?ts @ ''}'') \<noteq> CHR ''{''"
    proof (cases xs)
      case (Cons x ys)
      then show ?thesis using text_head[OF sep, of enc ks x] v(3) True by (auto simp: join_simps)
    qed (simp add: join_simps)
    then show ?thesis using True v(1) by auto
  next
    case False
    have at: "j < length ks \<Longrightarrow> 0 < (k # ks) ! j" for j using Cons.prems(2) by simp
    have k: "0 < k" using at[of 0] False by simp
    have pos: "\<forall>j < length ks - 1. 0 < ks ! j" using at[of "Suc _"] by (simp add: less_diff_conv)
    from k have xs: "xs \<noteq> []" "hd xs \<in> set xs" "last xs \<in> set xs" using v(2) by auto
    obtain b where b: "text_of enc sep (hd xs) = replicate (length ks) (CHR ''{'') @ b" "b \<noteq> []" "hd b \<noteq> CHR ''{''"
        "2 * length ks \<le> length (text_of enc sep (hd xs))"
      using Cons.IH[OF False pos, of "hd xs"] v(3) xs(2) by blast
    obtain a where a: "text_of enc sep (last xs) = a @ replicate (length ks) (CHR ''}'')"
      using Cons.IH[OF False pos, of "last xs"] v(3) xs(3) by blast
    obtain w w' where w: "join sep ?ts = text_of enc sep (hd xs) @ w" "join sep ?ts = w' @ text_of enc sep (last xs)"
      using join_first[of ?ts sep] join_last[of ?ts sep] xs(1) by (auto simp: hd_map last_map)
    have "text_of enc sep v = replicate (length (k # ks)) (CHR ''{'') @ b @ w @ ''}''" using v(1) w(1) b(1) by simp
    moreover have "text_of enc sep v = (CHR ''{'' # w' @ a) @ replicate (length (k # ks)) (CHR ''}'')"
      using v(1) w(2) a by (simp add: replicate_append_same[symmetric])
    moreover have "2 * length (k # ks) \<le> length (text_of enc sep v)" using v(1) w(1) b(4) by simp
    moreover have "b @ w @ ''}'' \<noteq> []" "hd (b @ w @ ''}'') \<noteq> CHR ''{''" using b(2,3) by simp_all
    ultimately show ?thesis by blast
  qed
qed simp

lemma check_dims_shaped:
  assumes "separator sep" "S \<noteq> []" "\<forall>j < length S - 1. 0 < S ! j" "shaped enc sep S v"
  shows "check_dims (length S) (text_of enc sep v) = Inr ()"
proof -
  let ?n = "length S" and ?t = "text_of enc sep v"
  obtain a b where t: "?t = replicate ?n (CHR ''{'') @ b" "b \<noteq> []" "hd b \<noteq> CHR ''{''"
    "?t = a @ replicate ?n (CHR ''}'')" "2 * ?n \<le> length ?t"
    using shaped_braces[OF assms] by blast
  have "?t ! i = CHR ''{''" if "i < ?n" for i using that by (subst t(1)) (simp add: nth_append)
  moreover have "?t ! ?n \<noteq> CHR ''{''" using t(2,3) by (subst t(1)) (simp add: nth_append hd_conv_nth)
  moreover have "?t ! (length ?t - 1 - i) = CHR ''}''" if "i < ?n" for i
  proof -
    have "length ?t = length a + ?n" by (subst t(4)) simp
    then have "length ?t - 1 - i = length a + (?n - 1 - i)" using that by simp
    with that show ?thesis by (subst t(4)) (simp only: nth_append_length_plus, simp)
  qed
  moreover have "0 < ?n" using assms(2) by simp
  ultimately show ?thesis using t(5) by (simp add: check_dims_def list_all_iff)
qed

subsection \<open>Indexing is row-major\<close>

fun row_major :: "nat list \<Rightarrow> nat list \<Rightarrow> nat" where
  "row_major (k # ks) (i # is) = i * prod_list ks + row_major ks is"
| "row_major _ _ = 0"

fun elt_at :: "sql_elt \<Rightarrow> nat list \<Rightarrow> string option" where
  "elt_at (Sub_array xs) (i # is) = elt_at (xs ! i) is"
| "elt_at v _ = hd (flat v)"

lemma init_factors_loop_nth:
  "d < length S \<Longrightarrow> length fs = length S - 1 \<Longrightarrow> f = prod_list (drop (Suc d) S) \<Longrightarrow>
     length (init_factors_loop S d f fs) = length fs \<and>
     (\<forall>j < length fs. init_factors_loop S d f fs ! j = (if j < d then prod_list (drop (Suc j) S) else fs ! j))"
proof (induction d arbitrary: f fs)
  case (Suc d)
  have "drop (Suc d) S = S ! Suc d # drop (Suc (Suc d)) S" using Suc.prems(1) by (simp add: Cons_nth_drop_Suc)
  then have f: "f * S ! Suc d = prod_list (drop (Suc d) S)" using Suc.prems(3) by simp
  show ?case using Suc.IH[of "fs[d := f * S ! Suc d]" "f * S ! Suc d"] Suc.prems f
    by (auto simp: Let_def nth_list_update less_Suc_eq)
qed simp

lemma init_factors_nth: "Suc j < length S \<Longrightarrow> init_factors S ! j = prod_list (drop (Suc j) S)"
  using init_factors_loop_nth[of "length S - 1" S "replicate (length S - 1) 0" 1] by (auto simp: init_factors_def)

lemma add_index_row_major:
  "length is = length (drop k S) \<Longrightarrow> add_index (init_factors S) k is = row_major (drop k S) is"
proof (induction "init_factors S" k "is" rule: add_index.induct)
  case (2 k i)
  then have "Suc k = length S" by simp
  then have "drop k S = [S ! k]" using Cons_nth_drop_Suc[of k S] by simp
  then show ?case by simp
next
  case (3 k i i' "is")
  then have "Suc k < length S" by simp
  then have "drop k S = S ! k # drop (Suc k) S" by (simp add: Cons_nth_drop_Suc)
  then show ?case using 3 init_factors_nth[of k S] by simp
qed simp

lemma check_bounds_iff:
  "length is = length (drop k S) \<Longrightarrow>
     (if list_all2 (<) is (drop k S) then check_bounds S k is = Inr () else \<exists>m. check_bounds S k is = Inl (Range_error m))"
proof (induction S k "is" rule: check_bounds.induct)
  case (2 S k i "is")
  then have "k < length S" by simp
  then have "drop k S = S ! k # drop (k + 1) S" by (simp add: Cons_nth_drop_Suc)
  then show ?case using 2 by auto
qed simp

lemma flat_shaped:
  "shaped enc sep S v \<Longrightarrow> length (flat v) = prod_list S
    \<and> (\<forall>is. list_all2 (<) is S \<longrightarrow> row_major S is < length (flat v) \<and> flat v ! row_major S is = elt_at v is)"
proof (induction S arbitrary: v)
  case Nil
  then show ?case by (cases v) auto
next
  case (Cons k ks)
  then obtain xs where v: "v = Sub_array xs" "length xs = k" "\<forall>x \<in> set xs. shaped enc sep ks x"
    by (cases v) (auto simp: list_all_iff)
  have len: "\<forall>x \<in> set xs. length (flat x) = prod_list ks" using Cons.IH v(3) by blast
  then have blocks: "length (concat (map flat ys)) = length ys * prod_list ks" if "set ys \<subseteq> set xs" for ys
    using that by (induction ys) auto
  have "row_major (k # ks) (i # is) < length (flat v) \<and> flat v ! row_major (k # ks) (i # is) = elt_at v (i # is)"
    if i: "i < k" "list_all2 (<) is ks" for i "is"
  proof -
    have x: "xs ! i \<in> set xs" using i v(2) by simp
    have xs: "xs = take i xs @ xs ! i # drop (Suc i) xs" using i(1) v(2) by (simp add: id_take_nth_drop)
    have off: "row_major ks is < length (flat (xs ! i))" "flat (xs ! i) ! row_major ks is = elt_at (xs ! i) is"
      using Cons.IH[of "xs ! i"] v(3) x i(2) by auto
    have pre: "length (concat (map flat (take i xs))) = i * prod_list ks"
      using blocks[of "take i xs"] i(1) v(2) by (simp add: set_take_subset)
    have "flat v = concat (map flat (take i xs)) @ flat (xs ! i) @ concat (map flat (drop (Suc i) xs))"
      unfolding v(1) flat.simps by (subst xs) (simp only: map_append concat_append list.map concat.simps)
    then show ?thesis using off pre v(1) by (simp add: nth_append)
  qed
  then show ?case using blocks[of xs] v(1,2) by (auto simp: list_all2_Cons2)
qed



text \<open>
  An array of two dimensions whose elements are separated by semicolons, as for the SQL type \<open>box\<close>, is written with
  commas between its rows, and \<open>array\<close>, which knows one separator, refuses it.
\<close>

lemma semicolons_not_nested:
  "array_into_buf Ascii_safe (level_separators (CHR '';'') 2) [Sub_array [Raw_elt ''1'', Raw_elt ''2''], Sub_array [Raw_elt ''3'', Raw_elt ''4'']]
     = Inr ''{{1;2},{3;4}}''
   \<and> array_parse Ascii_safe (CHR '';'') 2 ''{{1;2},{3;4}}'' = Inl (Conversion_error ''Unexpected character in array: 44 where separator or closing brace expected.'')"
  by code_simp

end
