(* ===== verification/Pqxx_Composite.thy ===== *)
theory Pqxx_Composite
  imports Pqxx_Arrays
begin

text \<open>
  Composite values (\<open>libpqxx/include/pqxx/composite.hxx\<close> and the field parser of
  \<open>internal/array-composite.hxx\<close>) and the older array parser (\<open>libpqxx/src/array.cxx\<close>).  The type of a field
  is given by its conversion from text, its null value if it has one, and its name.
\<close>

record 'a field_type =
  ft_from_string :: "string \<Rightarrow> exn + 'a"
  ft_null :: "'a option"
  ft_name :: string

text \<open>\<open>std::optional<std::string>\<close>.\<close>

definition optional_string :: "string option field_type" where
  "optional_string = \<lparr>ft_from_string = (\<lambda>s. Inr (Some s)), ft_null = Some None, ft_name = ''std::optional<std::string>''\<rparr>"

subsection \<open>Parsing a field\<close>

definition read_field :: "encoding_group \<Rightarrow> 'a field_type \<Rightarrow> nat \<Rightarrow> string \<Rightarrow> nat \<Rightarrow> exn + 'a \<times> nat" where
  "read_field enc ty index input pos =
     (if input ! pos \<in> set '',)]'' then
        (case ft_null ty of
           Some v \<Rightarrow> Inr (v, pos)
         | None \<Rightarrow> Inl (Conversion_error (''Can'' @ [CHR 0x27] @ ''t read composite field '' @ int_to_string (int index)
             @ '': C++ type '' @ ft_name ty @ '' does not support nulls.'')))
      else if input ! pos = CHR 0x22 then
        (case scan_double_quoted_string enc input pos of
           Inl e \<Rightarrow> Inl e
         | Inr stop_pos \<Rightarrow> (case parse_double_quoted_string enc (take stop_pos input) pos of
             Inl e \<Rightarrow> Inl e
           | Inr text \<Rightarrow> (case ft_from_string ty text of Inl e \<Rightarrow> Inl e | Inr v \<Rightarrow> Inr (v, stop_pos))))
      else (case scan_unquoted_string enc '',)]'' input pos of
              Inl e \<Rightarrow> Inl e
            | Inr stop_pos \<Rightarrow> (case ft_from_string ty (take (stop_pos - pos) (drop pos input)) of
                Inl e \<Rightarrow> Inl e | Inr v \<Rightarrow> Inr (v, stop_pos))))"

text \<open>
  What must follow a field; a read past the end of the text, which the code does not exclude, is an
  error of its own here.
\<close>

definition field_follow :: "nat \<Rightarrow> nat \<Rightarrow> string \<Rightarrow> nat \<Rightarrow> exn + nat" where
  "field_follow index last_field input pos =
     (if \<not> pos < length input then Inl (Internal_error ''read past the end'')
      else if index < last_field then
        (if input ! pos \<noteq> CHR '','' then Inl (Conversion_error (''Found '' @ [CHR 0x27, input ! pos, CHR 0x27]
            @ '' in composite value where comma was expected: '' @ [CHR 0x27] @ input @ ''.''))
         else Inr (pos + 1))
      else if input ! pos = CHR '','' then Inl (Conversion_error (''Composite value contained more fields than the expected ''
            @ int_to_string (int last_field) @ '': '' @ [CHR 0x27] @ input @ [CHR 0x27] @ ''.''))
      else if input ! pos \<noteq> CHR '')'' \<and> input ! pos \<noteq> CHR '']'' then Inl (Conversion_error
            (''Composite value has unexpected characters where closing parenthesis was expected: '' @ [CHR 0x27] @ input @ [CHR 0x27] @ ''.''))
      else if pos + 1 \<noteq> length input then Inl (Conversion_error
            (''Composite value has unexpected text after closing parenthesis: '' @ [CHR 0x27] @ input @ [CHR 0x27] @ ''.''))
      else Inr (pos + 1))"

definition parse_composite_field ::
  "encoding_group \<Rightarrow> 'a field_type \<Rightarrow> nat \<Rightarrow> nat \<Rightarrow> string \<Rightarrow> nat \<Rightarrow> exn + 'a \<times> nat" where
  "parse_composite_field enc ty index last_field input pos =
     (if enc = Enc_unknown
      then Inl (Usage_error ''Tried to parse array/composite without knowing its text encoding.'')
      else if \<not> index \<le> last_field \<or> \<not> pos < length input then assertion
      else case read_field enc ty index input pos of
             Inl e \<Rightarrow> Inl e
           | Inr (v, pos') \<Rightarrow> (case field_follow index last_field input pos' of
               Inl e \<Rightarrow> Inl e | Inr pos'' \<Rightarrow> Inr (v, pos'')))"

text \<open>\<open>parse_composite\<close> into fields of the given types.\<close>

fun composite_fields ::
  "encoding_group \<Rightarrow> nat \<Rightarrow> nat \<Rightarrow> string \<Rightarrow> nat \<Rightarrow> 'a field_type list \<Rightarrow> exn + 'a list \<times> nat" where
  "composite_fields enc index last_field input pos [] = Inr ([], pos)"
| "composite_fields enc index last_field input pos (ty # tys) =
     (case parse_composite_field enc ty index last_field input pos of
        Inl e \<Rightarrow> Inl e
      | Inr (v, pos') \<Rightarrow> (case composite_fields enc (index + 1) last_field input pos' tys of
          Inl e \<Rightarrow> Inl e | Inr (vs, q) \<Rightarrow> Inr (v # vs, q)))"

definition parse_composite :: "encoding_group \<Rightarrow> 'a field_type list \<Rightarrow> string \<Rightarrow> exn + 'a list" where
  "parse_composite enc tys text =
     (if length text = 0 then Inl (Conversion_error ''Cannot parse composite value from empty string.'')
      else if text ! 0 \<noteq> CHR ''('' then Inl (Conversion_error (''Invalid composite value string: '' @ [CHR 0x27] @ text @ [CHR 0x27] @ ''.''))
      else case composite_fields enc 0 (length tys - 1) text 1 tys of
             Inl e \<Rightarrow> Inl e
           | Inr (vs, here) \<Rightarrow>
               if here \<noteq> length text then Inl (Conversion_error (''Composite value did not end at the closing parenthesis: ''
                   @ [CHR 0x27] @ text @ [CHR 0x27] @ ''.''))
               else if text ! (here - 1) \<noteq> CHR '')'' then Inl (Conversion_error (''Composite value did not end in parenthesis: ''
                   @ [CHR 0x27] @ text @ [CHR 0x27] @ ''.''))
               else Inr vs)"

subsection \<open>Writing\<close>

text \<open>
  A field is a value whose text needs no quoting (\<open>Inl\<close>) or one whose text is quoted (\<open>Inr\<close>).  The
  escaping goes byte by byte.  The texts are those written into a buffer that is large enough.
\<close>

definition write_composite_field :: "string + string \<Rightarrow> string \<Rightarrow> string" where
  "write_composite_field field buf = (case field of
       Inl text \<Rightarrow> buf @ text @ '',''
     | Inr text \<Rightarrow> buf @ [CHR 0x22]
         @ concat (map (\<lambda>x. if x = CHR 0x22 \<or> x = CHR 0x5C then [CHR 0x5C, x] else [x]) text)
         @ [CHR 0x22] @ '','')"

definition composite_into_buf :: "(string + string) list \<Rightarrow> string" where
  "composite_into_buf fs =
     (if length fs = 0 then ''()''
      else let buf = fold write_composite_field fs ''('' in
        (if length fs > 1 then butlast buf else buf) @ '')'')"

subsection \<open>The array parser\<close>

datatype juncture = Row_start | Row_end | Null_value | String_value | Done

text \<open>What stands at a position before the end: its kind, its value and its end.\<close>

definition array_juncture :: "encoding_group \<Rightarrow> string \<Rightarrow> nat \<Rightarrow> exn + juncture \<times> string \<times> nat" where
  "array_juncture enc input pos =
     (if input ! pos = CHR 0x00 then Inl (Failure ''Unexpected zero byte in array.'')
      else if input ! pos = CHR ''{'' then Inr (Row_start, [], pos + 1)
      else if input ! pos = CHR ''}'' then Inr (Row_end, [], pos + 1)
      else if input ! pos = CHR 0x22 then
        (case scan_double_quoted_string enc input pos of
           Inl e \<Rightarrow> Inl e
         | Inr endpoint \<Rightarrow> (case parse_double_quoted_string enc (take endpoint input) pos of
             Inl e \<Rightarrow> Inl e | Inr value \<Rightarrow> Inr (String_value, value, endpoint)))
      else (case scan_unquoted_string enc '',}'' input pos of
              Inl e \<Rightarrow> Inl e
            | Inr endpoint \<Rightarrow>
                let value = parse_unquoted_string (take endpoint input) pos in
                if value = ''NULL'' then Inr (Null_value, [], endpoint)
                else Inr (String_value, value, endpoint)))"

text \<open>One step from position \<open>pos\<close>: what was found, its value, and the new position.\<close>

definition parse_array_step :: "encoding_group \<Rightarrow> string \<Rightarrow> nat \<Rightarrow> exn + juncture \<times> string \<times> nat" where
  "parse_array_step enc input pos =
     (if pos \<ge> length input then Inr (Done, [], pos)
      else case array_juncture enc input pos of
             Inl e \<Rightarrow> Inl e
           | Inr (j, value, e) \<Rightarrow>
               Inr (j, value, if e < length input \<and> input ! e = CHR '','' then e + 1 else e))"

definition array_parser :: "encoding_group \<Rightarrow> exn + (string \<Rightarrow> nat \<Rightarrow> exn + juncture \<times> string \<times> nat)" where
  "array_parser enc = (if enc = Enc_unknown then Inl (Usage_error ''Tried to parse array without knowing its encoding.'')
     else Inr (parse_array_step enc))"
subsection \<open>Composite values are read back\<close>

fun field_value :: "string + string \<Rightarrow> string" where
  "field_value (Inl s) = s"
| "field_value (Inr s) = s"

text \<open>The text of a value that is not quoted.\<close>

fun field_plain :: "string + string \<Rightarrow> bool" where
  "field_plain (Inl s) \<longleftrightarrow> s \<noteq> [] \<and> hd s \<noteq> CHR 0x22 \<and> list_all (\<lambda>c. c \<notin> set '',)]'') s"
| "field_plain (Inr s) \<longleftrightarrow> True"

definition field_repr :: "string + string \<Rightarrow> string" where
  "field_repr f = (case f of Inl s \<Rightarrow> s | Inr s \<Rightarrow> quoted_text (map (\<lambda>c. [c]) s))"

lemma bytes_are_glyphs: "glyphs (scanner_of Ascii_safe) (map (\<lambda>c. [c]) s)"
  by (induction s) (simp_all add: glyph_def scan_ascii_safe_def)

lemma write_field_repr: "write_composite_field f buf = buf @ field_repr f @ '',''"
proof (cases f)
  case (Inr s)
  have "map (\<lambda>x. if x = CHR 0x22 \<or> x = CHR 0x5C then [CHR 0x5C, x] else [x]) s = map quote_glyph (map (\<lambda>c. [c]) s)"
    by (auto simp: quote_glyph_def)
  then show ?thesis unfolding Inr write_composite_field_def field_repr_def quoted_text_def sum.case by (simp only: append.assoc append_Cons append_Nil)
qed (simp add: write_composite_field_def field_repr_def)

lemma fold_fields: "fold write_composite_field fs buf = buf @ concat (map (\<lambda>t. t @ '','') (map field_repr fs))"
  by (induction fs arbitrary: buf) (simp_all add: write_field_repr)

lemma composite_text:
  "1 < length fs \<Longrightarrow> composite_into_buf fs = ''('' @ join (CHR '','') (map field_repr fs) @ '')''"
  using butlast_join[of "map field_repr fs" "''(''" "CHR '',''"]
  by (cases fs) (simp_all add: composite_into_buf_def fold_fields write_field_repr Let_def del: map_map)

lemma plain_field_scan:
  assumes "field_plain (Inl s)" "c \<in> set '',)]''"
  shows "scan_unquoted_string Ascii_safe '',)]'' (p @ s @ c # u) (length p) = Inr (length (p @ s))
    \<and> (p @ s @ c # u) ! length p \<notin> set '',)]'' \<and> (p @ s @ c # u) ! length p \<noteq> CHR 0x22"
proof -
  have s: "s \<noteq> []" "hd s \<noteq> CHR 0x22" "\<forall>x \<in> set s. x \<notin> set '',)]''" using assms(1) by (auto simp: list_all_iff)
  have "find_in Ascii_safe '',)]'' (p @ concat (map (\<lambda>c. [c]) s) @ c # u) (length p)
      = find_in Ascii_safe '',)]'' (p @ concat (map (\<lambda>c. [c]) s) @ c # u) (length (p @ concat (map (\<lambda>c. [c]) s)))"
    using local_scan.find_glyphs[OF scanner_of_local bytes_are_glyphs, of s "'',)]''" p "c # u"] s(3)
    by (simp add: find_in_known)
  also have "\<dots> = Inr (length (p @ s))"
    using find_hit[of Ascii_safe c "'',)]''" "p @ s" u] assms(2) by auto
  finally have "scan_unquoted_string Ascii_safe '',)]'' (p @ s @ c # u) (length p) = Inr (length (p @ s))"
    by (simp add: scan_unquoted_string_def)
  moreover have "(p @ s @ c # u) ! length p = hd s" using s(1) by (simp add: nth_append hd_conv_nth)
  moreover have "hd s \<notin> set '',)]''" using s(1,3) by simp
  ultimately show ?thesis using s(2) by metis
qed

lemma read_field_repr:
  assumes "field_plain f" "c = CHR '','' \<or> c = CHR '')''"
  shows "read_field Ascii_safe optional_string i (p @ field_repr f @ c # u) (length p)
    = Inr (Some (field_value f), length (p @ field_repr f))"
proof (cases f)
  case (Inl s)
  then show ?thesis using plain_field_scan[of s c p u] assms
    by (auto simp: read_field_def field_repr_def optional_string_def)
next
  case (Inr s)
  have "c # u = [] \<or> hd (c # u) \<noteq> CHR 0x22" using assms(2) by auto
  from scan_quoted_text[OF _ bytes_are_glyphs[of s] this, of p] parse_quoted_text[OF _ bytes_are_glyphs[of s], of p] Inr
  show ?thesis by (simp add: read_field_def field_repr_def optional_string_def) (simp add: quoted_text_def)
qed

lemma composite_fields_read:
  assumes "fs \<noteq> []" "list_all field_plain fs" "index + length fs = Suc last_field"
  shows "composite_fields Ascii_safe index last_field (p @ join (CHR '','') (map field_repr fs) @ '')'') (length p)
      (replicate (length fs) optional_string)
    = Inr (map (\<lambda>f. Some (field_value f)) fs, length (p @ join (CHR '','') (map field_repr fs) @ '')''))"
  using assms
proof (induction fs arbitrary: p index)
  case (Cons f fs)
  let ?D = "p @ join (CHR '','') (map field_repr (f # fs)) @ '')''"
  have f: "field_plain f" using Cons.prems by simp
  show ?case
  proof (cases "fs = []")
    case True
    then have D: "?D = p @ field_repr f @ CHR '')'' # []" by (simp add: join_simps)
    have "parse_composite_field Ascii_safe optional_string index last_field ?D (length p) = Inr (Some (field_value f), length ?D)"
      using read_field_repr[OF f, of "CHR '')''" index p "[]"] Cons.prems(3) True unfolding D
      by (simp add: parse_composite_field_def field_follow_def nth_append)
    then show ?thesis using True by simp
  next
    case False
    let ?r = "join (CHR '','') (map field_repr fs) @ '')''"
    have D: "?D = p @ field_repr f @ CHR '','' # ?r" using False by (simp add: join_simps)
    have "parse_composite_field Ascii_safe optional_string index last_field ?D (length p)
        = Inr (Some (field_value f), length (p @ field_repr f @ '',''))"
      using read_field_repr[OF f, of "CHR '',''" index p ?r] Cons.prems(3) False unfolding D
      by (cases fs) (simp_all add: parse_composite_field_def field_follow_def nth_append)
    moreover have "composite_fields Ascii_safe (index + 1) last_field ((p @ field_repr f @ '','') @ ?r) (length (p @ field_repr f @ '',''))
        (replicate (length fs) optional_string)
      = Inr (map (\<lambda>f. Some (field_value f)) fs, length ((p @ field_repr f @ '','') @ ?r))"
      using Cons.prems False by (intro Cons.IH) auto
    ultimately show ?thesis unfolding D by simp
  qed
qed simp

text \<open>
  A composite value of at least two fields that is written by \<open>composite_into_buf\<close> is read back by
  \<open>parse_composite\<close>, whatever characters its texts contain, in an encoding that is safe for ASCII.
\<close>

theorem composite_roundtrip:
  assumes "2 \<le> length fs" "\<forall>f \<in> set fs. field_plain f"
  shows "parse_composite Ascii_safe (replicate (length fs) optional_string) (composite_into_buf fs)
    = Inr (map (\<lambda>f. Some (field_value f)) fs)"
proof -
  have fs: "fs \<noteq> []" "list_all field_plain fs" "1 < length fs" using assms by (auto simp: list_all_iff)
  then have "composite_fields Ascii_safe 0 (length fs - 1) (''('' @ join (CHR '','') (map field_repr fs) @ '')'') (length ''('')
      (replicate (length fs) optional_string)
    = Inr (map (\<lambda>f. Some (field_value f)) fs, length (''('' @ join (CHR '','') (map field_repr fs) @ '')''))"
    by (intro composite_fields_read) auto
  then show ?thesis using composite_text[OF fs(3)] by (simp add: parse_composite_def nth_append)
qed

theorem composite_roundtrip_witness:
  "composite_into_buf [Inl ''7'', Inr ''a)'', Inr [CHR 0x22]] = ''(7,'' @ [CHR 0x22] @ ''a)'' @ [CHR 0x22] @ '','' @ [CHR 0x22, CHR 0x5C, CHR 0x22, CHR 0x22] @ '')''
   \<and> parse_composite Ascii_safe (replicate (length [Inl ''7'', Inr ''a)'', Inr [CHR 0x22]]) optional_string)
       (composite_into_buf [Inl ''7'', Inr ''a)'', Inr [CHR 0x22]])
     = Inr (map (\<lambda>f. Some (field_value f)) [Inl ''7'', Inr ''a)'', Inr [CHR 0x22]])"
proof
  show "composite_into_buf [Inl ''7'', Inr ''a)'', Inr [CHR 0x22]] = ''(7,'' @ [CHR 0x22] @ ''a)'' @ [CHR 0x22] @ '','' @ [CHR 0x22, CHR 0x5C, CHR 0x22, CHR 0x22] @ '')''"
    by code_simp
  show "parse_composite Ascii_safe (replicate (length [Inl ''7'', Inr ''a)'', Inr [CHR 0x22]]) optional_string)
       (composite_into_buf [Inl ''7'', Inr ''a)'', Inr [CHR 0x22]])
     = Inr (map (\<lambda>f. Some (field_value f)) [Inl ''7'', Inr ''a)'', Inr [CHR 0x22]])"
    by (rule composite_roundtrip) auto
qed

text \<open>
  A composite value of one field is not read back: the comma after the last field is taken back only when
  there are several, so the text has a second, null field, and the parser refuses it.
\<close>

theorem single_field_composite_refused:
  "composite_into_buf [Inr s] = ''('' @ field_repr (Inr s) @ '',)''
   \<and> (\<exists>m. parse_composite Ascii_safe [optional_string] (composite_into_buf [Inr s]) = Inl (Conversion_error m))"
proof -
  have t: "composite_into_buf [Inr s] = ''('' @ field_repr (Inr s) @ CHR '','' # '')''"
    by (simp add: composite_into_buf_def write_field_repr)
  have "read_field Ascii_safe optional_string 0 (''('' @ field_repr (Inr s) @ CHR '','' # '')'') (length ''('')
      = Inr (Some s, length (''('' @ field_repr (Inr s)))"
    using read_field_repr[of "Inr s" "CHR '',''" 0 "''(''" "'')''"] by simp
  then have "\<exists>m. parse_composite Ascii_safe [optional_string] (composite_into_buf [Inr s]) = Inl (Conversion_error m)"
    unfolding t by (simp add: parse_composite_def parse_composite_field_def field_follow_def nth_append)
  with t show ?thesis by simp
qed
text \<open>
  The escaping is not aware of multibyte characters: a two-byte character whose second byte is a
  backslash is torn apart, and the value is not read back.
\<close>

lemma composite_breaks_sjis:
  "\<exists>e. parse_composite Sjis [optional_string, optional_string] (composite_into_buf [Inr ''x'', Inr [CHR 0x83, CHR 0x5C]]) = Inl e"
proof -
  have "parse_composite Sjis [optional_string, optional_string] (composite_into_buf [Inr ''x'', Inr [CHR 0x83, CHR 0x5C]])
    = Inl (Argument_error (''Missing closing double-quote: '' @ composite_into_buf [Inr ''x'', Inr [CHR 0x83, CHR 0x5C]]))"
    by code_simp
  then show ?thesis by blast
qed

subsection \<open>The junctures of an array\<close>

fun junctures :: "sql_elt \<Rightarrow> (juncture \<times> string) list" where
  "junctures Null_elt = [(Null_value, [])]"
| "junctures (Raw_elt s) = [(String_value, s)]"
| "junctures (Text_elt s) = [(String_value, s)]"
| "junctures (Sub_array xs) = (Row_start, []) # concat (map junctures xs) @ [(Row_end, [])]"

text \<open>The calls of \<open>get_next\<close> from a position return these junctures, and then \<open>Done\<close>.\<close>

fun yields :: "encoding_group \<Rightarrow> string \<Rightarrow> nat \<Rightarrow> (juncture \<times> string) list \<Rightarrow> bool" where
  "yields enc input pos [] \<longleftrightarrow> parse_array_step enc input pos = Inr (Done, [], pos)"
| "yields enc input pos ((j, v) # js) \<longleftrightarrow> (case parse_array_step enc input pos of
       Inl e \<Rightarrow> False | Inr (j', v', q) \<Rightarrow> j' = j \<and> v' = v \<and> yields enc input q js)"

lemma follows_skip:
  "follows (CHR '','') u \<Longrightarrow> (if length p < length (p @ u) \<and> (p @ u) ! length p = CHR '','' then length p + 1 else length p)
     = length p + skipped (CHR '','') u"
  by (cases u) (auto simp: follows_def skipped_def)

lemma step_leaf:
  assumes enc: "enc \<noteq> Enc_unknown" and v: "leaf_ok enc (CHR '','') v" and u: "follows (CHR '','') u"
  shows "yields enc (p @ text_of enc (CHR '','') v @ u) (length p) (junctures v @ js)
    = yields enc (p @ text_of enc (CHR '','') v @ u) (length (p @ text_of enc (CHR '','') v) + skipped (CHR '','') u) js"
proof -
  let ?t = "text_of enc (CHR '','') v"
  have sep: "separator (CHR '','')" by (simp add: separator_def)
  have h: "?t \<noteq> []" "hd ?t \<noteq> CHR ''{''" "hd ?t \<noteq> CHR ''}''" "(p @ ?t @ u) ! length p = hd ?t"
    using text_head[OF sep, of enc "[]" v] v by (auto simp: nth_append hd_conv_nth[symmetric])
  have e: "parse_element enc (CHR '','') (p @ ?t @ u) (length p) = Inr (hd (flat v), length (p @ ?t))"
    by (rule element_read[OF enc sep u v])
  then have z: "hd ?t \<noteq> CHR 0x00" "hd ?t \<noteq> CHR '',''" using h(4) by (auto simp: parse_element_def)
  have f: "(if length (p @ ?t) < length (p @ ?t @ u) \<and> (p @ ?t @ u) ! length (p @ ?t) = CHR '','' then length (p @ ?t) + 1 else length (p @ ?t))
      = length (p @ ?t) + skipped (CHR '','') u"
    using follows_skip[OF u, of "p @ ?t"] by simp
  have "\<exists>j w. junctures v = [(j, w)] \<and> array_juncture enc (p @ ?t @ u) (length p) = Inr (j, w, length (p @ ?t))"
  proof (cases v)
    case (Text_elt s)
    then have "hd ?t = CHR 0x22" by (simp add: quoted_text_def)
    with e h show ?thesis using Text_elt
      by (auto simp: parse_element_def array_juncture_def split: sum.splits)
  next
    case Null_elt
    then have "hd ?t \<noteq> CHR 0x22" by simp
    with e h z show ?thesis using Null_elt
      by (auto simp: parse_element_def array_juncture_def parse_unquoted_string_def Let_def split: sum.splits if_splits)
  next
    case (Raw_elt r)
    then have "hd ?t \<noteq> CHR 0x22" using v by (cases r) (auto simp: plain_char_def)
    with e h z show ?thesis using Raw_elt v
      by (auto simp: parse_element_def array_juncture_def parse_unquoted_string_def Let_def split: sum.splits if_splits)
  qed (use v in simp)
  then obtain j w where jw: "junctures v = [(j, w)]"
    "array_juncture enc (p @ ?t @ u) (length p) = Inr (j, w, length (p @ ?t))" by blast
  have l: "\<not> length (p @ ?t @ u) \<le> length p" using h(1) by simp
  have "parse_array_step enc (p @ ?t @ u) (length p) = Inr (j, w, length (p @ ?t) + skipped (CHR '','') u)"
    unfolding parse_array_step_def jw(2) using l f by (simp only: if_False sum.case prod.case)
  then show ?thesis by (simp add: jw(1))
qed

lemma step_brace:
  assumes "c = CHR ''{'' \<and> j = Row_start \<or> c = CHR ''}'' \<and> j = Row_end"
  shows "yields enc (p @ c # r) (length p) ((j, []) # js)
    = yields enc (p @ c # r) (if r \<noteq> [] \<and> hd r = CHR '','' then length p + 2 else length p + 1) js"
proof -
  have "c # r \<noteq> []" by simp
  then show ?thesis using assms by (cases r) (auto simp: parse_array_step_def array_juncture_def nth_append)
qed

lemma step_shaped:
  assumes enc: "enc \<noteq> Enc_unknown"
  shows "shaped enc (CHR '','') ks v \<Longrightarrow> follows (CHR '','') u \<Longrightarrow>
    yields enc (p @ text_of enc (CHR '','') v @ u) (length p) (junctures v @ js)
    = yields enc (p @ text_of enc (CHR '','') v @ u) (length (p @ text_of enc (CHR '','') v) + skipped (CHR '','') u) js"
proof (induction ks arbitrary: v u p js)
  case Nil
  then show ?case using step_leaf[OF enc] by simp
next
  case (Cons k ks)
  let ?T = "text_of enc (CHR '','')"
  have sep: "separator (CHR '','')" by (simp add: separator_def)
  obtain xs where v: "v = Sub_array xs" "\<forall>x \<in> set xs. shaped enc (CHR '','') ks x"
    using Cons.prems(1) by (cases v) (auto simp: list_all_iff)
  note child = Cons.IH
  have kids: "yields enc (q @ join (CHR '','') (map ?T ys) @ CHR ''}'' # u) (length q) (concat (map junctures ys) @ js')
      = yields enc (q @ join (CHR '','') (map ?T ys) @ CHR ''}'' # u) (length (q @ join (CHR '','') (map ?T ys))) js'"
    if "\<forall>y \<in> set ys. shaped enc (CHR '','') ks y" for q ys js'
    using that
  proof (induction ys arbitrary: q)
    case (Cons y ys)
    let ?w = "(if ys = [] then [] else CHR '','' # join (CHR '','') (map ?T ys)) @ CHR ''}'' # u"
    have "follows (CHR '','') ?w"
    proof (cases ys)
      case (Cons z zs)
      then have "?T z \<noteq> []" "hd (?T z) \<noteq> CHR '',''" "hd (?T z) \<noteq> CHR ''}''"
        using text_head[OF sep, of enc ks z] Cons.prems by auto
      then show ?thesis using \<open>ys = z # zs\<close> by (cases "?T z") (auto simp: follows_def join_simps)
    qed (simp add: follows_def)
    then have "yields enc (q @ ?T y @ ?w) (length q) (junctures y @ concat (map junctures ys) @ js')
        = yields enc (q @ ?T y @ ?w) (length (q @ ?T y) + skipped (CHR '','') ?w) (concat (map junctures ys) @ js')"
      using Cons.prems by (intro child) auto
    then show ?case using Cons.IH[of "q @ ?T y @ '',''"] Cons.prems
      by (cases "ys = []") (simp_all add: join_simps skipped_def)
  qed (simp add: join_simps)
  let ?J = "join (CHR '','') (map ?T xs)"
  have hd: "hd (?J @ ''}'') \<noteq> CHR '',''"
  proof (cases xs)
    case (Cons x ys)
    then show ?thesis using text_head[OF sep, of enc ks x] v(2) by (auto simp: join_simps)
  qed (simp add: join_simps)
  have "yields enc (p @ CHR ''{'' # ?J @ CHR ''}'' # u) (length p) ((Row_start, []) # concat (map junctures xs) @ (Row_end, []) # js)
      = yields enc (p @ CHR ''{'' # ?J @ CHR ''}'' # u) (length (p @ ''{'')) (concat (map junctures xs) @ (Row_end, []) # js)"
    using step_brace[of "CHR ''{''" Row_start enc p "?J @ CHR ''}'' # u"] hd by (cases ?J) simp_all
  also have "\<dots> = yields enc (p @ CHR ''{'' # ?J @ CHR ''}'' # u) (length (p @ CHR ''{'' # ?J)) ((Row_end, []) # js)"
    using kids[OF v(2), of "p @ ''{''" "(Row_end, []) # js"] by simp
  also have "\<dots> = yields enc (p @ CHR ''{'' # ?J @ CHR ''}'' # u) (length (p @ CHR ''{'' # ?J) + 1 + skipped (CHR '','') u) js"
    using step_brace[of "CHR ''}''" Row_end enc "p @ CHR ''{'' # ?J" u js] by (cases u) (auto simp: skipped_def)
  finally show ?case using v(1) by simp
qed

text \<open>
  The older parser agrees: called until it is done, \<open>array_parser::get_next\<close> reports for an array that
  \<open>array_into_buf\<close> wrote exactly the starts and ends of its rows, its nulls and its texts, in order.
\<close>

theorem array_parser_junctures:
  assumes "enc \<noteq> Enc_unknown" "shaped enc (CHR '','') S (Sub_array xs)"
  shows "\<exists>text. array_into_buf enc [] xs = Inr text \<and> yields enc text 0 (junctures (Sub_array xs))"
proof -
  let ?t = "text_of enc (CHR '','') (Sub_array xs)"
  have "array_into_buf enc [] xs = Inr ?t"
    using elt_into_buf_text[OF assms, of "[]" "[]"] by (simp add: array_into_buf_def array_separator_def)
  moreover have "yields enc ?t 0 (junctures (Sub_array xs)) \<longleftrightarrow> yields enc ?t (length ?t) []"
    using step_shaped[OF assms, of "[]" "[]" "[]"] by (simp add: follows_def skipped_def)
  moreover have "yields enc ?t (length ?t) []" by (simp add: parse_array_step_def)
  ultimately show ?thesis by blast
qed

theorem array_parser_junctures_witness:
  "\<exists>text. array_into_buf Ascii_safe [] [Null_elt, Text_elt ''NULL''] = Inr text
    \<and> yields Ascii_safe text 0 [(Row_start, []), (Null_value, []), (String_value, ''NULL''), (Row_end, [])]"
proof -
  have "shaped Ascii_safe (CHR '','') [2] (Sub_array [Null_elt, Text_elt ''NULL''])" by code_simp
  from array_parser_junctures[OF _ this] show ?thesis by simp
qed

end
