(* ===== verification/Pqxx_Range.thy ===== *)
theory Pqxx_Range
  imports Pqxx_Composite Pqxx_Convert
begin

text \<open>
  \<open>libpqxx/include/pqxx/range.hxx\<close>: range bounds, ranges with their comparison, membership and
  intersection, and their text form.  Values are of a linearly ordered type; the text form is that
  of ranges of \<open>long\<close>.
\<close>

datatype 'a range_bound = No_bound | Inclusive_bound 'a | Exclusive_bound 'a

fun extends_down_to :: "'a::linorder range_bound \<Rightarrow> 'a \<Rightarrow> bool" where
  "extends_down_to No_bound value \<longleftrightarrow> True"
| "extends_down_to (Inclusive_bound m_value) value \<longleftrightarrow> \<not> value < m_value"
| "extends_down_to (Exclusive_bound m_value) value \<longleftrightarrow> m_value < value"

fun extends_up_to :: "'a::linorder range_bound \<Rightarrow> 'a \<Rightarrow> bool" where
  "extends_up_to No_bound value \<longleftrightarrow> True"
| "extends_up_to (Inclusive_bound m_value) value \<longleftrightarrow> \<not> m_value < value"
| "extends_up_to (Exclusive_bound m_value) value \<longleftrightarrow> value < m_value"

definition is_limited :: "'a range_bound \<Rightarrow> bool" where
  "is_limited b = (case b of No_bound \<Rightarrow> False | _ \<Rightarrow> True)"

definition is_inclusive :: "'a range_bound \<Rightarrow> bool" where
  "is_inclusive b = (case b of Inclusive_bound _ \<Rightarrow> True | _ \<Rightarrow> False)"

definition is_exclusive :: "'a range_bound \<Rightarrow> bool" where
  "is_exclusive b = (case b of Exclusive_bound _ \<Rightarrow> True | _ \<Rightarrow> False)"

definition bound_value :: "'a range_bound \<Rightarrow> 'a option" where
  "bound_value b = (case b of No_bound \<Rightarrow> None | Inclusive_bound v \<Rightarrow> Some v | Exclusive_bound v \<Rightarrow> Some v)"

text \<open>\<open>operator==\<close> of bounds.\<close>

definition bound_eq :: "'a range_bound \<Rightarrow> 'a range_bound \<Rightarrow> bool" where
  "bound_eq b c = (if is_limited b
     then is_limited c \<and> is_inclusive b = is_inclusive c \<and> bound_value b = bound_value c
     else \<not> is_limited c)"

record 'a range =
  m_lower :: "'a range_bound"
  m_upper :: "'a range_bound"

text \<open>\<open>*upper.value() < *lower.value()\<close>, for limited bounds.\<close>

definition crossed :: "'a::linorder range_bound \<Rightarrow> 'a range_bound \<Rightarrow> bool" where
  "crossed lower upper = (is_limited lower \<and> is_limited upper \<and> the (bound_value upper) < the (bound_value lower))"

text \<open>The constructor, with the printing of a bound value for its message.\<close>

definition make_range :: "('a::linorder \<Rightarrow> string) \<Rightarrow> 'a range_bound \<Rightarrow> 'a range_bound \<Rightarrow> exn + 'a range" where
  "make_range str lower upper =
     (if crossed lower upper
      then Inl (Range_error (''Range'' @ [CHR 0x27] @ ''s lower bound ('' @ str (the (bound_value lower))
             @ '') is greater than its upper bound ('' @ str (the (bound_value upper)) @ '').''))
      else Inr \<lparr>m_lower = lower, m_upper = upper\<rparr>)"

definition empty_range :: "'a::zero range" where
  "empty_range = \<lparr>m_lower = Exclusive_bound 0, m_upper = Exclusive_bound 0\<rparr>"

definition range_empty :: "'a::linorder range \<Rightarrow> bool" where
  "range_empty r = ((is_exclusive (m_lower r) \<or> is_exclusive (m_upper r))
     \<and> is_limited (m_lower r) \<and> is_limited (m_upper r)
     \<and> \<not> the (bound_value (m_lower r)) < the (bound_value (m_upper r)))"

definition range_eq :: "'a::linorder range \<Rightarrow> 'a range \<Rightarrow> bool" where
  "range_eq r s = (bound_eq (m_lower r) (m_lower s) \<and> bound_eq (m_upper r) (m_upper s) \<or> range_empty r \<and> range_empty s)"

definition contains_value :: "'a::linorder range \<Rightarrow> 'a \<Rightarrow> bool" where
  "contains_value r value = (extends_down_to (m_lower r) value \<and> extends_up_to (m_upper r) value)"

definition intersect_lower :: "'a::linorder range_bound \<Rightarrow> 'a range_bound \<Rightarrow> 'a range_bound" where
  "intersect_lower b c =
     (if \<not> is_limited b then c
      else if \<not> is_limited c then b
      else if the (bound_value b) < the (bound_value c) then c
      else if the (bound_value c) < the (bound_value b) then b
      else if is_exclusive b then b else c)"

definition intersect_upper :: "'a::linorder range_bound \<Rightarrow> 'a range_bound \<Rightarrow> 'a range_bound" where
  "intersect_upper b c =
     (if \<not> is_limited b then c
      else if \<not> is_limited c then b
      else if the (bound_value c) < the (bound_value b) then c
      else if the (bound_value b) < the (bound_value c) then b
      else if is_exclusive b then b else c)"

text \<open>\<open>operator&\<close>: the constructor it calls at the end does not throw, its condition has just been tested.\<close>

definition intersection :: "'a::{linorder, zero} range \<Rightarrow> 'a range \<Rightarrow> 'a range" where
  "intersection r s =
     (let lower = intersect_lower (m_lower r) (m_lower s); upper = intersect_upper (m_upper r) (m_upper s) in
      if crossed lower upper then empty_range else \<lparr>m_lower = lower, m_upper = upper\<rparr>)"

definition contains_range :: "'a::{linorder, zero} range \<Rightarrow> 'a range \<Rightarrow> bool" where
  "contains_range r other = range_eq (intersection r other) other"

subsection \<open>Text\<close>

definition err_bad_input :: "string \<Rightarrow> string" where
  "err_bad_input text = ''Invalid range input: '' @ [CHR 0x27] @ text @ [CHR 0x27] @ ''.''"

definition range_to_text :: "int range \<Rightarrow> string" where
  "range_to_text r = (if range_empty r then ''empty''
     else (if is_inclusive (m_lower r) then ''['' else ''('')
       @ (case bound_value (m_lower r) of None \<Rightarrow> [] | Some v \<Rightarrow> int_to_string v)
       @ '',''
       @ (case bound_value (m_upper r) of None \<Rightarrow> [] | Some v \<Rightarrow> int_to_string v)
       @ (if is_inclusive (m_upper r) then '']'' else '')''))"

definition optional_long :: "int option field_type" where
  "optional_long = \<lparr>ft_from_string = (\<lambda>s. map_sum id Some (from_string_long s)), ft_null = Some None,
     ft_name = ''std::optional<long>''\<rparr>"

definition make_bound :: "bool \<Rightarrow> int option \<Rightarrow> int range_bound" where
  "make_bound inc v = (case v of None \<Rightarrow> No_bound | Some x \<Rightarrow> if inc then Inclusive_bound x else Exclusive_bound x)"

definition range_from_string :: "string \<Rightarrow> exn + int range" where
  "range_from_string text =
     (let bad = Inl (Conversion_error (err_bad_input text)) in
      if length text < 3 then bad
      else if text ! 0 \<in> set ''eE'' then
        (if length text \<noteq> 5 \<or> text ! 1 \<notin> set ''mM'' \<or> text ! 2 \<notin> set ''pP'' \<or> text ! 3 \<notin> set ''tT'' \<or> text ! 4 \<notin> set ''yY''
         then bad else Inr empty_range)
      else if text ! 0 \<notin> set ''[('' then bad
      else case composite_fields Ascii_safe 0 1 text 1 [optional_long, optional_long] of
             Inl e \<Rightarrow> Inl e
           | Inr (vs, pos) \<Rightarrow>
               if pos \<noteq> length text then bad
               else let closing = text ! (pos - 1) in
                 if closing \<noteq> CHR '')'' \<and> closing \<noteq> CHR '']'' then bad
                 else make_range int_to_string (make_bound (text ! 0 = CHR ''['') (vs ! 0)) (make_bound (closing = CHR '']'') (vs ! 1)))"

subsection \<open>Ranges as sets\<close>

lemmas bound_defs = is_limited_def is_inclusive_def is_exclusive_def bound_value_def

lemma intersect_lower_extends:
  "extends_down_to (intersect_lower b c) x \<longleftrightarrow> extends_down_to b x \<and> extends_down_to c x"
  by (cases b; cases c) (auto simp: intersect_lower_def bound_defs)

lemma intersect_upper_extends:
  "extends_up_to (intersect_upper b c) x \<longleftrightarrow> extends_up_to b x \<and> extends_up_to c x"
  by (cases b; cases c) (auto simp: intersect_upper_def bound_defs)

lemma crossed_nothing: "crossed l u \<Longrightarrow> \<not> (extends_down_to l x \<and> extends_up_to u x)"
  by (cases l; cases u) (auto simp: crossed_def bound_defs)

lemma range_empty_nothing: "range_empty r \<Longrightarrow> \<not> contains_value r x"
  by (cases "m_lower r"; cases "m_upper r") (auto simp: range_empty_def contains_value_def bound_defs)

lemma range_empty_empty: "range_empty empty_range"
  by (simp add: range_empty_def empty_range_def bound_defs)

lemma contains_intersection:
  "contains_value (intersection r s) x \<longleftrightarrow> contains_value r x \<and> contains_value s x"
proof (cases "crossed (intersect_lower (m_lower r) (m_lower s)) (intersect_upper (m_upper r) (m_upper s))")
  case True
  with crossed_nothing[OF True, of x] range_empty_nothing[OF range_empty_empty, of x] show ?thesis
    by (auto simp: intersection_def contains_value_def intersect_lower_extends intersect_upper_extends)
next
  case False
  then show ?thesis
    by (auto simp: intersection_def contains_value_def intersect_lower_extends intersect_upper_extends)
qed

lemma bound_eq_iff [simp]: "bound_eq b c \<longleftrightarrow> b = c"
  by (cases b; cases c) (auto simp: bound_eq_def bound_defs)

lemma range_eq_same: "range_eq r s \<Longrightarrow> contains_value r x = contains_value s x"
  using range_empty_nothing[of r x] range_empty_nothing[of s x]
  by (auto simp: range_eq_def contains_value_def)
definition proper :: "'a::linorder range \<Rightarrow> bool" where
  "proper r \<longleftrightarrow> \<not> crossed (m_lower r) (m_upper r)"

lemma proper_intersection: "proper (intersection r s)"
  by (auto simp: proper_def intersection_def Let_def empty_range_def crossed_def bound_defs)

lemma lower_determined:
  fixes b c :: "'a::{dense_linorder, no_bot} range_bound"
  assumes same: "\<And>x. x \<le> z \<Longrightarrow> extends_down_to b x \<longleftrightarrow> extends_down_to c x"
    and z: "extends_down_to b z" "extends_down_to c z"
  shows "b = c"
proof -
  have no: "d = No_bound" if "\<And>x. x \<le> z \<Longrightarrow> extends_down_to d x" for d
  proof (cases d)
    case (Inclusive_bound v)
    obtain x where "x < min v z" using lt_ex by blast
    with that[of x] Inclusive_bound show ?thesis by (auto simp: less_imp_le)
  next
    case (Exclusive_bound v)
    with that[of "min v z"] show ?thesis by auto
  qed simp
  have inc_exc: False if "\<And>x. x \<le> z \<Longrightarrow> (v \<le> x) = (w < x)" "v \<le> z" for v w
  proof -
    have "w < v" using that(1)[of v] that(2) by simp
    then obtain x where x: "w < x" "x < v" using dense by blast
    then have "x \<le> z" using that(2) by simp
    with that(1)[of x] x show False by simp
  qed
  have inc_inc: "v = w" if "\<And>x. x \<le> z \<Longrightarrow> (v \<le> x) = (w \<le> x)" "v \<le> z" "w \<le> z" for v w
    using that(1)[of v] that(1)[of w] that(2,3) by auto
  have exc_exc: "v = w" if "\<And>x. x \<le> z \<Longrightarrow> v < x \<longleftrightarrow> w < x" "v < z" "w < z" for v w
  proof (rule ccontr)
    assume "v \<noteq> w"
    then have "min v w < max v w" by (auto simp: min_def max_def)
    then show False using that(1)[of "max v w"] that(2,3) by (auto simp: min_def max_def split: if_splits)
  qed
  show ?thesis
  proof (cases b)
    case No_bound
    with no[of c] same show ?thesis by simp
  next
    case b: (Inclusive_bound v)
    show ?thesis
    proof (cases c)
      case No_bound
      with no[of b] same show ?thesis by simp
    next
      case (Inclusive_bound w)
      with b inc_inc[of v w] same z show ?thesis by (simp add: not_less)
    next
      case (Exclusive_bound w)
      with b same z have "\<And>x. x \<le> z \<Longrightarrow> (v \<le> x) = (w < x)" "v \<le> z" by (simp_all add: not_less)
      then show ?thesis using inc_exc[of v w] by blast
    qed
  next
    case b: (Exclusive_bound v)
    show ?thesis
    proof (cases c)
      case No_bound
      with no[of b] same show ?thesis by simp
    next
      case (Inclusive_bound w)
      with b same z have "\<And>x. x \<le> z \<Longrightarrow> (w \<le> x) = (v < x)" "w \<le> z" by (simp_all add: not_less)
      then show ?thesis using inc_exc[of w v] by blast
    next
      case (Exclusive_bound w)
      with b exc_exc[of v w] same z show ?thesis by simp
    qed
  qed
qed
lemma upper_determined:
  fixes b c :: "'a::{dense_linorder, no_top} range_bound"
  assumes same: "\<And>x. z \<le> x \<Longrightarrow> extends_up_to b x \<longleftrightarrow> extends_up_to c x"
    and z: "extends_up_to b z" "extends_up_to c z"
  shows "b = c"
proof -
  have no: "d = No_bound" if "\<And>x. z \<le> x \<Longrightarrow> extends_up_to d x" for d
  proof (cases d)
    case (Inclusive_bound v)
    obtain x where "max v z < x" using gt_ex by blast
    with that[of x] Inclusive_bound show ?thesis by (auto simp: less_imp_le)
  next
    case (Exclusive_bound v)
    with that[of "max v z"] show ?thesis by auto
  qed simp
  have inc_exc: False if "\<And>x. z \<le> x \<Longrightarrow> (x \<le> v) = (x < w)" "z \<le> v" for v w
  proof -
    have "v < w" using that(1)[of v] that(2) by simp
    then obtain x where x: "v < x" "x < w" using dense by blast
    then have "z \<le> x" using that(2) by simp
    with that(1)[of x] x show False by simp
  qed
  have inc_inc: "v = w" if "\<And>x. z \<le> x \<Longrightarrow> (x \<le> v) = (x \<le> w)" "z \<le> v" "z \<le> w" for v w
    using that(1)[of v] that(1)[of w] that(2,3) by auto
  have exc_exc: "v = w" if "\<And>x. z \<le> x \<Longrightarrow> x < v \<longleftrightarrow> x < w" "z < v" "z < w" for v w
  proof (rule ccontr)
    assume "v \<noteq> w"
    then have "min v w < max v w" by (auto simp: min_def max_def)
    then show False using that(1)[of "min v w"] that(2,3) by (auto simp: min_def max_def split: if_splits)
  qed
  show ?thesis
  proof (cases b)
    case No_bound
    with no[of c] same show ?thesis by simp
  next
    case b: (Inclusive_bound v)
    show ?thesis
    proof (cases c)
      case No_bound
      with no[of b] same show ?thesis by simp
    next
      case (Inclusive_bound w)
      with b inc_inc[of v w] same z show ?thesis by (simp add: not_less)
    next
      case (Exclusive_bound w)
      with b same z have "\<And>x. z \<le> x \<Longrightarrow> (x \<le> v) = (x < w)" "z \<le> v" by (simp_all add: not_less)
      then show ?thesis using inc_exc[of v w] by blast
    qed
  next
    case b: (Exclusive_bound v)
    show ?thesis
    proof (cases c)
      case No_bound
      with no[of b] same show ?thesis by simp
    next
      case (Inclusive_bound w)
      with b same z have "\<And>x. z \<le> x \<Longrightarrow> (x \<le> w) = (x < v)" "z \<le> w" by (simp_all add: not_less)
      then show ?thesis using inc_exc[of w v] by blast
    next
      case (Exclusive_bound w)
      with b exc_exc[of v w] same z show ?thesis by simp
    qed
  qed
qed

lemma proper_nonempty:
  fixes r :: "'a::{dense_linorder, no_top, no_bot} range"
  assumes "proper r" "\<not> range_empty r"
  shows "\<exists>x. contains_value r x"
proof -
  have ends: "\<exists>x. x < a" "\<exists>x. a < x" "a < b \<Longrightarrow> \<exists>x. a < x \<and> x < b" for a b :: 'a
    by (rule lt_ex gt_ex, rule lt_ex gt_ex, rule dense)
  show ?thesis
    using assms ends
    by (cases "m_lower r"; cases "m_upper r")
      (auto simp: proper_def crossed_def range_empty_def contains_value_def bound_defs not_less, metis order_refl order_less_le)
qed

lemma same_values_eq:
  fixes r s :: "'a::{dense_linorder, no_top, no_bot} range"
  assumes "proper r" "proper s" "\<And>x. contains_value r x = contains_value s x"
  shows "range_eq r s"
proof (cases "range_empty r \<or> range_empty s")
  case True
  then have "\<not> contains_value r x" "\<not> contains_value s x" for x
    using assms(3) range_empty_nothing[of r x] range_empty_nothing[of s x] by auto
  then have "range_empty r" "range_empty s" using proper_nonempty assms by blast+
  then show ?thesis by (simp add: range_eq_def)
next
  case False
  then obtain z where z: "contains_value r z" using proper_nonempty[OF assms(1)] by blast
  then have z': "contains_value s z" using assms(3) by simp
  have up: "extends_up_to (m_upper t) x" if "contains_value t z" "x \<le> z" for t :: "'a range" and x
    using that by (cases "m_upper t") (auto simp: contains_value_def)
  have down: "extends_down_to (m_lower t) x" if "contains_value t z" "z \<le> x" for t :: "'a range" and x
    using that by (cases "m_lower t") (auto simp: contains_value_def)
  have "m_lower r = m_lower s"
    using z z' assms(3) up[OF z] up[OF z'] by (intro lower_determined[of z]) (auto simp: contains_value_def)
  moreover have "m_upper r = m_upper s"
    using z z' assms(3) down[OF z] down[OF z'] by (intro upper_determined[of z]) (auto simp: contains_value_def)
  ultimately show ?thesis by (simp add: range_eq_def)
qed

text \<open>
  C40.  Over a dense order without end points, ranges are the sets of their values: the intersection of two
  ranges holds the values that are in both, \<open>==\<close> holds exactly when both ranges hold the same
  values, \<open>empty\<close> exactly when there is no value, and \<open>contains\<close> for a range is inclusion.
\<close>

theorem ranges_are_sets:
  fixes r s :: "'a::{dense_linorder, no_top, no_bot, zero} range"
  assumes "\<not> crossed (m_lower r) (m_upper r)" "\<not> crossed (m_lower s) (m_upper s)"
  shows "contains_value (intersection r s) x = (contains_value r x \<and> contains_value s x)
    \<and> range_eq r s = (\<forall>x. contains_value r x = contains_value s x)
    \<and> range_empty r = (\<nexists>x. contains_value r x)
    \<and> contains_range r s = (\<forall>x. contains_value s x \<longrightarrow> contains_value r x)"
proof -
  have p: "proper r" "proper s" using assms by (simp_all add: proper_def)
  have eq: "range_eq t u = (\<forall>x. contains_value t x = contains_value u x)" if "proper t" "proper u" for t u :: "'a range"
    using same_values_eq[OF that] range_eq_same[of t u] by blast
  have "contains_range r s = (\<forall>x. contains_value s x \<longrightarrow> contains_value r x)"
    unfolding contains_range_def eq[OF proper_intersection p(2)] contains_intersection by blast
  moreover have "range_empty r = (\<nexists>x. contains_value r x)"
    using proper_nonempty[OF p(1)] range_empty_nothing[of r] by blast
  ultimately show ?thesis using eq[OF p] contains_intersection[of r s x] by simp
qed

theorem ranges_are_sets_witness:
  "\<not> contains_range \<lparr>m_lower = Exclusive_bound (0::rat), m_upper = No_bound\<rparr> \<lparr>m_lower = Inclusive_bound 0, m_upper = Inclusive_bound 1\<rparr>
   \<and> contains_range \<lparr>m_lower = Inclusive_bound (0::rat), m_upper = No_bound\<rparr> \<lparr>m_lower = Inclusive_bound 0, m_upper = Inclusive_bound 1\<rparr>"
proof -
  have c: "\<not> crossed (Exclusive_bound (0::rat)) No_bound" "\<not> crossed (Inclusive_bound (0::rat)) No_bound"
    "\<not> crossed (Inclusive_bound (0::rat)) (Inclusive_bound 1)"
    by (simp_all add: crossed_def bound_defs)
  let ?B = "\<lparr>m_lower = Inclusive_bound (0::rat), m_upper = Inclusive_bound 1\<rparr>"
  have "contains_range \<lparr>m_lower = l, m_upper = No_bound\<rparr> ?B
      = (\<forall>x. contains_value ?B x \<longrightarrow> contains_value \<lparr>m_lower = l, m_upper = No_bound\<rparr> x)" for l
    using ranges_are_sets[of "\<lparr>m_lower = l, m_upper = No_bound\<rparr>" ?B] c(3) by (simp add: crossed_def bound_defs)
  then show ?thesis by (auto simp: contains_value_def intro!: exI[of _ 0])
qed

subsection \<open>The text of a range is read back\<close>

lemma long_text_plain: "field_plain (Inl (int_to_string v))"
proof -
  have "is_digit c \<Longrightarrow> c \<noteq> CHR 0x22 \<and> c \<notin> set '',)]''" for c by (auto simp: is_digit_def)
  moreover have "list_all is_digit (dec \<bar>v\<bar>)" by (simp add: dec_digits)
  ultimately show ?thesis by (cases "v < 0") (auto simp: int_to_string_def list_all_iff abs_if)
qed
definition bound_text :: "int range_bound \<Rightarrow> string" where
  "bound_text b = (case bound_value b of None \<Rightarrow> [] | Some v \<Rightarrow> int_to_string v)"

definition bound_fits :: "int range_bound \<Rightarrow> bool" where
  "bound_fits b = (case bound_value b of None \<Rightarrow> True | Some v \<Rightarrow> fits 64 v)"

lemma read_bound:
  assumes "bound_fits b" "c \<in> set '',)]''"
  shows "read_field Ascii_safe optional_long i (p @ bound_text b @ c # u) (length p)
    = Inr (bound_value b, length (p @ bound_text b))"
proof (cases "bound_value b")
  case None
  then show ?thesis using assms(2) by (auto simp: read_field_def bound_text_def optional_long_def)
next
  case (Some v)
  then have "from_string_long (int_to_string v) = Inr v"
    using assms(1) unfolding from_string_long_def bound_fits_def by (intro from_string_int_to_string) auto
  then show ?thesis using plain_field_scan[OF long_text_plain[of v] assms(2), of p u] Some
    by (auto simp: read_field_def bound_text_def optional_long_def)
qed

lemma read_bounds:
  assumes "bound_fits l" "bound_fits h" "a = CHR ''['' \<or> a = CHR ''(''" "c = CHR '']'' \<or> c = CHR '')''"
  shows "composite_fields Ascii_safe 0 1 ([a] @ bound_text l @ CHR '','' # bound_text h @ [c]) 1 [optional_long, optional_long]
    = Inr ([bound_value l, bound_value h], length ([a] @ bound_text l @ CHR '','' # bound_text h @ [c]))"
proof -
  let ?D = "[a] @ bound_text l @ CHR '','' # bound_text h @ [c]"
  have "read_field Ascii_safe optional_long 0 ?D 1 = Inr (bound_value l, length ([a] @ bound_text l))"
    using read_bound[OF assms(1), of "CHR '',''" 0 "[a]" "bound_text h @ [c]"] by simp
  then have "parse_composite_field Ascii_safe optional_long 0 1 ?D 1 = Inr (bound_value l, length ([a] @ bound_text l @ '',''))"
    by (simp add: parse_composite_field_def field_follow_def)
  moreover have "read_field Ascii_safe optional_long 1 (([a] @ bound_text l @ '','') @ bound_text h @ c # []) (length ([a] @ bound_text l @ '',''))
      = Inr (bound_value h, length (([a] @ bound_text l @ '','') @ bound_text h))"
    using assms(4) by (intro read_bound[OF assms(2)]) auto
  then have "parse_composite_field Ascii_safe optional_long 1 1 ?D (length ([a] @ bound_text l @ '','')) = Inr (bound_value h, length ?D)"
    using assms(4) by (auto simp: parse_composite_field_def field_follow_def nth_append nth_Cons' split: if_splits)
  ultimately show ?thesis by simp
qed

text \<open>
  The text of a range of 64-bit integers is read back as an equal range, and as the same range unless it is
  empty: bounds keep their values and stay inclusive, exclusive or absent.
\<close>

theorem range_text_roundtrip:
  assumes "\<not> crossed (m_lower r) (m_upper r)" "bound_fits (m_lower r)" "bound_fits (m_upper r)"
  shows "\<exists>r'. range_from_string (range_to_text r) = Inr r' \<and> range_eq r' r \<and> (\<not> range_empty r \<longrightarrow> r' = r)"
proof (cases "range_empty r")
  case True
  then have "range_from_string (range_to_text r) = Inr empty_range"
    by (simp add: range_to_text_def range_from_string_def)
  then show ?thesis using True range_empty_empty[where 'a = int] by (simp add: range_eq_def)
next
  case False
  define a c where "a = (if is_inclusive (m_lower r) then CHR ''['' else CHR ''('')"
    and "c = (if is_inclusive (m_upper r) then CHR '']'' else CHR '')'')"
  let ?D = "[a] @ bound_text (m_lower r) @ CHR '','' # bound_text (m_upper r) @ [c]"
  have t: "range_to_text r = ?D"
    using False by (auto simp: range_to_text_def bound_text_def a_def c_def)
  have f: "composite_fields Ascii_safe 0 1 ?D 1 [optional_long, optional_long] = Inr ([bound_value (m_lower r), bound_value (m_upper r)], length ?D)"
    by (rule read_bounds[OF assms(2,3)]) (auto simp: a_def c_def)
  have l: "?D ! (length ?D - 1) = c" "?D ! 0 = a" "3 \<le> length ?D" by (simp_all add: nth_append)
  have b: "make_bound (is_inclusive d) (bound_value d) = d" for d
    by (cases d) (simp_all add: make_bound_def bound_defs)
  have "(a = CHR ''['') = is_inclusive (m_lower r)" "(c = CHR '']'') = is_inclusive (m_upper r)"
    "a \<notin> set ''eE''" "a \<in> set ''[(''" "c = CHR '')'' \<or> c = CHR '']''" by (auto simp: a_def c_def)
  then have "range_from_string ?D = make_range int_to_string (m_lower r) (m_upper r)"
    using f l b by (auto simp: range_from_string_def Let_def simp del: append_Cons append_Nil)
  also have "\<dots> = Inr r" using assms(1) by (simp add: make_range_def)
  finally show ?thesis unfolding t by (simp add: range_eq_def)
qed

theorem range_text_roundtrip_witness:
  "range_to_text \<lparr>m_lower = Inclusive_bound (-5), m_upper = No_bound\<rparr> = ''[-5,)''
   \<and> range_from_string (range_to_text \<lparr>m_lower = Inclusive_bound (-5), m_upper = No_bound\<rparr>)
     = Inr \<lparr>m_lower = Inclusive_bound (-5), m_upper = No_bound\<rparr>"
proof
  let ?r = "\<lparr>m_lower = Inclusive_bound (-5 :: int), m_upper = No_bound\<rparr>"
  show "range_to_text ?r = ''[-5,)''" by code_simp
  show "range_from_string (range_to_text ?r) = Inr ?r"
    using range_text_roundtrip[of ?r] by (auto simp: crossed_def bound_fits_def range_empty_def bound_defs)
qed

end
