(* ===== verification/Pqxx_Cursor.thy ===== *)
theory Pqxx_Cursor
  imports Pqxx_Session Pqxx_Convert Pqxx_Text
begin

text \<open>
  SQL cursors: \<open>libpqxx/src/sql_cursor.cxx\<close> and the retrieval functions of \<open>libpqxx/src/cursor.cxx\<close>.  A
  cursor object keeps track of its position from the numbers of rows that the server reports.
  The name is the one under which the statements refer to the cursor, quotes included;
  \<open>cmd_tuples\<close> is \<open>PQcmdTuples\<close>.
\<close>

subsection \<open>The end of a query\<close>

definition useless_trail :: "char \<Rightarrow> bool" where
  "useless_trail c \<longleftrightarrow> c = CHR '' '' \<or> c = CHR 0x09 \<or> c = CHR 0x0A \<or> c = CHR 0x0D \<or> c = CHR '';''"

abbreviation trail_needles :: "char list" where
  "trail_needles \<equiv> [CHR '' '', CHR 0x09, CHR 0x0A, CHR 0x0D, CHR '';'']"

fun trim_loop :: "string \<Rightarrow> nat \<Rightarrow> nat" where
  "trim_loop query 0 = 0"
| "trim_loop query (Suc e) = (if useless_trail (query ! e) then trim_loop query e else Suc e)"

function query_end_loop :: "encoding_group \<Rightarrow> string \<Rightarrow> nat \<Rightarrow> nat \<Rightarrow> exn + nat" where
  "query_end_loop enc query here e =
     (if here < length query
      then (case find_in enc trail_needles query here of
              Inl err \<Rightarrow> Inl err
            | Inr nxt \<Rightarrow> query_end_loop enc query (nxt + 1) (if nxt - here > 0 then nxt else e))
      else Inr e)"
  by pat_completeness auto
termination
  by (relation "measure (\<lambda>(enc, query, here, e). length query - here)") (auto dest!: find_in_range)

declare query_end_loop.simps [simp del]

definition find_query_end :: "string \<Rightarrow> encoding_group \<Rightarrow> exn + nat" where
  "find_query_end query enc =
     (if enc = Ascii_safe then Inr (trim_loop query (length query))
      else case get_char_finder trail_needles enc of
             Inl e \<Rightarrow> Inl e
           | Inr f \<Rightarrow> query_end_loop enc query 0 0)"

subsection \<open>The cursor object\<close>

text \<open>\<open>cname\<close> is the name as \<open>quote_name(name())\<close> gives it.\<close>

record 'd sql_cursor =
  m_home :: 'd
  cname :: string
  owned_cursor :: bool
  m_at_end :: int
  m_pos :: int
  m_endpos :: int
  m_empty_result :: pgresult

definition cursor_all :: int where
  "cursor_all = 2 ^ 31 - 1 - 1"

definition cursor_backward_all :: int where
  "cursor_backward_all = - (2 ^ 31) + 1"

definition stridestring :: "int \<Rightarrow> string" where
  "stridestring n = (if n \<ge> cursor_all then ''ALL''
     else if n \<le> cursor_backward_all then ''BACKWARD ALL'' else int_to_string n)"

definition cursor_exec :: "'d libpq \<Rightarrow> string \<Rightarrow> ('d sql_cursor, pgresult) prog" where
  "cursor_exec pq q = (\<lambda>c. let (r, d) = exec_db pq q (m_home c) in (r, c\<lparr>m_home := d\<rparr>))"

text \<open>\<open>adjust\<close>: the displacement for a number of rows hoped for and the number that the server reports.\<close>

definition adjust :: "int \<Rightarrow> int \<Rightarrow> ('d sql_cursor, int) prog" where
  "adjust hoped actual = (\<lambda>c.
     if actual < 0 then (Inl (Throw (Internal_error ''Negative rows in cursor movement.'')), c)
     else if hoped = 0 then (Inr 0, c)
     else let direction = (if hoped < 0 then -1 else 1) in
       if actual = \<bar>hoped\<bar>
       then let c' = c\<lparr>m_at_end := 0\<rparr> in
         (Inr (direction * actual), if m_pos c' \<ge> 0 then c'\<lparr>m_pos := m_pos c' + direction * actual\<rparr> else c')
       else if actual > \<bar>hoped\<bar>
       then (Inl (Throw (Internal_error ''Cursor displacement larger than requested.'')), c)
       else let act = (if m_at_end c \<noteq> direction then actual + 1 else actual) in
         if direction < 0 \<and> m_pos c \<noteq> -1 \<and> m_pos c \<noteq> act
         then (Inl (Throw (Internal_error (''Moved back to beginning, but wrong position: hoped='' @ int_to_string hoped
                @ '', actual='' @ int_to_string act @ '', m_pos='' @ int_to_string (m_pos c) @ '', direction=''
                @ int_to_string direction @ ''.''))), c)
         else let c' = (if direction < 0 \<and> m_pos c = -1 then c\<lparr>m_pos := act\<rparr> else c)\<lparr>m_at_end := direction\<rparr>;
                  c'' = (if m_pos c' \<ge> 0 then c'\<lparr>m_pos := m_pos c' + direction * act\<rparr> else c') in
           if direction > 0
           then (if m_endpos c'' \<ge> 0 \<and> m_pos c'' \<noteq> m_endpos c''
                 then (Inl (Throw (Internal_error ''Inconsistent cursor end positions.'')), c'')
                 else (Inr (direction * act), c''\<lparr>m_endpos := m_pos c''\<rparr>))
           else (Inr (direction * act), c''))"

definition cursor_fetch :: "'d libpq \<Rightarrow> int \<Rightarrow> ('d sql_cursor, pgresult) prog" where
  "cursor_fetch pq rows = (if rows = 0 then gets m_empty_result
     else bnd (gets cname) (\<lambda>name.
       bnd (cursor_exec pq (''FETCH '' @ stridestring rows @ '' IN '' @ name)) (\<lambda>r.
       sq (adjust rows (int (length (pg_rows r)))) (ret r))))"

definition affected_rows :: "(pgresult \<Rightarrow> string) \<Rightarrow> pgresult \<Rightarrow> exn + int" where
  "affected_rows cmd_tuples r = (let rows_str = cmd_tuples r in if rows_str = [] then Inr 0
     else from_string_arithmetic (from_chars_int (- (2 ^ 31)) (2 ^ 31 - 1)) ''int'' rows_str)"

definition cursor_move :: "(pgresult \<Rightarrow> string) \<Rightarrow> 'd libpq \<Rightarrow> int \<Rightarrow> ('d sql_cursor, int) prog" where
  "cursor_move cmd_tuples pq rows = (if rows = 0 then ret 0
     else bnd (gets cname) (\<lambda>name.
       bnd (cursor_exec pq (''MOVE '' @ stridestring rows @ '' IN '' @ name)) (\<lambda>r.
       bnd (lift_exn (affected_rows cmd_tuples r)) (\<lambda>d.
       sq (adjust rows d) (ret d)))))"

definition cursor_close :: "'d libpq \<Rightarrow> ('d sql_cursor, unit) prog" where
  "cursor_close pq = bnd (gets owned_cursor) (\<lambda>own. whn own
     (bnd (gets cname) (\<lambda>name. sq (cursor_exec pq (''CLOSE '' @ name)) (modify (\<lambda>c. c\<lparr>owned_cursor := False\<rparr>)))))"

subsection \<open>Stateless retrieval\<close>

definition obtain_stateless_cursor_size :: "(pgresult \<Rightarrow> string) \<Rightarrow> 'd libpq \<Rightarrow> ('d sql_cursor, int) prog" where
  "obtain_stateless_cursor_size cmd_tuples pq =
     bnd (gets m_endpos) (\<lambda>e. sq (if e = -1 then sq (cursor_move cmd_tuples pq cursor_all) (ret ()) else ret ())
       (gets (\<lambda>c. m_endpos c - 1)))"

definition stateless_cursor_retrieve ::
  "(pgresult \<Rightarrow> string) \<Rightarrow> 'd libpq \<Rightarrow> int \<Rightarrow> int \<Rightarrow> int \<Rightarrow> ('d sql_cursor, pgresult) prog" where
  "stateless_cursor_retrieve cmd_tuples pq sz begin_pos end_pos0 =
     (if begin_pos < 0 \<or> begin_pos > sz then throw (Range_error ''Starting position out of range'')
      else let end_pos = (if end_pos0 < -1 then -1 else if end_pos0 > sz then sz else end_pos0) in
        if begin_pos = end_pos then gets m_empty_result
        else let direction = (if begin_pos < end_pos then 1 else -1) in
          bnd (gets m_pos) (\<lambda>p. sq (cursor_move cmd_tuples pq ((begin_pos - direction) - (p - 1)))
            (cursor_fetch pq (end_pos - begin_pos))))"

subsection \<open>What the server does\<close>

text \<open>
  A cursor over \<open>n\<close> rows stands at a position from \<open>0\<close>, before the first row, to \<open>n + 1\<close>, after the
  last.  Moving it by \<open>k\<close> passes over rows until it has passed \<open>k\<close> of them or reaches an end.
\<close>

definition passed :: "'r list \<Rightarrow> nat \<Rightarrow> int \<Rightarrow> 'r list" where
  "passed rows p k = (if 0 < k then take (nat k) (drop p rows) else take (nat (- k)) (rev (take (p - 1) rows)))"

definition moved :: "nat \<Rightarrow> nat \<Rightarrow> int \<Rightarrow> nat" where
  "moved n p k = (if 0 < k then min (p + nat k) (n + 1) else p - nat (- k))"

definition serves :: "(pgresult \<Rightarrow> string) \<Rightarrow> 'd libpq \<Rightarrow> string \<Rightarrow> cell list list \<Rightarrow> ('d \<Rightarrow> nat) \<Rightarrow> bool" where
  "serves cmd_tuples pq name rows place \<longleftrightarrow> (\<forall>d k. place d \<le> length rows + 1 \<longrightarrow> k \<noteq> 0 \<longrightarrow> \<bar>k\<bar> < 2 ^ 31 \<longrightarrow>
     (\<exists>r d'. exec_db pq (''FETCH '' @ stridestring k @ '' IN '' @ name) d = (Inr r, d')
        \<and> pg_rows r = passed rows (place d) k \<and> place d' = moved (length rows) (place d) k) \<and>
     (\<exists>r d'. exec_db pq (''MOVE '' @ stridestring k @ '' IN '' @ name) d = (Inr r, d')
        \<and> cmd_tuples r = int_to_string (int (length (passed rows (place d) k))) \<and> place d' = moved (length rows) (place d) k))"

text \<open>The object knows where the cursor is.\<close>

definition tracks :: "('d \<Rightarrow> nat) \<Rightarrow> nat \<Rightarrow> 'd sql_cursor \<Rightarrow> bool" where
  "tracks place n c \<longleftrightarrow> place (m_home c) \<le> n + 1 \<and> m_pos c = int (place (m_home c))
     \<and> m_at_end c = (if place (m_home c) = 0 then -1 else if place (m_home c) = n + 1 then 1 else 0)
     \<and> (m_endpos c = -1 \<or> m_endpos c = int n + 1) \<and> (m_pos c = int n + 1 \<longrightarrow> m_endpos c = int n + 1)
     \<and> pg_rows (m_empty_result c) = []"

lemma length_passed: "length (passed rows p k) = (if 0 < k then min (nat k) (length rows - p) else min (nat (- k)) (min (p - 1) (length rows)))"
  by (auto simp: passed_def)

lemma adjust_tracks:
  assumes "tracks place (length rows) c" "k \<noteq> 0" "place d = moved (length rows) (place (m_home c)) k"
  shows "\<exists>c'. adjust k (int (length (passed rows (place (m_home c)) k))) (c\<lparr>m_home := d\<rparr>)
      = (Inr (int (place d) - int (place (m_home c))), c') \<and> tracks place (length rows) c' \<and> m_home c' = d \<and> cname c' = cname c"
proof -
  define p n where "p = place (m_home c)" and "n = length rows"
  have t: "p \<le> n + 1" "m_pos c = int p" "m_at_end c = (if p = 0 then -1 else if p = n + 1 then 1 else 0)"
    "m_endpos c = -1 \<or> m_endpos c = int n + 1" "p = n + 1 \<longrightarrow> m_endpos c = int n + 1" "pg_rows (m_empty_result c) = []"
    using assms(1) by (auto simp: tracks_def p_def n_def)
  have len: "length (passed rows p k) = (if 0 < k then min (nat k) (n - p) else min (nat (- k)) (p - 1))"
    using t(1) by (auto simp: length_passed n_def)
  have d: "place d = moved n p k" using assms(3) by (simp add: p_def n_def)
  consider (ahead) "0 < k" "nat k \<le> n - p" | (past_end) "0 < k" "n - p < nat k"
    | (backward) "k < 0" "nat (- k) \<le> p - 1" | (start) "k < 0" "p - 1 < nat (- k)"
    using assms(2) by linarith
  then have "\<exists>c'. adjust k (int (length (passed rows p k))) (c\<lparr>m_home := d\<rparr>) = (Inr (int (place d) - int p), c')
      \<and> tracks place n c' \<and> m_home c' = d \<and> cname c' = cname c"
  proof cases
    case ahead
    then show ?thesis using t d by (auto simp: adjust_def len moved_def tracks_def Let_def)
  next
    case past_end
    then have "passed rows (n + 1) k = []" by (simp add: passed_def n_def)
    with past_end show ?thesis using t d by (cases "p = n + 1") (auto simp: adjust_def len moved_def tracks_def Let_def)
  next
    case backward
    then show ?thesis using t d by (auto simp: adjust_def len moved_def tracks_def Let_def)
  next
    case start
    then have "passed rows 0 k = []" by (simp add: passed_def)
    with start show ?thesis using t d by (cases "p = 0") (auto simp: adjust_def len moved_def tracks_def Let_def)
  qed
  then show ?thesis by (simp add: p_def n_def)
qed
lemma fetch_tracks:
  assumes s: "serves cmd_tuples pq (cname c) rows place" and t: "tracks place (length rows) c" and k: "k \<noteq> 0" "\<bar>k\<bar> < 2 ^ 31"
  shows "\<exists>r c'. cursor_fetch pq k c = (Inr r, c') \<and> pg_rows r = passed rows (place (m_home c)) k
    \<and> tracks place (length rows) c' \<and> place (m_home c') = moved (length rows) (place (m_home c)) k \<and> cname c' = cname c"
proof -
  have p: "place (m_home c) \<le> length rows + 1" using t by (simp add: tracks_def)
  obtain r d where r: "exec_db pq (''FETCH '' @ stridestring k @ '' IN '' @ cname c) (m_home c) = (Inr r, d)"
    "pg_rows r = passed rows (place (m_home c)) k" "place d = moved (length rows) (place (m_home c)) k"
    using s p k unfolding serves_def by meson
  from adjust_tracks[OF t k(1) r(3)] obtain c' where
    "adjust k (int (length (passed rows (place (m_home c)) k))) (c\<lparr>m_home := d\<rparr>) = (Inr (int (place d) - int (place (m_home c))), c')"
    "tracks place (length rows) c'" "m_home c' = d" "cname c' = cname c" by blast
  with r k show ?thesis by (simp add: cursor_fetch_def cursor_exec_def prog_simps)
qed

lemma move_tracks:
  assumes s: "serves cmd_tuples pq (cname c) rows place" and t: "tracks place (length rows) c" and k: "\<bar>k\<bar> < 2 ^ 31"
    and n: "length rows < 2 ^ 31"
  shows "\<exists>m c'. cursor_move cmd_tuples pq k c = (Inr m, c') \<and> tracks place (length rows) c' \<and> cname c' = cname c
    \<and> place (m_home c') = (if k = 0 then place (m_home c) else moved (length rows) (place (m_home c)) k)
    \<and> m = int (length (passed rows (place (m_home c)) k))"
proof (cases "k = 0")
  case True
  then show ?thesis using t by (simp add: cursor_move_def prog_simps passed_def)
next
  case False
  let ?l = "int (length (passed rows (place (m_home c)) k))"
  have p: "place (m_home c) \<le> length rows + 1" using t by (simp add: tracks_def)
  obtain r d where r: "exec_db pq (''MOVE '' @ stridestring k @ '' IN '' @ cname c) (m_home c) = (Inr r, d)"
    "cmd_tuples r = int_to_string ?l" "place d = moved (length rows) (place (m_home c)) k"
    using s p k False unfolding serves_def by meson
  have "?l \<le> int (length rows)" by (auto simp: length_passed)
  then have "?l < 2 ^ 31" using n by simp
  then have "from_string_arithmetic (from_chars_int (- (2 ^ 31)) (2 ^ 31 - 1)) ''int'' (int_to_string ?l) = Inr ?l"
    by (intro from_string_int_to_string) simp_all
  moreover have "int_to_string ?l \<noteq> []" by (simp add: int_to_string_def)
  ultimately have a: "affected_rows cmd_tuples r = Inr ?l" unfolding affected_rows_def r(2) Let_def by simp
  from adjust_tracks[OF t False r(3)] obtain c' where
    "adjust k ?l (c\<lparr>m_home := d\<rparr>) = (Inr (int (place d) - int (place (m_home c))), c')"
    "tracks place (length rows) c'" "m_home c' = d" "cname c' = cname c" by blast
  with r False a show ?thesis by (simp add: cursor_move_def cursor_exec_def lift_exn_def prog_simps)
qed

lemma retrieve_eq:
  assumes "0 \<le> b" "b \<le> sz" "e' = (if e < - 1 then - 1 else if e > sz then sz else e)" "b \<noteq> e'"
  shows "stateless_cursor_retrieve cmd_tuples pq sz b e c =
    sq (cursor_move cmd_tuples pq ((b - (if b < e' then 1 else - 1)) - (m_pos c - 1))) (cursor_fetch pq (e' - b)) c"
  unfolding stateless_cursor_retrieve_def assms(3)[symmetric] using assms by (simp add: Let_def bnd_app gets_app)

text \<open>
  However a cursor object was moved and read before, \<open>stateless_cursor_retrieve\<close> returns the rows from
  \<open>begin_pos\<close> up to, and without, \<open>end_pos\<close>, in that order, ascending or descending, cut off at the
  ends of the result, and keeps track of the position, when \<open>begin_pos\<close> is a row of the result or the
  rows are asked for in ascending order.
\<close>

theorem stateless_retrieve_rows:
  assumes "serves cmd_tuples pq (cname c) rows place" "tracks place (length rows) c" "length rows < 2 ^ 30"
    and "0 \<le> b" "b \<le> int (length rows)" "e' = max (- 1) (min e (int (length rows)))" "b < int (length rows) \<or> b \<le> e'"
  shows "\<exists>r c'. stateless_cursor_retrieve cmd_tuples pq (int (length rows)) b e c = (Inr r, c') \<and> tracks place (length rows) c'
    \<and> pg_rows r = (if b \<le> e' then drop (nat b) (take (nat e') rows) else rev (drop (nat (e' + 1)) (take (nat (b + 1)) rows)))"
proof -
  define n p where "n = length rows" and "p = place (m_home c)"
  have p: "m_pos c = int p" "p \<le> n + 1" "pg_rows (m_empty_result c) = []" using assms(2) by (auto simp: tracks_def p_def n_def)
  have n: "int n < 2 ^ 30" using assms(3) by (simp add: n_def)
  have e': "(if e < - 1 then - 1 else if e > int (length rows) then int (length rows) else e) = e'"
    "- 1 \<le> e'" "e' \<le> int n" using assms(6) by (auto simp: n_def)
  show ?thesis
  proof (cases "b = e'")
    case True
    then show ?thesis using assms e' p by (simp add: stateless_cursor_retrieve_def prog_simps)
  next
    case False
    define dir where "dir = (if b < e' then 1 else - 1 :: int)"
    define k where "k = (b - dir) - (int p - 1)"
    have k: "\<bar>k\<bar> < 2 ^ 31" using n p(2) assms(4,5) by (auto simp: k_def dir_def n_def)
    obtain m c1 where c1: "cursor_move cmd_tuples pq k c = (Inr m, c1)" "tracks place n c1" "cname c1 = cname c"
      "place (m_home c1) = (if k = 0 then p else moved n p k)"
      using move_tracks[OF assms(1,2) k] assms(3) by (auto simp: n_def p_def)
    have at1: "place (m_home c1) = nat (b + 1 - dir)"
      using c1(4) False assms(4,5,7) p(2) by (auto simp: k_def dir_def moved_def n_def split: if_splits)
    have f: "e' - b \<noteq> 0" "\<bar>e' - b\<bar> < 2 ^ 31" using False e' n assms(4,5) by (auto simp: n_def)
    obtain r c2 where c2: "cursor_fetch pq (e' - b) c1 = (Inr r, c2)" "pg_rows r = passed rows (place (m_home c1)) (e' - b)"
      "tracks place n c2"
      using fetch_tracks[of cmd_tuples pq c1 rows place "e' - b"] assms(1) c1 f by (auto simp: n_def)
    have "passed rows (place (m_home c1)) (e' - b)
        = (if b \<le> e' then drop (nat b) (take (nat e') rows) else rev (drop (nat (e' + 1)) (take (nat (b + 1)) rows)))"
    proof (cases "b < e'")
      case True
      then have "nat e' - nat b = nat (e' - b)" using assms(4) by simp
      then show ?thesis using True at1 by (simp add: passed_def dir_def drop_take)
    next
      case desc: False
      have "take (nat (b - e')) (rev (take (nat (b + 1)) rows)) = rev (drop (nat (e' + 1)) (take (nat (b + 1)) rows))"
      proof -
        have "length (take (nat (b + 1)) rows) - nat (b - e') = nat (e' + 1)" using assms(4,5,7) desc False e' by auto
        then show ?thesis by (simp only: take_rev)
      qed
      moreover have "nat (b + 2) - 1 = nat (b + 1)" using assms(4) by simp
      ultimately show ?thesis using desc False at1 by (simp add: passed_def dir_def add.commute)
    qed
    moreover have "stateless_cursor_retrieve cmd_tuples pq (int (length rows)) b e c = (Inr r, c2)"
      using retrieve_eq[OF assms(4,5) e'(1)[symmetric] False, of cmd_tuples pq c] c1(1) c2(1) p(1)
      by (simp add: dir_def[symmetric] k_def[symmetric] sq_app)
    ultimately show ?thesis using c2 by (simp add: n_def)
  qed
qed

text \<open>
  Asked in descending order from just past the last row, which the interface allows, the retrieval returns one
  row too many: the row \<open>end_pos\<close> itself, which should be left out, is included.
\<close>

lemma retrieve_from_end:
  assumes "serves cmd_tuples pq (cname c) rows place" "tracks place (length rows) c" "length rows < 2 ^ 30"
    and "e' = max (- 1) (min e (int (length rows)))" "e' < int (length rows)"
  shows "\<exists>r c'. stateless_cursor_retrieve cmd_tuples pq (int (length rows)) (int (length rows)) e c = (Inr r, c')
    \<and> tracks place (length rows) c' \<and> pg_rows r = rev (drop (nat e') rows)"
proof -
  define n p where "n = length rows" and "p = place (m_home c)"
  have p: "m_pos c = int p" "p \<le> n + 1" using assms(2) by (auto simp: tracks_def p_def n_def)
  have n: "int n < 2 ^ 30" using assms(3) by (simp add: n_def)
  have e': "e' = (if e < - 1 then - 1 else if e > int n then int n else e)" "- 1 \<le> e'" using assms(4) by (auto simp: n_def)
  define k where "k = (int n - - 1) - (int p - 1)"
  have k: "\<bar>k\<bar> < 2 ^ 31" "0 < k" using n p(2) by (auto simp: k_def)
  obtain m c1 where c1: "cursor_move cmd_tuples pq k c = (Inr m, c1)" "tracks place n c1" "cname c1 = cname c"
    "place (m_home c1) = moved n p k"
    using move_tracks[OF assms(1,2) k(1)] assms(3) k(2) by (auto simp: n_def p_def)
  have at1: "place (m_home c1) = n + 1" using c1(4) k(2) by (auto simp: moved_def k_def)
  have f: "e' - int n \<noteq> 0" "\<bar>e' - int n\<bar> < 2 ^ 31" using assms(5) n e'(2) by (auto simp: n_def)
  obtain r c2 where c2: "cursor_fetch pq (e' - int n) c1 = (Inr r, c2)" "pg_rows r = passed rows (n + 1) (e' - int n)" "tracks place n c2"
    using fetch_tracks[of cmd_tuples pq c1 rows place "e' - int n"] assms(1) c1 f at1 by (auto simp: n_def)
  have "n - nat (int n - e') = nat e'" using assms(5) e'(2) by (simp add: n_def)
  then have "pg_rows r = rev (drop (nat e') rows)" using c2(2) assms(5) by (simp add: passed_def take_rev n_def)
  moreover have "stateless_cursor_retrieve cmd_tuples pq (int n) (int n) e c = (Inr r, c2)"
    using retrieve_eq[of "int n" "int n" e' e cmd_tuples pq c] c1(1) c2(1) assms(5) e'(1) p(1)
    by (simp add: k_def n_def sq_app)
  ultimately show ?thesis using c2(3) by (simp add: n_def)
qed

theorem stateless_retrieve_from_end:
  assumes "serves cmd_tuples pq (cname c) rows place" "tracks place (length rows) c" "length rows < 2 ^ 30"
    and "0 \<le> e" "e < int (length rows)"
  shows "\<exists>r c'. stateless_cursor_retrieve cmd_tuples pq (int (length rows)) (int (length rows)) e c = (Inr r, c')
    \<and> pg_rows r = rev (drop (nat e) rows) \<and> last (pg_rows r) = rows ! nat e"
  using retrieve_from_end[OF assms(1-3), of e e] assms(4,5) by (auto simp: last_rev hd_drop_conv_nth)

text \<open>The rows that a retrieval gives, from every beginning that it accepts and to every end.\<close>

definition retrieved :: "'r list \<Rightarrow> int \<Rightarrow> int \<Rightarrow> 'r list" where
  "retrieved rows b e = (let e' = max (- 1) (min e (int (length rows))) in
     if b \<le> e' then drop (nat b) (take (nat e') rows)
     else if b < int (length rows) then rev (drop (nat (e' + 1)) (take (nat (b + 1)) rows))
     else rev (drop (nat e') rows))"

lemma retrieve_gives:
  assumes "serves cmd_tuples pq (cname c) rows place" "tracks place (length rows) c" "length rows < 2 ^ 30" "0 \<le> b" "b \<le> int (length rows)"
  shows "\<exists>r c'. stateless_cursor_retrieve cmd_tuples pq (int (length rows)) b e c = (Inr r, c') \<and> tracks place (length rows) c'
    \<and> pg_rows r = retrieved rows b e"
proof (cases "b < int (length rows) \<or> b \<le> max (- 1) (min e (int (length rows)))")
  case True
  with stateless_retrieve_rows[OF assms refl True] show ?thesis by (auto simp: retrieved_def Let_def)
next
  case False
  then have "b = int (length rows)" "max (- 1) (min e (int (length rows))) < int (length rows)" using assms(5) by auto
  with retrieve_from_end[OF assms(1-3) refl this(2)] show ?thesis by (auto simp: retrieved_def Let_def)
qed

subsection \<open>A concrete cursor\<close>

text \<open>A server with one cursor; its state is the cursor's position.  The number of rows is passed in the message.\<close>

definition decode_stride :: "string \<Rightarrow> int" where
  "decode_stride s = (if take 3 s = ''ALL'' then cursor_all else if take 3 s = ''BAC'' then cursor_backward_all
     else case sto_int 64 (takeWhile (\<lambda>c. c \<noteq> CHR '' '') s) of Inl e \<Rightarrow> 0 | Inr n \<Rightarrow> n)"

definition cursor_server :: "cell list list \<Rightarrow> nat libpq" where
  "cursor_server rows = \<lparr>pq_exec = (\<lambda>q p.
       let k = decode_stride (drop (if take 1 q = ''F'' then 6 else 5) q) in
       (Some \<lparr>pg_status = PGRES_TUPLES_OK, pg_message = int_to_string (int (length (passed rows p k))), pg_sqlstate = None,
          pg_rows = passed rows p k\<rparr>, moved (length rows) p k)),
     pq_consume = (\<lambda>d. (True, d)), pq_encoding = (\<lambda>d. Some ''UTF8''), pq_open = (\<lambda>d. True), pq_error = (\<lambda>d. [])\<rparr>"

lemma int_text_plain: "c \<in> set (int_to_string k) \<Longrightarrow> c \<noteq> CHR '' '' \<and> c \<noteq> CHR 0x00 \<and> c \<noteq> CHR ''A'' \<and> c \<noteq> CHR ''B''"
proof -
  have "is_digit c \<Longrightarrow> c \<noteq> CHR '' '' \<and> c \<noteq> CHR 0x00 \<and> c \<noteq> CHR ''A'' \<and> c \<noteq> CHR ''B''" for c by (auto simp: is_digit_def)
  moreover have "list_all is_digit (dec \<bar>k\<bar>)" by (simp add: dec_digits)
  ultimately show "c \<in> set (int_to_string k) \<Longrightarrow> c \<noteq> CHR '' '' \<and> c \<noteq> CHR 0x00 \<and> c \<noteq> CHR ''A'' \<and> c \<noteq> CHR ''B''"
    by (cases "k < 0") (auto simp: int_to_string_def list_all_iff abs_if)
qed

lemma decode_stridestring:
  assumes "\<bar>k\<bar> < 2 ^ 31"
  shows "decode_stride (stridestring k @ CHR '' '' # t) = (if k \<ge> cursor_all then cursor_all else if k \<le> cursor_backward_all then cursor_backward_all else k)"
proof -
  have "takeWhile (\<lambda>c. c \<noteq> CHR '' '') (int_to_string k @ CHR '' '' # t) = int_to_string k"
    using int_text_plain[of _ k] by (simp add: takeWhile_append)
  moreover have "sto_int 64 (int_to_string k) = Inr k" using assms by (intro sto_int_to_string) auto
  moreover obtain c s where "int_to_string k = c # s" "c \<noteq> CHR ''A''" "c \<noteq> CHR ''B''"
    using int_text_plain[of "hd (int_to_string k)" k] by (cases "int_to_string k") (auto simp: int_to_string_def split: if_splits)
  ultimately show ?thesis by (simp add: decode_stride_def stridestring_def)
qed

lemma stridestring_no_nul: "CHR 0x00 \<notin> set (stridestring k)"
  using int_text_plain[of "CHR 0x00" k] by (auto simp: stridestring_def)

lemma cursor_server_serves:
  assumes "length rows < 2 ^ 31 - 2"
  shows "serves pg_message (cursor_server rows) ''c'' rows id"
proof -
  have utf: "enc_group ''UTF8'' = Inr Ascii_safe" by code_simp
  have same: "passed rows p k' = passed rows p k" "moved (length rows) p k' = moved (length rows) p k"
    if "p \<le> length rows + 1" "k \<noteq> 0"
      "k' = (if k \<ge> cursor_all then cursor_all else if k \<le> cursor_backward_all then cursor_backward_all else k)" "\<bar>k\<bar> < 2 ^ 31" for p k k'
    using that assms by (auto simp: passed_def moved_def cursor_all_def cursor_backward_all_def)
  have "c_str (w @ stridestring k @ '' IN c'') = w @ stridestring k @ '' IN c''" if "CHR 0x00 \<notin> set w" for w k
    using that stridestring_no_nul[of k] by (auto simp: c_str_def takeWhile_eq_all_conv)
  from this[of "''FETCH ''"] this[of "''MOVE ''"] show ?thesis
    unfolding serves_def
    by (auto simp: exec_db_def cursor_server_def utf check_status_def status_error_def decode_stridestring same simp del: c_str_simps)
qed

definition abc :: "cell list list" where
  "abc = [[Some ''a''], [Some ''b''], [Some ''c'']]"

definition abc_cursor :: "nat sql_cursor" where
  "abc_cursor = \<lparr>m_home = 2, cname = ''c'', owned_cursor = True, m_at_end = 0, m_pos = 2, m_endpos = -1,
     m_empty_result = \<lparr>pg_status = PGRES_TUPLES_OK, pg_message = [], pg_sqlstate = None, pg_rows = []\<rparr>\<rparr>"

lemma abc_serves: "serves pg_message (cursor_server abc) (cname abc_cursor) abc id" "tracks id (length abc) abc_cursor"
  using cursor_server_serves[of abc] by (simp_all add: abc_def abc_cursor_def tracks_def)

lemma abc_short: "length abc < 2 ^ 30"
  by (simp add: abc_def)

theorem stateless_retrieve_rows_witness:
  "\<exists>r c'. stateless_cursor_retrieve pg_message (cursor_server abc) 3 2 0 abc_cursor = (Inr r, c')
     \<and> pg_rows r = [[Some ''c''], [Some ''b'']]"
  using stateless_retrieve_rows[OF abc_serves abc_short, of 2 0 0] by (auto simp: abc_def eval_nat_numeral)

theorem stateless_retrieve_from_end_witness:
  "\<exists>r c'. stateless_cursor_retrieve pg_message (cursor_server abc) 3 3 1 abc_cursor = (Inr r, c')
     \<and> pg_rows r = [[Some ''c''], [Some ''b'']] \<and> last (pg_rows r) = abc ! 1"
  using stateless_retrieve_from_end[OF abc_serves abc_short, of 1] by (auto simp: abc_def eval_nat_numeral)

subsection \<open>Trimming a query\<close>

text \<open>A text without its trailing blanks and semicolons.\<close>

definition strip :: "string list \<Rightarrow> string list" where
  "strip gs = rev (dropWhile (\<lambda>g. useless_trail (hd g)) (rev gs))"

lemma strip_append: "strip (gs @ hs) = (if strip hs = [] then strip gs else gs @ strip hs)"
  by (auto simp: strip_def dropWhile_append dropWhile_eq_Nil_conv)

lemma strip_useful: "\<forall>g \<in> set gs. \<not> useless_trail (hd g) \<Longrightarrow> strip gs = gs"
  by (cases gs rule: rev_cases) (simp_all add: strip_def)

lemma trail_needles_iff: "c \<in> set trail_needles \<longleftrightarrow> useless_trail c"
  by (auto simp: useless_trail_def)

lemma find_trail:
  assumes "enc \<noteq> Enc_unknown" "glyphs (scanner_of enc) gs"
  shows "find_in enc trail_needles (p @ concat gs) (length p)
    = Inr (length p + length (concat (takeWhile (\<lambda>g. \<not> useless_trail (hd g)) gs)))"
  using assms(2)
proof (induction gs arbitrary: p)
  case Nil
  then show ?case by (simp add: find_in_known[OF assms(1)] find_ascii_char.simps)
next
  case (Cons g gs)
  then have "find_in enc trail_needles (p @ g @ concat gs) (length p)
      = (if useless_trail (hd g) then Inr (length p) else find_in enc trail_needles (p @ g @ concat gs) (length (p @ g)))"
    using local_scan.find_step[OF scanner_of_local, of enc g trail_needles p "concat gs"]
    by (simp only: find_in_known[OF assms(1)] trail_needles_iff glyphs_simps)
  then show ?case using Cons.IH[of "p @ g"] Cons.prems by simp
qed

lemma query_end_loop_strip:
  assumes "enc \<noteq> Enc_unknown" "glyphs (scanner_of enc) gs"
  shows "query_end_loop enc (p @ concat gs) (length p) e
    = Inr (if strip gs = [] then e else length p + length (concat (strip gs)))"
  using assms(2)
proof (induction "length gs" arbitrary: gs p e rule: less_induct)
  case less
  let ?P = "\<lambda>g. \<not> useless_trail (hd g)"
  define us vs where "us = takeWhile ?P gs" and "vs = dropWhile ?P gs"
  have gs: "gs = us @ vs" by (simp add: us_def vs_def)
  have us: "strip us = us" unfolding us_def by (intro strip_useful) (auto dest: set_takeWhileD)
  show ?case
  proof (cases "gs = []")
    case True
    then show ?thesis by (subst query_end_loop.simps) (simp add: strip_def)
  next
    case False
    then have lt: "length p < length (p @ concat gs)" using less.prems by (cases gs) (auto simp: glyph_def)
    have "(length p + length (concat us) - length p > 0) = (us \<noteq> [])"
      using less.prems gs by (cases us) (auto simp: glyph_def)
    then have unf: "query_end_loop enc (p @ concat gs) (length p) e
        = query_end_loop enc (p @ concat gs) (length p + length (concat us) + 1) (if us \<noteq> [] then length p + length (concat us) else e)"
      using find_trail[OF assms(1) less.prems, of p] lt
      by (subst query_end_loop.simps) (simp add: us_def[symmetric] del: length_append)
    show ?thesis
    proof (cases vs)
      case Nil
      then show ?thesis using unf gs us False by (subst (asm) (2) query_end_loop.simps) simp
    next
      case (Cons v ws)
      then have hit: "useless_trail (hd v)" using vs_def dropWhile_eq_Cons_conv[of ?P gs v ws] by simp
      then have ascii: "of_char (hd v) < (128::int)" by (auto simp: useless_trail_def)
      have v: "glyph (scanner_of enc) v" "glyphs (scanner_of enc) ws" using less.prems gs Cons by simp_all
      have "length v = 1" by (rule local_scan.ascii_glyph[OF scanner_of_local v(1) ascii])
      then have "query_end_loop enc (p @ concat gs) (length p) e
          = query_end_loop enc ((p @ concat us @ v) @ concat ws) (length (p @ concat us @ v)) (if us \<noteq> [] then length p + length (concat us) else e)"
        using unf gs Cons by simp
      also have "\<dots> = Inr (if strip ws = [] then (if us \<noteq> [] then length p + length (concat us) else e)
            else length (p @ concat us @ v) + length (concat (strip ws)))"
        using v(2) gs Cons by (intro less.hyps) simp_all
      also have "strip (v # ws) = (if strip ws = [] then [] else v # strip ws)"
        using strip_append[of "[v]" ws] hit by (simp add: strip_def)
      then have "(if strip ws = [] then (if us \<noteq> [] then length p + length (concat us) else e)
            else length (p @ concat us @ v) + length (concat (strip ws)))
          = (if strip gs = [] then e else length p + length (concat (strip gs)))"
        using gs Cons us strip_append[of us "v # ws"] by simp
      finally show ?thesis .
    qed
  qed
qed

lemma trim_loop_strip: "trim_loop (s @ t) (length s) = length (concat (strip (map (\<lambda>c. [c]) s)))"
proof (induction s arbitrary: t rule: rev_induct)
  case (snoc c s)
  then show ?case by (simp add: strip_append) (simp add: strip_def nth_append)
qed (simp add: strip_def)

text \<open>
  The two ways in which \<open>find_query_end\<close> works, backwards over bytes in an ASCII-safe encoding and forwards
  over characters in the others, find the same place: the end of the query without its trailing
  blanks and semicolons, and a byte of a multibyte character is never taken for one of them.
\<close>

theorem find_query_end_strips:
  assumes "enc \<noteq> Enc_unknown" "cut (scanner_of enc) query = Some gs"
  shows "find_query_end query enc = Inr (length (concat (strip gs)))"
proof -
  have gs: "glyphs (scanner_of enc) gs" "concat gs = query"
    using local_scan.cut_glyphs[OF scanner_of_local assms(2)] by simp_all
  show ?thesis
  proof (cases "enc = Ascii_safe")
    case True
    then have "\<forall>g \<in> set gs. length g = 1" using gs(1) by (auto simp: glyphs_def list_all_iff glyph_def scan_ascii_safe_def)
    then have "map (\<lambda>c. [c]) (concat gs) = gs"
      by (induction gs) (auto simp: length_Suc_conv)
    then show ?thesis using True gs trim_loop_strip[of query "[]"] by (simp add: find_query_end_def)
  next
    case False
    then obtain f where "get_char_finder trail_needles enc = Inr f" using assms(1) by (cases enc) (auto simp: get_char_finder_def)
    then show ?thesis using False query_end_loop_strip[OF assms(1) gs(1), of "[]" 0] gs(2) by (auto simp: find_query_end_def)
  qed
qed

theorem find_query_end_strips_witness:
  "find_query_end [CHR ''x'', CHR '' '', CHR 0xA1, CHR '';'', CHR '';'', CHR '' ''] Two_tier
    = Inr (length (concat (strip [[CHR ''x''], [CHR '' ''], [CHR 0xA1, CHR '';''], [CHR '';''], [CHR '' '']])))"
proof -
  have "cut (scanner_of Two_tier) [CHR ''x'', CHR '' '', CHR 0xA1, CHR '';'', CHR '';'', CHR '' '']
      = Some [[CHR ''x''], [CHR '' ''], [CHR 0xA1, CHR '';''], [CHR '';''], [CHR '' '']]" by code_simp
  then show ?thesis by (intro find_query_end_strips) simp_all
qed

end
