(* ===== verification/Pqxx_Time.thy ===== *)
theory Pqxx_Time
  imports Pqxx_Convert
begin

text \<open>
  Dates (\<open>libpqxx/src/time.cxx\<close>): \<open>std::chrono::year_month_day\<close> to and from the text of SQL dates.  C++ has a
  year zero and SQL does not, so the year \<open>0\<close> is written as \<open>1 BC\<close>.
\<close>

subsection \<open>Dates\<close>

record year_month_day =
  yr :: int
  mon :: int
  dy :: int

definition year_min :: int where "year_min = - 32767"
definition year_max :: int where "year_max = 32767"

text \<open>
  The value that a \<open>std::chrono::year\<close> holds when it is made of an \<open>int\<close>; out of range it is
  unspecified and given by the parameter \<open>held\<close>.
\<close>

definition chrono_year :: "(int \<Rightarrow> int) \<Rightarrow> int \<Rightarrow> int" where
  "chrono_year held y = (if year_min \<le> y \<and> y \<le> year_max then y else held y)"

definition is_leap :: "int \<Rightarrow> bool" where
  "is_leap y \<longleftrightarrow> y mod 4 = 0 \<and> (y mod 100 \<noteq> 0 \<or> y mod 400 = 0)"

definition last_day :: "int \<Rightarrow> int \<Rightarrow> int" where
  "last_day y m = (if m = 2 then (if is_leap y then 29 else 28) else if m \<in> {4, 6, 9, 11} then 30 else 31)"

text \<open>\<open>day::ok\<close> and \<open>year_month_day::ok\<close>.\<close>

definition day_ok :: "int \<Rightarrow> bool" where
  "day_ok d \<longleftrightarrow> 1 \<le> d \<and> d \<le> 31"

definition date_ok :: "year_month_day \<Rightarrow> bool" where
  "date_ok v \<longleftrightarrow> year_min \<le> yr v \<and> yr v \<le> year_max \<and> 1 \<le> mon v \<and> mon v \<le> 12 \<and> 1 \<le> dy v \<and> dy v \<le> last_day (yr v) (mon v)"

subsection \<open>Writing\<close>

definition year_into_buf :: "int \<Rightarrow> string" where
  "year_into_buf y = (if y = year_min then ''32768''
     else let absy = \<bar>y\<bar> + (if y \<le> 0 then 1 else 0) in
       (if absy < 1000 then ''0'' @ (if absy < 100 then ''0'' else []) @ (if absy < 10 then ''0'' else []) else [])
       @ int_to_string absy)"

definition month_into_buf :: "int \<Rightarrow> string" where
  "month_into_buf m = [if m \<ge> 10 then CHR ''1'' else CHR ''0'', digit_char (m mod 10)]"

definition day_into_buf :: "int \<Rightarrow> string" where
  "day_into_buf d = [digit_char (d div 10), digit_char (d mod 10)]"

definition s_bc :: string where
  "s_bc = '' BC''"

definition date_size_buffer :: nat where
  "date_size_buffer = 5 + 1 + 2 + 1 + 2 + length s_bc + 1"

text \<open>\<open>space\<close> is the size of the buffer.\<close>

definition date_to_buf :: "nat \<Rightarrow> year_month_day \<Rightarrow> exn + string" where
  "date_to_buf space v = (if space < date_size_buffer then Inl Conversion_overrun
     else Inr (year_into_buf (yr v) @ ''-'' @ month_into_buf (mon v) @ ''-'' @ day_into_buf (dy v)
       @ (if yr v \<le> 0 then s_bc else [])))"

subsection \<open>Reading\<close>

definition quoted :: "string \<Rightarrow> string \<Rightarrow> string" where
  "quoted msg text = msg @ [CHR 0x27] @ text @ [CHR 0x27] @ ''.''"

definition year_from_buf :: "string \<Rightarrow> exn + int" where
  "year_from_buf text =
     (if length text < 4 then Inl (Conversion_error (quoted ''Year field is too small: '' text))
      else case from_string_arithmetic (from_chars_int (- (2 ^ 31)) (2 ^ 31 - 1)) ''int'' text of
             Inl e \<Rightarrow> Inl e
           | Inr year \<Rightarrow> if year \<le> 0 then Inl (Conversion_error (quoted ''Bad year: '' text)) else Inr year)"

definition month_from_string :: "string \<Rightarrow> exn + int" where
  "month_from_string text =
     (if \<not> is_digit (text ! 0) \<or> \<not> is_digit (text ! 1) then Inl (Conversion_error (quoted ''Invalid month: '' text))
      else Inr (10 * digit_val (text ! 0) + digit_val (text ! 1)))"

definition day_from_string :: "string \<Rightarrow> exn + int" where
  "day_from_string text =
     (if \<not> is_digit (text ! 0) \<or> \<not> is_digit (text ! 1) then Inl (Conversion_error (quoted ''Bad day in date: '' text))
      else let d = 10 * digit_val (text ! 0) + digit_val (text ! 1) in
        if \<not> day_ok d then Inl (Conversion_error (quoted ''Bad day in date: '' text)) else Inr d)"

definition find_year_month_separator :: "string \<Rightarrow> nat" where
  "find_year_month_separator text = length (takeWhile (\<lambda>c. c \<noteq> CHR ''-'') text)"

definition make_parse_error :: "string \<Rightarrow> exn" where
  "make_parse_error text = Conversion_error (quoted ''Invalid date: '' text)"

definition ends_with :: "string \<Rightarrow> string \<Rightarrow> bool" where
  "ends_with text suf \<longleftrightarrow> length suf \<le> length text \<and> drop (length text - length suf) text = suf"

definition date_from_string :: "(int \<Rightarrow> int) \<Rightarrow> string \<Rightarrow> exn + year_month_day" where
  "date_from_string held text0 =
     (if length text0 < 9 then Inl (make_parse_error text0)
      else let is_bc = ends_with text0 s_bc;
               text = (if is_bc then take (length text0 - length s_bc) text0 else text0);
               ymsep = find_year_month_separator text in
        if length text - ymsep \<noteq> 6 then Inl (make_parse_error text)
        else case year_from_buf (take ymsep text) of
          Inl e \<Rightarrow> Inl e
        | Inr base_year \<Rightarrow>
            if base_year = 0 then Inl (Conversion_error ''Year zero conversion.'')
            else let y = chrono_year held (if is_bc then - base_year + 1 else base_year) in
              case month_from_string (take 2 (drop (ymsep + 1) text)) of
                Inl e \<Rightarrow> Inl e
              | Inr m \<Rightarrow>
                  if text ! (ymsep + 3) \<noteq> CHR ''-'' then Inl (make_parse_error text)
                  else case day_from_string (take 2 (drop (ymsep + 4) text)) of
                    Inl e \<Rightarrow> Inl e
                  | Inr d \<Rightarrow>
                      let date = \<lparr>yr = y, mon = m, dy = d\<rparr> in
                      if \<not> date_ok date then Inl (make_parse_error text) else Inr date)"

subsection \<open>The year as digits\<close>

text \<open>The number of the year that is written, and the number of digits.\<close>

definition base_year :: "int \<Rightarrow> int" where
  "base_year y = (if y \<le> 0 then 1 - y else y)"

lemma dec_append: "10 \<le> n \<Longrightarrow> dec n = dec (n div 10) @ [digit_char (n mod 10)]"
  by (subst dec.simps) simp

lemma length_dec_four:
  assumes "1000 \<le> n"
  shows "4 \<le> length (dec n)"
proof -
  have "dec n = dec (n div 10 div 10 div 10) @ [digit_char (n div 10 div 10 mod 10), digit_char (n div 10 mod 10), digit_char (n mod 10)]"
    using assms dec_append[of n] dec_append[of "n div 10"] dec_append[of "n div 10 div 10"] by simp
  moreover have "dec (n div 10 div 10 div 10) \<noteq> []" by simp
  ultimately show ?thesis by (cases "dec (n div 10 div 10 div 10)") simp_all
qed

lemma digits_val_zero: "digits_val (CHR ''0'' # s) = digits_val s"
  by (simp add: digits_val_def digit_val_def)

lemma length_dec_low:
  assumes "0 \<le> n"
  shows "10 \<le> n \<Longrightarrow> 2 \<le> length (dec n)" "100 \<le> n \<Longrightarrow> 3 \<le> length (dec n)"
proof -
  have p: "dec k \<noteq> []" for k by simp
  show "2 \<le> length (dec n)" if "10 \<le> n"
    using dec_append[OF that] p[of "n div 10"] by (cases "dec (n div 10)") simp_all
  show "3 \<le> length (dec n)" if "100 \<le> n"
    using that dec_append[of n] dec_append[of "n div 10"] p[of "n div 10 div 10"] by (cases "dec (n div 10 div 10)") simp_all
qed

lemma year_digits:
  assumes "year_min \<le> y" "y \<le> year_max"
  shows "list_all is_digit (year_into_buf y)" "digits_val (year_into_buf y) = base_year y" "4 \<le> length (year_into_buf y)"
    "0 < base_year y" "base_year y < 2 ^ 31"
proof -
  have b: "base_year y = \<bar>y\<bar> + (if y \<le> 0 then 1 else 0)" "0 < base_year y" by (auto simp: base_year_def)
  have z: "is_digit (CHR ''0'')" by (simp add: is_digit_def)
  have one: "1 \<le> length (dec (base_year y))" by (cases "dec (base_year y)") (use dec_nonempty in \<open>auto simp del: dec_nonempty\<close>)
  note l = one length_dec_low[of "base_year y"] length_dec_four[of "base_year y"]
  show "list_all is_digit (year_into_buf y)"
    using b z dec_digits[of "base_year y"] by (auto simp: year_into_buf_def Let_def int_to_string_def is_digit_def)
  show "digits_val (year_into_buf y) = base_year y"
  proof (cases "y = year_min")
    case True
    have "digits_val ''32768'' = 32768" by (simp add: digits_val_def digit_val_def)
    with True show ?thesis by (simp add: year_into_buf_def base_year_def year_min_def)
  next
    case False
    with b show ?thesis by (auto simp: year_into_buf_def Let_def int_to_string_def digits_val_zero)
  qed
  show "4 \<le> length (year_into_buf y)"
    using b l by (auto simp: year_into_buf_def Let_def int_to_string_def)
  show "0 < base_year y" by (rule b)
  show "base_year y < 2 ^ 31" using assms by (simp add: base_year_def year_min_def year_max_def)
qed

lemma year_length:
  assumes "year_min \<le> y" "y \<le> year_max"
  shows "length (year_into_buf y) \<le> 5"
proof -
  have b: "0 \<le> base_year y" "base_year y < 10 ^ 5" and eq: "base_year y = \<bar>y\<bar> + (if y \<le> 0 then 1 else 0)"
    using assms by (auto simp: base_year_def year_min_def year_max_def)
  note l = length_dec_le[of "base_year y" 5] length_dec_le[of "base_year y" 3] length_dec_le[of "base_year y" 2]
    length_dec_le[of "base_year y" 1]
  show ?thesis using b eq l by (auto simp: year_into_buf_def Let_def int_to_string_def)
qed

subsection \<open>The round trip\<close>

lemma year_read:
  assumes "year_min \<le> y" "y \<le> year_max"
  shows "year_from_buf (year_into_buf y) = Inr (base_year y)"
proof -
  note d = year_digits[OF assms]
  have "dropWhile (\<lambda>c. c = CHR '' '' \<or> c = CHR 0x09) (year_into_buf y) = year_into_buf y"
    using d(1,3) by (cases "year_into_buf y") (auto simp: is_digit_def)
  then have "from_string_arithmetic (from_chars_int (- (2 ^ 31)) (2 ^ 31 - 1)) ''int'' (year_into_buf y) = Inr (base_year y)"
    using d by (subst from_string_int_iff) (auto intro!: exI[of _ "year_into_buf y"])
  then show ?thesis using d(3,4) by (simp add: year_from_buf_def)
qed

lemma separator_after_year:
  "list_all is_digit ys \<Longrightarrow> find_year_month_separator (ys @ CHR ''-'' # rest) = length ys"
  by (auto simp: find_year_month_separator_def takeWhile_append list_all_iff is_digit_def)

lemma ends_with_append [simp]: "ends_with (s @ t) t"
  by (simp add: ends_with_def)

lemma two_digits: "0 \<le> n \<Longrightarrow> n < 100 \<Longrightarrow> is_digit (digit_char (n div 10)) \<and> is_digit (digit_char (n mod 10))
  \<and> 10 * digit_val (digit_char (n div 10)) + digit_val (digit_char (n mod 10)) = n"
  by simp

lemma month_digits: "1 \<le> m \<Longrightarrow> m \<le> 12 \<Longrightarrow> month_into_buf m = [digit_char (m div 10), digit_char (m mod 10)]"
proof -
  assume "1 \<le> m" "m \<le> 12"
  then have "m div 10 = (if m \<ge> 10 then 1 else 0)" by auto
  then show ?thesis by (auto simp: month_into_buf_def digit_char_def char_of_def)
qed

lemma last_day_le: "last_day y m \<le> 31"
  by (simp add: last_day_def)

lemma not_bc_digits: "is_digit c \<Longrightarrow> \<not> ends_with (s @ [c]) s_bc"
  by (auto simp: ends_with_def s_bc_def is_digit_def drop_Suc dest: arg_cong[of _ _ last])

text \<open>
  C35.  A date of the calendar, from the year -32767 to the year 32767, that is written to a buffer of the size asked
  for is read back as the same date, whatever a year out of range holds.
\<close>

theorem date_roundtrip:
  assumes "date_ok v" "date_size_buffer \<le> space"
  shows "\<exists>text. date_to_buf space v = Inr text \<and> length text < date_size_buffer \<and> date_from_string held text = Inr v"
proof -
  have v: "year_min \<le> yr v" "yr v \<le> year_max" "1 \<le> mon v" "mon v \<le> 12" "1 \<le> dy v" "dy v \<le> 31"
    using assms(1) last_day_le[of "yr v" "mon v"] by (auto simp: date_ok_def)
  define ys ms ds where "ys = year_into_buf (yr v)" and "ms = month_into_buf (mon v)" and "ds = day_into_buf (dy v)"
  define body where "body = ys @ ''-'' @ ms @ ''-'' @ ds"
  define out where "out = body @ (if yr v \<le> 0 then s_bc else [])"
  have ms: "ms = [digit_char (mon v div 10), digit_char (mon v mod 10)]" using v by (simp add: ms_def month_digits)
  have ds: "ds = [digit_char (dy v div 10), digit_char (dy v mod 10)]" by (simp add: ds_def day_into_buf_def)
  have md: "is_digit (digit_char (mon v div 10)) \<and> is_digit (digit_char (mon v mod 10))
      \<and> 10 * digit_val (digit_char (mon v div 10)) + digit_val (digit_char (mon v mod 10)) = mon v"
    using v by (intro two_digits) auto
  have dd: "is_digit (digit_char (dy v div 10)) \<and> is_digit (digit_char (dy v mod 10))
      \<and> 10 * digit_val (digit_char (dy v div 10)) + digit_val (digit_char (dy v mod 10)) = dy v"
    using v by (intro two_digits) auto
  note d = year_digits[OF v(1,2), folded ys_def]
  have w: "date_to_buf space v = Inr out"
    using assms(2) by (simp add: date_to_buf_def out_def body_def ys_def ms_def ds_def)
  have bc: "ends_with out s_bc \<longleftrightarrow> yr v \<le> 0"
  proof (cases "yr v \<le> 0")
    case False
    have "out = (ys @ ''-'' @ ms @ ''-'' @ [digit_char (dy v div 10)]) @ [digit_char (dy v mod 10)]"
      using False by (simp add: out_def body_def ds)
    with False dd show ?thesis using not_bc_digits by metis
  qed (simp add: out_def)
  have b: "(if ends_with out s_bc then take (length out - length s_bc) out else out) = body"
    by (simp only: bc) (simp add: out_def)
  have sep: "find_year_month_separator body = length ys" using separator_after_year[OF d(1)] by (simp add: body_def)
  have len: "length body = length ys + 6" by (simp add: body_def ms ds)
  have l9: "\<not> length out < 9" using len d(3) by (simp add: out_def)
  have parts: "take (length ys) body = ys" "take 2 (drop (length ys + 1) body) = ms" "take 2 (drop (Suc (length ys)) body) = ms" "body ! (length ys + 3) = CHR ''-''"
    "take 2 (drop (length ys + 4) body) = ds"
    by (simp_all add: body_def ms ds nth_append eval_nat_numeral)
  have surj: "\<lparr>yr = yr v, mon = mon v, dy = dy v\<rparr> = v" by simp
  have y: "chrono_year held (if yr v \<le> 0 then - base_year (yr v) + 1 else base_year (yr v)) = yr v"
    using v by (simp add: base_year_def chrono_year_def)
  have m: "month_from_string ms = Inr (mon v)" using md by (simp add: month_from_string_def ms)
  have dy: "day_from_string ds = Inr (dy v)" using dd v by (simp add: day_from_string_def ds day_ok_def)
  have "length ys \<le> 5" unfolding ys_def by (rule year_length[OF v(1,2)])
  then have "length out < date_size_buffer" by (simp add: out_def len date_size_buffer_def)
  moreover have "date_from_string held out = Inr v"
    using l9 d(4) assms(1) y unfolding date_from_string_def Let_def unfolding b unfolding sep len bc
    by (cases "yr v \<le> 0") (simp_all add: parts year_read[OF v(1,2), folded ys_def] m dy surj)
  ultimately show ?thesis using w by blast
qed

theorem date_roundtrip_witness:
  "\<exists>text. date_to_buf 15 \<lparr>yr = 0, mon = 2, dy = 29\<rparr> = Inr text \<and> length text < date_size_buffer
     \<and> date_from_string id text = Inr \<lparr>yr = 0, mon = 2, dy = 29\<rparr>"
  by (rule date_roundtrip) (simp_all add: date_ok_def year_min_def year_max_def last_day_def is_leap_def date_size_buffer_def s_bc_def)

subsection \<open>What is accepted\<close>

lemma take_2_drop: "i + 2 \<le> length t \<Longrightarrow> take 2 (drop i t) = [t ! i, t ! (i + 1)]"
  by (simp add: eval_nat_numeral take_Suc_conv_app_nth)

lemma ends_with_split: "ends_with t u \<Longrightarrow> t = take (length t - length u) t @ u"
  unfolding ends_with_def by (metis append_take_drop_id)

lemma month_readD: "month_from_string s = Inr m \<Longrightarrow> is_digit (s ! 0) \<and> is_digit (s ! 1) \<and> m = 10 * digit_val (s ! 0) + digit_val (s ! 1)"
  by (simp add: month_from_string_def split: if_splits)

lemma day_readD: "day_from_string s = Inr m \<Longrightarrow> is_digit (s ! 0) \<and> is_digit (s ! 1) \<and> m = 10 * digit_val (s ! 0) + digit_val (s ! 1)"
  by (simp add: day_from_string_def Let_def split: if_splits)

text \<open>
  C36.  Whatever text is read, only dates of the calendar come out, and the text is the one of that date as far as \<open>std::chrono::year\<close> can
  hold it: month and day are their digits between dashes; the year \<open>y\<close> of the digits, counted with the suffix \<open>BC\<close> as \<open>1 - y\<close>, is the year of the
  date when it is from -32767 to 32767, and then the suffix stands exactly for the years before 1 AD.  A year out of
  that range is not refused: the date then has the year that the library makes of it, given by the parameter \<open>held\<close>.
\<close>

theorem date_read_is_date:
  assumes "date_from_string held text = Inr v"
  shows "date_ok v \<and> (\<exists>ys a b c d bc y n. text = ys @ [CHR ''-'', a, b, CHR ''-'', c, d] @ bc \<and> bc \<in> {[], s_bc}
    \<and> year_from_buf ys = Inr n \<and> 1 \<le> n \<and> y = (if bc = [] then n else 1 - n)
    \<and> yr v = (if -32767 \<le> y \<and> y \<le> 32767 then y else held y) \<and> (bc = s_bc \<longleftrightarrow> y < 1)
    \<and> list_all is_digit [a, b, c, d] \<and> mon v = 10 * digit_val a + digit_val b \<and> dy v = 10 * digit_val c + digit_val d)"
proof -
  define bc where "bc = (if ends_with text s_bc then s_bc else [])"
  define body where "body = (if ends_with text s_bc then take (length text - length s_bc) text else text)"
  define k where "k = find_year_month_separator body"
  have split: "text = body @ bc"
    using ends_with_split[of "text" s_bc] by (simp add: body_def bc_def)
  have k: "length body - k = 6" and dash: "body ! (k + 3) = CHR ''-''" and ok: "date_ok v"
    using assms unfolding date_from_string_def Let_def k_def body_def
    by (auto split: if_splits sum.splits)
  obtain n where n: "year_from_buf (take k body) = Inr n" "yr v = chrono_year held (if bc = [] then n else 1 - n)"
    using assms unfolding date_from_string_def Let_def k_def body_def bc_def
    by (auto split: if_splits sum.splits simp: s_bc_def)
  define y where "y = (if bc = [] then n else 1 - n)"
  have y: "yr v = (if -32767 \<le> y \<and> y \<le> 32767 then y else held y)" using n(2) by (simp add: y_def chrono_year_def year_min_def year_max_def)
  have n1: "1 \<le> n" using n(1) by (auto simp: year_from_buf_def split: if_splits sum.splits)
  then have era: "bc = s_bc \<longleftrightarrow> y < 1" by (auto simp: y_def bc_def s_bc_def)
  have m: "month_from_string (take 2 (drop (k + 1) body)) = Inr (mon v)" and d: "day_from_string (take 2 (drop (k + 4) body)) = Inr (dy v)"
    using assms unfolding date_from_string_def Let_def k_def body_def bc_def
    by (auto split: if_splits sum.splits)
  have len: "length body = k + 6" using k by simp
  have sep: "body ! k = CHR ''-''"
    using len nth_length_takeWhile[of "\<lambda>c. c \<noteq> CHR ''-''" body] by (simp add: k_def find_year_month_separator_def)
  have "drop k body = [body ! k, body ! (k + 1), body ! (k + 2), body ! (k + 3), body ! (k + 4), body ! (k + 5)]"
    using len by (simp add: list_eq_iff_nth_eq less_Suc_eq eval_nat_numeral nth_Cons')
  then have "text = take k body @ [CHR ''-'', body ! (k + 1), body ! (k + 2), CHR ''-'', body ! (k + 4), body ! (k + 5)] @ bc"
    using split sep dash by (metis append.assoc append_take_drop_id)
  moreover have "bc \<in> {[], s_bc}" by (simp add: bc_def)
  moreover have "is_digit (body ! (k + 1)) \<and> is_digit (body ! (k + 2)) \<and> mon v = 10 * digit_val (body ! (k + 1)) + digit_val (body ! (k + 2))"
    using month_readD[OF m] take_2_drop[of "k + 1" body] len by simp
  moreover have "is_digit (body ! (k + 4)) \<and> is_digit (body ! (k + 5)) \<and> dy v = 10 * digit_val (body ! (k + 4)) + digit_val (body ! (k + 5))"
    using day_readD[OF d] len by (simp add: take_2_drop add.commute)
  ultimately show ?thesis using ok n(1) n1 y era y_def
    by (intro conjI exI[of _ "take k body"] exI[of _ "body ! (k + 1)"] exI[of _ "body ! (k + 2)"] exI[of _ "body ! (k + 4)"]
        exI[of _ "body ! (k + 5)"] exI[of _ bc] exI[of _ y] exI[of _ n]) simp_all
qed

theorem date_read_is_date_witness:
  "\<exists>v. date_from_string id ''2024-02-29'' = Inr v \<and> date_ok v \<and> yr v = 2024"
proof -
  have d: "date_from_string id ''2024-02-29'' = Inr \<lparr>yr = 2024, mon = 2, dy = 29\<rparr>" by code_simp
  from date_read_is_date[OF d] have "date_ok \<lparr>yr = 2024, mon = 2, dy = 29\<rparr>" by blast
  with d show ?thesis by simp
qed

end
