(* ===== verification/Pqxx_Transactor.thy ===== *)
theory Pqxx_Transactor
  imports Pqxx_Session
begin

text \<open>
  Repeated attempts at a transaction: \<open>perform\<close> of \<open>libpqxx/include/pqxx/transactor.hxx\<close>, over any callback, and
  what it makes of callbacks that open a transaction, run statements and commit.
\<close>

subsection \<open>The loop\<close>

text \<open>
  What the \<open>catch\<close> clauses do with an exception, in their order.  The classes derived from
  \<open>transaction_rollback\<close> and from \<open>broken_connection\<close> are those of \<open>except.hxx\<close>.
\<close>

definition is_rollback :: "string \<Rightarrow> bool" where
  "is_rollback cls \<longleftrightarrow> cls \<in> {''transaction_rollback'', ''serialization_failure'', ''statement_completion_unknown'', ''deadlock_detected''}"

fun worth_retrying :: "exn \<Rightarrow> bool" where
  "worth_retrying In_doubt_error = False"
| "worth_retrying (Sql_error_class cls code) =
     (if cls = ''statement_completion_unknown'' then False
      else if cls = ''protocol_violation'' then False
      else is_rollback cls)"
| "worth_retrying Broken_connection = True"
| "worth_retrying Too_many_connections = True"
| "worth_retrying e = False"

fun perform_loop :: "('w, 'a) prog \<Rightarrow> nat \<Rightarrow> ('w, 'a) prog" where
  "perform_loop callback 0 = throw (Internal_error ''No outcome reached on perform().'')"
| "perform_loop callback (Suc n) = try_catch callback (\<lambda>e.
     if worth_retrying e then (if Suc n \<le> 1 then throw e else perform_loop callback n) else throw e)"

definition perform :: "('w, 'a) prog \<Rightarrow> int \<Rightarrow> ('w, 'a) prog" where
  "perform callback attempts = (if attempts \<le> 0 then throw Invalid_argument else perform_loop callback (nat attempts))"

text \<open>Without a number of attempts there are three.\<close>

definition perform_default :: "('w, 'a) prog \<Rightarrow> ('w, 'a) prog" where
  "perform_default callback = perform callback 3"

subsection \<open>The attempts\<close>

text \<open>\<open>failed_attempts cb w n w'\<close>: \<open>n\<close> attempts in a row fail in a way that is worth another one.\<close>

inductive failed_attempts :: "('w, 'a) prog \<Rightarrow> 'w \<Rightarrow> nat \<Rightarrow> 'w \<Rightarrow> bool" for cb where
  no_attempt: "failed_attempts cb w 0 w"
| one_more: "cb w = (Inl (Throw e), w1) \<Longrightarrow> worth_retrying e \<Longrightarrow> failed_attempts cb w1 n w' \<Longrightarrow> failed_attempts cb w (Suc n) w'"

inductive_simps failed_attempts_0 [simp]: "failed_attempts cb w 0 w'"
inductive_cases failed_attempts_SucE: "failed_attempts cb w (Suc n) w'"

lemma perform_loop_attempts:
  assumes "perform_loop cb (Suc n) w = (r, w')"
  shows "\<exists>k \<le> n. \<exists>w1. failed_attempts cb w k w1 \<and> cb w1 = (r, w')
    \<and> (k = n \<or> (\<forall>e. r = Inl (Throw e) \<longrightarrow> \<not> worth_retrying e))"
  using assms
proof (induction n arbitrary: w)
  case 0
  then show ?case
    by (auto simp: try_catch_def throw_def stop_with_def split: sum.splits stop.splits if_splits prod.splits)
next
  case (Suc n)
  obtain r0 w0 where c: "cb w = (r0, w0)" by fastforce
  show ?case
  proof (cases "\<exists>e. r0 = Inl (Throw e) \<and> worth_retrying e")
    case True
    then obtain e where e: "r0 = Inl (Throw e)" "worth_retrying e" by blast
    with Suc.prems c have "perform_loop cb (Suc n) w0 = (r, w')" by (simp add: try_catch_def)
    from Suc.IH[OF this] obtain k w1 where "k \<le> n" "failed_attempts cb w0 k w1" "cb w1 = (r, w')"
      "k = n \<or> (\<forall>e. r = Inl (Throw e) \<longrightarrow> \<not> worth_retrying e)" by blast
    with c e show ?thesis by (intro exI[of _ "Suc k"]) (auto intro: one_more)
  next
    case False
    with Suc.prems c have "r = r0 \<and> w' = w0"
      by (auto simp: try_catch_def throw_def stop_with_def split: sum.splits stop.splits)
    with False c show ?thesis by (intro exI[of _ 0]) auto
  qed
qed

text \<open>
  \<open>perform\<close> repeats its callback, each time from the state that the failed attempt left, until an attempt ends
  in another way than with an exception that is worth retrying, or the attempts are used up; it returns or throws
  what the last attempt did.
\<close>

theorem perform_attempts:
  assumes "0 < attempts" "perform cb attempts w = (r, w')"
  shows "\<exists>k w1. int k < attempts \<and> failed_attempts cb w k w1 \<and> cb w1 = (r, w')
    \<and> (int k + 1 = attempts \<or> (\<forall>e. r = Inl (Throw e) \<longrightarrow> \<not> worth_retrying e))"
proof -
  obtain n where n: "nat attempts = Suc n" using assms(1) by (cases "nat attempts") auto
  then have a: "attempts = int (Suc n)" using assms(1) by linarith
  from n assms have "perform_loop cb (Suc n) w = (r, w')" by (simp add: perform_def)
  from perform_loop_attempts[OF this] obtain k w1 where "k \<le> n" "failed_attempts cb w k w1" "cb w1 = (r, w')"
    "k = n \<or> (\<forall>e. r = Inl (Throw e) \<longrightarrow> \<not> worth_retrying e)" by blast
  then show ?thesis by (intro exI[of _ k] exI[of _ w1]) (auto simp: a)
qed

subsection \<open>Transactions that are repeated\<close>

text \<open>A callback that opens a transaction, runs statements and commits.\<close>

definition commit_scope :: "'db libpq \<Rightarrow> string list \<Rightarrow> (('db, 'z) session_scheme, unit) prog" where
  "commit_scope pq qs = with_work pq (\<lambda>t. sq (for_each qs (\<lambda>q. sq (tx_exec pq t q) (ret ()))) (tx_commit pq t))"

text \<open>No statement but a commit leaves it in doubt whether it was executed.\<close>

fun in_doubt :: "exn \<Rightarrow> bool" where
  "in_doubt In_doubt_error = True"
| "in_doubt e = False"

lemma in_doubt_iff: "in_doubt e \<longleftrightarrow> e = In_doubt_error"
  by (cases e) simp_all

lemma throw_sql_error_certain: "\<not> in_doubt (throw_sql_error st)"
  unfolding throw_sql_error_def Let_def
  by (cases st) (simp_all only: option.case if_distrib[where f = in_doubt] in_doubt.simps if_cancel not_False_eq_True)

lemma enc_group_certain: "enc_group n = Inl e \<Longrightarrow> \<not> in_doubt e"
  by (auto simp: enc_group_def Let_def split: if_splits)

lemma check_status_certain: "check_status r = Inl e \<Longrightarrow> \<not> in_doubt e"
  by (auto simp: check_status_def status_error_def throw_sql_error_certain split: exec_status.splits if_splits)

lemma exec_db_certain: "exec_db pq q d = (Inl (Throw e), d') \<Longrightarrow> e \<noteq> In_doubt_error"
  unfolding in_doubt_iff[symmetric]
  by (auto simp: exec_db_def split: prod.splits option.splits sum.splits if_splits dest: enc_group_certain check_status_certain)

text \<open>The statements of the body on a held active transaction: it stays active and none of them is in doubt.\<close>

lemma statements_active:
  assumes "owned t w" "m_status (txs w ! t) = Tx_active"
  shows "\<exists>r d. for_each qs (\<lambda>q. sq (tx_exec pq t q) (ret ())) w = (r, w\<lparr>db := d\<rparr>)
    \<and> settled r \<and> r \<noteq> Inl (Throw In_doubt_error)"
  using assms
proof (induction qs arbitrary: w)
  case Nil
  show ?case by (rule exI[of _ "Inr ()"], rule exI[of _ "db w"]) (simp add: prog_simps)
next
  case (Cons q qs)
  obtain r d where x: "exec_db pq q (db w) = (r, d)" by fastforce
  have e: "tx_exec pq t q w = (r, w\<lparr>db := d\<rparr>)" using tx_exec_owned[OF Cons.prems(1), of pq q] Cons.prems(2) x by simp
  have "settled r" using settled_exec_db[of pq q "db w"] x by simp
  then show ?case
  proof (rule settledE)
    fix e1 assume "r = Inl (Throw e1)"
    with e exec_db_certain[of pq q "db w" e1 d] x show ?thesis
      by (intro exI[of _ "Inl (Throw e1)"] exI[of _ d]) (simp add: prog_simps)
  next
    fix v assume "r = Inr v"
    moreover have "owned t (w\<lparr>db := d\<rparr>)" "m_status (txs (w\<lparr>db := d\<rparr>) ! t) = Tx_active"
      using Cons.prems by (simp_all add: owned_def)
    ultimately show ?thesis using e Cons.IH[of "w\<lparr>db := d\<rparr>"] by (simp add: prog_simps)
  qed
qed

text \<open>
  How the callback ends, from the status of the transaction object it made: it returns exactly when the object
  is committed, and throws \<open>in_doubt_error\<close> exactly when the object is in doubt.
\<close>

lemma keeps_statements [keeps_intros]: "keeps (owned t) (for_each qs (\<lambda>q. sq (tx_exec pq t q) (ret ())))"
  by (intro keeps_intros)

definition outcome :: "stop + unit \<Rightarrow> tx_status \<Rightarrow> bool" where
  "outcome r s \<longleftrightarrow> settled r \<and> (r = Inr () \<longleftrightarrow> s = Tx_committed) \<and> (r = Inl (Throw In_doubt_error) \<longleftrightarrow> s = Tx_in_doubt)"

lemma destructor_status:
  assumes "owned t w" "t = length ts" "txs w = ts @ [x]"
  shows "\<exists>y. txs (snd (work_destructor pq t w)) = ts @ [y] \<and> m_status y = (if m_status x = Tx_active then Tx_aborted else m_status x)"
  using work_destructor_eq[OF assms(1), of pq] assms by auto

lemma tx_commit_closed:
  assumes "owned t w" "m_status (txs w ! t) = Tx_active" "\<not> pq_open pq (db w)"
  shows "tx_commit pq t w = (Inl (Throw Broken_connection), w)"
  using assms by (simp add: owned_def tx_commit_def check_pending_ok tx_prims is_open_def prog_simps)

lemma commit_and_destroy:
  assumes "owned t w" "m_status (txs w ! t) = Tx_active" "t = length ts" "txs w = ts @ [x]" "tx_commit pq t w = (r, w1)"
  shows "\<exists>y. txs (snd (work_destructor pq t w1)) = ts @ [y] \<and> outcome r (m_status y)"
proof -
  have o: "owned t w1" using owned_tx_commit[OF assms(1), of pq] assms(5) by simp
  show ?thesis
  proof (rule tx_commit_cases[OF assms(1), of pq])
    fix r' ns assume "m_status (txs w ! t) \<noteq> Tx_active \<or> \<not> pq_open pq (db w)"
    with tx_commit_closed[of t w pq] assms(1,2,5) have "w1 = w" "r = Inl (Throw Broken_connection)" by auto
    with destructor_status[OF assms(1,3,4), of pq] assms(2-4) show ?thesis by (auto simp: outcome_def)
  next
    fix v d ns assume "tx_commit pq t w = (Inr (), (put_tx t ((txs w ! t)\<lparr>m_status := Tx_committed, m_registered := False\<rparr>) w)
         \<lparr>db := d, m_trans := None, notices := notices w @ ns\<rparr>)"
    then have "r = Inr ()" "\<exists>z. txs w1 = ts @ [z] \<and> m_status z = Tx_committed" using assms by auto
    with destructor_status[OF o assms(3), of _ pq] show ?thesis by (auto simp: outcome_def)
  next
    fix e d ns assume x: "exec_db pq ''COMMIT'' (db w) = (Inl (Throw e), d)"
      and "tx_commit pq t w = (Inl (Throw (commit_exn (pq_open pq d) e)),
         (put_tx t ((txs w ! t)\<lparr>m_status := commit_status (pq_open pq d) (Inl (Throw e))\<rparr>) w)
         \<lparr>db := d, notices := notices w @ ns\<rparr>)"
    then have "r = Inl (Throw (commit_exn (pq_open pq d) e))" "\<exists>z. txs w1 = ts @ [z] \<and> m_status z = commit_status (pq_open pq d) (Inl (Throw e))" using assms by auto
    moreover have "commit_status (pq_open pq d) (Inl (Throw e)) =
        (if commit_exn (pq_open pq d) e = In_doubt_error then Tx_in_doubt else Tx_aborted)"
      using exec_db_certain[OF x] by (auto simp: commit_status_def commit_exn_def)
    ultimately show ?thesis using destructor_status[OF o assms(3), of _ pq] by (auto simp: outcome_def split: if_splits)
  qed
qed

lemma commit_scope_outcome:
  assumes "idle w"
  shows "\<exists>y. txs (snd (commit_scope pq qs w)) = txs w @ [y] \<and> idle (snd (commit_scope pq qs w))
    \<and> outcome (fst (commit_scope pq qs w)) (m_status y)"
proof -
  let ?body = "\<lambda>t. sq (for_each qs (\<lambda>q. sq (tx_exec pq t q) (ret ()))) (tx_commit pq t)"
  let ?t = "length (txs w)"
  let ?w0 = "\<lambda>d. w\<lparr>txs := txs w @ [new_tx\<lparr>m_registered := True\<rparr>], m_trans := Some ?t, db := d\<rparr>"
  have m: "m_trans w = None" using assms by (simp add: idle_def)
  have k: "\<And>t. keeps (owned t) (?body t)" by (intro keeps_intros)
  have run: "\<exists>y. txs (snd (work_destructor pq ?t w1)) = txs w @ [y] \<and> outcome r (m_status y) \<and> owned ?t w1"
    if b: "?body ?t (?w0 d) = (r, w1)" for d r w1
  proof -
    have o: "owned ?t (?w0 d)" by (rule owned_started[OF m])
    have a: "m_status (txs (?w0 d) ! ?t) = Tx_active" by (simp add: new_tx_def)
    obtain s d' where s: "for_each qs (\<lambda>q. sq (tx_exec pq ?t q) (ret ())) (?w0 d) = (s, (?w0 d)\<lparr>db := d'\<rparr>)"
      "settled s" "s \<noteq> Inl (Throw In_doubt_error)" using statements_active[OF o a, of qs pq] by blast
    have o': "owned ?t ((?w0 d)\<lparr>db := d'\<rparr>)" using o by (simp add: owned_def)
    have ow: "owned ?t w1" using keepsD[OF k o] b by simp
    from s(2) show ?thesis
    proof (rule settledE)
      fix e assume "s = Inl (Throw e)"
      with b s have "r = Inl (Throw e)" "w1 = (?w0 d)\<lparr>db := d'\<rparr>" "e \<noteq> In_doubt_error" by (auto simp: prog_simps)
      with destructor_status[OF o', of "txs w" _ pq] ow show ?thesis by (auto simp: outcome_def new_tx_def)
    next
      fix u assume "s = Inr u"
      with b s have "tx_commit pq ?t ((?w0 d)\<lparr>db := d'\<rparr>) = (r, w1)" by (simp add: prog_simps)
      from commit_and_destroy[OF o' _ refl _ this] ow show ?thesis by (simp add: new_tx_def)
    qed
  qed
  show ?thesis
  proof (rule with_work_cases[OF m k, of pq])
    fix e d ns assume "exec_db pq ''BEGIN'' (db w) = (Inl (Throw e), d)"
      and "with_work pq ?body w = (Inl (Throw e),
        w\<lparr>txs := txs w @ [new_tx\<lparr>m_registered := True\<rparr>], m_trans := None, db := d, notices := notices w @ ns\<rparr>)"
    with exec_db_certain[of pq "''BEGIN''" "db w" e d] show ?thesis by (auto simp: commit_scope_def idle_def outcome_def new_tx_def)
  next
    fix v d r w1 assume "?body ?t (?w0 d) = (r, w1)"
      and "with_work pq ?body w = (r, snd (work_destructor pq ?t w1))"
    with run[of d r w1] destructor_idle[of ?t w1 pq] show ?thesis by (auto simp: commit_scope_def)
  next
    fix v d r w1 assume x: "exec_db pq ''BEGIN'' (db w) = (Inr v, d)" and "\<not> settled r" "with_work pq ?body w = (r, w1)"
    moreover have "settled (fst (?body ?t (?w0 d)))" using run[of d] by (cases "?body ?t (?w0 d)") (auto simp: outcome_def)
    ultimately have False using basic_transaction_idle[OF m x]
      by (cases "?body ?t (?w0 d)"; cases "fst (?body ?t (?w0 d))" rule: settled.cases)
        (auto simp: with_work_def bnd_def guard_with_def)
    then show ?thesis ..
  qed
qed

lemma failed_scopes:
  assumes "failed_attempts (commit_scope pq qs) w k w'" "idle w"
  shows "idle w' \<and> (\<exists>ys. txs w' = txs w @ ys \<and> length ys = k \<and> (\<forall>y \<in> set ys. m_status y \<notin> {Tx_committed, Tx_in_doubt}))"
  using assms
proof (induction rule: failed_attempts.induct)
  case (one_more w e w1 n w')
  obtain y where y: "txs w1 = txs w @ [y]" "idle w1" "outcome (Inl (Throw e)) (m_status y)"
    using commit_scope_outcome[OF one_more.prems, of pq qs] one_more.hyps(1) by auto
  have "e \<noteq> In_doubt_error" using one_more.hyps(2) by auto
  with y have "m_status y \<notin> {Tx_committed, Tx_in_doubt}" by (simp add: outcome_def)
  with y one_more.IH show ?case by (fastforce simp: length_Suc_conv)
qed simp

text \<open>
  C3.  A transaction that is repeated by \<open>perform\<close> is committed at most once, and never repeated after a commit that
  may have gone through: of the transaction objects that the attempts make, one each, all but the last are neither
  committed nor in doubt; \<open>perform\<close> returns exactly when the last one is committed, and reports \<open>in_doubt_error\<close>
  exactly when it is in doubt.  This holds for every behaviour of the server.
\<close>

theorem perform_commits_once:
  assumes "idle w" "0 < attempts" "perform (commit_scope pq qs) attempts w = (r, w')"
  shows "settled r \<and> idle w' \<and> (\<exists>ys y. txs w' = txs w @ ys @ [y] \<and> int (length ys) < attempts
    \<and> (\<forall>x \<in> set ys. m_status x \<notin> {Tx_committed, Tx_in_doubt})
    \<and> (r = Inr () \<longleftrightarrow> m_status y = Tx_committed) \<and> (r = Inl (Throw In_doubt_error) \<longleftrightarrow> m_status y = Tx_in_doubt))"
proof -
  obtain n where n: "nat attempts = Suc n" using assms(2) by (cases "nat attempts") auto
  with assms(2,3) have "perform_loop (commit_scope pq qs) (Suc n) w = (r, w')" by (simp add: perform_def)
  from perform_loop_attempts[OF this] obtain k w1 where k: "k \<le> n" "failed_attempts (commit_scope pq qs) w k w1"
    "commit_scope pq qs w1 = (r, w')" by blast
  from failed_scopes[OF k(2) assms(1)] obtain ys where ys: "idle w1" "txs w1 = txs w @ ys" "length ys = k"
    "\<forall>y \<in> set ys. m_status y \<notin> {Tx_committed, Tx_in_doubt}" by blast
  from commit_scope_outcome[OF ys(1), of pq qs] k(3) obtain y where "txs w' = txs w1 @ [y]" "idle w'" "outcome r (m_status y)"
    by auto
  moreover have "int (length ys) < attempts" using k(1) n ys(3) by linarith
  ultimately show ?thesis using ys by (intro conjI exI[of _ ys] exI[of _ y]) (auto simp: outcome_def)
qed

theorem perform_commits_once_witness:
  "\<exists>r w'. perform (commit_scope calm_server [''SELECT 1'']) 3 (fresh_session ()) = (r, w') \<and> settled r \<and> idle w'
     \<and> txs w' \<noteq> []"
proof -
  have i: "idle (fresh_session ())" by (simp add: idle_def fresh_session_def)
  obtain r w' where "perform (commit_scope calm_server [''SELECT 1'']) 3 (fresh_session ()) = (r, w')" by fastforce
  with perform_commits_once[OF i _ this] show ?thesis by auto
qed

theorem perform_attempts_witness:
  "\<exists>k w1. int k < 2 \<and> failed_attempts (throw Broken_connection :: (nat, unit) prog) 0 k w1
    \<and> throw Broken_connection w1 = ((Inl (Throw Broken_connection) :: stop + unit), 0) \<and> int k + 1 = 2"
proof -
  have "perform (throw Broken_connection :: (nat, unit) prog) 2 0 = (Inl (Throw Broken_connection), 0)"
    by (simp add: perform_def eval_nat_numeral try_catch_def prog_simps)
  from perform_attempts[OF _ this] show ?thesis by auto
qed

end
