(* ===== verification/Pqxx_Pipeline.thy ===== *)
theory Pqxx_Pipeline
  imports Pqxx_Session
begin

text \<open>
  Pipelines: \<open>libpqxx/src/pipeline.cxx\<close> and \<open>pipeline.hxx\<close>, with the parts of \<open>connection.cxx\<close> and
  \<open>transaction_base.cxx\<close> that they call.  A pipeline collects queries, sends them to the server in batches, and
  hands out their results by identifier, in any order.
\<close>

subsection \<open>libpq\<close>

text \<open>
  The functions of libpq that work without waiting for a command: \<open>PQsendQuery\<close> (whether it succeeded),
  \<open>PQgetResult\<close> (\<open>None\<close> when the command is done), \<open>PQisBusy\<close>, \<open>PQgetCancel\<close> (whether it
  gives a handle) and \<open>PQcancel\<close> (an error message, or none).
\<close>

record 'db async =
  pq_send :: "string \<Rightarrow> 'db \<Rightarrow> bool \<times> 'db"
  pq_get :: "'db \<Rightarrow> pgresult option \<times> 'db"
  pq_busy :: "'db \<Rightarrow> bool"
  pq_get_cancel :: "'db \<Rightarrow> bool"
  pq_cancel :: "'db \<Rightarrow> string option \<times> 'db"

subsection \<open>The pipeline object\<close>

record query =
  q_text :: string
  q_res :: "pgresult option"

text \<open>
  \<open>m_queries\<close> is the map in the order of its keys.  An iterator is the key that it points at, \<open>None\<close> at the end;
  \<open>m_first\<close> and \<open>m_second\<close> are the two iterators of \<open>m_issuedrange\<close>.
\<close>

type_synonym queries = "(int \<times> query) list"

type_synonym iter = "int option"

record 'db pipe = "'db session" +
  pipe_name :: string
  pipe_registered :: bool
  m_queries :: queries
  m_first :: iter
  m_second :: iter
  m_retain :: int
  m_num_waiting :: int
  m_q_id :: int
  m_dummy_pending :: bool
  m_error :: int

definition qid_limit :: int where
  "qid_limit = 2 ^ 63 - 1"

definition the_separator :: string where "the_separator = ''; ''"
definition the_dummy_value :: string where "the_dummy_value = ''1''"
definition the_dummy_query :: string where "the_dummy_query = ''SELECT 1; ''"

definition begin_it :: "queries \<Rightarrow> iter" where
  "begin_it qm = (case qm of [] \<Rightarrow> None | e # _ \<Rightarrow> Some (fst e))"

text \<open>The entries from an iterator on, and the iterator after a key.\<close>

definition from_it :: "queries \<Rightarrow> iter \<Rightarrow> queries" where
  "from_it qm i = (case i of None \<Rightarrow> [] | Some k \<Rightarrow> dropWhile (\<lambda>e. fst e < k) qm)"

definition next_it :: "queries \<Rightarrow> int \<Rightarrow> iter" where
  "next_it qm k = begin_it (dropWhile (\<lambda>e. fst e \<le> k) qm)"

text \<open>The keys between two iterators.\<close>

definition between :: "queries \<Rightarrow> iter \<Rightarrow> iter \<Rightarrow> int list" where
  "between qm i j = map fst (takeWhile (\<lambda>e. Some (fst e) \<noteq> j) (from_it qm i))"

definition set_result :: "int \<Rightarrow> pgresult option \<Rightarrow> queries \<Rightarrow> queries" where
  "set_result k r qm = map (\<lambda>e. if fst e = k then (k, (snd e)\<lparr>q_res := r\<rparr>) else e) qm"

text \<open>What an iterator points at; reading through the end is undefined.\<close>

definition deref :: "iter \<Rightarrow> ('db pipe, int \<times> query) prog" where
  "deref i = bnd (gets m_queries) (\<lambda>qm. case i of
       None \<Rightarrow> stop_with (Undefined Index_out_of_range)
     | Some k \<Rightarrow> (case map_of qm k of
         None \<Rightarrow> stop_with (Undefined Index_out_of_range)
       | Some q \<Rightarrow> ret (k, q)))"

definition upd_queries :: "(queries \<Rightarrow> queries) \<Rightarrow> ('db pipe, unit) prog" where
  "upd_queries f = modify (\<lambda>w. w\<lparr>m_queries := f (m_queries w)\<rparr>)"

text \<open>\<open>++m_issuedrange.first\<close>.\<close>

definition advance_first :: "('db pipe, unit) prog" where
  "advance_first = bnd (gets m_first) (\<lambda>i. bnd (deref i) (\<lambda>(k, q).
     modify (\<lambda>w. w\<lparr>m_first := next_it (m_queries w) k\<rparr>)))"

definition have_pending :: "('db pipe, bool) prog" where
  "have_pending = gets (\<lambda>w. m_second w \<noteq> m_first w)"

definition set_error_at :: "int \<Rightarrow> ('db pipe, unit) prog" where
  "set_error_at qid = modify (\<lambda>w. if qid < m_error w then w\<lparr>m_error := qid\<rparr> else w)"

definition pipe_internal_error :: "string \<Rightarrow> ('db pipe, 'a) prog" where
  "pipe_internal_error err = sq (set_error_at 0) (throw (Internal_error err))"

subsection \<open>The focus of the transaction\<close>

definition register_me :: "nat \<Rightarrow> ('db pipe, unit) prog" where
  "register_me t = bnd (gets pipe_name) (\<lambda>n.
     sq (register_focus t (''pipeline'', n)) (modify (\<lambda>w. w\<lparr>pipe_registered := True\<rparr>)))"

definition unregister_me :: "nat \<Rightarrow> ('db pipe, unit) prog" where
  "unregister_me t = bnd (gets pipe_name) (\<lambda>n.
     sq (unregister_focus t (''pipeline'', n)) (modify (\<lambda>w. w\<lparr>pipe_registered := False\<rparr>)))"

definition attach :: "nat \<Rightarrow> ('db pipe, unit) prog" where
  "attach t = bnd (gets pipe_registered) (\<lambda>b. whn (\<not> b) (register_me t))"

definition detach :: "nat \<Rightarrow> ('db pipe, unit) prog" where
  "detach t = bnd (gets pipe_registered) (\<lambda>b. whn b (unregister_me t))"

text \<open>The constructor, on an object whose members have their default values.\<close>

definition pipe_init :: "'db libpq \<Rightarrow> nat \<Rightarrow> ('db pipe, unit) prog" where
  "pipe_init pq t = sq (get_encoding_group pq)
     (sq (modify (\<lambda>w. w\<lparr>m_first := None, m_second := None\<rparr>)) (attach t))"

subsection \<open>Calls of libpq\<close>

definition start_exec :: "'db libpq \<Rightarrow> 'db async \<Rightarrow> string \<Rightarrow> ('db pipe, unit) prog" where
  "start_exec pq apq query = (\<lambda>w. let (ok, d) = pq_send apq (c_str query) (db w) in
     ((if ok then Inr () else Inl (Throw (Failure (pq_error pq d)))), w\<lparr>db := d\<rparr>))"

definition get_result :: "'db async \<Rightarrow> ('db pipe, pgresult option) prog" where
  "get_result apq = (\<lambda>w. let (r, d) = pq_get apq (db w) in (Inr r, w\<lparr>db := d\<rparr>))"

definition consume_input :: "'db libpq \<Rightarrow> ('db pipe, bool) prog" where
  "consume_input pq = (\<lambda>w. let (ok, d) = pq_consume pq (db w) in (Inr ok, w\<lparr>db := d\<rparr>))"

definition is_busy :: "'db async \<Rightarrow> ('db pipe, bool) prog" where
  "is_busy apq = gets (\<lambda>w. pq_busy apq (db w))"

definition cancel_query :: "'db async \<Rightarrow> ('db pipe, unit) prog" where
  "cancel_query apq = (\<lambda>w. if \<not> pq_get_cancel apq (db w) then (Inl (Throw Bad_alloc), w) else let (r, d) = pq_cancel apq (db w) in
     ((case r of None \<Rightarrow> Inr () | Some err \<Rightarrow> Inl (Throw (Sql_error_class ''sql_error'' []))), w\<lparr>db := d\<rparr>))"

subsection \<open>Results\<close>

text \<open>\<open>result::empty\<close>: no result set, or one without rows.\<close>

definition result_empty :: "pgresult option \<Rightarrow> bool" where
  "result_empty r = (case r of None \<Rightarrow> True | Some x \<Rightarrow> pg_rows x = [])"

definition obtain_result :: "'db async \<Rightarrow> bool \<Rightarrow> ('db pipe, bool) prog" where
  "obtain_result apq expect_none = bnd (get_result apq) (\<lambda>r. case r of
       None \<Rightarrow> bnd have_pending (\<lambda>p.
         sq (whn (p \<and> \<not> expect_none)
              (bnd (gets m_first) (\<lambda>i. bnd (deref i) (\<lambda>(k, q).
                 sq (set_error_at k) (modify (\<lambda>w. w\<lparr>m_second := m_first w\<rparr>))))))
           (ret False))
     | Some res \<Rightarrow> bnd (gets m_queries) (\<lambda>qm. bnd (deref (begin_it qm)) (\<lambda>(b, q0).
         bnd have_pending (\<lambda>p.
           if \<not> p then sq (set_error_at b) (throw (Logic_error ''Got more results from pipeline than there were queries.''))
           else bnd (gets m_first) (\<lambda>i. bnd (deref i) (\<lambda>(k, q).
             if \<not> result_empty (q_res q) then pipe_internal_error ''Multiple results for one query.''
             else sq (upd_queries (set_result k (Some res))) (sq advance_first (ret True))))))))"

text \<open>\<open>check_status\<close> of a result that may be missing.\<close>

definition check_result :: "pgresult option \<Rightarrow> exn + unit" where
  "check_result r = (case r of None \<Rightarrow> Inl (Failure ''No result set given.'') | Some x \<Rightarrow> check_status x)"

fun is_sql_error :: "exn \<Rightarrow> bool" where
  "is_sql_error (Sql_error_class c s) = True"
| "is_sql_error (Feature_not_supported m) = True"
| "is_sql_error e = False"

text \<open>The value of the first field of a result.\<close>

definition first_field :: "pgresult \<Rightarrow> exn + cell" where
  "first_field r = (case pg_rows r of
       [] \<Rightarrow> Inl (Range_error ''Row number out of range.'')
     | row # _ \<Rightarrow> (case row of
         [] \<Rightarrow> Inl (Range_error ''Column index out of range: 0 in a result of 0 column(s).'')
       | c # _ \<Rightarrow> Inr c))"

text \<open>\<open>check_cast<int>\<close> of a number that is not negative, whose type has the name \<open>from_type\<close>.\<close>

definition check_cast_int :: "string \<Rightarrow> nat \<Rightarrow> string \<Rightarrow> exn + int" where
  "check_cast_int from_type v description = (if int v > 2 ^ 31 - 1
     then Inl (Range_error (''Overflow casting '' @ int_to_string (int v) @ '' from '' @ from_type @ '' to int: '' @ description))
     else Inr (int v))"

text \<open>The queries of a failed batch, one at a time; the list holds the keys up to the end of the batch.\<close>

fun replay :: "'db libpq \<Rightarrow> nat \<Rightarrow> int list \<Rightarrow> ('db pipe, unit) prog" where
  "replay pq t [] = ret ()"
| "replay pq t (k # ks) =
     sq (modify (\<lambda>w. w\<lparr>m_num_waiting := m_num_waiting w - 1\<rparr>))
     (bnd (deref (Some k)) (\<lambda>(_, q). bnd (tx_exec pq t (q_text q)) (\<lambda>r.
       sq (upd_queries (set_result k (Some r)))
       (sq (lift_exn (check_status r)) (sq advance_first (replay pq t ks))))))"

definition replay_failed :: "('db pipe, unit) prog" where
  "replay_failed = bnd (gets m_first) (\<lambda>i. bnd (deref i) (\<lambda>(thud, q).
     sq advance_first (sq (modify (\<lambda>w. w\<lparr>m_second := m_first w\<rparr>))
       (bnd (gets m_first) (\<lambda>j. set_error_at (case j of None \<Rightarrow> thud + 1 | Some k \<Rightarrow> k))))))"

definition obtain_dummy :: "'db libpq \<Rightarrow> 'db async \<Rightarrow> nat \<Rightarrow> ('db pipe, unit) prog" where
  "obtain_dummy pq apq t = bnd (get_result apq) (\<lambda>r.
     sq (modify (\<lambda>w. w\<lparr>m_dummy_pending := False\<rparr>))
     (case r of
        None \<Rightarrow> pipe_internal_error ''Pipeline got no result from backend when it expected one.''
      | Some R \<Rightarrow> (case check_status R of
          Inr _ \<Rightarrow>
            (if length (pg_rows R) > 1 then pipe_internal_error ''Unexpected result for dummy query in pipeline.''
             else bnd (lift_exn (first_field R)) (\<lambda>c.
               if (case c of None \<Rightarrow> [] | Some v \<Rightarrow> v) \<noteq> the_dummy_value
               then pipe_internal_error ''Dummy query in pipeline returned unexpected value.'' else ret ()))
        | Inl e \<Rightarrow>
            if \<not> is_sql_error e then throw e
            else bnd (gets (\<lambda>w. between (m_queries w) (m_first w) (m_second w))) (\<lambda>batch.
              sq (upd_queries (\<lambda>qm. foldr (\<lambda>k. set_result k (Some R)) batch qm))
              (bnd (gets m_second) (\<lambda>stop_it.
              sq (obtain_result apq True)
              (bnd (gets (\<lambda>w. between (m_queries w) (m_first w) stop_it)) (\<lambda>again.
              bnd (lift_exn (check_cast_int ''long'' (length again) ''pipeline obtain_dummy()'')) (\<lambda>n.
              sq (modify (\<lambda>w. w\<lparr>m_num_waiting := m_num_waiting w + n, m_second := m_first w\<rparr>))
              (sq (unregister_me t) (if again = [] then stop_with (Undefined Index_out_of_range)
                else try_catch (replay pq t again) (\<lambda>e. replay_failed))))))))))))"

text \<open>
  The loops take one more step than there are queries as fuel; every step but the last moves \<open>m_first\<close> on.
\<close>

fun further_loop :: "'db libpq \<Rightarrow> 'db async \<Rightarrow> nat \<Rightarrow> ('db pipe, unit) prog" where
  "further_loop pq apq 0 = ret ()"
| "further_loop pq apq (Suc n) = bnd (is_busy apq) (\<lambda>b. if b then ret ()
     else bnd (obtain_result apq False) (\<lambda>got. if \<not> got then ret ()
       else bnd (consume_input pq) (\<lambda>ok. if \<not> ok then throw Broken_connection else further_loop pq apq n)))"

definition get_further_available_results :: "'db libpq \<Rightarrow> 'db async \<Rightarrow> ('db pipe, unit) prog" where
  "get_further_available_results pq apq = bnd (gets (\<lambda>w. Suc (length (m_queries w)))) (further_loop pq apq)"

definition receive_if_available :: "'db libpq \<Rightarrow> 'db async \<Rightarrow> nat \<Rightarrow> ('db pipe, unit) prog" where
  "receive_if_available pq apq t = bnd (consume_input pq) (\<lambda>ok. if \<not> ok then throw Broken_connection
     else bnd (is_busy apq) (\<lambda>b. if b then ret ()
       else bnd (gets m_dummy_pending) (\<lambda>d. sq (whn d (obtain_dummy pq apq t))
         (bnd have_pending (\<lambda>p. whn p (get_further_available_results pq apq))))))"

fun receive_loop :: "'db async \<Rightarrow> iter \<Rightarrow> nat \<Rightarrow> ('db pipe, unit) prog" where
  "receive_loop apq stop_it 0 = ret ()"
| "receive_loop apq stop_it (Suc n) = bnd (obtain_result apq False) (\<lambda>got. if \<not> got then ret ()
     else bnd (gets m_first) (\<lambda>i. if i \<noteq> stop_it then receive_loop apq stop_it n else ret ()))"

definition receive :: "'db libpq \<Rightarrow> 'db async \<Rightarrow> nat \<Rightarrow> iter \<Rightarrow> ('db pipe, unit) prog" where
  "receive pq apq t stop_it = bnd (gets m_dummy_pending) (\<lambda>d. sq (whn d (obtain_dummy pq apq t))
     (sq (bnd (gets (\<lambda>w. Suc (length (m_queries w)))) (receive_loop apq stop_it))
       (bnd (gets m_first) (\<lambda>i. whn (i = stop_it) (get_further_available_results pq apq)))))"

subsection \<open>Operations\<close>

text \<open>\<open>separated_list\<close>.\<close>

fun separated_list :: "string \<Rightarrow> string list \<Rightarrow> string" where
  "separated_list sep [] = []"
| "separated_list sep [x] = x"
| "separated_list sep (x # xs) = x @ sep @ separated_list sep xs"

definition issue :: "'db libpq \<Rightarrow> 'db async \<Rightarrow> ('db pipe, unit) prog" where
  "issue pq apq = sq (obtain_result apq False) (bnd (gets m_error) (\<lambda>err. if err < qid_limit then ret ()
     else bnd (gets (\<lambda>w. (m_second w, from_it (m_queries w) (m_second w)))) (\<lambda>(oldest, batch).
       let cum = separated_list the_separator (map (q_text \<circ> snd) batch);
           num_issued = length batch;
           prepend_dummy = num_issued > 1 in
       sq (start_exec pq apq (if prepend_dummy then the_dummy_query @ cum else cum))
       (sq (modify (\<lambda>w. w\<lparr>m_dummy_pending := prepend_dummy, m_first := oldest, m_second := None\<rparr>))
       (bnd (lift_exn (check_cast_int ''unsigned long'' num_issued ''pipeline issue()'')) (\<lambda>n.
         modify (\<lambda>w. w\<lparr>m_num_waiting := m_num_waiting w - n\<rparr>)))))))"

definition generate_id :: "('db pipe, int) prog" where
  "generate_id = bnd (gets m_q_id) (\<lambda>i. if i = qid_limit then throw (Overflow_error ''Too many queries went through pipeline.'')
     else sq (modify (\<lambda>w. w\<lparr>m_q_id := i + 1\<rparr>)) (ret (i + 1)))"

text \<open>A new identifier is larger than the ones before, so its query is the last of the map.\<close>

definition pipe_insert :: "'db libpq \<Rightarrow> 'db async \<Rightarrow> nat \<Rightarrow> string \<Rightarrow> ('db pipe, int) prog" where
  "pipe_insert pq apq t q = sq (attach t) (bnd generate_id (\<lambda>qid.
     sq (upd_queries (\<lambda>qm. qm @ [(qid, \<lparr>q_text = q, q_res = None\<rparr>)]))
     (sq (modify (\<lambda>w. if m_second w = None
            then w\<lparr>m_second := Some qid, m_first := (if m_first w = None then Some qid else m_first w)\<rparr> else w))
     (sq (bnd (gets m_num_waiting) (\<lambda>n. if n = 2 ^ 31 - 1 then stop_with (Undefined Integer_overflow)
            else modify (\<lambda>w. w\<lparr>m_num_waiting := n + 1\<rparr>)))
     (bnd (gets (\<lambda>w. m_num_waiting w > m_retain w)) (\<lambda>full.
       sq (whn full
            (sq (bnd have_pending (\<lambda>p. whn p (receive_if_available pq apq t)))
                (bnd have_pending (\<lambda>p. whn (\<not> p) (issue pq apq)))))
          (ret qid)))))))"

definition pipe_complete :: "'db libpq \<Rightarrow> 'db async \<Rightarrow> nat \<Rightarrow> ('db pipe, unit) prog" where
  "pipe_complete pq apq t =
     sq (bnd have_pending (\<lambda>p. whn p (bnd (gets m_second) (receive pq apq t))))
     (sq (bnd (gets (\<lambda>w. m_num_waiting w \<noteq> 0 \<and> m_error w = qid_limit)) (\<lambda>more.
            whn more (sq (issue pq apq) (receive pq apq t None))))
         (detach t))"

definition pipe_flush :: "'db libpq \<Rightarrow> 'db async \<Rightarrow> nat \<Rightarrow> ('db pipe, unit) prog" where
  "pipe_flush pq apq t =
     sq (bnd (gets (\<lambda>w. m_queries w \<noteq> [])) (\<lambda>some. whn some
          (sq (bnd have_pending (\<lambda>p. whn p (bnd (gets m_second) (receive pq apq t))))
              (modify (\<lambda>w. w\<lparr>m_first := None, m_second := None, m_num_waiting := 0, m_dummy_pending := False, m_queries := []\<rparr>)))))
        (detach t)"

text \<open>\<open>cancel\<close>: one round for each pending query.\<close>

fun cancel_loop :: "'db async \<Rightarrow> nat \<Rightarrow> ('db pipe, unit) prog" where
  "cancel_loop apq 0 = ret ()"
| "cancel_loop apq (Suc n) = bnd have_pending (\<lambda>p. if \<not> p then ret ()
     else sq (cancel_query apq) (bnd (gets m_first) (\<lambda>i. bnd (deref i) (\<lambda>(k, q).
       sq advance_first (sq (upd_queries (filter (\<lambda>e. fst e \<noteq> k))) (cancel_loop apq n))))))"

definition pipe_cancel :: "'db async \<Rightarrow> ('db pipe, unit) prog" where
  "pipe_cancel apq = bnd (gets (\<lambda>w. Suc (length (m_queries w)))) (cancel_loop apq)"

definition pipe_destructor :: "'db async \<Rightarrow> nat \<Rightarrow> ('db pipe, unit) prog" where
  "pipe_destructor apq t = sq (try_catch (pipe_cancel apq) (\<lambda>e. ret ())) (detach t)"

definition is_finished :: "int \<Rightarrow> ('db pipe, bool) prog" where
  "is_finished q = (\<lambda>w. if q \<notin> fst ` set (m_queries w)
     then (Inl (Throw (Logic_error (''Requested status for unknown query '' @ [CHR 0x27] @ int_to_string q @ [CHR 0x27] @ ''.''))), w)
     else (Inr (case m_first w of None \<Rightarrow> True | Some k \<Rightarrow> q < k \<and> q < m_error w), w))"

text \<open>\<open>retrieve\<close> of an iterator; \<open>find\<close> gives the end for an identifier that is not there.\<close>

definition retrieve_it :: "'db libpq \<Rightarrow> 'db async \<Rightarrow> nat \<Rightarrow> iter \<Rightarrow> ('db pipe, int \<times> pgresult) prog" where
  "retrieve_it pq apq t i = (case i of
       None \<Rightarrow> throw (Logic_error ''Attempt to retrieve result for unknown query.'')
     | Some q \<Rightarrow>
       let earlier = bnd (gets m_error) (\<lambda>e. whn (q \<ge> e)
             (throw (Runtime_error ''Could not complete query in pipeline due to error in earlier query.''))) in
       sq earlier
       (sq (bnd (gets m_second) (\<lambda>s. whn (case s of None \<Rightarrow> False | Some k \<Rightarrow> q \<ge> k)
              (sq (bnd have_pending (\<lambda>p. whn p (receive pq apq t s)))
                  (bnd (gets m_error) (\<lambda>e. whn (e = qid_limit) (issue pq apq))))))
       (sq (bnd have_pending (\<lambda>p. whn p (bnd (gets m_first) (\<lambda>f. bnd (deref f) (\<lambda>(k, _).
              if q \<ge> k then bnd (gets (\<lambda>w. next_it (m_queries w) q)) (receive pq apq t)
              else receive_if_available pq apq t)))))
       (sq earlier
       (sq (bnd (gets (\<lambda>w. m_num_waiting w \<noteq> 0 \<and> m_second w = m_first w \<and> m_error w = qid_limit)) (\<lambda>more.
              whn more (issue pq apq)))
       (bnd (deref i) (\<lambda>(_, entry).
          sq (upd_queries (filter (\<lambda>e. fst e \<noteq> q)))
          (sq (lift_exn (check_result (q_res entry)))
              (case q_res entry of None \<Rightarrow> throw (Failure ''No result set given.'') | Some r \<Rightarrow> ret (q, r))))))))))"

definition find_it :: "queries \<Rightarrow> int \<Rightarrow> iter" where
  "find_it qm q = (if q \<in> fst ` set qm then Some q else None)"

definition retrieve :: "'db libpq \<Rightarrow> 'db async \<Rightarrow> nat \<Rightarrow> int \<Rightarrow> ('db pipe, int \<times> pgresult) prog" where
  "retrieve pq apq t q = bnd (gets (\<lambda>w. find_it (m_queries w) q)) (retrieve_it pq apq t)"

definition retrieve_oldest :: "'db libpq \<Rightarrow> 'db async \<Rightarrow> nat \<Rightarrow> ('db pipe, int \<times> pgresult) prog" where
  "retrieve_oldest pq apq t = bnd (gets m_queries) (\<lambda>qm. if qm = []
     then throw (Logic_error ''Attempt to retrieve result from empty pipeline.'') else retrieve_it pq apq t (begin_it qm))"

definition resume :: "'db libpq \<Rightarrow> 'db async \<Rightarrow> nat \<Rightarrow> ('db pipe, unit) prog" where
  "resume pq apq t =
     sq (bnd have_pending (\<lambda>p. whn p (receive_if_available pq apq t)))
     (bnd (gets (\<lambda>w. m_second w = m_first w \<and> m_num_waiting w \<noteq> 0)) (\<lambda>more.
        whn more (sq (issue pq apq) (receive_if_available pq apq t))))"

definition retain :: "'db libpq \<Rightarrow> 'db async \<Rightarrow> nat \<Rightarrow> int \<Rightarrow> ('db pipe, int) prog" where
  "retain pq apq t retain_max = (if retain_max < 0
     then throw (Range_error (''Attempt to make pipeline retain '' @ int_to_string retain_max @ '' queries.''))
     else bnd (gets m_retain) (\<lambda>oldvalue. sq (modify (\<lambda>w. w\<lparr>m_retain := retain_max\<rparr>))
       (sq (bnd (gets (\<lambda>w. m_num_waiting w \<ge> m_retain w)) (\<lambda>b. whn b (resume pq apq t)))
           (ret oldvalue))))"

end
