(* ===== verification/Pipeline_Order.thy ===== *)
theory Pipeline_Order
  imports Pqxx_Pipeline
begin

text \<open>
  What a pipeline promises: whatever the order in which queries are inserted and results are retrieved, every query
  is executed once, in the order of insertion, and every identifier gets the result of its own query.
\<close>

subsection \<open>A server that answers in order\<close>

text \<open>
  A back-end is libpq and the server behind it: the functions that are called, what executing one statement does to
  the data, and, for a state, the results that are waiting, whether a command is under way, and the data.
\<close>

record ('db, 'b) backend =
  be_pq :: "'db libpq"
  be_async :: "'db async"
  be_run :: "string \<Rightarrow> 'b \<Rightarrow> pgresult \<times> 'b"
  be_queue :: "'db \<Rightarrow> pgresult list"
  be_active :: "'db \<Rightarrow> bool"
  be_data :: "'db \<Rightarrow> 'b"

text \<open>Statements are executed in turn up to the first that fails.\<close>

fun run_all :: "(string \<Rightarrow> 'b \<Rightarrow> pgresult \<times> 'b) \<Rightarrow> string list \<Rightarrow> 'b \<Rightarrow> pgresult list \<times> 'b" where
  "run_all run [] s = ([], s)"
| "run_all run (q # qs) s = (let (r, s1) = run q s in
     if check_status r = Inr () then (let (rs, s2) = run_all run qs s1 in (r # rs, s2)) else ([r], s1))"

text \<open>A text of several statements is split at its semicolons; each but the first follows a blank.\<close>

fun split_semi :: "string \<Rightarrow> string list" where
  "split_semi [] = [[]]"
| "split_semi (c # s) = (if c = CHR '';'' then [] # split_semi s
     else (case split_semi s of [] \<Rightarrow> [[c]] | x # xs \<Rightarrow> (c # x) # xs))"

definition statements :: "string \<Rightarrow> string list" where
  "statements s = (case split_semi s of [] \<Rightarrow> [] | x # xs \<Rightarrow> x # map (drop 1) xs)"

definition in_order :: "('db, 'b) backend \<Rightarrow> bool" where
  "in_order B \<longleftrightarrow>
     (\<forall>d. let (r, d') = pq_get (be_async B) d in be_data B d' = be_data B d \<and>
        (case be_queue B d of
           [] \<Rightarrow> r = None \<and> be_queue B d' = [] \<and> \<not> be_active B d'
         | x # xs \<Rightarrow> r = Some x \<and> be_queue B d' = xs \<and> be_active B d' = be_active B d)) \<and>
     (\<forall>d s. \<not> be_active B d \<longrightarrow> be_queue B d = [] \<longrightarrow> (let (ok, d') = pq_send (be_async B) s d in
        ok \<and> be_active B d' \<and> (be_queue B d', be_data B d') = run_all (be_run B) (statements s) (be_data B d))) \<and>
     (\<forall>d. let (ok, d') = pq_consume (be_pq B) d in
        ok \<and> be_queue B d' = be_queue B d \<and> be_active B d' = be_active B d \<and> be_data B d' = be_data B d) \<and>
     (\<forall>s. \<exists>r. be_run B ''SELECT 1'' s = (r, s) \<and> check_status r = Inr () \<and> pg_rows r = [[Some ''1'']])"

lemma in_order_get:
  assumes "in_order B" "pq_get (be_async B) d = (r, d')"
  shows "be_data B d' = be_data B d"
    "be_queue B d = [] \<Longrightarrow> r = None \<and> be_queue B d' = [] \<and> \<not> be_active B d'"
    "be_queue B d = x # xs \<Longrightarrow> r = Some x \<and> be_queue B d' = xs \<and> be_active B d' = be_active B d"
  using assms unfolding in_order_def by (auto dest!: spec[of _ d])

lemma in_order_send:
  assumes "in_order B" "\<not> be_active B d" "be_queue B d = []" "pq_send (be_async B) s d = (ok, d')"
  shows "ok \<and> be_active B d' \<and> be_queue B d' = fst (run_all (be_run B) (statements s) (be_data B d))
    \<and> be_data B d' = snd (run_all (be_run B) (statements s) (be_data B d))"
proof -
  have "let (ok, d') = pq_send (be_async B) s d in
        ok \<and> be_active B d' \<and> (be_queue B d', be_data B d') = run_all (be_run B) (statements s) (be_data B d)"
    using assms(1-3) unfolding in_order_def by blast
  with assms(4) show ?thesis by (auto simp: prod_eq_iff)
qed

lemma in_order_consume:
  assumes "in_order B" "pq_consume (be_pq B) d = (ok, d')"
  shows "ok" "be_queue B d' = be_queue B d" "be_active B d' = be_active B d" "be_data B d' = be_data B d"
  using assms unfolding in_order_def by (auto dest!: spec[of _ d])

lemma in_order_dummy:
  assumes "in_order B"
  obtains r where "be_run B ''SELECT 1'' s = (r, s)" "check_status r = Inr ()" "pg_rows r = [[Some ''1'']]"
  using assms unfolding in_order_def by blast

subsection \<open>Batches\<close>

definition plain_query :: "string \<Rightarrow> bool" where
  "plain_query q \<longleftrightarrow> CHR '';'' \<notin> set q \<and> CHR 0x00 \<notin> set q"

lemma split_semi_plain: "CHR '';'' \<notin> set q \<Longrightarrow> split_semi q = [q]"
  by (induction q) auto

lemma split_semi_append: "CHR '';'' \<notin> set q \<Longrightarrow> split_semi (q @ CHR '';'' # s) = q # split_semi s"
  by (induction q) auto

lemma split_semi_nonempty [simp]: "split_semi s \<noteq> []"
  by (induction s) (auto split: list.split)

lemma split_semi_blank: "split_semi (CHR '' '' # s) = (CHR '' '' # hd (split_semi s)) # tl (split_semi s)"
  by (cases "split_semi s") simp_all

lemma split_semi_list:
  "qs \<noteq> [] \<Longrightarrow> list_all plain_query qs \<Longrightarrow>
     split_semi (separated_list the_separator qs) = hd qs # map ((#) (CHR '' '')) (tl qs)"
proof (induction "the_separator" qs rule: separated_list.induct)
  case (3 x y xs)
  then show ?case
    by (simp add: the_separator_def plain_query_def split_semi_append split_semi_blank)
qed (simp_all add: plain_query_def split_semi_plain)

lemma statements_list: "qs \<noteq> [] \<Longrightarrow> list_all plain_query qs \<Longrightarrow> statements (separated_list the_separator qs) = qs"
  by (cases qs) (simp_all add: statements_def split_semi_list comp_def)

lemma separated_list_Cons: "qs \<noteq> [] \<Longrightarrow> separated_list sep (x # qs) = x @ sep @ separated_list sep qs"
  by (cases qs) simp_all

lemma dummy_query_list: "qs \<noteq> [] \<Longrightarrow> the_dummy_query @ separated_list the_separator qs = separated_list the_separator (''SELECT 1'' # qs)"
  by (simp add: separated_list_Cons the_dummy_query_def the_separator_def)

lemma c_str_plain: "CHR 0x00 \<notin> set s \<Longrightarrow> c_str s = s"
  by (auto simp: c_str_def takeWhile_eq_all_conv)

lemma list_no_nul: "list_all plain_query qs \<Longrightarrow> CHR 0x00 \<notin> set (separated_list the_separator qs)"
  by (induction "the_separator" qs rule: separated_list.induct) (auto simp: plain_query_def the_separator_def)

lemma plain_dummy: "plain_query ''SELECT 1''"
  by (simp add: plain_query_def)

text \<open>All of the statements succeed.\<close>

definition healthy :: "(string \<Rightarrow> 'b \<Rightarrow> pgresult \<times> 'b) \<Rightarrow> string list \<Rightarrow> 'b \<Rightarrow> bool" where
  "healthy run qs s \<longleftrightarrow> list_all (\<lambda>r. check_status r = Inr ()) (fst (run_all run qs s))"

lemma run_all_append:
  "healthy run xs s \<Longrightarrow> run_all run (xs @ ys) s =
     (fst (run_all run xs s) @ fst (run_all run ys (snd (run_all run xs s))), snd (run_all run ys (snd (run_all run xs s))))"
proof (induction xs arbitrary: s)
  case (Cons x xs)
  obtain r s1 where r: "run x s = (r, s1)" by fastforce
  obtain rs s2 where rs: "run_all run xs s1 = (rs, s2)" by fastforce
  have ok: "check_status r = Inr ()" using Cons.prems r rs by (auto simp: healthy_def Let_def split: if_splits)
  with Cons.prems r rs have "healthy run xs s1" by (simp add: healthy_def)
  from Cons.IH[OF this] show ?case using r rs ok by (simp add: Let_def split: prod.split)
qed simp

lemma run_all_length: "healthy run qs s \<Longrightarrow> length (fst (run_all run qs s)) = length qs"
proof (induction qs arbitrary: s)
  case (Cons x xs)
  obtain r s1 where r: "run x s = (r, s1)" by fastforce
  obtain rs s2 where rs: "run_all run xs s1 = (rs, s2)" by fastforce
  have ok: "check_status r = Inr ()" using Cons.prems r rs by (auto simp: healthy_def Let_def split: if_splits)
  with Cons.prems r rs have "healthy run xs s1" by (simp add: healthy_def)
  from Cons.IH[OF this] show ?case using r rs ok by simp
qed simp

lemma healthy_append: "healthy run (xs @ ys) s \<Longrightarrow> healthy run xs s"
proof (induction xs arbitrary: s)
  case (Cons x xs)
  obtain r s1 where r: "run x s = (r, s1)" by fastforce
  obtain rs s2 where rs: "run_all run (xs @ ys) s1 = (rs, s2)" by fastforce
  have ok: "check_status r = Inr ()" using Cons.prems r rs by (auto simp: healthy_def Let_def split: if_splits)
  with Cons.prems r rs have "healthy run (xs @ ys) s1" by (simp add: healthy_def)
  from Cons.IH[OF this] show ?case using r ok by (auto simp: healthy_def Let_def split: prod.split)
qed (simp add: healthy_def)

lemma healthy_rest: "healthy run (xs @ ys) s \<Longrightarrow> healthy run ys (snd (run_all run xs s))"
  using run_all_append[of run xs s ys] healthy_append[of run xs ys s] by (simp add: healthy_def)

text \<open>The results of the first queries do not depend on later ones.\<close>

abbreviation answers :: "('db, 'b) backend \<Rightarrow> string list \<Rightarrow> 'b \<Rightarrow> pgresult list" where
  "answers B qs s0 \<equiv> fst (run_all (be_run B) qs s0)"

lemma answers_take:
  assumes "healthy (be_run B) qs s0" "k \<le> length qs"
  shows "answers B (take k qs) s0 = take k (answers B qs s0)"
proof -
  have h: "healthy (be_run B) (take k qs) s0" using assms(1) healthy_append[of "be_run B" "take k qs" "drop k qs" s0] by simp
  have "answers B qs s0 = answers B (take k qs) s0 @ answers B (drop k qs) (snd (run_all (be_run B) (take k qs) s0))"
    using run_all_append[OF h, of "drop k qs"] by simp
  moreover have "length (answers B (take k qs) s0) = k" using run_all_length[OF h] assms(2) by simp
  ultimately show ?thesis by simp
qed

text \<open>Executing the queries from position \<open>i\<close> on after the ones before it.\<close>

lemma run_segment:
  assumes "healthy (be_run B) qs s0" "i \<le> j" "j \<le> length qs"
  shows "run_all (be_run B) (drop i (take j qs)) (snd (run_all (be_run B) (take i qs) s0)) =
    (drop i (take j (answers B qs s0)), snd (run_all (be_run B) (take j qs) s0))"
proof -
  have hj: "healthy (be_run B) (take j qs) s0" using assms(1) healthy_append[of "be_run B" "take j qs" "drop j qs" s0] by simp
  have e: "take j qs = take i qs @ drop i (take j qs)" using assms(2) by (metis append_take_drop_id min.absorb1 take_take)
  have hi: "healthy (be_run B) (take i qs) s0" using hj e healthy_append[of "be_run B" "take i qs" "drop i (take j qs)" s0] by simp
  note r = run_all_append[OF hi, of "drop i (take j qs)", folded e]
  have "take j (answers B qs s0) = take i (answers B qs s0) @ answers B (drop i (take j qs)) (snd (run_all (be_run B) (take i qs) s0))"
    using r answers_take[OF assms(1), of j] answers_take[OF assms(1), of i] assms(2,3) by simp
  moreover have "length (take i (answers B qs s0)) = i" using run_all_length[OF assms(1)] assms(2,3) by simp
  ultimately have "drop i (take j (answers B qs s0)) = answers B (drop i (take j qs)) (snd (run_all (be_run B) (take i qs) s0))"
    by (metis append_eq_conv_conj)
  with r show ?thesis by (simp add: prod_eq_iff)
qed

subsection \<open>The queries of a pipeline\<close>

text \<open>
  Queries are numbered from 1.  \<open>K\<close> lists the identifiers that are still in the map; those below \<open>f\<close> have their
  results.
\<close>

definition it :: "nat \<Rightarrow> nat \<Rightarrow> iter" where
  "it n k = (if k \<le> n then Some (int k) else None)"

definition entry :: "string list \<Rightarrow> pgresult list \<Rightarrow> nat \<Rightarrow> nat \<Rightarrow> int \<times> query" where
  "entry qs ans f k = (int k, \<lparr>q_text = qs ! (k - 1), q_res = (if k < f then Some (ans ! (k - 1)) else None)\<rparr>)"

definition kept :: "nat \<Rightarrow> nat \<Rightarrow> nat list \<Rightarrow> bool" where
  "kept n f K \<longleftrightarrow> sorted_wrt (<) K \<and> set K \<subseteq> {1..n} \<and> {f..n} \<subseteq> set K"

lemma entry_simps [simp]:
  "fst (entry qs ans f k) = int k" "q_text (snd (entry qs ans f k)) = qs ! (k - 1)"
  "q_res (snd (entry qs ans f k)) = (if k < f then Some (ans ! (k - 1)) else None)"
  by (simp_all add: entry_def)

lemma it_inject: "k \<le> n + 1 \<Longrightarrow> l \<le> n + 1 \<Longrightarrow> it n k = it n l \<longleftrightarrow> k = l"
  by (auto simp: it_def)

lemma kept_distinct: "kept n f K \<Longrightarrow> distinct K"
  by (simp add: kept_def strict_sorted_iff)

lemma sorted_dropWhile_filter:
  assumes "sorted_wrt (<) (K :: nat list)"
  shows "dropWhile (\<lambda>k. k < s) K = filter (\<lambda>k. s \<le> k) K" "dropWhile (\<lambda>k. k \<le> s) K = filter (\<lambda>k. s < k) K"
proof -
  have "filter P (k # K') = k # K'" if "P k" "\<And>j. k < j \<Longrightarrow> P j" "sorted_wrt (<) (k # K')" for P and k :: nat and K'
    using that by (intro filter_True) auto
  note all = this
  show "dropWhile (\<lambda>k. k < s) K = filter (\<lambda>k. s \<le> k) K"
    using assms
  proof (induction K)
    case (Cons k K)
    then show ?case using all[of "\<lambda>k. s \<le> k" k K] by (cases "k < s") auto
  qed simp
  show "dropWhile (\<lambda>k. k \<le> s) K = filter (\<lambda>k. s < k) K"
    using assms
  proof (induction K)
    case (Cons k K)
    then show ?case using all[of "\<lambda>k. s < k" k K] by (cases "k \<le> s") auto
  qed simp
qed

lemma filter_kept:
  assumes "kept n f K" "f \<le> s"
  shows "filter (\<lambda>k. s \<le> k) K = [s..<Suc n]"
proof (rule sorted_distinct_set_unique)
  show "sorted (filter (\<lambda>k. s \<le> k) K)" using assms(1) by (simp add: kept_def strict_sorted_iff sorted_wrt_filter)
  show "set (filter (\<lambda>k. s \<le> k) K) = set [s..<Suc n]" using assms by (auto simp: kept_def)
qed (use kept_distinct[OF assms(1)] in \<open>simp_all del: upt_Suc\<close>)

lemma from_it_entries:
  assumes "kept n f K" "f \<le> s"
  shows "from_it (map (entry qs ans g) K) (it n s) = map (entry qs ans g) [s..<Suc n]"
proof (cases "s \<le> n")
  case True
  have "dropWhile (\<lambda>e. fst e < int s) (map (entry qs ans g) K) = map (entry qs ans g) (dropWhile (\<lambda>k. k < s) K)"
    by (simp add: dropWhile_map comp_def)
  also have "dropWhile (\<lambda>k. k < s) K = [s..<Suc n]"
    using assms filter_kept[OF assms] by (simp add: sorted_dropWhile_filter kept_def)
  finally show ?thesis using True by (simp add: from_it_def it_def)
qed (simp add: from_it_def it_def)

lemma next_it_entries:
  assumes "kept n f K" "f \<le> s"
  shows "next_it (map (entry qs ans g) K) (int s) = it n (s + 1)"
proof -
  have "dropWhile (\<lambda>e. fst e \<le> int s) (map (entry qs ans g) K) = map (entry qs ans g) (dropWhile (\<lambda>k. k \<le> s) K)"
    by (simp add: dropWhile_map comp_def)
  also have "dropWhile (\<lambda>k. k \<le> s) K = filter (\<lambda>k. s < k) K" using assms(1) by (simp add: sorted_dropWhile_filter kept_def)
  also have "\<dots> = [s + 1..<Suc n]" using filter_kept[OF assms(1), of "s + 1"] assms(2) by (simp add: Suc_le_eq)
  finally have e: "dropWhile (\<lambda>e. fst e \<le> int s) (map (entry qs ans g) K) = map (entry qs ans g) [s + 1..<Suc n]" .
  show ?thesis by (cases "s + 1 \<le> n") (simp_all add: next_it_def begin_it_def it_def e upt_conv_Cons del: upt_Suc)
qed

lemma map_of_entries: "kept n f K \<Longrightarrow> k \<in> set K \<Longrightarrow> map_of (map (entry qs ans g) K) (int k) = Some (snd (entry qs ans g k))"
proof (induction K)
  case (Cons j K)
  have "map_of (map (entry qs ans g) K') (int k) = (if k \<in> set K' then Some (snd (entry qs ans g k)) else None)" for K'
    by (induction K') (auto simp: entry_def)
  with Cons.prems show ?case by (simp only: map_of.simps list.map) (auto simp: entry_def)
qed simp

lemma set_result_entries:
  assumes "kept n f K"
  shows "set_result (int f) (Some (ans ! (f - 1))) (map (entry qs ans f) K) = map (entry qs ans (f + 1)) K"
  by (auto simp: set_result_def entry_def)

lemma begin_entries: "kept n f K \<Longrightarrow> f \<le> n \<Longrightarrow> \<exists>b \<in> set K. begin_it (map (entry qs ans g) K) = Some (int b)"
  by (cases K) (auto simp: begin_it_def kept_def)

lemma kept_mono: "kept n f K \<Longrightarrow> f \<le> g \<Longrightarrow> kept n g K"
  by (auto simp: kept_def)

lemma kept_length: "kept n f K \<Longrightarrow> n + 1 - f \<le> length K"
  using card_mono[of "set K" "{f..n}"] distinct_card[of K] by (auto simp: kept_def strict_sorted_iff)

lemma kept_insert: "kept n f K \<Longrightarrow> f \<le> n + 1 \<Longrightarrow> kept (n + 1) f (K @ [n + 1])"
  by (auto simp: kept_def sorted_wrt_append le_Suc_eq)

lemma kept_remove: "kept n f K \<Longrightarrow> k < f \<Longrightarrow> kept n f (filter (\<lambda>j. j \<noteq> k) K)"
  by (auto simp: kept_def sorted_wrt_filter)

subsection \<open>The invariant\<close>

text \<open>
  With \<open>n\<close> queries inserted, those below \<open>f\<close> are done, those from \<open>f\<close> to \<open>s - 1\<close> are with the server, and those from
  \<open>s\<close> on are waiting.
\<close>

definition pointers :: "nat \<Rightarrow> nat \<Rightarrow> nat \<Rightarrow> 'db pipe \<Rightarrow> bool" where
  "pointers n f s w \<longleftrightarrow> m_first w = it n f \<and> m_second w = it n s \<and> m_num_waiting w = int (n + 1 - s)
     \<and> m_q_id w = int n \<and> m_error w = qid_limit \<and> 0 \<le> m_retain w"

definition dummy_answer :: "bool \<Rightarrow> pgresult list \<Rightarrow> bool" where
  "dummy_answer pending rs \<longleftrightarrow> (if pending then (\<exists>r. rs = [r] \<and> check_status r = Inr () \<and> pg_rows r = [[Some ''1'']]) else rs = [])"

definition server_ok :: "('db, 'b) backend \<Rightarrow> string list \<Rightarrow> 'b \<Rightarrow> nat \<Rightarrow> nat \<Rightarrow> bool \<Rightarrow> 'db \<Rightarrow> bool" where
  "server_ok B qs s0 f s pending d \<longleftrightarrow>
     (\<exists>rs. dummy_answer pending rs \<and> be_queue B d = rs @ drop (f - 1) (take (s - 1) (answers B qs s0)))
     \<and> be_data B d = snd (run_all (be_run B) (take (s - 1) qs) s0) \<and> (f < s \<longrightarrow> be_active B d)"

definition focus_ok :: "nat \<Rightarrow> 'db pipe \<Rightarrow> bool" where
  "focus_ok t w \<longleftrightarrow> t < length (txs w)
     \<and> m_focus (txs w ! t) = (if pipe_registered w then Some (''pipeline'', pipe_name w) else None)"

definition setting :: "('db, 'b) backend \<Rightarrow> string list \<Rightarrow> 'b \<Rightarrow> bool" where
  "setting B qs s0 \<longleftrightarrow> in_order B \<and> healthy (be_run B) qs s0 \<and> list_all plain_query qs \<and> int (length qs) < 2 ^ 31"

definition pipe_inv :: "('db, 'b) backend \<Rightarrow> nat \<Rightarrow> string list \<Rightarrow> 'b \<Rightarrow> nat list \<Rightarrow> nat \<Rightarrow> nat \<Rightarrow> 'db pipe \<Rightarrow> bool" where
  "pipe_inv B t qs s0 K f s w \<longleftrightarrow> 1 \<le> f \<and> f \<le> s \<and> s \<le> length qs + 1 \<and> kept (length qs) f K
     \<and> m_queries w = map (entry qs (answers B qs s0) f) K \<and> pointers (length qs) f s w
     \<and> (m_dummy_pending w \<longrightarrow> f < s) \<and> server_ok B qs s0 f s (m_dummy_pending w) (db w) \<and> focus_ok t w"

lemmas inv_defs = pipe_inv_def pointers_def server_ok_def dummy_answer_def

lemma setting_length: "setting B qs s0 \<Longrightarrow> length (answers B qs s0) = length qs"
  by (simp add: setting_def run_all_length)

lemma deref_app: "deref (Some k) w = (case map_of (m_queries w) k of None \<Rightarrow> (Inl (Undefined Index_out_of_range), w) | Some q \<Rightarrow> (Inr (k, q), w))"
  by (simp add: deref_def prog_simps split: option.split)

lemma pending_app: "have_pending w = (Inr (m_second w \<noteq> m_first w), w)"
  by (simp add: have_pending_def prog_simps)

lemma inv_pending: "pipe_inv B t qs s0 K f s w \<Longrightarrow> m_second w \<noteq> m_first w \<longleftrightarrow> f < s"
  by (auto simp: pipe_inv_def pointers_def it_inject)

lemma queue_drop: "f < s \<Longrightarrow> s \<le> length xs + 1 \<Longrightarrow> 1 \<le> f \<Longrightarrow> drop (f - 1) (take (s - 1) xs) = xs ! (f - 1) # drop f (take (s - 1) xs)"
  using Cons_nth_drop_Suc[of "f - 1" "take (s - 1) xs"] by simp

lemma obtain_result_more:
  assumes S: "setting B qs s0" and I: "pipe_inv B t qs s0 K f s w" and "f < s" "\<not> m_dummy_pending w"
  shows "\<exists>w'. obtain_result (be_async B) ex w = (Inr True, w') \<and> pipe_inv B t qs s0 K (f + 1) s w' \<and> \<not> m_dummy_pending w'"
proof -
  let ?a = "answers B qs s0"
  have n: "f \<le> length qs" "1 \<le> f" "s \<le> length ?a + 1" using I assms(3) setting_length[OF S] by (auto simp: pipe_inv_def)
  have q: "be_queue B (db w) = ?a ! (f - 1) # drop f (take (s - 1) ?a)"
    using I assms(3,4) queue_drop[OF assms(3) n(3,2)] by (auto simp: inv_defs)
  obtain r d where g: "pq_get (be_async B) (db w) = (r, d)" by fastforce
  have B: "in_order B" using S by (simp add: setting_def)
  from in_order_get(1)[OF B g] in_order_get(3)[OF B g q]
  have d: "r = Some (?a ! (f - 1))" "be_queue B d = drop f (take (s - 1) ?a)" "be_active B d = be_active B (db w)" "be_data B d = be_data B (db w)"
    by auto
  have k: "kept (length qs) f K" and m: "m_queries w = map (entry qs ?a f) K" and i: "m_first w = it (length qs) f"
    using I by (auto simp: inv_defs)
  have f: "f \<in> set K" "m_first w = Some (int f)" using k n(1) i by (auto simp: kept_def it_def)
  obtain b where b: "b \<in> set K" "begin_it (m_queries w) = Some (int b)" using begin_entries[OF k n(1), of qs ?a f] by (auto simp: m)
  have p: "m_second w \<noteq> m_first w" using inv_pending[OF I] assms(3) by simp
  let ?w = "w\<lparr>db := d, m_queries := map (entry qs ?a (f + 1)) K, m_first := it (length qs) (f + 1)\<rparr>"
  have "obtain_result (be_async B) ex w = (Inr True, ?w)"
    using p f(2) d(1) map_of_entries[OF k b(1), of qs ?a f] map_of_entries[OF k f(1), of qs ?a f]
      map_of_entries[OF k f(1), of qs ?a "f + 1"]
      set_result_entries[OF k, of ?a qs] next_it_entries[OF k, of f qs ?a "f + 1"]
    by (simp add: obtain_result_def get_result_def g prog_simps pending_app deref_app b(2)[unfolded m] m result_empty_def
        upd_queries_def advance_first_def)
  moreover have "pipe_inv B t qs s0 K (f + 1) s ?w"
    using I assms(3,4) n d kept_mono[OF k, of "f + 1"] by (auto simp: inv_defs focus_ok_def)
  ultimately show ?thesis using assms(4) by simp
qed

lemma obtain_result_none:
  assumes S: "setting B qs s0" and I: "pipe_inv B t qs s0 K s s w"
  shows "\<exists>w'. obtain_result (be_async B) ex w = (Inr False, w') \<and> pipe_inv B t qs s0 K s s w' \<and> \<not> be_active B (db w') \<and> be_queue B (db w') = []"
proof -
  obtain r d where g: "pq_get (be_async B) (db w) = (r, d)" by fastforce
  have q: "be_queue B (db w) = []" using I by (auto simp: inv_defs)
  have B: "in_order B" using S by (simp add: setting_def)
  from in_order_get(1)[OF B g] in_order_get(2)[OF B g q]
  have d: "r = None" "be_queue B d = []" "\<not> be_active B d" "be_data B d = be_data B (db w)" by auto
  have p: "\<not> (m_second w \<noteq> m_first w)" using inv_pending[OF I] by simp
  then have "obtain_result (be_async B) ex w = (Inr False, w\<lparr>db := d\<rparr>)"
    by (simp add: obtain_result_def get_result_def g d(1) prog_simps pending_app)
  moreover have "pipe_inv B t qs s0 K s s (w\<lparr>db := d\<rparr>)" using I d by (auto simp: inv_defs focus_ok_def)
  ultimately show ?thesis using d by simp
qed

lemma obtain_dummy_ok:
  assumes S: "setting B qs s0" and I: "pipe_inv B t qs s0 K f s w" and D: "m_dummy_pending w"
  shows "\<exists>w'. obtain_dummy (be_pq B) (be_async B) t w = (Inr (), w') \<and> pipe_inv B t qs s0 K f s w' \<and> \<not> m_dummy_pending w'"
proof -
  obtain x xs where q: "be_queue B (db w) = x # xs" "xs = drop (f - 1) (take (s - 1) (answers B qs s0))"
    "check_status x = Inr ()" "pg_rows x = [[Some ''1'']]" using I D by (auto simp: inv_defs)
  obtain r d where g: "pq_get (be_async B) (db w) = (r, d)" by fastforce
  have B: "in_order B" using S by (simp add: setting_def)
  from in_order_get(1)[OF B g] in_order_get(3)[OF B g q(1)]
  have d: "r = Some x" "be_queue B d = xs" "be_active B d = be_active B (db w)" "be_data B d = be_data B (db w)" by auto
  have "obtain_dummy (be_pq B) (be_async B) t w = (Inr (), w\<lparr>db := d, m_dummy_pending := False\<rparr>)"
    using q by (simp add: obtain_dummy_def get_result_def g d(1) prog_simps first_field_def lift_exn_def the_dummy_value_def)
  moreover have "pipe_inv B t qs s0 K f s (w\<lparr>db := d, m_dummy_pending := False\<rparr>)"
    using I D d q(2) by (auto simp: inv_defs focus_ok_def)
  ultimately show ?thesis by simp
qed

lemma consume_ok:
  assumes S: "setting B qs s0" and I: "pipe_inv B t qs s0 K f s w"
  shows "\<exists>w'. consume_input (be_pq B) w = (Inr True, w') \<and> pipe_inv B t qs s0 K f s w' \<and> m_dummy_pending w' = m_dummy_pending w"
proof -
  obtain ok d where c: "pq_consume (be_pq B) (db w) = (ok, d)" by fastforce
  have B: "in_order B" using S by (simp add: setting_def)
  note c' = in_order_consume[OF B c]
  have "pipe_inv B t qs s0 K f s (w\<lparr>db := d\<rparr>)" using I c' by (auto simp: inv_defs focus_ok_def)
  then show ?thesis using c c'(1) by (simp add: consume_input_def)
qed

lemma further_loop_ok:
  assumes S: "setting B qs s0"
  shows "pipe_inv B t qs s0 K f s w \<Longrightarrow> \<not> m_dummy_pending w \<Longrightarrow>
    \<exists>f' w'. f \<le> f' \<and> further_loop (be_pq B) (be_async B) n w = (Inr (), w') \<and> pipe_inv B t qs s0 K f' s w' \<and> \<not> m_dummy_pending w'"
proof (induction n arbitrary: f w)
  case 0
  then show ?case by (auto simp: prog_simps)
next
  case (Suc n)
  show ?case
  proof (cases "pq_busy (be_async B) (db w)")
    case True
    with Suc.prems show ?thesis by (auto simp: is_busy_def prog_simps)
  next
    case False
    have "f \<le> s" using Suc.prems(1) by (simp add: pipe_inv_def)
    then consider (more) "f < s" | (none) "f = s" by linarith
    then show ?thesis
    proof cases
      case more
      obtain w1 where w1: "obtain_result (be_async B) False w = (Inr True, w1)" "pipe_inv B t qs s0 K (f + 1) s w1" "\<not> m_dummy_pending w1"
        using obtain_result_more[OF S Suc.prems(1) more Suc.prems(2)] by blast
      obtain w2 where w2: "consume_input (be_pq B) w1 = (Inr True, w2)" "pipe_inv B t qs s0 K (f + 1) s w2" "\<not> m_dummy_pending w2"
        using consume_ok[OF S w1(2)] w1(3) by auto
      obtain f' w3 where "f + 1 \<le> f'" "further_loop (be_pq B) (be_async B) n w2 = (Inr (), w3)" "pipe_inv B t qs s0 K f' s w3" "\<not> m_dummy_pending w3"
        using Suc.IH[OF w2(2,3)] by blast
      then show ?thesis using False w1(1) w2(1)
        by (intro exI[of _ f'] exI[of _ w3]) (simp add: is_busy_def prog_simps)
    next
      case none
      obtain w1 where w1: "obtain_result (be_async B) False w = (Inr False, w1)" "pipe_inv B t qs s0 K s s w1"
        using obtain_result_none[OF S, of t K s w False] Suc.prems(1) none by blast
      then have "\<not> m_dummy_pending w1" by (auto simp: pipe_inv_def)
      with w1 none False show ?thesis
        by (intro exI[of _ s] exI[of _ w1]) (simp add: is_busy_def prog_simps)
    qed
  qed
qed

lemma get_further_ok:
  assumes "setting B qs s0" "pipe_inv B t qs s0 K f s w" "\<not> m_dummy_pending w"
  shows "\<exists>f' w'. f \<le> f' \<and> get_further_available_results (be_pq B) (be_async B) w = (Inr (), w') \<and> pipe_inv B t qs s0 K f' s w'"
  using further_loop_ok[OF assms] by (fastforce simp: get_further_available_results_def prog_simps simp del: further_loop.simps)

lemma dummy_first_ok:
  assumes "setting B qs s0" "pipe_inv B t qs s0 K f s w"
  shows "\<exists>w'. whn (m_dummy_pending w) (obtain_dummy (be_pq B) (be_async B) t) w = (Inr (), w') \<and> pipe_inv B t qs s0 K f s w'
    \<and> \<not> m_dummy_pending w'"
  using obtain_dummy_ok[OF assms] assms(2) by (cases "m_dummy_pending w") (auto simp: prog_simps)

lemma receive_if_available_ok:
  assumes S: "setting B qs s0" and I: "pipe_inv B t qs s0 K f s w"
  shows "\<exists>f' w'. f \<le> f' \<and> receive_if_available (be_pq B) (be_async B) t w = (Inr (), w') \<and> pipe_inv B t qs s0 K f' s w'"
proof -
  obtain w1 where w1: "consume_input (be_pq B) w = (Inr True, w1)" "pipe_inv B t qs s0 K f s w1"
    using consume_ok[OF S I] by blast
  obtain w2 where w2: "whn (m_dummy_pending w1) (obtain_dummy (be_pq B) (be_async B) t) w1 = (Inr (), w2)" "pipe_inv B t qs s0 K f s w2"
    "\<not> m_dummy_pending w2" using dummy_first_ok[OF S w1(2)] by blast
  obtain f' w3 where w3: "f \<le> f'" "get_further_available_results (be_pq B) (be_async B) w2 = (Inr (), w3)" "pipe_inv B t qs s0 K f' s w3"
    using get_further_ok[OF S w2(2,3)] by blast
  show ?thesis
  proof (cases "pq_busy (be_async B) (db w1)")
    case True
    with w1 show ?thesis by (auto simp: receive_if_available_def is_busy_def prog_simps)
  next
    case False
    show ?thesis
    proof (cases "f < s")
      case True
      with False w1 w2 w3 inv_pending[OF w2(2)] show ?thesis
        by (intro exI[of _ f'] exI[of _ w3]) (simp add: receive_if_available_def is_busy_def pending_app bnd_app sq_app gets_app whn_app)
    next
      case idle: False
      with False w1 w2 inv_pending[OF w2(2)] show ?thesis
        by (intro exI[of _ f] exI[of _ w2]) (simp add: receive_if_available_def is_busy_def pending_app bnd_app sq_app gets_app whn_app)
    qed
  qed
qed

lemma receive_loop_ok:
  assumes S: "setting B qs s0"
  shows "pipe_inv B t qs s0 K f s w \<Longrightarrow> \<not> m_dummy_pending w \<Longrightarrow> f < k \<Longrightarrow> k \<le> s \<Longrightarrow> k - f \<le> m \<Longrightarrow>
    \<exists>w'. receive_loop (be_async B) (it (length qs) k) m w = (Inr (), w') \<and> pipe_inv B t qs s0 K k s w' \<and> \<not> m_dummy_pending w'"
proof (induction m arbitrary: f w)
  case (Suc m)
  obtain w1 where w1: "obtain_result (be_async B) False w = (Inr True, w1)" "pipe_inv B t qs s0 K (f + 1) s w1" "\<not> m_dummy_pending w1"
    using obtain_result_more[OF S Suc.prems(1) _ Suc.prems(2)] Suc.prems(3,4) by (meson order_less_le_trans)
  have i: "m_first w1 = it (length qs) (f + 1)" and b: "s \<le> length qs + 1" using w1(2) by (auto simp: inv_defs)
  have e: "m_first w1 = it (length qs) k \<longleftrightarrow> f + 1 = k" using it_inject[of "f + 1" "length qs" k] i b Suc.prems(3,4) by simp
  show ?case
  proof (cases "f + 1 = k")
    case True
    with w1 e show ?thesis by (auto simp: prog_simps)
  next
    case False
    then obtain w2 where "receive_loop (be_async B) (it (length qs) k) m w1 = (Inr (), w2)" "pipe_inv B t qs s0 K k s w2" "\<not> m_dummy_pending w2"
      using Suc.IH[OF w1(2,3)] Suc.prems(3-5) by fastforce
    with w1(1) e False show ?thesis by (simp add: prog_simps)
  qed
qed simp

lemma receive_ok:
  assumes S: "setting B qs s0" and I: "pipe_inv B t qs s0 K f s w" and k: "f < k" "k \<le> s"
  shows "\<exists>f' w'. k \<le> f' \<and> receive (be_pq B) (be_async B) t (it (length qs) k) w = (Inr (), w') \<and> pipe_inv B t qs s0 K f' s w'"
proof -
  obtain w1 where w1: "whn (m_dummy_pending w) (obtain_dummy (be_pq B) (be_async B) t) w = (Inr (), w1)" "pipe_inv B t qs s0 K f s w1"
    "\<not> m_dummy_pending w1" using dummy_first_ok[OF S I] by blast
  have "k - f \<le> Suc (length (m_queries w1))" using w1(2) k kept_length[of "length qs" f K] by (auto simp: pipe_inv_def)
  then obtain w2 where w2: "receive_loop (be_async B) (it (length qs) k) (Suc (length (m_queries w1))) w1 = (Inr (), w2)"
    "pipe_inv B t qs s0 K k s w2" "\<not> m_dummy_pending w2" using receive_loop_ok[OF S w1(2,3) k] by blast
  obtain f' w3 where w3: "k \<le> f'" "get_further_available_results (be_pq B) (be_async B) w2 = (Inr (), w3)" "pipe_inv B t qs s0 K f' s w3"
    using get_further_ok[OF S w2(2,3)] by blast
  have "m_first w2 = it (length qs) k" using w2(2) by (simp add: inv_defs)
  with w1(1) w2(1) w3 show ?thesis
    by (intro exI[of _ f'] exI[of _ w3]) (simp add: receive_def bnd_app sq_app gets_app whn_app del: receive_loop.simps)
qed

lemma issue_app:
  assumes "obtain_result apq False w = (Inr b, w1)" "m_error w1 = qid_limit" "map (q_text \<circ> snd) (from_it (m_queries w1) (m_second w1)) = l"
    "pq_send apq (c_str (if length l > 1 then the_dummy_query @ separated_list the_separator l else separated_list the_separator l)) (db w1) = (True, d)"
    "int (length l) < 2 ^ 31"
  shows "issue pq apq w = (Inr (), w1\<lparr>db := d, m_dummy_pending := (length l > 1), m_first := m_second w1, m_second := None,
    m_num_waiting := m_num_waiting w1 - int (length l)\<rparr>)"
proof -
  have "length (from_it (m_queries w1) (m_second w1)) = length l" using arg_cong[OF assms(3), of length] by simp
  with assms show ?thesis
    by (simp add: issue_def prog_simps Let_def start_exec_def check_cast_int_def lift_exn_def split del: if_split cong del: if_weak_cong)
qed

text \<open>\<open>issue\<close> sends every waiting query, with the dummy query before them when there are several.\<close>

lemma issue_ok:
  assumes S: "setting B qs s0" and I: "pipe_inv B t qs s0 K s s w" and n: "s \<le> length qs"
  shows "\<exists>w'. issue (be_pq B) (be_async B) w = (Inr (), w') \<and> pipe_inv B t qs s0 K s (length qs + 1) w'"
proof -
  let ?a = "answers B qs s0" and ?n = "length qs" and ?l = "drop (s - 1) qs"
  have B: "in_order B" and h: "healthy (be_run B) qs s0" and pl: "list_all plain_query ?l" and lim: "int ?n < 2 ^ 31"
    using S by (auto simp: setting_def list_all_iff dest: in_set_dropD)
  obtain w1 where w1: "obtain_result (be_async B) False w = (Inr False, w1)" "pipe_inv B t qs s0 K s s w1"
    "\<not> be_active B (db w1)" "be_queue B (db w1) = []" using obtain_result_none[OF S I] by blast
  have K: "kept ?n s K" and s1: "1 \<le> s" and D: "be_data B (db w1) = snd (run_all (be_run B) (take (s - 1) qs) s0)"
    and P: "pointers ?n s s w1" and M: "m_queries w1 = map (entry qs ?a s) K" and F: "focus_ok t w1"
    using w1(2) by (auto simp: pipe_inv_def server_ok_def)
  have sec: "m_second w1 = it ?n s" and err: "m_error w1 = qid_limit" using P by (auto simp: pointers_def)
  have batch: "from_it (m_queries w1) (m_second w1) = map (entry qs ?a s) [s..<Suc ?n]"
    using from_it_entries[OF K, of s] by (simp add: M sec)
  have texts: "map (q_text \<circ> snd) (from_it (m_queries w1) (m_second w1)) = ?l"
    unfolding batch by (rule nth_equalityI) (use s1 n in \<open>simp_all add: nth_append del: upt_Suc\<close>)
  have ne: "?l \<noteq> []" using n s1 by simp
  define many where "many = (length ?l > 1)"
  define cmd where "cmd = (if many then the_dummy_query @ separated_list the_separator ?l else separated_list the_separator ?l)"
  define sts where "sts = (if many then ''SELECT 1'' # ?l else ?l)"
  have cmd: "cmd = separated_list the_separator sts" "list_all plain_query sts" "sts \<noteq> []"
    using dummy_query_list[OF ne] pl plain_dummy ne by (auto simp: cmd_def sts_def)
  obtain ok d where snd: "pq_send (be_async B) (c_str cmd) (db w1) = (ok, d)" by fastforce
  have c: "statements (c_str cmd) = sts"
    using c_str_plain[OF list_no_nul[OF cmd(2)]] statements_list[OF cmd(3,2)] by (simp add: cmd(1))
  have sent: "ok" "be_active B d" "be_queue B d = fst (run_all (be_run B) sts (be_data B (db w1)))"
    "be_data B d = snd (run_all (be_run B) sts (be_data B (db w1)))"
    using in_order_send[OF B w1(3,4) snd] by (auto simp: c)
  have seg: "run_all (be_run B) ?l (be_data B (db w1)) = (drop (s - 1) ?a, snd (run_all (be_run B) qs s0))"
    using run_segment[OF h, of "s - 1" ?n] setting_length[OF S] s1 n by (simp add: D)
  obtain x where x: "be_run B ''SELECT 1'' (be_data B (db w1)) = (x, be_data B (db w1))" "check_status x = Inr ()" "pg_rows x = [[Some ''1'']]"
    using in_order_dummy[OF B] by blast
  have queue: "\<exists>rs. dummy_answer many rs \<and> be_queue B d = rs @ drop (s - 1) ?a" "be_data B d = snd (run_all (be_run B) qs s0)"
    using sent(3,4) seg x by (auto simp: sts_def dummy_answer_def)
  let ?w = "w1\<lparr>db := d, m_dummy_pending := many, m_first := it ?n s, m_second := None, m_num_waiting := 0\<rparr>"
  have wait: "m_num_waiting w1 = int (length ?l)" using P n s1 by (auto simp: pointers_def)
  have "pq_send (be_async B) (c_str (if length ?l > 1 then the_dummy_query @ separated_list the_separator ?l else separated_list the_separator ?l)) (db w1) = (True, d)"
    using snd sent(1) by (simp only: cmd_def many_def)
  moreover have "int (length ?l) < 2 ^ 31" using lim by simp
  ultimately have "issue (be_pq B) (be_async B) w = (Inr (), ?w)"
    using issue_app[OF w1(1) err texts] wait sec unfolding many_def by simp
  moreover have "pipe_inv B t qs s0 K s (?n + 1) ?w"
    using w1(2) n queue sent(2) setting_length[OF S] by (auto simp: pipe_inv_def pointers_def server_ok_def focus_ok_def it_def)
  ultimately show ?thesis by blast
qed

end
