(* ===== verification/Pipeline_Spec.thy ===== *)
theory Pipeline_Spec
  imports Pipeline_Order
begin

text \<open>
  The operations of a pipeline keep the invariant of \<open>Pipeline_Order\<close>, and every one terminates normally as long as
  the server answers in order and no query fails.
\<close>

lemma setting_app: "setting B (qs @ [q]) s0 \<Longrightarrow> setting B qs s0"
  by (auto simp: setting_def dest: healthy_append)

lemma attach_ok:
  assumes "pipe_inv B t qs s0 K f s w"
  shows "\<exists>w'. attach t w = (Inr (), w') \<and> pipe_inv B t qs s0 K f s w'"
proof (cases "pipe_registered w")
  case True
  with assms show ?thesis by (simp add: attach_def prog_simps)
next
  case False
  with assms have F: "t < length (txs w)" "m_focus (txs w ! t) = None" by (auto simp: pipe_inv_def focus_ok_def)
  let ?w = "w\<lparr>txs := (txs w)[t := (txs w ! t)\<lparr>m_focus := Some (''pipeline'', pipe_name w)\<rparr>], pipe_registered := True\<rparr>"
  have "attach t w = (Inr (), ?w)" using False F
    by (simp add: attach_def register_me_def register_focus_def tx_prims guest_defs lift_exn_def prog_simps)
  moreover have "pipe_inv B t qs s0 K f s ?w" using assms F by (auto simp: inv_defs focus_ok_def)
  ultimately show ?thesis by blast
qed

lemma detach_ok:
  assumes "pipe_inv B t qs s0 K f s w"
  shows "\<exists>w'. detach t w = (Inr (), w') \<and> pipe_inv B t qs s0 K f s w' \<and> \<not> pipe_registered w'"
proof (cases "pipe_registered w")
  case False
  with assms show ?thesis by (simp add: detach_def prog_simps)
next
  case True
  with assms have F: "t < length (txs w)" "m_focus (txs w ! t) = Some (''pipeline'', pipe_name w)" by (auto simp: pipe_inv_def focus_ok_def)
  let ?w = "w\<lparr>txs := (txs w)[t := (txs w ! t)\<lparr>m_focus := None\<rparr>], pipe_registered := False\<rparr>"
  have "detach t w = (Inr (), ?w)" using True F
    by (simp add: detach_def unregister_me_def unregister_focus_def tx_prims guest_defs lift_exn_def try_catch_def prog_simps)
  moreover have "pipe_inv B t qs s0 K f s ?w" using assms F by (auto simp: inv_defs focus_ok_def)
  ultimately show ?thesis by (intro exI[of _ ?w]) simp
qed

text \<open>The steps that the operations share: receive what has arrived, and issue when nothing is under way.\<close>

lemma receive_pending_ok:
  assumes S: "setting B qs s0" and I: "pipe_inv B t qs s0 K f s w"
  shows "\<exists>f' w'. f \<le> f' \<and> bnd have_pending (\<lambda>p. whn p (receive_if_available (be_pq B) (be_async B) t)) w = (Inr (), w')
    \<and> pipe_inv B t qs s0 K f' s w'"
  using receive_if_available_ok[OF S I] I by (auto simp: bnd_app pending_app whn_app)

lemma receive_all_ok:
  assumes S: "setting B qs s0" and I: "pipe_inv B t qs s0 K f s w"
  shows "\<exists>w'. bnd have_pending (\<lambda>p. whn p (receive (be_pq B) (be_async B) t (m_second w))) w = (Inr (), w')
    \<and> pipe_inv B t qs s0 K s s w'"
proof (cases "f < s")
  case True
  have "m_second w = it (length qs) s" using I by (simp add: inv_defs)
  moreover obtain f' w' where "s \<le> f'" "receive (be_pq B) (be_async B) t (it (length qs) s) w = (Inr (), w')" "pipe_inv B t qs s0 K f' s w'"
    using receive_ok[OF S I True] by blast
  moreover from this have "f' = s" by (simp add: pipe_inv_def)
  ultimately show ?thesis using True inv_pending[OF I] by (auto simp: bnd_app pending_app whn_app)
next
  case False
  with I have "f = s" by (simp add: pipe_inv_def)
  with False I inv_pending[OF I] show ?thesis by (auto simp: bnd_app pending_app whn_app)
qed

lemma insert_entries:
  assumes S: "setting B (qs @ [q]) s0" and I: "pipe_inv B t qs s0 K f s w"
  defines "k \<equiv> length qs + 1"
  shows "pipe_inv B t (qs @ [q]) s0 (K @ [k]) f s
    (w\<lparr>m_q_id := int k, m_queries := m_queries w @ [(int k, \<lparr>q_text = q, q_res = None\<rparr>)], m_first := it k f, m_second := it k s,
       m_num_waiting := m_num_waiting w + 1\<rparr>)"
proof -
  have h: "healthy (be_run B) (qs @ [q]) s0" using S by (simp add: setting_def)
  have a: "answers B qs s0 = take (length qs) (answers B (qs @ [q]) s0)" using answers_take[OF h, of "length qs"] by simp
  have len: "length (answers B (qs @ [q]) s0) = k" using setting_length[OF S] by (simp add: k_def)
  have b: "1 \<le> f" "f \<le> s" "s \<le> k" and K: "kept (length qs) f K" using I by (simp_all add: pipe_inv_def k_def)
  have "entry (qs @ [q]) (answers B (qs @ [q]) s0) f j = entry qs (answers B qs s0) f j" if "j \<in> set K" for j
  proof -
    have "1 \<le> j" "j \<le> length qs" using that K by (auto simp: kept_def)
    then have "j - 1 < length qs" by simp
    then show ?thesis by (simp add: entry_def a nth_append)
  qed
  then have m: "map (entry (qs @ [q]) (answers B (qs @ [q]) s0) f) (K @ [k]) = m_queries w @ [(int k, \<lparr>q_text = q, q_res = None\<rparr>)]"
    using I b by (simp add: pipe_inv_def entry_def k_def cong: map_cong)
  have t: "take (s - 1) (answers B qs s0) = take (s - 1) (answers B (qs @ [q]) s0)" using a b by (simp add: k_def min_absorb1)
  have q: "take (s - 1) (qs @ [q]) = take (s - 1) qs" using b by (simp add: k_def)
  have so: "server_ok B (qs @ [q]) s0 f s p d" if "server_ok B qs s0 f s p d" for p d using that unfolding server_ok_def t q .
  show ?thesis
    using I b m kept_insert[OF K] so by (auto simp: pipe_inv_def pointers_def focus_ok_def k_def)
qed

lemma insert_ok:
  assumes S: "setting B (qs @ [q]) s0" and I: "pipe_inv B t qs s0 K f s w"
  shows "\<exists>f' s' w'. pipe_insert (be_pq B) (be_async B) t q w = (Inr (int (length qs + 1)), w')
    \<and> pipe_inv B t (qs @ [q]) s0 (K @ [length qs + 1]) f' s' w'"
proof -
  let ?k = "length qs + 1" and ?Q = "qs @ [q]"
  obtain w1 where w1: "attach t w = (Inr (), w1)" "pipe_inv B t qs s0 K f s w1" using attach_ok[OF I] by blast
  have lim: "int ?k < 2 ^ 31" using S by (simp add: setting_def)
  have b: "f \<le> s" "s \<le> ?k" and P: "pointers (length qs) f s w1" using w1(2) by (simp_all add: pipe_inv_def)
  have id: "m_q_id w1 = int (length qs)" "int (length qs) \<noteq> qid_limit" using P lim by (simp_all add: pointers_def qid_limit_def)
  have wt: "m_num_waiting w1 \<noteq> 2 ^ 31 - 1" "0 \<le> m_num_waiting w1" using P lim w1(2) by (auto simp: pointers_def pipe_inv_def)
  let ?w = "w1\<lparr>m_q_id := int ?k, m_queries := m_queries w1 @ [(int ?k, \<lparr>q_text = q, q_res = None\<rparr>)], m_first := it ?k f, m_second := it ?k s,
       m_num_waiting := m_num_waiting w1 + 1\<rparr>"
  define rest where "rest = bnd (gets (\<lambda>w. m_num_waiting w > m_retain w)) (\<lambda>full.
       sq (whn full
            (sq (bnd have_pending (\<lambda>p. whn p (receive_if_available (be_pq B) (be_async B) t)))
                (bnd have_pending (\<lambda>p. whn (\<not> p) (issue (be_pq B) (be_async B))))))
          (ret (int ?k)))"
  have step: "pipe_insert (be_pq B) (be_async B) t q w = rest ?w"
  proof -
    define pointer where "pointer qid = modify (\<lambda>w :: 'a pipe. if m_second w = None
      then w\<lparr>m_second := Some qid, m_first := (if m_first w = None then Some qid else m_first w)\<rparr> else w)" for qid
    have F: "m_first w1 = it (length qs) f" "m_second w1 = it (length qs) s" using P by (simp_all add: pointers_def)
    have ptr: "pointer (int ?k) w2 = (Inr (), w2\<lparr>m_first := it ?k f, m_second := it ?k s\<rparr>)"
      if "m_first w2 = it (length qs) f" "m_second w2 = it (length qs) s" for w2
      using b that by (cases w2) (auto simp: it_def pointer_def modify_app split: if_splits)
    show ?thesis
      unfolding pipe_insert_def rest_def pointer_def[symmetric] using w1(1) id wt F
      by (simp add: bnd_app sq_app modify_app gets_app generate_id_def upd_queries_def ret_app ptr[simplified] ac_simps)
  qed
  note I2 = insert_entries[OF S w1(2)]
  have m0: "m_retain ?w \<ge> 0" using P by (simp add: pointers_def)
  show ?thesis
  proof (cases "m_num_waiting ?w > m_retain ?w")
    case False
    then have "rest ?w = (Inr (int ?k), ?w)" by (simp add: rest_def bnd_app sq_app gets_app whn_app ret_app)
    with step I2 show ?thesis by fastforce
  next
    case full: True
    obtain f2 w2 where w2: "f \<le> f2" "bnd have_pending (\<lambda>p. whn p (receive_if_available (be_pq B) (be_async B) t)) ?w = (Inr (), w2)"
      "pipe_inv B t ?Q s0 (K @ [?k]) f2 s w2" using receive_pending_ok[OF S I2] by blast
    obtain f3 s3 w3 where w3: "bnd have_pending (\<lambda>p. whn (\<not> p) (issue (be_pq B) (be_async B))) w2 = (Inr (), w3)"
      "pipe_inv B t ?Q s0 (K @ [?k]) f3 s3 w3"
    proof (cases "f2 < s")
      case True
      with w2(3) inv_pending[OF w2(3)] that show ?thesis by (simp add: bnd_app pending_app whn_app)
    next
      case False
      with w2(3) have e: "f2 = s" by (simp add: pipe_inv_def)
      with w2(3) b obtain w3 where "issue (be_pq B) (be_async B) w2 = (Inr (), w3)" "pipe_inv B t ?Q s0 (K @ [?k]) s (length ?Q + 1) w3"
        using issue_ok[OF S, of t "K @ [?k]" s w2] by auto
      with e inv_pending[OF w2(3)] that show ?thesis by (simp add: bnd_app pending_app whn_app)
    qed
    have "rest ?w = (Inr (int ?k), w3)" using full w2(2) w3(1) by (simp add: rest_def bnd_app[of "gets _"] sq_app gets_app whn_app ret_app)
    with step w3(2) show ?thesis by auto
  qed
qed

lemma issue_waiting_ok:
  assumes S: "setting B qs s0" and I: "pipe_inv B t qs s0 K f s w"
  shows "\<exists>s' w'. bnd (gets (\<lambda>w. m_second w = m_first w \<and> m_num_waiting w \<noteq> 0)) (\<lambda>more.
       whn more (sq (issue (be_pq B) (be_async B)) (receive_if_available (be_pq B) (be_async B) t))) w = (Inr (), w')
     \<and> (\<exists>f'. pipe_inv B t qs s0 K f' s' w')"
proof (cases "f < s \<or> length qs < s")
  case True
  then have "m_second w \<noteq> m_first w \<or> m_num_waiting w = 0" using inv_pending[OF I] I by (auto simp: inv_defs)
  with I show ?thesis by (auto simp: bnd_app gets_app whn_app)
next
  case False
  with I have e: "f = s" "s \<le> length qs" by (simp_all add: pipe_inv_def)
  obtain w1 where w1: "issue (be_pq B) (be_async B) w = (Inr (), w1)" "pipe_inv B t qs s0 K s (length qs + 1) w1"
    using issue_ok[OF S _ e(2)] I e by blast
  obtain f' w2 where "receive_if_available (be_pq B) (be_async B) t w1 = (Inr (), w2)" "pipe_inv B t qs s0 K f' (length qs + 1) w2"
    using receive_if_available_ok[OF S w1(2)] by blast
  moreover have "m_second w = m_first w" "m_num_waiting w \<noteq> 0" using I e by (auto simp: inv_defs)
  ultimately show ?thesis using w1(1) by (auto simp: bnd_app gets_app whn_app sq_app)
qed

lemma resume_ok:
  assumes S: "setting B qs s0" and I: "pipe_inv B t qs s0 K f s w"
  shows "\<exists>f' s' w'. resume (be_pq B) (be_async B) t w = (Inr (), w') \<and> pipe_inv B t qs s0 K f' s' w'"
proof -
  obtain f1 w1 where w1: "bnd have_pending (\<lambda>p. whn p (receive_if_available (be_pq B) (be_async B) t)) w = (Inr (), w1)"
    "pipe_inv B t qs s0 K f1 s w1" using receive_pending_ok[OF S I] by blast
  show ?thesis using issue_waiting_ok[OF S w1(2)] w1(1) unfolding resume_def by (fastforce simp: sq_app)
qed

lemma retain_ok:
  assumes S: "setting B qs s0" and I: "pipe_inv B t qs s0 K f s w" and m: "0 \<le> m"
  shows "\<exists>f' s' w'. retain (be_pq B) (be_async B) t m w = (Inr (m_retain w), w') \<and> pipe_inv B t qs s0 K f' s' w'"
proof -
  have I1: "pipe_inv B t qs s0 K f s (w\<lparr>m_retain := m\<rparr>)" using I m by (auto simp: inv_defs focus_ok_def)
  show ?thesis using resume_ok[OF S I1] I1 m by (cases "m \<le> m_num_waiting w") (fastforce simp: retain_def prog_simps)+
qed

lemma complete_ok:
  assumes S: "setting B qs s0" and I: "pipe_inv B t qs s0 K f s w"
  defines "n \<equiv> length qs + 1"
  shows "\<exists>w'. pipe_complete (be_pq B) (be_async B) t w = (Inr (), w') \<and> pipe_inv B t qs s0 K n n w' \<and> \<not> pipe_registered w'"
proof -
  obtain w1 where w1: "bnd have_pending (\<lambda>p. whn p (receive (be_pq B) (be_async B) t (m_second w))) w = (Inr (), w1)"
    "pipe_inv B t qs s0 K s s w1" using receive_all_ok[OF S I] by blast
  then have first: "bnd have_pending (\<lambda>p. whn p (bnd (gets m_second) (receive (be_pq B) (be_async B) t))) w = (Inr (), w1)"
    by (simp add: bnd_app pending_app whn_app gets_app split: if_splits)
  obtain w2 where w2: "bnd (gets (\<lambda>w. m_num_waiting w \<noteq> 0 \<and> m_error w = qid_limit)) (\<lambda>more.
      whn more (sq (issue (be_pq B) (be_async B)) (receive (be_pq B) (be_async B) t None))) w1 = (Inr (), w2)" "pipe_inv B t qs s0 K n n w2"
  proof (cases "s = n")
    case True
    then have "m_num_waiting w1 = 0" using w1(2) by (auto simp: inv_defs n_def)
    with True w1(2) that show ?thesis by (simp add: bnd_app gets_app whn_app)
  next
    case False
    then have s: "s \<le> length qs" and more: "m_num_waiting w1 \<noteq> 0 \<and> m_error w1 = qid_limit"
      using w1(2) by (auto simp: inv_defs n_def)
    obtain w2 where w2: "issue (be_pq B) (be_async B) w1 = (Inr (), w2)" "pipe_inv B t qs s0 K s n w2"
      using issue_ok[OF S w1(2) s] by (auto simp: n_def)
    obtain f' w3 where w3: "n \<le> f'" "receive (be_pq B) (be_async B) t (it (length qs) n) w2 = (Inr (), w3)" "pipe_inv B t qs s0 K f' n w3"
      using receive_ok[OF S w2(2), of n] s by (auto simp: n_def)
    then have "f' = n" by (simp add: pipe_inv_def)
    with w3 w2(1) more that show ?thesis by (simp add: bnd_app gets_app whn_app sq_app it_def n_def)
  qed
  obtain w3 where "detach t w2 = (Inr (), w3)" "pipe_inv B t qs s0 K n n w3" "\<not> pipe_registered w3" using detach_ok[OF w2(2)] by blast
  then show ?thesis using first w2(1) unfolding pipe_complete_def by (intro exI[of _ w3]) (simp add: sq_app)
qed

lemma find_entries: "find_it (map (entry qs ans f) K) (int k) = (if k \<in> set K then Some (int k) else None)"
  by (auto simp: find_it_def image_iff)

lemma retrieve_unknown:
  assumes "pipe_inv B t qs s0 K f s w" "k \<notin> set K"
  shows "retrieve (be_pq B) (be_async B) t (int k) w = (Inl (Throw (Logic_error ''Attempt to retrieve result for unknown query.'')), w)"
  using assms by (simp add: retrieve_def prog_simps pipe_inv_def find_entries retrieve_it_def)

lemma is_finished_ok:
  assumes "pipe_inv B t qs s0 K f s w" "k \<in> set K" "int (length qs) < 2 ^ 31"
  shows "is_finished (int k) w = (Inr (k < f), w)"
proof -
  have "1 \<le> k" "k \<le> length qs" using assms(1,2) by (auto simp: pipe_inv_def kept_def)
  with assms show ?thesis by (auto simp: is_finished_def inv_defs it_def qid_limit_def image_iff)
qed

text \<open>After \<open>retrieve\<close> has sent what was waiting, the query is with the server or done.\<close>

lemma retrieve_sent:
  assumes S: "setting B qs s0" and I: "pipe_inv B t qs s0 K f s w" and k: "k \<le> length qs"
  shows "\<exists>f' s' w'. bnd (gets m_second) (\<lambda>s. whn (case s of None \<Rightarrow> False | Some j \<Rightarrow> int k \<ge> j)
       (sq (bnd have_pending (\<lambda>p. whn p (receive (be_pq B) (be_async B) t s)))
           (bnd (gets m_error) (\<lambda>e. whn (e = qid_limit) (issue (be_pq B) (be_async B)))))) w = (Inr (), w')
     \<and> pipe_inv B t qs s0 K f' s' w' \<and> k < s'"
proof (cases "k < s")
  case True
  with I have "\<not> (case m_second w of None \<Rightarrow> False | Some j \<Rightarrow> int k \<ge> j)" by (auto simp: inv_defs it_def)
  with I True show ?thesis by (auto simp: bnd_app gets_app whn_app)
next
  case False
  with I k have c: "case m_second w of None \<Rightarrow> False | Some j \<Rightarrow> int k \<ge> j" by (auto simp: inv_defs it_def)
  obtain w1 where w1: "bnd have_pending (\<lambda>p. whn p (receive (be_pq B) (be_async B) t (m_second w))) w = (Inr (), w1)"
    "pipe_inv B t qs s0 K s s w1" using receive_all_ok[OF S I] by blast
  have e: "m_error w1 = qid_limit" "s \<le> length qs" using w1(2) False k by (auto simp: inv_defs)
  obtain w2 where "issue (be_pq B) (be_async B) w1 = (Inr (), w2)" "pipe_inv B t qs s0 K s (length qs + 1) w2"
    using issue_ok[OF S w1(2) e(2)] by blast
  with c w1(1) e(1) k show ?thesis
    by (intro exI[of _ s] exI[of _ "length qs + 1"] exI[of _ w2]) (simp add: bnd_app[of "gets _"] gets_app whn_app sq_app)
qed

lemma retrieve_received:
  assumes S: "setting B qs s0" and I: "pipe_inv B t qs s0 K f s w" and k: "k < s"
  shows "\<exists>f' w'. bnd have_pending (\<lambda>p. whn p (bnd (gets m_first) (\<lambda>f. bnd (deref f) (\<lambda>(j, _).
       if int k \<ge> j then bnd (gets (\<lambda>w. next_it (m_queries w) (int k))) (receive (be_pq B) (be_async B) t)
       else receive_if_available (be_pq B) (be_async B) t)))) w = (Inr (), w')
     \<and> pipe_inv B t qs s0 K f' s w' \<and> k < f'"
proof (cases "f < s")
  case False
  with I k have "f = s" by (simp add: pipe_inv_def)
  with I k inv_pending[OF I] show ?thesis by (auto simp: bnd_app pending_app whn_app)
next
  case True
  with I have b: "f \<le> length qs" and K: "kept (length qs) f K" and m: "m_queries w = map (entry qs (answers B qs s0) f) K"
    and i: "m_first w = Some (int f)" and fK: "f \<in> set K" by (auto simp: inv_defs it_def kept_def)
  have d: "deref (m_first w) w = (Inr (int f, snd (entry qs (answers B qs s0) f f)), w)"
    using map_of_entries[OF K fK, of qs "answers B qs s0" f] by (simp add: i deref_app m)
  show ?thesis
  proof (cases "f \<le> k")
    case True
    have nx: "next_it (m_queries w) (int k) = it (length qs) (k + 1)" using next_it_entries[OF K True] by (simp add: m)
    obtain f' w' where "k + 1 \<le> f'" "receive (be_pq B) (be_async B) t (it (length qs) (k + 1)) w = (Inr (), w')" "pipe_inv B t qs s0 K f' s w'"
      using receive_ok[OF S I, of "k + 1"] True k by auto
    with True d nx \<open>f < s\<close> inv_pending[OF I] show ?thesis
      by (intro exI[of _ f'] exI[of _ w']) (simp add: bnd_app pending_app whn_app gets_app)
  next
    case False
    obtain f' w' where "f \<le> f'" "receive_if_available (be_pq B) (be_async B) t w = (Inr (), w')" "pipe_inv B t qs s0 K f' s w'"
      using receive_if_available_ok[OF S I] by blast
    with False d \<open>f < s\<close> inv_pending[OF I] show ?thesis
      by (intro exI[of _ f'] exI[of _ w']) (simp add: bnd_app pending_app whn_app gets_app)
  qed
qed

lemma retrieve_issue:
  assumes S: "setting B qs s0" and I: "pipe_inv B t qs s0 K f s w"
  shows "\<exists>s' w'. bnd (gets (\<lambda>w. m_num_waiting w \<noteq> 0 \<and> m_second w = m_first w \<and> m_error w = qid_limit)) (\<lambda>more.
       whn more (issue (be_pq B) (be_async B))) w = (Inr (), w') \<and> pipe_inv B t qs s0 K f s' w'"
proof (cases "f < s \<or> length qs < s")
  case True
  then have "\<not> (m_num_waiting w \<noteq> 0 \<and> m_second w = m_first w)" using inv_pending[OF I] I by (auto simp: inv_defs)
  with I show ?thesis by (auto simp: bnd_app gets_app whn_app)
next
  case False
  with I have e: "f = s" "s \<le> length qs" by (simp_all add: pipe_inv_def)
  have "m_num_waiting w \<noteq> 0 \<and> m_second w = m_first w \<and> m_error w = qid_limit" using I e by (auto simp: inv_defs)
  with issue_ok[OF S _ e(2)] I e show ?thesis by (fastforce simp: bnd_app gets_app whn_app)
qed

lemma remove_entries:
  assumes "pipe_inv B t qs s0 K f s w" "k < f"
  shows "pipe_inv B t qs s0 (filter (\<lambda>j. j \<noteq> k) K) f s (w\<lparr>m_queries := filter (\<lambda>e. fst e \<noteq> int k) (m_queries w)\<rparr>)"
  using assms kept_remove[of "length qs" f K k] by (auto simp: inv_defs focus_ok_def filter_map comp_def)

lemma retrieve_ok:
  assumes S: "setting B qs s0" and I: "pipe_inv B t qs s0 K f s w" and k: "k \<in> set K"
  shows "\<exists>f' s' w'. retrieve (be_pq B) (be_async B) t (int k) w = (Inr (int k, answers B qs s0 ! (k - 1)), w')
    \<and> pipe_inv B t qs s0 (filter (\<lambda>j. j \<noteq> k) K) f' s' w'"
proof -
  let ?a = "answers B qs s0"
  have b: "1 \<le> k" "k \<le> length qs" using I k by (auto simp: pipe_inv_def kept_def)
  have noerr: "int k < m_error w'" if "pipe_inv B t qs s0 K f' s' w'" for f' s' w'
    using that b S by (auto simp: pipe_inv_def pointers_def qid_limit_def setting_def)
  obtain f1 s1 w1 where w1: "bnd (gets m_second) (\<lambda>s. whn (case s of None \<Rightarrow> False | Some j \<Rightarrow> int k \<ge> j)
       (sq (bnd have_pending (\<lambda>p. whn p (receive (be_pq B) (be_async B) t s)))
           (bnd (gets m_error) (\<lambda>e. whn (e = qid_limit) (issue (be_pq B) (be_async B)))))) w = (Inr (), w1)"
    "pipe_inv B t qs s0 K f1 s1 w1" "k < s1" using retrieve_sent[OF S I b(2)] by blast
  obtain f2 w2 where w2: "bnd have_pending (\<lambda>p. whn p (bnd (gets m_first) (\<lambda>f. bnd (deref f) (\<lambda>(j, _).
       if int k \<ge> j then bnd (gets (\<lambda>w. next_it (m_queries w) (int k))) (receive (be_pq B) (be_async B) t)
       else receive_if_available (be_pq B) (be_async B) t)))) w1 = (Inr (), w2)" "pipe_inv B t qs s0 K f2 s1 w2" "k < f2"
    using retrieve_received[OF S w1(2,3)] by blast
  obtain s3 w3 where w3: "bnd (gets (\<lambda>w. m_num_waiting w \<noteq> 0 \<and> m_second w = m_first w \<and> m_error w = qid_limit)) (\<lambda>more.
       whn more (issue (be_pq B) (be_async B))) w2 = (Inr (), w3)" "pipe_inv B t qs s0 K f2 s3 w3"
    using retrieve_issue[OF S w2(2)] by blast
  have K: "kept (length qs) f2 K" and m: "m_queries w3 = map (entry qs ?a f2) K" using w3(2) by (auto simp: pipe_inv_def)
  have d: "deref (Some (int k)) w3 = (Inr (int k, snd (entry qs ?a f2 k)), w3)"
    using map_of_entries[OF K k, of qs ?a f2] by (simp add: deref_app m)
  have "?a ! (k - 1) \<in> set ?a" using b setting_length[OF S] by simp
  then have ok: "check_status (?a ! (k - 1)) = Inr ()" using S by (auto simp: setting_def healthy_def list_all_iff)
  have "find_it (m_queries w) (int k) = Some (int k)" using I k by (simp add: pipe_inv_def find_entries)
  then have "retrieve (be_pq B) (be_async B) t (int k) w =
      (Inr (int k, ?a ! (k - 1)), w3\<lparr>m_queries := filter (\<lambda>e. fst e \<noteq> int k) (m_queries w3)\<rparr>)"
    unfolding retrieve_def retrieve_it_def Let_def
    using noerr[OF I] noerr[OF w2(2)] w1(1) w2(1,3) w3(1) d ok
    by (simp add: bnd_app[of "gets _"] bnd_app[of "deref _"] sq_app gets_app whn_app upd_queries_def modify_app ret_app lift_exn_def check_result_def)
  with remove_entries[OF w3(2) w2(3)] show ?thesis by blast
qed

subsection \<open>Runs of a pipeline\<close>

text \<open>
  A new pipeline, and runs of it: inserting queries, changing the retention, resuming, completing, and retrieving results in any
  order, by identifier or the oldest, calls that are refused included.  The list holds the queries inserted so far, the set the
  identifiers whose results have been retrieved.  \<open>cancel\<close> and \<open>flush\<close>, which drop queries, are not calls of such a run.
\<close>

definition new_pipe :: "('db, 'b) backend \<Rightarrow> nat \<Rightarrow> 'db pipe \<Rightarrow> bool" where
  "new_pipe B t w \<longleftrightarrow> m_queries w = [] \<and> m_first w = None \<and> m_second w = None \<and> m_retain w = 0 \<and> m_num_waiting w = 0
     \<and> m_q_id w = 0 \<and> \<not> m_dummy_pending w \<and> m_error w = qid_limit \<and> focus_ok t w \<and> be_queue B (db w) = []"

abbreviation left :: "string list \<Rightarrow> nat set \<Rightarrow> nat list" where
  "left qs R \<equiv> filter (\<lambda>k. k \<notin> R) [1..<length qs + 1]"

inductive pipe_run :: "('db, 'b) backend \<Rightarrow> nat \<Rightarrow> 'db pipe \<Rightarrow> string list \<Rightarrow> nat set \<Rightarrow> 'db pipe \<Rightarrow> bool" for B t w0 where
  start: "pipe_run B t w0 [] {} w0"
| insert: "pipe_run B t w0 qs R w \<Longrightarrow> pipe_insert (be_pq B) (be_async B) t q w = (r, w') \<Longrightarrow> pipe_run B t w0 (qs @ [q]) R w'"
| retain: "pipe_run B t w0 qs R w \<Longrightarrow> retain (be_pq B) (be_async B) t m w = (r', w') \<Longrightarrow> pipe_run B t w0 qs R w'"
| resume: "pipe_run B t w0 qs R w \<Longrightarrow> resume (be_pq B) (be_async B) t w = (r'', w') \<Longrightarrow> pipe_run B t w0 qs R w'"
| complete: "pipe_run B t w0 qs R w \<Longrightarrow> pipe_complete (be_pq B) (be_async B) t w = (r'', w') \<Longrightarrow> pipe_run B t w0 qs R w'"
| retrieve: "pipe_run B t w0 qs R w \<Longrightarrow> retrieve (be_pq B) (be_async B) t (int k) w = (x, w')
    \<Longrightarrow> pipe_run B t w0 qs (if k \<in> {1..length qs} then insert k R else R) w'"
| oldest: "pipe_run B t w0 qs R w \<Longrightarrow> retrieve_oldest (be_pq B) (be_async B) t w = (x, w')
    \<Longrightarrow> pipe_run B t w0 qs (case left qs R of [] \<Rightarrow> R | k # ks \<Rightarrow> insert k R) w'"

lemma left_set: "k \<in> set (left qs R) \<longleftrightarrow> 1 \<le> k \<and> k \<le> length qs \<and> k \<notin> R"
  by (auto simp del: upt_Suc)

lemma left_without: "filter (\<lambda>j. j \<noteq> k) (left qs R) = left qs (insert k R)"
  by (auto intro: filter_cong simp del: upt_Suc)

text \<open>The oldest query is the first that has not been retrieved.\<close>

lemma retrieve_oldest_first:
  assumes "pipe_inv B t qs s0 K f s w"
  shows "retrieve_oldest (be_pq B) (be_async B) t w = (case K of
      [] \<Rightarrow> (Inl (Throw (Logic_error ''Attempt to retrieve result from empty pipeline.'')), w)
    | k # ks \<Rightarrow> retrieve (be_pq B) (be_async B) t (int k) w)"
proof -
  have q: "m_queries w = map (entry qs (answers B qs s0) f) K" using assms by (simp add: pipe_inv_def)
  show ?thesis
  proof (cases K)
    case (Cons k ks)
    then have "begin_it (m_queries w) = Some (int k)" "find_it (m_queries w) (int k) = Some (int k)" "m_queries w \<noteq> []"
      using q by (simp_all add: begin_it_def find_it_def entry_def)
    then show ?thesis using Cons by (simp add: retrieve_oldest_def retrieve_def bnd_app gets_app)
  qed (use q in \<open>simp add: retrieve_oldest_def bnd_app gets_app throw_app\<close>)
qed

lemma new_pipe_inv:
  assumes "new_pipe B t w"
  shows "pipe_inv B t [] (be_data B (db w)) [] 1 1 w"
  using assms by (simp add: new_pipe_def inv_defs kept_def it_def)

lemma run_retrieved: "pipe_run B t w0 qs R w \<Longrightarrow> R \<subseteq> {1..length qs}"
proof (induction rule: pipe_run.induct)
  case (oldest qs R w x w')
  have "k \<in> {1..length qs}" if "left qs R = k # ks" for k ks
    using left_set[of k R qs] unfolding that by simp
  with oldest.IH show ?case by (cases "left qs R") (simp_all only: list.case insert_subset)
next
  case (retrieve qs R w k x w')
  then show ?case by (simp add: subset_iff)
qed fastforce+

theorem run_inv:
  assumes "pipe_run B t w0 qs R w" "new_pipe B t w0" "setting B qs (be_data B (db w0))"
  shows "\<exists>f s. pipe_inv B t qs (be_data B (db w0)) (left qs R) f s w"
  using assms
proof (induction rule: pipe_run.induct)
  case start
  then show ?case using new_pipe_inv[of B t w0] by (simp del: upt_Suc) blast
next
  case (insert qs R w q r w')
  then obtain f s where "pipe_inv B t qs (be_data B (db w0)) (left qs R) f s w" using setting_app[of B qs q] by blast
  moreover have "left (qs @ [q]) R = left qs R @ [length qs + 1]" using run_retrieved[OF insert.hyps(1)] by auto
  ultimately show ?case using insert_ok[OF insert.prems(2), of t] insert.hyps(2) by fastforce
next
  case (retain qs R w m r' w')
  then obtain f s where I: "pipe_inv B t qs (be_data B (db w0)) (left qs R) f s w" by blast
  show ?case
  proof (cases "0 \<le> m")
    case True
    from retain_ok[OF retain.prems(2) I this] retain.hyps(2) show ?thesis by auto
  next
    case False
    then have "w' = w" using retain.hyps(2) by (simp add: retain_def throw_app)
    with I show ?thesis by blast
  qed
next
  case (resume qs R w r'' w')
  then obtain f s where "pipe_inv B t qs (be_data B (db w0)) (left qs R) f s w" by blast
  from resume_ok[OF resume.prems(2) this] resume.hyps(2) show ?case by auto
next
  case (complete qs R w r'' w')
  then obtain f s where "pipe_inv B t qs (be_data B (db w0)) (left qs R) f s w" by blast
  from complete_ok[OF complete.prems(2) this] show ?case unfolding complete.hyps(2) by blast
next
  case (retrieve qs R w k x w')
  then obtain f s where I: "pipe_inv B t qs (be_data B (db w0)) (left qs R) f s w" by blast
  show ?case
  proof (cases "k \<in> set (left qs R)")
    case True
    then have "k \<in> {1..length qs}" unfolding left_set by simp
    with retrieve_ok[OF retrieve.prems(2) I True] retrieve.hyps(2) show ?thesis unfolding left_without by auto
  next
    case False
    then have "left qs (if k \<in> {1..length qs} then insert k R else R) = left qs R"
      unfolding left_set by (auto simp: insert_absorb simp del: upt_Suc)
    moreover have "w' = w" using retrieve_unknown[OF I False] retrieve.hyps(2) by simp
    ultimately show ?thesis using I by (simp only:) blast
  qed
next
  case (oldest qs R w x w')
  then obtain f s where I: "pipe_inv B t qs (be_data B (db w0)) (left qs R) f s w" by blast
  show ?case
  proof (cases "left qs R")
    case Nil
    then have "w' = w" using retrieve_oldest_first[OF I] oldest.hyps(2) by simp
    with I Nil show ?thesis by (simp only: list.case) blast
  next
    case (Cons k ks)
    then have k: "k \<in> set (left qs R)" by (metis list.set_intros(1))
    have "retrieve (be_pq B) (be_async B) t (int k) w = (x, w')" using retrieve_oldest_first[OF I] oldest.hyps(2) Cons by simp
    with retrieve_ok[OF oldest.prems(2) I k] Cons show ?thesis unfolding left_without by auto
  qed
qed

lemma stored_entries:
  "k \<in> set K \<Longrightarrow> (\<exists>x r. (int k, x) \<in> set (map (entry qs ans f) K) \<and> q_res x = Some r) \<longleftrightarrow> k < f"
  by (auto simp: entry_def split: if_splits)

subsection \<open>A server for examples\<close>

text \<open>
  The data are the statements that have been executed; a query returns its own text.  The state of libpq is the queue
  of results, whether a command is under way, and the data.
\<close>

definition demo_run :: "string \<Rightarrow> string list \<Rightarrow> pgresult \<times> string list" where
  "demo_run q s = (\<lparr>pg_status = PGRES_TUPLES_OK, pg_message = [], pg_sqlstate = None,
       pg_rows = [[Some (if q = ''SELECT 1'' then ''1'' else q)]]\<rparr>, if q = ''SELECT 1'' then s else s @ [q])"

type_synonym demo_db = "pgresult list \<times> bool \<times> string list"

definition demo_async :: "demo_db async" where
  "demo_async = \<lparr>pq_send = (\<lambda>s (q, a, l). let (rs, l') = run_all demo_run (statements s) l in (True, rs, True, l')),
     pq_get = (\<lambda>(q, a, l). case q of [] \<Rightarrow> (None, [], False, l) | x # xs \<Rightarrow> (Some x, xs, a, l)),
     pq_busy = (\<lambda>d. False), pq_get_cancel = (\<lambda>d. True), pq_cancel = (\<lambda>d. (None, d))\<rparr>"

definition demo_pq :: "demo_db libpq" where
  "demo_pq = \<lparr>pq_exec = (\<lambda>s (q, a, l). let (r, l') = demo_run s l in (Some r, [], False, l')), pq_consume = (\<lambda>d. (True, d)),
     pq_encoding = (\<lambda>d. Some ''UTF8''), pq_open = (\<lambda>d. True), pq_error = (\<lambda>d. [])\<rparr>"

definition demo :: "(demo_db, string list) backend" where
  "demo = \<lparr>be_pq = demo_pq, be_async = demo_async, be_run = demo_run, be_queue = fst, be_active = fst \<circ> snd, be_data = snd \<circ> snd\<rparr>"

definition raw_pipe :: "'db \<Rightarrow> 'db pipe" where
  "raw_pipe d = \<lparr>keys = [], screen = [], yx = (\<lambda>_. (0, 0)), db = d, m_trans = Some 0, txs = [new_tx\<lparr>m_registered := True\<rparr>],
     notices = [], pipe_name = [], pipe_registered = False, m_queries = [], m_first = None, m_second = None, m_retain = 0,
     m_num_waiting = 0, m_q_id = 0, m_dummy_pending = False, m_error = qid_limit\<rparr>"

definition demo_pipe :: "demo_db pipe" where
  "demo_pipe = snd (pipe_init demo_pq 0 (raw_pipe ([], False, [])))"

lemma demo_in_order: "in_order demo"
  by (auto simp: in_order_def demo_def demo_async_def demo_pq_def demo_run_def check_status_def status_error_def
      split: prod.split list.split)

lemma demo_run_ok: "check_status (fst (demo_run q s)) = Inr ()"
  by (simp add: demo_run_def check_status_def status_error_def)

lemma demo_healthy: "healthy demo_run qs s"
  by (induction qs arbitrary: s) (simp_all add: healthy_def demo_run_ok case_prod_unfold Let_def)

lemma demo_new: "new_pipe demo 0 demo_pipe"
  by (simp add: new_pipe_def demo_pipe_def pipe_init_def get_encoding_group_def demo_pq_def demo_def raw_pipe_def prog_simps lift_exn_def
      enc_group_def attach_def register_me_def register_focus_def tx_prims guest_defs new_tx_def focus_ok_def)

lemma demo_pipe_data: "be_data demo (db demo_pipe) = []"
  by (simp add: demo_pipe_def pipe_init_def get_encoding_group_def demo_pq_def demo_def raw_pipe_def prog_simps lift_exn_def
      enc_group_def attach_def register_me_def register_focus_def tx_prims guest_defs new_tx_def)

lemma demo_parts: "be_pq demo = demo_pq" "be_async demo = demo_async" "be_run demo = demo_run" "be_data demo d = snd (snd d)"
  by (simp_all add: demo_def)

lemma demo_answers: "''SELECT 1'' \<notin> set qs \<Longrightarrow> snd (run_all demo_run qs s) = s @ qs"
  by (induction qs arbitrary: s) (simp_all add: demo_run_ok case_prod_unfold Let_def, auto simp: demo_run_def)

lemma demo_setting: "list_all plain_query qs \<Longrightarrow> int (length qs) < 2 ^ 31 \<Longrightarrow> setting demo qs s"
  using demo_in_order demo_healthy by (simp add: setting_def demo_def)

definition demo_insert :: "string \<Rightarrow> demo_db pipe \<Rightarrow> demo_db pipe" where
  "demo_insert q w = snd (pipe_insert (be_pq demo) (be_async demo) 0 q w)"

lemma demo_run_insert: "pipe_run demo 0 demo_pipe qs R w \<Longrightarrow> pipe_run demo 0 demo_pipe (qs @ [q]) R (demo_insert q w)"
  by (erule pipe_run.insert) (simp add: demo_insert_def prod_eq_iff)

lemma demo_two: "pipe_run demo 0 demo_pipe [''a'', ''b''] {} (demo_insert ''b'' (demo_insert ''a'' demo_pipe))"
  using demo_run_insert[OF demo_run_insert[OF pipe_run.start[of demo 0 demo_pipe]], of "''a''" "''b''"] by simp

subsection \<open>What the calls promise\<close>

text \<open>
  C4.  Results of a pipeline in any order, on a server that answers in order and as long as no query fails: after a run of inserts,
  changes of the retention, resumes, completions and retrievals in whatever order, \<open>retrieve\<close> of an identifier that has
  not been retrieved yet returns normally, with the result that the server gives when the inserted queries are executed
  one after the other in the order of insertion; a second retrieval of it is refused without a change of state; and \<open>retrieve\<close>
  without an identifier is that of the oldest query whose result is left, or is refused when there is none.  The \<open>setting\<close> says what is assumed: the server executes every
  statement of a text and returns the results in order, every query succeeds and holds no semicolon and no NUL, and there are
  fewer than \<open>2 ^ 31\<close> queries; the run holds no \<open>cancel\<close> and no \<open>flush\<close>.
\<close>

theorem pipeline_retrieve:
  assumes "pipe_run B t w0 qs R w" "new_pipe B t w0" "setting B qs (be_data B (db w0))" "1 \<le> k" "k \<le> length qs"
  shows "(if k \<in> R then retrieve (be_pq B) (be_async B) t (int k) w
       = (Inl (Throw (Logic_error ''Attempt to retrieve result for unknown query.'')), w)
     else \<exists>w'. retrieve (be_pq B) (be_async B) t (int k) w
       = (Inr (int k, fst (run_all (be_run B) qs (be_data B (db w0))) ! (k - 1)), w') \<and> pipe_run B t w0 qs (insert k R) w')
    \<and> retrieve_oldest (be_pq B) (be_async B) t w = (case left qs R of
        [] \<Rightarrow> (Inl (Throw (Logic_error ''Attempt to retrieve result from empty pipeline.'')), w)
      | j # js \<Rightarrow> retrieve (be_pq B) (be_async B) t (int j) w)"
proof -
  obtain f s where I: "pipe_inv B t qs (be_data B (db w0)) (left qs R) f s w" using run_inv[OF assms(1-3)] by blast
  have "if k \<in> R then retrieve (be_pq B) (be_async B) t (int k) w
       = (Inl (Throw (Logic_error ''Attempt to retrieve result for unknown query.'')), w)
     else \<exists>w'. retrieve (be_pq B) (be_async B) t (int k) w
       = (Inr (int k, fst (run_all (be_run B) qs (be_data B (db w0))) ! (k - 1)), w') \<and> pipe_run B t w0 qs (insert k R) w'"
  proof (cases "k \<in> R")
    case True
    then show ?thesis using retrieve_unknown[OF I, of k] by simp
  next
    case False
    then have "k \<in> set (left qs R)" using assms(4,5) unfolding left_set by simp
    from retrieve_ok[OF assms(3) I this] False pipe_run.retrieve[OF assms(1), of k] assms(4,5) show ?thesis by fastforce
  qed
  with retrieve_oldest_first[OF I] show ?thesis by blast
qed

theorem pipeline_retrieve_witness:
  "\<exists>w' r. retrieve demo_pq demo_async 0 2 (demo_insert ''b'' (demo_insert ''a'' demo_pipe)) = (Inr (2, r), w')
     \<and> pg_rows r = [[Some ''b'']] \<and> pipe_run demo 0 demo_pipe [''a'', ''b''] {2} w'"
  using conjunct1[OF pipeline_retrieve[OF demo_two demo_new demo_setting, of 2]]
  by (simp add: plain_query_def demo_parts) (fastforce simp: demo_run_def check_status_def status_error_def)

text \<open>
  C5.  Completion of a pipeline, in the \<open>setting\<close> of the property before (no query fails, the server answers in order, no
  semicolons, \<open>cancel\<close> and \<open>flush\<close> are not called): at any point of such a run the server has executed the first queries, each of them once and
  in the order of insertion, and nothing else; \<open>complete\<close> returns normally with all of them executed, nothing under way,
  every result that was not retrieved stored, and the pipeline detached from its transaction.
\<close>

theorem pipeline_complete:
  assumes "pipe_run B t w0 qs R w" "new_pipe B t w0" "setting B qs (be_data B (db w0))"
  shows "(\<exists>j \<le> length qs. be_data B (db w) = snd (run_all (be_run B) (take j qs) (be_data B (db w0))))
    \<and> (\<exists>w'. pipe_complete (be_pq B) (be_async B) t w = (Inr (), w')
      \<and> be_data B (db w') = snd (run_all (be_run B) qs (be_data B (db w0))) \<and> be_queue B (db w') = []
      \<and> map (\<lambda>e. (fst e, q_res (snd e))) (m_queries w')
        = map (\<lambda>k. (int k, Some (fst (run_all (be_run B) qs (be_data B (db w0))) ! (k - 1)))) (left qs R)
      \<and> \<not> pipe_registered w' \<and> m_focus (txs w' ! t) = None)"
proof -
  obtain f s where I: "pipe_inv B t qs (be_data B (db w0)) (left qs R) f s w" using run_inv[OF assms(1-3)] by blast
  then have "s - 1 \<le> length qs" "be_data B (db w) = snd (run_all (be_run B) (take (s - 1) qs) (be_data B (db w0)))"
    by (auto simp: pipe_inv_def server_ok_def)
  moreover obtain w' where w': "pipe_complete (be_pq B) (be_async B) t w = (Inr (), w')"
    "pipe_inv B t qs (be_data B (db w0)) (left qs R) (length qs + 1) (length qs + 1) w'" "\<not> pipe_registered w'"
    using complete_ok[OF assms(3) I] by blast
  moreover have "be_data B (db w') = snd (run_all (be_run B) qs (be_data B (db w0)))" "be_queue B (db w') = []"
    using w'(2) setting_length[OF assms(3)] by (auto simp: inv_defs)
  moreover have "map (\<lambda>e. (fst e, q_res (snd e))) (m_queries w')
        = map (\<lambda>k. (int k, Some (fst (run_all (be_run B) qs (be_data B (db w0))) ! (k - 1)))) (left qs R)"
    using w'(2) by (simp add: pipe_inv_def comp_def del: upt_Suc)
  moreover have "m_focus (txs w' ! t) = None" using w'(2,3) by (simp add: pipe_inv_def focus_ok_def)
  ultimately show ?thesis by blast
qed

theorem pipeline_complete_witness:
  "\<exists>w'. pipe_complete demo_pq demo_async 0 (demo_insert ''b'' (demo_insert ''a'' demo_pipe)) = (Inr (), w')
     \<and> snd (snd (db w')) = [''a'', ''b'']"
  using conjunct2[OF pipeline_complete[OF demo_two demo_new demo_setting]]
  by (auto simp: plain_query_def demo_parts demo_answers demo_pipe_data[unfolded demo_parts] simp del: run_all.simps)

text \<open>
  Identifiers and completion status: \<open>insert\<close> returns the number of the query, and \<open>is_finished\<close> of a query that
  has not been retrieved tells exactly whether its result is stored.
\<close>

theorem pipeline_insert:
  assumes "pipe_run B t w0 qs R w" "new_pipe B t w0" "setting B (qs @ [q]) (be_data B (db w0))"
  shows "(\<exists>w'. pipe_insert (be_pq B) (be_async B) t q w = (Inr (int (length qs) + 1), w'))
    \<and> (\<forall>k \<in> {1..length qs} - R. is_finished (int k) w
        = (Inr (\<exists>x r. (int k, x) \<in> set (m_queries w) \<and> q_res x = Some r), w))"
proof -
  obtain f s where I: "pipe_inv B t qs (be_data B (db w0)) (left qs R) f s w"
    using run_inv[OF assms(1,2) setting_app[OF assms(3)]] by blast
  have "is_finished (int k) w = (Inr (\<exists>x r. (int k, x) \<in> set (m_queries w) \<and> q_res x = Some r), w)"
    if "k \<in> {1..length qs} - R" for k
  proof -
    have k: "k \<in> set (left qs R)" using that unfolding left_set by simp
    have lim: "int (length qs) < 2 ^ 31" using assms(3) by (simp add: setting_def)
    have "(\<exists>x r. (int k, x) \<in> set (m_queries w) \<and> q_res x = Some r) \<longleftrightarrow> k < f"
      using stored_entries[OF k] I unfolding pipe_inv_def by simp
    with is_finished_ok[OF I k lim] show ?thesis by simp
  qed
  moreover obtain w' where "pipe_insert (be_pq B) (be_async B) t q w = (Inr (int (length qs + 1)), w')"
    using insert_ok[OF assms(3) I] by blast
  ultimately show ?thesis by (simp add: add.commute)
qed

theorem pipeline_insert_witness:
  "\<exists>w'. pipe_insert demo_pq demo_async 0 ''c'' (demo_insert ''b'' (demo_insert ''a'' demo_pipe)) = (Inr 3, w')"
  using conjunct1[OF pipeline_insert[OF demo_two demo_new demo_setting, of "''c''"]]
  by (simp add: plain_query_def demo_parts)

subsection \<open>When queries fail\<close>

text \<open>One round of \<open>cancel\<close>: the oldest pending query is dropped.\<close>

lemma sorted_head:
  assumes "sorted_wrt (<) (map fst (xs @ e # ys))"
  shows "map_of (xs @ e # ys) (fst e) = Some (snd e)" "next_it (xs @ e # ys) (fst e) = begin_it ys"
    "filter (\<lambda>x. fst x \<noteq> fst e) (xs @ e # ys) = xs @ ys"
proof -
  have lt: "\<forall>x\<in>set xs. fst x < fst e" "\<forall>y\<in>set ys. fst e < fst y" using assms by (auto simp: sorted_wrt_append)
  have d: "distinct (map fst (xs @ e # ys))" using assms strict_sorted_iff by blast
  show "map_of (xs @ e # ys) (fst e) = Some (snd e)" using map_of_is_SomeI[OF d, of "fst e" "snd e"] by simp
  have "dropWhile (\<lambda>x. fst x \<le> fst e) (xs @ e # ys) = dropWhile (\<lambda>x. fst x \<le> fst e) (e # ys)"
    using lt(1) by (intro dropWhile_append2) auto
  also have "\<dots> = ys" using lt(2) by (cases ys) auto
  finally show "next_it (xs @ e # ys) (fst e) = begin_it ys" by (simp add: next_it_def)
  show "filter (\<lambda>x. fst x \<noteq> fst e) (xs @ e # ys) = xs @ ys"
    using lt filter_True[of xs "\<lambda>x. fst x \<noteq> fst e"] filter_True[of ys "\<lambda>x. fst x \<noteq> fst e"] by fastforce
qed

text \<open>
  What a server answers to at most so many requests to cancel, one after the other: how many it accepts before it
  refuses one, the exception that reports the refusal, and the server afterwards.
\<close>

fun cancel_answers :: "'db async \<Rightarrow> nat \<Rightarrow> 'db \<Rightarrow> nat \<times> exn option \<times> 'db" where
  "cancel_answers apq 0 d = (0, None, d)"
| "cancel_answers apq (Suc n) d = (if \<not> pq_get_cancel apq d then (0, Some Bad_alloc, d) else case pq_cancel apq d of
     (Some err, d1) \<Rightarrow> (0, Some (Sql_error_class ''sql_error'' []), d1)
   | (None, d1) \<Rightarrow> (let (k, e, d2) = cancel_answers apq n d1 in (Suc k, e, d2)))"

lemma cancel_answers_all: "cancel_answers apq m d = (n, e, d') \<Longrightarrow> n \<le> m \<and> (e = None \<longleftrightarrow> n = m)"
  by (induction m arbitrary: d n e d') (auto split: if_splits prod.splits option.splits)

lemma cancel_loop_ok:
  assumes "sorted_wrt (<) (map fst (xs @ ys @ zs))" "m_queries w = xs @ ys @ zs" "m_first w = begin_it (ys @ zs)" "m_second w = begin_it zs"
    "length ys < fuel" "cancel_answers apq (length ys) (db w) = (n, e, d)"
  shows "cancel_loop apq fuel w = ((case e of None \<Rightarrow> Inr () | Some x \<Rightarrow> Inl (Throw x)),
    w\<lparr>db := d, m_queries := xs @ drop n ys @ zs, m_first := begin_it (drop n ys @ zs)\<rparr>)"
  using assms
proof (induction fuel arbitrary: ys w n)
  case (Suc m)
  show ?case
  proof (cases ys)
    case Nil
    with Suc.prems show ?thesis by (cases w) (auto simp: prog_simps pending_app)
  next
    case (Cons y es)
    have s: "sorted_wrt (<) (map fst (xs @ y # es @ zs))" using Suc.prems(1) Cons by simp
    note head = sorted_head[OF s]
    have ne: "begin_it zs \<noteq> Some (fst y)" using s by (cases zs) (auto simp: begin_it_def sorted_wrt_append)
    have first: "m_first w = Some (fst y)" using Suc.prems(3) Cons by (simp add: begin_it_def)
    have same: "w\<lparr>db := d', m_queries := xs @ ys @ zs, m_first := begin_it (ys @ zs)\<rparr> = w\<lparr>db := d'\<rparr>" for d'
      using Suc.prems(2,3) by simp
    obtain c d1 where c: "pq_cancel apq (db w) = (c, d1)" by fastforce
    show ?thesis
    proof (cases "pq_get_cancel apq (db w)")
      case False
      with Suc.prems Cons first ne same[of d] show ?thesis by (auto simp: pending_app cancel_query_def prog_simps)
    next
      case handle: True
      show ?thesis
      proof (cases c)
        case (Some err)
        with Suc.prems(4-) Cons first ne same[of d] c handle show ?thesis
          by (auto simp: pending_app cancel_query_def prog_simps)
      next
        case None
        let ?w = "w\<lparr>db := d1, m_first := begin_it (es @ zs), m_queries := xs @ es @ zs\<rparr>"
        obtain k q where y: "y = (k, q)" by fastforce
        have step: "cancel_loop apq (Suc m) w = cancel_loop apq m ?w"
          using Suc.prems(2,4) Cons first ne c None handle head unfolding y
          by (simp add: pending_app cancel_query_def deref_app advance_first_def upd_queries_def prog_simps del: filter_append map_of_append)
        obtain n' where n': "n = Suc n'" "cancel_answers apq (length es) d1 = (n', e, d)"
          using Suc.prems(6) Cons c None handle by (auto split: prod.splits)
        have "sorted_wrt (<) (map fst (xs @ es @ zs))" using s by (auto simp: sorted_wrt_append)
        from Suc.IH[OF this, of ?w n'] Suc.prems(4,5) Cons n' step show ?thesis by simp
      qed
    qed
  qed
qed simp

text \<open>
  C6.  Cancelling, for any server: with \<open>ys\<close> the queries that are pending, \<open>cancel\<close> makes one request to the server for each of them, as
  long as the server accepts, and drops from the map exactly the queries whose requests were accepted, in order.  It returns normally when all
  are dropped, and then nothing is pending; otherwise it throws what the first refused request throws (\<open>bad_alloc\<close> where
  libpq gives no handle), and the query of that request and the later ones stay.  Nothing else of the pipeline changes.
\<close>

theorem cancel_drops_pending:
  assumes "m_queries w = xs @ ys @ zs" "sorted_wrt (<) (map fst (m_queries w))" "m_first w = begin_it (ys @ zs)" "m_second w = begin_it zs"
    and "cancel_answers apq (length ys) (db w) = (n, e, d)"
  shows "pipe_cancel apq w = ((case e of None \<Rightarrow> Inr () | Some x \<Rightarrow> Inl (Throw x)),
      w\<lparr>db := d, m_queries := xs @ drop n ys @ zs, m_first := begin_it (drop n ys @ zs)\<rparr>)
    \<and> (e = None \<longleftrightarrow> n = length ys) \<and> (e = None \<longrightarrow> fst (have_pending (snd (pipe_cancel apq w))) = Inr False)"
  using cancel_loop_ok[of xs ys zs w "Suc (length (m_queries w))" apq n e d] cancel_answers_all[OF assms(5)] assms
  by (auto simp: pipe_cancel_def pending_app bnd_app gets_app simp del: cancel_loop.simps)

text \<open>A server that accepts as many requests as its state says.\<close>

definition wary_async :: "nat async" where
  "wary_async = \<lparr>pq_send = (\<lambda>s d. (True, d)), pq_get = (\<lambda>d. (None, d)), pq_busy = (\<lambda>d. False), pq_get_cancel = (\<lambda>d. True),
     pq_cancel = (\<lambda>d. if d = 0 then (Some ''refused'', 0) else (None, d - 1))\<rparr>"

definition three_queries :: queries where
  "three_queries = [(1, \<lparr>q_text = ''a'', q_res = None\<rparr>), (2, \<lparr>q_text = ''b'', q_res = None\<rparr>), (3, \<lparr>q_text = ''c'', q_res = None\<rparr>)]"

definition wary_pipe :: "nat pipe" where
  "wary_pipe = (raw_pipe 1)\<lparr>m_queries := three_queries, m_first := Some 1, m_second := Some 3\<rparr>"

theorem cancel_drops_pending_witness:
  "\<exists>w'. pipe_cancel wary_async wary_pipe = (Inl (Throw (Sql_error_class ''sql_error'' [])), w') \<and> m_queries w' = drop 1 three_queries"
proof -
  let ?ys = "[(1, \<lparr>q_text = ''a'', q_res = None\<rparr>), (2, \<lparr>q_text = ''b'', q_res = None\<rparr>)]" and ?zs = "[(3, \<lparr>q_text = ''c'', q_res = None\<rparr>)]"
  have "m_queries wary_pipe = [] @ ?ys @ ?zs" "sorted_wrt (<) (map fst (m_queries wary_pipe))" "m_first wary_pipe = begin_it (?ys @ ?zs)"
    "m_second wary_pipe = begin_it ?zs" by (simp_all add: wary_pipe_def three_queries_def begin_it_def)
  moreover have "cancel_answers wary_async (length ?ys) (db wary_pipe) = (1, Some (Sql_error_class ''sql_error'' []), 0)"
    by (simp add: wary_async_def raw_pipe_def wary_pipe_def)
  ultimately have "pipe_cancel wary_async wary_pipe = ((case Some (Sql_error_class ''sql_error'' []) of None \<Rightarrow> Inr () | Some x \<Rightarrow> Inl (Throw x)),
      wary_pipe\<lparr>db := 0, m_queries := [] @ drop 1 ?ys @ ?zs, m_first := begin_it (drop 1 ?ys @ ?zs)\<rparr>)"
    by (rule cancel_drops_pending[THEN conjunct1])
  then show ?thesis by (simp add: three_queries_def)
qed

text \<open>
  A server that refuses \<open>VACUUM\<close> in a text of several statements, as PostgreSQL does, and executes everything else.
  The state is the queue of results.
\<close>

definition done_result :: pgresult where
  "done_result = \<lparr>pg_status = PGRES_COMMAND_OK, pg_message = [], pg_sqlstate = None, pg_rows = []\<rparr>"

definition refusal :: pgresult where
  "refusal = \<lparr>pg_status = PGRES_FATAL_ERROR, pg_message = ''VACUUM cannot run inside a transaction block'',
     pg_sqlstate = Some ''25001'', pg_rows = []\<rparr>"

definition vacuum_async :: "pgresult list async" where
  "vacuum_async = \<lparr>pq_send = (\<lambda>s q. (True, if CHR '';'' \<in> set s then [refusal] else [done_result])),
     pq_get = (\<lambda>q. case q of [] \<Rightarrow> (None, []) | x # xs \<Rightarrow> (Some x, xs)), pq_busy = (\<lambda>q. False), pq_get_cancel = (\<lambda>q. True), pq_cancel = (\<lambda>q. (None, q))\<rparr>"

definition vacuum_pq :: "pgresult list libpq" where
  "vacuum_pq = \<lparr>pq_exec = (\<lambda>s q. (Some done_result, [])), pq_consume = (\<lambda>q. (True, q)), pq_encoding = (\<lambda>q. Some ''UTF8''),
     pq_open = (\<lambda>q. True), pq_error = (\<lambda>q. [])\<rparr>"

definition vacuum_batch :: "int \<Rightarrow> (pgresult list pipe, int \<times> pgresult) prog" where
  "vacuum_batch k = sq (pipe_init vacuum_pq 0) (sq (retain vacuum_pq vacuum_async 0 1)
     (sq (pipe_insert vacuum_pq vacuum_async 0 ''VACUUM'') (sq (pipe_insert vacuum_pq vacuum_async 0 ''ANALYZE'')
     (retrieve vacuum_pq vacuum_async 0 k))))"

theorem replayed_batch_reads_end:
  "fst (vacuum_batch 1 (raw_pipe [])) = Inl (Undefined Index_out_of_range)"
  by code_simp

text \<open>
  The error state of a pipeline outlives \<open>flush\<close>: when nothing is under way and a query has failed before, then after
  \<open>flush\<close> the queries are forgotten, but the point of the error is not reset, and the result of a query inserted
  afterwards is refused because of the earlier error.
\<close>

theorem flush_keeps_error:
  assumes "m_first w = m_second w" "m_queries w \<noteq> []" "focus_ok t w" "m_error w \<le> m_q_id w + 1" "m_q_id w < qid_limit" "0 < m_retain w"
  shows "fst (pipe_flush pq apq t w) = Inr () \<and> m_queries (snd (pipe_flush pq apq t w)) = []
     \<and> m_error (snd (pipe_flush pq apq t w)) = m_error w
     \<and> fst (sq (pipe_flush pq apq t) (bnd (pipe_insert pq apq t q) (retrieve pq apq t)) w)
       = Inl (Throw (Runtime_error ''Could not complete query in pipeline due to error in earlier query.''))"
proof -
  let ?x = "w\<lparr>m_first := None, m_second := None, m_num_waiting := 0, m_dummy_pending := False, m_queries := [],
    txs := (txs w)[t := (txs w ! t)\<lparr>m_focus := None\<rparr>], pipe_registered := False\<rparr>"
  have F: "t < length (txs w)" "m_focus (txs w ! t) = (if pipe_registered w then Some (''pipeline'', pipe_name w) else None)"
    using assms(3) by (auto simp: focus_ok_def)
  have same: "(txs w)[t := (txs w ! t)\<lparr>m_focus := None\<rparr>] = txs w" if "\<not> pipe_registered w"
    using F that list_update_id[of "txs w" t] by (cases "txs w ! t") simp
  have flush: "pipe_flush pq apq t w = (Inr (), ?x)"
  proof -
    let ?c = "w\<lparr>m_first := None, m_second := None, m_num_waiting := 0, m_dummy_pending := False, m_queries := []\<rparr>"
    have d: "detach t ?c = (Inr (), ?x)"
    proof (cases "pipe_registered w")
      case True
      with F show ?thesis
        by (simp add: prog_simps detach_def unregister_me_def unregister_focus_def tx_prims guest_defs lift_exn_def try_catch_def)
    next
      case False
      then have "?x = ?c" using same by simp
      with False show ?thesis by (simp add: prog_simps detach_def)
    qed
    with assms(1,2) show ?thesis by (simp add: pipe_flush_def pending_app prog_simps)
  qed
  moreover have "fst (bnd (pipe_insert pq apq t q) (retrieve pq apq t) ?x)
      = Inl (Throw (Runtime_error ''Could not complete query in pipeline due to error in earlier query.''))"
  proof -
    obtain y where y: "pipe_insert pq apq t q ?x = (Inr (m_q_id w + 1), y)" "m_error y = m_error w"
      "m_queries y = [(m_q_id w + 1, \<lparr>q_text = q, q_res = None\<rparr>)]"
      using F assms(5,6)
      by (simp add: pipe_insert_def prog_simps attach_def register_me_def register_focus_def tx_prims guest_defs lift_exn_def
          generate_id_def upd_queries_def)
    then show ?thesis using assms(4)
      by (simp add: bnd_app[of "pipe_insert _ _ _ _"] retrieve_def find_it_def retrieve_it_def Let_def bnd_app[of "gets _"] gets_app sq_app whn_app throw_app)
  qed
  ultimately show ?thesis by (simp add: sq_app)
qed

theorem flush_keeps_error_witness:
  "fst (sq (pipe_flush vacuum_pq vacuum_async 0) (bnd (pipe_insert vacuum_pq vacuum_async 0 ''ANALYZE'') (retrieve vacuum_pq vacuum_async 0))
      ((raw_pipe [])\<lparr>m_queries := [(1, \<lparr>q_text = ''VACUUM'', q_res = Some refusal\<rparr>)], m_q_id := 1, m_error := 2, m_retain := 1\<rparr>))
    = Inl (Throw (Runtime_error ''Could not complete query in pipeline due to error in earlier query.''))"
  using flush_keeps_error[of "(raw_pipe [])\<lparr>m_queries := [(1, \<lparr>q_text = ''VACUUM'', q_res = Some refusal\<rparr>)], m_q_id := 1, m_error := 2,
      m_retain := 1\<rparr>" 0 vacuum_pq vacuum_async "''ANALYZE''"]
  by (simp add: raw_pipe_def focus_ok_def new_tx_def qid_limit_def)

end
