(* ===== verification/Pqxx_Kinds.thy ===== *)
theory Pqxx_Kinds
  imports Pqxx_Session
begin

text \<open>
  The other kinds of transaction: \<open>nontransaction.hxx\<close>, \<open>subtransaction.cxx\<close> and \<open>robusttransaction.cxx\<close>.  They share
  \<open>commit\<close>, \<open>abort\<close> and \<open>close\<close> of \<open>transaction_base.cxx\<close> and differ in their virtual functions.
\<close>

subsection \<open>Virtual functions\<close>

record 'w kind =
  k_commit :: "nat \<Rightarrow> ('w, unit) prog"
  k_abort :: "nat \<Rightarrow> ('w, unit) prog"

type_synonym ('db, 'z) session_kind = "('db, 'z) session_scheme kind"

definition kind_abort :: "('db, 'z) session_kind \<Rightarrow> nat \<Rightarrow> (('db, 'z) session_scheme, unit) prog" where
  "kind_abort K t = bnd (get_tx t) (\<lambda>x. bnd (tx_description t) (\<lambda>desc. case m_status x of
       Tx_active \<Rightarrow>
         sq (try_catch (k_abort K t) (\<lambda>e. process_notice (exn_what e @ [CHR 0x0A])))
         (sq (upd_tx t (\<lambda>x. x\<lparr>m_status := Tx_aborted\<rparr>)) (close_registration t))
     | Tx_aborted \<Rightarrow> ret ()
     | Tx_committed \<Rightarrow> throw (Usage_error (''Attempt to abort previously committed '' @ desc @ ''.''))
     | Tx_in_doubt \<Rightarrow> process_notice (''Warning: '' @ desc @ '' aborted after going into indeterminate state; ''
                                     @ ''it may have been executed anyway.'' @ [CHR 0x0A])))"

definition kind_close :: "('db, 'z) session_kind \<Rightarrow> nat \<Rightarrow> (('db, 'z) session_scheme, unit) prog" where
  "kind_close K t =
     sq (close_registration t)
     (bnd (get_tx t) (\<lambda>x.
        if m_status x \<noteq> Tx_active then ret ()
        else sq (case m_focus x of None \<Rightarrow> ret ()
                 | Some f \<Rightarrow> bnd (tx_description t) (\<lambda>desc.
                     process_notice (''Closing '' @ desc @ '' with '' @ describe_object (fst f) (snd f) @ '' still open.'' @ [CHR 0x0A])))
             (try_catch (kind_abort K t) (\<lambda>e. process_notice (exn_what e)))))"

definition kind_commit :: "('db, 'z) session_kind \<Rightarrow> 'db libpq \<Rightarrow> nat \<Rightarrow> (('db, 'z) session_scheme, unit) prog" where
  "kind_commit K pq t =
     sq (check_pending_error t)
     (bnd (get_tx t) (\<lambda>x. bnd (tx_description t) (\<lambda>desc. case m_status x of
         Tx_aborted \<Rightarrow> throw (Usage_error (''Attempt to commit previously aborted '' @ desc))
       | Tx_committed \<Rightarrow> process_notice (desc @ '' committed more than once.'' @ [CHR 0x0A])
       | Tx_in_doubt \<Rightarrow> throw In_doubt_error
       | Tx_active \<Rightarrow>
           case m_focus x of
             Some f \<Rightarrow> throw (Failure (''Attempt to commit '' @ desc @ '' with '' @ describe_object (fst f) (snd f)
                              @ '' still open.''))
           | None \<Rightarrow> bnd (is_open pq) (\<lambda>op.
             if \<not> op then throw Broken_connection
             else sq (try_catch
                       (sq (k_commit K t) (upd_tx t (\<lambda>x. x\<lparr>m_status := Tx_committed\<rparr>)))
                       (\<lambda>e. if e = In_doubt_error
                            then sq (upd_tx t (\<lambda>x. x\<lparr>m_status := Tx_in_doubt\<rparr>)) (throw e)
                            else sq (upd_tx t (\<lambda>x. x\<lparr>m_status := Tx_aborted\<rparr>)) (throw e)))
                  (kind_close K t)))))"

definition kind_destructor :: "('db, 'z) session_kind \<Rightarrow> nat \<Rightarrow> (('db, 'z) session_scheme, unit) prog" where
  "kind_destructor K t = sq (kind_close K t) (base_destructor t)"

text \<open>The operations of \<open>Pqxx_Session\<close> are those of the ordinary transaction.\<close>

definition basic_kind :: "'db libpq \<Rightarrow> ('db, 'z) session_kind" where
  "basic_kind pq = \<lparr>k_commit = do_commit pq, k_abort = do_abort pq\<rparr>"

lemma basic_kind_ops:
  "kind_abort (basic_kind pq) t = tx_abort pq t" "kind_close (basic_kind pq) t = tx_close pq t"
  "kind_commit (basic_kind pq) pq t = tx_commit pq t" "kind_destructor (basic_kind pq) t = work_destructor pq t"
  unfolding basic_kind_def kind_abort_def kind_close_def kind_commit_def kind_destructor_def
      tx_abort_def tx_close_def tx_commit_def work_destructor_def kind.select_convs by (rule refl)+

subsection \<open>nontransaction\<close>

text \<open>It has no command for rolling back, and its \<open>do_commit\<close> does nothing.\<close>

definition non_kind :: "('db, 'z) session_kind" where
  "non_kind = \<lparr>k_commit = (\<lambda>t. ret ()), k_abort = (\<lambda>t. ret ())\<rparr>"

definition alloc_named :: "string \<Rightarrow> (('db, 'z) session_scheme, nat) prog" where
  "alloc_named n = bnd alloc_tx (\<lambda>t. sq (upd_tx t (\<lambda>x. x\<lparr>m_name := n\<rparr>)) (ret t))"

definition nontransaction :: "string \<Rightarrow> (('db, 'z) session_scheme, nat) prog" where
  "nontransaction n = bnd (alloc_named n) (\<lambda>t.
     try_catch (sq (register_transaction t) (ret t)) (\<lambda>e. sq (base_destructor t) (throw e)))"

definition with_nontransaction :: "string \<Rightarrow> (nat \<Rightarrow> (('db, 'z) session_scheme, 'a) prog) \<Rightarrow> (('db, 'z) session_scheme, 'a) prog" where
  "with_nontransaction n body = bnd (nontransaction n) (\<lambda>t. guard_with (body t) (\<lambda>w. snd (kind_destructor non_kind t w)))"

subsection \<open>subtransaction\<close>

text \<open>The connection counts the names that it has adorned.\<close>

record 'db naming_session = "'db session" +
  m_unique_id :: int

definition adorn_name :: "string \<Rightarrow> (('db, 'z) naming_session_scheme, string) prog" where
  "adorn_name n = sq (modify (\<lambda>w. w\<lparr>m_unique_id := m_unique_id w + 1\<rparr>)) (bnd (gets m_unique_id) (\<lambda>i.
     let id = int_to_string i in ret (if n = [] then CHR ''x'' # id else n @ CHR ''_'' # id)))"

text \<open>\<open>quote\<close> is \<open>quote_name\<close>, which is a call of libpq; \<open>name\<close> is the adorned name.\<close>

definition sub_kind :: "'db libpq \<Rightarrow> (string \<Rightarrow> string) \<Rightarrow> string \<Rightarrow> ('db, 'z) session_kind" where
  "sub_kind pq quote name = \<lparr>k_commit = (\<lambda>t. sq (direct_exec pq t (''RELEASE SAVEPOINT '' @ quote name)) (ret ())),
     k_abort = (\<lambda>t. sq (direct_exec pq t (''ROLLBACK TO SAVEPOINT '' @ quote name)) (ret ()))\<rparr>"

definition subtransaction :: "'db libpq \<Rightarrow> (string \<Rightarrow> string) \<Rightarrow> string \<Rightarrow> (('db, 'z) naming_session_scheme, nat \<times> string) prog" where
  "subtransaction pq quote tname = bnd (adorn_name tname) (\<lambda>name. bnd (alloc_named tname) (\<lambda>t.
     try_catch (sq (direct_exec pq t (''SAVEPOINT '' @ quote name)) (ret (t, name)))
       (\<lambda>e. sq (base_destructor t) (throw e))))"

definition with_subtransaction ::
  "'db libpq \<Rightarrow> (string \<Rightarrow> string) \<Rightarrow> string \<Rightarrow> (nat \<Rightarrow> string \<Rightarrow> (('db, 'z) naming_session_scheme, 'a) prog)
     \<Rightarrow> (('db, 'z) naming_session_scheme, 'a) prog" where
  "with_subtransaction pq quote tname body = bnd (subtransaction pq quote tname) (\<lambda>(t, name).
     guard_with (body t name) (\<lambda>w. snd (kind_destructor (sub_kind pq quote name) t w)))"

subsection \<open>robusttransaction\<close>

datatype tx_stat = Stat_unknown | Stat_committed | Stat_aborted | Stat_in_progress

definition parse_status :: "string \<Rightarrow> tx_stat" where
  "parse_status text = (if text = ''aborted'' then Stat_aborted else if text = ''committed'' then Stat_committed
     else if text = ''in progress'' then Stat_in_progress else Stat_unknown)"

text \<open>The row of a result of one row.  A result without rows is taken to have the columns that are expected.\<close>

definition one_row :: "pgresult \<Rightarrow> exn + cell list" where
  "one_row r = (case pg_rows r of [row] \<Rightarrow> Inr row | _ \<Rightarrow> Inl Unexpected_rows)"

definition one_field :: "string \<Rightarrow> pgresult \<Rightarrow> exn + cell" where
  "one_field query r = (case pg_rows r of
       row # _ \<Rightarrow> if length row \<noteq> 1
         then Inl (Usage_error (''Expected 1 column(s) from query '' @ [CHR 0x27] @ query @ [CHR 0x27] @ '', got ''
           @ int_to_string (int (length row)) @ ''.''))
         else (case one_row r of Inl e \<Rightarrow> Inl e | Inr row \<Rightarrow> Inr (hd row))
     | [] \<Rightarrow> Inl Unexpected_rows)"

text \<open>
  \<open>connect\<close> opens a second connection: an exception, or its state, and what becomes of the first.  The second
  connection has its own session, which ends with \<open>query_status\<close>.
\<close>

type_synonym 'db connector = "'db \<Rightarrow> (exn + 'db) \<times> 'db"

definition status_of_row :: "cell list \<Rightarrow> exn + tx_stat" where
  "status_of_row row = (let text = (case row of Some v # _ \<Rightarrow> v | _ \<Rightarrow> []) in
     if text = [] then Inl (Internal_error ''Transaction status string is empty.'')
     else if parse_status text = Stat_unknown then Inl (Internal_error (''Unknown transaction status string: '' @ text))
     else Inr (parse_status text))"

definition query_status :: "'db libpq \<Rightarrow> 'db connector \<Rightarrow> string \<Rightarrow> (('db, 'z) session_scheme, tx_stat) prog" where
  "query_status pq connect xid = (\<lambda>w. case connect (db w) of
       (Inl e, d) \<Rightarrow> (Inl (Throw e), w\<lparr>db := d\<rparr>)
     | (Inr cx, d) \<Rightarrow>
         (fst (with_nontransaction ''robusttxck'' (\<lambda>t.
            bnd (tx_exec pq t (''SELECT txid_status('' @ xid @ '')'')) (\<lambda>r.
            bnd (lift_exn (one_row r)) (\<lambda>row. lift_exn (status_of_row row)))) (fresh_session cx)),
          w\<lparr>db := d\<rparr>))"

definition is_broken :: "exn \<Rightarrow> bool" where
  "is_broken e \<longleftrightarrow> e = Broken_connection \<or> e = Too_many_connections"

fun resolve_doubt :: "'db libpq \<Rightarrow> 'db connector \<Rightarrow> nat \<Rightarrow> string \<Rightarrow> nat \<Rightarrow> (('db, 'z) session_scheme, unit) prog" where
  "resolve_doubt pq connect t xid 0 = throw In_doubt_error"
| "resolve_doubt pq connect t xid (Suc attempts) = bnd
     (try_catch (bnd (query_status pq connect xid) (\<lambda>s. case s of
          Stat_unknown \<Rightarrow> ret True
        | Stat_committed \<Rightarrow> ret True
        | Stat_aborted \<Rightarrow> sq (do_abort pq t) (ret True)
        | Stat_in_progress \<Rightarrow> ret False))
      (\<lambda>e. if is_broken e then ret False else throw e))
     (\<lambda>over. if over then ret () else resolve_doubt pq connect t xid attempts)"

definition max_attempts :: nat where "max_attempts = 500"

definition robust_commit :: "'db libpq \<Rightarrow> 'db connector \<Rightarrow> string \<Rightarrow> nat \<Rightarrow> (('db, 'z) session_scheme, unit) prog" where
  "robust_commit pq connect xid t =
     sq (try_catch (sq (direct_exec pq t ''SET CONSTRAINTS ALL IMMEDIATE'') (ret ()))
          (\<lambda>e. sq (do_abort pq t) (throw e)))
     (bnd (try_catch (sq (direct_exec pq t ''COMMIT'') (ret True)) (\<lambda>e. if is_broken e then ret False
        else bnd (is_open pq) (\<lambda>op. if op then sq (do_abort pq t) (throw e) else ret False)))
     (\<lambda>over. if over then ret () else resolve_doubt pq connect t xid max_attempts))"

definition robust_kind :: "'db libpq \<Rightarrow> 'db connector \<Rightarrow> string \<Rightarrow> ('db, 'z) session_kind" where
  "robust_kind pq connect xid = \<lparr>k_commit = robust_commit pq connect xid, k_abort = do_abort pq\<rparr>"

text \<open>\<open>init\<close>: the transaction and its identifier, which is converted from the one field of the result.\<close>

definition robust_init :: "'db libpq \<Rightarrow> string \<Rightarrow> nat \<Rightarrow> (('db, 'z) session_scheme, string) prog" where
  "robust_init pq begin_command t = sq (direct_exec pq t begin_command)
     (bnd (direct_exec pq t ''SELECT txid_current()'') (\<lambda>r. bnd (lift_exn (one_field ''SELECT txid_current()'' r)) (\<lambda>c.
       case c of None \<Rightarrow> throw (Conversion_error ''Attempted to convert SQL null to std::string.'') | Some xid \<Rightarrow> ret xid)))"

definition robusttransaction :: "'db libpq \<Rightarrow> string \<Rightarrow> (('db, 'z) session_scheme, nat \<times> string) prog" where
  "robusttransaction pq begin_command = bnd alloc_tx (\<lambda>t.
     try_catch (bnd (robust_init pq begin_command t) (\<lambda>xid. ret (t, xid))) (\<lambda>e. sq (base_destructor t) (throw e)))"

subsection \<open>Transactions that are not registered\<close>

text \<open>
  Neither a subtransaction nor a robusttransaction registers itself with the connection.  Between calls such an object
  has no focus and no pending error; the calls change nothing of the session but the object, the server and the notices.
\<close>

definition loose :: "nat \<Rightarrow> ('db, 'z) session_scheme \<Rightarrow> bool" where
  "loose t w \<longleftrightarrow> t < length (txs w) \<and> \<not> m_registered (txs w ! t) \<and> m_focus (txs w ! t) = None \<and> m_pending_error (txs w ! t) = []"

definition apart :: "nat \<Rightarrow> ('db, 'z) session_scheme \<Rightarrow> ('db, 'z) session_scheme \<Rightarrow> bool" where
  "apart t w w' \<longleftrightarrow> (\<exists>x d ns. w' = w\<lparr>txs := (txs w)[t := x], db := d, notices := ns\<rparr>)"

lemma apart_refl: "apart t w w"
  unfolding apart_def by (intro exI[of _ "txs w ! t"] exI[of _ "db w"] exI[of _ "notices w"]) simp

lemma apart_trans: "apart t w w1 \<Longrightarrow> apart t w1 w2 \<Longrightarrow> apart t w w2"
  unfolding apart_def by force

lemma apart_step: "apart t w (w\<lparr>txs := (txs w)[t := x], db := d, notices := ns\<rparr>)"
  unfolding apart_def by blast

lemma apart_same:
  assumes "apart t w w'"
  shows "m_trans w' = m_trans w" "length (txs w') = length (txs w)" "i \<noteq> t \<Longrightarrow> txs w' ! i = txs w ! i"
  using assms by (auto simp: apart_def)

definition with_status :: "nat \<Rightarrow> tx_status \<Rightarrow> 'db \<Rightarrow> string list \<Rightarrow> ('db, 'z) session_scheme \<Rightarrow> ('db, 'z) session_scheme" where
  "with_status t st d ns w = w\<lparr>db := d, notices := notices w @ ns, txs := (txs w)[t := (txs w ! t)\<lparr>m_status := st\<rparr>]\<rparr>"

lemma with_status_loose: "loose t w \<Longrightarrow> loose t (with_status t st d ns w)"
  by (simp add: loose_def with_status_def)

lemma with_status_simps [simp]:
  "t < length (txs w) \<Longrightarrow> m_status (txs (with_status t st d ns w) ! t) = st" "db (with_status t st d ns w) = d"
  by (simp_all add: with_status_def)

lemma with_status_same: "with_status t (m_status (txs w ! t)) d ns w = w\<lparr>db := d, notices := notices w @ ns\<rparr>"
proof -
  have "(txs w ! t)\<lparr>m_status := m_status (txs w ! t)\<rparr> = txs w ! t" by simp
  then show ?thesis unfolding with_status_def by (cases w) simp
qed

lemma tx_exec_loose:
  assumes "loose t w"
  shows "tx_exec pq t q w =
    (if m_status (txs w ! t) = Tx_active
     then (fst (exec_db pq q (db w)), w\<lparr>db := snd (exec_db pq q (db w))\<rparr>)
     else (Inl (Throw (Usage_error ''Could not execute command: transaction is already closed.'')), w))"
proof -
  have t: "t < length (txs w)" "m_pending_error (txs w ! t) = []" "m_focus (txs w ! t) = None"
    using assms by (simp_all add: loose_def)
  then have bk: "(txs w ! t)\<lparr>m_focus := None\<rparr> = txs w ! t"
    by (cases "txs w ! t") simp
  show ?thesis
    by (rule settledE[OF settled_exec_db[of pq q "db w"]]; cases "m_status (txs w ! t)")
      (simp_all add: t bk tx_exec_def register_focus_def unregister_focus_def guard_with_def
        check_pending_ok tx_prims guest_defs lift_exn_def direct_exec_ok conn_exec_eq try_catch_def prog_simps)
qed

lemma close_registration_loose: "loose t w \<Longrightarrow> close_registration t w = (Inr (), w)"
  by (simp add: loose_def close_registration_def try_catch_def check_pending_ok tx_prims prog_simps)

lemma base_destructor_loose: "loose t w \<Longrightarrow> base_destructor t w = (Inr (), w)"
  by (simp add: loose_def base_destructor_def tx_prims prog_simps)

text \<open>What a virtual function that sends one statement does.\<close>

definition sends :: "'db libpq \<Rightarrow> string \<Rightarrow> nat \<Rightarrow> (('db, 'z) session_scheme, unit) prog \<Rightarrow> bool" where
  "sends pq q t m \<longleftrightarrow> (\<forall>w. loose t w \<longrightarrow> m w = (case exec_db pq q (db w) of
       (Inl s, d) \<Rightarrow> (Inl s, w\<lparr>db := d\<rparr>) | (Inr r, d) \<Rightarrow> (Inr (), w\<lparr>db := d\<rparr>)))"

lemma direct_exec_sends: "sends pq q t (sq (direct_exec pq t q) (ret ()))"
  by (simp add: sends_def loose_def direct_exec_ok conn_exec_eq prog_simps split: prod.split sum.split)

lemma do_abort_sends: "sends pq ''ROLLBACK'' t (do_abort pq t)"
  unfolding do_abort_def by (rule direct_exec_sends)

lemma loose_db [simp]: "loose t (w\<lparr>db := d\<rparr>) = loose t w" "loose t (w\<lparr>notices := ns\<rparr>) = loose t w"
  by (simp_all add: loose_def)

lemma kind_abort_loose:
  assumes L: "loose t w" and S: "sends pq q t (k_abort K t)"
  shows "\<exists>r ns. settled r \<and> kind_abort K t w = (r, if m_status (txs w ! t) = Tx_active
      then with_status t Tx_aborted (snd (exec_db pq q (db w))) ns w else w\<lparr>notices := notices w @ ns\<rparr>)"
proof (cases "m_status (txs w ! t)")
  case Tx_active
  obtain r d where x: "exec_db pq q (db w) = (r, d)" by fastforce
  have "settled r" using settled_exec_db[of pq q "db w"] x by simp
  then obtain ns where n: "try_catch (k_abort K t) (\<lambda>e. process_notice (exn_what e @ [CHR 0x0A])) w = (Inr (), w\<lparr>db := d, notices := notices w @ ns\<rparr>)"
  proof (rule settledE)
    fix e assume "r = Inl (Throw e)"
    with S L x that[of "[exn_what e @ [CHR 0x0A]]"] show ?thesis
      by (simp add: sends_def try_catch_def process_notice_def prog_simps)
  next
    fix a assume "r = Inr a"
    with S L x that[of "[]"] show ?thesis by (simp add: sends_def try_catch_def)
  qed
  have L2: "loose t (with_status t Tx_aborted d ns w)" using with_status_loose[OF L] .
  have "kind_abort K t w = (Inr (), with_status t Tx_aborted d ns w)"
    using n close_registration_loose[OF L2] Tx_active
    by (simp add: kind_abort_def get_tx_def tx_description_def upd_tx_def prog_simps with_status_def)
  with Tx_active x show ?thesis by (intro exI[of _ "Inr ()"] exI[of _ ns]) simp
qed (auto simp: kind_abort_def tx_prims prog_simps intro: exI[of _ "[]"])

lemma kind_close_loose:
  assumes L: "loose t w" and S: "sends pq q t (k_abort K t)"
  shows "\<exists>ns. kind_close K t w = (Inr (), if m_status (txs w ! t) = Tx_active
      then with_status t Tx_aborted (snd (exec_db pq q (db w))) ns w else w)"
proof (cases "m_status (txs w ! t) = Tx_active")
  case True
  obtain r ns where "settled r" "kind_abort K t w = (r, with_status t Tx_aborted (snd (exec_db pq q (db w))) ns w)"
    using kind_abort_loose[OF L S] True by auto
  then obtain ns' where "try_catch (kind_abort K t) (\<lambda>e. process_notice (exn_what e)) w
      = (Inr (), with_status t Tx_aborted (snd (exec_db pq q (db w))) ns' w)"
  proof (elim settledE)
    fix e assume "kind_abort K t w = (r, with_status t Tx_aborted (snd (exec_db pq q (db w))) ns w)" "r = Inl (Throw e)"
    with that[of "ns @ (if exn_what e = [] then [] else [exn_what e])"] show ?thesis
      by (cases "exn_what e = []") (simp_all add: try_catch_def process_notice_def prog_simps with_status_def)
  next
    fix a assume "kind_abort K t w = (r, with_status t Tx_aborted (snd (exec_db pq q (db w))) ns w)" "r = Inr a"
    with that[of ns] show ?thesis by (simp add: try_catch_def)
  qed
  moreover have "m_focus (txs w ! t) = None" using L by (simp add: loose_def)
  ultimately show ?thesis using True close_registration_loose[OF L]
    by (auto simp: kind_close_def sq_app bnd_app get_tx_def gets_app ret_app)
qed (simp add: kind_close_def sq_app close_registration_loose[OF L] bnd_app get_tx_def gets_app ret_app)

lemma kind_destructor_loose:
  assumes L: "loose t w" and S: "sends pq q t (k_abort K t)"
  shows "\<exists>ns. kind_destructor K t w = (Inr (), if m_status (txs w ! t) = Tx_active
      then with_status t Tx_aborted (snd (exec_db pq q (db w))) ns w else w)"
  using kind_close_loose[OF L S] with_status_loose[OF L] base_destructor_loose L
  by (fastforce simp: kind_destructor_def sq_app)

text \<open>
  \<open>commit\<close> in terms of what \<open>do_commit\<close> does with the session: it may say anything, as long as it leaves the object
  loose.
\<close>

lemma kind_commit_loose:
  assumes L: "loose t w" and A: "m_status (txs w ! t) = Tx_active"
    and C: "k_commit K t w = (r, w1)" "settled r" "loose t w1"
  shows "kind_commit K pq t w = (if \<not> pq_open pq (db w) then (Inl (Throw Broken_connection), w)
     else (r, with_status t (case r of Inr _ \<Rightarrow> Tx_committed | Inl s \<Rightarrow> if s = Throw In_doubt_error then Tx_in_doubt else Tx_aborted)
       (db w1) [] w1))"
proof -
  have pre: "check_pending_error t w = (Inr (), w)" "m_focus (txs w ! t) = None"
    using L by (simp_all add: loose_def check_pending_ok)
  have close: "kind_close K t (with_status t Tx_committed (db w1) [] w1) = (Inr (), with_status t Tx_committed (db w1) [] w1)"
    using with_status_loose[OF C(3)] C(3)
    by (simp add: kind_close_def sq_app close_registration_loose bnd_app get_tx_def gets_app ret_app loose_def)
  show ?thesis
  proof (cases "pq_open pq (db w)")
    case False
    with A pre show ?thesis
      by (simp add: kind_commit_def sq_app bnd_app get_tx_def tx_description_def gets_app ret_app is_open_def throw_app)
  next
    case True
    from C(2) show ?thesis
    proof (rule settledE)
      fix a assume "r = Inr a"
      with True A pre C close show ?thesis
        by (simp add: kind_commit_def sq_app bnd_app get_tx_def tx_description_def gets_app ret_app is_open_def throw_app try_catch_def
            upd_tx_def modify_app with_status_def)
    next
      fix e assume "r = Inl (Throw e)"
      with True A pre C show ?thesis
        by (simp add: kind_commit_def sq_app bnd_app get_tx_def tx_description_def gets_app ret_app is_open_def throw_app try_catch_def
            upd_tx_def modify_app with_status_def)
    qed
  qed
qed

subsection \<open>What the server sees of a subtransaction\<close>

fun kind_call :: "('db, 'z) session_kind \<Rightarrow> 'db libpq \<Rightarrow> nat \<Rightarrow> tx_call \<Rightarrow> (('db, 'z) session_scheme, unit) prog" where
  "kind_call K pq t (Call_exec q) = sq (tx_exec pq t q) (ret ())"
| "kind_call K pq t Call_commit = kind_commit K pq t"
| "kind_call K pq t Call_abort = kind_abort K t"

definition nested :: "string set \<Rightarrow> string list \<Rightarrow> string list \<Rightarrow> nat \<Rightarrow> ('db \<times> string list, 'z) session_scheme \<Rightarrow> bool" where
  "nested ends pre qs t w \<longleftrightarrow> loose t w \<and>
     (if m_status (txs w ! t) = Tx_active then snd (db w) = pre @ qs
      else \<exists>ps x. prefix ps qs \<and> x \<in> ends \<and> snd (db w) = pre @ ps @ [x])"

lemma apart_with_status: "apart t w (with_status t st d ns w)"
  unfolding with_status_def apart_def
  by (rule exI[of _ "(txs w ! t)\<lparr>m_status := st\<rparr>"], rule exI[of _ d], rule exI[of _ "notices w @ ns"]) simp

lemma apart_db: "apart t w (w\<lparr>db := d\<rparr>)" "apart t w (w\<lparr>db := d, notices := ns\<rparr>)" "apart t w (w\<lparr>notices := ns\<rparr>)"
  unfolding apart_def
    by (rule exI[of _ "txs w ! t"], rule exI[of _ d], rule exI[of _ "notices w"], simp)
      (rule exI[of _ "txs w ! t"], rule exI[of _ d], rule exI[of _ ns], simp,
       rule exI[of _ "txs w ! t"], rule exI[of _ "db w"], rule exI[of _ ns], simp)

lemma nested_call:
  assumes N: "nested {c_str cc, c_str ca} pre qs t w"
    and S: "sends (logged pq) cc t (k_commit K t)" "sends (logged pq) ca t (k_abort K t)"
  shows "settled (fst (kind_call K (logged pq) t c w)) \<and> apart t w (snd (kind_call K (logged pq) t c w))
    \<and> nested {c_str cc, c_str ca} pre (qs @ asked [c]) t (snd (kind_call K (logged pq) t c w))"
proof -
  have L: "loose t w" and t: "t < length (txs w)" using N by (simp_all add: nested_def loose_def)
  have grow: "nested {c_str cc, c_str ca} pre (qs @ l) t w" if "m_status (txs w ! t) \<noteq> Tx_active" for l
    using N that by (auto simp: nested_def intro: prefix_prefix)
  show ?thesis
  proof (cases c)
    case (Call_exec q)
    have e: "kind_call K (logged pq) t c w = (case tx_exec (logged pq) t q w of (r, w') \<Rightarrow> (map_sum id (\<lambda>_. ()) r, w'))"
      by (simp add: Call_exec prog_simps split: prod.split sum.split)
    obtain r d where x: "exec_db (logged pq) q (db w) = (r, d)" by (metis surj_pair)
    have sr: "settled r" using settled_exec_db[of "logged pq" q "db w"] x by simp
    have d: "snd d = snd (db w) @ [c_str q]" using log.wire_exec_db[of pq q "db w"] x by simp
    have a: "asked [c] = [c_str q]" by (simp add: asked_def Call_exec)
    show ?thesis
    proof (cases "m_status (txs w ! t) = Tx_active")
      case True
      have sm: "settled (map_sum id (\<lambda>_. ()) r)" using sr by (rule settledE) simp_all
      have "kind_call K (logged pq) t c w = (map_sum id (\<lambda>_. ()) r, w\<lparr>db := d\<rparr>)"
        using e True by (simp add: tx_exec_loose[OF L] x)
      with True N d a sm apart_db(1)[of t w d] show ?thesis by (simp add: nested_def)
    next
      case False
      with e grow[OF False] a apart_refl[of t w] show ?thesis by (simp add: tx_exec_loose[OF L])
    qed
  next
    case Call_commit
    have a: "asked [c] = []" by (simp add: asked_def Call_commit)
    show ?thesis
    proof (cases "m_status (txs w ! t) = Tx_active")
      case True
      obtain r d where x: "exec_db (logged pq) cc (db w) = (r, d)" by (metis surj_pair)
      have sr: "settled r" using settled_exec_db[of "logged pq" cc "db w"] x by simp
      have d: "snd d = snd (db w) @ [c_str cc]" using log.wire_exec_db[of pq cc "db w"] x by simp
      have k: "k_commit K t w = (map_sum id (\<lambda>_. ()) r, w\<lparr>db := d\<rparr>)"
        using S(1) L x by (auto simp: sends_def split: sum.split)
      have sm: "settled (map_sum id (\<lambda>_. ()) r)" using sr by (rule settledE) simp_all
      note kc = kind_commit_loose[OF L True k sm, of "logged pq"]
      show ?thesis
      proof (cases "pq_open (logged pq) (db w)")
        case False
        with kc L N a apart_refl[of t w] show ?thesis by (simp add: Call_commit)
      next
        case True
        let ?st = "case map_sum id (\<lambda>_. ()) r of Inr _ \<Rightarrow> Tx_committed | Inl s \<Rightarrow> if s = Throw In_doubt_error then Tx_in_doubt else Tx_aborted"
        have "?st \<noteq> Tx_active" by (simp split: sum.split)
        moreover have "kind_call K (logged pq) t c w = (map_sum id (\<lambda>_. ()) r, with_status t ?st d [] (w\<lparr>db := d\<rparr>))"
          using kc L True by (simp add: Call_commit)
        moreover have "apart t w (with_status t ?st d [] (w\<lparr>db := d\<rparr>))"
          using apart_trans[OF apart_db(1)[of t w d] apart_with_status[of t "w\<lparr>db := d\<rparr>" ?st d "[]"]] .
        moreover have "\<exists>ps x. prefix ps qs \<and> x \<in> {c_str cc, c_str ca} \<and> snd d = pre @ ps @ [x]"
          using N \<open>m_status (txs w ! t) = Tx_active\<close> d by (intro exI[of _ qs] exI[of _ "c_str cc"]) (simp add: nested_def)
        ultimately show ?thesis using sm t a with_status_loose[of t "w\<lparr>db := d\<rparr>" ?st d "[]"] L
          by (simp add: nested_def)
      qed
    next
      case False
      then have "kind_call K (logged pq) t c w = (case m_status (txs w ! t) of
          Tx_committed \<Rightarrow> (Inr (), w\<lparr>notices := notices w @ [describe_object ''transaction'' (m_name (txs w ! t)) @ '' committed more than once.'' @ [CHR 0x0A]]\<rparr>)
        | Tx_aborted \<Rightarrow> (Inl (Throw (Usage_error (''Attempt to commit previously aborted '' @ describe_object ''transaction'' (m_name (txs w ! t))))), w)
        | _ \<Rightarrow> (Inl (Throw In_doubt_error), w))"
        using L by (cases "m_status (txs w ! t)")
          (simp_all add: Call_commit kind_commit_def loose_def check_pending_ok tx_prims prog_simps)
      with False grow[OF False, of "[]"] N L apart_refl[of t w] apart_db(3)[of t w] a show ?thesis
        by (cases "m_status (txs w ! t)") (simp_all add: nested_def)
    qed
  next
    case Call_abort
    have a: "asked [c] = []" by (simp add: asked_def Call_abort)
    obtain r ns where k: "settled r" "kind_abort K t w = (r, if m_status (txs w ! t) = Tx_active
      then with_status t Tx_aborted (snd (exec_db (logged pq) ca (db w))) ns w else w\<lparr>notices := notices w @ ns\<rparr>)"
      using kind_abort_loose[OF L S(2)] by blast
    show ?thesis
    proof (cases "m_status (txs w ! t) = Tx_active")
      case True
      have "\<exists>ps x. prefix ps qs \<and> x \<in> {c_str cc, c_str ca} \<and> snd (snd (exec_db (logged pq) ca (db w))) = pre @ ps @ [x]"
        using N True log.wire_exec_db[of pq ca "db w"] by (intro exI[of _ qs] exI[of _ "c_str ca"]) (simp add: nested_def)
      with k True L t a apart_with_status with_status_loose[OF L] show ?thesis by (simp add: Call_abort nested_def)
    next
      case False
      with k N L a apart_db(3)[of t w] show ?thesis by (simp add: Call_abort nested_def)
    qed
  qed
qed

lemma nested_script:
  assumes "nested {c_str cc, c_str ca} pre qs t w"
    and S: "sends (logged pq) cc t (k_commit K t)" "sends (logged pq) ca t (k_abort K t)"
  shows "settled (fst (for_each cs (kind_call K (logged pq) t) w)) \<and> apart t w (snd (for_each cs (kind_call K (logged pq) t) w))
    \<and> (\<exists>ps. prefix ps (asked cs) \<and> nested {c_str cc, c_str ca} pre (qs @ ps) t (snd (for_each cs (kind_call K (logged pq) t) w)))"
  using assms(1)
proof (induction cs arbitrary: qs w)
  case Nil
  then show ?case by (simp add: prog_simps asked_def apart_refl)
next
  case (Cons c cs)
  obtain r w1 where c: "kind_call K (logged pq) t c w = (r, w1)" by fastforce
  note n = nested_call[OF Cons.prems S, of c, unfolded c fst_conv snd_conv]
  from conjunct1[OF n] show ?case
  proof (rule settledE)
    fix e assume "r = Inl (Throw e)"
    with c n show ?thesis by (auto simp: prog_simps asked_Cons[of c cs] intro!: exI[of _ "asked [c]"])
  next
    fix a assume r: "r = Inr a"
    have n1: "nested {c_str cc, c_str ca} pre (qs @ asked [c]) t w1" and ap: "apart t w w1" using n by auto
    obtain ps where "prefix ps (asked cs)"
      and "nested {c_str cc, c_str ca} pre (qs @ asked [c] @ ps) t (snd (for_each cs (kind_call K (logged pq) t) w1))"
      using Cons.IH[OF n1] by auto
    with c r Cons.IH[OF n1] apart_trans[OF ap] show ?thesis
      by (auto simp: prog_simps asked_Cons[of c cs] intro!: exI[of _ "asked [c] @ ps"])
  qed
qed

definition adorned :: "string \<Rightarrow> int \<Rightarrow> string" where
  "adorned n i = (if n = [] then CHR ''x'' # int_to_string i else n @ CHR ''_'' # int_to_string i)"

lemma adorn_name_app: "adorn_name n w = (Inr (adorned n (m_unique_id w + 1)), w\<lparr>m_unique_id := m_unique_id w + 1\<rparr>)"
  by (simp add: adorn_name_def adorned_def Let_def prog_simps)

lemma subtransaction_eq:
  assumes x: "exec_db pq (''SAVEPOINT '' @ quote (adorned n (m_unique_id w + 1))) (db w) = (r, d)"
  defines "w1 \<equiv> w\<lparr>m_unique_id := m_unique_id w + 1, txs := txs w @ [new_tx\<lparr>m_name := n\<rparr>], db := d\<rparr>"
  shows "loose (length (txs w)) w1 \<and> subtransaction pq quote n w = (case r of
      Inr a \<Rightarrow> (Inr (length (txs w), adorned n (m_unique_id w + 1)), w1) | Inl s \<Rightarrow> (Inl s, w1))"
proof -
  have L: "loose (length (txs w)) w1" by (simp add: w1_def loose_def new_tx_def)
  have "settled r" using settled_exec_db[of pq "''SAVEPOINT '' @ quote (adorned n (m_unique_id w + 1))" "db w"] x by simp
  then show ?thesis
    by (rule settledE)
      (use L x base_destructor_loose[OF L] in \<open>simp_all add: subtransaction_def adorn_name_app alloc_named_def alloc_tx_def
          try_catch_def direct_exec_ok conn_exec_eq new_tx_def upd_tx_def prog_simps w1_def\<close>)
qed

lemma sub_kind_sends:
  "sends pq (''RELEASE SAVEPOINT '' @ quote n) t (k_commit (sub_kind pq quote n) t)"
  "sends pq (''ROLLBACK TO SAVEPOINT '' @ quote n) t (k_abort (sub_kind pq quote n) t)"
  by (simp_all add: sub_kind_def direct_exec_sends)

text \<open>
  C17.  Subtransactions: a scope \<open>{ subtransaction s(tx); calls }\<close> comes to an end, whatever the server does and whether
  or not a call throws.  The server has then seen \<open>SAVEPOINT\<close> and, unless that failed, a prefix of the statements and exactly
  one \<open>RELEASE SAVEPOINT\<close> or \<open>ROLLBACK TO SAVEPOINT\<close> for the same name, which no earlier subtransaction of the connection had;
  every transaction object that existed before, and the registration with the connection, are unchanged.
\<close>

theorem subtransaction_scope_protocol:
  fixes n :: string and w :: "('db \<times> string list, 'z) naming_session_scheme"
  defines "name \<equiv> adorned n (m_unique_id w + 1)"
  assumes run: "with_subtransaction (logged pq) quote n
      (\<lambda>t nm. for_each calls (kind_call (sub_kind (logged pq) quote nm) (logged pq) t)) w = (r, w')"
  shows "settled r \<and> m_trans w' = m_trans w \<and> take (length (txs w)) (txs w') = txs w \<and> m_unique_id w' = m_unique_id w + 1
    \<and> (\<exists>tl. snd (db w') = snd (db w) @ c_str (''SAVEPOINT '' @ quote name) # tl \<and>
      (tl = [] \<and> (\<exists>e. fst (exec_db (logged pq) (''SAVEPOINT '' @ quote name) (db w)) = Inl (Throw e)) \<or>
       (\<exists>ps x. tl = ps @ [x] \<and> prefix ps (asked calls)
          \<and> x \<in> {c_str (''RELEASE SAVEPOINT '' @ quote name), c_str (''ROLLBACK TO SAVEPOINT '' @ quote name)})))"
proof -
  let ?sp = "''SAVEPOINT '' @ quote name" and ?t = "length (txs w)" and ?K = "sub_kind (logged pq) quote name"
  let ?cc = "''RELEASE SAVEPOINT '' @ quote name" and ?ca = "''ROLLBACK TO SAVEPOINT '' @ quote name"
  obtain x d where x: "exec_db (logged pq) ?sp (db w) = (x, d)" by (metis surj_pair)
  let ?w1 = "w\<lparr>m_unique_id := m_unique_id w + 1, txs := txs w @ [new_tx\<lparr>m_name := n\<rparr>], db := d\<rparr>"
  have d: "snd d = snd (db w) @ [c_str ?sp]" using log.wire_exec_db[of pq ?sp "db w"] x by simp
  note sub = subtransaction_eq[of "logged pq" quote n w, OF x[unfolded name_def], folded name_def]
  have L: "loose ?t ?w1" using sub by blast
  have "settled x" using settled_exec_db[of "logged pq" ?sp "db w"] x by simp
  then show ?thesis
  proof (rule settledE)
    fix e assume "x = Inl (Throw e)"
    with sub run x d show ?thesis by (auto simp: with_subtransaction_def bnd_app)
  next
    fix a assume "x = Inr a"
    let ?m = "for_each calls (kind_call ?K (logged pq) ?t)"
    have new: "subtransaction (logged pq) quote n w = (Inr (?t, name), ?w1)" using sub \<open>x = Inr a\<close> by simp
    obtain r2 w2 where m: "?m ?w1 = (r2, w2)" by fastforce
    have n0: "nested {c_str ?cc, c_str ?ca} (snd (db w) @ [c_str ?sp]) [] ?t ?w1" using L d by (simp add: nested_def new_tx_def)
    note sends = sub_kind_sends[of "logged pq" quote name ?t]
    note script = nested_script[of ?cc ?ca "snd (db w) @ [c_str ?sp]" "[]" ?t ?w1 pq ?K, OF n0 sends, of calls, unfolded m fst_conv snd_conv]
    then obtain ps where ps: "prefix ps (asked calls)" and s2: "settled r2" and a2: "apart ?t ?w1 w2"
      and n2: "nested {c_str ?cc, c_str ?ca} (snd (db w) @ [c_str ?sp]) ps ?t w2" by auto
    have L2: "loose ?t w2" using n2 by (simp add: nested_def)
    obtain ns where k: "kind_destructor ?K ?t w2 = (Inr (), if m_status (txs w2 ! ?t) = Tx_active
        then with_status ?t Tx_aborted (snd (exec_db (logged pq) ?ca (db w2))) ns w2 else w2)"
      using kind_destructor_loose[OF L2 sends(2)] by blast
    let ?w3 = "snd (kind_destructor ?K ?t w2)"
    have "with_subtransaction (logged pq) quote n
      (\<lambda>t nm. for_each calls (kind_call (sub_kind (logged pq) quote nm) (logged pq) t)) w = (r2, ?w3)"
      using new m s2 by (cases r2 rule: settled.cases) (simp_all add: with_subtransaction_def bnd_app guard_with_def)
    with run have e: "r = r2" "w' = ?w3" by simp_all
    have "apart ?t w2 ?w3" by (simp add: k apart_with_status apart_refl)
    from apart_trans[OF a2 this] have "apart ?t ?w1 w'" using e by simp
    then have frame: "m_trans w' = m_trans w" "take ?t (txs w') = txs w" "m_unique_id w' = m_unique_id w + 1" by (auto simp: apart_def)
    have "\<exists>ps' x. prefix ps' ps \<and> x \<in> {c_str ?cc, c_str ?ca} \<and> snd (db w') = (snd (db w) @ [c_str ?sp]) @ ps' @ [x]"
    proof (cases "m_status (txs w2 ! ?t) = Tx_active")
      case True
      then have "snd (db w') = (snd (db w) @ [c_str ?sp]) @ ps @ [c_str ?ca]"
        using n2 k e log.wire_exec_db[of pq ?ca "db w2"] by (simp add: nested_def)
      then show ?thesis by blast
    next
      case False
      then show ?thesis using n2 k e by (simp add: nested_def)
    qed
    with frame e s2 ps show ?thesis by (auto dest: prefix_order.trans)
  qed
qed

definition naming :: "'db \<Rightarrow> 'db naming_session" where
  "naming d = session.extend (begun_session d) \<lparr>m_unique_id = 0\<rparr>"

theorem subtransaction_scope_protocol_witness:
  "\<exists>r w'. with_subtransaction (logged calm_server) id ''sub''
      (\<lambda>t nm. for_each [Call_exec ''SELECT 1'', Call_commit] (kind_call (sub_kind (logged calm_server) id nm) (logged calm_server) t))
      (naming ((), [])) = (r, w') \<and> settled r \<and> m_trans w' = Some 0"
proof -
  obtain r and w' :: "(unit \<times> string list) naming_session" where run: "with_subtransaction (logged calm_server) id ''sub''
      (\<lambda>t nm. for_each [Call_exec ''SELECT 1'', Call_commit] (kind_call (sub_kind (logged calm_server) id nm) (logged calm_server) t))
      (naming ((), [])) = (r, w')" by (metis surj_pair)
  have "m_trans (naming ((), [])) = Some 0" by (simp add: naming_def session.defs begun_session_def fresh_session_def)
  with run subtransaction_scope_protocol[OF run] show ?thesis by auto
qed

subsection \<open>The doubt of a robust transaction\<close>

text \<open>Asking for the status of the transaction concerns only the server.\<close>

definition poll :: "'db libpq \<Rightarrow> 'db connector \<Rightarrow> string \<Rightarrow> 'db \<Rightarrow> (stop + tx_stat) \<times> 'db" where
  "poll pq connect xid d = (let (r, w) = query_status pq connect xid (fresh_session d) in (r, db w))"

lemma query_status_poll: "query_status pq connect xid w = (fst (poll pq connect xid (db w)), w\<lparr>db := snd (poll pq connect xid (db w))\<rparr>)"
  by (simp add: poll_def query_status_def fresh_session_def split: prod.split sum.split)

text \<open>
  \<open>undecided k d d'\<close>: \<open>k\<close> attempts at finding the outcome fail.  An attempt also fails when the answer is that the
  transaction was aborted, but the connection is too broken to roll it back.
\<close>

inductive undecided :: "'db libpq \<Rightarrow> 'db connector \<Rightarrow> string \<Rightarrow> nat \<Rightarrow> 'db \<Rightarrow> 'db \<Rightarrow> bool" for pq connect xid where
  no_attempt: "undecided pq connect xid 0 d d"
| running: "poll pq connect xid d = (Inr Stat_in_progress, d1) \<Longrightarrow> undecided pq connect xid k d1 d2 \<Longrightarrow> undecided pq connect xid (Suc k) d d2"
| unreachable: "poll pq connect xid d = (Inl (Throw e), d1) \<Longrightarrow> is_broken e \<Longrightarrow> undecided pq connect xid k d1 d2
    \<Longrightarrow> undecided pq connect xid (Suc k) d d2"
| no_rollback: "poll pq connect xid d = (Inr Stat_aborted, d1) \<Longrightarrow> exec_db pq ''ROLLBACK'' d1 = (Inl (Throw e), d2) \<Longrightarrow> is_broken e
    \<Longrightarrow> undecided pq connect xid k d2 d3 \<Longrightarrow> undecided pq connect xid (Suc k) d d3"

lemma do_abort_eq: "loose t w \<Longrightarrow> do_abort pq t w = (case exec_db pq ''ROLLBACK'' (db w) of
    (Inl s, d) \<Rightarrow> (Inl s, w\<lparr>db := d\<rparr>) | (Inr r, d) \<Rightarrow> (Inr (), w\<lparr>db := d\<rparr>))"
  by (rule do_abort_sends[unfolded sends_def, rule_format])

lemma resolve_undecided:
  "undecided pq connect xid k d d' \<Longrightarrow> loose t w \<Longrightarrow> db w = d \<Longrightarrow>
    resolve_doubt pq connect t xid (k + n) w = resolve_doubt pq connect t xid n (w\<lparr>db := d'\<rparr>)"
proof (induction arbitrary: w rule: undecided.induct)
  case (running d d1 k d2)
  from running.IH[of "w\<lparr>db := d1\<rparr>"] running.prems running.hyps(1)
  show ?case by (simp add: query_status_poll prog_simps try_catch_def)
next
  case (unreachable d e d1 k d2)
  from unreachable.IH[of "w\<lparr>db := d1\<rparr>"] unreachable.prems unreachable.hyps(1,2)
  show ?case by (simp add: query_status_poll prog_simps try_catch_def)
next
  case (no_rollback d d1 e d2 k d3)
  from no_rollback.IH[of "w\<lparr>db := d2\<rparr>"] no_rollback.prems no_rollback.hyps(1-3)
  show ?case by (simp add: query_status_poll prog_simps try_catch_def do_abort_eq)
qed auto

lemma resolve_decided:
  assumes L: "loose t w" and U: "undecided pq connect xid k (db w) d" "k < n"
  shows "poll pq connect xid d = (Inr Stat_committed, d') \<Longrightarrow> resolve_doubt pq connect t xid n w = (Inr (), w\<lparr>db := d'\<rparr>)"
    "poll pq connect xid d = (Inr Stat_aborted, d1) \<Longrightarrow> exec_db pq ''ROLLBACK'' d1 = (Inr a, d')
      \<Longrightarrow> resolve_doubt pq connect t xid n w = (Inr (), w\<lparr>db := d'\<rparr>)"
proof -
  obtain m where n: "n = k + Suc m" using U(2) less_iff_Suc_add by auto
  note r = resolve_undecided[OF U(1) L refl, of "Suc m", folded n]
  show "resolve_doubt pq connect t xid n w = (Inr (), w\<lparr>db := d'\<rparr>)" if "poll pq connect xid d = (Inr Stat_committed, d')"
    using r that by (simp add: query_status_poll prog_simps try_catch_def)
  show "resolve_doubt pq connect t xid n w = (Inr (), w\<lparr>db := d'\<rparr>)"
    if "poll pq connect xid d = (Inr Stat_aborted, d1)" "exec_db pq ''ROLLBACK'' d1 = (Inr a, d')"
    using r that L by (simp add: query_status_poll prog_simps try_catch_def do_abort_eq)
qed

lemma resolve_refused:
  assumes L: "loose t w" and U: "undecided pq connect xid k (db w) d" "k < n" and e: "\<not> is_broken e"
    "poll pq connect xid d = (Inl (Throw e), d')
      \<or> poll pq connect xid d = (Inr Stat_aborted, d1) \<and> exec_db pq ''ROLLBACK'' d1 = (Inl (Throw e), d')"
  shows "resolve_doubt pq connect t xid n w = (Inl (Throw e), w\<lparr>db := d'\<rparr>)"
proof -
  obtain m where n: "n = k + Suc m" using U(2) less_iff_Suc_add by auto
  show ?thesis using resolve_undecided[OF U(1) L refl, of "Suc m", folded n] e L
    by (elim disjE) (simp_all add: query_status_poll prog_simps try_catch_def do_abort_eq)
qed

text \<open>A commit whose connection is lost at the statement \<open>COMMIT\<close>.\<close>

lemma robust_commit_lost:
  assumes L: "loose t w" and C: "exec_db pq ''SET CONSTRAINTS ALL IMMEDIATE'' (db w) = (Inr a, d1)"
    "exec_db pq ''COMMIT'' d1 = (Inl (Throw e), d2)" "is_broken e"
  shows "robust_commit pq connect xid t w = resolve_doubt pq connect t xid max_attempts (w\<lparr>db := d2\<rparr>)"
  using L C by (simp add: robust_commit_def loose_def direct_exec_ok conn_exec_eq try_catch_def prog_simps)

text \<open>
  C18.  The outcome of a robust transaction that loses its connection while it commits, when fewer than 500 attempts
  decide nothing and the next one is answered.  The answer that the transaction was committed lets \<open>commit\<close> return with
  the status committed.  The answer that it was aborted does the same, the opposite of what happened, if the statement
  \<open>ROLLBACK\<close> is accepted afterwards.  An error other than a lost connection, met while asking (an answer that is no known
  status among them) or while rolling back, leaves \<open>commit\<close> as it is, with the status aborted whatever happened at
  the server.  When 500 attempts decide nothing, which includes every answer that it was aborted as long as the lost connection
  cannot roll back, \<open>commit\<close> reports that the outcome is in doubt.
\<close>

theorem robust_commit_verdict:
  fixes w :: "('db, 'z) session_scheme"
  assumes "loose t w" "m_status (txs w ! t) = Tx_active" "pq_open pq (db w)"
    "exec_db pq ''SET CONSTRAINTS ALL IMMEDIATE'' (db w) = (Inr a, d1)" "exec_db pq ''COMMIT'' d1 = (Inl (Throw e), d2)" "is_broken e"
    "undecided pq connect xid k d2 d3"
  shows "(k < 500 \<and> (poll pq connect xid d3 = (Inr Stat_committed, d4)
           \<or> poll pq connect xid d3 = (Inr Stat_aborted, d5) \<and> exec_db pq ''ROLLBACK'' d5 = (Inr b, d4))
         \<longrightarrow> kind_commit (robust_kind pq connect xid) pq t w = (Inr (), with_status t Tx_committed d4 [] w))
    \<and> (k < 500 \<and> \<not> is_broken e' \<and> e' \<noteq> In_doubt_error \<and> (poll pq connect xid d3 = (Inl (Throw e'), d4)
           \<or> poll pq connect xid d3 = (Inr Stat_aborted, d5) \<and> exec_db pq ''ROLLBACK'' d5 = (Inl (Throw e'), d4))
         \<longrightarrow> kind_commit (robust_kind pq connect xid) pq t w = (Inl (Throw e'), with_status t Tx_aborted d4 [] w))
    \<and> (k = 500 \<longrightarrow> kind_commit (robust_kind pq connect xid) pq t w = (Inl (Throw In_doubt_error), with_status t Tx_in_doubt d3 [] w))"
proof -
  note start = robust_commit_lost[OF assms(1,4-6), of connect xid]
  have ws: "with_status t st d [] (w\<lparr>db := d\<rparr>) = with_status t st d [] w" for st d by (simp add: with_status_def)
  have L2: "loose t (w\<lparr>db := d2\<rparr>)" using assms(1) by simp
  have step: "kind_commit (robust_kind pq connect xid) pq t w = (r, with_status t (case r of Inr _ \<Rightarrow> Tx_committed
      | Inl s \<Rightarrow> if s = Throw In_doubt_error then Tx_in_doubt else Tx_aborted) d [] w)"
    if "resolve_doubt pq connect t xid max_attempts (w\<lparr>db := d2\<rparr>) = (r, w\<lparr>db := d\<rparr>)" "settled r" for r d
  proof -
    have "k_commit (robust_kind pq connect xid) t w = (r, w\<lparr>db := d\<rparr>)" using start that by (simp add: robust_kind_def)
    from kind_commit_loose[OF assms(1,2) this that(2), of pq] assms(1,3) ws show ?thesis by simp
  qed
  have "resolve_doubt pq connect t xid max_attempts (w\<lparr>db := d2\<rparr>) = (Inr (), w\<lparr>db := d4\<rparr>)"
    if "k < 500" "poll pq connect xid d3 = (Inr Stat_committed, d4)
           \<or> poll pq connect xid d3 = (Inr Stat_aborted, d5) \<and> exec_db pq ''ROLLBACK'' d5 = (Inr b, d4)"
    using that resolve_decided(1)[OF L2, of pq connect xid k d3 max_attempts d4]
      resolve_decided(2)[OF L2, of pq connect xid k d3 max_attempts d5 b d4] assms(7) by (auto simp: max_attempts_def)
  moreover have "resolve_doubt pq connect t xid max_attempts (w\<lparr>db := d2\<rparr>) = (Inl (Throw e'), w\<lparr>db := d4\<rparr>)"
    if "k < 500" "\<not> is_broken e'" "poll pq connect xid d3 = (Inl (Throw e'), d4)
           \<or> poll pq connect xid d3 = (Inr Stat_aborted, d5) \<and> exec_db pq ''ROLLBACK'' d5 = (Inl (Throw e'), d4)"
    using resolve_refused[OF L2, of pq connect xid k d3 max_attempts e' d4 d5] that assms(7) by (simp add: max_attempts_def)
  moreover have "resolve_doubt pq connect t xid max_attempts (w\<lparr>db := d2\<rparr>) = (Inl (Throw In_doubt_error), w\<lparr>db := d3\<rparr>)"
    if "k = 500" using resolve_undecided[OF assms(7) L2, of 0] that by (simp add: max_attempts_def throw_app)
  ultimately show ?thesis using step[of "Inr ()" d4] step[of "Inl (Throw e')" d4] step[of "Inl (Throw In_doubt_error)" d3] by auto
qed

text \<open>A server that loses the connection at \<open>COMMIT\<close>, has aborted the transaction, and accepts everything else.\<close>

definition losing_server :: "unit libpq" where
  "losing_server = calm_server\<lparr>pq_exec := (\<lambda>q d. (Some \<lparr>pg_status = (if q = ''COMMIT'' then PGRES_FATAL_ERROR else PGRES_TUPLES_OK),
     pg_message = ''lost'', pg_sqlstate = Some ''08006'', pg_rows = [[Some (if q = ''SELECT txid_current()'' then ''7'' else ''aborted'')]]\<rparr>, d))\<rparr>"

definition losing_connect :: "unit connector" where
  "losing_connect d = (Inr d, d)"

lemma losing_exec:
  "exec_db losing_server ''SET CONSTRAINTS ALL IMMEDIATE'' () = (Inr \<lparr>pg_status = PGRES_TUPLES_OK, pg_message = ''lost'',
     pg_sqlstate = Some ''08006'', pg_rows = [[Some ''aborted'']]\<rparr>, ())"
  "exec_db losing_server ''ROLLBACK'' () = (Inr \<lparr>pg_status = PGRES_TUPLES_OK, pg_message = ''lost'',
     pg_sqlstate = Some ''08006'', pg_rows = [[Some ''aborted'']]\<rparr>, ())"
  "exec_db losing_server ''COMMIT'' () = (Inl (Throw Broken_connection), ())"
  "exec_db losing_server ''BEGIN'' () = (Inr \<lparr>pg_status = PGRES_TUPLES_OK, pg_message = ''lost'',
     pg_sqlstate = Some ''08006'', pg_rows = [[Some ''aborted'']]\<rparr>, ())"
  "exec_db losing_server ''SELECT txid_current()'' () = (Inr \<lparr>pg_status = PGRES_TUPLES_OK, pg_message = ''lost'',
     pg_sqlstate = Some ''08006'', pg_rows = [[Some ''7'']]\<rparr>, ())"
  by code_simp+

lemma losing_poll: "poll losing_server losing_connect ''7'' () = (Inr Stat_aborted, ())"
  by code_simp

definition loose_session :: "unit session" where
  "loose_session = (fresh_session ())\<lparr>txs := [new_tx]\<rparr>"

theorem robust_commit_verdict_witness:
  "poll losing_server losing_connect ''7'' () = (Inr Stat_aborted, ())
    \<and> fst (kind_commit (robust_kind losing_server losing_connect ''7'') losing_server 0 loose_session) = Inr ()"
proof -
  have "loose 0 loose_session" "m_status (txs loose_session ! 0) = Tx_active" "pq_open losing_server (db loose_session)"
    "db loose_session = ()" by (simp_all add: loose_session_def fresh_session_def loose_def new_tx_def losing_server_def calm_server_def)
  then show ?thesis
    using losing_exec losing_poll undecided.no_attempt[of losing_server losing_connect "''7''" "()"]
      robust_commit_verdict[of 0 loose_session losing_server _ "()" Broken_connection "()" losing_connect "''7''" 0 "()" "()" "()"]
    by (simp add: is_broken_def)
qed

text \<open>
  A robust transaction does not take its place at the connection: it begins whatever transaction the connection
  already has, so that its \<open>BEGIN\<close> is sent within the other transaction, which an ordinary transaction would refuse.
\<close>

theorem robust_begins_inside_another:
  assumes "exec_db pq cmd (db w) = (Inr a, d1)" "exec_db pq ''SELECT txid_current()'' d1 = (Inr r, d2)" "pg_rows r = [[Some xid]]"
    "m_trans w = Some i" "i < length (txs w)"
  shows "robusttransaction pq cmd w = (Inr (length (txs w), xid), w\<lparr>db := d2, txs := txs w @ [new_tx]\<rparr>)
    \<and> (\<exists>m. basic_transaction pq cmd w = (Inl (Throw (Usage_error m)), w\<lparr>txs := txs w @ [new_tx]\<rparr>))"
  using assms basic_transaction_busy[OF assms(4,5), of pq cmd]
  by (simp add: robusttransaction_def robust_init_def alloc_tx_def direct_exec_ok conn_exec_eq new_tx_def prog_simps
      try_catch_def lift_exn_def one_field_def one_row_def)

theorem robust_begins_inside_another_witness:
  "fst (robusttransaction losing_server ''BEGIN'' (begun_session ())) = Inr (1, ''7'')"
  using robust_begins_inside_another[of losing_server "''BEGIN''" "begun_session ()" _ "()" _ "()" "''7''" 0] losing_exec(4,5)
  by (simp add: begun_session_def fresh_session_def)

end
