(* ===== verification/Pqxx_Blob.thy ===== *)
theory Pqxx_Blob
  imports Pqxx_Session
begin

text \<open>
  Binary large objects: \<open>libpqxx/src/blob.cxx\<close>, over the functions of libpq for large objects.  Bytes are characters.
\<close>

subsection \<open>libpq\<close>

text \<open>
  The functions return what they return in C, with the new state; \<open>lo_read\<close> also returns the bytes that it has stored in
  the buffer.  \<open>seek_set\<close>, \<open>seek_cur\<close> and \<open>seek_end\<close> are the constants of \<open>stdio.h\<close>.
\<close>

record 'db lobs =
  lo_create :: "nat \<Rightarrow> 'db \<Rightarrow> nat \<times> 'db"
  lo_unlink :: "nat \<Rightarrow> 'db \<Rightarrow> int \<times> 'db"
  lo_open :: "nat \<Rightarrow> int \<Rightarrow> 'db \<Rightarrow> int \<times> 'db"
  lo_close :: "int \<Rightarrow> 'db \<Rightarrow> int \<times> 'db"
  lo_read :: "int \<Rightarrow> nat \<Rightarrow> 'db \<Rightarrow> (int \<times> string) \<times> 'db"
  lo_write :: "int \<Rightarrow> string \<Rightarrow> 'db \<Rightarrow> int \<times> 'db"
  lo_truncate64 :: "int \<Rightarrow> int \<Rightarrow> 'db \<Rightarrow> int \<times> 'db"
  lo_tell64 :: "int \<Rightarrow> 'db \<Rightarrow> int \<times> 'db"
  lo_lseek64 :: "int \<Rightarrow> int \<Rightarrow> int \<Rightarrow> 'db \<Rightarrow> int \<times> 'db"
  lo_import :: "string \<Rightarrow> 'db \<Rightarrow> nat \<times> 'db"
  lo_import_with_oid :: "string \<Rightarrow> nat \<Rightarrow> 'db \<Rightarrow> nat \<times> 'db"
  lo_export :: "nat \<Rightarrow> string \<Rightarrow> 'db \<Rightarrow> int \<times> 'db"

definition seek_set :: int where "seek_set = 0"
definition seek_cur :: int where "seek_cur = 1"
definition seek_end_whence :: int where "seek_end_whence = 2"

subsection \<open>The object\<close>

text \<open>\<open>b_conn\<close> tells whether the pointer to the connection is set.\<close>

record blob =
  b_conn :: bool
  b_fd :: int

definition no_blob :: blob where
  "no_blob = \<lparr>b_conn = False, b_fd = -1\<rparr>"

text \<open>\<open>b_buf\<close> is the buffer that the caller passes by reference.\<close>

record 'db blob_session = "'db session" +
  b_buf :: string

definition inv_write :: int where "inv_write = 0x20000"
definition inv_read :: int where "inv_read = 0x40000"

definition chunk_limit :: nat where "chunk_limit = 0x7fffffff"

definition call_lo :: "('db \<Rightarrow> 'a \<times> 'db) \<Rightarrow> (('db, 'z) session_scheme, 'a) prog" where
  "call_lo f = (\<lambda>w. let (r, d) = f (db w) in (Inr r, w\<lparr>db := d\<rparr>))"

definition errmsg :: "'db libpq \<Rightarrow> (('db, 'z) session_scheme, string) prog" where
  "errmsg pq = gets (\<lambda>w. pq_error pq (db w))"

definition fail_with :: "'db libpq \<Rightarrow> string \<Rightarrow> (('db, 'z) session_scheme, 'a) prog" where
  "fail_with pq msg = bnd (errmsg pq) (\<lambda>e. throw (Failure (msg @ e)))"

definition nat_text :: "nat \<Rightarrow> string" where
  "nat_text n = int_to_string (int n)"

definition open_internal :: "'db libpq \<Rightarrow> 'db lobs \<Rightarrow> nat \<Rightarrow> int \<Rightarrow> (('db, 'z) session_scheme, blob) prog" where
  "open_internal pq L oid mode = bnd (call_lo (lo_open L oid mode)) (\<lambda>fd.
     if fd = -1 then fail_with pq (''Could not open binary large object '' @ nat_text oid @ '': '')
     else ret \<lparr>b_conn = True, b_fd = fd\<rparr>)"

definition blob_create :: "'db libpq \<Rightarrow> 'db lobs \<Rightarrow> nat \<Rightarrow> (('db, 'z) session_scheme, nat) prog" where
  "blob_create pq L oid = bnd (call_lo (lo_create L oid)) (\<lambda>actual_id.
     if actual_id = 0 then fail_with pq ''Could not create binary large object: '' else ret actual_id)"

definition blob_remove :: "'db libpq \<Rightarrow> 'db lobs \<Rightarrow> nat \<Rightarrow> (('db, 'z) session_scheme, unit) prog" where
  "blob_remove pq L oid = (if oid = 0 then throw (Usage_error ''Trying to delete binary large object without an ID.'')
     else bnd (call_lo (lo_unlink L oid)) (\<lambda>r.
       if r = -1 then fail_with pq (''Could not delete large object '' @ nat_text oid @ '': '') else ret ()))"

definition open_r :: "'db libpq \<Rightarrow> 'db lobs \<Rightarrow> nat \<Rightarrow> (('db, 'z) session_scheme, blob) prog" where
  "open_r pq L oid = open_internal pq L oid inv_read"

definition open_w :: "'db libpq \<Rightarrow> 'db lobs \<Rightarrow> nat \<Rightarrow> (('db, 'z) session_scheme, blob) prog" where
  "open_w pq L oid = open_internal pq L oid inv_write"

definition open_rw :: "'db libpq \<Rightarrow> 'db lobs \<Rightarrow> nat \<Rightarrow> (('db, 'z) session_scheme, blob) prog" where
  "open_rw pq L oid = open_internal pq L oid (Bit_Operations.or inv_read inv_write)"

text \<open>The move constructor and the move assignment give both objects, the new one and the old one.\<close>

definition blob_move :: "blob \<Rightarrow> blob \<times> blob" where
  "blob_move other = (\<lparr>b_conn = b_conn other, b_fd = b_fd other\<rparr>, \<lparr>b_conn = False, b_fd = -1\<rparr>)"

definition blob_move_assign :: "'db lobs \<Rightarrow> blob \<Rightarrow> blob \<Rightarrow> (('db, 'z) session_scheme, blob \<times> blob) prog" where
  "blob_move_assign L this other = sq (whn (b_fd this \<noteq> -1) (bnd (call_lo (lo_close L (b_fd this))) (\<lambda>_. ret ())))
     (ret (\<lparr>b_conn = b_conn other, b_fd = b_fd other\<rparr>, \<lparr>b_conn = False, b_fd = -1\<rparr>))"

text \<open>\<open>close\<close> cannot throw, so the destructor is no more than that.\<close>

definition blob_close :: "'db lobs \<Rightarrow> blob \<Rightarrow> (('db, 'z) session_scheme, blob) prog" where
  "blob_close L b = (if b_fd b \<noteq> -1 then bnd (call_lo (lo_close L (b_fd b))) (\<lambda>_. ret (b\<lparr>b_fd := -1, b_conn := False\<rparr>)) else ret b)"

definition blob_destructor :: "'db libpq \<Rightarrow> 'db lobs \<Rightarrow> blob \<Rightarrow> (('db, 'z) session_scheme, unit) prog" where
  "blob_destructor pq L b = try_catch (bnd (blob_close L b) (\<lambda>_. ret ())) (\<lambda>e. whn (b_conn b)
     (sq (process_notice (''Failure while closing binary large object:'' @ [CHR 0x0A])) (process_notice (exn_what e))))"

text \<open>A scope that holds an object.\<close>

definition with_blob :: "'db libpq \<Rightarrow> 'db lobs \<Rightarrow> (('db, 'z) session_scheme, blob) prog \<Rightarrow> (blob \<Rightarrow> (('db, 'z) session_scheme, 'a) prog)
    \<Rightarrow> (('db, 'z) session_scheme, 'a) prog" where
  "with_blob pq L opening body = bnd opening (\<lambda>b. guard_with (body b) (\<lambda>w. snd (blob_destructor pq L b w)))"

subsection \<open>Reading and writing\<close>

definition raw_read :: "'db libpq \<Rightarrow> 'db lobs \<Rightarrow> blob \<Rightarrow> nat \<Rightarrow> (('db, 'z) session_scheme, nat \<times> string) prog" where
  "raw_read pq L b sz = (if \<not> b_conn b then throw (Usage_error ''Attempt to read from a closed binary large object.'')
     else if sz > chunk_limit then throw (Range_error ''Reads from a binary large object must be less than 2 GB at once.'')
     else bnd (call_lo (lo_read L (b_fd b) sz)) (\<lambda>(received, data).
       if received < 0 then fail_with pq ''Could not read from binary large object: '' else ret (nat received, data)))"

text \<open>\<open>std::vector::resize\<close>, and storing bytes from an index on.\<close>

definition max_vector :: nat where "max_vector = 2 ^ 63 - 1"

definition resized :: "nat \<Rightarrow> string \<Rightarrow> string" where
  "resized n s = take n s @ replicate (n - length s) (CHR 0x00)"

definition resize_buf :: "nat \<Rightarrow> ('db blob_session, unit) prog" where
  "resize_buf n = (if n > max_vector then throw (Logic_error ''vector::_M_default_append'')
     else modify (\<lambda>w. w\<lparr>b_buf := resized n (b_buf w)\<rparr>))"

definition store_buf :: "nat \<Rightarrow> string \<Rightarrow> ('db blob_session, unit) prog" where
  "store_buf i data = modify (\<lambda>w. w\<lparr>b_buf := take i (b_buf w) @ data @ drop (i + length data) (b_buf w)\<rparr>)"

definition blob_read :: "'db libpq \<Rightarrow> 'db lobs \<Rightarrow> blob \<Rightarrow> nat \<Rightarrow> ('db blob_session, nat) prog" where
  "blob_read pq L b sz = sq (resize_buf sz) (bnd (raw_read pq L b sz) (\<lambda>(received, data).
     sq (store_buf 0 data) (sq (resize_buf received) (ret received))))"

definition raw_write :: "'db libpq \<Rightarrow> 'db lobs \<Rightarrow> blob \<Rightarrow> string \<Rightarrow> (('db, 'z) session_scheme, unit) prog" where
  "raw_write pq L b data = (if \<not> b_conn b then throw (Usage_error ''Attempt to write to a closed binary large object.'')
     else if length data > chunk_limit then throw (Range_error ''Write to binary large object exceeds 2GB limit.'')
     else bnd (call_lo (lo_write L (b_fd b) data)) (\<lambda>written.
       if written < 0 then fail_with pq ''Write to binary large object failed: '' else ret ()))"

definition blob_resize :: "'db libpq \<Rightarrow> 'db lobs \<Rightarrow> blob \<Rightarrow> int \<Rightarrow> (('db, 'z) session_scheme, unit) prog" where
  "blob_resize pq L b sz = (if \<not> b_conn b then throw (Usage_error ''Attempt to resize a closed binary large object.'')
     else bnd (call_lo (lo_truncate64 L (b_fd b) sz)) (\<lambda>r.
       if r < 0 then fail_with pq ''Binary large object truncation failed: '' else ret ()))"

definition blob_tell :: "'db libpq \<Rightarrow> 'db lobs \<Rightarrow> blob \<Rightarrow> (('db, 'z) session_scheme, int) prog" where
  "blob_tell pq L b = (if \<not> b_conn b then throw (Usage_error ''Attempt to tell() a closed binary large object.'')
     else bnd (call_lo (lo_tell64 L (b_fd b))) (\<lambda>offset.
       if offset < 0 then fail_with pq ''Error reading binary large object position: '' else ret offset))"

definition blob_seek :: "'db libpq \<Rightarrow> 'db lobs \<Rightarrow> blob \<Rightarrow> int \<Rightarrow> int \<Rightarrow> (('db, 'z) session_scheme, int) prog" where
  "blob_seek pq L b offset whence = (if \<not> b_conn b then throw (Usage_error ''Attempt to seek() a closed binary large object.'')
     else bnd (call_lo (lo_lseek64 L (b_fd b) offset whence)) (\<lambda>r.
       if r < 0 then fail_with pq ''Error during seek on binary large object: '' else ret r))"

definition seek_abs :: "'db libpq \<Rightarrow> 'db lobs \<Rightarrow> blob \<Rightarrow> int \<Rightarrow> (('db, 'z) session_scheme, int) prog" where
  "seek_abs pq L b offset = blob_seek pq L b offset seek_set"

definition seek_rel :: "'db libpq \<Rightarrow> 'db lobs \<Rightarrow> blob \<Rightarrow> int \<Rightarrow> (('db, 'z) session_scheme, int) prog" where
  "seek_rel pq L b offset = blob_seek pq L b offset seek_cur"

definition seek_end :: "'db libpq \<Rightarrow> 'db lobs \<Rightarrow> blob \<Rightarrow> int \<Rightarrow> (('db, 'z) session_scheme, int) prog" where
  "seek_end pq L b offset = blob_seek pq L b offset seek_end_whence"

subsection \<open>Whole objects\<close>

definition from_buf :: "'db libpq \<Rightarrow> 'db lobs \<Rightarrow> string \<Rightarrow> nat \<Rightarrow> (('db, 'z) session_scheme, nat) prog" where
  "from_buf pq L data oid = bnd (blob_create pq L oid) (\<lambda>actual_id.
     sq (try_catch (with_blob pq L (open_w pq L actual_id) (\<lambda>b. raw_write pq L b data))
          (\<lambda>e. sq (try_catch (blob_remove pq L oid) (\<lambda>e2.
                 process_notice (''Could not clean up partially created large object '' @ nat_text oid @ '': '' @ exn_what e2 @ [CHR 0x0A])))
               (throw e)))
        (ret actual_id))"

definition append_from_buf :: "'db libpq \<Rightarrow> 'db lobs \<Rightarrow> string \<Rightarrow> nat \<Rightarrow> (('db, 'z) session_scheme, unit) prog" where
  "append_from_buf pq L data oid = (if length data > chunk_limit
     then throw (Range_error ''Writes to a binary large object must be less than 2 GB at once.'')
     else with_blob pq L (open_w pq L oid) (\<lambda>b. sq (seek_end pq L b 0) (raw_write pq L b data)))"

definition blob_to_buf :: "'db libpq \<Rightarrow> 'db lobs \<Rightarrow> nat \<Rightarrow> nat \<Rightarrow> ('db blob_session, unit) prog" where
  "blob_to_buf pq L oid max_size = with_blob pq L (open_r pq L oid) (\<lambda>b. bnd (blob_read pq L b max_size) (\<lambda>_. ret ()))"

text \<open>What \<open>lo_read\<close> returns is converted to \<open>std::size_t\<close>, and the sum of the sizes wraps.\<close>

definition append_to_buf :: "'db libpq \<Rightarrow> 'db lobs \<Rightarrow> nat \<Rightarrow> int \<Rightarrow> nat \<Rightarrow> ('db blob_session, nat) prog" where
  "append_to_buf pq L oid offset append_max = (if append_max > chunk_limit
     then throw (Range_error ''Reads from a binary large object must be less than 2 GB at once.'')
     else with_blob pq L (open_r pq L oid) (\<lambda>b. sq (seek_abs pq L b offset)
       (bnd (gets (length \<circ> b_buf)) (\<lambda>org_size.
        sq (resize_buf (org_size + append_max))
        (try_catch
          (bnd (call_lo (lo_read L (b_fd b) append_max)) (\<lambda>(received, data). sq (store_buf org_size data)
             (let chunk = nat (received mod 2 ^ 64) in sq (resize_buf ((org_size + chunk) mod 2 ^ 64)) (ret chunk))))
          (\<lambda>e. sq (resize_buf org_size) (throw e)))))))"

definition from_file :: "'db libpq \<Rightarrow> 'db lobs \<Rightarrow> string \<Rightarrow> (('db, 'z) session_scheme, nat) prog" where
  "from_file pq L path = bnd (call_lo (lo_import L (c_str path))) (\<lambda>oid. if oid = 0
     then fail_with pq (''Could not import '' @ [CHR 0x27] @ path @ [CHR 0x27] @ '' as a binary large object: '') else ret oid)"

definition from_file_oid :: "'db libpq \<Rightarrow> 'db lobs \<Rightarrow> string \<Rightarrow> nat \<Rightarrow> (('db, 'z) session_scheme, nat) prog" where
  "from_file_oid pq L path oid = bnd (call_lo (lo_import_with_oid L (c_str path) oid)) (\<lambda>actual_id. if actual_id = 0
     then fail_with pq (''Could not import '' @ [CHR 0x27] @ path @ [CHR 0x27] @ '' as binary large object '' @ nat_text oid @ '': '')
     else ret actual_id)"

definition to_file :: "'db libpq \<Rightarrow> 'db lobs \<Rightarrow> nat \<Rightarrow> string \<Rightarrow> (('db, 'z) session_scheme, unit) prog" where
  "to_file pq L oid path = bnd (call_lo (lo_export L oid (c_str path))) (\<lambda>r. if r < 0
     then fail_with pq (''Could not export binary large object '' @ nat_text oid @ '' to file '' @ [CHR 0x27] @ path @ [CHR 0x27] @ '': '')
     else ret ())"

end
