(* ===== verification/Blob_Spec.thy ===== *)
theory Blob_Spec
  imports Pqxx_Blob
begin

text \<open>
  What large objects promise over a server that stores them as strings of bytes, and what happens when a call fails.
\<close>

subsection \<open>A store of large objects\<close>

text \<open>The objects by their identifiers, and the open descriptors: the object, the position and the mode.\<close>

record lo_store =
  lo_objs :: "nat \<Rightarrow> string option"
  lo_descs :: "int \<Rightarrow> (nat \<times> nat \<times> int) option"

definition put_bytes :: "nat \<Rightarrow> string \<Rightarrow> string \<Rightarrow> string" where
  "put_bytes pos data s = take pos (resized (max pos (length s)) s) @ data @ drop (pos + length data) s"

definition creates :: "'db lobs \<Rightarrow> ('db \<Rightarrow> lo_store) \<Rightarrow> bool" where
  "creates L st \<longleftrightarrow> (\<forall>d oid r d'. lo_create L oid d = (r, d') \<longrightarrow>
     (if oid \<noteq> 0 \<and> lo_objs (st d) oid \<noteq> None then r = 0 \<and> st d' = st d
      else r \<noteq> 0 \<and> (oid \<noteq> 0 \<longrightarrow> r = oid) \<and> lo_objs (st d) r = None \<and> st d' = (st d)\<lparr>lo_objs := (lo_objs (st d))(r \<mapsto> [])\<rparr>))"

definition opens :: "'db lobs \<Rightarrow> ('db \<Rightarrow> lo_store) \<Rightarrow> bool" where
  "opens L st \<longleftrightarrow> (\<forall>d oid m fd d'. lo_open L oid m d = (fd, d') \<longrightarrow>
     (if lo_objs (st d) oid = None then fd = -1 \<and> st d' = st d
      else fd \<ge> 0 \<and> lo_descs (st d) fd = None \<and> st d' = (st d)\<lparr>lo_descs := (lo_descs (st d))(fd \<mapsto> (oid, 0, m))\<rparr>))"

definition closes :: "'db lobs \<Rightarrow> ('db \<Rightarrow> lo_store) \<Rightarrow> bool" where
  "closes L st \<longleftrightarrow> (\<forall>d fd r d'. lo_close L fd d = (r, d') \<longrightarrow> st d' = (st d)\<lparr>lo_descs := (lo_descs (st d))(fd := None)\<rparr>)"

definition writes :: "'db lobs \<Rightarrow> ('db \<Rightarrow> lo_store) \<Rightarrow> bool" where
  "writes L st \<longleftrightarrow> (\<forall>d fd data oid pos m s r d'. lo_write L fd data d = (r, d') \<longrightarrow> lo_descs (st d) fd = Some (oid, pos, m) \<longrightarrow>
     lo_objs (st d) oid = Some s \<longrightarrow> m \<noteq> inv_read \<longrightarrow> length data \<le> chunk_limit \<longrightarrow>
       r = int (length data) \<and> st d' = (st d)\<lparr>lo_objs := (lo_objs (st d))(oid \<mapsto> put_bytes pos data s),
         lo_descs := (lo_descs (st d))(fd \<mapsto> (oid, pos + length data, m))\<rparr>)"

definition reads :: "'db lobs \<Rightarrow> ('db \<Rightarrow> lo_store) \<Rightarrow> bool" where
  "reads L st \<longleftrightarrow> (\<forall>d fd n oid pos m s r data d'. lo_read L fd n d = ((r, data), d') \<longrightarrow> lo_descs (st d) fd = Some (oid, pos, m) \<longrightarrow>
     lo_objs (st d) oid = Some s \<longrightarrow> n \<le> chunk_limit \<longrightarrow>
       data = take n (drop pos s) \<and> r = int (length data) \<and>
       st d' = (st d)\<lparr>lo_descs := (lo_descs (st d))(fd \<mapsto> (oid, pos + length data, m))\<rparr>)"

definition seeks :: "'db lobs \<Rightarrow> ('db \<Rightarrow> lo_store) \<Rightarrow> bool" where
  "seeks L st \<longleftrightarrow> (\<forall>d fd off whence oid pos m s r d'. lo_lseek64 L fd off whence d = (r, d') \<longrightarrow>
     lo_descs (st d) fd = Some (oid, pos, m) \<longrightarrow> lo_objs (st d) oid = Some s \<longrightarrow>
       (let p = (if whence = seek_set then 0 else if whence = seek_cur then int pos else int (length s)) + off in
         if p < 0 then r < 0 \<and> st d' = st d
         else r = p \<and> st d' = (st d)\<lparr>lo_descs := (lo_descs (st d))(fd \<mapsto> (oid, nat p, m))\<rparr>))"

definition lo_server :: "'db lobs \<Rightarrow> ('db \<Rightarrow> lo_store) \<Rightarrow> bool" where
  "lo_server L st \<longleftrightarrow> creates L st \<and> opens L st \<and> closes L st \<and> writes L st \<and> reads L st \<and> seeks L st"

lemma server_create:
  assumes "creates L st" "lo_create L oid d = (r, d')" "oid = 0 \<or> lo_objs (st d) oid = None"
  shows "r \<noteq> 0 \<and> (oid \<noteq> 0 \<longrightarrow> r = oid) \<and> lo_objs (st d) r = None \<and> st d' = (st d)\<lparr>lo_objs := (lo_objs (st d))(r \<mapsto> [])\<rparr>"
  using assms(3) assms(1)[unfolded creates_def, rule_format, OF assms(2)] by (auto split: if_splits)

lemma server_open:
  assumes "opens L st" "lo_open L oid m d = (fd, d')" "lo_objs (st d) oid = Some s"
  shows "fd \<ge> 0 \<and> lo_descs (st d) fd = None \<and> st d' = (st d)\<lparr>lo_descs := (lo_descs (st d))(fd \<mapsto> (oid, 0, m))\<rparr>"
  using assms(3) assms(1)[unfolded opens_def, rule_format, OF assms(2)] by simp

lemma server_close:
  assumes "closes L st" "lo_close L fd d = (r, d')"
  shows "st d' = (st d)\<lparr>lo_descs := (lo_descs (st d))(fd := None)\<rparr>"
  using assms(1)[unfolded closes_def, rule_format, OF assms(2)] .

lemma server_write:
  assumes "writes L st" "lo_write L fd data d = (r, d')" "lo_descs (st d) fd = Some (oid, pos, m)" "lo_objs (st d) oid = Some s"
    "m \<noteq> inv_read" "length data \<le> chunk_limit"
  shows "r = int (length data) \<and> st d' = (st d)\<lparr>lo_objs := (lo_objs (st d))(oid \<mapsto> put_bytes pos data s),
    lo_descs := (lo_descs (st d))(fd \<mapsto> (oid, pos + length data, m))\<rparr>"
  using assms(1)[unfolded writes_def, rule_format, OF assms(2-6)] .

lemma server_read:
  assumes "reads L st" "lo_read L fd n d = ((r, data), d')" "lo_descs (st d) fd = Some (oid, pos, m)" "lo_objs (st d) oid = Some s"
    "n \<le> chunk_limit"
  shows "data = take n (drop pos s) \<and> r = int (length data)
    \<and> st d' = (st d)\<lparr>lo_descs := (lo_descs (st d))(fd \<mapsto> (oid, pos + length data, m))\<rparr>"
  using assms(1)[unfolded reads_def, rule_format, OF assms(2-5)] .

lemma server_seek:
  assumes "seeks L st" "lo_lseek64 L fd off whence d = (r, d')" "lo_descs (st d) fd = Some (oid, pos, m)" "lo_objs (st d) oid = Some s"
    "p = (if whence = seek_set then 0 else if whence = seek_cur then int pos else int (length s)) + off" "0 \<le> p"
  shows "r = p \<and> st d' = (st d)\<lparr>lo_descs := (lo_descs (st d))(fd \<mapsto> (oid, nat p, m))\<rparr>"
  using assms(1)[unfolded seeks_def, rule_format, OF assms(2-4)] assms(5,6) by (simp add: Let_def)

subsection \<open>Opening and closing\<close>

lemma blob_destructor_app:
  "blob_destructor pq L b w = (Inr (), if b_fd b \<noteq> -1 then w\<lparr>db := snd (lo_close L (b_fd b) (db w))\<rparr> else w)"
  by (simp add: blob_destructor_def blob_close_def call_lo_def try_catch_def prog_simps split: prod.split)

text \<open>What holds of a scope that opens an object, from what its body does.\<close>

lemma with_blob_ok:
  assumes S: "lo_server L st" and o: "lo_objs (st (db w)) oid = Some s" and m: "m = inv_read \<or> m = inv_write"
    and body: "\<And>fd d. 0 \<le> fd \<Longrightarrow> lo_descs (st (db w)) fd = None \<Longrightarrow>
      st d = (st (db w))\<lparr>lo_descs := (lo_descs (st (db w)))(fd \<mapsto> (oid, 0, m))\<rparr> \<Longrightarrow>
      \<exists>w1 pos. body \<lparr>b_conn = True, b_fd = fd\<rparr> (w\<lparr>db := d\<rparr>) = (Inr x, w1)
        \<and> st (db w1) = (st d)\<lparr>lo_objs := os, lo_descs := (lo_descs (st d))(fd \<mapsto> (oid, pos, m))\<rparr> \<and> Q (w1\<lparr>db := db w\<rparr>)"
    and Q: "\<And>w d. Q (w\<lparr>db := d\<rparr>) = Q w"
  shows "\<exists>w'. with_blob pq L (open_internal pq L oid m) body w = (Inr x, w') \<and> st (db w') = (st (db w))\<lparr>lo_objs := os\<rparr> \<and> Q w'"
proof -
  obtain fd d where op: "lo_open L oid m (db w) = (fd, d)" by fastforce
  have "opens L st" "closes L st" using S by (simp_all add: lo_server_def)
  note fd = server_open[OF this(1) op o]
  have opn: "open_internal pq L oid m w = (Inr \<lparr>b_conn = True, b_fd = fd\<rparr>, w\<lparr>db := d\<rparr>)"
    using fd op by (simp add: open_internal_def call_lo_def prog_simps)
  obtain w1 pos where w1: "body \<lparr>b_conn = True, b_fd = fd\<rparr> (w\<lparr>db := d\<rparr>) = (Inr x, w1)"
    "st (db w1) = (st d)\<lparr>lo_objs := os, lo_descs := (lo_descs (st d))(fd \<mapsto> (oid, pos, m))\<rparr>" "Q (w1\<lparr>db := db w\<rparr>)"
    using body[OF conjunct1[OF fd] conjunct1[OF conjunct2[OF fd]] conjunct2[OF conjunct2[OF fd]]] by (elim exE conjE)
  obtain r d2 where cl: "lo_close L fd (db w1) = (r, d2)" by fastforce
  note c = server_close[OF \<open>closes L st\<close> cl]
  have "with_blob pq L (open_internal pq L oid m) body w = (Inr x, w1\<lparr>db := d2\<rparr>)"
    using opn w1(1) fd cl by (simp add: with_blob_def bnd_app guard_with_def blob_destructor_app)
  moreover have "st d2 = (st (db w))\<lparr>lo_objs := os\<rparr>"
    using c w1(2) fd by (simp add: fun_upd_idem_iff)
  ultimately show ?thesis using w1(3) Q by (intro exI[of _ "w1\<lparr>db := d2\<rparr>"]) simp
qed

lemma put_bytes_new: "put_bytes 0 data [] = data"
  by (simp add: put_bytes_def)

lemma put_bytes_end: "put_bytes (length s) data s = s @ data"
  by (simp add: put_bytes_def resized_def)

lemma resized_read: "length data \<le> n \<Longrightarrow> resized (length data) (data @ drop (length data) (resized n buf)) = data"
  by (simp add: resized_def)

lemma raw_write_ok:
  assumes "lo_server L st" "b_conn b" "lo_descs (st (db w)) (b_fd b) = Some (oid, pos, m)" "lo_objs (st (db w)) oid = Some s"
    "m \<noteq> inv_read" "length data \<le> chunk_limit"
  shows "\<exists>d. raw_write pq L b data w = (Inr (), w\<lparr>db := d\<rparr>) \<and> st d = (st (db w))\<lparr>lo_objs := (lo_objs (st (db w)))(oid \<mapsto> put_bytes pos data s),
    lo_descs := (lo_descs (st (db w)))(b_fd b \<mapsto> (oid, pos + length data, m))\<rparr>"
proof -
  obtain r d where wr: "lo_write L (b_fd b) data (db w) = (r, d)" by fastforce
  have "writes L st" using assms(1) by (simp add: lo_server_def)
  from server_write[OF this wr assms(3-6)] wr assms(2,6) show ?thesis by (intro exI[of _ d]) (simp add: raw_write_def call_lo_def prog_simps)
qed

lemma seek_ok:
  assumes "lo_server L st" "b_conn b" "lo_descs (st (db w)) (b_fd b) = Some (oid, pos, m)" "lo_objs (st (db w)) oid = Some s"
    "p = (if whence = seek_set then 0 else if whence = seek_cur then int pos else int (length s)) + off" "0 \<le> p"
  shows "\<exists>d. blob_seek pq L b off whence w = (Inr p, w\<lparr>db := d\<rparr>)
    \<and> st d = (st (db w))\<lparr>lo_descs := (lo_descs (st (db w)))(b_fd b \<mapsto> (oid, nat p, m))\<rparr>"
proof -
  obtain r d where se: "lo_lseek64 L (b_fd b) off whence (db w) = (r, d)" by fastforce
  have "seeks L st" using assms(1) by (simp add: lo_server_def)
  from server_seek[OF this se assms(3-6)] se assms(2,6) show ?thesis by (intro exI[of _ d]) (simp add: blob_seek_def call_lo_def prog_simps)
qed

lemma modes: "inv_write \<noteq> inv_read"
  by (simp add: inv_write_def inv_read_def)

lemma from_buf_ok:
  assumes S: "lo_server L st" and data: "length data \<le> chunk_limit" and free: "oid = 0 \<or> lo_objs (st (db w)) oid = None"
  shows "\<exists>k d. from_buf pq L data oid w = (Inr k, w\<lparr>db := d\<rparr>) \<and> k \<noteq> 0 \<and> (oid \<noteq> 0 \<longrightarrow> k = oid) \<and> lo_objs (st (db w)) k = None
    \<and> st d = (st (db w))\<lparr>lo_objs := (lo_objs (st (db w)))(k \<mapsto> data)\<rparr>"
proof -
  obtain k d where cr: "lo_create L oid (db w) = (k, d)" by fastforce
  have "creates L st" using S by (simp add: lo_server_def)
  note c = server_create[OF this cr free]
  let ?w = "w\<lparr>db := d\<rparr>"
  have "\<exists>w'. with_blob pq L (open_internal pq L k inv_write) (\<lambda>b. raw_write pq L b data) ?w = (Inr (), w')
      \<and> st (db w') = (st (db ?w))\<lparr>lo_objs := (lo_objs (st (db w)))(k \<mapsto> data)\<rparr> \<and> w'\<lparr>db := d\<rparr> = ?w"
  proof (rule with_blob_ok[OF S, where s = "[]"])
    fix fd d1
    assume fd: "0 \<le> fd" "lo_descs (st (db ?w)) fd = None"
      and d1: "st d1 = (st (db ?w))\<lparr>lo_descs := (lo_descs (st (db ?w)))(fd \<mapsto> (k, 0, inv_write))\<rparr>"
    have "lo_descs (st (db (?w\<lparr>db := d1\<rparr>))) fd = Some (k, 0, inv_write)" "lo_objs (st (db (?w\<lparr>db := d1\<rparr>))) k = Some []"
      using d1 c by simp_all
    from raw_write_ok[OF S, of "\<lparr>b_conn = True, b_fd = fd\<rparr>" "?w\<lparr>db := d1\<rparr>", OF _ _ this(2) modes data, of 0 pq] this(1)
    obtain d2 where "raw_write pq L \<lparr>b_conn = True, b_fd = fd\<rparr> data (?w\<lparr>db := d1\<rparr>) = (Inr (), w\<lparr>db := d2\<rparr>)"
      "st d2 = (st d1)\<lparr>lo_objs := (lo_objs (st d1))(k \<mapsto> data), lo_descs := (lo_descs (st d1))(fd \<mapsto> (k, length data, inv_write))\<rparr>"
      by (auto simp: put_bytes_new)
    with d1 c show "\<exists>w1 pos. raw_write pq L \<lparr>b_conn = True, b_fd = fd\<rparr> data (?w\<lparr>db := d1\<rparr>) = (Inr (), w1)
        \<and> st (db w1) = (st d1)\<lparr>lo_objs := (lo_objs (st (db w)))(k \<mapsto> data), lo_descs := (lo_descs (st d1))(fd \<mapsto> (k, pos, inv_write))\<rparr>
        \<and> (w1\<lparr>db := db ?w\<rparr>)\<lparr>db := d\<rparr> = ?w"
      by (intro exI[of _ "w\<lparr>db := d2\<rparr>"] exI[of _ "length data"]) simp
  qed (use c in simp_all)
  then obtain w' where w': "with_blob pq L (open_internal pq L k inv_write) (\<lambda>b. raw_write pq L b data) ?w = (Inr (), w')"
    "st (db w') = (st (db ?w))\<lparr>lo_objs := (lo_objs (st (db w)))(k \<mapsto> data)\<rparr>" "w'\<lparr>db := d\<rparr> = ?w" by blast
  have e: "w' = w\<lparr>db := db w'\<rparr>" using arg_cong[OF w'(3), of "\<lambda>x. x\<lparr>db := db w'\<rparr>"] by simp
  have "from_buf pq L data oid w = (Inr k, w')"
    using w'(1) c cr by (simp add: from_buf_def blob_create_def call_lo_def try_catch_def open_w_def prog_simps)
  moreover have "st (db w') = (st (db w))\<lparr>lo_objs := (lo_objs (st (db w)))(k \<mapsto> data)\<rparr>" using w'(2) c by simp
  ultimately show ?thesis using c by (intro exI[of _ k] exI[of _ "db w'"]) (simp add: e[symmetric])
qed

lemma lo_read_ok:
  assumes "lo_server L st" "lo_descs (st d) fd = Some (oid, pos, m)" "lo_objs (st d) oid = Some s" "n \<le> chunk_limit"
  shows "\<exists>d'. lo_read L fd n d = ((int (length (take n (drop pos s))), take n (drop pos s)), d')
    \<and> st d' = (st d)\<lparr>lo_descs := (lo_descs (st d))(fd \<mapsto> (oid, pos + length (take n (drop pos s)), m))\<rparr>"
proof -
  obtain r data d' where re: "lo_read L fd n d = ((r, data), d')" by (metis surj_pair)
  have "reads L st" using assms(1) by (simp add: lo_server_def)
  from server_read[OF this re assms(2-4)] re show ?thesis by (intro exI[of _ d']) auto
qed

lemma chunk_vector: "n \<le> chunk_limit \<Longrightarrow> n \<le> max_vector"
  by (simp add: chunk_limit_def max_vector_def)

lemma blob_to_buf_ok:
  fixes w :: "'db blob_session"
  assumes S: "lo_server L st" and o: "lo_objs (st (db w)) oid = Some s" and n: "n \<le> chunk_limit"
  shows "\<exists>w'. blob_to_buf pq L oid n w = (Inr (), w') \<and> st (db w') = st (db w) \<and> b_buf w' = take n s"
proof -
  have "\<exists>w'. with_blob pq L (open_internal pq L oid inv_read) (\<lambda>b. bnd (blob_read pq L b n) (\<lambda>_. ret ())) w = (Inr (), w')
      \<and> st (db w') = (st (db w))\<lparr>lo_objs := lo_objs (st (db w))\<rparr> \<and> b_buf w' = take n s"
  proof (rule with_blob_ok[OF S o])
    fix fd d
    assume d: "st d = (st (db w))\<lparr>lo_descs := (lo_descs (st (db w)))(fd \<mapsto> (oid, 0, inv_read))\<rparr>"
    have 0: "lo_descs (st d) fd = Some (oid, 0, inv_read)" "lo_objs (st d) oid = Some s" using d o by simp_all
    obtain d' where re: "lo_read L fd n d = ((int (length (take n s)), take n s), d')"
      "st d' = (st d)\<lparr>lo_descs := (lo_descs (st d))(fd \<mapsto> (oid, length (take n s), inv_read))\<rparr>"
      using lo_read_ok[OF S 0 n] by auto
    define u where "u = take n s"
    have len: "length u \<le> n" "length u \<le> max_vector" using chunk_vector[OF n] by (simp_all add: u_def)
    have "bnd (blob_read pq L \<lparr>b_conn = True, b_fd = fd\<rparr> n) (\<lambda>_. ret ()) (w\<lparr>db := d\<rparr>) = (Inr (), w\<lparr>db := d', b_buf := u\<rparr>)"
      using re(1)[folded u_def] n len chunk_vector[OF n] resized_read[OF len(1), of "b_buf w"]
      by (simp add: blob_read_def raw_read_def resize_buf_def store_buf_def call_lo_def prog_simps)
    then show "\<exists>w1 pos. bnd (blob_read pq L \<lparr>b_conn = True, b_fd = fd\<rparr> n) (\<lambda>_. ret ()) (w\<lparr>db := d\<rparr>) = (Inr (), w1)
        \<and> st (db w1) = (st d)\<lparr>lo_objs := lo_objs (st (db w)), lo_descs := (lo_descs (st d))(fd \<mapsto> (oid, pos, inv_read))\<rparr>
        \<and> b_buf (w1\<lparr>db := db w\<rparr>) = take n s"
      using re(2) d by (intro exI[of _ "w\<lparr>db := d', b_buf := u\<rparr>"] exI[of _ "length (take n s)"]) (simp add: u_def)
  qed simp_all
  then show ?thesis by (auto simp: blob_to_buf_def open_r_def)
qed

lemma append_from_buf_ok:
  assumes S: "lo_server L st" and o: "lo_objs (st (db w)) oid = Some s" and data: "length data \<le> chunk_limit"
  shows "\<exists>w'. append_from_buf pq L data oid w = (Inr (), w')
    \<and> st (db w') = (st (db w))\<lparr>lo_objs := (lo_objs (st (db w)))(oid \<mapsto> s @ data)\<rparr>"
proof -
  have "\<exists>w'. with_blob pq L (open_internal pq L oid inv_write) (\<lambda>b. sq (seek_end pq L b 0) (raw_write pq L b data)) w = (Inr (), w')
      \<and> st (db w') = (st (db w))\<lparr>lo_objs := (lo_objs (st (db w)))(oid \<mapsto> s @ data)\<rparr> \<and> True"
  proof (rule with_blob_ok[OF S o])
    fix fd d
    assume d: "st d = (st (db w))\<lparr>lo_descs := (lo_descs (st (db w)))(fd \<mapsto> (oid, 0, inv_write))\<rparr>"
    let ?b = "\<lparr>b_conn = True, b_fd = fd\<rparr>"
    have 0: "b_conn ?b" "lo_descs (st (db (w\<lparr>db := d\<rparr>))) (b_fd ?b) = Some (oid, 0, inv_write)" "lo_objs (st (db (w\<lparr>db := d\<rparr>))) oid = Some s"
      using d o by simp_all
    obtain d1 where d1: "seek_end pq L ?b 0 (w\<lparr>db := d\<rparr>) = (Inr (int (length s)), w\<lparr>db := d1\<rparr>)"
      "st d1 = (st d)\<lparr>lo_descs := (lo_descs (st d))(fd \<mapsto> (oid, length s, inv_write))\<rparr>"
      using seek_ok[OF S 0, of "int (length s)" seek_end_whence 0 pq]
      by (auto simp: seek_end_def seek_set_def seek_cur_def seek_end_whence_def)
    have 1: "lo_descs (st (db (w\<lparr>db := d1\<rparr>))) (b_fd ?b) = Some (oid, length s, inv_write)" "lo_objs (st (db (w\<lparr>db := d1\<rparr>))) oid = Some s"
      using d1 d o by simp_all
    obtain d2 where d2: "raw_write pq L ?b data (w\<lparr>db := d1\<rparr>) = (Inr (), w\<lparr>db := d2\<rparr>)"
      "st d2 = (st d1)\<lparr>lo_objs := (lo_objs (st d1))(oid \<mapsto> s @ data), lo_descs := (lo_descs (st d1))(fd \<mapsto> (oid, length s + length data, inv_write))\<rparr>"
      using raw_write_ok[OF S 0(1) 1 modes data, of pq] by (auto simp: put_bytes_end)
    then show "\<exists>w1 pos. sq (seek_end pq L ?b 0) (raw_write pq L ?b data) (w\<lparr>db := d\<rparr>) = (Inr (), w1)
        \<and> st (db w1) = (st d)\<lparr>lo_objs := (lo_objs (st (db w)))(oid \<mapsto> s @ data), lo_descs := (lo_descs (st d))(fd \<mapsto> (oid, pos, inv_write))\<rparr> \<and> True"
      using d1 d by (intro exI[of _ "w\<lparr>db := d2\<rparr>"] exI[of _ "length s + length data"]) (simp add: sq_app)
  qed simp_all
  then show ?thesis using data by (auto simp: append_from_buf_def open_w_def)
qed

subsection \<open>A server for examples\<close>

text \<open>The objects and the descriptors as association lists; new keys are larger than the old ones.\<close>

type_synonym mem = "(nat \<times> string) list \<times> (int \<times> nat \<times> nat \<times> int) list"

definition mem_store :: "mem \<Rightarrow> lo_store" where
  "mem_store d = \<lparr>lo_objs = map_of (fst d), lo_descs = map_of (snd d)\<rparr>"

definition next_oid :: "(nat \<times> string) list \<Rightarrow> nat" where
  "next_oid os = Suc (foldr (\<lambda>e. max (fst e)) os 0)"

definition next_fd :: "(int \<times> nat \<times> nat \<times> int) list \<Rightarrow> int" where
  "next_fd ds = 1 + foldr (\<lambda>e. max (fst e)) ds 0"

definition mem_lobs :: "mem lobs" where
  "mem_lobs = \<lparr>
     lo_create = (\<lambda>oid (os, ds). if oid \<noteq> 0 \<and> map_of os oid \<noteq> None then (0, os, ds)
       else let k = (if oid = 0 then next_oid os else oid) in (k, (k, []) # os, ds)),
     lo_unlink = (\<lambda>oid (os, ds). (if map_of os oid = None then -1 else 1, filter (\<lambda>e. fst e \<noteq> oid) os, ds)),
     lo_open = (\<lambda>oid m (os, ds). if map_of os oid = None then (-1, os, ds) else (next_fd ds, os, (next_fd ds, oid, 0, m) # ds)),
     lo_close = (\<lambda>fd (os, ds). (0, os, filter (\<lambda>e. fst e \<noteq> fd) ds)),
     lo_read = (\<lambda>fd n (os, ds). case map_of ds fd of None \<Rightarrow> ((-1, []), os, ds)
       | Some (oid, pos, m) \<Rightarrow> (case map_of os oid of None \<Rightarrow> ((-1, []), os, ds)
         | Some s \<Rightarrow> let t = take n (drop pos s) in ((int (length t), t), os, (fd, oid, pos + length t, m) # ds))),
     lo_write = (\<lambda>fd data (os, ds). case map_of ds fd of None \<Rightarrow> (-1, os, ds)
       | Some (oid, pos, m) \<Rightarrow> (case map_of os oid of None \<Rightarrow> (-1, os, ds)
         | Some s \<Rightarrow> if m = inv_read then (-1, os, ds)
             else (int (length data), (oid, put_bytes pos data s) # os, (fd, oid, pos + length data, m) # ds))),
     lo_truncate64 = (\<lambda>fd sz d. (-1, d)), lo_tell64 = (\<lambda>fd d. (-1, d)),
     lo_lseek64 = (\<lambda>fd off whence (os, ds). case map_of ds fd of None \<Rightarrow> (-1, os, ds)
       | Some (oid, pos, m) \<Rightarrow> (case map_of os oid of None \<Rightarrow> (-1, os, ds)
         | Some s \<Rightarrow> let p = (if whence = seek_set then 0 else if whence = seek_cur then int pos else int (length s)) + off in
             if p < 0 then (-1, os, ds) else (p, os, (fd, oid, nat p, m) # ds))),
     lo_import = (\<lambda>path d. (0, d)), lo_import_with_oid = (\<lambda>path oid d. (0, d)), lo_export = (\<lambda>oid path d. (-1, d))\<rparr>"

lemma next_oid_new: "map_of os (next_oid os) = None"
proof -
  have "fst e \<le> foldr (\<lambda>e. max (fst e)) os 0" if "e \<in> set os" for e using that by (induction os) (auto simp: le_max_iff_disj)
  then show ?thesis by (fastforce simp: map_of_eq_None_iff next_oid_def)
qed

lemma next_fd_new: "map_of ds (next_fd ds) = None \<and> 0 \<le> next_fd ds"
proof -
  have "fst e \<le> foldr (\<lambda>e. max (fst e)) ds 0" if "e \<in> set ds" for e using that by (induction ds) (auto simp: le_max_iff_disj)
  moreover have "0 \<le> foldr (\<lambda>e. max (fst e)) ds 0" by (induction ds) auto
  ultimately show ?thesis by (fastforce simp: map_of_eq_None_iff next_fd_def)
qed

lemma map_of_remove: "map_of (filter (\<lambda>e. fst e \<noteq> k) xs) = (map_of xs)(k := None)"
  by (induction xs) auto

lemma mem_server: "lo_server mem_lobs mem_store"
  unfolding lo_server_def
proof (intro conjI)
  show "creates mem_lobs mem_store"
    by (auto simp: creates_def mem_lobs_def mem_store_def Let_def next_oid_new split: if_splits) (simp_all add: next_oid_def)
  show "opens mem_lobs mem_store"
    using next_fd_new by (auto simp: opens_def mem_lobs_def mem_store_def split: if_splits)
  show "closes mem_lobs mem_store"
    by (auto simp: closes_def mem_lobs_def mem_store_def map_of_remove)
  show "writes mem_lobs mem_store" by (auto simp: writes_def mem_lobs_def mem_store_def)
  show "reads mem_lobs mem_store" by (auto simp: reads_def mem_lobs_def mem_store_def Let_def)
  show "seeks mem_lobs mem_store" by (auto simp: seeks_def mem_lobs_def mem_store_def Let_def split: if_splits)
qed

definition mem_session :: "'db \<Rightarrow> string \<Rightarrow> 'db blob_session" where
  "mem_session d b = session.extend (begun_session d) \<lparr>b_buf = b\<rparr>"

lemma mem_session_sel [simp]: "db (mem_session d b) = d" "b_buf (mem_session d b) = b"
  by (simp_all add: mem_session_def session.defs begun_session_def fresh_session_def)

definition quiet_pq :: "'db libpq" where
  "quiet_pq = \<lparr>pq_exec = (\<lambda>q d. (None, d)), pq_consume = (\<lambda>d. (True, d)), pq_encoding = (\<lambda>d. Some ''UTF8''), pq_open = (\<lambda>d. True),
     pq_error = (\<lambda>d. ''out of space'')\<rparr>"

subsection \<open>What the operations promise\<close>

text \<open>
  C19.  Large objects hold what is stored in them: over a server that keeps objects as strings of bytes, \<open>from_buf\<close>
  creates an object that did not exist, with exactly the given data; \<open>append_from_buf\<close> then extends it; and \<open>to_buf\<close> reads the whole
  back into the buffer, whatever that held before.  No other object changes, and no descriptor is left open.
\<close>

theorem blob_roundtrip:
  fixes w :: "'db blob_session"
  assumes "lo_server L st" "length data \<le> chunk_limit" "length extra \<le> chunk_limit" "oid = 0 \<or> lo_objs (st (db w)) oid = None"
    "length (data @ extra) \<le> n" "n \<le> chunk_limit"
  shows "\<exists>k w1 w2 w3. from_buf pq L data oid w = (Inr k, w1) \<and> (oid \<noteq> 0 \<longrightarrow> k = oid) \<and> lo_objs (st (db w)) k = None
    \<and> append_from_buf pq L extra k w1 = (Inr (), w2) \<and> blob_to_buf pq L k n w2 = (Inr (), w3) \<and> b_buf w3 = data @ extra
    \<and> st (db w3) = (st (db w))\<lparr>lo_objs := (lo_objs (st (db w)))(k \<mapsto> data @ extra)\<rparr>"
proof -
  obtain k d where k: "from_buf pq L data oid w = (Inr k, w\<lparr>db := d\<rparr>)" "oid \<noteq> 0 \<longrightarrow> k = oid" "lo_objs (st (db w)) k = None"
    "st d = (st (db w))\<lparr>lo_objs := (lo_objs (st (db w)))(k \<mapsto> data)\<rparr>" using from_buf_ok[OF assms(1,2,4), of pq] by blast
  have o1: "lo_objs (st (db (w\<lparr>db := d\<rparr>))) k = Some data" using k(4) by simp
  obtain w2 where w2: "append_from_buf pq L extra k (w\<lparr>db := d\<rparr>) = (Inr (), w2)"
    "st (db w2) = (st d)\<lparr>lo_objs := (lo_objs (st d))(k \<mapsto> data @ extra)\<rparr>" using append_from_buf_ok[OF assms(1) o1 assms(3), of pq] by auto
  have o2: "lo_objs (st (db w2)) k = Some (data @ extra)" using w2(2) by simp
  obtain w3 where "blob_to_buf pq L k n w2 = (Inr (), w3)" "st (db w3) = st (db w2)" "b_buf w3 = take n (data @ extra)"
    using blob_to_buf_ok[OF assms(1) o2 assms(6), of pq] by blast
  with k w2 assms(5) show ?thesis
    by (intro exI[of _ k] exI[of _ "w\<lparr>db := d\<rparr>"] exI[of _ w2] exI[of _ w3]) simp
qed

lemma append_here: "length t \<le> n \<Longrightarrow> resized (length buf + length t) (take (length buf) (resized (length buf + n) buf) @ t
    @ drop (length buf + length t) (resized (length buf + n) buf)) = buf @ t"
  by (simp add: resized_def)

theorem blob_roundtrip_witness:
  "\<exists>k w1 w2 w3. from_buf quiet_pq mem_lobs ''ab'' 0 (mem_session ([], []) ''old'') = (Inr k, w1)
    \<and> append_from_buf quiet_pq mem_lobs ''c'' k w1 = (Inr (), w2) \<and> blob_to_buf quiet_pq mem_lobs k 10 w2 = (Inr (), w3) \<and> b_buf w3 = ''abc''"
  using blob_roundtrip[OF mem_server, of "''ab''" "''c''" 0 "mem_session ([], []) ''old''" 10 quiet_pq]
  by (simp add: chunk_limit_def) blast

text \<open>
  Reading an object piece by piece: \<open>append_to_buf\<close> returns the number of bytes that the object has from the offset on,
  up to the maximum, appends exactly these to the buffer, and changes nothing on the server; past the end it returns 0 and leaves
  the buffer alone.
\<close>

theorem append_to_buf_reads:
  fixes w :: "'db blob_session"
  assumes S: "lo_server L st" and o: "lo_objs (st (db w)) oid = Some s" and n: "n \<le> chunk_limit" and off: "0 \<le> off"
    and room: "length (b_buf w) + n \<le> max_vector"
  shows "\<exists>w'. append_to_buf pq L oid off n w = (Inr (min n (length s - nat off)), w')
    \<and> b_buf w' = b_buf w @ take n (drop (nat off) s) \<and> st (db w') = st (db w)"
proof -
  define t where "t = take n (drop (nat off) s)"
  have t: "length t \<le> n" "length t = min n (length s - nat off)" by (simp_all add: t_def)
  define body where "body b = sq (seek_abs pq L b off)
       (bnd (gets (length \<circ> b_buf)) (\<lambda>org_size.
        sq (resize_buf (org_size + n))
        (try_catch
          (bnd (call_lo (lo_read L (b_fd b) n)) (\<lambda>(received, data). sq (store_buf org_size data)
             (let chunk = nat (received mod 2 ^ 64) in sq (resize_buf ((org_size + chunk) mod 2 ^ 64)) (ret chunk))))
          (\<lambda>e. sq (resize_buf org_size) (throw e)))))" for b
  have "\<exists>w'. with_blob pq L (open_internal pq L oid inv_read) body w = (Inr (length t), w')
      \<and> st (db w') = (st (db w))\<lparr>lo_objs := lo_objs (st (db w))\<rparr> \<and> b_buf w' = b_buf w @ t"
  proof (rule with_blob_ok[OF S o])
    fix fd d
    assume d: "st d = (st (db w))\<lparr>lo_descs := (lo_descs (st (db w)))(fd \<mapsto> (oid, 0, inv_read))\<rparr>"
    let ?b = "\<lparr>b_conn = True, b_fd = fd\<rparr>"
    have 0: "b_conn ?b" "lo_descs (st (db (w\<lparr>db := d\<rparr>))) (b_fd ?b) = Some (oid, 0, inv_read)" "lo_objs (st (db (w\<lparr>db := d\<rparr>))) oid = Some s"
      using d o by simp_all
    obtain d1 where d1: "seek_abs pq L ?b off (w\<lparr>db := d\<rparr>) = (Inr off, w\<lparr>db := d1\<rparr>)"
      "st d1 = (st d)\<lparr>lo_descs := (lo_descs (st d))(fd \<mapsto> (oid, nat off, inv_read))\<rparr>"
      using seek_ok[OF S 0, of off seek_set off pq] off by (auto simp: seek_abs_def)
    have 1: "lo_descs (st d1) fd = Some (oid, nat off, inv_read)" "lo_objs (st d1) oid = Some s" using d1 d o by simp_all
    obtain d2 where re: "lo_read L fd n d1 = ((int (length t), t), d2)"
      "st d2 = (st d1)\<lparr>lo_descs := (lo_descs (st d1))(fd \<mapsto> (oid, nat off + length t, inv_read))\<rparr>"
      using lo_read_ok[OF S 1 n] unfolding t_def by blast
    have num: "nat (int (length t) mod 2 ^ 64) = length t" "(length (b_buf w) + length t) mod 2 ^ 64 = length (b_buf w) + length t"
      "length (b_buf w) + length t \<le> max_vector" using room t(1) by (simp_all add: max_vector_def)
    have "body ?b (w\<lparr>db := d\<rparr>) = (Inr (length t), w\<lparr>db := d2, b_buf := b_buf w @ t\<rparr>)"
      using d1(1) re(1) room num(3) append_here[OF t(1), of "b_buf w"]
      by (simp add: body_def resize_buf_def store_buf_def call_lo_def prog_simps try_catch_def Let_def not_less num[simplified])
    then show "\<exists>w1 pos. body ?b (w\<lparr>db := d\<rparr>) = (Inr (length t), w1)
        \<and> st (db w1) = (st d)\<lparr>lo_objs := lo_objs (st (db w)), lo_descs := (lo_descs (st d))(fd \<mapsto> (oid, pos, inv_read))\<rparr>
        \<and> b_buf (w1\<lparr>db := db w\<rparr>) = b_buf w @ t"
      using re(2) d1(2) d by (intro exI[of _ "w\<lparr>db := d2, b_buf := b_buf w @ t\<rparr>"] exI[of _ "nat off + length t"]) simp
  qed simp_all
  then show ?thesis using n t(2) unfolding append_to_buf_def open_r_def t_def[symmetric] body_def by auto
qed

theorem append_to_buf_reads_witness:
  "\<exists>w'. append_to_buf quiet_pq mem_lobs 5 1 2 (mem_session ([(5, ''abcd'')], []) ''x'') = (Inr (Suc (Suc 0)), w') \<and> b_buf w' = ''xbc''"
  using append_to_buf_reads[OF mem_server, of "mem_session ([(5, ''abcd'')], []) ''x''" 5 "''abcd''" 2 1 quiet_pq]
  by (simp add: chunk_limit_def max_vector_def mem_store_def) blast

subsection \<open>Failures\<close>

text \<open>
  A failing read is not noticed by \<open>append_to_buf\<close>: when \<open>lo_read\<close> reports an error, it throws nothing but returns the
  largest value of \<open>std::size_t\<close>, and the buffer loses its last byte.
\<close>

theorem append_to_buf_loses_byte:
  fixes w :: "'db blob_session"
  assumes "lo_open L oid inv_read (db w) = (fd, d1)" "fd \<noteq> -1" "lo_lseek64 L fd off seek_set d1 = (p, d2)" "0 \<le> p"
    "lo_read L fd n d2 = ((-1, []), d3)" "n \<le> chunk_limit" "b_buf w \<noteq> []" "length (b_buf w) + n \<le> max_vector"
  shows "\<exists>w'. append_to_buf pq L oid off n w = (Inr (2 ^ 64 - 1), w') \<and> b_buf w' = butlast (b_buf w)"
proof -
  have len: "(length (b_buf w) + (2 ^ 64 - 1)) mod 2 ^ 64 = length (b_buf w) - 1"
  proof -
    obtain k where k: "length (b_buf w) = Suc k" using assms(7) by (cases "b_buf w") auto
    have "k < 2 ^ 64" using assms(8) k by (simp add: max_vector_def)
    then show ?thesis using k by (simp add: mod_if)
  qed
  have num: "nat (- 1 mod 2 ^ 64) = 2 ^ 64 - (1 :: nat)" by simp
  have trim: "resized (length (b_buf w) - 1) (resized (length (b_buf w) + n) (b_buf w)) = butlast (b_buf w)"
    by (simp add: resized_def butlast_conv_take)
  show ?thesis
    using assms trim len by (simp add: append_to_buf_def with_blob_def open_r_def open_internal_def call_lo_def prog_simps seek_abs_def blob_seek_def
        resize_buf_def store_buf_def try_catch_def Let_def num guard_with_def blob_destructor_app)
qed

text \<open>A server whose disk fails.\<close>

definition bad_lobs :: "mem lobs" where
  "bad_lobs = mem_lobs\<lparr>lo_read := (\<lambda>fd n d. ((-1, []), d)), lo_write := (\<lambda>fd data d. (-1, d))\<rparr>"

theorem append_to_buf_loses_byte_witness:
  "\<exists>w'. append_to_buf quiet_pq bad_lobs 5 0 2 (mem_session ([(5, ''abcd'')], []) ''xyz'') = (Inr (2 ^ 64 - 1), w') \<and> b_buf w' = ''xy''"
  using append_to_buf_loses_byte[of bad_lobs 5 "mem_session ([(5, ''abcd'')], []) ''xyz''" 1 "([(5, ''abcd'')], [(1, 5, 0, inv_read)])" 0 0
      "([(5, ''abcd'')], [(1, 5, 0, inv_read), (1, 5, 0, inv_read)])" 2 "([(5, ''abcd'')], [(1, 5, 0, inv_read), (1, 5, 0, inv_read)])" quiet_pq]
  by (simp add: bad_lobs_def mem_lobs_def next_fd_def chunk_limit_def max_vector_def seek_set_def)

text \<open>
  An object that could not be filled is left behind: when the caller lets the server choose the identifier (0) and the write
  fails, \<open>from_buf\<close> throws the error of the write, but the object that it has created is not removed; the clean-up asks for the
  removal of object 0, which is refused before the server is called.
\<close>

theorem from_buf_leaves_object:
  assumes "lo_create L 0 (db w) = (k, d1)" "k \<noteq> 0" "lo_open L k inv_write d1 = (fd, d2)" "fd \<noteq> -1"
    "lo_write L fd data d2 = (-1, d3)" "length data \<le> chunk_limit"
  shows "\<exists>ns. from_buf pq L data 0 w
    = (Inl (Throw (Failure (''Write to binary large object failed: '' @ pq_error pq d3))),
       w\<lparr>db := snd (lo_close L fd d3), notices := notices w @ [ns]\<rparr>)"
  using assms
  by (simp add: from_buf_def blob_create_def call_lo_def prog_simps with_blob_def open_w_def open_internal_def raw_write_def fail_with_def errmsg_def
      guard_with_def blob_destructor_app try_catch_def blob_remove_def process_notice_def) (rule exI, rule refl)

theorem from_buf_leaves_object_witness:
  "\<exists>e w'. from_buf quiet_pq bad_lobs ''ab'' 0 (mem_session ([], []) []) = (Inl e, w') \<and> map_of (fst (db w')) 1 = Some []"
  using from_buf_leaves_object[of bad_lobs "mem_session ([], []) []" 1 "([(1, [])], [])" 1 "([(1, [])], [(1, 1, 0, inv_write)])" "''ab''"
      "([(1, [])], [(1, 1, 0, inv_write)])" quiet_pq]
  by (auto simp: bad_lobs_def mem_lobs_def next_oid_def next_fd_def chunk_limit_def)

end
