(* ===== verification/Pqxx_Cursor_Stream.thy ===== *)
theory Pqxx_Cursor_Stream
  imports Pqxx_Cursor "HOL-Library.Multiset"
begin

text \<open>
  Cursor streams and their iterators: the second half of \<open>libpqxx/src/cursor.cxx\<close>.  A stream reads blocks of rows
  from a cursor; its iterators are kept in a doubly linked list, through which the stream fills the ones whose block it reads.
\<close>

subsection \<open>The stream and its iterators\<close>

text \<open>An address is a number; the null pointer is \<open>None\<close>.  \<open>i_stream\<close> tells whether an iterator belongs to the
  stream; there is one stream, and the others, which hold no stream, are the end iterators.\<close>

record icursor_iterator =
  i_stream :: bool
  i_here :: pgresult
  i_pos :: int
  i_prev :: "nat option"
  i_next :: "nat option"

record 'd icursorstream =
  m_cur :: "'d sql_cursor"
  m_iterators :: "nat option"
  m_stride :: int
  m_realpos :: int
  m_reqpos :: int
  m_done :: bool
  heap :: "nat \<Rightarrow> icursor_iterator option"

definition empty_result :: pgresult where
  "empty_result = \<lparr>pg_status = PGRES_EMPTY_QUERY, pg_message = [], pg_sqlstate = None, pg_rows = []\<rparr>"

definition on_cursor :: "('d sql_cursor, 'a) prog \<Rightarrow> ('d icursorstream, 'a) prog" where
  "on_cursor m = (\<lambda>w. let (r, c) = m (m_cur w) in (r, w\<lparr>m_cur := c\<rparr>))"

text \<open>Reading and writing through a pointer; a pointer to nothing is undefined.\<close>

definition deref_it :: "nat option \<Rightarrow> ('d icursorstream, nat \<times> icursor_iterator) prog" where
  "deref_it p = bnd (gets heap) (\<lambda>h. case p of None \<Rightarrow> stop_with (Undefined Index_out_of_range)
     | Some i \<Rightarrow> (case h i of None \<Rightarrow> stop_with (Undefined Index_out_of_range) | Some x \<Rightarrow> ret (i, x)))"

definition upd_it :: "nat option \<Rightarrow> (icursor_iterator \<Rightarrow> icursor_iterator) \<Rightarrow> ('d icursorstream, unit) prog" where
  "upd_it p f = bnd (deref_it p) (\<lambda>(i, x). modify (\<lambda>w. w\<lparr>heap := (heap w)(i \<mapsto> f x)\<rparr>))"

subsection \<open>Reading\<close>

definition set_stride :: "int \<Rightarrow> ('d icursorstream, unit) prog" where
  "set_stride stride = (if stride < 1
     then throw (Argument_error (''Attempt to set cursor stride to '' @ int_to_string stride @ ''.''))
     else modify (\<lambda>w. w\<lparr>m_stride := stride\<rparr>))"

definition fetchblock :: "'d libpq \<Rightarrow> ('d icursorstream, pgresult) prog" where
  "fetchblock pq = bnd (gets m_stride) (\<lambda>s. bnd (on_cursor (cursor_fetch pq s)) (\<lambda>r.
     sq (modify (\<lambda>w. w\<lparr>m_realpos := m_realpos w + int (length (pg_rows r))\<rparr>))
     (sq (whn (pg_rows r = []) (modify (\<lambda>w. w\<lparr>m_done := True\<rparr>))) (ret r))))"

definition ignore_rows :: "(pgresult \<Rightarrow> string) \<Rightarrow> 'd libpq \<Rightarrow> int \<Rightarrow> ('d icursorstream, unit) prog" where
  "ignore_rows cmd_tuples pq n = bnd (on_cursor (cursor_move cmd_tuples pq n)) (\<lambda>offset.
     sq (modify (\<lambda>w. w\<lparr>m_realpos := m_realpos w + offset\<rparr>)) (whn (offset < n) (modify (\<lambda>w. w\<lparr>m_done := True\<rparr>))))"

definition forward :: "int \<Rightarrow> ('d icursorstream, int) prog" where
  "forward n = sq (modify (\<lambda>w. w\<lparr>m_reqpos := m_reqpos w + n * m_stride w\<rparr>)) (gets m_reqpos)"

subsection \<open>The list of iterators\<close>

definition insert_iterator :: "nat \<Rightarrow> ('d icursorstream, unit) prog" where
  "insert_iterator i = bnd (gets m_iterators) (\<lambda>hd.
     sq (upd_it (Some i) (\<lambda>x. x\<lparr>i_next := hd\<rparr>))
     (sq (whn (hd \<noteq> None) (upd_it hd (\<lambda>x. x\<lparr>i_prev := Some i\<rparr>)))
         (modify (\<lambda>w. w\<lparr>m_iterators := Some i\<rparr>))))"

definition remove_iterator :: "nat \<Rightarrow> ('d icursorstream, unit) prog" where
  "remove_iterator i = bnd (gets m_iterators) (\<lambda>hd. bnd (deref_it (Some i)) (\<lambda>(_, x).
     sq (if Some i = hd
         then sq (modify (\<lambda>w. w\<lparr>m_iterators := i_next x\<rparr>)) (whn (i_next x \<noteq> None) (upd_it (i_next x) (\<lambda>y. y\<lparr>i_prev := None\<rparr>)))
         else sq (upd_it (i_prev x) (\<lambda>y. y\<lparr>i_next := i_next x\<rparr>))
                 (whn (i_next x \<noteq> None) (upd_it (i_next x) (\<lambda>y. y\<lparr>i_prev := i_prev x\<rparr>))))
        (upd_it (Some i) (\<lambda>y. y\<lparr>i_prev := None, i_next := None\<rparr>))))"

text \<open>
  The walk along the list takes a bound on the number of steps; on a list that is linked properly the walk ends before
  the number of iterators is reached.  The todo list is a \<open>multimap\<close>: sorted by position, in the order of insertion for equal ones.
\<close>

fun walk :: "nat \<Rightarrow> int \<Rightarrow> int \<Rightarrow> nat option \<Rightarrow> ('d icursorstream, (int \<times> nat) list) prog" where
  "walk 0 lo hi p = stop_with (Undefined Index_out_of_range)"
| "walk (Suc n) lo hi p = (if p = None then ret [] else bnd (deref_it p) (\<lambda>(i, x).
     bnd (walk n lo hi (i_next x)) (\<lambda>todo. ret (if lo \<le> i_pos x \<and> i_pos x \<le> hi then (i_pos x, i) # todo else todo))))"

definition fill :: "pgresult \<Rightarrow> nat \<Rightarrow> ('d icursorstream, unit) prog" where
  "fill r i = upd_it (Some i) (\<lambda>x. x\<lparr>i_here := r\<rparr>)"

function service_loop :: "(pgresult \<Rightarrow> string) \<Rightarrow> 'd libpq \<Rightarrow> (int \<times> nat) list \<Rightarrow> ('d icursorstream, unit) prog" where
  "service_loop cmd_tuples pq [] = ret ()"
| "service_loop cmd_tuples pq ((readpos, i) # todo) =
     sq (bnd (gets m_realpos) (\<lambda>p. whn (readpos > p) (ignore_rows cmd_tuples pq (readpos - p))))
     (bnd (fetchblock pq) (\<lambda>r. sq (for_each (i # map snd (takeWhile (\<lambda>e. fst e = readpos) todo)) (fill r))
       (service_loop cmd_tuples pq (dropWhile (\<lambda>e. fst e = readpos) todo))))"
  by pat_completeness auto
termination
  by (relation "measure (\<lambda>(c, q, todo). length todo)") (auto simp: le_imp_less_Suc length_dropWhile_le)

definition service_iterators :: "(pgresult \<Rightarrow> string) \<Rightarrow> 'd libpq \<Rightarrow> nat \<Rightarrow> int \<Rightarrow> ('d icursorstream, unit) prog" where
  "service_iterators cmd_tuples pq bound topos = bnd (gets m_realpos) (\<lambda>p. if topos < p then ret ()
     else bnd (gets m_iterators) (\<lambda>hd. bnd (walk bound p topos hd) (\<lambda>todo.
       service_loop cmd_tuples pq (sort_key fst todo))))"

subsection \<open>Iterators\<close>

definition refresh :: "(pgresult \<Rightarrow> string) \<Rightarrow> 'd libpq \<Rightarrow> nat \<Rightarrow> nat \<Rightarrow> ('d icursorstream, unit) prog" where
  "refresh cmd_tuples pq bound i = bnd (deref_it (Some i)) (\<lambda>(_, x). whn (i_stream x) (service_iterators cmd_tuples pq bound (i_pos x)))"

definition it_read :: "(pgresult \<Rightarrow> string) \<Rightarrow> 'd libpq \<Rightarrow> nat \<Rightarrow> nat \<Rightarrow> ('d icursorstream, pgresult) prog" where
  "it_read cmd_tuples pq bound i = sq (refresh cmd_tuples pq bound i) (bnd (deref_it (Some i)) (\<lambda>(_, x). ret (i_here x)))"

definition alloc_it :: "nat \<Rightarrow> icursor_iterator \<Rightarrow> ('d icursorstream, unit) prog" where
  "alloc_it i x = modify (\<lambda>w. w\<lparr>heap := (heap w)(i \<mapsto> x)\<rparr>)"

definition it_end :: "nat \<Rightarrow> ('d icursorstream, unit) prog" where
  "it_end i = alloc_it i \<lparr>i_stream = False, i_here = empty_result, i_pos = 0, i_prev = None, i_next = None\<rparr>"

definition it_new :: "nat \<Rightarrow> ('d icursorstream, unit) prog" where
  "it_new i = bnd (forward 0) (\<lambda>p. sq (alloc_it i \<lparr>i_stream = True, i_here = empty_result, i_pos = p, i_prev = None, i_next = None\<rparr>)
     (insert_iterator i))"

definition it_copy :: "nat \<Rightarrow> nat \<Rightarrow> ('d icursorstream, unit) prog" where
  "it_copy i rhs = bnd (deref_it (Some rhs)) (\<lambda>(_, y).
     sq (alloc_it i \<lparr>i_stream = i_stream y, i_here = i_here y, i_pos = i_pos y, i_prev = None, i_next = None\<rparr>)
     (whn (i_stream y) (insert_iterator i)))"

definition it_destroy :: "nat \<Rightarrow> ('d icursorstream, unit) prog" where
  "it_destroy i = bnd (deref_it (Some i)) (\<lambda>(_, x). sq (whn (i_stream x) (remove_iterator i))
     (modify (\<lambda>w. w\<lparr>heap := (heap w)(i := None)\<rparr>)))"

definition it_advance :: "nat \<Rightarrow> ('d icursorstream, unit) prog" where
  "it_advance i = bnd (deref_it (Some i)) (\<lambda>(_, x). if \<not> i_stream x then stop_with (Undefined Index_out_of_range)
     else bnd (forward 1) (\<lambda>p. upd_it (Some i) (\<lambda>x. x\<lparr>i_pos := p, i_here := empty_result\<rparr>)))"

text \<open>The suffix operator copies the iterator to \<open>old\<close> first.\<close>

definition it_post_advance :: "nat \<Rightarrow> nat \<Rightarrow> ('d icursorstream, unit) prog" where
  "it_post_advance old i = sq (it_copy old i) (it_advance i)"

definition it_add :: "nat \<Rightarrow> int \<Rightarrow> ('d icursorstream, unit) prog" where
  "it_add i n = (if n \<le> 0 then (if n = 0 then ret () else throw (Argument_error ''Advancing icursor_iterator by negative offset.''))
     else bnd (deref_it (Some i)) (\<lambda>(_, x). if \<not> i_stream x then stop_with (Undefined Index_out_of_range)
       else bnd (forward n) (\<lambda>p. upd_it (Some i) (\<lambda>x. x\<lparr>i_pos := p, i_here := empty_result\<rparr>))))"

definition it_assign :: "nat \<Rightarrow> nat \<Rightarrow> ('d icursorstream, unit) prog" where
  "it_assign i rhs = (if rhs = i then ret ()
     else bnd (deref_it (Some i)) (\<lambda>(_, x). bnd (deref_it (Some rhs)) (\<lambda>(_, y).
       if i_stream y = i_stream x then upd_it (Some i) (\<lambda>x. x\<lparr>i_here := i_here y, i_pos := i_pos y\<rparr>)
       else sq (whn (i_stream x) (remove_iterator i))
         (sq (upd_it (Some i) (\<lambda>x. x\<lparr>i_here := i_here y, i_pos := i_pos y, i_stream := i_stream y\<rparr>))
             (whn (i_stream y) (insert_iterator i))))))"

definition it_eq :: "(pgresult \<Rightarrow> string) \<Rightarrow> 'd libpq \<Rightarrow> nat \<Rightarrow> nat \<Rightarrow> nat \<Rightarrow> ('d icursorstream, bool) prog" where
  "it_eq cmd_tuples pq bound i rhs = bnd (deref_it (Some i)) (\<lambda>(_, x). bnd (deref_it (Some rhs)) (\<lambda>(_, y).
     if i_stream x = i_stream y then ret (i_pos x = i_pos y)
     else sq (refresh cmd_tuples pq bound i) (sq (refresh cmd_tuples pq bound rhs)
       (bnd (deref_it (Some i)) (\<lambda>(_, x). bnd (deref_it (Some rhs)) (\<lambda>(_, y).
         ret (pg_rows (i_here x) = [] \<and> pg_rows (i_here y) = [])))))))"

definition it_less :: "(pgresult \<Rightarrow> string) \<Rightarrow> 'd libpq \<Rightarrow> nat \<Rightarrow> nat \<Rightarrow> nat \<Rightarrow> ('d icursorstream, bool) prog" where
  "it_less cmd_tuples pq bound i rhs = bnd (deref_it (Some i)) (\<lambda>(_, x). bnd (deref_it (Some rhs)) (\<lambda>(_, y).
     if i_stream x = i_stream y then ret (i_pos x < i_pos y)
     else sq (refresh cmd_tuples pq bound i) (sq (refresh cmd_tuples pq bound rhs)
       (bnd (deref_it (Some i)) (\<lambda>(_, x). ret (pg_rows (i_here x) \<noteq> []))))))"

subsection \<open>The list js well linked\<close>

text \<open>
  \<open>linked h prev js p q\<close>: from the pointer \<open>p\<close> on, behind \<open>prev\<close>, the links lead through the iterators \<open>js\<close> to the
  pointer \<open>q\<close>.
\<close>

fun linked :: "(nat \<Rightarrow> icursor_iterator option) \<Rightarrow> nat option \<Rightarrow> nat list \<Rightarrow> nat option \<Rightarrow> nat option \<Rightarrow> bool" where
  "linked h prev [] p q \<longleftrightarrow> p = q"
| "linked h prev (i # js) p q \<longleftrightarrow> p = Some i \<and> (\<exists>x. h i = Some x \<and> i_prev x = prev \<and> linked h (Some i) js (i_next x) q)"

abbreviation dll :: "(nat \<Rightarrow> icursor_iterator option) \<Rightarrow> nat list \<Rightarrow> nat option \<Rightarrow> bool" where
  "dll h js p \<equiv> linked h None js p None"

definition same_links :: "icursor_iterator option \<Rightarrow> icursor_iterator option \<Rightarrow> bool" where
  "same_links a b \<longleftrightarrow> map_option (\<lambda>x. (i_prev x, i_next x)) a = map_option (\<lambda>x. (i_prev x, i_next x)) b"

lemma linked_same: "linked h prev js p q \<Longrightarrow> (\<And>i. i \<in> set js \<Longrightarrow> same_links (h' i) (h i)) \<Longrightarrow> linked h' prev js p q"
proof (induction js arbitrary: prev p)
  case (Cons i js)
  then obtain x where x: "p = Some i" "h i = Some x" "i_prev x = prev" "linked h (Some i) js (i_next x) q" by auto
  have "same_links (h' i) (h i)" using Cons.prems(2) by simp
  then obtain y where "h' i = Some y" "i_prev y = prev" "i_next y = i_next x" using x by (auto simp: same_links_def)
  with x Cons.IH[OF x(4)] Cons.prems(2) show ?case by auto
qed simp

lemma linked_upd: "linked h prev js p q \<Longrightarrow> i \<notin> set js \<Longrightarrow> linked (h(i := y)) prev js p q"
  by (erule linked_same) (auto simp: same_links_def)

lemma linked_append:
  "linked h prev (ys @ zs) p q \<longleftrightarrow> (\<exists>r. linked h prev ys p r \<and> linked h (if ys = [] then prev else Some (last ys)) zs r q)"
  by (induction ys arbitrary: prev p) auto

lemma linked_last:
  "linked h prev ys p r \<Longrightarrow> distinct ys \<Longrightarrow> ys \<noteq> [] \<Longrightarrow>
     \<exists>x. h (last ys) = Some x \<and> linked (h(last ys \<mapsto> x\<lparr>i_next := r'\<rparr>)) prev ys p r'"
proof (induction ys arbitrary: prev p)
  case (Cons y ys)
  show ?case
  proof (cases "ys = []")
    case True
    with Cons.prems show ?thesis by auto
  next
    case False
    with Cons obtain x z where "h y = Some z" "p = Some y" "i_prev z = prev" "h (last ys) = Some x"
      "linked (h(last ys \<mapsto> x\<lparr>i_next := r'\<rparr>)) (Some y) ys (i_next z) r'" by fastforce
    moreover have "last ys \<noteq> y" using Cons.prems(2) False by auto
    ultimately show ?thesis using False by (intro exI[of _ x]) (simp add: last_ConsR del: last.simps fun_upd_apply add: fun_upd_other)
  qed
qed simp

text \<open>A change of the first link back.\<close>

lemma linked_first: "linked h prev (z # zs) p q \<Longrightarrow> distinct (z # zs) \<Longrightarrow>
    \<exists>y. h z = Some y \<and> p = Some z \<and> linked (h(z \<mapsto> y\<lparr>i_prev := prev'\<rparr>)) prev' (z # zs) p q"
  by (auto intro: linked_upd)

lemma deref_it_app: "deref_it (Some i) w = (case heap w i of None \<Rightarrow> (Inl (Undefined Index_out_of_range), w) | Some x \<Rightarrow> (Inr (i, x), w))"
  by (simp add: deref_it_def prog_simps split: option.split)

lemma upd_it_app: "heap w i = Some x \<Longrightarrow> upd_it (Some i) f w = (Inr (), w\<lparr>heap := (heap w)(i \<mapsto> f x)\<rparr>)"
  by (simp add: upd_it_def deref_it_app prog_simps)

text \<open>Inserting puts an iterator at the head.\<close>

lemma insert_iterator_ok:
  assumes "dll (heap w) js (m_iterators w)" "distinct js" "i \<notin> set js" "heap w i = Some x" "i_prev x = None"
  shows "\<exists>h. insert_iterator i w = (Inr (), w\<lparr>heap := h, m_iterators := Some i\<rparr>) \<and> dll h (i # js) (Some i)
    \<and> (\<forall>k. map_option (\<lambda>x. (i_stream x, i_here x, i_pos x)) (h k) = map_option (\<lambda>x. (i_stream x, i_here x, i_pos x)) (heap w k))"
proof (cases js)
  case Nil
  with assms show ?thesis
    by (intro exI[of _ "(heap w)(i \<mapsto> x\<lparr>i_next := None\<rparr>)"]) (simp add: insert_iterator_def prog_simps upd_it_app)
next
  case (Cons j ks)
  with assms obtain y where y: "m_iterators w = Some j" "heap w j = Some y" "linked (heap w) (Some j) ks (i_next y) None" "i_prev y = None" by auto
  have ij: "i \<noteq> j" "i \<notin> set ks" "j \<notin> set ks" using assms(2,3) Cons by auto
  let ?h = "(heap w)(i \<mapsto> x\<lparr>i_next := Some j\<rparr>, j \<mapsto> y\<lparr>i_prev := Some i\<rparr>)"
  have "linked ?h (Some j) ks (i_next y) None" using linked_upd[OF linked_upd[OF y(3) ij(2)] ij(3)] .
  moreover have "insert_iterator i w = (Inr (), w\<lparr>heap := ?h, m_iterators := Some i\<rparr>)"
    using assms(4) y ij by (simp add: insert_iterator_def prog_simps upd_it_app)
  ultimately show ?thesis using Cons assms(4,5) y ij
    by (intro exI[of _ ?h]) auto
qed

abbreviation payload :: "icursor_iterator option \<Rightarrow> (bool \<times> pgresult \<times> int) option" where
  "payload a \<equiv> map_option (\<lambda>x. (i_stream x, i_here x, i_pos x)) a"

text \<open>Removing takes an iterator out, wherever it is in the list, and clears its links.\<close>

lemma remove_iterator_ok:
  assumes D: "dll (heap w) (ys @ i # zs) (m_iterators w)" and dist: "distinct (ys @ i # zs)"
  shows "\<exists>h p. remove_iterator i w = (Inr (), w\<lparr>heap := h, m_iterators := p\<rparr>) \<and> dll h (ys @ zs) p
    \<and> (\<exists>x. h i = Some x \<and> i_prev x = None \<and> i_next x = None) \<and> (\<forall>k. payload (h k) = payload (heap w k))"
proof -
  from D obtain x where ys: "linked (heap w) None ys (m_iterators w) (Some i)" and x: "heap w i = Some x"
    "i_prev x = (if ys = [] then None else Some (last ys))" and zs: "linked (heap w) (Some i) zs (i_next x) None"
    by (auto simp: linked_append)
  define h1 where "h1 = (case zs of [] \<Rightarrow> heap w | z # _ \<Rightarrow> (heap w)(z \<mapsto> (the (heap w z))\<lparr>i_prev := i_prev x\<rparr>))"
  have n: "i_next x = (case zs of [] \<Rightarrow> None | z # _ \<Rightarrow> Some z)" using zs by (cases zs) auto
  have z: "linked h1 (i_prev x) zs (i_next x) None" "\<And>j. j \<notin> set zs \<Longrightarrow> h1 j = heap w j" "\<And>k. payload (h1 k) = payload (heap w k)"
    using zs dist by (cases zs; auto simp: h1_def intro: linked_upd)+
  show ?thesis
  proof (cases "ys = []")
    case True
    with ys have hd: "m_iterators w = Some i" by simp
    let ?h = "h1(i \<mapsto> x\<lparr>i_prev := None, i_next := None\<rparr>)"
    have "remove_iterator i w = (Inr (), w\<lparr>heap := ?h, m_iterators := i_next x\<rparr>)"
      using hd x n zs dist True
      by (cases zs) (auto simp: remove_iterator_def h1_def deref_it_app upd_it_app prog_simps fun_upd_twist)
    moreover have "dll ?h (ys @ zs) (i_next x)" using z(1) x(2) dist True by (auto intro: linked_upd)
    ultimately show ?thesis using z(3) x by (intro exI[of _ ?h] exI[of _ "i_next x"]) (auto simp: z(2) dist[simplified])
  next
    case False
    let ?l = "last ys"
    have l: "?l \<noteq> i" "?l \<notin> set zs" "i \<notin> set zs" "i \<notin> set ys" "distinct ys" "set ys \<inter> set zs = {}" using dist last_in_set[OF False] by auto
    have hd: "m_iterators w \<noteq> Some i" using ys False l by (cases ys) auto
    obtain y where y: "heap w ?l = Some y" "linked ((heap w)(?l \<mapsto> y\<lparr>i_next := i_next x\<rparr>)) None ys (m_iterators w) (i_next x)"
      using linked_last[OF ys l(5) False] by blast
    let ?h = "h1(?l \<mapsto> y\<lparr>i_next := i_next x\<rparr>, i \<mapsto> x\<lparr>i_prev := None, i_next := None\<rparr>)"
    have "remove_iterator i w = (Inr (), w\<lparr>heap := ?h, m_iterators := m_iterators w\<rparr>)"
      using hd x n zs l False y(1)
      by (cases zs) (auto simp: remove_iterator_def h1_def deref_it_app upd_it_app prog_simps fun_upd_twist)
    moreover have "linked ?h None ys (m_iterators w) (i_next x)"
      using y(2) by (rule linked_same) (use l in \<open>auto simp: same_links_def disjoint_iff z(2)\<close>)
    moreover have "linked ?h (Some ?l) zs (i_next x) None"
      using z(1) x(2) False l by (auto intro!: linked_upd)
    ultimately show ?thesis using z(3) x y(1) False
      by (intro exI[of _ ?h] exI[of _ "m_iterators w"]) (auto simp: linked_append z(2) l)
  qed
qed

subsection \<open>The stream and the server\<close>

text \<open>\<open>streams\<close>: the stream knows how many rows it has passed; \<open>block\<close>: the rows of the block that begins at a position.\<close>

definition streams :: "('d \<Rightarrow> nat) \<Rightarrow> cell list list \<Rightarrow> 'd icursorstream \<Rightarrow> bool" where
  "streams place rows w \<longleftrightarrow> tracks place (length rows) (m_cur w)
     \<and> m_realpos w = int (min (place (m_home (m_cur w))) (length rows))"

definition block :: "'r list \<Rightarrow> int \<Rightarrow> int \<Rightarrow> 'r list" where
  "block rows s p = take (nat s) (drop (nat p) rows)"

lemma passed_block: "0 < k \<Longrightarrow> passed rows p k = block rows k (int (min p (length rows)))"
  by (auto simp: passed_def block_def min_def)

lemma moved_min: "p \<le> n + 1 \<Longrightarrow> 0 < k \<Longrightarrow> int (min (moved n p k) n) = min (int (min p n) + k) (int n)"
  by (auto simp: moved_def min_def)

lemma length_block: "0 \<le> p \<Longrightarrow> 0 < s \<Longrightarrow> p \<le> int (length rows) \<Longrightarrow> p + int (length (block rows s p)) = min (p + s) (int (length rows))"
  by (auto simp: block_def min_def)

lemma fetchblock_ok:
  assumes sv: "serves cmd_tuples pq (cname (m_cur w)) rows place" and st: "streams place rows w" and k: "0 < m_stride w" "m_stride w < 2 ^ 31"
  shows "\<exists>r c b. fetchblock pq w = (Inr r, w\<lparr>m_cur := c, m_realpos := min (m_realpos w + m_stride w) (int (length rows)), m_done := b\<rparr>)
    \<and> pg_rows r = block rows (m_stride w) (m_realpos w) \<and> cname c = cname (m_cur w)
    \<and> streams place rows (w\<lparr>m_cur := c, m_realpos := min (m_realpos w + m_stride w) (int (length rows)), m_done := b\<rparr>)"
proof -
  have t: "tracks place (length rows) (m_cur w)" and p: "place (m_home (m_cur w)) \<le> length rows + 1"
    and re: "m_realpos w = int (min (place (m_home (m_cur w))) (length rows))" using st by (simp_all add: streams_def tracks_def)
  obtain r c where f: "cursor_fetch pq (m_stride w) (m_cur w) = (Inr r, c)" and r: "pg_rows r = block rows (m_stride w) (m_realpos w)"
    and c: "tracks place (length rows) c" "place (m_home c) = moved (length rows) (place (m_home (m_cur w))) (m_stride w)" "cname c = cname (m_cur w)"
    using fetch_tracks[OF sv t, of "m_stride w"] k by (auto simp: passed_block re)
  have len: "m_realpos w + int (length (pg_rows r)) = min (m_realpos w + m_stride w) (int (length rows))"
    unfolding r by (rule length_block) (use k re in auto)
  have "int (min (place (m_home c)) (length rows)) = min (m_realpos w + m_stride w) (int (length rows))"
    unfolding c(2) re by (rule moved_min) (use p k in auto)
  moreover have "fetchblock pq w = (Inr r, w\<lparr>m_cur := c, m_realpos := m_realpos w + int (length (pg_rows r)),
      m_done := (if pg_rows r = [] then True else m_done w)\<rparr>)"
    using f by (simp add: fetchblock_def on_cursor_def prog_simps)
  ultimately show ?thesis using c r unfolding len
    by (intro exI[of _ r] exI[of _ c] exI[of _ "if pg_rows r = [] then True else m_done w"]) (simp add: streams_def)
qed

lemma ignore_rows_ok:
  assumes sv: "serves cmd_tuples pq (cname (m_cur w)) rows place" and st: "streams place rows w" and k: "0 < k" "k < 2 ^ 31"
    and n: "length rows < 2 ^ 31"
  shows "\<exists>c b. ignore_rows cmd_tuples pq k w = (Inr (), w\<lparr>m_cur := c, m_realpos := min (m_realpos w + k) (int (length rows)), m_done := b\<rparr>)
    \<and> cname c = cname (m_cur w) \<and> streams place rows (w\<lparr>m_cur := c, m_realpos := min (m_realpos w + k) (int (length rows)), m_done := b\<rparr>)"
proof -
  have t: "tracks place (length rows) (m_cur w)" and p: "place (m_home (m_cur w)) \<le> length rows + 1"
    and re: "m_realpos w = int (min (place (m_home (m_cur w))) (length rows))" using st by (simp_all add: streams_def tracks_def)
  obtain c m where f: "cursor_move cmd_tuples pq k (m_cur w) = (Inr m, c)" and m: "m = int (length (block rows k (m_realpos w)))"
    and c: "tracks place (length rows) c" "place (m_home c) = moved (length rows) (place (m_home (m_cur w))) k" "cname c = cname (m_cur w)"
    using move_tracks[OF sv t _ n, of k] k by (auto simp: passed_block re)
  have len: "m_realpos w + m = min (m_realpos w + k) (int (length rows))"
    unfolding m by (rule length_block) (use k re in auto)
  have "int (min (place (m_home c)) (length rows)) = min (m_realpos w + k) (int (length rows))"
    unfolding c(2) re by (rule moved_min) (use p k in auto)
  moreover have "ignore_rows cmd_tuples pq k w = (Inr (), w\<lparr>m_cur := c, m_realpos := m_realpos w + m,
      m_done := (if m < k then True else m_done w)\<rparr>)"
    using f by (simp add: ignore_rows_def on_cursor_def prog_simps)
  ultimately show ?thesis using c unfolding len
    by (intro exI[of _ c] exI[of _ "if m < k then True else m_done w"]) (simp add: streams_def)
qed

subsection \<open>Serving the iterators\<close>

text \<open>\<open>filled\<close>: an iterator has got the block at its position, and nothing else of it has changed.\<close>

definition filled :: "int \<Rightarrow> cell list list \<Rightarrow> icursor_iterator option \<Rightarrow> icursor_iterator option \<Rightarrow> bool" where
  "filled s rows a b \<longleftrightarrow> (\<exists>x r. a = Some x \<and> b = Some (x\<lparr>i_here := r\<rparr>) \<and> pg_rows r = block rows s (i_pos x))"

lemma fill_each:
  "\<forall>i\<in>set js. heap w i \<noteq> None \<Longrightarrow>
   for_each js (fill r) w = (Inr (), w\<lparr>heap := \<lambda>j. if j \<in> set js then map_option (\<lambda>x. x\<lparr>i_here := r\<rparr>) (heap w j) else heap w j\<rparr>)"
proof (induction js arbitrary: w)
  case (Cons i js)
  then obtain x where x: "heap w i = Some x" by auto
  define v where "v = w\<lparr>heap := (heap w)(i \<mapsto> x\<lparr>i_here := r\<rparr>)\<rparr>"
  have "for_each (i # js) (fill r) w = for_each js (fill r) v"
    using x by (simp add: fill_def upd_it_app prog_simps v_def)
  also have "\<dots> = (Inr (), v\<lparr>heap := \<lambda>j. if j \<in> set js then map_option (\<lambda>x. x\<lparr>i_here := r\<rparr>) (heap v j) else heap v j\<rparr>)"
    using Cons.prems by (intro Cons.IH) (auto simp: v_def)
  also have "(\<lambda>j. if j \<in> set js then map_option (\<lambda>x. x\<lparr>i_here := r\<rparr>) (heap v j) else heap v j)
     = (\<lambda>j. if j \<in> set (i # js) then map_option (\<lambda>x. x\<lparr>i_here := r\<rparr>) (heap w j) else heap w j)"
    using x by (auto simp: fun_eq_iff v_def)
  finally show ?case by (simp add: v_def)
qed (simp add: prog_simps)

text \<open>\<open>served\<close>: what serving a todo list leaves.\<close>

definition served :: "('d \<Rightarrow> nat) \<Rightarrow> cell list list \<Rightarrow> nat set \<Rightarrow> 'd icursorstream \<Rightarrow> 'd icursorstream \<Rightarrow> bool" where
  "served place rows I w w' \<longleftrightarrow> streams place rows w' \<and> cname (m_cur w') = cname (m_cur w) \<and> m_stride w' = m_stride w
     \<and> m_iterators w' = m_iterators w \<and> m_reqpos w' = m_reqpos w
     \<and> (\<forall>i\<in>I. filled (m_stride w) rows (heap w i) (heap w' i)) \<and> (\<forall>i. i \<notin> I \<longrightarrow> heap w' i = heap w i)"

lemma served_trans:
  assumes 1: "served place rows A w z" and 2: "served place rows B z w'" and "A \<inter> B = {}"
  shows "served place rows (A \<union> B) w w'"
proof -
  have "filled (m_stride w) rows (heap w i) (heap w' i)" if "i \<in> A \<union> B" for i
  proof (cases "i \<in> A")
    case True
    with assms(3) have "i \<notin> B" by blast
    with True 1 2 show ?thesis by (simp add: served_def)
  next
    case False
    with that have "i \<in> B" "heap z i = heap w i" "m_stride z = m_stride w" using 1 by (auto simp: served_def)
    with 2 show ?thesis by (metis served_def)
  qed
  with 1 2 show ?thesis by (simp add: served_def)
qed

text \<open>The positions asked for leave room for a block each.\<close>

definition spaced :: "int \<Rightarrow> int list \<Rightarrow> bool" where
  "spaced s ps \<longleftrightarrow> (\<forall>p\<in>set ps. \<forall>q\<in>set ps. p < q \<longrightarrow> p + s \<le> q)"

lemma spaced_subset: "spaced s ps \<Longrightarrow> set qs \<subseteq> set ps \<Longrightarrow> spaced s qs"
  by (auto simp: spaced_def)

lemma reach_block:
  assumes "serves cmd_tuples pq (cname (m_cur w)) rows place" "streams place rows w" "m_realpos w \<le> p" "p < 2 ^ 31" "length rows < 2 ^ 31"
  shows "\<exists>c m b. bnd (gets m_realpos) (\<lambda>q. whn (p > q) (ignore_rows cmd_tuples pq (p - q))) w
      = (Inr (), w\<lparr>m_cur := c, m_realpos := m, m_done := b\<rparr>)
    \<and> cname c = cname (m_cur w) \<and> m = min p (int (length rows)) \<and> streams place rows (w\<lparr>m_cur := c, m_realpos := m, m_done := b\<rparr>)"
proof (cases "p = m_realpos w")
  case True
  then show ?thesis using assms(2)
    by (intro exI[of _ "m_cur w"] exI[of _ "m_realpos w"] exI[of _ "m_done w"]) (simp add: prog_simps streams_def)
next
  case False
  have "0 \<le> m_realpos w" using assms(2) by (simp add: streams_def)
  then obtain c b where "ignore_rows cmd_tuples pq (p - m_realpos w) w
      = (Inr (), w\<lparr>m_cur := c, m_realpos := min (m_realpos w + (p - m_realpos w)) (int (length rows)), m_done := b\<rparr>)"
    "cname c = cname (m_cur w)" "streams place rows (w\<lparr>m_cur := c, m_realpos := min (m_realpos w + (p - m_realpos w)) (int (length rows)), m_done := b\<rparr>)"
    using ignore_rows_ok[OF assms(1,2) _ _ assms(5), of "p - m_realpos w"] False assms(3,4) by auto
  then show ?thesis using False assms(3) by (auto simp: prog_simps)
qed

lemma block_past: "block rows s (min p (int (length rows))) = block rows s p"
  by (auto simp: block_def min_def)

text \<open>One round: the rows up to a position are skipped, the block is read and handed to the iterators at the position.\<close>

lemma round_ok:
  assumes sv: "serves cmd_tuples pq (cname (m_cur w)) rows place" and st: "streams place rows w"
    and k: "0 < m_stride w" "m_stride w < 2 ^ 31" and p: "m_realpos w \<le> p" "p < 2 ^ 31" and n: "length rows < 2 ^ 31"
    and js: "\<forall>i\<in>set js. \<exists>x. heap w i = Some x \<and> i_pos x = p"
  shows "\<exists>w'. bnd (gets m_realpos) (\<lambda>q. whn (p > q) (ignore_rows cmd_tuples pq (p - q))) w = (Inr (), fst w')
    \<and> bnd (fetchblock pq) (\<lambda>r. for_each js (fill r)) (fst w') = (Inr (), snd w')
    \<and> served place rows (set js) w (snd w') \<and> m_realpos (snd w') = min (p + m_stride w) (int (length rows))"
proof -
  obtain c m b where 1: "bnd (gets m_realpos) (\<lambda>q. whn (p > q) (ignore_rows cmd_tuples pq (p - q))) w = (Inr (), w\<lparr>m_cur := c, m_realpos := m, m_done := b\<rparr>)"
    "cname c = cname (m_cur w)" "m = min p (int (length rows))" "streams place rows (w\<lparr>m_cur := c, m_realpos := m, m_done := b\<rparr>)"
    using reach_block[OF sv st p n] by blast
  define v where "v = w\<lparr>m_cur := c, m_realpos := m, m_done := b\<rparr>"
  have v: "serves cmd_tuples pq (cname (m_cur v)) rows place" "streams place rows v" "0 < m_stride v" "m_stride v < 2 ^ 31"
    using sv 1 k by (simp_all add: v_def)
  obtain r c' b' where 2: "fetchblock pq v = (Inr r, v\<lparr>m_cur := c', m_realpos := min (m_realpos v + m_stride v) (int (length rows)), m_done := b'\<rparr>)"
    "pg_rows r = block rows (m_stride v) (m_realpos v)" "cname c' = cname (m_cur v)"
    "streams place rows (v\<lparr>m_cur := c', m_realpos := min (m_realpos v + m_stride v) (int (length rows)), m_done := b'\<rparr>)"
    using fetchblock_ok[OF v] by blast
  define u where "u = v\<lparr>m_cur := c', m_realpos := min (m_realpos v + m_stride v) (int (length rows)), m_done := b'\<rparr>"
  have h: "heap u = heap w" by (simp add: u_def v_def)
  define z where "z = u\<lparr>heap := \<lambda>j. if j \<in> set js then map_option (\<lambda>x. x\<lparr>i_here := r\<rparr>) (heap u j) else heap u j\<rparr>"
  have "for_each js (fill r) u = (Inr (), z)" unfolding z_def by (rule fill_each) (use js h in auto)
  with 2(1) have 3: "bnd (fetchblock pq) (\<lambda>r. for_each js (fill r)) v = (Inr (), z)" by (simp add: bnd_app u_def)
  have rows_r: "pg_rows r = block rows (m_stride w) p" using 2(2) 1(3) by (simp add: v_def block_past)
  have f: "filled (m_stride w) rows (heap w i) (heap z i)" if i: "i \<in> set js" for i
  proof -
    obtain x where "heap w i = Some x" "i_pos x = p" using bspec[OF js i] by auto
    with i rows_r h show ?thesis by (simp add: filled_def z_def) (rule exI[of _ r], simp)
  qed
  have "streams place rows z" using 2(4) by (simp add: z_def u_def streams_def)
  then have "served place rows (set js) w z"
    using f 1(2) 2(3) h by (simp add: served_def z_def u_def v_def)
  moreover have "m_realpos z = min (p + m_stride w) (int (length rows))" using 1(3) k(1) by (auto simp: z_def u_def v_def min_def)
  ultimately show ?thesis using 1(1) 3 by (intro exI[of _ "(v, z)"]) (simp add: v_def)
qed

lemma sorted_dropWhile_key: "sorted (map f xs) \<Longrightarrow> sorted (map f (dropWhile P xs))"
  by (induction xs) auto

lemma service_loop_ok:
  assumes "serves cmd_tuples pq (cname (m_cur w)) rows place" "streams place rows w" "0 < m_stride w" "m_stride w < 2 ^ 31" "length rows < 2 ^ 31"
    and "sorted (map fst todo)" "spaced (m_stride w) (map fst todo)" "distinct (map snd todo)"
    and "\<forall>(p, i)\<in>set todo. m_realpos w \<le> p \<and> p < 2 ^ 31 \<and> (\<exists>x. heap w i = Some x \<and> i_pos x = p)"
  shows "\<exists>w'. service_loop cmd_tuples pq todo w = (Inr (), w') \<and> served place rows (snd ` set todo) w w'"
  using assms
proof (induction cmd_tuples pq todo arbitrary: w rule: service_loop.induct)
  case (1 cmd_tuples pq)
  then show ?case by (simp add: prog_simps served_def)
next
  case (2 cmd_tuples pq p i todo)
  let ?same = "\<lambda>e. fst e = p"
  define now rest where "now = i # map snd (takeWhile ?same todo)" and "rest = dropWhile ?same todo"
  have todo: "todo = takeWhile ?same todo @ rest" by (simp add: rest_def)
  have set_todo: "set todo = set (takeWhile ?same todo) \<union> set rest" unfolding rest_def by (metis set_append takeWhile_dropWhile_id)
  have now: "\<forall>j\<in>set now. \<exists>x. heap w j = Some x \<and> i_pos x = p"
    using "2.prems"(9) by (fastforce simp: now_def dest: set_takeWhileD)
  obtain v z where r: "bnd (gets m_realpos) (\<lambda>q. whn (p > q) (ignore_rows cmd_tuples pq (p - q))) w = (Inr (), v)"
    "bnd (fetchblock pq) (\<lambda>r. for_each now (fill r)) v = (Inr (), z)"
    "served place rows (set now) w z" "m_realpos z = min (p + m_stride w) (int (length rows))"
    using round_ok[OF "2.prems"(1,2,3,4) _ _ "2.prems"(5) now] "2.prems"(9) by fastforce
  obtain rr u where fb: "fetchblock pq v = (Inr rr, u)" "for_each now (fill rr) u = (Inr (), z)"
    using r(2) by (auto simp: bnd_app split: prod.splits sum.splits)
  have z: "streams place rows z" "cname (m_cur z) = cname (m_cur w)" "m_stride z = m_stride w" using r(3) by (auto simp: served_def)
  have dist: "distinct (now @ map snd rest)"
  proof -
    have "map snd todo = map snd (takeWhile ?same todo) @ map snd rest" unfolding rest_def by (metis map_append takeWhile_dropWhile_id)
    with "2.prems"(8) show ?thesis by (auto simp: now_def)
  qed
  have later: "p < q" if "(q, j) \<in> set rest" for q j
  proof -
    have s: "sorted (map fst todo)" "\<forall>e\<in>set todo. p \<le> fst e" using "2.prems"(6) by auto
    have ne: "rest \<noteq> []" using that by auto
    then have "fst (hd rest) \<noteq> p" "hd rest \<in> set todo"
      using hd_dropWhile[of ?same todo] set_todo hd_in_set[OF ne] by (auto simp: rest_def)
    moreover have "sorted (map fst rest)" unfolding rest_def using s(1) by (rule sorted_dropWhile_key)
    then have "fst (hd rest) \<le> q" using that ne by (cases rest) auto
    ultimately show ?thesis using s(2) by force
  qed
  have "\<exists>w'. service_loop cmd_tuples pq rest z = (Inr (), w') \<and> served place rows (snd ` set rest) z w'"
    unfolding rest_def
  proof (rule "2.IH")
    show "serves cmd_tuples pq (cname (m_cur z)) rows place" "streams place rows z" "0 < m_stride z" "m_stride z < 2 ^ 31" "length rows < 2 ^ 31"
      using "2.prems"(1-5) z by simp_all
    have "sorted (map fst todo)" using "2.prems"(6) by simp
    then show "sorted (map fst (dropWhile ?same todo))" by (rule sorted_dropWhile_key)
    show "spaced (m_stride z) (map fst (dropWhile ?same todo))"
      using "2.prems"(7) unfolding z(3) by (rule spaced_subset) (auto dest: set_dropWhileD)
    show "distinct (map snd (dropWhile ?same todo))" using dist by (simp add: rest_def)
    show "\<forall>(q, j)\<in>set (dropWhile ?same todo). m_realpos z \<le> q \<and> q < 2 ^ 31 \<and> (\<exists>x. heap z j = Some x \<and> i_pos x = q)"
    proof clarify
      fix q j assume "(q, j) \<in> set (dropWhile ?same todo)"
      then have q: "(q, j) \<in> set rest" by (simp add: rest_def)
      then have "(q, j) \<in> set todo" using set_todo by simp
      with "2.prems"(9) have m: "q < 2 ^ 31" "\<exists>x. heap w j = Some x \<and> i_pos x = q" by auto
      have "p + m_stride w \<le> q" using "2.prems"(7) later[OF q] \<open>(q, j) \<in> set todo\<close> by (force simp: spaced_def)
      moreover have "j \<notin> set now" using dist q by force
      then have "heap z j = heap w j" using r(3) by (simp add: served_def)
      ultimately show "m_realpos z \<le> q \<and> q < 2 ^ 31 \<and> (\<exists>x. heap z j = Some x \<and> i_pos x = q)" using m r(4) by simp
    qed
  qed
  then obtain w' where w': "service_loop cmd_tuples pq rest z = (Inr (), w')" "served place rows (snd ` set rest) z w'" by blast
  have I: "snd ` set ((p, i) # todo) = set now \<union> snd ` set rest" using set_todo by (auto simp: now_def)
  have "served place rows (snd ` set ((p, i) # todo)) w w'"
    unfolding I using r(3) w'(2) by (rule served_trans) (use dist in auto)
  moreover have "service_loop cmd_tuples pq ((p, i) # todo) w = (Inr (), w')"
    using r(1) fb w'(1) by (simp add: sq_app bnd_app now_def rest_def)
  ultimately show ?case by blast
qed

text \<open>The walk collects the iterators in range, in the order of the list, and changes nothing.\<close>

definition pos_of :: "'d icursorstream \<Rightarrow> nat \<Rightarrow> int" where
  "pos_of w i = i_pos (the (heap w i))"

lemma walk_ok:
  "linked (heap w) prev js p None \<Longrightarrow> length js < n \<Longrightarrow>
   walk n lo hi p w = (Inr (map (\<lambda>i. (pos_of w i, i)) (filter (\<lambda>i. lo \<le> pos_of w i \<and> pos_of w i \<le> hi) js)), w)"
proof (induction js arbitrary: n prev p)
  case Nil
  then show ?case by (cases n) (simp_all add: prog_simps)
next
  case (Cons i js)
  then obtain m x where "n = Suc m" "p = Some i" "heap w i = Some x" "linked (heap w) (Some i) js (i_next x) None" "length js < m"
    by (cases n) auto
  with Cons.IH show ?case by (simp add: deref_it_app prog_simps pos_of_def)
qed

text \<open>What the iterators of a stream keep: they are well linked, belong to the stream, and their positions leave room for a block.\<close>

definition well_kept :: "nat list \<Rightarrow> 'd icursorstream \<Rightarrow> bool" where
  "well_kept js w \<longleftrightarrow> dll (heap w) js (m_iterators w) \<and> distinct js
     \<and> (\<forall>i\<in>set js. i_stream (the (heap w i)) \<and> pos_of w i < 2 ^ 31) \<and> spaced (m_stride w) (map (pos_of w) js)"

lemma linked_alloc: "linked h prev js p q \<Longrightarrow> i \<in> set js \<Longrightarrow> \<exists>x. h i = Some x"
  by (induction js arbitrary: prev p) auto

lemma filled_same: "filled s rows a b \<Longrightarrow> same_links b a \<and> i_pos (the b) = i_pos (the a) \<and> i_stream (the b) = i_stream (the a)"
  by (auto simp: filled_def same_links_def)

lemma served_keeps:
  assumes "served place rows I w w'" "well_kept js w"
  shows "well_kept js w'"
proof -
  have e: "same_links (heap w' i) (heap w i) \<and> i_pos (the (heap w' i)) = i_pos (the (heap w i)) \<and> i_stream (the (heap w' i)) = i_stream (the (heap w i))" for i
    using assms(1) filled_same[of "m_stride w" rows "heap w i" "heap w' i"] by (cases "i \<in> I") (auto simp: served_def same_links_def)
  then have "dll (heap w') js (m_iterators w')" using assms linked_same[of "heap w"] by (auto simp: well_kept_def served_def)
  moreover have "pos_of w' = pos_of w" using e by (simp add: pos_of_def fun_eq_iff)
  ultimately show ?thesis using assms e by (simp add: well_kept_def served_def)
qed

lemma service_iterators_ok:
  assumes "serves cmd_tuples pq (cname (m_cur w)) rows place" "streams place rows w" "0 < m_stride w" "m_stride w < 2 ^ 31" "length rows < 2 ^ 31"
    and wk: "well_kept js w" "length js < bound"
  shows "\<exists>w'. service_iterators cmd_tuples pq bound hi w = (Inr (), w')
    \<and> served place rows {i \<in> set js. m_realpos w \<le> pos_of w i \<and> pos_of w i \<le> hi} w w'"
proof (cases "hi < m_realpos w")
  case True
  then have "{i \<in> set js. m_realpos w \<le> pos_of w i \<and> pos_of w i \<le> hi} = {}" by auto
  with True assms(2) show ?thesis by (auto simp: service_iterators_def prog_simps served_def)
next
  case False
  let ?ks = "filter (\<lambda>i. m_realpos w \<le> pos_of w i \<and> pos_of w i \<le> hi) js"
  let ?todo = "map (\<lambda>i. (pos_of w i, i)) ?ks"
  let ?s = "sort_key fst ?todo"
  have "walk bound (m_realpos w) hi (m_iterators w) w = (Inr ?todo, w)" using wk by (intro walk_ok) (auto simp: well_kept_def)
  then have e: "service_iterators cmd_tuples pq bound hi w = service_loop cmd_tuples pq ?s w"
    using False by (simp add: service_iterators_def prog_simps)
  have I: "snd ` set ?s = {i \<in> set js. m_realpos w \<le> pos_of w i \<and> pos_of w i \<le> hi}" by force
  have "\<exists>w'. service_loop cmd_tuples pq ?s w = (Inr (), w') \<and> served place rows (snd ` set ?s) w w'"
  proof (rule service_loop_ok[OF assms(1-5)])
    show "sorted (map fst ?s)" by simp
    have "spaced (m_stride w) (map (pos_of w) js)" using wk(1) by (simp add: well_kept_def)
    then show "spaced (m_stride w) (map fst ?s)" by (rule spaced_subset) auto
    have "mset (map snd ?s) = mset (map snd ?todo)" by (simp only: mset_map mset_sort)
    then have "distinct (map snd ?s) \<longleftrightarrow> distinct (map snd ?todo)" by (rule mset_eq_imp_distinct_iff)
    moreover have "map snd ?todo = ?ks" by (simp add: o_def)
    moreover have "distinct ?ks" using wk(1) unfolding well_kept_def by (intro distinct_filter) simp
    ultimately show "distinct (map snd ?s)" by metis
    have "\<exists>x. heap w i = Some x \<and> i_pos x = pos_of w i" if "i \<in> set js" for i
      using wk(1) linked_alloc[of "heap w" None js "m_iterators w" None i] that by (auto simp: well_kept_def pos_of_def)
    then show "\<forall>(p, i)\<in>set ?s. m_realpos w \<le> p \<and> p < 2 ^ 31 \<and> (\<exists>x. heap w i = Some x \<and> i_pos x = p)"
      using wk(1) by (auto simp: well_kept_def)
  qed
  then show ?thesis unfolding e I .
qed

lemma it_read_ahead:
  assumes "serves cmd_tuples pq (cname (m_cur w)) rows place" "streams place rows w" "0 < m_stride w" "m_stride w < 2 ^ 31" "length rows < 2 ^ 31"
    and "well_kept js w" "length js < bound" "i \<in> set js" "m_realpos w \<le> pos_of w i"
  shows "\<exists>r w'. it_read cmd_tuples pq bound i w = (Inr r, w') \<and> pg_rows r = block rows (m_stride w) (pos_of w i)
    \<and> i_here (the (heap w' i)) = r \<and> well_kept js w' \<and> served place rows {j \<in> set js. m_realpos w \<le> pos_of w j \<and> pos_of w j \<le> pos_of w i} w w'"
proof -
  let ?I = "{j \<in> set js. m_realpos w \<le> pos_of w j \<and> pos_of w j \<le> pos_of w i}"
  obtain x where x: "heap w i = Some x" using assms(6,8) linked_alloc[of "heap w" None js "m_iterators w" None i] by (auto simp: well_kept_def)
  have s: "i_stream x" "pos_of w i = i_pos x" using assms(6,8) x by (auto simp: well_kept_def pos_of_def)
  obtain w' where w': "service_iterators cmd_tuples pq bound (pos_of w i) w = (Inr (), w')" "served place rows ?I w w'"
    using service_iterators_ok[OF assms(1-7)] by blast
  have "i \<in> ?I" using assms(8,9) by simp
  then have "filled (m_stride w) rows (heap w i) (heap w' i)" using w'(2) by (auto simp: served_def)
  then obtain r where r: "heap w' i = Some (x\<lparr>i_here := r\<rparr>)" "pg_rows r = block rows (m_stride w) (i_pos x)" using x by (auto simp: filled_def)
  have "it_read cmd_tuples pq bound i w = (Inr r, w')"
    using x s w'(1) r(1) by (simp add: it_read_def refresh_def deref_it_app prog_simps)
  moreover have "i_here (the (heap w' i)) = r" using r(1) by simp
  ultimately show ?thesis using r(2) s(2) w'(2) served_keeps[OF w'(2) assms(6)] by auto
qed

lemma it_read_passed:
  assumes "well_kept js w" "i \<in> set js" "pos_of w i < m_realpos w"
  shows "it_read cmd_tuples pq bound i w = (Inr (i_here (the (heap w i))), w)"
proof -
  obtain x where "heap w i = Some x" using assms(1,2) linked_alloc[of "heap w" None js "m_iterators w" None i] by (auto simp: well_kept_def)
  with assms show ?thesis by (simp add: it_read_def refresh_def service_iterators_def deref_it_app prog_simps pos_of_def)
qed

lemma served_pos: "served place rows I w w' \<Longrightarrow> pos_of w' = pos_of w"
proof
  fix i assume "served place rows I w w'"
  then show "pos_of w' i = pos_of w i" using filled_same[of "m_stride w" rows "heap w i" "heap w' i"]
    by (cases "i \<in> I") (auto simp: served_def pos_of_def)
qed

text \<open>
  C21.  Reading through an iterator of a cursor stream over a result of \<open>rows\<close>, when the positions of the stream's iterators are apart by at
  least the stride.  An iterator that is not behind the stream's position gets the block of rows that begins at its own position, whatever
  other iterators read before; every iterator between the stream's position and this one gets its own block on the way, the
  others are untouched, and the list of iterators stays well linked.  Reading it once more gives the same rows.  An
  iterator behind the stream's position asks the server nothing, and gives what it holds: the block that filled it before, or no
  rows when it was made after the stream had passed its block.
\<close>

theorem iterator_reads_its_block:
  assumes "serves cmd_tuples pq (cname (m_cur w)) rows place" "streams place rows w" "0 < m_stride w" "m_stride w < 2 ^ 31" "length rows < 2 ^ 31"
    and "well_kept js w" "length js < bound" "i \<in> set js"
  shows "if m_realpos w \<le> pos_of w i
    then \<exists>r w'. it_read cmd_tuples pq bound i w = (Inr r, w') \<and> pg_rows r = block rows (m_stride w) (pos_of w i)
      \<and> well_kept js w' \<and> served place rows {j \<in> set js. m_realpos w \<le> pos_of w j \<and> pos_of w j \<le> pos_of w i} w w'
      \<and> (\<exists>r' w''. it_read cmd_tuples pq bound i w' = (Inr r', w'') \<and> pg_rows r' = pg_rows r)
    else it_read cmd_tuples pq bound i w = (Inr (i_here (the (heap w i))), w)"
proof (cases "m_realpos w \<le> pos_of w i")
  case True
  let ?I = "{j \<in> set js. m_realpos w \<le> pos_of w j \<and> pos_of w j \<le> pos_of w i}"
  obtain r w' where r: "it_read cmd_tuples pq bound i w = (Inr r, w')" "pg_rows r = block rows (m_stride w) (pos_of w i)"
    "i_here (the (heap w' i)) = r" "well_kept js w'" "served place rows ?I w w'"
    using it_read_ahead[OF assms True] by blast
  have same: "serves cmd_tuples pq (cname (m_cur w')) rows place" "streams place rows w'" "m_stride w' = m_stride w" "pos_of w' = pos_of w"
    using r(5) assms(1) served_pos[OF r(5)] by (auto simp: served_def)
  have "\<exists>r' w''. it_read cmd_tuples pq bound i w' = (Inr r', w'') \<and> pg_rows r' = pg_rows r"
  proof (cases "m_realpos w' \<le> pos_of w' i")
    case True
    with it_read_ahead[OF same(1,2) _ _ assms(5) r(4) assms(7,8), unfolded same(3,4)] assms(3,4) same(4) r(2) show ?thesis by auto
  next
    case False
    with it_read_passed[OF r(4) assms(8)] r(3) show ?thesis by auto
  qed
  with r True show ?thesis by auto
next
  case False
  with it_read_passed[OF assms(6,8)] show ?thesis by simp
qed

text \<open>Two iterators over three rows, in blocks of two: the second is read first, and both get their own block.\<close>

definition two_iterators :: "nat icursorstream" where
  "two_iterators = \<lparr>m_cur = abc_cursor\<lparr>m_home := 0, m_at_end := -1, m_pos := 0\<rparr>, m_iterators = Some 1, m_stride = 2, m_realpos = 0,
     m_reqpos = 2, m_done = False,
     heap = [0 \<mapsto> \<lparr>i_stream = True, i_here = empty_result, i_pos = 0, i_prev = Some 1, i_next = None\<rparr>,
             1 \<mapsto> \<lparr>i_stream = True, i_here = empty_result, i_pos = 2, i_prev = None, i_next = Some 0\<rparr>]\<rparr>"

theorem iterator_reads_its_block_witness:
  "\<exists>r w'. it_read pg_message (cursor_server abc) 3 1 two_iterators = (Inr r, w') \<and> pg_rows r = [[Some ''c'']]
     \<and> pg_rows (i_here (the (heap w' 0))) = [[Some ''a''], [Some ''b'']]"
proof -
  have "serves pg_message (cursor_server abc) (cname (m_cur two_iterators)) abc id"
    using abc_serves(1) by (simp add: two_iterators_def abc_cursor_def)
  moreover have "streams id abc two_iterators" "well_kept [1, 0] two_iterators"
    by (auto simp: streams_def tracks_def two_iterators_def abc_cursor_def abc_def well_kept_def pos_of_def spaced_def)
  ultimately obtain r w' where rw: "it_read pg_message (cursor_server abc) 3 1 two_iterators = (Inr r, w')"
    "pg_rows r = block abc (m_stride two_iterators) (pos_of two_iterators 1)"
    "served id abc {j \<in> set [1, 0]. m_realpos two_iterators \<le> pos_of two_iterators j \<and> pos_of two_iterators j \<le> pos_of two_iterators 1} two_iterators w'"
    using iterator_reads_its_block[of pg_message "cursor_server abc" two_iterators abc id "[1, 0]" 3 1]
    by (auto simp: two_iterators_def abc_def pos_of_def)
  moreover have "filled (m_stride two_iterators) abc (heap two_iterators 0) (heap w' 0)"
    using rw(3) by (auto simp: served_def two_iterators_def pos_of_def)
  ultimately show ?thesis by (auto simp: two_iterators_def block_def pos_of_def abc_def filled_def eval_nat_numeral)
qed

subsection \<open>Birth and death of an iterator\<close>

lemma spaced_insert: "spaced s ps \<Longrightarrow> (\<And>p. p \<in> set ps \<Longrightarrow> (p < q \<longrightarrow> p + s \<le> q) \<and> (q < p \<longrightarrow> q + s \<le> p)) \<Longrightarrow> spaced s (q # ps)"
  by (auto simp: spaced_def)

lemma well_kept_payload:
  assumes "well_kept js w" "dll h ks p" "distinct ks" "\<And>k. payload (h k) = payload (h0 k)" "\<And>k. k \<in> set ks \<Longrightarrow> k \<in> set js \<and> h0 k = heap w k"
  shows "well_kept ks (w\<lparr>heap := h, m_iterators := p\<rparr>)"
proof -
  have "i_stream (the (h k)) = i_stream (the (heap w k)) \<and> i_pos (the (h k)) = pos_of w k" if "k \<in> set ks" for k
    using assms(4)[of k] assms(5)[OF that] linked_alloc[OF assms(2) that] by (cases "heap w k") (auto simp: pos_of_def)
  with assms show ?thesis by (auto simp: well_kept_def pos_of_def spaced_def)
qed

text \<open>
  An iterator is made at the position last asked for.  On a stream that has read past it, even its first block, the iterator is behind
  the stream's position: reading it gives no rows, although the cursor may have some left.
\<close>

lemma new_iterator_is_behind:
  assumes wk: "well_kept js w" and i: "heap w i = None" and p: "m_reqpos w < m_realpos w" "m_reqpos w < 2 ^ 31"
    and apart: "\<forall>j\<in>set js. (pos_of w j < m_reqpos w \<longrightarrow> pos_of w j + m_stride w \<le> m_reqpos w)
      \<and> (m_reqpos w < pos_of w j \<longrightarrow> m_reqpos w + m_stride w \<le> pos_of w j)"
  shows "\<exists>w'. it_new i w = (Inr (), w') \<and> well_kept (i # js) w' \<and> m_cur w' = m_cur w
    \<and> it_read cmd_tuples pq bound i w' = (Inr empty_result, w')"
proof -
  let ?x = "\<lparr>i_stream = True, i_here = empty_result, i_pos = m_reqpos w, i_prev = None, i_next = None\<rparr>"
  let ?w1 = "w\<lparr>heap := (heap w)(i \<mapsto> ?x)\<rparr>"
  have D: "dll (heap w) js (m_iterators w)" "distinct js" using wk by (simp_all add: well_kept_def)
  have ni: "i \<notin> set js" using linked_alloc[OF D(1), of i] i by auto
  have "dll (heap ?w1) js (m_iterators ?w1)" using D(1) ni by (auto intro: linked_upd)
  from insert_iterator_ok[OF this D(2) ni, of ?x] obtain h where h: "insert_iterator i ?w1 = (Inr (), ?w1\<lparr>heap := h, m_iterators := Some i\<rparr>)"
    "dll h (i # js) (Some i)" "\<forall>k. payload (h k) = payload (((heap w)(i \<mapsto> ?x)) k)" by auto
  let ?w' = "w\<lparr>heap := h, m_iterators := Some i\<rparr>"
  have new: "it_new i w = (Inr (), ?w')" using h(1) by (simp add: it_new_def forward_def alloc_it_def prog_simps)
  have at: "i_stream (the (h k)) = i_stream (the (((heap w)(i \<mapsto> ?x)) k)) \<and> i_pos (the (h k)) = i_pos (the (((heap w)(i \<mapsto> ?x)) k))
      \<and> i_here (the (h k)) = i_here (the (((heap w)(i \<mapsto> ?x)) k))" if "k \<in> set (i # js)" for k
    using h(3)[rule_format, of k] linked_alloc[OF h(2) that] by (cases "((heap w)(i \<mapsto> ?x)) k") auto
  have pos: "pos_of ?w' i = m_reqpos w" "\<And>j. j \<in> set js \<Longrightarrow> pos_of ?w' j = pos_of w j"
    using at ni by (auto simp: pos_of_def)
  have "spaced (m_stride w) (m_reqpos w # map (pos_of w) js)"
    using wk apart by (intro spaced_insert) (auto simp: well_kept_def)
  moreover have "map (pos_of ?w') (i # js) = m_reqpos w # map (pos_of w) js" using pos by simp
  ultimately have "spaced (m_stride w) (map (pos_of ?w') (i # js))" by (simp only:)
  moreover have "i_stream (the (h k)) \<and> pos_of ?w' k < 2 ^ 31" if "k \<in> set (i # js)" for k
    using that at[OF that] pos wk p(2) ni by (auto simp: well_kept_def)
  ultimately have wk': "well_kept (i # js) ?w'" using h(2) D(2) ni by (simp add: well_kept_def)
  have "i_here (the (heap ?w' i)) = empty_result" using at[of i] by simp
  with new wk' it_read_passed[OF wk', of i cmd_tuples pq bound] pos(1) p(1) show ?thesis by auto
qed

text \<open>
  Destroying an iterator takes it out of its stream's list wherever it stands there; the others stay linked and keep
  their blocks and their positions, so that the stream never touches the dead one.
\<close>

theorem destroyed_iterator_is_gone:
  assumes "well_kept (ys @ i # zs) w"
  shows "\<exists>w'. it_destroy i w = (Inr (), w') \<and> well_kept (ys @ zs) w' \<and> heap w' i = None
    \<and> (\<forall>k. k \<noteq> i \<longrightarrow> payload (heap w' k) = payload (heap w k)) \<and> m_cur w' = m_cur w \<and> m_realpos w' = m_realpos w"
proof -
  have D: "dll (heap w) (ys @ i # zs) (m_iterators w)" "distinct (ys @ i # zs)" using assms by (simp_all add: well_kept_def)
  obtain h p x where r: "remove_iterator i w = (Inr (), w\<lparr>heap := h, m_iterators := p\<rparr>)" "dll h (ys @ zs) p"
    "h i = Some x" "\<forall>k. payload (h k) = payload (heap w k)"
    using remove_iterator_ok[OF D] by blast
  obtain y where y: "heap w i = Some y" using linked_alloc[OF D(1), of i] by auto
  have "i_stream y" using assms y by (simp add: well_kept_def)
  with r(1) y have "it_destroy i w = (Inr (), w\<lparr>heap := h(i := None), m_iterators := p\<rparr>)"
    by (simp add: it_destroy_def deref_it_app prog_simps)
  moreover have "well_kept (ys @ zs) (w\<lparr>heap := h(i := None), m_iterators := p\<rparr>)"
    using assms
  proof (rule well_kept_payload)
    show "dll (h(i := None)) (ys @ zs) p" using r(2) D(2) by (auto intro: linked_upd)
    show "distinct (ys @ zs)" using D(2) by auto
    show "payload ((h(i := None)) k) = payload (((heap w)(i := None)) k)" for k using r(4) by simp
    show "k \<in> set (ys @ zs) \<Longrightarrow> k \<in> set (ys @ i # zs) \<and> ((heap w)(i := None)) k = heap w k" for k using D(2) by auto
  qed
  ultimately show ?thesis using r(4) by simp
qed

theorem destroyed_iterator_is_gone_witness:
  "\<exists>w'. it_destroy 1 two_iterators = (Inr (), w') \<and> well_kept [0] w' \<and> heap w' 1 = None"
proof -
  have "well_kept ([] @ 1 # [0]) two_iterators"
    by (auto simp: two_iterators_def abc_cursor_def abc_def well_kept_def pos_of_def spaced_def)
  from destroyed_iterator_is_gone[OF this] show ?thesis by auto
qed

end
