(* ===== verification/Pqxx_Cursor_Open.thy ===== *)
theory Pqxx_Cursor_Open
  imports Pqxx_Kinds Pqxx_Cursor_Stream
begin

text \<open>
  How cursors come and go: the constructors and the destructor of \<open>sql_cursor.cxx\<close>, the class \<open>stateless_cursor\<close> of
  \<open>cursor.hxx\<close> and the constructors of \<open>icursorstream\<close>.
\<close>

subsection \<open>A session with a cursor\<close>

text \<open>The cursor executes its statements on the session's connection; \<open>cur_name\<close> is its name without quotes.\<close>

record 'd cursor_session = "'d naming_session" +
  cur :: "'d sql_cursor"
  cur_name :: string

definition with_cursor :: "('d sql_cursor, 'a) prog \<Rightarrow> ('d cursor_session, 'a) prog" where
  "with_cursor m = (\<lambda>w. let (r, c) = m ((cur w)\<lparr>m_home := db w\<rparr>) in (r, w\<lparr>db := m_home c, cur := c\<rparr>))"

datatype access_policy = Forward_only | Random_access
datatype update_policy = Read_only | For_update

definition cursor_base_name :: "string \<Rightarrow> bool \<Rightarrow> (('d, 'z) naming_session_scheme, string) prog" where
  "cursor_base_name n embellish_name = (if embellish_name then adorn_name n else ret n)"

definition declare_query :: "string \<Rightarrow> access_policy \<Rightarrow> update_policy \<Rightarrow> bool \<Rightarrow> string \<Rightarrow> string" where
  "declare_query qname ap up hold query = ''DECLARE '' @ qname @ '' '' @ (if ap = Forward_only then ''NO'' else []) @ '' SCROLL CURSOR ''
     @ (if hold then ''WITH HOLD'' else []) @ '' FOR '' @ query @ '' '' @ (if up = For_update then ''FOR UPDATE '' else ''FOR READ ONLY'')"

text \<open>\<open>quote\<close> is \<open>quote_name\<close>.\<close>

definition init_empty_result :: "'d libpq \<Rightarrow> nat \<Rightarrow> string \<Rightarrow> (('d, 'z) session_scheme, pgresult) prog" where
  "init_empty_result pq t qname = tx_exec pq t (''FETCH 0 IN '' @ qname)"

definition sql_cursor_declare :: "'d libpq \<Rightarrow> (string \<Rightarrow> string) \<Rightarrow> nat \<Rightarrow> string \<Rightarrow> string \<Rightarrow> access_policy \<Rightarrow> update_policy \<Rightarrow> bool \<Rightarrow> bool
    \<Rightarrow> ('d cursor_session, unit) prog" where
  "sql_cursor_declare pq quote t query hint ap up own hold = bnd (cursor_base_name hint True) (\<lambda>name.
     if query = [] then throw (Usage_error ''Cursor has empty query.'')
     else bnd (get_encoding_group pq) (\<lambda>enc. bnd (lift_exn (find_query_end query enc)) (\<lambda>qend.
       if qend = 0 then throw (Usage_error ''Cursor has effectively empty query.'')
       else sq (tx_exec pq t (declare_query (quote name) ap up hold (take qend query)))
         (bnd (init_empty_result pq t (quote name)) (\<lambda>r.
           modify (\<lambda>w. w\<lparr>cur_name := name, cur := \<lparr>m_home = db w, cname = quote name, owned_cursor = own, m_at_end = -1, m_pos = 0,
             m_endpos = -1, m_empty_result = r\<rparr>\<rparr>))))))"

definition sql_cursor_adopt :: "(string \<Rightarrow> string) \<Rightarrow> string \<Rightarrow> bool \<Rightarrow> ('d cursor_session, unit) prog" where
  "sql_cursor_adopt quote name0 own = bnd (cursor_base_name name0 False) (\<lambda>name.
     modify (\<lambda>w. w\<lparr>cur_name := name, cur := \<lparr>m_home = db w, cname = quote name, owned_cursor = own, m_at_end = 0, m_pos = -1,
       m_endpos = -1, m_empty_result = empty_result\<rparr>\<rparr>))"

definition cursor_destructor :: "'d libpq \<Rightarrow> ('d cursor_session, unit) prog" where
  "cursor_destructor pq = try_catch (with_cursor (cursor_close pq)) (\<lambda>e. bnd (gets cur_name) (\<lambda>n.
     process_notice (''Error closing cursor '' @ n @ '': '' @ exn_what e)))"

subsection \<open>Stateless cursors\<close>

definition stateless_cursor_new :: "'d libpq \<Rightarrow> (string \<Rightarrow> string) \<Rightarrow> nat \<Rightarrow> string \<Rightarrow> string \<Rightarrow> update_policy \<Rightarrow> bool \<Rightarrow> bool
    \<Rightarrow> ('d cursor_session, unit) prog" where
  "stateless_cursor_new pq quote t query hint up own hold = sql_cursor_declare pq quote t query hint Random_access up own hold"

text \<open>When the first move fails, the cursor object is destroyed on the way out.\<close>

definition stateless_cursor_adopt :: "(pgresult \<Rightarrow> string) \<Rightarrow> 'd libpq \<Rightarrow> (string \<Rightarrow> string) \<Rightarrow> string \<Rightarrow> bool \<Rightarrow> ('d cursor_session, unit) prog" where
  "stateless_cursor_adopt cmd_tuples pq quote name own = sq (sql_cursor_adopt quote name own)
     (try_catch (sq (with_cursor (cursor_move cmd_tuples pq cursor_backward_all)) (ret ()))
       (\<lambda>e. sq (cursor_destructor pq) (throw e)))"

definition stateless_close :: "'d libpq \<Rightarrow> ('d cursor_session, unit) prog" where
  "stateless_close pq = with_cursor (cursor_close pq)"

definition stateless_size :: "(pgresult \<Rightarrow> string) \<Rightarrow> 'd libpq \<Rightarrow> ('d cursor_session, int) prog" where
  "stateless_size cmd_tuples pq = with_cursor (obtain_stateless_cursor_size cmd_tuples pq)"

definition stateless_retrieve :: "(pgresult \<Rightarrow> string) \<Rightarrow> 'd libpq \<Rightarrow> int \<Rightarrow> int \<Rightarrow> ('d cursor_session, pgresult) prog" where
  "stateless_retrieve cmd_tuples pq begin_pos end_pos = bnd (stateless_size cmd_tuples pq) (\<lambda>sz.
     with_cursor (stateless_cursor_retrieve cmd_tuples pq sz begin_pos end_pos))"

subsection \<open>Cursor streams\<close>

text \<open>A stream is made of the session's cursor; when the stride is refused, the cursor is destroyed.\<close>

definition stream_of :: "'d sql_cursor \<Rightarrow> int \<Rightarrow> 'd icursorstream" where
  "stream_of c sstride = \<lparr>m_cur = c, m_iterators = None, m_stride = sstride, m_realpos = 0, m_reqpos = 0, m_done = False, heap = (\<lambda>_. None)\<rparr>"

definition stream_init :: "'d libpq \<Rightarrow> int \<Rightarrow> ('d cursor_session, 'd icursorstream) prog" where
  "stream_init pq sstride = bnd (gets cur) (\<lambda>c. case set_stride sstride (stream_of c sstride) of
     (Inl s, _) \<Rightarrow> sq (cursor_destructor pq) (stop_with s) | (Inr u, z) \<Rightarrow> ret z)"

definition icursorstream_new :: "'d libpq \<Rightarrow> (string \<Rightarrow> string) \<Rightarrow> nat \<Rightarrow> string \<Rightarrow> string \<Rightarrow> int \<Rightarrow> ('d cursor_session, 'd icursorstream) prog" where
  "icursorstream_new pq quote t query basename sstride =
     sq (sql_cursor_declare pq quote t query basename Forward_only Read_only True False) (stream_init pq sstride)"

definition icursorstream_adopt :: "'d libpq \<Rightarrow> (string \<Rightarrow> string) \<Rightarrow> string \<Rightarrow> int \<Rightarrow> bool \<Rightarrow> ('d cursor_session, 'd icursorstream) prog" where
  "icursorstream_adopt pq quote name sstride own = sq (sql_cursor_adopt quote name own) (stream_init pq sstride)"

subsection \<open>What a new cursor knows\<close>

text \<open>\<open>declares\<close>: the server takes the declaration, leaves the cursor before its first row, and answers \<open>FETCH 0\<close>.\<close>

definition declares :: "'d libpq \<Rightarrow> string \<Rightarrow> string \<Rightarrow> ('d \<Rightarrow> nat) \<Rightarrow> bool" where
  "declares pq qname cmd place \<longleftrightarrow> (\<forall>d. \<exists>r d'. exec_db pq cmd d = (Inr r, d') \<and> place d' = 0) \<and>
     (\<forall>d. place d = 0 \<longrightarrow> (\<exists>r d'. exec_db pq (''FETCH 0 IN '' @ qname) d = (Inr r, d') \<and> pg_rows r = [] \<and> place d' = 0))"

lemma declare_ok:
  assumes o: "owned t w" "m_status (txs w ! t) = Tx_active" and enc: "\<forall>d. \<exists>n. pq_encoding pq d = Some n \<and> enc_group n = Inr enc"
    and q: "query \<noteq> []" "find_query_end query enc = Inr k" "0 < k"
    and d: "declares pq (quote (adorned hint (m_unique_id w + 1))) (declare_query (quote (adorned hint (m_unique_id w + 1))) ap up hold (take k query)) place"
  shows "\<exists>w'. sql_cursor_declare pq quote t query hint ap up own hold w = (Inr (), w')
    \<and> cname (cur w') = quote (adorned hint (m_unique_id w + 1)) \<and> tracks place n (cur w') \<and> m_home (cur w') = db w'
    \<and> owned_cursor (cur w') = own \<and> txs w' = txs w"
proof -
  let ?n = "adorned hint (m_unique_id w + 1)"
  let ?w = "w\<lparr>m_unique_id := m_unique_id w + 1\<rparr>"
  obtain r1 d1 where 1: "exec_db pq (declare_query (quote ?n) ap up hold (take k query)) (db w) = (Inr r1, d1)" "place d1 = 0"
    using d unfolding declares_def by blast
  obtain r d2 where 2: "exec_db pq (''FETCH 0 IN '' @ quote ?n) d1 = (Inr r, d2)" "pg_rows r = []" "place d2 = 0"
    using d 1(2) unfolding declares_def by blast
  have a: "adorn_name hint w = (Inr ?n, ?w)" by (simp add: adorn_name_def adorned_def prog_simps Let_def)
  have o1: "owned t ?w" "owned t (?w\<lparr>db := d1\<rparr>)" using o(1) by (simp_all add: owned_def)
  obtain n where "pq_encoding pq (db w) = Some n" "enc_group n = Inr enc" using enc by blast
  then have "get_encoding_group pq ?w = (Inr enc, ?w)" by (simp add: get_encoding_group_def lift_exn_def prog_simps)
  then show ?thesis using q 1 2 o(2) a
    by (simp add: sql_cursor_declare_def cursor_base_name_def bnd_app sq_app lift_exn_def prog_simps tx_exec_owned[OF o1(1)] tx_exec_owned[OF o1(2)]
        init_empty_result_def tracks_def)
qed

lemma size_ok:
  assumes "serves cmd_tuples pq (cname c) rows place" "tracks place (length rows) c" "length rows < 2 ^ 30"
  shows "\<exists>c'. obtain_stateless_cursor_size cmd_tuples pq c = (Inr (int (length rows)), c') \<and> tracks place (length rows) c' \<and> cname c' = cname c"
proof (cases "m_endpos c = -1")
  case False
  with assms(2) show ?thesis by (auto simp: obtain_stateless_cursor_size_def tracks_def prog_simps)
next
  case True
  have big: "\<bar>cursor_all\<bar> < 2 ^ 31" "cursor_all \<noteq> 0" by (simp_all add: cursor_all_def)
  have p: "place (m_home c) \<le> length rows + 1" using assms(2) by (simp add: tracks_def)
  obtain m c' where c': "cursor_move cmd_tuples pq cursor_all c = (Inr m, c')" "tracks place (length rows) c'" "cname c' = cname c"
    "place (m_home c') = moved (length rows) (place (m_home c)) cursor_all"
    using move_tracks[OF assms(1,2) big(1)] assms(3) big(2) by auto
  have "place (m_home c') = length rows + 1" using c'(4) assms(3) by (simp add: moved_def cursor_all_def)
  then have "m_endpos c' = int (length rows) + 1" using c'(2) by (auto simp: tracks_def)
  with True c' show ?thesis by (simp add: obtain_stateless_cursor_size_def prog_simps)
qed

text \<open>An adopted cursor stands anywhere; after the move to the beginning its position is known.\<close>

lemma adopt_ok:
  assumes s: "serves cmd_tuples pq (quote n) rows place" and p: "place (db w) \<le> length rows + 1" and l: "length rows < 2 ^ 30"
  shows "\<exists>w'. stateless_cursor_adopt cmd_tuples pq quote n own w = (Inr (), w') \<and> cname (cur w') = quote n
    \<and> tracks place (length rows) (cur w') \<and> m_home (cur w') = db w' \<and> txs w' = txs w"
proof -
  let ?c = "\<lparr>m_home = db w, cname = quote n, owned_cursor = own, m_at_end = 0, m_pos = -1, m_endpos = -1, m_empty_result = empty_result\<rparr>"
  let ?l = "int (length (passed rows (place (db w)) cursor_backward_all))"
  have big: "\<bar>cursor_backward_all\<bar> < 2 ^ 31" "cursor_backward_all \<noteq> 0" by (simp_all add: cursor_backward_all_def)
  obtain r d where r: "exec_db pq (''MOVE '' @ stridestring cursor_backward_all @ '' IN '' @ quote n) (db w) = (Inr r, d)"
    "cmd_tuples r = int_to_string ?l" "place d = moved (length rows) (place (db w)) cursor_backward_all"
    using s p big unfolding serves_def by meson
  have ls: "?l \<le> int (length rows)" by (auto simp: length_passed)
  then have "?l < 2 ^ 31" using l by simp
  then have "from_string_arithmetic (from_chars_int (- (2 ^ 31)) (2 ^ 31 - 1)) ''int'' (int_to_string ?l) = Inr ?l"
    by (intro from_string_int_to_string) simp_all
  moreover have "int_to_string ?l \<noteq> []" by (simp add: int_to_string_def)
  ultimately have a: "affected_rows cmd_tuples r = Inr ?l" unfolding affected_rows_def r(2) Let_def by simp
  have d: "place d = 0" using r(3) p l by (simp add: moved_def cursor_backward_all_def)
  have e: "\<bar>cursor_backward_all\<bar> = 2 ^ 31 - 1" by (simp add: cursor_backward_all_def)
  have "?l \<noteq> 2 ^ 31 - 1" "\<not> ?l > 2 ^ 31 - 1" using ls l by auto
  then have "adjust cursor_backward_all ?l (?c\<lparr>m_home := d\<rparr>) = (Inr (- (?l + 1)), ?c\<lparr>m_home := d, m_at_end := -1, m_pos := 0\<rparr>)"
    unfolding adjust_def e by (simp add: cursor_backward_all_def Let_def)
  then have m: "cursor_move cmd_tuples pq cursor_backward_all ?c = (Inr ?l, ?c\<lparr>m_home := d, m_at_end := -1, m_pos := 0\<rparr>)"
    using r(1) a big(2) by (simp add: cursor_move_def cursor_exec_def lift_exn_def prog_simps)
  then show ?thesis using d
    by (simp add: stateless_cursor_adopt_def sql_cursor_adopt_def cursor_base_name_def with_cursor_def try_catch_def prog_simps
        tracks_def empty_result_def)
qed

text \<open>What \<open>retrieve\<close> does with a beginning and an end, whichever they are.\<close>

definition retrieves :: "(pgresult \<Rightarrow> string) \<Rightarrow> 'd libpq \<Rightarrow> cell list list \<Rightarrow> int \<Rightarrow> int \<Rightarrow> 'd cursor_session \<Rightarrow> bool" where
  "retrieves cmd_tuples pq rows b e w \<longleftrightarrow> (if b < 0 \<or> b > int (length rows)
     then \<exists>w'. stateless_retrieve cmd_tuples pq b e w = (Inl (Throw (Range_error ''Starting position out of range'')), w')
     else \<exists>r w'. stateless_retrieve cmd_tuples pq b e w = (Inr r, w') \<and> pg_rows r = retrieved rows b e)"

lemma rows_retrieved:
  assumes s: "serves cmd_tuples pq (cname (cur w)) rows place" and t: "tracks place (length rows) (cur w)" "m_home (cur w) = db w" and l: "length rows < 2 ^ 30"
  shows "retrieves cmd_tuples pq rows b e w"
proof -
  have bk: "(cur w)\<lparr>m_home := db w\<rparr> = cur w" using t(2) by (cases "cur w") simp
  obtain c where c: "obtain_stateless_cursor_size cmd_tuples pq (cur w) = (Inr (int (length rows)), c)" "tracks place (length rows) c" "cname c = cname (cur w)"
    using size_ok[OF s t(1) l] by blast
  have bk2: "c\<lparr>m_home := m_home c\<rparr> = c" by (cases c) simp
  have run: "stateless_retrieve cmd_tuples pq b e w =
      (let (r, c') = stateless_cursor_retrieve cmd_tuples pq (int (length rows)) b e c in (r, w\<lparr>db := m_home c', cur := c'\<rparr>))"
    using bk bk2 c(1) by (simp add: stateless_retrieve_def stateless_size_def with_cursor_def bnd_app)
  show ?thesis
  proof (cases "b < 0 \<or> b > int (length rows)")
    case True
    then show ?thesis by (simp add: retrieves_def run stateless_cursor_retrieve_def throw_app)
  next
    case False
    with retrieve_gives[of cmd_tuples pq c rows place b e] s c(2,3) l
    obtain r c' where "stateless_cursor_retrieve cmd_tuples pq (int (length rows)) b e c = (Inr r, c')" "pg_rows r = retrieved rows b e" by auto
    with False show ?thesis by (simp add: retrieves_def run)
  qed
qed

subsection \<open>What the cursor is for\<close>

text \<open>
  C24.  A stateless cursor gives the rows that are asked for, from the query on: the query is declared under a fresh name
  and without its trailing blanks and semicolons, the object knows the cursor's position from then on, and \<open>retrieve\<close>, which
  finds out the number of rows by itself, returns the rows from the one position up to, and without, the other, ascending or descending.  There is one exception:
  in descending order from just past the last row the row at the end position is included too.  A
  beginning that is neither a row nor just past the last one is refused.
\<close>

theorem opened_cursor_retrieves:
  assumes "owned t w" "m_status (txs w ! t) = Tx_active" "\<forall>d. \<exists>n. pq_encoding pq d = Some n \<and> enc_group n = Inr enc"
    and "query \<noteq> []" "find_query_end query enc = Inr k" "0 < k" "qname = quote (adorned hint (m_unique_id w + 1))"
    and "declares pq qname (declare_query qname Random_access up hold (take k query)) place"
    and "serves cmd_tuples pq qname rows place" "length rows < 2 ^ 30"
  shows "\<exists>w1. stateless_cursor_new pq quote t query hint up own hold w = (Inr (), w1) \<and> txs w1 = txs w
    \<and> (if b < 0 \<or> b > int (length rows)
       then \<exists>w2. stateless_retrieve cmd_tuples pq b e w1 = (Inl (Throw (Range_error ''Starting position out of range'')), w2)
       else \<exists>r w2. stateless_retrieve cmd_tuples pq b e w1 = (Inr r, w2) \<and> (let e' = max (- 1) (min e (int (length rows))) in
         pg_rows r = (if b \<le> e' then drop (nat b) (take (nat e') rows)
           else if b < int (length rows) then rev (drop (nat (e' + 1)) (take (nat (b + 1)) rows))
           else rev (drop (nat e') rows))))"
proof -
  obtain w1 where w1: "stateless_cursor_new pq quote t query hint up own hold w = (Inr (), w1)" "txs w1 = txs w"
    "cname (cur w1) = qname" "tracks place (length rows) (cur w1)" "m_home (cur w1) = db w1"
    using declare_ok[OF assms(1-6), of quote hint Random_access up hold place own "length rows"] assms(7,8)
    by (auto simp: stateless_cursor_new_def)
  have "serves cmd_tuples pq (cname (cur w1)) rows place" using assms(9) w1(3) by simp
  from rows_retrieved[OF this w1(4,5) assms(10), of b e] w1(1,2) show ?thesis unfolding retrieves_def retrieved_def Let_def by blast
qed

text \<open>
  The same holds of a cursor that was declared elsewhere and adopted, wherever it stands and although neither the position nor the
  number of rows is known: the constructor moves it to the beginning, and from then on its position is known.
\<close>

theorem adopted_cursor_retrieves:
  assumes "serves cmd_tuples pq (quote n) rows place" "place (db w) \<le> length rows + 1" "length rows < 2 ^ 30"
  shows "\<exists>w1. stateless_cursor_adopt cmd_tuples pq quote n own w = (Inr (), w1) \<and> txs w1 = txs w \<and> retrieves cmd_tuples pq rows b e w1"
proof -
  obtain w1 where w1: "stateless_cursor_adopt cmd_tuples pq quote n own w = (Inr (), w1)" "txs w1 = txs w"
    "cname (cur w1) = quote n" "tracks place (length rows) (cur w1)" "m_home (cur w1) = db w1"
    using adopt_ok[of cmd_tuples pq quote n rows place w own] assms by blast
  have "serves cmd_tuples pq (cname (cur w1)) rows place" using assms(1) w1(3) by simp
  from rows_retrieved[OF this w1(4,5) assms(3)] w1 show ?thesis by blast
qed

subsection \<open>A server that takes declarations\<close>

definition declaring_server :: "cell list list \<Rightarrow> nat libpq" where
  "declaring_server rows = (cursor_server rows)\<lparr>pq_exec := (\<lambda>q p. if take 1 q = ''D''
     then (Some \<lparr>pg_status = PGRES_COMMAND_OK, pg_message = [], pg_sqlstate = None, pg_rows = []\<rparr>, 0) else pq_exec (cursor_server rows) q p)\<rparr>"

lemma exec_db_at: "f (c_str q) d = pq_exec pq (c_str q) d \<Longrightarrow> exec_db (pq\<lparr>pq_exec := f\<rparr>) q d = exec_db pq q d"
  by (simp add: exec_db_def split: prod.split option.split sum.split)

lemma declaring_other: "take 1 (c_str q) \<noteq> ''D'' \<Longrightarrow> exec_db (declaring_server rows) q d = exec_db (cursor_server rows) q d"
  unfolding declaring_server_def by (rule exec_db_at) simp

lemma declaring_serves:
  assumes "length rows < 2 ^ 31 - 2"
  shows "serves pg_message (declaring_server rows) ''c'' rows id"
proof -
  have "exec_db (declaring_server rows) (''FETCH '' @ s) d = exec_db (cursor_server rows) (''FETCH '' @ s) d"
    "exec_db (declaring_server rows) (''MOVE '' @ s) d = exec_db (cursor_server rows) (''MOVE '' @ s) d" for s d
    by (rule declaring_other; simp add: c_str_def)+
  with cursor_server_serves[OF assms] show ?thesis by (simp only: serves_def)
qed

lemma declaring_declares: "declares (declaring_server abc) ''c'' (''DECLARE '' @ s) id"
proof -
  have utf: "enc_group ''UTF8'' = Inr Ascii_safe" by code_simp
  have "take 1 (c_str (''DECLARE '' @ s)) = ''D''" by (simp add: c_str_def)
  then have "exec_db (declaring_server abc) (''DECLARE '' @ s) d
      = (Inr \<lparr>pg_status = PGRES_COMMAND_OK, pg_message = [], pg_sqlstate = None, pg_rows = []\<rparr>, 0)" for d
    by (simp add: exec_db_def declaring_server_def cursor_server_def utf check_status_def status_error_def del: c_str_simps)
  moreover have "exec_db (declaring_server abc) ''FETCH 0 IN c'' 0 = (Inr \<lparr>pg_status = PGRES_TUPLES_OK, pg_message = ''0'', pg_sqlstate = None, pg_rows = []\<rparr>, 0)"
    by code_simp
  ultimately show ?thesis by (simp add: declares_def)
qed

definition cursor_start :: "'d \<Rightarrow> 'd cursor_session" where
  "cursor_start d = naming_session.extend (naming d) (cursor_session.fields
     \<lparr>m_home = d, cname = [], owned_cursor = False, m_at_end = 0, m_pos = 0, m_endpos = 0, m_empty_result = empty_result\<rparr> [])"

lemma cursor_start_facts: "owned 0 (cursor_start d)" "m_status (txs (cursor_start d) ! 0) = Tx_active" "db (cursor_start d) = d"
  by (simp_all add: cursor_start_def naming_def naming_session.defs session.defs cursor_session.defs begun_session_def fresh_session_def owned_def new_tx_def)

theorem opened_cursor_retrieves_witness:
  "\<exists>w1 r w2 r' w3. stateless_cursor_new (declaring_server abc) (\<lambda>_. ''c'') 0 ''SELECT 1; '' ''n'' Read_only True False (cursor_start 3) = (Inr (), w1)
    \<and> stateless_retrieve pg_message (declaring_server abc) 1 9 w1 = (Inr r, w2) \<and> pg_rows r = [[Some ''b''], [Some ''c'']]
    \<and> stateless_retrieve pg_message (declaring_server abc) 3 1 w1 = (Inr r', w3) \<and> pg_rows r' = [[Some ''c''], [Some ''b'']]"
proof -
  have utf: "enc_group ''UTF8'' = Inr Ascii_safe" by code_simp
  have e: "\<forall>d. \<exists>n. pq_encoding (declaring_server abc) d = Some n \<and> enc_group n = Inr Ascii_safe"
    using utf by (simp add: declaring_server_def cursor_server_def)
  have q: "find_query_end ''SELECT 1; '' Ascii_safe = Inr 8" by code_simp
  have d: "declares (declaring_server abc) ''c'' (declare_query ''c'' Random_access Read_only False (take 8 ''SELECT 1; '')) id"
    unfolding declare_query_def by (rule declaring_declares)
  have s: "serves pg_message (declaring_server abc) ''c'' abc id" by (rule declaring_serves) (simp add: abc_def)
  have n: "length abc < 2 ^ 30" by (simp add: abc_def)
  have c: "''c'' = (\<lambda>_. ''c'') (adorned ''n'' (m_unique_id (cursor_start (3 :: nat)) + 1))" by simp
  have ne: "''SELECT 1; '' \<noteq> []" "(0 :: nat) < 8" by simp_all
  note opened = opened_cursor_retrieves[where quote = "\<lambda>_. ''c''" and hint = "''n''" and own = True,
        OF cursor_start_facts(1,2)[of 3] e ne(1) q ne(2) c d s n]
  from opened[where b = 1 and e = 9] obtain w1 r w2
    where "stateless_cursor_new (declaring_server abc) (\<lambda>_. ''c'') 0 ''SELECT 1; '' ''n'' Read_only True False (cursor_start 3) = (Inr (), w1)"
    "stateless_retrieve pg_message (declaring_server abc) 1 9 w1 = (Inr r, w2)" "pg_rows r = [[Some ''b''], [Some ''c'']]"
    by (auto simp: abc_def eval_nat_numeral)
  moreover from opened[where b = 3 and e = 1] this(1) obtain r' w3
    where "stateless_retrieve pg_message (declaring_server abc) 3 1 w1 = (Inr r', w3)" "pg_rows r' = [[Some ''c''], [Some ''b'']]"
    by (auto simp: abc_def eval_nat_numeral)
  ultimately show ?thesis by blast
qed

theorem adopted_cursor_retrieves_witness:
  "\<exists>w1 r w2. stateless_cursor_adopt pg_message (declaring_server abc) (\<lambda>_. ''c'') ''mine'' False (cursor_start 3) = (Inr (), w1)
    \<and> stateless_retrieve pg_message (declaring_server abc) 2 0 w1 = (Inr r, w2) \<and> pg_rows r = [[Some ''c''], [Some ''b'']]"
proof -
  have s: "serves pg_message (declaring_server abc) ''c'' abc id" by (rule declaring_serves) (simp add: abc_def)
  have "length abc = 3" "retrieved abc 2 0 = [[Some ''c''], [Some ''b'']]"
    by (simp_all add: abc_def retrieved_def eval_nat_numeral)
  then show ?thesis
    using adopted_cursor_retrieves[of pg_message "declaring_server abc" "\<lambda>_. ''c''" "''mine''" abc id "cursor_start 3" False 2 0] s
    by (auto simp: cursor_start_facts(3) retrieves_def)
qed

end
