(* ===== verification/Pqxx_Copy.thy ===== *)
theory Pqxx_Copy
  imports Pqxx_Streams Pqxx_Session
begin

text \<open>
  The stream objects of \<open>libpqxx/src/stream_to.cxx\<close> and \<open>stream_from.cxx\<close> over the copy functions of
  \<open>libpqxx/src/connection.cxx\<close>: \<open>COPY\<close> into a table and out of it.  The lines themselves are those of \<open>Pqxx_Streams\<close>.
\<close>

subsection \<open>libpq\<close>

text \<open>
  \<open>PQgetCopyData\<close> (its result and the buffer), \<open>PQputCopyData\<close>, \<open>PQputCopyEnd\<close>, and the \<open>PQgetResult\<close> that ends a copy.
\<close>

record 'db copier =
  pq_get_copy :: "'db \<Rightarrow> (int \<times> string) \<times> 'db"
  pq_put_copy :: "string \<Rightarrow> 'db \<Rightarrow> int \<times> 'db"
  pq_put_end :: "'db \<Rightarrow> int \<times> 'db"
  pq_end_result :: "'db \<Rightarrow> pgresult option \<times> 'db"

definition call_copy :: "('db \<Rightarrow> 'a \<times> 'db) \<Rightarrow> (('db, 'z) session_scheme, 'a) prog" where
  "call_copy f = (\<lambda>w. let (r, d) = f (db w) in (Inr r, w\<lparr>db := d\<rparr>))"

definition err_msg :: "'db libpq \<Rightarrow> (('db, 'z) session_scheme, string) prog" where
  "err_msg pq = gets (\<lambda>w. pq_error pq (db w))"

text \<open>The buffer of libpq, with the newline at the end of the line, and the size of the line before it; or the null pointer.\<close>

definition read_copy_buffer :: "'db libpq \<Rightarrow> 'db copier \<Rightarrow> (('db, 'z) session_scheme, (string \<times> nat) option) prog" where
  "read_copy_buffer pq cp = bnd (call_copy (pq_get_copy cp)) (\<lambda>(line_len, buf).
     if line_len = -2 then bnd (err_msg pq) (\<lambda>m. throw (Failure (''Reading of table data failed: '' @ m)))
     else if line_len = -1 then bnd (call_copy (pq_end_result cp)) (\<lambda>r. sq (make_result pq r) (ret None))
     else if line_len = 0 then throw (Internal_error ''table read inexplicably went asynchronous'')
     else if line_len < 0 then stop_with (Undefined Index_out_of_range)
     else ret (Some (buf, nat line_len - 1)))"

definition read_copy_line :: "'db libpq \<Rightarrow> 'db copier \<Rightarrow> (('db, 'z) session_scheme, string option) prog" where
  "read_copy_line pq cp = bnd (read_copy_buffer pq cp) (\<lambda>line. ret (map_option (\<lambda>(buf, sz). take sz buf) line))"

definition write_copy_line :: "'db libpq \<Rightarrow> 'db copier \<Rightarrow> string \<Rightarrow> (('db, 'z) session_scheme, unit) prog" where
  "write_copy_line pq cp line =
     (let failed = bnd (err_msg pq) (\<lambda>m. throw (Failure (''Error writing to table: '' @ m))) in
      if int (length line) > 2 ^ 31 - 1
      then throw (Range_error (''Overflow casting '' @ int_to_string (int (length line))
             @ '' from long to int: Line in stream_to is too long to process.''))
      else bnd (call_copy (pq_put_copy cp line)) (\<lambda>r. if r \<le> 0 then failed
        else bnd (call_copy (pq_put_copy cp [CHR 0x0A])) (\<lambda>r. if r \<le> 0 then failed else ret ())))"

definition end_copy_write :: "'db libpq \<Rightarrow> 'db copier \<Rightarrow> (('db, 'z) session_scheme, unit) prog" where
  "end_copy_write pq cp = bnd (call_copy (pq_put_end cp)) (\<lambda>res.
     if res = -1 then bnd (err_msg pq) (\<lambda>m. throw (Failure (''Write to table failed: '' @ m)))
     else if res = 0 then throw (Internal_error ''table write is inexplicably asynchronous'')
     else if res \<noteq> 1 then throw (Internal_error (''unexpected result '' @ int_to_string res @ '' from PQputCopyEnd()''))
     else bnd (call_copy (pq_end_result cp)) (\<lambda>r. sq (make_result pq r) (ret ())))"

subsection \<open>The stream objects\<close>

text \<open>Each names its transaction; \<open>to_enc\<close> and \<open>from_enc\<close> are the encodings of the character finders.\<close>

record stream_to =
  to_tx :: nat
  to_name :: string
  to_enc :: encoding_group
  m_buffer :: string
  to_finished :: bool

record stream_from =
  from_tx :: nat
  from_name :: string
  from_enc :: encoding_group
  m_fields :: "copy_field list"
  from_finished :: bool

record 'db copying = "'db session" +
  sto :: stream_to
  sfrom :: stream_from

definition upd_to :: "(stream_to \<Rightarrow> stream_to) \<Rightarrow> ('db copying, unit) prog" where
  "upd_to f = modify (\<lambda>w. w\<lparr>sto := f (sto w)\<rparr>)"

definition upd_from :: "(stream_from \<Rightarrow> stream_from) \<Rightarrow> ('db copying, unit) prog" where
  "upd_from f = modify (\<lambda>w. w\<lparr>sfrom := f (sfrom w)\<rparr>)"

text \<open>\<open>register_pending_error\<close>: the first error is kept.\<close>

definition register_pending_error :: "nat \<Rightarrow> string \<Rightarrow> (('db, 'z) session_scheme, unit) prog" where
  "register_pending_error t err = upd_tx t (\<lambda>x. if m_pending_error x = [] \<and> err \<noteq> [] then x\<lparr>m_pending_error := err\<rparr> else x)"

definition no_rows :: "pgresult \<Rightarrow> exn + unit" where
  "no_rows r = (if pg_rows r = [] then Inr () else Inl Unexpected_rows)"

definition finder_group :: "'db libpq \<Rightarrow> char list \<Rightarrow> (('db, 'z) session_scheme, encoding_group) prog" where
  "finder_group pq needle = bnd (get_encoding_group pq) (\<lambda>enc.
     lift_exn (map_sum id (\<lambda>_. enc) (get_char_finder needle enc)))"

subsection \<open>Writing\<close>

text \<open>
  The buffer outlives a call.  So the escaping is written out as it happens in the buffer, with what the buffer holds when
  an exception leaves the function.
\<close>

function escape_run :: "encoding_group \<Rightarrow> string \<Rightarrow> nat \<Rightarrow> string \<Rightarrow> (exn + unit) \<times> string" where
  "escape_run enc data here buffer =
     (if here < length data
      then (case find_in enc escape_needles data here of
              Inl e \<Rightarrow> (Inl e, buffer)
            | Inr stop_char \<Rightarrow>
                let buffer' = buffer @ take (stop_char - here) (drop here data) in
                if stop_char < length data
                then (case escape_char (data ! stop_char) of
                        Inl e \<Rightarrow> (Inl e, buffer' @ [CHR 0x5C])
                      | Inr c \<Rightarrow> escape_run enc data (stop_char + 1) (buffer' @ [CHR 0x5C, c]))
                else escape_run enc data (stop_char + 1) buffer')
      else (Inr (), buffer @ [CHR 0x09]))"
  by pat_completeness auto
termination
  by (relation "measure (\<lambda>(enc, data, here, buffer). length data - here)") (auto dest!: find_in_range)

declare escape_run.simps [simp del]

fun fill_run :: "encoding_group \<Rightarrow> copy_field list \<Rightarrow> string \<Rightarrow> (exn + unit) \<times> string" where
  "fill_run enc [] buffer = (Inr (), buffer)"
| "fill_run enc (None # fs) buffer = fill_run enc fs (buffer @ null_field)"
| "fill_run enc (Some s # fs) buffer = (case escape_run enc s 0 buffer of
       (Inl e, b) \<Rightarrow> (Inl e, b) | (Inr u, b) \<Rightarrow> fill_run enc fs b)"

definition begin_copy :: "'db libpq \<Rightarrow> nat \<Rightarrow> string \<Rightarrow> string \<Rightarrow> (('db, 'z) session_scheme, unit) prog" where
  "begin_copy pq t table columns = bnd (tx_exec pq t (''COPY '' @ table
       @ (if columns = [] then '' FROM STDIN'' else '' ('' @ columns @ '') FROM STDIN''))) (\<lambda>r. lift_exn (no_rows r))"

definition stream_to_open :: "'db libpq \<Rightarrow> nat \<Rightarrow> string \<Rightarrow> string \<Rightarrow> ('db copying, unit) prog" where
  "stream_to_open pq t path columns = bnd (finder_group pq escape_needles) (\<lambda>enc.
     sq (begin_copy pq t path columns)
     (sq (register_focus t (''stream_to'', path))
         (upd_to (\<lambda>s. \<lparr>to_tx = t, to_name = path, to_enc = enc, m_buffer = [], to_finished = False\<rparr>))))"

definition write_raw_line :: "'db libpq \<Rightarrow> 'db copier \<Rightarrow> string \<Rightarrow> ('db copying, unit) prog" where
  "write_raw_line pq cp text = write_copy_line pq cp text"

definition write_buffer :: "'db libpq \<Rightarrow> 'db copier \<Rightarrow> ('db copying, unit) prog" where
  "write_buffer pq cp = sq (upd_to (\<lambda>s. s\<lparr>m_buffer := buffer_line (m_buffer s)\<rparr>))
     (bnd (gets (m_buffer \<circ> sto)) (\<lambda>b. sq (write_raw_line pq cp b) (upd_to (\<lambda>s. s\<lparr>m_buffer := []\<rparr>))))"

definition write_row :: "'db libpq \<Rightarrow> 'db copier \<Rightarrow> copy_field list \<Rightarrow> ('db copying, unit) prog" where
  "write_row pq cp row = bnd (gets sto) (\<lambda>s. let (r, b) = fill_run (to_enc s) row (m_buffer s) in
     sq (upd_to (\<lambda>s. s\<lparr>m_buffer := b\<rparr>)) (sq (lift_exn r) (write_buffer pq cp)))"

definition stream_to_complete :: "'db libpq \<Rightarrow> 'db copier \<Rightarrow> ('db copying, unit) prog" where
  "stream_to_complete pq cp = bnd (gets sto) (\<lambda>s. whn (\<not> to_finished s)
     (sq (upd_to (\<lambda>s. s\<lparr>to_finished := True\<rparr>))
     (sq (unregister_focus (to_tx s) (''stream_to'', to_name s)) (end_copy_write pq cp))))"

definition stream_to_destructor :: "'db libpq \<Rightarrow> 'db copier \<Rightarrow> ('db copying, unit) prog" where
  "stream_to_destructor pq cp = try_catch (stream_to_complete pq cp)
     (\<lambda>e. bnd (gets sto) (\<lambda>s. register_pending_error (to_tx s) (exn_what e)))"

subsection \<open>Reading\<close>

definition stream_from_start :: "'db libpq \<Rightarrow> nat \<Rightarrow> string \<Rightarrow> string \<Rightarrow> ('db copying, unit) prog" where
  "stream_from_start pq t name query = bnd (finder_group pq [CHR 0x09, CHR 0x5C]) (\<lambda>enc.
     sq (bnd (tx_exec pq t query) (\<lambda>r. lift_exn (no_rows r)))
     (sq (register_focus t (''stream_from'', name))
         (upd_from (\<lambda>s. \<lparr>from_tx = t, from_name = name, from_enc = enc, m_fields = [], from_finished = False\<rparr>))))"

definition from_query :: "'db libpq \<Rightarrow> nat \<Rightarrow> string \<Rightarrow> ('db copying, unit) prog" where
  "from_query pq t query = stream_from_start pq t [] (''COPY ('' @ query @ '') TO STDOUT'')"

definition from_table :: "'db libpq \<Rightarrow> (string \<Rightarrow> string) \<Rightarrow> nat \<Rightarrow> string \<Rightarrow> ('db copying, unit) prog" where
  "from_table pq quote t table = stream_from_start pq t table (''COPY '' @ quote table @ '' TO STDOUT'')"

definition from_raw_table :: "'db libpq \<Rightarrow> nat \<Rightarrow> string \<Rightarrow> string \<Rightarrow> ('db copying, unit) prog" where
  "from_raw_table pq t path columns = stream_from_start pq t path (''COPY '' @ path
     @ (if columns = [] then '' TO STDOUT'' else ''('' @ columns @ '') TO STDOUT''))"

definition stream_from_close :: "('db copying, unit) prog" where
  "stream_from_close = bnd (gets sfrom) (\<lambda>s. whn (\<not> from_finished s)
     (sq (upd_from (\<lambda>s. s\<lparr>from_finished := True\<rparr>)) (unregister_focus (from_tx s) (''stream_from'', from_name s))))"

definition stream_from_destructor :: "('db copying, unit) prog" where
  "stream_from_destructor = try_catch stream_from_close (\<lambda>e. bnd (gets sfrom) (\<lambda>s. register_pending_error (from_tx s) (exn_what e)))"

definition get_raw_line :: "'db libpq \<Rightarrow> 'db copier \<Rightarrow> ('db copying, string option) prog" where
  "get_raw_line pq cp = bnd (gets sfrom) (\<lambda>s. if from_finished s then ret None
     else try_catch (bnd (read_copy_line pq cp) (\<lambda>line. sq (whn (line = None) stream_from_close) (ret line)))
       (\<lambda>e. sq stream_from_close (throw e)))"

text \<open>The loop that reads the lines that are left takes a bound on their number; without it, it has not ended.\<close>

fun drain :: "nat \<Rightarrow> 'db libpq \<Rightarrow> 'db copier \<Rightarrow> ('db copying, unit) prog" where
  "drain 0 pq cp = stop_with Waiting"
| "drain (Suc n) pq cp = bnd (get_raw_line pq cp) (\<lambda>line. whn (line \<noteq> None) (drain n pq cp))"

definition stream_from_complete :: "nat \<Rightarrow> 'db libpq \<Rightarrow> 'db copier \<Rightarrow> ('db copying, unit) prog" where
  "stream_from_complete n pq cp = bnd (gets sfrom) (\<lambda>s. whn (\<not> from_finished s)
     (sq (try_catch (drain n pq cp) (\<lambda>e. if e = Broken_connection \<or> e = Too_many_connections
            then sq stream_from_close (throw e) else register_pending_error (from_tx s) (exn_what e)))
         stream_from_close))"

definition parse_line :: "'db libpq \<Rightarrow> 'db copier \<Rightarrow> ('db copying, unit) prog" where
  "parse_line pq cp = bnd (gets sfrom) (\<lambda>s. whn (\<not> from_finished s)
     (sq (upd_from (\<lambda>s. s\<lparr>m_fields := []\<rparr>)) (bnd (get_raw_line pq cp) (\<lambda>line. case line of
         None \<Rightarrow> upd_from (\<lambda>s. s\<lparr>from_finished := True\<rparr>)
       | Some text \<Rightarrow> if length text \<ge> (2 ^ 64 - 1) div 2 then throw (Range_error ''Stream produced a ridiculously long line.'')
           else bnd (lift_exn (parse_fields (from_enc s) text)) (\<lambda>fs. upd_from (\<lambda>s. s\<lparr>m_fields := fs\<rparr>))))))"

definition read_row :: "'db libpq \<Rightarrow> 'db copier \<Rightarrow> ('db copying, copy_field list option) prog" where
  "read_row pq cp = sq (parse_line pq cp) (gets (\<lambda>w. if from_finished (sfrom w) then None else Some (m_fields (sfrom w))))"

subsection \<open>From one connection to another\<close>

definition on_fst :: "('a, 'x) prog \<Rightarrow> ('a \<times> 'b, 'x) prog" where
  "on_fst m = (\<lambda>(a, b). let (r, a') = m a in (r, (a', b)))"

definition on_snd :: "('b, 'x) prog \<Rightarrow> ('a \<times> 'b, 'x) prog" where
  "on_snd m = (\<lambda>(a, b). let (r, b') = m b in (r, (a, b')))"

fun copy_stream :: "nat \<Rightarrow> 'd libpq \<Rightarrow> 'd copier \<Rightarrow> 'e libpq \<Rightarrow> 'e copier \<Rightarrow> ('d copying \<times> 'e copying, unit) prog" where
  "copy_stream 0 pq cp qp cq = stop_with Waiting"
| "copy_stream (Suc n) pq cp qp cq = bnd (on_snd (gets (from_finished \<circ> sfrom))) (\<lambda>over. whn (\<not> over)
     (bnd (on_snd (get_raw_line qp cq)) (\<lambda>line. case line of None \<Rightarrow> ret ()
       | Some text \<Rightarrow> sq (on_fst (write_raw_line pq cp text)) (copy_stream n pq cp qp cq))))"

end
