(* ===== verification/Copy_Spec.thy ===== *)
theory Copy_Spec
  imports Pqxx_Copy
begin

text \<open>
  What copying promises: the contract of a server that takes and gives lines, that rows written through \<open>stream_to\<close> are
  read back through \<open>stream_from\<close>, and what becomes of errors.
\<close>

subsection \<open>What the server does\<close>

datatype copy_mode = Copy_idle | Copy_in string | Copy_out "string list"

record copy_store =
  c_table :: "string list"
  c_mode :: copy_mode

abbreviation newline :: char where "newline \<equiv> CHR 0x0A"

text \<open>A line has no newline among its characters; inside of a multibyte character there may be such a byte.\<close>

definition one_line :: "encoding_group \<Rightarrow> string \<Rightarrow> bool" where
  "one_line enc l \<longleftrightarrow> (\<exists>gs. glyphs (scanner_of enc) gs \<and> concat gs = l \<and> (\<forall>g\<in>set gs. hd g \<noteq> newline))"

definition end_lines :: "string list \<Rightarrow> string" where
  "end_lines ls = concat (map (\<lambda>l. l @ [newline]) ls)"

text \<open>The two statements are those that the streams send; \<open>st\<close> is what the server's state means.\<close>

definition takes_copy :: "'db libpq \<Rightarrow> 'db copier \<Rightarrow> encoding_group \<Rightarrow> string \<Rightarrow> ('db \<Rightarrow> copy_store) \<Rightarrow> bool" where
  "takes_copy pq cp enc cmd st \<longleftrightarrow>
     (\<forall>d. c_mode (st d) = Copy_idle \<longrightarrow> (\<exists>r d'. exec_db pq cmd d = (Inr r, d') \<and> pg_rows r = [] \<and> st d' = (st d)\<lparr>c_mode := Copy_in []\<rparr>))
   \<and> (\<forall>d s data. c_mode (st d) = Copy_in s \<longrightarrow> (\<exists>d'. pq_put_copy cp data d = (1, d') \<and> st d' = (st d)\<lparr>c_mode := Copy_in (s @ data)\<rparr>))
   \<and> (\<forall>d ls. c_mode (st d) = Copy_in (end_lines ls) \<longrightarrow> (\<forall>l\<in>set ls. one_line enc l) \<longrightarrow>
        (\<exists>d' r d''. pq_put_end cp d = (1, d') \<and> pq_end_result cp d' = (Some r, d'') \<and> check_status r = Inr ()
           \<and> st d'' = \<lparr>c_table = c_table (st d) @ ls, c_mode = Copy_idle\<rparr>))"

definition gives_copy :: "'db libpq \<Rightarrow> 'db copier \<Rightarrow> string \<Rightarrow> ('db \<Rightarrow> copy_store) \<Rightarrow> bool" where
  "gives_copy pq cp cmd st \<longleftrightarrow>
     (\<forall>d. c_mode (st d) = Copy_idle \<longrightarrow> (\<exists>r d'. exec_db pq cmd d = (Inr r, d') \<and> pg_rows r = [] \<and> st d' = (st d)\<lparr>c_mode := Copy_out (c_table (st d))\<rparr>))
   \<and> (\<forall>d l ls. c_mode (st d) = Copy_out (l # ls) \<longrightarrow>
        (\<exists>d'. pq_get_copy cp d = ((int (length l) + 1, l @ [newline]), d') \<and> st d' = (st d)\<lparr>c_mode := Copy_out ls\<rparr>))
   \<and> (\<forall>d. c_mode (st d) = Copy_out [] \<longrightarrow> (\<exists>d' r d''. pq_get_copy cp d = ((-1, []), d') \<and> pq_end_result cp d' = (Some r, d'')
           \<and> check_status r = Inr () \<and> st d'' = (st d)\<lparr>c_mode := Copy_idle\<rparr>))"

subsection \<open>Lines\<close>

lemma escape_run_ok: "escape_loop enc data here b = Inr b' \<Longrightarrow> escape_run enc data here b = (Inr (), b' @ [CHR 0x09])"
proof (induction enc data here b rule: escape_run.induct)
  case (1 enc data here b)
  show ?case
  proof (cases "here < length data")
    case False
    with 1(3) show ?thesis by (simp add: escape_loop.simps[of enc data here b] escape_run.simps[of enc data here b'])
  next
    case True
    with 1(3) obtain k where k: "find_in enc escape_needles data here = Inr k"
      by (auto simp: escape_loop.simps[of enc data here b] split: sum.splits)
    show ?thesis
    proof (cases "k < length data")
      case True
      with 1(3) k \<open>here < length data\<close> obtain c where c: "escape_char (data ! k) = Inr c"
        by (auto simp: escape_loop.simps[of enc data here b] Let_def split: sum.splits)
      with 1(1)[OF \<open>here < length data\<close> k refl True c] 1(3) k True \<open>here < length data\<close> show ?thesis
        by (simp add: escape_loop.simps[of enc data here b] escape_run.simps[of enc data here b] Let_def)
    next
      case False
      with 1(2)[OF \<open>here < length data\<close> k refl False] 1(3) k \<open>here < length data\<close> show ?thesis
        by (simp add: escape_loop.simps[of enc data here b] escape_run.simps[of enc data here b] Let_def)
    qed
  qed
qed

lemma fill_run_ok: "fill_buffer enc row b = Inr b' \<Longrightarrow> fill_run enc row b = (Inr (), b')"
proof (induction enc row b rule: fill_run.induct)
  case (3 enc s fs b)
  then show ?case
    by (auto simp: append_to_buffer_def escape_field_to_buffer_def escape_run_ok split: sum.splits)
qed (simp_all add: append_to_buffer_def)

lemma esc_glyph_lines:
  assumes "glyph (scanner_of enc) g"
  shows "one_line enc (esc_glyph g)"
proof (cases "escape_char (hd g)")
  case (Inl e)
  then have "hd g \<noteq> newline" by (auto simp: escape_char_def split: if_splits)
  with assms Inl show ?thesis unfolding one_line_def by (intro exI[of _ "[g]"]) (simp add: esc_glyph_def)
next
  case (Inr c)
  then have "c \<in> {CHR ''b'', CHR ''f'', CHR ''n'', CHR ''r'', CHR ''t'', CHR ''v'', CHR 0x5C}" by (simp add: escape_char_def split: if_splits)
  then have "c \<noteq> newline" "of_char c < (128 :: int)" by auto
  moreover have "glyph (scanner_of enc) [CHR 0x5C]" by (rule local_scan.single_glyph[OF scanner_of_local]) simp
  ultimately show ?thesis using Inr local_scan.single_glyph[OF scanner_of_local, of c enc]
    unfolding one_line_def by (intro exI[of _ "[[CHR 0x5C], [c]]"]) (simp add: esc_glyph_def)
qed

lemma one_line_append: "one_line enc a \<Longrightarrow> one_line enc b \<Longrightarrow> one_line enc (a @ b)"
  unfolding one_line_def by (elim exE) (rule_tac x="gs @ gsa" in exI, auto)

lemma one_line_concat: "(\<And>x. x \<in> set xs \<Longrightarrow> one_line enc (f x)) \<Longrightarrow> one_line enc (concat (map f xs))"
  by (induction xs) (auto simp: one_line_append, auto simp: one_line_def intro: exI[of _ "[]"])

lemma one_line_char: "of_char c < (128 :: int) \<Longrightarrow> c \<noteq> newline \<Longrightarrow> one_line enc [c]"
  unfolding one_line_def by (rule exI[of _ "[[c]]"]) (simp add: local_scan.single_glyph[OF scanner_of_local])

lemma field_text_line:
  assumes "writable enc [f]"
  shows "one_line enc (field_text enc f)"
proof (cases f)
  case None
  then show ?thesis using one_line_append[OF one_line_char one_line_char, of "CHR 0x5C" "CHR ''N''" enc] by (simp add: field_text_def)
next
  case (Some s)
  with assms have "glyphs (scanner_of enc) (the (cut (scanner_of enc) s))" using cut_some[of enc s] by (simp add: writable_def)
  then have "one_line enc (concat (map esc_glyph (the (cut (scanner_of enc) s))))"
    by (intro one_line_concat esc_glyph_lines) (auto simp: glyphs_def list_all_iff)
  with Some show ?thesis by (simp add: field_text_def)
qed

lemma row_line_one_line:
  assumes "enc \<noteq> Enc_unknown" "writable enc row" "row \<noteq> []"
  shows "\<exists>l. row_line enc row = Inr l \<and> one_line enc l \<and> parse_fields enc l = Inr row"
proof -
  obtain f fs where row: "row = f # fs" using assms(3) by (cases row) auto
  let ?l = "field_text enc f @ concat (map (\<lambda>f. CHR 0x09 # field_text enc f) fs)"
  have w: "writable enc [g]" if "g \<in> set row" for g using assms(2) that by (auto simp: writable_def list_all_iff)
  have "row_line enc row = Inr ?l"
    using fill_fields[OF assms(1,2), of "[]"] butlast_tabs[of "field_text enc" "CHR 0x09" f fs] row
    by (simp add: row_line_def buffer_line_def)
  moreover have "parse_fields enc ?l = Inr row"
    using parse_rows[OF assms(1), of f fs "[]" "[]" "[]"] assms(2) row by (simp add: parse_fields_def)
  moreover have "one_line enc ?l"
  proof (rule one_line_append)
    show "one_line enc (field_text enc f)" using field_text_line w row by simp
    show "one_line enc (concat (map (\<lambda>f. CHR 0x09 # field_text enc f) fs))"
    proof (rule one_line_concat)
      fix g assume "g \<in> set fs"
      then show "one_line enc (CHR 0x09 # field_text enc g)"
        using one_line_append[OF one_line_char[of "CHR 0x09"] field_text_line[OF w[of g]]] row by simp
    qed
  qed
  ultimately show ?thesis by blast
qed

subsection \<open>The steps over such a server\<close>

lemma finder_ok: "encoded_in pq enc \<Longrightarrow> finder_group pq needle w = (Inr enc, w)"
  unfolding encoded_in_def
  by (cases enc) (auto simp: finder_group_def get_encoding_group_def get_char_finder_def lift_exn_def prog_simps dest!: spec[of _ "db w"])

text \<open>A transaction whose focus is a stream.\<close>

definition focused :: "nat \<Rightarrow> string \<times> string \<Rightarrow> ('db, 'z) session_scheme \<Rightarrow> ('db, 'z) session_scheme" where
  "focused t f w = w\<lparr>txs := (txs w)[t := (txs w ! t)\<lparr>m_focus := Some f\<rparr>]\<rparr>"

lemma register_focused:
  "t < length (txs w) \<Longrightarrow> m_focus (txs w ! t) = None \<Longrightarrow> register_focus t f w = (Inr (), focused t f w)"
  by (simp add: register_focus_def tx_prims guest_defs lift_exn_def prog_simps focused_def)

lemma unregister_focused:
  assumes "t < length (txs w)" "m_focus (txs w ! t) = None"
  shows "unregister_focus t f (focused t f w) = (Inr (), w)"
proof -
  have bk: "(txs w ! t)\<lparr>m_focus := None\<rparr> = txs w ! t" using assms(2) by (cases "txs w ! t") simp
  show ?thesis using assms
    by (simp add: bk unregister_focus_def tx_prims guest_defs lift_exn_def prog_simps focused_def try_catch_def)
qed

lemma focused_parts [simp]:
  "db (focused t f w) = db w" "sto (focused t f w) = sto w" "sfrom (focused t f w) = sfrom w"
  "(focused t f w)\<lparr>db := d\<rparr> = focused t f (w\<lparr>db := d\<rparr>)" "(focused t f w)\<lparr>sto := s\<rparr> = focused t f (w\<lparr>sto := s\<rparr>)"
  "(focused t f w)\<lparr>sfrom := r\<rparr> = focused t f (w\<lparr>sfrom := r\<rparr>)"
  by (simp_all add: focused_def)

lemma owned_other [simp]: "owned t (w\<lparr>db := d\<rparr>) \<longleftrightarrow> owned t w" "owned t (w\<lparr>sto := a\<rparr>) \<longleftrightarrow> owned t w" "owned t (w\<lparr>sfrom := b\<rparr>) \<longleftrightarrow> owned t w"
  by (simp_all add: owned_def)

lemma ownedD: "owned t w \<Longrightarrow> t < length (txs w) \<and> m_focus (txs w ! t) = None \<and> m_pending_error (txs w ! t) = []"
  by (simp add: owned_def)

abbreviation copy_in_cmd :: "string \<Rightarrow> string \<Rightarrow> string" where
  "copy_in_cmd table columns \<equiv> ''COPY '' @ table @ (if columns = [] then '' FROM STDIN'' else '' ('' @ columns @ '') FROM STDIN'')"

abbreviation copy_out_cmd :: "string \<Rightarrow> string \<Rightarrow> string" where
  "copy_out_cmd table columns \<equiv> ''COPY '' @ table @ (if columns = [] then '' TO STDOUT'' else ''('' @ columns @ '') TO STDOUT'')"

lemma stream_to_open_ok:
  assumes o: "owned t w" "m_status (txs w ! t) = Tx_active" and e: "encoded_in pq enc"
    and c: "takes_copy pq cp enc (copy_in_cmd path columns) st" "c_mode (st (db w)) = Copy_idle"
  shows "\<exists>d. stream_to_open pq t path columns w = (Inr (), focused t (''stream_to'', path)
      (w\<lparr>db := d, sto := \<lparr>to_tx = t, to_name = path, to_enc = enc, m_buffer = [], to_finished = False\<rparr>\<rparr>))
    \<and> st d = (st (db w))\<lparr>c_mode := Copy_in []\<rparr>"
proof -
  obtain r d where r: "exec_db pq (copy_in_cmd path columns) (db w) = (Inr r, d)" "pg_rows r = []" "st d = (st (db w))\<lparr>c_mode := Copy_in []\<rparr>"
    using c unfolding takes_copy_def by blast
  have "begin_copy pq t path columns w = (Inr (), w\<lparr>db := d\<rparr>)"
    using r(1,2) o(2) by (simp add: begin_copy_def bnd_app tx_exec_owned[OF o(1)] no_rows_def lift_exn_def prog_simps)
  with r(3) ownedD[OF o(1)] show ?thesis
    by (intro exI[of _ d]) (simp add: stream_to_open_def bnd_app sq_app finder_ok[OF e] register_focused upd_to_def prog_simps)
qed

lemma write_row_sends:
  assumes "fill_run (to_enc (sto w)) row (m_buffer (sto w)) = (Inr (), b)" "length (buffer_line b) < 2 ^ 31"
    and "pq_put_copy cp (buffer_line b) (db w) = (1, d1)" "pq_put_copy cp [newline] d1 = (1, d)"
  shows "write_row pq cp row w = (Inr (), w\<lparr>db := d, sto := (sto w)\<lparr>m_buffer := []\<rparr>\<rparr>)"
  using assms by (simp add: write_row_def write_buffer_def upd_to_def write_raw_line_def write_copy_line_def call_copy_def lift_exn_def prog_simps Let_def)

lemma write_row_ok:
  assumes c: "takes_copy pq cp enc cmd st" "c_mode (st (db w)) = Copy_in s"
    and t: "to_enc (sto w) = enc" "m_buffer (sto w) = []" and l: "row_line enc row = Inr l" "length l < 2 ^ 31"
  shows "\<exists>d. write_row pq cp row w = (Inr (), w\<lparr>db := d\<rparr>) \<and> st d = (st (db w))\<lparr>c_mode := Copy_in (s @ l @ [newline])\<rparr>"
proof -
  obtain b where b: "fill_buffer enc row [] = Inr b" "l = buffer_line b" using l(1) by (auto simp: row_line_def map_sum_def split: sum.splits)
  obtain d1 where d1: "pq_put_copy cp l (db w) = (1, d1)" "st d1 = (st (db w))\<lparr>c_mode := Copy_in (s @ l)\<rparr>"
    using c unfolding takes_copy_def by meson
  then have "c_mode (st d1) = Copy_in (s @ l)" by simp
  then obtain d2 where d2: "pq_put_copy cp [newline] d1 = (1, d2)" "st d2 = (st d1)\<lparr>c_mode := Copy_in ((s @ l) @ [newline])\<rparr>"
    using c unfolding takes_copy_def by meson
  have bk: "(sto w)\<lparr>m_buffer := []\<rparr> = sto w" using t(2) by (cases "sto w") simp
  have "write_row pq cp row w = (Inr (), w\<lparr>db := d2\<rparr>)"
    using write_row_sends[of w row b cp d1 d2 pq] d1(1) d2(1) b t bk l(2) fill_run_ok[OF b(1)] by simp
  with d1(2) d2(2) show ?thesis by (intro exI[of _ d2]) simp
qed

lemma end_lines_snoc: "end_lines ls @ l @ [newline] = end_lines (ls @ [l])"
  by (simp add: end_lines_def)

lemma write_rows_ok:
  assumes "takes_copy pq cp enc cmd st" "c_mode (st (db w)) = Copy_in (end_lines ls)"
    and "to_enc (sto w) = enc" "m_buffer (sto w) = []" and "list_all2 (\<lambda>row l. row_line enc row = Inr l \<and> length l < 2 ^ 31) rows ms"
  shows "\<exists>d. for_each rows (write_row pq cp) w = (Inr (), w\<lparr>db := d\<rparr>) \<and> st d = (st (db w))\<lparr>c_mode := Copy_in (end_lines (ls @ ms))\<rparr>"
  using assms(5,2,3,4)
proof (induction rows ms arbitrary: w ls rule: list_all2_induct)
  case Nil
  then show ?case by (intro exI[of _ "db w"]) (simp add: prog_simps)
next
  case (Cons row rows l ms)
  then obtain d where d: "write_row pq cp row w = (Inr (), w\<lparr>db := d\<rparr>)" "st d = (st (db w))\<lparr>c_mode := Copy_in (end_lines (ls @ [l]))\<rparr>"
    using write_row_ok[OF assms(1) Cons.prems(1), of row l] by (auto simp: end_lines_snoc)
  obtain d' where "for_each rows (write_row pq cp) (w\<lparr>db := d\<rparr>) = (Inr (), w\<lparr>db := d'\<rparr>)"
    "st d' = (st d)\<lparr>c_mode := Copy_in (end_lines ((ls @ [l]) @ ms))\<rparr>"
    using Cons.IH[of "w\<lparr>db := d\<rparr>" "ls @ [l]"] d(2) Cons.prems by auto
  with d show ?case by (intro exI[of _ d']) (simp add: prog_simps)
qed

lemma stream_to_complete_ok:
  assumes o: "owned t w" and e: "encoded_in pq enc" and c: "takes_copy pq cp enc cmd st" "c_mode (st (db w)) = Copy_in (end_lines ls)"
    and l: "\<forall>l\<in>set ls. one_line enc l" and s: "to_tx (sto w) = t" "to_name (sto w) = n" "\<not> to_finished (sto w)"
  shows "\<exists>d. stream_to_complete pq cp (focused t (''stream_to'', n) w) = (Inr (), w\<lparr>db := d, sto := (sto w)\<lparr>to_finished := True\<rparr>\<rparr>)
    \<and> st d = \<lparr>c_table = c_table (st (db w)) @ ls, c_mode = Copy_idle\<rparr>"
proof -
  obtain d1 r d where d: "pq_put_end cp (db w) = (1, d1)" "pq_end_result cp d1 = (Some r, d)" "check_status r = Inr ()"
    "st d = \<lparr>c_table = c_table (st (db w)) @ ls, c_mode = Copy_idle\<rparr>" using c l unfolding takes_copy_def by meson
  with ownedD[OF o] s show ?thesis
    by (intro exI[of _ d]) (simp add: stream_to_complete_def upd_to_def unregister_focused end_copy_write_def call_copy_def make_result_ok[OF e] prog_simps)
qed

lemma from_raw_table_ok:
  assumes o: "owned t w" "m_status (txs w ! t) = Tx_active" and e: "encoded_in pq enc"
    and c: "gives_copy pq cp (copy_out_cmd path columns) st" "c_mode (st (db w)) = Copy_idle"
  shows "\<exists>d. from_raw_table pq t path columns w = (Inr (), focused t (''stream_from'', path)
      (w\<lparr>db := d, sfrom := \<lparr>from_tx = t, from_name = path, from_enc = enc, m_fields = [], from_finished = False\<rparr>\<rparr>))
    \<and> st d = (st (db w))\<lparr>c_mode := Copy_out (c_table (st (db w)))\<rparr>"
proof -
  obtain r d where r: "exec_db pq (copy_out_cmd path columns) (db w) = (Inr r, d)" "pg_rows r = []"
    "st d = (st (db w))\<lparr>c_mode := Copy_out (c_table (st (db w)))\<rparr>" using c unfolding gives_copy_def by blast
  have "tx_exec pq t (copy_out_cmd path columns) w = (Inr r, w\<lparr>db := d\<rparr>)" using r(1) o(2) by (simp add: tx_exec_owned[OF o(1)])
  with r(2,3) ownedD[OF o(1)] show ?thesis
    by (intro exI[of _ d]) (simp add: from_raw_table_def stream_from_start_def bnd_app sq_app finder_ok[OF e] no_rows_def lift_exn_def
        register_focused upd_from_def prog_simps)
qed

text \<open>A line is read, and what is left of the session is as it was; this holds whatever the focus is.\<close>

lemma read_row_ok:
  assumes c: "gives_copy pq cp cmd st" "c_mode (st (db w)) = Copy_out (l # ls)" and f: "\<not> from_finished (sfrom w)"
    and l: "parse_fields (from_enc (sfrom w)) l = Inr fs" "length l < (2 ^ 64 - 1) div 2"
  shows "\<exists>d. read_row pq cp w = (Inr (Some fs), w\<lparr>db := d, sfrom := (sfrom w)\<lparr>m_fields := fs\<rparr>\<rparr>) \<and> st d = (st (db w))\<lparr>c_mode := Copy_out ls\<rparr>"
proof -
  obtain d where d: "pq_get_copy cp (db w) = ((int (length l) + 1, l @ [newline]), d)" "st d = (st (db w))\<lparr>c_mode := Copy_out ls\<rparr>"
    using c unfolding gives_copy_def by meson
  have "nat (int (length l) + 1) - 1 = length l" by simp
  with d f l show ?thesis
    by (intro exI[of _ d]) (simp add: read_row_def parse_line_def get_raw_line_def read_copy_line_def read_copy_buffer_def call_copy_def upd_from_def try_catch_def
        lift_exn_def prog_simps)
qed

lemma read_row_end:
  assumes o: "owned t w" and e: "encoded_in pq enc" and c: "gives_copy pq cp cmd st" "c_mode (st (db w)) = Copy_out []"
    and f: "\<not> from_finished (sfrom w)" "from_tx (sfrom w) = t" "from_name (sfrom w) = n"
  shows "\<exists>d. read_row pq cp (focused t (''stream_from'', n) w) = (Inr None, w\<lparr>db := d, sfrom := (sfrom w)\<lparr>m_fields := [], from_finished := True\<rparr>\<rparr>)
    \<and> st d = (st (db w))\<lparr>c_mode := Copy_idle\<rparr>"
proof -
  obtain d1 r d where d: "pq_get_copy cp (db w) = ((-1, []), d1)" "pq_end_result cp d1 = (Some r, d)" "check_status r = Inr ()"
    "st d = (st (db w))\<lparr>c_mode := Copy_idle\<rparr>" using c unfolding gives_copy_def by meson
  with ownedD[OF o] f show ?thesis
    by (intro exI[of _ d]) (simp add: read_row_def parse_line_def get_raw_line_def read_copy_line_def read_copy_buffer_def call_copy_def upd_from_def try_catch_def
        make_result_ok[OF e] stream_from_close_def unregister_focused prog_simps)
qed

subsection \<open>There and back\<close>

text \<open>The caller's loop \<open>while (row = stream.read_row())\<close>, for at most \<open>n\<close> rounds.\<close>

fun read_rows :: "nat \<Rightarrow> 'db libpq \<Rightarrow> 'db copier \<Rightarrow> ('db copying, copy_field list list) prog" where
  "read_rows 0 pq cp = stop_with Waiting"
| "read_rows (Suc n) pq cp = bnd (read_row pq cp) (\<lambda>r. case r of None \<Rightarrow> ret []
     | Some row \<Rightarrow> bnd (read_rows n pq cp) (\<lambda>rows. ret (row # rows)))"

lemma read_rows_ok:
  assumes e: "encoded_in pq enc" and c: "gives_copy pq cp cmd st"
  shows "list_all2 (\<lambda>l row. parse_fields enc l = Inr row \<and> length l < (2 ^ 64 - 1) div 2) ls rows \<Longrightarrow> length rows < n \<Longrightarrow>
    owned t w \<Longrightarrow> c_mode (st (db w)) = Copy_out ls \<Longrightarrow> \<not> from_finished (sfrom w) \<Longrightarrow> from_tx (sfrom w) = t \<Longrightarrow>
    from_name (sfrom w) = nm \<Longrightarrow> from_enc (sfrom w) = enc \<Longrightarrow>
    \<exists>d. read_rows n pq cp (focused t (''stream_from'', nm) w) = (Inr rows, w\<lparr>db := d, sfrom := (sfrom w)\<lparr>m_fields := [], from_finished := True\<rparr>\<rparr>)
      \<and> st d = (st (db w))\<lparr>c_mode := Copy_idle\<rparr>"
proof (induction ls rows arbitrary: n w rule: list_all2_induct)
  case Nil
  then obtain m where "n = Suc m" by (cases n) auto
  with read_row_end[OF Nil(2) e c, of nm] Nil show ?case by (auto simp: prog_simps)
next
  case (Cons l ls row rows)
  then obtain m where m: "n = Suc m" "length rows < m" by (cases n) auto
  let ?f = "focused t (''stream_from'', nm)"
  obtain d where d: "read_row pq cp (?f w) = (Inr (Some row), ?f (w\<lparr>db := d, sfrom := (sfrom w)\<lparr>m_fields := row\<rparr>\<rparr>))"
    "st d = (st (db w))\<lparr>c_mode := Copy_out ls\<rparr>"
    using read_row_ok[OF c, of "?f w" l ls row] Cons.hyps(1) Cons.prems by auto
  define v where "v = w\<lparr>db := d, sfrom := (sfrom w)\<lparr>m_fields := row\<rparr>\<rparr>"
  obtain d' where "read_rows m pq cp (?f v) = (Inr rows, v\<lparr>db := d', sfrom := (sfrom v)\<lparr>m_fields := [], from_finished := True\<rparr>\<rparr>)"
    "st d' = (st (db v))\<lparr>c_mode := Copy_idle\<rparr>"
    using Cons.IH[OF m(2), of v] d(2) Cons.prems by (auto simp: v_def)
  with m(1) d show ?case by (intro exI[of _ d']) (simp add: v_def prog_simps)
qed

definition there_and_back ::
  "'db libpq \<Rightarrow> 'db copier \<Rightarrow> nat \<Rightarrow> string \<Rightarrow> string \<Rightarrow> copy_field list list \<Rightarrow> nat \<Rightarrow> ('db copying, copy_field list list) prog" where
  "there_and_back pq cp t path columns rows n = sq (stream_to_open pq t path columns)
     (sq (for_each rows (write_row pq cp)) (sq (stream_to_complete pq cp)
     (sq (from_raw_table pq t path columns) (read_rows n pq cp))))"

text \<open>
  C22.  What is streamed into a table is streamed out of it again: rows written through \<open>stream_to\<close> and completed come back, after the rows
  that the table had, through \<open>stream_from\<close>, which then ends; in every encoding, with nulls and special characters.  Both
  streams give the transaction back as they found it, without a focus and without a pending error.
\<close>

theorem copy_there_and_back:
  fixes w :: "'db copying"
  assumes o: "owned t w" "m_status (txs w ! t) = Tx_active" and e: "encoded_in pq enc"
    and c: "takes_copy pq cp enc (copy_in_cmd path columns) st" "gives_copy pq cp (copy_out_cmd path columns) st" "c_mode (st (db w)) = Copy_idle"
    and old: "list_all2 (\<lambda>l row. parse_fields enc l = Inr row \<and> length l < (2 ^ 64 - 1) div 2) (c_table (st (db w))) olds"
    and new: "\<forall>row\<in>set rows. row \<noteq> [] \<and> writable enc row \<and> (\<forall>l. row_line enc row = Inr l \<longrightarrow> length l < 2 ^ 31)"
    and n: "length olds + length rows < n"
  shows "\<exists>w'. there_and_back pq cp t path columns rows n w = (Inr (olds @ rows), w') \<and> txs w' = txs w \<and> m_trans w' = m_trans w
    \<and> c_mode (st (db w')) = Copy_idle \<and> length (c_table (st (db w'))) = length olds + length rows"
proof -
  have enc: "enc \<noteq> Enc_unknown" using e by (simp add: encoded_in_def)
  define ls where "ls = map (\<lambda>row. projr (row_line enc row)) rows"
  have ls: "list_all2 (\<lambda>row l. row_line enc row = Inr l \<and> length l < 2 ^ 31) rows ls" "\<forall>l\<in>set ls. one_line enc l"
    "list_all2 (\<lambda>l row. parse_fields enc l = Inr row \<and> length l < (2 ^ 64 - 1) div 2) ls rows"
  proof -
    have *: "row_line enc row = Inr (projr (row_line enc row)) \<and> length (projr (row_line enc row)) < 2 ^ 31
        \<and> one_line enc (projr (row_line enc row)) \<and> parse_fields enc (projr (row_line enc row)) = Inr row" if "row \<in> set rows" for row
      using row_line_one_line[OF enc, of row] new that by force
    then show "list_all2 (\<lambda>row l. row_line enc row = Inr l \<and> length l < 2 ^ 31) rows ls" "\<forall>l\<in>set ls. one_line enc l"
      by (auto simp: ls_def list_all2_conv_all_nth)
    have "length (projr (row_line enc row)) < (2 ^ 64 - 1) div 2" if "row \<in> set rows" for row using *[OF that] by simp
    with * show "list_all2 (\<lambda>l row. parse_fields enc l = Inr row \<and> length l < (2 ^ 64 - 1) div 2) ls rows"
      by (auto simp: ls_def list_all2_conv_all_nth)
  qed
  obtain d1 where 1: "stream_to_open pq t path columns w = (Inr (), focused t (''stream_to'', path)
      (w\<lparr>db := d1, sto := \<lparr>to_tx = t, to_name = path, to_enc = enc, m_buffer = [], to_finished = False\<rparr>\<rparr>))"
    "st d1 = (st (db w))\<lparr>c_mode := Copy_in []\<rparr>" using stream_to_open_ok[OF o e c(1,3)] by blast
  define w1 where "w1 = w\<lparr>db := d1, sto := \<lparr>to_tx = t, to_name = path, to_enc = enc, m_buffer = [], to_finished = False\<rparr>\<rparr>"
  let ?f = "focused t (''stream_to'', path)"
  obtain d2 where 2: "for_each rows (write_row pq cp) (?f w1) = (Inr (), ?f (w1\<lparr>db := d2\<rparr>))" "st d2 = (st d1)\<lparr>c_mode := Copy_in (end_lines ls)\<rparr>"
    using write_rows_ok[OF c(1) _ _ _ ls(1), of "?f w1" "[]"] 1(2) by (auto simp: w1_def end_lines_def)
  obtain d3 where 3: "stream_to_complete pq cp (?f (w1\<lparr>db := d2\<rparr>)) = (Inr (), w1\<lparr>db := d3, sto := (sto w1)\<lparr>to_finished := True\<rparr>\<rparr>)"
    "st d3 = \<lparr>c_table = c_table (st d2) @ ls, c_mode = Copy_idle\<rparr>"
    using stream_to_complete_ok[of t "w1\<lparr>db := d2\<rparr>" pq enc cp "copy_in_cmd path columns" st ls path] o(1) e c(1) ls(2) 2(2) by (auto simp: w1_def)
  define w3 where "w3 = w1\<lparr>db := d3, sto := (sto w1)\<lparr>to_finished := True\<rparr>\<rparr>"
  have o3: "owned t w3" "m_status (txs w3 ! t) = Tx_active" "c_mode (st (db w3)) = Copy_idle" "c_table (st (db w3)) = c_table (st (db w)) @ ls"
    using o 1(2) 2(2) 3(2) by (simp_all add: w3_def w1_def)
  obtain d4 where 4: "from_raw_table pq t path columns w3 = (Inr (), focused t (''stream_from'', path)
      (w3\<lparr>db := d4, sfrom := \<lparr>from_tx = t, from_name = path, from_enc = enc, m_fields = [], from_finished = False\<rparr>\<rparr>))"
    "st d4 = (st (db w3))\<lparr>c_mode := Copy_out (c_table (st (db w)) @ ls)\<rparr>" using from_raw_table_ok[OF o3(1,2) e c(2) o3(3)] o3(4) by auto
  define w4 where "w4 = w3\<lparr>db := d4, sfrom := \<lparr>from_tx = t, from_name = path, from_enc = enc, m_fields = [], from_finished = False\<rparr>\<rparr>"
  have all: "list_all2 (\<lambda>l row. parse_fields enc l = Inr row \<and> length l < (2 ^ 64 - 1) div 2) (c_table (st (db w)) @ ls) (olds @ rows)"
    using old ls(3) by (rule list_all2_appendI)
  obtain d5 where 5: "read_rows n pq cp (focused t (''stream_from'', path) w4)
      = (Inr (olds @ rows), w4\<lparr>db := d5, sfrom := (sfrom w4)\<lparr>m_fields := [], from_finished := True\<rparr>\<rparr>)"
    "st d5 = (st (db w4))\<lparr>c_mode := Copy_idle\<rparr>"
    using read_rows_ok[OF e c(2) all, of n t w4 path] n o3(1) 4(2) by (auto simp: w4_def)
  have "there_and_back pq cp t path columns rows n w
      = (Inr (olds @ rows), w4\<lparr>db := d5, sfrom := (sfrom w4)\<lparr>m_fields := [], from_finished := True\<rparr>\<rparr>)"
    using 1(1) 2(1) 3(1) 4(1) 5(1) by (simp add: there_and_back_def sq_app w1_def[symmetric] w3_def[symmetric] w4_def[symmetric])
  moreover have "length (c_table (st d5)) = length olds + length rows"
    using list_all2_lengthD[OF all] o3(4) 4(2) 5(2) by (simp add: w4_def)
  ultimately show ?thesis using 5(2) by (simp add: w4_def w3_def w1_def)
qed

subsection \<open>From one connection to another\<close>

lemma raw_line_ok:
  assumes c: "gives_copy pq cp cmd st" "c_mode (st (db w)) = Copy_out (l # ls)" and f: "\<not> from_finished (sfrom w)"
  shows "\<exists>d. get_raw_line pq cp w = (Inr (Some l), w\<lparr>db := d\<rparr>) \<and> st d = (st (db w))\<lparr>c_mode := Copy_out ls\<rparr>"
proof -
  obtain d where d: "pq_get_copy cp (db w) = ((int (length l) + 1, l @ [newline]), d)" "st d = (st (db w))\<lparr>c_mode := Copy_out ls\<rparr>"
    using c unfolding gives_copy_def by meson
  have "nat (int (length l) + 1) - 1 = length l" by simp
  with d f show ?thesis
    by (intro exI[of _ d]) (simp add: get_raw_line_def read_copy_line_def read_copy_buffer_def call_copy_def try_catch_def prog_simps)
qed

lemma raw_line_end:
  assumes o: "owned t w" and e: "encoded_in pq enc" and c: "gives_copy pq cp cmd st" "c_mode (st (db w)) = Copy_out []"
    and f: "\<not> from_finished (sfrom w)" "from_tx (sfrom w) = t" "from_name (sfrom w) = n"
  shows "\<exists>d. get_raw_line pq cp (focused t (''stream_from'', n) w) = (Inr None, w\<lparr>db := d, sfrom := (sfrom w)\<lparr>from_finished := True\<rparr>\<rparr>)
    \<and> st d = (st (db w))\<lparr>c_mode := Copy_idle\<rparr>"
proof -
  obtain d1 r d where d: "pq_get_copy cp (db w) = ((-1, []), d1)" "pq_end_result cp d1 = (Some r, d)" "check_status r = Inr ()"
    "st d = (st (db w))\<lparr>c_mode := Copy_idle\<rparr>" using c unfolding gives_copy_def by meson
  with ownedD[OF o] f show ?thesis
    by (intro exI[of _ d]) (simp add: get_raw_line_def read_copy_line_def read_copy_buffer_def call_copy_def upd_from_def try_catch_def
        make_result_ok[OF e] stream_from_close_def unregister_focused prog_simps)
qed

text \<open>
  The lines of one server reach the other one as they are, and the source is closed.  Lines are copied raw: what an escape means
  is left to the servers.
\<close>

lemma copy_stream_ok:
  assumes e: "encoded_in qp enc" and c: "takes_copy pq cp enc' cmd st" "gives_copy qp cq cmd' st'"
  shows "length ls < n \<Longrightarrow> \<forall>l\<in>set ls. length l < 2 ^ 31 \<Longrightarrow> owned t v \<Longrightarrow> c_mode (st (db w)) = Copy_in s \<Longrightarrow> c_mode (st' (db v)) = Copy_out ls \<Longrightarrow>
    \<not> from_finished (sfrom v) \<Longrightarrow> from_tx (sfrom v) = t \<Longrightarrow> from_name (sfrom v) = nm \<Longrightarrow>
    \<exists>d d'. copy_stream n pq cp qp cq (w, focused t (''stream_from'', nm) v) = (Inr (), (w\<lparr>db := d\<rparr>, v\<lparr>db := d', sfrom := (sfrom v)\<lparr>from_finished := True\<rparr>\<rparr>))
      \<and> st d = (st (db w))\<lparr>c_mode := Copy_in (s @ end_lines ls)\<rparr> \<and> st' d' = (st' (db v))\<lparr>c_mode := Copy_idle\<rparr>"
proof (induction ls arbitrary: n w v s)
  case Nil
  then obtain m where "n = Suc m" by (cases n) auto
  moreover obtain d' where "get_raw_line qp cq (focused t (''stream_from'', nm) v) = (Inr None, v\<lparr>db := d', sfrom := (sfrom v)\<lparr>from_finished := True\<rparr>\<rparr>)"
    "st' d' = (st' (db v))\<lparr>c_mode := Copy_idle\<rparr>" using raw_line_end[OF Nil(3) e c(2), of nm] Nil by blast
  ultimately show ?case using Nil by (intro exI[of _ "db w"] exI[of _ d']) (simp add: on_snd_def prog_simps end_lines_def)
next
  case (Cons l ls)
  then obtain m where m: "n = Suc m" "length ls < m" by (cases n) auto
  let ?f = "focused t (''stream_from'', nm)"
  obtain d' where d': "get_raw_line qp cq (?f v) = (Inr (Some l), ?f (v\<lparr>db := d'\<rparr>))" "st' d' = (st' (db v))\<lparr>c_mode := Copy_out ls\<rparr>"
    using raw_line_ok[OF c(2), of "?f v" l ls] Cons.prems by auto
  obtain d1 where d1: "pq_put_copy cp l (db w) = (1, d1)" "st d1 = (st (db w))\<lparr>c_mode := Copy_in (s @ l)\<rparr>"
    using c(1) Cons.prems(4) unfolding takes_copy_def by meson
  then have "c_mode (st d1) = Copy_in (s @ l)" by simp
  then obtain d where d: "pq_put_copy cp [newline] d1 = (1, d)" "st d = (st d1)\<lparr>c_mode := Copy_in ((s @ l) @ [newline])\<rparr>"
    using c(1) unfolding takes_copy_def by meson
  have w: "write_raw_line pq cp l w = (Inr (), w\<lparr>db := d\<rparr>)"
    using d1(1) d(1) Cons.prems(2) by (simp add: write_raw_line_def write_copy_line_def call_copy_def prog_simps Let_def)
  have "c_mode (st (db (w\<lparr>db := d\<rparr>))) = Copy_in (s @ l @ [newline])" using d1(2) d(2) by simp
  from Cons.IH[OF m(2) _ _ this, of "v\<lparr>db := d'\<rparr>"] obtain e e' where
    r: "copy_stream m pq cp qp cq (w\<lparr>db := d\<rparr>, ?f (v\<lparr>db := d'\<rparr>)) = (Inr (), (w\<lparr>db := e\<rparr>, v\<lparr>db := e', sfrom := (sfrom v)\<lparr>from_finished := True\<rparr>\<rparr>))"
    "st e = (st d)\<lparr>c_mode := Copy_in ((s @ l @ [newline]) @ end_lines ls)\<rparr>" "st' e' = (st' d')\<lparr>c_mode := Copy_idle\<rparr>"
    using Cons.prems d'(2) by auto
  with m(1) d' d1(2) d(2) w Cons.prems(6) show ?case
    by (intro exI[of _ e] exI[of _ e']) (simp add: on_fst_def on_snd_def prog_simps end_lines_def)
qed

subsection \<open>A server of one table\<close>

text \<open>Its encoding is UTF-8.  Lines are cut at newlines.\<close>

fun cut_lines :: "string \<Rightarrow> string \<Rightarrow> string list" where
  "cut_lines acc [] = []"
| "cut_lines acc (c # cs) = (if c = newline then acc # cut_lines [] cs else cut_lines (acc @ [c]) cs)"

definition copy_ok :: pgresult where
  "copy_ok = \<lparr>pg_status = PGRES_COMMAND_OK, pg_message = [], pg_sqlstate = None, pg_rows = []\<rparr>"

definition copy_pq :: "copy_store libpq" where
  "copy_pq = \<lparr>pq_exec = (\<lambda>q d. (Some copy_ok, d\<lparr>c_mode := (if q = ''COPY t FROM STDIN'' then Copy_in []
        else if q = ''COPY t TO STDOUT'' then Copy_out (c_table d) else Copy_idle)\<rparr>)),
     pq_consume = (\<lambda>d. (True, d)), pq_encoding = (\<lambda>d. Some ''UTF8''), pq_open = (\<lambda>d. True), pq_error = (\<lambda>d. ''no such row'')\<rparr>"

definition copy_cp :: "copy_store copier" where
  "copy_cp = \<lparr>pq_get_copy = (\<lambda>d. case c_mode d of Copy_out (l # ls) \<Rightarrow> ((int (length l) + 1, l @ [newline]), d\<lparr>c_mode := Copy_out ls\<rparr>)
        | _ \<Rightarrow> ((-1, []), d\<lparr>c_mode := Copy_idle\<rparr>)),
     pq_put_copy = (\<lambda>data d. (1, case c_mode d of Copy_in s \<Rightarrow> d\<lparr>c_mode := Copy_in (s @ data)\<rparr> | _ \<Rightarrow> d)),
     pq_put_end = (\<lambda>d. (1, case c_mode d of Copy_in s \<Rightarrow> \<lparr>c_table = c_table d @ cut_lines [] s, c_mode = Copy_idle\<rparr> | _ \<Rightarrow> d)),
     pq_end_result = (\<lambda>d. (Some copy_ok, d))\<rparr>"

lemma cut_line: "newline \<notin> set l \<Longrightarrow> cut_lines acc (l @ newline # t) = (acc @ l) # cut_lines [] t"
  by (induction l arbitrary: acc) auto

lemma cut_end_lines: "\<forall>l\<in>set ls. newline \<notin> set l \<Longrightarrow> cut_lines [] (end_lines ls) = ls"
  by (induction ls) (simp_all add: end_lines_def cut_line)

lemma one_line_ascii: "one_line Ascii_safe l \<Longrightarrow> newline \<notin> set l"
proof -
  assume "one_line Ascii_safe l"
  then obtain gs where gs: "glyphs scan_ascii_safe gs" "concat gs = l" "\<forall>g\<in>set gs. hd g \<noteq> newline" by (auto simp: one_line_def)
  have "newline \<notin> set g" if g: "g \<in> set gs" for g
  proof -
    have "length g = 1" using gs(1) g by (auto simp: glyphs_def list_all_iff glyph_def scan_ascii_safe_def)
    then show ?thesis using gs(3) g by (cases g) auto
  qed
  with gs(2) show ?thesis by auto
qed

lemma copy_encoded: "encoded_in copy_pq Ascii_safe"
proof -
  have "enc_group ''UTF8'' = Inr Ascii_safe" by code_simp
  then show ?thesis by (simp add: encoded_in_def copy_pq_def)
qed

lemma copy_exec:
  "exec_db copy_pq ''COPY t FROM STDIN'' d = (Inr copy_ok, d\<lparr>c_mode := Copy_in []\<rparr>)"
  "exec_db copy_pq ''COPY t TO STDOUT'' d = (Inr copy_ok, d\<lparr>c_mode := Copy_out (c_table d)\<rparr>)"
proof -
  have "enc_group ''UTF8'' = Inr Ascii_safe" by code_simp
  then show "exec_db copy_pq ''COPY t FROM STDIN'' d = (Inr copy_ok, d\<lparr>c_mode := Copy_in []\<rparr>)"
    "exec_db copy_pq ''COPY t TO STDOUT'' d = (Inr copy_ok, d\<lparr>c_mode := Copy_out (c_table d)\<rparr>)"
    by (simp_all add: exec_db_def copy_pq_def copy_ok_def check_status_def status_error_def)
qed

lemma copy_takes: "takes_copy copy_pq copy_cp Ascii_safe (copy_in_cmd ''t'' []) id"
  unfolding takes_copy_def
  by (auto simp: copy_exec copy_ok_def copy_cp_def check_status_def status_error_def cut_end_lines one_line_ascii)

lemma copy_gives: "gives_copy copy_pq copy_cp (copy_out_cmd ''t'' []) id"
  unfolding gives_copy_def
  by (auto simp: copy_exec copy_ok_def copy_cp_def check_status_def status_error_def)

definition copy_session :: "copy_store \<Rightarrow> copy_store copying" where
  "copy_session d = session.extend (begun_session d) \<lparr>sto = \<lparr>to_tx = 0, to_name = [], to_enc = Ascii_safe, m_buffer = [], to_finished = True\<rparr>,
     sfrom = \<lparr>from_tx = 0, from_name = [], from_enc = Ascii_safe, m_fields = [], from_finished = True\<rparr>\<rparr>"

lemma copy_session_facts: "db (copy_session d) = d" "owned 0 (copy_session d)" "m_status (txs (copy_session d) ! 0) = Tx_active"
  by (simp_all add: owned_def copy_session_def new_tx_def session.defs begun_session_def fresh_session_def)

lemmas copy_session_owned = copy_session_facts(2,3)

definition some_rows :: "copy_field list list" where
  "some_rows = [[Some ''a'', None], [Some [CHR 0x5C, CHR 0x09], Some []]]"

theorem copy_there_and_back_witness:
  "\<exists>w'. there_and_back copy_pq copy_cp 0 ''t'' [] some_rows 4 (copy_session \<lparr>c_table = [''x''], c_mode = Copy_idle\<rparr>)
     = (Inr ([Some ''x''] # some_rows), w')"
proof -
  have old: "list_all2 (\<lambda>l row. parse_fields Ascii_safe l = Inr row \<and> length l < (2 ^ 64 - 1) div 2) [''x''] [[Some ''x'']]"
  proof -
    have "parse_fields Ascii_safe ''x'' = Inr [Some ''x'']" by code_simp
    then show ?thesis by simp
  qed
  have new: "\<forall>row\<in>set some_rows. row \<noteq> [] \<and> writable Ascii_safe row \<and> (\<forall>l. row_line Ascii_safe row = Inr l \<longrightarrow> length l < 2 ^ 31)"
  proof -
    have "row_line Ascii_safe [Some ''a'', None] = Inr [CHR ''a'', CHR 0x09, CHR 0x5C, CHR ''N'']"
      "row_line Ascii_safe [Some [CHR 0x5C, CHR 0x09], Some []] = Inr [CHR 0x5C, CHR 0x5C, CHR 0x5C, CHR ''t'', CHR 0x09]"
      "writable Ascii_safe [Some ''a'', None]" "writable Ascii_safe [Some [CHR 0x5C, CHR 0x09], Some []]" by code_simp+
    then show ?thesis by (simp add: some_rows_def)
  qed
  let ?w = "copy_session \<lparr>c_table = [''x''], c_mode = Copy_idle\<rparr>"
  have d: "db ?w = \<lparr>c_table = [''x''], c_mode = Copy_idle\<rparr>" by (rule copy_session_facts)
  show ?thesis
    using copy_there_and_back[OF copy_session_owned copy_encoded copy_takes copy_gives, of "\<lparr>c_table = [''x''], c_mode = Copy_idle\<rparr>" "[[Some ''x'']]" some_rows 4]
      old new d by (auto simp: some_rows_def)
qed

subsection \<open>Errors\<close>

text \<open>What the server makes of the end of a copy: the exception, if any, and the server afterwards.\<close>

definition copy_ends :: "'db libpq \<Rightarrow> 'db copier \<Rightarrow> 'db \<Rightarrow> (stop + unit) \<times> 'db" where
  "copy_ends pq cp d = (let (r, w) = end_copy_write pq cp (fresh_session d) in (r, db w))"

lemma end_copy_write_ends: "end_copy_write pq cp w = (fst (copy_ends pq cp (db w)), w\<lparr>db := snd (copy_ends pq cp (db w))\<rparr>)"
  by (simp add: copy_ends_def end_copy_write_def call_copy_def err_msg_def make_result_def get_encoding_group_def is_open_def lift_exn_def
      prog_simps fresh_session_def split: prod.split sum.split option.split)

text \<open>
  C23.  A copy that fails in any way as it ends in the destructor of \<open>stream_to\<close>: the destructor returns normally.  If the
  exception has a text (of an SQL error the model keeps the name of its class), the transaction keeps it and the next \<open>commit\<close> throws it before anything is sent; an exception without text is
  forgotten.  Either way the transaction is then as it was before the copy, without an error, so that after the refusal a second \<open>commit\<close>
  of a transaction that is still active goes through when the server accepts \<open>COMMIT\<close>.
\<close>

theorem failed_copy_blocks_commit:
  assumes o: "owned t w" and s: "to_tx (sto w) = t" "to_name (sto w) = n" "\<not> to_finished (sto w)"
    and d: "copy_ends pq cp (db w) = (Inl (Throw e), d)"
  defines "v \<equiv> w\<lparr>db := d, sto := (sto w)\<lparr>to_finished := True\<rparr>\<rparr>"
  shows "(\<exists>w'. stream_to_destructor pq cp (focused t (''stream_to'', n) w) = (Inr (), w') \<and> db w' = d
      \<and> (if exn_what e \<noteq> [] then tx_commit pq t w' = (Inl (Throw (Failure (exn_what e))), v) else w' = v))
    \<and> (m_status (txs w ! t) = Tx_active \<and> pq_open pq d \<and> exec_db pq ''COMMIT'' d = (Inr a, d2)
        \<longrightarrow> (\<exists>v'. tx_commit pq t v = (Inr (), v') \<and> db v' = d2 \<and> m_status (txs v' ! t) = Tx_committed))"
proof -
  have c: "stream_to_complete pq cp (focused t (''stream_to'', n) w) = (Inl (Throw e), v)"
    using ownedD[OF o] s d
    by (simp add: v_def stream_to_complete_def upd_to_def unregister_focused end_copy_write_ends prog_simps)
  have bk: "(txs w ! t)\<lparr>m_pending_error := []\<rparr> = txs w ! t" using ownedD[OF o] by (cases "txs w ! t") simp
  have "\<exists>w'. stream_to_destructor pq cp (focused t (''stream_to'', n) w) = (Inr (), w') \<and> db w' = d
      \<and> (if exn_what e \<noteq> [] then tx_commit pq t w' = (Inl (Throw (Failure (exn_what e))), v) else w' = v)"
    using c ownedD[OF o] s(1)
    by (simp add: v_def bk stream_to_destructor_def try_catch_def prog_simps register_pending_error_def tx_prims
        tx_commit_def check_pending_error_def)
  moreover have "\<exists>v'. tx_commit pq t v = (Inr (), v') \<and> db v' = d2 \<and> m_status (txs v' ! t) = Tx_committed"
    if "m_status (txs w ! t) = Tx_active" "pq_open pq d" "exec_db pq ''COMMIT'' d = (Inr a, d2)"
  proof -
    have "owned t v" "m_status (txs v ! t) = Tx_active" "pq_open pq (db v)" "exec_db pq ''COMMIT'' (db v) = (Inr a, d2)"
      using o that by (simp_all add: v_def owned_def)
    from tx_commit_active[OF this] ownedD[OF \<open>owned t v\<close>] show ?thesis by auto
  qed
  ultimately show ?thesis by blast
qed

definition writing_session :: "encoding_group \<Rightarrow> copy_store copying" where
  "writing_session enc = (copy_session \<lparr>c_table = [], c_mode = Copy_in []\<rparr>)
     \<lparr>sto := \<lparr>to_tx = 0, to_name = [], to_enc = enc, m_buffer = [], to_finished = False\<rparr>\<rparr>"

lemma writing_session_facts: "owned 0 (writing_session enc)" "db (writing_session enc) = \<lparr>c_table = [], c_mode = Copy_in []\<rparr>"
  "sto (writing_session enc) = \<lparr>to_tx = 0, to_name = [], to_enc = enc, m_buffer = [], to_finished = False\<rparr>"
  by (simp_all add: writing_session_def copy_session_facts)

text \<open>The server refuses the copy with the result of \<open>PQgetResult\<close>.\<close>

definition refused_copy :: "copy_store copier" where
  "refused_copy = copy_cp\<lparr>pq_put_end := (\<lambda>d. (1, d)), pq_end_result := (\<lambda>d. (None, d))\<rparr>"

theorem failed_copy_blocks_commit_witness:
  "\<exists>w'. stream_to_destructor copy_pq refused_copy (focused 0 (''stream_to'', []) (writing_session Ascii_safe)) = (Inr (), w')
     \<and> fst (tx_commit copy_pq 0 w') = Inl (Throw (Failure ''no such row''))"
proof -
  have "copy_ends copy_pq refused_copy \<lparr>c_table = [], c_mode = Copy_in []\<rparr> = (Inl (Throw (Failure ''no such row'')), \<lparr>c_table = [], c_mode = Copy_in []\<rparr>)"
    by code_simp
  then have "copy_ends copy_pq refused_copy (db (writing_session Ascii_safe)) =
      (Inl (Throw (Failure ''no such row'')), \<lparr>c_table = [], c_mode = Copy_in []\<rparr>)" by (simp only: writing_session_facts)
  from failed_copy_blocks_commit[OF writing_session_facts(1) _ _ _ this, of "[]"]
  obtain w' where "stream_to_destructor copy_pq refused_copy (focused 0 (''stream_to'', []) (writing_session Ascii_safe)) = (Inr (), w')"
    "if exn_what (Failure ''no such row'') \<noteq> [] then fst (tx_commit copy_pq 0 w') = Inl (Throw (Failure (exn_what (Failure ''no such row'')))) else True"
    by (fastforce simp: writing_session_facts(3))
  then show ?thesis by (auto simp: exn_what_def)
qed

lemma fill_run_append: "fill_run enc fs b = (Inr (), b') \<Longrightarrow> fill_run enc (fs @ gs) b = fill_run enc gs b'"
  by (induction enc fs b rule: fill_run.induct) (auto split: prod.splits sum.splits)

text \<open>
  A row that could not be written leaves its first fields behind: when a field is badly encoded, \<open>write_row\<close> throws and sends
  nothing, but the fields before it stay in the buffer, and the next row that is written comes out with these fields in front of its own.
\<close>

theorem failed_row_leaks:
  assumes "to_enc (sto w) \<noteq> Enc_unknown" "writable (to_enc (sto w)) fs" "m_buffer (sto w) = []"
    and bad: "bad \<noteq> []" "find_in (to_enc (sto w)) escape_needles bad 0 = Inl e"
  shows "\<exists>w1. write_row pq cp (fs @ Some bad # gs) w = (Inl (Throw e), w1) \<and> db w1 = db w
    \<and> write_row pq cp row w1 = write_row pq cp (fs @ row) w"
proof -
  let ?enc = "to_enc (sto w)"
  define b where "b = concat (map (\<lambda>f. field_text ?enc f @ [CHR 0x09]) fs)"
  have b: "fill_run ?enc fs [] = (Inr (), b)" using fill_run_ok[OF fill_fields[OF assms(1,2), of "[]"]] by (simp add: b_def)
  have "escape_run ?enc bad 0 b = (Inl e, b)" using bad by (simp add: escape_run.simps[of ?enc bad 0 b])
  then have f: "fill_run ?enc (fs @ Some bad # gs) [] = (Inl e, b)" using fill_run_append[OF b, of "Some bad # gs"] by simp
  let ?w1 = "w\<lparr>sto := (sto w)\<lparr>m_buffer := b\<rparr>\<rparr>"
  have "write_row pq cp (fs @ Some bad # gs) w = (Inl (Throw e), ?w1)"
    using f assms(3) by (simp add: write_row_def upd_to_def lift_exn_def prog_simps)
  moreover have "write_row pq cp row ?w1 = write_row pq cp (fs @ row) w"
    using fill_run_append[OF b, of row] assms(3) by (simp add: write_row_def upd_to_def prog_simps split: prod.split)
  ultimately show ?thesis by (intro exI[of _ ?w1]) simp
qed

theorem failed_row_leaks_witness:
  "\<exists>w1. fst (write_row copy_pq copy_cp [Some ''a'', Some [CHR 0x81]] (writing_session Two_tier)) \<noteq> Inr ()
     \<and> c_mode (db (snd (write_row copy_pq copy_cp [Some ''b''] w1))) = Copy_in [CHR ''a'', CHR 0x09, CHR ''b'', newline]"
proof -
  let ?w = "writing_session Two_tier"
  have w: "writable Two_tier [Some ''a'']" "fill_run Two_tier [Some ''a'', Some ''b''] [] = (Inr (), [CHR ''a'', CHR 0x09, CHR ''b'', CHR 0x09])"
    by code_simp+
  have "case find_in Two_tier escape_needles [CHR 0x81] 0 of Inl e \<Rightarrow> True | Inr k \<Rightarrow> False" by code_simp
  then obtain e where e: "find_in Two_tier escape_needles [CHR 0x81] 0 = Inl e" by (auto split: sum.splits)
  obtain w1 where w1: "write_row copy_pq copy_cp [Some ''a'', Some [CHR 0x81]] ?w = (Inl (Throw e), w1)"
    "write_row copy_pq copy_cp [Some ''b''] w1 = write_row copy_pq copy_cp [Some ''a'', Some ''b''] ?w"
    using failed_row_leaks[of ?w "[Some ''a'']" "[CHR 0x81]" e copy_pq copy_cp "[]" "[Some ''b'']"] w(1) e by (auto simp: writing_session_facts(3))
  have put: "pq_put_copy copy_cp data d = (1, case c_mode d of Copy_in s \<Rightarrow> d\<lparr>c_mode := Copy_in (s @ data)\<rparr> | _ \<Rightarrow> d)" for data d
    by (simp add: copy_cp_def)
  have "c_mode (db (snd (write_row copy_pq copy_cp [Some ''a'', Some ''b''] ?w))) = Copy_in [CHR ''a'', CHR 0x09, CHR ''b'', newline]"
    using write_row_sends[of ?w "[Some ''a'', Some ''b'']" _ copy_cp _ _ copy_pq, OF _ _ put put] w(2)
    by (simp add: writing_session_facts(2,3) buffer_line_def del: fill_run.simps)
  with w1 show ?thesis by (intro exI[of _ w1]) simp
qed

end
