(* ===== verification/Pqxx_Quote.thy ===== *)
theory Pqxx_Quote
  imports Pqxx_Streams Pqxx_Convert Pqxx_Pipeline
begin

text \<open>
  How \<open>libpqxx/src/connection.cxx\<close> puts values, names and options into text: literals and identifiers, the escaping of text
  for \<open>LIKE\<close>, and the connection string that describes an open connection.
\<close>

subsection \<open>Literals and names\<close>

text \<open>
  \<open>PQescapeStringConn\<close> (its error flag and the text it writes) and \<open>PQescapeIdentifier\<close> (\<open>None\<close> is the null pointer).
  Neither changes the connection.
\<close>

record 'db quoter =
  pq_escape_string :: "string \<Rightarrow> 'db \<Rightarrow> bool \<times> string"
  pq_escape_identifier :: "string \<Rightarrow> 'db \<Rightarrow> string option"

definition last_error :: "'db libpq \<Rightarrow> (('db, 'z) session_scheme, string) prog" where
  "last_error pq = gets (\<lambda>w. pq_error pq (db w))"

definition esc_to_buf :: "'db libpq \<Rightarrow> 'db quoter \<Rightarrow> string \<Rightarrow> (('db, 'z) session_scheme, string) prog" where
  "esc_to_buf pq Q text = bnd (gets (\<lambda>w. pq_escape_string Q text (db w))) (\<lambda>(err, copied).
     if err then bnd (last_error pq) (\<lambda>m. throw (Argument_error m)) else ret copied)"

definition esc :: "'db libpq \<Rightarrow> 'db quoter \<Rightarrow> string \<Rightarrow> (('db, 'z) session_scheme, string) prog" where
  "esc pq Q text = esc_to_buf pq Q text"

text \<open>The variant that writes to the caller's buffer, of which only the size matters here.\<close>

definition esc_into :: "'db libpq \<Rightarrow> 'db quoter \<Rightarrow> string \<Rightarrow> nat \<Rightarrow> (('db, 'z) session_scheme, string) prog" where
  "esc_into pq Q text space = (let needed = 2 * length text + 1 in
     if space < needed
     then throw (Range_error (''Not enough room to escape string of '' @ int_to_string (int (length text)) @ '' byte(s): need ''
       @ int_to_string (int needed) @ '' bytes of buffer space, but buffer size is '' @ int_to_string (int (length text)) @ ''.''))
     else esc_to_buf pq Q text)"

definition esc_raw :: "int list \<Rightarrow> string" where
  "esc_raw bin = esc_bin bin"

definition quote_raw :: "int list \<Rightarrow> string" where
  "quote_raw bin = [CHR 0x27] @ esc_raw bin @ [CHR 0x27] @ ''::bytea''"

definition quote_name :: "'db libpq \<Rightarrow> 'db quoter \<Rightarrow> string \<Rightarrow> (('db, 'z) session_scheme, string) prog" where
  "quote_name pq Q identifier = bnd (gets (\<lambda>w. pq_escape_identifier Q identifier (db w))) (\<lambda>buf. case buf of
       None \<Rightarrow> bnd (last_error pq) (\<lambda>m. throw (Failure m))
     | Some s \<Rightarrow> ret s)"

definition quote_table :: "'db libpq \<Rightarrow> 'db quoter \<Rightarrow> string \<Rightarrow> (('db, 'z) session_scheme, string) prog" where
  "quote_table pq Q table_name = quote_name pq Q table_name"

definition quote_table_path :: "'db libpq \<Rightarrow> 'db quoter \<Rightarrow> string list \<Rightarrow> (('db, 'z) session_scheme, string) prog" where
  "quote_table_path pq Q path = bnd (collect path (quote_name pq Q)) (\<lambda>ns. ret (separated_list ''.'' ns))"

definition quote_columns :: "'db libpq \<Rightarrow> 'db quoter \<Rightarrow> string list \<Rightarrow> (('db, 'z) session_scheme, string) prog" where
  "quote_columns pq Q columns = bnd (get_encoding_group pq) (\<lambda>enc.
     bnd (collect columns (quote_name pq Q)) (\<lambda>ns. ret (separated_list '','' ns)))"

text \<open>\<open>quote\<close> decides by the type of its argument: a null, binary data, or a value with a text.\<close>

datatype quotable = Q_null | Q_binary "int list" | Q_text string

definition quote_value :: "'db libpq \<Rightarrow> 'db quoter \<Rightarrow> quotable \<Rightarrow> (('db, 'z) session_scheme, string) prog" where
  "quote_value pq Q t = (case t of
       Q_null \<Rightarrow> ret ''NULL''
     | Q_binary bin \<Rightarrow> ret (quote_raw bin)
     | Q_text text \<Rightarrow> bnd (esc_to_buf pq Q text) (\<lambda>s. ret ([CHR 0x27] @ s @ [CHR 0x27])))"

subsection \<open>Text for \<open>LIKE\<close>\<close>

definition like_needles :: "char list" where
  "like_needles = [CHR ''_'', CHR ''%'']"

function like_loop :: "encoding_group \<Rightarrow> char \<Rightarrow> string \<Rightarrow> nat \<Rightarrow> string \<Rightarrow> exn + string" where
  "like_loop enc escape text here out =
     (if here < length text
      then (case find_in enc like_needles text (here + 1) of
              Inl e \<Rightarrow> Inl e
            | Inr n \<Rightarrow> like_loop enc escape text n (out @ [escape] @ take (n - here) (drop here text)))
      else Inr out)"
  by pat_completeness auto
termination
  by (relation "measure (\<lambda>(enc, escape, text, here, out). length text - here)") (auto dest!: find_in_range)

declare like_loop.simps [simp del]

definition esc_like_text :: "encoding_group \<Rightarrow> string \<Rightarrow> char \<Rightarrow> exn + string" where
  "esc_like_text enc text escape = (case find_in enc like_needles text 0 of
       Inl e \<Rightarrow> Inl e
     | Inr n \<Rightarrow> if n \<ge> length text then Inr text else like_loop enc escape text n (take n text))"

definition esc_like :: "'db libpq \<Rightarrow> string \<Rightarrow> char \<Rightarrow> (('db, 'z) session_scheme, string) prog" where
  "esc_like pq text escape = (if text = [] then ret []
     else bnd (get_encoding_group pq) (\<lambda>enc. lift_exn (esc_like_text enc text escape)))"

subsection \<open>Connection strings\<close>

text \<open>The fields of a \<open>PQconninfoOption\<close> that the code reads; \<open>None\<close> is a null pointer.\<close>

record conninfo_option =
  co_keyword :: string
  co_envvar :: "string option"
  co_compiled :: "string option"
  co_val :: "string option"

definition get_default :: "(string \<Rightarrow> string option) \<Rightarrow> conninfo_option \<Rightarrow> string option" where
  "get_default getenv opt = (case co_envvar opt of
       None \<Rightarrow> co_compiled opt
     | Some v \<Rightarrow> (case getenv v of None \<Rightarrow> co_compiled opt | Some x \<Rightarrow> Some x))"

definition quote_connect_param :: "string \<Rightarrow> string" where
  "quote_connect_param v = (let quote = CHR '' '' \<in> set v \<or> CHR 0x27 \<in> set v in
     (if quote then [CHR 0x27] else [])
     @ concat (map (\<lambda>c. if c = CHR 0x5C \<or> c = CHR 0x27 then [CHR 0x5C, c] else [c]) v)
     @ (if quote then [CHR 0x27] else []))"

fun options_loop :: "(string \<Rightarrow> string option) \<Rightarrow> conninfo_option list \<Rightarrow> string \<Rightarrow> string" where
  "options_loop getenv [] buf = buf"
| "options_loop getenv (p # ps) buf = options_loop getenv ps (case co_val p of
       None \<Rightarrow> buf
     | Some v \<Rightarrow> if get_default getenv p = Some v then buf
         else (if buf \<noteq> [] then buf @ '' '' else buf) @ co_keyword p @ ''='' @ quote_connect_param v)"

definition options_string :: "(string \<Rightarrow> string option) \<Rightarrow> conninfo_option list \<Rightarrow> string" where
  "options_string getenv ps = options_loop getenv ps []"

end
