(* ===== verification/Quote_Spec.thy ===== *)
theory Quote_Spec
  imports Pqxx_Quote Pqxx_Cursor
begin

text \<open>
  What quoted text means to its reader: patterns of \<open>LIKE\<close> and connection strings, each with a reader after the
  documentation of PostgreSQL.
\<close>

subsection \<open>Patterns\<close>

text \<open>A pattern over glyphs: \<open>%\<close> is any text, \<open>_\<close> any glyph, and a glyph after the escape character stands for itself.\<close>

fun like :: "char \<Rightarrow> string list \<Rightarrow> string list \<Rightarrow> bool" where
  "like e [] ts = (ts = [])"
| "like e (p # ps) ts =
     (if p = ''%'' then (\<exists>k\<in>{0..length ts}. like e ps (drop k ts))
      else if p = ''_'' then ts \<noteq> [] \<and> like e ps (tl ts)
      else if p = [e] then ps \<noteq> [] \<and> ts \<noteq> [] \<and> hd ts = hd ps \<and> like e (tl ps) (tl ts)
      else ts \<noteq> [] \<and> hd ts = p \<and> like e ps (tl ts))"

definition wild :: "string \<Rightarrow> bool" where
  "wild g \<longleftrightarrow> hd g \<in> set like_needles"

definition like_glyph :: "char \<Rightarrow> string \<Rightarrow> string list" where
  "like_glyph e g = (if wild g then [[e], g] else [g])"

lemma glyphs_dropWhile: "glyphs scan gs \<Longrightarrow> glyphs scan (dropWhile P gs)"
  by (auto simp: glyphs_def list_all_iff dest: set_dropWhileD)

context local_scan
begin

lemma cut_concat: "glyphs scan gs \<Longrightarrow> cut scan (concat gs) = Some gs"
proof (induction gs)
  case Nil
  show ?case by (simp add: cut.simps)
next
  case (Cons g gs)
  then have "scan (g @ concat gs) 0 = Inr (length g)" "g \<noteq> []" using glyph_at[of g "[]" "concat gs"] by (simp_all add: glyph_def)
  then show ?case using Cons by (subst cut.simps) simp
qed

lemma wild_glyph: "glyph scan g \<Longrightarrow> wild g \<Longrightarrow> g = ''_'' \<or> g = ''%''"
proof -
  assume g: "glyph scan g" "wild g"
  then have "length g = 1" by (intro ascii_glyph) (auto simp: wild_def like_needles_def)
  with g show ?thesis by (cases g) (auto simp: wild_def like_needles_def)
qed

lemma like_glyph_glyphs:
  assumes "glyphs scan gs" "of_char e < (128::int)"
  shows "glyphs scan (concat (map (like_glyph e) gs))"
  using assms by (induction gs) (auto simp: like_glyph_def single_glyph)

lemma like_literal:
  assumes "glyphs scan gs" "[e] \<notin> set gs" "e \<notin> set like_needles"
  shows "like e (concat (map (like_glyph e) gs) @ ps) ts \<longleftrightarrow> (\<exists>rest. ts = gs @ rest \<and> like e ps rest)"
  using assms(1,2)
proof (induction gs arbitrary: ts)
  case (Cons g gs)
  have e: "e \<noteq> CHR ''%''" "e \<noteq> CHR ''_''" using assms(3) by (auto simp: like_needles_def)
  have "like e (concat (map (like_glyph e) (g # gs)) @ ps) ts
    \<longleftrightarrow> ts \<noteq> [] \<and> hd ts = g \<and> like e (concat (map (like_glyph e) gs) @ ps) (tl ts)"
  proof (cases "wild g")
    case True
    then show ?thesis using e by (simp add: like_glyph_def)
  next
    case False
    then have "g \<noteq> ''%''" "g \<noteq> ''_''" by (auto simp: wild_def like_needles_def)
    then show ?thesis using False Cons.prems by (auto simp: like_glyph_def)
  qed
  then show ?case using Cons by (cases ts) auto
qed simp

end

lemma like_loop_glyphs:
  assumes "enc \<noteq> Enc_unknown" "glyphs (scanner_of enc) gs" "gs = [] \<or> wild (hd gs)"
  shows "like_loop enc e (p @ concat gs) (length p) buf = Inr (buf @ concat (concat (map (like_glyph e) gs)))"
  using assms(2,3)
proof (induction "length gs" arbitrary: gs p buf rule: less_induct)
  case less
  show ?case
  proof (cases gs)
    case Nil
    then show ?thesis by (subst like_loop.simps) simp
  next
    case (Cons v ws)
    define us vs where "us = takeWhile (\<lambda>g. \<not> wild g) ws" and "vs = dropWhile (\<lambda>g. \<not> wild g) ws"
    have ws: "ws = us @ vs" by (simp add: us_def vs_def)
    have v: "wild v" "glyphs (scanner_of enc) ws" "glyphs (scanner_of enc) vs" "vs = [] \<or> wild (hd vs)"
      using less.prems Cons glyphs_dropWhile[of "scanner_of enc" ws "\<lambda>g. \<not> wild g"] hd_dropWhile[of "\<lambda>g. \<not> wild g" ws]
      unfolding vs_def by auto
    have l: "length v = 1" using local_scan.wild_glyph[OF scanner_of_local, of enc v] less.prems(1) Cons v(1) by auto
    have us: "concat (concat (map (like_glyph e) us)) = concat us"
      unfolding us_def by (induction ws) (auto simp: like_glyph_def)
    have "find_in enc like_needles ((p @ v) @ concat ws) (length (p @ v)) = Inr (length (p @ v) + length (concat us))"
      unfolding us_def wild_def by (rule find_in_split[OF assms(1) v(2)])
    then have f: "find_in enc like_needles (p @ concat gs) (length p + 1) = Inr (length (p @ v @ concat us))" using Cons l by simp
    have "take (length (p @ v @ concat us) - length p) (drop (length p) (p @ concat gs)) = v @ concat us"
      using Cons ws by simp
    moreover have "length p < length (p @ concat gs)" using Cons l by simp
    ultimately have "like_loop enc e (p @ concat gs) (length p) buf
        = like_loop enc e ((p @ v @ concat us) @ concat vs) (length (p @ v @ concat us)) (buf @ [e] @ v @ concat us)"
      using f Cons ws by (subst like_loop.simps) simp
    also have "\<dots> = Inr ((buf @ [e] @ v @ concat us) @ concat (concat (map (like_glyph e) vs)))"
      using less.hyps[of vs "p @ v @ concat us"] v(3,4) Cons ws by simp
    finally show ?thesis using Cons ws us v(1) by (simp add: like_glyph_def)
  qed
qed

lemma esc_like_glyphs:
  assumes "enc \<noteq> Enc_unknown" "glyphs (scanner_of enc) gs"
  shows "esc_like_text enc (concat gs) e = Inr (concat (concat (map (like_glyph e) gs)))"
proof -
  define us vs where "us = takeWhile (\<lambda>g. \<not> wild g) gs" and "vs = dropWhile (\<lambda>g. \<not> wild g) gs"
  have gs: "gs = us @ vs" by (simp add: us_def vs_def)
  have us: "concat (concat (map (like_glyph e) us)) = concat us"
    unfolding us_def by (induction gs) (auto simp: like_glyph_def)
  have vs: "glyphs (scanner_of enc) vs" "vs = [] \<or> wild (hd vs)"
    using assms(2) glyphs_dropWhile[of "scanner_of enc" gs "\<lambda>g. \<not> wild g"] hd_dropWhile[of "\<lambda>g. \<not> wild g" gs]
    unfolding vs_def by auto
  have f: "find_in enc like_needles (concat gs) 0 = Inr (length (concat us))"
    using find_in_split[OF assms, of like_needles "[]"] unfolding us_def wild_def by simp
  show ?thesis
  proof (cases "concat vs = []")
    case True
    then have "vs = []" using vs(1) by (cases vs) (auto simp: glyph_def)
    then show ?thesis using f us gs by (simp add: esc_like_text_def)
  next
    case False
    then show ?thesis using f us gs like_loop_glyphs[OF assms(1) vs, of e "concat us" "concat us"]
      by (auto simp: esc_like_text_def)
  qed
qed

text \<open>
  Text escaped for \<open>LIKE\<close> matches only itself, in every encoding and whatever pattern follows it, as long as the escape character is
  not a part of the text: the escaped text with a pattern appended matches exactly the text followed by a match of that pattern.
\<close>

theorem esc_like_literal:
  assumes "pq_encoding pq (db w) = Some n" "enc_group n = Inr enc" "enc \<noteq> Enc_unknown"
    and "cut (scanner_of enc) text = Some gs" "of_char e < (128::int)" "e \<notin> {CHR ''_'', CHR ''%''}" "[e] \<notin> set gs"
  shows "\<exists>out hs. esc_like pq text e w = (Inr out, w) \<and> cut (scanner_of enc) out = Some hs
    \<and> (\<forall>ps ts. like e (hs @ ps) ts \<longleftrightarrow> (\<exists>rest. ts = gs @ rest \<and> like e ps rest))"
proof -
  have gs: "glyphs (scanner_of enc) gs" "concat gs = text" using local_scan.cut_glyphs[OF scanner_of_local assms(4)] by simp_all
  let ?hs = "concat (map (like_glyph e) gs)"
  have enc: "get_encoding_group pq w = (Inr enc, w)" using assms(1,2) by (simp add: get_encoding_group_def lift_exn_def prog_simps)
  have "esc_like pq text e w = (Inr (concat ?hs), w)"
  proof (cases "text = []")
    case True
    then have "gs = []" using gs by (cases gs) (auto simp: glyph_def)
    with True show ?thesis by (simp add: esc_like_def prog_simps)
  next
    case False
    then show ?thesis using esc_like_glyphs[OF assms(3) gs(1), of e] gs(2) enc by (simp add: esc_like_def lift_exn_def prog_simps)
  qed
  moreover have "cut (scanner_of enc) (concat ?hs) = Some ?hs"
    by (rule local_scan.cut_concat[OF scanner_of_local local_scan.like_glyph_glyphs[OF scanner_of_local gs(1) assms(5)]])
  moreover have "e \<notin> set like_needles" using assms(6) by (simp add: like_needles_def)
  note local_scan.like_literal[OF scanner_of_local gs(1) assms(7) this]
  ultimately show ?thesis by blast
qed

theorem esc_like_literal_witness:
  "\<exists>out hs. esc_like (cursor_server []) ''50%'' (CHR 0x5C) (fresh_session 0) = (Inr out, fresh_session 0) \<and> cut scan_ascii_safe out = Some hs
    \<and> like (CHR 0x5C) (hs @ [''_'']) [''5'', ''0'', ''%'', ''!'']"
proof -
  have e: "enc_group ''UTF8'' = Inr Ascii_safe" "cut (scanner_of Ascii_safe) ''50%'' = Some [''5'', ''0'', ''%'']" by code_simp+
  have p: "pq_encoding (cursor_server []) (db (fresh_session 0)) = Some ''UTF8''" by (simp add: cursor_server_def)
  have l: "\<exists>rest. [''5'', ''0'', ''%'', ''!''] = [''5'', ''0'', ''%''] @ rest \<and> like (CHR 0x5C) [''_''] rest" by (intro exI[of _ "[''!'']"]) simp
  show ?thesis using esc_like_literal[OF p e(1) _ e(2), of "CHR 0x5C"] l by auto
qed

text \<open>
  The documentation of \<open>esc_like\<close> says that the text matches only as a literal string.  The code does not escape the escape character:
  with a backslash in it, the escaped text matches another text and not its own.
\<close>

lemma esc_like_escape_character:
  "esc_like_text Ascii_safe [CHR ''a'', CHR 0x5C, CHR ''b''] (CHR 0x5C) = Inr [CHR ''a'', CHR 0x5C, CHR ''b'']"
  "like (CHR 0x5C) [''a'', [CHR 0x5C], ''b''] [''a'', ''b'']"
  "\<not> like (CHR 0x5C) [''a'', [CHR 0x5C], ''b''] [''a'', [CHR 0x5C], ''b'']"
  by code_simp+

subsection \<open>Connection strings\<close>

text \<open>
  A connection string in the keyword/value format: settings \<open>keyword = value\<close> with blanks between them and optional blanks around the sign.
  A value in single quotes may be empty or hold blanks; a backslash makes the next character a part of the value.
\<close>

definition blank :: "char \<Rightarrow> bool" where
  "blank c \<longleftrightarrow> c \<in> {CHR '' '', CHR 0x09, CHR 0x0A, CHR 0x0B, CHR 0x0C, CHR 0x0D}"

fun bare_value :: "string \<Rightarrow> string \<times> string" where
  "bare_value [] = ([], [])"
| "bare_value [c] = (if blank c then ([], [c]) else if c = CHR 0x5C then ([], []) else ([c], []))"
| "bare_value (c # d # s) = (if blank c then ([], c # d # s)
     else if c = CHR 0x5C then apfst ((#) d) (bare_value s) else apfst ((#) c) (bare_value (d # s)))"

fun quoted_value :: "string \<Rightarrow> (string \<times> string) option" where
  "quoted_value [] = None"
| "quoted_value [c] = (if c = CHR 0x27 then Some ([], []) else None)"
| "quoted_value (c # d # s) = (if c = CHR 0x27 then Some ([], d # s)
     else if c = CHR 0x5C then map_option (apfst ((#) d)) (quoted_value s)
     else map_option (apfst ((#) c)) (quoted_value (d # s)))"

definition read_value :: "string \<Rightarrow> (string \<times> string) option" where
  "read_value s = (case s of [] \<Rightarrow> Some ([], []) | c # t \<Rightarrow> if c = CHR 0x27 then quoted_value t else Some (bare_value s))"

lemma read_value_bare: "s = [] \<or> hd s \<noteq> CHR 0x27 \<Longrightarrow> read_value s = Some (bare_value s)"
  by (cases s) (simp_all add: read_value_def)

lemma bare_value_shorter: "bare_value s = (v, t) \<Longrightarrow> length t \<le> length s"
  by (induction s arbitrary: v t rule: bare_value.induct) (fastforce split: if_splits simp: apfst_def map_prod_def split: prod.splits)+

lemma quoted_value_shorter: "quoted_value s = Some (v, t) \<Longrightarrow> length t \<le> length s"
  by (induction s arbitrary: v t rule: quoted_value.induct) (fastforce split: if_splits)+

lemma read_value_shorter: "read_value s = Some (v, t) \<Longrightarrow> length t \<le> length s"
  by (auto simp: read_value_def dest!: quoted_value_shorter bare_value_shorter[of "_ # _"] split: list.splits if_splits)

function read_settings :: "string \<Rightarrow> (string \<times> string) list option" where
  "read_settings s = (let s0 = dropWhile blank s; in_key = (\<lambda>c. c \<noteq> CHR ''='' \<and> \<not> blank c) in
     if s0 = [] then Some []
     else case dropWhile blank (dropWhile in_key s0) of
         [] \<Rightarrow> None
       | c # r \<Rightarrow> if c \<noteq> CHR ''='' then None
           else case read_value (dropWhile blank r) of
               None \<Rightarrow> None
             | Some (v, t) \<Rightarrow> map_option ((#) (takeWhile in_key s0, v)) (read_settings t))"
  by pat_completeness auto
termination
proof (relation "measure length", goal_cases)
  case (2 s s0 k c r p v t)
  have "length t \<le> length r" using read_value_shorter[of "dropWhile blank r" v t] 2(5,6,7) length_dropWhile_le[of blank r] by simp
  moreover have "length (c # r) \<le> length s"
    using 2(1,2,4) length_dropWhile_le[of blank s] length_dropWhile_le[of k s0] length_dropWhile_le[of blank "dropWhile k s0"] by simp
  ultimately show ?case by simp
qed simp

declare read_settings.simps [simp del]

text \<open>The settings that an option list shows: those whose value is not the default.\<close>

definition shown :: "(string \<Rightarrow> string option) \<Rightarrow> conninfo_option list \<Rightarrow> (string \<times> string) list" where
  "shown getenv ps = concat (map (\<lambda>p. case co_val p of None \<Rightarrow> []
     | Some v \<Rightarrow> if get_default getenv p = Some v then [] else [(co_keyword p, v)]) ps)"

definition plain_keyword :: "string \<Rightarrow> bool" where
  "plain_keyword k \<longleftrightarrow> k \<noteq> [] \<and> list_all (\<lambda>c. c \<noteq> CHR ''='' \<and> \<not> blank c) k"

definition printable :: "string \<Rightarrow> bool" where
  "printable v \<longleftrightarrow> v \<noteq> [] \<and> list_all (\<lambda>c. blank c \<longrightarrow> c = CHR '' '') v"

definition setting_text :: "string \<times> string \<Rightarrow> string" where
  "setting_text kv = fst kv @ ''='' @ quote_connect_param (snd kv)"

definition esc_param :: "char \<Rightarrow> string" where
  "esc_param c = (if c = CHR 0x5C \<or> c = CHR 0x27 then [CHR 0x5C, c] else [c])"

lemma quote_param_cases:
  "quote_connect_param v = (if CHR '' '' \<in> set v \<or> CHR 0x27 \<in> set v then CHR 0x27 # concat (map esc_param v) @ [CHR 0x27]
     else concat (map esc_param v))"
  by (simp add: quote_connect_param_def esc_param_def[abs_def] Let_def)

lemma bare_simps:
  "\<not> blank c \<Longrightarrow> c \<noteq> CHR 0x5C \<Longrightarrow> bare_value (c # s) = apfst ((#) c) (bare_value s)"
  "bare_value (CHR 0x5C # c # s) = apfst ((#) c) (bare_value s)"
  "s = [] \<or> blank (hd s) \<Longrightarrow> bare_value s = ([], s)"
  by (cases s; simp add: blank_def; fail)+ (induction s rule: bare_value.induct; auto)

lemma bare_param:
  assumes "list_all (\<lambda>c. \<not> blank c \<and> c \<noteq> CHR 0x27) v" "s = [] \<or> blank (hd s)"
  shows "bare_value (concat (map esc_param v) @ s) = (v, s)"
  using assms(1) by (induction v) (auto simp: esc_param_def bare_simps assms(2))

lemma quoted_simps:
  "c \<noteq> CHR 0x5C \<Longrightarrow> c \<noteq> CHR 0x27 \<Longrightarrow> quoted_value (c # s) = map_option (apfst ((#) c)) (quoted_value s)"
  "quoted_value (CHR 0x5C # c # s) = map_option (apfst ((#) c)) (quoted_value s)"
  "quoted_value (CHR 0x27 # s) = Some ([], s)"
  by (cases s; simp)+

lemma quoted_param: "quoted_value (concat (map esc_param v) @ CHR 0x27 # s) = Some (v, s)"
  by (induction v) (auto simp: esc_param_def quoted_simps)

lemma read_param:
  assumes "printable v" "s = [] \<or> blank (hd s)"
  shows "read_value (dropWhile blank (quote_connect_param v @ s)) = Some (v, s)"
proof (cases "CHR '' '' \<in> set v \<or> CHR 0x27 \<in> set v")
  case True
  then show ?thesis using quoted_param[of v s] by (simp add: quote_param_cases read_value_def blank_def)
next
  case False
  then have v: "list_all (\<lambda>c. \<not> blank c \<and> c \<noteq> CHR 0x27) v" using assms(1) by (auto simp: printable_def list_all_iff)
  obtain c u where cu: "v = c # u" using assms(1) by (cases v) (auto simp: printable_def)
  then obtain d r where dr: "concat (map esc_param v) @ s = d # r" "\<not> blank d" "d \<noteq> CHR 0x27"
    using v by (cases "c = CHR 0x5C") (auto simp: esc_param_def blank_def)
  then show ?thesis using bare_param[OF v assms(2)] False by (simp add: quote_param_cases read_value_def)
qed

lemma read_keyword:
  assumes "plain_keyword k" "list_all blank b"
  shows "read_settings (b @ k @ ''='' @ r) = (case read_value (dropWhile blank r) of None \<Rightarrow> None
    | Some (v, t) \<Rightarrow> map_option ((#) (k, v)) (read_settings t))"
proof -
  let ?in = "\<lambda>c. c \<noteq> CHR ''='' \<and> \<not> blank c"
  have b: "dropWhile blank (b @ k @ ''='' @ r) = k @ ''='' @ r"
    using assms by (cases k) (auto simp: dropWhile_append plain_keyword_def list_all_iff)
  have k: "dropWhile ?in (k @ ''='' @ r) = CHR ''='' # r" "takeWhile ?in (k @ ''='' @ r) = k"
    using assms(1) by (auto simp: dropWhile_append takeWhile_append plain_keyword_def list_all_iff)
  have "\<not> blank (CHR ''='')" by (simp add: blank_def)
  then show ?thesis using b k assms(1) by (subst read_settings.simps) (simp add: Let_def plain_keyword_def split: option.split prod.split)
qed

lemma read_setting:
  assumes "plain_keyword (fst kv)" "printable (snd kv)" "s = [] \<or> blank (hd s)" "list_all blank b"
  shows "read_settings (b @ setting_text kv @ s) = map_option ((#) kv) (read_settings s)"
  using read_keyword[OF assms(1,4), of "quote_connect_param (snd kv) @ s"] read_param[OF assms(2,3)] by (simp add: setting_text_def)

lemma read_all:
  assumes "list_all (\<lambda>kv. plain_keyword (fst kv) \<and> printable (snd kv)) xs"
  shows "read_settings (concat (map (\<lambda>kv. '' '' @ setting_text kv) xs)) = Some xs"
  using assms
proof (induction xs)
  case Nil
  show ?case by (simp add: read_settings.simps)
next
  case (Cons kv xs)
  have "concat (map (\<lambda>kv. '' '' @ setting_text kv) xs) = [] \<or> blank (hd (concat (map (\<lambda>kv. '' '' @ setting_text kv) xs)))"
    by (cases xs) (simp_all add: blank_def)
  with Cons show ?case using read_setting[of kv "concat (map (\<lambda>kv. '' '' @ setting_text kv) xs)" "'' ''"] by (simp add: blank_def)
qed

lemma options_loop_shown:
  assumes "list_all (plain_keyword \<circ> co_keyword) ps"
  shows "options_loop getenv ps buf = (if buf = [] then drop 1 (concat (map (\<lambda>kv. '' '' @ setting_text kv) (shown getenv ps)))
     else buf @ concat (map (\<lambda>kv. '' '' @ setting_text kv) (shown getenv ps)))"
  using assms
  by (induction ps arbitrary: buf) (auto simp: shown_def setting_text_def plain_keyword_def split: option.splits)

text \<open>
  The connection string that describes an open connection is read back as its settings: for each option whose value is not the
  default, in order, the keyword and the value.  This holds for values that are not empty and have no white space other than blanks.
\<close>

theorem connection_string_roundtrip:
  assumes "list_all (plain_keyword \<circ> co_keyword) ps" "list_all (printable \<circ> snd) (shown getenv ps)"
  shows "read_settings (options_string getenv ps) = Some (shown getenv ps)"
proof -
  let ?xs = "shown getenv ps"
  have k: "list_all (\<lambda>kv. plain_keyword (fst kv) \<and> printable (snd kv)) ?xs"
    using assms by (auto simp: shown_def list_all_iff split: option.splits if_splits)
  have o: "options_string getenv ps = drop 1 (concat (map (\<lambda>kv. '' '' @ setting_text kv) ?xs))"
    by (simp add: options_string_def options_loop_shown[OF assms(1)])
  show ?thesis
  proof (cases ?xs)
    case Nil
    then show ?thesis using o by (simp add: read_settings.simps)
  next
    case (Cons kv xs)
    let ?s = "concat (map (\<lambda>kv. '' '' @ setting_text kv) xs)"
    have "?s = [] \<or> blank (hd ?s)" by (cases xs) (simp_all add: blank_def)
    then show ?thesis using o Cons k read_setting[of kv ?s "[]"] read_all[of xs] by simp
  qed
qed

theorem connection_string_roundtrip_witness:
  "read_settings (options_string (\<lambda>_. None) [\<lparr>co_keyword = ''host'', co_envvar = Some ''PGHOST'', co_compiled = None, co_val = Some ''a''\<rparr>,
     \<lparr>co_keyword = ''port'', co_envvar = None, co_compiled = Some ''5432'', co_val = Some ''5432''\<rparr>,
     \<lparr>co_keyword = ''password'', co_envvar = None, co_compiled = None, co_val = Some [CHR ''x'', CHR 0x27, CHR '' '', CHR 0x5C]\<rparr>])
   = Some [(''host'', ''a''), (''password'', [CHR ''x'', CHR 0x27, CHR '' '', CHR 0x5C])]"
  by (subst connection_string_roundtrip)
    (simp_all add: plain_keyword_def shown_def printable_def blank_def get_default_def)

text \<open>
  An empty value is not quoted, so it takes the setting after it for its own: of an option with an empty value and a second one,
  the string is read as the first keyword with the text of the second setting as its value.
\<close>

theorem empty_option_swallows_next:
  assumes "plain_keyword k" "plain_keyword k'" "list_all (\<lambda>c. \<not> blank c \<and> c \<noteq> CHR 0x27 \<and> c \<noteq> CHR 0x5C) (k' @ v)"
    and "get_default getenv p = None" "get_default getenv q = None"
    and "co_keyword p = k" "co_val p = Some []" "co_keyword q = k'" "co_val q = Some v"
  shows "shown getenv [p, q] = [(k, []), (k', v)] \<and> read_settings (options_string getenv [p, q]) = Some [(k, k' @ ''='' @ v)]"
proof -
  have plain: "concat (map esc_param x) = x" if "list_all (\<lambda>c. \<not> blank c \<and> c \<noteq> CHR 0x27 \<and> c \<noteq> CHR 0x5C) x" for x
    using that by (induction x) (auto simp: esc_param_def)
  have no: "CHR '' '' \<notin> set v" "CHR 0x27 \<notin> set v" using assms(3) by (auto simp: list_all_iff blank_def)
  then have v: "quote_connect_param v = v" using plain[of v] assms(3) by (simp add: quote_param_cases)
  have sh: "shown getenv [p, q] = [(k, []), (k', v)]" using assms(4-9) by (simp add: shown_def)
  have o: "options_string getenv [p, q] = [] @ k @ ''='' @ '' '' @ k' @ ''='' @ v"
  proof -
    have "list_all (plain_keyword \<circ> co_keyword) [p, q]" using assms(1,2,6,8) by simp
    then have "options_string getenv [p, q] = drop 1 (concat (map (\<lambda>kv. '' '' @ setting_text kv) [(k, []), (k', v)]))"
      unfolding options_string_def sh[symmetric] by (subst options_loop_shown) auto
    moreover have "quote_connect_param [] = []" by (simp add: quote_param_cases)
    ultimately show ?thesis by (simp add: setting_text_def v)
  qed
  have "list_all (\<lambda>c. \<not> blank c \<and> c \<noteq> CHR 0x27) (k' @ ''='' @ v)" using assms(3) by (simp add: blank_def list_all_iff)
  from bare_param[OF this, of "[]"] plain[of "k' @ ''='' @ v"] assms(3)
  have "bare_value (k' @ ''='' @ v) = (k' @ ''='' @ v, [])" by (simp add: blank_def)
  moreover have "dropWhile blank ('' '' @ k' @ ''='' @ v) = k' @ ''='' @ v" "hd (k' @ ''='' @ v) \<noteq> CHR 0x27"
    using assms(2,3) by (cases k'; auto simp: plain_keyword_def blank_def)+
  ultimately have "read_value (dropWhile blank ('' '' @ k' @ ''='' @ v)) = Some (k' @ ''='' @ v, [])"
    by (simp only: read_value_bare simp_thms)
  then have "read_settings (options_string getenv [p, q]) = Some [(k, k' @ ''='' @ v)]"
    unfolding o by (subst read_keyword[OF assms(1)]) (simp_all add: read_settings.simps)
  with sh show ?thesis by simp
qed

theorem empty_option_swallows_next_witness:
  "read_settings (options_string (\<lambda>_. None) [\<lparr>co_keyword = ''password'', co_envvar = None, co_compiled = None, co_val = Some []\<rparr>,
     \<lparr>co_keyword = ''dbname'', co_envvar = None, co_compiled = None, co_val = Some ''shop''\<rparr>]) = Some [(''password'', ''dbname=shop'')]"
  using empty_option_swallows_next[of "''password''" "''dbname''" "''shop''" "\<lambda>_. None"
      "\<lparr>co_keyword = ''password'', co_envvar = None, co_compiled = None, co_val = Some []\<rparr>"
      "\<lparr>co_keyword = ''dbname'', co_envvar = None, co_compiled = None, co_val = Some ''shop''\<rparr>"]
  by (simp add: plain_keyword_def blank_def get_default_def)

end
