(* ===== verification/Pqxx_Connection.thy ===== *)
theory Pqxx_Connection
  imports Pqxx_Quote Pqxx_Kinds "HOL-Library.Word" "HOL-Library.Char_ord" "HOL-Library.List_Lexorder"
begin

unbundle bit_operations_syntax

text \<open>
  The connection object of \<open>libpqxx/src/connection.cxx\<close>: how it is opened, moved and closed, its error handlers
  (\<open>errorhandler.cxx\<close>), and its notifications, by receivers (\<open>notification.cxx\<close>) and by handlers.
\<close>

subsection \<open>The object\<close>

text \<open>
  \<open>m_conn\<close> tells whether the handle is a valid pointer.  Error handlers, receivers and notification handlers are objects
  and functions of the caller, named by numbers; what they do is a parameter, \<open>callbacks\<close>.  The multimap of receivers and the map of
  handlers are lists in the order of their keys.
\<close>

record notice_waiters =
  errorhandlers :: "nat list"
  notice_handler :: "nat option"

record 'db connection = "'db naming_session" +
  m_conn :: bool
  m_notice_waiters :: "notice_waiters option"
  m_receivers :: "(string \<times> nat) list"
  m_handlers :: "(string \<times> nat) list"
  heard :: "(nat \<times> string) list"

record notify =
  relname :: string
  extra :: string
  be_pid :: int

record 'db callbacks =
  goes_on :: "nat \<Rightarrow> string \<Rightarrow> bool"
  on_receiver :: "nat \<Rightarrow> string \<Rightarrow> int \<Rightarrow> ('db connection, unit) prog"
  on_handler :: "nat \<Rightarrow> notify \<Rightarrow> ('db connection, unit) prog"

text \<open>\<open>PQnotifies\<close>, and \<open>poll\<close> on the socket for reading, for writing and for a number of milliseconds (the text of its error, if any).\<close>

record 'db notifier =
  pq_notifies :: "'db \<Rightarrow> notify option \<times> 'db"
  sys_poll :: "bool \<Rightarrow> bool \<Rightarrow> int \<Rightarrow> 'db \<Rightarrow> string option \<times> 'db"

subsection \<open>Notices\<close>

text \<open>The error handlers are called from the newest on, until one returns false; the notice handler is called in any case.\<close>

fun called :: "(nat \<Rightarrow> bool) \<Rightarrow> nat list \<Rightarrow> nat list" where
  "called go [] = []"
| "called go (h # hs) = h # (if go h then called go hs else [])"

definition process_notice_raw :: "'db callbacks \<Rightarrow> notice_waiters option \<Rightarrow> string \<Rightarrow> nat list" where
  "process_notice_raw cb waiters msg = (case waiters of
       None \<Rightarrow> []
     | Some ws \<Rightarrow> if msg = [] then []
         else called (\<lambda>h. goes_on cb h msg) (rev (errorhandlers ws)) @ (case notice_handler ws of None \<Rightarrow> [] | Some h \<Rightarrow> [h]))"

definition conn_notice :: "'db callbacks \<Rightarrow> string \<Rightarrow> ('db connection, unit) prog" where
  "conn_notice cb msg = sq (process_notice msg)
     (modify (\<lambda>w. w\<lparr>heard := heard w @ map (\<lambda>h. (h, msg)) (process_notice_raw cb (m_notice_waiters w) msg)\<rparr>))"

definition upd_waiters :: "(notice_waiters \<Rightarrow> notice_waiters) \<Rightarrow> ('db connection, unit) prog" where
  "upd_waiters f = bnd (gets m_notice_waiters) (\<lambda>ws. case ws of
       None \<Rightarrow> stop_with (Undefined Index_out_of_range)
     | Some x \<Rightarrow> modify (\<lambda>w. w\<lparr>m_notice_waiters := Some (f x)\<rparr>))"

definition register_errorhandler :: "nat \<Rightarrow> ('db connection, unit) prog" where
  "register_errorhandler h = upd_waiters (\<lambda>ws. ws\<lparr>errorhandlers := errorhandlers ws @ [h]\<rparr>)"

definition unregister_errorhandler :: "nat \<Rightarrow> ('db connection, unit) prog" where
  "unregister_errorhandler h = upd_waiters (\<lambda>ws. ws\<lparr>errorhandlers := filter (\<lambda>x. x \<noteq> h) (errorhandlers ws)\<rparr>)"

definition get_errorhandlers :: "('db connection, nat list) prog" where
  "get_errorhandlers = bnd (gets m_notice_waiters) (\<lambda>ws. case ws of
       None \<Rightarrow> stop_with (Undefined Index_out_of_range) | Some x \<Rightarrow> ret (errorhandlers x))"

definition set_notice_handler :: "nat option \<Rightarrow> ('db connection, unit) prog" where
  "set_notice_handler h = upd_waiters (\<lambda>ws. ws\<lparr>notice_handler := h\<rparr>)"

definition set_up_notice_handlers :: "('db connection, unit) prog" where
  "set_up_notice_handlers = modify (\<lambda>w. case m_notice_waiters w of
       None \<Rightarrow> w\<lparr>m_notice_waiters := Some \<lparr>errorhandlers = [], notice_handler = None\<rparr>\<rparr> | Some ws \<Rightarrow> w)"

subsection \<open>Notifications\<close>

definition get_notif :: "'db notifier \<Rightarrow> ('db connection, notify option) prog" where
  "get_notif N = (\<lambda>w. let (n, d) = pq_notifies N (db w) in (Inr n, w\<lparr>db := d\<rparr>))"

text \<open>
  A notification goes to the receivers of its channel and then to its handler.  What a receiver throws is reported; what a handler
  throws is not caught.  The receivers are taken not to register or remove receivers while they are called.
\<close>

definition deliver :: "'db callbacks \<Rightarrow> notify \<Rightarrow> ('db connection, unit) prog" where
  "deliver cb n = bnd (gets (filter (\<lambda>cr. fst cr = relname n) \<circ> m_receivers)) (\<lambda>hit.
     sq (for_each hit (\<lambda>(c, r). try_catch (on_receiver cb r (extra n) (be_pid n)) (\<lambda>e.
           conn_notice cb (''Exception in notification receiver '' @ [CHR 0x27] @ c @ [CHR 0x27] @ '': '' @ exn_what e @ [CHR 0x0A]))))
     (bnd (gets m_handlers) (\<lambda>hs. case map_of hs (relname n) of None \<Rightarrow> ret () | Some h \<Rightarrow> on_handler cb h n)))"

text \<open>The loop takes a bound on the number of waiting notifications; without it, it has not ended.\<close>

fun notifs_loop :: "nat \<Rightarrow> 'db notifier \<Rightarrow> 'db callbacks \<Rightarrow> int \<Rightarrow> ('db connection, int) prog" where
  "notifs_loop 0 N cb notifs = stop_with Waiting"
| "notifs_loop (Suc m) N cb notifs = bnd (get_notif N) (\<lambda>n. case n of
       None \<Rightarrow> ret notifs
     | Some x \<Rightarrow> sq (deliver cb x) (notifs_loop m N cb (notifs + 1)))"

definition conn_get_notifs :: "nat \<Rightarrow> 'db libpq \<Rightarrow> 'db notifier \<Rightarrow> 'db callbacks \<Rightarrow> ('db connection, int) prog" where
  "conn_get_notifs m pq N cb = sq (get_notifs pq) (bnd (gets m_trans) (\<lambda>t.
     if t \<noteq> None then ret 0 else notifs_loop m N cb 0))"

text \<open>\<open>connection::exec\<close>, with the notifications that come with it.\<close>

definition exec_notified :: "nat \<Rightarrow> 'db libpq \<Rightarrow> 'db notifier \<Rightarrow> 'db callbacks \<Rightarrow> string \<Rightarrow> ('db connection, pgresult) prog" where
  "exec_notified m pq N cb query = (\<lambda>w. let (r, d) = pq_exec pq (c_str query) (db w) in
     bnd (make_result pq r) (\<lambda>res. sq (conn_get_notifs m pq N cb) (ret res)) (w\<lparr>db := d\<rparr>))"

text \<open>The receiver list: a new receiver of a channel comes before the ones that are there.\<close>

definition add_receiver :: "'db libpq \<Rightarrow> 'db quoter \<Rightarrow> string \<Rightarrow> nat option \<Rightarrow> ('db connection, unit) prog" where
  "add_receiver pq Q channel n = (case n of
       None \<Rightarrow> throw (Argument_error ''Null receiver registered'')
     | Some r \<Rightarrow> bnd (gets m_receivers) (\<lambda>rs.
         sq (if channel \<in> fst ` set rs then ret ()
             else bnd (quote_name pq Q channel) (\<lambda>q. (\<lambda>w. let (p, d) = pq_exec pq (c_str (''LISTEN '' @ q)) (db w) in
               sq (make_result pq p) (ret ()) (w\<lparr>db := d\<rparr>))))
           (modify (\<lambda>w. w\<lparr>m_receivers := takeWhile (\<lambda>cr. fst cr < channel) (m_receivers w) @ [(channel, r)]
               @ dropWhile (\<lambda>cr. fst cr < channel) (m_receivers w)\<rparr>))))"

definition remove_receiver :: "nat \<Rightarrow> 'db libpq \<Rightarrow> 'db quoter \<Rightarrow> 'db notifier \<Rightarrow> 'db callbacks \<Rightarrow> string \<Rightarrow> nat option \<Rightarrow> ('db connection, unit) prog" where
  "remove_receiver m pq Q N cb channel n = (case n of
       None \<Rightarrow> ret ()
     | Some r \<Rightarrow> try_catch (bnd (gets m_receivers) (\<lambda>rs.
         if (channel, r) \<notin> set rs
         then conn_notice cb (''Attempt to remove unknown receiver '' @ [CHR 0x27] @ channel @ [CHR 0x27] @ [CHR 0x0A])
         else let gone = (length (filter (\<lambda>cr. fst cr = channel) rs) = 1) in
           sq (modify (\<lambda>w. w\<lparr>m_receivers := remove1 (channel, r) (m_receivers w)\<rparr>))
           (whn gone (bnd (quote_name pq Q channel) (\<lambda>q. sq (exec_notified m pq N cb (''UNLISTEN '' @ q)) (ret ()))))))
         (\<lambda>e. conn_notice cb (exn_what e)))"

text \<open>\<open>listen\<close>: a handler, or the empty function, which cancels.\<close>

definition listen_loc :: "string \<Rightarrow> ('db connection, (string \<times> nat) list) prog" where
  "listen_loc channel = gets (dropWhile (\<lambda>ch. fst ch < channel) \<circ> m_handlers)"

definition conn_listen :: "nat \<Rightarrow> 'db libpq \<Rightarrow> 'db quoter \<Rightarrow> 'db notifier \<Rightarrow> 'db callbacks \<Rightarrow> string \<Rightarrow> nat option \<Rightarrow> ('db connection, unit) prog" where
  "conn_listen m pq Q N cb channel handler = bnd (gets m_trans) (\<lambda>t.
     if t \<noteq> None
     then throw (Usage_error (''Attempting to listen for notifications on '' @ [CHR 0x27] @ channel @ [CHR 0x27] @ '' while transaction is active.''))
     else bnd (listen_loc channel) (\<lambda>pos.
       let here = takeWhile (\<lambda>ch. fst ch < channel); say = (\<lambda>cmd. bnd (quote_name pq Q channel) (\<lambda>q.
             bnd (exec_notified m pq N cb (cmd @ q)) (\<lambda>r. lift_exn (if pg_rows r = [] then Inr () else Inl Unexpected_rows))))
       in case handler of
         Some h \<Rightarrow>
           if pos \<noteq> [] \<and> fst (hd pos) = channel
           then modify (\<lambda>w. w\<lparr>m_handlers := here (m_handlers w) @ (channel, h) # tl (dropWhile (\<lambda>ch. fst ch < channel) (m_handlers w))\<rparr>)
           else sq (say ''LISTEN '')
             (modify (\<lambda>w. w\<lparr>m_handlers := here (m_handlers w) @ (channel, h) # dropWhile (\<lambda>ch. fst ch < channel) (m_handlers w)\<rparr>))
       | None \<Rightarrow>
           whn (pos \<noteq> []) (sq (say ''UNLISTEN '')
             (modify (\<lambda>w. w\<lparr>m_handlers := here (m_handlers w) @ tl (dropWhile (\<lambda>ch. fst ch < channel) (m_handlers w))\<rparr>)))))"

subsection \<open>Waiting\<close>

text \<open>\<open>check_cast\<close> between integral types, and the time to wait, which is computed in 32 unsigned bits.\<close>

definition check_cast :: "string \<Rightarrow> string \<Rightarrow> int \<Rightarrow> int \<Rightarrow> int \<Rightarrow> string \<Rightarrow> exn + int" where
  "check_cast from_type to_type lo hi v description = (let msg = int_to_string v @ '' from '' @ from_type @ '' to '' @ to_type @ '': '' @ description in
     if v < lo then Inl (Range_error (''Underflow casting '' @ msg))
     else if v > hi then Inl (Range_error (''Overflow casting '' @ msg))
     else Inr v)"

definition to_milli :: "32 word \<Rightarrow> 32 word \<Rightarrow> exn + int" where
  "to_milli seconds microseconds = check_cast ''unsigned int'' ''int'' (- (2 ^ 31)) (2 ^ 31 - 1)
     (uint (seconds * 1000 + microseconds div 1000)) ''Wait timeout value out of bounds.''"

definition wait_fd :: "'db notifier \<Rightarrow> bool \<Rightarrow> bool \<Rightarrow> 32 word \<Rightarrow> 32 word \<Rightarrow> ('db connection, unit) prog" where
  "wait_fd N for_read for_write seconds microseconds = bnd (lift_exn (to_milli seconds microseconds)) (\<lambda>ms w.
     let (err, d) = sys_poll N for_read for_write ms (db w) in
     ((case err of None \<Rightarrow> Inr () | Some e \<Rightarrow> Inl (Throw (Runtime_error e))), w\<lparr>db := d\<rparr>))"

definition to_unsigned :: "int \<Rightarrow> string \<Rightarrow> exn + 32 word" where
  "to_unsigned v description = map_sum id of_int (check_cast ''long'' ''unsigned int'' 0 (2 ^ 32 - 1) v description)"

definition await_for :: "int \<Rightarrow> int \<Rightarrow> nat \<Rightarrow> 'db libpq \<Rightarrow> 'db notifier \<Rightarrow> 'db callbacks \<Rightarrow> ('db connection, int) prog" where
  "await_for seconds microseconds m pq N cb = bnd (conn_get_notifs m pq N cb) (\<lambda>notifs.
     if notifs = 0
     then bnd (lift_exn (to_unsigned seconds ''Seconds out of range.'')) (\<lambda>s.
       bnd (lift_exn (to_unsigned microseconds ''Microseconds out of range.'')) (\<lambda>us.
       sq (wait_fd N True False s us) (conn_get_notifs m pq N cb)))
     else ret notifs)"

definition await_notification :: "nat \<Rightarrow> 'db libpq \<Rightarrow> 'db notifier \<Rightarrow> 'db callbacks \<Rightarrow> ('db connection, int) prog" where
  "await_notification m pq N cb = bnd (conn_get_notifs m pq N cb) (\<lambda>notifs.
     if notifs = 0 then sq (wait_fd N True False 10 0) (conn_get_notifs m pq N cb) else ret notifs)"

subsection \<open>Opening\<close>

text \<open>
  \<open>PQconninfoParse\<close> (the options, or its message if it has one), \<open>PQconnectdbParams\<close> and \<open>PQconnectStart\<close> (whether the handle is valid),
  \<open>PQconnectPoll\<close>, \<open>PQfinish\<close>, \<open>PQprotocolVersion\<close>, \<open>PQserverVersion\<close>, \<open>PQconninfo\<close> and whether \<open>PQstatus\<close> is \<open>CONNECTION_BAD\<close>.
\<close>

datatype polling = Poll_failed | Poll_reading | Poll_writing | Poll_ok | Poll_active | Poll_other

record 'db opener =
  pq_conninfo_parse :: "string \<Rightarrow> string option + conninfo_option list"
  pq_connectdb :: "(string \<times> string) list \<Rightarrow> 'db \<Rightarrow> bool \<times> 'db"
  pq_connect_start :: "string \<Rightarrow> 'db \<Rightarrow> bool \<times> 'db"
  pq_connect_poll :: "'db \<Rightarrow> polling \<times> 'db"
  pq_finish :: "'db \<Rightarrow> 'db"
  pq_protocol :: "'db \<Rightarrow> int"
  pq_server :: "'db \<Rightarrow> int"
  pq_conninfo :: "'db \<Rightarrow> conninfo_option list option"
  pq_bad :: "'db \<Rightarrow> bool"

definition parse_connection_string :: "'db opener \<Rightarrow> string option \<Rightarrow> exn + (string \<times> string) list" where
  "parse_connection_string C s = (case s of
       None \<Rightarrow> Inr []
     | Some t \<Rightarrow> if t = [] then Inr []
         else (case pq_conninfo_parse C t of
             Inl _ \<Rightarrow> Inl Broken_connection
           | Inr ps \<Rightarrow> Inr (concat (map (\<lambda>p. case co_val p of None \<Rightarrow> [] | Some v \<Rightarrow> [(co_keyword p, v)]) ps))))"

fun override :: "string \<times> string \<Rightarrow> (string \<times> string) list \<Rightarrow> (string \<times> string) list" where
  "override (k, v) [] = [(k, v)]"
| "override (k, v) ((k', v') # kvs) = (if k' = k then (k, v) # kvs else (k', v') # override (k, v) kvs)"

definition merge_params :: "(string \<times> string) list \<Rightarrow> (string \<times> string) list \<Rightarrow> (string \<times> string) list" where
  "merge_params parsed ps = fold override ps parsed"

definition finish :: "'db opener \<Rightarrow> ('db connection, unit) prog" where
  "finish C = modify (\<lambda>w. w\<lparr>db := pq_finish C (db w), m_conn := False\<rparr>)"

definition protocol_version :: "'db opener \<Rightarrow> ('db connection, int) prog" where
  "protocol_version C = gets (\<lambda>w. if m_conn w then pq_protocol C (db w) else 0)"

text \<open>\<open>version_mismatch\<close> is a \<open>broken_connection\<close>.\<close>

definition complete_connection :: "'db libpq \<Rightarrow> 'db opener \<Rightarrow> ('db connection, unit) prog" where
  "complete_connection pq C = bnd (gets m_conn) (\<lambda>valid.
     if \<not> valid then throw Bad_alloc
     else try_catch
       (bnd (is_open pq) (\<lambda>op. if \<not> op then throw Broken_connection
        else bnd (protocol_version C) (\<lambda>proto_ver. if proto_ver < 3
          then throw Broken_connection
        else bnd (gets (pq_server C \<circ> db)) (\<lambda>v. whn (v < 110000)
          (throw Broken_connection)))))
       (\<lambda>e. sq (finish C) (throw e)))"

definition conn_init :: "'db libpq \<Rightarrow> 'db opener \<Rightarrow> (string \<times> string) list \<Rightarrow> ('db connection, unit) prog" where
  "conn_init pq C kvs = sq (\<lambda>w. let (valid, d) = pq_connectdb C kvs (db w) in (Inr (), w\<lparr>db := d, m_conn := valid\<rparr>))
     (sq set_up_notice_handlers (complete_connection pq C))"

text \<open>
  A new object on the session of another; its members have their initial values.  The destructor of the half-made object does not run
  when a constructor throws.
\<close>

definition blank_connection :: "('db connection, unit) prog" where
  "blank_connection = modify (\<lambda>w. w\<lparr>m_conn := False, m_trans := None, m_unique_id := 0, m_notice_waiters := None, m_receivers := [],
     m_handlers := []\<rparr>)"

definition connect :: "'db libpq \<Rightarrow> 'db opener \<Rightarrow> string option \<Rightarrow> (string \<times> string) list \<Rightarrow> ('db connection, unit) prog" where
  "connect pq C s ps = sq blank_connection (bnd (lift_exn (parse_connection_string C s)) (\<lambda>parsed. conn_init pq C (merge_params parsed ps)))"

text \<open>Connecting without blocking.\<close>

definition connect_nonblocking :: "'db opener \<Rightarrow> string \<Rightarrow> ('db connection, unit) prog" where
  "connect_nonblocking C s = sq blank_connection
     (sq (\<lambda>w. let (valid, d) = pq_connect_start C s (db w) in (Inr (), w\<lparr>db := d, m_conn := valid\<rparr>))
     (bnd (gets m_conn) (\<lambda>valid. if \<not> valid then throw Bad_alloc
       else sq set_up_notice_handlers (bnd (gets (pq_bad C \<circ> db)) (\<lambda>bad. whn bad (sq (finish C) (throw Broken_connection)))))))"

definition poll_connect :: "'db libpq \<Rightarrow> 'db opener \<Rightarrow> ('db connection, bool \<times> bool) prog" where
  "poll_connect pq C = bnd (\<lambda>w. let (p, d) = pq_connect_poll C (db w) in (Inr p, w\<lparr>db := d\<rparr>)) (\<lambda>p. case p of
       Poll_failed \<Rightarrow> throw Broken_connection
     | Poll_reading \<Rightarrow> ret (True, False)
     | Poll_writing \<Rightarrow> ret (False, True)
     | Poll_ok \<Rightarrow> bnd (is_open pq) (\<lambda>op. if \<not> op then throw Broken_connection else ret (False, False))
     | Poll_active \<Rightarrow> throw (Internal_error (''Nonblocking connection poll returned obsolete '' @ [CHR 0x27] @ ''active'' @ [CHR 0x27] @ '' state.''))
     | Poll_other \<Rightarrow> throw (Internal_error ''Nonblocking connection poll returned unknown value.''))"

text \<open>
  The object \<open>connecting\<close> has the connection and the two directions in which its user has to wait.
\<close>

record 'db connecting = "'db connection" +
  m_reading :: bool
  m_writing :: bool

definition wait_to_read :: "'db connecting \<Rightarrow> bool" where "wait_to_read = m_reading"
definition wait_to_write :: "'db connecting \<Rightarrow> bool" where "wait_to_write = m_writing"
definition connecting_done :: "'db connecting \<Rightarrow> bool" where "connecting_done w \<longleftrightarrow> \<not> m_reading w \<and> \<not> m_writing w"

definition on_connection :: "('db connection, 'a) prog \<Rightarrow> ('db connecting, 'a) prog" where
  "on_connection m = (\<lambda>w. let (r, c) = m (connection.truncate w) in (r, connection.extend c (connecting.fields (m_reading w) (m_writing w))))"

definition connecting_new :: "'db opener \<Rightarrow> string \<Rightarrow> ('db connecting, unit) prog" where
  "connecting_new C s = sq (on_connection (connect_nonblocking C s)) (modify (\<lambda>w. w\<lparr>m_reading := False, m_writing := True\<rparr>))"

definition connecting_process :: "'db libpq \<Rightarrow> 'db opener \<Rightarrow> ('db connecting, unit) prog" where
  "connecting_process pq C = bnd (on_connection (poll_connect pq C)) (\<lambda>(reading, writing).
     modify (\<lambda>w. w\<lparr>m_reading := reading, m_writing := writing\<rparr>))"

text \<open>\<open>produce\<close> gives the connection away; the move cannot fail, since the connection has no transaction and no receivers.\<close>

definition produce :: "'db libpq \<Rightarrow> 'db opener \<Rightarrow> ('db connecting, 'db connection) prog" where
  "produce pq C = bnd (gets connecting_done) (\<lambda>d.
     if \<not> d then throw (Usage_error ''Tried to produce a nonblocking connection before it was done.'')
     else sq (on_connection (complete_connection pq C)) (\<lambda>w. (Inr (connection.truncate w), w\<lparr>m_conn := False, m_notice_waiters := None, m_handlers := []\<rparr>)))"

subsection \<open>Moving and closing\<close>

definition check_movable :: "'db connection \<Rightarrow> exn + unit" where
  "check_movable rhs = (if m_trans rhs \<noteq> None then Inl (Usage_error ''Moving a connection with a transaction open.'')
     else if m_receivers rhs \<noteq> [] then Inl (Usage_error ''Moving a connection with notification receivers registered.'')
     else Inr ())"

definition check_overwritable :: "'db connection \<Rightarrow> exn + unit" where
  "check_overwritable w = (if m_trans w \<noteq> None then Inl (Usage_error ''Moving a connection onto one with a transaction open.'')
     else if m_receivers w \<noteq> [] then Inl (Usage_error ''Moving a connection onto one with notification receivers registered.'')
     else Inr ())"

text \<open>
  The move constructor: the new object, and what it leaves of the old one.  The members are moved before the test.  A map that has been
  moved from is taken to be empty.
\<close>

definition move_connection :: "'db connection \<Rightarrow> (exn + 'db connection) \<times> 'db connection" where
  "move_connection rhs = (let left = rhs\<lparr>m_notice_waiters := None, m_handlers := []\<rparr> in
     case check_movable rhs of
       Inl e \<Rightarrow> (Inl e, left)
     | Inr u \<Rightarrow> (Inr (rhs\<lparr>m_receivers := []\<rparr>), left\<lparr>m_conn := False\<rparr>))"

text \<open>Unregistering an error handler takes it off the list; its pointer to the connection is not modelled.\<close>

definition conn_close :: "'db opener \<Rightarrow> 'db callbacks \<Rightarrow> ('db connection, unit) prog" where
  "conn_close C cb = bnd (gets m_conn) (\<lambda>valid. whn valid
     (sq (bnd (gets (\<lambda>w. map_option (\<lambda>i. m_name (txs w ! i)) (m_trans w))) (\<lambda>t. case t of None \<Rightarrow> ret ()
            | Some n \<Rightarrow> conn_notice cb (''Closing connection while '' @ describe_object ''transaction'' n @ '' is still open.'' @ [CHR 0x0A])))
     (sq (bnd (gets m_receivers) (\<lambda>rs. whn (rs \<noteq> [])
            (sq (conn_notice cb (''Closing connection with outstanding receivers.'' @ [CHR 0x0A])) (modify (\<lambda>w. w\<lparr>m_receivers := []\<rparr>)))))
     (sq (bnd (gets m_notice_waiters) (\<lambda>ws. whn (ws \<noteq> None)
            (bnd get_errorhandlers (\<lambda>hs. for_each (rev hs) unregister_errorhandler))))
         (finish C)))))"

text \<open>Move assignment, over the object \<open>rhs\<close>: the outcome and the object assigned to, and what is left of \<open>rhs\<close>.\<close>

definition assign_connection :: "'db opener \<Rightarrow> 'db callbacks \<Rightarrow> 'db connection \<Rightarrow> 'db connection \<Rightarrow> (stop + unit) \<times> 'db connection \<times> 'db connection" where
  "assign_connection C cb w rhs = (case check_overwritable w of
       Inl e \<Rightarrow> (Inl (Throw e), w, rhs)
     | Inr u \<Rightarrow> (case check_movable rhs of
           Inl e \<Rightarrow> (Inl (Throw e), w, rhs)
         | Inr u \<Rightarrow> (case conn_close C cb w of
               (Inl s, w') \<Rightarrow> (Inl s, w', rhs)
             | (Inr u, w') \<Rightarrow> (Inr (), w'\<lparr>db := db rhs, m_conn := m_conn rhs, m_unique_id := m_unique_id rhs,
                 m_notice_waiters := m_notice_waiters rhs, m_handlers := m_handlers rhs\<rparr>,
                 rhs\<lparr>m_conn := False, m_notice_waiters := None, m_handlers := []\<rparr>))))"

subsection \<open>Settings\<close>

definition connection_text :: "(string \<Rightarrow> string option) \<Rightarrow> 'db opener \<Rightarrow> ('db connection, string) prog" where
  "connection_text getenv C = bnd (gets m_conn) (\<lambda>valid.
     if \<not> valid then throw (Usage_error (''Can'' @ [CHR 0x27] @ ''t get connection string: connection is not open.''))
     else bnd (gets (pq_conninfo C \<circ> db)) (\<lambda>ps. case ps of None \<Rightarrow> throw Bad_alloc | Some opts \<Rightarrow> ret (options_string getenv opts)))"

definition set_variable :: "nat \<Rightarrow> 'db libpq \<Rightarrow> 'db quoter \<Rightarrow> 'db notifier \<Rightarrow> 'db callbacks \<Rightarrow> string \<Rightarrow> string \<Rightarrow> ('db connection, unit) prog" where
  "set_variable m pq Q N cb var v = bnd (quote_name pq Q var) (\<lambda>q. sq (exec_notified m pq N cb (''SET '' @ q @ ''='' @ v)) (ret ()))"

text \<open>
  Reading a variable: \<open>get_var\<close> wants one field that is not null, \<open>get_variable\<close> takes the first field of the first row, and a null as the empty text.
\<close>

definition get_var :: "nat \<Rightarrow> 'db libpq \<Rightarrow> 'db quoter \<Rightarrow> 'db notifier \<Rightarrow> 'db callbacks \<Rightarrow> string \<Rightarrow> ('db connection, string) prog" where
  "get_var m pq Q N cb var = bnd (quote_name pq Q var) (\<lambda>q. bnd (exec_notified m pq N cb (''SHOW '' @ q)) (\<lambda>r.
     bnd (lift_exn (one_field (''SHOW '' @ q) r)) (\<lambda>c. case c of
       None \<Rightarrow> throw (Conversion_error ''Attempted to convert SQL null to std::string.'') | Some v \<Rightarrow> ret v)))"

definition get_variable :: "nat \<Rightarrow> 'db libpq \<Rightarrow> 'db quoter \<Rightarrow> 'db notifier \<Rightarrow> 'db callbacks \<Rightarrow> string \<Rightarrow> ('db connection, string) prog" where
  "get_variable m pq Q N cb var = bnd (quote_name pq Q var) (\<lambda>q. bnd (exec_notified m pq N cb (''SHOW '' @ q)) (\<lambda>r. case pg_rows r of
       [] \<Rightarrow> throw (Range_error ''Row number out of range.'')
     | row # _ \<Rightarrow> (case row of
           [] \<Rightarrow> throw (Range_error ''Column index out of range: 0 in a result of 0 column(s).'')
         | c # _ \<Rightarrow> ret (case c of None \<Rightarrow> [] | Some v \<Rightarrow> v))))"

text \<open>
  What is only passed on to libpq or to the system: tracing, the verbosity of messages, the encryption of a password (\<open>None\<close> is a null pointer, of
  which a string is made), and the flags of the socket, whose reading and writing may fail; \<open>nonblock\<close> is \<open>O_NONBLOCK\<close>.
\<close>

record 'db switches =
  pq_trace :: "nat \<Rightarrow> 'db \<Rightarrow> 'db"
  pq_untrace :: "'db \<Rightarrow> 'db"
  pq_verbosity :: "int \<Rightarrow> 'db \<Rightarrow> 'db"
  pq_encrypt :: "string \<Rightarrow> string \<Rightarrow> string option \<Rightarrow> 'db \<Rightarrow> string option"
  sys_getfl :: "'db \<Rightarrow> 32 word option"
  sys_setfl :: "32 word \<Rightarrow> 'db \<Rightarrow> bool \<times> 'db"
  nonblock :: "32 word"

definition conn_trace :: "'db switches \<Rightarrow> nat option \<Rightarrow> ('db connection, unit) prog" where
  "conn_trace X out = bnd (gets m_conn) (\<lambda>valid. whn valid (modify (\<lambda>w. w\<lparr>db := (case out of None \<Rightarrow> pq_untrace X | Some f \<Rightarrow> pq_trace X f) (db w)\<rparr>)))"

definition set_verbosity :: "'db switches \<Rightarrow> int \<Rightarrow> ('db connection, unit) prog" where
  "set_verbosity X verbosity = modify (\<lambda>w. w\<lparr>db := pq_verbosity X verbosity (db w)\<rparr>)"

definition encrypt_password :: "'db switches \<Rightarrow> string \<Rightarrow> string \<Rightarrow> string option \<Rightarrow> ('db connection, string) prog" where
  "encrypt_password X user password algorithm = bnd (gets (\<lambda>w. pq_encrypt X password user algorithm (db w))) (\<lambda>buf. case buf of
       None \<Rightarrow> stop_with (Undefined Index_out_of_range) | Some s \<Rightarrow> ret s)"

definition set_blocking :: "'db switches \<Rightarrow> bool \<Rightarrow> ('db connection, unit) prog" where
  "set_blocking X block = bnd (gets (sys_getfl X \<circ> db)) (\<lambda>fl. case fl of
       None \<Rightarrow> throw Broken_connection
     | Some flags \<Rightarrow> (\<lambda>w. let (ok, d) = sys_setfl X (if block then flags AND NOT (nonblock X) else flags OR nonblock X) (db w) in
         ((if ok then Inr () else Inl (Throw Broken_connection)), w\<lparr>db := d\<rparr>)))"

definition is_johab :: "string \<Rightarrow> bool" where
  "is_johab e \<longleftrightarrow> length e = 5 \<and> list_all2 (\<lambda>c cs. c \<in> set cs) e [''Jj'', ''Oo'', ''Hh'', ''Aa'', ''Bb'']"

text \<open>\<open>set_enc\<close> is \<open>PQsetClientEncoding\<close>.\<close>

definition set_client_encoding :: "'db libpq \<Rightarrow> (string \<Rightarrow> 'db \<Rightarrow> int \<times> 'db) \<Rightarrow> string option \<Rightarrow> ('db connection, unit) prog" where
  "set_client_encoding pq set_enc encoding = (case encoding of
       None \<Rightarrow> throw (Argument_error ''No encoding string passed to set_client_encoding.'')
     | Some e \<Rightarrow> if e = [] then throw (Argument_error ''No encoding string passed to set_client_encoding.'')
         else if is_johab e then throw (Argument_error ''JOHAB encoding is not supported.'')
         else bnd (\<lambda>w. let (r, d) = set_enc e (db w) in (Inr r, w\<lparr>db := d\<rparr>)) (\<lambda>r.
           if r = 0 then ret ()
           else if r = -1 then bnd (is_open pq) (\<lambda>op. throw (if op
             then Failure (''Setting client encoding failed ('' @ [CHR 0x27] @ e @ [CHR 0x27] @ '').'') else Broken_connection))
           else throw (Internal_error (''Unexpected result from PQsetClientEncoding: '' @ int_to_string r))))"

end
