(* ===== verification/Connection_Spec.thy ===== *)
theory Connection_Spec
  imports Pqxx_Connection
begin

text \<open>
  What a connection promises: how long it waits, who is called for a notification, which channels the server is asked for, and
  what is left when it cannot be opened or moved.
\<close>

subsection \<open>Waiting\<close>

definition quiet :: "'db libpq \<Rightarrow> 'db notifier \<Rightarrow> 'db \<Rightarrow> bool" where
  "quiet pq N d \<longleftrightarrow> pq_consume pq d = (True, d) \<and> pq_notifies N d = (None, d)"

lemma get_notifs_quiet:
  assumes "quiet pq N (db w)"
  shows "conn_get_notifs (Suc m) pq N cb w = (Inr 0, w)"
  using assms by (simp add: quiet_def conn_get_notifs_def get_notifs_def get_notif_def prog_simps)

lemma to_milli_eq:
  "to_milli s us = (let ms = (uint s * 1000 + uint us div 1000) mod 2 ^ 32 in
     check_cast ''unsigned int'' ''int'' (- (2 ^ 31)) (2 ^ 31 - 1) ms ''Wait timeout value out of bounds.'')"
proof -
  have "uint (s * 1000 + us div 1000) = (uint s * 1000 + uint us div 1000) mod 2 ^ 32"
    by (simp add: uint_word_ariths uint_div_distrib mod_simps)
  then show ?thesis by (simp add: to_milli_def Let_def)
qed

text \<open>
  C14.  How long \<open>await_notification\<close> waits: for the milliseconds that are asked for as long as their number is below \<open>2 ^ 31\<close>, and in general
  for that number modulo \<open>2 ^ 32\<close>; the test of the range comes after the multiplication has wrapped.  So a wait of 4294968 seconds
  ends after 704 milliseconds.
\<close>

theorem await_notification_waits:
  assumes "0 \<le> s" "s < 2 ^ 32" "0 \<le> us" "us < 2 ^ 32" "quiet pq N (db w)"
    and "sys_poll N True False ((s * 1000 + us div 1000) mod 2 ^ 32) (db w) = (None, d)" "quiet pq N d"
  shows "await_for s us (Suc m) pq N cb w =
    (if (s * 1000 + us div 1000) mod 2 ^ 32 < 2 ^ 31 then (Inr 0, w\<lparr>db := d\<rparr>)
     else (Inl (Throw (Range_error (''Overflow casting '' @ int_to_string ((s * 1000 + us div 1000) mod 2 ^ 32)
       @ '' from unsigned int to int: Wait timeout value out of bounds.''))), w))"
proof -
  have u: "uint (of_int s :: 32 word) = s" "uint (of_int us :: 32 word) = us" using assms(1-4) by (simp_all add: uint_word_of_int)
  have c: "to_unsigned s t = Inr (of_int s)" "to_unsigned us t = Inr (of_int us)" for t
    using assms(1-4) by (simp_all add: to_unsigned_def check_cast_def)
  have "to_milli (of_int s) (of_int us) = (let ms = (s * 1000 + us div 1000) mod 2 ^ 32 in
      if ms < 2 ^ 31 then Inr ms else Inl (Range_error (''Overflow casting '' @ int_to_string ms
        @ '' from unsigned int to int: Wait timeout value out of bounds.'')))"
    unfolding to_milli_eq u by (auto simp: Let_def check_cast_def)
  then show ?thesis using assms(6) get_notifs_quiet[OF assms(5)] get_notifs_quiet[of pq N "w\<lparr>db := d\<rparr>"] assms(7)
    by (simp add: await_for_def wait_fd_def c lift_exn_def prog_simps Let_def)
qed

subsection \<open>Handlers\<close>

text \<open>The map of handlers as a list in the order of its keys.\<close>

definition put_handler :: "string \<Rightarrow> nat \<Rightarrow> (string \<times> nat) list \<Rightarrow> (string \<times> nat) list" where
  "put_handler ch h hs = (let pos = dropWhile (\<lambda>e. fst e < ch) hs in
     takeWhile (\<lambda>e. fst e < ch) hs @ (ch, h) # (if pos \<noteq> [] \<and> fst (hd pos) = ch then tl pos else pos))"

definition cut_handler :: "string \<Rightarrow> (string \<times> nat) list \<Rightarrow> (string \<times> nat) list" where
  "cut_handler ch hs = takeWhile (\<lambda>e. fst e < ch) hs @ tl (dropWhile (\<lambda>e. fst e < ch) hs)"

definition in_order_of_keys :: "(string \<times> nat) list \<Rightarrow> bool" where
  "in_order_of_keys hs \<longleftrightarrow> sorted_wrt (<) (map fst hs)"

lemma in_order_simps [simp]:
  "in_order_of_keys []" "in_order_of_keys (e # hs) \<longleftrightarrow> in_order_of_keys hs \<and> (\<forall>k\<in>fst ` set hs. fst e < k)"
  by (auto simp: in_order_of_keys_def)

lemma map_of_later: "\<forall>k\<in>fst ` set hs. (ch :: string) < k \<Longrightarrow> map_of hs ch = None"
  by (cases "map_of hs ch") (auto dest!: map_of_SomeD bspec[of _ _ ch] intro: image_eqI[of _ _ "(ch, _)"])

lemma put_handler_Cons:
  "put_handler ch h (e # hs) = (if fst e < ch then e # put_handler ch h hs else if fst e = ch then (ch, h) # hs else (ch, h) # e # hs)"
  by (simp add: put_handler_def Let_def)

lemma keys_put: "fst ` set (put_handler ch h hs) = insert ch (fst ` set hs)"
  by (induction hs) (simp add: put_handler_def, auto simp: put_handler_Cons)

lemma put_handler_map:
  assumes "in_order_of_keys hs"
  shows "in_order_of_keys (put_handler ch h hs) \<and> map_of (put_handler ch h hs) = (map_of hs)(ch \<mapsto> h)"
  using assms
proof (induction hs)
  case (Cons e hs)
  then show ?case by (cases e) (auto simp: put_handler_Cons keys_put fun_eq_iff)
qed (simp add: put_handler_def)

text \<open>What is cut is the handler of the first key that is not below the channel.\<close>

definition key_from :: "string \<Rightarrow> (string \<times> nat) list \<Rightarrow> string option" where
  "key_from ch hs = find (\<lambda>k. \<not> k < ch) (map fst hs)"

lemma cut_handler_Cons: "cut_handler ch (e # hs) = (if fst e < ch then e # cut_handler ch hs else hs)"
  by (simp add: cut_handler_def)

lemma key_from_in: "key_from ch hs = Some k \<Longrightarrow> k \<in> fst ` set hs"
  by (auto simp: key_from_def find_Some_iff image_iff)

lemma cut_handler_keys: "in_order_of_keys hs \<Longrightarrow> key_from ch hs = Some k \<Longrightarrow> fst ` set (cut_handler ch hs) = fst ` set hs - {k}"
proof (induction hs)
  case (Cons e hs)
  then show ?case by (cases "fst e < ch") (use key_from_in[of ch hs k] in \<open>auto simp: cut_handler_Cons key_from_def\<close>)
qed (simp add: key_from_def)

lemma cut_handler_map:
  assumes "in_order_of_keys hs" "key_from ch hs = Some k"
  shows "in_order_of_keys (cut_handler ch hs) \<and> map_of (cut_handler ch hs) = (map_of hs)(k := None)"
  using assms
proof (induction hs)
  case (Cons e hs)
  show ?case
  proof (cases "fst e < ch")
    case True
    then have k: "key_from ch hs = Some k" using Cons.prems(2) by (simp add: key_from_def)
    with Cons.prems(1) have "fst e < k" using key_from_in[of ch hs k] by auto
    with Cons True k show ?thesis by (cases e) (auto simp: cut_handler_Cons cut_handler_keys fun_eq_iff)
  next
    case False
    then have "k = fst e" using Cons.prems(2) by (simp add: key_from_def)
    with False Cons.prems(1) show ?thesis by (cases e) (auto simp: cut_handler_Cons map_of_later fun_eq_iff)
  qed
qed (simp add: key_from_def)

lemma key_from_drop: "key_from ch hs = (let pos = dropWhile (\<lambda>e. fst e < ch) hs in if pos = [] then None else Some (fst (hd pos)))"
  by (induction hs) (auto simp: key_from_def Let_def)

lemma key_from_self: "in_order_of_keys hs \<Longrightarrow> ch \<in> fst ` set hs \<Longrightarrow> key_from ch hs = Some ch"
  by (induction hs) (auto simp: key_from_def)

subsection \<open>A server that is told what to listen to\<close>

text \<open>
  \<open>listens\<close>: the names of a set are quoted without failure, \<open>LISTEN\<close> and \<open>UNLISTEN\<close> of them are executed and change the set of
  channels that the server notifies, and no notifications wait.
\<close>

definition performs :: "'db libpq \<Rightarrow> 'db notifier \<Rightarrow> string \<Rightarrow> 'db \<Rightarrow> ('db \<Rightarrow> bool) \<Rightarrow> bool" where
  "performs pq N cmd d P \<longleftrightarrow> (\<exists>r d'. pq_exec pq (c_str cmd) d = (Some r, d') \<and> check_status r = Inr () \<and> pg_rows r = [] \<and> quiet pq N d' \<and> P d')"

definition listens :: "'db libpq \<Rightarrow> 'db quoter \<Rightarrow> 'db notifier \<Rightarrow> string set \<Rightarrow> ('db \<Rightarrow> string set) \<Rightarrow> bool" where
  "listens pq Q N names listening \<longleftrightarrow> (\<forall>ch\<in>names. \<forall>d. \<exists>q. pq_escape_identifier Q ch d = Some q
     \<and> performs pq N (''LISTEN '' @ q) d (\<lambda>d'. listening d' = insert ch (listening d))
     \<and> performs pq N (''UNLISTEN '' @ q) d (\<lambda>d'. listening d' = listening d - {ch}))"

lemma exec_notified_ok:
  assumes "encoded_in pq enc" "performs pq N cmd (db w) P"
  shows "\<exists>r d. exec_notified (Suc m) pq N cb cmd w = (Inr r, w\<lparr>db := d\<rparr>) \<and> pg_rows r = [] \<and> P d"
proof -
  obtain r d where d: "pq_exec pq (c_str cmd) (db w) = (Some r, d)" "check_status r = Inr ()" "pg_rows r = []" "quiet pq N d" "P d"
    using assms(2) unfolding performs_def by blast
  then show ?thesis
    using get_notifs_quiet[of pq N "w\<lparr>db := d\<rparr>"] make_result_ok[OF assms(1) d(2), of "w\<lparr>db := d\<rparr>"]
    by (auto simp: exec_notified_def prog_simps intro!: exI[of _ d])
qed

lemma quote_name_ok: "pq_escape_identifier Q ch (db w) = Some q \<Longrightarrow> quote_name pq Q ch w = (Inr q, w)"
  by (simp add: quote_name_def prog_simps)

lemma listen_ok:
  assumes "encoded_in pq enc" "listens pq Q N names listening" "ch \<in> names" "m_trans w = None"
  shows "\<exists>d. conn_listen (Suc m) pq Q N cb ch handler w = (Inr (), case handler of
        Some h \<Rightarrow> w\<lparr>db := d, m_handlers := put_handler ch h (m_handlers w)\<rparr>
      | None \<Rightarrow> if key_from ch (m_handlers w) = None then w else w\<lparr>db := d, m_handlers := cut_handler ch (m_handlers w)\<rparr>)
    \<and> (case handler of Some h \<Rightarrow> listening d = (if key_from ch (m_handlers w) = Some ch then listening (db w) else insert ch (listening (db w)))
       | None \<Rightarrow> key_from ch (m_handlers w) \<noteq> None \<longrightarrow> listening d = listening (db w) - {ch})"
proof -
  obtain q where q: "pq_escape_identifier Q ch (db w) = Some q"
    "performs pq N (''LISTEN '' @ q) (db w) (\<lambda>d'. listening d' = insert ch (listening (db w)))"
    "performs pq N (''UNLISTEN '' @ q) (db w) (\<lambda>d'. listening d' = listening (db w) - {ch})"
    using assms(2,3) unfolding listens_def by blast
  obtain r1 d1 where 1: "exec_notified (Suc m) pq N cb (''LISTEN '' @ q) w = (Inr r1, w\<lparr>db := d1\<rparr>)" "pg_rows r1 = []"
    "listening d1 = insert ch (listening (db w))" using exec_notified_ok[OF assms(1) q(2)] by blast
  obtain r2 d2 where 2: "exec_notified (Suc m) pq N cb (''UNLISTEN '' @ q) w = (Inr r2, w\<lparr>db := d2\<rparr>)" "pg_rows r2 = []"
    "listening d2 = listening (db w) - {ch}" using exec_notified_ok[OF assms(1) q(3)] by blast
  let ?pos = "dropWhile (\<lambda>e. fst e < ch) (m_handlers w)"
  have k: "key_from ch (m_handlers w) = (if ?pos = [] then None else Some (fst (hd ?pos)))"
    by (simp add: key_from_drop Let_def)
  note s = conn_listen_def listen_loc_def put_handler_def cut_handler_def quote_name_ok[OF q(1)] lift_exn_def prog_simps Let_def
  show ?thesis
  proof (cases handler)
    case None
    then show ?thesis using assms(4) 2 k by (cases "?pos = []") (auto simp: s intro!: exI[of _ d2])
  next
    case (Some h)
    show ?thesis
    proof (cases "?pos \<noteq> [] \<and> fst (hd ?pos) = ch")
      case True
      then show ?thesis using assms(4) k Some by (auto simp: s intro!: exI[of _ "db w"])
    next
      case False
      then show ?thesis using assms(4) 1 k Some by (auto simp: s intro!: exI[of _ d1])
    qed
  qed
qed

text \<open>
  What \<open>listen\<close> does to the handlers of a connection, which are kept in the order of their channels.  A handler takes the place of the
  one for its channel, or joins the others after a \<open>LISTEN\<close>.  The empty function removes the handler of the first channel that is not below the one
  that is given: for a channel with a handler this is its own; for another channel it is the next one's, which then hears nothing
  although the server goes on to notify its channel.
\<close>

theorem listen_changes_handlers:
  assumes "encoded_in pq enc" "listens pq Q N names listening" "ch \<in> names" "m_trans w = None" "in_order_of_keys (m_handlers w)"
  shows "\<exists>w'. conn_listen (Suc m) pq Q N cb ch handler w = (Inr (), w') \<and> in_order_of_keys (m_handlers w')
    \<and> (case handler of
         Some h \<Rightarrow> map_of (m_handlers w') = (map_of (m_handlers w))(ch \<mapsto> h)
           \<and> listening (db w') = (if ch \<in> fst ` set (m_handlers w) then listening (db w) else insert ch (listening (db w)))
       | None \<Rightarrow> (case find (\<lambda>k. ch \<le> k) (map fst (m_handlers w)) of
           None \<Rightarrow> w' = w
         | Some k \<Rightarrow> map_of (m_handlers w') = (map_of (m_handlers w))(k := None) \<and> listening (db w') = listening (db w) - {ch}))"
proof -
  have f: "find (\<lambda>k. ch \<le> k) (map fst (m_handlers w)) = key_from ch (m_handlers w)" by (simp add: key_from_def not_less)
  have k: "key_from ch (m_handlers w) = Some ch \<longleftrightarrow> ch \<in> fst ` set (m_handlers w)"
    using key_from_self[OF assms(5), of ch] key_from_in[of ch "m_handlers w" ch] by blast
  define S where "S = fst ` set (m_handlers w)"
  note p = put_handler_map[OF assms(5), of ch]
  note c = cut_handler_map[OF assms(5), of ch]
  show ?thesis
    using listen_ok[OF assms(1-4), of m cb handler] p c assms(5) unfolding f k S_def[symmetric]
    by (cases handler; cases "key_from ch (m_handlers w)") auto
qed

subsection \<open>Receivers and handlers together\<close>

lemma filter_key: "k \<in> fst ` set rs \<longleftrightarrow> 0 < length (filter (\<lambda>cr. fst cr = k) rs)"
  by (auto simp: filter_empty_conv image_iff)

lemma remove_receiver_keys:
  assumes "(ch, r) \<in> set rs"
  shows "fst ` set (remove1 (ch, r) rs) = (if length (filter (\<lambda>cr. fst cr = ch) rs) = 1 then fst ` set rs - {ch} else fst ` set rs)"
proof -
  have l: "length (filter (\<lambda>cr. fst cr = k) (remove1 (ch, r) rs)) = length (filter (\<lambda>cr. fst cr = k) rs) - (if k = ch then 1 else 0)" for k
    using assms by (auto simp: filter_remove1 length_remove1)
  have "0 < length (filter (\<lambda>cr. fst cr = ch) rs)" using assms by (auto simp: filter_empty_conv intro!: bexI[of _ "(ch, r)"])
  then show ?thesis by (auto simp: set_eq_iff filter_key l simp del: length_greater_0_conv split: if_splits)
qed

definition put_receiver :: "string \<Rightarrow> nat \<Rightarrow> (string \<times> nat) list \<Rightarrow> (string \<times> nat) list" where
  "put_receiver ch r rs = takeWhile (\<lambda>cr. fst cr < ch) rs @ [(ch, r)] @ dropWhile (\<lambda>cr. fst cr < ch) rs"

lemma add_receiver_keys: "fst ` set (put_receiver ch r rs) = insert ch (fst ` set rs)"
proof -
  have "set rs = set (takeWhile (\<lambda>cr. fst cr < ch) rs) \<union> set (dropWhile (\<lambda>cr. fst cr < ch) rs)"
    by (metis set_append takeWhile_dropWhile_id)
  then show ?thesis by (auto simp: image_Un put_receiver_def)
qed

datatype sub_call = Listen string nat | Cancel string | Add string nat | Remove string nat

fun sub_channel :: "sub_call \<Rightarrow> string" where
  "sub_channel (Listen ch h) = ch" | "sub_channel (Cancel ch) = ch" | "sub_channel (Add ch r) = ch" | "sub_channel (Remove ch r) = ch"

fun run_sub :: "nat \<Rightarrow> 'db libpq \<Rightarrow> 'db quoter \<Rightarrow> 'db notifier \<Rightarrow> 'db callbacks \<Rightarrow> sub_call \<Rightarrow> ('db connection, unit) prog" where
  "run_sub m pq Q N cb (Listen ch h) = conn_listen m pq Q N cb ch (Some h)"
| "run_sub m pq Q N cb (Cancel ch) = conn_listen m pq Q N cb ch None"
| "run_sub m pq Q N cb (Add ch r) = add_receiver pq Q ch (Some r)"
| "run_sub m pq Q N cb (Remove ch r) = remove_receiver m pq Q N cb ch (Some r)"

text \<open>An orderly call leaves no channel to both mechanisms and cancels only what is there.\<close>

fun orderly :: "'db connection \<Rightarrow> sub_call \<Rightarrow> bool" where
  "orderly w (Listen ch h) = (ch \<notin> fst ` set (m_receivers w))"
| "orderly w (Cancel ch) = (ch \<in> fst ` set (m_handlers w))"
| "orderly w (Add ch r) = (ch \<notin> fst ` set (m_handlers w))"
| "orderly w (Remove ch r) = True"

definition subscribed :: "('db \<Rightarrow> string set) \<Rightarrow> 'db connection \<Rightarrow> bool" where
  "subscribed listening w \<longleftrightarrow> m_trans w = None \<and> in_order_of_keys (m_handlers w)
     \<and> fst ` set (m_handlers w) \<inter> fst ` set (m_receivers w) = {}
     \<and> listening (db w) = fst ` set (m_handlers w) \<union> fst ` set (m_receivers w)"

lemma add_receiver_ok:
  assumes "encoded_in pq enc" "listens pq Q N names listening" "ch \<in> names"
  shows "\<exists>d. add_receiver pq Q ch (Some r) w = (Inr (), w\<lparr>db := d, m_receivers := put_receiver ch r (m_receivers w)\<rparr>)
    \<and> listening d = (if ch \<in> fst ` set (m_receivers w) then listening (db w) else insert ch (listening (db w)))"
proof -
  obtain q where q: "pq_escape_identifier Q ch (db w) = Some q"
    "performs pq N (''LISTEN '' @ q) (db w) (\<lambda>d'. listening d' = insert ch (listening (db w)))"
    using assms(2,3) unfolding listens_def by blast
  then obtain p d where d: "pq_exec pq (c_str (''LISTEN '' @ q)) (db w) = (Some p, d)" "check_status p = Inr ()"
    "listening d = insert ch (listening (db w))" unfolding performs_def by blast
  define S where "S = fst ` set (m_receivers w)"
  note s = add_receiver_def put_receiver_def quote_name_ok[OF q(1)] prog_simps
  show ?thesis
  proof (cases "ch \<in> S")
    case True
    then show ?thesis unfolding S_def[symmetric] by (auto simp: s S_def[symmetric] intro!: exI[of _ "db w"])
  next
    case False
    then show ?thesis using d(1,3) make_result_ok[OF assms(1) d(2), of "w\<lparr>db := d\<rparr>"]
      unfolding S_def[symmetric] by (auto simp: s S_def[symmetric] intro!: exI[of _ d])
  qed
qed

lemma remove_receiver_ok:
  assumes "encoded_in pq enc" "listens pq Q N names listening" "ch \<in> names" "(ch, r) \<in> set (m_receivers w)"
  shows "\<exists>d. remove_receiver (Suc m) pq Q N cb ch (Some r) w = (Inr (), w\<lparr>db := d, m_receivers := remove1 (ch, r) (m_receivers w)\<rparr>)
    \<and> listening d = (if length (filter (\<lambda>cr. fst cr = ch) (m_receivers w)) = 1 then listening (db w) - {ch} else listening (db w))"
proof -
  let ?w = "w\<lparr>m_receivers := remove1 (ch, r) (m_receivers w)\<rparr>"
  have b: "db ?w = db w" by simp
  obtain q where q: "pq_escape_identifier Q ch (db ?w) = Some q"
    "performs pq N (''UNLISTEN '' @ q) (db ?w) (\<lambda>d'. listening d' = listening (db w) - {ch})"
    using assms(2,3) unfolding listens_def b by blast
  obtain p d where d: "exec_notified (Suc m) pq N cb (''UNLISTEN '' @ q) ?w = (Inr p, ?w\<lparr>db := d\<rparr>)" "listening d = listening (db w) - {ch}"
    using exec_notified_ok[OF assms(1) q(2)] by blast
  define gone where "gone \<longleftrightarrow> length (filter (\<lambda>cr. fst cr = ch) (m_receivers w)) = 1"
  have r: "remove_receiver (Suc m) pq Q N cb ch (Some r) w = try_catch (\<lambda>_. whn gone (bnd (quote_name pq Q ch)
      (\<lambda>q. sq (exec_notified (Suc m) pq N cb (''UNLISTEN '' @ q)) (ret ()))) ?w) (\<lambda>e. conn_notice cb (exn_what e)) w"
    using assms(4) by (simp add: remove_receiver_def try_catch_def prog_simps gone_def Let_def)
  show ?thesis
  proof (cases gone)
    case True
    then show ?thesis unfolding r gone_def[symmetric] using d
      by (intro exI[of _ d]) (simp add: try_catch_def prog_simps quote_name_ok[OF q(1)])
  next
    case False
    then show ?thesis unfolding r gone_def[symmetric]
      by (intro exI[of _ "db w"]) (simp add: try_catch_def prog_simps)
  qed
qed

lemma subscribed_step:
  assumes "encoded_in pq enc" "listens pq Q N names listening" "sub_channel c \<in> names" "subscribed listening w" "orderly w c"
  shows "\<exists>w'. run_sub (Suc m) pq Q N cb c w = (Inr (), w') \<and> subscribed listening w'"
proof -
  have t: "m_trans w = None" "in_order_of_keys (m_handlers w)" "fst ` set (m_handlers w) \<inter> fst ` set (m_receivers w) = {}"
    "listening (db w) = fst ` set (m_handlers w) \<union> fst ` set (m_receivers w)" using assms(4) by (simp_all add: subscribed_def)
  note k = put_handler_map[OF t(2)] cut_handler_map[OF t(2)] cut_handler_keys[OF t(2)] keys_put key_from_self[OF t(2)]
  show ?thesis
  proof (cases c)
    case (Listen ch h)
    then have "key_from ch (m_handlers w) = Some ch \<longleftrightarrow> ch \<in> fst ` set (m_handlers w)" "ch \<notin> fst ` set (m_receivers w)"
      using k(5) key_from_in assms(5) by auto
    with Listen show ?thesis using listen_ok[OF assms(1,2) _ t(1), of ch m cb "Some h"] assms(3) t k(1)[of ch h] k(4)[of ch h]
      by (auto simp: subscribed_def)
  next
    case (Cancel ch)
    then have "key_from ch (m_handlers w) = Some ch" "ch \<notin> fst ` set (m_receivers w)" using k(5) assms(5) t(3) by auto
    moreover from this have "(fst ` set (m_handlers w) \<union> fst ` set (m_receivers w)) - {ch} = (fst ` set (m_handlers w) - {ch}) \<union> fst ` set (m_receivers w)"
      "(fst ` set (m_handlers w) - {ch}) \<inter> fst ` set (m_receivers w) = {}" using t(3) by blast+
    ultimately show ?thesis using Cancel listen_ok[OF assms(1,2) _ t(1), of ch m cb None] assms(3) t(1,4) k(2)[of ch ch] k(3)[of ch ch]
      by (simp add: subscribed_def) (elim exE conjE, intro exI conjI, assumption, simp_all)
  next
    case (Add ch r)
    with add_receiver_ok[OF assms(1,2), of ch r w] obtain d where d: "run_sub (Suc m) pq Q N cb c w = (Inr (), w\<lparr>db := d, m_receivers := put_receiver ch r (m_receivers w)\<rparr>)"
      "listening d = (if ch \<in> fst ` set (m_receivers w) then listening (db w) else insert ch (listening (db w)))"
      using assms(3) by auto
    have "ch \<notin> fst ` set (m_handlers w)" using Add assms(5) by simp
    then show ?thesis using d t by (simp add: subscribed_def add_receiver_keys insert_absorb)
  next
    case (Remove ch r)
    show ?thesis
    proof (cases "(ch, r) \<in> set (m_receivers w)")
      case True
      with remove_receiver_ok[OF assms(1,2), of ch r w m cb] Remove assms(3)
      obtain d where d: "run_sub (Suc m) pq Q N cb c w = (Inr (), w\<lparr>db := d, m_receivers := remove1 (ch, r) (m_receivers w)\<rparr>)"
        "listening d = (if length (filter (\<lambda>cr. fst cr = ch) (m_receivers w)) = 1 then listening (db w) - {ch} else listening (db w))" by auto
      have "ch \<notin> fst ` set (m_handlers w)" using True t(3) by force
      then show ?thesis using d t remove_receiver_keys[OF True] by (auto simp: subscribed_def)
    next
      case False
      then show ?thesis using Remove assms(4)
        by (auto simp: remove_receiver_def try_catch_def conn_notice_def process_notice_def prog_simps subscribed_def)
    qed
  qed
qed

fun all_orderly :: "nat \<Rightarrow> 'db libpq \<Rightarrow> 'db quoter \<Rightarrow> 'db notifier \<Rightarrow> 'db callbacks \<Rightarrow> 'db connection \<Rightarrow> sub_call list \<Rightarrow> bool" where
  "all_orderly m pq Q N cb w [] = True"
| "all_orderly m pq Q N cb w (c # cs) = (orderly w c \<and> all_orderly m pq Q N cb (snd (run_sub m pq Q N cb c w)) cs)"

text \<open>
  C9.  The server listens to exactly the channels that have a handler or a receiver, whatever handlers and receivers come and go, as long
  as no channel is given to both mechanisms and only a handler that is there is cancelled; all these calls succeed, and the handlers stay in order.
\<close>

theorem subscriptions_kept:
  assumes "encoded_in pq enc" "listens pq Q N names listening" "sub_channel ` set cs \<subseteq> names" "subscribed listening w"
    and "all_orderly (Suc m) pq Q N cb w cs"
  shows "\<exists>w'. for_each cs (run_sub (Suc m) pq Q N cb) w = (Inr (), w') \<and> subscribed listening w'"
  using assms(3-5)
proof (induction cs arbitrary: w)
  case (Cons c cs)
  then obtain w1 where "run_sub (Suc m) pq Q N cb c w = (Inr (), w1)" "subscribed listening w1"
    using subscribed_step[OF assms(1,2), of c w m cb] by auto
  with Cons show ?case by (simp add: prog_simps)
qed (simp add: prog_simps)

subsection \<open>Who is told\<close>

datatype told = Told_receiver nat string int | Told_handler nat notify

text \<open>
  \<open>takes_notes\<close>: the notifications wait in a queue; receivers and handlers write down what they are told and leave the connection
  alone; a receiver may throw, a handler returns.
\<close>

definition takes_notes :: "'db callbacks \<Rightarrow> 'db notifier \<Rightarrow> ('db \<Rightarrow> notify list) \<Rightarrow> ('db \<Rightarrow> told list) \<Rightarrow> bool" where
  "takes_notes cb N waiting events \<longleftrightarrow>
     (\<forall>d. case waiting d of [] \<Rightarrow> pq_notifies N d = (None, d)
        | n # ns \<Rightarrow> \<exists>d'. pq_notifies N d = (Some n, d') \<and> waiting d' = ns \<and> events d' = events d)
   \<and> (\<forall>r p pid w. \<exists>res d'. on_receiver cb r p pid w = (res, w\<lparr>db := d'\<rparr>) \<and> (\<forall>s. res = Inl s \<longrightarrow> (\<exists>e. s = Throw e))
        \<and> waiting d' = waiting (db w) \<and> events d' = events (db w) @ [Told_receiver r p pid])
   \<and> (\<forall>h n w. \<exists>d'. on_handler cb h n w = (Inr (), w\<lparr>db := d'\<rparr>)
        \<and> waiting d' = waiting (db w) \<and> events d' = events (db w) @ [Told_handler h n])"

definition told_of :: "'db connection \<Rightarrow> notify \<Rightarrow> told list" where
  "told_of w n = map (\<lambda>cr. Told_receiver (snd cr) (extra n) (be_pid n)) (filter (\<lambda>cr. fst cr = relname n) (m_receivers w))
     @ (case map_of (m_handlers w) (relname n) of None \<Rightarrow> [] | Some h \<Rightarrow> [Told_handler h n])"

definition same_lists :: "'db connection \<Rightarrow> 'db connection \<Rightarrow> bool" where
  "same_lists w w' \<longleftrightarrow> m_receivers w' = m_receivers w \<and> m_handlers w' = m_handlers w \<and> m_trans w' = m_trans w"

lemma told_same: "same_lists w w' \<Longrightarrow> told_of w' = told_of w"
  by (simp add: same_lists_def told_of_def fun_eq_iff)

lemma conn_notice_app: "\<exists>w'. conn_notice cb msg w = (Inr (), w') \<and> same_lists w w' \<and> db w' = db w"
  by (simp add: conn_notice_def process_notice_def prog_simps same_lists_def)

lemma receivers_told:
  assumes "takes_notes cb N waiting events"
  shows "\<exists>w'. for_each hit (\<lambda>(c, r). try_catch (on_receiver cb r p pid) (\<lambda>e. conn_notice cb (msg c e))) w = (Inr (), w')
    \<and> same_lists w w' \<and> waiting (db w') = waiting (db w) \<and> events (db w') = events (db w) @ map (\<lambda>cr. Told_receiver (snd cr) p pid) hit"
proof (induction hit arbitrary: w)
  case Nil
  show ?case by (simp add: prog_simps same_lists_def)
next
  case (Cons cr hit)
  obtain c r where cr: "cr = (c, r)" by (cases cr)
  obtain res d where d: "on_receiver cb r p pid w = (res, w\<lparr>db := d\<rparr>)" "\<forall>s. res = Inl s \<longrightarrow> (\<exists>e. s = Throw e)"
    "waiting d = waiting (db w)" "events d = events (db w) @ [Told_receiver r p pid]"
    using assms unfolding takes_notes_def by blast
  have "\<exists>w1. try_catch (on_receiver cb r p pid) (\<lambda>e. conn_notice cb (msg c e)) w = (Inr (), w1) \<and> same_lists w w1 \<and> db w1 = d"
  proof (cases res)
    case (Inl s)
    then obtain e where "res = Inl (Throw e)" using d(2) by blast
    then show ?thesis using d(1) conn_notice_app[of cb "msg c e" "w\<lparr>db := d\<rparr>"] by (auto simp: try_catch_def same_lists_def)
  next
    case (Inr u)
    then show ?thesis using d(1) by (simp add: try_catch_def same_lists_def)
  qed
  then obtain w1 where w1: "try_catch (on_receiver cb r p pid) (\<lambda>e. conn_notice cb (msg c e)) w = (Inr (), w1)" "same_lists w w1" "db w1 = d"
    by blast
  then show ?case using Cons.IH[of w1] d(3,4) cr by (auto simp: prog_simps same_lists_def)
qed

lemma deliver_told:
  assumes "takes_notes cb N waiting events"
  shows "\<exists>w'. deliver cb n w = (Inr (), w') \<and> same_lists w w' \<and> waiting (db w') = waiting (db w) \<and> events (db w') = events (db w) @ told_of w n"
proof -
  let ?hit = "filter (\<lambda>cr. fst cr = relname n) (m_receivers w)"
  obtain w1 where w1: "for_each ?hit (\<lambda>(c, r). try_catch (on_receiver cb r (extra n) (be_pid n)) (\<lambda>e.
      conn_notice cb (''Exception in notification receiver '' @ [CHR 0x27] @ c @ [CHR 0x27] @ '': '' @ exn_what e @ [CHR 0x0A]))) w = (Inr (), w1)"
    "same_lists w w1" "waiting (db w1) = waiting (db w)"
    "events (db w1) = events (db w) @ map (\<lambda>cr. Told_receiver (snd cr) (extra n) (be_pid n)) ?hit"
    using receivers_told[OF assms, of ?hit "extra n" "be_pid n" "\<lambda>c e. ''Exception in notification receiver '' @ [CHR 0x27] @ c @ [CHR 0x27] @ '': ''
      @ exn_what e @ [CHR 0x0A]" w] by blast
  have e: "deliver cb n w = (case map_of (m_handlers w1) (relname n) of None \<Rightarrow> ret () | Some h \<Rightarrow> on_handler cb h n) w1"
    using w1(1) by (simp add: deliver_def prog_simps)
  show ?thesis
  proof (cases "map_of (m_handlers w) (relname n)")
    case None
    then show ?thesis using e w1 by (simp add: prog_simps same_lists_def told_of_def)
  next
    case (Some h)
    obtain d where "on_handler cb h n w1 = (Inr (), w1\<lparr>db := d\<rparr>)" "waiting d = waiting (db w1)"
      "events d = events (db w1) @ [Told_handler h n]" using assms unfolding takes_notes_def by blast
    with Some show ?thesis using e w1 by (simp add: same_lists_def told_of_def)
  qed
qed

lemma takes_notes_queue:
  assumes "takes_notes cb N waiting events"
  shows "waiting d = [] \<Longrightarrow> pq_notifies N d = (None, d)"
    "waiting d = n # ns \<Longrightarrow> \<exists>d'. pq_notifies N d = (Some n, d') \<and> waiting d' = ns \<and> events d' = events d"
proof -
  have "\<forall>d. case waiting d of [] \<Rightarrow> pq_notifies N d = (None, d)
        | n # ns \<Rightarrow> \<exists>d'. pq_notifies N d = (Some n, d') \<and> waiting d' = ns \<and> events d' = events d"
    using assms unfolding takes_notes_def by (rule conjunct1)
  note q = spec[OF this, of d]
  show "waiting d = [] \<Longrightarrow> pq_notifies N d = (None, d)" using q by simp
  show "waiting d = n # ns \<Longrightarrow> \<exists>d'. pq_notifies N d = (Some n, d') \<and> waiting d' = ns \<and> events d' = events d" using q by simp
qed

lemma notifs_loop_told:
  assumes "takes_notes cb N waiting events" "waiting (db w) = ns" "length ns < m"
  shows "\<exists>w'. notifs_loop m N cb k w = (Inr (k + int (length ns)), w') \<and> same_lists w w' \<and> waiting (db w') = []
    \<and> events (db w') = events (db w) @ concat (map (told_of w) ns)"
  using assms(2,3)
proof (induction ns arbitrary: m k w)
  case Nil
  then obtain m' where "m = Suc m'" by (cases m) auto
  moreover have "pq_notifies N (db w) = (None, db w)" by (rule takes_notes_queue(1)[OF assms(1) Nil(1)])
  ultimately show ?case using Nil by (simp add: get_notif_def prog_simps same_lists_def)
next
  case (Cons n ns)
  then obtain m' where m: "m = Suc m'" "length ns < m'" by (cases m) auto
  obtain d where d: "pq_notifies N (db w) = (Some n, d)" "waiting d = ns" "events d = events (db w)"
    using takes_notes_queue(2)[OF assms(1) Cons.prems(1)] by blast
  obtain w1 where w1: "deliver cb n (w\<lparr>db := d\<rparr>) = (Inr (), w1)" "same_lists w w1" "waiting (db w1) = ns" "events (db w1) = events (db w) @ told_of w n"
    using deliver_told[OF assms(1), of n "w\<lparr>db := d\<rparr>"] d(2,3) by (auto simp: same_lists_def told_of_def)
  obtain w2 where "notifs_loop m' N cb (k + 1) w1 = (Inr (k + 1 + int (length ns)), w2)" "same_lists w1 w2" "waiting (db w2) = []"
    "events (db w2) = events (db w1) @ concat (map (told_of w1) ns)" using Cons.IH[OF w1(3) m(2)] by blast
  then show ?case using m(1) d(1) w1 told_same[OF w1(2)] by (simp add: get_notif_def prog_simps same_lists_def add.assoc)
qed

text \<open>
  C8.  Outside a transaction \<open>get_notifs\<close> empties the queue: each notification, in order, goes to every receiver of its channel and to its handler,
  also when receivers throw, and the number of notifications is returned.  Inside a transaction nobody is told and the queue stays as it is.
\<close>

theorem notifications_delivered:
  assumes "takes_notes cb N waiting events" "pq_consume pq (db w) = (True, d)" "length (waiting d) < m"
  shows "\<exists>w'. conn_get_notifs m pq N cb w = (Inr (if m_trans w = None then int (length (waiting d)) else 0), w') \<and> same_lists w w'
    \<and> waiting (db w') = (if m_trans w = None then [] else waiting d)
    \<and> events (db w') = events d @ (if m_trans w = None then concat (map (told_of w) (waiting d)) else [])"
proof (cases "m_trans w = None")
  case True
  have "told_of (w\<lparr>db := d\<rparr>) = told_of w" by (simp add: told_of_def fun_eq_iff)
  with True show ?thesis using assms(2) notifs_loop_told[OF assms(1), of "w\<lparr>db := d\<rparr>" "waiting d" m 0] assms(3)
    by (auto simp: conn_get_notifs_def get_notifs_def prog_simps same_lists_def)
next
  case False
  then show ?thesis using assms(2) by (auto simp: conn_get_notifs_def get_notifs_def prog_simps same_lists_def)
qed

text \<open>
  A move that is refused has taken the handlers already: the connection that was to be moved keeps its place and its server, and
  goes on without them.
\<close>

lemma failed_move_loses_handlers:
  assumes "m_trans rhs \<noteq> None \<or> m_receivers rhs \<noteq> []"
  shows "\<exists>e left. move_connection rhs = (Inl (Usage_error e), left) \<and> m_conn left = m_conn rhs \<and> db left = db rhs
    \<and> m_receivers left = m_receivers rhs \<and> m_handlers left = [] \<and> m_notice_waiters left = None
    \<and> told_of left n = map (\<lambda>cr. Told_receiver (snd cr) (extra n) (be_pid n)) (filter (\<lambda>cr. fst cr = relname n) (m_receivers rhs))"
  using assms by (auto simp: move_connection_def check_movable_def Let_def told_of_def)

lemma moved_connection:
  assumes "m_trans rhs = None" "m_receivers rhs = []"
  shows "\<exists>new left. move_connection rhs = (Inr new, left) \<and> m_conn new = m_conn rhs \<and> db new = db rhs \<and> m_handlers new = m_handlers rhs
    \<and> told_of new = told_of rhs \<and> \<not> m_conn left"
  using assms by (auto simp: move_connection_def check_movable_def Let_def told_of_def fun_eq_iff)

subsection \<open>Opening\<close>

definition usable :: "'db libpq \<Rightarrow> 'db opener \<Rightarrow> 'db \<Rightarrow> bool" where
  "usable pq C d \<longleftrightarrow> pq_open pq d \<and> 3 \<le> pq_protocol C d \<and> 110000 \<le> pq_server C d"

lemma complete_connection_cases:
  assumes "m_conn w"
  shows "complete_connection pq C w = (if usable pq C (db w) then (Inr (), w)
    else (Inl (Throw Broken_connection), w\<lparr>db := pq_finish C (db w), m_conn := False\<rparr>))"
  using assms by (auto simp: complete_connection_def usable_def try_catch_def finish_def is_open_def protocol_version_def prog_simps)

lemma conn_init_cases:
  assumes "pq_connectdb C kvs (db w) = (valid, d)"
  shows "\<exists>w'. conn_init pq C kvs w = (if valid \<and> usable pq C d then Inr () else Inl (Throw (if valid then Broken_connection else Bad_alloc)), w')
    \<and> m_conn w' = (valid \<and> usable pq C d) \<and> db w' = (if valid \<and> \<not> usable pq C d then pq_finish C d else d)"
proof -
  let ?w = "w\<lparr>db := d, m_conn := valid\<rparr>"
  obtain w1 where w1: "set_up_notice_handlers ?w = (Inr (), w1)" "m_conn w1 = valid" "db w1 = d"
    by (cases "m_notice_waiters w") (auto simp: set_up_notice_handlers_def prog_simps)
  then have "conn_init pq C kvs w = complete_connection pq C w1" using assms by (simp add: conn_init_def prog_simps)
  then show ?thesis using w1 complete_connection_cases[of w1 pq C]
    by (cases valid) (auto simp: complete_connection_def prog_simps)
qed

lemma override_map: "map_of (override kv kvs) = (map_of kvs)(fst kv \<mapsto> snd kv)"
  by (induction kv kvs rule: override.induct) auto

lemma override_keys: "set (map fst (override kv kvs)) = insert (fst kv) (set (map fst kvs))"
  by (induction kv kvs rule: override.induct) auto

lemma override_distinct: "distinct (map fst kvs) \<Longrightarrow> distinct (map fst (override kv kvs))"
proof (induction kv kvs rule: override.induct)
  case (2 k v k' v' kvs)
  then show ?case using override_keys[of "(k, v)" kvs] by auto
qed simp

lemma merge_params_map: "map_of (merge_params parsed ps) = map_of parsed ++ map_of (rev ps)"
  by (induction ps rule: rev_induct) (auto simp: merge_params_def override_map map_add_def fun_eq_iff)

lemma merge_params_distinct: "distinct (map fst parsed) \<Longrightarrow> distinct (map fst (merge_params parsed ps))"
  by (induction ps rule: rev_induct) (auto simp: merge_params_def override_distinct)

text \<open>
  C10.  What comes of opening a connection.  The server is asked with the options of the connection string, each keyword once, the
  parameters overriding them and the later of two parameters the earlier.  If the constructor returns, the connection is open to a server of a
  supported version; if it throws, there is no handle left: it was never made, or it has been closed.
\<close>

theorem connect_opens_or_closes:
  assumes "\<And>t ps. pq_conninfo_parse C t = Inr ps \<Longrightarrow> distinct (map co_keyword ps)"
  shows "\<exists>r w'. connect pq C s ps w = (r, w') \<and> (case parse_connection_string C s of
      Inl e \<Rightarrow> r = Inl (Throw Broken_connection) \<and> \<not> m_conn w' \<and> db w' = db w
    | Inr parsed \<Rightarrow> \<exists>kvs valid d. distinct (map fst kvs) \<and> map_of kvs = map_of parsed ++ map_of (rev ps) \<and> pq_connectdb C kvs (db w) = (valid, d)
        \<and> (r = Inr () \<longleftrightarrow> valid \<and> usable pq C d) \<and> (r = Inr () \<longrightarrow> m_conn w' \<and> db w' = d)
        \<and> (r \<noteq> Inr () \<longrightarrow> r \<in> {Inl (Throw Broken_connection), Inl (Throw Bad_alloc)} \<and> \<not> m_conn w' \<and> db w' = (if valid then pq_finish C d else d)))"
proof (cases "parse_connection_string C s")
  case (Inl e)
  then have "e = Broken_connection" by (auto simp: parse_connection_string_def split: option.splits if_splits sum.splits)
  with Inl show ?thesis by (simp add: connect_def blank_connection_def lift_exn_def prog_simps)
next
  case (Inr parsed)
  have d: "distinct (map fst parsed)"
  proof (cases s)
    case None
    with Inr show ?thesis by (simp add: parse_connection_string_def)
  next
    case (Some t)
    show ?thesis
    proof (cases "t = []")
      case True
      with Some Inr show ?thesis by (simp add: parse_connection_string_def)
    next
      case False
      then obtain os where os: "pq_conninfo_parse C t = Inr os"
        "parsed = concat (map (\<lambda>p. case co_val p of None \<Rightarrow> [] | Some v \<Rightarrow> [(co_keyword p, v)]) os)"
        using Some Inr by (auto simp: parse_connection_string_def split: sum.splits)
      have "map fst parsed = map co_keyword (filter (\<lambda>p. co_val p \<noteq> None) os)"
        unfolding os(2) by (induction os) (auto split: option.splits)
      then show ?thesis using assms[OF os(1)] by (simp add: distinct_map_filter)
    qed
  qed
  let ?kvs = "merge_params parsed ps"
  obtain w0 where b: "blank_connection w = (Inr (), w0)" "db w0 = db w" by (simp add: blank_connection_def prog_simps)
  obtain valid d' where v: "pq_connectdb C ?kvs (db w) = (valid, d')" by (cases "pq_connectdb C ?kvs (db w)")
  obtain w' where w': "conn_init pq C ?kvs w0 = (if valid \<and> usable pq C d' then Inr () else Inl (Throw (if valid then Broken_connection else Bad_alloc)), w')"
    "m_conn w' = (valid \<and> usable pq C d')" "db w' = (if valid \<and> \<not> usable pq C d' then pq_finish C d' else d')"
    using conn_init_cases[of C ?kvs w0 valid d' pq] v b(2) by auto
  have "connect pq C s ps w = conn_init pq C ?kvs w0" using b(1) Inr by (simp add: connect_def lift_exn_def sq_app)
  then show ?thesis using w' v merge_params_distinct[OF d, of ps] merge_params_map[of parsed ps] unfolding Inr sum.case
    by (intro exI[of _ "fst (connect pq C s ps w)"] exI[of _ w'] conjI exI[of _ ?kvs] exI[of _ valid] exI[of _ d']) auto
qed

subsection \<open>A server for the examples\<close>

record hub =
  h_waiting :: "notify list"
  h_listening :: "string set"
  h_events :: "told list"

definition hub_ok :: pgresult where
  "hub_ok = \<lparr>pg_status = PGRES_COMMAND_OK, pg_message = [], pg_sqlstate = None, pg_rows = []\<rparr>"

definition hub_pq :: "hub libpq" where
  "hub_pq = \<lparr>pq_exec = (\<lambda>q d. (Some hub_ok, if take 7 q = ''LISTEN '' then d\<lparr>h_listening := insert (drop 7 q) (h_listening d), h_waiting := []\<rparr>
      else if take 9 q = ''UNLISTEN '' then d\<lparr>h_listening := h_listening d - {drop 9 q}, h_waiting := []\<rparr> else d)),
     pq_consume = (\<lambda>d. (True, d)), pq_encoding = (\<lambda>_. Some ''UTF8''), pq_open = (\<lambda>_. True), pq_error = (\<lambda>_. [])\<rparr>"

definition hub_quoter :: "hub quoter" where
  "hub_quoter = \<lparr>pq_escape_string = (\<lambda>s d. (False, s)), pq_escape_identifier = (\<lambda>s d. Some s)\<rparr>"

definition hub_notifier :: "hub notifier" where
  "hub_notifier = \<lparr>pq_notifies = (\<lambda>d. case h_waiting d of [] \<Rightarrow> (None, d) | n # ns \<Rightarrow> (Some n, d\<lparr>h_waiting := ns\<rparr>)),
     sys_poll = (\<lambda>rd wr ms d. (None, d))\<rparr>"

text \<open>Receiver 7 throws.\<close>

definition hub_callbacks :: "hub callbacks" where
  "hub_callbacks = \<lparr>goes_on = (\<lambda>h msg. True),
     on_receiver = (\<lambda>r p pid w. (if r = 7 then Inl (Throw Out_of_range) else Inr (), w\<lparr>db := (db w)\<lparr>h_events := h_events (db w) @ [Told_receiver r p pid]\<rparr>\<rparr>)),
     on_handler = (\<lambda>h n w. (Inr (), w\<lparr>db := (db w)\<lparr>h_events := h_events (db w) @ [Told_handler h n]\<rparr>\<rparr>))\<rparr>"

definition hub_connection :: "hub \<Rightarrow> (string \<times> nat) list \<Rightarrow> (string \<times> nat) list \<Rightarrow> hub connection" where
  "hub_connection d rs hs = naming_session.extend (session.extend (fresh_session d) (naming_session.fields 0))
     (connection.fields True (Some \<lparr>errorhandlers = [], notice_handler = None\<rparr>) rs hs [])"

definition empty_hub :: hub where
  "empty_hub = \<lparr>h_waiting = [], h_listening = {}, h_events = []\<rparr>"

lemma hub_connection_sel [simp]:
  "db (hub_connection d rs hs) = d" "m_receivers (hub_connection d rs hs) = rs" "m_handlers (hub_connection d rs hs) = hs"
  "m_trans (hub_connection d rs hs) = None" "(hub_connection d rs hs)\<lparr>db := d'\<rparr> = hub_connection d' rs hs"
  by (simp_all add: hub_connection_def naming_session.defs session.defs connection.defs fresh_session_def)

lemma hub_encoded: "encoded_in hub_pq Ascii_safe"
proof -
  have "enc_group ''UTF8'' = Inr Ascii_safe" by code_simp
  then show ?thesis by (simp add: encoded_in_def hub_pq_def)
qed

lemma hub_quiet: "h_waiting d = [] \<Longrightarrow> quiet hub_pq hub_notifier d"
  by (simp add: quiet_def hub_pq_def hub_notifier_def)

lemma hub_listens: "listens hub_pq hub_quoter hub_notifier {ch. CHR 0x00 \<notin> set ch} h_listening"
proof -
  have c: "c_str ch = ch" if "CHR 0x00 \<notin> set ch" for ch
    using that by (auto simp: c_str_def takeWhile_eq_all_conv)
  have "check_status hub_ok = Inr ()" "pg_rows hub_ok = []" by (simp_all add: hub_ok_def check_status_def status_error_def)
  then show ?thesis
    by (simp add: listens_def performs_def hub_quoter_def c) (simp add: hub_pq_def hub_quiet[unfolded hub_pq_def])
qed

lemma hub_notes: "takes_notes hub_callbacks hub_notifier h_waiting h_events"
proof -
  have "\<exists>res d'. on_receiver hub_callbacks r p pid w = (res, w\<lparr>db := d'\<rparr>) \<and> (\<forall>s. res = Inl s \<longrightarrow> (\<exists>e. s = Throw e))
      \<and> h_waiting d' = h_waiting (db w) \<and> h_events d' = h_events (db w) @ [Told_receiver r p pid]" for r p pid w
    by (intro exI[of _ "fst (on_receiver hub_callbacks r p pid w)"] exI[of _ "(db w)\<lparr>h_events := h_events (db w) @ [Told_receiver r p pid]\<rparr>"])
      (simp add: hub_callbacks_def)
  moreover have "\<exists>d'. on_handler hub_callbacks h n w = (Inr (), w\<lparr>db := d'\<rparr>)
      \<and> h_waiting d' = h_waiting (db w) \<and> h_events d' = h_events (db w) @ [Told_handler h n]" for h n w
    by (intro exI[of _ "(db w)\<lparr>h_events := h_events (db w) @ [Told_handler h n]\<rparr>"]) (simp add: hub_callbacks_def)
  ultimately show ?thesis by (simp add: takes_notes_def hub_notifier_def split: list.split)
qed

theorem await_notification_waits_witness:
  "await_for 4294968 0 1 hub_pq hub_notifier hub_callbacks (hub_connection empty_hub [] []) = (Inr 0, hub_connection empty_hub [] [])
   \<and> sys_poll hub_notifier True False 704 empty_hub = (None, empty_hub)"
proof -
  have q: "quiet hub_pq hub_notifier empty_hub" by (simp add: hub_quiet empty_hub_def)
  have p: "sys_poll hub_notifier True False ms d = (None, d)" for ms d by (simp add: hub_notifier_def)
  show ?thesis
    using await_notification_waits[of 4294968 0 hub_pq hub_notifier "hub_connection empty_hub [] []" empty_hub 0 hub_callbacks] q p by simp
qed

theorem listen_changes_handlers_witness:
  "\<exists>w'. conn_listen 1 hub_pq hub_quoter hub_notifier hub_callbacks ''b'' None (hub_connection empty_hub [] [(''a'', 1), (''c'', 3)]) = (Inr (), w')
    \<and> map_of (m_handlers w') = (map_of [(''a'', 1), (''c'', 3)])(''c'' := None)"
proof -
  have b: "''b'' \<in> {ch. CHR 0x00 \<notin> set ch}" by simp
  have o: "in_order_of_keys (m_handlers (hub_connection empty_hub [] [(''a'', 1), (''c'', 3)]))"
    by (simp add: less_list_code less_char_def)
  have f: "find (\<lambda>k. ''b'' \<le> k) (map fst (m_handlers (hub_connection empty_hub [] [(''a'', 1), (''c'', 3)]))) = Some ''c''"
    by (simp add: less_eq_list_code less_char_def less_eq_char_def)
  from listen_changes_handlers[OF hub_encoded hub_listens b _ o, of 0 hub_callbacks None] f show ?thesis by auto
qed

theorem subscriptions_kept_witness:
  "\<exists>w'. for_each [Listen ''a'' 1, Add ''b'' 2, Add ''b'' 7, Cancel ''a'', Remove ''b'' 2] (run_sub 1 hub_pq hub_quoter hub_notifier hub_callbacks)
      (hub_connection empty_hub [] []) = (Inr (), w') \<and> subscribed h_listening w'"
proof -
  let ?cs = "[Listen ''a'' 1, Add ''b'' 2, Add ''b'' 7, Cancel ''a'', Remove ''b'' 2]"
  have n: "sub_channel ` set ?cs \<subseteq> {ch. CHR 0x00 \<notin> set ch}" by simp
  have s: "subscribed h_listening (hub_connection empty_hub [] [])" by (simp add: subscribed_def empty_hub_def)
  have o: "all_orderly (Suc 0) hub_pq hub_quoter hub_notifier hub_callbacks (hub_connection empty_hub [] []) ?cs"
    by code_simp
  from subscriptions_kept[OF hub_encoded hub_listens n s o] show ?thesis by simp
qed

theorem notifications_delivered_witness:
  "\<exists>w'. conn_get_notifs 2 hub_pq hub_notifier hub_callbacks
      (hub_connection \<lparr>h_waiting = [\<lparr>relname = ''a'', extra = ''x'', be_pid = 5\<rparr>], h_listening = {''a''}, h_events = []\<rparr> [(''a'', 7), (''a'', 2)] [(''a'', 1)])
      = (Inr 1, w')
    \<and> h_events (db w') = [Told_receiver 7 ''x'' 5, Told_receiver 2 ''x'' 5, Told_handler 1 \<lparr>relname = ''a'', extra = ''x'', be_pid = 5\<rparr>]"
proof -
  let ?d = "\<lparr>h_waiting = [\<lparr>relname = ''a'', extra = ''x'', be_pid = 5\<rparr>], h_listening = {''a''}, h_events = []\<rparr>"
  let ?w = "hub_connection ?d [(''a'', 7), (''a'', 2)] [(''a'', 1)]"
  have c: "pq_consume hub_pq (db ?w) = (True, ?d)" by (simp add: hub_pq_def)
  have l: "length (h_waiting ?d) < 2" by simp
  from notifications_delivered[OF hub_notes c l] show ?thesis by (auto simp: told_of_def)
qed

definition hub_connector :: "hub opener" where
  "hub_connector = \<lparr>pq_conninfo_parse = (\<lambda>t. Inr [\<lparr>co_keyword = ''host'', co_envvar = None, co_compiled = None, co_val = Some t\<rparr>]),
     pq_connectdb = (\<lambda>kvs d. (True, d)), pq_connect_start = (\<lambda>t d. (True, d)), pq_connect_poll = (\<lambda>d. (Poll_ok, d)), pq_finish = (\<lambda>d. d),
     pq_protocol = (\<lambda>_. 3), pq_server = (\<lambda>_. 90600), pq_conninfo = (\<lambda>_. None), pq_bad = (\<lambda>_. False)\<rparr>"

theorem connect_opens_or_closes_witness:
  "\<exists>w'. connect hub_pq hub_connector (Some ''db'') [(''host'', ''here'')] (hub_connection empty_hub [] []) = (Inl (Throw Broken_connection), w') \<and> \<not> m_conn w'"
proof -
  have d: "pq_conninfo_parse hub_connector t = Inr ps \<Longrightarrow> distinct (map co_keyword ps)" for t ps by (auto simp: hub_connector_def)
  have p: "parse_connection_string hub_connector (Some ''db'') = Inr [(''host'', ''db'')]" by (simp add: parse_connection_string_def hub_connector_def)
  have "pq_connectdb hub_connector kvs d = (True, d)" "\<not> usable hub_pq hub_connector d" for kvs d by (simp_all add: hub_connector_def usable_def)
  with connect_opens_or_closes[of hub_connector hub_pq "Some ''db''" "[(''host'', ''here'')]" "hub_connection empty_hub [] []"] d p
  obtain r w' where r: "connect hub_pq hub_connector (Some ''db'') [(''host'', ''here'')] (hub_connection empty_hub [] []) = (r, w')"
    "r = Inl (Throw Broken_connection) \<or> r = Inl (Throw Bad_alloc)" "\<not> m_conn w'" by auto
  moreover have "fst (connect hub_pq hub_connector (Some ''db'') [(''host'', ''here'')] (hub_connection empty_hub [] [])) = Inl (Throw Broken_connection)"
    by code_simp
  ultimately show ?thesis by auto
qed

end
