(* ===== verification/Pqxx_Result.thy ===== *)
theory Pqxx_Result
  imports Pqxx_Session Pqxx_Convert
begin

text \<open>
  Results, rows and fields: \<open>result.cxx\<close>, \<open>row.hxx\<close>, \<open>row.cxx\<close>, \<open>field.hxx\<close>, \<open>field.cxx\<close>, and the iterators of
  \<open>internal/result_iterator.hxx\<close> and \<open>internal/result_iter.hxx\<close>.  Rows, columns and lengths are counted in \<open>int\<close>; positions
  are taken not to overflow it.
\<close>

subsection \<open>Results\<close>

text \<open>The functions of libpq that read a result, which may be null; \<open>None\<close> is a null pointer to a text.\<close>

record 'r accessor =
  pq_ntuples :: "'r option \<Rightarrow> int"
  pq_nfields :: "'r option \<Rightarrow> int"
  pq_fname :: "'r option \<Rightarrow> int \<Rightarrow> string option"
  pq_fnumber :: "'r option \<Rightarrow> string \<Rightarrow> int"
  pq_ftype :: "'r option \<Rightarrow> int \<Rightarrow> int"
  pq_ftable :: "'r option \<Rightarrow> int \<Rightarrow> int"
  pq_ftablecol :: "'r option \<Rightarrow> int \<Rightarrow> int"
  pq_fsize :: "'r option \<Rightarrow> int \<Rightarrow> int"
  pq_fmod :: "'r option \<Rightarrow> int \<Rightarrow> int"
  pq_getvalue :: "'r option \<Rightarrow> int \<Rightarrow> int \<Rightarrow> string"
  pq_getisnull :: "'r option \<Rightarrow> int \<Rightarrow> int \<Rightarrow> bool"
  pq_getlength :: "'r option \<Rightarrow> int \<Rightarrow> int \<Rightarrow> nat"
  pq_oid_value :: "'r option \<Rightarrow> int"
  pq_error_position :: "'r option \<Rightarrow> string option"

text \<open>The notice waiters are shared by connection and results, so they are a name here.\<close>

record 'r result =
  m_data :: "'r option"
  m_query :: "string option"
  m_waiters :: "nat option"
  m_encoding :: encoding_group

definition no_result :: "'r result" where
  "no_result = \<lparr>m_data = None, m_query = None, m_waiters = None, m_encoding = Enc_unknown\<rparr>"

definition result_length :: "'r accessor \<Rightarrow> 'r result \<Rightarrow> int" where
  "result_length A r = (case m_data r of None \<Rightarrow> 0 | Some _ \<Rightarrow> pq_ntuples A (m_data r))"

definition result_is_empty :: "'r accessor \<Rightarrow> 'r result \<Rightarrow> bool" where
  "result_is_empty A r \<longleftrightarrow> (case m_data r of None \<Rightarrow> True | Some _ \<Rightarrow> pq_ntuples A (m_data r) = 0)"

definition columns_of :: "'r accessor \<Rightarrow> 'r result \<Rightarrow> int" where
  "columns_of A r = (case m_data r of None \<Rightarrow> 0 | Some _ \<Rightarrow> pq_nfields A (m_data r))"

definition result_query :: "'r result \<Rightarrow> string" where
  "result_query r = (case m_query r of None \<Rightarrow> [] | Some q \<Rightarrow> q)"

text \<open>\<open>swap\<close> exchanges the data and the queries.\<close>

definition result_swap :: "'r result \<Rightarrow> 'r result \<Rightarrow> 'r result \<times> 'r result" where
  "result_swap a b = (a\<lparr>m_data := m_data b, m_query := m_query b\<rparr>, b\<lparr>m_data := m_data a, m_query := m_query a\<rparr>)"

definition result_clear :: "'r result \<Rightarrow> 'r result" where
  "result_clear r = r\<lparr>m_data := None, m_query := None\<rparr>"

definition inserted_oid :: "'r accessor \<Rightarrow> 'r result \<Rightarrow> exn + int" where
  "inserted_oid A r = (case m_data r of
       None \<Rightarrow> Inl (Usage_error ''Attempt to read oid of inserted row without an INSERT result'')
     | Some _ \<Rightarrow> Inr (pq_oid_value A (m_data r)))"

definition column_type :: "'r accessor \<Rightarrow> 'r result \<Rightarrow> int \<Rightarrow> exn + int" where
  "column_type A r col = (let t = pq_ftype A (m_data r) col in
     if t = 0 then Inl (Argument_error (''Attempt to retrieve type of nonexistent column '' @ int_to_string col @ '' of query result.'')) else Inr t)"

definition column_number :: "'r accessor \<Rightarrow> 'r result \<Rightarrow> string \<Rightarrow> exn + int" where
  "column_number A r name = (let n = pq_fnumber A (m_data r) name in
     if n = -1 then Inl (Argument_error (''Unknown column name: '' @ [CHR 0x27] @ name @ [CHR 0x27] @ ''.'')) else Inr n)"

definition column_table :: "'r accessor \<Rightarrow> 'r result \<Rightarrow> int \<Rightarrow> exn + int" where
  "column_table A r col = (let t = pq_ftable A (m_data r) col in
     if t = 0 \<and> col \<ge> columns_of A r
     then Inl (Argument_error (''Attempt to retrieve table ID for column '' @ int_to_string col @ '' out of '' @ int_to_string (columns_of A r) @ ''.''))
     else Inr t)"

definition table_column :: "'r accessor \<Rightarrow> 'r result \<Rightarrow> int \<Rightarrow> exn + int" where
  "table_column A r col = (let n = pq_ftablecol A (m_data r) col in
     if n \<noteq> 0 then Inr (n - 1)
     else if col > columns_of A r then Inl (Range_error (''Invalid column index in table_column(): '' @ int_to_string col @ ''.''))
     else if m_data r = None
     then Inl (Usage_error (''Can'' @ [CHR 0x27] @ ''t query origin of column '' @ int_to_string col @ '': result is not initialized.''))
     else Inl (Usage_error (''Can'' @ [CHR 0x27] @ ''t query origin of column '' @ int_to_string col @ '': not derived from table column.'')))"

definition column_name :: "'r accessor \<Rightarrow> 'r result \<Rightarrow> int \<Rightarrow> exn + string" where
  "column_name A r number = (case pq_fname A (m_data r) number of
       Some n \<Rightarrow> Inr n
     | None \<Rightarrow> Inl (if m_data r = None then Usage_error ''Queried column name on null result.''
         else Range_error (''Invalid column number: '' @ int_to_string number @ '' (maximum is '' @ int_to_string (columns_of A r - 1) @ '').'')))"

definition column_storage :: "'r accessor \<Rightarrow> 'r result \<Rightarrow> int \<Rightarrow> exn + int" where
  "column_storage A r number = (let x = pq_fsize A (m_data r) number in
     if x = 0
     then (let sz = result_length A r in
       if number < 0 \<or> number \<ge> sz
       then Inl (Argument_error (''Column number out of range: '' @ int_to_string number @ '' (have 0 - '' @ int_to_string sz @ '')''))
       else Inl (Failure (''Error getting column_storage for column '' @ int_to_string number @ ''.'')))
     else Inr x)"

definition error_position :: "'r accessor \<Rightarrow> 'r result \<Rightarrow> exn + int" where
  "error_position A r = (case m_data r of
       None \<Rightarrow> Inr (-1)
     | Some _ \<Rightarrow> (case pq_error_position A (m_data r) of None \<Rightarrow> Inr (-1)
         | Some p \<Rightarrow> from_string_arithmetic (from_chars_int (- (2 ^ 31)) (2 ^ 31 - 1)) ''int'' p))"

definition expect_rows :: "'r accessor \<Rightarrow> 'r result \<Rightarrow> int \<Rightarrow> exn + unit" where
  "expect_rows A r n = (if result_length A r \<noteq> n then Inl Unexpected_rows else Inr ())"

definition expect_columns :: "'r accessor \<Rightarrow> 'r result \<Rightarrow> int \<Rightarrow> exn + unit" where
  "expect_columns A r cols = (let actual = columns_of A r; q = result_query r in
     if actual \<noteq> cols
     then Inl (Usage_error (if q = [] then ''Expected '' @ int_to_string cols @ '' column(s) from query, got '' @ int_to_string actual @ ''.''
       else ''Expected '' @ int_to_string cols @ '' column(s) from query '' @ [CHR 0x27] @ q @ [CHR 0x27] @ '', got '' @ int_to_string actual @ ''.''))
     else Inr ())"

subsection \<open>References to rows and fields\<close>

text \<open>
  A reference holds the address of a result, at which \<open>H\<close> finds it, and positions in it.  A null or dangling address is undefined where the code
  follows it without a test; in these definitions it reads \<open>no_result\<close>.
\<close>

type_synonym 'r results = "nat \<Rightarrow> 'r result option"

record row_ref =
  rr_home :: "nat option"
  rr_index :: int

record field_ref =
  fr_home :: "nat option"
  fr_row :: int
  fr_col :: int

definition home :: "'r results \<Rightarrow> nat option \<Rightarrow> 'r result" where
  "home H a = (case a of None \<Rightarrow> no_result | Some p \<Rightarrow> (case H p of None \<Rightarrow> no_result | Some r \<Rightarrow> r))"

definition row_ref_eq :: "row_ref \<Rightarrow> row_ref \<Rightarrow> bool" where
  "row_ref_eq a b \<longleftrightarrow> rr_home b = rr_home a \<and> rr_index b = rr_index a"

definition result_row :: "nat \<Rightarrow> int \<Rightarrow> row_ref" where
  "result_row p i = \<lparr>rr_home = Some p, rr_index = i\<rparr>"

definition result_front :: "nat \<Rightarrow> row_ref" where
  "result_front p = result_row p 0"

definition result_back :: "'r accessor \<Rightarrow> 'r results \<Rightarrow> nat \<Rightarrow> row_ref" where
  "result_back A H p = result_row p (result_length A (home H (Some p)) - 1)"

definition result_at :: "'r accessor \<Rightarrow> 'r results \<Rightarrow> nat \<Rightarrow> int \<Rightarrow> exn + row_ref" where
  "result_at A H p i = (if i < 0 \<or> i \<ge> result_length A (home H (Some p)) then Inl (Range_error ''Row number out of range.'') else Inr (result_row p i))"

definition result_at2 :: "'r accessor \<Rightarrow> 'r results \<Rightarrow> nat \<Rightarrow> int \<Rightarrow> int \<Rightarrow> exn + field_ref" where
  "result_at2 A H p row_num col_num =
     (if row_num < 0 \<or> row_num \<ge> result_length A (home H (Some p)) then Inl (Range_error ''Row number out of range.'')
      else if col_num < 0 \<or> col_num \<ge> columns_of A (home H (Some p)) then Inl (Range_error ''Column out of range.'')
      else Inr \<lparr>fr_home = Some p, fr_row = row_num, fr_col = col_num\<rparr>)"

definition row_ref_size :: "'r accessor \<Rightarrow> 'r results \<Rightarrow> row_ref \<Rightarrow> int" where
  "row_ref_size A H rr = columns_of A (home H (rr_home rr))"

definition row_ref_field :: "row_ref \<Rightarrow> int \<Rightarrow> field_ref" where
  "row_ref_field rr i = \<lparr>fr_home = rr_home rr, fr_row = rr_index rr, fr_col = i\<rparr>"

definition column_range_error :: "int \<Rightarrow> int \<Rightarrow> exn" where
  "column_range_error i sz = Range_error (''Column index out of range: '' @ int_to_string i @ '' in a result of '' @ int_to_string sz @ '' column(s).'')"

definition row_ref_at :: "'r accessor \<Rightarrow> 'r results \<Rightarrow> row_ref \<Rightarrow> int \<Rightarrow> exn + field_ref" where
  "row_ref_at A H rr i = (if rr_home rr = None then Inl (Usage_error ''Indexing uninitialised row.'')
     else if i < 0 then Inl (Usage_error ''Negative column index.'')
     else if i \<ge> row_ref_size A H rr then Inl (column_range_error i (row_ref_size A H rr))
     else Inr (row_ref_field rr i))"

definition row_ref_at_name :: "'r accessor \<Rightarrow> 'r results \<Rightarrow> row_ref \<Rightarrow> string \<Rightarrow> exn + field_ref" where
  "row_ref_at_name A H rr name = (if rr_home rr = None then Inl (Usage_error ''Indexing uninitialised row.'')
     else map_sum id (row_ref_field rr) (column_number A (home H (rr_home rr)) name))"

definition row_ref_front :: "row_ref \<Rightarrow> field_ref" where
  "row_ref_front rr = row_ref_field rr 0"

definition row_ref_back :: "'r accessor \<Rightarrow> 'r results \<Rightarrow> row_ref \<Rightarrow> field_ref" where
  "row_ref_back A H rr = row_ref_field rr (columns_of A (home H (rr_home rr)) - 1)"

subsection \<open>Rows that hold their result\<close>

text \<open>A \<open>row\<close> has a copy of the result; \<open>p\<close> is the address of that member where a reference to it is made.\<close>

record 'r row =
  row_result :: "'r result"
  row_index :: int
  row_end :: int

definition row_of_ref :: "'r accessor \<Rightarrow> 'r results \<Rightarrow> row_ref \<Rightarrow> 'r row" where
  "row_of_ref A H rr = \<lparr>row_result = home H (rr_home rr), row_index = rr_index rr, row_end = row_ref_size A H rr\<rparr>"

definition row_eq :: "'r row \<Rightarrow> 'r row \<Rightarrow> bool" where
  "row_eq a b \<longleftrightarrow> m_data (row_result b) = m_data (row_result a) \<and> row_index b = row_index a"

definition as_row_ref :: "nat \<Rightarrow> 'r row \<Rightarrow> row_ref" where
  "as_row_ref p r = result_row p (row_index r)"

definition row_at :: "nat \<Rightarrow> 'r row \<Rightarrow> int \<Rightarrow> exn + field_ref" where
  "row_at p r i = (if i \<ge> row_end r then Inl (column_range_error i (row_end r)) else Inr \<lparr>fr_home = Some p, fr_row = row_index r, fr_col = i\<rparr>)"

definition row_at_name :: "'r accessor \<Rightarrow> nat \<Rightarrow> 'r row \<Rightarrow> string \<Rightarrow> exn + field_ref" where
  "row_at_name A p r name = map_sum id (\<lambda>c. \<lparr>fr_home = Some p, fr_row = row_index r, fr_col = c\<rparr>) (column_number A (row_result r) name)"

definition row_swap :: "'r row \<Rightarrow> 'r row \<Rightarrow> 'r row \<times> 'r row" where
  "row_swap a b = (let (ra, rb) = result_swap (row_result a) (row_result b) in
     (\<lparr>row_result = ra, row_index = row_index b, row_end = row_end b\<rparr>, \<lparr>row_result = rb, row_index = row_index a, row_end = row_end a\<rparr>))"

definition check_one_row :: "'r accessor \<Rightarrow> 'r result \<Rightarrow> exn + unit" where
  "check_one_row A r = (if result_length A r \<noteq> 1 then Inl Unexpected_rows else Inr ())"

definition one_row_ref :: "'r accessor \<Rightarrow> 'r results \<Rightarrow> nat \<Rightarrow> exn + row_ref" where
  "one_row_ref A H p = map_sum id (\<lambda>_. result_front p) (check_one_row A (home H (Some p)))"

definition one_field_ref :: "'r accessor \<Rightarrow> 'r results \<Rightarrow> nat \<Rightarrow> exn + field_ref" where
  "one_field_ref A H p = (case expect_columns A (home H (Some p)) 1 of
       Inl e \<Rightarrow> Inl e | Inr u \<Rightarrow> map_sum id (\<lambda>rr. row_ref_field rr 0) (one_row_ref A H p))"

definition opt_row_ref :: "'r accessor \<Rightarrow> 'r results \<Rightarrow> nat \<Rightarrow> exn + row_ref option" where
  "opt_row_ref A H p = (let sz = result_length A (home H (Some p)) in
     if sz > 1 then Inl Unexpected_rows else if sz = 1 then Inr (Some (result_front p)) else Inr None)"

definition opt_row :: "'r accessor \<Rightarrow> 'r results \<Rightarrow> nat \<Rightarrow> exn + 'r row option" where
  "opt_row A H p = (let sz = result_length A (home H (Some p)) in
     if sz > 1 then Inl Unexpected_rows else if sz = 1 then Inr (Some (row_of_ref A H (result_front p))) else Inr None)"

end
