(* ===== verification/Pqxx_Iterators.thy ===== *)
theory Pqxx_Iterators
  imports Pqxx_Result
begin

text \<open>
  The iterators over rows and fields: \<open>const_result_iterator\<close> and \<open>const_reverse_result_iterator\<close> (\<open>internal/result_iterator.hxx\<close>,
  \<open>result.cxx\<close>), \<open>const_row_iterator\<close> and \<open>const_reverse_row_iterator\<close> (\<open>row.hxx\<close>, \<open>row.cxx\<close>).  An iterator over rows is the reference
  \<open>m_row\<close> it holds, one over fields the reference \<open>m_field\<close>; a reverse iterator is its base class, one step before the place it
  was made of.  An operation that changes its object gives the new object; one written \<open>_post\<close> gives first what the call returns.
\<close>

subsection \<open>Rows, forward\<close>

definition row_ref_offset :: "row_ref \<Rightarrow> int \<Rightarrow> row_ref" where
  "row_ref_offset r d = r\<lparr>rr_index := rr_index r + d\<rparr>"

definition ri_make :: "nat option \<Rightarrow> int \<Rightarrow> row_ref" where
  "ri_make h i = \<lparr>rr_home = h, rr_index = i\<rparr>"

definition ri_deref :: "row_ref \<Rightarrow> row_ref" where
  "ri_deref it = it"

definition ri_inc :: "row_ref \<Rightarrow> row_ref" where
  "ri_inc it = row_ref_offset it 1"

definition ri_dec :: "row_ref \<Rightarrow> row_ref" where
  "ri_dec it = row_ref_offset it (-1)"

definition ri_inc_post :: "row_ref \<Rightarrow> row_ref \<times> row_ref" where
  "ri_inc_post it = (it, row_ref_offset it 1)"

definition ri_dec_post :: "row_ref \<Rightarrow> row_ref \<times> row_ref" where
  "ri_dec_post it = (it, row_ref_offset it (-1))"

definition ri_add :: "row_ref \<Rightarrow> int \<Rightarrow> row_ref" where
  "ri_add it i = row_ref_offset it i"

definition ri_sub :: "row_ref \<Rightarrow> int \<Rightarrow> row_ref" where
  "ri_sub it i = row_ref_offset it (- i)"

definition ri_swap :: "row_ref \<Rightarrow> row_ref \<Rightarrow> row_ref \<times> row_ref" where
  "ri_swap a b = (b, a)"

definition ri_eq :: "row_ref \<Rightarrow> row_ref \<Rightarrow> bool" where
  "ri_eq a b \<longleftrightarrow> rr_home a = rr_home b \<and> rr_index a = rr_index b"

definition ri_neq :: "row_ref \<Rightarrow> row_ref \<Rightarrow> bool" where
  "ri_neq a b \<longleftrightarrow> \<not> ri_eq a b"

definition ri_less :: "row_ref \<Rightarrow> row_ref \<Rightarrow> bool" where
  "ri_less a b \<longleftrightarrow> rr_index a < rr_index b"

definition ri_less_eq :: "row_ref \<Rightarrow> row_ref \<Rightarrow> bool" where
  "ri_less_eq a b \<longleftrightarrow> rr_index a \<le> rr_index b"

definition ri_greater :: "row_ref \<Rightarrow> row_ref \<Rightarrow> bool" where
  "ri_greater a b \<longleftrightarrow> rr_index a > rr_index b"

definition ri_greater_eq :: "row_ref \<Rightarrow> row_ref \<Rightarrow> bool" where
  "ri_greater_eq a b \<longleftrightarrow> rr_index a \<ge> rr_index b"

definition ri_plus :: "row_ref \<Rightarrow> int \<Rightarrow> row_ref" where
  "ri_plus it d = ri_make (rr_home it) (rr_index it + d)"

definition ri_minus :: "row_ref \<Rightarrow> int \<Rightarrow> row_ref" where
  "ri_minus it d = ri_make (rr_home it) (rr_index it - d)"

definition ri_diff :: "row_ref \<Rightarrow> row_ref \<Rightarrow> int" where
  "ri_diff a b = rr_index a - rr_index b"

definition ri_index :: "row_ref \<Rightarrow> int \<Rightarrow> row_ref" where
  "ri_index it d = ri_deref (ri_plus it d)"

definition ri_begin :: "nat \<Rightarrow> row_ref" where
  "ri_begin p = ri_make (Some p) 0"

definition ri_end :: "'r accessor \<Rightarrow> 'r results \<Rightarrow> nat \<Rightarrow> row_ref" where
  "ri_end A H p = ri_make (Some p) (result_length A (home H (Some p)))"

subsection \<open>Rows, backward\<close>

definition rri_make :: "row_ref \<Rightarrow> row_ref" where
  "rri_make rhs = ri_dec rhs"

definition rri_base :: "row_ref \<Rightarrow> row_ref" where
  "rri_base it = ri_inc it"

definition rri_inc :: "row_ref \<Rightarrow> row_ref" where
  "rri_inc it = ri_dec it"

definition rri_dec :: "row_ref \<Rightarrow> row_ref" where
  "rri_dec it = ri_inc it"

definition rri_inc_post :: "row_ref \<Rightarrow> row_ref \<times> row_ref" where
  "rri_inc_post it = (it, ri_dec it)"

definition rri_dec_post :: "row_ref \<Rightarrow> row_ref \<times> row_ref" where
  "rri_dec_post it = (it, ri_inc it)"

definition rri_add :: "row_ref \<Rightarrow> int \<Rightarrow> row_ref" where
  "rri_add it i = ri_sub it i"

definition rri_sub :: "row_ref \<Rightarrow> int \<Rightarrow> row_ref" where
  "rri_sub it i = ri_add it i"

definition rri_plus :: "row_ref \<Rightarrow> int \<Rightarrow> row_ref" where
  "rri_plus it i = rri_make (ri_minus (rri_base it) i)"

definition rri_minus :: "row_ref \<Rightarrow> int \<Rightarrow> row_ref" where
  "rri_minus it i = rri_make (ri_plus (rri_base it) i)"

definition rri_diff :: "row_ref \<Rightarrow> row_ref \<Rightarrow> int" where
  "rri_diff it rhs = ri_diff rhs it"

definition rri_neq :: "row_ref \<Rightarrow> row_ref \<Rightarrow> bool" where
  "rri_neq a b \<longleftrightarrow> \<not> ri_eq a b"

definition rri_less :: "row_ref \<Rightarrow> row_ref \<Rightarrow> bool" where
  "rri_less a b \<longleftrightarrow> ri_greater a b"

definition rri_less_eq :: "row_ref \<Rightarrow> row_ref \<Rightarrow> bool" where
  "rri_less_eq a b \<longleftrightarrow> ri_greater_eq a b"

text \<open>\<open>using const_result_iterator::operator[]\<close> takes the subscript of the base class as it is.\<close>

definition rri_index :: "row_ref \<Rightarrow> int \<Rightarrow> row_ref" where
  "rri_index it d = ri_index it d"

definition rri_begin :: "'r accessor \<Rightarrow> 'r results \<Rightarrow> nat \<Rightarrow> row_ref" where
  "rri_begin A H p = rri_make (ri_end A H p)"

definition rri_end :: "nat \<Rightarrow> row_ref" where
  "rri_end p = rri_make (ri_begin p)"

subsection \<open>Fields, forward\<close>

definition field_ref_offset :: "field_ref \<Rightarrow> int \<Rightarrow> field_ref" where
  "field_ref_offset f n = f\<lparr>fr_col := fr_col f + n\<rparr>"

definition fi_make :: "row_ref \<Rightarrow> int \<Rightarrow> field_ref" where
  "fi_make t c = \<lparr>fr_home = rr_home t, fr_row = rr_index t, fr_col = c\<rparr>"

definition fi_deref :: "field_ref \<Rightarrow> field_ref" where
  "fi_deref it = it"

definition fi_inc :: "field_ref \<Rightarrow> field_ref" where
  "fi_inc it = field_ref_offset it 1"

definition fi_dec :: "field_ref \<Rightarrow> field_ref" where
  "fi_dec it = field_ref_offset it (-1)"

definition fi_inc_post :: "field_ref \<Rightarrow> field_ref \<times> field_ref" where
  "fi_inc_post it = (it, field_ref_offset it 1)"

definition fi_dec_post :: "field_ref \<Rightarrow> field_ref \<times> field_ref" where
  "fi_dec_post it = (it, field_ref_offset it (-1))"

definition fi_add :: "field_ref \<Rightarrow> int \<Rightarrow> field_ref" where
  "fi_add it n = field_ref_offset it n"

definition fi_sub :: "field_ref \<Rightarrow> int \<Rightarrow> field_ref" where
  "fi_sub it n = field_ref_offset it (- n)"

text \<open>These iterators compare columns alone.\<close>

definition fi_neq :: "field_ref \<Rightarrow> field_ref \<Rightarrow> bool" where
  "fi_neq a b \<longleftrightarrow> fr_col a \<noteq> fr_col b"

definition fi_less :: "field_ref \<Rightarrow> field_ref \<Rightarrow> bool" where
  "fi_less a b \<longleftrightarrow> fr_col a < fr_col b"

definition fi_less_eq :: "field_ref \<Rightarrow> field_ref \<Rightarrow> bool" where
  "fi_less_eq a b \<longleftrightarrow> fr_col a \<le> fr_col b"

definition fi_greater :: "field_ref \<Rightarrow> field_ref \<Rightarrow> bool" where
  "fi_greater a b \<longleftrightarrow> fr_col a > fr_col b"

definition fi_greater_eq :: "field_ref \<Rightarrow> field_ref \<Rightarrow> bool" where
  "fi_greater_eq a b \<longleftrightarrow> fr_col a \<ge> fr_col b"

definition fi_plus :: "field_ref \<Rightarrow> int \<Rightarrow> field_ref" where
  "fi_plus it d = fi_make \<lparr>rr_home = fr_home it, rr_index = fr_row it\<rparr> (fr_col it + d)"

definition fi_minus :: "field_ref \<Rightarrow> int \<Rightarrow> field_ref" where
  "fi_minus it d = fi_make \<lparr>rr_home = fr_home it, rr_index = fr_row it\<rparr> (fr_col it - d)"

definition fi_diff :: "field_ref \<Rightarrow> field_ref \<Rightarrow> int" where
  "fi_diff a b = fr_col a - fr_col b"

definition fi_index :: "field_ref \<Rightarrow> int \<Rightarrow> field_ref" where
  "fi_index it d = fi_deref (fi_plus it d)"

definition fi_begin :: "row_ref \<Rightarrow> field_ref" where
  "fi_begin rr = fi_make rr 0"

definition fi_end :: "'r accessor \<Rightarrow> 'r results \<Rightarrow> row_ref \<Rightarrow> field_ref" where
  "fi_end A H rr = fi_make rr (columns_of A (home H (rr_home rr)))"

text \<open>The end of a \<open>row\<close> is the size it was made with.\<close>

definition row_fi_end :: "nat \<Rightarrow> 'r row \<Rightarrow> field_ref" where
  "row_fi_end p r = fi_make (as_row_ref p r) (row_end r)"

subsection \<open>Fields, backward\<close>

definition rfi_make :: "field_ref \<Rightarrow> field_ref" where
  "rfi_make rhs = fi_dec rhs"

definition rfi_base :: "field_ref \<Rightarrow> field_ref" where
  "rfi_base it = fi_inc it"

text \<open>Here the prefix \<open>++\<close> returns a copy of the iterator, and the prefix \<open>--\<close> the iterator.\<close>

definition rfi_inc :: "field_ref \<Rightarrow> field_ref" where
  "rfi_inc it = fi_dec it"

definition rfi_dec :: "field_ref \<Rightarrow> field_ref" where
  "rfi_dec it = fi_inc it"

definition rfi_inc_post :: "field_ref \<Rightarrow> field_ref \<times> field_ref" where
  "rfi_inc_post it = (it, rfi_inc it)"

definition rfi_dec_post :: "field_ref \<Rightarrow> field_ref \<times> field_ref" where
  "rfi_dec_post it = (it, rfi_dec it)"

definition rfi_add :: "field_ref \<Rightarrow> int \<Rightarrow> field_ref" where
  "rfi_add it i = fi_sub it i"

definition rfi_sub :: "field_ref \<Rightarrow> int \<Rightarrow> field_ref" where
  "rfi_sub it i = fi_add it i"

definition rfi_plus :: "field_ref \<Rightarrow> int \<Rightarrow> field_ref" where
  "rfi_plus it i = rfi_make (fi_minus (rfi_base it) i)"

definition rfi_minus :: "field_ref \<Rightarrow> int \<Rightarrow> field_ref" where
  "rfi_minus it i = rfi_make (fi_plus (rfi_base it) i)"

definition rfi_diff :: "field_ref \<Rightarrow> field_ref \<Rightarrow> int" where
  "rfi_diff it rhs = fi_diff rhs it"

definition rfi_index :: "field_ref \<Rightarrow> int \<Rightarrow> field_ref" where
  "rfi_index it d = fi_deref (rfi_plus it d)"

definition rfi_neq :: "field_ref \<Rightarrow> field_ref \<Rightarrow> bool" where
  "rfi_neq a b \<longleftrightarrow> fi_neq a b"

definition rfi_less :: "field_ref \<Rightarrow> field_ref \<Rightarrow> bool" where
  "rfi_less a b \<longleftrightarrow> fi_greater a b"

definition rfi_less_eq :: "field_ref \<Rightarrow> field_ref \<Rightarrow> bool" where
  "rfi_less_eq a b \<longleftrightarrow> fi_greater_eq a b"

definition rfi_begin :: "'r accessor \<Rightarrow> 'r results \<Rightarrow> row_ref \<Rightarrow> field_ref" where
  "rfi_begin A H rr = rfi_make (fi_end A H rr)"

definition rfi_end :: "row_ref \<Rightarrow> field_ref" where
  "rfi_end rr = rfi_make (fi_begin rr)"

subsection \<open>The interface of a loop\<close>

text \<open>
  \<open>for (auto x : range)\<close>: what the loop visits between two iterators.  An end that is never met makes the loop run on, which is \<open>None\<close>.
\<close>

partial_function (option) visit :: "('i \<Rightarrow> 'v) \<Rightarrow> ('i \<Rightarrow> 'i) \<Rightarrow> ('i \<Rightarrow> 'i \<Rightarrow> bool) \<Rightarrow> 'i \<Rightarrow> 'i \<Rightarrow> 'v list option" where
  "visit deref inc neq it stop = (if neq it stop then Option.bind (visit deref inc neq (inc it) stop) (\<lambda>vs. Some (deref it # vs)) else Some [])"

text \<open>An iterator that can stand at every integer position of a sequence of values, which has one home.\<close>

locale traversal =
  fixes deref :: "'i \<Rightarrow> 'v" and inc :: "'i \<Rightarrow> 'i" and dec :: "'i \<Rightarrow> 'i" and neq :: "'i \<Rightarrow> 'i \<Rightarrow> bool"
    and place :: "'h \<Rightarrow> int \<Rightarrow> 'i" and val :: "'h \<Rightarrow> int \<Rightarrow> 'v"
  assumes deref_place: "deref (place h k) = val h k"
    and inc_place: "inc (place h k) = place h (k + 1)"
    and dec_place: "dec (place h k) = place h (k - 1)"
    and neq_place: "neq (place h j) (place h k) \<longleftrightarrow> j \<noteq> k"
begin

lemma inc_dec: "inc (dec (place h k)) = place h k" "dec (inc (place h k)) = place h k"
  by (simp_all add: inc_place dec_place)

lemma visit_places: "visit deref inc neq (place h k) (place h (k + int n)) = Some (map (\<lambda>i. val h (k + int i)) [0..<n])"
proof (induction n arbitrary: k)
  case 0
  show ?case by (simp add: visit.simps [of deref inc neq] neq_place)
next
  case (Suc n)
  have "place h (k + int (Suc n)) = place h (k + 1 + int n)" by (simp add: algebra_simps)
  then have "visit deref inc neq (place h k) (place h (k + int (Suc n))) = Some (val h k # map (\<lambda>i. val h (k + 1 + int i)) [0..<n])"
    using Suc [of "k + 1"] by (simp add: visit.simps [of deref inc neq "place h k"] neq_place inc_place deref_place)
  also have "val h k # map (\<lambda>i. val h (k + 1 + int i)) [0..<n] = map (\<lambda>i. val h (k + int i)) [0..<Suc n]"
    by (simp add: upt_conv_Cons map_Suc_upt [symmetric] algebra_simps del: upt_Suc)
  finally show ?case .
qed

end

text \<open>Iterators of random access have an arithmetic that agrees with single steps.\<close>

locale random_access = traversal deref inc dec neq place val
  for deref :: "'i \<Rightarrow> 'v" and inc dec :: "'i \<Rightarrow> 'i" and neq :: "'i \<Rightarrow> 'i \<Rightarrow> bool"
    and place :: "'h \<Rightarrow> int \<Rightarrow> 'i" and val :: "'h \<Rightarrow> int \<Rightarrow> 'v" +
  fixes plus :: "'i \<Rightarrow> int \<Rightarrow> 'i" and minus :: "'i \<Rightarrow> int \<Rightarrow> 'i" and diff :: "'i \<Rightarrow> 'i \<Rightarrow> int"
    and lt :: "'i \<Rightarrow> 'i \<Rightarrow> bool" and le :: "'i \<Rightarrow> 'i \<Rightarrow> bool"
  assumes plus_place: "plus (place h k) d = place h (k + d)"
    and minus_place: "minus (place h k) d = place h (k - d)"
    and diff_place: "diff (place h j) (place h k) = j - k"
    and lt_place: "lt (place h j) (place h k) \<longleftrightarrow> j < k"
    and le_place: "le (place h j) (place h k) \<longleftrightarrow> j \<le> k"
begin

lemma steps_forward: "(inc ^^ n) (place h k) = plus (place h k) (int n)"
  by (induction n) (simp_all add: inc_place plus_place algebra_simps)

lemma steps_backward: "(dec ^^ n) (place h k) = minus (place h k) (int n)"
  by (induction n) (simp_all add: dec_place minus_place algebra_simps)

lemma reach: "plus (place h j) (diff (place h k) (place h j)) = place h k"
  by (simp add: plus_place diff_place)

end

text \<open>\<open>it[n]\<close> is \<open>*(it + n)\<close>.\<close>

locale subscripted = random_access deref inc dec neq place val plus minus diff lt le
  for deref :: "'i \<Rightarrow> 'v" and inc dec :: "'i \<Rightarrow> 'i" and neq :: "'i \<Rightarrow> 'i \<Rightarrow> bool"
    and place :: "'h \<Rightarrow> int \<Rightarrow> 'i" and val :: "'h \<Rightarrow> int \<Rightarrow> 'v"
    and plus minus :: "'i \<Rightarrow> int \<Rightarrow> 'i" and diff :: "'i \<Rightarrow> 'i \<Rightarrow> int" and lt le :: "'i \<Rightarrow> 'i \<Rightarrow> bool" +
  fixes index :: "'i \<Rightarrow> int \<Rightarrow> 'v"
  assumes index_place: "index (place h k) d = val h (k + d)"
begin

lemma index_deref: "index (place h k) d = deref (plus (place h k) d)"
  by (simp add: index_place plus_place deref_place)

lemma visit_indices: "visit deref inc neq (place h k) (plus (place h k) (int n)) = Some (map (\<lambda>i. index (place h k) (int i)) [0..<n])"
  by (simp add: plus_place visit_places index_place)

end

subsection \<open>The iterators keep it\<close>

lemmas ri_defs = ri_make_def ri_deref_def ri_inc_def ri_dec_def ri_add_def ri_sub_def ri_eq_def ri_neq_def ri_less_def ri_less_eq_def
  ri_greater_def ri_greater_eq_def ri_plus_def ri_minus_def ri_diff_def ri_index_def row_ref_offset_def

lemmas rri_defs = rri_make_def rri_base_def rri_inc_def rri_dec_def rri_plus_def rri_minus_def rri_diff_def rri_neq_def rri_less_def
  rri_less_eq_def rri_index_def

lemmas fi_defs = fi_make_def fi_deref_def fi_inc_def fi_dec_def fi_add_def fi_sub_def fi_neq_def fi_less_def fi_less_eq_def
  fi_greater_def fi_greater_eq_def fi_plus_def fi_minus_def fi_diff_def fi_index_def field_ref_offset_def

lemmas rfi_defs = rfi_make_def rfi_base_def rfi_inc_def rfi_dec_def rfi_plus_def rfi_minus_def rfi_diff_def rfi_neq_def rfi_less_def
  rfi_less_eq_def rfi_index_def

interpretation rows: subscripted ri_deref ri_inc ri_dec ri_neq ri_make ri_make ri_plus ri_minus ri_diff ri_less ri_less_eq ri_index
  by unfold_locales (simp_all add: ri_defs)

text \<open>A backward iterator is at position \<open>k\<close> when it refers to the place \<open>k\<close> before the last.\<close>

definition back_row :: "nat option \<times> int \<Rightarrow> int \<Rightarrow> row_ref" where
  "back_row he k = ri_make (fst he) (snd he - 1 - k)"

definition back_field :: "row_ref \<times> int \<Rightarrow> int \<Rightarrow> field_ref" where
  "back_field re k = fi_make (fst re) (snd re - 1 - k)"

interpretation back_rows: random_access ri_deref rri_inc rri_dec rri_neq back_row back_row rri_plus rri_minus rri_diff rri_less rri_less_eq
  by unfold_locales (auto simp: ri_defs rri_defs back_row_def)

interpretation fields: subscripted fi_deref fi_inc fi_dec fi_neq fi_make fi_make fi_plus fi_minus fi_diff fi_less fi_less_eq fi_index
  by unfold_locales (simp_all add: fi_defs)

interpretation back_fields: subscripted fi_deref rfi_inc rfi_dec rfi_neq back_field back_field rfi_plus rfi_minus rfi_diff rfi_less rfi_less_eq rfi_index
  by unfold_locales (auto simp: fi_defs rfi_defs back_field_def)

end
