(* ===== verification/Pqxx_Fields.thy ===== *)
theory Pqxx_Fields
  imports Pqxx_Iterators
begin

text \<open>
  Fields and their conversion (\<open>field.hxx\<close>, \<open>field.cxx\<close>), the extraction of a row into a tuple (\<open>row.hxx\<close>), and the two loops that
  convert a whole result, \<open>result::iter\<close> and \<open>result::for_each\<close> (\<open>internal/result_iter.hxx\<close>).
\<close>

subsection \<open>Fields\<close>

text \<open>
  What \<open>string_traits\<close> and \<open>nullness\<close> say of a type: its name, its null value where it has one, and the conversion of a text in an
  encoding.  The values of all types are of one type here, so that a tuple is a list.
\<close>

record 'a conversion =
  cv_name :: string
  cv_null :: "'a option"
  cv_text :: "encoding_group \<Rightarrow> string \<Rightarrow> exn + 'a"

definition null_conversion :: "string \<Rightarrow> exn" where
  "null_conversion t = Conversion_error (''Attempted to convert SQL null to '' @ t @ ''.'')"

definition field_ref_eq :: "'r results \<Rightarrow> field_ref \<Rightarrow> field_ref \<Rightarrow> bool" where
  "field_ref_eq H a b \<longleftrightarrow> m_data (home H (fr_home b)) = m_data (home H (fr_home a)) \<and> fr_row a = fr_row b \<and> fr_col a = fr_col b"

definition field_name :: "'r accessor \<Rightarrow> 'r results \<Rightarrow> field_ref \<Rightarrow> exn + string" where
  "field_name A H f = column_name A (home H (fr_home f)) (fr_col f)"

definition field_table_column :: "'r accessor \<Rightarrow> 'r results \<Rightarrow> field_ref \<Rightarrow> exn + int" where
  "field_table_column A H f = table_column A (home H (fr_home f)) (fr_col f)"

definition field_ref_type :: "'r accessor \<Rightarrow> 'r results \<Rightarrow> field_ref \<Rightarrow> exn + int" where
  "field_ref_type A H f = column_type A (home H (fr_home f)) (fr_col f)"

definition field_table :: "'r accessor \<Rightarrow> 'r results \<Rightarrow> field_ref \<Rightarrow> exn + int" where
  "field_table A H f = column_table A (home H (fr_home f)) (fr_col f)"

text \<open>The bytes libpq stores at a field; the length says how many are the field's.\<close>

definition field_c_str :: "'r accessor \<Rightarrow> 'r results \<Rightarrow> field_ref \<Rightarrow> string" where
  "field_c_str A H f = pq_getvalue A (m_data (home H (fr_home f))) (fr_row f) (fr_col f)"

definition field_is_null :: "'r accessor \<Rightarrow> 'r results \<Rightarrow> field_ref \<Rightarrow> bool" where
  "field_is_null A H f = pq_getisnull A (m_data (home H (fr_home f))) (fr_row f) (fr_col f)"

definition field_size :: "'r accessor \<Rightarrow> 'r results \<Rightarrow> field_ref \<Rightarrow> nat" where
  "field_size A H f = pq_getlength A (m_data (home H (fr_home f))) (fr_row f) (fr_col f)"

definition field_view :: "'r accessor \<Rightarrow> 'r results \<Rightarrow> field_ref \<Rightarrow> string" where
  "field_view A H f = take (field_size A H f) (field_c_str A H f)"

definition convert_view :: "'r accessor \<Rightarrow> 'r results \<Rightarrow> 'a conversion \<Rightarrow> field_ref \<Rightarrow> exn + 'a" where
  "convert_view A H cv f = cv_text cv (m_encoding (home H (fr_home f))) (field_view A H f)"

text \<open>\<open>as<T>(default)\<close> and \<open>as<T>()\<close>.\<close>

definition as_or :: "'r accessor \<Rightarrow> 'r results \<Rightarrow> 'a conversion \<Rightarrow> 'a \<Rightarrow> field_ref \<Rightarrow> exn + 'a" where
  "as_or A H cv default_value f = (if field_is_null A H f then Inr default_value else convert_view A H cv f)"

definition as_type :: "'r accessor \<Rightarrow> 'r results \<Rightarrow> 'a conversion \<Rightarrow> field_ref \<Rightarrow> exn + 'a" where
  "as_type A H cv f = (if field_is_null A H f
     then (case cv_null cv of None \<Rightarrow> Inl (null_conversion (cv_name cv)) | Some v \<Rightarrow> Inr v)
     else convert_view A H cv f)"

text \<open>\<open>to(obj)\<close> and \<open>to(obj, default)\<close>: what is returned, and the object.\<close>

definition to_obj :: "'r accessor \<Rightarrow> 'r results \<Rightarrow> 'a conversion \<Rightarrow> field_ref \<Rightarrow> 'a \<Rightarrow> (exn + bool) \<times> 'a" where
  "to_obj A H cv f obj = (if field_is_null A H f then (Inr False, obj)
     else (case convert_view A H cv f of Inl e \<Rightarrow> (Inl e, obj) | Inr v \<Rightarrow> (Inr True, v)))"

definition to_obj_or :: "'r accessor \<Rightarrow> 'r results \<Rightarrow> 'a conversion \<Rightarrow> field_ref \<Rightarrow> 'a \<Rightarrow> 'a \<Rightarrow> (exn + bool) \<times> 'a" where
  "to_obj_or A H cv f obj default_value = (if field_is_null A H f then (Inr False, default_value)
     else (case convert_view A H cv f of Inl e \<Rightarrow> (Inl e, obj) | Inr v \<Rightarrow> (Inr True, v)))"

text \<open>A \<open>field\<close> has a copy of the result, which is at \<open>p\<close> where it is referred to.\<close>

record 'r owned_field =
  of_home :: "'r result"
  of_row :: int
  of_col :: int

definition field_of_ref :: "'r results \<Rightarrow> field_ref \<Rightarrow> 'r owned_field" where
  "field_of_ref H f = \<lparr>of_home = home H (fr_home f), of_row = fr_row f, of_col = fr_col f\<rparr>"

definition as_field_ref :: "nat \<Rightarrow> 'r owned_field \<Rightarrow> field_ref" where
  "as_field_ref p f = \<lparr>fr_home = Some p, fr_row = of_row f, fr_col = of_col f\<rparr>"

text \<open>\<open>field::operator==\<close>, of the fields whose references are \<open>a\<close> and \<open>b\<close>.\<close>

definition field_eq :: "'r accessor \<Rightarrow> 'r results \<Rightarrow> field_ref \<Rightarrow> field_ref \<Rightarrow> bool" where
  "field_eq A H a b \<longleftrightarrow>
     (if field_is_null A H a \<and> field_is_null A H b then True
      else if field_is_null A H a \<noteq> field_is_null A H b then False
      else (let s = field_size A H a in s = field_size A H b \<and> take s (field_c_str A H a) = take s (field_c_str A H b)))"

text \<open>\<open>from_string<T>(field)\<close>.\<close>

definition from_field :: "'r accessor \<Rightarrow> 'r results \<Rightarrow> encoding_group \<Rightarrow> 'a conversion \<Rightarrow> field_ref \<Rightarrow> exn + 'a" where
  "from_field A H enc cv f = (if field_is_null A H f
     then (case cv_null cv of Some v \<Rightarrow> Inr v | None \<Rightarrow> Inl (null_conversion (cv_name cv)))
     else cv_text cv enc (field_view A H f))"

subsection \<open>Tuples\<close>

definition size_error :: "int \<Rightarrow> int \<Rightarrow> exn" where
  "size_error wanted have_size = Usage_error (''Tried to extract '' @ int_to_string wanted @ '' field(s) from a row of '' @ int_to_string have_size @ ''.'')"

definition check_size :: "int \<Rightarrow> int \<Rightarrow> exn + unit" where
  "check_size sz wanted = (if sz \<noteq> wanted then Inl (size_error wanted sz) else Inr ())"

text \<open>\<open>extract_fields\<close> assigns the elements of the tuple in their order, each as its field is converted.\<close>

fun extract_fields :: "'r accessor \<Rightarrow> 'r results \<Rightarrow> encoding_group \<Rightarrow> row_ref \<Rightarrow> nat \<Rightarrow> 'a conversion list \<Rightarrow> 'a list \<Rightarrow> (exn + unit) \<times> 'a list" where
  "extract_fields A H enc rr i [] t = (Inr (), t)"
| "extract_fields A H enc rr i (cv # cvs) t = (case from_field A H enc cv (row_ref_field rr (int i)) of
     Inl e \<Rightarrow> (Inl e, t)
   | Inr v \<Rightarrow> extract_fields A H enc rr (Suc i) cvs (t[i := v]))"

definition row_ref_convert :: "'r accessor \<Rightarrow> 'r results \<Rightarrow> 'a conversion list \<Rightarrow> row_ref \<Rightarrow> 'a list \<Rightarrow> (exn + unit) \<times> 'a list" where
  "row_ref_convert A H cvs rr t = extract_fields A H (m_encoding (home H (rr_home rr))) rr 0 cvs t"

definition row_ref_to :: "'r accessor \<Rightarrow> 'r results \<Rightarrow> 'a conversion list \<Rightarrow> row_ref \<Rightarrow> 'a list \<Rightarrow> (exn + unit) \<times> 'a list" where
  "row_ref_to A H cvs rr t = (case check_size (row_ref_size A H rr) (int (length cvs)) of
       Inl e \<Rightarrow> (Inl e, t) | Inr u \<Rightarrow> row_ref_convert A H cvs rr t)"

definition row_to :: "'r accessor \<Rightarrow> 'r results \<Rightarrow> nat \<Rightarrow> 'a conversion list \<Rightarrow> 'r row \<Rightarrow> 'a list \<Rightarrow> (exn + unit) \<times> 'a list" where
  "row_to A H p cvs r t = (case check_size (row_end r) (int (length cvs)) of
       Inl e \<Rightarrow> (Inl e, t) | Inr u \<Rightarrow> extract_fields A H (m_encoding (row_result r)) (as_row_ref p r) 0 cvs t)"

text \<open>
  \<open>get_tuple\<close> converts every field as an argument of \<open>make_tuple\<close>.  C++ leaves the order of the arguments open, so the error that leaves
  it is that of the field which comes first in the order \<open>ord\<close> of the compiler.
\<close>

definition get_field :: "'r accessor \<Rightarrow> 'r results \<Rightarrow> 'a conversion list \<Rightarrow> row_ref \<Rightarrow> nat \<Rightarrow> exn + 'a" where
  "get_field A H cvs rr i = as_type A H (cvs ! i) (row_ref_field rr (int i))"

fun first_error :: "(nat \<Rightarrow> exn + 'a) \<Rightarrow> nat list \<Rightarrow> exn option" where
  "first_error g [] = None"
| "first_error g (i # is) = (case g i of Inl e \<Rightarrow> Some e | Inr v \<Rightarrow> first_error g is)"

definition get_tuple :: "'r accessor \<Rightarrow> 'r results \<Rightarrow> nat list \<Rightarrow> 'a conversion list \<Rightarrow> row_ref \<Rightarrow> exn + 'a list" where
  "get_tuple A H ord cvs rr = (case first_error (get_field A H cvs rr) ord of
       Some e \<Rightarrow> Inl e
     | None \<Rightarrow> Inr (map (\<lambda>i. case get_field A H cvs rr i of Inr v \<Rightarrow> v | Inl e \<Rightarrow> undefined) [0..<length cvs]))"

definition as_tuple :: "'r accessor \<Rightarrow> 'r results \<Rightarrow> nat list \<Rightarrow> 'a conversion list \<Rightarrow> row_ref \<Rightarrow> exn + 'a list" where
  "as_tuple A H ord cvs rr = (case check_size (row_ref_size A H rr) (int (length cvs)) of
       Inl e \<Rightarrow> Inl e | Inr u \<Rightarrow> get_tuple A H ord cvs rr)"

subsection \<open>Loops over a result\<close>

text \<open>A body gets a value and the caller's state, and may throw; \<open>run_bodies\<close> is what a loop over given values does.\<close>

type_synonym ('v, 's) body = "'v \<Rightarrow> 's \<Rightarrow> (exn + unit) \<times> 's"

fun run_bodies :: "('v, 's) body \<Rightarrow> 'v list \<Rightarrow> 's \<Rightarrow> (exn + unit) \<times> 's" where
  "run_bodies f [] s = (Inr (), s)"
| "run_bodies f (v # vs) s = (case f v s of (Inl e, s') \<Rightarrow> (Inl e, s') | (Inr u, s') \<Rightarrow> run_bodies f vs s')"

partial_function (option) range_for ::
  "('i \<Rightarrow> 'v) \<Rightarrow> ('i \<Rightarrow> 'i) \<Rightarrow> ('i \<Rightarrow> 'i \<Rightarrow> bool) \<Rightarrow> ('v, 's) body \<Rightarrow> 'i \<Rightarrow> 'i \<Rightarrow> 's \<Rightarrow> ((exn + unit) \<times> 's) option" where
  "range_for deref inc neq f it stop s =
     (if neq it stop
      then (case f (deref it) s of
          (Inl e, s') \<Rightarrow> Some (Inl e, s')
        | (Inr u, s') \<Rightarrow> range_for deref inc neq f (inc it) stop s')
      else Some (Inr (), s))"

text \<open>\<open>for_each\<close> calls a function with as many parameters as \<open>cvs\<close> has types.\<close>

definition result_for_each ::
  "'r accessor \<Rightarrow> 'r results \<Rightarrow> nat list \<Rightarrow> 'a conversion list \<Rightarrow> ('a list, 's) body \<Rightarrow> nat \<Rightarrow> 's \<Rightarrow> ((exn + unit) \<times> 's) option" where
  "result_for_each A H ord cvs func p s = (let sz = int (length cvs); cols = columns_of A (home H (Some p)) in
     if sz \<noteq> cols
     then Some (Inl (Usage_error (''Callback to for_each takes '' @ int_to_string sz @ '' parameter(s), but result set has '' @ int_to_string cols @ '' field(s).'')), s)
     else range_for ri_deref ri_inc ri_neq
            (\<lambda>r s. case as_tuple A H ord cvs r of Inl e \<Rightarrow> (Inl e, s) | Inr t \<Rightarrow> func t s) (ri_begin p) (ri_end A H p) s)"

text \<open>\<open>result_iter\<close>.\<close>

record 'a result_iter =
  rit_home :: "nat option"
  rit_index :: int
  rit_size :: int
  rit_value :: "'a list"

definition rit_read :: "'r accessor \<Rightarrow> 'r results \<Rightarrow> 'a conversion list \<Rightarrow> 'a result_iter \<Rightarrow> (exn + unit) \<times> 'a result_iter" where
  "rit_read A H cvs it = (let (r, t) = row_ref_convert A H cvs \<lparr>rr_home = rit_home it, rr_index = rit_index it\<rparr> (rit_value it) in (r, it\<lparr>rit_value := t\<rparr>))"

definition rit_make :: "'r accessor \<Rightarrow> 'r results \<Rightarrow> 'a conversion list \<Rightarrow> 'a list \<Rightarrow> nat \<Rightarrow> (exn + unit) \<times> 'a result_iter" where
  "rit_make A H cvs blank p = (let it = \<lparr>rit_home = Some p, rit_index = 0, rit_size = result_length A (home H (Some p)), rit_value = blank\<rparr> in
     if \<not> result_is_empty A (home H (Some p)) then rit_read A H cvs it else (Inr (), it))"

definition rit_next :: "'r accessor \<Rightarrow> 'r results \<Rightarrow> 'a conversion list \<Rightarrow> 'a result_iter \<Rightarrow> (exn + unit) \<times> 'a result_iter" where
  "rit_next A H cvs it = (let it' = it\<lparr>rit_index := rit_index it + 1\<rparr> in
     if rit_index it' \<ge> rit_size it' then (Inr (), it'\<lparr>rit_home := None\<rparr>)
     else if rit_home it' \<noteq> None then rit_read A H cvs it'
     else (Inr (), it'))"

definition rit_end :: "'a list \<Rightarrow> 'a result_iter" where
  "rit_end blank = \<lparr>rit_home = None, rit_index = 0, rit_size = 0, rit_value = blank\<rparr>"

definition rit_eq :: "'a result_iter \<Rightarrow> 'a result_iter \<Rightarrow> bool" where
  "rit_eq a b \<longleftrightarrow> rit_home a = rit_home b"

text \<open>\<open>result_iteration\<close> checks the columns of its copy of the result, which is at \<open>q\<close>.\<close>

definition iteration_make :: "'r accessor \<Rightarrow> 'r results \<Rightarrow> 'a conversion list \<Rightarrow> nat \<Rightarrow> exn + unit" where
  "iteration_make A H cvs q = expect_columns A (home H (Some q)) (int (length cvs))"

definition iteration_begin :: "'r accessor \<Rightarrow> 'r results \<Rightarrow> 'a conversion list \<Rightarrow> 'a list \<Rightarrow> nat \<Rightarrow> (exn + unit) \<times> 'a result_iter" where
  "iteration_begin A H cvs blank q =
     (if result_length A (home H (Some q)) = 0 then (Inr (), rit_end blank) else rit_make A H cvs blank q)"

lemma rit_read_shape: "rit_read A H cvs it = (r, it') \<Longrightarrow> rit_home it' = rit_home it \<and> rit_index it' = rit_index it \<and> rit_size it' = rit_size it"
  by (auto simp: rit_read_def split: prod.splits)

text \<open>The loop \<open>for (auto [...] : r.iter<...>())\<close>.\<close>

function iter_loop :: "'r accessor \<Rightarrow> 'r results \<Rightarrow> 'a conversion list \<Rightarrow> ('a list, 's) body \<Rightarrow> 'a result_iter \<Rightarrow> 'a list \<Rightarrow> 's \<Rightarrow> (exn + unit) \<times> 's" where
  "iter_loop A H cvs f it blank s =
     (if rit_eq it (rit_end blank) then (Inr (), s)
      else (case f (rit_value it) s of
          (Inl e, s') \<Rightarrow> (Inl e, s')
        | (Inr u, s') \<Rightarrow> (case rit_next A H cvs it of
              (Inl e, it') \<Rightarrow> (Inl e, s')
            | (Inr u, it') \<Rightarrow> iter_loop A H cvs f it' blank s')))"
  by pat_completeness auto

termination
  by (relation "measure (\<lambda>(A, H, cvs, f, it, blank, s). if rit_home it = None then 0 else Suc (nat (rit_size it - rit_index it)))")
    (auto simp: rit_next_def rit_eq_def rit_end_def Let_def split: if_splits dest!: rit_read_shape [OF sym])

definition iter_for :: "'r accessor \<Rightarrow> 'r results \<Rightarrow> 'a conversion list \<Rightarrow> ('a list, 's) body \<Rightarrow> 'a list \<Rightarrow> nat \<Rightarrow> 's \<Rightarrow> (exn + unit) \<times> 's" where
  "iter_for A H cvs f blank q s = (case iteration_make A H cvs q of
       Inl e \<Rightarrow> (Inl e, s)
     | Inr u \<Rightarrow> (case iteration_begin A H cvs blank q of
          (Inl e, it) \<Rightarrow> (Inl e, s)
        | (Inr u, it) \<Rightarrow> iter_loop A H cvs f it blank s))"

end
