(* ===== verification/Result_Spec.thy ===== *)
theory Result_Spec
  imports Pqxx_Fields
begin

text \<open>
  What the interface to results promises: the loops visit each row and each field once and in order, \<open>at\<close> refuses what is not there, and
  the two loops that convert rows do the same.  The laws of the iterators come from \<open>traversal\<close> and its extensions.
\<close>

declare iter_loop.simps [simp del]

subsection \<open>Loops\<close>

context traversal
begin

lemma range_for_places:
  "range_for deref inc neq f (place h k) (place h (k + int n)) s = Some (run_bodies f (map (\<lambda>i. val h (k + int i)) [0..<n]) s)"
proof (induction n arbitrary: k s)
  case 0
  show ?case by (simp add: range_for.simps [of deref inc neq] neq_place)
next
  case (Suc n)
  have "place h (k + int (Suc n)) = place h (k + 1 + int n)" by (simp add: algebra_simps)
  moreover have "map (\<lambda>i. val h (k + int i)) [0..<Suc n] = val h k # map (\<lambda>i. val h (k + 1 + int i)) [0..<n]"
    by (simp add: upt_conv_Cons map_Suc_upt [symmetric] algebra_simps del: upt_Suc)
  ultimately show ?case
    using Suc [of "k + 1"]
    by (simp add: range_for.simps [of deref inc neq f "place h k"] neq_place inc_place deref_place split: prod.splits sum.splits)
qed

end

definition row_places :: "'r accessor \<Rightarrow> 'r results \<Rightarrow> nat \<Rightarrow> row_ref list" where
  "row_places A H p = map (\<lambda>i. result_row p (int i)) [0..<nat (result_length A (home H (Some p)))]"

definition field_places :: "'r accessor \<Rightarrow> 'r results \<Rightarrow> row_ref \<Rightarrow> field_ref list" where
  "field_places A H rr = map (\<lambda>i. row_ref_field rr (int i)) [0..<nat (columns_of A (home H (rr_home rr)))]"

lemma rev_places: "rev (map (\<lambda>i. g (int i)) [0..<n]) = map (\<lambda>i. g (int n - 1 - int i)) [0..<n]"
proof (induction n arbitrary: g)
  case (Suc n)
  have "map (\<lambda>i. g (int (Suc n) - 1 - int i)) [0..<Suc n] = g (int n) # map (\<lambda>i. g (int n - 1 - int i)) [0..<n]"
    by (simp add: upt_conv_Cons map_Suc_upt [symmetric] algebra_simps del: upt_Suc)
  then show ?case using Suc [of g] by simp
qed simp

lemma forward_rows: "0 \<le> result_length A (home H (Some p)) \<Longrightarrow>
    visit ri_deref ri_inc ri_neq (ri_begin p) (ri_end A H p) = Some (row_places A H p)"
  using rows.visit_places [of "Some p" 0 "nat (result_length A (home H (Some p)))"]
  by (simp add: ri_begin_def ri_end_def row_places_def result_row_def ri_make_def)

lemma backward_rows: "0 \<le> result_length A (home H (Some p)) \<Longrightarrow>
    visit ri_deref rri_inc rri_neq (rri_begin A H p) (rri_end p) = Some (rev (row_places A H p))"
  using back_rows.visit_places [of "(Some p, result_length A (home H (Some p)))" 0 "nat (result_length A (home H (Some p)))"]
  by (simp add: rri_begin_def rri_end_def ri_begin_def ri_end_def row_places_def result_row_def back_row_def ri_defs rri_defs rev_places
      [of "\<lambda>i. \<lparr>rr_home = Some p, rr_index = i\<rparr>"])

lemma forward_fields: "0 \<le> columns_of A (home H (rr_home rr)) \<Longrightarrow>
    visit fi_deref fi_inc fi_neq (fi_begin rr) (fi_end A H rr) = Some (field_places A H rr)"
  using fields.visit_places [of rr 0 "nat (columns_of A (home H (rr_home rr)))"]
  by (simp add: fi_begin_def fi_end_def field_places_def row_ref_field_def fi_make_def)

lemma backward_fields: "0 \<le> columns_of A (home H (rr_home rr)) \<Longrightarrow>
    visit fi_deref rfi_inc rfi_neq (rfi_begin A H rr) (rfi_end rr) = Some (rev (field_places A H rr))"
  using back_fields.visit_places [of "(rr, columns_of A (home H (rr_home rr)))" 0 "nat (columns_of A (home H (rr_home rr)))"]
  by (simp add: rfi_begin_def rfi_end_def fi_begin_def fi_end_def field_places_def row_ref_field_def back_field_def fi_defs rfi_defs rev_places
      [of "\<lambda>i. \<lparr>fr_home = rr_home rr, fr_row = rr_index rr, fr_col = i\<rparr>"])

text \<open>A result of two rows and two columns, at every address.\<close>

definition small_accessor :: "unit accessor" where
  "small_accessor = \<lparr>pq_ntuples = \<lambda>_. 2, pq_nfields = \<lambda>_. 2, pq_fname = \<lambda>_ _. Some ''c'', pq_fnumber = \<lambda>_ _. 0, pq_ftype = \<lambda>_ _. 25,
     pq_ftable = \<lambda>_ _. 0, pq_ftablecol = \<lambda>_ _. 0, pq_fsize = \<lambda>_ _. -1, pq_fmod = \<lambda>_ _. -1,
     pq_getvalue = \<lambda>_ i j. if i = 0 then ''ab'' else ''c'', pq_getisnull = \<lambda>_ i j. False, pq_getlength = \<lambda>_ i j. if i = 0 then 2 else 1,
     pq_oid_value = \<lambda>_. 0, pq_error_position = \<lambda>_. None\<rparr>"

definition small_results :: "unit results" where
  "small_results = (\<lambda>_. Some \<lparr>m_data = Some (), m_query = None, m_waiters = None, m_encoding = Enc_unknown\<rparr>)"

lemma small_sizes: "result_length small_accessor (home small_results (Some p)) = 2" "columns_of small_accessor (home small_results (Some p)) = 2"
  by (simp_all add: result_length_def columns_of_def home_def small_results_def small_accessor_def)

text \<open>
  C13.  A loop over a result visits its rows from the first to the last, each once, and a loop from \<open>rbegin\<close> to \<open>rend\<close> visits the same rows from
  the last to the first; so do the loops over a row with its fields.
\<close>

theorem loops_visit_all_in_order:
  assumes "0 \<le> result_length A (home H (Some p))" and "0 \<le> columns_of A (home H (rr_home rr))"
  shows "visit ri_deref ri_inc ri_neq (ri_begin p) (ri_end A H p) = Some (row_places A H p)
    \<and> visit ri_deref rri_inc rri_neq (rri_begin A H p) (rri_end p) = Some (rev (row_places A H p))
    \<and> visit fi_deref fi_inc fi_neq (fi_begin rr) (fi_end A H rr) = Some (field_places A H rr)
    \<and> visit fi_deref rfi_inc rfi_neq (rfi_begin A H rr) (rfi_end rr) = Some (rev (field_places A H rr))"
  using assms by (simp add: forward_rows backward_rows forward_fields backward_fields)

theorem loops_visit_all_in_order_witness:
  "visit ri_deref rri_inc rri_neq (rri_begin small_accessor small_results 7) (rri_end 7) = Some [result_row 7 1, result_row 7 0]"
  using loops_visit_all_in_order [of small_accessor small_results 7 "result_row 7 0"]
  by (simp add: small_sizes row_places_def result_row_def numeral_2_eq_2)

subsection \<open>Subscripts\<close>

text \<open>
  On every other iterator \<open>it[d]\<close> is what \<open>it + d\<close> refers to.  A reverse iterator over rows takes the subscript of its base class, which
  counts the other way: \<open>rbegin()[d]\<close> is the row \<open>d\<close> places after the last, which the result does not have when \<open>d\<close> is positive, and not the row \<open>d\<close>
  places before it.
\<close>

theorem reverse_subscript_goes_forward:
  assumes "0 < d" and "n = result_length A (home H (Some p))"
  shows "rri_index (rri_begin A H p) d = result_row p (n - 1 + d)
    \<and> ri_deref (rri_plus (rri_begin A H p) d) = result_row p (n - 1 - d)
    \<and> result_at A H p (rr_index (rri_index (rri_begin A H p) d)) = Inl (Range_error ''Row number out of range.'')
    \<and> rfi_index f d = fi_deref (rfi_plus f d) \<and> ri_index r d = ri_deref (ri_plus r d) \<and> fi_index f d = fi_deref (fi_plus f d)"
  using assms by (simp add: rri_begin_def ri_end_def ri_defs rri_defs fi_defs rfi_defs result_row_def result_at_def)

theorem reverse_subscript_goes_forward_witness:
  "rri_index (rri_begin small_accessor small_results 7) 1 = result_row 7 2"
  using reverse_subscript_goes_forward [of 1 2 small_accessor small_results 7] by (simp add: small_sizes)

text \<open>
  \<open>result::at\<close> and \<open>row_ref::at\<close> give a row or a field exactly when its numbers are in range, and an exception otherwise.  \<open>row::at\<close> tests the upper
  bound alone: it gives a field for every negative column.
\<close>

theorem accessors_check_bounds:
  "(\<exists>r. result_at A H p i = Inr r) \<longleftrightarrow> 0 \<le> i \<and> i < result_length A (home H (Some p))"
  "(\<exists>f. result_at2 A H p i j = Inr f) \<longleftrightarrow> 0 \<le> i \<and> i < result_length A (home H (Some p)) \<and> 0 \<le> j \<and> j < columns_of A (home H (Some p))"
  "(\<exists>f. row_ref_at A H rr j = Inr f) \<longleftrightarrow> rr_home rr \<noteq> None \<and> 0 \<le> j \<and> j < columns_of A (home H (rr_home rr))"
  "(\<exists>f. row_at p r j = Inr f) \<longleftrightarrow> j < row_end r"
  by (auto simp: result_at_def result_at2_def row_ref_at_def row_at_def row_ref_size_def)

subsection \<open>Conversion of whole results\<close>

lemma from_field_as: "from_field A H (m_encoding (home H (fr_home f))) cv f = as_type A H cv f"
  by (simp add: from_field_def as_type_def convert_view_def split: option.splits)

lemma extract_from:
  assumes "length t = length cvs" and "i \<le> length cvs" and "enc = m_encoding (home H (rr_home rr))"
  shows "case first_error (get_field A H cvs rr) [i..<length cvs] of
      Some e \<Rightarrow> fst (extract_fields A H enc rr i (drop i cvs) t) = Inl e
    | None \<Rightarrow> extract_fields A H enc rr i (drop i cvs) t =
        (Inr (), take i t @ map (\<lambda>i. case get_field A H cvs rr i of Inr v \<Rightarrow> v | Inl e \<Rightarrow> undefined) [i..<length cvs])"
  using assms
proof (induction "length cvs - i" arbitrary: i t)
  case 0
  then show ?case by simp
next
  case (Suc m)
  then have i: "i < length cvs" by simp
  then have "drop i cvs = cvs ! i # drop (Suc i) cvs" and "[i..<length cvs] = i # [Suc i..<length cvs]"
    by (simp_all add: Cons_nth_drop_Suc upt_conv_Cons)
  moreover have "from_field A H enc (cvs ! i) (row_ref_field rr (int i)) = get_field A H cvs rr i"
    using Suc.prems from_field_as [of A H "row_ref_field rr (int i)"] by (simp add: get_field_def row_ref_field_def)
  ultimately show ?case
    using Suc.hyps(1) [of "Suc i" "t[i := v]" for v] Suc.hyps(2) Suc.prems i
    by (cases "get_field A H cvs rr i") (auto simp: take_Suc_conv_app_nth split: option.splits)
qed

lemma convert_is_tuple:
  assumes "length t = length cvs"
  shows "case get_tuple A H [0..<length cvs] cvs rr of
      Inl e \<Rightarrow> fst (row_ref_convert A H cvs rr t) = Inl e
    | Inr vs \<Rightarrow> row_ref_convert A H cvs rr t = (Inr (), vs)"
  using extract_from [OF assms, of 0 "m_encoding (home H (rr_home rr))" H rr A]
  by (simp add: row_ref_convert_def get_tuple_def split: option.splits)

lemma tuple_length: "get_tuple A H ord cvs rr = Inr vs \<Longrightarrow> length vs = length cvs"
  by (auto simp: get_tuple_def split: option.splits)

text \<open>What a loop does with a row whose fields are converted in the order \<open>ord\<close>.\<close>

definition on_row :: "'r accessor \<Rightarrow> 'r results \<Rightarrow> nat list \<Rightarrow> 'a conversion list \<Rightarrow> ('a list, 's) body \<Rightarrow> (row_ref, 's) body" where
  "on_row A H ord cvs f rr s = (case get_tuple A H ord cvs rr of Inl e \<Rightarrow> (Inl e, s) | Inr vs \<Rightarrow> f vs s)"

lemma get_field_copy: "home H (Some q) = home H (Some p) \<Longrightarrow> get_field A H cvs (result_row q i) = get_field A H cvs (result_row p i)"
  by (rule ext) (simp add: get_field_def as_type_def convert_view_def field_is_null_def field_view_def field_size_def field_c_str_def
      row_ref_field_def result_row_def)

lemma on_row_copy:
  assumes "home H (Some q) = home H (Some p)"
  shows "on_row A H ord cvs f (result_row q i) = on_row A H ord cvs f (result_row p i)"
  unfolding on_row_def get_tuple_def get_field_copy [OF assms] ..

lemma iter_loop_stops: "rit_home it = None \<Longrightarrow> iter_loop A H cvs f it blank s = (Inr (), s)"
  by (simp add: iter_loop.simps [of A H cvs f it] rit_eq_def rit_end_def)

lemma iter_loop_goes_on:
  "rit_home it = Some q \<Longrightarrow> iter_loop A H cvs f it blank s = (case f (rit_value it) s of
      (Inl e, s') \<Rightarrow> (Inl e, s')
    | (Inr u, s') \<Rightarrow> (case rit_next A H cvs it of (Inl e, it') \<Rightarrow> (Inl e, s') | (Inr u, it') \<Rightarrow> iter_loop A H cvs f it' blank s'))"
  by (simp add: iter_loop.simps [of A H cvs f it] rit_eq_def rit_end_def)

lemma rit_read_row:
  "rit_home it = Some q \<Longrightarrow> rit_read A H cvs it =
    (let (r, t) = row_ref_convert A H cvs (result_row q (rit_index it)) (rit_value it) in (r, it\<lparr>rit_value := t\<rparr>))"
  by (simp add: rit_read_def result_row_def)

lemma iter_loop_rows:
  assumes "length v = length cvs" and "length blank = length cvs" and "0 \<le> i" and "i < n"
  shows "iter_loop A H cvs f \<lparr>rit_home = Some q, rit_index = i, rit_size = n, rit_value = v\<rparr> blank s =
    (case f v s of (Inl e, s') \<Rightarrow> (Inl e, s')
       | (Inr u, s') \<Rightarrow> run_bodies (on_row A H [0..<length cvs] cvs f) (map (\<lambda>k. result_row q (i + 1 + int k)) [0..<nat (n - 1 - i)]) s')"
  using assms(1,3,4)
proof (induction "nat (n - 1 - i)" arbitrary: i v s)
  case 0
  then show ?case
    by (simp add: iter_loop_goes_on rit_next_def iter_loop_stops split: prod.splits sum.splits)
next
  case (Suc m)
  let ?it = "\<lparr>rit_home = Some q, rit_index = i, rit_size = n, rit_value = v\<rparr>"
  have next_row: "i + 1 < n" and m: "m = nat (n - 1 - (i + 1))" using Suc.hyps(2) by simp_all
  have rows: "map (\<lambda>k. result_row q (i + 1 + int k)) [0..<nat (n - 1 - i)] =
      result_row q (i + 1) # map (\<lambda>k. result_row q (i + 1 + 1 + int k)) [0..<nat (n - 1 - (i + 1))]"
    unfolding Suc.hyps(2) [symmetric] m [symmetric]
    by (simp add: upt_conv_Cons map_Suc_upt [symmetric] algebra_simps del: upt_Suc)
  have step: "rit_next A H cvs ?it = (let (r, t) = row_ref_convert A H cvs (result_row q (i + 1)) v in
      (r, \<lparr>rit_home = Some q, rit_index = i + 1, rit_size = n, rit_value = t\<rparr>))"
    using next_row by (simp add: rit_next_def rit_read_row split: prod.splits)
  show ?case
  proof (cases "get_tuple A H [0..<length cvs] cvs (result_row q (i + 1))")
    case (Inl e)
    then have "fst (row_ref_convert A H cvs (result_row q (i + 1)) v) = Inl e"
      using convert_is_tuple [OF Suc.prems(1), of A H "result_row q (i + 1)"] by simp
    with Inl show ?thesis
      by (cases "row_ref_convert A H cvs (result_row q (i + 1)) v")
        (simp add: rows step on_row_def iter_loop_goes_on split: prod.splits sum.splits)
  next
    case (Inr w)
    then have "row_ref_convert A H cvs (result_row q (i + 1)) v = (Inr (), w)"
      using convert_is_tuple [OF Suc.prems(1), of A H "result_row q (i + 1)"] by simp
    with Inr show ?thesis
      using Suc.hyps(1) [OF m tuple_length [OF Inr] _ next_row] Suc.prems
      by (simp add: rows step on_row_def iter_loop_goes_on split: prod.splits sum.splits)
  qed
qed

lemma iter_for_rows:
  assumes "length blank = length cvs" and "columns_of A (home H (Some q)) = int (length cvs)" and "0 \<le> result_length A (home H (Some q))"
  shows "iter_for A H cvs f blank q s = run_bodies (on_row A H [0..<length cvs] cvs f) (row_places A H q) s"
proof (cases "result_length A (home H (Some q)) = 0")
  case True
  then show ?thesis using assms
    by (simp add: iter_for_def iteration_make_def expect_columns_def iteration_begin_def row_places_def
        rit_end_def iter_loop_stops)
next
  case False
  define n where "n = result_length A (home H (Some q))"
  have n: "0 < n" using False assms(3) by (simp add: n_def)
  have "\<not> result_is_empty A (home H (Some q))"
    using False by (simp add: result_is_empty_def result_length_def split: option.splits)
  moreover have rows: "row_places A H q = result_row q 0 # map (\<lambda>k. result_row q (0 + 1 + int k)) [0..<nat (n - 1 - 0)]"
  proof -
    have "nat n = Suc (nat (n - 1))" using n by simp
    then show ?thesis
      by (simp add: row_places_def n_def [symmetric] upt_conv_Cons map_Suc_upt [symmetric] algebra_simps del: upt_Suc)
  qed
  moreover have "case get_tuple A H [0..<length cvs] cvs (result_row q 0) of
      Inl e \<Rightarrow> fst (row_ref_convert A H cvs (result_row q 0) blank) = Inl e
    | Inr vs \<Rightarrow> row_ref_convert A H cvs (result_row q 0) blank = (Inr (), vs)"
    by (rule convert_is_tuple [OF assms(1)])
  ultimately show ?thesis
    using assms False n iter_loop_rows [of _ cvs blank 0 n A H f q s, simplified] tuple_length [of A H "[0..<length cvs]" cvs "result_row q 0"]
    by (cases "get_tuple A H [0..<length cvs] cvs (result_row q 0)")
      (auto simp: iter_for_def iteration_make_def expect_columns_def iteration_begin_def rit_make_def rit_read_row on_row_def
        n_def [symmetric] split: prod.splits sum.splits)
qed

lemma run_bodies_cong: "(\<And>v s. v \<in> set vs \<Longrightarrow> f v s = g v s) \<Longrightarrow> run_bodies f vs s = run_bodies g vs s"
  by (induction vs arbitrary: s) (simp_all split: prod.splits sum.splits)

lemma run_bodies_map: "run_bodies f (map h vs) s = run_bodies (\<lambda>v. f (h v)) vs s"
  by (induction vs arbitrary: s) (simp_all split: prod.splits sum.splits)

lemma for_each_rows:
  assumes "columns_of A (home H (Some p)) = int (length cvs)" and "0 \<le> result_length A (home H (Some p))"
  shows "result_for_each A H ord cvs f p s = Some (run_bodies (on_row A H ord cvs f) (row_places A H p) s)"
proof -
  let ?g = "\<lambda>r s. case as_tuple A H ord cvs r of Inl e \<Rightarrow> (Inl e, s) | Inr t \<Rightarrow> f t s"
  have "run_bodies ?g (row_places A H p) s = run_bodies (on_row A H ord cvs f) (row_places A H p) s"
    by (rule run_bodies_cong) (auto simp: row_places_def as_tuple_def check_size_def row_ref_size_def result_row_def on_row_def assms(1))
  then show ?thesis
    using rows.range_for_places [of ?g "Some p" 0 "nat (result_length A (home H (Some p)))" s] assms
    by (simp add: result_for_each_def ri_begin_def ri_end_def row_places_def result_row_def ri_make_def)
qed

text \<open>
  The order in which the fields of a row are converted decides only which exception leaves a row with several fields that cannot be
  converted.  \<open>same_end A H cvs rrs\<close> relates two ends of a loop over the rows \<open>rrs\<close>: they are the same, or exceptions of two fields of one row.
\<close>

definition same_end :: "'r accessor \<Rightarrow> 'r results \<Rightarrow> 'a conversion list \<Rightarrow> row_ref list \<Rightarrow> exn + unit \<Rightarrow> exn + unit \<Rightarrow> bool" where
  "same_end A H cvs rrs x y \<longleftrightarrow> x = y \<or> (\<exists>rr \<in> set rrs. \<exists>i < length cvs. \<exists>j < length cvs. \<exists>e e'.
     x = Inl e \<and> y = Inl e' \<and> get_field A H cvs rr i = Inl e \<and> get_field A H cvs rr j = Inl e')"

lemma first_error_from: "first_error g is = Some e \<Longrightarrow> \<exists>i \<in> set is. g i = Inl e"
  by (induction "is") (auto split: sum.splits)

lemma first_error_none: "first_error g is = None \<longleftrightarrow> (\<forall>i \<in> set is. \<exists>v. g i = Inr v)"
  by (induction "is") (auto split: sum.splits)

lemma tuple_of_order:
  assumes "set ord = {..<length cvs}"
  shows "case get_tuple A H [0..<length cvs] cvs rr of
      Inr vs \<Rightarrow> get_tuple A H ord cvs rr = Inr vs
    | Inl e \<Rightarrow> (\<exists>e'. get_tuple A H ord cvs rr = Inl e' \<and> same_end A H cvs [rr] (Inl e') (Inl e))"
proof (cases "first_error (get_field A H cvs rr) [0..<length cvs]")
  case None
  moreover have "first_error (get_field A H cvs rr) ord = None"
    using None assms by (simp add: first_error_none atLeast0LessThan)
  ultimately show ?thesis by (simp add: get_tuple_def)
next
  case (Some e)
  then have "first_error (get_field A H cvs rr) ord \<noteq> None"
    using first_error_none [of "get_field A H cvs rr" "[0..<length cvs]"] assms by (auto simp: first_error_none)
  then obtain e' where e': "first_error (get_field A H cvs rr) ord = Some e'" by auto
  obtain i j where "i < length cvs" "get_field A H cvs rr i = Inl e'" "j < length cvs" "get_field A H cvs rr j = Inl e"
    using first_error_from [OF e'] first_error_from [OF Some] assms by auto
  with Some e' show ?thesis by (auto simp: get_tuple_def same_end_def)
qed

lemma same_end_more: "same_end A H cvs rrs x y \<Longrightarrow> set rrs \<subseteq> set rrs' \<Longrightarrow> same_end A H cvs rrs' x y"
  by (fastforce simp: same_end_def)

lemma rows_in_order:
  assumes "set ord = {..<length cvs}"
  shows "\<exists>x y s'. run_bodies (on_row A H ord cvs f) rrs s = (x, s') \<and> run_bodies (on_row A H [0..<length cvs] cvs f) rrs s = (y, s')
    \<and> same_end A H cvs rrs x y"
proof (induction rrs arbitrary: s)
  case Nil
  show ?case by (simp add: same_end_def)
next
  case (Cons rr rrs)
  note order = tuple_of_order [OF assms, of A H rr]
  show ?case
  proof (cases "get_tuple A H [0..<length cvs] cvs rr")
    case (Inl e)
    then show ?thesis using order same_end_more [of A H cvs "[rr]" _ _ "rr # rrs"] by (auto simp: on_row_def)
  next
    case (Inr vs)
    show ?thesis
    proof (cases "f vs s")
      case (Pair r s1)
      then show ?thesis using Inr order Cons [of s1] same_end_more [of A H cvs rrs _ _ "rr # rrs", OF _ set_subset_Cons]
        by (cases r) (auto simp: on_row_def same_end_def [of A H cvs _ "Inl _" "Inl _"])
    qed
  qed
qed

text \<open>
  C12.  \<open>result::for_each\<close> over a result and a loop over \<open>result::iter\<close>, which is over a copy of it, do the same on a result with as many columns as
  there are types: they convert the rows in order, call the body with the same tuples, leave the same state behind, and end with the
  first exception of a conversion or of the body.  \<open>for_each\<close> converts the fields of a row in an order \<open>ord\<close> that C++ leaves open: when that is
  not from left to right, the two may throw the exceptions of different fields of the same row, and nothing else differs.  A wrong number of columns is
  refused by both before the first row, each with a usage error of its own text.
\<close>

theorem iter_agrees_with_for_each:
  assumes "home H (Some q) = home H (Some p)" and "length blank = length cvs" and "0 \<le> result_length A (home H (Some p))"
    and "set ord = {..<length cvs}"
  shows "if columns_of A (home H (Some p)) = int (length cvs)
    then iter_for A H cvs f blank q s = run_bodies (on_row A H [0..<length cvs] cvs f) (row_places A H p) s
      \<and> (\<exists>x y s'. result_for_each A H ord cvs f p s = Some (x, s') \<and> iter_for A H cvs f blank q s = (y, s')
          \<and> same_end A H cvs (row_places A H p) x y \<and> (ord = [0..<length cvs] \<longrightarrow> x = y))
    else result_for_each A H ord cvs f p s = Some (Inl (Usage_error (''Callback to for_each takes '' @ int_to_string (int (length cvs))
          @ '' parameter(s), but result set has '' @ int_to_string (columns_of A (home H (Some p))) @ '' field(s).'')), s)
      \<and> (\<exists>e. expect_columns A (home H (Some p)) (int (length cvs)) = Inl (Usage_error e) \<and> iter_for A H cvs f blank q s = (Inl (Usage_error e), s))"
proof (cases "columns_of A (home H (Some p)) = int (length cvs)")
  case True
  have "run_bodies (on_row A H [0..<length cvs] cvs f) (row_places A H q) s = run_bodies (on_row A H [0..<length cvs] cvs f) (row_places A H p) s"
    by (simp only: row_places_def assms(1) run_bodies_map on_row_copy [OF assms(1)])
  then have "iter_for A H cvs f blank q s = run_bodies (on_row A H [0..<length cvs] cvs f) (row_places A H p) s"
    using True assms iter_for_rows [of blank cvs A H q f s] by simp
  then show ?thesis
    using True assms(3) for_each_rows [of A H p cvs ord f s] rows_in_order [OF assms(4), of A H f "row_places A H p" s] by auto
next
  case False
  then show ?thesis
    using assms(1) by (auto simp: result_for_each_def iter_for_def iteration_make_def expect_columns_def Let_def)
qed

definition text_conversion :: "string conversion" where
  "text_conversion = \<lparr>cv_name = ''std::string'', cv_null = None, cv_text = \<lambda>_. Inr\<rparr>"

lemma small_tuple: "get_tuple small_accessor small_results [0, Suc 0] [text_conversion, text_conversion] (result_row 7 i) =
    Inr (if i = 0 then [''ab'', ''ab''] else [''c'', ''c''])"
  by (simp add: upt_conv_Cons get_tuple_def get_field_def as_type_def field_is_null_def convert_view_def field_view_def field_size_def
      field_c_str_def text_conversion_def small_accessor_def row_ref_field_def result_row_def)

theorem iter_agrees_with_for_each_witness:
  "\<exists>x. result_for_each small_accessor small_results [1, 0] [text_conversion, text_conversion] (\<lambda>t log. (Inr (), log @ [t])) 7 [] =
    Some (x, [[''ab'', ''ab''], [''c'', ''c'']])"
proof -
  let ?two = "[text_conversion, text_conversion]" and ?f = "\<lambda>t log. (Inr (), log @ [t])"
  have home: "home small_results (Some 8) = home small_results (Some 7)" by (simp add: home_def small_results_def)
  have order: "set [1, 0] = {..<length ?two}" by (simp add: lessThan_Suc)
  have two: "length [[], []] = length ?two" "0 \<le> result_length small_accessor (home small_results (Some 7))"
    "columns_of small_accessor (home small_results (Some 7)) = int (length ?two)" by (simp_all add: small_sizes)
  have run: "run_bodies (on_row small_accessor small_results [0..<length ?two] ?two ?f) (row_places small_accessor small_results 7) [] =
      (Inr (), [[''ab'', ''ab''], [''c'', ''c'']])"
    by (simp add: small_sizes row_places_def on_row_def small_tuple upt_conv_Cons)
  note agree = iter_agrees_with_for_each [OF home two(1,2) order, of ?f "[]", unfolded if_P [OF two(3)] run]
  from conjunct2 [OF agree, unfolded conjunct1 [OF agree]] obtain x y s'
    where "result_for_each small_accessor small_results [1, 0] ?two ?f 7 [] = Some (x, s')"
      "(Inr () :: exn + unit, [[''ab'', ''ab''], [''c'', ''c'']]) = (y, s')" by (elim exE conjE) (rule that)
  then show ?thesis by simp
qed

end
