(* ===== verification/Pqxx_Params.thy ===== *)
theory Pqxx_Params
  imports Pqxx_Quote Pqxx_Kinds
begin

text \<open>
  Statement parameters and prepared statements: \<open>params.hxx\<close>, \<open>params.cxx\<close>, \<open>internal/statement_parameters.hxx\<close>, the functions of
  \<open>connection.cxx\<close> and \<open>transaction_base.cxx\<close> that send a statement with parameters, and the placeholders of their texts.
\<close>

subsection \<open>Parameters\<close>

text \<open>An entry of a \<open>params\<close>: a null, a text or binary data, each held here or elsewhere.\<close>

datatype param_entry = E_null | E_zview string | E_string string | E_bytes_view string | E_bytes string

record params =
  m_params :: "param_entry list"
  m_enc :: encoding_group

definition empty_params :: params where
  "empty_params = \<lparr>m_params = [], m_enc = Enc_unknown\<rparr>"

text \<open>What is appended: an entry as it is, all entries of other parameters, or a value with its conversion, which may be null.\<close>

record 'a writer =
  wr_null :: "'a \<Rightarrow> bool"
  wr_text :: "encoding_group \<Rightarrow> 'a \<Rightarrow> exn + string"

datatype 'a argument = Arg_entry param_entry | Arg_params params | Arg_value 'a

definition append_entry :: "param_entry \<Rightarrow> params \<Rightarrow> params" where
  "append_entry e p = p\<lparr>m_params := m_params p @ [e]\<rparr>"

definition append_params :: "params \<Rightarrow> params \<Rightarrow> params" where
  "append_params v p = fold append_entry (m_params v) p"

text \<open>The overload for a temporary empties it: it gives the parameters and what is left of the argument.\<close>

definition append_moved :: "params \<Rightarrow> params \<Rightarrow> params \<times> params" where
  "append_moved v p = (fold append_entry (m_params v) p, v\<lparr>m_params := []\<rparr>)"

definition append_value :: "'a writer \<Rightarrow> 'a \<Rightarrow> params \<Rightarrow> exn + params" where
  "append_value wr v p = (if wr_null wr v then Inr (append_entry E_null p)
     else map_sum id (\<lambda>s. append_entry (E_string s) p) (wr_text wr (m_enc p) v))"

definition append_argument :: "'a writer \<Rightarrow> 'a argument \<Rightarrow> params \<Rightarrow> exn + params" where
  "append_argument wr a p = (case a of Arg_entry e \<Rightarrow> Inr (append_entry e p) | Arg_params v \<Rightarrow> Inr (append_params v p) | Arg_value v \<Rightarrow> append_value wr v p)"

fun append_pack :: "'a writer \<Rightarrow> 'a argument list \<Rightarrow> params \<Rightarrow> exn + params" where
  "append_pack wr [] p = Inr p"
| "append_pack wr (a # as) p = (case append_argument wr a p of Inl e \<Rightarrow> Inl e | Inr p' \<Rightarrow> append_pack wr as p')"

definition append_multi :: "'a writer \<Rightarrow> 'a list \<Rightarrow> params \<Rightarrow> exn + params" where
  "append_multi wr vs p = append_pack wr (map Arg_value vs) p"

text \<open>The constructor: a first argument that has an encoding gives it and is no parameter.\<close>

definition make_params :: "'a writer \<Rightarrow> encoding_group option \<Rightarrow> 'a argument list \<Rightarrow> exn + params" where
  "make_params wr first args = append_pack wr args (case first of None \<Rightarrow> empty_params | Some enc \<Rightarrow> empty_params\<lparr>m_enc := enc\<rparr>)"

datatype param_fmt = Format_text | Format_binary

record c_params =
  cp_values :: "string option list"
  cp_lengths :: "int list"
  cp_formats :: "param_fmt list"

definition param_format :: "param_entry \<Rightarrow> param_fmt" where
  "param_format e = (case e of E_bytes_view _ \<Rightarrow> Format_binary | E_bytes _ \<Rightarrow> Format_binary | _ \<Rightarrow> Format_text)"

definition entry_data :: "param_entry \<Rightarrow> string option" where
  "entry_data e = (case e of E_null \<Rightarrow> None | E_zview s \<Rightarrow> Some s | E_string s \<Rightarrow> Some s | E_bytes_view s \<Rightarrow> Some s | E_bytes s \<Rightarrow> Some s)"

definition int_cast :: "string \<Rightarrow> int \<Rightarrow> string \<Rightarrow> exn + int" where
  "int_cast from_type v description = (if v > 2 ^ 31 - 1
     then Inl (Range_error (''Overflow casting '' @ int_to_string v @ '' from '' @ from_type @ '' to int: '' @ description)) else Inr v)"

fun c_params_loop :: "param_entry list \<Rightarrow> c_params \<Rightarrow> exn + c_params" where
  "c_params_loop [] p = Inr p"
| "c_params_loop (e # es) p = (case entry_data e of
     None \<Rightarrow> c_params_loop es \<lparr>cp_values = cp_values p @ [None], cp_lengths = cp_lengths p @ [0], cp_formats = cp_formats p @ [param_format e]\<rparr>
   | Some s \<Rightarrow> (case int_cast ''long'' (int (length s)) ''Statement parameter length overflow.'' of
        Inl x \<Rightarrow> Inl x
      | Inr n \<Rightarrow> c_params_loop es \<lparr>cp_values = cp_values p @ [Some s], cp_lengths = cp_lengths p @ [n], cp_formats = cp_formats p @ [param_format e]\<rparr>))"

definition make_c_params :: "params \<Rightarrow> exn + c_params" where
  "make_c_params p = c_params_loop (m_params p) \<lparr>cp_values = [], cp_lengths = [], cp_formats = []\<rparr>"

subsection \<open>Placeholders\<close>

text \<open>
  The type of the counter: its width in bits, and whether it has a sign.  The buffer has two bytes more than the counter has certain digits, and
  one for the terminating zero; the counter is not negative.
\<close>

record counter_type =
  ct_signed :: bool
  ct_width :: nat

definition max_params :: "counter_type \<Rightarrow> int" where
  "max_params T = (if ct_signed T then 2 ^ (ct_width T - 1) - 1 else 2 ^ ct_width T - 1)"

record placeholders =
  m_current :: int
  m_len :: int
  m_buf :: string

text \<open>Bytes past the text are not set by the constructor; \<open>junk\<close> is what they hold.\<close>

definition placeholders_new :: "counter_type \<Rightarrow> string \<Rightarrow> placeholders" where
  "placeholders_new T junk = \<lparr>m_current = 1, m_len = 2, m_buf = take (digits10 (ct_width T) + 3) ([CHR ''$'', CHR ''1'', CHR 0x00] @ junk)\<rparr>"

definition placeholder_view :: "placeholders \<Rightarrow> string" where
  "placeholder_view p = take (nat (m_len p)) (m_buf p)"

definition overwrite :: "string \<Rightarrow> nat \<Rightarrow> string \<Rightarrow> string" where
  "overwrite buf i s = take i buf @ s @ drop (i + length s) buf"

text \<open>\<open>into_buf\<close> on the bytes \<open>a\<close> to \<open>b\<close> of a buffer: \<open>to_buf\<close> writes at their end, and the text is moved to their start.\<close>

definition counter_into_buf :: "counter_type \<Rightarrow> nat \<Rightarrow> nat \<Rightarrow> int \<Rightarrow> string \<Rightarrow> exn + (nat \<times> string)" where
  "counter_into_buf T a b value buf =
     (if b - a < (if ct_signed T then 1 else 0) + digits10 (ct_width T) + 1 then Inl Conversion_overrun
      else (let text = nonneg_to_buf value []; buf' = overwrite buf (b - length text) text in
        Inr (length text, overwrite buf' a (take (length text) (drop (b - length text) buf')))))"

definition placeholders_next :: "counter_type \<Rightarrow> placeholders \<Rightarrow> (exn + unit) \<times> placeholders" where
  "placeholders_next T p =
     (if m_current p \<ge> max_params T
      then (Inl (Range_error (''Too many parameters in one statement: limit is '' @ int_to_string (max_params T) @ ''.'')), p)
      else (let p' = p\<lparr>m_current := m_current p + 1\<rparr> in
        if m_current p' mod 10 = 0
        then (case counter_into_buf T 1 (length (m_buf p') - 1) (m_current p') (m_buf p') of
            Inl e \<Rightarrow> (Inl e, p')
          | Inr (written, buf) \<Rightarrow> (Inr (), p'\<lparr>m_buf := buf[1 + written := CHR 0x00], m_len := int (1 + written)\<rparr>))
        else (Inr (), p'\<lparr>m_buf := (m_buf p')[nat (m_len p') - 1 := char_of (of_char (m_buf p' ! (nat (m_len p') - 1)) + (1 :: int))]\<rparr>)))"

subsection \<open>Statements with parameters\<close>

text \<open>The functions of libpq; a null result is \<open>None\<close>.\<close>

record 'db statement_calls =
  pq_prepare :: "string \<Rightarrow> string \<Rightarrow> 'db \<Rightarrow> pgresult option \<times> 'db"
  pq_exec_prepared :: "string \<Rightarrow> c_params \<Rightarrow> 'db \<Rightarrow> pgresult option \<times> 'db"
  pq_exec_params :: "string \<Rightarrow> c_params \<Rightarrow> 'db \<Rightarrow> pgresult option \<times> 'db"

definition conn_prepare :: "'db libpq \<Rightarrow> 'db statement_calls \<Rightarrow> string \<Rightarrow> string \<Rightarrow> (('db, 'z) session_scheme, unit) prog" where
  "conn_prepare pq S name text = (\<lambda>w. let (r, d) = pq_prepare S name text (db w) in sq (make_result pq r) (ret ()) (w\<lparr>db := d\<rparr>))"

definition conn_unprepare :: "'db libpq \<Rightarrow> 'db quoter \<Rightarrow> string \<Rightarrow> (('db, 'z) session_scheme, unit) prog" where
  "conn_unprepare pq Q name = bnd (quote_name pq Q name) (\<lambda>n. sq (conn_exec pq (''DEALLOCATE '' @ n)) (ret ()))"

definition conn_exec_prepared :: "'db libpq \<Rightarrow> 'db statement_calls \<Rightarrow> string \<Rightarrow> c_params \<Rightarrow> (('db, 'z) session_scheme, pgresult) prog" where
  "conn_exec_prepared pq S statement args = bnd (lift_exn (int_cast ''unsigned long'' (int (length (cp_values args))) ''exec_prepared'')) (\<lambda>n w.
     let (r, d) = pq_exec_prepared S (c_str statement) args (db w) in
     bnd (make_result pq r) (\<lambda>res. sq (get_notifs pq) (ret res)) (w\<lparr>db := d\<rparr>))"

definition conn_exec_params :: "'db libpq \<Rightarrow> 'db statement_calls \<Rightarrow> string \<Rightarrow> c_params \<Rightarrow> (('db, 'z) session_scheme, pgresult) prog" where
  "conn_exec_params pq S query args = bnd (lift_exn (int_cast ''unsigned long'' (int (length (cp_values args))) ''exec_params'')) (\<lambda>n w.
     let (r, d) = pq_exec_params S (c_str query) args (db w) in
     bnd (make_result pq r) (\<lambda>res. sq (get_notifs pq) (ret res)) (w\<lparr>db := d\<rparr>))"

definition internal_exec_prepared :: "'db libpq \<Rightarrow> 'db statement_calls \<Rightarrow> nat \<Rightarrow> string \<Rightarrow> c_params \<Rightarrow> (('db, 'z) session_scheme, pgresult) prog" where
  "internal_exec_prepared pq S t statement args = sq (register_focus t (''command'', statement))
     (guard_with (conn_exec_prepared pq S statement args) (\<lambda>w. snd (unregister_focus t (''command'', statement) w)))"

definition internal_exec_params :: "'db libpq \<Rightarrow> 'db statement_calls \<Rightarrow> nat \<Rightarrow> string \<Rightarrow> c_params \<Rightarrow> (('db, 'z) session_scheme, pgresult) prog" where
  "internal_exec_params pq S t query args = sq (register_focus t (''command'', query))
     (guard_with (conn_exec_params pq S query args) (\<lambda>w. snd (unregister_focus t (''command'', query) w)))"

definition exec_with :: "'db libpq \<Rightarrow> 'db statement_calls \<Rightarrow> nat \<Rightarrow> string \<Rightarrow> params \<Rightarrow> (('db, 'z) session_scheme, pgresult) prog" where
  "exec_with pq S t query parms = bnd (lift_exn (make_c_params parms)) (internal_exec_params pq S t query)"

definition exec_prepped :: "'db libpq \<Rightarrow> 'db statement_calls \<Rightarrow> nat \<Rightarrow> string \<Rightarrow> params \<Rightarrow> (('db, 'z) session_scheme, pgresult) prog" where
  "exec_prepped pq S t statement parms = bnd (lift_exn (make_c_params parms)) (internal_exec_prepared pq S t statement)"

definition rows_expected :: "int \<Rightarrow> pgresult \<Rightarrow> exn + pgresult" where
  "rows_expected n r = (if int (length (pg_rows r)) \<noteq> n then Inl Unexpected_rows else Inr r)"

definition tx_exec_n :: "'db libpq \<Rightarrow> nat \<Rightarrow> int \<Rightarrow> string \<Rightarrow> (('db, 'z) session_scheme, pgresult) prog" where
  "tx_exec_n pq t rows query = bnd (tx_exec pq t query) (\<lambda>r. lift_exn (rows_expected rows r))"

text \<open>\<open>query_value\<close> converts the one field by \<open>as\<close>, the conversion of a field or a null.\<close>

definition query_value :: "'db libpq \<Rightarrow> nat \<Rightarrow> (cell \<Rightarrow> exn + 'a) \<Rightarrow> string \<Rightarrow> (('db, 'z) session_scheme, 'a) prog" where
  "query_value pq t conv query = bnd (tx_exec pq t query) (\<lambda>r. bnd (lift_exn (one_field query r)) (\<lambda>c. lift_exn (conv c)))"

definition query_value_with :: "'db libpq \<Rightarrow> 'db statement_calls \<Rightarrow> nat \<Rightarrow> (cell \<Rightarrow> exn + 'a) \<Rightarrow> string \<Rightarrow> params \<Rightarrow> (('db, 'z) session_scheme, 'a) prog" where
  "query_value_with pq S t conv query parms = bnd (exec_with pq S t query parms) (\<lambda>r. bnd (lift_exn (one_field query r)) (\<lambda>c. lift_exn (conv c)))"

text \<open>\<open>transaction_base::notify\<close>: the channel and the payload are texts, kept in the encoding of the connection.\<close>

definition tx_notify :: "'db libpq \<Rightarrow> 'db statement_calls \<Rightarrow> nat \<Rightarrow> string \<Rightarrow> string \<Rightarrow> (('db, 'z) session_scheme, unit) prog" where
  "tx_notify pq S t channel payload = bnd (get_encoding_group pq) (\<lambda>enc.
     bnd (lift_exn (make_params \<lparr>wr_null = \<lambda>_. False, wr_text = \<lambda>_. Inr\<rparr> (Some enc) [Arg_value channel, Arg_value payload])) (\<lambda>parms.
     bnd (exec_with pq S t ''SELECT pg_notify($1, $2)'' parms) (\<lambda>r. bnd (lift_exn (one_row r)) (\<lambda>_. ret ()))))"

end
