(* ===== verification/Params_Spec.thy ===== *)
theory Params_Spec
  imports Pqxx_Params
begin

text \<open>
  Placeholders count in decimal, parameters reach libpq as they were given, and what a transaction that is over does with them.
\<close>

subsection \<open>Placeholders\<close>

definition placeholder :: "int \<Rightarrow> string" where
  "placeholder k = CHR ''$'' # int_to_string k"

text \<open>\<open>next\<close>, called \<open>n\<close> times.\<close>

fun nexts :: "counter_type \<Rightarrow> nat \<Rightarrow> placeholders \<Rightarrow> (exn + unit) \<times> placeholders" where
  "nexts T 0 p = (Inr (), p)"
| "nexts T (Suc n) p = (case nexts T n p of (Inl e, p') \<Rightarrow> (Inl e, p') | (Inr u, p') \<Rightarrow> placeholders_next T p')"

text \<open>The types the library has conversions for, with room for all their digits.\<close>

definition counting :: "counter_type \<Rightarrow> bool" where
  "counting T \<longleftrightarrow> \<not> ct_signed T \<and> ct_width T \<in> {16, 32}"

text \<open>The buffer of a placeholder of a number.\<close>

definition shows_number :: "counter_type \<Rightarrow> int \<Rightarrow> placeholders \<Rightarrow> bool" where
  "shows_number T k p \<longleftrightarrow> m_current p = k \<and> m_len p = int (length (placeholder k)) \<and> length (m_buf p) = digits10 (ct_width T) + 3
     \<and> placeholder_view p = placeholder k"

lemma dec_step: "10 \<le> n \<Longrightarrow> dec n = dec (n div 10) @ [digit_char (n mod 10)]"
  by (subst dec.simps) simp

lemma dec_unit: "n < 10 \<Longrightarrow> dec n = [digit_char n]"
  by (subst dec.simps) simp

lemma succ_digit: "0 \<le> d \<Longrightarrow> d < 9 \<Longrightarrow> (char_of (of_char (digit_char d) + (1 :: int)) :: char) = digit_char (d + 1)"
  by (simp add: of_digit_char digit_char_def add.commute)

text \<open>The next number has the same digits but the last, unless that one is a nine.\<close>

lemma dec_succ:
  assumes "0 \<le> n" and "(n + 1) mod 10 \<noteq> 0"
  shows "dec (n + 1) = (dec n)[length (dec n) - 1 := char_of (of_char (last (dec n)) + (1 :: int))]"
proof (cases "n < 9")
  case True
  then show ?thesis using assms by (simp add: dec_unit succ_digit)
next
  case False
  have d: "n mod 10 \<noteq> 9" using assms(2) by presburger
  then have less: "n mod 10 < 9" using pos_mod_bound [of 10 n] by simp
  have m: "(n + 1) mod 10 = n mod 10 + 1" using d by presburger
  have q: "(n + 1) div 10 = n div 10" using d by presburger
  have "n \<noteq> 9" using d by auto
  then have "10 \<le> n" using False by simp
  then have "dec n = dec (n div 10) @ [digit_char (n mod 10)]" and "dec (n + 1) = dec (n div 10) @ [digit_char (n mod 10 + 1)]"
    using dec_step [of n] dec_step [of "n + 1"] unfolding m q by simp_all
  then show ?thesis using succ_digit [OF _ less] by simp
qed

lemma length_dec_bound: "0 \<le> n \<Longrightarrow> n < 10 ^ k \<Longrightarrow> 0 < k \<Longrightarrow> length (dec n) \<le> k"
proof (induction k arbitrary: n)
  case (Suc k)
  show ?case
  proof (cases "n < 10")
    case True
    then show ?thesis by (simp add: dec_unit)
  next
    case False
    then have "n div 10 < 10 ^ k" and "0 < k" using Suc.prems by (auto intro: Nat.gr0I)
    then show ?thesis using Suc.IH [of "n div 10"] Suc.prems False by (simp add: dec_step)
  qed
qed simp

lemma counting_digits:
  assumes "counting T" and "0 \<le> k" and "k \<le> max_params T"
  shows "length (dec k) \<le> digits10 (ct_width T) + 1"
  using assms length_dec_bound [of k 5] length_dec_bound [of k 10]
  by (auto simp: counting_def max_params_def digits10_def)

lemma length_overwrite [simp]: "i + length s \<le> length buf \<Longrightarrow> length (overwrite buf i s) = length buf"
  by (simp add: overwrite_def)

lemma written_at_end:
  assumes "n = length text" and "n \<le> b - a" and "a \<le> b" and "b \<le> length buf"
  shows "take n (drop (b - n) (overwrite buf (b - n) text)) = text"
  using assms by (simp add: overwrite_def)

lemma moved_to_start:
  assumes "a + length text \<le> length buf"
  shows "take (length text) (drop a (overwrite buf a text)) = text" and "take a (overwrite buf a text) = take a buf"
  using assms by (simp_all add: overwrite_def)

lemma take_take_drop: "take a xs @ take n (drop a xs) = take (a + n) xs"
  by (simp add: take_add)

lemma counter_text:
  assumes "\<not> ct_signed T" and "length buf = digits10 (ct_width T) + 3" and "0 \<le> k" and "length (dec k) \<le> digits10 (ct_width T) + 1"
  shows "\<exists>buf'. counter_into_buf T 1 (length buf - 1) k buf = Inr (length (dec k), buf') \<and> length buf' = length buf
    \<and> take (1 + length (dec k)) buf' = take 1 buf @ dec k"
proof -
  let ?n = "length (dec k)" and ?b = "length buf - 1"
  let ?moved = "overwrite (overwrite buf (?b - ?n) (dec k)) 1 (dec k)"
  have fits: "?n \<le> ?b - 1" and b: "1 \<le> ?b" using assms(2,4) by simp_all
  have "take ?n (drop (?b - ?n) (overwrite buf (?b - ?n) (dec k))) = dec k"
    using written_at_end [of ?n "dec k" ?b 1 buf] fits b by simp
  then have "counter_into_buf T 1 ?b k buf = Inr (?n, ?moved)"
    using assms by (simp add: counter_into_buf_def nonneg_to_buf_dec Let_def)
  moreover have "length ?moved = length buf" using fits b by simp
  moreover have "take (1 + ?n) ?moved = take 1 ?moved @ dec k"
    using moved_to_start(1) [of 1 "dec k" "overwrite buf (?b - ?n) (dec k)"] fits b unfolding take_add by simp
  moreover have "take 1 ?moved = take 1 buf"
    using moved_to_start(2) [of 1 "dec k" "overwrite buf (?b - ?n) (dec k)"] fits b by (simp add: overwrite_def)
  ultimately show ?thesis by metis
qed

lemma placeholder_dec: "0 \<le> k \<Longrightarrow> placeholder k = CHR ''$'' # dec k"
  by (simp add: placeholder_def int_to_string_def)

lemma next_shows:
  assumes "counting T" and "0 < k" and "k < max_params T" and p: "shows_number T k p"
  shows "\<exists>p'. placeholders_next T p = (Inr (), p') \<and> shows_number T (k + 1) p'"
proof -
  have k: "m_current p = k" and len: "m_len p = int (1 + length (dec k))" and size: "length (m_buf p) = digits10 (ct_width T) + 3"
    and shown: "take (1 + length (dec k)) (m_buf p) = CHR ''$'' # dec k"
    using p assms(2) by (auto simp: shows_number_def placeholder_dec placeholder_view_def simp del: of_nat_Suc)
  have digits: "length (dec k) \<le> digits10 (ct_width T) + 1" "length (dec (k + 1)) \<le> digits10 (ct_width T) + 1"
    using counting_digits [OF assms(1)] assms(2,3) by simp_all
  show ?thesis
  proof (cases "(k + 1) mod 10 = 0")
    case True
    obtain buf' where b: "counter_into_buf T 1 (length (m_buf p) - 1) (k + 1) (m_buf p) = Inr (length (dec (k + 1)), buf')"
      and "length buf' = length (m_buf p)" and "take (1 + length (dec (k + 1))) buf' = take 1 (m_buf p) @ dec (k + 1)"
      using counter_text [of T "m_buf p" "k + 1"] assms(1,2) size digits(2) by (auto simp: counting_def)
    moreover have "take 1 (m_buf p) = [CHR ''$'']"
      using arg_cong [OF shown, of "take 1"] by simp
    ultimately show ?thesis
      using True assms(2,3) k size
      by (simp add: placeholders_next_def shows_number_def placeholder_dec placeholder_view_def del: of_nat_Suc)
  next
    case False
    have "dec (k + 1) = (dec k)[length (dec k) - 1 := char_of (of_char (last (dec k)) + (1 :: int))]"
      using dec_succ [of k] False assms(2) by simp
    moreover have "m_buf p ! length (dec k) = last (dec k)"
      using arg_cong [OF shown, of "\<lambda>s. s ! length (dec k)"] by (simp add: last_conv_nth nth_Cons')
    ultimately show ?thesis
      using False assms(2,3) k len size shown
      by (simp add: placeholders_next_def shows_number_def placeholder_dec placeholder_view_def take_update_swap
          split: nat.splits del: of_nat_Suc)
  qed
qed

lemma new_shows:
  assumes "counting T" and "digits10 (ct_width T) \<le> length junk"
  shows "shows_number T 1 (placeholders_new T junk)"
  using assms by (auto simp: shows_number_def placeholders_new_def placeholder_dec placeholder_view_def counting_def digits10_def dec_unit digit_char_def
      numeral_eq_Suc char_of_def)

lemma nexts_shows:
  assumes "counting T" and "digits10 (ct_width T) \<le> length junk" and "int n < max_params T"
  shows "\<exists>p. nexts T n (placeholders_new T junk) = (Inr (), p) \<and> shows_number T (int n + 1) p"
  using assms(3)
proof (induction n)
  case 0
  then show ?case using new_shows [OF assms(1,2)] by simp
next
  case (Suc n)
  then obtain p where p: "nexts T n (placeholders_new T junk) = (Inr (), p)" "shows_number T (int n + 1) p" by auto
  then show ?case using next_shows [OF assms(1) _ _ p(2)] Suc.prems by (auto simp: add.commute add.left_commute)
qed

text \<open>
  After \<open>n\<close> calls of \<open>next\<close> a \<open>placeholders\<close> object of an unsigned counter shows \<open>$\<close> and the number \<open>n + 1\<close> in decimal, whether the
  last digit was incremented in place or the number written anew, up to the largest number of the counter; one call more is refused with a range error
  and leaves the object as it was.
\<close>

theorem placeholders_count:
  assumes "counting T" and "digits10 (ct_width T) \<le> length junk" and "int n < max_params T"
  shows "\<exists>p. nexts T n (placeholders_new T junk) = (Inr (), p) \<and> placeholder_view p = placeholder (int n + 1) \<and> m_current p = int n + 1
    \<and> (int n + 1 = max_params T \<longrightarrow> (\<exists>msg. placeholders_next T p = (Inl (Range_error msg), p)))"
proof -
  obtain p where "nexts T n (placeholders_new T junk) = (Inr (), p)" and "shows_number T (int n + 1) p"
    using nexts_shows [OF assms] by blast
  then show ?thesis by (auto simp: shows_number_def placeholders_next_def)
qed

theorem placeholders_count_witness:
  "\<exists>p. nexts \<lparr>ct_signed = False, ct_width = 16\<rparr> 99 (placeholders_new \<lparr>ct_signed = False, ct_width = 16\<rparr> ''????'') = (Inr (), p)
    \<and> placeholder_view p = ''$100''"
proof -
  have "placeholder (int 99 + 1) = ''$100''"
    by (simp add: placeholder_dec dec_step dec_unit digit_char_def) (simp add: char_of_def)
  then show ?thesis
    using placeholders_count [of "\<lparr>ct_signed = False, ct_width = 16\<rparr>" "''????''" 99] by (auto simp: counting_def digits10_def max_params_def)
qed

text \<open>A counter with a sign needs one byte more than the buffer has when its number gets a second digit.\<close>

lemma signed_counter_fails_at_ten:
  assumes "ct_signed T" and "ct_width T \<in> {16, 32}" and "m_current p = 9" and "length (m_buf p) = digits10 (ct_width T) + 3"
  shows "placeholders_next T p = (Inl Conversion_overrun, p\<lparr>m_current := 10\<rparr>)"
  using assms by (auto simp: placeholders_next_def counter_into_buf_def max_params_def)

subsection \<open>Parameters as libpq gets them\<close>

definition sendable :: "param_entry \<Rightarrow> bool" where
  "sendable e \<longleftrightarrow> (case entry_data e of None \<Rightarrow> True | Some s \<Rightarrow> int (length s) < 2 ^ 31)"

definition sent_length :: "param_entry \<Rightarrow> int" where
  "sent_length e = (case entry_data e of None \<Rightarrow> 0 | Some s \<Rightarrow> int (length s))"

lemma c_params_loop_sends: "list_all sendable es \<Longrightarrow> c_params_loop es c = Inr \<lparr>cp_values = cp_values c @ map entry_data es,
    cp_lengths = cp_lengths c @ map sent_length es, cp_formats = cp_formats c @ map param_format es\<rparr>"
  by (induction es arbitrary: c) (auto simp: sendable_def sent_length_def int_cast_def split: option.splits)

lemma c_params_loop_refuses: "\<not> list_all sendable es \<Longrightarrow> \<exists>msg. c_params_loop es c = Inl (Range_error msg)"
  by (induction es arbitrary: c) (auto simp: sendable_def int_cast_def split: option.splits)

text \<open>
  The arrays given to libpq have one element for each parameter, in order: its bytes or a null pointer, its length, and the binary
  format exactly for binary data.  A parameter of more bytes than an \<open>int\<close> can count makes an error of the whole.
\<close>

theorem c_params_are_the_parameters:
  "if list_all sendable (m_params p)
   then make_c_params p = Inr \<lparr>cp_values = map entry_data (m_params p), cp_lengths = map sent_length (m_params p), cp_formats = map param_format (m_params p)\<rparr>
   else \<exists>msg. make_c_params p = Inl (Range_error msg)"
  by (simp add: make_c_params_def c_params_loop_sends c_params_loop_refuses)

subsection \<open>Transactions that are over\<close>

text \<open>
  C11.  \<open>exec\<close> refuses a statement in a transaction that was committed or aborted, and the session stays as it is.  With parameters, which may
  be none, the same statement is sent to the server, and its result returned: \<open>internal_exec_params\<close> tests neither the status of the
  transaction nor its pending error.
\<close>

theorem ended_transaction_runs_parameterised:
  assumes "owned t w" and "m_status (txs w ! t) \<noteq> Tx_active" and "encoded_in pq enc"
    and "make_c_params parms = Inr args" and "int (length (cp_values args)) < 2 ^ 31"
    and "pq_exec_params S (c_str q) args (db w) = (Some r, d)" and "check_status r = Inr ()" and "pq_consume pq d = (True, d')"
  shows "exec_with pq S t q parms w = (Inr r, w\<lparr>db := d'\<rparr>)
    \<and> tx_exec pq t q w = (Inl (Throw (Usage_error ''Could not execute command: transaction is already closed.'')), w)"
proof -
  have t: "t < length (txs w)" "m_focus (txs w ! t) = None" using assms(1) by (simp_all add: owned_def)
  then have bk: "(txs w ! t)\<lparr>m_focus := None\<rparr> = txs w ! t" by (cases "txs w ! t") simp
  have run: "conn_exec_params pq S q args (put_tx t x w) = (Inr r, (put_tx t x w)\<lparr>db := d'\<rparr>)" for x
    using assms(5,6,8) make_result_ok [OF assms(3,7), of "(put_tx t x w)\<lparr>db := d\<rparr>"]
    by (simp add: conn_exec_params_def int_cast_def lift_exn_def get_notifs_def prog_simps)
  show ?thesis
    using assms(1,2,4) run
    by (simp add: t bk exec_with_def internal_exec_params_def register_focus_def unregister_focus_def guard_with_def lift_exn_def tx_prims guest_defs
        try_catch_def tx_exec_owned prog_simps)
qed

definition recording_server :: "string list libpq" where
  "recording_server = \<lparr>pq_exec = \<lambda>q d. (Some \<lparr>pg_status = PGRES_COMMAND_OK, pg_message = [], pg_sqlstate = None, pg_rows = []\<rparr>, d @ [q]),
     pq_consume = \<lambda>d. (True, d), pq_encoding = \<lambda>_. Some ''UTF8'', pq_open = \<lambda>_. True, pq_error = \<lambda>_. []\<rparr>"

definition recording_statements :: "string list statement_calls" where
  "recording_statements = \<lparr>pq_prepare = \<lambda>n q d. (None, d), pq_exec_prepared = \<lambda>n a d. (None, d),
     pq_exec_params = \<lambda>q a d. (Some \<lparr>pg_status = PGRES_COMMAND_OK, pg_message = [], pg_sqlstate = None, pg_rows = []\<rparr>, d @ [q])\<rparr>"

definition ended_session :: "string list session" where
  "ended_session = (fresh_session [])\<lparr>txs := [new_tx\<lparr>m_status := Tx_committed\<rparr>]\<rparr>"

theorem ended_transaction_runs_parameterised_witness:
  "db (snd (exec_with recording_server recording_statements 0 ''DELETE'' empty_params ended_session)) = [''DELETE'']"
proof -
  have "encoded_in recording_server Ascii_safe"
    by (simp add: encoded_in_def recording_server_def enc_group_def)
  then show ?thesis
    using ended_transaction_runs_parameterised [of 0 ended_session recording_server Ascii_safe empty_params "\<lparr>cp_values = [], cp_lengths = [], cp_formats = []\<rparr>"
        recording_statements "''DELETE''" "\<lparr>pg_status = PGRES_COMMAND_OK, pg_message = [], pg_sqlstate = None, pg_rows = []\<rparr>" "[''DELETE'']" "[''DELETE'']"]
    by (simp add: owned_def ended_session_def fresh_session_def new_tx_def make_c_params_def empty_params_def recording_server_def recording_statements_def
        check_status_def status_error_def)
qed

end
