(* ===== verification/Pqxx_Largeobject.thy ===== *)
theory Pqxx_Largeobject
  imports Pqxx_Blob
begin

text \<open>
  The older interface to large objects: \<open>libpqxx/src/largeobject.cxx\<close> and the streams of \<open>largeobject.hxx\<close>, over the same
  functions of libpq as \<open>Pqxx_Blob\<close>.
\<close>

subsection \<open>Identities\<close>

text \<open>\<open>lo_creat\<close> ignores its mode; \<open>no_memory\<close> tells whether \<open>errno\<close> is \<open>ENOMEM\<close> after a call.\<close>

record 'db lo_calls =
  lo_creat :: "int \<Rightarrow> 'db \<Rightarrow> nat \<times> 'db"
  no_memory :: "'db \<Rightarrow> bool"

definition oid_none :: nat where "oid_none = 0"

record largeobject =
  lo_id :: nat

text \<open>
  What follows a failed call: running out of memory is \<open>bad_alloc\<close>, anything else a \<open>failure\<close> with the reason.  The text of the message before the
  reason is an argument.
\<close>

definition lo_reason :: "'db libpq \<Rightarrow> 'db lo_calls \<Rightarrow> (('db, 'z) session_scheme, string) prog" where
  "lo_reason pq X = gets (\<lambda>w. if no_memory X (db w) then ''Out of memory'' else pq_error pq (db w))"

definition lo_failed :: "'db libpq \<Rightarrow> 'db lo_calls \<Rightarrow> string \<Rightarrow> (('db, 'z) session_scheme, 'a) prog" where
  "lo_failed pq X msg = bnd (gets (no_memory X \<circ> db)) (\<lambda>nomem. if nomem then throw Bad_alloc
     else bnd (lo_reason pq X) (\<lambda>why. throw (Failure (msg @ why))))"

definition lo_new :: "'db libpq \<Rightarrow> 'db lo_calls \<Rightarrow> (('db, 'z) session_scheme, largeobject) prog" where
  "lo_new pq X = bnd (call_lo (lo_creat X 0)) (\<lambda>i.
     if i = oid_none then lo_failed pq X ''Could not create large object: '' else ret \<lparr>lo_id = i\<rparr>)"

text \<open>
  A file name is a \<open>string_view\<close>: its characters, and what follows them in memory.  The code passes the address of the first character to
  libpq, which reads up to a NUL.
\<close>

type_synonym string_view = "string \<times> string"

definition data_of :: "string_view \<Rightarrow> string" where
  "data_of v = c_str (fst v @ snd v)"

definition lo_from_file :: "'db libpq \<Rightarrow> 'db lobs \<Rightarrow> 'db lo_calls \<Rightarrow> string_view \<Rightarrow> (('db, 'z) session_scheme, largeobject) prog" where
  "lo_from_file pq L X file = bnd (call_lo (lo_import L (data_of file))) (\<lambda>i.
     if i = oid_none then lo_failed pq X (''Could not import file '' @ [CHR 0x27] @ fst file @ [CHR 0x27] @ '' to large object: '')
     else ret \<lparr>lo_id = i\<rparr>)"

definition lo_to_file :: "'db libpq \<Rightarrow> 'db lobs \<Rightarrow> 'db lo_calls \<Rightarrow> ('z1) largeobject_scheme \<Rightarrow> string_view \<Rightarrow> (('db, 'z) session_scheme, unit) prog" where
  "lo_to_file pq L X ob file = (if lo_id ob = oid_none then throw (Usage_error ''No object selected.'')
     else bnd (call_lo (lo_export L (lo_id ob) (data_of file))) (\<lambda>r. if r = -1
       then lo_failed pq X (''Could not export large object '' @ nat_text (lo_id ob) @ '' to file '' @ [CHR 0x27] @ fst file @ [CHR 0x27] @ '': '')
       else ret ()))"

definition lo_remove :: "'db libpq \<Rightarrow> 'db lobs \<Rightarrow> 'db lo_calls \<Rightarrow> ('z1) largeobject_scheme \<Rightarrow> (('db, 'z) session_scheme, unit) prog" where
  "lo_remove pq L X ob = (if lo_id ob = oid_none then throw (Usage_error ''No object selected.'')
     else bnd (call_lo (lo_unlink L (lo_id ob))) (\<lambda>r. if r = -1
       then lo_failed pq X (''Could not delete large object '' @ nat_text (lo_id ob) @ '': '') else ret ()))"

definition lo_less :: "('a) largeobject_scheme \<Rightarrow> ('b) largeobject_scheme \<Rightarrow> bool" where
  "lo_less a b \<longleftrightarrow> lo_id a < lo_id b"

definition lo_equal :: "('a) largeobject_scheme \<Rightarrow> ('b) largeobject_scheme \<Rightarrow> bool" where
  "lo_equal a b \<longleftrightarrow> lo_id a = lo_id b"

subsection \<open>Access\<close>

record lo_access = largeobject +
  lo_fd :: int

text \<open>An open mode is the flags \<open>in\<close> and \<open>out\<close>; the others do not matter.\<close>

record openmode =
  for_in :: bool
  for_out :: bool

datatype seekdir = Beg | Cur | End

definition std_mode_to_pq_mode :: "openmode \<Rightarrow> int" where
  "std_mode_to_pq_mode mode = Bit_Operations.or (if for_in mode then inv_read else 0) (if for_out mode then inv_write else 0)"

definition std_dir_to_pq_dir :: "seekdir \<Rightarrow> int" where
  "std_dir_to_pq_dir dir = (case dir of Beg \<Rightarrow> seek_set | Cur \<Rightarrow> seek_cur | End \<Rightarrow> seek_end_whence)"

definition access_reason :: "'db libpq \<Rightarrow> 'db lo_calls \<Rightarrow> lo_access \<Rightarrow> (('db, 'z) session_scheme, string) prog" where
  "access_reason pq X a = (if lo_fd a = -1 then ret ''No object opened.'' else lo_reason pq X)"

definition access_failed :: "'db libpq \<Rightarrow> 'db lo_calls \<Rightarrow> lo_access \<Rightarrow> string \<Rightarrow> (('db, 'z) session_scheme, 'a) prog" where
  "access_failed pq X a msg = bnd (gets (no_memory X \<circ> db)) (\<lambda>nomem. if nomem then throw Bad_alloc
     else bnd (access_reason pq X a) (\<lambda>why. throw (Failure (msg @ why))))"

definition access_open :: "'db libpq \<Rightarrow> 'db lobs \<Rightarrow> 'db lo_calls \<Rightarrow> openmode \<Rightarrow> largeobject \<Rightarrow> (('db, 'z) session_scheme, lo_access) prog" where
  "access_open pq L X mode ob = (if lo_id ob = oid_none then throw (Usage_error ''No object selected.'')
     else bnd (call_lo (lo_open L (lo_id ob) (std_mode_to_pq_mode mode))) (\<lambda>fd.
       let a = \<lparr>lo_id = lo_id ob, lo_fd = fd\<rparr> in
       if fd < 0 then access_failed pq X a (''Could not open large object '' @ nat_text (lo_id a) @ '': '') else ret a))"

text \<open>The constructors: a new object, an object by its identifier, and an object made from a file.\<close>

definition access_new :: "'db libpq \<Rightarrow> 'db lobs \<Rightarrow> 'db lo_calls \<Rightarrow> openmode \<Rightarrow> (('db, 'z) session_scheme, lo_access) prog" where
  "access_new pq L X mode = bnd (lo_new pq X) (access_open pq L X mode)"

definition access_oid :: "'db libpq \<Rightarrow> 'db lobs \<Rightarrow> 'db lo_calls \<Rightarrow> nat \<Rightarrow> openmode \<Rightarrow> (('db, 'z) session_scheme, lo_access) prog" where
  "access_oid pq L X i mode = access_open pq L X mode \<lparr>lo_id = i\<rparr>"

definition access_file :: "'db libpq \<Rightarrow> 'db lobs \<Rightarrow> 'db lo_calls \<Rightarrow> string_view \<Rightarrow> openmode \<Rightarrow> (('db, 'z) session_scheme, lo_access) prog" where
  "access_file pq L X file mode = bnd (lo_from_file pq L X file) (access_open pq L X mode)"

definition access_close :: "'db lobs \<Rightarrow> lo_access \<Rightarrow> (('db, 'z) session_scheme, unit) prog" where
  "access_close L a = whn (0 \<le> lo_fd a) (bnd (call_lo (lo_close L (lo_fd a))) (\<lambda>_. ret ()))"

text \<open>The functions that do not throw.  \<open>cread\<close> also gives the bytes that are stored in the buffer.\<close>

definition cseek :: "'db lobs \<Rightarrow> lo_access \<Rightarrow> int \<Rightarrow> seekdir \<Rightarrow> (('db, 'z) session_scheme, int) prog" where
  "cseek L a dest dir = call_lo (lo_lseek64 L (lo_fd a) dest (std_dir_to_pq_dir dir))"

definition cwrite :: "'db lobs \<Rightarrow> lo_access \<Rightarrow> string \<Rightarrow> (('db, 'z) session_scheme, int) prog" where
  "cwrite L a data = bnd (call_lo (lo_write L (lo_fd a) data)) (\<lambda>n. ret (max n (-1)))"

definition cread :: "'db lobs \<Rightarrow> lo_access \<Rightarrow> nat \<Rightarrow> (('db, 'z) session_scheme, int \<times> string) prog" where
  "cread L a len = bnd (call_lo (lo_read L (lo_fd a) len)) (\<lambda>(n, data). ret (max n (-1), data))"

definition ctell :: "'db lobs \<Rightarrow> lo_access \<Rightarrow> (('db, 'z) session_scheme, int) prog" where
  "ctell L a = call_lo (lo_tell64 L (lo_fd a))"

text \<open>The functions that throw.\<close>

definition access_seek :: "'db libpq \<Rightarrow> 'db lobs \<Rightarrow> 'db lo_calls \<Rightarrow> lo_access \<Rightarrow> int \<Rightarrow> seekdir \<Rightarrow> (('db, 'z) session_scheme, int) prog" where
  "access_seek pq L X a dest dir = bnd (cseek L a dest dir) (\<lambda>res. if res = -1
     then bnd (gets (no_memory X \<circ> db)) (\<lambda>nomem. if nomem then throw Bad_alloc
       else if lo_id a = oid_none then throw (Usage_error ''No object selected.'')
       else bnd (access_reason pq X a) (\<lambda>why. throw (Failure (''Error seeking in large object: '' @ why))))
     else ret res)"

definition access_write :: "'db libpq \<Rightarrow> 'db lobs \<Rightarrow> 'db lo_calls \<Rightarrow> lo_access \<Rightarrow> string \<Rightarrow> (('db, 'z) session_scheme, unit) prog" where
  "access_write pq L X a data = (if lo_id a = oid_none then throw (Usage_error ''No object selected.'')
     else bnd (cwrite L a data) (\<lambda>bytes. if bytes < int (length data)
       then bnd (gets (no_memory X \<circ> db)) (\<lambda>nomem. if nomem then throw Bad_alloc
         else if bytes < 0 then bnd (access_reason pq X a) (\<lambda>why. throw (Failure (''Error writing to large object #'' @ nat_text (lo_id a) @ '': '' @ why)))
         else if bytes = 0 then bnd (access_reason pq X a) (\<lambda>why. throw (Failure (''Could not write to large object #'' @ nat_text (lo_id a) @ '': '' @ why)))
         else throw (Failure (''Wanted to write '' @ nat_text (length data) @ '' bytes to large object #'' @ nat_text (lo_id a)
           @ ''; could only write '' @ int_to_string bytes @ ''.'')))
       else ret ()))"

definition access_read :: "'db libpq \<Rightarrow> 'db lobs \<Rightarrow> 'db lo_calls \<Rightarrow> lo_access \<Rightarrow> nat \<Rightarrow> (('db, 'z) session_scheme, int \<times> string) prog" where
  "access_read pq L X a len = (if lo_id a = oid_none then throw (Usage_error ''No object selected.'')
     else bnd (cread L a len) (\<lambda>(bytes, data). if bytes < 0
       then access_failed pq X a (''Error reading from large object #'' @ nat_text (lo_id a) @ '': '') else ret (bytes, data)))"

definition access_tell :: "'db libpq \<Rightarrow> 'db lobs \<Rightarrow> 'db lo_calls \<Rightarrow> lo_access \<Rightarrow> (('db, 'z) session_scheme, int) prog" where
  "access_tell pq L X a = bnd (ctell L a) (\<lambda>res. if res = -1 then bnd (access_reason pq X a) (\<lambda>why. throw (Failure why)) else ret res)"

subsection \<open>The stream buffer\<close>

text \<open>
  \<open>sb_get\<close>: the characters between \<open>eback\<close> and \<open>egptr\<close>, with the offset of \<open>gptr\<close>.  \<open>sb_put\<close>: the characters between \<open>pbase\<close> and
  \<open>pptr\<close>; the area ends \<open>sb_size\<close> characters after its start.  They are \<open>None\<close> as long as the pointers are null.
\<close>

record streambuf =
  sb_obj :: lo_access
  sb_size :: int
  sb_get :: "(string \<times> nat) option"
  sb_put :: "string option"

record 'db stream_session = "'db session" +
  sb :: streambuf

definition sb_initialize :: "openmode \<Rightarrow> int \<Rightarrow> lo_access \<Rightarrow> streambuf" where
  "sb_initialize mode buf_size a = \<lparr>sb_obj = a, sb_size = buf_size, sb_get = (if for_in mode then Some ([], 0) else None),
     sb_put = (if for_out mode then Some [] else None)\<rparr>"

definition streambuf_make :: "'db libpq \<Rightarrow> 'db lobs \<Rightarrow> 'db lo_calls \<Rightarrow> nat \<Rightarrow> openmode \<Rightarrow> int \<Rightarrow> ('db stream_session, unit) prog" where
  "streambuf_make pq L X i mode buf_size = bnd (access_oid pq L X i mode) (\<lambda>a. modify (\<lambda>w. w\<lparr>sb := sb_initialize mode buf_size a\<rparr>))"

definition eof_value :: int where "eof_value = -1"

definition adjust_eof :: "int \<Rightarrow> int" where
  "adjust_eof pos = (if pos = -1 then eof_value else pos)"

definition set_get :: "(string \<times> nat) option \<Rightarrow> ('db stream_session, unit) prog" where
  "set_get g = modify (\<lambda>w. w\<lparr>sb := (sb w)\<lparr>sb_get := g\<rparr>\<rparr>)"

definition set_put :: "string option \<Rightarrow> ('db stream_session, unit) prog" where
  "set_put p = modify (\<lambda>w. w\<lparr>sb := (sb w)\<lparr>sb_put := p\<rparr>\<rparr>)"

definition write_failed :: string where
  "write_failed = ''pqxx::largeobject: write failed (is transaction still valid on write or flush?), ''"

definition sb_overflow :: "'db lobs \<Rightarrow> int \<Rightarrow> ('db stream_session, int) prog" where
  "sb_overflow L ch = bnd (gets sb) (\<lambda>b. case sb_put b of
       None \<Rightarrow> ret eof_value
     | Some p \<Rightarrow> bnd (if p = [] then ret 0
           else bnd (cwrite L (sb_obj b) p) (\<lambda>written_sz.
             if written_sz \<le> 0 then throw (Internal_error (write_failed @ ''libpq reports error''))
             else if int (length p) \<noteq> written_sz
             then throw (Internal_error (write_failed @ int_to_string written_sz @ ''/'' @ nat_text (length p) @ '' bytes written''))
             else ret (adjust_eof written_sz)))
         (\<lambda>res. sq (set_put (Some []))
           (if ch = eof_value then ret res
            else if sb_size b \<le> 0 then stop_with (Undefined Index_out_of_range)
            else sq (set_put (Some [char_of ch])) (ret res))))"

definition sb_underflow :: "'db lobs \<Rightarrow> ('db stream_session, int) prog" where
  "sb_underflow L = bnd (gets sb) (\<lambda>b. case sb_get b of
       None \<Rightarrow> ret eof_value
     | Some g \<Rightarrow> bnd (cread L (sb_obj b) (nat (sb_size b))) (\<lambda>(n, data).
         let res = adjust_eof n; g' = (if res = eof_value then [] else take (nat res) data) in
         sq (set_get (Some (g', 0))) (ret (if res = eof_value \<or> res = 0 then eof_value else of_char (hd g')))))"

definition sb_sync :: "'db lobs \<Rightarrow> ('db stream_session, int) prog" where
  "sb_sync L = bnd (gets sb) (\<lambda>b. sq (set_get (map_option (\<lambda>g. (fst g, 0)) (sb_get b))) (sb_overflow L eof_value))"

definition sb_seekoff :: "'db lobs \<Rightarrow> int \<Rightarrow> seekdir \<Rightarrow> ('db stream_session, int) prog" where
  "sb_seekoff L offset dir = bnd (gets sb) (\<lambda>b. bnd (cseek L (sb_obj b) offset dir) (\<lambda>r. ret (adjust_eof r)))"

definition sb_seekpos :: "'db lobs \<Rightarrow> int \<Rightarrow> ('db stream_session, int) prog" where
  "sb_seekpos L pos = bnd (gets sb) (\<lambda>b. bnd (cseek L (sb_obj b) pos Beg) (\<lambda>newpos. ret (adjust_eof newpos)))"

subsection \<open>The streams\<close>

text \<open>What \<open>basic_streambuf\<close> makes of the virtual functions: storing a character and taking one.\<close>

definition sputc :: "'db lobs \<Rightarrow> char \<Rightarrow> ('db stream_session, int) prog" where
  "sputc L c = bnd (gets sb) (\<lambda>b. case sb_put b of
       None \<Rightarrow> sb_overflow L (of_char c)
     | Some p \<Rightarrow> if int (length p) < sb_size b then sq (set_put (Some (p @ [c]))) (ret (of_char c)) else sb_overflow L (of_char c))"

definition bump :: "('db stream_session, unit) prog" where
  "bump = bnd (gets sb) (\<lambda>b. set_get (map_option (\<lambda>(g, k). (g, Suc k)) (sb_get b)))"

definition sbumpc :: "'db lobs \<Rightarrow> ('db stream_session, int) prog" where
  "sbumpc L = bnd (gets sb) (\<lambda>b.
     if (case sb_get b of None \<Rightarrow> False | Some (g, k) \<Rightarrow> k < length g)
     then sq bump (ret (case sb_get b of None \<Rightarrow> eof_value | Some (g, k) \<Rightarrow> of_char (g ! k)))
     else bnd (sb_underflow L) (\<lambda>r. if r = eof_value then ret eof_value else sq bump (ret r)))"

text \<open>
  Writing a text to an output stream: false when the stream goes bad, which an exception of the buffer also makes it.  Reading an input stream
  up to its end takes a bound on the characters to come; without it, it has not ended.
\<close>

fun put_all :: "'db lobs \<Rightarrow> string \<Rightarrow> ('db stream_session, bool) prog" where
  "put_all L [] = ret True"
| "put_all L (c # cs) = bnd (sputc L c) (\<lambda>r. if r = eof_value then ret False else put_all L cs)"

definition stream_write :: "'db lobs \<Rightarrow> string \<Rightarrow> ('db stream_session, bool) prog" where
  "stream_write L text = try_catch (put_all L text) (\<lambda>e. ret False)"

fun read_all :: "nat \<Rightarrow> 'db lobs \<Rightarrow> ('db stream_session, string) prog" where
  "read_all 0 L = stop_with Waiting"
| "read_all (Suc m) L = bnd (sbumpc L) (\<lambda>r. if r = eof_value then ret [] else bnd (read_all m L) (\<lambda>cs. ret (char_of r # cs)))"

text \<open>
  The scopes of the three streams.  An output stream flushes its buffer twice as it is destroyed; the buffer then closes the object.
\<close>

definition sb_destructor :: "'db lobs \<Rightarrow> ('db stream_session, unit) prog" where
  "sb_destructor L = bnd (gets sb) (\<lambda>b. access_close L (sb_obj b))"

definition olostream_destructor :: "'db lobs \<Rightarrow> ('db stream_session, unit) prog" where
  "olostream_destructor L = sq (try_catch (sq (sb_sync L) (bnd (sb_sync L) (\<lambda>_. ret ()))) (\<lambda>e. process_notice (exn_what e))) (sb_destructor L)"

definition with_ilostream :: "'db libpq \<Rightarrow> 'db lobs \<Rightarrow> 'db lo_calls \<Rightarrow> nat \<Rightarrow> int \<Rightarrow> ('db stream_session, 'a) prog \<Rightarrow> ('db stream_session, 'a) prog" where
  "with_ilostream pq L X i buf_size body = sq (streambuf_make pq L X i \<lparr>for_in = True, for_out = False\<rparr> buf_size)
     (guard_with body (\<lambda>w. snd (sb_destructor L w)))"

definition with_olostream :: "'db libpq \<Rightarrow> 'db lobs \<Rightarrow> 'db lo_calls \<Rightarrow> nat \<Rightarrow> int \<Rightarrow> ('db stream_session, 'a) prog \<Rightarrow> ('db stream_session, 'a) prog" where
  "with_olostream pq L X i buf_size body = sq (streambuf_make pq L X i \<lparr>for_in = False, for_out = True\<rparr> buf_size)
     (guard_with body (\<lambda>w. snd (olostream_destructor L w)))"

definition with_lostream :: "'db libpq \<Rightarrow> 'db lobs \<Rightarrow> 'db lo_calls \<Rightarrow> nat \<Rightarrow> int \<Rightarrow> ('db stream_session, 'a) prog \<Rightarrow> ('db stream_session, 'a) prog" where
  "with_lostream pq L X i buf_size body = sq (streambuf_make pq L X i \<lparr>for_in = True, for_out = True\<rparr> buf_size)
     (guard_with body (\<lambda>w. snd (olostream_destructor L w)))"

end
