(* ===== verification/Largeobject_Spec.thy ===== *)
theory Largeobject_Spec
  imports Pqxx_Largeobject Blob_Spec
begin

text \<open>
  What streams over large objects promise on a server that stores objects as strings of bytes, and where they do not behave like streams.
\<close>

subsection \<open>Opening and closing\<close>

text \<open>\<open>at_place st d fd oid pos m s\<close>: the descriptor is open in the object, at the position, and the object holds the string.\<close>

definition at_place :: "('db \<Rightarrow> lo_store) \<Rightarrow> 'db \<Rightarrow> int \<Rightarrow> nat \<Rightarrow> nat \<Rightarrow> int \<Rightarrow> string \<Rightarrow> bool" where
  "at_place st d fd i pos m s \<longleftrightarrow> lo_descs (st d) fd = Some (i, pos, m) \<and> lo_objs (st d) i = Some s"

text \<open>Two states of the server that differ only in the object and the descriptor.\<close>

definition elsewhere :: "('db \<Rightarrow> lo_store) \<Rightarrow> int \<Rightarrow> nat \<Rightarrow> 'db \<Rightarrow> 'db \<Rightarrow> bool" where
  "elsewhere st fd i d d' \<longleftrightarrow> (lo_descs (st d))(fd := None) = (lo_descs (st d'))(fd := None) \<and> (lo_objs (st d))(i := None) = (lo_objs (st d'))(i := None)"

lemma elsewhere_refl: "elsewhere st fd i d d"
  by (simp add: elsewhere_def)

lemma elsewhere_trans: "elsewhere st fd i d d' \<Longrightarrow> elsewhere st fd i d' d'' \<Longrightarrow> elsewhere st fd i d d''"
  by (simp add: elsewhere_def)

lemma stream_modes: "std_mode_to_pq_mode \<lparr>for_in = True, for_out = False\<rparr> = inv_read"
  "std_mode_to_pq_mode \<lparr>for_in = False, for_out = True\<rparr> = inv_write"
  by (simp_all add: std_mode_to_pq_mode_def)

lemma streambuf_make_ok:
  assumes S: "lo_server L st" and o: "lo_objs (st (db w)) i = Some s" and i: "i \<noteq> 0"
  shows "\<exists>d fd. streambuf_make pq L X i mode n w = (Inr (), w\<lparr>db := d, sb := sb_initialize mode n \<lparr>lo_id = i, lo_fd = fd\<rparr>\<rparr>)
    \<and> 0 \<le> fd \<and> lo_descs (st (db w)) fd = None \<and> at_place st d fd i 0 (std_mode_to_pq_mode mode) s \<and> elsewhere st fd i (db w) d"
proof -
  obtain fd d where op: "lo_open L i (std_mode_to_pq_mode mode) (db w) = (fd, d)" by fastforce
  have "opens L st" using S by (simp add: lo_server_def)
  from server_open[OF this op o] op i o show ?thesis
    by (intro exI[of _ d] exI[of _ fd])
      (simp add: streambuf_make_def access_oid_def access_open_def oid_none_def call_lo_def prog_simps Let_def at_place_def elsewhere_def)
qed

lemma sb_destructor_ok:
  assumes S: "lo_server L st" and fd: "lo_fd (sb_obj (sb w)) = fd" "0 \<le> fd" and free: "lo_descs (st d0) fd = None"
    and e: "elsewhere st fd i d0 (db w)" and o: "lo_objs (st (db w)) i = Some s"
  shows "\<exists>d. sb_destructor L w = (Inr (), w\<lparr>db := d\<rparr>) \<and> st d = (st d0)\<lparr>lo_objs := (lo_objs (st d0))(i \<mapsto> s)\<rparr>"
proof -
  obtain r d where cl: "lo_close L fd (db w) = (r, d)" by fastforce
  have "closes L st" using S by (simp add: lo_server_def)
  note c = server_close[OF this cl]
  have "(lo_objs (st (db w)))(i := None, i := Some s) = (lo_objs (st d0))(i := None, i := Some s)" using e by (simp add: elsewhere_def)
  then have "lo_objs (st (db w)) = (lo_objs (st d0))(i := Some s)" using o by (simp add: fun_upd_idem)
  moreover have "(lo_descs (st (db w)))(fd := None) = lo_descs (st d0)" using e free by (simp add: elsewhere_def fun_upd_idem)
  ultimately show ?thesis using cl c fd
    by (intro exI[of _ d]) (simp add: sb_destructor_def access_close_def call_lo_def prog_simps)
qed

subsection \<open>Writing\<close>

lemma put_bytes_twice: "put_bytes (length x) p (put_bytes 0 x s) = put_bytes 0 (x @ p) s"
  by (simp add: put_bytes_def resized_def add.commute)

lemma cwrite_ok:
  assumes "lo_server L st" "at_place st (db w) (lo_fd a) i pos inv_write s" "length data \<le> chunk_limit"
  shows "\<exists>d. cwrite L a data w = (Inr (int (length data)), w\<lparr>db := d\<rparr>)
    \<and> at_place st d (lo_fd a) i (pos + length data) inv_write (put_bytes pos data s) \<and> elsewhere st (lo_fd a) i (db w) d"
proof -
  obtain r d where wr: "lo_write L (lo_fd a) data (db w) = (r, d)" by fastforce
  have "writes L st" using assms(1) by (simp add: lo_server_def)
  from server_write[OF this wr, of i pos inv_write s] assms wr show ?thesis
    by (intro exI[of _ d]) (simp add: cwrite_def call_lo_def prog_simps at_place_def elsewhere_def modes)
qed

text \<open>
  What an output buffer holds of a text: the first part is in the object, the second waits in the buffer.
\<close>

definition half_written :: "('db \<Rightarrow> lo_store) \<Rightarrow> nat \<Rightarrow> nat \<Rightarrow> string \<Rightarrow> string \<Rightarrow> 'db stream_session \<Rightarrow> bool" where
  "half_written st n i s text w \<longleftrightarrow> sb_size (sb w) = int n \<and> sb_get (sb w) = None \<and> (\<exists>x p. text = x @ p \<and> sb_put (sb w) = Some p
     \<and> length p \<le> n \<and> at_place st (db w) (lo_fd (sb_obj (sb w))) i (length x) inv_write (put_bytes 0 x s))"

text \<open>What a step leaves as it was: the object of the buffer and the rest of the server.\<close>

definition same_stream :: "('db \<Rightarrow> lo_store) \<Rightarrow> nat \<Rightarrow> 'db stream_session \<Rightarrow> 'db stream_session \<Rightarrow> bool" where
  "same_stream st i w w' \<longleftrightarrow> sb_obj (sb w') = sb_obj (sb w) \<and> elsewhere st (lo_fd (sb_obj (sb w))) i (db w) (db w')"

lemma same_stream_refl: "same_stream st i w w"
  by (simp add: same_stream_def elsewhere_refl)

lemma same_stream_trans: "same_stream st i w w' \<Longrightarrow> same_stream st i w' w'' \<Longrightarrow> same_stream st i w w''"
  unfolding same_stream_def by (metis elsewhere_trans)

lemma char_not_eof: "(of_char c :: int) \<noteq> eof_value"
proof -
  have "(0 :: int) \<le> of_char c" by (metis of_nat_of_char of_nat_0_le_iff)
  then show ?thesis by (simp add: eof_value_def)
qed

lemma same_get: "sb_get (sb v) = g \<Longrightarrow> v\<lparr>sb := (sb v)\<lparr>sb_get := g\<rparr>\<rparr> = v"
  by auto

lemma overflow_ok:
  assumes S: "lo_server L st" and h: "half_written st n i s text w" and n: "0 < n" "n \<le> chunk_limit"
  shows "\<exists>r w'. sb_overflow L ch w = (Inr r, w') \<and> r \<noteq> eof_value \<and> same_stream st i w w'
    \<and> half_written st n i s (if ch = eof_value then text else text @ [char_of ch]) w'
    \<and> (ch = eof_value \<longrightarrow> sb_put (sb w') = Some [])"
proof -
  obtain x p where x: "text = x @ p" "sb_put (sb w) = Some p" "length p \<le> n"
    "at_place st (db w) (lo_fd (sb_obj (sb w))) i (length x) inv_write (put_bytes 0 x s)"
    and z: "sb_size (sb w) = int n" "sb_get (sb w) = None" using h by (auto simp: half_written_def)
  obtain d where d: "cwrite L (sb_obj (sb w)) p w = (Inr (int (length p)), w\<lparr>db := d\<rparr>)"
    "at_place st d (lo_fd (sb_obj (sb w))) i (length x + length p) inv_write (put_bytes 0 (x @ p) s)"
    "elsewhere st (lo_fd (sb_obj (sb w))) i (db w) d"
    using cwrite_ok[OF S x(4), of p] x(3) n(2) by (auto simp: put_bytes_twice)
  define w1 where "w1 = (if p = [] then w else w\<lparr>db := d\<rparr>)\<lparr>sb := (sb w)\<lparr>sb_put := Some (if ch = eof_value then [] else [char_of ch])\<rparr>\<rparr>"
  have "sb_overflow L ch w = (Inr (int (length p)), w1)"
    using d(1) x(2) z n by (auto simp: sb_overflow_def set_put_def prog_simps w1_def eof_value_def adjust_eof_def)
  moreover have "half_written st n i s (if ch = eof_value then text else text @ [char_of ch]) w1"
    unfolding half_written_def using d(2) x(4) z n x(1)
    by (cases "p = []") (auto simp: w1_def intro: exI[of _ "text"])
  moreover have "same_stream st i w w1" using d(3) by (simp add: same_stream_def w1_def elsewhere_refl)
  moreover have "int (length p) \<noteq> eof_value" by (simp add: eof_value_def)
  moreover have "ch = eof_value \<longrightarrow> sb_put (sb w1) = Some []" by (simp add: w1_def)
  ultimately show ?thesis by blast
qed

lemma sputc_ok:
  assumes "lo_server L st" "half_written st n i s text w" "0 < n" "n \<le> chunk_limit"
  shows "\<exists>r w'. sputc L c w = (Inr r, w') \<and> r \<noteq> eof_value \<and> same_stream st i w w' \<and> half_written st n i s (text @ [c]) w'"
proof -
  obtain x p where x: "text = x @ p" "sb_put (sb w) = Some p" "length p \<le> n"
    "at_place st (db w) (lo_fd (sb_obj (sb w))) i (length x) inv_write (put_bytes 0 x s)"
    and z: "sb_size (sb w) = int n" "sb_get (sb w) = None" using assms(2) by (auto simp: half_written_def)
  have e: "(of_char c :: int) \<noteq> eof_value" by (rule char_not_eof)
  show ?thesis
  proof (cases "length p < n")
    case True
    let ?w = "w\<lparr>sb := (sb w)\<lparr>sb_put := Some (p @ [c])\<rparr>\<rparr>"
    have "sputc L c w = (Inr (of_char c), ?w)" using True x(2) z by (simp add: sputc_def set_put_def prog_simps)
    moreover have "half_written st n i s (text @ [c]) ?w" using True x z by (auto simp: half_written_def)
    moreover have "same_stream st i w ?w" by (simp add: same_stream_def elsewhere_refl)
    ultimately show ?thesis using e by blast
  next
    case False
    then have "sputc L c w = sb_overflow L (of_char c) w" using x(2) z by (simp add: sputc_def prog_simps)
    with overflow_ok[OF assms, of "of_char c"] e show ?thesis by auto
  qed
qed

lemma put_all_ok:
  assumes "lo_server L st" "half_written st n i s t w" "0 < n" "n \<le> chunk_limit"
  shows "\<exists>w'. put_all L cs w = (Inr True, w') \<and> same_stream st i w w' \<and> half_written st n i s (t @ cs) w'"
  using assms(2)
proof (induction cs arbitrary: t w)
  case (Cons c cs)
  obtain r w1 where w1: "sputc L c w = (Inr r, w1)" "r \<noteq> eof_value" "same_stream st i w w1" "half_written st n i s (t @ [c]) w1"
    using sputc_ok[OF assms(1) Cons.prems assms(3,4)] by blast
  from Cons.IH[OF w1(4)] w1 show ?case by (auto simp: prog_simps intro: same_stream_trans)
qed (auto simp: prog_simps same_stream_refl)

lemma olostream_destructor_ok:
  assumes S: "lo_server L st" and h: "half_written st n i s text w" and n: "0 < n" "n \<le> chunk_limit"
    and fd: "0 \<le> lo_fd (sb_obj (sb w))" "lo_descs (st d0) (lo_fd (sb_obj (sb w))) = None" "elsewhere st (lo_fd (sb_obj (sb w))) i d0 (db w)"
  shows "\<exists>w'. olostream_destructor L w = (Inr (), w') \<and> st (db w') = (st d0)\<lparr>lo_objs := (lo_objs (st d0))(i \<mapsto> put_bytes 0 text s)\<rparr>"
proof -
  have sy: "\<exists>r w1. sb_sync L v = (Inr r, w1) \<and> same_stream st i v w1 \<and> half_written st n i s text w1 \<and> sb_put (sb w1) = Some []"
    if "half_written st n i s text v" for v
  proof -
    have g: "sb_get (sb v) = None" using that by (simp add: half_written_def)
    then have "sb_sync L v = sb_overflow L eof_value (v\<lparr>sb := (sb v)\<lparr>sb_get := None\<rparr>\<rparr>)" by (simp add: sb_sync_def set_get_def prog_simps)
    then have "sb_sync L v = sb_overflow L eof_value v" unfolding same_get[OF g] .
    with overflow_ok[OF S that n, of eof_value] show ?thesis by auto
  qed
  obtain r1 w1 where w1: "sb_sync L w = (Inr r1, w1)" "same_stream st i w w1" "half_written st n i s text w1" using sy[OF h] by blast
  obtain r2 w2 where w2: "sb_sync L w1 = (Inr r2, w2)" "same_stream st i w1 w2" "half_written st n i s text w2" "sb_put (sb w2) = Some []"
    using sy[OF w1(3)] by blast
  have s2: "same_stream st i w w2" using same_stream_trans[OF w1(2) w2(2)] .
  then have o2: "sb_obj (sb w2) = sb_obj (sb w)" "elsewhere st (lo_fd (sb_obj (sb w))) i d0 (db w2)"
    using elsewhere_trans[OF fd(3)] by (auto simp: same_stream_def)
  have t: "lo_objs (st (db w2)) i = Some (put_bytes 0 text s)" using w2(3,4) by (auto simp: half_written_def at_place_def)
  obtain d where "sb_destructor L w2 = (Inr (), w2\<lparr>db := d\<rparr>)" "st d = (st d0)\<lparr>lo_objs := (lo_objs (st d0))(i \<mapsto> put_bytes 0 text s)\<rparr>"
    using sb_destructor_ok[OF S _ fd(1,2) o2(2) t] o2(1) by auto
  then show ?thesis using w1(1) w2(1) by (simp add: olostream_destructor_def try_catch_def prog_simps)
qed

lemma olostream_writes:
  assumes S: "lo_server L st" and o: "lo_objs (st (db w)) i = Some s" "i \<noteq> 0" and n: "0 < n" "n \<le> chunk_limit"
  shows "\<exists>w'. with_olostream pq L X i (int n) (stream_write L text) w = (Inr True, w')
    \<and> st (db w') = (st (db w))\<lparr>lo_objs := (lo_objs (st (db w)))(i \<mapsto> put_bytes 0 text s)\<rparr>"
proof -
  let ?m = "\<lparr>for_in = False, for_out = True\<rparr>"
  obtain d fd where d: "streambuf_make pq L X i ?m (int n) w = (Inr (), w\<lparr>db := d, sb := sb_initialize ?m (int n) \<lparr>lo_id = i, lo_fd = fd\<rparr>\<rparr>)"
    "0 \<le> fd" "lo_descs (st (db w)) fd = None" "at_place st d fd i 0 inv_write s" "elsewhere st fd i (db w) d"
    using streambuf_make_ok[OF S o, of pq X ?m "int n"] by (auto simp: stream_modes)
  define v where "v = w\<lparr>db := d, sb := sb_initialize ?m (int n) \<lparr>lo_id = i, lo_fd = fd\<rparr>\<rparr>"
  have h: "half_written st n i s [] v" using d(4) by (simp add: half_written_def v_def sb_initialize_def put_bytes_def resized_def)
  obtain w1 where w1: "put_all L text v = (Inr True, w1)" "same_stream st i v w1" "half_written st n i s text w1"
    using put_all_ok[OF S h n, of "text"] by auto
  have f: "lo_fd (sb_obj (sb w1)) = fd" "elsewhere st fd i (db w) (db w1)"
    using w1(2) d(5) elsewhere_trans by (fastforce simp: same_stream_def v_def sb_initialize_def)+
  obtain w' where "olostream_destructor L w1 = (Inr (), w')"
    "st (db w') = (st (db w))\<lparr>lo_objs := (lo_objs (st (db w)))(i \<mapsto> put_bytes 0 text s)\<rparr>"
    using olostream_destructor_ok[OF S w1(3) n, of "db w"] d(2,3) f by auto
  then show ?thesis using d(1) w1(1) by (simp add: with_olostream_def sq_app guard_with_def stream_write_def try_catch_def v_def[symmetric])
qed

subsection \<open>Reading\<close>

text \<open>What is still to come from an input buffer: what it holds after its position, and what the object has after the descriptor's.\<close>

definition to_come :: "('db \<Rightarrow> lo_store) \<Rightarrow> nat \<Rightarrow> nat \<Rightarrow> string \<Rightarrow> string \<Rightarrow> 'db stream_session \<Rightarrow> bool" where
  "to_come st n i s rest w \<longleftrightarrow> sb_size (sb w) = int n \<and> (\<exists>g k pos. sb_get (sb w) = Some (g, k) \<and> k \<le> length g
     \<and> at_place st (db w) (lo_fd (sb_obj (sb w))) i pos inv_read s \<and> rest = drop k g @ drop pos s)"

lemma cread_ok:
  assumes "lo_server L st" "at_place st (db w) (lo_fd a) i pos m s" "n \<le> chunk_limit"
  shows "\<exists>d. cread L a n w = (Inr (int (length (take n (drop pos s))), take n (drop pos s)), w\<lparr>db := d\<rparr>)
    \<and> at_place st d (lo_fd a) i (pos + length (take n (drop pos s))) m s \<and> elsewhere st (lo_fd a) i (db w) d"
proof -
  obtain d where "lo_read L (lo_fd a) n (db w) = ((int (length (take n (drop pos s))), take n (drop pos s)), d)"
    "st d = (st (db w))\<lparr>lo_descs := (lo_descs (st (db w)))(lo_fd a \<mapsto> (i, pos + length (take n (drop pos s)), m))\<rparr>"
    using lo_read_ok[OF assms(1), of "db w" "lo_fd a" i pos m s n] assms(2,3) by (auto simp: at_place_def)
  then show ?thesis using assms(2) by (intro exI[of _ d]) (simp add: cread_def call_lo_def prog_simps at_place_def elsewhere_def)
qed

lemma sbumpc_ok:
  assumes S: "lo_server L st" and h: "to_come st n i s rest w" and n: "0 < n" "n \<le> chunk_limit"
  shows "\<exists>w'. sbumpc L w = (Inr (case rest of [] \<Rightarrow> eof_value | c # cs \<Rightarrow> of_char c), w') \<and> same_stream st i w w' \<and> to_come st n i s (tl rest) w'"
proof -
  obtain g k pos where g: "sb_get (sb w) = Some (g, k)" "k \<le> length g" "at_place st (db w) (lo_fd (sb_obj (sb w))) i pos inv_read s"
    "rest = drop k g @ drop pos s" and z: "sb_size (sb w) = int n" using h by (auto simp: to_come_def)
  show ?thesis
  proof (cases "k < length g")
    case True
    then have r: "rest = g ! k # drop (Suc k) g @ drop pos s" using g(4) by (simp add: Cons_nth_drop_Suc)
    let ?w = "w\<lparr>sb := (sb w)\<lparr>sb_get := Some (g, Suc k)\<rparr>\<rparr>"
    have "sbumpc L w = (Inr (of_char (g ! k)), ?w)" using True g(1) by (simp add: sbumpc_def bump_def set_get_def prog_simps)
    moreover have "to_come st n i s (tl rest) ?w" using True g z r by (auto simp: to_come_def)
    moreover have "same_stream st i w ?w" by (simp add: same_stream_def elsewhere_refl)
    ultimately show ?thesis using r by auto
  next
    case False
    define u where "u = take n (drop pos s)"
    have r: "rest = drop pos s" using g False by simp
    obtain d where d: "cread L (sb_obj (sb w)) n w = (Inr (int (length u), u), w\<lparr>db := d\<rparr>)"
      "at_place st d (lo_fd (sb_obj (sb w))) i (pos + length u) inv_read s" "elsewhere st (lo_fd (sb_obj (sb w))) i (db w) d"
      using cread_ok[OF S g(3) n(2)] by (auto simp: u_def)
    show ?thesis
    proof (cases "rest = []")
      case True
      then have u: "u = []" using r by (simp add: u_def)
      let ?w = "w\<lparr>db := d, sb := (sb w)\<lparr>sb_get := Some ([], 0)\<rparr>\<rparr>"
      have "sbumpc L w = (Inr eof_value, ?w)" using d(1) g(1) False z u
        by (simp add: sbumpc_def sb_underflow_def set_get_def prog_simps adjust_eof_def eof_value_def)
      moreover have "to_come st n i s [] ?w" using d(2) u z True r by (auto simp: to_come_def)
      moreover have "same_stream st i w ?w" using d(3) by (simp add: same_stream_def)
      ultimately show ?thesis using True by auto
    next
      case ne: False
      then obtain c cs where c: "rest = c # cs" by (cases rest) auto
      then have u: "u = c # take (n - 1) cs" using r n(1) by (cases n) (simp_all add: u_def)
      let ?w = "w\<lparr>db := d, sb := (sb w)\<lparr>sb_get := Some (u, 1)\<rparr>\<rparr>"
      have e: "(of_char c :: int) \<noteq> eof_value" by (rule char_not_eof)
      have hd: "hd u = c" "u \<noteq> []" using u by simp_all
      have "sbumpc L w = (Inr (of_char c), ?w)" using d(1) g(1) False z e hd
        by (simp add: sbumpc_def sb_underflow_def bump_def set_get_def prog_simps adjust_eof_def eof_value_def)
      moreover have "tl rest = drop 1 u @ drop (pos + length u) s"
      proof -
        have "take (length u) (drop pos s) = u" by (simp add: u_def take_all_iff min_def)
        then have "rest = u @ drop (pos + length u) s"
          using append_take_drop_id[of "length u" "drop pos s"] r by (simp add: add.commute)
        then show ?thesis using u by (metis drop_0 drop_Suc append_Cons list.sel(3) One_nat_def)
      qed
      then have "to_come st n i s (tl rest) ?w" using d(2) z u by (auto simp: to_come_def)
      moreover have "same_stream st i w ?w" using d(3) by (simp add: same_stream_def)
      ultimately show ?thesis using c by auto
    qed
  qed
qed

lemma read_all_ok:
  assumes "lo_server L st" "to_come st n i s rest w" "0 < n" "n \<le> chunk_limit" "length rest < m"
  shows "\<exists>w'. read_all m L w = (Inr rest, w') \<and> same_stream st i w w' \<and> to_come st n i s [] w'"
  using assms(2,5)
proof (induction m arbitrary: rest w)
  case (Suc m)
  obtain w1 where w1: "sbumpc L w = (Inr (case rest of [] \<Rightarrow> eof_value | c # cs \<Rightarrow> of_char c), w1)" "same_stream st i w w1"
    "to_come st n i s (tl rest) w1" using sbumpc_ok[OF assms(1) Suc.prems(1) assms(3,4)] by blast
  show ?case
  proof (cases rest)
    case Nil
    then show ?thesis using w1 by (auto simp: prog_simps)
  next
    case (Cons c cs)
    have e: "(of_char c :: int) \<noteq> eof_value" by (rule char_not_eof)
    obtain w2 where "read_all m L w1 = (Inr cs, w2)" "same_stream st i w1 w2" "to_come st n i s [] w2"
      using Suc.IH[OF w1(3)] Suc.prems(2) Cons by auto
    then show ?thesis using w1 Cons e by (auto simp: prog_simps intro: same_stream_trans)
  qed
qed simp

lemma ilostream_reads:
  assumes S: "lo_server L st" and o: "lo_objs (st (db w)) i = Some s" "i \<noteq> 0" and n: "0 < n" "n \<le> chunk_limit" and m: "length s < m"
  shows "\<exists>w'. with_ilostream pq L X i (int n) (read_all m L) w = (Inr s, w') \<and> st (db w') = st (db w)"
proof -
  let ?m = "\<lparr>for_in = True, for_out = False\<rparr>"
  obtain d fd where d: "streambuf_make pq L X i ?m (int n) w = (Inr (), w\<lparr>db := d, sb := sb_initialize ?m (int n) \<lparr>lo_id = i, lo_fd = fd\<rparr>\<rparr>)"
    "0 \<le> fd" "lo_descs (st (db w)) fd = None" "at_place st d fd i 0 inv_read s" "elsewhere st fd i (db w) d"
    using streambuf_make_ok[OF S o, of pq X ?m "int n"] by (auto simp: stream_modes)
  define v where "v = w\<lparr>db := d, sb := sb_initialize ?m (int n) \<lparr>lo_id = i, lo_fd = fd\<rparr>\<rparr>"
  have h: "to_come st n i s s v" using d(4) by (auto simp: to_come_def v_def sb_initialize_def)
  obtain w1 where w1: "read_all m L v = (Inr s, w1)" "same_stream st i v w1" "to_come st n i s [] w1"
    using read_all_ok[OF S h n m] by auto
  have f: "lo_fd (sb_obj (sb w1)) = fd" "elsewhere st fd i (db w) (db w1)"
    using w1(2) d(5) elsewhere_trans by (fastforce simp: same_stream_def v_def sb_initialize_def)+
  have "lo_objs (st (db w1)) i = Some s" using w1(3) by (auto simp: to_come_def at_place_def)
  then obtain d' where "sb_destructor L w1 = (Inr (), w1\<lparr>db := d'\<rparr>)" "st d' = (st (db w))\<lparr>lo_objs := (lo_objs (st (db w)))(i \<mapsto> s)\<rparr>"
    using sb_destructor_ok[OF S f(1) d(2,3) f(2)] by blast
  then show ?thesis using d(1) w1(1) o(1) by (simp add: with_ilostream_def sq_app guard_with_def v_def[symmetric] fun_upd_idem)
qed

subsection \<open>What the streams promise\<close>

definition no_streambuf :: streambuf where
  "no_streambuf = \<lparr>sb_obj = \<lparr>lo_id = 0, lo_fd = -1\<rparr>, sb_size = 0, sb_get = None, sb_put = None\<rparr>"

definition stream_start :: "'db \<Rightarrow> 'db stream_session" where
  "stream_start d = session.extend (begun_session d) \<lparr>sb = no_streambuf\<rparr>"

lemma stream_start_sel [simp]: "db (stream_start d) = d" "sb (stream_start d) = no_streambuf"
  by (simp_all add: stream_start_def session.defs begun_session_def fresh_session_def)

definition mem_calls :: "mem lo_calls" where
  "mem_calls = \<lparr>lo_creat = (\<lambda>m (os, ds). (next_oid os, (next_oid os, []) # os, ds)), no_memory = (\<lambda>d. False)\<rparr>"

text \<open>
  C20.  A text that is written through an output stream is in the object when the stream has been destroyed, over the start of what the
  object held; an input stream, with a buffer of any other size, then reads all of it.  Neither leaves a descriptor open or touches another
  object.
\<close>

theorem lostream_roundtrip:
  assumes "lo_server L st" "lo_objs (st (db w)) i = Some s" "i \<noteq> 0" "0 < n" "n \<le> chunk_limit" "0 < k" "k \<le> chunk_limit"
    and "length text + length s < m"
  shows "\<exists>w1 w2. with_olostream pq L X i (int n) (stream_write L text) w = (Inr True, w1)
    \<and> with_ilostream pq L X i (int k) (read_all m L) w1 = (Inr (text @ drop (length text) s), w2)
    \<and> st (db w2) = (st (db w))\<lparr>lo_objs := (lo_objs (st (db w)))(i \<mapsto> text @ drop (length text) s)\<rparr>"
proof -
  have p: "put_bytes 0 text s = text @ drop (length text) s" by (simp add: put_bytes_def)
  obtain w1 where w1: "with_olostream pq L X i (int n) (stream_write L text) w = (Inr True, w1)"
    "st (db w1) = (st (db w))\<lparr>lo_objs := (lo_objs (st (db w)))(i \<mapsto> text @ drop (length text) s)\<rparr>"
    using olostream_writes[OF assms(1-5), of pq X "text"] p by auto
  have o: "lo_objs (st (db w1)) i = Some (text @ drop (length text) s)" using w1(2) by simp
  have "length (text @ drop (length text) s) < m" using assms(8) by simp
  from ilostream_reads[OF assms(1) o assms(3,6,7) this, of pq X] w1 show ?thesis by auto
qed

theorem lostream_roundtrip_witness:
  "\<exists>w1 w2. with_olostream quiet_pq mem_lobs mem_calls 5 3 (stream_write mem_lobs ''hello'') (stream_start ([(5, ''abcdefg'')], [])) = (Inr True, w1)
    \<and> with_ilostream quiet_pq mem_lobs mem_calls 5 2 (read_all 20 mem_lobs) w1 = (Inr ''hellofg'', w2)"
  using lostream_roundtrip[OF mem_server, of "stream_start ([(5, ''abcdefg'')], [])" 5 "''abcdefg''" 3 2 "''hello''" 20 quiet_pq mem_calls]
  by (simp add: mem_store_def chunk_limit_def) blast

subsection \<open>Where they do not behave like streams\<close>

text \<open>
  \<open>sync\<close> of an input buffer fails, as it reports the end of the output that there is not, and it moves back to the start of the buffer: the
  characters of it that have been read are delivered again.
\<close>

theorem sync_delivers_again:
  assumes "lo_server L st" "0 < n" "n \<le> chunk_limit" "sb_size (sb w) = int n" "sb_put (sb w) = None" "sb_get (sb w) = Some (g, k)"
    and "at_place st (db w) (lo_fd (sb_obj (sb w))) i pos inv_read s" "length (g @ drop pos s) < m"
  shows "\<exists>w1 w2. sb_sync L w = (Inr eof_value, w1) \<and> read_all m L w1 = (Inr (g @ drop pos s), w2)"
proof -
  let ?w = "w\<lparr>sb := (sb w)\<lparr>sb_get := Some (g, 0)\<rparr>\<rparr>"
  have "sb_sync L w = (Inr eof_value, ?w)" using assms(5,6) by (simp add: sb_sync_def set_get_def sb_overflow_def prog_simps)
  moreover have "to_come st n i s (g @ drop pos s) ?w" using assms(4,7) by (auto simp: to_come_def)
  from read_all_ok[OF assms(1) this assms(2,3,8)] have "\<exists>w2. read_all m L ?w = (Inr (g @ drop pos s), w2)" by blast
  ultimately show ?thesis by blast
qed

definition half_read :: "mem stream_session" where
  "half_read = (stream_start ([(5, ''abcdef'')], [(1, 5, 4, inv_read)]))\<lparr>sb := \<lparr>sb_obj = \<lparr>lo_id = 5, lo_fd = 1\<rparr>, sb_size = 4, sb_get = Some (''abcd'', 3), sb_put = None\<rparr>\<rparr>"

lemma half_read_at: "at_place mem_store (db half_read) 1 5 4 inv_read ''abcdef''"
  by (simp add: half_read_def at_place_def mem_store_def)

theorem sync_delivers_again_witness:
  "\<exists>w1 w2. sb_sync mem_lobs half_read = (Inr eof_value, w1) \<and> read_all 9 mem_lobs w1 = (Inr ''abcdef'', w2)"
  using sync_delivers_again[OF mem_server, of 4 half_read "''abcd''" 3 5 4 "''abcdef''" 9] half_read_at
  by (simp add: chunk_limit_def) (simp add: half_read_def)

text \<open>
  Moving the position of an input buffer leaves what it has read ahead in place: after a seek to the start, the rest of the buffer comes
  first, and only then the object from its start.
\<close>

theorem seek_keeps_what_was_read:
  assumes S: "lo_server L st" and n: "0 < n" "n \<le> chunk_limit" and z: "sb_size (sb w) = int n" "sb_get (sb w) = Some (g, k)" "k \<le> length g"
    and p: "at_place st (db w) (lo_fd (sb_obj (sb w))) i pos inv_read s" and m: "length (drop k g @ s) < m"
  shows "\<exists>w1 w2. sb_seekpos L 0 w = (Inr 0, w1) \<and> read_all m L w1 = (Inr (drop k g @ s), w2)"
proof -
  obtain r d where se: "lo_lseek64 L (lo_fd (sb_obj (sb w))) 0 seek_set (db w) = (r, d)" by fastforce
  have "seeks L st" using S by (simp add: lo_server_def)
  from server_seek[OF this se, of i pos inv_read s 0] p have d: "r = 0" "at_place st d (lo_fd (sb_obj (sb w))) i 0 inv_read s"
    by (simp_all add: at_place_def)
  have "sb_seekpos L 0 w = (Inr 0, w\<lparr>db := d\<rparr>)" using se d(1)
    by (simp add: sb_seekpos_def cseek_def std_dir_to_pq_dir_def call_lo_def prog_simps adjust_eof_def)
  moreover have "to_come st n i s (drop k g @ s) (w\<lparr>db := d\<rparr>)" using z d(2) by (auto simp: to_come_def)
  from read_all_ok[OF S this n m] have "\<exists>w2. read_all m L (w\<lparr>db := d\<rparr>) = (Inr (drop k g @ s), w2)" by blast
  ultimately show ?thesis by blast
qed

theorem seek_keeps_what_was_read_witness:
  "\<exists>w1 w2. sb_seekpos mem_lobs 0 half_read = (Inr 0, w1) \<and> read_all 9 mem_lobs w1 = (Inr ''dabcdef'', w2)"
  using seek_keeps_what_was_read[OF mem_server, of 4 half_read "''abcd''" 3 5 4 "''abcdef''" 9] half_read_at
  by (simp add: chunk_limit_def) (simp add: half_read_def numeral_3_eq_3)

text \<open>
  The reason for which an object cannot be opened does not reach the caller: the descriptor is set to \<open>-1\<close> before the message is made, and
  the message then says that no object has been opened.
\<close>

lemma open_reason_lost:
  assumes "i \<noteq> 0" "lo_open L i (std_mode_to_pq_mode mode) (db w) = (-1, d)" "\<not> no_memory X d"
  shows "access_oid pq L X i mode w
    = (Inl (Throw (Failure (''Could not open large object '' @ nat_text i @ '': No object opened.''))), w\<lparr>db := d\<rparr>)"
  using assms by (simp add: access_oid_def access_open_def oid_none_def call_lo_def prog_simps Let_def access_failed_def access_reason_def)

text \<open>A file name that is a part of a longer text is not the name of the file that libpq is asked to read.\<close>

lemma import_reads_past_the_name:
  assumes "CHR 0x00 \<notin> set a" "c \<noteq> CHR 0x00"
  shows "data_of (a, c # after) \<noteq> a"
proof -
  have "data_of (a, c # after) = a @ c # c_str after" using assms by (induction a) (auto simp: data_of_def)
  then show ?thesis by simp
qed

end
