(* ===== verification/Pqxx_Traits.thy ===== *)
theory Pqxx_Traits
  imports Pqxx_Convert Pqxx_Composite
begin

text \<open>
  Conversion of values to and from SQL text in buffers of a given size: the specialisations of \<open>nullness\<close> and \<open>string_traits\<close> in
  \<open>libpqxx/include/pqxx/internal/conversions.hxx\<close>, the functions of \<open>strconv.hxx\<close> over them, and what \<open>array-composite.hxx\<close> writes
  into buffers.  A C++ type is a value of \<open>cpp_type\<close>, its values are those of \<open>cpp_value\<close> that have the type.
\<close>

subsection \<open>Types and values\<close>

text \<open>
  Integers by sign and width.  \<open>String_type\<close> is \<open>std::string\<close>, \<open>std::string_view\<close> and \<open>zview\<close>; \<open>Literal_type\<close> an array of characters with its
  NUL; \<open>Cstring_type\<close> a pointer to characters; \<open>Pointer\<close> is \<open>unique_ptr\<close> and \<open>shared_ptr\<close>; \<open>Range\<close> a container that becomes an array.
\<close>

datatype cpp_type =
    Int_type bool nat
  | Bool_type
  | String_type
  | Literal_type
  | Cstring_type
  | Bytes_type
  | Null_type
  | Optional cpp_type
  | Pointer cpp_type
  | Variant "cpp_type list"
  | Range cpp_type

text \<open>\<open>Nothing\<close> is the null pointer, the empty optional, \<open>nullptr\<close>, and a variant that has lost its value.\<close>

datatype cpp_value =
    Int_value int
  | Bool_value bool
  | Text_value string
  | Bytes_value "int list"
  | Nothing
  | Just cpp_value
  | Alternative nat cpp_value
  | Items "cpp_value list"

fun target :: "cpp_type \<Rightarrow> cpp_type" where
  "target (Optional T) = T"
| "target (Pointer T) = T"
| "target T = T"

fun alternative :: "cpp_type \<Rightarrow> nat \<Rightarrow> cpp_type" where
  "alternative (Variant Ts) i = Ts ! i"
| "alternative T i = T"

fun item_type :: "cpp_type \<Rightarrow> cpp_type" where
  "item_type (Range T) = T"
| "item_type T = T"

fun has_cpp_type :: "cpp_type \<Rightarrow> cpp_value \<Rightarrow> bool" where
  "has_cpp_type T (Int_value x) = (case T of Int_type True n \<Rightarrow> - (2 ^ (n - 1)) \<le> x \<and> x < 2 ^ (n - 1) | Int_type False n \<Rightarrow> 0 \<le> x \<and> x < 2 ^ n | _ \<Rightarrow> False)"
| "has_cpp_type T (Bool_value b) = (T = Bool_type)"
| "has_cpp_type T (Text_value s) = (T = String_type \<or> T \<in> {Literal_type, Cstring_type} \<and> CHR 0x00 \<notin> set s)"
| "has_cpp_type T (Bytes_value bs) = (T = Bytes_type \<and> (\<forall>b \<in> set bs. 0 \<le> b \<and> b < 256))"
| "has_cpp_type T Nothing = (case T of Cstring_type \<Rightarrow> True | Null_type \<Rightarrow> True | Optional S \<Rightarrow> True | Pointer S \<Rightarrow> True | Variant Ts \<Rightarrow> True | _ \<Rightarrow> False)"
| "has_cpp_type T (Just v) = ((case T of Optional S \<Rightarrow> True | Pointer S \<Rightarrow> True | _ \<Rightarrow> False) \<and> has_cpp_type (target T) v)"
| "has_cpp_type T (Alternative i v) = ((case T of Variant Ts \<Rightarrow> i < length Ts | _ \<Rightarrow> False) \<and> has_cpp_type (alternative T i) v)"
| "has_cpp_type T (Items vs) = ((case T of Range S \<Rightarrow> True | _ \<Rightarrow> False) \<and> (\<forall>v \<in> set vs. has_cpp_type (item_type T) v))"

subsection \<open>Nulls and properties of types\<close>

fun has_null :: "cpp_type \<Rightarrow> bool" where
  "has_null Cstring_type = True"
| "has_null Null_type = True"
| "has_null (Optional T) = True"
| "has_null (Pointer T) = True"
| "has_null (Variant Ts) = (\<exists>T \<in> set Ts. has_null T)"
| "has_null T = False"

fun always_null :: "cpp_type \<Rightarrow> bool" where
  "always_null Null_type = True"
| "always_null (Optional T) = always_null T"
| "always_null (Variant Ts) = (\<forall>T \<in> set Ts. always_null T)"
| "always_null T = False"

fun value_is_null :: "cpp_type \<Rightarrow> cpp_value \<Rightarrow> bool" where
  "value_is_null T Nothing = True"
| "value_is_null T (Just v) = (always_null T \<or> value_is_null (target T) v)"
| "value_is_null T (Alternative i v) = (always_null T \<or> value_is_null (alternative T i) v)"
| "value_is_null T v = False"

text \<open>\<open>make_null\<close> exists only for some types.\<close>

fun make_null :: "cpp_type \<Rightarrow> cpp_value option" where
  "make_null Cstring_type = Some Nothing"
| "make_null Null_type = Some Nothing"
| "make_null (Optional T) = Some Nothing"
| "make_null (Pointer T) = Some Nothing"
| "make_null T = None"

fun unquoted_safe :: "cpp_type \<Rightarrow> bool" where
  "unquoted_safe (Int_type s n) = True"
| "unquoted_safe Bool_type = True"
| "unquoted_safe Null_type = True"
| "unquoted_safe (Optional T) = unquoted_safe T"
| "unquoted_safe (Pointer T) = unquoted_safe T"
| "unquoted_safe (Variant Ts) = (\<forall>T \<in> set Ts. unquoted_safe T)"
| "unquoted_safe T = False"

fun sql_array :: "cpp_type \<Rightarrow> bool" where
  "sql_array (Range T) = True"
| "sql_array T = False"

fun binary_format :: "cpp_type \<Rightarrow> cpp_value \<Rightarrow> bool" where
  "binary_format T (Bytes_value bs) = True"
| "binary_format T (Just v) = binary_format (target T) v"
| "binary_format T (Alternative i v) = binary_format (alternative T i) v"
| "binary_format T v = False"

subsection \<open>Estimates\<close>

definition type_digits10 :: "bool \<Rightarrow> nat \<Rightarrow> nat" where
  "type_digits10 is_signed n = (if n = 16 then 4 else if n = 32 then 9 else if is_signed then 18 else 19)"

definition int_size :: "bool \<Rightarrow> nat \<Rightarrow> nat" where
  "int_size is_signed n = (if is_signed then 1 else 0) + type_digits10 is_signed n + 1"

text \<open>The estimates of the specialisations, over the estimates of what they hold; an element of an array is whether it is null, and its estimate.\<close>

definition int_value_size :: "cpp_type \<Rightarrow> nat" where
  "int_value_size T = (case T of Int_type s n \<Rightarrow> int_size s n | _ \<Rightarrow> 0)"

definition text_size :: "cpp_type \<Rightarrow> string \<Rightarrow> nat" where
  "text_size T s = (if T = Literal_type then length s + 1 else length s)"

definition optional_size :: "bool \<Rightarrow> nat \<Rightarrow> nat" where
  "optional_size null n = (if null then 0 else n)"

definition variant_size :: "bool \<Rightarrow> nat \<Rightarrow> nat" where
  "variant_size null n = (if null then 0 else n)"

definition array_size :: "bool \<Rightarrow> (bool \<times> nat) list \<Rightarrow> nat" where
  "array_size safe items =
     (if safe then 3 + sum_list (map (\<lambda>(null, n). if null then 4 + 1 else n) items)
      else 3 + sum_list (map (\<lambda>(null, n). 2 * (if null then 4 else n) + 3) items))"

fun value_size :: "cpp_type \<Rightarrow> cpp_value \<Rightarrow> nat" where
  "value_size T (Int_value x) = int_value_size T"
| "value_size T (Bool_value b) = 5"
| "value_size T (Text_value s) = text_size T s"
| "value_size T (Bytes_value bs) = size_esc_bin (length bs)"
| "value_size T Nothing = 0"
| "value_size T (Just v) = optional_size (value_is_null T (Just v)) (value_size (target T) v)"
| "value_size T (Alternative i v) = variant_size (value_is_null T (Alternative i v)) (value_size (alternative T i) v)"
| "value_size T (Items vs) = array_size (unquoted_safe (item_type T)) (map (\<lambda>v. (value_is_null (item_type T) v, value_size (item_type T) v)) vs)"

lemmas size_defs [simp] = int_value_size_def text_size_def optional_size_def variant_size_def

lemma value_size_Items [simp]: "value_size T (Items vs) = (let S = item_type T in
     if unquoted_safe S then 3 + sum_list (map (\<lambda>v. if value_is_null S v then 4 + 1 else value_size S v) vs)
     else 3 + sum_list (map (\<lambda>v. 2 * (if value_is_null S v then 4 else value_size S v) + 3) vs))"
  by (simp only: value_size.simps array_size_def Let_def map_map o_def prod.case)

declare value_size.simps(8) [simp del]

subsection \<open>Buffers\<close>

text \<open>
  A buffer is a memory of characters; a span reaches from an offset to its end.  Writing past the end is undefined.  A \<open>string_view\<close> that a
  conversion returns views a text elsewhere or a part of the buffer.
\<close>

type_synonym memory = string

datatype text_view = Elsewhere string | In_buffer nat nat

definition poke :: "nat \<Rightarrow> char \<Rightarrow> (memory, unit) prog" where
  "poke i c = (\<lambda>m. if i < length m then (Inr (), m[i := c]) else (Inl (Undefined Index_out_of_range), m))"

definition put_text :: "nat \<Rightarrow> string \<Rightarrow> (memory, unit) prog" where
  "put_text i s = (\<lambda>m. if i + length s \<le> length m then (Inr (), take i m @ s @ drop (i + length s) m)
     else (Inl (Undefined Index_out_of_range), m))"

fun seen :: "memory \<Rightarrow> text_view \<Rightarrow> string" where
  "seen m (Elsewhere s) = s"
| "seen m (In_buffer i n) = take n (drop i m)"

text \<open>\<open>subspan\<close> and \<open>last\<close> are undefined past the end.\<close>

definition in_span :: "nat \<Rightarrow> (memory, 'a) prog \<Rightarrow> (memory, 'a) prog" where
  "in_span i p = (\<lambda>m. if i \<le> length m then p m else (Inl (Undefined Index_out_of_range), m))"

text \<open>\<open>copy_chars\<close> without a NUL gives the offset after the text.\<close>

definition copy_chars :: "string \<Rightarrow> nat \<Rightarrow> (memory, nat) prog" where
  "copy_chars src i = (\<lambda>m. if i + length src > length m then (Inl (Throw Conversion_overrun), m)
     else sq (put_text i src) (ret (i + length src)) m)"

text \<open>\<open>into_buf\<close>, over what \<open>to_buf\<close> does: the text is moved to the start of the span.\<close>

definition into_span :: "(nat \<Rightarrow> (memory, text_view) prog) \<Rightarrow> nat \<Rightarrow> (memory, nat) prog" where
  "into_span to_buf i = bnd (to_buf i) (\<lambda>v m. let out = seen m v in
     if out = [] then (Inr 0, m)
     else if length out > length m - i then (Inl (Throw Conversion_overrun), m)
     else sq (put_text i out) (ret (length out)) m)"

text \<open>\<open>to_buf\<close> of integers writes at the end of the span.\<close>

definition int_text :: "bool \<Rightarrow> nat \<Rightarrow> int \<Rightarrow> string" where
  "int_text is_signed n value = (if \<not> is_signed then nonneg_to_buf value []
     else if value \<ge> 0 then nonneg_to_buf value []
     else if value > - (2 ^ (n - 1)) then neg_to_buf (- value)
     else bottom_to_buf n)"

definition int_to_view :: "bool \<Rightarrow> nat \<Rightarrow> int \<Rightarrow> nat \<Rightarrow> (memory, text_view) prog" where
  "int_to_view is_signed n value i = (\<lambda>m. let t = int_text is_signed n value in
     if length m - i < int_size is_signed n then (Inl (Throw Conversion_overrun), m)
     else sq (put_text (length m - length t) t) (ret (In_buffer (length m - length t) (length t))) m)"

definition bytes_to_view :: "int list \<Rightarrow> nat \<Rightarrow> (memory, text_view) prog" where
  "bytes_to_view bs i = (\<lambda>m. let budget = size_esc_bin (length bs) in
     if length m - i < budget then (Inl (Throw Conversion_overrun), m)
     else sq (put_text i (esc_bin bs @ [CHR 0x00])) (ret (In_buffer i (budget - 1))) m)"

subsection \<open>Arrays\<close>

lemma seen_length: "length m' = length m \<Longrightarrow> length (seen m' v) = length (seen m v)"
  by (cases v) simp_all

lemma put_text_length: "put_text i s m = (r, m') \<Longrightarrow> length m' = length m"
  by (auto simp: put_text_def split: if_splits)

lemma poke_length: "poke i c m = (r, m') \<Longrightarrow> length m' = length m"
  by (auto simp: poke_def split: if_splits)

lemma copy_chars_length: "copy_chars s i m = (r, m') \<Longrightarrow> length m' = length m"
  by (auto simp: copy_chars_def sq_app ret_app put_text_def split: if_splits)

text \<open>
  The loop that copies an element and escapes it, from a view that may lie in the same buffer: \<open>here\<close> is where the next character goes.
\<close>

function quote_span :: "encoding_group \<Rightarrow> text_view \<Rightarrow> nat \<Rightarrow> nat \<Rightarrow> memory \<Rightarrow> (stop + nat) \<times> memory" where
  "quote_span enc from i here m =
     (if i < length (seen m from)
      then (case find_in enc [CHR 0x5C, CHR 0x22] (seen m from) i of
              Inl e \<Rightarrow> (Inl (Throw e), m)
            | Inr nxt \<Rightarrow>
                (case copy_chars (take (nxt - i) (drop i (seen m from))) here m of
                   (Inl s, m1) \<Rightarrow> (Inl s, m1)
                 | (Inr h, m1) \<Rightarrow>
                     if nxt < length (seen m from)
                     then (case poke h (CHR 0x5C) m1 of
                             (Inl s, m2) \<Rightarrow> (Inl s, m2)
                           | (Inr u, m2) \<Rightarrow> (case poke (h + 1) (seen m2 from ! nxt) m2 of
                                (Inl s, m3) \<Rightarrow> (Inl s, m3)
                              | (Inr u, m3) \<Rightarrow> quote_span enc from (nxt + 1) (h + 2) m3))
                     else (Inr h, m1)))
      else (Inr here, m))"
  by pat_completeness auto
termination
proof (relation "measure (\<lambda>(enc, frm, i, here, m). length (seen m frm) - i)", goal_cases)
  case (2 enc frm i here m nxt x m1 h y m2 u z m3 u')
  have "length m1 = length m" by (rule copy_chars_length[OF 2(3)[symmetric]])
  moreover have "length m2 = length m1" by (rule poke_length[OF 2(6)[symmetric]])
  moreover have "length m3 = length m2" by (rule poke_length[OF 2(8)[symmetric]])
  ultimately have "length (seen m3 frm) = length (seen m frm)" using seen_length[of m3 m frm] by simp
  moreover have "i \<le> nxt" using find_in_range[OF 2(2)] 2(1) by simp
  ultimately show ?case using 2(1) by simp
qed simp

declare quote_span.simps [simp del]

text \<open>An element that needs quoting: the tail of the buffer is the scratch space of its conversion.\<close>

definition quoted_into :: "encoding_group \<Rightarrow> nat \<Rightarrow> (nat \<Rightarrow> (memory, text_view) prog) \<Rightarrow> nat \<Rightarrow> (memory, nat) prog" where
  "quoted_into enc budget to_buf here = sq (poke here (CHR 0x22)) (\<lambda>m.
     if length m < budget then (Inl (Undefined Index_out_of_range), m)
     else bnd (to_buf (length m - budget)) (\<lambda>from.
        bnd (lift_exn (get_char_finder [CHR 0x5C, CHR 0x22] enc)) (\<lambda>find.
        bnd (quote_span enc from 0 (here + 1)) (\<lambda>h.
        sq (poke h (CHR 0x22)) (ret (h + 1))))) m)"

subsection \<open>Values in buffers\<close>

text \<open>\<open>to_buf\<close> of the specialisations, over that of what they hold.\<close>

definition int_value_to_buf :: "cpp_type \<Rightarrow> int \<Rightarrow> nat \<Rightarrow> (memory, text_view) prog" where
  "int_value_to_buf T x = (case T of Int_type s n \<Rightarrow> int_to_view s n x | _ \<Rightarrow> (\<lambda>_. ret (Elsewhere [])))"

definition bool_to_buf :: "bool \<Rightarrow> nat \<Rightarrow> (memory, text_view) prog" where
  "bool_to_buf b = (\<lambda>_. ret (Elsewhere (if b then ''true'' else ''false'')))"

definition text_to_buf :: "string \<Rightarrow> nat \<Rightarrow> (memory, text_view) prog" where
  "text_to_buf s = (\<lambda>_. ret (Elsewhere s))"

definition null_to_buf :: "cpp_type \<Rightarrow> nat \<Rightarrow> (memory, text_view) prog" where
  "null_to_buf T = (\<lambda>_. case T of
       Pointer S \<Rightarrow> throw (Conversion_error ''Attempted to convert SQL null to pointer.'')
     | Cstring_type \<Rightarrow> stop_with (Undefined Null_pointer)
     | Variant Ts \<Rightarrow> throw (Runtime_error ''std::visit: variant is valueless'')
     | _ \<Rightarrow> ret (Elsewhere []))"

definition optional_to_buf :: "bool \<Rightarrow> (nat \<Rightarrow> (memory, text_view) prog) \<Rightarrow> nat \<Rightarrow> (memory, text_view) prog" where
  "optional_to_buf null inner = (if null then (\<lambda>_. ret (Elsewhere [])) else inner)"

text \<open>\<open>array_into_buf\<close>, over its loop; the separator after the last element is overwritten.\<close>

definition array_to_buf :: "nat \<Rightarrow> bool \<Rightarrow> (nat \<Rightarrow> (memory, nat) prog) \<Rightarrow> nat \<Rightarrow> (memory, text_view) prog" where
  "array_to_buf budget nonempty loop = (\<lambda>i m. if length m - i < budget then (Inl (Throw Conversion_overrun), m)
     else sq (poke i (CHR ''{'')) (bnd (loop (i + 1)) (\<lambda>h.
       let here = (if nonempty then h - 1 else h) in sq (poke here (CHR ''}'')) (ret (In_buffer i (here + 1 - i))))) m)"

fun to_view :: "encoding_group \<Rightarrow> cpp_type \<Rightarrow> cpp_value \<Rightarrow> nat \<Rightarrow> (memory, text_view) prog"
  and write_items :: "encoding_group \<Rightarrow> cpp_type \<Rightarrow> cpp_value list \<Rightarrow> nat \<Rightarrow> (memory, nat) prog" where
  "to_view enc T (Int_value x) = int_value_to_buf T x"
| "to_view enc T (Bool_value b) = bool_to_buf b"
| "to_view enc T (Text_value s) = text_to_buf s"
| "to_view enc T (Bytes_value bs) = bytes_to_view bs"
| "to_view enc T Nothing = null_to_buf T"
| "to_view enc T (Just v) = (case T of
       Optional S \<Rightarrow> optional_to_buf (value_is_null T (Just v)) (to_view enc (target T) v)
     | _ \<Rightarrow> to_view enc (target T) v)"
| "to_view enc T (Alternative i v) = to_view enc (alternative T i) v"
| "to_view enc T (Items vs) = array_to_buf (value_size T (Items vs)) (vs \<noteq> []) (write_items enc (item_type T) vs)"
| "write_items enc S [] here = ret here"
| "write_items enc S (v # vs) here = bnd
     (if value_is_null S v then copy_chars ''NULL'' here
      else if sql_array S \<or> unquoted_safe S then in_span here (bnd (into_span (to_view enc S v) here) (\<lambda>k. ret (here + k)))
      else quoted_into enc (value_size S v) (to_view enc S v) here)
     (\<lambda>h. sq (poke h (CHR '','')) (write_items enc S vs (h + 1)))"

lemmas to_buf_defs [simp] = int_value_to_buf_def bool_to_buf_def text_to_buf_def null_to_buf_def optional_to_buf_def array_to_buf_def

subsection \<open>Strings\<close>

text \<open>\<open>to_string\<close> uses a buffer that is exactly as large as the estimate.\<close>

definition value_to_string :: "encoding_group \<Rightarrow> cpp_type \<Rightarrow> cpp_value \<Rightarrow> stop + string" where
  "value_to_string enc T v = (if value_is_null T v then Inl (Throw (Conversion_error ''Attempt to convert null to a string.''))
     else case into_span (to_view enc T v) 0 (replicate (value_size T v) (CHR 0x00)) of
         (Inl s, m) \<Rightarrow> Inl s
       | (Inr n, m) \<Rightarrow> Inr (take n m))"

text \<open>\<open>from_string\<close>; \<open>None\<close> where it is deleted.\<close>

fun value_from_string :: "cpp_type \<Rightarrow> (string \<Rightarrow> exn + cpp_value) option" where
  "value_from_string (Int_type is_signed n) = Some (\<lambda>t. map_sum id Int_value (from_string_arithmetic
     (if is_signed then from_chars_int (- (2 ^ (n - 1))) (2 ^ (n - 1) - 1) else from_chars_int 0 (2 ^ n - 1)) ''integer'' t))"
| "value_from_string Bool_type = Some (\<lambda>t. map_sum id Bool_value (from_string_bool t))"
| "value_from_string String_type = Some (\<lambda>t. Inr (Text_value t))"
| "value_from_string Bytes_type = Some (\<lambda>t. map_sum id Bytes_value (unesc_bin t))"
| "value_from_string (Optional T) = map_option (\<lambda>f t. map_sum id Just (f t)) (value_from_string T)"
| "value_from_string (Pointer T) = map_option (\<lambda>f t. map_sum id Just (f t)) (value_from_string T)"
| "value_from_string T = None"

text \<open>
  \<open>to_buf_multi\<close>: several values one after the other in one buffer, with a view of each.  The estimate for several values is the sum of theirs.
\<close>

fun to_buf_multi :: "encoding_group \<Rightarrow> (cpp_type \<times> cpp_value) list \<Rightarrow> nat \<Rightarrow> (memory, (nat \<times> nat) list) prog" where
  "to_buf_multi enc [] here = ret []"
| "to_buf_multi enc ((T, v) # vs) here = in_span here (bnd (into_span (to_view enc T v) here) (\<lambda>k.
     bnd (to_buf_multi enc vs (here + k)) (\<lambda>views. ret ((here, k) # views))))"

definition multi_size :: "(cpp_type \<times> cpp_value) list \<Rightarrow> nat" where
  "multi_size vs = sum_list (map (\<lambda>(T, v). value_size T v) vs)"

subsection \<open>Composite values\<close>

text \<open>
  The estimate takes off a terminating zero that the estimates of the fields do not have; the subtraction wraps as \<open>std::size_t\<close> does.
\<close>

definition composite_field_size :: "cpp_type \<Rightarrow> cpp_value \<Rightarrow> int" where
  "composite_field_size T v = (if unquoted_safe T then int (value_size T v) - 1 else 1 + 2 * (int (value_size T v) - 1) + 1) mod 2 ^ 64"

definition composite_size :: "(cpp_type \<times> cpp_value) list \<Rightarrow> nat" where
  "composite_size fs = (if fs = [] then 3
     else nat ((1 + sum_list (map (\<lambda>(T, v). composite_field_size T v) fs) + int (length fs) + 1) mod 2 ^ 64))"

fun escape_bytes :: "text_view \<Rightarrow> nat list \<Rightarrow> nat \<Rightarrow> (memory, nat) prog" where
  "escape_bytes from [] pos = ret pos"
| "escape_bytes from (i # is) pos = bnd (gets (\<lambda>m. seen m from ! i)) (\<lambda>x.
     if x = CHR 0x22 \<or> x = CHR 0x5C
     then sq (poke pos (CHR 0x5C)) (sq (poke (pos + 1) x) (escape_bytes from is (pos + 2)))
     else sq (poke pos x) (escape_bytes from is (pos + 1)))"

definition composite_field_span :: "encoding_group \<Rightarrow> cpp_type \<Rightarrow> cpp_value \<Rightarrow> nat \<Rightarrow> (memory, nat) prog" where
  "composite_field_span enc T v pos = bnd
     (if unquoted_safe T then in_span pos (bnd (into_span (to_view enc T v) pos) (\<lambda>k. ret (pos + k)))
      else sq (poke pos (CHR 0x22)) (\<lambda>m. let budget = value_size T v in
        if length m < budget then (Inl (Undefined Index_out_of_range), m)
        else bnd (to_view enc T v (length m - budget)) (\<lambda>from.
          bnd (gets (\<lambda>m1. length (seen m1 from))) (\<lambda>n. bnd (escape_bytes from [0..<n] (pos + 1)) (\<lambda>p.
          sq (poke p (CHR 0x22)) (ret (p + 1))))) m))
     (\<lambda>p. sq (poke p (CHR '','')) (ret (p + 1)))"

fun composite_fields_span :: "encoding_group \<Rightarrow> (cpp_type \<times> cpp_value) list \<Rightarrow> nat \<Rightarrow> (memory, nat) prog" where
  "composite_fields_span enc [] pos = ret pos"
| "composite_fields_span enc ((T, v) # fs) pos = bnd (composite_field_span enc T v pos) (composite_fields_span enc fs)"

definition composite_span :: "encoding_group \<Rightarrow> (cpp_type \<times> cpp_value) list \<Rightarrow> (memory, nat) prog" where
  "composite_span enc fs = (\<lambda>m. if length m < composite_size fs
     then (Inl (Throw (Conversion_error ''Buffer space may not be enough to represent composite value.'')), m)
     else if fs = [] then bnd (copy_chars ''()'' 0) (\<lambda>n. sq (poke n (CHR 0x00)) (ret n)) m
     else sq (poke 0 (CHR ''('')) (bnd (composite_fields_span enc fs 1) (\<lambda>p.
       let pos = (if length fs > 1 then p - 1 else p) in
       sq (poke pos (CHR '')'')) (sq (poke (pos + 1) (CHR 0x00)) (ret (pos + 1))))) m)"

end
