(* ===== verification/Traits_Spec.thy ===== *)
theory Traits_Spec
  imports Pqxx_Traits "HOL-Library.Sublist"
begin

text \<open>
  Whether the estimates of \<open>size_buffer\<close> are large enough.  For arrays of texts they are, and what is written is the text of the reference
  definition \<open>array_into_buf\<close>; for arrays of values that need no quotes and for composite values they are not.
\<close>

subsection \<open>Writing at the end of what is written\<close>

lemma prefix_split: "prefix P m \<Longrightarrow> \<exists>r. m = P @ r"
  by (auto simp: prefix_def)

lemma poke_ok:
  assumes "prefix P m" "length P < length m"
  shows "\<exists>m'. poke (length P) c m = (Inr (), m') \<and> prefix (P @ [c]) m' \<and> length m' = length m"
proof -
  obtain x r where "m = P @ x # r" using assms by (metis prefix_split append.right_neutral less_irrefl list.exhaust)
  then show ?thesis by (simp add: poke_def)
qed

lemma poke_out: "length m \<le> i \<Longrightarrow> poke i c m = (Inl (Undefined Index_out_of_range), m)"
  by (simp add: poke_def)

lemma put_text_ok:
  assumes "prefix P m" "length P + length s \<le> length m"
  shows "\<exists>m'. put_text (length P) s m = (Inr (), m') \<and> prefix (P @ s) m' \<and> length m' = length m"
proof -
  obtain r where "m = P @ r" using assms(1) by (auto simp: prefix_def)
  then show ?thesis using assms(2) by (simp add: put_text_def)
qed

lemma copy_chars_ok:
  assumes "prefix P m" "length P + length s \<le> length m"
  shows "\<exists>m'. copy_chars s (length P) m = (Inr (length (P @ s)), m') \<and> prefix (P @ s) m' \<and> length m' = length m"
  using put_text_ok[OF assms] assms(2) by (auto simp: copy_chars_def prog_simps)

lemma put_front: "put_text 0 (take n m) m = (Inr (), m)"
  by (simp add: put_text_def min_def)

lemma put_text_same: "put_text (length P) t (P @ t @ r) = (Inr (), P @ t @ r)"
  by (simp add: put_text_def)

subsection \<open>Quoting\<close>

lemma quote_loop_grows: "quote_loop enc t i B = Inr B' \<Longrightarrow> prefix B B' \<and> length B' \<le> length B + 2 * (length t - i)"
proof (induction enc t i B rule: quote_loop.induct)
  case (1 enc t i B)
  show ?case
  proof (cases "i < length t")
    case True
    then obtain q where q: "find_in enc [CHR 0x5C, CHR 0x22] t i = Inr q"
      using 1(2) by (auto simp: quote_loop.simps[of enc t i B] split: sum.splits)
    have r: "i \<le> q \<and> q \<le> length t" using find_in_range[OF q] True by simp
    show ?thesis
    proof (cases "q < length t")
      case False
      then show ?thesis using 1(2) q True r by (simp add: quote_loop.simps[of enc t i B]) auto
    next
      case lt: True
      let ?B = "(B @ take (q - i) (drop i t)) @ [CHR 0x5C, t ! q]"
      have "quote_loop enc t (q + 1) ?B = Inr B'" using 1(2) q True lt by (simp add: quote_loop.simps[of enc t i B])
      then have "prefix ?B B'" "length B' \<le> length ?B + 2 * (length t - (q + 1))" using 1(1)[OF True q refl lt] by blast+
      moreover from this(1) have "prefix B B'" by (auto simp: prefix_def)
      moreover have "length ?B = length B + (q - i) + 2" using r by (simp add: min_absorb2 diff_le_mono)
      ultimately show ?thesis using r lt by simp
    qed
  next
    case False
    then show ?thesis using 1(2) by (simp add: quote_loop.simps[of enc t i B])
  qed
qed

lemma quote_span_ok:
  "quote_loop enc t i B = Inr B' \<Longrightarrow> prefix B m \<Longrightarrow> length B + 2 * (length t - i) \<le> length m \<Longrightarrow>
     \<exists>m'. quote_span enc (Elsewhere t) i (length B) m = (Inr (length B'), m') \<and> prefix B' m' \<and> length m' = length m"
proof (induction enc t i B arbitrary: m rule: quote_loop.induct)
  case (1 enc t i B)
  show ?case
  proof (cases "i < length t")
    case True
    then obtain q where q: "find_in enc [CHR 0x5C, CHR 0x22] t i = Inr q"
      using 1(2) by (auto simp: quote_loop.simps[of enc t i B] split: sum.splits)
    have r: "i \<le> q \<and> q \<le> length t" using find_in_range[OF q] True by simp
    let ?B1 = "B @ take (q - i) (drop i t)"
    have "length B + length (take (q - i) (drop i t)) \<le> length m" using 1(4) r by simp
    from copy_chars_ok[OF 1(3) this] obtain m1 where m1: "copy_chars (take (q - i) (drop i t)) (length B) m = (Inr (length ?B1), m1)"
      "prefix ?B1 m1" "length m1 = length m" by blast
    have l1: "length ?B1 = length B + (q - i)" using r by (simp add: min_absorb2 diff_le_mono)
    show ?thesis
    proof (cases "q < length t")
      case False
      then have "B' = ?B1" using 1(2) q True by (simp add: quote_loop.simps[of enc t i B])
      then show ?thesis using m1 q True False by (simp add: quote_span.simps[of enc "Elsewhere t" i "length B" m])
    next
      case lt: True
      have "length ?B1 < length m1" using 1(4) l1 m1(3) r lt by linarith
      from poke_ok[OF m1(2) this] obtain m2 where m2: "poke (length ?B1) (CHR 0x5C) m1 = (Inr (), m2)" "prefix (?B1 @ [CHR 0x5C]) m2" "length m2 = length m"
        using m1(3) by metis
      have "length (?B1 @ [CHR 0x5C]) < length m2" using 1(4) l1 m2(3) r lt by simp
      from poke_ok[OF m2(2) this, of "t ! q"] obtain m3 where m3: "poke (length ?B1 + 1) (t ! q) m2 = (Inr (), m3)"
        "prefix (?B1 @ [CHR 0x5C, t ! q]) m3" "length m3 = length m" using m2(3) by auto
      have ql: "quote_loop enc t (q + 1) (?B1 @ [CHR 0x5C, t ! q]) = Inr B'" using 1(2) q True lt by (simp add: quote_loop.simps[of enc t i B])
      have room: "length (?B1 @ [CHR 0x5C, t ! q]) + 2 * (length t - (q + 1)) \<le> length m3" using 1(4) l1 m3(3) r lt by simp
      have len: "length (?B1 @ [CHR 0x5C, t ! q]) = length ?B1 + 2" by simp
      obtain m' where m': "quote_span enc (Elsewhere t) (q + 1) (length ?B1 + 2) m3 = (Inr (length B'), m')" "prefix B' m'" "length m' = length m"
        using 1(1)[OF True q refl lt ql m3(2) room] m3(3) unfolding len by auto
      have "quote_span enc (Elsewhere t) i (length B) m = quote_span enc (Elsewhere t) (q + 1) (length ?B1 + 2) m3"
        by (subst quote_span.simps) (simp only: seen.simps True if_True q sum.case m1(1) prod.case lt m2(1) m3(1))
      with m' show ?thesis by auto
    qed
  next
    case False
    then have "B' = B" using 1(2) by (simp add: quote_loop.simps[of enc t i B])
    then show ?thesis using 1(3) False by (simp add: quote_span.simps[of enc "Elsewhere t" i "length B" m])
  qed
qed

lemma quoted_into_ok:
  assumes view: "\<And>j m. to_buf j m = (Inr (Elsewhere s), m)" and ref: "elt_into_buf enc sep (Text_elt s) P = Inr P'"
    and m: "prefix P m" "length P + 2 * n + 2 \<le> length m" "length s \<le> n"
  shows "\<exists>m'. quoted_into enc n to_buf (length P) m = (Inr (length P'), m') \<and> prefix P' m' \<and> length m' = length m \<and> prefix P P' \<and> length P' \<le> length P + 2 * n + 2"
proof -
  obtain f B where f: "get_char_finder [CHR 0x5C, CHR 0x22] enc = Inr f" and B: "quote_loop enc s 0 (P @ [CHR 0x22]) = Inr B" "P' = B @ [CHR 0x22]"
    using ref by (auto split: sum.splits)
  have "length P < length m" using m(2) by simp
  from poke_ok[OF m(1) this] obtain m1 where m1: "poke (length P) (CHR 0x22) m = (Inr (), m1)" "prefix (P @ [CHR 0x22]) m1" "length m1 = length m" by blast
  have "length (P @ [CHR 0x22]) + 2 * (length s - 0) \<le> length m1" using m m1(3) by simp
  from quote_span_ok[OF B(1) m1(2) this] obtain m2 where m2: "quote_span enc (Elsewhere s) 0 (length P + 1) m1 = (Inr (length B), m2)" "prefix B m2"
    "length m2 = length m" using m1(3) by auto
  have lB: "prefix (P @ [CHR 0x22]) B" "length B \<le> length P + 1 + 2 * length s" using quote_loop_grows[OF B(1)] by simp_all
  from this(1) have pP: "prefix P P'" using B(2) by (auto simp: prefix_def)
  have "length B < length m2" using lB(2) m m2(3) by simp
  from poke_ok[OF m2(2) this] obtain m3 where m3: "poke (length B) (CHR 0x22) m2 = (Inr (), m3)" "prefix P' m3" "length m3 = length m"
    using m2(3) B(2) by metis
  have "quoted_into enc n to_buf (length P) m = (Inr (length P'), m3)"
    using m1(1,3) m2(1) m3(1) B(2) m(2) f by (simp add: quoted_into_def prog_simps view lift_exn_def)
  then show ?thesis using m3 lB(2) pP B(2) m(3) by auto
qed
subsection \<open>Arrays of texts\<close>

fun texty :: "cpp_type \<Rightarrow> bool" where
  "texty String_type = True"
| "texty Literal_type = True"
| "texty Cstring_type = True"
| "texty (Optional T) = texty T"
| "texty (Pointer T) = texty T"
| "texty (Variant Ts) = (Ts \<noteq> [] \<and> (\<forall>T \<in> set Ts. texty T))"
| "texty T = False"

fun plain_text :: "cpp_value \<Rightarrow> string" where
  "plain_text (Text_value s) = s"
| "plain_text (Just v) = plain_text v"
| "plain_text (Alternative i v) = plain_text v"
| "plain_text v = []"

text \<open>A container of texts, or of containers of texts, to any depth.\<close>

fun text_array :: "cpp_type \<Rightarrow> bool" where
  "text_array (Range T) = (texty T \<or> text_array T)"
| "text_array T = False"

text \<open>The element of the reference definition that a value stands for.\<close>

fun elt_of :: "cpp_type \<Rightarrow> cpp_value \<Rightarrow> sql_elt" where
  "elt_of T (Items vs) = Sub_array (map (elt_of (item_type T)) vs)"
| "elt_of T v = (if value_is_null T v then Null_elt else Text_elt (plain_text v))"

lemma texty_quoted: "texty T \<Longrightarrow> \<not> unquoted_safe T \<and> \<not> sql_array T"
  by (induction T rule: texty.induct) (auto simp: neq_Nil_conv)

lemma text_array_quoted: "text_array T \<Longrightarrow> \<not> unquoted_safe T \<and> sql_array T"
  by (cases T) simp_all

lemma texty_view:
  "texty T \<Longrightarrow> has_cpp_type T v \<Longrightarrow> \<not> value_is_null T v \<Longrightarrow>
     to_view enc T v = (\<lambda>_. ret (Elsewhere (plain_text v))) \<and> length (plain_text v) \<le> value_size T v \<and> elt_of T v = Text_elt (plain_text v)"
proof (induction v arbitrary: T)
  case (Just v)
  then show ?case by (cases T) auto
next
  case (Alternative i v)
  then show ?case by (cases T) auto
next
  case (Items vs)
  then show ?case by (cases T) auto
qed (auto split: cpp_type.splits bool.splits)

lemma into_span_in_place:
  assumes "to_buf (length P) m = (Inr (In_buffer (length P) k), m')" "prefix (P @ t) m'" "k = length t"
  shows "into_span to_buf (length P) m = (Inr (length t), m')"
proof -
  obtain r where r: "m' = P @ t @ r" using assms(2) by (auto simp: prefix_def)
  then show ?thesis using assms(1,3) by (simp add: into_span_def prog_simps put_text_same Let_def)
qed

text \<open>What is said of one element: it is written where it should be, and takes no more than its share of the estimate.\<close>

definition item_ok :: "encoding_group \<Rightarrow> cpp_type \<Rightarrow> cpp_value \<Rightarrow> bool" where
  "item_ok enc T v \<longleftrightarrow> (\<forall>P P' m. elt_into_buf enc [] (elt_of T v) P = Inr P' \<longrightarrow> prefix P m \<longrightarrow> length P + value_size T v \<le> length m \<longrightarrow>
     (\<exists>m' t. to_view enc T v (length P) m = (Inr (In_buffer (length P) (length t)), m') \<and> P' = P @ t \<and> prefix P' m' \<and> length m' = length m
        \<and> length t \<le> value_size T v))"

abbreviation share :: "cpp_type \<Rightarrow> cpp_value \<Rightarrow> nat" where
  "share S v \<equiv> 2 * (if value_is_null S v then 4 else value_size S v) + 3"

lemma write_items_ok:
  assumes S: "texty S \<or> text_array S" and items: "\<And>v. v \<in> set vs \<Longrightarrow> text_array S \<Longrightarrow> item_ok enc S v"
    and ty: "\<forall>v \<in> set vs. has_cpp_type S v"
    and ref: "elts_into_buf enc [] (map (elt_of S) vs) P = Inr P'" and m: "prefix P m" "length P + sum_list (map (share S) vs) \<le> length m"
  shows "\<exists>m'. write_items enc S vs (length P) m = (Inr (length P'), m') \<and> prefix P' m' \<and> length m' = length m
    \<and> length P' \<le> length P + sum_list (map (share S) vs) \<and> prefix P P'"
  using items ty ref m
proof (induction vs arbitrary: P m)
  case (Cons v vs)
  obtain B where B: "elt_into_buf enc [] (elt_of S v) P = Inr B" and rest: "elts_into_buf enc [] (map (elt_of S) vs) (B @ '','') = Inr P'"
    using Cons.prems(3) by (auto split: sum.splits)
  have room: "length P + share S v + sum_list (map (share S) vs) \<le> length m" using Cons.prems(5) by simp
  let ?elt = "if value_is_null S v then copy_chars ''NULL'' (length P)
      else if sql_array S \<or> unquoted_safe S then in_span (length P) (bnd (into_span (to_view enc S v) (length P)) (\<lambda>k. ret (length P + k)))
      else quoted_into enc (value_size S v) (to_view enc S v) (length P)"
  have "\<exists>m1. ?elt m = (Inr (length B), m1) \<and> prefix B m1 \<and> length m1 = length m \<and> prefix P B \<and> length B + 1 \<le> length P + share S v"
  proof (cases "value_is_null S v")
    case True
    then have "elt_of S v = Null_elt" by (cases v) simp_all
    then have b: "B = P @ ''NULL''" using B by simp
    have "length P + length ''NULL'' \<le> length m" using room True by simp
    from copy_chars_ok[OF Cons.prems(4) this] show ?thesis using True b by auto
  next
    case nn: False
    have tv: "has_cpp_type S v" using Cons.prems(2) by simp
    show ?thesis
    proof (cases "text_array S")
      case True
      have fits: "length P + value_size S v \<le> length m" using room nn by simp
      have "item_ok enc S v" using Cons.prems(1)[of v] True by simp
      from this[unfolded item_ok_def, rule_format, OF B Cons.prems(4) fits] obtain m1 t where
        m1: "to_view enc S v (length P) m = (Inr (In_buffer (length P) (length t)), m1)" "B = P @ t" "prefix B m1" "length m1 = length m"
        "length t \<le> value_size S v" by blast
      have "into_span (to_view enc S v) (length P) m = (Inr (length t), m1)" using into_span_in_place[of "to_view enc S v" P m "length t" m1 t] m1(1-3) by simp
      then have "?elt m = (Inr (length B), m1)" using nn text_array_quoted[OF True] m1(2) room by (simp add: in_span_def prog_simps)
      then show ?thesis using m1 nn by auto
    next
      case False
      then have tx: "texty S" using S by simp
      note view = texty_view[OF tx tv nn, of enc]
      have "\<And>j m. to_view enc S v j m = (Inr (Elsewhere (plain_text v)), m)" using view by (simp add: ret_app)
      moreover have "elt_into_buf enc [] (Text_elt (plain_text v)) P = Inr B" using B view by simp
      moreover have "length P + 2 * value_size S v + 2 \<le> length m" using room nn by simp
      ultimately show ?thesis using quoted_into_ok[of "to_view enc S v" "plain_text v" enc _ P B m "value_size S v"] Cons.prems(4) view nn texty_quoted[OF tx]
        by auto
    qed
  qed
  then obtain m1 where m1: "?elt m = (Inr (length B), m1)" "prefix B m1" "length m1 = length m" "prefix P B" "length B + 1 \<le> length P + share S v" by blast
  have "length B < length m1" using m1(3,5) room by linarith
  from poke_ok[OF m1(2) this] obtain m2 where m2: "poke (length B) (CHR '','') m1 = (Inr (), m2)" "prefix (B @ '','') m2" "length m2 = length m"
    using m1(3) by auto
  have "length (B @ '','') + sum_list (map (share S) vs) \<le> length m2" using m2(3) m1(5) room by simp
  from Cons.IH[OF _ _ rest m2(2) this] Cons.prems(1,2) obtain m3 where m3: "write_items enc S vs (length B + 1) m2 = (Inr (length P'), m3)" "prefix P' m3"
    "length m3 = length m" "prefix (B @ '','') P'" "length P' \<le> length (B @ '','') + sum_list (map (share S) vs)" using m2(3) by auto
  have "write_items enc S (v # vs) (length P) m = (Inr (length P'), m3)" using m3(1) unfolding write_items.simps bnd_app m1(1) by (simp add: sq_app m2(1))
  moreover have "prefix P P'" using m1(4) m3(4) by (auto simp: prefix_def)
  ultimately show ?case using m3 m1(5) by auto
qed (auto simp: prog_simps)

lemma array_view_ok: "text_array T \<Longrightarrow> has_cpp_type T v \<Longrightarrow> item_ok enc T v"
proof (induction v arbitrary: T)
  case (Items vs)
  obtain S where T: "T = Range S" using Items.prems(1) by (cases T) auto
  then have S: "texty S \<or> text_array S" and ty: "\<forall>v \<in> set vs. has_cpp_type S v" using Items.prems by auto
  have q: "\<not> unquoted_safe S" using S texty_quoted text_array_quoted by blast
  show ?case unfolding item_ok_def
  proof (intro allI impI)
    fix P P' m assume ref: "elt_into_buf enc [] (elt_of T (Items vs)) P = Inr P'" and m: "prefix P m" "length P + value_size T (Items vs) \<le> length m"
    obtain B where B: "elts_into_buf enc [] (map (elt_of S) vs) (P @ ''{'') = Inr B" "P' = (if vs \<noteq> [] then butlast B else B) @ ''}''"
      using ref T by (auto split: sum.splits)
    have size: "value_size T (Items vs) = 3 + sum_list (map (share S) vs)" using q T by (simp add: Let_def)
    have "length P < length m" using m(2) size by simp
    from poke_ok[OF m(1) this] obtain m1 where m1: "poke (length P) (CHR ''{'') m = (Inr (), m1)" "prefix (P @ ''{'') m1" "length m1 = length m" by blast
    have "length (P @ ''{'') + sum_list (map (share S) vs) \<le> length m1" using m(2) size m1(3) by simp
    from write_items_ok[OF S _ ty B(1) m1(2) this] Items.IH ty obtain m2 where
      m2: "write_items enc S vs (length P + 1) m1 = (Inr (length B), m2)" "prefix B m2" "length m2 = length m"
        "length B \<le> length (P @ ''{'') + sum_list (map (share S) vs)" "prefix (P @ ''{'') B" using m1(3) by auto
    define B' where "B' = (if vs \<noteq> [] then butlast B else B)"
    have lB: "length B' = (if vs \<noteq> [] then length B - 1 else length B)" by (simp add: B'_def)
    have pos: "0 < length B" using m2(5) by (auto simp: prefix_def)
    have pB: "prefix B' m2" using m2(2) prefix_order.trans[OF prefixeq_butlast] by (auto simp: B'_def)
    have "length B' < length m2" using lB m2(3,4) m(2) size by (simp split: if_splits)
    from poke_ok[OF pB this] obtain m3 where m3: "poke (length B') (CHR ''}'') m2 = (Inr (), m3)" "prefix P' m3" "length m3 = length m"
      using m2(3) B(2) B'_def by auto
    have lP: "length P' = length B' + 1" using B(2) B'_def by simp
    have "to_view enc T (Items vs) (length P) m = (Inr (In_buffer (length P) (length P' - length P)), m3)"
      using m1(1) m2(1) m3(1) m(2) T lB lP by (simp add: prog_simps Let_def)
    moreover have "prefix P P'"
    proof -
      obtain r where "B = P @ ''{'' @ r" using m2(5) by (auto simp: prefix_def)
      then show ?thesis using B(2) by (auto simp: butlast_append prefix_def)
    qed
    then obtain t where "P' = P @ t" by (auto simp: prefix_def)
    moreover have "length P' \<le> length P + value_size T (Items vs)" using lP lB m2(4) size by (simp split: if_splits)
    ultimately show "\<exists>m' t. to_view enc T (Items vs) (length P) m = (Inr (In_buffer (length P) (length t)), m') \<and> P' = P @ t \<and> prefix P' m'
        \<and> length m' = length m \<and> length t \<le> value_size T (Items vs)" using m3(2,3) by auto
  qed
qed (auto split: cpp_type.splits)

text \<open>
  C37.  The estimate is large enough for containers of texts, of optional texts, of pointers to texts, and of such containers, to any depth, in
  every encoding: \<open>to_string\<close> writes into a buffer of the estimated size, never past its end, and the result is exactly the text of the
  reference definition of arrays.
\<close>

theorem text_arrays_fit:
  assumes "text_array T" "has_cpp_type T (Items vs)" "array_into_buf enc [] (map (elt_of (item_type T)) vs) = Inr out"
  shows "value_to_string enc T (Items vs) = Inr out"
proof -
  let ?m = "replicate (value_size T (Items vs)) (CHR 0x00)"
  have ref: "elt_into_buf enc [] (elt_of T (Items vs)) [] = Inr out" using assms(3) by (simp add: array_into_buf_def)
  have room: "length [] + value_size T (Items vs) \<le> length ?m" by simp
  from array_view_ok[OF assms(1,2), unfolded item_ok_def, rule_format, OF ref _ room] obtain m' where
    m': "to_view enc T (Items vs) (length []) ?m = (Inr (In_buffer (length []) (length out)), m')" "prefix out m'" by auto
  have "into_span (to_view enc T (Items vs)) (length []) ?m = (Inr (length out), m')"
    using into_span_in_place[of "to_view enc T (Items vs)" "[]" ?m "length out" m' out] m' by simp
  moreover have "take (length out) m' = out" using m'(2) by (auto simp: prefix_def)
  ultimately show ?thesis by (simp add: value_to_string_def)
qed

theorem text_arrays_fit_witness:
  "value_to_string Sjis (Range (Range (Optional String_type))) (Items [Items [Just (Text_value [CHR 0x83, CHR 0x5C]), Nothing], Items [Just (Text_value [CHR 0x22])]])
    = Inr (''{{'' @ [CHR 0x22, CHR 0x83, CHR 0x5C, CHR 0x22] @ '',NULL},{'' @ [CHR 0x22, CHR 0x5C, CHR 0x22, CHR 0x22] @ ''}}'')"
proof (rule text_arrays_fit)
  show "text_array (Range (Range (Optional String_type)))" by simp
  show "has_cpp_type (Range (Range (Optional String_type))) (Items [Items [Just (Text_value [CHR 0x83, CHR 0x5C]), Nothing], Items [Just (Text_value [CHR 0x22])]])"
    by simp
  show "array_into_buf Sjis [] (map (elt_of (item_type (Range (Range (Optional String_type)))))
      [Items [Just (Text_value [CHR 0x83, CHR 0x5C]), Nothing], Items [Just (Text_value [CHR 0x22])]])
    = Inr (''{{'' @ [CHR 0x22, CHR 0x83, CHR 0x5C, CHR 0x22] @ '',NULL},{'' @ [CHR 0x22, CHR 0x5C, CHR 0x22, CHR 0x22] @ ''}}'')"
    by code_simp
qed

subsection \<open>Arrays of truth values\<close>

abbreviation bool_text :: "bool \<Rightarrow> string" where
  "bool_text b \<equiv> if b then ''true'' else ''false''"

definition bools_text :: "bool list \<Rightarrow> string" where
  "bools_text bs = concat (map (\<lambda>b. bool_text b @ '','') bs)"

lemma bools_text_length: "length (bools_text bs) = 5 * length bs + length (filter Not bs)"
  by (induction bs) (simp_all add: bools_text_def)

lemma write_bools:
  assumes "prefix P m"
  shows "if length P + length (bools_text bs) \<le> length m
    then \<exists>m'. write_items enc Bool_type (map Bool_value bs) (length P) m = (Inr (length (P @ bools_text bs)), m') \<and> prefix (P @ bools_text bs) m' \<and> length m' = length m
    else \<exists>e m'. write_items enc Bool_type (map Bool_value bs) (length P) m = (Inl e, m')"
  using assms
proof (induction bs arbitrary: P m)
  case (Cons b bs)
  have PL: "length P \<le> length m" using Cons.prems by (rule prefix_length_le)
  have t: "bools_text (b # bs) = bool_text b @ '','' @ bools_text bs" by (simp add: bools_text_def)
  show ?case
  proof (cases "length P + length (bool_text b) + 1 \<le> length m")
    case True
    then have "length P + length (bool_text b) \<le> length m" by simp
    from put_text_ok[OF Cons.prems this] obtain m1 where m1: "put_text (length P) (bool_text b) m = (Inr (), m1)" "prefix (P @ bool_text b) m1"
      "length m1 = length m" by blast
    have "length (P @ bool_text b) < length m1" using True m1(3) by simp
    from poke_ok[OF m1(2) this, of "CHR '',''"] obtain m2 where m2: "poke (length (P @ bool_text b)) (CHR '','') m1 = (Inr (), m2)"
      "prefix ((P @ bool_text b) @ '','') m2" "length m2 = length m" using m1(3) by metis
    let ?Q = "(P @ bool_text b) @ '',''"
    have step: "write_items enc Bool_type (map Bool_value (b # bs)) (length P) m = write_items enc Bool_type (map Bool_value bs) (length ?Q) m2"
      using True m1(1) m2(1) by (cases b) (auto simp: prog_simps in_span_def into_span_def Let_def)
    have e: "?Q @ bools_text bs = P @ bools_text (b # bs)" "length ?Q + length (bools_text bs) = length P + length (bools_text (b # bs))"
      using t by simp_all
    show ?thesis using Cons.IH[OF m2(2), unfolded e m2(3)] unfolding step .
  next
    case False
    then have "\<not> length P + length (bools_text (b # bs)) \<le> length m" using t by simp
    moreover have "\<exists>e m'. write_items enc Bool_type (map Bool_value (b # bs)) (length P) m = (Inl e, m')"
    proof (cases "length P + length (bool_text b) \<le> length m")
      case True
      from put_text_ok[OF Cons.prems this] obtain m1 where m1: "put_text (length P) (bool_text b) m = (Inr (), m1)" "length m1 = length m" by blast
      then show ?thesis using True False PL by (cases b) (simp_all add: prog_simps in_span_def into_span_def Let_def poke_def)
    next
      case no: False
      then show ?thesis using PL by (cases b) (auto simp: prog_simps in_span_def into_span_def Let_def)
    qed
    ultimately show ?thesis by simp
  qed
qed (simp add: bools_text_def prog_simps prefix_length_le)

text \<open>
  The estimate for elements that need no quotes leaves no room for the separators: \<open>to_string\<close> of a container of truth values succeeds if and only if at
  most two of them are false, however many there are.
\<close>

theorem bool_array_fits_iff:
  "(\<exists>out. value_to_string enc (Range Bool_type) (Items (map Bool_value bs)) = Inr out) \<longleftrightarrow> length (filter Not bs) \<le> 2"
proof -
  have size: "value_size (Range Bool_type) (Items (map Bool_value bs)) = 3 + 5 * length bs"
    by (induction bs) (simp_all add: Let_def)
  define m where "m = replicate (3 + 5 * length bs) (CHR 0x00)"
  have "prefix [] m" "length ([] :: string) < length m" by (simp_all add: m_def)
  from poke_ok[OF this, of "CHR ''{''"] obtain m1 where m1: "poke 0 (CHR ''{'') m = (Inr (), m1)" "prefix ''{'' m1" "length m1 = 3 + 5 * length bs"
    by (auto simp: m_def)
  have fit: "length ''{'' + length (bools_text bs) \<le> length m1 \<longleftrightarrow> length (filter Not bs) \<le> 2" using m1(3) by (auto simp: bools_text_length)
  have start: "to_view enc (Range Bool_type) (Items (map Bool_value bs)) 0 m = bnd (write_items enc Bool_type (map Bool_value bs) 1) (\<lambda>h.
      let here = (if bs \<noteq> [] then h - 1 else h) in sq (poke here (CHR ''}'')) (ret (In_buffer 0 (here + 1)))) m1"
    using size m1(1) by (simp add: prog_simps m_def)
  show ?thesis
  proof (cases "length (filter Not bs) \<le> 2")
    case True
    then obtain m2 where m2: "write_items enc Bool_type (map Bool_value bs) 1 m1 = (Inr (1 + length (bools_text bs)), m2)"
      "prefix (''{'' @ bools_text bs) m2" "length m2 = length m1" using write_bools[OF m1(2), of bs enc] fit by auto
    define h where "h = (if bs \<noteq> [] then length (bools_text bs) else 1)"
    have h: "h < length m2" using m2(3) m1(3) True by (auto simp: h_def bools_text_length)
    have "to_view enc (Range Bool_type) (Items (map Bool_value bs)) 0 m = (Inr (In_buffer 0 (h + 1)), m2[h := CHR ''}''])"
      using start m2(1) h by (auto simp: prog_simps Let_def poke_def h_def bools_text_def split: if_splits)
    moreover have "put_text 0 (take (h + 1) (m2[h := CHR ''}''])) (m2[h := CHR ''}'']) = (Inr (), m2[h := CHR ''}''])"
      by (rule put_front)
    moreover have "m2 \<noteq> []" using h by auto
    ultimately have "into_span (to_view enc (Range Bool_type) (Items (map Bool_value bs))) 0 m = (Inr (h + 1), m2[h := CHR ''}''])"
      using h by (simp add: into_span_def prog_simps Let_def del: to_view.simps)
    then show ?thesis using True size by (simp add: value_to_string_def m_def[symmetric])
  next
    case False
    then obtain e m2 where "write_items enc Bool_type (map Bool_value bs) 1 m1 = (Inl e, m2)" using write_bools[OF m1(2), of bs enc] fit by auto
    then have "into_span (to_view enc (Range Bool_type) (Items (map Bool_value bs))) 0 m = (Inl e, m2)"
      using start by (simp add: into_span_def prog_simps)
    then show ?thesis using False size by (simp add: value_to_string_def m_def[symmetric])
  qed
qed

text \<open>The same happens to integers that have as many digits as their type allows.\<close>

lemma short_array_overruns:
  "value_to_string Ascii_safe (Range (Int_type True 16)) (Items [Int_value (-32768), Int_value (-32768), Int_value (-32768)]) = Inl (Undefined Index_out_of_range)"
  by code_simp

subsection \<open>Composite values\<close>

abbreviation special :: "char \<Rightarrow> bool" where
  "special c \<equiv> c = CHR 0x22 \<or> c = CHR 0x5C"

definition escaped_bytes :: "string \<Rightarrow> string" where
  "escaped_bytes t = concat (map (\<lambda>x. if special x then [CHR 0x5C, x] else [x]) t)"

lemma escaped_bytes_Nil [simp]: "escaped_bytes [] = []"
  by (simp add: escaped_bytes_def)

lemma escaped_bytes_Cons: "escaped_bytes (c # t) = (if special c then [CHR 0x5C, c] else [c]) @ escaped_bytes t"
  by (simp add: escaped_bytes_def)

lemma escaped_bytes_length: "length (escaped_bytes t) = length t + length (filter special t)"
  by (induction t) (simp_all add: escaped_bytes_Cons)

text \<open>A computation that writes a text at the end of what is written, or past the end of the buffer.\<close>

definition appends :: "string \<Rightarrow> (nat \<Rightarrow> (memory, nat) prog) \<Rightarrow> bool" where
  "appends t p \<longleftrightarrow> (\<forall>P m. prefix P m \<longrightarrow> (if length P + length t \<le> length m
     then \<exists>m'. p (length P) m = (Inr (length (P @ t)), m') \<and> prefix (P @ t) m' \<and> length m' = length m
     else \<exists>m'. p (length P) m = (Inl (Undefined Index_out_of_range), m')))"

lemma appends_nothing: "appends [] ret"
  by (auto simp: appends_def prog_simps dest: prefix_length_le)

lemma appends_poke: "appends [c] (\<lambda>i. sq (poke i c) (ret (i + 1)))"
  unfolding appends_def
proof (intro allI impI)
  fix P m :: string assume m: "prefix P m"
  show "if length P + length [c] \<le> length m
    then \<exists>m'. sq (poke (length P) c) (ret (length P + 1)) m = (Inr (length (P @ [c])), m') \<and> prefix (P @ [c]) m' \<and> length m' = length m
    else \<exists>m'. sq (poke (length P) c) (ret (length P + 1)) m = (Inl (Undefined Index_out_of_range), m')"
    using poke_ok[OF m, of c] poke_out[of m "length P" c] by (auto simp: prog_simps Suc_le_eq not_le less_Suc_eq_le)
qed

lemma appends_bnd:
  assumes "appends s p" "appends t q"
  shows "appends (s @ t) (\<lambda>i. bnd (p i) q)"
  unfolding appends_def
proof (intro allI impI)
  fix P m :: string assume m: "prefix P m"
  note 1 = assms(1)[unfolded appends_def, rule_format, OF m]
  show "if length P + length (s @ t) \<le> length m
    then \<exists>m'. bnd (p (length P)) q m = (Inr (length (P @ s @ t)), m') \<and> prefix (P @ s @ t) m' \<and> length m' = length m
    else \<exists>m'. bnd (p (length P)) q m = (Inl (Undefined Index_out_of_range), m')"
  proof (cases "length P + length s \<le> length m")
    case True
    then obtain m1 where m1: "p (length P) m = (Inr (length (P @ s)), m1)" "prefix (P @ s) m1" "length m1 = length m" using 1 by auto
    from assms(2)[unfolded appends_def, rule_format, OF m1(2)] show ?thesis using m1(1,3) by (auto simp: bnd_app add.assoc split: if_splits)
  next
    case False
    then show ?thesis using 1 by (auto simp: bnd_app)
  qed
qed

lemma escape_bytes_appends: "i \<le> length t \<Longrightarrow> appends (escaped_bytes (drop i t)) (escape_bytes (Elsewhere t) [i..<length t])"
proof (induction "length t - i" arbitrary: i)
  case 0
  then show ?case using appends_nothing by (simp add: fun_eq_iff appends_def)
next
  case (Suc n)
  then have i: "i < length t" by simp
  have r: "[i..<length t] = i # [Suc i..<length t]" using i by (simp add: upt_conv_Cons)
  have d: "drop i t = t ! i # drop (Suc i) t" using i by (simp add: Cons_nth_drop_Suc)
  have IH: "appends (escaped_bytes (drop (Suc i) t)) (escape_bytes (Elsewhere t) [Suc i..<length t])" using Suc by simp
  show ?case
  proof (cases "special (t ! i)")
    case True
    have e: "escape_bytes (Elsewhere t) [i..<length t] = (\<lambda>pos. bnd (sq (poke pos (CHR 0x5C)) (ret (pos + 1)))
        (\<lambda>pos. bnd (sq (poke pos (t ! i)) (ret (pos + 1))) (escape_bytes (Elsewhere t) [Suc i..<length t])))"
      unfolding r using True by (auto simp: fun_eq_iff prog_simps poke_def)
    have "escaped_bytes (drop i t) = [CHR 0x5C] @ [t ! i] @ escaped_bytes (drop (Suc i) t)" using True by (simp add: d escaped_bytes_Cons)
    then show ?thesis unfolding e using appends_bnd[OF appends_poke appends_bnd[OF appends_poke IH]] by simp
  next
    case False
    have e: "escape_bytes (Elsewhere t) [i..<length t] = (\<lambda>pos. bnd (sq (poke pos (t ! i)) (ret (pos + 1))) (escape_bytes (Elsewhere t) [Suc i..<length t]))"
      unfolding r using False by (auto simp: fun_eq_iff prog_simps poke_def)
    have "escaped_bytes (drop i t) = [t ! i] @ escaped_bytes (drop (Suc i) t)" using False by (simp add: d escaped_bytes_Cons)
    then show ?thesis unfolding e using appends_bnd[OF appends_poke IH] by simp
  qed
qed

definition field_text :: "string \<Rightarrow> string" where
  "field_text t = [CHR 0x22] @ escaped_bytes t @ [CHR 0x22] @ '',''"

lemma field_text_length: "length (field_text t) = length t + length (filter special t) + 3"
  by (simp add: field_text_def escaped_bytes_length)

abbreviation text_field :: "string \<Rightarrow> cpp_type \<times> cpp_value" where
  "text_field t \<equiv> (String_type, Text_value t)"

lemma composite_field_appends: "appends (field_text t) (composite_field_span enc String_type (Text_value t))"
proof -
  let ?q = "\<lambda>pos. bnd (sq (poke pos (CHR 0x22)) (ret (pos + 1))) (\<lambda>p. bnd (escape_bytes (Elsewhere t) [0..<length t] p)
      (\<lambda>p. bnd (sq (poke p (CHR 0x22)) (ret (p + 1))) (\<lambda>p. sq (poke p (CHR '','')) (ret (p + 1)))))"
  have "appends (escaped_bytes t) (escape_bytes (Elsewhere t) [0..<length t])" using escape_bytes_appends[of 0 t] by simp
  from appends_bnd[OF appends_poke appends_bnd[OF this appends_bnd[OF appends_poke appends_poke]]]
  have q: "appends (field_text t) ?q" by (simp add: field_text_def)
  have same: "composite_field_span enc String_type (Text_value t) pos m = ?q pos m" if "length t \<le> length m" for pos m
    using that by (simp add: composite_field_span_def prog_simps poke_def Let_def split: prod.split sum.split)
  show ?thesis unfolding appends_def
  proof (intro allI impI)
    fix P m :: string assume m: "prefix P m"
    show "if length P + length (field_text t) \<le> length m
      then \<exists>m'. composite_field_span enc String_type (Text_value t) (length P) m = (Inr (length (P @ field_text t)), m') \<and> prefix (P @ field_text t) m' \<and> length m' = length m
      else \<exists>m'. composite_field_span enc String_type (Text_value t) (length P) m = (Inl (Undefined Index_out_of_range), m')"
    proof (cases "length t \<le> length m")
      case True
      show ?thesis unfolding same[OF True] by (rule q[unfolded appends_def, rule_format, OF m])
    next
      case False
      then show ?thesis by (auto simp: field_text_length composite_field_span_def prog_simps poke_def Let_def)
    qed
  qed
qed

lemma composite_fields_appends: "appends (concat (map field_text ts)) (composite_fields_span enc (map text_field ts))"
proof (induction ts)
  case Nil
  then show ?case using appends_nothing by (simp add: appends_def)
next
  case (Cons t ts)
  show ?case using appends_bnd[OF composite_field_appends Cons.IH, of t enc] by (simp add: appends_def)
qed

lemma fold_text_fields: "fold write_composite_field (map Inr ts) buf = buf @ concat (map field_text ts)"
  by (induction ts arbitrary: buf) (simp_all add: write_composite_field_def field_text_def escaped_bytes_def)

lemma fields_length: "length (concat (map field_text ts)) = sum_list (map length ts) + sum_list (map (\<lambda>t. length (filter special t)) ts) + 3 * length ts"
  by (induction ts) (simp_all add: field_text_length)

lemma composite_size_texts:
  assumes "ts \<noteq> []" "2 + length ts + 2 * sum_list (map length ts) < 2 ^ 64"
  shows "composite_size (map text_field ts) = 2 + length ts + 2 * sum_list (map length ts)"
proof -
  have f: "composite_field_size String_type (Text_value t) = 2 * int (length t) mod 2 ^ 64" for t by (simp add: composite_field_size_def)
  have "sum_list (map (\<lambda>(T, v). composite_field_size T v) (map text_field ts)) mod 2 ^ 64 = 2 * int (sum_list (map length ts)) mod 2 ^ 64"
  proof (induction ts)
    case (Cons t ts)
    have "sum_list (map (\<lambda>(T, v). composite_field_size T v) (map text_field (t # ts)))
      = 2 * int (length t) mod 2 ^ 64 + sum_list (map (\<lambda>(T, v). composite_field_size T v) (map text_field ts))" by (simp add: f)
    also have "\<dots> mod 2 ^ 64 = (2 * int (length t) + 2 * int (sum_list (map length ts))) mod 2 ^ 64"
      by (rule mod_add_cong) (simp_all only: mod_mod_trivial Cons.IH)
    finally show ?case by (simp add: algebra_simps)
  qed simp
  then have "(1 + sum_list (map (\<lambda>(T, v). composite_field_size T v) (map text_field ts)) + int (length ts) + 1) mod 2 ^ 64
    = (1 + 2 * int (sum_list (map length ts)) + int (length ts) + 1) mod 2 ^ 64" by (intro mod_add_cong refl)
  also have "\<dots> = int (2 + length ts + 2 * sum_list (map length ts))"
  proof -
    have "int (2 + length ts + 2 * sum_list (map length ts)) < int (2 ^ 64)" using assms(2) by (simp only: of_nat_less_iff)
    then show ?thesis by (subst mod_pos_pos_trivial) simp_all
  qed
  finally show ?thesis using assms(1) by (simp add: composite_size_def)
qed

text \<open>
  The estimate for a composite value counts a terminating zero that is not there: for two or more texts, a buffer of the estimated size is
  large enough if and only if the texts have at least two characters each on average, and one more for each character to be escaped.  If it is,
  the buffer holds the text of the reference definition; if not, \<open>composite_into_buf\<close> writes past its end.
\<close>

theorem composite_fits_iff:
  assumes "2 \<le> length ts" "2 + length ts + 2 * sum_list (map length ts) < 2 ^ 64" "length m = composite_size (map text_field ts)"
  shows "if 2 * length ts + sum_list (map (\<lambda>t. length (filter special t)) ts) \<le> sum_list (map length ts)
    then \<exists>m'. composite_span enc (map text_field ts) m = (Inr (length (composite_into_buf (map Inr ts))), m')
      \<and> prefix (composite_into_buf (map Inr ts) @ [CHR 0x00]) m'
    else \<exists>m'. composite_span enc (map text_field ts) m = (Inl (Undefined Index_out_of_range), m')"
proof -
  let ?F = "concat (map field_text ts)"
  have ne: "ts \<noteq> []" using assms(1) by auto
  have N: "length m = 2 + length ts + 2 * sum_list (map length ts)" using assms(3) composite_size_texts[OF ne assms(2)] by simp
  have F: "?F \<noteq> []" using ne by (cases ts) (simp_all add: field_text_def)
  have ref: "composite_into_buf (map Inr ts) = ''('' @ butlast ?F @ '')''" using assms(1) ne F
    by (simp add: composite_into_buf_def fold_text_fields Let_def butlast_append)
  have "prefix [] m" "length ([] :: string) < length m" using N by simp_all
  from poke_ok[OF this, of "CHR ''(''"] obtain m1 where m1: "poke 0 (CHR ''('') m = (Inr (), m1)" "prefix ''('' m1" "length m1 = length m" by auto
  note fields = composite_fields_appends[of ts enc, unfolded appends_def, rule_format, OF m1(2)]
  have start: "composite_span enc (map text_field ts) m = bnd (composite_fields_span enc (map text_field ts) 1) (\<lambda>p.
      sq (poke (p - 1) (CHR '')'')) (sq (poke (p - 1 + 1) (CHR 0x00)) (ret (p - 1 + 1)))) m1"
    using assms(1,3) m1(1) ne by (simp add: composite_span_def sq_app Let_def)
  have lF: "0 < length ?F" "length ?F - 1 + 1 = length ?F"
  proof -
    show "0 < length ?F" using F by blast
    then show "length ?F - 1 + 1 = length ?F" by linarith
  qed
  have fit: "2 * length ts + sum_list (map (\<lambda>t. length (filter special t)) ts) \<le> sum_list (map length ts) \<longleftrightarrow> 1 + length ?F < length m"
    using N by (simp add: fields_length less_Suc_eq_le del: length_concat)
  show ?thesis
  proof (cases "1 + length ?F \<le> length m")
    case True
    then obtain m2 where m2: "composite_fields_span enc (map text_field ts) 1 m1 = (Inr (1 + length ?F), m2)" "prefix (''('' @ ?F) m2" "length m2 = length m"
      using fields m1(3) by (auto simp del: length_concat)
    have "prefix (''('' @ butlast ?F) m2" using m2(2) F by (metis append_assoc append_butlast_last_id prefix_def)
    moreover have b: "length (''('' @ butlast ?F) = length ?F" using lF by simp
    ultimately obtain m3 where m3: "poke (length ?F) (CHR '')'') m2 = (Inr (), m3)" "prefix (''('' @ butlast ?F @ '')'') m3" "length m3 = length m"
      using poke_ok[of "''('' @ butlast ?F" m2 "CHR '')''"] m2(3) True by (auto simp del: length_concat)
    have l: "length (''('' @ butlast ?F @ '')'') = 1 + length ?F" using b by (simp del: length_concat)
    have run: "composite_span enc (map text_field ts) m = sq (poke (1 + length ?F) (CHR 0x00)) (ret (1 + length ?F)) m3"
      unfolding start bnd_app m2(1) by (simp add: sq_app m3(1) del: length_concat)
    show ?thesis
    proof (cases "1 + length ?F < length m")
      case True
      then have "length (''('' @ butlast ?F @ '')'') < length m3" using l m3(3) by simp
      from poke_ok[OF m3(2) this, of "CHR 0x00"] obtain m4 where "poke (1 + length ?F) (CHR 0x00) m3 = (Inr (), m4)"
        "prefix ((''('' @ butlast ?F @ '')'') @ [CHR 0x00]) m4" unfolding l by blast
      then show ?thesis using True fit run ref l by (simp add: sq_app ret_app del: length_concat)
    next
      case False
      then show ?thesis using fit run m3(3) poke_out[of m3 "1 + length ?F" "CHR 0x00"] by (simp add: sq_app del: length_concat)
    qed
  next
    case False
    then obtain m2 where "composite_fields_span enc (map text_field ts) 1 m1 = (Inl (Undefined Index_out_of_range), m2)"
      using fields m1(3) by (auto simp del: length_concat)
    then show ?thesis using False fit start by (simp add: bnd_app del: length_concat)
  qed
qed

theorem composite_fits_iff_witness:
  "(\<exists>m'. composite_span Ascii_safe (map text_field [''a'', ''b'']) (replicate 8 (CHR 0x00)) = (Inl (Undefined Index_out_of_range), m'))
    \<and> (\<exists>m'. composite_span Ascii_safe (map text_field [''left'', ''up'']) (replicate 16 (CHR 0x00)) = (Inr 13, m'))"
proof -
  have 1: "2 \<le> length [''a'', ''b'']" "2 + length [''a'', ''b''] + 2 * sum_list (map length [''a'', ''b'']) < 2 ^ 64"
    "length (replicate 8 (CHR 0x00)) = composite_size (map text_field [''a'', ''b''])"
    by (simp_all add: composite_size_def composite_field_size_def)
  have 2: "2 \<le> length [''left'', ''up'']" "2 + length [''left'', ''up''] + 2 * sum_list (map length [''left'', ''up'']) < 2 ^ 64"
    "length (replicate 16 (CHR 0x00)) = composite_size (map text_field [''left'', ''up''])"
    by (simp_all add: composite_size_def composite_field_size_def)
  show ?thesis
  proof
    from composite_fits_iff[OF 1] show "\<exists>m'. composite_span Ascii_safe (map text_field [''a'', ''b'']) (replicate 8 (CHR 0x00)) = (Inl (Undefined Index_out_of_range), m')"
      by simp
    have "length (composite_into_buf (map Inr [''left'', ''up''])) = 13" by code_simp
    with composite_fits_iff[OF 2, of Ascii_safe] show "\<exists>m'. composite_span Ascii_safe (map text_field [''left'', ''up'']) (replicate 16 (CHR 0x00)) = (Inr 13, m')"
      by auto
  qed
qed

subsection \<open>Single values\<close>

text \<open>The types that can be written and read: integers, truth values, texts and binary data, and optional values of and pointers to them.\<close>

fun readable :: "cpp_type \<Rightarrow> bool" where
  "readable (Int_type is_signed n) = (n \<in> {16, 32, 64})"
| "readable Bool_type = True"
| "readable String_type = True"
| "readable Bytes_type = True"
| "readable (Optional T) = readable T"
| "readable (Pointer T) = readable T"
| "readable T = False"

lemma int_text_string:
  assumes "has_cpp_type (Int_type is_signed n) (Int_value x)" "0 < n"
  shows "int_text is_signed n x = int_to_string x"
  using assms by (auto simp: int_text_def int_to_string_def neg_to_buf_def bottom_to_buf_def nonneg_to_buf_dec bottom_promoted split: bool.splits)

lemma int_text_fits:
  assumes "has_cpp_type (Int_type is_signed n) (Int_value x)" "n \<in> {16, 32, 64}"
  shows "length (int_to_string x) \<le> int_size is_signed n"
proof -
  have "(2 ^ 15 :: int) < 10 ^ 5" "(2 ^ 31 :: int) < 10 ^ 10" "(2 ^ 63 :: int) < 10 ^ 19"
    "(2 ^ 16 :: int) < 10 ^ 5" "(2 ^ 32 :: int) < 10 ^ 10" "(2 ^ 64 :: int) < 10 ^ 20" by simp_all
  with assms have "\<bar>x\<bar> < 10 ^ (type_digits10 is_signed n + 1)" by (auto simp: type_digits10_def abs_if split: bool.splits)
  then have "length (dec \<bar>x\<bar>) \<le> type_digits10 is_signed n + 1" by (intro length_dec_le) simp_all
  moreover have "is_signed \<or> 0 \<le> x" using assms(1) by (auto split: bool.splits)
  ultimately show ?thesis by (auto simp: int_to_string_def int_size_def abs_if split: if_splits)
qed

lemma from_chars_unsigned:
  assumes "0 \<le> n" "n \<le> hi"
  shows "from_chars_int 0 hi (int_to_string n) = (n, Errc_ok, [])"
  using assms dec_digits[of n] by (simp add: from_chars_int_def int_to_string_def Let_def)

lemma int_read_back:
  assumes "has_cpp_type (Int_type is_signed n) (Int_value x)" "0 < n"
  shows "\<exists>f. value_from_string (Int_type is_signed n) = Some f \<and> f (int_to_string x) = Inr (Int_value x)"
proof (cases is_signed)
  case True
  then have "- (2 ^ (n - 1)) \<le> x" "x \<le> 2 ^ (n - 1) - 1" "(- (2 ^ (n - 1)) :: int) < 0" using assms by auto
  from from_string_int_to_string[OF this] True show ?thesis by simp
next
  case False
  then have "0 \<le> x" "x \<le> 2 ^ n - 1" using assms by auto
  from from_chars_unsigned[OF this] False show ?thesis by (simp add: from_string_arithmetic_def int_to_string_no_blank)
qed

lemma seen_at_end: "length t \<le> length m \<Longrightarrow> seen (take (length m - length t) m @ t) (In_buffer (length m - length t) (length t)) = t"
  by simp

lemma readable_view:
  "readable T \<Longrightarrow> has_cpp_type T v \<Longrightarrow> \<not> value_is_null T v \<Longrightarrow>
     \<exists>t f. length t \<le> value_size T v \<and> value_from_string T = Some f \<and> f t = Inr v
      \<and> (\<forall>m. value_size T v \<le> length m \<longrightarrow> (\<exists>w m'. to_view enc T v 0 m = (Inr w, m') \<and> seen m' w = t \<and> length m' = length m))"
proof (induction v arbitrary: T)
  case (Int_value x)
  then obtain is_signed n where T: "T = Int_type is_signed n" "n \<in> {16, 32, 64}" by (cases T) auto
  then have n: "0 < n" and ty: "has_cpp_type (Int_type is_signed n) (Int_value x)" using Int_value.prems(2) by auto
  let ?t = "int_to_string x"
  note fits = int_text_fits[OF ty T(2)]
  have "\<exists>w m'. to_view enc T (Int_value x) 0 m = (Inr w, m') \<and> seen m' w = ?t \<and> length m' = length m" if "value_size T (Int_value x) \<le> length m" for m
    using that fits int_text_string[OF ty n] seen_at_end[of ?t m] by (auto simp: T(1) int_to_view_def prog_simps put_text_def Let_def)
  then show ?case using int_read_back[OF ty n] fits T(1) by auto
next
  case (Bool_value b)
  then have T: "T = Bool_type" by simp
  show ?case by (intro exI[of _ "bool_text b"]) (auto simp: T ret_app from_string_bool_def)
next
  case (Text_value s)
  then have T: "T = String_type" by auto
  show ?case by (intro exI[of _ s]) (auto simp: T ret_app)
next
  case (Bytes_value bs)
  then have T: "T = Bytes_type" and b: "list_all (\<lambda>b. 0 \<le> b \<and> b < 256) bs" by (auto simp: list_all_iff)
  have "unesc_bin (esc_bin bs) = Inr bs" using unesc_loop_esc[OF b] length_esc_bin[of bs] by (simp add: unesc_bin_def esc_bin_def)
  then show ?case by (intro exI[of _ "esc_bin bs"])
      (auto simp: T size_esc_bin_def length_esc_bin bytes_to_view_def prog_simps put_text_def Let_def)
next
  case (Just v)
  then obtain S where S: "target T = S" "readable S" "has_cpp_type S v" "\<not> value_is_null S v" "T = Optional S \<or> T = Pointer S" by (cases T) auto
  have e: "value_size T (Just v) = value_size S v" "to_view enc T (Just v) = to_view enc S v" using S Just.prems(3) by (auto split: cpp_type.splits)
  from Just.IH[OF S(2-4)] obtain t f where "length t \<le> value_size S v" "value_from_string S = Some f" "f t = Inr v"
    "\<forall>m. value_size S v \<le> length m \<longrightarrow> (\<exists>w m'. to_view enc S v 0 m = (Inr w, m') \<and> seen m' w = t \<and> length m' = length m)" by blast
  then show ?case unfolding e using S(5) by (intro exI[of _ t]) auto
next
  case (Alternative i v)
  then show ?case by (cases T) auto
next
  case (Items vs)
  then show ?case by (cases T) auto
qed simp

text \<open>
  Whatever \<open>to_string\<close> makes of an integer of any width and sign, a truth value, a text or binary data, or of an optional value of
  or a pointer to one of these, \<open>from_string\<close> of that type reads back as the value; the text is no longer than the estimate.
\<close>

theorem to_string_from_string:
  assumes "readable T" "has_cpp_type T v" "\<not> value_is_null T v"
  shows "\<exists>out f. value_to_string enc T v = Inr out \<and> length out \<le> value_size T v \<and> value_from_string T = Some f \<and> f out = Inr v"
proof -
  obtain t f where t: "length t \<le> value_size T v" "value_from_string T = Some f" "f t = Inr v"
    "\<forall>m. value_size T v \<le> length m \<longrightarrow> (\<exists>w m'. to_view enc T v 0 m = (Inr w, m') \<and> seen m' w = t \<and> length m' = length m)"
    using readable_view[OF assms, of enc] by blast
  define m where "m = replicate (value_size T v) (CHR 0x00)"
  obtain w m' where w: "to_view enc T v 0 m = (Inr w, m')" "seen m' w = t" "length m' = length m"
    using t(4)[rule_format, of m] by (auto simp: m_def)
  have "\<exists>m''. into_span (to_view enc T v) 0 m = (Inr (length t), m'') \<and> take (length t) m'' = t"
    using w t(1) by (cases "t = []") (auto simp: into_span_def prog_simps put_text_def Let_def m_def)
  then show ?thesis using t(1-3) assms(3) by (auto simp: value_to_string_def m_def[symmetric])
qed

theorem to_string_from_string_witness:
  "\<exists>out f. value_to_string Sjis (Optional (Int_type False 64)) (Just (Int_value 18446744073709551615)) = Inr out
    \<and> length out \<le> 20 \<and> value_from_string (Optional (Int_type False 64)) = Some f \<and> f out = Inr (Just (Int_value 18446744073709551615))"
  using to_string_from_string[of "Optional (Int_type False 64)" "Just (Int_value 18446744073709551615)" Sjis]
  by (simp add: int_size_def type_digits10_def)

end
