(* ===== verification/Pqxx_Query.thy ===== *)
theory Pqxx_Query
  imports Pqxx_Copy Pqxx_Traits Pqxx_Fields
begin

text \<open>
  Streaming a query: \<open>stream_query\<close> of \<open>libpqxx/include/pqxx/internal/stream_query.hxx\<close> and \<open>stream_query_impl.hxx\<close>, its iterator,
  \<open>stream\<close> and \<open>for_stream\<close> of \<open>transaction_base.hxx\<close>, and the iterator over a \<open>stream_from\<close> of \<open>stream_iterator.hxx\<close>.
  The functions take whether the code is compiled with \<open>NDEBUG\<close>.  Without it, a condition that the code asserts stops the program where it does not
  hold; with it, the code goes on.
\<close>

definition assert_on :: "bool \<Rightarrow> bool \<Rightarrow> ('w, unit) prog" where
  "assert_on ndebug b = (if b \<or> ndebug then ret () else stop_with (Undefined Failed_assertion))"

subsection \<open>A line\<close>

text \<open>The bytes at a line: a tab in the place of its newline, and the terminating zero that \<open>PQgetCopyData\<close> puts after it.\<close>

definition line_bytes :: "string \<Rightarrow> string" where
  "line_bytes line = line @ [CHR 0x09, CHR 0x00]"

lemma find_in_past: "find_in enc needle s here = Inr p \<Longrightarrow> length s \<le> here \<Longrightarrow> p = length s"
  by (cases "enc = Enc_unknown") (auto simp: find_in_known find_ascii_char.simps[of _ _ s here], simp add: find_in_def get_char_finder_def)

text \<open>
  The loop of \<open>read_field\<close>.  The text is copied into the row buffer at \<open>write\<close>; the buffer is the memory that is written.  A search from
  behind the end of the line gives the end of the line; then the number of bytes to copy is that of a negative difference.
\<close>

function scan_field :: "bool \<Rightarrow> encoding_group \<Rightarrow> string \<Rightarrow> nat \<Rightarrow> nat \<Rightarrow> memory \<Rightarrow> (stop + nat \<times> nat) \<times> memory" where
  "scan_field ndebug enc line offset write m =
     (if \<not> offset < length (line_bytes line) then (Inl (Undefined Index_out_of_range), m)
      else if line_bytes line ! offset = CHR 0x09 then (Inr (offset, write), m)
      else if \<not> ndebug \<and> line_bytes line ! offset = CHR 0x00 then (Inl (Undefined Failed_assertion), m)
      else case find_in enc [CHR 0x09, CHR 0x5C] line offset of
          Inl e \<Rightarrow> (Inl (Throw e), m)
        | Inr stop_char \<Rightarrow>
            if stop_char < offset then (Inl (Undefined Index_out_of_range), m)
            else if \<not> ndebug \<and> \<not> stop_char < length line + 1 then (Inl (Undefined Failed_assertion), m)
            else (case put_text write (take (stop_char - offset) (drop offset line)) m of
            (Inl s, m1) \<Rightarrow> (Inl s, m1)
          | (Inr u, m1) \<Rightarrow> let write1 = write + (stop_char - offset) in
              if line_bytes line ! stop_char = CHR 0x5C
              then (if \<not> ndebug \<and> (\<not> stop_char + 1 < length line \<or> \<not> of_char (line ! (stop_char + 1)) < (128 :: int))
                    then (Inl (Undefined Failed_assertion), m1)
                    else case poke write1 (unescape_char (line_bytes line ! (stop_char + 1))) m1 of
                        (Inl s, m2) \<Rightarrow> (Inl s, m2)
                      | (Inr u, m2) \<Rightarrow> scan_field ndebug enc line (stop_char + 2) (write1 + 1) m2)
              else if \<not> ndebug \<and> line_bytes line ! stop_char \<noteq> CHR 0x09 then (Inl (Undefined Failed_assertion), m1)
              else scan_field ndebug enc line stop_char write1 m1))"
  by pat_completeness auto
termination
proof (relation "measure (\<lambda>(ndebug, enc, line, offset, write, m). length line + 2 - offset)", goal_cases)
  case (3 ndebug enc line offset "write" m stop_char)
  have "stop_char \<noteq> offset"
  proof
    assume stuck: "stop_char = offset"
    consider "offset < length line" | "offset = length line" | "offset = Suc (length line)" using 3(1) by (fastforce simp: line_bytes_def)
    then show False
    proof cases
      case 1
      then have "line ! offset \<notin> set [CHR 0x09, CHR 0x5C]" using 3 stuck by (auto simp: line_bytes_def nth_append)
      from find_in_advances[OF 3(4) 1 this] stuck show ?thesis by simp
    next
      case 2
      then show ?thesis using 3(2) by (simp add: line_bytes_def nth_append)
    next
      case 3
      with find_in_past[OF \<open>find_in _ _ _ _ = _\<close>] stuck show ?thesis by simp
    qed
  qed
  with 3 show ?case by (simp add: line_bytes_def)
qed (simp_all add: line_bytes_def)

declare scan_field.simps [simp del]

text \<open>The new offset, the new writing position, and where the text of the field is; \<open>None\<close> is the null pointer of a null.\<close>

definition query_read_field :: "bool \<Rightarrow> encoding_group \<Rightarrow> string \<Rightarrow> nat \<Rightarrow> nat \<Rightarrow> (memory, nat \<times> nat \<times> text_view option) prog" where
  "query_read_field ndebug enc line offset write =
     sq (assert_on ndebug (offset \<le> length line))
     (if \<not> offset < length (line_bytes line) then stop_with (Undefined Index_out_of_range)
      else if line_bytes line ! offset = CHR 0x5C \<and> line_bytes line ! (offset + 1) = CHR ''N''
      then sq (assert_on ndebug (offset + 3 \<le> length line + 1 \<and> line_bytes line ! (offset + 2) = CHR 0x09)) (ret (offset + 3, write, None))
      else bnd (scan_field ndebug enc line offset write) (\<lambda>(offset', write').
        sq (poke write' (CHR 0x00)) (ret (offset' + 1, write' + 1, Some (In_buffer write (write' - write))))))"

text \<open>
  The conversion of \<open>parse_field\<close>, over \<open>name_type\<close>.  For a type that is always null, the function returns nothing where the field is
  null.  The types with no \<open>from_string\<close>, or with nulls but no \<open>make_null\<close>, do not compile: what they give here stands for nothing.
\<close>

definition streamable :: "cpp_type \<Rightarrow> bool" where
  "streamable T \<longleftrightarrow> always_null T \<or> value_from_string T \<noteq> None \<and> (has_null T \<longrightarrow> make_null T \<noteq> None)"

definition stream_value :: "(cpp_type \<Rightarrow> string) \<Rightarrow> cpp_type \<Rightarrow> string option \<Rightarrow> stop + cpp_value" where
  "stream_value type_name T text =
     (if always_null T
      then (if text \<noteq> None
            then Inl (Throw (Conversion_error (''Streaming a non-null value into a '' @ type_name T @ '', which must always be null.'')))
            else Inl (Undefined No_return_value))
      else case text of
          None \<Rightarrow> if has_null T then (case make_null T of Some v \<Rightarrow> Inr v | None \<Rightarrow> Inl (Undefined No_return_value))
                  else Inl (Throw (null_conversion (type_name T)))
        | Some t \<Rightarrow> (case value_from_string T of Some f \<Rightarrow> map_sum Throw id (f t) | None \<Rightarrow> Inl (Undefined No_return_value)))"

definition stop_or :: "stop + 'a \<Rightarrow> ('w, 'a) prog" where
  "stop_or r = (case r of Inl s \<Rightarrow> stop_with s | Inr a \<Rightarrow> ret a)"

definition stream_field :: "bool \<Rightarrow> (cpp_type \<Rightarrow> string) \<Rightarrow> encoding_group \<Rightarrow> cpp_type \<Rightarrow> string \<Rightarrow> nat \<Rightarrow> nat \<Rightarrow> (memory, nat \<times> nat \<times> cpp_value) prog" where
  "stream_field ndebug type_name enc T line offset write =
     sq (assert_on ndebug (offset \<le> length line))
     (bnd (query_read_field ndebug enc line offset write) (\<lambda>(offset', write', view).
      bnd (gets (\<lambda>m. map_option (seen m) view)) (\<lambda>text.
      bnd (stop_or (stream_value type_name T text)) (\<lambda>v. ret (offset', write', v)))))"

fun stream_fields :: "bool \<Rightarrow> (cpp_type \<Rightarrow> string) \<Rightarrow> encoding_group \<Rightarrow> cpp_type list \<Rightarrow> string \<Rightarrow> nat \<Rightarrow> nat \<Rightarrow> (memory, nat \<times> cpp_value list) prog" where
  "stream_fields ndebug type_name enc [] line offset write = ret (offset, [])"
| "stream_fields ndebug type_name enc (T # Ts) line offset write = bnd (stream_field ndebug type_name enc T line offset write) (\<lambda>(offset', write', v).
     bnd (stream_fields ndebug type_name enc Ts line offset' write') (\<lambda>(offset'', vs). ret (offset'', v # vs)))"

definition resize_row :: "nat \<Rightarrow> memory \<Rightarrow> memory" where
  "resize_row n m = take n m @ replicate (n - length m) (CHR 0x00)"

text \<open>\<open>parse_line\<close>, over the row buffer.\<close>

definition stream_line :: "bool \<Rightarrow> (cpp_type \<Rightarrow> string) \<Rightarrow> encoding_group \<Rightarrow> cpp_type list \<Rightarrow> string \<Rightarrow> (memory, cpp_value list) prog" where
  "stream_line ndebug type_name enc Ts line =
     sq (modify (resize_row (length line + 1)))
     (bnd (stream_fields ndebug type_name enc Ts line 0 0) (\<lambda>(offset, data). sq (assert_on ndebug (offset = length line + 1)) (ret data)))"

subsection \<open>The stream and its iterator\<close>

text \<open>
  \<open>m_char_finder\<close> is the encoding whose finder it is; the null pointer tells that the stream is done.  The iterator holds the
  buffer of the line, a tab in the place of its newline, and the size of the line.
\<close>

record stream_query =
  query_tx :: nat
  m_char_finder :: "encoding_group option"
  m_row :: memory

record query_iterator =
  m_line :: "string option"
  m_line_size :: nat

record 'db querying = "'db session" +
  squery :: stream_query
  siter :: query_iterator

definition upd_query :: "(stream_query \<Rightarrow> stream_query) \<Rightarrow> (('db, 'z) querying_scheme, unit) prog" where
  "upd_query f = modify (\<lambda>w. w\<lparr>squery := f (squery w)\<rparr>)"

definition query_done :: "(('db, 'z) querying_scheme, bool) prog" where
  "query_done = gets (\<lambda>w. m_char_finder (squery w) = None)"

definition on_row :: "(memory, 'a) prog \<Rightarrow> (('db, 'z) querying_scheme, 'a) prog" where
  "on_row p = (\<lambda>w. let (r, m) = p (m_row (squery w)) in (r, w\<lparr>squery := (squery w)\<lparr>m_row := m\<rparr>\<rparr>))"

text \<open>\<open>nfields\<close> is \<open>PQnfields\<close>; a result of one statement, \<open>query\<close>.\<close>

definition columns_expected :: "(pgresult \<Rightarrow> int) \<Rightarrow> int \<Rightarrow> string \<Rightarrow> pgresult \<Rightarrow> exn + unit" where
  "columns_expected nfields cols query r = (if nfields r \<noteq> cols
     then Inl (Usage_error (if query = [] then ''Expected '' @ int_to_string cols @ '' column(s) from query, got '' @ int_to_string (nfields r) @ ''.''
       else ''Expected '' @ int_to_string cols @ '' column(s) from query '' @ [CHR 0x27] @ query @ [CHR 0x27] @ '', got '' @ int_to_string (nfields r) @ ''.''))
     else Inr ())"

definition stream_cmd :: "string \<Rightarrow> string" where
  "stream_cmd query = ''COPY ('' @ query @ '') TO STDOUT''"

definition stream_query_open :: "'db libpq \<Rightarrow> (pgresult \<Rightarrow> int) \<Rightarrow> nat \<Rightarrow> cpp_type list \<Rightarrow> string \<Rightarrow> (('db, 'z) querying_scheme, unit) prog" where
  "stream_query_open pq nfields t Ts query = bnd (finder_group pq [CHR 0x09, CHR 0x5C]) (\<lambda>enc.
     sq (upd_query (\<lambda>s. \<lparr>query_tx = t, m_char_finder = Some enc, m_row = []\<rparr>))
     (bnd (tx_exec pq t (stream_cmd query)) (\<lambda>r.
      sq (lift_exn (columns_expected nfields (int (length Ts)) (stream_cmd query) r))
     (sq (lift_exn (no_rows r))
         (register_focus t (''stream_query'', []))))))"

definition stream_query_close :: "(('db, 'z) querying_scheme, unit) prog" where
  "stream_query_close = bnd query_done (\<lambda>over. whn (\<not> over)
     (sq (upd_query (\<lambda>s. s\<lparr>m_char_finder := None\<rparr>))
         (bnd (gets squery) (\<lambda>s. unregister_focus (query_tx s) (''stream_query'', [])))))"

definition stream_query_destructor :: "(('db, 'z) querying_scheme, unit) prog" where
  "stream_query_destructor = try_catch stream_query_close
     (\<lambda>e. bnd (gets squery) (\<lambda>s. register_pending_error (query_tx s) (exn_what e)))"

definition query_read_line :: "bool \<Rightarrow> 'db libpq \<Rightarrow> 'db copier \<Rightarrow> (('db, 'z) querying_scheme, (string \<times> nat) option) prog" where
  "query_read_line ndebug pq cp = bnd query_done (\<lambda>over. sq (assert_on ndebug (\<not> over))
     (try_catch (bnd (read_copy_buffer pq cp) (\<lambda>line. sq (whn (line = None) stream_query_close) (ret line)))
       (\<lambda>e. sq stream_query_close (throw e))))"

definition set_line :: "string option \<Rightarrow> nat \<Rightarrow> (('db, 'z) querying_scheme, unit) prog" where
  "set_line line sz = modify (\<lambda>w. w\<lparr>siter := \<lparr>m_line = line, m_line_size = sz\<rparr>\<rparr>)"

text \<open>The newline at the end of the line becomes a tab.\<close>

definition consume_line :: "bool \<Rightarrow> 'db libpq \<Rightarrow> 'db copier \<Rightarrow> (('db, 'z) querying_scheme, unit) prog" where
  "consume_line ndebug pq cp = bnd (query_read_line ndebug pq cp) (\<lambda>line. case line of
       None \<Rightarrow> set_line None 0
     | Some (buf, sz) \<Rightarrow> sq (set_line (Some buf) sz)
         (if \<not> sz < length buf then stop_with (Undefined Index_out_of_range)
          else sq (assert_on ndebug (buf ! sz = CHR 0x0A)) (set_line (Some (buf[sz := CHR 0x09])) sz)))"

definition query_begin :: "bool \<Rightarrow> 'db libpq \<Rightarrow> 'db copier \<Rightarrow> (('db, 'z) querying_scheme, unit) prog" where
  "query_begin ndebug pq cp = sq (set_line None 0) (consume_line ndebug pq cp)"

definition query_next :: "bool \<Rightarrow> 'db libpq \<Rightarrow> 'db copier \<Rightarrow> (('db, 'z) querying_scheme, unit) prog" where
  "query_next ndebug pq cp = bnd query_done (\<lambda>over. sq (assert_on ndebug (\<not> over)) (consume_line ndebug pq cp))"

text \<open>With \<open>NDEBUG\<close>, a line that is parsed after the end of the stream is searched with a finder that is the null pointer.\<close>

definition query_deref :: "bool \<Rightarrow> (cpp_type \<Rightarrow> string) \<Rightarrow> cpp_type list \<Rightarrow> (('db, 'z) querying_scheme, cpp_value list) prog" where
  "query_deref ndebug type_name Ts = bnd (gets (\<lambda>w. (m_char_finder (squery w), siter w))) (\<lambda>(finder, it).
     case finder of None \<Rightarrow> stop_with (Undefined (if ndebug then Null_pointer else Failed_assertion))
     | Some enc \<Rightarrow> (case m_line it of None \<Rightarrow> stop_with (Undefined Null_pointer)
         | Some line \<Rightarrow> on_row (stream_line ndebug type_name enc Ts (take (m_line_size it) line))))"

text \<open>A loop over the stream, for at most \<open>n\<close> rows.  The stream is destroyed however the loop ends.\<close>

fun query_loop :: "bool \<Rightarrow> nat \<Rightarrow> 'db libpq \<Rightarrow> 'db copier \<Rightarrow> (cpp_type \<Rightarrow> string) \<Rightarrow> cpp_type list \<Rightarrow>
    (cpp_value list \<Rightarrow> (('db, 'z) querying_scheme, unit) prog) \<Rightarrow> (('db, 'z) querying_scheme, unit) prog" where
  "query_loop ndebug n pq cp type_name Ts func = bnd query_done (\<lambda>over. whn (\<not> over) (case n of
       0 \<Rightarrow> stop_with Waiting
     | Suc k \<Rightarrow> bnd (query_deref ndebug type_name Ts) (\<lambda>fields. sq (func fields) (sq (query_next ndebug pq cp) (query_loop ndebug k pq cp type_name Ts func)))))"

declare query_loop.simps [simp del]

definition for_stream :: "bool \<Rightarrow> nat \<Rightarrow> 'db libpq \<Rightarrow> 'db copier \<Rightarrow> (pgresult \<Rightarrow> int) \<Rightarrow> (cpp_type \<Rightarrow> string) \<Rightarrow> nat \<Rightarrow> cpp_type list \<Rightarrow> string \<Rightarrow>
    (cpp_value list \<Rightarrow> (('db, 'z) querying_scheme, unit) prog) \<Rightarrow> (('db, 'z) querying_scheme, unit) prog" where
  "for_stream ndebug n pq cp nfields type_name t Ts query func = sq (stream_query_open pq nfields t Ts query)
     (guard_with (sq (query_begin ndebug pq cp) (query_loop ndebug n pq cp type_name Ts func)) (\<lambda>w. snd (stream_query_destructor w)))"

subsection \<open>Tuples from a \<open>stream_from\<close>\<close>

text \<open>\<open>operator>>\<close> into a tuple of the types \<open>Ts\<close>, over what the tuple held.  A field of a type that is always null keeps its value.\<close>

definition extract_value :: "(cpp_type \<Rightarrow> string) \<Rightarrow> cpp_type \<Rightarrow> copy_field \<Rightarrow> cpp_value \<Rightarrow> stop + cpp_value" where
  "extract_value type_name T f old =
     (if always_null T
      then (if f \<noteq> None then Inl (Throw (Conversion_error ''Streaming non-null value into null field.'')) else Inr old)
      else stream_value type_name T f)"

fun extract_fields :: "(cpp_type \<Rightarrow> string) \<Rightarrow> cpp_type list \<Rightarrow> copy_field list \<Rightarrow> cpp_value list \<Rightarrow> (stop + unit) \<times> cpp_value list" where
  "extract_fields type_name (T # Ts) (f # fs) (v # vs) = (case extract_value type_name T f v of
       Inl s \<Rightarrow> (Inl s, v # vs)
     | Inr v' \<Rightarrow> (let (r, vs') = extract_fields type_name Ts fs vs in (r, v' # vs')))"
| "extract_fields type_name Ts fs vs = (Inr (), vs)"

definition stream_extract :: "'db libpq \<Rightarrow> 'db copier \<Rightarrow> (cpp_type \<Rightarrow> string) \<Rightarrow> cpp_type list \<Rightarrow> cpp_value list \<Rightarrow>
    ('db copying, (stop + unit) \<times> cpp_value list) prog" where
  "stream_extract pq cp type_name Ts vs = bnd (gets (from_finished \<circ> sfrom)) (\<lambda>over. if over then ret (Inr (), vs)
     else sq (parse_line pq cp) (bnd (gets sfrom) (\<lambda>s. if from_finished s then ret (Inr (), vs)
       else if length (m_fields s) \<noteq> length Ts
       then throw (Usage_error (''Tried to extract '' @ int_to_string (int (length Ts)) @ '' field(s) from a stream of ''
              @ int_to_string (int (length (m_fields s))) @ ''.''))
       else ret (extract_fields type_name Ts (m_fields s) vs))))"

text \<open>
  The iterator names its stream, or none at the end, and holds a tuple; it throws where the extraction stopped.
\<close>

record from_iterator =
  it_home :: bool
  it_value :: "cpp_value list"

definition from_advance :: "'db libpq \<Rightarrow> 'db copier \<Rightarrow> (cpp_type \<Rightarrow> string) \<Rightarrow> cpp_type list \<Rightarrow> from_iterator \<Rightarrow>
    ('db copying, from_iterator) prog" where
  "from_advance pq cp type_name Ts it = (if \<not> it_home it
     then throw (Usage_error ''Moving stream_from iterator beyond end().'')
     else bnd (stream_extract pq cp type_name Ts (it_value it)) (\<lambda>(r, vs). sq (stop_or r)
       (bnd (gets (from_finished \<circ> sfrom)) (\<lambda>over. ret \<lparr>it_home = \<not> over, it_value = vs\<rparr>))))"

definition from_iterator_eq :: "from_iterator \<Rightarrow> from_iterator \<Rightarrow> bool" where
  "from_iterator_eq a b \<longleftrightarrow> it_home a = it_home b"

end
