(* ===== verification/Query_Spec.thy ===== *)
theory Query_Spec
  imports Pqxx_Query Copy_Spec Traits_Spec
begin

text \<open>
  What streaming a query promises: the row buffer is large enough whatever the server sends, while assertions are checked; the two readers of lines agree; and
  \<open>for_stream\<close> passes on the rows that a table holds.
\<close>

subsection \<open>The row buffer\<close>

abbreviation out_of_range :: "stop + 'a \<Rightarrow> bool" where
  "out_of_range r \<equiv> r = Inl (Undefined Index_out_of_range)"

lemma put_text_fits: "i + length s \<le> length m \<Longrightarrow> \<exists>m'. put_text i s m = (Inr (), m') \<and> length m' = length m"
  by (simp add: put_text_def)

lemma poke_fits: "i < length m \<Longrightarrow> poke i c m = (Inr (), m[i := c])"
  by (simp add: poke_def)

lemma line_bytes_length [simp]: "length (line_bytes line) = length line + 2"
  by (simp add: line_bytes_def)

text \<open>The writing position stays behind the reading position.\<close>

definition fits_row :: "string \<Rightarrow> (stop + nat \<times> nat) \<times> memory \<Rightarrow> bool" where
  "fits_row line r \<longleftrightarrow> length (snd r) = length line + 1 \<and> (case fst r of
       Inl s \<Rightarrow> s \<noteq> Undefined Index_out_of_range
     | Inr (offset, write) \<Rightarrow> write \<le> offset \<and> offset \<le> length line)"

lemma scan_field_fits:
  "length m = length line + 1 \<Longrightarrow> write \<le> offset \<Longrightarrow> offset \<le> length line + 1 \<Longrightarrow> fits_row line (scan_field False enc line offset write m)"
proof (induction False enc line offset "write" m rule: scan_field.induct)
  case (1 enc line offset "write" m)
  show ?case
  proof (cases "line_bytes line ! offset \<noteq> CHR 0x09 \<and> line_bytes line ! offset \<noteq> CHR 0x00")
    case False
    moreover have "line_bytes line ! offset = CHR 0x09 \<Longrightarrow> offset \<le> length line" using 1(5) by (cases "offset = length line + 1") (auto simp: line_bytes_def nth_append)
    ultimately show ?thesis using 1(3,4,5) by (subst scan_field.simps) (auto simp: fits_row_def line_bytes_def)
  next
    case go: True
    then have off: "offset \<le> length line" using 1(5) by (cases "offset = length line + 1") (auto simp: line_bytes_def nth_append)
    then have inside: "offset < length (line_bytes line)" by (simp add: line_bytes_def)
    show ?thesis
    proof (cases "find_in enc [CHR 0x09, CHR 0x5C] line offset")
      case (Inl e)
      then show ?thesis using go inside 1(3) by (subst scan_field.simps) (simp add: fits_row_def)
    next
      case (Inr q)
      then have q: "offset \<le> q" "q \<le> length line" using find_in_range off by blast+
      have len: "length (take (q - offset) (drop offset line)) = q - offset" using q by simp
      have "write + length (take (q - offset) (drop offset line)) \<le> length m" using len q 1(3,4) by linarith
      from put_text_fits[OF this] obtain m1 where
        m1: "put_text write (take (q - offset) (drop offset line)) m = (Inr (), m1)" "length m1 = length m" by blast
      have pre: "\<not> \<not> offset < length (line_bytes line)" "\<not> (\<not> False \<and> line_bytes line ! offset = CHR 0x00)" "\<not> q < offset" "\<not> (\<not> False \<and> \<not> q < length line + 1)"
        using inside go q by auto
      note step = scan_field.simps[of False enc line offset "write" m]
      consider (esc) "line_bytes line ! q = CHR 0x5C" "q + 1 < length line" "of_char (line ! (q + 1)) < (128 :: int)"
        | (bad_esc) "line_bytes line ! q = CHR 0x5C" "\<not> (q + 1 < length line \<and> of_char (line ! (q + 1)) < (128 :: int))"
        | (tab) "line_bytes line ! q = CHR 0x09" | (bad) "line_bytes line ! q \<noteq> CHR 0x5C" "line_bytes line ! q \<noteq> CHR 0x09" by blast
      then show ?thesis
      proof cases
        case esc
        have lb: "line_bytes line ! Suc q = line ! Suc q" using esc(2) by (simp add: line_bytes_def nth_append)
        let ?m2 = "m1[write + (q - offset) := unescape_char (line ! (q + 1))]"
        have pk: "poke (write + (q - offset)) (unescape_char (line ! (q + 1))) m1 = (Inr (), ?m2)"
          using q 1(3,4) m1(2) esc(2) by (intro poke_fits) simp
        have pk2: "poke (write + (q - offset)) (unescape_char (line_bytes line ! (q + 1))) m1 = (Inr (), ?m2)"
          using pk lb by simp
        have "write + (q - offset) + 1 \<le> q + 2" using q 1(4) by linarith
        with 1(1)[OF pre(1) _ pre(2) Inr pre(3,4) m1(1)[symmetric] refl refl esc(1) _ pk2[symmetric] refl] 1(3) go esc m1(2)
        have "fits_row line (scan_field False enc line (q + 2) (write + (q - offset) + 1) ?m2)" by auto
        then show ?thesis using go inside Inr m1(1) pk esc q by (simp add: step Let_def lb)
      next
        case tab
        have "write + (q - offset) \<le> q" using q 1(4) by linarith
        with 1(2)[OF pre(1) _ pre(2) Inr pre(3,4) m1(1)[symmetric] refl refl] 1(3) go tab m1(2) q
        have "fits_row line (scan_field False enc line q (write + (q - offset)) m1)" by auto
        then show ?thesis using go inside Inr m1(1) tab q by (simp add: step Let_def)
      qed (use go inside Inr m1 1(3) q in \<open>auto simp: step Let_def fits_row_def\<close>)
    qed
  qed
qed

lemma query_read_field_fits:
  assumes "length m = length line + 1" "write \<le> offset"
  shows "length (snd (query_read_field False enc line offset write m)) = length line + 1
    \<and> (case fst (query_read_field False enc line offset write m) of Inl s \<Rightarrow> s \<noteq> Undefined Index_out_of_range | Inr (offset', write', v) \<Rightarrow> write' \<le> offset')"
proof (cases "offset \<le> length line \<and> \<not> (line_bytes line ! offset = CHR 0x5C \<and> line_bytes line ! (offset + 1) = CHR ''N'')")
  case False
  with assms show ?thesis by (auto simp: query_read_field_def assert_on_def prog_simps)
next
  case True
  obtain r m' where r: "scan_field False enc line offset write m = (r, m')" by fastforce
  with scan_field_fits[OF assms, of enc] True have f: "fits_row line (r, m')" by simp
  show ?thesis
  proof (cases r)
    case (Inl s)
    with True r f show ?thesis by (auto simp: query_read_field_def assert_on_def prog_simps fits_row_def)
  next
    case (Inr p)
    obtain o' w' where p: "p = (o', w')" by fastforce
    from f Inr p have "w' < length m'" by (simp add: fits_row_def)
    with True r f Inr p show ?thesis by (auto simp: query_read_field_def assert_on_def prog_simps fits_row_def poke_fits)
  qed
qed

lemma stop_or_cases: "stop_or r m = (case r of Inl s \<Rightarrow> (Inl s, m) | Inr a \<Rightarrow> (Inr a, m))"
  by (simp add: stop_or_def prog_simps split: sum.splits)

lemma stream_value_in_range: "stream_value nm T text \<noteq> Inl (Undefined Index_out_of_range)"
  by (auto simp: stream_value_def map_sum_def split: option.splits sum.splits)

lemma stream_field_fits:
  assumes "length m = length line + 1" "write \<le> offset"
  shows "length (snd (stream_field False nm enc T line offset write m)) = length line + 1
    \<and> (case fst (stream_field False nm enc T line offset write m) of Inl s \<Rightarrow> s \<noteq> Undefined Index_out_of_range | Inr (offset', write', v) \<Rightarrow> write' \<le> offset')"
  using query_read_field_fits[OF assms, of enc] stream_value_in_range
  by (auto simp: assms(1) stream_field_def assert_on_def prog_simps stop_or_cases split: prod.splits sum.splits)

lemma stream_fields_fit:
  "length m = length line + 1 \<Longrightarrow> write \<le> offset \<Longrightarrow>
    length (snd (stream_fields False nm enc Ts line offset write m)) = length line + 1 \<and> \<not> out_of_range (fst (stream_fields False nm enc Ts line offset write m))"
proof (induction Ts arbitrary: offset "write" m)
  case (Cons T Ts)
  obtain r m' where r: "stream_field False nm enc T line offset write m = (r, m')" by fastforce
  note f = stream_field_fits[OF Cons.prems, of nm enc T, unfolded r]
  show ?case
  proof (cases r)
    case (Inl s)
    with f r show ?thesis by (simp add: prog_simps)
  next
    case (Inr p)
    obtain o' w' v where p: "p = (o', w', v)" by (cases p)
    with Cons.IH[of m' w' o'] f r Inr show ?thesis by (auto simp: prog_simps split: prod.splits sum.splits)
  qed
qed (simp add: prog_simps)

lemma resize_row_length [simp]: "length (resize_row n m) = n"
  by (simp add: resize_row_def)

text \<open>With \<open>NDEBUG\<close> the code does what it does without, unless an assertion fails.\<close>

abbreviation assertion_fails :: "stop + 'a \<Rightarrow> bool" where
  "assertion_fails r \<equiv> r = Inl (Undefined Failed_assertion)"

lemma scan_field_builds:
  "\<not> assertion_fails (fst (scan_field False enc line offset write m)) \<Longrightarrow>
    scan_field ndebug enc line offset write m = scan_field False enc line offset write m"
proof (induction False enc line offset "write" m rule: scan_field.induct)
  case (1 enc line offset "write" m)
  note step = scan_field.simps[of _ enc line offset "write" m]
  show ?case
  proof (cases "offset < length (line_bytes line) \<and> line_bytes line ! offset \<noteq> CHR 0x09")
    case True
    then have nul: "line_bytes line ! offset \<noteq> CHR 0x00" using 1(3) by (auto simp: step)
    show ?thesis
    proof (cases "find_in enc [CHR 0x09, CHR 0x5C] line offset")
      case (Inl e)
      with True nul show ?thesis by (simp add: step Let_def)
    next
      case (Inr q)
      obtain x m1 where m1: "put_text write (take (q - offset) (drop offset line)) m = (x, m1)" by fastforce
      show ?thesis
      proof (cases "q < offset \<or> (\<exists>s. x = Inl s)")
        case False
        then have ok: "\<not> q < offset" "x = Inr ()" by (cases x; auto)+
        have q: "q < length line + 1"
        proof (rule ccontr)
          assume "\<not> q < length line + 1"
          with 1(3) True nul Inr ok show False by (simp add: step Let_def)
        qed
        note pre = True nul Inr ok q m1
        show ?thesis
        proof (cases "line_bytes line ! q = CHR 0x5C")
          case esc: True
          from 1(3) pre esc have e: "q + 1 < length line" "of_char (line ! (q + 1)) < (128 :: int)" by (auto simp: step Let_def split: if_splits)
          obtain y m2 where m2: "poke (write + (q - offset)) (unescape_char (line_bytes line ! (q + 1))) m1 = (y, m2)" by fastforce
          show ?thesis
          proof (cases y)
            case (Inl s)
            with pre esc e m2 show ?thesis by (simp add: step Let_def)
          next
            case (Inr u)
            from 1(3) pre esc e m2 Inr have "\<not> assertion_fails (fst (scan_field False enc line (q + 2) (write + (q - offset) + 1) m2))"
              by (simp add: step Let_def)
            with 1(1)[of q x m1 "()" _ y m2 u] pre esc e m2 Inr
            have "scan_field ndebug enc line (q + 2) (write + (q - offset) + 1) m2 = scan_field False enc line (q + 2) (write + (q - offset) + 1) m2" by simp
            with pre esc e m2 Inr show ?thesis by (simp add: step Let_def)
          qed
        next
          case plain: False
          from 1(3) pre plain have t: "line_bytes line ! q = CHR 0x09" by (auto simp: step Let_def split: if_splits)
          from 1(3) pre plain t have "\<not> assertion_fails (fst (scan_field False enc line q (write + (q - offset)) m1))" by (simp add: step Let_def)
          with 1(2)[of q x m1 "()"] pre plain t
          have "scan_field ndebug enc line q (write + (q - offset)) m1 = scan_field False enc line q (write + (q - offset)) m1" by simp
          with pre plain t show ?thesis by (simp add: step Let_def)
        qed
      qed (use 1(3) True nul Inr m1 in \<open>auto simp: step\<close>)
    qed
  qed (simp add: step)
qed

lemma query_read_field_builds:
  "\<not> assertion_fails (fst (query_read_field False enc line offset write m)) \<Longrightarrow>
    query_read_field ndebug enc line offset write m = query_read_field False enc line offset write m"
  using scan_field_builds[of enc line offset "write" m ndebug]
  by (auto simp: query_read_field_def assert_on_def prog_simps split: if_splits sum.splits prod.splits)

lemma stream_field_builds:
  "\<not> assertion_fails (fst (stream_field False nm enc T line offset write m)) \<Longrightarrow>
    stream_field ndebug nm enc T line offset write m = stream_field False nm enc T line offset write m"
  using query_read_field_builds[of enc line offset "write" m ndebug]
  by (auto simp: stream_field_def assert_on_def prog_simps split: if_splits sum.splits prod.splits)

lemma stream_fields_builds:
  "\<not> assertion_fails (fst (stream_fields False nm enc Ts line offset write m)) \<Longrightarrow>
    stream_fields ndebug nm enc Ts line offset write m = stream_fields False nm enc Ts line offset write m"
proof (induction Ts arbitrary: offset "write" m)
  case (Cons T Ts)
  obtain r m' where r: "stream_field False nm enc T line offset write m = (r, m')" by fastforce
  with Cons.prems have "stream_field ndebug nm enc T line offset write m = (r, m')"
    using stream_field_builds[of nm enc T line offset "write" m ndebug] by (auto simp: prog_simps split: sum.splits)
  with Cons r show ?case by (auto simp: prog_simps split: sum.splits prod.splits)
qed simp

lemma stream_line_builds:
  "\<not> assertion_fails (fst (stream_line False nm enc Ts line m)) \<Longrightarrow> stream_line ndebug nm enc Ts line m = stream_line False nm enc Ts line m"
  using stream_fields_builds[of nm enc Ts line 0 0 "resize_row (length line + 1) m" ndebug]
  by (auto simp: stream_line_def assert_on_def prog_simps split: if_splits sum.splits prod.splits)

text \<open>
  C38.  The row buffer of \<open>stream_query\<close> has the size of the line and one byte.  That is enough for the texts of the fields and their
  terminating zeros, in whatever encoding and for whatever types.  In a build with assertions nothing is written outside of the buffer, whatever
  line the server sends, correct or not.  A build with \<open>NDEBUG\<close> does exactly the same, except for a line at which an assertion of the other build
  fails.
\<close>

theorem row_buffer_suffices:
  "length (snd (stream_line False type_name enc Ts line m)) = length line + 1
    \<and> \<not> out_of_range (fst (stream_line False type_name enc Ts line m))
    \<and> (assertion_fails (fst (stream_line False type_name enc Ts line m))
       \<or> stream_line True type_name enc Ts line m = stream_line False type_name enc Ts line m)"
proof -
  have "length (snd (stream_line False type_name enc Ts line m)) = length line + 1 \<and> \<not> out_of_range (fst (stream_line False type_name enc Ts line m))"
    using stream_fields_fit[of "resize_row (length line + 1) m" line 0 0 type_name enc Ts]
    by (auto simp: stream_line_def assert_on_def prog_simps split: prod.splits sum.splits)
  with stream_line_builds show ?thesis by blast
qed

text \<open>A line of one backslash is such a line: without the assertion, the code copies a negative number of bytes.\<close>

lemma backslash_line_undefined:
  assumes "enc \<noteq> Enc_unknown"
  shows "assertion_fails (fst (stream_line False type_name enc [T] [CHR 0x5C] m))"
    and "out_of_range (fst (stream_line True type_name enc [T] [CHR 0x5C] m))"
proof -
  let ?l = "[CHR 0x5C]"
  have f: "find_in enc [CHR 0x09, CHR 0x5C] ?l 0 = Inr 0" using find_special[OF assms, of "CHR 0x5C" "[]" "[]"] by simp
  have p: "find_in enc [CHR 0x09, CHR 0x5C] ?l 2 = Inr 1" using assms by (simp add: find_in_known find_ascii_char.simps)
  have b: "line_bytes ?l = [CHR 0x5C, CHR 0x09, CHR 0x00]" by (simp add: line_bytes_def)
  show "assertion_fails (fst (stream_line False type_name enc [T] ?l m))"
    by (simp add: stream_line_def stream_field_def query_read_field_def assert_on_def prog_simps b scan_field.simps[of _ enc ?l 0] f put_text_def)
  show "out_of_range (fst (stream_line True type_name enc [T] ?l m))"
    by (simp add: stream_line_def stream_field_def query_read_field_def assert_on_def prog_simps b scan_field.simps[of _ enc ?l 0]
        scan_field.simps[of _ enc ?l "Suc (Suc 0)"] f p[unfolded numeral_2_eq_2] put_text_def poke_def)
qed

subsection \<open>The two readers\<close>

lemma put_text_done:
  assumes "put_text w s m = (Inr (), m')"
  shows "w + length s \<le> length m'" "take (w + length s) m' = take w m @ s"
  using assms by (auto simp: put_text_def split: if_splits)

lemma poke_done:
  assumes "poke w c m = (Inr (), m')"
  shows "w + 1 \<le> length m'" "take (w + 1) m' = take w m @ [c]"
  using assms by (auto simp: poke_def take_Suc_conv_app_nth split: if_splits)

text \<open>
  What \<open>parse_loop\<close> of \<open>stream_from\<close> does with a field of text \<open>X\<close> that ends at \<open>o'\<close>.
\<close>

definition reads_on :: "encoding_group \<Rightarrow> string \<Rightarrow> nat \<Rightarrow> nat \<Rightarrow> string \<Rightarrow> bool" where
  "reads_on enc line off off' X \<longleftrightarrow> (\<forall>row b fields r. b \<le> length row \<longrightarrow>
     (line_bytes line ! off = CHR 0x5C \<and> line_bytes line ! (off + 1) = CHR ''N'' \<longrightarrow> b < length row) \<longrightarrow>
     parse_loop enc line off row (Some b) fields = Inr r \<longrightarrow>
     (let fs = fields @ [Some (drop b (row @ X))] in
      if off' < length line then parse_loop enc line (off' + 1) (row @ X) (Some (length (row @ X))) fs = Inr r
      else r = (row @ X, fs)))"

lemma line_bytes_nth: "i < length line \<Longrightarrow> line_bytes line ! i = line ! i"
  "line_bytes line ! length line = CHR 0x09" "line_bytes line ! Suc (length line) = CHR 0x00"
  by (simp_all add: line_bytes_def nth_append)

lemma reads_on_tab:
  assumes "off \<le> length line" "line_bytes line ! off = CHR 0x09"
  shows "reads_on enc line off off []"
proof (cases "off < length line")
  case True
  then have l: "line = take off line @ CHR 0x09 # drop (Suc off) line" using assms(2) id_take_nth_drop[OF True] by (simp add: line_bytes_nth)
  show ?thesis
  proof (cases "enc = Enc_unknown")
    case True
    with \<open>off < length line\<close> have "parse_loop enc line off row fb fields \<noteq> Inr r" for row fb fields r
      by (simp add: find_in_def get_char_finder_def parse_loop.simps[of Enc_unknown line off])
    then show ?thesis by (simp add: reads_on_def)
  next
    case False
    from parse_tab[OF False, of "take off line" "drop (Suc off) line"] l True show ?thesis
      by (simp add: reads_on_def end_field_def min_absorb2)
  qed
next
  case False
  with assms(1) have "off = length line" by simp
  then show ?thesis by (auto simp: reads_on_def parse_loop.simps[of enc line "length line"] end_field_def)
qed

lemma reads_on_escape:
  assumes off: "off \<le> length line" "line_bytes line ! off \<noteq> CHR 0x09"
    and f: "find_in enc [CHR 0x09, CHR 0x5C] line off = Inr q" "line_bytes line ! q = CHR 0x5C" "q + 1 < length line"
    and r: "reads_on enc line (q + 2) off' X"
  shows "reads_on enc line off off' (take (q - off) (drop off line) @ [unescape_char (line ! (q + 1))] @ X)"
  unfolding reads_on_def
proof (intro allI impI)
  fix row :: string and b and fields :: "copy_field list" and res
  let ?c = "take (q - off) (drop off line)" and ?e = "line ! (q + 1)"
  assume a: "b \<le> length row" "line_bytes line ! off = CHR 0x5C \<and> line_bytes line ! (off + 1) = CHR ''N'' \<longrightarrow> b < length row"
    "parse_loop enc line off row (Some b) fields = Inr res"
  have q: "off \<le> q" using find_in_range[OF f(1) off(1)] by simp
  have lt: "off < length line" using off by (cases "off = length line") (auto simp: line_bytes_nth)
  have lq: "line ! q = CHR 0x5C" using f(2,3) by (simp add: line_bytes_nth)
  have new: "?e \<noteq> CHR ''N'' \<or> b < length (row @ ?c)"
    using a(1,2) q f(3) lt lq by (cases "q = off") (auto simp: line_bytes_nth)
  have step: "parse_loop enc line off row (Some b) fields = (if ?e = CHR ''N'' \<and> Some b \<noteq> Some (length (row @ ?c))
      then Inl (Failure ''Null sequence found in nonempty field'')
      else parse_loop enc line (q + 2) ((row @ ?c) @ [unescape_char ?e]) (if ?e = CHR ''N'' then None else Some b) fields)"
    using lt f(1,3) lq by (subst parse_loop.simps) (simp add: Let_def)
  have n: "?e \<noteq> CHR ''N''" using new a(3) unfolding step by (auto split: if_splits)
  have p: "parse_loop enc line (q + 2) ((row @ ?c) @ [unescape_char ?e]) (Some b) fields = Inr res" using a(3) n unfolding step by simp
  have bl: "b < length ((row @ ?c) @ [unescape_char ?e])" using a(1) by simp
  show "let fs = fields @ [Some (drop b (row @ ?c @ [unescape_char ?e] @ X))] in
      if off' < length line
      then parse_loop enc line (off' + 1) (row @ ?c @ [unescape_char ?e] @ X) (Some (length (row @ ?c @ [unescape_char ?e] @ X))) fs = Inr res
      else res = (row @ ?c @ [unescape_char ?e] @ X, fs)"
    using r[unfolded reads_on_def, THEN spec[of _ "(row @ ?c) @ [unescape_char ?e]"], THEN spec[of _ b], THEN spec[of _ fields], THEN spec[of _ res]] bl p
    by (simp only: append_assoc simp_thms less_imp_le)
qed

lemma reads_on_plain:
  assumes off: "off \<le> length line" "line_bytes line ! off \<noteq> CHR 0x09"
    and f: "find_in enc [CHR 0x09, CHR 0x5C] line off = Inr q" "line_bytes line ! q = CHR 0x09"
  shows "reads_on enc line off q (take (q - off) (drop off line))"
  unfolding reads_on_def
proof (intro allI impI)
  fix row :: string and b and fields :: "copy_field list" and res
  let ?c = "take (q - off) (drop off line)"
  assume a: "b \<le> length row" "parse_loop enc line off row (Some b) fields = Inr res"
  have lt: "off < length line" using off by (cases "off = length line") (auto simp: line_bytes_nth)
  have q: "q < length line \<longrightarrow> line ! q = CHR 0x09" using f(2) by (auto simp: line_bytes_nth)
  show "let fs = fields @ [Some (drop b (row @ ?c))] in
      if q < length line then parse_loop enc line (q + 1) (row @ ?c) (Some (length (row @ ?c))) fs = Inr res else res = (row @ ?c, fs)"
    using a(2) lt f(1) q by (subst (asm) parse_loop.simps) (auto simp: Let_def end_field_def)
qed

lemma scan_field_reads:
  "scan_field False enc line offset write m = (Inr (off', w'), m') \<Longrightarrow> write \<le> length m \<Longrightarrow>
    \<exists>X. w' = write + length X \<and> w' \<le> length m' \<and> take w' m' = take write m @ X \<and> off' \<le> length line
      \<and> line_bytes line ! off' = CHR 0x09 \<and> reads_on enc line offset off' X"
proof (induction False enc line offset "write" m arbitrary: off' w' m' rule: scan_field.induct)
  case (1 enc line offset "write" m)
  note unf = scan_field.simps[of False enc line offset "write" m]
  show ?case
  proof (cases "line_bytes line ! offset = CHR 0x09")
    case True
    with 1(3) have "offset < length line + 2" "off' = offset" "w' = write" "m' = m" by (auto simp: unf split: if_splits)
    moreover from this(1) True have "offset \<le> length line" by (cases "offset = length line + 1") (auto simp: line_bytes_def nth_append)
    ultimately show ?thesis using True reads_on_tab[of offset line enc] 1(4) by simp
  next
    case tab: False
    then have go: "offset < length (line_bytes line)" "line_bytes line ! offset \<noteq> CHR 0x00" using 1(3) by (auto simp: unf split: if_splits)
    then have off: "offset \<le> length line" "line_bytes line ! offset \<noteq> CHR 0x00" by (cases "offset = length line + 1"; auto simp: line_bytes_def nth_append)+
    obtain q where q: "find_in enc [CHR 0x09, CHR 0x5C] line offset = Inr q" using 1(3) off tab by (auto simp: unf split: sum.splits)
    let ?c = "take (q - offset) (drop offset line)" and ?w = "write + (q - offset)"
    have le: "\<not> q < offset" "q < length line + 1" and cl: "length ?c = q - offset" using find_in_range[OF q off(1)] by auto
    obtain m1 where m1: "put_text write ?c m = (Inr (), m1)" using 1(3) off tab q le by (auto simp: unf Let_def split: prod.splits sum.splits)
    note put = put_text_done[OF m1, unfolded cl]
    have pre: "\<not> \<not> offset < length (line_bytes line)" "\<not> (\<not> False \<and> line_bytes line ! offset = CHR 0x00)" "\<not> (\<not> False \<and> \<not> q < length line + 1)"
      using go off le by auto
    show ?thesis
    proof (cases "line_bytes line ! q = CHR 0x5C")
      case esc: True
      have e: "q + 1 < length line" "of_char (line ! (q + 1)) < (128 :: int)" using 1(3) off tab q le m1 esc by (auto simp: unf Let_def split: if_splits)
      have lb: "line_bytes line ! Suc q = line ! Suc q" using e(1) by (simp add: line_bytes_nth)
      obtain m2 where m2: "poke ?w (unescape_char (line ! (q + 1))) m1 = (Inr (), m2)"
        "scan_field False enc line (q + 2) (?w + 1) m2 = (Inr (off', w'), m')"
        using 1(3) off tab q le m1 esc e lb by (auto simp: unf Let_def split: prod.splits sum.splits)
      have m2': "poke ?w (unescape_char (line_bytes line ! (q + 1))) m1 = (Inr (), m2)" using m2(1) lb by simp
      from 1(1)[OF pre(1) tab pre(2) q le(1) pre(3) m1[symmetric] refl refl esc _ m2'[symmetric] refl m2(2)] e poke_done(1)[OF m2(1)]
      obtain X where X: "w' = ?w + 1 + length X" "w' \<le> length m'" "take w' m' = take (?w + 1) m2 @ X" "off' \<le> length line"
        "line_bytes line ! off' = CHR 0x09" "reads_on enc line (q + 2) off' X" by auto
      show ?thesis
        using X put poke_done[OF m2(1)] cl reads_on_escape[OF off(1) tab q esc e(1) X(6)]
        by (intro exI[of _ "?c @ [unescape_char (line ! (q + 1))] @ X"]) simp
    next
      case plain: False
      have t: "line_bytes line ! q = CHR 0x09" "scan_field False enc line q ?w m1 = (Inr (off', w'), m')"
        using 1(3) off tab q le m1 plain by (auto simp: unf Let_def split: if_splits)
      then have "off' = q" "w' = ?w" "m' = m1" "q \<le> length line" using le by (auto simp: scan_field.simps[of False enc line q] split: if_splits)
      with t put cl reads_on_plain[OF off(1) tab q t(1)] show ?thesis by (intro exI[of _ ?c]) simp
    qed
  qed
qed

text \<open>A field as both readers have it; at \<open>None\<close> the row keeps the letter of the null.\<close>

definition reads_field :: "encoding_group \<Rightarrow> string \<Rightarrow> nat \<Rightarrow> nat \<Rightarrow> copy_field \<Rightarrow> bool" where
  "reads_field enc line off off' f \<longleftrightarrow> (\<forall>row fields r.
     parse_loop enc line off row (Some (length row)) fields = Inr r \<longrightarrow>
     (\<exists>row'. if off' < length line then parse_loop enc line (off' + 1) row' (Some (length row')) (fields @ [f]) = Inr r
       else r = (row', fields @ [f])))"

lemma reads_on_field:
  assumes "reads_on enc line off off' X" "\<not> (line_bytes line ! off = CHR 0x5C \<and> line_bytes line ! (off + 1) = CHR ''N'')"
  shows "reads_field enc line off off' (Some X)"
  unfolding reads_field_def
proof (intro allI impI)
  fix row :: string and fields :: "copy_field list" and r
  assume "parse_loop enc line off row (Some (length row)) fields = Inr r"
  with assms(1)[unfolded reads_on_def, THEN spec[of _ row], THEN spec[of _ "length row"], THEN spec[of _ fields], THEN spec[of _ r]] assms(2)
  show "\<exists>row'. if off' < length line then parse_loop enc line (off' + 1) row' (Some (length row')) (fields @ [Some X]) = Inr r
       else r = (row', fields @ [Some X])"
    by (intro exI[of _ "row @ X"]) (simp add: Let_def)
qed

lemma reads_null:
  assumes "off + 2 \<le> length line" "line ! off = CHR 0x5C" "line ! (off + 1) = CHR ''N''" "line_bytes line ! (off + 2) = CHR 0x09"
  shows "reads_field enc line off (off + 2) None"
  unfolding reads_field_def
proof (intro allI impI)
  fix row :: string and fields :: "copy_field list" and r
  assume p: "parse_loop enc line off row (Some (length row)) fields = Inr r"
  have enc: "enc \<noteq> Enc_unknown" using p assms(1) by (auto simp: parse_loop.simps[of enc line off] find_in_def get_char_finder_def)
  define t where "t = drop (off + 2) line"
  have l: "line = take off line @ CHR 0x5C # CHR ''N'' # t" "length (take off line) = off"
    using assms(1,2,3) id_take_nth_drop[of off line] Cons_nth_drop_Suc[of "Suc off" line] by (simp_all add: t_def)
  let ?row = "row @ [unescape_char (CHR ''N'')]"
  have q: "parse_loop enc line (off + 2) ?row None fields = Inr r"
    using parse_escape[OF enc, of "CHR ''N''" "Some (length row)" row "take off line" t fields] p l by simp
  show "\<exists>row'. if off + 2 < length line then parse_loop enc line (off + 2 + 1) row' (Some (length row')) (fields @ [None]) = Inr r
       else r = (row', fields @ [None])"
  proof (cases "off + 2 < length line")
    case True
    then have "t = CHR 0x09 # drop (off + 3) line" using assms(4) Cons_nth_drop_Suc[of "off + 2" line]
      by (simp add: t_def line_bytes_nth eval_nat_numeral)
    with q l parse_tab[OF enc, of "take off line @ [CHR 0x5C, CHR ''N'']" "drop (off + 3) line" ?row None fields] True show ?thesis
      by (intro exI[of _ ?row]) (simp add: end_field_def eval_nat_numeral)
  next
    case False
    with q show ?thesis by (intro exI[of _ ?row]) (simp add: parse_loop.simps[of enc line "Suc (Suc off)"] end_field_def)
  qed
qed

lemma query_read_field_reads:
  assumes "query_read_field False enc line off w m = (Inr (o', w', v), m')" "w \<le> length m"
  shows "\<exists>off'. o' = off' + 1 \<and> off' \<le> length line \<and> w' \<le> length m' \<and> reads_field enc line off off' (map_option (seen m') v)"
proof (cases "line_bytes line ! off = CHR 0x5C \<and> line_bytes line ! (off + 1) = CHR ''N''")
  case True
  with assms have a: "off + 2 \<le> length line" "line_bytes line ! (off + 2) = CHR 0x09" "o' = off + 3" "v = None" "w' = w" "m' = m"
    by (auto simp: query_read_field_def assert_on_def prog_simps split: if_splits)
  with True have "line ! off = CHR 0x5C" "line ! (off + 1) = CHR ''N''" by (auto simp: line_bytes_def nth_append)
  from reads_null[OF a(1) this a(2)] a assms(2) show ?thesis by (intro exI[of _ "off + 2"]) simp
next
  case False
  with assms(1) obtain off' w1 m1 where s: "scan_field False enc line off w m = (Inr (off', w1), m1)"
    and p: "poke w1 (CHR 0x00) m1 = (Inr (), m')" "o' = off' + 1" "w' = w1 + 1" "v = Some (In_buffer w (w1 - w))"
    by (auto simp: query_read_field_def assert_on_def prog_simps split: if_splits prod.splits sum.splits)
  from scan_field_reads[OF s assms(2)] obtain X where X: "w1 = w + length X" "take w1 m1 = take w m @ X" "off' \<le> length line"
    "reads_on enc line off off' X" by blast
  have t: "take w1 m' = take w1 m1" "w1 + 1 \<le> length m'" using poke_done[OF p(1)] p(1) by (auto simp: poke_def split: if_splits)
  have "take (w1 - w) (drop w m') = drop w (take w1 m')" by (simp add: drop_take)
  then have "seen m' (In_buffer w (w1 - w)) = X" using t X(2) assms(2) by simp
  with reads_on_field[OF X(4) False] X(3) p t show ?thesis by (intro exI[of _ off']) simp
qed

lemma stream_field_reads:
  assumes "stream_field False nm enc T line off w m = (Inr (o', w', v), m')" "w \<le> length m"
  shows "\<exists>off' f. o' = off' + 1 \<and> off' \<le> length line \<and> w' \<le> length m' \<and> reads_field enc line off off' f \<and> stream_value nm T f = Inr v"
proof -
  from assms(1) obtain view where r: "query_read_field False enc line off w m = (Inr (o', w', view), m')"
    and v: "stream_value nm T (map_option (seen m') view) = Inr v"
    by (auto simp: stream_field_def assert_on_def prog_simps stop_or_cases split: if_splits prod.splits sum.splits)
  from query_read_field_reads[OF r assms(2)] v show ?thesis by blast
qed

lemma stream_fields_read:
  "stream_fields False nm enc Ts line off w m = (Inr (length line + 1, vs), m') \<Longrightarrow> w \<le> length m \<Longrightarrow> off \<le> length line \<Longrightarrow>
    parse_loop enc line off row (Some (length row)) fds = Inr r \<Longrightarrow>
    \<exists>fs. snd r = fds @ fs \<and> length fs = length Ts \<and> map2 (stream_value nm) Ts fs = map Inr vs"
proof (induction Ts arbitrary: off w m vs row fds)
  case (Cons T Ts)
  from Cons.prems(1) obtain o1 w1 v m1 us where s: "stream_field False nm enc T line off w m = (Inr (o1, w1, v), m1)"
    "stream_fields False nm enc Ts line o1 w1 m1 = (Inr (length line + 1, us), m')" "vs = v # us"
    by (auto simp: prog_simps split: prod.splits sum.splits)
  from stream_field_reads[OF s(1) Cons.prems(2)] obtain off' f where f: "o1 = off' + 1" "off' \<le> length line" "w1 \<le> length m1"
    "reads_field enc line off off' f" "stream_value nm T f = Inr v" by blast
  from f(4) Cons.prems(4) obtain row' where p: "if off' < length line then parse_loop enc line (off' + 1) row' (Some (length row')) (fds @ [f]) = Inr r
       else r = (row', fds @ [f])" unfolding reads_field_def by blast
  show ?case
  proof (cases "off' < length line")
    case True
    with Cons.IH[OF s(2) f(3), of row' "fds @ [f]"] p f(1) obtain fs where
      "snd r = (fds @ [f]) @ fs" "length fs = length Ts" "map2 (stream_value nm) Ts fs = map Inr us" by auto
    with f(5) s(3) show ?thesis by (intro exI[of _ "f # fs"]) simp
  next
    case False
    have "Ts = []"
    proof (cases Ts)
      case (Cons T' Ts')
      with s(2) f(1,2) False show ?thesis
        by (simp add: stream_field_def assert_on_def prog_simps)
    qed simp
    with s(2,3) False p f(5) show ?thesis by (intro exI[of _ "[f]"]) (simp add: prog_simps)
  qed
qed (simp add: prog_simps)

text \<open>
  C16.  The fast reader and the careful reader agree: when \<open>stream_query\<close>, in a build with assertions, makes values of a line, whatever line the server sent, and
  \<open>stream_from\<close> accepts that line, then it has as many fields as there are types, and each value is the one of its field.
\<close>

theorem readers_agree:
  assumes "stream_line False type_name enc Ts line m = (Inr vs, m')" "parse_fields enc line = Inr fs"
  shows "length fs = length Ts \<and> map2 (stream_value type_name) Ts fs = map Inr vs"
proof -
  let ?m = "resize_row (length line + 1) m"
  from assms(1) have s: "stream_fields False type_name enc Ts line 0 0 ?m = (Inr (length line + 1, vs), m')"
    by (auto simp: stream_line_def assert_on_def prog_simps split: prod.splits sum.splits if_splits)
  from assms(2) obtain r where r: "parse_loop enc line 0 [] (Some 0) [] = Inr r" "snd r = fs"
    by (auto simp: parse_fields_def map_sum_def split: sum.splits)
  from stream_fields_read[OF s _ _ , of "[]" "[]" r] r show ?thesis by simp
qed

theorem readers_agree_witness:
  "stream_line False (\<lambda>_. ''t'') Sjis [Optional String_type, Optional String_type] [CHR 0x83, CHR 0x5C, CHR 0x5C, CHR ''n'', CHR 0x09, CHR 0x5C, CHR ''N''] []
     = (Inr [Just (Text_value [CHR 0x83, CHR 0x5C, CHR 0x0A]), Nothing], [CHR 0x83, CHR 0x5C, CHR 0x0A, CHR 0x00, CHR 0x00, CHR 0x00, CHR 0x00, CHR 0x00])
   \<and> map2 (stream_value (\<lambda>_. ''t'')) [Optional String_type, Optional String_type] [Some [CHR 0x83, CHR 0x5C, CHR 0x0A], None]
     = map Inr [Just (Text_value [CHR 0x83, CHR 0x5C, CHR 0x0A]), Nothing]"
proof -
  let ?l = "[CHR 0x83, CHR 0x5C, CHR 0x5C, CHR ''n'', CHR 0x09, CHR 0x5C, CHR ''N'']"
  have s: "stream_line False (\<lambda>_. ''t'') Sjis [Optional String_type, Optional String_type] ?l []
    = (Inr [Just (Text_value [CHR 0x83, CHR 0x5C, CHR 0x0A]), Nothing], [CHR 0x83, CHR 0x5C, CHR 0x0A, CHR 0x00, CHR 0x00, CHR 0x00, CHR 0x00, CHR 0x00])"
    by code_simp
  have p: "parse_fields Sjis ?l = Inr [Some [CHR 0x83, CHR 0x5C, CHR 0x0A], None]" by code_simp
  from readers_agree[OF s p] s show ?thesis by blast
qed

subsection \<open>Written lines\<close>

lemma escape_char_ascii: "escape_char x = Inr c \<Longrightarrow> of_char c < (128 :: int)"
  by (auto simp: escape_char_def split: if_splits)

lemma special_needles: "c \<in> {CHR 0x09, CHR 0x5C} \<Longrightarrow> c \<in> set escape_needles"
  by (auto simp: escape_needles_def)

lemma find_special_after:
  assumes enc: "enc \<noteq> Enc_unknown" and us: "glyphs (scanner_of enc) us" "\<forall>g\<in>set us. hd g \<notin> set escape_needles"
    and t: "t = [] \<or> hd t \<in> {CHR 0x09, CHR 0x5C}"
  shows "find_in enc [CHR 0x09, CHR 0x5C] (p @ concat us @ t) (length p) = Inr (length (p @ concat us))"
proof -
  have "\<forall>g\<in>set us. hd g \<notin> set [CHR 0x09, CHR 0x5C]" using us(2) special_needles by auto
  from local_scan.find_glyphs[OF scanner_of_local us(1) this, of p t]
  have f: "find_in enc [CHR 0x09, CHR 0x5C] (p @ concat us @ t) (length p) = find_in enc [CHR 0x09, CHR 0x5C] (p @ concat us @ t) (length (p @ concat us))"
    by (simp only: find_in_known[OF enc])
  show ?thesis
  proof (cases t)
    case Nil
    then show ?thesis using f by (simp add: find_in_known[OF enc] find_ascii_char.simps)
  next
    case (Cons c r)
    with t find_special[OF enc, of c "p @ concat us" r] f show ?thesis by simp
  qed
qed

lemma scan_end: "off \<le> length line \<Longrightarrow> line_bytes line ! off = CHR 0x09 \<Longrightarrow> scan_field b enc line off w m = (Inr (off, w), m)"
  by (subst scan_field.simps) simp

lemma scan_step:
  assumes "off \<le> length line" "line_bytes line ! off \<notin> {CHR 0x09, CHR 0x00}" "find_in enc [CHR 0x09, CHR 0x5C] line off = Inr q"
    and "put_text w (take (q - off) (drop off line)) m = (Inr (), m1)"
  shows "line_bytes line ! q = CHR 0x09 \<Longrightarrow> scan_field b enc line off w m = scan_field b enc line q (w + (q - off)) m1"
    and "line_bytes line ! q = CHR 0x5C \<Longrightarrow> q + 1 < length line \<Longrightarrow> of_char (line ! (q + 1)) < (128 :: int) \<Longrightarrow>
      poke (w + (q - off)) (unescape_char (line ! (q + 1))) m1 = (Inr (), m2) \<Longrightarrow>
      scan_field b enc line off w m = scan_field b enc line (q + 2) (w + (q - off) + 1) m2"
proof -
  have "\<not> q < off" "q < length line + 1" using find_in_range[OF assms(3,1)] by auto
  note pre = assms this
  show "line_bytes line ! q = CHR 0x09 \<Longrightarrow> scan_field b enc line off w m = scan_field b enc line q (w + (q - off)) m1"
    using pre by (subst scan_field.simps) (simp add: Let_def)
  assume e: "line_bytes line ! q = CHR 0x5C" "q + 1 < length line" "of_char (line ! (q + 1)) < (128 :: int)"
    "poke (w + (q - off)) (unescape_char (line ! (q + 1))) m1 = (Inr (), m2)"
  then have "line_bytes line ! (q + 1) = line ! (q + 1)" by (simp add: line_bytes_nth)
  with pre e show "scan_field b enc line off w m = scan_field b enc line (q + 2) (w + (q - off) + 1) m2"
    by (subst scan_field.simps) (simp add: Let_def)
qed

lemma scan_glyphs:
  assumes enc: "enc \<noteq> Enc_unknown"
  shows "glyphs (scanner_of enc) gs \<Longrightarrow> \<forall>g\<in>set gs. hd g \<noteq> CHR 0x00 \<Longrightarrow> line = p @ concat (map esc_glyph gs) @ t \<Longrightarrow>
    t = [] \<or> hd t = CHR 0x09 \<Longrightarrow> w + length (concat gs) \<le> length m \<Longrightarrow>
    \<exists>m'. scan_field b enc line (length p) w m = (Inr (length (p @ concat (map esc_glyph gs)), w + length (concat gs)), m')
      \<and> length m' = length m \<and> take (w + length (concat gs)) m' = take w m @ concat gs"
proof (induction "length gs" arbitrary: gs p w m rule: less_induct)
  case less
  let ?P = "\<lambda>g. hd g \<notin> set escape_needles"
  define us vs where "us = takeWhile ?P gs" and "vs = dropWhile ?P gs"
  have gs: "gs = us @ vs" by (simp add: us_def vs_def)
  have usP: "\<forall>g \<in> set us. ?P g" unfolding us_def by (auto dest: set_takeWhileD)
  then have us: "map esc_glyph us = us" by (simp add: map_idI esc_glyph_plain)
  have g: "glyphs (scanner_of enc) us" "glyphs (scanner_of enc) vs" using less.prems(1) gs by simp_all
  have tt: "line_bytes (q @ t) ! length q = CHR 0x09" for q
    using less.prems(4) by (cases t) (auto simp: line_bytes_def nth_append)
  show ?case
  proof (cases "gs = []")
    case True
    with less.prems(3) tt[of p] scan_end[of "length p" line b enc w m] show ?thesis by simp
  next
    case False
    define t' where "t' = concat (map esc_glyph vs) @ t"
    have line: "line = p @ concat us @ t'" using less.prems(3) us by (simp add: gs t'_def)
    have esc: "\<exists>x c. v = [x] \<and> escape_char x = Inr c \<and> esc_glyph v = [CHR 0x5C, c]" if v: "vs = v # ws" for v ws
    proof -
      have hit: "hd v \<in> set escape_needles" using v vs_def dropWhile_eq_Cons_conv[of ?P gs v ws] by simp
      have "glyph (scanner_of enc) v" using g(2) v by simp
      then have "length v = 1" using local_scan.ascii_glyph[OF scanner_of_local] needles_ascii[OF hit] by blast
      then obtain x where x: "v = [x]" by (cases v) auto
      with hit escape_char_needle[of x] show ?thesis by (auto simp: esc_glyph_def)
    qed
    have t': "t' = [] \<or> hd t' \<in> {CHR 0x09, CHR 0x5C}"
      using less.prems(4) esc by (cases vs) (auto simp: t'_def)
    note find = find_special_after[OF enc g(1) usP t', of p, folded line]
    let ?q = "length (p @ concat us)"
    have first: "line_bytes line ! length p \<notin> {CHR 0x09, CHR 0x00}"
    proof (cases us)
      case Nil
      then obtain v ws where "vs = v # ws" using False gs by (cases vs) auto
      with esc[of v ws] Nil line show ?thesis by (auto simp: t'_def line_bytes_def nth_append)
    next
      case (Cons u us')
      then have u: "u \<noteq> []" "hd u \<notin> set escape_needles" "hd u \<noteq> CHR 0x00" using g(1) usP less.prems(2) gs by (auto simp: glyph_def)
      then have "line_bytes line ! length p = hd u" using line Cons by (cases u) (auto simp: line_bytes_def nth_append)
      with u special_needles[of "hd u"] show ?thesis by auto
    qed
    have chunk: "take (?q - length p) (drop (length p) line) = concat us" by (simp add: line)
    obtain m1 where m1: "put_text w (concat us) m = (Inr (), m1)" "length m1 = length m"
      using put_text_fits[of w "concat us" m] less.prems(5) gs by auto
    have off: "length p \<le> length line" by (simp add: line)
    note step = scan_step[OF off first find, unfolded chunk, OF m1(1)]
    note put = put_text_done(2)[OF m1(1)]
    show ?thesis
    proof (cases vs)
      case Nil
      then have "line = (p @ concat us) @ t" using line by (simp add: t'_def)
      with step(1) tt[of "p @ concat us"] scan_end[of ?q line b enc _ m1] m1(2) put gs us Nil show ?thesis by simp
    next
      case (Cons v ws)
      with esc obtain x c where v: "v = [x]" "escape_char x = Inr c" "esc_glyph v = [CHR 0x5C, c]" by blast
      let ?p = "p @ concat us @ [CHR 0x5C, c]"
      have l: "line = ?p @ concat (map esc_glyph ws) @ t" using line Cons v by (simp add: t'_def)
      then have at: "line_bytes line ! ?q = CHR 0x5C" "?q + 1 < length line" "line ! (?q + 1) = c"
        by (simp_all add: line_bytes_def nth_append)
      have wl: "w + length (concat us) + 1 + length (concat ws) \<le> length m" using less.prems(5) gs Cons v by simp
      then have pk: "poke (w + (?q - length p)) (unescape_char c) m1 = (Inr (), m1[w + (?q - length p) := unescape_char c])"
        using m1(2) by (intro poke_fits) simp
      have "scan_field b enc line (length p) w m = scan_field b enc line (length ?p) (w + length (concat us) + 1) (m1[w + length (concat us) := unescape_char c])"
        using step(2)[OF at(1,2), unfolded at(3), OF escape_char_ascii[OF v(2)] pk] by simp
      moreover obtain m' where "scan_field b enc line (length ?p) (w + length (concat us) + 1) (m1[w + length (concat us) := unescape_char c])
          = (Inr (length (?p @ concat (map esc_glyph ws)), w + length (concat us) + 1 + length (concat ws)), m')" "length m' = length m"
        "take (w + length (concat us) + 1 + length (concat ws)) m' = take (w + length (concat us) + 1) (m1[w + length (concat us) := unescape_char c]) @ concat ws"
        using less.hyps[of ws ?p "w + length (concat us) + 1" "m1[w + length (concat us) := unescape_char c]"]
          g(2) less.prems(2,4) l gs Cons wl m1(2) by auto
      moreover have "take (w + length (concat us) + 1) (m1[w + length (concat us) := unescape_char c]) = take w m @ concat us @ [x]"
        using poke_done(2)[OF pk] put unescape_escape[OF v(2)] by simp
      ultimately show ?thesis using gs us Cons v by (simp add: add.assoc)
    qed
  qed
qed

lemma esc_glyphs_length: "length (concat gs) \<le> length (concat (map esc_glyph gs))" if "glyphs (scanner_of enc) gs"
  using that
proof (induction gs)
  case (Cons g gs)
  have "length g \<le> length (esc_glyph g)"
  proof (cases "hd g \<in> set escape_needles")
    case True
    then have "length g = 1" using local_scan.ascii_glyph[OF scanner_of_local] needles_ascii[OF True] Cons.prems by auto
    then show ?thesis using True escape_char_needle[of "hd g"] by (auto simp: esc_glyph_def)
  qed (simp add: esc_glyph_plain)
  with Cons show ?case by simp
qed simp

definition no_nul :: "copy_field \<Rightarrow> bool" where
  "no_nul f \<longleftrightarrow> (\<forall>s. f = Some s \<longrightarrow> CHR 0x00 \<notin> set s)"

lemma esc_glyphs_start:
  assumes "glyphs (scanner_of enc) gs"
  shows "\<not> (\<exists>r. concat (map esc_glyph gs) = CHR 0x5C # CHR ''N'' # r)"
proof (cases gs)
  case (Cons g gs')
  then have g: "g \<noteq> []" using assms by (simp add: glyph_def)
  show ?thesis
  proof (cases "escape_char (hd g)")
    case (Inl e)
    then have "hd g \<notin> set escape_needles" using escape_char_needle[of "hd g"] by simp
    then show ?thesis using Cons g by (cases g) (auto simp: esc_glyph_plain escape_needles_def)
  next
    case (Inr c)
    then show ?thesis using Cons unescape_escape[OF Inr] by (simp add: esc_glyph_def)
  qed
qed simp

lemma field_read_back:
  assumes enc: "enc \<noteq> Enc_unknown" and f: "writable enc [f]" "no_nul f"
    and line: "line = p @ Pqxx_Streams.field_text enc f @ t" "t = [] \<or> hd t = CHR 0x09" and m: "length m = length line + 1" "w \<le> length p"
  shows "\<exists>w' v m'. query_read_field b enc line (length p) w m = (Inr (length p + length (Pqxx_Streams.field_text enc f) + 1, w', v), m')
    \<and> length m' = length line + 1 \<and> w' \<le> length p + length (Pqxx_Streams.field_text enc f) + 1 \<and> map_option (seen m') v = f"
proof (cases f)
  case None
  then have "line = p @ CHR 0x5C # CHR ''N'' # t" using line by (simp add: Pqxx_Streams.field_text_def)
  with line(2) m None show ?thesis
    by (cases t) (auto simp: query_read_field_def assert_on_def prog_simps line_bytes_def nth_append Pqxx_Streams.field_text_def)
next
  case (Some s)
  define gs where "gs = the (cut (scanner_of enc) s)"
  have gs: "glyphs (scanner_of enc) gs" "concat gs = s" using f(1) Some cut_some[of enc s] by (simp_all add: writable_def gs_def)
  have ft: "Pqxx_Streams.field_text enc f = concat (map esc_glyph gs)" using Some by (simp add: Pqxx_Streams.field_text_def gs_def)
  have nul: "\<forall>g\<in>set gs. hd g \<noteq> CHR 0x00"
  proof
    fix g assume g: "g \<in> set gs"
    then have "g \<noteq> []" using gs(1) by (auto simp: glyphs_def list_all_iff glyph_def)
    then have "hd g \<in> set s" using g gs(2) by (auto intro!: bexI[of _ g])
    then show "hd g \<noteq> CHR 0x00" using f(2) Some by (auto simp: no_nul_def)
  qed
  have l: "line = p @ concat (map esc_glyph gs) @ t" using line ft by simp
  have fit: "w + length s \<le> length line" using m(2) l esc_glyphs_length[OF gs(1)] gs(2) by simp
  then obtain m1 where m1: "scan_field b enc line (length p) w m = (Inr (length (p @ concat (map esc_glyph gs)), w + length s), m1)"
    "length m1 = length m" "take (w + length s) m1 = take w m @ s"
    using scan_glyphs[OF enc gs(1) nul l line(2), of w m] m(1) gs(2) by auto
  have n: "\<not> (line_bytes line ! length p = CHR 0x5C \<and> line_bytes line ! (length p + 1) = CHR ''N'')"
  proof
    assume a: "line_bytes line ! length p = CHR 0x5C \<and> line_bytes line ! (length p + 1) = CHR ''N''"
    let ?e = "concat (map esc_glyph gs)"
    have lb: "line_bytes line = p @ ?e @ t @ [CHR 0x09, CHR 0x00]" using l by (simp add: line_bytes_def)
    show False
    proof (cases ?e)
      case Nil
      with a lb line(2) show False by (cases t) (auto simp: nth_append)
    next
      case (Cons c r)
      then have "c = CHR 0x5C" using a lb by (auto simp: nth_append)
      then show False using a lb Cons esc_glyphs_start[OF gs(1)] line(2) by (cases r; cases t) (auto simp: nth_append)
    qed
  qed
  let ?w = "w + length s"
  have pk: "poke ?w (CHR 0x00) m1 = (Inr (), m1[?w := CHR 0x00])" using fit m(1) m1(2) by (intro poke_fits) simp
  have "query_read_field b enc line (length p) w m = (Inr (length p + length (Pqxx_Streams.field_text enc f) + 1, ?w + 1, Some (In_buffer w (?w - w))), m1[?w := CHR 0x00])"
    using n m1(1) pk l ft by (simp add: query_read_field_def assert_on_def prog_simps)
  moreover have "take (length s) (drop w (m1[?w := CHR 0x00])) = s"
  proof -
    have e: "take (length s) (drop w xs) = drop w (take ?w xs)" for xs :: string by (simp add: drop_take)
    have "drop w (take ?w m1) = s" using m1(3) m fit by simp
    then show ?thesis by (simp only: e take_update_cancel[OF order_refl])
  qed
  moreover have "?w + 1 \<le> length p + length (Pqxx_Streams.field_text enc f) + 1"
    using m(2) ft esc_glyphs_length[OF gs(1)] gs(2) by simp
  ultimately show ?thesis using m1(2) m(1) Some by auto
qed

lemma written_fields:
  assumes enc: "enc \<noteq> Enc_unknown"
  shows "length Ts = length fs \<Longrightarrow> writable enc (f # fs) \<Longrightarrow> \<forall>g\<in>set (f # fs). no_nul g \<Longrightarrow>
    map2 (stream_value nm) (T # Ts) (f # fs) = map Inr vs \<Longrightarrow>
    line = p @ Pqxx_Streams.field_text enc f @ concat (map (\<lambda>f. CHR 0x09 # Pqxx_Streams.field_text enc f) fs) \<Longrightarrow>
    length m = length line + 1 \<Longrightarrow> w \<le> length p \<Longrightarrow>
    \<exists>m'. stream_fields b nm enc (T # Ts) line (length p) w m = (Inr (length line + 1, vs), m')"
proof (induction Ts fs arbitrary: T f p w m vs rule: list_induct2)
  case Nil
  then obtain w' v m' where "query_read_field b enc line (length p) w m = (Inr (length p + length (Pqxx_Streams.field_text enc f) + 1, w', v), m')"
    "map_option (seen m') v = f" using field_read_back[OF enc, of f line p "[]" m w b] by auto
  with Nil show ?case by (auto simp: stream_field_def assert_on_def prog_simps stop_or_cases)
next
  case (Cons T' Ts g fs)
  let ?F = "Pqxx_Streams.field_text enc"
  let ?t = "concat (map (\<lambda>f. CHR 0x09 # ?F f) fs)"
  have w: "writable enc [f]" "writable enc (g # fs)" using Cons.prems(1) by (simp_all add: writable_def)
  obtain w' v m' where r: "query_read_field b enc line (length p) w m = (Inr (length p + length (?F f) + 1, w', v), m')"
    "length m' = length line + 1" "w' \<le> length p + length (?F f) + 1" "map_option (seen m') v = f"
    using field_read_back[OF enc w(1), of line p "CHR 0x09 # ?F g @ ?t" m w b] Cons.prems(2,4,5,6) by auto
  obtain u us where vs: "vs = u # us" "stream_value nm T f = Inr u" "map2 (stream_value nm) (T' # Ts) (g # fs) = map Inr us"
    using Cons.prems(3) by (cases vs) auto
  have "line = (p @ ?F f @ [CHR 0x09]) @ ?F g @ ?t" using Cons.prems(4) by simp
  from Cons.IH[OF w(2) _ vs(3) this r(2), of w'] Cons.prems(2) r(3) obtain m2 where
    "stream_fields b nm enc (T' # Ts) line (length (p @ ?F f @ [CHR 0x09])) w' m' = (Inr (length line + 1, us), m2)" by auto
  moreover have "stream_field b nm enc T line (length p) w m = (Inr (length (p @ ?F f @ [CHR 0x09]), w', u), m')"
    using r vs(2) Cons.prems(4) by (simp add: stream_field_def assert_on_def prog_simps stop_or_cases)
  ultimately show ?case using vs(1) by (simp add: prog_simps del: stream_fields.simps(2) add: stream_fields.simps(2)[of b nm enc T "T' # Ts"])
qed

lemma written_line:
  assumes "enc \<noteq> Enc_unknown" "row \<noteq> []" "writable enc row" "\<forall>f\<in>set row. no_nul f" "row_line enc row = Inr line"
    and "map2 (stream_value nm) Ts row = map Inr vs" "length Ts = length row"
  shows "\<exists>m'. stream_line b nm enc Ts line m = (Inr vs, m')"
proof -
  obtain f fs where row: "row = f # fs" using assms(2) by (cases row) auto
  obtain T Ts' where Ts: "Ts = T # Ts'" "length Ts' = length fs" using assms(7) row by (cases Ts) auto
  have "line = Pqxx_Streams.field_text enc f @ concat (map (\<lambda>f. CHR 0x09 # Pqxx_Streams.field_text enc f) fs)"
    using fill_fields[OF assms(1,3), of "[]"] butlast_tabs[of "Pqxx_Streams.field_text enc" "CHR 0x09" f fs] row assms(5)
    by (simp add: row_line_def buffer_line_def)
  with written_fields[OF assms(1) Ts(2), of f nm T vs line "[]" "resize_row (length line + 1) m" 0 b] assms(3,4,6) row Ts(1)
  show ?thesis by (auto simp: stream_line_def assert_on_def prog_simps)
qed

subsection \<open>Over a server\<close>

text \<open>The caller's function notes the row that it is called with, and may throw.\<close>

record 'db listening = "'db querying" +
  seen_rows :: "cpp_value list list"

definition listener :: "(cpp_value list \<Rightarrow> exn + unit) \<Rightarrow> cpp_value list \<Rightarrow> ('db listening, unit) prog" where
  "listener body vs = sq (modify (\<lambda>w. w\<lparr>seen_rows := seen_rows w @ [vs]\<rparr>)) (lift_exn (body vs))"

text \<open>How many rows it is called with, and the exception that ends the calls.\<close>

fun calls_of :: "(cpp_value list \<Rightarrow> exn + unit) \<Rightarrow> cpp_value list list \<Rightarrow> nat \<times> exn option" where
  "calls_of body [] = (0, None)"
| "calls_of body (vs # rows) = (case body vs of Inl e \<Rightarrow> (1, Some e) | Inr u \<Rightarrow> (let (k, e) = calls_of body rows in (Suc k, e)))"

abbreviation query_focus :: "string \<times> string" where
  "query_focus \<equiv> (''stream_query'', [])"

lemma upd_order [simp]:
  "(w\<lparr>squery := q\<rparr>)\<lparr>db := d\<rparr> = (w\<lparr>db := d\<rparr>)\<lparr>squery := q\<rparr>" "(w\<lparr>siter := i\<rparr>)\<lparr>db := d\<rparr> = (w\<lparr>db := d\<rparr>)\<lparr>siter := i\<rparr>"
  "(v\<lparr>seen_rows := r\<rparr>)\<lparr>db := d\<rparr> = (v\<lparr>db := d\<rparr>)\<lparr>seen_rows := r\<rparr>" "(v\<lparr>seen_rows := r\<rparr>)\<lparr>squery := q\<rparr> = (v\<lparr>squery := q\<rparr>)\<lparr>seen_rows := r\<rparr>"
  "(v\<lparr>seen_rows := r\<rparr>)\<lparr>siter := i\<rparr> = (v\<lparr>siter := i\<rparr>)\<lparr>seen_rows := r\<rparr>"
  for w :: "('db, 'z) querying_scheme" and v :: "('db, 'y) listening_scheme"
  by (cases w; cases v; simp)+

lemma focused_query [simp]:
  "db (focused t f u) = db u" "(focused t f u)\<lparr>db := d\<rparr> = focused t f (u\<lparr>db := d\<rparr>)"
  "squery (focused t f w) = squery w" "siter (focused t f w) = siter w" "seen_rows (focused t f v) = seen_rows v"
  "(focused t f w)\<lparr>squery := q\<rparr> = focused t f (w\<lparr>squery := q\<rparr>)" "(focused t f w)\<lparr>siter := i\<rparr> = focused t f (w\<lparr>siter := i\<rparr>)"
  "(focused t f v)\<lparr>seen_rows := r\<rparr> = focused t f (v\<lparr>seen_rows := r\<rparr>)"
  for u :: "('db, 'x) session_scheme" and w :: "('db, 'z) querying_scheme" and v :: "('db, 'y) listening_scheme"
  by (cases u; cases w; cases v; simp add: focused_def)+

lemma owned_query [simp]: "owned t (u\<lparr>db := d\<rparr>) \<longleftrightarrow> owned t u" "owned t (w\<lparr>squery := q\<rparr>) \<longleftrightarrow> owned t w"
  "owned t (w\<lparr>siter := i\<rparr>) \<longleftrightarrow> owned t w" "owned t (v\<lparr>seen_rows := r\<rparr>) \<longleftrightarrow> owned t v"
  for u :: "('db, 'x) session_scheme" and w :: "('db, 'z) querying_scheme" and v :: "('db, 'y) listening_scheme"
  by (simp_all add: owned_def)

lemma query_open_ok:
  assumes o: "owned t w" "m_status (txs w ! t) = Tx_active" and e: "encoded_in pq enc"
    and c: "gives_copy pq cp (stream_cmd query) st" "c_mode (st (db w)) = Copy_idle"
    and n: "\<And>d r d'. exec_db pq (stream_cmd query) d = (Inr r, d') \<Longrightarrow> nfields r = int (length Ts)"
  shows "\<exists>d. stream_query_open pq nfields t Ts query w = (Inr (), focused t query_focus
      (w\<lparr>db := d, squery := \<lparr>query_tx = t, m_char_finder = Some enc, m_row = []\<rparr>\<rparr>))
    \<and> st d = (st (db w))\<lparr>c_mode := Copy_out (c_table (st (db w)))\<rparr>"
proof -
  obtain r d where r: "exec_db pq (stream_cmd query) (db w) = (Inr r, d)" "pg_rows r = []"
    "st d = (st (db w))\<lparr>c_mode := Copy_out (c_table (st (db w)))\<rparr>" using c unfolding gives_copy_def by blast
  let ?w = "w\<lparr>squery := \<lparr>query_tx = t, m_char_finder = Some enc, m_row = []\<rparr>\<rparr>"
  have "tx_exec pq t (stream_cmd query) ?w = (Inr r, ?w\<lparr>db := d\<rparr>)" using r(1) o by (simp add: tx_exec_owned)
  with r(2,3) ownedD[OF o(1)] n[OF r(1)] show ?thesis
    by (intro exI[of _ d]) (simp add: stream_query_open_def bnd_app sq_app finder_ok[OF e] no_rows_def columns_expected_def lift_exn_def
        register_focused upd_query_def prog_simps)
qed

lemma consume_line_ok:
  assumes c: "gives_copy pq cp cmd st" "c_mode (st (db w)) = Copy_out (l # ls)" and f: "m_char_finder (squery w) = Some enc"
  shows "\<exists>d. consume_line b pq cp w = (Inr (), w\<lparr>db := d, siter := \<lparr>m_line = Some (l @ [CHR 0x09]), m_line_size = length l\<rparr>\<rparr>)
    \<and> st d = (st (db w))\<lparr>c_mode := Copy_out ls\<rparr>"
proof -
  obtain d where d: "pq_get_copy cp (db w) = ((int (length l) + 1, l @ [newline]), d)" "st d = (st (db w))\<lparr>c_mode := Copy_out ls\<rparr>"
    using c unfolding gives_copy_def by meson
  have "nat (int (length l) + 1) - 1 = length l" by simp
  with d f show ?thesis
    by (intro exI[of _ d]) (simp add: consume_line_def query_read_line_def query_done_def assert_on_def read_copy_buffer_def set_line_def call_copy_def try_catch_def prog_simps)
qed

lemma query_close_ok:
  assumes "owned t w" "m_char_finder (squery w) = Some enc" "query_tx (squery w) = t"
  shows "stream_query_close (focused t query_focus w) = (Inr (), w\<lparr>squery := (squery w)\<lparr>m_char_finder := None\<rparr>\<rparr>)"
  using ownedD[OF assms(1)] assms(2,3) by (simp add: stream_query_close_def query_done_def upd_query_def unregister_focused prog_simps)

lemma consume_line_end:
  assumes o: "owned t w" and e: "encoded_in pq enc'" and c: "gives_copy pq cp cmd st" "c_mode (st (db w)) = Copy_out []"
    and f: "m_char_finder (squery w) = Some enc" "query_tx (squery w) = t"
  shows "\<exists>d. consume_line b pq cp (focused t query_focus w) = (Inr (),
      w\<lparr>db := d, squery := (squery w)\<lparr>m_char_finder := None\<rparr>, siter := \<lparr>m_line = None, m_line_size = 0\<rparr>\<rparr>)
    \<and> st d = (st (db w))\<lparr>c_mode := Copy_idle\<rparr>"
proof -
  obtain d1 r d where d: "pq_get_copy cp (db w) = ((-1, []), d1)" "pq_end_result cp d1 = (Some r, d)" "check_status r = Inr ()"
    "st d = (st (db w))\<lparr>c_mode := Copy_idle\<rparr>" using c unfolding gives_copy_def by meson
  have "stream_query_close (focused t query_focus (w\<lparr>db := d\<rparr>)) = (Inr (), w\<lparr>db := d, squery := (squery w)\<lparr>m_char_finder := None\<rparr>\<rparr>)"
    using query_close_ok[of t "w\<lparr>db := d\<rparr>" enc] o f by simp
  with d f show ?thesis
    by (intro exI[of _ d]) (simp add: consume_line_def query_read_line_def query_done_def assert_on_def read_copy_buffer_def set_line_def call_copy_def try_catch_def
        make_result_ok[OF e] prog_simps)
qed

lemma deref_ok:
  assumes "m_char_finder (squery w) = Some enc" "siter w = \<lparr>m_line = Some (l @ [CHR 0x09]), m_line_size = length l\<rparr>"
    and "stream_line b nm enc Ts l (m_row (squery w)) = (Inr vs, m')"
  shows "query_deref b nm Ts w = (Inr vs, w\<lparr>squery := (squery w)\<lparr>m_row := m'\<rparr>\<rparr>)"
  using assms by (simp add: query_deref_def on_row_def prog_simps)

definition gives_row :: "bool \<Rightarrow> (cpp_type \<Rightarrow> string) \<Rightarrow> encoding_group \<Rightarrow> cpp_type list \<Rightarrow> string \<Rightarrow> cpp_value list \<Rightarrow> bool" where
  "gives_row b nm enc Ts l vs \<longleftrightarrow> (\<forall>m. \<exists>m'. stream_line b nm enc Ts l m = (Inr vs, m'))"

lemma loop_step:
  fixes v :: "'db listening"
  assumes "m_char_finder (squery v) = Some enc" "siter v = \<lparr>m_line = Some (l @ [CHR 0x09]), m_line_size = length l\<rparr>"
    and "stream_line b nm enc Ts l (m_row (squery v)) = (Inr vs, m')"
    and "v2 = v\<lparr>squery := (squery v)\<lparr>m_row := m'\<rparr>, seen_rows := seen_rows v @ [vs]\<rparr>"
  shows "query_loop b (Suc j) pq cp nm Ts (listener body) v = (case body vs of
      Inl y \<Rightarrow> (Inl (Throw y), v2) | Inr u \<Rightarrow> sq (consume_line b pq cp) (query_loop b j pq cp nm Ts (listener body)) v2)"
proof -
  have lis: "listener body vs (v\<lparr>squery := (squery v)\<lparr>m_row := m'\<rparr>\<rparr>) = (case body vs of Inl y \<Rightarrow> (Inl (Throw y), v2) | Inr u \<Rightarrow> (Inr (), v2))"
    using assms(4) by (simp add: listener_def lift_exn_def prog_simps split: sum.split)
  have nx: "query_next b pq cp v2 = consume_line b pq cp v2"
    using assms(1,4) by (simp add: query_next_def query_done_def assert_on_def prog_simps)
  show ?thesis using assms(1) deref_ok[OF assms(1-3)] lis nx
    by (simp add: query_loop.simps[of b "Suc j"] query_done_def bnd_app sq_app prog_simps split: sum.split)
qed

text \<open>What a loop leaves: \<open>w1\<close> is the session without the stream as its focus.\<close>

definition loop_end :: "nat \<Rightarrow> exn option \<Rightarrow> (stop + unit) \<times> 'db listening \<Rightarrow> 'db listening \<Rightarrow> bool" where
  "loop_end t e r w1 \<longleftrightarrow> r = (case e of None \<Rightarrow> (Inr (), w1) | Some x \<Rightarrow> (Inl (Throw x), focused t query_focus w1))"

lemma query_loop_ok:
  fixes w :: "'db listening"
  assumes e: "encoded_in pq enc'" and c: "gives_copy pq cp cmd st"
  shows "list_all2 (gives_row b nm enc Ts) ls rows \<Longrightarrow> gives_row b nm enc Ts l vs \<Longrightarrow> length rows < n \<Longrightarrow> calls_of body (vs # rows) = (k, x) \<Longrightarrow>
    owned t w \<Longrightarrow> m_char_finder (squery w) = Some enc \<Longrightarrow> query_tx (squery w) = t \<Longrightarrow>
    siter w = \<lparr>m_line = Some (l @ [CHR 0x09]), m_line_size = length l\<rparr> \<Longrightarrow> c_mode (st (db w)) = Copy_out ls \<Longrightarrow>
    \<exists>d q i. loop_end t x (query_loop b n pq cp nm Ts (listener body) (focused t query_focus w))
        (w\<lparr>db := d, squery := q, siter := i, seen_rows := seen_rows w @ take k (vs # rows)\<rparr>)
      \<and> query_tx q = t \<and> m_char_finder q = (case x of None \<Rightarrow> None | Some y \<Rightarrow> Some enc)
      \<and> st d = (st (db w))\<lparr>c_mode := (case x of None \<Rightarrow> Copy_idle | Some y \<Rightarrow> Copy_out (drop k (l # ls)))\<rparr>"
proof (induction ls rows arbitrary: l vs n k x w rule: list_all2_induct)
  case Nil
  then obtain j where n: "n = Suc j" by (cases n) auto
  obtain m' where m': "stream_line b nm enc Ts l (m_row (squery w)) = (Inr vs, m')" using Nil(1) by (auto simp: gives_row_def)
  let ?q = "(squery w)\<lparr>m_row := m'\<rparr>"
  let ?w = "w\<lparr>squery := ?q, seen_rows := seen_rows w @ [vs]\<rparr>"
  have step: "query_loop b n pq cp nm Ts (listener body) (focused t query_focus w) = (case body vs of
      Inl y \<Rightarrow> (Inl (Throw y), focused t query_focus ?w) | Inr u \<Rightarrow> sq (consume_line b pq cp) (query_loop b j pq cp nm Ts (listener body)) (focused t query_focus ?w))"
    unfolding n using Nil(5,7) m' by (intro loop_step) simp_all
  show ?case
  proof (cases "body vs")
    case (Inl y)
    then have kx: "k = 1" "x = Some y" using Nil(3) by auto
    have "st (db w) = (st (db w))\<lparr>c_mode := Copy_out []\<rparr>" using Nil(8) by (cases "st (db w)") simp
    with Inl Nil(5,6) step kx show ?thesis
      by (intro exI[of _ "db w"] exI[of _ ?q] exI[of _ "siter w"]) (simp add: loop_end_def)
  next
    case (Inr u)
    then have kx: "k = 1" "x = None" using Nil(3) by auto
    obtain d where d: "consume_line b pq cp (focused t query_focus ?w) = (Inr (),
        ?w\<lparr>db := d, squery := ?q\<lparr>m_char_finder := None\<rparr>, siter := \<lparr>m_line = None, m_line_size = 0\<rparr>\<rparr>)" "st d = (st (db w))\<lparr>c_mode := Copy_idle\<rparr>"
      using consume_line_end[of t ?w pq enc' cp cmd st enc] e c Nil by auto
    show ?thesis using Inr Nil(6) step d kx
      by (intro exI[of _ d] exI[of _ "?q\<lparr>m_char_finder := None\<rparr>"] exI[of _ "\<lparr>m_line = None, m_line_size = 0\<rparr>"])
        (simp add: loop_end_def query_loop.simps[of b j] query_done_def sq_app prog_simps)
  qed
next
  case (Cons l' ls vs' rows)
  then obtain j where n: "n = Suc j" "length rows < j" by (cases n) auto
  obtain m' where m': "stream_line b nm enc Ts l (m_row (squery w)) = (Inr vs, m')" using Cons.prems(1) by (auto simp: gives_row_def)
  let ?q = "(squery w)\<lparr>m_row := m'\<rparr>"
  let ?w = "w\<lparr>squery := ?q, seen_rows := seen_rows w @ [vs]\<rparr>"
  have step: "query_loop b n pq cp nm Ts (listener body) (focused t query_focus w) = (case body vs of
      Inl y \<Rightarrow> (Inl (Throw y), focused t query_focus ?w) | Inr u \<Rightarrow> sq (consume_line b pq cp) (query_loop b j pq cp nm Ts (listener body)) (focused t query_focus ?w))"
    unfolding n(1) using Cons.prems(5,7) m' by (intro loop_step) simp_all
  show ?case
  proof (cases "body vs")
    case (Inl y)
    then have kx: "k = 1" "x = Some y" using Cons.prems(3) by auto
    have "st (db w) = (st (db w))\<lparr>c_mode := Copy_out (l' # ls)\<rparr>" using Cons.prems(8) by (cases "st (db w)") simp
    with Inl Cons.prems(5,6) step kx show ?thesis
      by (intro exI[of _ "db w"] exI[of _ ?q] exI[of _ "siter w"]) (simp add: loop_end_def)
  next
    case (Inr u)
    then obtain k' where k': "k = Suc k'" "calls_of body (vs' # rows) = (k', x)" using Cons.prems(3) by (auto simp del: calls_of.simps(2) simp: calls_of.simps(2)[of body vs] split: prod.splits)
    let ?i = "\<lparr>m_line = Some (l' @ [CHR 0x09]), m_line_size = length l'\<rparr>"
    obtain d where d: "consume_line b pq cp (focused t query_focus ?w) = (Inr (), (focused t query_focus ?w)\<lparr>db := d, siter := ?i\<rparr>)"
      "st d = (st (db w))\<lparr>c_mode := Copy_out ls\<rparr>"
      using consume_line_ok[OF c, of "focused t query_focus ?w" l' ls enc] Cons.prems(5,8) by auto
    let ?v = "w\<lparr>db := d, squery := ?q, siter := ?i, seen_rows := seen_rows w @ [vs]\<rparr>"
    obtain d' q i where r: "loop_end t x (query_loop b j pq cp nm Ts (listener body) (focused t query_focus ?v))
        (?v\<lparr>db := d', squery := q, siter := i, seen_rows := seen_rows ?v @ take k' (vs' # rows)\<rparr>)"
      "query_tx q = t" "m_char_finder q = (case x of None \<Rightarrow> None | Some y \<Rightarrow> Some enc)"
      "st d' = (st (db ?v))\<lparr>c_mode := (case x of None \<Rightarrow> Copy_idle | Some y \<Rightarrow> Copy_out (drop k' (l' # ls)))\<rparr>"
      using Cons.IH[OF Cons.hyps(1) n(2) k'(2), of ?v] Cons.prems(4,5,6) d(2) by auto
    show ?thesis using r step Inr d k'(1)
      by (intro exI[of _ d'] exI[of _ q] exI[of _ i]) (cases x; simp add: sq_app)
  qed
qed

lemma query_begin_app: "query_begin b pq cp w = consume_line b pq cp (w\<lparr>siter := \<lparr>m_line = None, m_line_size = 0\<rparr>\<rparr>)"
  by (simp add: query_begin_def set_line_def sq_app prog_simps)

text \<open>The loop from its beginning.\<close>

lemma query_range_ok:
  fixes w :: "'db listening"
  assumes e: "encoded_in pq enc'" and c: "gives_copy pq cp cmd st" and l: "list_all2 (gives_row b nm enc Ts) ls rows" "length rows \<le> n"
    and b: "calls_of body rows = (k, x)" and o: "owned t w" and q: "m_char_finder (squery w) = Some enc" "query_tx (squery w) = t"
    and d: "c_mode (st (db w)) = Copy_out ls"
  shows "\<exists>d q i. loop_end t x (sq (query_begin b pq cp) (query_loop b n pq cp nm Ts (listener body)) (focused t query_focus w))
        (w\<lparr>db := d, squery := q, siter := i, seen_rows := seen_rows w @ take k rows\<rparr>)
      \<and> query_tx q = t \<and> m_char_finder q = (case x of None \<Rightarrow> None | Some y \<Rightarrow> Some enc)
      \<and> st d = (st (db w))\<lparr>c_mode := (case x of None \<Rightarrow> Copy_idle | Some y \<Rightarrow> Copy_out (drop k ls))\<rparr>"
proof (cases ls)
  case Nil
  then have r: "rows = []" "k = 0" "x = None" using l(1) b by auto
  let ?w = "w\<lparr>siter := \<lparr>m_line = None, m_line_size = 0\<rparr>\<rparr>"
  obtain d' where d': "consume_line b pq cp (focused t query_focus ?w) = (Inr (),
        ?w\<lparr>db := d', squery := (squery w)\<lparr>m_char_finder := None\<rparr>, siter := \<lparr>m_line = None, m_line_size = 0\<rparr>\<rparr>)" "st d' = (st (db w))\<lparr>c_mode := Copy_idle\<rparr>"
    using consume_line_end[of t ?w pq enc' cp cmd st enc] e c o q d Nil by auto
  show ?thesis using r d' q(2)
    by (intro exI[of _ d'] exI[of _ "(squery w)\<lparr>m_char_finder := None\<rparr>"] exI[of _ "\<lparr>m_line = None, m_line_size = 0\<rparr>"])
      (simp add: loop_end_def query_begin_app query_loop.simps[of b n] query_done_def sq_app prog_simps)
next
  case (Cons l' ls')
  then obtain vs rows' where r: "rows = vs # rows'" "gives_row b nm enc Ts l' vs" "list_all2 (gives_row b nm enc Ts) ls' rows'"
    using l(1) by (auto simp: list_all2_Cons1)
  let ?i = "\<lparr>m_line = Some (l' @ [CHR 0x09]), m_line_size = length l'\<rparr>"
  let ?w = "w\<lparr>siter := \<lparr>m_line = None, m_line_size = 0\<rparr>\<rparr>"
  obtain d' where d': "consume_line b pq cp (focused t query_focus ?w) = (Inr (), (focused t query_focus ?w)\<lparr>db := d', siter := ?i\<rparr>)"
      "st d' = (st (db w))\<lparr>c_mode := Copy_out ls'\<rparr>"
    using consume_line_ok[OF c, of "focused t query_focus ?w" l' ls' enc] d q(1) Cons by auto
  let ?v = "w\<lparr>db := d', siter := ?i\<rparr>"
  obtain d2 q2 i2 where "loop_end t x (query_loop b n pq cp nm Ts (listener body) (focused t query_focus ?v))
        (?v\<lparr>db := d2, squery := q2, siter := i2, seen_rows := seen_rows ?v @ take k (vs # rows')\<rparr>)"
      "query_tx q2 = t" "m_char_finder q2 = (case x of None \<Rightarrow> None | Some y \<Rightarrow> Some enc)"
      "st d2 = (st (db ?v))\<lparr>c_mode := (case x of None \<Rightarrow> Copy_idle | Some y \<Rightarrow> Copy_out (drop k (l' # ls')))\<rparr>"
    using query_loop_ok[OF e c r(3,2), of n body k x t ?v] l(2) b o q d' r(1) by auto
  with d' r(1) Cons show ?thesis
    by (intro exI[of _ d2] exI[of _ q2] exI[of _ i2]) (cases x; simp add: query_begin_app sq_app)
qed

text \<open>The stream is destroyed: its focus ends, and the transaction is what it was.\<close>

lemma query_guard_ok:
  assumes l: "loop_end t x (m w) v" and o: "owned t v" and q: "query_tx (squery v) = t"
      "m_char_finder (squery v) = (case x of None \<Rightarrow> None | Some y \<Rightarrow> Some enc)"
  shows "guard_with m (\<lambda>w. snd (stream_query_destructor w)) w
    = ((case x of None \<Rightarrow> Inr () | Some y \<Rightarrow> Inl (Throw y)), v\<lparr>squery := (squery v)\<lparr>m_char_finder := None\<rparr>\<rparr>)"
proof (cases x)
  case None
  with l q show ?thesis
    by (simp add: loop_end_def guard_with_def stream_query_destructor_def stream_query_close_def query_done_def try_catch_def prog_simps)
next
  case (Some y)
  with l query_close_ok[OF o _ q(1), of enc] q(2) show ?thesis
    by (simp add: loop_end_def guard_with_def stream_query_destructor_def try_catch_def)
qed

text \<open>
  C15.  In a build with assertions or without, \<open>for_stream\<close> calls its function once for each row of the query, in the order of the rows and with their values, until the function throws.
  Then the exception comes out, the rest of the rows is still to be read, so that the connection cannot be used; otherwise the copy has ended.
  In both cases the stream is done and the transaction has no focus.
\<close>

theorem for_stream_passes_rows:
  fixes w :: "'db listening"
  assumes "owned t w" "m_status (txs w ! t) = Tx_active" and "encoded_in pq enc" "enc \<noteq> Enc_unknown"
    and "gives_copy pq cp (stream_cmd query) st" "c_mode (st (db w)) = Copy_idle"
    and "\<And>d r d'. exec_db pq (stream_cmd query) d = (Inr r, d') \<Longrightarrow> nfields r = int (length Ts)"
    and "list_all2 (\<lambda>l fs. fs \<noteq> [] \<and> writable enc fs \<and> (\<forall>f\<in>set fs. no_nul f) \<and> row_line enc fs = Inr l) (c_table (st (db w))) table"
    and "list_all2 (\<lambda>fs vs. length Ts = length fs \<and> map2 (stream_value type_name) Ts fs = map Inr vs) table rows"
    and "length rows \<le> n" "calls_of body rows = (k, x)"
  shows "\<exists>w'. for_stream ndebug n pq cp nfields type_name t Ts query (listener body) w
        = ((case x of None \<Rightarrow> Inr () | Some e \<Rightarrow> Inl (Throw e)), w')
      \<and> seen_rows w' = seen_rows w @ take k rows
      \<and> st (db w') = (st (db w))\<lparr>c_mode := (case x of None \<Rightarrow> Copy_idle | Some e \<Rightarrow> Copy_out (drop k (c_table (st (db w)))))\<rparr>
      \<and> m_char_finder (squery w') = None \<and> txs w' = txs w"
proof -
  have lines: "list_all2 (gives_row ndebug type_name enc Ts) (c_table (st (db w))) rows"
    using list_all2_trans[OF _ assms(8,9), of "gives_row ndebug type_name enc Ts"] written_line[OF assms(4)] by (fastforce simp: gives_row_def)
  obtain d where d: "stream_query_open pq nfields t Ts query w = (Inr (), focused t query_focus
      (w\<lparr>db := d, squery := \<lparr>query_tx = t, m_char_finder = Some enc, m_row = []\<rparr>\<rparr>))"
    "st d = (st (db w))\<lparr>c_mode := Copy_out (c_table (st (db w)))\<rparr>"
    using query_open_ok[of t w pq enc cp query st nfields Ts] assms(1,2,3,5,6,7) by auto
  let ?v = "w\<lparr>db := d, squery := \<lparr>query_tx = t, m_char_finder = Some enc, m_row = []\<rparr>\<rparr>"
  obtain d' q i where r: "loop_end t x (sq (query_begin ndebug pq cp) (query_loop ndebug n pq cp type_name Ts (listener body)) (focused t query_focus ?v))
        (?v\<lparr>db := d', squery := q, siter := i, seen_rows := seen_rows ?v @ take k rows\<rparr>)"
      "query_tx q = t" "m_char_finder q = (case x of None \<Rightarrow> None | Some y \<Rightarrow> Some enc)"
      "st d' = (st (db ?v))\<lparr>c_mode := (case x of None \<Rightarrow> Copy_idle | Some y \<Rightarrow> Copy_out (drop k (c_table (st (db w)))))\<rparr>"
    using query_range_ok[OF assms(3,5) lines assms(10,11), of t ?v] assms(1) d(2) by auto
  let ?w1 = "?v\<lparr>db := d', squery := q, siter := i, seen_rows := seen_rows ?v @ take k rows\<rparr>"
  have "guard_with (sq (query_begin ndebug pq cp) (query_loop ndebug n pq cp type_name Ts (listener body))) (\<lambda>w. snd (stream_query_destructor w)) (focused t query_focus ?v)
    = ((case x of None \<Rightarrow> Inr () | Some y \<Rightarrow> Inl (Throw y)), ?w1\<lparr>squery := (squery ?w1)\<lparr>m_char_finder := None\<rparr>\<rparr>)"
    using r(2,3) assms(1) by (intro query_guard_ok[where enc = enc and m = "sq (query_begin ndebug pq cp) (query_loop ndebug n pq cp type_name Ts (listener body))" and w = "focused t query_focus ?v", OF r(1)]) simp_all
  then show ?thesis using d r(4)
    by (intro exI[of _ "?w1\<lparr>squery := (squery ?w1)\<lparr>m_char_finder := None\<rparr>\<rparr>"]) (cases x; simp add: for_stream_def sq_app)
qed

text \<open>Three rows of a number and a text, and a function that throws at the second.\<close>

definition query_pq :: "copy_store libpq" where
  "query_pq = copy_pq\<lparr>pq_exec := (\<lambda>q d. (Some copy_ok, d\<lparr>c_mode := Copy_out (c_table d)\<rparr>))\<rparr>"

definition query_table :: "copy_field list list" where
  "query_table = [[Some ''1'', None], [Some ''23'', Some [CHR 0x5C, CHR 0x09]], [Some ''4'', Some []]]"

definition query_lines :: "string list" where
  "query_lines = [[CHR ''1'', CHR 0x09, CHR 0x5C, CHR ''N''], [CHR ''2'', CHR ''3'', CHR 0x09, CHR 0x5C, CHR 0x5C, CHR 0x5C, CHR ''t''], [CHR ''4'', CHR 0x09]]"

definition query_types :: "cpp_type list" where
  "query_types = [Int_type True 32, Optional String_type]"

definition query_rows :: "cpp_value list list" where
  "query_rows = [[Int_value 1, Nothing], [Int_value 23, Just (Text_value [CHR 0x5C, CHR 0x09])], [Int_value 4, Just (Text_value [])]]"

definition query_body :: "cpp_value list \<Rightarrow> exn + unit" where
  "query_body vs = (if hd vs = Int_value 23 then Inl Out_of_range else Inr ())"

definition query_session :: "copy_store listening" where
  "query_session = session.extend (begun_session \<lparr>c_table = query_lines, c_mode = Copy_idle\<rparr>)
     \<lparr>squery = \<lparr>query_tx = 0, m_char_finder = None, m_row = []\<rparr>, siter = \<lparr>m_line = None, m_line_size = 0\<rparr>, seen_rows = []\<rparr>"

lemma query_session_facts: "db query_session = \<lparr>c_table = query_lines, c_mode = Copy_idle\<rparr>" "owned 0 query_session"
  "m_status (txs query_session ! 0) = Tx_active" "seen_rows query_session = []"
  by (simp_all add: owned_def query_session_def new_tx_def session.defs begun_session_def fresh_session_def)

lemma query_encoded: "encoded_in query_pq Ascii_safe"
  using copy_encoded by (simp add: encoded_in_def query_pq_def)

lemma query_gives: "gives_copy query_pq copy_cp cmd id"
proof -
  have "enc_group ''UTF8'' = Inr Ascii_safe" by code_simp
  then have "exec_db query_pq cmd d = (Inr copy_ok, d\<lparr>c_mode := Copy_out (c_table d)\<rparr>)" for d
    by (simp add: exec_db_def query_pq_def copy_pq_def copy_ok_def check_status_def status_error_def)
  then show ?thesis unfolding gives_copy_def
    by (auto simp: copy_ok_def copy_cp_def check_status_def status_error_def)
qed

lemma query_lines_written:
  "list_all2 (\<lambda>l fs. fs \<noteq> [] \<and> writable Ascii_safe fs \<and> (\<forall>f\<in>set fs. no_nul f) \<and> row_line Ascii_safe fs = Inr l) query_lines query_table"
proof -
  have "\<forall>fs\<in>set query_table. writable Ascii_safe fs" by code_simp
  moreover have "map (row_line Ascii_safe) query_table = map Inr query_lines" by code_simp
  ultimately show ?thesis by (simp add: query_lines_def query_table_def no_nul_def)
qed

lemma query_values:
  "list_all2 (\<lambda>fs vs. length query_types = length fs \<and> map2 (stream_value type_name) query_types fs = map Inr vs) query_table query_rows"
proof -
  have n: "from_string_arithmetic (from_chars_int (- 2147483648) 2147483647) ''integer'' ''1'' = Inr 1"
    "from_string_arithmetic (from_chars_int (- 2147483648) 2147483647) ''integer'' ''23'' = Inr 23"
    "from_string_arithmetic (from_chars_int (- 2147483648) 2147483647) ''integer'' ''4'' = Inr 4" by code_simp+
  have "stream_value type_name (Int_type True 32) (Some t) = map_sum Throw id (map_sum id Int_value
      (from_string_arithmetic (from_chars_int (- (2 ^ 31)) (2 ^ 31 - 1)) ''integer'' t))" for t
    by (simp add: stream_value_def)
  then show ?thesis by (simp only: query_types_def query_table_def query_rows_def) (simp add: n stream_value_def[of type_name "Optional String_type"])
qed

theorem for_stream_passes_rows_witness:
  "\<exists>w'. for_stream True 3 query_pq copy_cp (\<lambda>_. 2) (\<lambda>_. ''t'') 0 query_types ''SELECT 1'' (listener query_body) query_session = (Inl (Throw Out_of_range), w')
     \<and> seen_rows w' = take 2 query_rows \<and> c_mode (db w') = Copy_out [[CHR ''4'', CHR 0x09]] \<and> txs w' = txs query_session"
proof -
  have k: "calls_of query_body query_rows = (2, Some Out_of_range)" by (simp add: query_rows_def query_body_def)
  have "length query_rows \<le> 3" "length query_types = 2" by (simp_all add: query_rows_def query_types_def)
  then show ?thesis
    using for_stream_passes_rows[OF query_session_facts(2,3) query_encoded _ query_gives _ _ _ query_values _ k, where nfields = "\<lambda>_. 2" and ndebug = True and n = 3 and type_name = "\<lambda>_. ''t''" and query = "''SELECT 1''"]
      query_lines_written by (auto simp: query_session_facts query_lines_def)
qed

end
