(* ===== verification/Spec2Isabelle.thy ===== *)
theory Spec2Isabelle
  imports Discipline Menu_Safety Receipts Store Pqxx_Streams Pqxx_Range Pqxx_Cursor Pqxx_Time
    Pqxx_Transactor Pipeline_Spec Pqxx_Kinds Blob_Spec Pqxx_Cursor_Open Copy_Spec
    Quote_Spec Connection_Spec Result_Spec Params_Spec Largeobject_Spec Traits_Spec Query_Spec
begin

text \<open>
  \<^bold>\<open>A verification development of cli_pos, a point-of-sale program for the terminal, and of the parts of
  libpqxx it rests on.\<close>

  \<^bold>\<open>The program.\<close>  \<open>src/src/main.cpp\<close> shows three tabs (products, basket, stock) in a terminal, reads a key,
  and runs the handlers of that key: moving the selection, searching by name, adding and removing products,
  filling the basket by hand or by a barcode scanner, printing the receipt, and the settings menus of
  \<open>menus.cpp\<close>.  The products live in a PostgreSQL table, which \<open>database_functions.cpp\<close> queries and updates
  through libpqxx, a copy of which is part of the repository (\<open>src/libpqxx\<close>).  Every round of the main loop and
  every handler that needs the database opens a \<open>pqxx::work\<close>, a transaction that its destructor closes.

  \<^bold>\<open>How effects are modelled.\<close>  \<open>Prelude\<close> has the monad in which every effectful function is written: a
  computation takes a world and returns a value or the reason why it stopped (an exception, an undefined
  operation such as an index out of range, waiting for a key that never comes), with the new world.
  Destructors are written out where the scope of an object ends (\<open>with_work\<close>).  The world of the program is a
  record that extends the terminal by the connection and by the global variables.  Three things outside the
  repository are parameters: ncurses (\<open>Console\<close>: the output calls are recorded, the keys are a list, the size of
  the screen is fixed), libpq (\<open>Pqxx_Session\<close>: a record \<open>libpq\<close> of what its functions return, over a server state of any type),
  and the printer device (a list of the outcomes of \<open>open\<close>).  What \<open>erase(end())\<close> leaves of a vector and an
  uninitialised flag are parameters too.

  \<^bold>\<open>Theories and sources.\<close>
  \<^item> \<open>Prelude\<close>: the monad, its logic, shared lemmas.  \<open>Ieee_Double\<close>: the C++ type \<open>double\<close>.  \<open>Cpp_Std\<close>: the functions
    of the standard library that the program calls (\<open>to_string\<close>, \<open>stol\<close>, \<open>stod\<close>, \<open>from_chars\<close>, fixed-point
    formats).  \<open>Console\<close>: the terminal.
  \<^item> \<open>Search\<close>: \<open>binary_search.cpp\<close>.  \<open>Input\<close>: \<open>input_string.cpp\<close>.  \<open>Shop_Data\<close>: \<open>definitions_and_variables\<close>,
    \<open>text.h\<close>, the connection string.  \<open>Database\<close>: \<open>database_functions.cpp\<close>.  \<open>Menus\<close>: \<open>menus.cpp\<close>.  \<open>Drawing\<close>,
    \<open>Basket\<close>, \<open>Product_Form\<close>, \<open>Main_Loop\<close>: \<open>main.cpp\<close>, in the order of the file; one definition per handler, the
    whole loop in \<open>main_round\<close> and the function itself in \<open>main\<close>.  \<open>Sql_Reference\<close>: a reader of the SQL that the program writes, and what
    its statements do to a table of products, for the theorem of \<open>Store\<close>.
  \<^item> \<open>Pqxx_Encodings\<close>: encoding groups, glyph scanners and the search for ASCII characters (\<open>encodings.cxx\<close>,
    \<open>internal/encodings.hxx\<close>).  \<open>Pqxx_Session\<close>: query execution, error classification and the life of a transaction
    (\<open>connection.cxx\<close>, \<open>result.cxx\<close>, \<open>transaction_base.cxx\<close>, \<open>transaction.cxx\<close>).  \<open>Pqxx_Convert\<close>: conversions of
    numbers, booleans and binary data (\<open>strconv.cxx\<close>, \<open>util.cxx\<close>, \<open>field.hxx\<close>).
  \<^item> \<open>Pqxx_Streams\<close>: the lines of \<open>COPY\<close> (\<open>stream_to.cxx\<close>, \<open>stream_from.cxx\<close>).  \<open>Pqxx_Arrays\<close>, \<open>Pqxx_Composite\<close>: SQL
    arrays and composite values (\<open>array.hxx\<close>, \<open>array.cxx\<close>, \<open>composite.hxx\<close>, \<open>internal/array-composite.hxx\<close>).
    \<open>Pqxx_Range\<close>: \<open>range.hxx\<close>.  \<open>Pqxx_Cursor\<close>: \<open>sql_cursor.cxx\<close> and stateless retrieval of \<open>cursor.cxx\<close>.
    \<open>Pqxx_Text\<close> has the lemmas about well-encoded text that they share.  \<open>Pqxx_Time\<close>: dates (\<open>time.cxx\<close>).
  \<^item> \<open>Pqxx_Transactor\<close>: \<open>perform\<close> of \<open>transactor.hxx\<close>, over any callback.  \<open>Pqxx_Pipeline\<close>: every operation of
    \<open>pipeline.cxx\<close>; the map of queries is a list in the order of its keys and an iterator is a key.  \<open>Pipeline_Order\<close>
    has the contract of a server that answers in order and the invariant of the three parts of a pipeline (done, with
    the server, waiting); \<open>Pipeline_Spec\<close> shows that the operations keep it, and what they promise.
  \<^item> \<open>Pqxx_Kinds\<close>: \<open>nontransaction.hxx\<close>, \<open>subtransaction.cxx\<close> and \<open>robusttransaction.cxx\<close>, which fill in the virtual
    functions of the transaction.  \<open>Pqxx_Blob\<close>: \<open>blob.cxx\<close>, over any functions \<open>lo_*\<close> of libpq; \<open>Blob_Spec\<close> has the contract of a
    server that keeps objects as strings of bytes.  \<open>Pqxx_Cursor_Stream\<close>: the cursor streams of \<open>cursor.cxx\<close> and their
    iterators, a doubly linked list on a heap.  \<open>Pqxx_Cursor_Open\<close>: how cursors are declared, adopted and destroyed, and the class
    \<open>stateless_cursor\<close>.
  \<^item> \<open>Pqxx_Quote\<close>: quoting of text, names and tables, \<open>esc_like\<close> and the connection string that a connection gives of itself
    (\<open>connection.cxx\<close>); \<open>Quote_Spec\<close> has the readers of SQL names, of \<open>LIKE\<close> patterns and of connection strings.  \<open>Pqxx_Connection\<close>: how a
    connection is opened, in one go or in steps, and closed, its variables, its error handlers, its notification receivers and
    handlers, and waiting for a notification (\<open>connection.cxx\<close>, \<open>connection.hxx\<close>, \<open>notification.cxx\<close>, \<open>wait.cxx\<close>), over
    any handlers and any server; \<open>Connection_Spec\<close> has the contracts of a server that listens and of one that notifies.
  \<^item> \<open>Pqxx_Result\<close>: results, rows and fields, their accessors and checks (\<open>result.cxx\<close>, \<open>row.cxx\<close>, \<open>field.cxx\<close>, \<open>row.hxx\<close>,
    \<open>field.hxx\<close>).  \<open>Pqxx_Iterators\<close>: the iterators over rows and over fields, forward and backward.  \<open>Pqxx_Fields\<close>: conversion of
    fields and rows, loops over a result with a function, and the iteration of \<open>result_iter.hxx\<close>.  \<open>Result_Spec\<close> has their theorems.
    \<open>Pqxx_Params\<close>: parameters, placeholders and prepared statements (\<open>params.hxx\<close>, \<open>params.cxx\<close>, \<open>connection.cxx\<close>); \<open>Params_Spec\<close>
    has their theorems.
  \<^item> \<open>Pqxx_Copy\<close>: the objects \<open>stream_to\<close> and \<open>stream_from\<close> over the copy functions of \<open>connection.cxx\<close>, for any functions
    \<open>PQgetCopyData\<close>, \<open>PQputCopyData\<close> and \<open>PQputCopyEnd\<close>; \<open>Copy_Spec\<close> has the contract of a server that takes and gives copies.
    \<open>Pqxx_Query\<close>: \<open>stream_query\<close> with its row buffer, its iterator and \<open>for_stream\<close> (\<open>internal/stream_query.hxx\<close>, \<open>stream_query_impl.hxx\<close>,
    \<open>transaction_base.hxx\<close>), and tuples from a \<open>stream_from\<close>; \<open>Query_Spec\<close> has their theorems, over the server of \<open>Copy_Spec\<close>.
  \<^item> \<open>Pqxx_Largeobject\<close>: the deprecated large objects with their stream buffers and streams (\<open>largeobject.cxx\<close>, \<open>largeobject.hxx\<close>);
    \<open>Largeobject_Spec\<close> has their theorems, over the server of \<open>Blob_Spec\<close>.  \<open>Pqxx_Traits\<close>: the nulls, the size estimates and the
    conversions of the C++ types (\<open>internal/conversions.hxx\<close>, \<open>strconv.hxx\<close>), arrays and composite values in buffers of a given size, where
    writing past the end is undefined; \<open>Traits_Spec\<close> relates them to the definitions without buffers and says when the estimates are enough.

  \<^bold>\<open>Interfaces.\<close>  \<open>glyph_scan\<close> is what the search needs of a scanner, and \<open>local_scan\<close> extends it by what the text
  formats need; the four scanners of libpqxx interpret both.  \<open>traversal\<close> is what a loop
  needs of an iterator, \<open>random_access\<close> extends it by the arithmetic of positions and \<open>subscripted\<close> by subscripts; the iterators over rows,
  over fields and over the fields of a row backward interpret all three, the reverse iterator over rows the first two.  \<open>ordered_probe\<close> is what the binary search needs of
  a comparison.  \<open>wiretap\<close> is a server that writes down what it is sent.  \<open>typestate\<close> is the logic of code that
  holds a transaction, interpreted once for code that works on an active transaction and once for code
  between transactions.  \<open>console_logic\<close>, \<open>session_frame\<close>, \<open>session_logic\<close>, \<open>screen_logic\<close>, \<open>app_logic\<close>, \<open>shop_logic\<close>
  and \<open>full_logic\<close> prove, once for each function of the program, that it keeps any property that survives
  the elementary updates; the invariants of the basket and the layout, the bound on the keys, liveness,
  the discipline of transactions and the theorems about receipts are interpretations of them.

  \<^bold>\<open>What is shown.\<close>
  \<^item> The program: no run makes libpqxx throw a \<open>usage_error\<close> or leaves a transaction open (\<open>Discipline\<close>); the basket
    stays well formed and the layout in range, the loop ends when the keys do and waits only then
    (\<open>Invariants\<close>); basket operations refine updates of a map from codes to quantities; what the printer receives and
    that the checkout clears the basket only after a receipt (\<open>Receipts\<close>); menus index in range (\<open>Menu_Safety\<close>);
    a stored product is read back unchanged from any server that executes the texts of the statements as SQL says (\<open>Store\<close>), which rests on prices surviving \<open>to_string\<close> and
    \<open>from_string\<close> (\<open>Money\<close>); when the name search finds a name and when it misses one, and that the bubble sort
    does not return (\<open>Search\<close>); the line editor refines a pure one (\<open>Input\<close>).
  \<^item> libpqxx: what the server sees of a transaction and what the caller learns of its end, for any order of calls
    and any failures (\<open>Pqxx_Session\<close>); the character search against a reference definition in every encoding;
    round trips of numbers, binary data, \<open>COPY\<close> rows, arrays of any dimension, composites and ranges; ranges as
    sets; the rows that a cursor made from a query, or adopted wherever it stands, retrieves; that rows streamed into a table are streamed
    out of it again, and what a failing copy leaves behind; that \<open>for_stream\<close> passes on the rows of its query, that \<open>stream_query\<close> and
    \<open>stream_from\<close> agree on every line that both accept, and that the row buffer is large enough for any line while assertions are checked; dates of the calendar and their text; that a transaction
    repeated by \<open>perform\<close> is committed at most once; that a pipeline executes every query once and in order and gives each
    its own result, in whatever order its operations are called; what the server sees of a subtransaction, and what a robust
    transaction makes of a lost connection; that large objects hold what is stored in them; that every iterator of a cursor
    stream reads the block at its own position, and that the list of iterators stays well linked; that a connection is either
    opened or closed again; that the server listens to exactly the channels somebody waits for, and that every notification reaches
    everybody who waits for it once; that quoted names, escaped patterns and connection strings are read back as what was quoted;
    that loops over results and rows, in either direction, visit everything once and in order; and that
    placeholders count and statements receive the parameters they are given, in order; that a text written through a stream over
    a large object is read back from it; for which values the estimate of a buffer is large enough, and for which it is not; and that
    every value of a type that can be written and read is read back (\<open>Traits_Spec.to_string_from_string\<close>).

  \<^bold>\<open>Bounds and fuel.\<close>  A loop that waits for keys takes as fuel the number of keys that are left plus one
  (\<open>while_keys\<close>); every round that does not end it reads a key, and \<open>Invariants.main_loop_unfold\<close> shows that
  the loop of \<open>main\<close> equals its unfolding, so the fuel never ends it.  The bubble sort is a partial function and its never returning is the
  theorem.  The loops of a pipeline take the number of its queries plus one; every step passes a query, and
  \<open>Pipeline_Order.receive_loop_ok\<close> and \<open>Pipeline_Spec.cancel_loop_ok\<close> show that this is enough.  The walk along the iterators of a
  cursor stream takes a bound, and any bound above their number is enough (\<open>Pqxx_Cursor_Stream.walk_ok\<close>); the loops that read a copied table take a
  bound on its lines, and any bound above their number is enough (\<open>Copy_Spec.read_rows_ok\<close>, \<open>Copy_Spec.copy_stream_ok\<close>), and the loop of \<open>for_stream\<close> any bound that their number does not exceed; the loop that
  delivers notifications takes a bound, and any bound above the number of waiting notifications is enough
  (\<open>Connection_Spec.notifications_delivered\<close>); a loop over iterators that never meet its end would not return, and
  \<open>Result_Spec.loops_visit_all_in_order\<close> shows that those of libpqxx do; the 500
  attempts of a robust transaction are the code's own.  All other loops are total functions
  with a measure.  Machine integers have their ranges written out where
  the code depends on them (the \<open>short\<close> index of \<open>remove_non_nr\<close>, unsigned differences, \<open>long\<close> codes).  Quantities are
  bounded by \<open>2 ^ 53\<close>, up to where adding one to a double is exact; prices have up to six decimals, which is what
  \<open>std::to_string\<close> prints.  Cursor positions are bounded by \<open>2 ^ 30\<close>, so that no difference of positions reaches the
  special values of 32-bit integers that mean all rows.

  \<^bold>\<open>Not modelled.\<close>  Of libpqxx: the text of floating-point numbers made by
  \<open>to_chars\<close>, and what differs only in types from what is modelled (wrappers, constructors, overloads).  The program uses none of
  these.  Its own connection is taken as given, open.  Outside \<open>Pqxx_Traits\<close>, \<open>Pqxx_Query\<close>, \<open>Pqxx_Params\<close> and \<open>Pqxx_Time\<close> texts are values, not
  buffers.  \<open>Pqxx_Query\<close> takes whether \<open>NDEBUG\<close> is defined; elsewhere a condition that the code asserts is an error of its own where it can fail.
  The numbers that make the names of cursors and transactions unique are unbounded integers.  The file \<open>drawing_functions.cpp\<close> is an older copy of functions of \<open>main.cpp\<close> that is not compiled.  Tests, tools
  and build files of libpqxx are left out.
\<close>

end
